(* ===== verification/Prelude.thy ===== *)
theory Prelude
  imports Main "HOL-Library.Word"
begin

text \<open>
  Shared vocabulary of the development: the machine types of the Go sources, Go's slice
  expressions and \<open>copy\<close>, and the big-endian byte representation of natural numbers that
  \<open>math/big\<close> (\<open>Bytes\<close>, \<open>SetBytes\<close>) and \<open>encoding/binary\<close> use.
  The collection \<open>be_simps\<close> holds the rewrite rules on big-endian numbers, \<open>go_slice\<close>
  the rules on slices.
\<close>

named_theorems be_simps \<open>rewrite rules for big-endian numbers\<close>
named_theorems go_slice \<open>rewrite rules for Go slice expressions\<close>

unbundle bit_operations_syntax

type_synonym byte = "8 word"
type_synonym bytes = "byte list"
type_synonym u64 = "64 word"

section \<open>Go slices\<close>

text \<open>\<open>xs[i:j]\<close>, for indices within range.\<close>

definition subslice :: "nat \<Rightarrow> nat \<Rightarrow> 'a list \<Rightarrow> 'a list" where
  "subslice i j xs = take (j - i) (drop i xs)"

text \<open>\<open>copy(dst[pos:], src)\<close>: overwrites as many elements as fit.\<close>

definition copy_at :: "nat \<Rightarrow> 'a list \<Rightarrow> 'a list \<Rightarrow> 'a list" where
  "copy_at pos src dst =
     take pos dst @ take (length dst - pos) src @ drop (pos + length src) dst"

lemma length_copy_at [simp]: "length (copy_at pos src dst) = length dst"
  by (simp add: copy_at_def)

lemma copy_at_fits [go_slice]:
  "length src \<le> length dst - pos \<Longrightarrow>
   copy_at pos src dst = take pos dst @ src @ drop (pos + length src) dst"
  by (simp add: copy_at_def)

lemma copy_at_append [go_slice]:
  assumes "length src \<le> length post"
  shows "copy_at (length pre) src (pre @ post) = pre @ src @ drop (length src) post"
  using assms by (simp add: copy_at_def)

lemma length_slice [simp]: "length (subslice i j xs) = min (j - i) (length xs - i)"
  by (simp add: subslice_def min.commute)

lemma slice_full [go_slice]: "subslice 0 (length xs) xs = xs"
  by (simp add: subslice_def)

lemma slice_prefix [go_slice]: "subslice 0 (length xs) (xs @ ys) = xs"
  by (simp add: subslice_def)

lemma slice_mid [go_slice]:
  "subslice (length xs) (length xs + length ys) (xs @ ys @ zs) = ys"
  by (simp add: subslice_def)

text \<open>An element of a list is smaller than the list, for recursion through an index.\<close>

lemma size_nth_less: "i < length xs \<Longrightarrow> size (xs ! i) < size_list size xs"
proof (induction xs arbitrary: i)
  case Nil
  then show ?case by simp
next
  case (Cons x xs)
  show ?case
  proof (cases i)
    case 0
    then show ?thesis by simp
  next
    case (Suc j)
    with Cons.prems have "size (xs ! j) < size_list size xs" by (intro Cons.IH) simp
    with Suc show ?thesis by simp
  qed
qed

section \<open>Big-endian numbers\<close>

text \<open>The shortest big-endian representation of \<open>n\<close> (\<open>big.Int.Bytes\<close>): empty for 0.\<close>

fun nat_to_be :: "nat \<Rightarrow> bytes" where
  "nat_to_be n = (if n = 0 then [] else nat_to_be (n div 256) @ [word_of_nat (n mod 256)])"

declare nat_to_be.simps [simp del]

text \<open>The value of a big-endian byte string (\<open>big.Int.SetBytes\<close>).\<close>

definition be_to_nat :: "bytes \<Rightarrow> nat" where
  "be_to_nat bs = foldl (\<lambda>acc b. acc * 256 + unat b) 0 bs"

text \<open>The low \<open>k\<close> bytes of \<open>n\<close>, most significant first (\<open>binary.BigEndian.PutUint64\<close> for 8).\<close>

fun be_fixed :: "nat \<Rightarrow> nat \<Rightarrow> bytes" where
  "be_fixed 0 n = []"
| "be_fixed (Suc k) n = be_fixed k (n div 256) @ [word_of_nat (n mod 256)]"

lemma nat_to_be_0 [simp]: "nat_to_be 0 = []"
  by (simp add: nat_to_be.simps)

lemma nat_to_be_pos: "0 < n \<Longrightarrow> nat_to_be n = nat_to_be (n div 256) @ [word_of_nat (n mod 256)]"
  by (simp add: nat_to_be.simps)

lemma nat_to_be_eq_Nil_iff [simp]: "nat_to_be n = [] \<longleftrightarrow> n = 0"
  by (simp add: nat_to_be.simps)

lemma be_to_nat_Nil [simp]: "be_to_nat [] = 0"
  by (simp add: be_to_nat_def)

lemma be_to_nat_snoc [simp]: "be_to_nat (bs @ [b]) = be_to_nat bs * 256 + unat b"
  by (simp add: be_to_nat_def)

lemma be_to_nat_append: "be_to_nat (xs @ ys) = be_to_nat xs * 256 ^ length ys + be_to_nat ys"
  by (induction ys rule: rev_induct) (simp_all add: append_assoc [symmetric] algebra_simps del: append_assoc)

lemma be_to_nat_Cons: "be_to_nat (x # xs) = unat x * 256 ^ length xs + be_to_nat xs"
  using be_to_nat_append [of "[x]" xs] be_to_nat_snoc [of "[]" x] by simp

lemma be_to_nat_single [simp]: "be_to_nat [x] = unat x"
  using be_to_nat_snoc [of "[]" x] by simp

lemma unat_byte_less: "unat (b :: byte) < 256"
  using unsigned_less [of b] by simp

lemma unat_byte_of_nat [simp]: "n < 256 \<Longrightarrow> unat (word_of_nat n :: byte) = n"
  by (simp add: unat_of_nat)

lemma be_to_nat_bound: "be_to_nat bs < 256 ^ length bs"
proof (induction bs)
  case Nil
  then show ?case by simp
next
  case (Cons b bs)
  have "unat b * 256 ^ length bs \<le> 255 * 256 ^ length bs"
    using unat_byte_less [of b] by (intro mult_right_mono) auto
  then have "unat b * 256 ^ length bs + be_to_nat bs < 256 * 256 ^ length bs"
    using Cons by linarith
  then show ?case by (simp add: be_to_nat_Cons)
qed

lemma be_to_nat_nat_to_be [simp, be_simps]: "be_to_nat (nat_to_be n) = n"
proof (induction n rule: nat_to_be.induct)
  case (1 n)
  show ?case
  proof (cases "n = 0")
    case False
    with 1 show ?thesis by (simp add: nat_to_be_pos)
  qed simp
qed

lemma hd_nat_to_be: "0 < n \<Longrightarrow> hd (nat_to_be n) \<noteq> 0"
proof (induction n rule: nat_to_be.induct)
  case (1 n)
  show ?case
  proof (cases "n < 256")
    case True
    with 1 have "nat_to_be n = [word_of_nat n]" by (simp add: nat_to_be_pos)
    moreover have "unat (word_of_nat n :: byte) \<noteq> 0" using True 1 by simp
    ultimately show ?thesis by fastforce
  next
    case False
    then have "0 < n div 256" by (simp add: div_greater_zero_iff)
    with 1 have "hd (nat_to_be (n div 256)) \<noteq> 0" by simp
    with \<open>0 < n div 256\<close> 1 show ?thesis
      by (subst nat_to_be_pos) (simp_all add: hd_append)
  qed
qed

lemma nat_to_be_be_to_nat [be_simps]:
  "bs = [] \<or> hd bs \<noteq> 0 \<Longrightarrow> nat_to_be (be_to_nat bs) = bs"
proof (induction bs rule: rev_induct)
  case Nil
  then show ?case by simp
next
  case (snoc b bs)
  show ?case
  proof (cases "bs = []")
    case True
    with snoc.prems have "0 < unat b" by (simp add: unat_gt_0)
    with True show ?thesis using unat_byte_less [of b]
      by (simp add: nat_to_be_pos)
  next
    case False
    with snoc have IH: "nat_to_be (be_to_nat bs) = bs" by simp
    have pos: "0 < be_to_nat bs"
      using IH False by (metis gr0I nat_to_be_0)
    have "(be_to_nat bs * 256 + unat b) div 256 = be_to_nat bs"
      and "(be_to_nat bs * 256 + unat b) mod 256 = unat b"
      using unat_byte_less [of b] by simp_all
    with pos IH show ?thesis by (simp add: nat_to_be_pos)
  qed
qed

lemma nat_to_be_length_le: "n < 256 ^ k \<Longrightarrow> length (nat_to_be n) \<le> k"
proof (induction k arbitrary: n)
  case 0
  then show ?case by simp
next
  case (Suc k)
  then have "n div 256 < 256 ^ k" by (simp add: less_mult_imp_div_less mult.commute)
  with Suc.IH [of "n div 256"] show ?case
    by (cases "n = 0") (simp_all add: nat_to_be_pos)
qed

lemma length_be_fixed [simp]: "length (be_fixed k n) = k"
  by (induction k arbitrary: n) simp_all

lemma be_to_nat_be_fixed [be_simps]: "be_to_nat (be_fixed k n) = n mod 256 ^ k"
proof (induction k arbitrary: n)
  case 0
  then show ?case by simp
next
  case (Suc k)
  have "n mod (256 * 256 ^ k) = 256 * (n div 256 mod 256 ^ k) + n mod 256"
    by (simp add: mod_mult2_eq)
  with Suc show ?case by simp
qed

lemma nat_to_be_fixed [be_simps]:
  "0 < n \<Longrightarrow> nat_to_be n = be_fixed (length (nat_to_be n)) n"
proof (induction n rule: nat_to_be.induct)
  case (1 n)
  show ?case
  proof (cases "n div 256 = 0")
    case True
    with 1 show ?thesis by (simp add: nat_to_be_pos)
  next
    case False
    with 1 show ?thesis by (simp add: nat_to_be_pos)
  qed
qed

lemma be_fixed_be_to_nat [be_simps]: "length bs = k \<Longrightarrow> be_fixed k (be_to_nat bs) = bs"
proof (induction k arbitrary: bs)
  case 0
  then show ?case by simp
next
  case (Suc k)
  then obtain bs' b where bs: "bs = bs' @ [b]" and "length bs' = k"
    by (metis append_butlast_last_id length_0_conv length_append_singleton nat.distinct(1) nat.inject)
  with Suc.IH [of bs'] show ?case using unat_byte_less [of b] by simp
qed

end
