(* ===== verification/RlpTypes.thy ===== *)
theory RlpTypes
  imports Prelude
begin

text \<open>
  The type layer of package \<open>rlp\<close> (\<open>rlp/typecache.go\<close>): the reflected Go types that the
  codec distinguishes, struct tags, field selection, the errors of the package and the Go
  values it encodes.

  A reflected type is a value of \<open>rtype\<close>. \<open>TRawValue\<close> is \<open>rlp.RawValue\<close>, \<open>TBigInt\<close> the
  struct \<open>big.Int\<close>, \<open>TUint n\<close> an unsigned kind of \<open>n\<close> bits, \<open>TOther\<close> every kind that is not
  RLP-serializable (signed integers, floats, maps, channels, functions). A struct field
  carries its name, the value of its \<open>rlp\<close> tag, whether it is exported, and its type.
  \<open>TEncoder name inner\<close> is a struct type without exported fields whose pointer implements
  \<open>Encoder\<close> by \<open>return rlp.Encode(w, c.inner)\<close>; the repository has one, \<open>stateObject\<close>.
  Types are finite trees, so a type that refers to itself through a pointer is outside the model.
\<close>

datatype Kind = Byte | String | List

datatype rtype =
    TRawValue
  | TBigInt
  | TPtr rtype
  | TEncoder string rtype
  | TUint nat
  | TBool
  | TString
  | TSlice rtype
  | TArray nat rtype
  | TStruct string "(string \<times> string \<times> bool \<times> rtype) list"
  | TInterface nat
  | TOther string

type_synonym field_decl = "string \<times> string \<times> bool \<times> rtype"

text \<open>
  The errors of the package, named as the Go variables are. \<open>Panic\<close> stands for a run-time
  panic (an index out of range, a value of the wrong dynamic type handed to \<open>reflect\<close>) and
  \<open>OutOfFuel\<close> for a decoding loop that was not given enough fuel.
\<close>

datatype rlp_error =
    EOL
  | ErrExpectedString | ErrExpectedList | ErrCanonInt | ErrCanonSize
  | ErrElemTooLarge | ErrValueTooLarge | ErrMoreThanOneValue
  | errNotInList | errNotAtEOL | errUintOverflow | errNoPointer | errDecodeIntoNil
  | io_EOF | io_ErrUnexpectedEOF
  | decodeError string rtype "string list"
  | notSerializable rtype
  | negativeBigInt
  | invalidBool nat
  | structTagError rtype string string string
  | unknownStructTag string rtype string
  | structFieldError rtype nat rlp_error
  | unadressable rtype
  | Panic
  | OutOfFuel

record tags =
  nilOK :: bool
  nilKind :: Kind
  tail :: bool
  ignored :: bool

definition no_tags :: tags where
  "no_tags = \<lparr>nilOK = False, nilKind = Byte, tail = False, ignored = False\<rparr>"

section \<open>Kinds of types\<close>

definition isUint :: "rtype \<Rightarrow> bool" where
  "isUint t = (case t of TUint _ \<Rightarrow> True | _ \<Rightarrow> False)"

definition isByte :: "rtype \<Rightarrow> bool" where
  "isByte t = (t = TUint 8)"

definition isByteArray :: "rtype \<Rightarrow> bool" where
  "isByteArray t =
     (case t of TRawValue \<Rightarrow> True | TSlice e \<Rightarrow> isByte e | TArray _ e \<Rightarrow> isByte e | _ \<Rightarrow> False)"

definition defaultNilKind :: "rtype \<Rightarrow> Kind" where
  "defaultNilKind t =
     (if isUint t \<or> t = TString \<or> t = TBool \<or> isByteArray t then String else List)"

definition isPtrKind :: "rtype \<Rightarrow> bool" where
  "isPtrKind t = (case t of TPtr _ \<Rightarrow> True | _ \<Rightarrow> False)"

definition isSliceKind :: "rtype \<Rightarrow> bool" where
  "isSliceKind t = (case t of TRawValue \<Rightarrow> True | TSlice _ \<Rightarrow> True | _ \<Rightarrow> False)"

definition Elem :: "rtype \<Rightarrow> rtype" where
  "Elem t = (case t of TPtr e \<Rightarrow> e | TSlice e \<Rightarrow> e | TArray _ e \<Rightarrow> e | _ \<Rightarrow> TUint 8)"

section \<open>Struct tags\<close>

text \<open>\<open>strings.Split(s, ",")\<close> and \<open>strings.TrimSpace\<close> on ASCII text.\<close>

fun split_comma :: "string \<Rightarrow> string list" where
  "split_comma [] = [[]]"
| "split_comma (c # cs) =
     (if c = CHR '','' then [] # split_comma cs
      else (case split_comma cs of [] \<Rightarrow> [[c]] | w # ws \<Rightarrow> (c # w) # ws))"

definition is_space :: "char \<Rightarrow> bool" where
  "is_space c = (c \<in> {CHR '' '', CHR 0x09, CHR 0x0A, CHR 0x0B, CHR 0x0C, CHR 0x0D})"

definition trim_space :: "string \<Rightarrow> string" where
  "trim_space s = rev (dropWhile is_space (rev (dropWhile is_space s)))"

fun lastPublicField_from :: "nat \<Rightarrow> nat \<Rightarrow> field_decl list \<Rightarrow> nat" where
  "lastPublicField_from i lst [] = lst"
| "lastPublicField_from i lst ((_, _, exported, _) # fs) =
     lastPublicField_from (Suc i) (if exported then i else lst) fs"

definition lastPublicField :: "field_decl list \<Rightarrow> nat" where
  "lastPublicField fs = lastPublicField_from 0 0 fs"

text \<open>
  The loop of \<open>parseStructTag\<close> over the comma-separated words of the tag; \<open>ts\<close> is the tag set
  built so far.
\<close>

fun parseTagWords ::
  "rtype \<Rightarrow> field_decl \<Rightarrow> nat \<Rightarrow> nat \<Rightarrow> string list \<Rightarrow> tags \<Rightarrow> rlp_error + tags" where
  "parseTagWords ty f fi lastPublic [] ts = Inr ts"
| "parseTagWords ty f fi lastPublic (w # ws) ts =
     (let (fname, _, _, ftype) = f; t = trim_space w in
      if t = '''' then parseTagWords ty f fi lastPublic ws ts
      else if t = ''-'' then parseTagWords ty f fi lastPublic ws (ts\<lparr>ignored := True\<rparr>)
      else if t = ''nil'' \<or> t = ''nilString'' \<or> t = ''nilList'' then
        (if \<not> isPtrKind ftype then Inl (structTagError ty fname t ''field is not a pointer'')
         else parseTagWords ty f fi lastPublic ws
                (ts\<lparr>nilOK := True,
                    nilKind := (if t = ''nil'' then defaultNilKind (Elem ftype)
                                else if t = ''nilString'' then String else List)\<rparr>))
      else if t = ''tail'' then
        (if fi \<noteq> lastPublic then Inl (structTagError ty fname t ''must be on last field'')
         else if \<not> isSliceKind ftype then Inl (structTagError ty fname t ''field type is not slice'')
         else parseTagWords ty f fi lastPublic ws (ts\<lparr>tail := True\<rparr>))
      else Inl (unknownStructTag t ty fname))"

definition parseStructTag :: "rtype \<Rightarrow> field_decl \<Rightarrow> nat \<Rightarrow> nat \<Rightarrow> rlp_error + tags" where
  "parseStructTag ty f fi lastPublic =
     parseTagWords ty f fi lastPublic (split_comma (fst (snd f))) no_tags"

text \<open>
  \<open>structFields\<close>: the exported fields that are not ignored, with their index and tags, or the
  first malformed tag.
\<close>

fun structFields_from ::
  "rtype \<Rightarrow> nat \<Rightarrow> nat \<Rightarrow> field_decl list \<Rightarrow> rlp_error + (nat \<times> tags \<times> field_decl) list" where
  "structFields_from ty lastPublic i [] = Inr []"
| "structFields_from ty lastPublic i (f # fs) =
     (let (_, _, exported, _) = f in
      if \<not> exported then structFields_from ty lastPublic (Suc i) fs
      else (case parseStructTag ty f i lastPublic of
              Inl e \<Rightarrow> Inl e
            | Inr ts \<Rightarrow>
                (case structFields_from ty lastPublic (Suc i) fs of
                   Inl e \<Rightarrow> Inl e
                 | Inr rest \<Rightarrow> Inr (if ignored ts then rest else (i, ts, f) # rest))))"

definition structFields ::
  "rtype \<Rightarrow> field_decl list \<Rightarrow> rlp_error + (nat \<times> tags \<times> field_decl) list" where
  "structFields ty fs = structFields_from ty (lastPublicField fs) 0 fs"

section \<open>Values\<close>

text \<open>
  Go values as \<open>reflect.Value\<close> presents them. \<open>VBytes\<close> serves strings, raw values, byte
  slices and byte arrays; \<open>VNil\<close> is a nil pointer or a nil interface; \<open>VIface t v\<close> an
  interface that holds \<open>v\<close> of dynamic type \<open>t\<close>.
\<close>

datatype rval =
    VBytes bytes
  | VUint u64
  | VBool bool
  | VBig int
  | VNil
  | VPtr rval
  | VList "rval list"
  | VStruct "rval list"
  | VIface rtype rval
  | VEncoder rval

text \<open>The zero value of a type, which a fresh variable of that type holds.\<close>

fun zeroval :: "rtype \<Rightarrow> rval" where
  "zeroval TRawValue = VBytes []"
| "zeroval TBigInt = VBig 0"
| "zeroval (TPtr _) = VNil"
| "zeroval (TEncoder _ t) = VEncoder (zeroval t)"
| "zeroval (TUint _) = VUint 0"
| "zeroval TBool = VBool False"
| "zeroval TString = VBytes []"
| "zeroval (TSlice e) = (if isByte e then VBytes [] else VList [])"
| "zeroval (TArray n e) = (if isByte e then VBytes (replicate n 0) else VList (replicate n (zeroval e)))"
| "zeroval (TStruct _ fs) = VStruct (map (\<lambda>f. zeroval (snd (snd (snd f)))) fs)"
| "zeroval (TInterface _) = VNil"
| "zeroval (TOther _) = VNil"

section \<open>Properties of tags and fields\<close>

lemma split_comma_not_Nil [simp]: "split_comma s \<noteq> []"
  by (induction s) (auto split: list.splits)

lemma parseTagWords_tail_last:
  "parseTagWords ty f fi l ws ts = Inr ts' \<Longrightarrow> tail ts' \<Longrightarrow> tail ts \<or> fi = l"
  by (induction ty f fi l ws ts rule: parseTagWords.induct)
     (auto simp: Let_def split: if_splits prod.splits)

lemma parseStructTag_tail_last:
  "parseStructTag ty f fi l = Inr ts \<Longrightarrow> tail ts \<Longrightarrow> fi = l"
  unfolding parseStructTag_def by (drule parseTagWords_tail_last) (auto simp: no_tags_def)

lemma structFields_from_subset:
  "structFields_from ty l i fs = Inr sel \<Longrightarrow> (j, ts, f) \<in> set sel \<Longrightarrow>
   i \<le> j \<and> j - i < length fs \<and> fs ! (j - i) = f \<and> \<not> ignored ts
   \<and> parseStructTag ty f j l = Inr ts"
proof (induction fs arbitrary: i sel)
  case Nil
  then show ?case by simp
next
  case (Cons g gs)
  obtain a b ex c where g: "g = (a, b, ex, c)" by (metis prod_cases4)
  consider (here) "j = i" "f = g" "\<not> ignored ts" "parseStructTag ty g i l = Inr ts"
    | (later) rest where "structFields_from ty l (Suc i) gs = Inr rest" "(j, ts, f) \<in> set rest"
    using Cons.prems g by (auto simp: Let_def split: if_splits sum.splits)
  then show ?case
  proof cases
    case here
    then show ?thesis by simp
  next
    case later
    from Cons.IH [OF this] show ?thesis by (auto simp: nth_Cons' Suc_diff_Suc)
  qed
qed

end
