(* ===== verification/RlpHead.thy ===== *)
theory RlpHead
  imports RlpTypes
begin

text \<open>
  Size headers of the RLP format (\<open>rlp/encode.go\<close>: \<open>putint\<close>, \<open>intsize\<close>, \<open>headsize\<close>,
  \<open>puthead\<close>), and the format itself: an RLP item is a byte string or a list of items, and
  \<open>rlp_enc\<close> is its canonical encoding. The lemmas relate the machine-word routines to
  minimal big-endian numbers.
\<close>

lemma unat_drop_bit_div: "unat (drop_bit n (x :: u64)) = unat x div 2 ^ n"
  by (subst unat_drop_bit_eq) (rule drop_bit_eq_div)

section \<open>The routines\<close>

text \<open>
  \<open>putint(b, i)\<close> writes to the front of its buffer and returns how many bytes it wrote; the
  model returns the bytes written, the size is their number.
\<close>

definition putint :: "u64 \<Rightarrow> bytes" where
  "putint i =
    (if i < 2 ^ 8 then [ucast i]
     else if i < 2 ^ 16 then [ucast (drop_bit 8 i), ucast i]
     else if i < 2 ^ 24 then [ucast (drop_bit 16 i), ucast (drop_bit 8 i), ucast i]
     else if i < 2 ^ 32 then
       [ucast (drop_bit 24 i), ucast (drop_bit 16 i), ucast (drop_bit 8 i), ucast i]
     else if i < 2 ^ 40 then
       [ucast (drop_bit 32 i), ucast (drop_bit 24 i), ucast (drop_bit 16 i),
        ucast (drop_bit 8 i), ucast i]
     else if i < 2 ^ 48 then
       [ucast (drop_bit 40 i), ucast (drop_bit 32 i), ucast (drop_bit 24 i),
        ucast (drop_bit 16 i), ucast (drop_bit 8 i), ucast i]
     else if i < 2 ^ 56 then
       [ucast (drop_bit 48 i), ucast (drop_bit 40 i), ucast (drop_bit 32 i),
        ucast (drop_bit 24 i), ucast (drop_bit 16 i), ucast (drop_bit 8 i), ucast i]
     else
       [ucast (drop_bit 56 i), ucast (drop_bit 48 i), ucast (drop_bit 40 i),
        ucast (drop_bit 32 i), ucast (drop_bit 24 i), ucast (drop_bit 16 i),
        ucast (drop_bit 8 i), ucast i])"

text \<open>The loop of \<open>intsize\<close>: shift by 8 until nothing is left, counting from \<open>n\<close>.\<close>

function intsize_loop :: "nat \<Rightarrow> u64 \<Rightarrow> nat" where
  "intsize_loop n i =
     (let i' = drop_bit 8 i in if i' = 0 then n else intsize_loop (Suc n) i')"
  by pat_completeness auto
termination
proof (relation "measure (\<lambda>(n, i). unat i)")
  fix n :: nat and i i' :: u64
  assume i': "i' = drop_bit 8 i" and "i' \<noteq> 0"
  then have "i \<noteq> 0" by auto
  then have "unat i div 2 ^ 8 < unat i"
    by (intro div_less_dividend) (auto simp: unat_gt_0)
  then show "((Suc n, i'), (n, i)) \<in> measure (\<lambda>(n, i). unat i)"
    using i' by (simp only: in_measure prod.case unat_drop_bit_div)
qed simp

declare intsize_loop.simps [simp del]

definition intsize :: "u64 \<Rightarrow> nat" where
  "intsize i = intsize_loop 1 i"

definition headsize :: "u64 \<Rightarrow> nat" where
  "headsize n = (if n < 56 then 1 else 1 + intsize n)"

definition puthead :: "byte \<Rightarrow> byte \<Rightarrow> u64 \<Rightarrow> bytes" where
  "puthead smalltag largetag n =
     (if n < 56 then [smalltag + ucast n]
      else (let sz = putint n in (largetag + word_of_nat (length sz)) # sz))"

section \<open>The format\<close>

datatype item = Str bytes | Lst "item list"

text \<open>The header of a payload of \<open>n\<close> bytes.\<close>

definition rlp_head :: "nat \<Rightarrow> nat \<Rightarrow> nat \<Rightarrow> bytes" where
  "rlp_head small large n =
     (if n < 56 then [word_of_nat (small + n)]
      else word_of_nat (large + length (nat_to_be n)) # nat_to_be n)"

definition enc_str :: "bytes \<Rightarrow> bytes" where
  "enc_str b = (if length b = 1 \<and> b ! 0 < 128 then b else rlp_head 128 183 (length b) @ b)"

definition enc_list :: "bytes \<Rightarrow> bytes" where
  "enc_list payload = rlp_head 192 247 (length payload) @ payload"

fun rlp_enc :: "item \<Rightarrow> bytes" where
  "rlp_enc (Str b) = enc_str b"
| "rlp_enc (Lst xs) = enc_list (concat (map rlp_enc xs))"

section \<open>The routines compute minimal big-endian numbers\<close>

lemma word_of_nat_byte_mod [simp]: "(word_of_nat (n mod 256) :: byte) = word_of_nat n"
  by (simp add: word_of_nat_eq_iff take_bit_eq_mod)

lemma ucast_drop_bit_byte:
  "(ucast (drop_bit (8 * j) (x :: u64)) :: byte) = word_of_nat (unat x div 256 ^ j)"
proof -
  have "(ucast (drop_bit (8 * j) x) :: byte) = word_of_nat (unat (drop_bit (8 * j) x))"
    by simp
  also have "\<dots> = word_of_nat (unat x div 256 ^ j)"
    by (simp only: unat_drop_bit_div power_mult) simp
  finally show ?thesis .
qed

lemma be_fixed_map: "be_fixed k n = map (\<lambda>j. word_of_nat (n div 256 ^ j)) (rev [0..<k])"
proof (induction k arbitrary: n)
  case 0
  then show ?case by simp
next
  case (Suc k)
  have "rev [0..<Suc k] = map Suc (rev [0..<k]) @ [0]"
    by (metis map_Suc_upt rev.simps(2) rev_map upt_conv_Cons zero_less_Suc)
  with Suc show ?case by (simp add: div_mult2_eq o_def del: upt_Suc)
qed

lemma be_fixed_u64:
  "be_fixed k (unat (x :: u64)) = map (\<lambda>j. ucast (drop_bit (8 * j) x)) (rev [0..<k])"
  by (simp only: be_fixed_map ucast_drop_bit_byte)

lemma u64_less_iff: "(i :: u64) < j \<longleftrightarrow> unat i < unat j"
  by (rule word_less_nat_alt)

lemma u64_pos_iff: "0 < (i :: u64) \<longleftrightarrow> 0 < unat i"
  by (simp add: u64_less_iff)

lemma length_nat_to_be_iff:
  assumes "256 ^ k \<le> n" "n < 256 ^ Suc k"
  shows "length (nat_to_be n) = Suc k"
proof (rule antisym)
  show "length (nat_to_be n) \<le> Suc k" using assms(2) by (rule nat_to_be_length_le)
  show "Suc k \<le> length (nat_to_be n)"
  proof (rule ccontr)
    assume "\<not> Suc k \<le> length (nat_to_be n)"
    then have "256 ^ length (nat_to_be n) \<le> (256::nat) ^ k" by (intro power_increasing) auto
    with be_to_nat_bound [of "nat_to_be n"] assms(1) show False by simp
  qed
qed

lemma nat_to_be_eq_fixed:
  assumes "256 ^ k \<le> n" "n < 256 ^ Suc k"
  shows "nat_to_be n = be_fixed (Suc k) n"
proof -
  have "0 < n" using assms(1) by (metis gr_zeroI le_zero_eq power_not_zero zero_neq_numeral)
  with nat_to_be_fixed length_nat_to_be_iff [OF assms] show ?thesis by metis
qed

lemma u64_size_classes:
  fixes i :: u64
  obtains "unat i < 256 ^ 1" | "256 ^ 1 \<le> unat i" "unat i < 256 ^ 2"
    | "256 ^ 2 \<le> unat i" "unat i < 256 ^ 3" | "256 ^ 3 \<le> unat i" "unat i < 256 ^ 4"
    | "256 ^ 4 \<le> unat i" "unat i < 256 ^ 5" | "256 ^ 5 \<le> unat i" "unat i < 256 ^ 6"
    | "256 ^ 6 \<le> unat i" "unat i < 256 ^ 7" | "256 ^ 7 \<le> unat i" "unat i < 256 ^ 8"
proof -
  have "unat i < 256 ^ 8" using unsigned_less [of i] by simp
  then show thesis using that by linarith
qed

lemmas putint_class = putint_def u64_less_iff be_fixed_u64 upt_rec

lemma putint_eq:
  assumes "0 < i"
  shows "putint i = nat_to_be (unat i)"
proof (cases i rule: u64_size_classes)
  case 1
  then show ?thesis using nat_to_be_eq_fixed [of 0 "unat i"] assms
    by (simp add: putint_class)
next
  case 2
  then show ?thesis using nat_to_be_eq_fixed [of 1 "unat i"] by (simp add: putint_class)
next
  case 3
  then show ?thesis using nat_to_be_eq_fixed [of 2 "unat i"] by (simp add: putint_class)
next
  case 4
  then show ?thesis using nat_to_be_eq_fixed [of 3 "unat i"] by (simp add: putint_class)
next
  case 5
  then show ?thesis using nat_to_be_eq_fixed [of 4 "unat i"] by (simp add: putint_class)
next
  case 6
  then show ?thesis using nat_to_be_eq_fixed [of 5 "unat i"] by (simp add: putint_class)
next
  case 7
  then show ?thesis using nat_to_be_eq_fixed [of 6 "unat i"] by (simp add: putint_class)
next
  case 8
  then show ?thesis using nat_to_be_eq_fixed [of 7 "unat i"] by (simp add: putint_class)
qed

lemma intsize_loop_eq: "intsize_loop n i = n + (length (nat_to_be (unat i)) - 1)"
proof (induction n i rule: intsize_loop.induct)
  case (1 n i)
  let ?i = "drop_bit 8 i"
  have div: "unat ?i = unat i div 256" using unat_drop_bit_div [of 8 i] by (simp only:) simp
  show ?case
  proof (cases "?i = 0")
    case True
    then have "unat i div 256 = 0" using div by (metis unsigned_0)
    then have "length (nat_to_be (unat i)) - 1 = 0"
      by (cases "unat i = 0") (simp_all only: nat_to_be_pos, simp_all)
    with True show ?thesis by (simp only: intsize_loop.simps [of n i] Let_def) simp
  next
    case False
    then have pos: "0 < unat i div 256" using div by (metis unat_gt_0)
    then have "0 < unat i" by (metis div_0 gr0I less_numeral_extra(3))
    then have "length (nat_to_be (unat i)) = Suc (length (nat_to_be (unat ?i)))"
      by (subst nat_to_be_pos) (simp_all only: div length_append, simp_all)
    moreover have "0 < length (nat_to_be (unat ?i))" using pos by (simp only: div) simp
    moreover have "intsize_loop n i = intsize_loop (Suc n) ?i"
      using False by (simp only: intsize_loop.simps [of n i] Let_def) simp
    ultimately show ?thesis using "1.IH" [OF refl False] by linarith
  qed
qed

lemma intsize_eq: "0 < i \<Longrightarrow> intsize i = length (nat_to_be (unat i))"
proof -
  assume "0 < i"
  then have "0 < length (nat_to_be (unat i))" by (simp add: u64_pos_iff)
  then show ?thesis by (simp add: intsize_def intsize_loop_eq)
qed

lemma puthead_eq: "puthead small large n = rlp_head (unat small) (unat large) (unat n)"
proof (cases "n < 56")
  case True
  then show ?thesis by (simp add: puthead_def rlp_head_def u64_less_iff)
next
  case False
  then have "0 < n" by (simp add: u64_less_iff)
  with False show ?thesis by (simp add: puthead_def rlp_head_def u64_less_iff putint_eq Let_def)
qed

lemma headsize_eq: "headsize n = length (rlp_head small large (unat n))"
proof (cases "n < 56")
  case True
  then show ?thesis by (simp add: headsize_def rlp_head_def u64_less_iff)
next
  case False
  then have "0 < n" by (simp add: u64_less_iff)
  with False show ?thesis by (simp add: headsize_def rlp_head_def u64_less_iff intsize_eq)
qed

lemma rlp_head_not_Nil [simp]: "rlp_head a b n \<noteq> []"
  by (simp add: rlp_head_def)

lemma length_nat_to_be_u64: "n < 2 ^ 64 \<Longrightarrow> length (nat_to_be n) \<le> 8"
  by (rule nat_to_be_length_le) simp

lemma length_nat_to_be_pos: "0 < n \<Longrightarrow> 1 \<le> length (nat_to_be n)"
  by (simp add: Suc_le_eq)

lemma length_rlp_head_le: "n < 2 ^ 64 \<Longrightarrow> length (rlp_head a b n) \<le> 9"
  using length_nat_to_be_u64 [of n] by (simp add: rlp_head_def)

lemma rlp_enc_not_Nil [simp]: "rlp_enc x \<noteq> []"
  by (cases x) (auto simp: enc_str_def enc_list_def rlp_head_def)

lemma length_enc_str_ge: "length b \<le> length (enc_str b)"
  by (simp add: enc_str_def)

lemma length_enc_list_ge: "length b < length (enc_list b)"
  by (simp add: enc_list_def)

end
