(* ===== verification/RlpRaw.thy ===== *)
theory RlpRaw
  imports RlpHead
begin

text \<open>
  \<open>rlp/raw.go\<close>: reading encoded values from a byte slice without decoding them
  (\<open>readSize\<close>, \<open>readKind\<close>, \<open>Split\<close>, \<open>SplitString\<close>, \<open>SplitList\<close>, \<open>CountValues\<close>) and
  \<open>AppendUint64\<close>. Sizes are 64-bit words as in the source. The lemmas characterise \<open>Split\<close>
  completely: it accepts exactly the canonical encodings.
\<close>

definition ListSize :: "u64 \<Rightarrow> u64" where
  "ListSize contentSize = word_of_nat (headsize contentSize) + contentSize"

text \<open>
  The disjunction \<open>uint64(b[0])<<8*(k-1) | \<dots> | uint64(b[k-1])\<close> that the arms of the switch in
  \<open>readSize\<close> spell out for each \<open>k\<close>.
\<close>

fun be_or :: "bytes \<Rightarrow> u64" where
  "be_or [] = 0"
| "be_or (b # bs) = push_bit (8 * length bs) (ucast b) OR be_or bs"

definition readSize :: "bytes \<Rightarrow> byte \<Rightarrow> rlp_error + u64" where
  "readSize b slen =
     (if unat slen > length b then Inl io_ErrUnexpectedEOF
      else let s = (if 1 \<le> slen \<and> slen \<le> 8 then be_or (take (unat slen) b) else 0) in
        if s < 56 \<or> b ! 0 = 0 then Inl ErrCanonSize else Inr s)"

text \<open>The switch of \<open>readKind\<close> on the first byte, then its check against the input length.\<close>

definition readTag :: "bytes \<Rightarrow> rlp_error + Kind \<times> u64 \<times> u64" where
  "readTag buf =
     (let b = buf ! 0 in
      if b < 0x80 then Inr (Byte, 0, 1)
      else if b < 0xB8 then
        (let cs = ucast (b - 0x80) in
         if cs = 1 \<and> length buf > 1 \<and> buf ! 1 < 128 then Inl ErrCanonSize
         else Inr (String, 1, cs))
      else if b < 0xC0 then
        (case readSize (tl buf) (b - 0xB7) of
           Inl e \<Rightarrow> Inl e
         | Inr cs \<Rightarrow> Inr (String, ucast (b - 0xB7) + 1, cs))
      else if b < 0xF8 then Inr (List, 1, ucast (b - 0xC0))
      else
        (case readSize (tl buf) (b - 0xF7) of
           Inl e \<Rightarrow> Inl e
         | Inr cs \<Rightarrow> Inr (List, ucast (b - 0xF7) + 1, cs)))"

definition readKind :: "bytes \<Rightarrow> rlp_error + Kind \<times> u64 \<times> u64" where
  "readKind buf =
     (if buf = [] then Inl io_ErrUnexpectedEOF
      else (case readTag buf of
              Inl e \<Rightarrow> Inl e
            | Inr (k, ts, cs) \<Rightarrow>
                if cs > word_of_nat (length buf) - ts then Inl ErrValueTooLarge
                else Inr (k, ts, cs)))"

definition Split :: "bytes \<Rightarrow> rlp_error + Kind \<times> bytes \<times> bytes" where
  "Split b =
     (case readKind b of
        Inl e \<Rightarrow> Inl e
      | Inr (k, ts, cs) \<Rightarrow>
          Inr (k, subslice (unat ts) (unat (ts + cs)) b, drop (unat (ts + cs)) b))"

definition SplitString :: "bytes \<Rightarrow> rlp_error + bytes \<times> bytes" where
  "SplitString b =
     (case Split b of
        Inl e \<Rightarrow> Inl e
      | Inr (k, content, rest) \<Rightarrow> if k = List then Inl ErrExpectedString else Inr (content, rest))"

definition SplitList :: "bytes \<Rightarrow> rlp_error + bytes \<times> bytes" where
  "SplitList b =
     (case Split b of
        Inl e \<Rightarrow> Inl e
      | Inr (k, content, rest) \<Rightarrow> if k \<noteq> List then Inl ErrExpectedList else Inr (content, rest))"

definition AppendUint64 :: "bytes \<Rightarrow> u64 \<Rightarrow> bytes" where
  "AppendUint64 b i =
    (if i = 0 then b @ [0x80]
     else if i < 128 then b @ [ucast i]
     else if i < 2 ^ 8 then b @ [0x81, ucast i]
     else if i < 2 ^ 16 then b @ [0x82, ucast (drop_bit 8 i), ucast i]
     else if i < 2 ^ 24 then b @ [0x83, ucast (drop_bit 16 i), ucast (drop_bit 8 i), ucast i]
     else if i < 2 ^ 32 then
       b @ [0x84, ucast (drop_bit 24 i), ucast (drop_bit 16 i), ucast (drop_bit 8 i), ucast i]
     else if i < 2 ^ 40 then
       b @ [0x85, ucast (drop_bit 32 i), ucast (drop_bit 24 i), ucast (drop_bit 16 i),
            ucast (drop_bit 8 i), ucast i]
     else if i < 2 ^ 48 then
       b @ [0x86, ucast (drop_bit 40 i), ucast (drop_bit 32 i), ucast (drop_bit 24 i),
            ucast (drop_bit 16 i), ucast (drop_bit 8 i), ucast i]
     else if i < 2 ^ 56 then
       b @ [0x87, ucast (drop_bit 48 i), ucast (drop_bit 40 i), ucast (drop_bit 32 i),
            ucast (drop_bit 24 i), ucast (drop_bit 16 i), ucast (drop_bit 8 i), ucast i]
     else
       b @ [0x88, ucast (drop_bit 56 i), ucast (drop_bit 48 i), ucast (drop_bit 40 i),
            ucast (drop_bit 32 i), ucast (drop_bit 24 i), ucast (drop_bit 16 i),
            ucast (drop_bit 8 i), ucast i])"

section \<open>Size fields\<close>

lemma unat_word_of_nat_u64 [simp]: "n < 2 ^ 64 \<Longrightarrow> unat (word_of_nat n :: u64) = n"
  by (simp add: unat_of_nat)

lemma be_or_eq: "length bs \<le> 8 \<Longrightarrow> be_or bs = word_of_nat (be_to_nat bs)"
proof (induction bs)
  case Nil
  then show ?case by simp
next
  case (Cons b bs)
  let ?hi = "push_bit (8 * length bs) (ucast b :: u64)" and ?lo = "be_or bs"
  have lo: "unat ?lo < 2 ^ (8 * length bs)"
  proof -
    have "be_to_nat bs < 256 ^ length bs" by (rule be_to_nat_bound)
    also have "\<dots> = 2 ^ (8 * length bs)" by (simp add: power_mult)
    finally have b: "be_to_nat bs < 2 ^ (8 * length bs)" .
    have "(2::nat) ^ (8 * length bs) \<le> 2 ^ 64" using Cons.prems by (intro power_increasing) auto
    with b Cons show ?thesis by simp
  qed
  have "?hi OR ?lo = ?hi + ?lo"
  proof (rule disjunctive_add [symmetric])
    fix n
    have "unat (take_bit (8 * length bs) ?lo) = unat ?lo"
      by (subst unsigned_take_bit_eq, subst take_bit_eq_mod) (rule mod_less [OF lo])
    then have "?lo = take_bit (8 * length bs) ?lo" by (simp only: word_unat_eq_iff)
    then have "bit ?lo n \<Longrightarrow> n < 8 * length bs" by (metis bit_take_bit_iff)
    then show "\<not> bit ?hi n \<or> \<not> bit ?lo n" by (auto simp: bit_push_bit_iff)
  qed
  also have "\<dots> = word_of_nat (unat b * 256 ^ length bs) + word_of_nat (be_to_nat bs)"
    using Cons by (simp add: push_bit_eq_mult power_mult)
  finally show ?case by (simp add: be_to_nat_Cons)
qed


lemma byte_less_iff: "(a :: byte) < b \<longleftrightarrow> unat a < unat b"
  by (rule word_less_nat_alt)

lemma byte_le_iff: "(a :: byte) \<le> b \<longleftrightarrow> unat a \<le> unat b"
  by (rule word_le_nat_alt)

lemma unat_byte_diff: "unat b \<le> unat a \<Longrightarrow> unat (a - b :: byte) = unat a - unat b"
  by (simp add: unat_sub byte_le_iff)

lemma readSize_iff:
  assumes "1 \<le> unat slen" "unat slen \<le> 8"
  shows "readSize b slen = Inr s \<longleftrightarrow>
    unat slen \<le> length b \<and> 56 \<le> unat s \<and> take (unat slen) b = nat_to_be (unat s)"
proof (cases "unat slen \<le> length b")
  case False
  then show ?thesis by (simp add: readSize_def)
next
  case True
  let ?d = "take (unat slen) b"
  have len: "length ?d = unat slen" using True by simp
  have bnd: "be_to_nat ?d < 2 ^ 64"
  proof -
    have "be_to_nat ?d < 256 ^ length ?d" by (rule be_to_nat_bound)
    also have "\<dots> \<le> 256 ^ 8" using assms(2) len by (intro power_increasing) auto
    finally show ?thesis by simp
  qed
  have ne: "?d \<noteq> []" and hd: "hd ?d = b ! 0"
    using assms(1) True by (cases b; auto)+
  have or: "be_or ?d = word_of_nat (be_to_nat ?d)" using assms(2) len by (intro be_or_eq) simp
  have rs: "readSize b slen = (if be_to_nat ?d < 56 \<or> b ! 0 = 0 then Inl ErrCanonSize
      else Inr (word_of_nat (be_to_nat ?d)))"
    using True assms bnd or by (simp add: readSize_def byte_le_iff Let_def u64_less_iff)
  show ?thesis
  proof
    assume "readSize b slen = Inr s"
    with rs have s: "s = word_of_nat (be_to_nat ?d)" and "\<not> be_to_nat ?d < 56" "b ! 0 \<noteq> 0"
      by (auto split: if_splits)
    moreover have "nat_to_be (be_to_nat ?d) = ?d"
      using hd \<open>b ! 0 \<noteq> 0\<close> by (intro nat_to_be_be_to_nat) simp
    ultimately show "unat slen \<le> length b \<and> 56 \<le> unat s \<and> ?d = nat_to_be (unat s)"
      using True bnd by simp
  next
    assume a: "unat slen \<le> length b \<and> 56 \<le> unat s \<and> ?d = nat_to_be (unat s)"
    then have "be_to_nat ?d = unat s" by simp
    moreover have "b ! 0 \<noteq> 0" using a hd hd_nat_to_be [of "unat s"] by auto
    ultimately show "readSize b slen = Inr s" using a rs by simp
  qed
qed

section \<open>Canonical splitting\<close>

text \<open>
  The header of a value of each kind, and which contents may appear under it: a \<open>Byte\<close> has no
  header, and a one-byte string below \<open>0x80\<close> is never written with one.
\<close>

definition kind_head :: "Kind \<Rightarrow> nat \<Rightarrow> bytes" where
  "kind_head k n =
     (case k of Byte \<Rightarrow> [] | String \<Rightarrow> rlp_head 128 183 n | List \<Rightarrow> rlp_head 192 247 n)"

definition single :: "bytes \<Rightarrow> bool" where
  "single c = (length c = 1 \<and> c ! 0 < 128)"

definition canon :: "Kind \<Rightarrow> bytes \<Rightarrow> bool" where
  "canon k c = (case k of Byte \<Rightarrow> single c | String \<Rightarrow> \<not> single c | List \<Rightarrow> True)"

lemma readKind_check:
  assumes "length buf < 2 ^ 64" "unat ts \<le> length buf"
  shows "(cs > word_of_nat (length buf) - (ts :: u64)) = (length buf - unat ts < unat cs)"
proof -
  have "unat (word_of_nat (length buf) - ts) = length buf - unat ts"
    using assms by (subst unat_sub) (simp_all add: word_le_nat_alt)
  then show ?thesis by (simp only: u64_less_iff)
qed

text \<open>What the first byte and the size bytes say, as numbers.\<close>

lemma ucast_byte_u64: "(ucast (b :: byte) :: u64) = word_of_nat (unat b)"
  by simp

lemma word_of_nat_u64_eq_iff:
  "m < 2 ^ 64 \<Longrightarrow> n < 2 ^ 64 \<Longrightarrow> (word_of_nat m :: u64) = word_of_nat n \<longleftrightarrow> m = n"
  by (metis unat_word_of_nat_u64)

lemma readTag_Byte: "unat b < 128 \<Longrightarrow> readTag (b # t) = Inr (Byte, 0, 1)"
  by (simp add: readTag_def byte_less_iff)

lemma readTag_String:
  assumes "128 \<le> unat b" "unat b < 184"
  shows "readTag (b # t) =
     (if unat b = 129 \<and> t \<noteq> [] \<and> t ! 0 < 128 then Inl ErrCanonSize
      else Inr (String, 1, word_of_nat (unat b - 128)))"
proof -
  have d: "unat (b - 0x80) = unat b - 128" using assms by (subst unat_byte_diff) simp_all
  then have "(ucast (b - 0x80) :: u64) = word_of_nat (unat b - 128)" by (simp only: ucast_byte_u64)
  moreover have "(word_of_nat (unat b - 128) :: u64) = 1 \<longleftrightarrow> unat b = 129"
    using word_of_nat_u64_eq_iff [of "unat b - 128" 1] assms unat_byte_less [of b] by auto
  ultimately show ?thesis using assms by (auto simp: readTag_def byte_less_iff Let_def)
qed

lemma readTag_List:
  assumes "192 \<le> unat b" "unat b < 248"
  shows "readTag (b # t) = Inr (List, 1, word_of_nat (unat b - 192))"
proof -
  have "unat (b - 0xC0) = unat b - 192" using assms by (subst unat_byte_diff) simp_all
  then have "(ucast (b - 0xC0) :: u64) = word_of_nat (unat b - 192)" by (simp only: ucast_byte_u64)
  then show ?thesis using assms by (simp add: readTag_def byte_less_iff Let_def)
qed

lemma ucast_Suc:
  assumes "unat a \<le> unat b"
  shows "(ucast (b - a :: byte) + 1 :: u64) = word_of_nat (Suc (unat b - unat a))"
  using assms by (simp only: ucast_byte_u64 unat_byte_diff of_nat_Suc) simp

lemma readTag_long:
  "184 \<le> unat b \<Longrightarrow> unat b < 192 \<Longrightarrow> readTag (b # t) =
     map_sum id (\<lambda>cs. (String, word_of_nat (Suc (unat b - 183)), cs)) (readSize t (b - 0xB7))"
  "248 \<le> unat b \<Longrightarrow> readTag (b # t) =
     map_sum id (\<lambda>cs. (List, word_of_nat (Suc (unat b - 247)), cs)) (readSize t (b - 0xF7))"
  using ucast_Suc [of "0xB7" b] ucast_Suc [of "0xF7" b]
  by (auto simp: readTag_def byte_less_iff Let_def split: sum.splits)

lemma length_size_field:
  "56 \<le> n \<Longrightarrow> n < 2 ^ 64 \<Longrightarrow> 1 \<le> length (nat_to_be n) \<and> length (nat_to_be n) \<le> 8"
  using length_nat_to_be_u64 length_nat_to_be_pos by simp

lemma readTag_complete:
  assumes len: "length c < 2 ^ 64" and canon: "canon k c"
  shows "readTag (kind_head k (length c) @ c @ rest) =
    Inr (k, word_of_nat (length (kind_head k (length c))), word_of_nat (length c))"
proof (cases k)
  case Byte
  then obtain x where "c = [x]" "x < 128"
    using canon by (auto simp: canon_def single_def length_Suc_conv)
  with Byte show ?thesis by (simp add: readTag_Byte kind_head_def byte_less_iff)
next
  case String
  show ?thesis
  proof (cases "length c < 56")
    case True
    then have "unat (word_of_nat (128 + length c) :: byte) = 128 + length c"
      by (intro unat_byte_of_nat) simp
    moreover have "\<not> (length c = 1 \<and> c @ rest \<noteq> [] \<and> (c @ rest) ! 0 < 128)"
      using canon String by (auto simp: canon_def single_def nth_append)
    ultimately show ?thesis using True String
      by (simp add: kind_head_def rlp_head_def readTag_String del: of_nat_add)
  next
    case False
    let ?L = "length (nat_to_be (length c))"
    have L: "1 \<le> ?L" "?L \<le> 8" using length_size_field [of "length c"] False len by auto
    then have b: "unat (word_of_nat (183 + ?L) :: byte) = 183 + ?L"
      by (intro unat_byte_of_nat) simp
    then have b': "unat (word_of_nat (183 + ?L) - 0xB7 :: byte) = ?L"
      by (subst unat_byte_diff) (simp_all only: b, simp_all)
    have "readSize (nat_to_be (length c) @ c @ rest) (word_of_nat (183 + ?L) - 0xB7)
          = Inr (word_of_nat (length c))"
      using L False len by (subst readSize_iff) (simp_all only: b', simp_all)
    then show ?thesis using False String L b
      by (simp add: kind_head_def rlp_head_def readTag_long del: of_nat_add of_nat_Suc)
  qed
next
  case List
  show ?thesis
  proof (cases "length c < 56")
    case True
    then have "unat (word_of_nat (192 + length c) :: byte) = 192 + length c"
      by (intro unat_byte_of_nat) simp
    then show ?thesis using True List
      by (simp add: kind_head_def rlp_head_def readTag_List del: of_nat_add)
  next
    case False
    let ?L = "length (nat_to_be (length c))"
    have L: "1 \<le> ?L" "?L \<le> 8" using length_size_field [of "length c"] False len by auto
    then have b: "unat (word_of_nat (247 + ?L) :: byte) = 247 + ?L"
      by (intro unat_byte_of_nat) simp
    then have b': "unat (word_of_nat (247 + ?L) - 0xF7 :: byte) = ?L"
      by (subst unat_byte_diff) (simp_all only: b, simp_all)
    have "readSize (nat_to_be (length c) @ c @ rest) (word_of_nat (247 + ?L) - 0xF7)
          = Inr (word_of_nat (length c))"
      using L False len by (subst readSize_iff) (simp_all only: b', simp_all)
    then show ?thesis using False List L b
      by (simp add: kind_head_def rlp_head_def readTag_long del: of_nat_add of_nat_Suc)
  qed
qed

lemma readTag_ts_le:
  assumes "readTag (b # t) = Inr (k, ts, cs)"
  shows "unat ts \<le> length (b # t)"
proof -
  consider "unat b < 128" | "128 \<le> unat b" "unat b < 184" | "184 \<le> unat b" "unat b < 192"
    | "192 \<le> unat b" "unat b < 248" | "248 \<le> unat b" by linarith
  then show ?thesis
  proof cases
    case 3
    with assms have "readSize t (b - 0xB7) = Inr cs" "ts = word_of_nat (Suc (unat b - 183))"
      by (auto simp: readTag_long(1) map_sum_def split: sum.splits)
    moreover have "unat (b - 0xB7) = unat b - 183" using 3 by (subst unat_byte_diff) simp_all
    ultimately show ?thesis using 3
      by (auto simp: readSize_def simp del: of_nat_Suc split: if_splits)
  next
    case 5
    with assms have "readSize t (b - 0xF7) = Inr cs" "ts = word_of_nat (Suc (unat b - 247))"
      by (auto simp: readTag_long(2) map_sum_def split: sum.splits)
    moreover have "unat (b - 0xF7) = unat b - 247" using 5 by (subst unat_byte_diff) simp_all
    ultimately show ?thesis using 5 unat_byte_less [of b]
      by (auto simp: readSize_def simp del: of_nat_Suc split: if_splits)
  qed (use assms in \<open>auto simp: readTag_Byte readTag_String readTag_List split: if_splits\<close>)
qed

lemma take_drop_split: "t = take n t @ take m (drop n t) @ drop m (drop n t)"
  by (metis append_take_drop_id)

lemma of_nat_unat_id: "word_of_nat (unat (w :: 'a :: len word)) = w"
  by simp

lemma readTag_sound_long:
  assumes rs: "readSize t (b - tag) = Inr cs" and b: "unat b = unat tag + L" "1 \<le> L" "L \<le> 8"
    and fits: "L + unat cs \<le> length t"
  shows "\<exists>c rest. b # t = rlp_head small (unat tag) (length c) @ c @ rest \<and> 56 \<le> length c
    \<and> Suc L = length (rlp_head small (unat tag) (length c)) \<and> unat cs = length c"
proof -
  have L: "unat (b - tag) = L" using b by (subst unat_byte_diff) simp_all
  with rs b readSize_iff [of "b - tag" t cs]
  have L': "L \<le> length t" and n: "56 \<le> unat cs" and d: "take L t = nat_to_be (unat cs)"
    by auto
  let ?c = "take (unat cs) (drop L t)" and ?r = "drop (unat cs) (drop L t)"
  have lc: "length ?c = unat cs" using fits by simp
  have len: "length (nat_to_be (unat cs)) = L" using d L' by (metis length_take min.absorb2)
  have "b = word_of_nat (unat tag + L)" using b(1) by (metis of_nat_unat_id)
  moreover have "t = nat_to_be (unat cs) @ ?c @ ?r" using take_drop_split [of t L] d by metis
  ultimately have "b # t = rlp_head small (unat tag) (length ?c) @ ?c @ ?r"
    using n by (simp only: lc rlp_head_def len) simp
  moreover have "Suc L = length (rlp_head small (unat tag) (length ?c))"
    using n by (simp only: lc rlp_head_def len) (simp add: len)
  ultimately show ?thesis using lc n by (intro exI [of _ ?c] exI [of _ ?r]) simp
qed

lemma readTag_sound_short:
  assumes b: "unat b = small + n" "n < 56" "n \<le> length t"
  shows "\<exists>c rest. b # t = rlp_head small large (length c) @ c @ rest \<and> length c = n
    \<and> Suc 0 = length (rlp_head small large (length c)) \<and> c @ rest = t"
proof -
  have "b = word_of_nat (small + n)" using b(1) by (metis of_nat_unat_id)
  with b have "b # t = rlp_head small large (length (take n t)) @ take n t @ drop n t"
    and "Suc 0 = length (rlp_head small large (length (take n t)))"
    by (simp_all add: rlp_head_def)
  with b show ?thesis by (metis append_take_drop_id length_take min.absorb2)
qed

lemma readTag_sound:
  assumes tag: "readTag (b # t) = Inr (k, ts, cs)" and fits: "unat ts + unat cs \<le> length (b # t)"
  shows "\<exists>c rest. b # t = kind_head k (length c) @ c @ rest \<and> canon k c
    \<and> unat ts = length (kind_head k (length c)) \<and> unat cs = length c"
proof -
  consider "unat b < 128" | "128 \<le> unat b" "unat b < 184" | "184 \<le> unat b" "unat b < 192"
    | "192 \<le> unat b" "unat b < 248" | "248 \<le> unat b" by linarith
  then show ?thesis
  proof cases
    case 1
    with tag have "k = Byte" "ts = 0" "cs = 1" by (auto simp: readTag_Byte)
    moreover have "canon Byte [b]" using 1 by (simp add: canon_def single_def byte_less_iff)
    ultimately show ?thesis by (intro exI [of _ "[b]"] exI [of _ t]) (simp add: kind_head_def)
  next
    case 2
    with tag have k: "k = String" "ts = 1" "cs = word_of_nat (unat b - 128)"
      and nc: "\<not> (unat b = 129 \<and> t \<noteq> [] \<and> t ! 0 < 128)"
      by (auto simp: readTag_String split: if_splits)
    have cs: "unat cs = unat b - 128" using k unat_byte_less [of b] by simp
    have "unat b = 128 + (unat b - 128)" "unat b - 128 < 56" "unat b - 128 \<le> length t"
      using k cs fits 2 by simp_all
    from readTag_sound_short [OF this, of 183] obtain c rest where c: "b # t = rlp_head 128 183 (length c) @ c @ rest"
      "length c = unat b - 128" "Suc 0 = length (rlp_head 128 183 (length c))" "c @ rest = t" by blast
    have "canon String c"
      using nc c(2,4) by (auto simp: canon_def single_def nth_append)
    with k c cs show ?thesis
      by (intro exI [of _ c] exI [of _ rest]) (simp add: kind_head_def)
  next
    case 3
    with tag obtain ok: "readSize t (b - 0xB7) = Inr cs"
      and k: "k = String" "ts = word_of_nat (Suc (unat b - 183))"
      by (auto simp: readTag_long(1) map_sum_def split: sum.splits)
    have ts: "unat ts = Suc (unat b - 183)" using k unat_byte_less [of b] by (simp del: of_nat_Suc)
    with fits 3 have "unat b - 183 + unat cs \<le> length t" by simp
    with readTag_sound_long [OF ok, of "unat b - 183" 128] 3 ts k show ?thesis
      by (fastforce simp: kind_head_def canon_def single_def)
  next
    case 4
    with tag have k: "k = List" "ts = 1" "cs = word_of_nat (unat b - 192)"
      by (auto simp: readTag_List)
    have cs: "unat cs = unat b - 192" using k unat_byte_less [of b] by simp
    have "unat b = 192 + (unat b - 192)" "unat b - 192 < 56" "unat b - 192 \<le> length t"
      using k cs fits 4 by simp_all
    from readTag_sound_short [OF this, of 247] obtain c rest where "b # t = rlp_head 192 247 (length c) @ c @ rest"
      "length c = unat b - 192" "Suc 0 = length (rlp_head 192 247 (length c))" by blast
    with k cs show ?thesis
      by (intro exI [of _ c] exI [of _ rest]) (simp add: kind_head_def canon_def)
  next
    case 5
    with tag obtain ok: "readSize t (b - 0xF7) = Inr cs"
      and k: "k = List" "ts = word_of_nat (Suc (unat b - 247))"
      by (auto simp: readTag_long(2) map_sum_def split: sum.splits)
    have ts: "unat ts = Suc (unat b - 247)" using k unat_byte_less [of b] by (simp del: of_nat_Suc)
    with fits 5 have "unat b - 247 + unat cs \<le> length t" by simp
    with readTag_sound_long [OF ok, of "unat b - 247" 192] 5 ts k unat_byte_less [of b] show ?thesis
      by (fastforce simp: kind_head_def canon_def)
  qed
qed

lemma readKind_iff:
  assumes len: "length buf < 2 ^ 64"
  shows "readKind buf = Inr (k, ts, cs) \<longleftrightarrow>
    (\<exists>c rest. buf = kind_head k (length c) @ c @ rest \<and> canon k c
       \<and> unat ts = length (kind_head k (length c)) \<and> unat cs = length c)"
proof
  assume rk: "readKind buf = Inr (k, ts, cs)"
  then obtain b t where buf: "buf = b # t" by (cases buf) (auto simp: readKind_def)
  from rk have tag: "readTag buf = Inr (k, ts, cs)" and "\<not> word_of_nat (length buf) - ts < cs"
    by (auto simp: readKind_def split: if_splits sum.splits)
  moreover have "unat ts \<le> length buf" using tag buf readTag_ts_le len by blast
  ultimately have "unat ts + unat cs \<le> length buf" using readKind_check [OF len] by force
  with tag buf readTag_sound show "\<exists>c rest. buf = kind_head k (length c) @ c @ rest \<and> canon k c
       \<and> unat ts = length (kind_head k (length c)) \<and> unat cs = length c" by blast
next
  assume "\<exists>c rest. buf = kind_head k (length c) @ c @ rest \<and> canon k c
       \<and> unat ts = length (kind_head k (length c)) \<and> unat cs = length c"
  then obtain c rest where buf: "buf = kind_head k (length c) @ c @ rest" and canon: "canon k c"
    and sz: "unat ts = length (kind_head k (length c))" "unat cs = length c" by blast
  have ne: "buf \<noteq> []"
    using buf canon by (cases k) (auto simp: kind_head_def canon_def single_def)
  have "length c < 2 ^ 64" using len buf by simp
  from readTag_complete [OF this canon, of rest] buf sz
  have tag: "readTag buf = Inr (k, ts, cs)" by (metis of_nat_unat_id)
  have "\<not> word_of_nat (length buf) - ts < cs"
    using readKind_check [OF len, of ts cs] sz buf by auto
  with tag ne show "readKind buf = Inr (k, ts, cs)" by (simp add: readKind_def)
qed

text \<open>An accepted value lies within the input, and it is not empty.\<close>

lemma readKind_extent:
  assumes rk: "readKind buf = Inr (k, ts, cs)" and len: "length buf < 2 ^ 64"
  shows "unat (ts + cs) = unat ts + unat cs" "unat ts + unat cs \<le> length buf" "0 < unat ts + unat cs"
proof -
  from rk len obtain c rest where c: "buf = kind_head k (length c) @ c @ rest" "canon k c"
    "unat ts = length (kind_head k (length c))" "unat cs = length c"
    by (auto simp: readKind_iff)
  then show le: "unat ts + unat cs \<le> length buf" by simp
  show "0 < unat ts + unat cs"
    using c by (cases k) (auto simp: canon_def single_def kind_head_def)
  show "unat (ts + cs) = unat ts + unat cs"
    using le len by (simp add: unat_plus_simple [THEN iffD1] word_le_nat_alt unat_word_ariths)
qed

section \<open>Counting values\<close>

text \<open>
  The loop of \<open>CountValues\<close>. A Go slice has fewer than \<open>2\<^sup>6\<^sup>3\<close> elements; the guard says so,
  and makes the loop total on every list.
\<close>

function CountValues_from :: "nat \<Rightarrow> bytes \<Rightarrow> rlp_error + nat" where
  "CountValues_from i b =
     (if b = [] then Inr i
      else if length b \<ge> 2 ^ 63 then Inl Panic
      else (case readKind b of
              Inl e \<Rightarrow> Inl e
            | Inr (_, tagsize, sz) \<Rightarrow> CountValues_from (Suc i) (drop (unat (tagsize + sz)) b)))"
  by pat_completeness auto
termination
proof (relation "measure (\<lambda>(i, b). length b)")
  fix i b x k y ts cs
  assume "b \<noteq> []" "\<not> 2 ^ 63 \<le> length b" "readKind b = Inr x" "(k, y) = x" "(ts, cs) = y"
  then have "unat (ts + cs) = length b - length (drop (unat (ts + cs)) b)" "0 < unat (ts + cs)"
    using readKind_extent [of b k ts cs] by auto
  then show "((Suc i, drop (unat (ts + cs)) b), (i, b)) \<in> measure (\<lambda>(i, b). length b)"
    using \<open>b \<noteq> []\<close> by simp
qed simp

declare CountValues_from.simps [simp del]

definition CountValues :: "bytes \<Rightarrow> rlp_error + nat" where
  "CountValues b = CountValues_from 0 b"

section \<open>Correctness of the readers\<close>

lemma Split_iff:
  assumes len: "length b < 2 ^ 64"
  shows "Split b = Inr (k, c, rest) \<longleftrightarrow> b = kind_head k (length c) @ c @ rest \<and> canon k c"
proof
  assume "Split b = Inr (k, c, rest)"
  then obtain ts cs where rk: "readKind b = Inr (k, ts, cs)"
    and c: "c = subslice (unat ts) (unat (ts + cs)) b" "rest = drop (unat (ts + cs)) b"
    by (auto simp: Split_def split: sum.splits)
  from rk readKind_iff [OF len] obtain c' rest' where
    c': "b = kind_head k (length c') @ c' @ rest'" "canon k c'"
      "unat ts = length (kind_head k (length c'))" "unat cs = length c'" by blast
  with c readKind_extent(1) [OF rk len] have "c = c'" "rest = rest'" by (simp_all add: subslice_def)
  with c' show "b = kind_head k (length c) @ c @ rest \<and> canon k c" by simp
next
  assume b: "b = kind_head k (length c) @ c @ rest \<and> canon k c"
  let ?ts = "word_of_nat (length (kind_head k (length c))) :: u64"
  let ?cs = "word_of_nat (length c) :: u64"
  have un: "unat ?ts = length (kind_head k (length c))" "unat ?cs = length c"
    using b len by auto
  with b readKind_iff [OF len] have rk: "readKind b = Inr (k, ?ts, ?cs)" by blast
  have "unat (?ts + ?cs) = length (kind_head k (length c)) + length c"
    using readKind_extent(1) [OF rk len] un by simp
  moreover have "Split b = Inr (k, subslice (unat ?ts) (unat (?ts + ?cs)) b, drop (unat (?ts + ?cs)) b)"
    by (simp add: Split_def rk)
  ultimately show "Split b = Inr (k, c, rest)" using un b by (simp add: subslice_def)
qed

lemma rlp_enc_kind:
  obtains k c where "rlp_enc x = kind_head k (length c) @ c" "canon k c"
    "k = List \<longleftrightarrow> (\<exists>xs. x = Lst xs)" "\<And>b. x = Str b \<Longrightarrow> c = b"
    "\<And>xs. x = Lst xs \<Longrightarrow> c = concat (map rlp_enc xs)"
proof (cases x)
  case (Str b)
  show thesis
  proof (cases "single b")
    case True
    with Str show thesis
      by (intro that [of Byte b]) (simp_all add: canon_def kind_head_def single_def enc_str_def)
  next
    case False
    with Str show thesis
      by (intro that [of String b]) (auto simp: canon_def kind_head_def single_def enc_str_def)
  qed
next
  case (Lst xs)
  then show thesis
    by (intro that [of List "concat (map rlp_enc xs)"])
       (simp_all add: canon_def kind_head_def enc_list_def)
qed

lemma readKind_rlp_enc:
  assumes "length (rlp_enc x @ rest) < 2 ^ 64"
  obtains k ts cs where "readKind (rlp_enc x @ rest) = Inr (k, ts, cs)"
    "unat (ts + cs) = length (rlp_enc x)"
proof -
  obtain k c where x: "rlp_enc x = kind_head k (length c) @ c" "canon k c" by (rule rlp_enc_kind)
  let ?ts = "word_of_nat (length (kind_head k (length c))) :: u64"
  let ?cs = "word_of_nat (length c) :: u64"
  have un: "unat ?ts = length (kind_head k (length c))" "unat ?cs = length c"
    using assms x by auto
  with x assms have rk: "readKind (rlp_enc x @ rest) = Inr (k, ?ts, ?cs)"
    by (subst readKind_iff) auto
  from readKind_extent [OF rk assms] un x have "unat (?ts + ?cs) = length (rlp_enc x)" by simp
  with rk that show thesis by blast
qed

lemma CountValues_from_enc:
  "length (concat (map rlp_enc xs)) < 2 ^ 63 \<Longrightarrow>
   CountValues_from i (concat (map rlp_enc xs)) = Inr (i + length xs)"
proof (induction xs arbitrary: i)
  case Nil
  then show ?case by (simp add: CountValues_from.simps)
next
  case (Cons x xs)
  let ?rest = "concat (map rlp_enc xs)"
  have "length (rlp_enc x @ ?rest) < 2 ^ 64" using Cons.prems by simp
  then obtain k ts cs where rk: "readKind (rlp_enc x @ ?rest) = Inr (k, ts, cs)"
    and sz: "unat (ts + cs) = length (rlp_enc x)" by (rule readKind_rlp_enc)
  have "CountValues_from i (rlp_enc x @ ?rest) = CountValues_from (Suc i) ?rest"
    using Cons.prems by (subst CountValues_from.simps) (simp add: rk sz)
  with Cons show ?case by simp
qed

lemma AppendUint64_putint:
  "128 \<le> i \<Longrightarrow> AppendUint64 b i = b @ (0x80 + word_of_nat (length (putint i))) # putint i"
  by (simp add: AppendUint64_def putint_def word_le_nat_alt u64_less_iff) (auto simp: word_le_nat_alt)

lemma nat_to_be_small: "0 < n \<Longrightarrow> n < 256 \<Longrightarrow> nat_to_be n = [word_of_nat n]"
  by (simp add: nat_to_be_pos)

text \<open>The RLP string of an unsigned integer, in the three forms the encoders distinguish.\<close>

lemma enc_str_uint:
  "enc_str (nat_to_be (unat (i :: u64))) =
     (if i = 0 then [0x80] else if i < 128 then [ucast i]
      else (0x80 + word_of_nat (length (putint i))) # putint i)"
proof -
  consider "i = 0" | "0 < unat i" "unat i < 128" | "128 \<le> unat i"
    by (metis linorder_not_le neq0_conv unat_eq_zero)
  then show ?thesis
  proof cases
    case 1
    then show ?thesis by (simp add: enc_str_def rlp_head_def)
  next
    case 2
    then have "nat_to_be (unat i) = [word_of_nat (unat i)]" by (intro nat_to_be_small) auto
    moreover have "(word_of_nat (unat i) :: byte) < 128" using 2
      by (subst byte_less_iff, subst unat_byte_of_nat) auto
    ultimately show ?thesis using 2 by (auto simp: enc_str_def u64_less_iff)
  next
    case 3
    let ?n = "nat_to_be (unat i)"
    have put: "putint i = ?n" using 3 by (intro putint_eq) (simp add: u64_pos_iff)
    have len: "length ?n \<le> 8" using unsigned_less [of i] by (intro length_nat_to_be_u64) simp
    have ns: "\<not> (length ?n = 1 \<and> ?n ! 0 < 128)"
    proof
      assume a: "length ?n = 1 \<and> ?n ! 0 < 128"
      then obtain x where x: "?n = [x]" by (auto simp: length_Suc_conv)
      then have "unat i = unat x" using be_to_nat_nat_to_be [of "unat i"] by simp
      with a x 3 show False by (simp add: byte_less_iff)
    qed
    have i: "\<not> i < 128" "i \<noteq> 0" using 3 by (auto simp: u64_less_iff)
    from ns len show ?thesis
      by (simp only: enc_str_def put if_not_P i if_False) (simp add: rlp_head_def)
  qed
qed

lemma AppendUint64_eq: "AppendUint64 b i = b @ enc_str (nat_to_be (unat i))"
proof (cases "i < 128")
  case True
  then show ?thesis by (simp add: enc_str_uint) (simp add: AppendUint64_def)
next
  case False
  then have "128 \<le> i" and "i \<noteq> 0" by (auto simp: not_less)
  with False show ?thesis by (simp add: enc_str_uint AppendUint64_putint)
qed

lemma ListSize_eq:
  assumes "length (enc_list payload) < 2 ^ 64"
  shows "unat (ListSize (word_of_nat (length payload))) = length (enc_list payload)"
proof -
  have p: "unat (word_of_nat (length payload) :: u64) = length payload"
    using assms length_enc_list_ge [of payload] by simp
  have "ListSize (word_of_nat (length payload)) = word_of_nat (length (enc_list payload))"
    by (simp add: ListSize_def headsize_eq [of _ 192 247] p enc_list_def)
  with assms show ?thesis by simp
qed

end
