(* ===== verification/RlpEncode.thy ===== *)
theory RlpEncode
  imports RlpRaw
begin

text \<open>
  The encoder of package \<open>rlp\<close> (\<open>rlp/encode.go\<close>). String data and list headers are collected
  separately in an \<open>encbuf\<close>; the size of a list is known only when the list ends, so its header
  is entered first and patched by \<open>listEnd\<close>; \<open>toBytes\<close>, \<open>toWriter\<close> and \<open>encReader\<close> interleave
  the two. The closures that \<open>makeWriter\<close> returns are the values of the datatype \<open>writer\<close>, and
  \<open>runWriter\<close> calls them. The direct-style \<open>refWriter\<close> is the reference: it computes the
  encoding by concatenation, and the encoder is shown to produce exactly these bytes.

  A \<open>*listhead\<close> is the index of the head in \<open>lheads\<close>. The pool of buffers and the auxiliary
  \<open>sizebuf\<close> carry no state across calls and are left out. Sizes are Go \<open>int\<close>s that never become
  negative here; they are natural numbers.
\<close>

section \<open>The buffer\<close>

record listhead =
  lh_offset :: nat
  lh_size :: nat

record encbuf =
  eb_str :: bytes
  eb_lheads :: "listhead list"
  eb_lhsize :: nat

definition eb_reset :: encbuf where
  "eb_reset = \<lparr>eb_str = [], eb_lheads = [], eb_lhsize = 0\<rparr>"

definition listhead_encode :: "listhead \<Rightarrow> bytes" where
  "listhead_encode h = puthead 0xC0 0xF7 (word_of_nat (lh_size h))"

definition eb_Write :: "bytes \<Rightarrow> encbuf \<Rightarrow> encbuf" where
  "eb_Write b w = w\<lparr>eb_str := eb_str w @ b\<rparr>"

definition encodeStringHeader :: "nat \<Rightarrow> encbuf \<Rightarrow> encbuf" where
  "encodeStringHeader n w =
     (if n < 56 then w\<lparr>eb_str := eb_str w @ [0x80 + word_of_nat n]\<rparr>
      else let sz = putint (word_of_nat n) in
        w\<lparr>eb_str := eb_str w @ (0xB7 + word_of_nat (length sz)) # sz\<rparr>)"

definition encodeString :: "bytes \<Rightarrow> encbuf \<Rightarrow> encbuf" where
  "encodeString b w =
     (if length b = 1 \<and> b ! 0 \<le> 0x7F then w\<lparr>eb_str := eb_str w @ [b ! 0]\<rparr>
      else let w' = encodeStringHeader (length b) w in w'\<lparr>eb_str := eb_str w' @ b\<rparr>)"

definition eb_size :: "encbuf \<Rightarrow> nat" where
  "eb_size w = length (eb_str w) + eb_lhsize w"

text \<open>\<open>list\<close> returns the index of the head it appends.\<close>

definition eb_list :: "encbuf \<Rightarrow> nat \<times> encbuf" where
  "eb_list w =
     (length (eb_lheads w),
      w\<lparr>eb_lheads := eb_lheads w @ [\<lparr>lh_offset = length (eb_str w), lh_size = eb_lhsize w\<rparr>]\<rparr>)"

definition eb_listEnd :: "nat \<Rightarrow> encbuf \<Rightarrow> encbuf" where
  "eb_listEnd i w =
     (let lh = eb_lheads w ! i; sz = eb_size w - lh_offset lh - lh_size lh in
      w\<lparr>eb_lheads := (eb_lheads w)[i := lh\<lparr>lh_size := sz\<rparr>],
        eb_lhsize := eb_lhsize w + (if sz < 56 then 1 else 1 + intsize (word_of_nat sz))\<rparr>)"

text \<open>
  The loop of \<open>toBytes\<close> over the heads: \<open>out\<close> has its final size from the start, and string data
  and headers are copied into it at \<open>pos\<close>.
\<close>

primrec toBytes_loop :: "bytes \<Rightarrow> listhead list \<Rightarrow> nat \<Rightarrow> nat \<Rightarrow> bytes \<Rightarrow> bytes" where
  "toBytes_loop str [] strpos pos out = copy_at pos (drop strpos str) out"
| "toBytes_loop str (h # hs) strpos pos out =
     (let piece = subslice strpos (lh_offset h) str;
          n = min (length piece) (length out - pos);
          out1 = copy_at pos piece out;
          enc = listhead_encode h
      in toBytes_loop str hs (strpos + n) (pos + n + length enc) (copy_at (pos + n) enc out1))"

definition toBytes :: "encbuf \<Rightarrow> bytes" where
  "toBytes w = toBytes_loop (eb_str w) (eb_lheads w) 0 0 (replicate (eb_size w) 0)"

text \<open>
  \<open>toWriter\<close> against an \<open>io.Writer\<close>, whose \<open>Write\<close> is the parameter \<open>wr\<close>: it takes the bytes and
  the writer's state and returns how many bytes it took, an error or none, and the new state.
\<close>

primrec toWriter_loop ::
  "(bytes \<Rightarrow> 'w \<Rightarrow> nat \<times> rlp_error option \<times> 'w) \<Rightarrow> bytes \<Rightarrow> listhead list \<Rightarrow> nat \<Rightarrow> 'w
   \<Rightarrow> rlp_error option \<times> 'w" where
  "toWriter_loop wr str [] strpos out =
     (if strpos < length str
      then (case wr (drop strpos str) out of (_, err, out') \<Rightarrow> (err, out'))
      else (None, out))"
| "toWriter_loop wr str (h # hs) strpos out =
     (let r = (if lh_offset h - strpos > 0
               then (case wr (subslice strpos (lh_offset h) str) out of
                       (n, err, out') \<Rightarrow> (strpos + n, err, out'))
               else (strpos, None, out))
      in case r of (strpos', err, out') \<Rightarrow>
        (case err of
           Some e \<Rightarrow> (Some e, out')
         | None \<Rightarrow>
             (case wr (listhead_encode h) out' of (_, err2, out2) \<Rightarrow>
                (case err2 of
                   Some e \<Rightarrow> (Some e, out2)
                 | None \<Rightarrow> toWriter_loop wr str hs strpos' out2))))"

definition toWriter ::
  "(bytes \<Rightarrow> 'w \<Rightarrow> nat \<times> rlp_error option \<times> 'w) \<Rightarrow> encbuf \<Rightarrow> 'w \<Rightarrow> rlp_error option \<times> 'w" where
  "toWriter wr w out = toWriter_loop wr (eb_str w) (eb_lheads w) 0 out"

section \<open>Writers\<close>

datatype writer =
    WRawValue
  | WBigIntPtr
  | WBigIntNoPtr
  | WPtr Kind writer
  | WEncoder string rtype
  | WUint
  | WBool
  | WString
  | WBytes
  | WByteArray
  | WSlice bool bool writer
  | WStruct "(nat \<times> writer) list"
  | WInterface

text \<open>
  \<open>makeWriter\<close> with \<open>makeSliceWriter\<close>, \<open>makeStructWriter\<close>, \<open>makePtrWriter\<close> and
  \<open>makeEncoderWriter\<close>. The cases are in the order of the source's switch; \<open>makeFieldWriters\<close> is
  the loop over the fields of a struct, after \<open>structFields\<close> has accepted its tags.
\<close>

fun makeWriter :: "rtype \<Rightarrow> tags \<Rightarrow> rlp_error + writer"
and makeFieldWriters :: "rtype \<Rightarrow> nat \<Rightarrow> nat \<Rightarrow> field_decl list \<Rightarrow> rlp_error + (nat \<times> writer) list" where
  "makeWriter TRawValue ts = Inr WRawValue"
| "makeWriter (TPtr TBigInt) ts = Inr WBigIntPtr"
| "makeWriter TBigInt ts = Inr WBigIntNoPtr"
| "makeWriter (TPtr e) ts =
     (case makeWriter e no_tags of
        Inl err \<Rightarrow> Inl err
      | Inr wr \<Rightarrow> Inr (WPtr (if nilOK ts then nilKind ts else defaultNilKind e) wr))"
| "makeWriter (TEncoder name t) ts = Inr (WEncoder name t)"
| "makeWriter (TUint n) ts = Inr WUint"
| "makeWriter TBool ts = Inr WBool"
| "makeWriter TString ts = Inr WString"
| "makeWriter (TSlice e) ts =
     (if isByte e then Inr WBytes
      else (case makeWriter e no_tags of Inl err \<Rightarrow> Inl err | Inr wr \<Rightarrow> Inr (WSlice (tail ts) True wr)))"
| "makeWriter (TArray n e) ts =
     (if isByte e then Inr WByteArray
      else (case makeWriter e no_tags of Inl err \<Rightarrow> Inl err | Inr wr \<Rightarrow> Inr (WSlice (tail ts) False wr)))"
| "makeWriter (TStruct name fs) ts =
     (case structFields (TStruct name fs) fs of
        Inl err \<Rightarrow> Inl err
      | Inr _ \<Rightarrow>
          (case makeFieldWriters (TStruct name fs) (lastPublicField fs) 0 fs of
             Inl err \<Rightarrow> Inl err
           | Inr ws \<Rightarrow> Inr (WStruct ws)))"
| "makeWriter (TInterface n) ts = Inr WInterface"
| "makeWriter (TOther name) ts = Inl (notSerializable (TOther name))"
| "makeFieldWriters ty l i [] = Inr []"
| "makeFieldWriters ty l i ((name, tag, exported, t) # fs) =
     (case (if exported then parseStructTag ty (name, tag, exported, t) i l
            else Inr (no_tags\<lparr>ignored := True\<rparr>)) of
        Inl err \<Rightarrow> Inl err
      | Inr ts \<Rightarrow>
          if ignored ts then makeFieldWriters ty l (Suc i) fs
          else (case makeWriter t ts of
                  Inl err \<Rightarrow> Inl (structFieldError ty i err)
                | Inr wr \<Rightarrow>
                    (case makeFieldWriters ty l (Suc i) fs of
                       Inl err \<Rightarrow> Inl err
                     | Inr ws \<Rightarrow> Inr ((i, wr) # ws))))"

definition writeRawValue :: "bytes \<Rightarrow> encbuf \<Rightarrow> encbuf" where
  "writeRawValue b w = w\<lparr>eb_str := eb_str w @ b\<rparr>"

definition writeUint :: "u64 \<Rightarrow> encbuf \<Rightarrow> encbuf" where
  "writeUint i w =
     (if i = 0 then w\<lparr>eb_str := eb_str w @ [0x80]\<rparr>
      else if i < 128 then w\<lparr>eb_str := eb_str w @ [ucast i]\<rparr>
      else let s = putint i in
        w\<lparr>eb_str := eb_str w @ (0x80 + word_of_nat (length s)) # s\<rparr>)"

definition writeBool :: "bool \<Rightarrow> encbuf \<Rightarrow> encbuf" where
  "writeBool b w = w\<lparr>eb_str := eb_str w @ [if b then 0x01 else 0x80]\<rparr>"

definition writeBigInt :: "int \<Rightarrow> encbuf \<Rightarrow> rlp_error + encbuf" where
  "writeBigInt i w =
     (if i < 0 then Inl negativeBigInt
      else if i = 0 then Inr (w\<lparr>eb_str := eb_str w @ [0x80]\<rparr>)
      else Inr (encodeString (nat_to_be (nat i)) w))"

definition writeBytes :: "bytes \<Rightarrow> encbuf \<Rightarrow> encbuf" where
  "writeBytes b w = encodeString b w"

definition writeByteArray :: "bytes \<Rightarrow> encbuf \<Rightarrow> encbuf" where
  "writeByteArray b w = encodeString b w"

definition writeString :: "bytes \<Rightarrow> encbuf \<Rightarrow> encbuf" where
  "writeString s w =
     (if length s = 1 \<and> s ! 0 \<le> 0x7f then w\<lparr>eb_str := eb_str w @ [s ! 0]\<rparr>
      else let w' = encodeStringHeader (length s) w in w'\<lparr>eb_str := eb_str w' @ s\<rparr>)"

text \<open>
  Calling a writer. A value of the wrong shape for its writer is a \<open>reflect\<close> panic.
  \<open>runElems\<close> and \<open>runFields\<close> are the loops of the slice and struct writers. The flag \<open>ad\<close> is
  \<open>val.CanAddr()\<close>, with the rules of package \<open>reflect\<close>: the value given to \<open>encode\<close> and the
  contents of an interface are not addressable, what a pointer points to and the elements of a
  slice are, a struct field and an array element are when the struct or array is. The writer of a
  type whose pointer is an \<open>Encoder\<close> refuses a value that is not addressable; what its
  \<open>EncodeRLP\<close> hands to \<open>rlp.Encode\<close> is again not addressable.
\<close>

function (sequential) runWriter :: "bool \<Rightarrow> writer \<Rightarrow> rval \<Rightarrow> encbuf \<Rightarrow> rlp_error + encbuf"
and runElems :: "bool \<Rightarrow> writer \<Rightarrow> rval list \<Rightarrow> encbuf \<Rightarrow> rlp_error + encbuf"
and runFields :: "bool \<Rightarrow> (nat \<times> writer) list \<Rightarrow> rval list \<Rightarrow> encbuf \<Rightarrow> rlp_error + encbuf" where
  "runWriter ad wr (VBytes b) w =
     (case wr of
        WRawValue \<Rightarrow> Inr (writeRawValue b w)
      | WString \<Rightarrow> Inr (writeString b w)
      | WBytes \<Rightarrow> Inr (writeBytes b w)
      | WByteArray \<Rightarrow> Inr (writeByteArray b w)
      | _ \<Rightarrow> Inl Panic)"
| "runWriter ad wr (VUint i) w = (case wr of WUint \<Rightarrow> Inr (writeUint i w) | _ \<Rightarrow> Inl Panic)"
| "runWriter ad wr (VBool b) w = (case wr of WBool \<Rightarrow> Inr (writeBool b w) | _ \<Rightarrow> Inl Panic)"
| "runWriter ad wr (VBig i) w = (case wr of WBigIntNoPtr \<Rightarrow> writeBigInt i w | _ \<Rightarrow> Inl Panic)"
| "runWriter ad wr VNil w =
     (case wr of
        WBigIntPtr \<Rightarrow> Inr (w\<lparr>eb_str := eb_str w @ [0x80]\<rparr>)
      | WPtr nk e \<Rightarrow>
          if nk = String then Inr (w\<lparr>eb_str := eb_str w @ [0x80]\<rparr>)
          else (case eb_list w of (lh, w') \<Rightarrow> Inr (eb_listEnd lh w'))
      | WInterface \<Rightarrow> Inr (w\<lparr>eb_str := eb_str w @ [0xC0]\<rparr>)
      | _ \<Rightarrow> Inl Panic)"
| "runWriter ad wr (VPtr v) w =
     (case wr of
        WBigIntPtr \<Rightarrow> (case v of VBig i \<Rightarrow> writeBigInt i w | _ \<Rightarrow> Inl Panic)
      | WPtr nk e \<Rightarrow> runWriter True e v w
      | _ \<Rightarrow> Inl Panic)"
| "runWriter ad wr (VList vs) w =
     (case wr of
        WSlice tailed sl e \<Rightarrow>
          if tailed then runElems (sl \<or> ad) e vs w
          else (case eb_list w of (lh, w') \<Rightarrow>
                  (case runElems (sl \<or> ad) e vs w' of
                     Inl err \<Rightarrow> Inl err
                   | Inr w'' \<Rightarrow> Inr (eb_listEnd lh w'')))
      | _ \<Rightarrow> Inl Panic)"
| "runWriter ad wr (VStruct vs) w =
     (case wr of
        WStruct fs \<Rightarrow>
          (case eb_list w of (lh, w') \<Rightarrow>
             (case runFields ad fs vs w' of
                Inl err \<Rightarrow> Inl err
              | Inr w'' \<Rightarrow> Inr (eb_listEnd lh w'')))
      | _ \<Rightarrow> Inl Panic)"
| "runWriter ad wr (VIface t v) w =
     (case wr of
        WInterface \<Rightarrow>
          (case makeWriter t no_tags of Inl err \<Rightarrow> Inl err | Inr e \<Rightarrow> runWriter False e v w)
      | _ \<Rightarrow> Inl Panic)"
| "runWriter ad wr (VEncoder v) w =
     (case wr of
        WEncoder name t \<Rightarrow>
          if \<not> ad then Inl (unadressable (TEncoder name t))
          else (case makeWriter t no_tags of Inl err \<Rightarrow> Inl err | Inr e \<Rightarrow> runWriter False e v w)
      | _ \<Rightarrow> Inl Panic)"
| "runElems ad wr [] w = Inr w"
| "runElems ad wr (v # vs) w =
     (case runWriter ad wr v w of Inl err \<Rightarrow> Inl err | Inr w' \<Rightarrow> runElems ad wr vs w')"
| "runFields ad [] vs w = Inr w"
| "runFields ad ((i, wr) # fs) vs w =
     (if i < length vs
      then (case runWriter ad wr (vs ! i) w of Inl err \<Rightarrow> Inl err | Inr w' \<Rightarrow> runFields ad fs vs w')
      else Inl Panic)"
  by pat_completeness auto
termination
  by (relation "measures [\<lambda>x. case x of Inl (ad, wr, v, w) \<Rightarrow> size v
                            | Inr (Inl (ad, wr, vs, w)) \<Rightarrow> size_list size vs
                            | Inr (Inr (ad, fs, vs, w)) \<Rightarrow> size_list size vs,
                          \<lambda>x. case x of Inr (Inr (ad, fs, vs, w)) \<Rightarrow> Suc (length fs) | _ \<Rightarrow> 0]")
     (auto intro: size_nth_less)

text \<open>\<open>encbuf.encode\<close> and the exported entry points.\<close>

definition eb_encode :: "rtype \<Rightarrow> rval \<Rightarrow> encbuf \<Rightarrow> rlp_error + encbuf" where
  "eb_encode ty v w =
     (case makeWriter ty no_tags of Inl err \<Rightarrow> Inl err | Inr wr \<Rightarrow> runWriter False wr v w)"

definition EncodeToBytes :: "rtype \<Rightarrow> rval \<Rightarrow> rlp_error + bytes" where
  "EncodeToBytes ty v =
     (case eb_encode ty v eb_reset of Inl err \<Rightarrow> Inl err | Inr w \<Rightarrow> Inr (toBytes w))"

definition Encode ::
  "(bytes \<Rightarrow> 'w \<Rightarrow> nat \<times> rlp_error option \<times> 'w) \<Rightarrow> 'w \<Rightarrow> rtype \<Rightarrow> rval \<Rightarrow> rlp_error option \<times> 'w" where
  "Encode wr out ty v =
     (case eb_encode ty v eb_reset of Inl err \<Rightarrow> (Some err, out) | Inr w \<Rightarrow> toWriter wr w out)"

section \<open>The reference encoder\<close>

text \<open>The encoding by plain concatenation: the header of a list goes before its payload.\<close>

function (sequential) refWriter :: "bool \<Rightarrow> writer \<Rightarrow> rval \<Rightarrow> rlp_error + bytes"
and refElems :: "bool \<Rightarrow> writer \<Rightarrow> rval list \<Rightarrow> rlp_error + bytes"
and refFields :: "bool \<Rightarrow> (nat \<times> writer) list \<Rightarrow> rval list \<Rightarrow> rlp_error + bytes" where
  "refWriter ad wr (VBytes b) =
     (case wr of
        WRawValue \<Rightarrow> Inr b
      | WString \<Rightarrow> Inr (enc_str b)
      | WBytes \<Rightarrow> Inr (enc_str b)
      | WByteArray \<Rightarrow> Inr (enc_str b)
      | _ \<Rightarrow> Inl Panic)"
| "refWriter ad wr (VUint i) = (case wr of WUint \<Rightarrow> Inr (enc_str (nat_to_be (unat i))) | _ \<Rightarrow> Inl Panic)"
| "refWriter ad wr (VBool b) = (case wr of WBool \<Rightarrow> Inr (enc_str (if b then [1] else [])) | _ \<Rightarrow> Inl Panic)"
| "refWriter ad wr (VBig i) =
     (case wr of
        WBigIntNoPtr \<Rightarrow> if i < 0 then Inl negativeBigInt else Inr (enc_str (nat_to_be (nat i)))
      | _ \<Rightarrow> Inl Panic)"
| "refWriter ad wr VNil =
     (case wr of
        WBigIntPtr \<Rightarrow> Inr (enc_str [])
      | WPtr nk e \<Rightarrow> if nk = String then Inr (enc_str []) else Inr (enc_list [])
      | WInterface \<Rightarrow> Inr (enc_list [])
      | _ \<Rightarrow> Inl Panic)"
| "refWriter ad wr (VPtr v) =
     (case wr of
        WBigIntPtr \<Rightarrow>
          (case v of
             VBig i \<Rightarrow> if i < 0 then Inl negativeBigInt else Inr (enc_str (nat_to_be (nat i)))
           | _ \<Rightarrow> Inl Panic)
      | WPtr nk e \<Rightarrow> refWriter True e v
      | _ \<Rightarrow> Inl Panic)"
| "refWriter ad wr (VList vs) =
     (case wr of
        WSlice tailed sl e \<Rightarrow>
          if tailed then refElems (sl \<or> ad) e vs
          else map_sum id enc_list (refElems (sl \<or> ad) e vs)
      | _ \<Rightarrow> Inl Panic)"
| "refWriter ad wr (VStruct vs) =
     (case wr of WStruct fs \<Rightarrow> map_sum id enc_list (refFields ad fs vs) | _ \<Rightarrow> Inl Panic)"
| "refWriter ad wr (VIface t v) =
     (case wr of
        WInterface \<Rightarrow> (case makeWriter t no_tags of Inl err \<Rightarrow> Inl err | Inr e \<Rightarrow> refWriter False e v)
      | _ \<Rightarrow> Inl Panic)"
| "refWriter ad wr (VEncoder v) =
     (case wr of
        WEncoder name t \<Rightarrow>
          if \<not> ad then Inl (unadressable (TEncoder name t))
          else (case makeWriter t no_tags of Inl err \<Rightarrow> Inl err | Inr e \<Rightarrow> refWriter False e v)
      | _ \<Rightarrow> Inl Panic)"
| "refElems ad wr [] = Inr []"
| "refElems ad wr (v # vs) =
     (case refWriter ad wr v of Inl err \<Rightarrow> Inl err | Inr b \<Rightarrow> map_sum id ((@) b) (refElems ad wr vs))"
| "refFields ad [] vs = Inr []"
| "refFields ad ((i, wr) # fs) vs =
     (if i < length vs
      then (case refWriter ad wr (vs ! i) of
              Inl err \<Rightarrow> Inl err
            | Inr b \<Rightarrow> map_sum id ((@) b) (refFields ad fs vs))
      else Inl Panic)"
  by pat_completeness auto
termination
  by (relation "measures [\<lambda>x. case x of Inl (ad, wr, v) \<Rightarrow> size v
                            | Inr (Inl (ad, wr, vs)) \<Rightarrow> size_list size vs
                            | Inr (Inr (ad, fs, vs)) \<Rightarrow> size_list size vs,
                          \<lambda>x. case x of Inr (Inr (ad, fs, vs)) \<Rightarrow> Suc (length fs) | _ \<Rightarrow> 0]")
     (auto intro: size_nth_less)

section \<open>Laying out strings and headers\<close>

text \<open>
  \<open>lay p s hs\<close> is the output for the string data \<open>s\<close>, which starts at offset \<open>p\<close> of the
  string buffer, and the heads \<open>hs\<close>; \<open>ordered p n hs\<close> says that the heads are in the order of
  their offsets, within \<open>p\<close> and \<open>n\<close>; \<open>hlen hs\<close> is the total size of the encoded heads.
\<close>

definition head_bytes :: "listhead \<Rightarrow> bytes" where
  "head_bytes h = rlp_head 192 247 (lh_size h)"

fun lay :: "nat \<Rightarrow> bytes \<Rightarrow> listhead list \<Rightarrow> bytes" where
  "lay p s [] = s"
| "lay p s (h # hs) =
     take (lh_offset h - p) s @ head_bytes h @ lay (lh_offset h) (drop (lh_offset h - p) s) hs"

fun ordered :: "nat \<Rightarrow> nat \<Rightarrow> listhead list \<Rightarrow> bool" where
  "ordered p n [] = (p \<le> n)"
| "ordered p n (h # hs) = (p \<le> lh_offset h \<and> lh_size h < 2 ^ 64 \<and> ordered (lh_offset h) n hs)"

definition hlen :: "listhead list \<Rightarrow> nat" where
  "hlen hs = sum_list (map (\<lambda>h. length (head_bytes h)) hs)"

lemma hlen_simps [simp]:
  "hlen [] = 0" "hlen (h # hs) = length (head_bytes h) + hlen hs" "hlen (hs @ hs') = hlen hs + hlen hs'"
  by (simp_all add: hlen_def)

lemma ordered_le: "ordered p n hs \<Longrightarrow> p \<le> n"
  by (induction p n hs rule: ordered.induct) auto

lemma ordered_append: "ordered p n hs \<Longrightarrow> ordered n m hs' \<Longrightarrow> ordered p m (hs @ hs')"
proof (induction p n hs rule: ordered.induct)
  case (1 p n)
  then show ?case by (cases hs') auto
qed auto

lemma length_lay: "ordered p (p + length s) hs \<Longrightarrow> length (lay p s hs) = length s + hlen hs"
proof (induction hs arbitrary: p s)
  case Nil
  then show ?case by simp
next
  case (Cons h hs)
  let ?k = "lh_offset h - p"
  from Cons.prems have le: "p \<le> lh_offset h" "lh_offset h \<le> p + length s"
    by (auto dest: ordered_le)
  then have e: "lh_offset h + length (drop ?k s) = p + length s" by simp
  have "length (lay (lh_offset h) (drop ?k s) hs) = length (drop ?k s) + hlen hs"
    using Cons.prems by (intro Cons.IH) (simp only: e ordered.simps)
  with le show ?case by simp
qed


lemma lay_append:
  assumes "ordered p (p + length s) hs" "ordered (p + length s) m hs'"
  shows "lay p (s @ s') (hs @ hs') = lay p s hs @ lay (p + length s) s' hs'"
  using assms
proof (induction hs arbitrary: p s)
  case Nil
  show ?case
  proof (cases hs')
    case Nil
    then show ?thesis by simp
  next
    case (Cons h hs)
    with Nil.prems have "p + length s \<le> lh_offset h" by simp
    then have "lh_offset h - p = length s + (lh_offset h - (p + length s))" by simp
    with Cons show ?thesis by simp
  qed
next
  case (Cons h hs)
  let ?k = "lh_offset h - p"
  from Cons.prems have le: "p \<le> lh_offset h" "lh_offset h \<le> p + length s"
    by (auto dest: ordered_le)
  then have e: "lh_offset h + length (drop ?k s) = p + length s" by simp
  have "lay (lh_offset h) (drop ?k s @ s') (hs @ hs') =
    lay (lh_offset h) (drop ?k s) hs @ lay (lh_offset h + length (drop ?k s)) s' hs'"
    using Cons.prems by (intro Cons.IH) (simp_all only: e ordered.simps)
  with le show ?case by (simp only: e) simp
qed

text \<open>
  What a writer relies on the buffer for: \<open>adds w w' bs\<close> says that between \<open>w\<close> and \<open>w'\<close> exactly
  the output \<open>bs\<close> was added. Writing a string adds it, and opening a list, adding its payload
  and closing it adds the payload with its header.
\<close>

locale list_sink =
  fixes adds :: "'b \<Rightarrow> 'b \<Rightarrow> bytes \<Rightarrow> bool"
    and put :: "bytes \<Rightarrow> 'b \<Rightarrow> 'b"
    and open_list :: "'b \<Rightarrow> nat \<times> 'b"
    and close_list :: "nat \<Rightarrow> 'b \<Rightarrow> 'b"
  assumes adds_refl: "adds w w []"
    and adds_trans: "adds w w1 bs \<Longrightarrow> adds w1 w2 cs \<Longrightarrow> adds w w2 (bs @ cs)"
    and adds_put: "adds w (put b w) b"
    and adds_close: "open_list w = (i, w1) \<Longrightarrow> adds w1 w2 bs \<Longrightarrow> length bs < 2 ^ 64 \<Longrightarrow>
          adds w (close_list i w2) (enc_list bs)"
begin

lemma adds_put_then: "adds w w1 bs \<Longrightarrow> adds w (put b w1) (bs @ b)"
  by (rule adds_trans [OF _ adds_put])

lemma adds_empty_list: "open_list w = (i, w1) \<Longrightarrow> adds w (close_list i w1) (enc_list [])"
  by (erule adds_close [OF _ adds_refl]) simp

text \<open>A loop whose every step adds the output of its element adds their concatenation.\<close>

lemma adds_fold:
  assumes "\<And>x w. x \<in> set xs \<Longrightarrow> adds w (step x w) (out x)"
  shows "adds w (fold step xs w) (concat (map out xs))"
  using assms
proof (induction xs arbitrary: w)
  case Nil
  then show ?case by (simp add: adds_refl)
next
  case (Cons x xs)
  have "adds w (step x w) (out x)" by (rule Cons.prems) simp
  moreover have "adds (step x w) (fold step xs (step x w)) (concat (map out xs))"
    by (rule Cons.IH) (rule Cons.prems, simp)
  ultimately show ?case by (simp add: adds_trans)
qed

end

definition eb_adds :: "encbuf \<Rightarrow> encbuf \<Rightarrow> bytes \<Rightarrow> bool" where
  "eb_adds w w' bs \<longleftrightarrow>
     (\<exists>s hs. w' = w\<lparr>eb_str := eb_str w @ s, eb_lheads := eb_lheads w @ hs, eb_lhsize := eb_lhsize w + hlen hs\<rparr>
        \<and> ordered (length (eb_str w)) (length (eb_str w) + length s) hs
        \<and> lay (length (eb_str w)) s hs = bs)"

lemma eb_adds_refl: "eb_adds w w []"
  unfolding eb_adds_def by (intro exI [of _ "[]"]) simp

lemma eb_adds_trans:
  assumes "eb_adds w w1 bs" "eb_adds w1 w2 cs"
  shows "eb_adds w w2 (bs @ cs)"
proof -
  from assms obtain s hs s' hs' where
    1: "w1 = w\<lparr>eb_str := eb_str w @ s, eb_lheads := eb_lheads w @ hs, eb_lhsize := eb_lhsize w + hlen hs\<rparr>"
      "ordered (length (eb_str w)) (length (eb_str w) + length s) hs"
      "lay (length (eb_str w)) s hs = bs" and
    2: "w2 = w1\<lparr>eb_str := eb_str w1 @ s', eb_lheads := eb_lheads w1 @ hs', eb_lhsize := eb_lhsize w1 + hlen hs'\<rparr>"
      "ordered (length (eb_str w1)) (length (eb_str w1) + length s') hs'"
      "lay (length (eb_str w1)) s' hs' = cs"
    unfolding eb_adds_def by auto
  from 1 2 show ?thesis unfolding eb_adds_def
    by (intro exI [of _ "s @ s'"] exI [of _ "hs @ hs'"])
       (auto simp: lay_append add.assoc intro: ordered_append)
qed

lemma eb_adds_Write: "eb_adds w (eb_Write b w) b"
  unfolding eb_adds_def eb_Write_def by (intro exI [of _ b] exI [of _ "[]"]) simp

lemma head_bytes_length:
  "n < 2 ^ 64 \<Longrightarrow> (if n < 56 then 1 else 1 + intsize (word_of_nat n)) = length (rlp_head 192 247 n)"
  by (simp add: rlp_head_def intsize_eq u64_pos_iff)

lemma eb_adds_listEnd:
  assumes "eb_list w = (i, w1)" "eb_adds w1 w2 bs" "length bs < 2 ^ 64"
  shows "eb_adds w (eb_listEnd i w2) (enc_list bs)"
proof -
  let ?p = "length (eb_str w)"
  from assms(1) have i: "i = length (eb_lheads w)" and
    w1: "w1 = w\<lparr>eb_lheads := eb_lheads w @ [\<lparr>lh_offset = ?p, lh_size = eb_lhsize w\<rparr>]\<rparr>"
    by (auto simp: eb_list_def)
  with assms(2) obtain s hs where
    w2: "w2 = w1\<lparr>eb_str := eb_str w @ s,
           eb_lheads := eb_lheads w @ \<lparr>lh_offset = ?p, lh_size = eb_lhsize w\<rparr> # hs,
           eb_lhsize := eb_lhsize w + hlen hs\<rparr>" and
    ord: "ordered ?p (?p + length s) hs" and bs: "lay ?p s hs = bs"
    by (auto simp: eb_adds_def)
  have len: "length s + hlen hs = length bs" using length_lay [OF ord] bs by simp
  let ?h = "\<lparr>lh_offset = ?p, lh_size = length bs\<rparr>"
  have "eb_listEnd i w2 = w\<lparr>eb_str := eb_str w @ s, eb_lheads := eb_lheads w @ ?h # hs,
          eb_lhsize := eb_lhsize w + hlen (?h # hs)\<rparr>"
    using head_bytes_length [OF assms(3)] len
    by (auto simp: eb_listEnd_def i w1 w2 eb_size_def head_bytes_def Let_def)
  then show ?thesis using ord bs assms(3) unfolding eb_adds_def
    by (intro exI [of _ s] exI [of _ "?h # hs"]) (simp add: head_bytes_def enc_list_def)
qed

interpretation eb: list_sink eb_adds eb_Write eb_list eb_listEnd
  by unfold_locales (fact eb_adds_refl eb_adds_trans eb_adds_Write eb_adds_listEnd)+


section \<open>The encoder computes the reference encoding\<close>

lemma encodeString_eq:
  assumes "length b < 2 ^ 64"
  shows "encodeString b w = eb_Write (enc_str b) w"
proof (cases "length b = 1 \<and> b ! 0 \<le> 0x7F")
  case True
  then have "single b" by (auto simp: single_def byte_less_iff byte_le_iff)
  with True show ?thesis by (cases b) (auto simp: encodeString_def eb_Write_def enc_str_def single_def)
next
  case False
  then have "\<not> (length b = 1 \<and> b ! 0 < 128)" by (auto simp: byte_less_iff byte_le_iff)
  moreover have "length b \<ge> 56 \<Longrightarrow> 0 < (word_of_nat (length b) :: u64)"
    using assms unat_word_of_nat_u64 [OF assms] by (simp only: u64_pos_iff)
  ultimately show ?thesis using False assms
    by (auto simp: encodeString_def encodeStringHeader_def eb_Write_def enc_str_def rlp_head_def putint_eq Let_def)
qed

lemma writeString_eq: "writeString b = encodeString b"
  by (rule ext) (simp add: writeString_def encodeString_def)

lemma writeUint_eq: "writeUint i w = eb_Write (enc_str (nat_to_be (unat i))) w"
  by (simp add: writeUint_def enc_str_uint eb_Write_def Let_def)

lemma writeBool_eq: "writeBool b w = eb_Write (enc_str (if b then [1] else [])) w"
  by (simp add: writeBool_def enc_str_def rlp_head_def eb_Write_def)

lemma enc_str_Nil: "enc_str [] = [0x80]" "enc_list [] = [0xC0]"
  by (simp_all add: enc_str_def enc_list_def rlp_head_def)

lemma writeBigInt_eq:
  "length (nat_to_be (nat i)) < 2 ^ 64 \<Longrightarrow> writeBigInt i w =
     (if i < 0 then Inl negativeBigInt else Inr (eb_Write (enc_str (nat_to_be (nat i))) w))"
  by (simp add: writeBigInt_def encodeString_eq enc_str_Nil eb_Write_def)

lemmas primitive_writers =
  writeRawValue_def writeBytes_def writeByteArray_def writeString_eq writeUint_eq writeBool_eq
  writeBigInt_eq

lemma writeBigInt_Inl: "writeBigInt i w = Inl e \<longleftrightarrow> i < 0 \<and> e = negativeBigInt"
  by (auto simp: writeBigInt_def)

lemma raw_adds: "eb_adds w (w\<lparr>eb_str := eb_str w @ b\<rparr>) b"
  using eb_adds_Write [of w b] by (simp add: eb_Write_def)

lemma encodeString_adds: "length (enc_str b) < 2 ^ 64 \<Longrightarrow> eb_adds w (encodeString b w) (enc_str b)"
  using length_enc_str_ge [of b] by (simp add: encodeString_eq eb_adds_Write)

text \<open>The two encoders fail on the same values, with the same error.\<close>

lemma run_error_iff:
  "(runWriter ad wr v w = Inl e) = (refWriter ad wr v = Inl e)"
  "(runElems ad wr vs w = Inl e) = (refElems ad wr vs = Inl e)"
  "(runFields ad fs vs w = Inl e) = (refFields ad fs vs = Inl e)"
proof (induction ad wr v w and ad wr vs w and ad fs vs w arbitrary: e and e and e
    rule: runWriter_runElems_runFields.induct)
  case (7 ad wr vs w)
  show ?case
  proof (cases wr)
    case (WSlice tailed sl el)
    obtain lh w1 where l: "eb_list w = (lh, w1)" by fastforce
    show ?thesis
    proof (cases tailed)
      case True
      then show ?thesis using "7.IH"(1) [OF WSlice] WSlice by simp
    next
      case False
      then show ?thesis using "7.IH"(2) [OF WSlice False l [symmetric]] WSlice l
        by (cases "refElems (sl \<or> ad) el vs"; cases "runElems (sl \<or> ad) el vs w1") auto
    qed
  qed simp_all
next
  case (8 ad wr vs w)
  show ?case
  proof (cases wr)
    case (WStruct fs)
    obtain lh w1 where l: "eb_list w = (lh, w1)" by fastforce
    then show ?thesis using "8.IH" [OF WStruct l [symmetric]] WStruct
      by (cases "refFields ad fs vs"; cases "runFields ad fs vs w1") auto
  qed simp_all
next
  case (12 ad wr v vs w)
  show ?case
  proof (cases "runWriter ad wr v w")
    case (Inl a)
    then have "refWriter ad wr v = Inl a" using "12.IH"(1) by blast
    with Inl show ?thesis by simp
  next
    case (Inr w')
    then obtain b where "refWriter ad wr v = Inr b" by (metis "12.IH"(1) Inl_Inr_False sum.exhaust)
    with Inr show ?thesis using "12.IH"(2) [OF Inr] by (cases "refElems ad wr vs") auto
  qed
next
  case (14 ad i wr fs vs w)
  show ?case
  proof (cases "i < length vs")
    case True
    show ?thesis
    proof (cases "runWriter ad wr (vs ! i) w")
      case (Inl a)
      then have "refWriter ad wr (vs ! i) = Inl a" using "14.IH"(1) [OF True] by blast
      with Inl True show ?thesis by simp
    next
      case (Inr w')
      then obtain b where "refWriter ad wr (vs ! i) = Inr b"
        by (metis "14.IH"(1) [OF True] Inl_Inr_False sum.exhaust)
      with Inr show ?thesis using "14.IH"(2) [OF True Inr] True by (cases "refFields ad fs vs") auto
    qed
  qed simp
qed (auto simp: writeBigInt_Inl eb_list_def split: writer.splits sum.splits rval.splits)

text \<open>Where the reference encoding exists, the encoder adds exactly it.\<close>

lemma run_adds:
  "refWriter ad wr v = Inr bs \<Longrightarrow> length bs < 2 ^ 64 \<Longrightarrow> \<exists>w'. runWriter ad wr v w = Inr w' \<and> eb_adds w w' bs"
  "refElems ad wr vs = Inr bs \<Longrightarrow> length bs < 2 ^ 64 \<Longrightarrow> \<exists>w'. runElems ad wr vs w = Inr w' \<and> eb_adds w w' bs"
  "refFields ad fs vs = Inr bs \<Longrightarrow> length bs < 2 ^ 64 \<Longrightarrow> \<exists>w'. runFields ad fs vs w = Inr w' \<and> eb_adds w w' bs"
proof (induction ad wr v w and ad wr vs w and ad fs vs w arbitrary: bs and bs and bs
    rule: runWriter_runElems_runFields.induct)
  case (1 ad wr b w)
  then show ?case
    by (cases wr) (auto simp: primitive_writers raw_adds encodeString_adds)
next
  case (4 ad wr i w)
  then show ?case
    using length_enc_str_ge [of "nat_to_be (nat i)"]
    by (cases wr) (auto simp: primitive_writers eb_adds_Write split: if_splits)
next
  case (5 ad wr w)
  then show ?case
    using raw_adds [of w] eb.adds_empty_list [of w]
    by (cases wr) (auto simp: enc_str_Nil split: if_splits prod.splits)
next
  case (6 ad wr v w)
  show ?case
  proof (cases wr)
    case WBigIntPtr
    with "6.prems" obtain i where "v = VBig i" "\<not> i < 0" "bs = enc_str (nat_to_be (nat i))"
      by (auto split: rval.splits if_splits)
    with WBigIntPtr "6.prems" show ?thesis
      using length_enc_str_ge [of "nat_to_be (nat i)"] by (simp add: primitive_writers eb_adds_Write)
  next
    case (WPtr nk el)
    then show ?thesis using "6.IH" "6.prems" by simp
  qed (use "6.prems" in simp_all)
next
  case (7 ad wr vs w)
  show ?case
  proof (cases wr)
    case (WSlice tailed sl el)
    obtain lh w1 where l: "eb_list w = (lh, w1)" by fastforce
    show ?thesis
    proof (cases tailed)
      case True
      then show ?thesis using "7.IH"(1) [OF WSlice] WSlice "7.prems" by simp
    next
      case False
      with WSlice "7.prems" obtain cs where cs: "refElems (sl \<or> ad) el vs = Inr cs" "bs = enc_list cs"
        by (cases "refElems (sl \<or> ad) el vs") auto
      with "7.prems" have "length cs < 2 ^ 64" using length_enc_list_ge [of cs] by simp
      with "7.IH"(2) [OF WSlice False l [symmetric] cs(1)] show ?thesis
        using cs l WSlice False eb_adds_listEnd [OF l] by auto
    qed
  qed (use "7.prems" in simp_all)
next
  case (8 ad wr vs w)
  show ?case
  proof (cases wr)
    case (WStruct fs)
    obtain lh w1 where l: "eb_list w = (lh, w1)" by fastforce
    from WStruct "8.prems" obtain cs where cs: "refFields ad fs vs = Inr cs" "bs = enc_list cs"
      by (cases "refFields ad fs vs") auto
    with "8.prems" have "length cs < 2 ^ 64" using length_enc_list_ge [of cs] by simp
    with "8.IH" [OF WStruct l [symmetric] cs(1)] show ?thesis
      using cs l WStruct eb_adds_listEnd [OF l] by auto
  qed (use "8.prems" in simp_all)
next
  case (11 ad wr w)
  then show ?case by (auto intro: eb_adds_refl)
next
  case (12 ad wr v vs w)
  then obtain b c where b: "refWriter ad wr v = Inr b" and c: "refElems ad wr vs = Inr c"
    and bs: "bs = b @ c"
    by (cases "refWriter ad wr v"; cases "refElems ad wr vs") auto
  obtain w1 where w1: "runWriter ad wr v w = Inr w1" "eb_adds w w1 b"
    using "12.IH"(1) [OF b] "12.prems" bs by auto
  obtain w2 where "runElems ad wr vs w1 = Inr w2" "eb_adds w1 w2 c"
    using "12.IH"(2) [OF w1(1) c] "12.prems" bs by auto
  with w1 bs show ?case by (auto intro: eb_adds_trans)
next
  case (13 ad vs w)
  then show ?case by (auto intro: eb_adds_refl)
next
  case (14 ad i wr fs vs w)
  then obtain b c where i: "i < length vs" and b: "refWriter ad wr (vs ! i) = Inr b"
    and c: "refFields ad fs vs = Inr c" and bs: "bs = b @ c"
    by (cases "refWriter ad wr (vs ! i)"; cases "refFields ad fs vs") (auto split: if_splits)
  obtain w1 where w1: "runWriter ad wr (vs ! i) w = Inr w1" "eb_adds w w1 b"
    using "14.IH"(1) [OF i b] "14.prems" bs by auto
  obtain w2 where "runFields ad fs vs w1 = Inr w2" "eb_adds w1 w2 c"
    using "14.IH"(2) [OF i w1(1) c] "14.prems" bs by auto
  with i w1 bs show ?case by (auto intro: eb_adds_trans)
qed (auto simp: primitive_writers eb_adds_Write split: writer.splits sum.splits rval.splits if_splits)

section \<open>Reading the encoding out of the buffer\<close>

text \<open>
  \<open>encReader\<close>. \<open>er_buf\<close> is \<open>None\<close> once the reader has reached the end and released its buffer.
  \<open>Read\<close> is given the length of the caller's slice and returns the bytes it copied.
\<close>

record encReader =
  er_buf :: "encbuf option"
  er_lhpos :: nat
  er_strpos :: nat
  er_piece :: "bytes option"

definition er_next :: "encReader \<Rightarrow> bytes option \<times> encReader" where
  "er_next r =
     (case er_buf r of
        None \<Rightarrow> (None, r)
      | Some w \<Rightarrow>
          if er_piece r \<noteq> None then (er_piece r, r)
          else if er_lhpos r < length (eb_lheads w) then
            (let head = eb_lheads w ! er_lhpos r; sizebefore = lh_offset head - er_strpos r in
             if sizebefore > 0
             then (Some (subslice (er_strpos r) (lh_offset head) (eb_str w)),
                   r\<lparr>er_strpos := er_strpos r + sizebefore\<rparr>)
             else (Some (listhead_encode head), r\<lparr>er_lhpos := Suc (er_lhpos r)\<rparr>))
          else if er_strpos r < length (eb_str w)
          then (Some (drop (er_strpos r) (eb_str w)), r\<lparr>er_strpos := length (eb_str w)\<rparr>)
          else (None, r))"

text \<open>How much is left to hand out: heads, string data and the current piece.\<close>

definition er_left :: "encReader \<Rightarrow> nat" where
  "er_left r =
     (case er_buf r of
        None \<Rightarrow> 0
      | Some w \<Rightarrow> (length (eb_lheads w) - er_lhpos r)
          + ((Max (insert (length (eb_str w)) (lh_offset ` set (eb_lheads w)))) - er_strpos r)
          + (if er_piece r = None then 0 else 1))"

lemma er_next_left:
  assumes "er_next r = (Some p, r')"
  shows "er_left (r'\<lparr>er_piece := None\<rparr>) < er_left r"
proof (cases "er_buf r")
  case None
  with assms show ?thesis by (simp add: er_next_def)
next
  case (Some w)
  define M where "M = Max (insert (length (eb_str w)) (lh_offset ` set (eb_lheads w)))"
  have off: "lh_offset (eb_lheads w ! i) \<le> M" if "i < length (eb_lheads w)" for i
    unfolding M_def using that by (intro Max_ge) auto
  have len: "length (eb_str w) \<le> M" unfolding M_def by (intro Max_ge) auto
  show ?thesis
  proof (cases "er_piece r = None \<and> er_lhpos r < length (eb_lheads w)")
    case True
    then show ?thesis using Some assms off [of "er_lhpos r"]
      by (auto simp: er_next_def er_left_def M_def [symmetric] Let_def split: if_splits)
  next
    case False
    then show ?thesis using Some assms len
      by (auto simp: er_next_def er_left_def M_def [symmetric] split: if_splits)
  qed
qed

function er_Read_loop :: "nat \<Rightarrow> bytes \<Rightarrow> encReader \<Rightarrow> bytes \<times> rlp_error option \<times> encReader" where
  "er_Read_loop m out r =
     (case er_next r of
        (None, r') \<Rightarrow> (out, Some io_EOF, r'\<lparr>er_piece := None, er_buf := None\<rparr>)
      | (Some p, r') \<Rightarrow>
          (let nn = min (m - length out) (length p); out' = out @ take nn p in
           if nn < length p then (out', None, r'\<lparr>er_piece := Some (drop nn p)\<rparr>)
           else er_Read_loop m out' (r'\<lparr>er_piece := None\<rparr>)))"
  by pat_completeness auto
termination
proof (relation "measure (\<lambda>(m, out, r). er_left r)", goal_cases)
  case (2 m out r q r' p nn out')
  then show ?case using er_next_left [of r p r'] by simp
qed simp

declare er_Read_loop.simps [simp del]

definition er_Read :: "nat \<Rightarrow> encReader \<Rightarrow> bytes \<times> rlp_error option \<times> encReader" where
  "er_Read m r = er_Read_loop m [] r"

definition EncodeToReader :: "rtype \<Rightarrow> rval \<Rightarrow> rlp_error + nat \<times> encReader" where
  "EncodeToReader ty v =
     (case eb_encode ty v eb_reset of
        Inl err \<Rightarrow> Inl err
      | Inr w \<Rightarrow> Inr (eb_size w, \<lparr>er_buf = Some w, er_lhpos = 0, er_strpos = 0, er_piece = None\<rparr>))"

text \<open>The bytes that are still to come, and the shape of a reader in use.\<close>

definition er_rest :: "encReader \<Rightarrow> bytes" where
  "er_rest r =
     (case er_buf r of
        None \<Rightarrow> []
      | Some w \<Rightarrow> (case er_piece r of None \<Rightarrow> [] | Some p \<Rightarrow> p)
          @ lay (er_strpos r) (drop (er_strpos r) (eb_str w)) (drop (er_lhpos r) (eb_lheads w)))"

definition er_ok :: "encReader \<Rightarrow> bool" where
  "er_ok r \<longleftrightarrow>
     (case er_buf r of
        None \<Rightarrow> True
      | Some w \<Rightarrow> ordered (er_strpos r) (length (eb_str w)) (drop (er_lhpos r) (eb_lheads w)))
      \<and> er_piece r \<noteq> Some []"

lemma head_bytes_eq: "lh_size h < 2 ^ 64 \<Longrightarrow> listhead_encode h = head_bytes h"
  by (simp add: listhead_encode_def head_bytes_def puthead_eq)

lemma er_next_Some:
  assumes "er_ok r" "er_next r = (Some p, r')"
  shows "er_rest r = p @ er_rest (r'\<lparr>er_piece := None\<rparr>) \<and> p \<noteq> [] \<and> er_buf r' = er_buf r
    \<and> er_ok (r'\<lparr>er_piece := None\<rparr>)"
proof (cases "er_buf r")
  case None
  with assms show ?thesis by (simp add: er_next_def)
next
  case (Some w)
  show ?thesis
  proof (cases "er_piece r = None \<and> er_lhpos r < length (eb_lheads w)")
    case True
    let ?h = "eb_lheads w ! er_lhpos r"
    from True have d: "drop (er_lhpos r) (eb_lheads w) = ?h # drop (Suc (er_lhpos r)) (eb_lheads w)"
      by (simp add: Cons_nth_drop_Suc)
    with assms(1) Some have o: "er_strpos r \<le> lh_offset ?h" "lh_size ?h < 2 ^ 64"
      "ordered (lh_offset ?h) (length (eb_str w)) (drop (Suc (er_lhpos r)) (eb_lheads w))"
      by (auto simp: er_ok_def)
    from ordered_le [OF o(3)] have "lh_offset ?h \<le> length (eb_str w)" .
    with o show ?thesis using True Some assms d head_bytes_eq [OF o(2)]
      by (auto simp: er_next_def er_rest_def er_ok_def Let_def subslice_def head_bytes_def split: if_splits)
  next
    case False
    then show ?thesis using Some assms
      by (auto simp: er_next_def er_rest_def er_ok_def split: if_splits)
  qed
qed

lemma er_next_None: "er_ok r \<Longrightarrow> er_next r = (None, r') \<Longrightarrow> er_rest r = [] \<and> r' = r"
  by (auto simp: er_next_def er_rest_def Let_def split: option.splits if_splits)

lemma er_rest_piece:
  "er_buf r \<noteq> None \<Longrightarrow> er_rest (r\<lparr>er_piece := Some p\<rparr>) = p @ er_rest (r\<lparr>er_piece := None\<rparr>)"
  by (auto simp: er_rest_def)

lemma er_Read_loop_spec:
  assumes "er_ok r" "length out \<le> m"
  shows "\<exists>r'. er_Read_loop m out r =
      (out @ take (m - length out) (er_rest r),
       if length (er_rest r) \<le> m - length out then Some io_EOF else None, r')
    \<and> er_ok r' \<and> er_rest r' = drop (m - length out) (er_rest r)"
  using assms
proof (induction m out r rule: er_Read_loop.induct)
  case (1 m out r)
  obtain q r1 where nx: "er_next r = (q, r1)" by fastforce
  show ?case
  proof (cases q)
    case None
    then show ?thesis using nx er_next_None [of r r1] "1.prems"
      by (subst er_Read_loop.simps) (auto simp: er_rest_def er_ok_def)
  next
    case (Some p)
    let ?m = "m - length out" and ?r = "r1\<lparr>er_piece := None\<rparr>"
    have nx': "er_next r = (Some p, r1)" using nx Some by simp
    have p: "er_rest r = p @ er_rest ?r" "p \<noteq> []" "er_buf r1 = er_buf r" "er_ok ?r"
      using er_next_Some [OF "1.prems"(1) nx'] by blast+
    have buf: "er_buf r1 \<noteq> None" using p(3) nx Some by (auto simp: er_next_def split: option.splits)
    show ?thesis
    proof (cases "?m < length p")
      case True
      then have "er_Read_loop m out r = (out @ take ?m p, None, r1\<lparr>er_piece := Some (drop ?m p)\<rparr>)"
        using nx Some by (subst er_Read_loop.simps) (simp add: Let_def)
      moreover have "er_ok (r1\<lparr>er_piece := Some (drop ?m p)\<rparr>)"
        using p(4) True by (auto simp: er_ok_def split: option.splits)
      ultimately show ?thesis using True p buf by (simp add: er_rest_piece)
    next
      case False
      then have min: "min ?m (length p) = length p" by simp
      have step: "er_Read_loop m out r = er_Read_loop m (out @ p) ?r"
        using nx Some False by (subst er_Read_loop.simps) (simp add: Let_def min)
      have "length (out @ p) \<le> m" using False "1.prems"(2) by simp
      then obtain r' where "er_Read_loop m (out @ p) ?r =
          ((out @ p) @ take (m - length (out @ p)) (er_rest ?r),
           if length (er_rest ?r) \<le> m - length (out @ p) then Some io_EOF else None, r')"
        "er_ok r'" "er_rest r' = drop (m - length (out @ p)) (er_rest ?r)"
        using "1.IH" [OF nx [symmetric] Some refl, of "out @ p"] p(4) min by auto
      with False "1.prems"(2) show ?thesis unfolding step p(1) by (intro exI [of _ r']) auto
    qed
  qed
qed

section \<open>The whole output\<close>

lemma toBytes_loop_lay:
  assumes "ordered strpos (length str) hs" "length post = length (lay strpos (drop strpos str) hs)"
  shows "toBytes_loop str hs strpos (length pre) (pre @ post) = pre @ lay strpos (drop strpos str) hs"
  using assms
proof (induction hs arbitrary: strpos pre post)
  case Nil
  then show ?case by (simp add: copy_at_append)
next
  case (Cons h hs)
  let ?piece = "subslice strpos (lh_offset h) str" and ?e = "listhead_encode h"
  let ?rest = "lay (lh_offset h) (drop (lh_offset h) str) hs"
  from Cons.prems(1) have o: "strpos \<le> lh_offset h" "lh_size h < 2 ^ 64"
    "ordered (lh_offset h) (length str) hs" by auto
  have le: "lh_offset h \<le> length str" by (rule ordered_le [OF o(3)])
  have e: "head_bytes h = ?e" using head_bytes_eq [OF o(2)] by simp
  have lay: "lay strpos (drop strpos str) (h # hs) = ?piece @ ?e @ ?rest"
    using o(1) e by (simp add: subslice_def)
  have len: "length post = length ?piece + length ?e + length ?rest"
    using Cons.prems(2) unfolding lay by simp
  have n: "strpos + length ?piece = lh_offset h" using o(1) le by simp
  let ?pre = "pre @ ?piece @ ?e" and ?post = "drop (length ?piece + length ?e) post"
  have c1: "copy_at (length pre) ?piece (pre @ post) = (pre @ ?piece) @ drop (length ?piece) post"
    using len by (subst copy_at_append) simp_all
  have c2: "copy_at (length (pre @ ?piece)) ?e ((pre @ ?piece) @ drop (length ?piece) post) = ?pre @ ?post"
    using len by (subst copy_at_append) (simp_all add: add.commute)
  have "toBytes_loop str (h # hs) strpos (length pre) (pre @ post)
      = toBytes_loop str hs (lh_offset h) (length ?pre) (?pre @ ?post)"
    using len c1 c2 n by (simp add: Let_def add.assoc del: length_slice)
  also have "\<dots> = ?pre @ ?rest" using len by (intro Cons.IH o(3)) simp
  finally show ?case unfolding lay by simp
qed

lemma eb_adds_reset:
  assumes "eb_adds eb_reset w bs"
  shows "lay 0 (eb_str w) (eb_lheads w) = bs" "ordered 0 (length (eb_str w)) (eb_lheads w)"
    "eb_size w = length bs"
  using assms length_lay [of 0] by (auto simp: eb_adds_def eb_reset_def eb_size_def)

lemma toBytes_eq:
  assumes "eb_adds eb_reset w bs"
  shows "toBytes w = bs"
  using toBytes_loop_lay [of 0 "eb_str w" "eb_lheads w" "replicate (eb_size w) 0" "[]"] eb_adds_reset [OF assms]
  by (simp add: toBytes_def)

text \<open>The reference encoding of a value of a type.\<close>

definition refEncode :: "rtype \<Rightarrow> rval \<Rightarrow> rlp_error + bytes" where
  "refEncode ty v = (case makeWriter ty no_tags of Inl err \<Rightarrow> Inl err | Inr wr \<Rightarrow> refWriter False wr v)"

lemma eb_encode_error: "eb_encode ty v w = Inl e \<longleftrightarrow> refEncode ty v = Inl e"
  by (simp add: eb_encode_def refEncode_def run_error_iff split: sum.splits)

lemma eb_encode_adds:
  "refEncode ty v = Inr bs \<Longrightarrow> length bs < 2 ^ 64 \<Longrightarrow>
   \<exists>w'. eb_encode ty v w = Inr w' \<and> eb_adds w w' bs"
  by (auto simp: eb_encode_def refEncode_def intro: run_adds split: sum.splits)

lemma EncodeToBytes_ref:
  assumes "\<And>bs. refEncode ty v = Inr bs \<Longrightarrow> length bs < 2 ^ 64"
  shows "EncodeToBytes ty v = refEncode ty v"
proof (cases "refEncode ty v")
  case (Inl e)
  then have "eb_encode ty v eb_reset = Inl e" by (simp only: eb_encode_error)
  with Inl show ?thesis by (simp add: EncodeToBytes_def)
next
  case (Inr bs)
  with eb_encode_adds [OF Inr, of eb_reset] assms toBytes_eq show ?thesis
    by (auto simp: EncodeToBytes_def)
qed

lemma EncodeToReader_ref:
  assumes "refEncode ty v = Inr bs" "length bs < 2 ^ 64"
  shows "\<exists>r. EncodeToReader ty v = Inr (length bs, r) \<and> er_ok r \<and> er_rest r = bs"
proof -
  obtain w where w: "eb_encode ty v eb_reset = Inr w" "eb_adds eb_reset w bs"
    using eb_encode_adds [OF assms] by blast
  from eb_adds_reset [OF w(2)] w(1) show ?thesis
    by (simp add: EncodeToReader_def er_ok_def er_rest_def)
qed

text \<open>
  The documented behaviour of \<open>io.Writer\<close>: \<open>Write\<close> takes a prefix of what it is given and
  reports an error when it takes less than all of it. \<open>out_of\<close> is what the writer has received.
\<close>

definition io_writer ::
  "(bytes \<Rightarrow> 'w \<Rightarrow> nat \<times> rlp_error option \<times> 'w) \<Rightarrow> ('w \<Rightarrow> bytes) \<Rightarrow> bool" where
  "io_writer wr out_of \<longleftrightarrow>
     (\<forall>b s n err s'. wr b s = (n, err, s') \<longrightarrow>
        n \<le> length b \<and> out_of s' = out_of s @ take n b \<and> (n < length b \<longrightarrow> err \<noteq> None))"

text \<open>Between two states of a writer a part of \<open>bs\<close> arrived, all of it if there was no error.\<close>

definition wrote :: "('w \<Rightarrow> bytes) \<Rightarrow> 'w \<Rightarrow> 'w \<Rightarrow> rlp_error option \<Rightarrow> bytes \<Rightarrow> bool" where
  "wrote out_of s s' err bs \<longleftrightarrow>
     (\<exists>p q. bs = p @ q \<and> out_of s' = out_of s @ p \<and> (err = None \<longrightarrow> q = []))"

lemma wrote_refl: "wrote out_of s s None []"
  by (simp add: wrote_def)

lemma wrote_trans: "wrote out_of s s1 None a \<Longrightarrow> wrote out_of s1 s2 err b \<Longrightarrow> wrote out_of s s2 err (a @ b)"
  by (auto simp: wrote_def)

lemma wrote_stop: "wrote out_of s s1 (Some e) a \<Longrightarrow> wrote out_of s s1 (Some e) (a @ b)"
  by (auto simp: wrote_def)

lemma io_writerD:
  assumes "io_writer wr out_of" "wr b s = (n, err, s')"
  shows "wrote out_of s s' err b" "err = None \<Longrightarrow> n = length b"
proof -
  from assms have *: "n \<le> length b \<and> out_of s' = out_of s @ take n b \<and> (n < length b \<longrightarrow> err \<noteq> None)"
    by (auto simp: io_writer_def)
  then show "wrote out_of s s' err b" unfolding wrote_def
    by (intro exI [of _ "take n b"] exI [of _ "drop n b"]) auto
  show "err = None \<Longrightarrow> n = length b" using * by auto
qed

lemma toWriter_loop_lay:
  assumes "io_writer wr out_of" "ordered strpos (length str) hs"
    "toWriter_loop wr str hs strpos s = (err, s')"
  shows "wrote out_of s s' err (lay strpos (drop strpos str) hs)"
  using assms(2,3)
proof (induction hs arbitrary: strpos s)
  case Nil
  then show ?case using io_writerD(1) [OF assms(1)]
    by (auto simp: wrote_refl split: if_splits prod.splits)
next
  case (Cons h hs)
  let ?piece = "subslice strpos (lh_offset h) str"
  let ?rest = "lay (lh_offset h) (drop (lh_offset h) str) hs"
  from Cons.prems(1) have o: "strpos \<le> lh_offset h" "lh_size h < 2 ^ 64"
    "ordered (lh_offset h) (length str) hs" by auto
  have le: "lh_offset h \<le> length str" by (rule ordered_le [OF o(3)])
  have lay: "lay strpos (drop strpos str) (h # hs) = ?piece @ listhead_encode h @ ?rest"
    using o(1) head_bytes_eq [OF o(2)] by (simp add: subslice_def)
  define r where "r = (if lh_offset h - strpos > 0
      then (case wr ?piece s of (n, e, s1) \<Rightarrow> (strpos + n, e, s1)) else (strpos, None, s))"
  obtain strpos1 e1 s1 where r: "r = (strpos1, e1, s1)" by (metis prod_cases3)
  have 1: "wrote out_of s s1 e1 ?piece \<and> (e1 = None \<longrightarrow> strpos1 = lh_offset h)"
    using r o(1) le io_writerD [OF assms(1), of ?piece s]
    by (auto simp: r_def wrote_refl subslice_def split: if_splits prod.splits)
  have run: "(case e1 of Some e \<Rightarrow> (Some e, s1)
      | None \<Rightarrow> (case wr (listhead_encode h) s1 of (_, e2, s2) \<Rightarrow>
          (case e2 of Some e \<Rightarrow> (Some e, s2) | None \<Rightarrow> toWriter_loop wr str hs strpos1 s2))) = (err, s')"
    using Cons.prems(2) by (simp only: toWriter_loop.simps Let_def r_def [symmetric] r prod.case)
  show ?case
  proof (cases e1)
    case (Some e)
    with run 1 show ?thesis unfolding lay by (auto intro: wrote_stop)
  next
    case None
    obtain n e2 s2 where w2: "wr (listhead_encode h) s1 = (n, e2, s2)" by (metis prod_cases3)
    have 2: "wrote out_of s1 s2 e2 (listhead_encode h)" by (rule io_writerD(1) [OF assms(1) w2])
    have "wrote out_of s1 s' err (listhead_encode h @ ?rest)"
    proof (cases e2)
      case (Some e)
      with run None w2 2 show ?thesis by (auto intro: wrote_stop)
    next
      case e2: None
      with run None w2 1 have "wrote out_of s2 s' err ?rest" by (intro Cons.IH o(3)) simp
      with 2 e2 show ?thesis by (auto intro: wrote_trans)
    qed
    with 1 None show ?thesis unfolding lay by (auto intro: wrote_trans)
  qed
qed

lemma Encode_ref:
  assumes "io_writer wr out_of" "refEncode ty v = Inr bs" "length bs < 2 ^ 64"
    "Encode wr s ty v = (err, s')"
  shows "wrote out_of s s' err bs"
proof -
  obtain w where w: "eb_encode ty v eb_reset = Inr w" "eb_adds eb_reset w bs"
    using eb_encode_adds [OF assms(2,3)] by blast
  with assms(4) eb_adds_reset [OF w(2)] toWriter_loop_lay [OF assms(1), of 0 "eb_str w" "eb_lheads w"]
  show ?thesis by (simp add: Encode_def toWriter_def)
qed

end
