(* ===== verification/RlpStream.thy ===== *)
theory RlpStream
  imports RlpEncode
begin

text \<open>
  The input side of package \<open>rlp\<close> (\<open>rlp/decode.go\<close>, type \<open>Stream\<close>): reading the kind and size of the
  next value, strings, numbers, booleans and raw values, entering and leaving lists.

  \<open>st_r\<close> is the unread input of the byte reader. \<open>st_kind\<close> is \<open>None\<close> where the source has \<open>-1\<close>
  (no value ahead is known). \<open>st_stack\<close> has the innermost list first. Positions and sizes are
  natural numbers: every size comes from at most eight bytes, and \<open>pos \<le> size\<close> is kept in every
  list of the stack (\<open>stream_ok\<close>), so the differences of the source do not wrap around.
  An operation returns an error or a value, and the stream after it. Running out of memory for a
  declared size, which an unlimited stream allows, is not modelled.
\<close>

section \<open>The stream\<close>

record listpos =
  lp_pos :: nat
  lp_size :: nat

record Stream =
  st_r :: bytes
  st_remaining :: nat
  st_limited :: bool
  st_kind :: "Kind option"
  st_size :: nat
  st_byteval :: byte
  st_kinderr :: "rlp_error option"
  st_stack :: "listpos list"

text \<open>
  \<open>Reset\<close>: the limit is the given one, or the length of the data when the reader is a byte slice
  reader (\<open>sized\<close>) and no limit is given.
\<close>

definition Reset :: "bytes \<Rightarrow> bool \<Rightarrow> nat \<Rightarrow> Stream" where
  "Reset r sized inputLimit =
     \<lparr>st_r = r,
      st_remaining = (if inputLimit > 0 then inputLimit else if sized then length r else 0),
      st_limited = (inputLimit > 0 \<or> sized),
      st_kind = None, st_size = 0, st_byteval = 0, st_kinderr = None, st_stack = []\<rparr>"

definition NewStream :: "bytes \<Rightarrow> bool \<Rightarrow> nat \<Rightarrow> Stream" where
  "NewStream r sized inputLimit = Reset r sized inputLimit"

definition NewListStream :: "bytes \<Rightarrow> bool \<Rightarrow> nat \<Rightarrow> Stream" where
  "NewListStream r sized len = (Reset r sized len)\<lparr>st_kind := Some List, st_size := len\<rparr>"

definition willRead :: "nat \<Rightarrow> Stream \<Rightarrow> rlp_error option \<times> Stream" where
  "willRead n s =
     (let s0 = s\<lparr>st_kind := None\<rparr>;
          r = (case st_stack s0 of
                 [] \<Rightarrow> (None, s0)
               | tos # stk \<Rightarrow>
                   if n > lp_size tos - lp_pos tos then (Some ErrElemTooLarge, s0)
                   else (None, s0\<lparr>st_stack := tos\<lparr>lp_pos := lp_pos tos + n\<rparr> # stk\<rparr>))
      in case r of
           (Some e, s1) \<Rightarrow> (Some e, s1)
         | (None, s1) \<Rightarrow>
             if st_limited s1 then
               (if n > st_remaining s1 then (Some ErrValueTooLarge, s1)
                else (None, s1\<lparr>st_remaining := st_remaining s1 - n\<rparr>))
             else (None, s1))"

definition readByte :: "Stream \<Rightarrow> (rlp_error + byte) \<times> Stream" where
  "readByte s =
     (case willRead 1 s of
        (Some e, s1) \<Rightarrow> (Inl e, s1)
      | (None, s1) \<Rightarrow>
          (case st_r s1 of
             [] \<Rightarrow> (Inl io_ErrUnexpectedEOF, s1)
           | b # r \<Rightarrow> (Inr b, s1\<lparr>st_r := r\<rparr>)))"

text \<open>\<open>readFull\<close> fills a buffer of \<open>n\<close> bytes, and drains the reader when it holds fewer.\<close>

definition readFull :: "nat \<Rightarrow> Stream \<Rightarrow> (rlp_error + bytes) \<times> Stream" where
  "readFull n s =
     (case willRead n s of
        (Some e, s1) \<Rightarrow> (Inl e, s1)
      | (None, s1) \<Rightarrow>
          if n \<le> length (st_r s1)
          then (Inr (take n (st_r s1)), s1\<lparr>st_r := drop n (st_r s1)\<rparr>)
          else (Inl io_ErrUnexpectedEOF, s1\<lparr>st_r := []\<rparr>))"

definition readUint :: "nat \<Rightarrow> Stream \<Rightarrow> (rlp_error + nat) \<times> Stream" where
  "readUint sz s =
     (if sz = 0 then (Inr 0, s\<lparr>st_kind := None\<rparr>)
      else if sz = 1 then (case readByte s of (Inl e, s1) \<Rightarrow> (Inl e, s1) | (Inr b, s1) \<Rightarrow> (Inr (unat b), s1))
      else (case readFull sz s of
              (Inl e, s1) \<Rightarrow> (Inl e, s1)
            | (Inr buf, s1) \<Rightarrow>
                if buf ! 0 = 0 then (Inl ErrCanonSize, s1) else (Inr (be_to_nat buf), s1)))"

text \<open>
  \<open>s.readKind\<close> and \<open>Kind\<close>. When \<open>readKind\<close> fails in its size bytes, it still returns the kind; when
  it fails in the first byte, it returns \<open>Byte\<close> (the zero value).
\<close>

definition st_readKind :: "Stream \<Rightarrow> (Kind \<times> nat \<times> rlp_error option) \<times> Stream" where
  "st_readKind s =
     (case readByte s of
        (Inl e, s1) \<Rightarrow>
          ((Byte, 0,
            Some (if st_stack s1 = [] \<and> (e = io_ErrUnexpectedEOF \<or> e = ErrValueTooLarge) then io_EOF else e)),
           s1)
      | (Inr b, s1) \<Rightarrow>
          (let s2 = s1\<lparr>st_byteval := 0\<rparr> in
           if b < 0x80 then ((Byte, 0, None), s2\<lparr>st_byteval := b\<rparr>)
           else if b < 0xB8 then ((String, unat (b - 0x80), None), s2)
           else if b < 0xC0 then
             (case readUint (unat (b - 0xB7)) s2 of
                (Inl e, s3) \<Rightarrow> ((String, 0, Some e), s3)
              | (Inr n, s3) \<Rightarrow> ((String, n, if n < 56 then Some ErrCanonSize else None), s3))
           else if b < 0xF8 then ((List, unat (b - 0xC0), None), s2)
           else
             (case readUint (unat (b - 0xF7)) s2 of
                (Inl e, s3) \<Rightarrow> ((List, 0, Some e), s3)
              | (Inr n, s3) \<Rightarrow> ((List, n, if n < 56 then Some ErrCanonSize else None), s3))))"

definition st_Kind :: "Stream \<Rightarrow> (rlp_error + Kind \<times> nat) \<times> Stream" where
  "st_Kind s =
     (case st_kind s of
        Some k \<Rightarrow> ((case st_kinderr s of Some e \<Rightarrow> Inl e | None \<Rightarrow> Inr (k, st_size s)), s)
      | None \<Rightarrow>
          (let s0 = s\<lparr>st_kinderr := None\<rparr> in
           if (case st_stack s0 of [] \<Rightarrow> False | tos # _ \<Rightarrow> lp_pos tos = lp_size tos) then (Inl EOL, s0)
           else
             (case st_readKind s0 of ((k, n, err), s1) \<Rightarrow>
                (let err' = (if err \<noteq> None then err
                             else (case st_stack s1 of
                                     [] \<Rightarrow> if st_limited s1 \<and> n > st_remaining s1 then Some ErrValueTooLarge else None
                                   | tos # _ \<Rightarrow> if n > lp_size tos - lp_pos tos then Some ErrElemTooLarge else None));
                     s2 = s1\<lparr>st_kind := Some k, st_size := n, st_kinderr := err'\<rparr>
                 in ((case err' of Some e \<Rightarrow> Inl e | None \<Rightarrow> Inr (k, n)), s2)))))"

definition rearm :: "Stream \<Rightarrow> Stream" where
  "rearm s = s\<lparr>st_kind := None\<rparr>"

definition st_Bytes :: "Stream \<Rightarrow> (rlp_error + bytes) \<times> Stream" where
  "st_Bytes s =
     (case st_Kind s of
        (Inl e, s1) \<Rightarrow> (Inl e, s1)
      | (Inr (k, n), s1) \<Rightarrow>
          (case k of
             Byte \<Rightarrow> (Inr [st_byteval s1], rearm s1)
           | String \<Rightarrow>
               (case readFull n s1 of
                  (Inl e, s2) \<Rightarrow> (Inl e, s2)
                | (Inr b, s2) \<Rightarrow> if n = 1 \<and> b ! 0 < 128 then (Inl ErrCanonSize, s2) else (Inr b, s2))
           | List \<Rightarrow> (Inl ErrExpectedString, s1)))"

definition st_Raw :: "Stream \<Rightarrow> (rlp_error + bytes) \<times> Stream" where
  "st_Raw s =
     (case st_Kind s of
        (Inl e, s1) \<Rightarrow> (Inl e, s1)
      | (Inr (k, n), s1) \<Rightarrow>
          if k = Byte then (Inr [st_byteval s1], rearm s1)
          else
            (case readFull n s1 of
               (Inl e, s2) \<Rightarrow> (Inl e, s2)
             | (Inr b, s2) \<Rightarrow>
                 (let start = headsize (word_of_nat n);
                      buf = replicate start 0 @ b;
                      head = (if k = String then puthead 0x80 0xB7 (word_of_nat n)
                              else puthead 0xC0 0xF7 (word_of_nat n))
                  in (Inr (copy_at 0 head buf), s2))))"

definition st_uint :: "nat \<Rightarrow> Stream \<Rightarrow> (rlp_error + nat) \<times> Stream" where
  "st_uint maxbits s =
     (case st_Kind s of
        (Inl e, s1) \<Rightarrow> (Inl e, s1)
      | (Inr (k, n), s1) \<Rightarrow>
          (case k of
             Byte \<Rightarrow>
               if st_byteval s1 = 0 then (Inl ErrCanonInt, s1)
               else (Inr (unat (st_byteval s1)), rearm s1)
           | String \<Rightarrow>
               if n > maxbits div 8 then (Inl errUintOverflow, s1)
               else
                 (case readUint n s1 of
                    (Inl e, s2) \<Rightarrow> (Inl (if e = ErrCanonSize then ErrCanonInt else e), s2)
                  | (Inr v, s2) \<Rightarrow> if n > 0 \<and> v < 128 then (Inl ErrCanonSize, s2) else (Inr v, s2))
           | List \<Rightarrow> (Inl ErrExpectedString, s1)))"

definition st_Bool :: "Stream \<Rightarrow> (rlp_error + bool) \<times> Stream" where
  "st_Bool s =
     (case st_uint 8 s of
        (Inl e, s1) \<Rightarrow> (Inl e, s1)
      | (Inr v, s1) \<Rightarrow>
          if v = 0 then (Inr False, s1) else if v = 1 then (Inr True, s1) else (Inl (invalidBool v), s1))"

definition st_List :: "Stream \<Rightarrow> (rlp_error + nat) \<times> Stream" where
  "st_List s =
     (case st_Kind s of
        (Inl e, s1) \<Rightarrow> (Inl e, s1)
      | (Inr (k, n), s1) \<Rightarrow>
          if k \<noteq> List then (Inl ErrExpectedList, s1)
          else (Inr n, s1\<lparr>st_stack := \<lparr>lp_pos = 0, lp_size = n\<rparr> # st_stack s1, st_kind := None, st_size := 0\<rparr>))"

definition st_ListEnd :: "Stream \<Rightarrow> rlp_error option \<times> Stream" where
  "st_ListEnd s =
     (case st_stack s of
        [] \<Rightarrow> (Some errNotInList, s)
      | tos # stk \<Rightarrow>
          if lp_pos tos \<noteq> lp_size tos then (Some errNotAtEOL, s)
          else
            (None,
             s\<lparr>st_stack := (case stk of [] \<Rightarrow> [] | o' # stk' \<Rightarrow> o'\<lparr>lp_pos := lp_pos o' + lp_size tos\<rparr> # stk'),
               st_kind := None, st_size := 0\<rparr>))"

section \<open>What an operation reads\<close>

text \<open>
  \<open>fits n s\<close>: the innermost list and the input limit leave room for \<open>n\<close> bytes.
  \<open>reads s bs s'\<close>: exactly the bytes \<open>bs\<close> were consumed between \<open>s\<close> and \<open>s'\<close>, and were accounted
  for in the innermost list and in the limit. \<open>idle\<close>: no value ahead is cached.
\<close>

definition fits :: "nat \<Rightarrow> Stream \<Rightarrow> bool" where
  "fits n s \<longleftrightarrow> (st_limited s \<longrightarrow> n \<le> st_remaining s)
     \<and> (case st_stack s of [] \<Rightarrow> True | tos # _ \<Rightarrow> n \<le> lp_size tos - lp_pos tos)"

definition advance :: "nat \<Rightarrow> Stream \<Rightarrow> Stream" where
  "advance n s = s\<lparr>st_r := drop n (st_r s),
     st_remaining := (if st_limited s then st_remaining s - n else st_remaining s),
     st_stack := (case st_stack s of [] \<Rightarrow> [] | tos # stk \<Rightarrow> tos\<lparr>lp_pos := lp_pos tos + n\<rparr> # stk)\<rparr>"

definition core :: "Stream \<Rightarrow> bytes \<times> nat \<times> bool \<times> listpos list" where
  "core s = (st_r s, st_remaining s, st_limited s, st_stack s)"

definition reads :: "Stream \<Rightarrow> bytes \<Rightarrow> Stream \<Rightarrow> bool" where
  "reads s bs s' \<longleftrightarrow> st_r s = bs @ st_r s' \<and> fits (length bs) s \<and> core s' = core (advance (length bs) s)"

definition idle :: "Stream \<Rightarrow> bool" where
  "idle s \<longleftrightarrow> st_kind s = None"

lemma core_simps [simp]:
  "core (s\<lparr>st_kind := k\<rparr>) = core s" "core (s\<lparr>st_size := n\<rparr>) = core s"
  "core (s\<lparr>st_byteval := b\<rparr>) = core s" "core (s\<lparr>st_kinderr := e\<rparr>) = core s" "core (rearm s) = core s"
  by (simp_all add: core_def rearm_def)

lemma fits_simps [simp]:
  "fits n (s\<lparr>st_kind := k\<rparr>) = fits n s" "fits n (s\<lparr>st_size := m\<rparr>) = fits n s"
  "fits n (s\<lparr>st_byteval := b\<rparr>) = fits n s" "fits n (s\<lparr>st_kinderr := e\<rparr>) = fits n s"
  by (simp_all add: fits_def)

lemma core_advance_cong: "core s = core t \<Longrightarrow> core (advance n s) = core (advance n t)"
  by (simp add: core_def advance_def)

lemma fits_cong: "core s = core t \<Longrightarrow> fits n s = fits n t"
  by (simp add: core_def fits_def)

lemma advance_advance: "core (advance m (advance n s)) = core (advance (n + m) s)"
  by (auto simp: core_def advance_def add.commute split: list.splits)

lemma fits_add: "fits (m + n) s \<longleftrightarrow> fits m s \<and> fits n (advance m s)"
  by (auto simp: fits_def advance_def split: list.splits)

lemma reads_core: "reads s bs s' \<Longrightarrow> core s = core t \<Longrightarrow> core s' = core t' \<Longrightarrow> reads t bs t'"
  unfolding reads_def using fits_cong [of s t] core_advance_cong [of s t]
  by (auto simp: core_def)

lemma reads_Nil [simp]: "reads s [] s' \<longleftrightarrow> fits 0 s \<and> core s' = core s"
  by (auto simp: reads_def core_def advance_def split: list.splits)

lemma fits_0 [simp]: "fits 0 s"
  by (simp add: fits_def split: list.splits)

lemma reads_trans:
  assumes "reads s a s1" "reads s1 b s2"
  shows "reads s (a @ b) s2"
proof -
  from assms have 1: "core s1 = core (advance (length a) s)" "fits (length a) s"
    and 2: "core s2 = core (advance (length b) s1)" "fits (length b) s1"
    by (auto simp: reads_def)
  from core_advance_cong [OF 1(1), of "length b"] 2(1) advance_advance
  have "core s2 = core (advance (length a + length b) s)" by simp
  moreover have "fits (length a + length b) s"
    using 1 2 fits_cong [OF 1(1), of "length b"] by (simp add: fits_add)
  ultimately show ?thesis using assms by (simp add: reads_def)
qed

lemma reads_split:
  assumes "reads s (a @ b) s2"
  shows "\<exists>s1. reads s a s1 \<and> reads s1 b s2"
proof (intro exI conjI)
  let ?s1 = "advance (length a) s"
  show "reads s a ?s1" using assms by (auto simp: reads_def advance_def fits_add)
  show "reads ?s1 b s2" using assms
    by (auto simp: reads_def fits_add advance_advance) (auto simp: advance_def)
qed

lemma reads_advance: "st_r s = bs @ rest \<Longrightarrow> fits (length bs) s \<Longrightarrow> reads s bs (advance (length bs) s)"
  by (simp add: reads_def advance_def)

lemma reads_length: "reads s bs s' \<Longrightarrow> length (st_r s) = length bs + length (st_r s')"
  by (simp add: reads_def)

section \<open>The reading primitives\<close>

lemma willRead_fits: "fits n s \<Longrightarrow> willRead n s = (None, (advance n s)\<lparr>st_kind := None, st_r := st_r s\<rparr>)"
  by (auto simp: willRead_def fits_def advance_def Let_def split: list.splits)

lemma willRead_not_fits:
  "\<not> fits n s \<Longrightarrow> \<exists>e s'. willRead n s = (Some e, s') \<and> e \<in> {ErrElemTooLarge, ErrValueTooLarge}"
  by (auto simp: willRead_def fits_def Let_def split: list.splits if_splits)

lemma readFull_iff: "readFull n s = (Inr b, s') \<longleftrightarrow>
    n \<le> length (st_r s) \<and> fits n s \<and> b = take n (st_r s) \<and> s' = (advance n s)\<lparr>st_kind := None\<rparr>"
proof (cases "fits n s")
  case True
  then show ?thesis by (auto simp: readFull_def willRead_fits advance_def)
next
  case False
  with willRead_not_fits [OF False] show ?thesis by (auto simp: readFull_def)
qed

lemma readFull_error: "readFull n s = (Inl e, s') \<Longrightarrow> e \<in> {ErrElemTooLarge, ErrValueTooLarge, io_ErrUnexpectedEOF}"
  by (cases "fits n s")
     (auto simp: readFull_def willRead_fits dest!: willRead_not_fits split: if_splits)

lemma readByte_iff: "readByte s = (Inr b, s') \<longleftrightarrow>
    (\<exists>r. st_r s = b # r) \<and> fits 1 s \<and> s' = (advance 1 s)\<lparr>st_kind := None\<rparr>"
proof (cases "fits 1 s")
  case True
  then show ?thesis by (auto simp: readByte_def willRead_fits advance_def split: list.splits)
next
  case False
  with willRead_not_fits [OF False] show ?thesis by (auto simp: readByte_def)
qed

lemma readByte_error: "readByte s = (Inl e, s') \<Longrightarrow> e \<in> {ErrElemTooLarge, ErrValueTooLarge, io_ErrUnexpectedEOF}"
  by (cases "fits 1 s")
     (auto simp: readByte_def willRead_fits dest!: willRead_not_fits split: list.splits)

lemma readByte_reads: "readByte s = (Inr b, s') \<Longrightarrow> reads s [b] s' \<and> idle s'"
  by (auto simp: readByte_iff reads_def idle_def advance_def core_def)

lemma readFull_reads: "readFull n s = (Inr b, s') \<Longrightarrow> reads s b s' \<and> idle s' \<and> length b = n"
  by (auto simp: readFull_iff reads_def idle_def advance_def core_def min_def)

lemma reads_readFull:
  assumes "reads s b t"
  shows "\<exists>s'. readFull (length b) s = (Inr b, s') \<and> core s' = core t \<and> idle s'"
  using assms by (auto simp: readFull_iff reads_def idle_def)

lemma reads_readByte:
  assumes "reads s [b] t"
  shows "\<exists>s'. readByte s = (Inr b, s') \<and> core s' = core t \<and> idle s'"
  using assms by (auto simp: readByte_iff reads_def idle_def)

text \<open>A size field or an integer of \<open>sz\<close> bytes: big-endian without a leading zero byte.\<close>

lemma readUint_reads:
  assumes "readUint sz s = (Inr n, s')"
  shows "idle s' \<and> (\<exists>bs. reads s bs s' \<and> length bs = sz \<and> n = be_to_nat bs \<and> (2 \<le> sz \<longrightarrow> bs ! 0 \<noteq> 0))"
proof -
  consider "sz = 0" | "sz = 1" | "2 \<le> sz" by linarith
  then show ?thesis
  proof cases
    case 1
    with assms show ?thesis by (auto simp: readUint_def idle_def intro!: exI [of _ "[]"])
  next
    case 2
    with assms obtain b where "readByte s = (Inr b, s')" "n = unat b"
      by (auto simp: readUint_def split: prod.splits sum.splits)
    with 2 readByte_reads [of s b s'] show ?thesis by (auto intro!: exI [of _ "[b]"])
  next
    case 3
    with assms obtain b where "readFull sz s = (Inr b, s')" "n = be_to_nat b" "b ! 0 \<noteq> 0"
      by (auto simp: readUint_def split: prod.splits sum.splits if_splits)
    with 3 readFull_reads [of sz s b s'] show ?thesis by auto
  qed
qed

lemma reads_readUint:
  assumes "reads s bs t" "2 \<le> length bs \<longrightarrow> bs ! 0 \<noteq> 0"
  shows "\<exists>s'. readUint (length bs) s = (Inr (be_to_nat bs), s') \<and> core s' = core t \<and> idle s'"
proof -
  consider "bs = []" | b where "bs = [b]" | "2 \<le> length bs"
    by (metis One_nat_def Suc_1 Suc_leI le_neq_implies_less length_0_conv length_Suc_conv not_less_eq_eq zero_le)
  then show ?thesis
  proof cases
    case 1
    with assms show ?thesis by (auto simp: readUint_def idle_def)
  next
    case (2 b)
    with assms reads_readByte [of s b t] show ?thesis by (auto simp: readUint_def)
  next
    case 3
    with assms reads_readFull [of s bs t] show ?thesis by (auto simp: readUint_def)
  qed
qed

lemma readUint_error:
  "readUint sz s = (Inl e, s') \<Longrightarrow>
   e \<in> {ErrElemTooLarge, ErrValueTooLarge, io_ErrUnexpectedEOF, ErrCanonSize}"
  by (auto simp: readUint_def split: if_splits prod.splits sum.splits
      dest!: readFull_error readByte_error)

section \<open>The kind of the value ahead\<close>

definition tag_bytes :: "Kind \<Rightarrow> nat \<Rightarrow> byte \<Rightarrow> bytes" where
  "tag_bytes k n bv = (if k = Byte then [bv] else kind_head k n)"

lemma long_tag:
  assumes "unat b = large + length bs" "length bs \<le> 8" "2 \<le> length bs \<longrightarrow> bs ! 0 \<noteq> 0" "56 \<le> be_to_nat bs"
  shows "rlp_head small large (be_to_nat bs) = b # bs" "be_to_nat bs < 2 ^ 64"
proof -
  have "hd bs \<noteq> 0"
  proof (cases bs rule: list.exhaust)
    case (Cons c cs)
    with assms show ?thesis by (cases cs) auto
  qed (use assms in simp)
  then have eq: "nat_to_be (be_to_nat bs) = bs" by (simp add: nat_to_be_be_to_nat)
  moreover have "b = word_of_nat (large + length bs)" using assms(1) by (metis of_nat_unat_id)
  ultimately show "rlp_head small large (be_to_nat bs) = b # bs"
    using assms(4) by (simp add: rlp_head_def)
  have "be_to_nat bs < 256 ^ length bs" by (rule be_to_nat_bound)
  also have "\<dots> \<le> 256 ^ 8" using assms(2) by (intro power_increasing) auto
  finally show "be_to_nat bs < 2 ^ 64" by simp
qed

lemma short_tag: "unat b = small + n \<Longrightarrow> n < 56 \<Longrightarrow> rlp_head small large n = [b]"
  by (simp add: rlp_head_def) (metis of_nat_unat_id of_nat_add)

lemma st_readKind_sound:
  assumes "st_readKind s = ((k, n, None), s1)"
  shows "reads s (tag_bytes k n (st_byteval s1)) s1 \<and> n < 2 ^ 64 \<and> (k = Byte \<longrightarrow> n = 0 \<and> st_byteval s1 < 128)"
proof -
  obtain b t where rb: "readByte s = (Inr b, t)"
    using assms by (cases "readByte s") (auto simp: st_readKind_def split: sum.splits)
  note run = assms [unfolded st_readKind_def rb prod.case sum.case Let_def]
  have t: "reads s [b] t" using readByte_reads [OF rb] by simp
  have t0: "reads s [b] (t\<lparr>st_byteval := x\<rparr>)" for x using reads_core [OF t refl] by simp
  have b: "unat b < 256" by (rule unat_byte_less)
  consider "unat b < 128" | "128 \<le> unat b" "unat b < 184" | "184 \<le> unat b" "unat b < 192"
    | "192 \<le> unat b" "unat b < 248" | "248 \<le> unat b" by linarith
  then show ?thesis
  proof cases
    case 1
    then show ?thesis using run t0 [of b] by (auto simp: byte_less_iff tag_bytes_def)
  next
    case 2
    then have "unat (b - 0x80) = unat b - 128" by (subst unat_byte_diff) simp_all
    with 2 run t0 [of 0] short_tag [of b 128 "unat b - 128" 183] show ?thesis
      by (auto simp: byte_less_iff tag_bytes_def kind_head_def)
  next
    case 3
    then have d: "unat (b - 0xB7) = unat b - 183" by (subst unat_byte_diff) simp_all
    with 3 run obtain bs where bs: "reads (t\<lparr>st_byteval := 0\<rparr>) bs s1" "length bs = unat b - 183"
      "n = be_to_nat bs" "2 \<le> length bs \<longrightarrow> bs ! 0 \<noteq> 0" "k = String" "56 \<le> n"
      by (auto simp: byte_less_iff split: prod.splits sum.splits if_splits dest!: readUint_reads)
    with long_tag(1) [of b 183 bs 128] long_tag(2) [of b 183 bs] 3 reads_trans [OF t0 [of 0] bs(1)] show ?thesis
      by (simp add: tag_bytes_def kind_head_def)
  next
    case 4
    then have "unat (b - 0xC0) = unat b - 192" by (subst unat_byte_diff) simp_all
    with 4 run t0 [of 0] short_tag [of b 192 "unat b - 192" 247] show ?thesis
      by (auto simp: byte_less_iff tag_bytes_def kind_head_def)
  next
    case 5
    then have d: "unat (b - 0xF7) = unat b - 247" by (subst unat_byte_diff) simp_all
    with 5 run obtain bs where bs: "reads (t\<lparr>st_byteval := 0\<rparr>) bs s1" "length bs = unat b - 247"
      "n = be_to_nat bs" "2 \<le> length bs \<longrightarrow> bs ! 0 \<noteq> 0" "k = List" "56 \<le> n"
      by (auto simp: byte_less_iff split: prod.splits sum.splits if_splits dest!: readUint_reads)
    with long_tag(1) [of b 247 bs 192] long_tag(2) [of b 247 bs] 5 b reads_trans [OF t0 [of 0] bs(1)] show ?thesis
      by (simp add: tag_bytes_def kind_head_def)
  qed
qed

lemma reads_short_tag:
  assumes "reads s (rlp_head small large n) t" "n < 56" "small \<le> 192"
  obtains b s1 where "readByte s = (Inr b, s1)" "unat b = small + n" "core s1 = core t"
proof -
  have "reads s [word_of_nat (small + n)] t" using assms by (simp add: rlp_head_def)
  from reads_readByte [OF this] obtain s1 where
    "readByte s = (Inr (word_of_nat (small + n)), s1)" "core s1 = core t" by blast
  moreover have "unat (word_of_nat (small + n) :: byte) = small + n"
    using assms(2,3) by (intro unat_byte_of_nat) simp
  ultimately show thesis using that by blast
qed

lemma reads_long_tag:
  assumes "reads s (rlp_head small large n) t" "56 \<le> n" "n < 2 ^ 64" "large \<le> 247"
  obtains b s1 s2 L where "readByte s = (Inr b, s1)" "unat b = large + L" "1 \<le> L" "L \<le> 8"
    "readUint L (s1\<lparr>st_byteval := 0\<rparr>) = (Inr n, s2)" "core s2 = core t"
proof -
  let ?L = "length (nat_to_be n)"
  have L: "1 \<le> ?L" "?L \<le> 8" using length_size_field [of n] assms by auto
  let ?b = "word_of_nat (large + ?L) :: byte"
  have b: "unat ?b = large + ?L" using L assms(4) by (intro unat_byte_of_nat) simp
  have "reads s ([?b] @ nat_to_be n) t" using assms by (simp add: rlp_head_def)
  then obtain t1 where t1: "reads s [?b] t1" "reads t1 (nat_to_be n) t" using reads_split by blast
  obtain s1 where s1: "readByte s = (Inr ?b, s1)" "core s1 = core t1" using reads_readByte [OF t1(1)] by auto
  have "reads (s1\<lparr>st_byteval := 0\<rparr>) (nat_to_be n) t" using reads_core [OF t1(2)] s1(2) by simp
  moreover have "nat_to_be n ! 0 \<noteq> 0" using assms(2) hd_nat_to_be [of n] L by (cases "nat_to_be n") auto
  ultimately obtain s2 where "readUint ?L (s1\<lparr>st_byteval := 0\<rparr>) = (Inr n, s2)" "core s2 = core t"
    using reads_readUint [of "s1\<lparr>st_byteval := 0\<rparr>" "nat_to_be n" t] by auto
  with that s1(1) b L show thesis by blast
qed

lemma st_readKind_complete:
  assumes "reads s (tag_bytes k n bv) t" "n < 2 ^ 64" "k = Byte \<longrightarrow> n = 0 \<and> bv < 128"
  shows "\<exists>s1. st_readKind s = ((k, n, None), s1) \<and> core s1 = core t \<and> (k = Byte \<longrightarrow> st_byteval s1 = bv)"
proof (cases k)
  case Byte
  with assms reads_readByte [of s bv t] show ?thesis
    by (auto simp: st_readKind_def tag_bytes_def byte_less_iff)
next
  case String
  then have rd: "reads s (rlp_head 128 183 n) t" using assms(1) by (simp add: tag_bytes_def kind_head_def)
  show ?thesis
  proof (cases "n < 56")
    case True
    with rd obtain b s1 where b: "readByte s = (Inr b, s1)" "unat b = 128 + n" "core s1 = core t"
      by (rule reads_short_tag) simp
    then have "unat (b - 0x80) = n" by (subst unat_byte_diff) simp_all
    with b True String show ?thesis by (auto simp: st_readKind_def byte_less_iff Let_def)
  next
    case False
    with rd assms(2) obtain b s1 s2 L where b: "readByte s = (Inr b, s1)" "unat b = 183 + L" "1 \<le> L" "L \<le> 8"
      "readUint L (s1\<lparr>st_byteval := 0\<rparr>) = (Inr n, s2)" "core s2 = core t"
      by (elim reads_long_tag) auto
    then have "unat (b - 0xB7) = L" by (subst unat_byte_diff) simp_all
    with b False String show ?thesis by (auto simp: st_readKind_def byte_less_iff Let_def)
  qed
next
  case List
  then have rd: "reads s (rlp_head 192 247 n) t" using assms(1) by (simp add: tag_bytes_def kind_head_def)
  show ?thesis
  proof (cases "n < 56")
    case True
    with rd obtain b s1 where b: "readByte s = (Inr b, s1)" "unat b = 192 + n" "core s1 = core t"
      by (rule reads_short_tag) simp
    then have "unat (b - 0xC0) = n" by (subst unat_byte_diff) simp_all
    with b True List show ?thesis by (auto simp: st_readKind_def byte_less_iff Let_def)
  next
    case False
    with rd assms(2) obtain b s1 s2 L where b: "readByte s = (Inr b, s1)" "unat b = 247 + L" "1 \<le> L" "L \<le> 8"
      "readUint L (s1\<lparr>st_byteval := 0\<rparr>) = (Inr n, s2)" "core s2 = core t"
      by (elim reads_long_tag) auto
    then have "unat (b - 0xF7) = L" by (subst unat_byte_diff) simp_all
    with b False List show ?thesis by (auto simp: st_readKind_def byte_less_iff Let_def)
  qed
qed

text \<open>The check that \<open>Kind\<close> makes on a declared size, and the end of the innermost list.\<close>

definition declared_ok :: "nat \<Rightarrow> Stream \<Rightarrow> bool" where
  "declared_ok n s \<longleftrightarrow>
     (case st_stack s of
        [] \<Rightarrow> st_limited s \<longrightarrow> n \<le> st_remaining s
      | tos # _ \<Rightarrow> n \<le> lp_size tos - lp_pos tos)"

definition at_end :: "Stream \<Rightarrow> bool" where
  "at_end s \<longleftrightarrow> (case st_stack s of [] \<Rightarrow> False | tos # _ \<Rightarrow> lp_pos tos = lp_size tos)"

lemma fits_declared_ok: "fits n s \<Longrightarrow> declared_ok n s"
  by (auto simp: fits_def declared_ok_def split: list.splits)

lemma declared_ok_cong: "core s = core t \<Longrightarrow> declared_ok n s = declared_ok n t"
  by (auto simp: core_def declared_ok_def split: list.splits)

lemma at_end_cong: "core s = core t \<Longrightarrow> at_end s = at_end t"
  by (simp add: core_def at_end_def)

lemma at_end_simp [simp]: "at_end (s\<lparr>st_kinderr := e\<rparr>) = at_end s"
  by (simp add: at_end_def)

lemma not_at_end: "fits n s \<Longrightarrow> 0 < n \<Longrightarrow> \<not> at_end s"
  by (auto simp: fits_def at_end_def split: list.splits)

lemma reads_not_at_end: "reads s bs t \<Longrightarrow> bs \<noteq> [] \<Longrightarrow> \<not> at_end s"
  using not_at_end by (auto simp: reads_def)

text \<open>A stream that has the kind of the value ahead in its cache.\<close>

definition ahead :: "Kind \<Rightarrow> nat \<Rightarrow> Stream \<Rightarrow> bool" where
  "ahead k n s \<longleftrightarrow> st_kind s = Some k \<and> st_size s = n \<and> st_kinderr s = None"

lemma st_Kind_idle:
  assumes "idle s"
  shows "st_Kind s =
     (if at_end s then (Inl EOL, s\<lparr>st_kinderr := None\<rparr>)
      else (case st_readKind (s\<lparr>st_kinderr := None\<rparr>) of ((k, n, err), s1) \<Rightarrow>
        (let err' = (if err \<noteq> None then err else if declared_ok n s1 then None
                     else Some (if st_stack s1 = [] then ErrValueTooLarge else ErrElemTooLarge))
         in ((case err' of Some e \<Rightarrow> Inl e | None \<Rightarrow> Inr (k, n)),
             s1\<lparr>st_kind := Some k, st_size := n, st_kinderr := err'\<rparr>))))"
  using assms
  by (auto simp: st_Kind_def idle_def at_end_def declared_ok_def Let_def split: prod.splits list.splits)

lemma st_Kind_ahead: "ahead k n s \<Longrightarrow> st_Kind s = (Inr (k, n), s)"
  by (simp add: ahead_def st_Kind_def)

lemma st_Kind_sound:
  assumes "idle s" "st_Kind s = (Inr (k, n), s1)"
  shows "reads s (tag_bytes k n (st_byteval s1)) s1" "ahead k n s1" "n < 2 ^ 64"
    "k = Byte \<Longrightarrow> n = 0 \<and> st_byteval s1 < 128" "declared_ok n s1"
proof -
  from assms obtain t where t: "st_readKind (s\<lparr>st_kinderr := None\<rparr>) = ((k, n, None), t)"
    and ok: "declared_ok n t" and s1: "s1 = t\<lparr>st_kind := Some k, st_size := n, st_kinderr := None\<rparr>"
    by (auto simp: st_Kind_idle Let_def split: if_splits prod.splits option.splits)
  from st_readKind_sound [OF t] s1
  show "reads s (tag_bytes k n (st_byteval s1)) s1" "n < 2 ^ 64" "k = Byte \<Longrightarrow> n = 0 \<and> st_byteval s1 < 128"
    by (auto elim: reads_core)
  show "ahead k n s1" by (simp add: s1 ahead_def)
  show "declared_ok n s1" using ok s1 declared_ok_cong [of s1 t] by simp
qed

lemma st_Kind_complete:
  assumes "idle s" "reads s (tag_bytes k n bv) t" "n < 2 ^ 64" "k = Byte \<longrightarrow> n = 0 \<and> bv < 128" "declared_ok n t"
  shows "\<exists>s1. st_Kind s = (Inr (k, n), s1) \<and> core s1 = core t \<and> (k = Byte \<longrightarrow> st_byteval s1 = bv)"
proof -
  have "reads (s\<lparr>st_kinderr := None\<rparr>) (tag_bytes k n bv) t" using reads_core [OF assms(2)] by simp
  from st_readKind_complete [OF this assms(3,4)]
  obtain s1 where s1: "st_readKind (s\<lparr>st_kinderr := None\<rparr>) = ((k, n, None), s1)" "core s1 = core t"
    "k = Byte \<longrightarrow> st_byteval s1 = bv" by blast
  moreover have "\<not> at_end s" using assms(2)
    by (rule reads_not_at_end) (auto simp: tag_bytes_def kind_head_def split: Kind.splits)
  ultimately show ?thesis using assms(1,5) declared_ok_cong [OF s1(2), of n]
    by (simp add: st_Kind_idle Let_def)
qed

lemma st_readKind_error: "st_readKind s = ((k, n, Some e), s') \<Longrightarrow>
   e \<in> {ErrElemTooLarge, ErrValueTooLarge, io_ErrUnexpectedEOF, ErrCanonSize, io_EOF}"
  by (auto simp: st_readKind_def Let_def split: if_splits prod.splits sum.splits
      dest!: readUint_error readByte_error)

lemma st_Kind_EOL:
  assumes "idle s" "st_Kind s = (Inl EOL, s1)"
  shows "at_end s \<and> core s1 = core s \<and> idle s1"
proof (cases "at_end s")
  case True
  with assms show ?thesis by (auto simp: st_Kind_idle idle_def)
next
  case False
  with assms show ?thesis
    by (auto simp: st_Kind_idle Let_def split: prod.splits option.splits if_splits dest!: st_readKind_error)
qed

lemma st_Kind_at_end: "idle s \<Longrightarrow> at_end s \<Longrightarrow> st_Kind s = (Inl EOL, s\<lparr>st_kinderr := None\<rparr>)"
  by (simp add: st_Kind_idle)

section \<open>Strings and numbers\<close>

lemma kind_head_string: "\<not> single b \<Longrightarrow> enc_str b = kind_head String (length b) @ b"
  by (auto simp: enc_str_def kind_head_def single_def)

lemma st_Bytes_sound:
  assumes "idle s" "st_Bytes s = (Inr b, s')"
  shows "reads s (enc_str b) s' \<and> idle s' \<and> length b < 2 ^ 64"
proof -
  obtain k n s1 where k: "st_Kind s = (Inr (k, n), s1)"
    using assms(2) by (cases "st_Kind s") (auto simp: st_Bytes_def split: sum.splits)
  note kind = st_Kind_sound [OF assms(1) k]
  show ?thesis
  proof (cases k)
    case Byte
    with assms(2) k have "b = [st_byteval s1]" "s' = rearm s1" by (auto simp: st_Bytes_def)
    with Byte kind reads_core [OF kind(1) refl, of s'] show ?thesis
      by (auto simp: enc_str_def tag_bytes_def idle_def rearm_def)
  next
    case String
    with assms(2) k have rf: "readFull n s1 = (Inr b, s')" and "\<not> single b"
      by (auto simp: st_Bytes_def single_def split: prod.splits sum.splits if_splits dest: readFull_reads)
    with String kind readFull_reads [OF rf] show ?thesis
      by (auto simp: kind_head_string tag_bytes_def intro: reads_trans)
  next
    case List
    with assms(2) k show ?thesis by (simp add: st_Bytes_def)
  qed
qed

lemma st_Bytes_complete:
  assumes "idle s" "reads s (enc_str b) t" "length b < 2 ^ 64"
  shows "\<exists>s'. st_Bytes s = (Inr b, s') \<and> core s' = core t \<and> idle s'"
proof (cases "single b")
  case True
  then obtain x where x: "b = [x]" "x < 128" by (cases b) (auto simp: single_def)
  with assms(2) have "reads s (tag_bytes Byte 0 x) t" by (simp add: enc_str_def tag_bytes_def)
  with st_Kind_complete [OF assms(1), of Byte 0 x t] x show ?thesis
    by (auto simp: st_Bytes_def idle_def rearm_def fits_declared_ok core_def)
next
  case False
  with assms(2) obtain t1 where t1: "reads s (kind_head String (length b)) t1" "reads t1 b t"
    by (auto simp: kind_head_string dest: reads_split)
  have "declared_ok (length b) t1" using t1(2) by (auto simp: reads_def intro: fits_declared_ok)
  with st_Kind_complete [OF assms(1), of String "length b" 0 t1] t1 assms(3)
  obtain s1 where s1: "st_Kind s = (Inr (String, length b), s1)" "core s1 = core t1"
    by (auto simp: tag_bytes_def)
  from reads_core [OF t1(2) s1(2) [symmetric] refl] have "reads s1 b t" .
  from reads_readFull [OF this] s1(1) False show ?thesis
    by (auto simp: st_Bytes_def single_def)
qed

lemma st_uint_sound:
  assumes "idle s" "st_uint mb s = (Inr v, s')" "8 \<le> mb"
  shows "reads s (enc_str (nat_to_be v)) s' \<and> idle s' \<and> length (nat_to_be v) \<le> mb div 8"
proof -
  obtain k n s1 where k: "st_Kind s = (Inr (k, n), s1)"
    using assms(2) by (cases "st_Kind s") (auto simp: st_uint_def split: sum.splits)
  note kind = st_Kind_sound [OF assms(1) k]
  show ?thesis
  proof (cases k)
    case Byte
    with assms(2) k have v: "v = unat (st_byteval s1)" "st_byteval s1 \<noteq> 0" "s' = rearm s1"
      by (auto simp: st_uint_def split: if_splits)
    then have "nat_to_be v = [st_byteval s1]"
      using nat_to_be_be_to_nat [of "[st_byteval s1]"] by simp
    with Byte kind v(3) reads_core [OF kind(1) refl, of s'] assms(3) show ?thesis
      by (auto simp: enc_str_def tag_bytes_def idle_def rearm_def)
  next
    case String
    with assms(2) k have n: "n \<le> mb div 8" and ru: "readUint n s1 = (Inr v, s')" and v: "n > 0 \<longrightarrow> 128 \<le> v"
      by (auto simp: st_uint_def split: prod.splits sum.splits if_splits)
    from readUint_reads [OF ru] obtain bs where bs: "reads s1 bs s'" "length bs = n" "v = be_to_nat bs"
      "2 \<le> n \<longrightarrow> bs ! 0 \<noteq> 0" and idl: "idle s'" by blast
    have "bs = [] \<or> hd bs \<noteq> 0"
    proof (cases bs)
      case (Cons c cs)
      with bs v show ?thesis by (cases cs) auto
    qed simp
    then have eq: "nat_to_be v = bs" using bs(3) by (simp add: nat_to_be_be_to_nat)
    moreover have "\<not> single bs"
    proof
      assume "single bs"
      then obtain x where "bs = [x]" "x < 128" by (cases bs) (auto simp: single_def)
      with v bs show False by (auto simp: byte_less_iff)
    qed
    ultimately show ?thesis using String kind(1) bs n idl
      by (auto simp: kind_head_string tag_bytes_def intro: reads_trans)
  next
    case List
    with assms(2) k show ?thesis by (simp add: st_uint_def)
  qed
qed

lemma st_uint_complete:
  assumes "idle s" "reads s (enc_str (nat_to_be v)) t" "length (nat_to_be v) \<le> mb div 8" "mb \<le> 64"
  shows "\<exists>s'. st_uint mb s = (Inr v, s') \<and> core s' = core t \<and> idle s'"
proof (cases "single (nat_to_be v)")
  case True
  then obtain x where x: "nat_to_be v = [x]" "x < 128" by (cases "nat_to_be v") (auto simp: single_def)
  then have v: "v = unat x" by (metis be_to_nat_nat_to_be be_to_nat_single)
  with x have "x \<noteq> 0" by (cases "x = 0") auto
  from assms(2) x have "reads s (tag_bytes Byte 0 x) t" by (simp add: enc_str_def tag_bytes_def)
  with st_Kind_complete [OF assms(1), of Byte 0 x t] x v \<open>x \<noteq> 0\<close> show ?thesis
    by (auto simp: st_uint_def idle_def rearm_def fits_declared_ok core_def)
next
  case False
  let ?b = "nat_to_be v"
  from False assms(2) obtain t1 where t1: "reads s (kind_head String (length ?b)) t1" "reads t1 ?b t"
    by (auto simp: kind_head_string dest: reads_split)
  have le: "length ?b \<le> 8" using assms(3,4) by linarith
  have "declared_ok (length ?b) t1" using t1(2) by (auto simp: reads_def intro: fits_declared_ok)
  with st_Kind_complete [OF assms(1), of String "length ?b" 0 t1] t1 le
  obtain s1 where s1: "st_Kind s = (Inr (String, length ?b), s1)" "core s1 = core t1"
    by (auto simp: tag_bytes_def)
  have "2 \<le> length ?b \<longrightarrow> ?b ! 0 \<noteq> 0" using hd_nat_to_be [of v] by (cases ?b; cases "v = 0") auto
  from reads_readUint [OF reads_core [OF t1(2) s1(2) [symmetric] refl] this]
  obtain s' where "readUint (length ?b) s1 = (Inr v, s')" "core s' = core t" "idle s'" by auto
  moreover have "0 < v \<Longrightarrow> \<not> v < 128" using False nat_to_be_small [of v]
    by (auto simp: single_def byte_less_iff)
  ultimately show ?thesis using s1(1) assms(3) by (auto simp: st_uint_def)
qed

lemma st_Bool_sound:
  assumes "idle s" "st_Bool s = (Inr b, s')"
  shows "reads s (enc_str (if b then [1] else [])) s' \<and> idle s'"
proof -
  obtain v where v: "st_uint 8 s = (Inr v, s')" "v = (if b then 1 else 0)"
    using assms(2) by (auto simp: st_Bool_def split: prod.splits sum.splits if_splits)
  have "nat_to_be v = (if b then [1] else [])" using v(2) nat_to_be_be_to_nat [of "[1]"] by simp
  with st_uint_sound [OF assms(1) v(1)] show ?thesis by simp
qed

lemma st_Bool_complete:
  assumes "idle s" "reads s (enc_str (if b then [1] else [])) t"
  shows "\<exists>s'. st_Bool s = (Inr b, s') \<and> core s' = core t \<and> idle s'"
proof -
  have "nat_to_be (if b then 1 else 0) = (if b then [1] else [])" using nat_to_be_be_to_nat [of "[1]"] by simp
  with st_uint_complete [OF assms(1), of "if b then 1 else 0" t 8] assms(2) show ?thesis
    by (auto simp: st_Bool_def split: if_splits)
qed

text \<open>
  A raw value is one kind, its header and its content; the content is not looked into, so \<open>Raw\<close> also
  accepts a one-byte string with a superfluous header.
\<close>

definition raw_ok :: "bytes \<Rightarrow> bool" where
  "raw_ok b \<longleftrightarrow> (\<exists>x. b = [x] \<and> x < 128) \<or> (\<exists>k c. k \<noteq> Byte \<and> length c < 2 ^ 64 \<and> b = kind_head k (length c) @ c)"

lemma raw_buffer:
  assumes "length c < 2 ^ 64" "k \<noteq> Byte"
  shows "copy_at 0 (if k = String then puthead 0x80 0xB7 (word_of_nat (length c))
           else puthead 0xC0 0xF7 (word_of_nat (length c)))
         (replicate (headsize (word_of_nat (length c))) 0 @ c) = kind_head k (length c) @ c"
proof -
  let ?n = "word_of_nat (length c) :: u64"
  have "headsize ?n = length (kind_head k (length c))"
    using assms by (cases k) (simp_all add: kind_head_def headsize_eq [of ?n 128 183] headsize_eq [of ?n 192 247] rlp_head_def)
  moreover have "(if k = String then puthead 0x80 0xB7 ?n else puthead 0xC0 0xF7 ?n) = kind_head k (length c)"
    using assms by (cases k) (simp_all add: kind_head_def puthead_eq)
  ultimately show ?thesis using copy_at_append [of "kind_head k (length c)" _ "[]"] by simp
qed

lemma st_Raw_sound:
  assumes "idle s" "st_Raw s = (Inr b, s')"
  shows "reads s b s' \<and> idle s' \<and> raw_ok b"
proof -
  obtain k n s1 where k: "st_Kind s = (Inr (k, n), s1)"
    using assms(2) by (cases "st_Kind s") (auto simp: st_Raw_def split: sum.splits)
  note kind = st_Kind_sound [OF assms(1) k]
  show ?thesis
  proof (cases "k = Byte")
    case True
    with assms(2) k have "b = [st_byteval s1]" "s' = rearm s1" by (auto simp: st_Raw_def)
    with True kind reads_core [OF kind(1) refl, of s'] show ?thesis
      by (auto simp: tag_bytes_def idle_def rearm_def raw_ok_def)
  next
    case False
    with assms(2) k obtain c where c: "readFull n s1 = (Inr c, s')"
      by (auto simp: st_Raw_def split: prod.splits sum.splits)
    note rc = readFull_reads [OF c]
    have "b = kind_head k n @ c" using False assms(2) k c rc kind(3) raw_buffer [of c k]
      by (auto simp: st_Raw_def Let_def)
    with False kind rc show ?thesis
      by (auto simp: tag_bytes_def raw_ok_def intro: reads_trans)
  qed
qed

lemma st_Raw_complete:
  assumes "idle s" "reads s b t" "raw_ok b"
  shows "\<exists>s'. st_Raw s = (Inr b, s') \<and> core s' = core t \<and> idle s'"
  using assms(3) unfolding raw_ok_def
proof (elim disjE exE conjE)
  fix x assume x: "b = [x]" "x < 128"
  with assms(2) have "reads s (tag_bytes Byte 0 x) t" by (simp add: tag_bytes_def)
  with st_Kind_complete [OF assms(1), of Byte 0 x t] x show ?thesis
    by (auto simp: st_Raw_def idle_def rearm_def fits_declared_ok core_def)
next
  fix k c assume k: "k \<noteq> Byte" "length c < 2 ^ 64" "b = kind_head k (length c) @ c"
  with assms(2) obtain t1 where t1: "reads s (kind_head k (length c)) t1" "reads t1 c t"
    by (auto dest: reads_split)
  have "declared_ok (length c) t1" using t1(2) by (auto simp: reads_def intro: fits_declared_ok)
  with st_Kind_complete [OF assms(1), of k "length c" 0 t1] t1 k
  obtain s1 where s1: "st_Kind s = (Inr (k, length c), s1)" "core s1 = core t1"
    by (auto simp: tag_bytes_def)
  from reads_core [OF t1(2) s1(2) [symmetric] refl] have "reads s1 c t" .
  from reads_readFull [OF this] s1(1) k raw_buffer [OF k(2,1)] show ?thesis
    by (auto simp: st_Raw_def Let_def)
qed

section \<open>Lists\<close>

definition push_list :: "nat \<Rightarrow> Stream \<Rightarrow> Stream" where
  "push_list n s = s\<lparr>st_stack := \<lparr>lp_pos = 0, lp_size = n\<rparr> # st_stack s\<rparr>"

lemma st_List_sound:
  assumes "idle s" "st_List s = (Inr n, s')"
  shows "\<exists>t. reads s (kind_head List n) t \<and> core s' = core (push_list n t) \<and> idle s'
    \<and> n < 2 ^ 64 \<and> declared_ok n t"
proof -
  from assms(2) obtain s1 where k: "st_Kind s = (Inr (List, n), s1)"
    and s': "s' = s1\<lparr>st_stack := \<lparr>lp_pos = 0, lp_size = n\<rparr> # st_stack s1, st_kind := None, st_size := 0\<rparr>"
    by (auto simp: st_List_def split: prod.splits sum.splits if_splits)
  note kind = st_Kind_sound [OF assms(1) k]
  from kind s' show ?thesis
    by (intro exI [of _ s1]) (auto simp: tag_bytes_def push_list_def core_def idle_def)
qed

lemma st_List_complete:
  assumes "idle s" "reads s (kind_head List n) t" "n < 2 ^ 64" "declared_ok n t"
  shows "\<exists>s'. st_List s = (Inr n, s') \<and> core s' = core (push_list n t) \<and> idle s'"
proof -
  obtain s1 where "st_Kind s = (Inr (List, n), s1)" "core s1 = core t"
    using st_Kind_complete [OF assms(1), of List n 0 t] assms by (auto simp: tag_bytes_def)
  then show ?thesis by (auto simp: st_List_def push_list_def core_def idle_def)
qed

lemma reads_iff: "reads s bs s' \<longleftrightarrow>
   st_r s = bs @ st_r s' \<and> st_limited s' = st_limited s
   \<and> st_remaining s' = (if st_limited s then st_remaining s - length bs else st_remaining s)
   \<and> st_stack s' = (case st_stack s of [] \<Rightarrow> [] | tos # stk \<Rightarrow> tos\<lparr>lp_pos := lp_pos tos + length bs\<rparr> # stk)
   \<and> fits (length bs) s"
  by (auto simp: reads_def core_def advance_def)

lemma push_list_fields:
  "core s = core (push_list n t) \<longleftrightarrow> st_r s = st_r t \<and> st_limited s = st_limited t
     \<and> st_remaining s = st_remaining t \<and> st_stack s = \<lparr>lp_pos = 0, lp_size = n\<rparr> # st_stack t"
  by (auto simp: core_def push_list_def)

lemma pushed_stack:
  "core s = core (push_list n t) \<Longrightarrow> reads s p s' \<Longrightarrow> st_stack s' = \<lparr>lp_pos = length p, lp_size = n\<rparr> # st_stack t"
  by (simp add: reads_iff push_list_fields)

lemma at_end_pushed: "core s = core (push_list n t) \<Longrightarrow> reads s p s' \<Longrightarrow> at_end s' \<longleftrightarrow> length p = n"
  by (simp add: pushed_stack at_end_def)

lemma list_frame_sound:
  assumes "core s = core (push_list n t)" "declared_ok n t" "reads s p s'" "st_ListEnd s' = (None, s2)"
  shows "reads t p s2 \<and> idle s2 \<and> length p = n"
proof -
  note stk = pushed_stack [OF assms(1,3)]
  with assms(4) have n: "length p = n" by (simp add: st_ListEnd_def split: if_splits)
  have "fits n t" using assms(1,2,3) n
    by (simp add: reads_iff fits_def push_list_fields declared_ok_def split: list.splits)
  moreover have "s2 = s'\<lparr>st_stack := (case st_stack t of [] \<Rightarrow> [] | m # ms \<Rightarrow> m\<lparr>lp_pos := lp_pos m + n\<rparr> # ms),
      st_kind := None, st_size := 0\<rparr>"
    using assms(4) stk n by (auto simp: st_ListEnd_def cong: list.case_cong)
  ultimately show ?thesis using assms(1,3) n
    by (simp add: reads_iff push_list_fields idle_def cong: list.case_cong)
qed

lemma list_frame_complete:
  assumes "core s = core (push_list (length p) t)" "reads t p t2"
  shows "\<exists>s'. reads s p s'"
    and "reads s p s' \<Longrightarrow> \<exists>s2. st_ListEnd s' = (None, s2) \<and> core s2 = core t2 \<and> idle s2"
proof -
  have "fits (length p) s" "st_r s = p @ st_r t2"
    using assms by (simp_all add: reads_iff fits_def push_list_fields)
  then show "\<exists>s'. reads s p s'" by (auto intro: reads_advance)
  assume r: "reads s p s'"
  from pushed_stack [OF assms(1) r] r assms(1) [unfolded push_list_fields] assms(2)
  show "\<exists>s2. st_ListEnd s' = (None, s2) \<and> core s2 = core t2 \<and> idle s2"
    by (simp add: st_ListEnd_def reads_iff idle_def core_def cong: list.case_cong)
qed

text \<open>
  Every operation asks for the kind first, so a kind that was already asked for makes no difference.
\<close>

lemma kind_first:
  assumes "idle s" "st_Kind s = (Inr kn, s1)"
  shows "st_Kind s1 = (Inr kn, s1)" "st_Bytes s1 = st_Bytes s" "st_Raw s1 = st_Raw s"
    "st_uint mb s1 = st_uint mb s" "st_Bool s1 = st_Bool s" "st_List s1 = st_List s"
proof -
  obtain k n where kn: "kn = (k, n)" by (cases kn)
  have "st_Kind s1 = (Inr (k, n), s1)"
    using st_Kind_sound(2) [OF assms(1)] assms(2) kn by (simp add: st_Kind_ahead)
  then show *: "st_Kind s1 = (Inr kn, s1)" using kn by simp
  show "st_Bytes s1 = st_Bytes s" "st_Raw s1 = st_Raw s" "st_List s1 = st_List s"
    by (simp_all add: st_Bytes_def st_Raw_def st_List_def * assms(2))
  show u: "st_uint mb s1 = st_uint mb s" for mb by (simp add: st_uint_def * assms(2))
  show "st_Bool s1 = st_Bool s" by (simp add: st_Bool_def u)
qed

text \<open>Only the end of the innermost list makes an operation return \<open>EOL\<close>, and nothing is read then.\<close>

lemma st_EOL:
  assumes "idle s"
  shows "st_Bytes s = (Inl EOL, s') \<Longrightarrow> at_end s \<and> core s' = core s \<and> idle s'"
    "st_Raw s = (Inl EOL, s') \<Longrightarrow> at_end s \<and> core s' = core s \<and> idle s'"
    "st_uint mb s = (Inl EOL, s') \<Longrightarrow> at_end s \<and> core s' = core s \<and> idle s'"
    "st_Bool s = (Inl EOL, s') \<Longrightarrow> at_end s \<and> core s' = core s \<and> idle s'"
    "st_List s = (Inl EOL, s') \<Longrightarrow> at_end s \<and> core s' = core s \<and> idle s'"
proof -
  note K = st_Kind_EOL [OF assms]
  show "st_Bytes s = (Inl EOL, s') \<Longrightarrow> at_end s \<and> core s' = core s \<and> idle s'"
    by (auto simp: st_Bytes_def split: prod.splits sum.splits Kind.splits if_splits dest: K dest!: readFull_error)
  show "st_Raw s = (Inl EOL, s') \<Longrightarrow> at_end s \<and> core s' = core s \<and> idle s'"
    by (auto simp: st_Raw_def Let_def split: prod.splits sum.splits Kind.splits if_splits dest: K dest!: readFull_error)
  show u: "st_uint mb s = (Inl EOL, s') \<Longrightarrow> at_end s \<and> core s' = core s \<and> idle s'" for mb
    by (auto simp: st_uint_def split: prod.splits sum.splits Kind.splits if_splits dest: K dest!: readUint_error)
  show "st_Bool s = (Inl EOL, s') \<Longrightarrow> at_end s \<and> core s' = core s \<and> idle s'"
    by (auto simp: st_Bool_def split: prod.splits sum.splits if_splits dest: u)
  show "st_List s = (Inl EOL, s') \<Longrightarrow> at_end s \<and> core s' = core s \<and> idle s'"
    by (auto simp: st_List_def split: prod.splits sum.splits if_splits dest: K)
qed

lemma st_at_end:
  assumes "idle s" "at_end s"
  shows "st_Bytes s = (Inl EOL, s\<lparr>st_kinderr := None\<rparr>)" "st_Raw s = (Inl EOL, s\<lparr>st_kinderr := None\<rparr>)"
    "st_uint mb s = (Inl EOL, s\<lparr>st_kinderr := None\<rparr>)" "st_Bool s = (Inl EOL, s\<lparr>st_kinderr := None\<rparr>)"
    "st_List s = (Inl EOL, s\<lparr>st_kinderr := None\<rparr>)"
  using st_Kind_at_end [OF assms]
  by (simp_all add: st_Bytes_def st_Raw_def st_uint_def st_Bool_def st_List_def)

section \<open>The stream invariant\<close>

text \<open>
  No position is beyond the size of its list, and a list fits into what its enclosing list had left
  when it was entered: the differences \<open>size - pos\<close> never wrap around.
\<close>

fun nested_ok :: "listpos list \<Rightarrow> bool" where
  "nested_ok [] = True"
| "nested_ok [l] = (lp_pos l \<le> lp_size l)"
| "nested_ok (l # m # ls) = (lp_pos l \<le> lp_size l \<and> lp_size l \<le> lp_size m - lp_pos m \<and> nested_ok (m # ls))"

definition stream_ok :: "Stream \<Rightarrow> bool" where
  "stream_ok s \<longleftrightarrow> nested_ok (st_stack s)
     \<and> (case st_stack s of
          [] \<Rightarrow> True
        | tos # _ \<Rightarrow> st_kind s = Some List \<longrightarrow> st_kinderr s = None \<longrightarrow> st_size s \<le> lp_size tos - lp_pos tos)"

lemma nested_ok_pos: "nested_ok (l # ls) \<Longrightarrow> n \<le> lp_size l - lp_pos l \<Longrightarrow> nested_ok (l\<lparr>lp_pos := lp_pos l + n\<rparr> # ls)"
  by (cases ls) auto

lemma willRead_ok: "willRead n s = (e, s') \<Longrightarrow> stream_ok s \<Longrightarrow> stream_ok s' \<and> st_kind s' = None"
  by (auto simp: willRead_def stream_ok_def Let_def nested_ok_pos split: list.splits if_splits)

lemma stream_ok_simps [simp]:
  "st_kind s = None \<Longrightarrow> stream_ok (s\<lparr>st_r := r\<rparr>) = stream_ok s"
  "st_kind s = None \<Longrightarrow> stream_ok (s\<lparr>st_kinderr := ke\<rparr>) = stream_ok s"
  "stream_ok (s\<lparr>st_byteval := b\<rparr>) = stream_ok s"
  by (simp_all add: stream_ok_def cong: list.case_cong)

lemma readFull_ok: "readFull n s = (e, s') \<Longrightarrow> stream_ok s \<Longrightarrow> stream_ok s' \<and> st_kind s' = None"
  by (auto simp: readFull_def split: prod.splits option.splits if_splits dest!: willRead_ok)

lemma readByte_ok: "readByte s = (e, s') \<Longrightarrow> stream_ok s \<Longrightarrow> stream_ok s' \<and> st_kind s' = None"
  by (auto simp: readByte_def split: prod.splits option.splits list.splits dest!: willRead_ok)

lemma rearm_ok: "stream_ok s \<Longrightarrow> stream_ok (rearm s)"
  by (simp add: stream_ok_def rearm_def split: list.splits)

lemma readUint_ok: "readUint n s = (e, s') \<Longrightarrow> stream_ok s \<Longrightarrow> stream_ok s' \<and> st_kind s' = None"
  using rearm_ok [of s]
  by (auto simp: readUint_def rearm_def split: prod.splits sum.splits if_splits dest!: readFull_ok readByte_ok)

lemma st_readKind_ok: "st_readKind s = (r, s') \<Longrightarrow> stream_ok s \<Longrightarrow> stream_ok s' \<and> st_kind s' = None"
  by (auto simp: st_readKind_def Let_def split: prod.splits sum.splits if_splits
      dest!: readByte_ok readUint_ok)

lemma st_Kind_ok:
  assumes "st_Kind s = (r, s')" "stream_ok s"
  shows "stream_ok s'"
proof (cases "idle s")
  case False
  with assms show ?thesis by (auto simp: st_Kind_def idle_def)
next
  case True
  show ?thesis
  proof (cases "at_end s")
    case True
    with \<open>idle s\<close> assms show ?thesis by (auto simp: st_Kind_idle idle_def)
  next
    case False
    obtain k n err s1 where rk: "st_readKind (s\<lparr>st_kinderr := None\<rparr>) = ((k, n, err), s1)"
      by (metis surj_pair)
    have "stream_ok s1 \<and> st_kind s1 = None"
      using st_readKind_ok [OF rk] assms(2) \<open>idle s\<close> by (simp add: idle_def)
    then show ?thesis using False \<open>idle s\<close> assms rk
      by (auto simp: st_Kind_idle stream_ok_def declared_ok_def Let_def split: list.splits if_splits)
  qed
qed

lemma st_List_ok:
  assumes "st_List s = (r, s')" "stream_ok s"
  shows "stream_ok s'"
proof -
  obtain k s1 where k: "st_Kind s = (k, s1)" by fastforce
  note ok = st_Kind_ok [OF k assms(2)]
  have "k = Inr (List, n) \<Longrightarrow> declared_ok n s1 \<or> st_stack s1 = []" for n
    using k ok st_Kind_sound(5) [of s List n s1] assms(2)
    by (cases "idle s")
       (auto simp: st_Kind_def idle_def stream_ok_def declared_ok_def split: list.splits option.splits)
  then show ?thesis using assms k ok
    by (auto simp: st_List_def stream_ok_def declared_ok_def neq_Nil_conv
        split: sum.splits if_splits list.splits)
qed

lemma st_ListEnd_ok:
  assumes "st_ListEnd s = (e, s')" "stream_ok s"
  shows "stream_ok s'"
proof (cases "st_stack s")
  case (Cons l ls)
  with assms show ?thesis
    by (cases ls) (auto simp: st_ListEnd_def stream_ok_def nested_ok_pos split: if_splits)
qed (use assms in \<open>simp add: st_ListEnd_def\<close>)

lemma st_Bytes_ok: "st_Bytes s = (r, s') \<Longrightarrow> stream_ok s \<Longrightarrow> stream_ok s'"
  by (auto simp: st_Bytes_def split: prod.splits sum.splits Kind.splits if_splits
      dest!: st_Kind_ok readFull_ok intro: rearm_ok)

lemma st_Raw_ok: "st_Raw s = (r, s') \<Longrightarrow> stream_ok s \<Longrightarrow> stream_ok s'"
  by (auto simp: st_Raw_def Let_def split: prod.splits sum.splits Kind.splits if_splits
      dest!: st_Kind_ok readFull_ok intro: rearm_ok)

lemma st_uint_ok: "st_uint mb s = (r, s') \<Longrightarrow> stream_ok s \<Longrightarrow> stream_ok s'"
  by (auto simp: st_uint_def split: prod.splits sum.splits Kind.splits if_splits
      dest!: st_Kind_ok readUint_ok intro: rearm_ok)

lemma st_Bool_ok: "st_Bool s = (r, s') \<Longrightarrow> stream_ok s \<Longrightarrow> stream_ok s'"
  by (auto simp: st_Bool_def split: prod.splits sum.splits if_splits dest!: st_uint_ok)

end
