(* ===== verification/RlpDecode.thy ===== *)
theory RlpDecode
  imports RlpStream
begin

text \<open>
  The decoders of package \<open>rlp\<close> (\<open>rlp/decode.go\<close>). The closures that \<open>makeDecoder\<close> returns are the
  values of the datatype \<open>decoder\<close>, and \<open>runDecoder\<close> calls them on a stream. The target of a decoder
  is a fresh (zero) value, as it is for every caller in the repository, so a decoder returns the
  value it builds. After an error the partly filled target is not modelled.

  \<open>decodeSliceElems\<close> loops until an element decoder reports the end of the list, and
  \<open>decodeInterface\<close> calls itself through it, so the decoders take fuel: \<open>decodeSliceElems\<close> uses one
  unit per element. The number of unread bytes is enough fuel, see \<open>runDecoder_fuel\<close>; the exception
  is an element type \<open>[1]byte\<close>, on which the loop of the source does not terminate.
\<close>

section \<open>Errors\<close>

definition wrapStreamError :: "rlp_error \<Rightarrow> rtype \<Rightarrow> rlp_error" where
  "wrapStreamError err ty =
     (case err of
        ErrCanonInt \<Rightarrow> decodeError ''non-canonical integer (leading zero bytes)'' ty []
      | ErrCanonSize \<Rightarrow> decodeError ''non-canonical size information'' ty []
      | ErrExpectedList \<Rightarrow> decodeError ''expected input list'' ty []
      | ErrExpectedString \<Rightarrow> decodeError ''expected input string or byte'' ty []
      | errUintOverflow \<Rightarrow> decodeError ''input string too long'' ty []
      | errNotAtEOL \<Rightarrow> decodeError ''input list has too many elements'' ty []
      | _ \<Rightarrow> err)"

definition addErrorContext :: "rlp_error \<Rightarrow> string \<Rightarrow> rlp_error" where
  "addErrorContext err c =
     (case err of decodeError msg ty cs \<Rightarrow> decodeError msg ty (cs @ [c]) | _ \<Rightarrow> err)"

text \<open>Decimal numerals, for the index in an error context.\<close>

fun nat_str :: "nat \<Rightarrow> string" where
  "nat_str n = (if n < 10 then [char_of (48 + n)] else nat_str (n div 10) @ [char_of (48 + n mod 10)])"

declare nat_str.simps [simp del]

definition Kind_String :: "Kind \<Rightarrow> string" where
  "Kind_String k = (case k of Byte \<Rightarrow> ''Byte'' | String \<Rightarrow> ''String'' | List \<Rightarrow> ''List'')"

section \<open>Building decoders\<close>

datatype decoder =
    DRawValue
  | DBigInt
  | DBigIntNoPtr
  | DUint nat
  | DBool
  | DString
  | DByteSlice rtype
  | DByteArray rtype nat
  | DListSlice rtype decoder
  | DSliceElems decoder
  | DListArray rtype nat decoder
  | DStruct rtype "(nat \<times> decoder) list"
  | DSimplePtr decoder
  | DNilPtr rtype Kind decoder
  | DInterface nat

text \<open>
  \<open>makeDecoder\<close> with \<open>makeListDecoder\<close>, \<open>makeStructDecoder\<close> and \<open>makePtrDecoder\<close>. No type of the
  repository implements \<open>Decoder\<close>; a type that implements \<open>Encoder\<close> only is decoded as the struct
  without exported fields that it is.
\<close>

fun makeDecoder :: "rtype \<Rightarrow> tags \<Rightarrow> rlp_error + decoder"
and makeFieldDecoders :: "rtype \<Rightarrow> nat \<Rightarrow> nat \<Rightarrow> field_decl list \<Rightarrow> rlp_error + (nat \<times> decoder) list" where
  "makeDecoder TRawValue ts = Inr DRawValue"
| "makeDecoder (TPtr TBigInt) ts = Inr DBigInt"
| "makeDecoder TBigInt ts = Inr DBigIntNoPtr"
| "makeDecoder (TPtr e) ts =
     (case makeDecoder e no_tags of
        Inl err \<Rightarrow> Inl err
      | Inr d \<Rightarrow> if \<not> nilOK ts then Inr (DSimplePtr d) else Inr (DNilPtr e (nilKind ts) d))"
| "makeDecoder (TEncoder name t) ts = Inr (DStruct (TEncoder name t) [])"
| "makeDecoder (TUint n) ts = Inr (DUint n)"
| "makeDecoder TBool ts = Inr DBool"
| "makeDecoder TString ts = Inr DString"
| "makeDecoder (TSlice e) ts =
     (if isByte e then Inr (DByteSlice (TSlice e))
      else (case makeDecoder e no_tags of
              Inl err \<Rightarrow> Inl err
            | Inr d \<Rightarrow> if tail ts then Inr (DSliceElems d) else Inr (DListSlice (TSlice e) d)))"
| "makeDecoder (TArray n e) ts =
     (if isByte e then Inr (DByteArray (TArray n e) n)
      else (case makeDecoder e no_tags of
              Inl err \<Rightarrow> Inl err
            | Inr d \<Rightarrow> Inr (DListArray (TArray n e) n d)))"
| "makeDecoder (TStruct name fs) ts =
     (case structFields (TStruct name fs) fs of
        Inl err \<Rightarrow> Inl err
      | Inr _ \<Rightarrow>
          (case makeFieldDecoders (TStruct name fs) (lastPublicField fs) 0 fs of
             Inl err \<Rightarrow> Inl err
           | Inr ds \<Rightarrow> Inr (DStruct (TStruct name fs) ds)))"
| "makeDecoder (TInterface n) ts = Inr (DInterface n)"
| "makeDecoder (TOther name) ts = Inl (notSerializable (TOther name))"
| "makeFieldDecoders ty l i [] = Inr []"
| "makeFieldDecoders ty l i ((name, tag, exported, t) # fs) =
     (case (if exported then parseStructTag ty (name, tag, exported, t) i l
            else Inr (no_tags\<lparr>ignored := True\<rparr>)) of
        Inl err \<Rightarrow> Inl err
      | Inr ts \<Rightarrow>
          if ignored ts then makeFieldDecoders ty l (Suc i) fs
          else (case makeDecoder t ts of
                  Inl err \<Rightarrow> Inl (structFieldError ty i err)
                | Inr d \<Rightarrow>
                    (case makeFieldDecoders ty l (Suc i) fs of
                       Inl err \<Rightarrow> Inl err
                     | Inr ds \<Rightarrow> Inr ((i, d) # ds))))"

section \<open>Running decoders\<close>

definition decodeRawValue :: "Stream \<Rightarrow> (rlp_error + rval) \<times> Stream" where
  "decodeRawValue s = (case st_Raw s of (r, s1) \<Rightarrow> (map_sum id VBytes r, s1))"

definition decodeUint :: "nat \<Rightarrow> Stream \<Rightarrow> (rlp_error + rval) \<times> Stream" where
  "decodeUint bits s =
     (case st_uint bits s of
        (Inl e, s1) \<Rightarrow> (Inl (wrapStreamError e (TUint bits)), s1)
      | (Inr v, s1) \<Rightarrow> (Inr (VUint (word_of_nat v)), s1))"

definition decodeBool :: "Stream \<Rightarrow> (rlp_error + rval) \<times> Stream" where
  "decodeBool s =
     (case st_Bool s of
        (Inl e, s1) \<Rightarrow> (Inl (wrapStreamError e TBool), s1)
      | (Inr b, s1) \<Rightarrow> (Inr (VBool b), s1))"

definition decodeString :: "Stream \<Rightarrow> (rlp_error + rval) \<times> Stream" where
  "decodeString s =
     (case st_Bytes s of
        (Inl e, s1) \<Rightarrow> (Inl (wrapStreamError e TString), s1)
      | (Inr b, s1) \<Rightarrow> (Inr (VBytes b), s1))"

definition decodeBigInt :: "Stream \<Rightarrow> (rlp_error + int) \<times> Stream" where
  "decodeBigInt s =
     (case st_Bytes s of
        (Inl e, s1) \<Rightarrow> (Inl (wrapStreamError e (TPtr TBigInt)), s1)
      | (Inr b, s1) \<Rightarrow>
          if length b > 0 \<and> b ! 0 = 0 then (Inl (wrapStreamError ErrCanonInt (TPtr TBigInt)), s1)
          else (Inr (int (be_to_nat b)), s1))"

definition decodeByteSlice :: "rtype \<Rightarrow> Stream \<Rightarrow> (rlp_error + rval) \<times> Stream" where
  "decodeByteSlice ty s =
     (case st_Bytes s of
        (Inl e, s1) \<Rightarrow> (Inl (wrapStreamError e ty), s1)
      | (Inr b, s1) \<Rightarrow> (Inr (VBytes b), s1))"

text \<open>In the \<open>Byte\<close> arm the source drops the error of \<open>s.Uint()\<close>: the value is then 0.\<close>

definition decodeByteArray :: "rtype \<Rightarrow> nat \<Rightarrow> Stream \<Rightarrow> (rlp_error + rval) \<times> Stream" where
  "decodeByteArray ty vlen s =
     (case st_Kind s of
        (Inl e, s1) \<Rightarrow> (Inl e, s1)
      | (Inr (k, n), s1) \<Rightarrow>
          (case k of
             Byte \<Rightarrow>
               if vlen = 0 then (Inl (decodeError ''input string too long'' ty []), s1)
               else if vlen > 1 then (Inl (decodeError ''input string too short'' ty []), s1)
               else (case st_uint 64 s1 of
                       (Inl e, s2) \<Rightarrow> (Inr (VBytes [0]), s2)
                     | (Inr v, s2) \<Rightarrow> (Inr (VBytes [word_of_nat v]), s2))
           | String \<Rightarrow>
               if vlen < n then (Inl (decodeError ''input string too long'' ty []), s1)
               else if vlen > n then (Inl (decodeError ''input string too short'' ty []), s1)
               else (case readFull vlen s1 of
                       (Inl e, s2) \<Rightarrow> (Inl e, s2)
                     | (Inr b, s2) \<Rightarrow>
                         if n = 1 \<and> b ! 0 < 128 then (Inl (wrapStreamError ErrCanonSize ty), s2)
                         else (Inr (VBytes b), s2))
           | List \<Rightarrow> (Inl (wrapStreamError ErrExpectedString ty), s1)))"

definition fieldName :: "rtype \<Rightarrow> nat \<Rightarrow> string" where
  "fieldName ty i = (case ty of TStruct _ fs \<Rightarrow> if i < length fs then fst (fs ! i) else [] | _ \<Rightarrow> [])"

definition zerofields :: "rtype \<Rightarrow> rval list" where
  "zerofields ty = (case ty of TStruct _ fs \<Rightarrow> map (\<lambda>f. zeroval (snd (snd (snd f)))) fs | _ \<Rightarrow> [])"

definition structval :: "rtype \<Rightarrow> rval list \<Rightarrow> rval" where
  "structval ty vs = (case ty of TEncoder _ t \<Rightarrow> VEncoder (zeroval t) | _ \<Rightarrow> VStruct vs)"

text \<open>The interface values that \<open>decodeInterface\<close> stores: \<open>[]byte\<close> and \<open>[]interface{}\<close>.\<close>

definition ifslice :: rtype where
  "ifslice = TSlice (TInterface 0)"

definition bytesliceType :: rtype where
  "bytesliceType = TSlice (TUint 8)"

text \<open>
  \<open>runDecoder\<close> dispatches on the closure. \<open>decodeListSlice\<close>, \<open>decodeSliceElems\<close> (the elements from
  index \<open>i\<close> on), \<open>decodeListArray\<close> with its loop, the loop over the fields of a struct, and
  \<open>decodeInterface\<close> are mutually recursive with it.
\<close>

function (sequential) runDecoder :: "nat \<Rightarrow> decoder \<Rightarrow> Stream \<Rightarrow> (rlp_error + rval) \<times> Stream"
and decodeListSlice :: "nat \<Rightarrow> rtype \<Rightarrow> decoder \<Rightarrow> Stream \<Rightarrow> (rlp_error + rval list) \<times> Stream"
and decodeSliceElems :: "nat \<Rightarrow> decoder \<Rightarrow> nat \<Rightarrow> Stream \<Rightarrow> (rlp_error + rval list) \<times> Stream"
and decodeArrayElems :: "nat \<Rightarrow> rtype \<Rightarrow> decoder \<Rightarrow> nat \<Rightarrow> nat \<Rightarrow> Stream \<Rightarrow> (rlp_error + rval list) \<times> Stream"
and decodeFields :: "nat \<Rightarrow> rtype \<Rightarrow> (nat \<times> decoder) list \<Rightarrow> rval list \<Rightarrow> Stream \<Rightarrow> (rlp_error + rval list) \<times> Stream"
where
  "runDecoder fuel DRawValue s = decodeRawValue s"
| "runDecoder fuel DBigInt s = (case decodeBigInt s of (r, s1) \<Rightarrow> (map_sum id (\<lambda>i. VPtr (VBig i)) r, s1))"
| "runDecoder fuel DBigIntNoPtr s = (case decodeBigInt s of (r, s1) \<Rightarrow> (map_sum id VBig r, s1))"
| "runDecoder fuel (DUint bits) s = decodeUint bits s"
| "runDecoder fuel DBool s = decodeBool s"
| "runDecoder fuel DString s = decodeString s"
| "runDecoder fuel (DByteSlice ty) s = decodeByteSlice ty s"
| "runDecoder fuel (DByteArray ty vlen) s = decodeByteArray ty vlen s"
| "runDecoder fuel (DListSlice ty d) s =
     (case decodeListSlice fuel ty d s of (r, s1) \<Rightarrow> (map_sum id VList r, s1))"
| "runDecoder fuel (DSliceElems d) s =
     (case decodeSliceElems fuel d 0 s of (r, s1) \<Rightarrow> (map_sum id VList r, s1))"
| "runDecoder fuel (DListArray ty n d) s =
     (case st_List s of
        (Inl e, s1) \<Rightarrow> (Inl (wrapStreamError e ty), s1)
      | (Inr _, s1) \<Rightarrow>
          (case decodeArrayElems fuel ty d n 0 s1 of
             (Inl e, s2) \<Rightarrow> (Inl e, s2)
           | (Inr vs, s2) \<Rightarrow>
               (case st_ListEnd s2 of
                  (Some e, s3) \<Rightarrow> (Inl (wrapStreamError e ty), s3)
                | (None, s3) \<Rightarrow> (Inr (VList vs), s3))))"
| "runDecoder fuel (DStruct ty ds) s =
     (case st_List s of
        (Inl e, s1) \<Rightarrow> (Inl (wrapStreamError e ty), s1)
      | (Inr _, s1) \<Rightarrow>
          (case decodeFields fuel ty ds (zerofields ty) s1 of
             (Inl e, s2) \<Rightarrow> (Inl e, s2)
           | (Inr vs, s2) \<Rightarrow>
               (case st_ListEnd s2 of
                  (Some e, s3) \<Rightarrow> (Inl (wrapStreamError e ty), s3)
                | (None, s3) \<Rightarrow> (Inr (structval ty vs), s3))))"
| "runDecoder fuel (DSimplePtr d) s =
     (case runDecoder fuel d s of (r, s1) \<Rightarrow> (map_sum id VPtr r, s1))"
| "runDecoder fuel (DNilPtr etype nk d) s =
     (case st_Kind s of
        (Inl e, s1) \<Rightarrow> (Inl (wrapStreamError e (TPtr etype)), s1)
      | (Inr (k, n), s1) \<Rightarrow>
          if k \<noteq> Byte \<and> n = 0 then
            (if k \<noteq> nk
             then (Inl (decodeError (''wrong kind of empty value (got '' @ Kind_String k @ '', want '' @ Kind_String nk @ '')'')
                         (TPtr etype) []), s1)
             else (Inr VNil, rearm s1))
          else (case runDecoder fuel d s1 of (r, s2) \<Rightarrow> (map_sum id VPtr r, s2)))"
| "runDecoder fuel (DInterface m) s =
     (if m \<noteq> 0 then (Inl (notSerializable (TInterface m)), s)
      else (case st_Kind s of
              (Inl e, s1) \<Rightarrow> (Inl e, s1)
            | (Inr (k, n), s1) \<Rightarrow>
                if k = List
                then (case decodeListSlice fuel ifslice (DInterface 0) s1 of
                        (r, s2) \<Rightarrow> (map_sum id (\<lambda>vs. VIface ifslice (VList vs)) r, s2))
                else (case st_Bytes s1 of (r, s2) \<Rightarrow> (map_sum id (\<lambda>b. VIface bytesliceType (VBytes b)) r, s2))))"
| "decodeListSlice fuel ty d s =
     (case st_List s of
        (Inl e, s1) \<Rightarrow> (Inl (wrapStreamError e ty), s1)
      | (Inr n, s1) \<Rightarrow>
          if n = 0 then
            (case st_ListEnd s1 of (Some e, s2) \<Rightarrow> (Inl e, s2) | (None, s2) \<Rightarrow> (Inr [], s2))
          else
            (case decodeSliceElems fuel d 0 s1 of
               (Inl e, s2) \<Rightarrow> (Inl e, s2)
             | (Inr vs, s2) \<Rightarrow>
                 (case st_ListEnd s2 of (Some e, s3) \<Rightarrow> (Inl e, s3) | (None, s3) \<Rightarrow> (Inr vs, s3))))"
| "decodeSliceElems 0 d i s = (Inl OutOfFuel, s)"
| "decodeSliceElems (Suc fuel) d i s =
     (case runDecoder fuel d s of
        (Inl e, s1) \<Rightarrow>
          if e = EOL then (Inr [], s1) else (Inl (addErrorContext e (''['' @ nat_str i @ '']'')), s1)
      | (Inr v, s1) \<Rightarrow>
          (case decodeSliceElems fuel d (Suc i) s1 of (r, s2) \<Rightarrow> (map_sum id ((#) v) r, s2)))"
| "decodeArrayElems fuel ty d 0 i s = (Inr [], s)"
| "decodeArrayElems fuel ty d (Suc n) i s =
     (case runDecoder fuel d s of
        (Inl e, s1) \<Rightarrow>
          if e = EOL then (Inl (decodeError ''input list has too few elements'' ty []), s1)
          else (Inl (addErrorContext e (''['' @ nat_str i @ '']'')), s1)
      | (Inr v, s1) \<Rightarrow>
          (case decodeArrayElems fuel ty d n (Suc i) s1 of (r, s2) \<Rightarrow> (map_sum id ((#) v) r, s2)))"
| "decodeFields fuel ty [] vs s = (Inr vs, s)"
| "decodeFields fuel ty ((i, d) # ds) vs s =
     (case runDecoder fuel d s of
        (Inl e, s1) \<Rightarrow>
          if e = EOL then (Inl (decodeError ''too few elements'' ty []), s1)
          else (Inl (addErrorContext e (''.'' @ fieldName ty i)), s1)
      | (Inr v, s1) \<Rightarrow> decodeFields fuel ty ds (vs[i := v]) s1)"
  by pat_completeness auto
termination
  by (relation "measures
    [\<lambda>x. case x of Inl (Inl (f, d, s)) \<Rightarrow> f | Inl (Inr (f, ty, d, s)) \<Rightarrow> f
       | Inr (Inl (f, d, i, s)) \<Rightarrow> f | Inr (Inr (Inl (f, ty, d, n, i, s))) \<Rightarrow> f
       | Inr (Inr (Inr (f, ty, ds, vs, s))) \<Rightarrow> f,
     \<lambda>x. case x of Inl (Inl (f, d, s)) \<Rightarrow> 3 * size d + 2 | Inl (Inr (f, ty, d, s)) \<Rightarrow> 3 * size d + 1
       | Inr (Inl (f, d, i, s)) \<Rightarrow> 3 * size d | Inr (Inr (Inl (f, ty, d, n, i, s))) \<Rightarrow> 3 * size d + 3
       | Inr (Inr (Inr (f, ty, ds, vs, s))) \<Rightarrow> 3 * size_list (size_prod (\<lambda>x. 0) size) ds,
     \<lambda>x. case x of Inr (Inr (Inl (f, ty, d, n, i, s))) \<Rightarrow> n | _ \<Rightarrow> 0]")
     (auto)

declare decodeListSlice.simps [simp del]

section \<open>Entry points\<close>

text \<open>\<open>reflect.Type.String\<close> of the modelled types, for the last entry of an error context.\<close>

fun typeString :: "rtype \<Rightarrow> string" where
  "typeString TRawValue = ''rlp.RawValue''"
| "typeString TBigInt = ''big.Int''"
| "typeString (TPtr t) = ''*'' @ typeString t"
| "typeString (TEncoder name _) = name"
| "typeString (TUint n) = ''uint'' @ nat_str n"
| "typeString TBool = ''bool''"
| "typeString TString = ''string''"
| "typeString (TSlice t) = ''[]'' @ typeString t"
| "typeString (TArray n t) = ''['' @ nat_str n @ '']'' @ typeString t"
| "typeString (TStruct name _) = name"
| "typeString (TInterface n) = ''interface {}''"
| "typeString (TOther name) = name"

text \<open>The dynamic value of the argument \<open>val\<close> of \<open>Decode\<close>.\<close>

datatype target = NilTarget | NotPointer | NilPointer rtype | PointerTo rtype

definition st_Decode :: "target \<Rightarrow> Stream \<Rightarrow> (rlp_error + rval) \<times> Stream" where
  "st_Decode val s =
     (case val of
        NilTarget \<Rightarrow> (Inl errDecodeIntoNil, s)
      | NotPointer \<Rightarrow> (Inl errNoPointer, s)
      | NilPointer ty \<Rightarrow> (Inl errDecodeIntoNil, s)
      | PointerTo ty \<Rightarrow>
          (case makeDecoder ty no_tags of
             Inl e \<Rightarrow> (Inl e, s)
           | Inr d \<Rightarrow>
               (case runDecoder (Suc (length (st_r s))) d s of
                  (Inl (decodeError msg t cs), s1) \<Rightarrow>
                    (Inl (decodeError msg t (if cs = [] then [] else cs @ [''('' @ typeString ty @ '')''])), s1)
                | (r, s1) \<Rightarrow> (r, s1))))"

text \<open>\<open>Decode\<close> from a reader that is not a byte slice reader, and \<open>DecodeBytes\<close>.\<close>

definition Decode :: "bytes \<Rightarrow> target \<Rightarrow> (rlp_error + rval) \<times> Stream" where
  "Decode r val = st_Decode val (Reset r False 0)"

definition DecodeBytes :: "bytes \<Rightarrow> target \<Rightarrow> rlp_error + rval" where
  "DecodeBytes b val =
     (case st_Decode val (Reset b True (length b)) of
        (Inl e, s) \<Rightarrow> Inl e
      | (Inr v, s) \<Rightarrow> if length (st_r s) > 0 then Inl ErrMoreThanOneValue else Inr v)"

section \<open>Decoders and writers of the same type\<close>

definition val_dec :: "decoder \<Rightarrow> bool" where
  "val_dec d = (case d of DSliceElems _ \<Rightarrow> False | _ \<Rightarrow> True)"

text \<open>A decoder of the remaining elements of a list stands last among the fields of a struct.\<close>

fun tails_last :: "(nat \<times> decoder) list \<Rightarrow> bool" where
  "tails_last [] = True"
| "tails_last ((i, d) # ds) = ((val_dec d \<or> ds = []) \<and> tails_last ds)"

text \<open>
  \<open>matches d w\<close>: the decoder and the writer belong to the same type. The integer widths are those of
  Go, and byte arrays of length 1 are left out.
\<close>

fun matches :: "decoder \<Rightarrow> writer \<Rightarrow> bool"
and matchesFields :: "(nat \<times> decoder) list \<Rightarrow> (nat \<times> writer) list \<Rightarrow> bool" where
  "matches DRawValue w = (w = WRawValue)"
| "matches DBigInt w = (w = WBigIntPtr)"
| "matches DBigIntNoPtr w = (w = WBigIntNoPtr)"
| "matches (DUint bits) w = (w = WUint \<and> 8 \<le> bits \<and> bits \<le> 64)"
| "matches DBool w = (w = WBool)"
| "matches DString w = (w = WString)"
| "matches (DByteSlice ty) w = (w = WBytes)"
| "matches (DByteArray ty n) w = (w = WByteArray \<and> n \<noteq> 1)"
| "matches (DListSlice ty d) w = (case w of WSlice b sl e \<Rightarrow> \<not> b \<and> val_dec d \<and> matches d e | _ \<Rightarrow> False)"
| "matches (DSliceElems d) w = (case w of WSlice b sl e \<Rightarrow> b \<and> val_dec d \<and> matches d e | _ \<Rightarrow> False)"
| "matches (DListArray ty n d) w = (case w of WSlice b sl e \<Rightarrow> \<not> b \<and> val_dec d \<and> matches d e | _ \<Rightarrow> False)"
| "matches (DStruct ty ds) w =
     (case w of
        WStruct ws \<Rightarrow> matchesFields ds ws \<and> (\<forall>name t. ty \<noteq> TEncoder name t)
          \<and> distinct (map fst ds) \<and> (\<forall>i \<in> set (map fst ds). i < length (zerofields ty)) \<and> tails_last ds
      | _ \<Rightarrow> False)"
| "matches (DSimplePtr d) w = (case w of WPtr k e \<Rightarrow> val_dec d \<and> matches d e | _ \<Rightarrow> False)"
| "matches (DNilPtr ty nk d) w =
     (case w of WPtr k e \<Rightarrow> k = nk \<and> val_dec d \<and> matches d e | _ \<Rightarrow> False)"
| "matches (DInterface m) w = (w = WInterface \<and> m = 0)"
| "matchesFields [] ws = (ws = [])"
| "matchesFields ((i, d) # ds) ws = (case ws of (j, w) # ws' \<Rightarrow> i = j \<and> matches d w \<and> matchesFields ds ws' | [] \<Rightarrow> False)"

section \<open>The end of a list\<close>

lemma wrapStreamError_EOL [simp]: "wrapStreamError e ty = EOL \<longleftrightarrow> e = EOL"
  by (cases e) (simp_all add: wrapStreamError_def)

lemma addErrorContext_EOL [simp]: "addErrorContext e c = EOL \<longleftrightarrow> e = EOL"
  by (cases e) (simp_all add: addErrorContext_def)

lemma decodeSliceElems_not_EOL: "decodeSliceElems fuel d i s \<noteq> (Inl EOL, s')"
proof (induction fuel arbitrary: i s s')
  case (Suc fuel)
  then show ?case by (auto split: prod.splits sum.splits if_splits simp: map_sum_def)
qed simp

lemma decodeArrayElems_not_EOL: "decodeArrayElems fuel ty d n i s \<noteq> (Inl EOL, s')"
proof (induction n arbitrary: i s s')
  case (Suc n)
  then show ?case by (auto split: prod.splits sum.splits if_splits simp: map_sum_def)
qed simp

lemma decodeFields_not_EOL: "decodeFields fuel ty ds vs s \<noteq> (Inl EOL, s')"
proof (induction ds arbitrary: vs s s')
  case (Cons f ds)
  then show ?case by (cases f) (auto split: prod.splits sum.splits if_splits)
qed simp

lemma st_ListEnd_error: "st_ListEnd s = (Some e, s') \<Longrightarrow> e \<in> {errNotInList, errNotAtEOL}"
  by (auto simp: st_ListEnd_def split: list.splits if_splits)

lemma decodeListSlice_EOL: "decodeListSlice fuel ty d s = (Inl EOL, s') \<Longrightarrow> st_List s = (Inl EOL, s')"
  by (auto split: prod.splits sum.splits if_splits option.splits
      simp: decodeListSlice.simps decodeSliceElems_not_EOL dest!: st_ListEnd_error)

lemma runDecoder_kind_first:
  assumes "idle s" "st_Kind s = (Inr kn, s1)" "val_dec d" "matches d w" "runDecoder fuel d s = r"
  shows "runDecoder fuel d s1 = r"
  using assms(3-)
  by (induction d arbitrary: w r)
    (auto simp: kind_first [OF assms(1,2)] assms(2) decodeRawValue_def decodeBigInt_def decodeUint_def
      decodeBool_def decodeString_def decodeByteSlice_def decodeByteArray_def decodeListSlice.simps val_dec_def
      split: writer.splits prod.splits)

lemma decoder_EOL:
  assumes "idle s" "val_dec d" "matches d w" "runDecoder fuel d s = (Inl EOL, s')"
  shows "at_end s \<and> core s' = core s \<and> idle s'"
  using assms(2-)
proof (induction d arbitrary: w s')
  case (DSimplePtr d)
  then show ?case by (auto simp: map_sum_def val_dec_def split: writer.splits prod.splits sum.splits)
next
  case (DNilPtr ty nk d)
  show ?case
  proof (cases "st_Kind s")
    case (Pair k s1)
    show ?thesis
    proof (cases k)
      case (Inl e)
      with Pair DNilPtr.prems st_Kind_EOL [OF assms(1)] show ?thesis by auto
    next
      case (Inr kn)
      with Pair have k: "st_Kind s = (Inr kn, s1)" by simp
      obtain e where e: "w = WPtr nk e" "val_dec d" "matches d e"
        using DNilPtr.prems by (auto split: writer.splits)
      from DNilPtr.prems k have "runDecoder fuel d s1 = (Inl EOL, s')"
        by (auto simp: map_sum_def split: prod.splits sum.splits if_splits)
      moreover obtain q t where q: "runDecoder fuel d s = (q, t)" by fastforce
      ultimately have "q = Inl EOL" using runDecoder_kind_first [OF assms(1) k e(2,3) q] by simp
      with q DNilPtr.IH e have "at_end s" by blast
      with k assms(1) show ?thesis by (simp add: st_Kind_at_end)
    qed
  qed
next
  case (DInterface m)
  show ?case
  proof (cases "st_Kind s")
    case (Pair k s1)
    show ?thesis
    proof (cases k)
      case (Inl e)
      with Pair DInterface.prems st_Kind_EOL [OF assms(1)] show ?thesis by auto
    next
      case (Inr kn)
      with Pair have k: "st_Kind s = (Inr kn, s1)" by simp
      have "\<not> at_end s" using k assms(1) by (auto simp: st_Kind_at_end)
      then have no: "st_Bytes s \<noteq> (Inl EOL, t)" "st_List s \<noteq> (Inl EOL, t)" for t
        using st_EOL [OF assms(1)] by auto
      have nl: "decodeListSlice fuel ifslice (DInterface 0) s1 \<noteq> (Inl EOL, t)" for t
        using decodeListSlice_EOL [of fuel ifslice "DInterface 0" s1 t] kind_first [OF assms(1) k] no by auto
      obtain kk n where kn: "kn = (kk, n)" by fastforce
      have False
      proof (cases "kk = List")
        case True
        with DInterface.prems k kn have "decodeListSlice fuel ifslice (DInterface 0) s1 = (Inl EOL, s')"
          by (auto simp: map_sum_def split: prod.splits sum.splits)
        with nl show False by blast
      next
        case False
        with DInterface.prems k kn have "st_Bytes s1 = (Inl EOL, s')"
          by (auto simp: map_sum_def split: prod.splits sum.splits)
        with no kind_first(2) [OF assms(1) k] show False by metis
      qed
      then show ?thesis ..
    qed
  qed
next
  case (DByteArray ty n)
  then show ?case using st_Kind_EOL [OF assms(1)]
    by (auto simp: decodeByteArray_def split: prod.splits sum.splits Kind.splits if_splits dest!: readFull_error)
next
  case (DListSlice ty d)
  then show ?case using st_EOL(5) [OF assms(1)] decodeListSlice_EOL [of fuel ty d s]
    by (auto simp: map_sum_def split: prod.splits sum.splits)
next
  case (DListArray ty n d)
  then show ?case using st_EOL(5) [OF assms(1)]
    by (auto split: prod.splits sum.splits option.splits simp: decodeArrayElems_not_EOL dest!: st_ListEnd_error)
next
  case (DStruct ty ds)
  then show ?case using st_EOL(5) [OF assms(1)]
    by (auto split: prod.splits sum.splits option.splits simp: decodeFields_not_EOL dest!: st_ListEnd_error)
qed (auto simp: decodeRawValue_def decodeBigInt_def decodeUint_def decodeBool_def decodeString_def
    decodeByteSlice_def val_dec_def map_sum_def split: prod.splits sum.splits if_splits
    dest: st_EOL [OF assms(1)])

section \<open>Whatever is accepted is the encoding of the result\<close>

lemma enc_list_kind: "enc_list p = kind_head List (length p) @ p"
  by (simp add: enc_list_def kind_head_def)

text \<open>\<open>decodes d w s v s'\<close>: the value \<open>v\<close> was read from its encoding.\<close>

definition consumed :: "(rlp_error + bytes) \<Rightarrow> Stream \<Rightarrow> Stream \<Rightarrow> bool" where
  "consumed enc s s' \<longleftrightarrow> (\<exists>bs. enc = Inr bs \<and> reads s bs s') \<and> idle s'"

lemma decodeUint_sound:
  assumes "idle s" "8 \<le> bits" "bits \<le> 64" "decodeUint bits s = (Inr v, s')"
  shows "consumed (refWriter ad WUint v) s s'"
proof -
  obtain n where n: "st_uint bits s = (Inr n, s')" "v = VUint (word_of_nat n)"
    using assms(4) by (auto simp: decodeUint_def split: prod.splits sum.splits)
  note u = st_uint_sound [OF assms(1) n(1) assms(2)]
  have "length (nat_to_be n) \<le> 8" using u assms(3) by linarith
  then have "256 ^ length (nat_to_be n) \<le> (256 :: nat) ^ 8" by (intro power_increasing) auto
  with be_to_nat_bound [of "nat_to_be n"] have "n < 2 ^ 64" by simp
  with u n show ?thesis by (simp add: consumed_def)
qed

lemma decodeBigInt_sound:
  assumes "idle s" "decodeBigInt s = (Inr i, s')"
  shows "0 \<le> i \<and> reads s (enc_str (nat_to_be (nat i))) s' \<and> idle s'"
proof -
  obtain b where b: "st_Bytes s = (Inr b, s')" "i = int (be_to_nat b)" "b = [] \<or> b ! 0 \<noteq> 0"
    using assms(2) by (auto simp: decodeBigInt_def split: prod.splits sum.splits if_splits)
  from b(3) have "b = [] \<or> hd b \<noteq> 0" by (cases b) auto
  with b st_Bytes_sound [OF assms(1) b(1)] show ?thesis by (simp add: nat_to_be_be_to_nat)
qed

lemma decodeByteArray_sound:
  assumes "idle s" "n \<noteq> 1" "decodeByteArray ty n s = (Inr v, s')"
  shows "consumed (refWriter ad WByteArray v) s s'"
proof -
  obtain m s1 b where k: "st_Kind s = (Inr (String, m), s1)" and b: "readFull n s1 = (Inr b, s')" "v = VBytes b"
    and m: "m = n"
    using assms(2,3) by (auto simp: decodeByteArray_def split: prod.splits sum.splits Kind.splits if_splits)
  note kind = st_Kind_sound [OF assms(1) k]
  note r = readFull_reads [OF b(1)]
  have "\<not> single b" using r assms(2) by (simp add: single_def)
  with kind(1) r b(2) m show ?thesis
    by (auto simp: consumed_def kind_head_string tag_bytes_def intro: reads_trans)
qed

lemma list_sound:
  assumes "idle s" "st_List s = (Inr n, s1)" "consumed enc s1 s2" "st_ListEnd s2 = (None, s3)"
  shows "consumed (map_sum id enc_list enc) s s3"
proof -
  obtain t where t: "reads s (kind_head List n) t" "core s1 = core (push_list n t)" "declared_ok n t"
    using st_List_sound [OF assms(1,2)] by blast
  obtain p where p: "enc = Inr p" "reads s1 p s2" using assms(3) by (auto simp: consumed_def)
  from list_frame_sound [OF t(2,3) p(2) assms(4)] t(1) p show ?thesis
    by (auto simp: consumed_def enc_list_kind intro: reads_trans)
qed

lemma consumed_Nil: "idle s' \<Longrightarrow> core s' = core s \<Longrightarrow> consumed (Inr []) s s'"
  by (simp add: consumed_def)

lemma nil_sound:
  assumes "idle s" "st_Kind s = (Inr (k, 0), s1)" "k \<noteq> Byte"
  shows "consumed (Inr (if k = String then enc_str [] else enc_list [])) s (rearm s1)"
proof -
  note kind = st_Kind_sound [OF assms(1,2)]
  have "tag_bytes k 0 (st_byteval s1) = (if k = String then enc_str [] else enc_list [])"
    using assms(3) by (cases k) (simp_all add: tag_bytes_def kind_head_def enc_str_def enc_list_def)
  with kind(1) reads_core [OF kind(1) refl, of "rearm s1"] show ?thesis
    by (simp add: consumed_def idle_def rearm_def)
qed

lemma interface_writers:
  "makeWriter ifslice no_tags = Inr (WSlice False True WInterface)" "makeWriter bytesliceType no_tags = Inr WBytes"
  by (simp_all add: ifslice_def bytesliceType_def isByte_def no_tags_def)

text \<open>\<open>sound_at fuel d w\<close>: with this fuel, \<open>d\<close> accepts only what \<open>w\<close> writes.\<close>

definition sound_at :: "nat \<Rightarrow> decoder \<Rightarrow> writer \<Rightarrow> bool" where
  "sound_at fuel d w \<longleftrightarrow>
     (\<forall>ad s v s'. idle s \<longrightarrow> runDecoder fuel d s = (Inr v, s') \<longrightarrow> consumed (refWriter ad w v) s s')"

lemma sound_atD:
  "sound_at fuel d w \<Longrightarrow> idle s \<Longrightarrow> runDecoder fuel d s = (Inr v, s') \<Longrightarrow> consumed (refWriter ad w v) s s'"
  by (simp add: sound_at_def)

lemma consumed_append:
  assumes "consumed a s s1" "consumed b s1 s2"
  shows "consumed (case a of Inl e \<Rightarrow> Inl e | Inr x \<Rightarrow> map_sum id ((@) x) b) s s2"
  using assms by (auto simp: consumed_def intro: reads_trans)

lemma sliceElems_sound:
  assumes "\<And>f. f < fuel \<Longrightarrow> sound_at f d e" "idle s" "matches d e" "val_dec d"
    "decodeSliceElems fuel d i s = (Inr vs, s')"
  shows "consumed (refElems ad e vs) s s'"
  using assms(1,2,5)
proof (induction fuel arbitrary: i s vs)
  case (Suc fuel)
  obtain r s1 where r: "runDecoder fuel d s = (r, s1)" by fastforce
  show ?case
  proof (cases r)
    case (Inl err)
    with Suc.prems r have "err = EOL" "vs = []" "s' = s1" by (auto split: if_splits)
    with decoder_EOL [OF Suc.prems(2) assms(4,3)] r Inl show ?thesis by (auto intro: consumed_Nil)
  next
    case (Inr v)
    with Suc.prems r obtain us where us: "decodeSliceElems fuel d (Suc i) s1 = (Inr us, s')" "vs = v # us"
      by (auto simp: map_sum_def split: prod.splits sum.splits)
    have v: "consumed (refWriter ad e v) s s1"
      using Suc.prems(1) [of fuel] Suc.prems(2) r Inr by (auto dest: sound_atD)
    then have "idle s1" by (simp add: consumed_def)
    with Suc.IH [OF _ this us(1)] Suc.prems(1) have "consumed (refElems ad e us) s1 s'" by simp
    with consumed_append [OF v this] us(2) show ?thesis by simp
  qed
qed simp

lemma listSlice_sound:
  assumes "\<And>f. f < fuel \<Longrightarrow> sound_at f d e" "idle s" "matches d e" "val_dec d"
    "decodeListSlice fuel ty d s = (Inr vs, s')"
  shows "consumed (map_sum id enc_list (refElems ad e vs)) s s'"
proof -
  obtain n s1 where s1: "st_List s = (Inr n, s1)"
    using assms(5) by (auto simp: decodeListSlice.simps split: prod.splits sum.splits)
  have idl: "idle s1" using st_List_sound [OF assms(2) s1] by blast
  show ?thesis
  proof (cases "n = 0")
    case True
    with assms(5) s1 have "st_ListEnd s1 = (None, s')" "vs = []"
      by (auto simp: decodeListSlice.simps split: prod.splits option.splits)
    with list_sound [OF assms(2) s1 consumed_Nil [OF idl refl]] show ?thesis by simp
  next
    case False
    with assms(5) s1 obtain s2 where s2: "decodeSliceElems fuel d 0 s1 = (Inr vs, s2)" "st_ListEnd s2 = (None, s')"
      by (auto simp: decodeListSlice.simps split: prod.splits sum.splits option.splits)
    from sliceElems_sound [OF assms(1) idl assms(3,4) s2(1)] have "consumed (refElems ad e vs) s1 s2" .
    from list_sound [OF assms(2) s1 this s2(2)] show ?thesis .
  qed
qed

lemma arrayElems_sound:
  assumes "sound_at fuel d e" "idle s" "decodeArrayElems fuel ty d n i s = (Inr vs, s')"
  shows "consumed (refElems ad e vs) s s' \<and> length vs = n"
  using assms(2,3)
proof (induction n arbitrary: i s vs)
  case 0
  then show ?case by (auto intro: consumed_Nil)
next
  case (Suc n)
  from Suc.prems obtain v s1 us where v: "runDecoder fuel d s = (Inr v, s1)"
    "decodeArrayElems fuel ty d n (Suc i) s1 = (Inr us, s')" "vs = v # us"
    by (auto simp: map_sum_def split: prod.splits sum.splits if_splits)
  have c: "consumed (refWriter ad e v) s s1" using sound_atD [OF assms(1) Suc.prems(1) v(1)] .
  then have "idle s1" by (simp add: consumed_def)
  with Suc.IH v(2) have "consumed (refElems ad e us) s1 s' \<and> length us = n" by blast
  with consumed_append [OF c, of "refElems ad e us" s'] v(3) show ?case by simp
qed

lemma fields_sound:
  assumes "\<And>i d e. (i, d) \<in> set ds \<Longrightarrow> matches d e \<Longrightarrow> sound_at fuel d e"
    "idle s" "matchesFields ds ws" "distinct (map fst ds)" "\<forall>i \<in> set (map fst ds). i < length us"
    "decodeFields fuel ty ds us s = (Inr vs, s')"
  shows "consumed (refFields ad ws vs) s s' \<and> length vs = length us
      \<and> (\<forall>j. j \<notin> set (map fst ds) \<longrightarrow> vs ! j = us ! j)"
  using assms
proof (induction ds arbitrary: ws us s)
  case Nil
  then show ?case by (auto intro: consumed_Nil)
next
  case (Cons f ds)
  obtain i d where f: "f = (i, d)" by fastforce
  with Cons.prems obtain e ws' where ws: "ws = (i, e) # ws'" "matches d e" "matchesFields ds ws'"
    by (auto split: list.splits)
  from Cons.prems f obtain v s1 where v: "runDecoder fuel d s = (Inr v, s1)"
    "decodeFields fuel ty ds (us[i := v]) s1 = (Inr vs, s')"
    by (auto split: prod.splits sum.splits if_splits)
  have c: "consumed (refWriter ad e v) s s1"
    using Cons.prems(1) [of i d e] Cons.prems(2) f ws(2) v(1) by (auto dest: sound_atD)
  then have "idle s1" by (simp add: consumed_def)
  with Cons.IH [of s1 ws' "us[i := v]"] Cons.prems f ws v(2)
  have IH: "consumed (refFields ad ws' vs) s1 s'" "length vs = length us"
    "\<forall>j. j \<notin> set (map fst ds) \<longrightarrow> vs ! j = us[i := v] ! j" by auto
  moreover have "vs ! i = v" "i < length vs" using IH Cons.prems(4,5) f by auto
  ultimately show ?case using consumed_append [OF c IH(1)] ws(1) f by (auto simp: nth_list_update)
qed

lemma listArray_sound:
  assumes "sound_at fuel d e"
  shows "sound_at fuel (DListArray ty n d) (WSlice False sl e)"
  unfolding sound_at_def
proof (intro allI impI)
  fix ad s v s' assume s: "idle s" "runDecoder fuel (DListArray ty n d) s = (Inr v, s')"
  then obtain m s1 vs s2 where s1: "st_List s = (Inr m, s1)"
    and s2: "decodeArrayElems fuel ty d n 0 s1 = (Inr vs, s2)"
    and v: "st_ListEnd s2 = (None, s')" "v = VList vs"
    by (auto split: prod.splits sum.splits option.splits)
  have "idle s1" using st_List_sound [OF s(1) s1] by blast
  with arrayElems_sound [OF assms _ s2] have "consumed (refElems (sl \<or> ad) e vs) s1 s2" by blast
  from list_sound [OF s(1) s1 this v(1)] v(2) show "consumed (refWriter ad (WSlice False sl e) v) s s'" by simp
qed

lemma struct_sound:
  assumes "\<And>i d e. (i, d) \<in> set ds \<Longrightarrow> matches d e \<Longrightarrow> sound_at fuel d e" "matches (DStruct ty ds) w"
  shows "sound_at fuel (DStruct ty ds) w"
proof -
  obtain ws where ws: "w = WStruct ws" "matchesFields ds ws" "\<forall>name t. ty \<noteq> TEncoder name t"
    "distinct (map fst ds)" "\<forall>i \<in> set (map fst ds). i < length (zerofields ty)"
    using assms(2) by (auto split: writer.splits)
  show ?thesis unfolding sound_at_def
  proof (intro allI impI)
    fix ad s v s' assume s: "idle s" "runDecoder fuel (DStruct ty ds) s = (Inr v, s')"
    then obtain m s1 vs s2 where s1: "st_List s = (Inr m, s1)"
      and s2: "decodeFields fuel ty ds (zerofields ty) s1 = (Inr vs, s2)"
      and v: "st_ListEnd s2 = (None, s')" "v = structval ty vs"
      by (auto split: prod.splits sum.splits option.splits)
    have "idle s1" using st_List_sound [OF s(1) s1] by blast
    then have "consumed (refFields ad ws vs) s1 s2"
      using fields_sound [of ds fuel s1 ws "zerofields ty" ty vs s2] assms(1) ws s2 by blast
    moreover have "v = VStruct vs" using v(2) ws(3) by (simp add: structval_def split: rtype.splits)
    ultimately show "consumed (refWriter ad w v) s s'" using list_sound [OF s(1) s1 _ v(1)] ws(1) by simp
  qed
qed

lemma nilPtr_sound:
  assumes "sound_at fuel d e" "val_dec d" "matches d e"
  shows "sound_at fuel (DNilPtr ty nk d) (WPtr nk e)"
  unfolding sound_at_def
proof (intro allI impI)
  fix ad s v s' assume s: "idle s" "runDecoder fuel (DNilPtr ty nk d) s = (Inr v, s')"
  then obtain k m s1 where k: "st_Kind s = (Inr (k, m), s1)" by (auto split: prod.splits sum.splits)
  show "consumed (refWriter ad (WPtr nk e) v) s s'"
  proof (cases "k \<noteq> Byte \<and> m = 0")
    case True
    with s k have "k = nk" "v = VNil" "s' = rearm s1" by (auto split: if_splits)
    with nil_sound [of s k s1] True s k show ?thesis by (auto split: if_splits)
  next
    case False
    with s k obtain u where u: "runDecoder fuel d s1 = (Inr u, s')" "v = VPtr u"
      by (auto simp: map_sum_def split: prod.splits sum.splits if_splits)
    then have "runDecoder fuel d s = (Inr u, s')"
      using runDecoder_kind_first [OF s(1) k assms(2,3) refl] by metis
    from sound_atD [OF assms(1) s(1) this] u show ?thesis by simp
  qed
qed

lemma interface_sound:
  assumes "\<And>f. f < fuel \<Longrightarrow> sound_at f (DInterface 0) WInterface"
  shows "sound_at fuel (DInterface 0) WInterface"
  unfolding sound_at_def
proof (intro allI impI)
  fix ad s v s' assume s: "idle s" "runDecoder fuel (DInterface 0) s = (Inr v, s')"
  then obtain k n s1 where k: "st_Kind s = (Inr (k, n), s1)" by (auto split: prod.splits sum.splits)
  show "consumed (refWriter ad WInterface v) s s'"
  proof (cases "k = List")
    case True
    with s k obtain vs where vs: "decodeListSlice fuel ifslice (DInterface 0) s1 = (Inr vs, s')"
      "v = VIface ifslice (VList vs)"
      by (auto simp: map_sum_def split: prod.splits sum.splits)
    then have "decodeListSlice fuel ifslice (DInterface 0) s = (Inr vs, s')"
      by (simp add: decodeListSlice.simps kind_first [OF s(1) k])
    then have "consumed (map_sum id enc_list (refElems True WInterface vs)) s s'"
      using listSlice_sound [of fuel "DInterface 0" WInterface s ifslice vs s'] s(1) assms by (simp add: val_dec_def)
    with vs show ?thesis by (simp add: interface_writers)
  next
    case False
    with s k obtain b where b: "st_Bytes s1 = (Inr b, s')" "v = VIface bytesliceType (VBytes b)"
      by (auto simp: map_sum_def split: prod.splits sum.splits)
    with st_Bytes_sound [OF s(1)] show ?thesis
      by (simp add: kind_first [OF s(1) k] interface_writers consumed_def)
  qed
qed

lemma decoder_sound: "matches d w \<Longrightarrow> sound_at fuel d w"
proof (induction fuel arbitrary: d w rule: less_induct)
  case (less fuel)
  from less.prems show ?case
  proof (induction d arbitrary: w)
    case DRawValue
    then show ?case
      by (auto simp: sound_at_def decodeRawValue_def consumed_def map_sum_def
          split: prod.splits sum.splits dest: st_Raw_sound)
  next
    case DBigInt
    then show ?case
      by (auto simp: sound_at_def consumed_def map_sum_def split: prod.splits sum.splits dest: decodeBigInt_sound)
  next
    case DBigIntNoPtr
    then show ?case
      by (auto simp: sound_at_def consumed_def map_sum_def split: prod.splits sum.splits dest: decodeBigInt_sound)
  next
    case DBool
    then show ?case using st_Bool_sound
      by (auto simp: sound_at_def decodeBool_def consumed_def split: prod.splits sum.splits)
  next
    case DString
    then show ?case using st_Bytes_sound
      by (auto simp: sound_at_def decodeString_def consumed_def split: prod.splits sum.splits)
  next
    case (DUint bits)
    then show ?case by (auto simp: sound_at_def dest: decodeUint_sound)
  next
    case (DByteSlice ty)
    then show ?case using st_Bytes_sound
      by (fastforce simp: sound_at_def decodeByteSlice_def consumed_def split: prod.splits sum.splits)
  next
    case (DByteArray ty n)
    then show ?case by (auto simp: sound_at_def dest: decodeByteArray_sound)
  next
    case (DListSlice ty d)
    then obtain sl e where e: "w = WSlice False sl e" "val_dec d" "matches d e" by (auto split: writer.splits)
    with less.IH [of _ d e] listSlice_sound [of fuel d e _ ty] show ?case
      by (auto simp: sound_at_def map_sum_def split: prod.splits sum.splits)
  next
    case (DSliceElems d)
    then obtain sl e where e: "w = WSlice True sl e" "val_dec d" "matches d e" by (auto split: writer.splits)
    with less.IH [of _ d e] sliceElems_sound [of fuel d e _ 0] show ?case
      by (auto simp: sound_at_def map_sum_def split: prod.splits sum.splits)
  next
    case (DListArray ty n d)
    then show ?case by (auto intro: listArray_sound split: writer.splits bool.splits)
  next
    case (DStruct ty ds)
    show ?case by (rule struct_sound [OF _ DStruct.prems]) (rule DStruct.IH, auto)
  next
    case (DSimplePtr d)
    then show ?case
      by (auto simp: sound_at_def map_sum_def split: prod.splits sum.splits writer.splits)
  next
    case (DNilPtr ty nk d)
    then show ?case by (auto intro: nilPtr_sound split: writer.splits)
  next
    case (DInterface m)
    with less.IH [of _ "DInterface 0" WInterface] show ?case by (auto intro: interface_sound)
  qed
qed

section \<open>Decoders keep the stream consistent\<close>

lemmas stream_snd_ok = st_Kind_ok [OF prod.collapse [symmetric]] st_Bytes_ok [OF prod.collapse [symmetric]]
  st_Raw_ok [OF prod.collapse [symmetric]] st_uint_ok [OF prod.collapse [symmetric]]
  st_Bool_ok [OF prod.collapse [symmetric]] st_List_ok [OF prod.collapse [symmetric]]
  st_ListEnd_ok [OF prod.collapse [symmetric]] conjunct1 [OF readFull_ok [OF prod.collapse [symmetric]]]

lemma decode_prims_ok:
  assumes "stream_ok s"
  shows "stream_ok (snd (decodeRawValue s))" "stream_ok (snd (decodeUint bits s))" "stream_ok (snd (decodeBool s))"
    "stream_ok (snd (decodeString s))" "stream_ok (snd (decodeBigInt s))" "stream_ok (snd (decodeByteSlice ty s))"
    "stream_ok (snd (decodeByteArray ty n s))"
  by (simp_all add: decodeRawValue_def decodeUint_def decodeBool_def decodeString_def decodeBigInt_def
      decodeByteSlice_def decodeByteArray_def split_beta stream_snd_ok assms split: sum.split Kind.split)

definition keeps_ok :: "nat \<Rightarrow> decoder \<Rightarrow> bool" where
  "keeps_ok fuel d \<longleftrightarrow> (\<forall>s. stream_ok s \<longrightarrow> stream_ok (snd (runDecoder fuel d s)))"

lemma keeps_okD: "keeps_ok fuel d \<Longrightarrow> stream_ok s \<Longrightarrow> stream_ok (snd (runDecoder fuel d s))"
  by (simp add: keeps_ok_def)

lemma sliceElems_ok:
  "(\<And>f. f < fuel \<Longrightarrow> keeps_ok f d) \<Longrightarrow> stream_ok s \<Longrightarrow> stream_ok (snd (decodeSliceElems fuel d i s))"
proof (induction fuel arbitrary: i s)
  case (Suc fuel)
  then show ?case by (simp add: keeps_ok_def split_beta split: sum.split)
qed simp

lemma listSlice_ok:
  "(\<And>f. f < fuel \<Longrightarrow> keeps_ok f d) \<Longrightarrow> stream_ok s \<Longrightarrow> stream_ok (snd (decodeListSlice fuel ty d s))"
  by (simp add: decodeListSlice.simps split_beta stream_snd_ok sliceElems_ok split: sum.split option.split)

lemma arrayElems_ok:
  "keeps_ok fuel d \<Longrightarrow> stream_ok s \<Longrightarrow> stream_ok (snd (decodeArrayElems fuel ty d n i s))"
  by (induction n arbitrary: i s) (simp_all add: keeps_ok_def split_beta split: sum.split)

lemma fields_ok:
  "(\<And>i d. (i, d) \<in> set ds \<Longrightarrow> keeps_ok fuel d) \<Longrightarrow> stream_ok s \<Longrightarrow> stream_ok (snd (decodeFields fuel ty ds vs s))"
proof (induction ds arbitrary: vs s)
  case (Cons f ds)
  obtain i d where f: "f = (i, d)" by fastforce
  with Cons.prems have "keeps_ok fuel d" by auto
  moreover have "stream_ok (snd (decodeFields fuel ty ds us t))" if "stream_ok t" for us t
    using Cons.IH [OF _ that] Cons.prems(1) by auto
  ultimately show ?case using Cons.prems(2) f by (simp add: keeps_okD split_beta split: sum.split)
qed simp

lemma runDecoder_ok: "keeps_ok fuel d"
proof (induction fuel arbitrary: d rule: less_induct)
  case (less fuel)
  show ?case
  proof (induction d)
    case (DStruct ty ds)
    then have "keeps_ok fuel d" if "(i, d) \<in> set ds" for i d using that by auto
    from fields_ok [OF this] show ?case
      by (simp add: keeps_ok_def split_beta stream_snd_ok split: sum.split option.split)
  next
    case (DListArray ty n d)
    then show ?case
      by (simp add: keeps_ok_def split_beta stream_snd_ok arrayElems_ok [unfolded keeps_ok_def] split: sum.split option.split)
  next
    case (DNilPtr ty nk d)
    then show ?case by (simp add: keeps_ok_def split_beta stream_snd_ok rearm_ok split: sum.split)
  next
    case (DInterface m)
    show ?case unfolding keeps_ok_def
      by (simp add: split_beta stream_snd_ok listSlice_ok less.IH split: sum.split)
  qed (simp_all add: keeps_ok_def [of fuel] decode_prims_ok listSlice_ok sliceElems_ok less.IH split_beta)
qed

lemma st_Decode_ok: "stream_ok s \<Longrightarrow> stream_ok (snd (st_Decode val s))"
  by (simp add: st_Decode_def keeps_okD [OF runDecoder_ok] split_beta split: target.split sum.split rlp_error.split)

end
