(* ===== verification/RlpCodec.thy ===== *)
theory RlpCodec
  imports RlpDecode
begin

text \<open>
  Encoding and decoding together: the writer and the decoder that the type cache holds for one type
  agree on the format. Every input that \<open>DecodeBytes\<close> accepts is the encoding of the value it
  returns, every value that the format can represent comes back from its encoding, and the number of
  input bytes bounds the fuel. Byte arrays of length 1 are the exception, treated in a section of their own.
\<close>

section \<open>The writer and the decoder of a type\<close>

text \<open>
  The types covered: unsigned integers of Go's widths, no byte array of length 1, no interface with
  methods, and no type with its own \<open>EncodeRLP\<close>.
\<close>

fun codec_type :: "rtype \<Rightarrow> bool" where
  "codec_type (TPtr t) = codec_type t"
| "codec_type (TEncoder _ _) = False"
| "codec_type (TUint n) = (8 \<le> n \<and> n \<le> 64)"
| "codec_type (TSlice t) = codec_type t"
| "codec_type (TArray n t) = (codec_type t \<and> (isByte t \<longrightarrow> n \<noteq> 1))"
| "codec_type (TStruct _ fs) = list_all (\<lambda>f. codec_type (snd (snd (snd f)))) fs"
| "codec_type (TInterface n) = (n = 0)"
| "codec_type _ = True"

lemma parseTagWords_tail_slice:
  "parseTagWords ty f fi l ws ts = Inr ts' \<Longrightarrow> tail ts' \<Longrightarrow> tail ts \<or> isSliceKind (snd (snd (snd f)))"
  by (induction ty f fi l ws ts rule: parseTagWords.induct)
     (auto simp: Let_def split: if_splits prod.splits)

lemma parseStructTag_tail_slice:
  "parseStructTag ty (a, b, c, t) fi l = Inr ts \<Longrightarrow> tail ts \<Longrightarrow> isSliceKind t"
  unfolding parseStructTag_def by (drule parseTagWords_tail_slice) (auto simp: no_tags_def)

lemma no_tail [simp]: "\<not> tail no_tags"
  by (simp add: no_tags_def)

lemma lastPublicField_from_ge:
  "lst \<le> lastPublicField_from i lst fs \<or> i \<le> lastPublicField_from i lst fs"
  by (induction i lst fs rule: lastPublicField_from.induct) auto

lemma lastPublicField_from_bound:
  "k < length fs \<Longrightarrow> fst (snd (snd (fs ! k))) \<Longrightarrow> lst \<le> i \<Longrightarrow> i + k \<le> lastPublicField_from i lst fs"
proof (induction fs arbitrary: i lst k)
  case (Cons f fs)
  obtain a b ex t where f: "f = (a, b, ex, t)" by (metis prod_cases4)
  show ?case
  proof (cases k)
    case 0
    then show ?thesis using Cons.prems f lastPublicField_from_ge [of i "Suc i" fs] by auto
  next
    case (Suc j)
    then show ?thesis using Cons.IH [of j "if ex then i else lst" "Suc i"] Cons.prems f by auto
  qed
qed simp

lemma makeFieldDecoders_unexported:
  "\<forall>k < length fs. \<not> fst (snd (snd (fs ! k))) \<Longrightarrow> makeFieldDecoders ty l i fs = Inr ds \<Longrightarrow> ds = []"
proof (induction fs arbitrary: i)
  case (Cons f fs)
  obtain a b ex t where f: "f = (a, b, ex, t)" by (metis prod_cases4)
  have "\<not> ex" using Cons.prems(1) f by (metis fst_conv length_greater_0_conv list.distinct(1) nth_Cons_0 snd_conv)
  moreover have "\<forall>k < length fs. \<not> fst (snd (snd (fs ! k)))" using Cons.prems(1) by auto
  ultimately show ?case using Cons.IH Cons.prems(2) f by auto
qed simp

lemma makeDecoder_val_dec: "makeDecoder t ts = Inr d \<Longrightarrow> tail ts \<or> val_dec d"
  by (induction t ts rule: makeDecoder_makeFieldDecoders.induct(1) [where Q = "\<lambda>_ _ _ _. True"])
     (auto simp: val_dec_def split: sum.splits if_splits)

lemma makeFieldDecoders_tails_last:
  "\<forall>k < length fs. fst (snd (snd (fs ! k))) \<longrightarrow> i + k \<le> l \<Longrightarrow> makeFieldDecoders ty l i fs = Inr ds \<Longrightarrow> tails_last ds"
proof (induction fs arbitrary: i ds)
  case (Cons f fs)
  obtain a b ex t where f: "f = (a, b, ex, t)" by (metis prod_cases4)
  have later: "\<forall>k < length fs. fst (snd (snd (fs ! k))) \<longrightarrow> Suc i + k \<le> l"
    using Cons.prems(1) by fastforce
  from Cons.prems(2) f consider (skip) "makeFieldDecoders ty l (Suc i) fs = Inr ds"
    | (field) ts d ds' where "parseStructTag ty f i l = Inr ts" "makeDecoder t ts = Inr d"
        "makeFieldDecoders ty l (Suc i) fs = Inr ds'" "ds = (i, d) # ds'"
    by (auto split: sum.splits if_splits)
  then show ?case
  proof cases
    case skip
    with Cons.IH later show ?thesis by blast
  next
    case field
    have "val_dec d \<or> ds' = []"
    proof (cases "tail ts")
      case True
      then have "i = l" using field(1) parseStructTag_tail_last by blast
      with later have "\<forall>k < length fs. \<not> fst (snd (snd (fs ! k)))" by fastforce
      with makeFieldDecoders_unexported field(3) show ?thesis by blast
    next
      case False
      with makeDecoder_val_dec field(2) show ?thesis by blast
    qed
    with Cons.IH [OF later field(3)] field(4) show ?thesis by simp
  qed
qed simp

lemma struct_tails_last: "makeFieldDecoders ty (lastPublicField fs) 0 fs = Inr ds \<Longrightarrow> tails_last ds"
  by (rule makeFieldDecoders_tails_last) (auto simp: lastPublicField_def lastPublicField_from_bound [of _ _ 0 0, simplified])

lemma make_matches:
  "codec_type ty \<Longrightarrow> (tail ts \<longrightarrow> isSliceKind ty) \<Longrightarrow> makeDecoder ty ts = Inr d \<Longrightarrow>
     (\<exists>w. makeWriter ty ts = Inr w \<and> matches d w) \<and> (tail ts \<or> val_dec d)"
  "list_all (\<lambda>f. codec_type (snd (snd (snd f)))) fs \<Longrightarrow> makeFieldDecoders ty l i fs = Inr ds \<Longrightarrow>
     (\<exists>ws. makeFieldWriters ty l i fs = Inr ws \<and> matchesFields ds ws)
     \<and> distinct (map fst ds) \<and> (\<forall>j \<in> set (map fst ds). i \<le> j \<and> j < i + length fs)"
proof (induction ty ts and ty l i fs arbitrary: d and ds rule: makeDecoder_makeFieldDecoders.induct)
  case (11 name fs ts)
  then show ?case
    by (fastforce simp: zerofields_def val_dec_def split: sum.splits dest: struct_tails_last)
next
  case (15 ty l i name tag exported t fs)
  obtain ts where ts: "(if exported then parseStructTag ty (name, tag, exported, t) i l
      else Inr (no_tags\<lparr>ignored := True\<rparr>)) = Inr ts"
    using "15.prems" by (auto split: sum.splits)
  show ?case
  proof (cases "ignored ts")
    case True
    with "15.IH"(1) [OF ts True] "15.prems" ts show ?thesis
      by (auto simp: Suc_le_eq dest: less_imp_le_nat)
  next
    case False
    with ts have ex: "exported" by (auto simp: no_tags_def split: if_splits)
    with "15.prems" ts False obtain d' ds' where d: "makeDecoder t ts = Inr d'"
      "makeFieldDecoders ty l (Suc i) fs = Inr ds'" "ds = (i, d') # ds'"
      by (auto split: sum.splits)
    have tl: "tail ts \<longrightarrow> isSliceKind t" using ts ex parseStructTag_tail_slice by auto
    from "15.IH"(2) [OF ts False] tl d "15.prems" obtain w where "makeWriter t ts = Inr w" "matches d' w" by auto
    moreover from "15.IH"(3) [OF ts False d(1)] d "15.prems" obtain ws where
      "makeFieldWriters ty l (Suc i) fs = Inr ws" "matchesFields ds' ws" "distinct (map fst ds')"
      "\<forall>j \<in> set (map fst ds'). Suc i \<le> j \<and> j < Suc i + length fs" by auto
    ultimately show ?thesis using ts False d(3) by (auto simp: Suc_le_eq)
  qed
qed (auto simp: val_dec_def isByte_def isSliceKind_def split: sum.splits if_splits)

section \<open>Canonicity\<close>

lemma decode_canonical:
  assumes "codec_type ty" "DecodeBytes b (PointerTo ty) = Inr v"
  shows "refEncode ty v = Inr b"
proof -
  let ?s = "Reset b True (length b)"
  obtain d where d: "makeDecoder ty no_tags = Inr d"
    using assms(2) by (cases "makeDecoder ty no_tags") (auto simp: DecodeBytes_def st_Decode_def)
  obtain r s where rs: "runDecoder (Suc (length (st_r ?s))) d ?s = (r, s)" by fastforce
  with assms(2) d have v: "r = Inr v" "st_r s = []"
    by (cases r; auto simp: DecodeBytes_def st_Decode_def split: rlp_error.splits if_splits)+
  obtain w where w: "makeWriter ty no_tags = Inr w" "matches d w"
    using make_matches(1) [OF assms(1) _ d] by auto
  have "idle ?s" by (simp add: idle_def Reset_def)
  from sound_atD [OF decoder_sound [OF w(2)] this] rs v have "consumed (refWriter False w v) ?s s" by simp
  then obtain bs where bs: "refWriter False w v = Inr bs" "reads ?s bs s" by (auto simp: consumed_def)
  with v have "b = bs" by (simp add: reads_def Reset_def)
  with bs w show ?thesis by (simp add: refEncode_def)
qed

section \<open>Enough fuel\<close>

lemma enc_str_not_Nil [simp]: "enc_str b \<noteq> []" "enc_list b \<noteq> []"
  by (auto simp: enc_str_def enc_list_def)

lemma raw_ok_not_Nil: "raw_ok b \<Longrightarrow> b \<noteq> []"
  unfolding raw_ok_def kind_head_def by (auto split: Kind.splits) (metis Kind.exhaust)

text \<open>A decoder of one value consumes at least one byte.\<close>

lemma value_not_empty:
  "val_dec d \<Longrightarrow> matches d w \<Longrightarrow> idle s \<Longrightarrow> runDecoder fuel d s = (Inr v, s') \<Longrightarrow> refWriter ad w v = Inr bs \<Longrightarrow> bs \<noteq> []"
proof (induction d arbitrary: w v s' bs ad)
  case DRawValue
  then show ?case using st_Raw_sound [of s]
    by (auto simp: decodeRawValue_def map_sum_def raw_ok_not_Nil split: prod.splits sum.splits)
next
  case (DNilPtr ty nk d)
  then obtain e where e: "w = WPtr nk e" "val_dec d" "matches d e" by (auto split: writer.splits)
  from DNilPtr.prems obtain k m s1 where k: "st_Kind s = (Inr (k, m), s1)" by (auto split: prod.splits sum.splits)
  show ?case
  proof (cases v)
    case (VPtr u)
    with DNilPtr.prems k have "runDecoder fuel d s1 = (Inr u, s')"
      by (auto simp: map_sum_def split: prod.splits sum.splits if_splits)
    then have "runDecoder fuel d s = (Inr u, s')"
      using runDecoder_kind_first [OF DNilPtr.prems(3) k e(2,3) refl] by metis
    with DNilPtr.IH [OF e(2,3) DNilPtr.prems(3)] DNilPtr.prems(5) VPtr e(1) show ?thesis by auto
  qed (use DNilPtr.prems e in \<open>auto simp: map_sum_def split: prod.splits sum.splits if_splits\<close>)
next
  case (DSimplePtr d)
  then obtain k e u where e: "w = WPtr k e" "val_dec d" "matches d e" "v = VPtr u" "runDecoder fuel d s = (Inr u, s')"
    by (auto simp: map_sum_def split: writer.splits prod.splits sum.splits)
  from DSimplePtr.IH [OF e(2,3) DSimplePtr.prems(3) e(5)] DSimplePtr.prems(5) e show ?case by simp
next
  case (DListArray ty n d)
  then show ?case
    by (auto simp: map_sum_def split: prod.splits sum.splits option.splits writer.splits)
next
  case (DStruct ty ds)
  then show ?case
    by (auto simp: map_sum_def structval_def split: prod.splits sum.splits option.splits writer.splits rtype.splits)
next
  case (DInterface m)
  then show ?case
    by (auto simp: map_sum_def interface_writers split: prod.splits sum.splits if_splits)
qed (auto simp: decodeBigInt_def decodeUint_def decodeBool_def decodeString_def decodeByteSlice_def
    decodeByteArray_def structval_def val_dec_def map_sum_def
    split: prod.splits sum.splits if_splits writer.splits Kind.splits rtype.splits)

lemma decoder_progress:
  assumes "val_dec d" "matches d w" "idle s" "runDecoder fuel d s = (Inr v, s')"
  shows "length (st_r s') < length (st_r s) \<and> idle s'"
proof -
  from sound_atD [OF decoder_sound [OF assms(2)] assms(3,4)]
  obtain bs where bs: "refWriter ad w v = Inr bs" "reads s bs s'" "idle s'" by (auto simp: consumed_def)
  with value_not_empty [OF assms bs(1)] reads_length [OF bs(2)] show ?thesis by simp
qed

text \<open>\<open>fuel_ok fuel d\<close>: this fuel is enough for \<open>d\<close> on an input of at most that length.\<close>

definition fuel_ok :: "nat \<Rightarrow> decoder \<Rightarrow> bool" where
  "fuel_ok fuel d \<longleftrightarrow>
     (\<forall>s s'. idle s \<longrightarrow> length (st_r s) \<le> fuel \<longrightarrow> runDecoder fuel d s \<noteq> (Inl OutOfFuel, s'))"

lemma fuel_okD:
  "fuel_ok fuel d \<Longrightarrow> idle s \<Longrightarrow> length (st_r s) \<le> fuel \<Longrightarrow> runDecoder fuel d s \<noteq> (Inl OutOfFuel, s')"
  by (simp add: fuel_ok_def)

text \<open>A tail decoder works inside a list whose header was read, and needs one unit more than bytes.\<close>

definition fuel_lt :: "nat \<Rightarrow> decoder \<Rightarrow> bool" where
  "fuel_lt fuel d \<longleftrightarrow>
     (\<forall>s s'. idle s \<longrightarrow> length (st_r s) < fuel \<longrightarrow> runDecoder fuel d s \<noteq> (Inl OutOfFuel, s'))"

lemma fuel_ok_lt: "fuel_ok fuel d \<Longrightarrow> fuel_lt fuel d"
  by (simp add: fuel_ok_def fuel_lt_def)

lemma error_OutOfFuel [simp]:
  "wrapStreamError e ty = OutOfFuel \<longleftrightarrow> e = OutOfFuel" "addErrorContext e c = OutOfFuel \<longleftrightarrow> e = OutOfFuel"
  by (cases e; simp add: wrapStreamError_def addErrorContext_def)+

lemma st_Kind_fuel: "idle s \<Longrightarrow> st_Kind s \<noteq> (Inl OutOfFuel, s')"
  by (auto simp: st_Kind_idle Let_def split: prod.splits if_splits option.splits dest!: st_readKind_error)

lemma stream_fuel:
  assumes "idle s"
  shows "st_Bytes s \<noteq> (Inl OutOfFuel, s')" "st_Raw s \<noteq> (Inl OutOfFuel, s')"
    "st_uint mb s \<noteq> (Inl OutOfFuel, s')" "st_Bool s \<noteq> (Inl OutOfFuel, s')"
    "st_List s \<noteq> (Inl OutOfFuel, s')" "decodeByteArray ty n s \<noteq> (Inl OutOfFuel, s')"
    "decodeBigInt s \<noteq> (Inl OutOfFuel, s')"
proof -
  note K = st_Kind_fuel [OF assms]
  show b: "st_Bytes s \<noteq> (Inl OutOfFuel, s')" for s'
    using K by (auto simp: st_Bytes_def split: prod.splits sum.splits Kind.splits if_splits dest!: readFull_error)
  show "st_Raw s \<noteq> (Inl OutOfFuel, s')"
    using K by (auto simp: st_Raw_def Let_def split: prod.splits sum.splits if_splits dest!: readFull_error)
  show u: "st_uint mb s \<noteq> (Inl OutOfFuel, s')" for mb s'
    using K by (auto simp: st_uint_def split: prod.splits sum.splits Kind.splits if_splits dest!: readUint_error)
  show "st_Bool s \<noteq> (Inl OutOfFuel, s')"
    using u by (auto simp: st_Bool_def split: prod.splits sum.splits if_splits)
  show "st_List s \<noteq> (Inl OutOfFuel, s')"
    using K by (auto simp: st_List_def split: prod.splits sum.splits if_splits)
  show "decodeByteArray ty n s \<noteq> (Inl OutOfFuel, s')"
    using K by (auto simp: decodeByteArray_def split: prod.splits sum.splits Kind.splits if_splits dest!: readFull_error)
  show "decodeBigInt s \<noteq> (Inl OutOfFuel, s')"
    using b by (auto simp: decodeBigInt_def wrapStreamError_def split: prod.splits sum.splits if_splits rlp_error.splits)
qed

lemma st_List_shorter:
  assumes "idle s" "st_List s = (Inr n, s1)"
  shows "length (st_r s1) < length (st_r s) \<and> idle s1"
proof -
  obtain t where t: "reads s (kind_head List n) t" "core s1 = core (push_list n t)" "idle s1"
    using st_List_sound [OF assms] by blast
  then have "st_r s1 = st_r t" by (simp add: push_list_fields)
  moreover have "0 < length (kind_head List n)" by (simp add: kind_head_def)
  ultimately show ?thesis using reads_length [OF t(1)] t(3) by simp
qed

lemma sliceElems_fuel:
  assumes "\<And>f. f < fuel \<Longrightarrow> fuel_ok f d" "val_dec d" "matches d e" "idle s" "length (st_r s) < fuel"
  shows "decodeSliceElems fuel d i s \<noteq> (Inl OutOfFuel, s')"
  using assms(1,4,5)
proof (induction fuel arbitrary: i s s')
  case (Suc fuel)
  obtain r s1 where r: "runDecoder fuel d s = (r, s1)" by fastforce
  show ?case
  proof (cases r)
    case (Inl err)
    have "runDecoder fuel d s \<noteq> (Inl OutOfFuel, s1)"
      using Suc.prems fuel_okD [of fuel d s] by simp
    with r Inl show ?thesis by auto
  next
    case (Inr v)
    with decoder_progress [OF assms(2,3) Suc.prems(2), of fuel v s1] r Suc.prems(3)
    have "length (st_r s1) < fuel" "idle s1" by auto
    with Suc.IH [of s1 "Suc i"] Suc.prems(1) r Inr show ?thesis
      by (auto simp: map_sum_def split: prod.splits sum.splits)
  qed
qed simp

lemma listSlice_fuel:
  assumes "\<And>f. f < fuel \<Longrightarrow> fuel_ok f d" "val_dec d" "matches d e" "idle s" "length (st_r s) \<le> fuel"
  shows "decodeListSlice fuel ty d s \<noteq> (Inl OutOfFuel, s')"
proof (cases "st_List s")
  case (Pair r s1)
  show ?thesis
  proof (cases r)
    case (Inl err)
    with Pair stream_fuel(5) [OF assms(4), of s1] show ?thesis by (auto simp: decodeListSlice.simps)
  next
    case (Inr n)
    with Pair st_List_shorter [OF assms(4), of n s1] assms(5) have s1: "idle s1" "length (st_r s1) < fuel" by auto
    with sliceElems_fuel [OF assms(1-3) s1] Pair Inr show ?thesis
      by (auto simp: decodeListSlice.simps split: prod.splits sum.splits option.splits dest!: st_ListEnd_error)
  qed
qed

lemma arrayElems_fuel:
  assumes "fuel_ok fuel d" "val_dec d" "matches d e" "idle s" "length (st_r s) \<le> fuel"
  shows "decodeArrayElems fuel ty d n i s \<noteq> (Inl OutOfFuel, s')"
  using assms(4,5)
proof (induction n arbitrary: i s s')
  case (Suc n)
  obtain r s1 where r: "runDecoder fuel d s = (r, s1)" by fastforce
  show ?case
  proof (cases r)
    case (Inl err)
    with fuel_okD [OF assms(1) Suc.prems, of s1] r show ?thesis by auto
  next
    case (Inr v)
    with decoder_progress [OF assms(2,3) Suc.prems(1), of fuel v s1] r Suc.prems(2)
    have "length (st_r s1) \<le> fuel" "idle s1" by auto
    with Suc.IH [of s1 "Suc i"] r Inr show ?thesis
      by (auto simp: map_sum_def split: prod.splits sum.splits)
  qed
qed simp

lemma fields_fuel:
  assumes "\<And>i d e. (i, d) \<in> set ds \<Longrightarrow> matches d e \<Longrightarrow> fuel_lt fuel d" "matchesFields ds ws"
    "idle s" "length (st_r s) < fuel"
  shows "decodeFields fuel ty ds us s \<noteq> (Inl OutOfFuel, s')"
  using assms
proof (induction ds arbitrary: ws us s s')
  case (Cons f ds)
  obtain i d where f: "f = (i, d)" by fastforce
  with Cons.prems obtain e ws' where ws: "matches d e" "matchesFields ds ws'" by (auto split: list.splits)
  obtain r s1 where r: "runDecoder fuel d s = (r, s1)" by fastforce
  show ?case
  proof (cases r)
    case (Inl err)
    have "runDecoder fuel d s \<noteq> (Inl OutOfFuel, s1)"
      using Cons.prems(1) [of i d e] f ws Cons.prems(3,4) by (auto simp: fuel_lt_def)
    with r Inl f show ?thesis by auto
  next
    case (Inr v)
    with sound_atD [OF decoder_sound [OF ws(1)] Cons.prems(3), of fuel v s1] r
    obtain bs where "reads s bs s1" "idle s1" by (auto simp: consumed_def)
    with reads_length [of s bs s1] Cons.prems(4) have "idle s1" "length (st_r s1) < fuel" by auto
    moreover have "fuel_lt fuel d'" if "(i', d') \<in> set ds" "matches d' e'" for i' d' e'
      using Cons.prems(1) [of i' d' e'] that by simp
    ultimately have "decodeFields fuel ty ds (us[i := v]) s1 \<noteq> (Inl OutOfFuel, s')"
      using Cons.IH [OF _ ws(2), of s1 "us[i := v]" s'] by blast
    with r Inr f show ?thesis by auto
  qed
qed simp

lemma prim_fuel:
  assumes "d \<in> {DRawValue, DBigInt, DBigIntNoPtr, DBool, DString} \<or> (\<exists>n. d = DUint n) \<or> (\<exists>ty. d = DByteSlice ty)
    \<or> (\<exists>ty n. d = DByteArray ty n)"
  shows "fuel_ok fuel d"
  using assms unfolding fuel_ok_def
  by (auto simp: decodeRawValue_def decodeUint_def decodeBool_def decodeString_def decodeByteSlice_def
      map_sum_def split: prod.splits sum.splits dest: stream_fuel)

lemma container_fuel:
  assumes "\<And>f. f < fuel \<Longrightarrow> fuel_ok f d" "fuel_ok fuel d" "val_dec d" "matches d e"
  shows "fuel_ok fuel (DListSlice ty d)" "fuel_ok fuel (DListArray ty n d)" "fuel_ok fuel (DSimplePtr d)"
    "fuel_ok fuel (DNilPtr ty nk d)"
proof -
  show "fuel_ok fuel (DListSlice ty d)"
    using listSlice_fuel [OF assms(1,3,4)] unfolding fuel_ok_def
    by (auto simp: map_sum_def split: prod.splits sum.splits)
  show "fuel_ok fuel (DSimplePtr d)"
    using assms(2) unfolding fuel_ok_def by (auto simp: map_sum_def split: prod.splits sum.splits)
  show "fuel_ok fuel (DListArray ty n d)" unfolding fuel_ok_def
  proof (intro allI impI)
    fix s s' assume s: "idle s" "length (st_r s) \<le> fuel"
    show "runDecoder fuel (DListArray ty n d) s \<noteq> (Inl OutOfFuel, s')"
    proof (cases "st_List s")
      case (Pair r s1)
      show ?thesis
      proof (cases r)
        case (Inl err)
        with Pair stream_fuel(5) [OF s(1), of s1] show ?thesis by auto
      next
        case (Inr m)
        with Pair st_List_shorter [OF s(1), of m s1] s(2) have s1: "idle s1" "length (st_r s1) \<le> fuel" by auto
        with arrayElems_fuel [OF assms(2-4) s1] Pair Inr show ?thesis
          by (auto split: prod.splits sum.splits option.splits dest!: st_ListEnd_error)
      qed
    qed
  qed
  show "fuel_ok fuel (DNilPtr ty nk d)" unfolding fuel_ok_def
  proof (intro allI impI)
    fix s s' assume s: "idle s" "length (st_r s) \<le> fuel"
    show "runDecoder fuel (DNilPtr ty nk d) s \<noteq> (Inl OutOfFuel, s')"
    proof (cases "st_Kind s")
      case (Pair r s1)
      show ?thesis
      proof (cases r)
        case (Inl err)
        with Pair st_Kind_fuel [OF s(1), of s1] show ?thesis by auto
      next
        case (Inr kn)
        with Pair have k: "st_Kind s = (Inr kn, s1)" by simp
        from runDecoder_kind_first [OF s(1) k assms(3,4) refl] fuel_okD [OF assms(2) s]
        have "runDecoder fuel d s1 \<noteq> (Inl OutOfFuel, s')" for s' by metis
        with k show ?thesis by (auto simp: map_sum_def split: prod.splits sum.splits)
      qed
    qed
  qed
qed

lemma struct_fuel:
  assumes "\<And>i d e. (i, d) \<in> set ds \<Longrightarrow> matches d e \<Longrightarrow> fuel_lt fuel d" "matches (DStruct ty ds) w"
  shows "fuel_ok fuel (DStruct ty ds)"
  unfolding fuel_ok_def
proof (intro allI impI)
  fix s s' assume s: "idle s" "length (st_r s) \<le> fuel"
  obtain ws where ws: "matchesFields ds ws" using assms(2) by (auto split: writer.splits)
  show "runDecoder fuel (DStruct ty ds) s \<noteq> (Inl OutOfFuel, s')"
  proof (cases "st_List s")
    case (Pair r s1)
    show ?thesis
    proof (cases r)
      case (Inl err)
      with Pair stream_fuel(5) [OF s(1), of s1] show ?thesis by auto
    next
      case (Inr m)
      with Pair st_List_shorter [OF s(1), of m s1] s(2) have s1: "idle s1" "length (st_r s1) < fuel" by auto
      with fields_fuel [OF assms(1) ws s1] Pair Inr show ?thesis
        by (auto split: prod.splits sum.splits option.splits dest!: st_ListEnd_error)
    qed
  qed
qed

lemma interface_fuel:
  assumes "\<And>f. f < fuel \<Longrightarrow> fuel_ok f (DInterface 0)"
  shows "fuel_ok fuel (DInterface 0)"
  unfolding fuel_ok_def
proof (intro allI impI)
  fix s s' assume s: "idle s" "length (st_r s) \<le> fuel"
  show "runDecoder fuel (DInterface 0) s \<noteq> (Inl OutOfFuel, s')"
  proof (cases "st_Kind s")
    case (Pair r s1)
    show ?thesis
    proof (cases r)
      case (Inl err)
      with Pair st_Kind_fuel [OF s(1), of s1] show ?thesis by auto
    next
      case (Inr kn)
      with Pair have k: "st_Kind s = (Inr kn, s1)" by simp
      have "decodeListSlice fuel ifslice (DInterface 0) s1 \<noteq> (Inl OutOfFuel, s')" for s'
        using listSlice_fuel [OF assms _ _ s, of WInterface ifslice s']
        by (simp add: val_dec_def decodeListSlice.simps kind_first [OF s(1) k])
      moreover have "st_Bytes s1 \<noteq> (Inl OutOfFuel, s')" for s'
        using stream_fuel(1) [OF s(1)] by (simp add: kind_first [OF s(1) k])
      ultimately show ?thesis using k by (auto simp: map_sum_def split: prod.splits sum.splits if_splits)
    qed
  qed
qed

lemma elems_fuel:
  assumes "\<And>f. f < fuel \<Longrightarrow> fuel_ok f d" "val_dec d" "matches d e"
  shows "fuel_lt fuel (DSliceElems d)"
  using sliceElems_fuel [OF assms] unfolding fuel_lt_def by (auto simp: map_sum_def split: prod.splits sum.splits)

lemma runDecoder_fuel: "matches d w \<Longrightarrow> fuel_lt fuel d \<and> (val_dec d \<longrightarrow> fuel_ok fuel d)"
proof (induction fuel arbitrary: d w rule: less_induct)
  case (less fuel)
  have smaller: "fuel_ok f d" if "f < fuel" "val_dec d" "matches d e" for f d e
    using less.IH [OF that(1,3)] that(2) by blast
  from less.prems show ?case
  proof (induction d arbitrary: w)
    case (DListSlice ty d)
    then obtain e where e: "val_dec d" "matches d e" by (auto split: writer.splits)
    with smaller DListSlice.IH container_fuel(1) [of fuel d e] show ?case by (blast intro: fuel_ok_lt)
  next
    case (DListArray ty n d)
    then obtain e where e: "val_dec d" "matches d e" by (auto split: writer.splits)
    with smaller DListArray.IH container_fuel(2) [of fuel d e] show ?case by (blast intro: fuel_ok_lt)
  next
    case (DSimplePtr d)
    then obtain e where e: "val_dec d" "matches d e" by (auto split: writer.splits)
    with smaller DSimplePtr.IH container_fuel(3) [of fuel d e] show ?case by (blast intro: fuel_ok_lt)
  next
    case (DNilPtr ty nk d)
    then obtain e where e: "val_dec d" "matches d e" by (auto split: writer.splits)
    with smaller DNilPtr.IH container_fuel(4) [of fuel d e] show ?case by (blast intro: fuel_ok_lt)
  next
    case (DSliceElems d)
    then obtain e where e: "val_dec d" "matches d e" by (auto split: writer.splits)
    with smaller elems_fuel [of fuel d e] show ?case by (auto simp: val_dec_def)
  next
    case (DStruct ty ds)
    have "fuel_ok fuel (DStruct ty ds)"
      by (rule struct_fuel [OF _ DStruct.prems]) (use DStruct.IH in auto)
    then show ?case by (blast intro: fuel_ok_lt)
  next
    case (DInterface m)
    then have "m = 0" by simp
    with smaller [of _ "DInterface 0" WInterface] interface_fuel [of fuel] show ?case
      by (auto simp: val_dec_def intro: fuel_ok_lt)
  qed (use prim_fuel fuel_ok_lt in blast)+
qed

section \<open>Byte arrays of length 1\<close>

text \<open>
  \<open>decodeByteArray\<close> ignores the error of \<open>s.Uint()\<close> on the byte 0, which leaves the kind cached:
  the next element sees the same value again, and the loop over the elements does not end.
\<close>

lemma byteArray1_stuck:
  assumes "st_kind s = Some Byte" "st_kinderr s = None" "st_byteval s = 0"
  shows "decodeByteArray ty 1 s = (Inr (VBytes [0]), s)"
  using assms by (simp add: decodeByteArray_def st_Kind_def st_uint_def)

lemma sliceElems_stuck:
  assumes "st_kind s = Some Byte" "st_kinderr s = None" "st_byteval s = 0"
  shows "\<exists>t. decodeSliceElems fuel (DByteArray ty 1) i s = (Inl OutOfFuel, t)"
proof (induction fuel arbitrary: i)
  case (Suc fuel)
  from Suc.IH [of "Suc i"] byteArray1_stuck [OF assms] show ?case by auto
qed simp

lemma byteArray1_loops:
  "fst (runDecoder fuel (DListSlice ty (DByteArray ty' 1)) (Reset [0xC1, 0x00] True 2)) = Inl OutOfFuel"
proof -
  define s1 where "s1 = \<lparr>st_r = [0], st_remaining = 1, st_limited = True, st_kind = None, st_size = 0,
    st_byteval = 0, st_kinderr = None, st_stack = [\<lparr>lp_pos = 0, lp_size = 1\<rparr>]\<rparr>"
  have l: "st_List (Reset [0xC1, 0x00] True 2) = (Inr 1, s1)"
    by (simp add: s1_def Reset_def st_List_def st_Kind_def st_readKind_def readByte_def willRead_def Let_def)
  define s2 where "s2 = s1\<lparr>st_r := [], st_remaining := 0, st_kind := Some Byte, st_stack := [\<lparr>lp_pos = 1, lp_size = 1\<rparr>]\<rparr>"
  have d: "decodeByteArray ty' 1 s1 = (Inr (VBytes [0]), s2)"
    by (simp add: s1_def s2_def decodeByteArray_def st_uint_def st_Kind_def st_readKind_def readByte_def
        willRead_def Let_def)
  have "\<exists>t. decodeSliceElems fuel (DByteArray ty' 1) 0 s1 = (Inl OutOfFuel, t)"
  proof (cases fuel)
    case (Suc f)
    have "st_kind s2 = Some Byte" "st_kinderr s2 = None" "st_byteval s2 = 0" by (simp_all add: s1_def s2_def)
    from sliceElems_stuck [OF this, of f ty' 1] Suc d show ?thesis by auto
  qed simp
  with l show ?thesis by (auto simp: decodeListSlice.simps)
qed

lemma size_mem_less: "v \<in> set vs \<Longrightarrow> size v < size_list size vs"
  by (auto simp: in_set_conv_nth intro: size_nth_less)

section \<open>Round trips\<close>

text \<open>
  \<open>representable d v\<close>: the encoding of \<open>v\<close> determines \<open>v\<close>. A nil pointer comes back only from a
  field with a \<open>nil\<close> tag, and there a pointer to an empty value does not; fields that are not
  encoded have their zero value; an interface holds byte slices and lists of interfaces.
\<close>

function (sequential) representable :: "decoder \<Rightarrow> rval \<Rightarrow> bool" where
  "representable d (VBytes b) =
     (case d of
        DRawValue \<Rightarrow> raw_ok b
      | DString \<Rightarrow> True
      | DByteSlice ty \<Rightarrow> True
      | DByteArray ty n \<Rightarrow> length b = n
      | _ \<Rightarrow> False)"
| "representable d (VUint u) =
     (case d of DUint bits \<Rightarrow> length (nat_to_be (unat u)) \<le> bits div 8 | _ \<Rightarrow> False)"
| "representable d (VBool b) = (d = DBool)"
| "representable d (VBig i) = (d = DBigIntNoPtr \<and> 0 \<le> i)"
| "representable d VNil = (case d of DNilPtr ty nk e \<Rightarrow> nk \<noteq> Byte | _ \<Rightarrow> False)"
| "representable d (VPtr v) =
     (case d of
        DBigInt \<Rightarrow> (case v of VBig i \<Rightarrow> 0 \<le> i | _ \<Rightarrow> False)
      | DSimplePtr e \<Rightarrow> representable e v
      | DNilPtr ty nk e \<Rightarrow>
          representable e v \<and> (\<forall>w. matches e w \<longrightarrow> refWriter True w v \<notin> {Inr [0x80], Inr [0xC0]})
      | _ \<Rightarrow> False)"
| "representable d (VList vs) =
     (case d of
        DListSlice ty e \<Rightarrow> (\<forall>v \<in> set vs. representable e v)
      | DSliceElems e \<Rightarrow> (\<forall>v \<in> set vs. representable e v)
      | DListArray ty n e \<Rightarrow> length vs = n \<and> (\<forall>v \<in> set vs. representable e v)
      | _ \<Rightarrow> False)"
| "representable d (VStruct vs) =
     (case d of
        DStruct ty ds \<Rightarrow>
          length vs = length (zerofields ty)
          \<and> (\<forall>j < length vs. j \<notin> set (map fst ds) \<longrightarrow> vs ! j = zerofields ty ! j)
          \<and> (\<forall>f \<in> set ds. fst f < length vs \<longrightarrow> representable (snd f) (vs ! fst f))
      | _ \<Rightarrow> False)"
| "representable d (VIface t v) =
     (case d of
        DInterface m \<Rightarrow>
          (case v of
             VBytes b \<Rightarrow> t = bytesliceType
           | VList vs \<Rightarrow> t = ifslice \<and> (\<forall>u \<in> set vs. representable (DInterface 0) u)
           | _ \<Rightarrow> False)
      | _ \<Rightarrow> False)"
| "representable d (VEncoder v) = False"
  by pat_completeness auto
termination
  by (relation "measure (\<lambda>(d, v). size v)")
     (auto intro: size_nth_less size_mem_less less_SucI)

definition complete_at :: "nat \<Rightarrow> decoder \<Rightarrow> writer \<Rightarrow> bool" where
  "complete_at fuel d w \<longleftrightarrow>
     (\<forall>ad s v bs t. idle s \<longrightarrow> representable d v \<longrightarrow> refWriter ad w v = Inr bs \<longrightarrow> length bs < 2 ^ 64
        \<longrightarrow> reads s bs t \<longrightarrow> length bs \<le> fuel \<longrightarrow> (\<exists>s'. runDecoder fuel d s = (Inr v, s') \<and> core s' = core t \<and> idle s'))"

lemma complete_atD:
  "complete_at fuel d w \<Longrightarrow> idle s \<Longrightarrow> representable d v \<Longrightarrow> refWriter ad w v = Inr bs \<Longrightarrow> length bs < 2 ^ 64 \<Longrightarrow>
   reads s bs t \<Longrightarrow> length bs \<le> fuel \<Longrightarrow> \<exists>s'. runDecoder fuel d s = (Inr v, s') \<and> core s' = core t \<and> idle s'"
  by (simp add: complete_at_def)

lemma decoder_at_end:
  assumes "idle s" "at_end s"
  shows "val_dec d \<Longrightarrow> matches d w \<Longrightarrow> runDecoder fuel d s = (Inl EOL, s\<lparr>st_kinderr := None\<rparr>)"
proof (induction d arbitrary: w)
  case (DInterface m)
  then show ?case by (simp add: st_Kind_at_end [OF assms])
qed (auto simp: st_at_end [OF assms] st_Kind_at_end [OF assms] decodeRawValue_def decodeBigInt_def decodeUint_def
    decodeBool_def decodeString_def decodeByteSlice_def decodeByteArray_def decodeListSlice.simps
    wrapStreamError_def val_dec_def split: writer.splits)

lemma representable_not_empty:
  "representable d v \<Longrightarrow> val_dec d \<Longrightarrow> matches d w \<Longrightarrow> refWriter ad w v = Inr bs \<Longrightarrow> bs \<noteq> []"
proof (induction d v arbitrary: ad w bs rule: representable.induct)
  case (6 d v)
  show ?case
  proof (cases d)
    case (DSimplePtr e)
    with 6 show ?thesis by (fastforce split: writer.splits)
  next
    case (DNilPtr ty nk e)
    with 6 show ?thesis by (fastforce split: writer.splits)
  qed (use "6.prems" in \<open>auto split: rval.splits if_splits\<close>)
next
  case (9 d t v)
  then show ?case by (auto simp: interface_writers map_sum_def split: decoder.splits rval.splits sum.splits)
next
  case (1 d b)
  then show ?case by (cases d) (auto simp: raw_ok_not_Nil)
next
  case (5 d)
  then show ?case by (cases d) (auto split: writer.splits if_splits)
next
  case (7 d vs)
  then show ?case by (cases d) (auto simp: val_dec_def map_sum_def split: writer.splits sum.splits)
next
  case (8 d vs)
  then show ?case by (cases d) (auto simp: map_sum_def split: writer.splits sum.splits)
next
  case (2 d u)
  then show ?case by (cases d) auto
qed auto

lemma list_complete:
  assumes "idle s" "reads s (enc_list p) t" "length p < 2 ^ 64"
  obtains s1 u where "st_List s = (Inr (length p), s1)" "idle s1" "reads s1 p u" "at_end u"
    "\<forall>s2. core s2 = core u \<longrightarrow> (\<exists>s3. st_ListEnd s2 = (None, s3) \<and> core s3 = core t \<and> idle s3)"
proof -
  from assms(2) obtain t1 where t1: "reads s (kind_head List (length p)) t1" "reads t1 p t"
    by (auto simp: enc_list_kind dest: reads_split)
  have "declared_ok (length p) t1" using t1(2) by (auto simp: reads_def intro: fits_declared_ok)
  from st_List_complete [OF assms(1) t1(1) assms(3) this]
  obtain s1 where s1: "st_List s = (Inr (length p), s1)" "core s1 = core (push_list (length p) t1)" "idle s1"
    by blast
  obtain u where u: "reads s1 p u" using list_frame_complete(1) [OF s1(2) t1(2)] by blast
  have "at_end u" using at_end_pushed [OF s1(2) u] by simp
  moreover have "\<exists>s3. st_ListEnd s2 = (None, s3) \<and> core s3 = core t \<and> idle s3" if "core s2 = core u" for s2
    using list_frame_complete(2) [OF s1(2) t1(2) reads_core [OF u refl]] that by simp
  ultimately show thesis using that s1 u by blast
qed

lemma sliceElems_complete:
  assumes "\<And>f. f < fuel \<Longrightarrow> complete_at f d e" "val_dec d" "matches d e" "idle s"
    "\<forall>v \<in> set vs. representable d v" "refElems ad e vs = Inr bs" "length bs < 2 ^ 64" "reads s bs t" "at_end t"
    "length bs < fuel"
  shows "\<exists>s'. decodeSliceElems fuel d i s = (Inr vs, s') \<and> core s' = core t \<and> idle s'"
  using assms(1,4-)
proof (induction vs arbitrary: fuel i s bs)
  case Nil
  then have "at_end s" "core s = core t" "0 < fuel" using at_end_cong [of t s] by auto
  then obtain f where "fuel = Suc f" by (cases fuel) auto
  with decoder_at_end [OF \<open>idle s\<close> \<open>at_end s\<close> assms(2,3), of f] Nil.prems(2) \<open>core s = core t\<close> show ?case
    by (simp add: idle_def)
next
  case (Cons v vs)
  obtain f where f: "fuel = Suc f" using Cons.prems(8) by (cases fuel) auto
  from Cons.prems(4) obtain b cs where b: "refWriter ad e v = Inr b" "refElems ad e vs = Inr cs" "bs = b @ cs"
    by (auto simp: map_sum_def split: sum.splits)
  obtain t1 where t1: "reads s b t1" "reads t1 cs t" using reads_split Cons.prems(6) b(3) by blast
  have "complete_at f d e" using Cons.prems(1) f by blast
  from complete_atD [OF this Cons.prems(2) _ b(1) _ t1(1)] Cons.prems b(3) f
  obtain s1 where s1: "runDecoder f d s = (Inr v, s1)" "core s1 = core t1" "idle s1" by auto
  have "b \<noteq> []" using representable_not_empty [of d v e ad b] Cons.prems(3) assms(2,3) b(1) by simp
  then have "length cs < f" using Cons.prems(8) b(3) f by (cases b) auto
  then obtain s2 where "decodeSliceElems f d (Suc i) s1 = (Inr vs, s2)" "core s2 = core t" "idle s2"
    using Cons.IH [of f s1 cs "Suc i"] Cons.prems b s1 f reads_core [OF t1(2) s1(2) [symmetric] refl] by auto
  with s1 f show ?case by simp
qed

lemma listSlice_complete:
  assumes "\<And>f. f < fuel \<Longrightarrow> complete_at f d e" "val_dec d" "matches d e" "idle s"
    "\<forall>v \<in> set vs. representable d v" "refElems ad e vs = Inr p" "length (enc_list p) < 2 ^ 64"
    "reads s (enc_list p) t" "length (enc_list p) \<le> fuel"
  shows "\<exists>s'. decodeListSlice fuel ty d s = (Inr vs, s') \<and> core s' = core t \<and> idle s'"
proof -
  have p: "length p < length (enc_list p)" by (rule length_enc_list_ge)
  then have "length p < 2 ^ 64" using assms(7) by linarith
  then obtain s1 u where s1: "st_List s = (Inr (length p), s1)" "idle s1" "reads s1 p u" "at_end u"
    "\<forall>s2. core s2 = core u \<longrightarrow> (\<exists>s3. st_ListEnd s2 = (None, s3) \<and> core s3 = core t \<and> idle s3)"
    using list_complete [OF assms(4,8)] by metis
  show ?thesis
  proof (cases "p = []")
    case True
    have "vs = []"
    proof (cases vs)
      case (Cons v us)
      then obtain b where "refWriter ad e v = Inr b" "b = []" using assms(6) True
        by (auto simp: map_sum_def split: sum.splits)
      with representable_not_empty [of d v e ad b] assms(2,3,5) Cons show ?thesis by auto
    qed
    moreover have "core s1 = core u" using s1(3) True by simp
    ultimately show ?thesis using s1(1) s1(5) True by (auto simp: decodeListSlice.simps)
  next
    case False
    obtain s2 where "decodeSliceElems fuel d 0 s1 = (Inr vs, s2)" "core s2 = core u"
      using sliceElems_complete [OF assms(1-3) s1(2) assms(5,6) _ s1(3,4), of fuel 0] p assms(7,9) by auto
    with s1(1) s1(5) False show ?thesis by (auto simp: decodeListSlice.simps)
  qed
qed

lemma arrayElems_complete:
  assumes "complete_at fuel d e" "idle s" "\<forall>v \<in> set vs. representable d v" "refElems ad e vs = Inr bs"
    "length bs < 2 ^ 64" "reads s bs t" "length bs \<le> fuel"
  shows "\<exists>s'. decodeArrayElems fuel ty d (length vs) i s = (Inr vs, s') \<and> core s' = core t \<and> idle s'"
  using assms(2-)
proof (induction vs arbitrary: i s bs)
  case (Cons v vs)
  from Cons.prems obtain b cs where b: "refWriter ad e v = Inr b" "refElems ad e vs = Inr cs" "bs = b @ cs"
    by (auto simp: map_sum_def split: sum.splits)
  obtain t1 where t1: "reads s b t1" "reads t1 cs t" using reads_split Cons.prems(5) b(3) by blast
  from complete_atD [OF assms(1) Cons.prems(1) _ b(1) _ t1(1)] Cons.prems b(3)
  obtain s1 where s1: "runDecoder fuel d s = (Inr v, s1)" "core s1 = core t1" "idle s1" by auto
  obtain s2 where "decodeArrayElems fuel ty d (length vs) (Suc i) s1 = (Inr vs, s2)" "core s2 = core t" "idle s2"
    using Cons.IH [of s1 cs "Suc i"] Cons.prems b s1 reads_core [OF t1(2) s1(2) [symmetric] refl] by auto
  with s1 show ?case by simp
qed simp

text \<open>The same for a decoder inside a struct, whose last field may read to the end of the list.\<close>

definition complete_lt :: "nat \<Rightarrow> decoder \<Rightarrow> writer \<Rightarrow> bool" where
  "complete_lt fuel d w \<longleftrightarrow>
     (\<forall>ad s v bs t. idle s \<longrightarrow> representable d v \<longrightarrow> refWriter ad w v = Inr bs \<longrightarrow> length bs < 2 ^ 64
        \<longrightarrow> reads s bs t \<longrightarrow> length bs < fuel \<longrightarrow> val_dec d \<or> at_end t
        \<longrightarrow> (\<exists>s'. runDecoder fuel d s = (Inr v, s') \<and> core s' = core t \<and> idle s'))"

lemma complete_ltD:
  "complete_lt fuel d w \<Longrightarrow> val_dec d \<or> at_end t \<Longrightarrow> idle s \<Longrightarrow> representable d v \<Longrightarrow> refWriter ad w v = Inr bs \<Longrightarrow>
   length bs < 2 ^ 64 \<Longrightarrow> reads s bs t \<Longrightarrow> length bs < fuel \<Longrightarrow>
   \<exists>s'. runDecoder fuel d s = (Inr v, s') \<and> core s' = core t \<and> idle s'"
  unfolding complete_lt_def by blast

lemma complete_at_lt: "complete_at fuel d w \<Longrightarrow> complete_lt fuel d w"
  by (simp add: complete_at_def complete_lt_def)

lemma fields_complete:
  assumes "\<And>i d e. (i, d) \<in> set ds \<Longrightarrow> matches d e \<Longrightarrow> complete_lt fuel d e"
    "idle s" "matchesFields ds ws" "distinct (map fst ds)" "tails_last ds"
    "\<forall>f \<in> set ds. fst f < length vs \<and> representable (snd f) (vs ! fst f)"
    "length us = length vs" "\<forall>j < length vs. j \<notin> set (map fst ds) \<longrightarrow> us ! j = vs ! j"
    "refFields ad ws vs = Inr bs" "length bs < 2 ^ 64" "reads s bs t" "at_end t" "length bs < fuel"
  shows "\<exists>s'. decodeFields fuel ty ds us s = (Inr vs, s') \<and> core s' = core t \<and> idle s'"
  using assms
proof (induction ds arbitrary: ws us s bs)
  case Nil
  then have "us = vs" by (intro nth_equalityI) auto
  with Nil show ?case by auto
next
  case (Cons f ds)
  obtain i d where f: "f = (i, d)" by fastforce
  with Cons.prems(3) obtain e ws' where ws: "ws = (i, e) # ws'" "matches d e" "matchesFields ds ws'"
    by (auto split: list.splits)
  from Cons.prems(9) ws obtain b cs where b: "i < length vs" "refWriter ad e (vs ! i) = Inr b"
    "refFields ad ws' vs = Inr cs" "bs = b @ cs"
    by (auto simp: map_sum_def split: sum.splits if_splits)
  obtain t1 where t1: "reads s b t1" "reads t1 cs t" using reads_split Cons.prems(11) b(4) by blast
  have te: "val_dec d \<or> at_end t1"
  proof (cases "val_dec d")
    case False
    with Cons.prems(5) f have "ds = []" by simp
    with ws b have "cs = []" by simp
    with t1(2) Cons.prems(12) at_end_cong [of t t1] show ?thesis by simp
  qed simp
  have "complete_lt fuel d e" using Cons.prems(1) [of i d e] f ws(2) by simp
  from complete_ltD [OF this te Cons.prems(2) _ b(2) _ t1(1)] Cons.prems(6,10,13) f b(4)
  obtain s1 where s1: "runDecoder fuel d s = (Inr (vs ! i), s1)" "core s1 = core t1" "idle s1" by auto
  have "\<exists>s'. decodeFields fuel ty ds (us[i := vs ! i]) s1 = (Inr vs, s') \<and> core s' = core t \<and> idle s'"
  proof (rule Cons.IH [OF _ s1(3) ws(3)])
    show "complete_lt fuel d' e'" if "(i', d') \<in> set ds" "matches d' e'" for i' d' e'
      by (rule Cons.prems(1) [of i' d' e']) (use that in simp_all)
    show "\<forall>j < length vs. j \<notin> set (map fst ds) \<longrightarrow> us[i := vs ! i] ! j = vs ! j"
      using Cons.prems(7,8) f b(1) by (auto simp: nth_list_update)
    show "reads s1 cs t" using reads_core [OF t1(2) s1(2) [symmetric] refl] .
  qed (use Cons.prems f b in auto)
  with s1(1) f show ?case by simp
qed

lemma struct_complete:
  assumes "\<And>i d e. (i, d) \<in> set ds \<Longrightarrow> matches d e \<Longrightarrow> complete_lt fuel d e" "matches (DStruct ty ds) w"
  shows "complete_at fuel (DStruct ty ds) w"
  unfolding complete_at_def
proof (intro allI impI)
  fix ad s v bs t
  assume s: "idle s" "representable (DStruct ty ds) v" "refWriter ad w v = Inr bs" "length bs < 2 ^ 64"
    "reads s bs t" "length bs \<le> fuel"
  obtain ws where ws: "w = WStruct ws" "matchesFields ds ws" "\<forall>name t. ty \<noteq> TEncoder name t"
    "distinct (map fst ds)" "\<forall>i \<in> set (map fst ds). i < length (zerofields ty)" "tails_last ds"
    using assms(2) by (auto split: writer.splits)
  obtain vs where v: "v = VStruct vs" "length vs = length (zerofields ty)"
    "\<forall>j < length vs. j \<notin> set (map fst ds) \<longrightarrow> zerofields ty ! j = vs ! j"
    "\<forall>f \<in> set ds. fst f < length vs \<and> representable (snd f) (vs ! fst f)"
  proof -
    obtain vs where "v = VStruct vs" using s(2) by (cases v) (auto split: rval.splits)
    with s(2) ws(5) that show thesis by auto
  qed
  from s(3) ws(1) v(1) obtain p where p: "refFields ad ws vs = Inr p" "bs = enc_list p"
    by (auto simp: map_sum_def split: sum.splits)
  have lp: "length p < length bs" using p(2) length_enc_list_ge by simp
  have "reads s (enc_list p) t" "length p < 2 ^ 64" using lp s(4,5) p(2) by simp_all
  then obtain s1 u where s1: "st_List s = (Inr (length p), s1)" "idle s1" "reads s1 p u" "at_end u"
    "\<forall>s2. core s2 = core u \<longrightarrow> (\<exists>s3. st_ListEnd s2 = (None, s3) \<and> core s3 = core t \<and> idle s3)"
    using list_complete [OF s(1)] by metis
  obtain s2 where s2: "decodeFields fuel ty ds (zerofields ty) s1 = (Inr vs, s2)" "core s2 = core u"
  proof -
    have "\<exists>s'. decodeFields fuel ty ds (zerofields ty) s1 = (Inr vs, s') \<and> core s' = core u \<and> idle s'"
      by (rule fields_complete [OF _ s1(2) ws(2,4,6) v(4) v(2) [symmetric] v(3) p(1) _ s1(3,4)])
         (use assms(1) lp s(4,6) in auto)
    with that show thesis by blast
  qed
  moreover have "structval ty vs = v" using ws(3) v(1) by (simp add: structval_def split: rtype.splits)
  ultimately show "\<exists>s'. runDecoder fuel (DStruct ty ds) s = (Inr v, s') \<and> core s' = core t \<and> idle s'"
    using s1(1,5) by auto
qed

lemma listArray_complete:
  assumes "complete_at fuel d e"
  shows "complete_at fuel (DListArray ty n d) (WSlice False sl e)"
  unfolding complete_at_def
proof (intro allI impI)
  fix ad s v bs t
  assume s: "idle s" "representable (DListArray ty n d) v" "refWriter ad (WSlice False sl e) v = Inr bs"
    "length bs < 2 ^ 64" "reads s bs t" "length bs \<le> fuel"
  obtain vs where v: "v = VList vs" using s(2) by (cases v) (auto split: rval.splits)
  with s(3) obtain p where p: "refElems (sl \<or> ad) e vs = Inr p" "bs = enc_list p"
    by (auto simp: map_sum_def split: sum.splits)
  have lp: "length p < length bs" using p(2) length_enc_list_ge by simp
  have "reads s (enc_list p) t" "length p < 2 ^ 64" using lp s(4,5) p(2) by simp_all
  then obtain s1 u where s1: "st_List s = (Inr (length p), s1)" "idle s1" "reads s1 p u" "at_end u"
    "\<forall>s2. core s2 = core u \<longrightarrow> (\<exists>s3. st_ListEnd s2 = (None, s3) \<and> core s3 = core t \<and> idle s3)"
    using list_complete [OF s(1)] by metis
  obtain s2 where "decodeArrayElems fuel ty d n 0 s1 = (Inr vs, s2)" "core s2 = core u"
    using arrayElems_complete [OF assms s1(2) _ p(1) _ s1(3), of ty 0] lp s(2,4,6) v by auto
  with s1(1,5) v show "\<exists>s'. runDecoder fuel (DListArray ty n d) s = (Inr v, s') \<and> core s' = core t \<and> idle s'"
    by auto
qed

lemma nil_complete:
  assumes "idle s" "k \<noteq> Byte" "reads s (if k = String then enc_str [] else enc_list []) t"
  shows "\<exists>s1. st_Kind s = (Inr (k, 0), s1) \<and> core s1 = core t"
proof -
  have "tag_bytes k 0 0 = (if k = String then enc_str [] else enc_list [])"
    using assms(2) by (cases k) (simp_all add: tag_bytes_def kind_head_def enc_str_def enc_list_def)
  with st_Kind_complete [OF assms(1), of k 0 0 t] assms show ?thesis by (auto simp: fits_declared_ok)
qed

text \<open>
  The encoding of a value is one raw value; the only raw values that look empty are \<open>0x80\<close> and
  \<open>0xC0\<close>.
\<close>

lemma raw_ok_enc:
  "length (enc_str b) < 2 ^ 64 \<Longrightarrow> raw_ok (enc_str b)" "length (enc_list p) < 2 ^ 64 \<Longrightarrow> raw_ok (enc_list p)"
proof -
  show "raw_ok (enc_str b)" if "length (enc_str b) < 2 ^ 64"
  proof (cases "single b")
    case True
    then show ?thesis by (cases b) (auto simp: raw_ok_def single_def enc_str_def)
  next
    case False
    with that length_enc_str_ge [of b] show ?thesis
      unfolding raw_ok_def by (intro disjI2 exI [of _ String] exI [of _ b]) (simp add: kind_head_string)
  qed
  show "raw_ok (enc_list p)" if "length (enc_list p) < 2 ^ 64"
    using that length_enc_list_ge [of p]
    unfolding raw_ok_def by (intro disjI2 exI [of _ List] exI [of _ p]) (simp add: enc_list_kind)
qed

lemma value_raw_ok:
  "representable d v \<Longrightarrow> val_dec d \<Longrightarrow> matches d w \<Longrightarrow> refWriter ad w v = Inr bs \<Longrightarrow> length bs < 2 ^ 64 \<Longrightarrow> raw_ok bs"
proof (induction d v arbitrary: ad w bs rule: representable.induct)
  case (6 d v)
  show ?case
  proof (cases d)
    case (DSimplePtr e)
    with 6 show ?thesis by (fastforce split: writer.splits)
  next
    case (DNilPtr ty nk e)
    with 6 show ?thesis by (fastforce split: writer.splits)
  qed (use "6.prems" raw_ok_enc in \<open>auto split: rval.splits if_splits\<close>)
next
  case (9 d t v)
  then show ?case using raw_ok_enc
    by (auto simp: interface_writers map_sum_def split: decoder.splits rval.splits sum.splits)
next
  case (1 d b)
  then show ?case using raw_ok_enc by (cases d) auto
next
  case (5 d)
  then show ?case using raw_ok_enc by (cases d) (auto split: writer.splits if_splits)
next
  case (7 d vs)
  then show ?case using raw_ok_enc
    by (cases d) (auto simp: val_dec_def map_sum_def split: writer.splits sum.splits)
next
  case (8 d vs)
  then show ?case using raw_ok_enc by (cases d) (auto simp: map_sum_def split: writer.splits sum.splits)
next
  case (2 d u)
  then show ?case using raw_ok_enc by (cases d) auto
qed (use raw_ok_enc in auto)

lemma hd_kind_head:
  assumes "n < 2 ^ 64" "hd (kind_head k n) = 0x80 \<or> hd (kind_head k n) = 0xC0" "k \<noteq> Byte"
  shows "n = 0"
proof (cases "n < 56")
  case True
  have "unat (word_of_nat (128 + n) :: byte) = 128 + n" "unat (word_of_nat (192 + n) :: byte) = 192 + n"
    using True by (intro unat_byte_of_nat; simp)+
  with assms True show ?thesis
    by (cases k) (auto simp: kind_head_def rlp_head_def word_unat_eq_iff simp del: of_nat_add)
next
  case False
  let ?L = "length (nat_to_be n)"
  have L: "1 \<le> ?L" "?L \<le> 8" using length_size_field [of n] False assms(1) by auto
  then have "unat (word_of_nat (183 + ?L) :: byte) = 183 + ?L" "unat (word_of_nat (247 + ?L) :: byte) = 247 + ?L"
    by (intro unat_byte_of_nat; simp)+
  with assms False L show ?thesis
    by (cases k) (auto simp: kind_head_def rlp_head_def word_unat_eq_iff simp del: of_nat_add)
qed

lemma empty_kind:
  assumes "idle s" "st_Kind s = (Inr (k, 0), s1)" "k \<noteq> Byte" "raw_ok bs" "reads s bs t"
  shows "bs = [0x80] \<or> bs = [0xC0]"
proof -
  have kh: "kind_head k 0 = [0x80] \<or> kind_head k 0 = [0xC0]"
    using assms(3) by (cases k) (simp_all add: kind_head_def rlp_head_def)
  with st_Kind_sound(1) [OF assms(1,2)] assms(3) have "hd (st_r s) = 0x80 \<or> hd (st_r s) = 0xC0"
    by (auto simp: reads_def tag_bytes_def)
  moreover have "hd (st_r s) = hd bs" using assms(5) raw_ok_not_Nil [OF assms(4)] by (simp add: reads_def)
  ultimately have hd: "hd bs = 0x80 \<or> hd bs = 0xC0" by simp
  from assms(4) show ?thesis unfolding raw_ok_def
  proof (elim disjE exE conjE)
    fix x assume "bs = [x]"
    with hd show ?thesis by simp
  next
    fix k c assume c: "k \<noteq> Byte" "length c < 2 ^ 64" "bs = kind_head k (length c) @ c"
    have "kind_head k (length c) \<noteq> []" using c(1) by (cases k) (simp_all add: kind_head_def)
    with c hd hd_kind_head [of "length c" k] have "c = []" by (simp add: hd_append)
    with c show ?thesis by (cases k) (simp_all add: kind_head_def rlp_head_def)
  qed
qed

lemma raw_kind:
  assumes "idle s" "reads s bs t" "raw_ok bs"
  shows "\<exists>k n s1. st_Kind s = (Inr (k, n), s1)"
proof -
  obtain s1 where "st_Raw s = (Inr bs, s1)" using st_Raw_complete [OF assms] by blast
  then show ?thesis by (cases "st_Kind s") (auto simp: st_Raw_def split: sum.splits)
qed

lemma nilPtr_complete:
  assumes "complete_at fuel d e" "val_dec d" "matches d e"
  shows "complete_at fuel (DNilPtr ty nk d) (WPtr nk e)"
  unfolding complete_at_def
proof (intro allI impI)
  fix ad s v bs t
  assume s: "idle s" "representable (DNilPtr ty nk d) v" "refWriter ad (WPtr nk e) v = Inr bs"
    "length bs < 2 ^ 64" "reads s bs t" "length bs \<le> fuel"
  consider "v = VNil" "nk \<noteq> Byte" | u where "v = VPtr u" "representable d u" "bs \<notin> {[0x80], [0xC0]}"
    using s(2,3) assms(3) by (cases v) (auto split: rval.splits)
  then show "\<exists>s'. runDecoder fuel (DNilPtr ty nk d) s = (Inr v, s') \<and> core s' = core t \<and> idle s'"
  proof cases
    case 1
    with s have "reads s (if nk = String then enc_str [] else enc_list []) t" by (auto split: if_splits)
    from nil_complete [OF s(1) 1(2) this] 1 show ?thesis by (auto simp: idle_def rearm_def core_def)
  next
    case (2 u)
    with s(3) have u: "refWriter True e u = Inr bs" by simp
    from complete_atD [OF assms(1) s(1) 2(2) u s(4-6)]
    obtain s' where s': "runDecoder fuel d s = (Inr u, s')" "core s' = core t" "idle s'" by blast
    have raw: "raw_ok bs" by (rule value_raw_ok [OF 2(2) assms(2,3) u s(4)])
    obtain k n s1 where k: "st_Kind s = (Inr (k, n), s1)" using raw_kind [OF s(1,5) raw] by blast
    have "k = Byte \<or> n \<noteq> 0" using empty_kind [OF s(1) _ _ raw s(5), of k s1] k 2(3) by auto
    moreover have "runDecoder fuel d s1 = (Inr u, s')"
      by (rule runDecoder_kind_first [OF s(1) k assms(2,3) s'(1)])
    ultimately show ?thesis using k s' 2(1) by auto
  qed
qed

lemma interface_complete:
  assumes "\<And>f. f < fuel \<Longrightarrow> complete_at f (DInterface 0) WInterface"
  shows "complete_at fuel (DInterface 0) WInterface"
  unfolding complete_at_def
proof (intro allI impI)
  fix ad s v bs t
  assume s: "idle s" "representable (DInterface 0) v" "refWriter ad WInterface v = Inr bs"
    "length bs < 2 ^ 64" "reads s bs t" "length bs \<le> fuel"
  have "raw_ok bs" by (rule value_raw_ok [OF s(2) _ _ s(3,4)]) (simp_all add: val_dec_def)
  then obtain k n s1 where k: "st_Kind s = (Inr (k, n), s1)" using raw_kind [OF s(1,5)] by blast
  note kf = kind_first [OF s(1) k]
  consider b where "v = VIface bytesliceType (VBytes b)" "bs = enc_str b"
    | vs p where "v = VIface ifslice (VList vs)" "\<forall>u \<in> set vs. representable (DInterface 0) u"
        "refElems True WInterface vs = Inr p" "bs = enc_list p"
    using s(2,3)
    by (cases v) (auto simp: interface_writers map_sum_def split: rval.splits sum.splits)
  then show "\<exists>s'. runDecoder fuel (DInterface 0) s = (Inr v, s') \<and> core s' = core t \<and> idle s'"
  proof cases
    case (1 b)
    have "length b < 2 ^ 64" using s(4) 1 length_enc_str_ge [of b] by simp
    then obtain s' where s': "st_Bytes s = (Inr b, s')" "core s' = core t" "idle s'"
      using st_Bytes_complete [OF s(1)] s(5) 1 by blast
    then have "k \<noteq> List" using k by (auto simp: st_Bytes_def)
    with k s' kf 1 show ?thesis by simp
  next
    case (2 vs p)
    then obtain s' where s': "decodeListSlice fuel ifslice (DInterface 0) s = (Inr vs, s')" "core s' = core t" "idle s'"
      using listSlice_complete [of fuel "DInterface 0" WInterface s vs True p t ifslice] assms s(1,4-6)
      by (auto simp: val_dec_def)
    then have "k = List" using k by (auto simp: decodeListSlice.simps st_List_def split: if_splits)
    moreover have "decodeListSlice fuel ifslice (DInterface 0) s1 = (Inr vs, s')"
      using s'(1) by (simp add: decodeListSlice.simps kf)
    ultimately show ?thesis using k s' 2 by simp
  qed
qed

lemma string_complete:
  assumes "idle s" "reads s (enc_str b) t" "length (enc_str b) < 2 ^ 64"
  shows "\<exists>s'. st_Bytes s = (Inr b, s') \<and> core s' = core t \<and> idle s'"
  using st_Bytes_complete [OF assms(1,2)] assms(3) length_enc_str_ge [of b] by simp

lemma bigInt_complete:
  assumes "idle s" "reads s (enc_str (nat_to_be (nat i))) t" "length (enc_str (nat_to_be (nat i))) < 2 ^ 64" "0 \<le> i"
  shows "\<exists>s'. decodeBigInt s = (Inr i, s') \<and> core s' = core t \<and> idle s'"
proof -
  have "nat_to_be (nat i) = [] \<or> nat_to_be (nat i) ! 0 \<noteq> 0"
    using hd_nat_to_be [of "nat i"] by (cases "nat_to_be (nat i)"; cases "nat i = 0") auto
  with string_complete [OF assms(1-3)] assms(4) show ?thesis by (auto simp: decodeBigInt_def)
qed

lemma byteArray_complete:
  assumes "idle s" "reads s (enc_str b) t" "length (enc_str b) < 2 ^ 64" "length b \<noteq> 1"
  shows "\<exists>s'. decodeByteArray ty (length b) s = (Inr (VBytes b), s') \<and> core s' = core t \<and> idle s'"
proof -
  have "\<not> single b" using assms(4) by (simp add: single_def)
  with assms(2) obtain t1 where t1: "reads s (kind_head String (length b)) t1" "reads t1 b t"
    by (auto simp: kind_head_string dest: reads_split)
  have "declared_ok (length b) t1" using t1(2) by (auto simp: reads_def intro: fits_declared_ok)
  moreover have "length b < 2 ^ 64" using assms(3) length_enc_str_ge [of b] by simp
  ultimately obtain s1 where s1: "st_Kind s = (Inr (String, length b), s1)" "core s1 = core t1"
    using st_Kind_complete [OF assms(1), of String "length b" 0 t1] t1 by (auto simp: tag_bytes_def)
  from reads_readFull [OF reads_core [OF t1(2) s1(2) [symmetric] refl]] s1(1) assms(4) show ?thesis
    by (auto simp: decodeByteArray_def)
qed

lemma complete_atI:
  assumes "\<And>ad s v bs t. idle s \<Longrightarrow> representable d v \<Longrightarrow> refWriter ad w v = Inr bs \<Longrightarrow> length bs < 2 ^ 64 \<Longrightarrow> reads s bs t
    \<Longrightarrow> \<exists>s'. runDecoder fuel d s = (Inr v, s') \<and> core s' = core t \<and> idle s'"
  shows "complete_at fuel d w"
  using assms unfolding complete_at_def by blast

lemma prim_complete:
  "complete_at fuel DRawValue WRawValue" "complete_at fuel DBigInt WBigIntPtr"
  "complete_at fuel DBigIntNoPtr WBigIntNoPtr" "complete_at fuel DBool WBool"
  "complete_at fuel DString WString" "complete_at fuel (DByteSlice ty) WBytes"
  "bits \<le> 64 \<Longrightarrow> complete_at fuel (DUint bits) WUint"
  "n \<noteq> 1 \<Longrightarrow> complete_at fuel (DByteArray ty n) WByteArray"
proof (rule_tac [!] complete_atI, goal_cases)
  case (1 ad s v bs t)
  then obtain b where "v = VBytes b" "bs = b" "raw_ok b" by (cases v) (auto split: rval.splits)
  with st_Raw_complete [OF 1(1), of b t] 1 show ?case by (auto simp: decodeRawValue_def)
next
  case (2 ad s v bs t)
  then obtain i where "v = VPtr (VBig i)" "0 \<le> i" "bs = enc_str (nat_to_be (nat i))"
    by (cases v) (auto split: rval.splits if_splits)
  with bigInt_complete [OF 2(1), of i t] 2 show ?case by auto
next
  case (3 ad s v bs t)
  then obtain i where "v = VBig i" "0 \<le> i" "bs = enc_str (nat_to_be (nat i))"
    by (cases v) (auto split: rval.splits if_splits)
  with bigInt_complete [OF 3(1), of i t] 3 show ?case by auto
next
  case (4 ad s v bs t)
  then obtain b where "v = VBool b" "bs = enc_str (if b then [1] else [])"
    by (cases v) (auto split: rval.splits)
  with st_Bool_complete [OF 4(1), of b t] 4 show ?case by (auto simp: decodeBool_def)
next
  case (5 ad s v bs t)
  then obtain b where "v = VBytes b" "bs = enc_str b" by (cases v) (auto split: rval.splits)
  with string_complete [OF 5(1), of b t] 5 show ?case by (auto simp: decodeString_def)
next
  case (6 ad s v bs t)
  then obtain b where "v = VBytes b" "bs = enc_str b" by (cases v) (auto split: rval.splits)
  with string_complete [OF 6(1), of b t] 6 show ?case by (auto simp: decodeByteSlice_def)
next
  case (7 ad s v bs t)
  then obtain u where "v = VUint u" "bs = enc_str (nat_to_be (unat u))" "length (nat_to_be (unat u)) \<le> bits div 8"
    by (cases v) (auto split: rval.splits)
  with st_uint_complete [OF 7(2), of "unat u" t bits] 7 show ?case by (auto simp: decodeUint_def)
next
  case (8 ad s v bs t)
  then obtain b where "v = VBytes b" "bs = enc_str b" "length b = n" by (cases v) (auto split: rval.splits)
  with byteArray_complete [OF 8(2), of b t ty] 8 show ?case by auto
qed

lemma container_complete:
  assumes "\<And>f. f < fuel \<Longrightarrow> complete_at f d e" "val_dec d" "matches d e"
  shows "complete_at fuel (DListSlice ty d) (WSlice False sl e)" "complete_lt fuel (DSliceElems d) (WSlice True sl e)"
proof -
  show "complete_at fuel (DListSlice ty d) (WSlice False sl e)" unfolding complete_at_def
  proof (intro allI impI)
    fix ad s v bs t
    assume s: "idle s" "representable (DListSlice ty d) v" "refWriter ad (WSlice False sl e) v = Inr bs"
      "length bs < 2 ^ 64" "reads s bs t" "length bs \<le> fuel"
    obtain vs where v: "v = VList vs" using s(2) by (cases v) (auto split: rval.splits)
    with s(3) obtain p where p: "refElems (sl \<or> ad) e vs = Inr p" "bs = enc_list p"
      by (auto simp: map_sum_def split: sum.splits)
    from listSlice_complete [OF assms s(1) _ p(1), of fuel t ty] s v p(2)
    show "\<exists>s'. runDecoder fuel (DListSlice ty d) s = (Inr v, s') \<and> core s' = core t \<and> idle s'" by auto
  qed
  show "complete_lt fuel (DSliceElems d) (WSlice True sl e)" unfolding complete_lt_def
  proof (intro allI impI)
    fix ad s v bs t
    assume s: "idle s" "representable (DSliceElems d) v" "refWriter ad (WSlice True sl e) v = Inr bs"
      "length bs < 2 ^ 64" "reads s bs t" "length bs < fuel" "val_dec (DSliceElems d) \<or> at_end t"
    obtain vs where v: "v = VList vs" using s(2) by (cases v) (auto split: rval.splits)
    with s(3) have p: "refElems (sl \<or> ad) e vs = Inr bs" by simp
    from sliceElems_complete [OF assms s(1) _ p s(4,5), of fuel 0] s v
    show "\<exists>s'. runDecoder fuel (DSliceElems d) s = (Inr v, s') \<and> core s' = core t \<and> idle s'"
      by (auto simp: val_dec_def)
  qed
qed

lemma simplePtr_complete:
  assumes "complete_at fuel d e"
  shows "complete_at fuel (DSimplePtr d) (WPtr k e)"
  unfolding complete_at_def
proof (intro allI impI)
  fix ad s v bs t
  assume s: "idle s" "representable (DSimplePtr d) v" "refWriter ad (WPtr k e) v = Inr bs"
    "length bs < 2 ^ 64" "reads s bs t" "length bs \<le> fuel"
  obtain u where "v = VPtr u" "representable d u" "refWriter True e u = Inr bs"
    using s(2,3) by (cases v) (auto split: rval.splits)
  with complete_atD [OF assms s(1) _ _ s(4-6), of u True]
  show "\<exists>s'. runDecoder fuel (DSimplePtr d) s = (Inr v, s') \<and> core s' = core t \<and> idle s'" by auto
qed

lemma decoder_complete: "matches d w \<Longrightarrow> complete_lt fuel d w \<and> (val_dec d \<longrightarrow> complete_at fuel d w)"
proof (induction fuel arbitrary: d w rule: less_induct)
  case (less fuel)
  have smaller: "complete_at f d e" if "f < fuel" "val_dec d" "matches d e" for f d e
    using less.IH [OF that(1,3)] that(2) by blast
  from less.prems show ?case
  proof (induction d arbitrary: w)
    case (DListSlice ty d)
    then obtain sl e where e: "w = WSlice False sl e" "val_dec d" "matches d e" by (auto split: writer.splits)
    with smaller container_complete(1) [of fuel d e] show ?case by (blast intro: complete_at_lt)
  next
    case (DListArray ty n d)
    then obtain sl e where e: "w = WSlice False sl e" "val_dec d" "matches d e" by (auto split: writer.splits)
    with DListArray.IH listArray_complete show ?case by (blast intro: complete_at_lt)
  next
    case (DSimplePtr d)
    then obtain k e where e: "w = WPtr k e" "val_dec d" "matches d e" by (auto split: writer.splits)
    with DSimplePtr.IH simplePtr_complete show ?case by (blast intro: complete_at_lt)
  next
    case (DNilPtr ty nk d)
    then obtain e where e: "w = WPtr nk e" "val_dec d" "matches d e" by (auto split: writer.splits)
    with DNilPtr.IH nilPtr_complete show ?case by (blast intro: complete_at_lt)
  next
    case (DSliceElems d)
    then obtain sl e where e: "w = WSlice True sl e" "val_dec d" "matches d e" by (auto split: writer.splits)
    with smaller container_complete(2) [of fuel d e] show ?case by (auto simp: val_dec_def)
  next
    case (DStruct ty ds)
    have "complete_at fuel (DStruct ty ds) w"
      by (rule struct_complete [OF _ DStruct.prems]) (use DStruct.IH in auto)
    then show ?case by (blast intro: complete_at_lt)
  next
    case (DInterface m)
    then have "m = 0" "w = WInterface" by simp_all
    with smaller [of _ "DInterface 0" WInterface] interface_complete [of fuel] show ?case
      by (auto simp: val_dec_def intro: complete_at_lt)
  qed (use prim_complete complete_at_lt in \<open>auto\<close>)
qed

text \<open>The values of a type that survive a round trip.\<close>

definition representable_as :: "rtype \<Rightarrow> rval \<Rightarrow> bool" where
  "representable_as ty v \<longleftrightarrow> (\<exists>d. makeDecoder ty no_tags = Inr d \<and> representable d v)"

lemma refElems_total: "\<forall>v \<in> set vs. \<exists>b. refWriter ad w v = Inr b \<Longrightarrow> \<exists>b. refElems ad w vs = Inr b"
  by (induction vs) auto

lemma refFields_total:
  "matchesFields ds ws \<Longrightarrow>
   \<forall>(i, d) \<in> set ds. i < length vs \<and> (\<forall>w. matches d w \<longrightarrow> (\<exists>b. refWriter ad w (vs ! i) = Inr b)) \<Longrightarrow>
   \<exists>b. refFields ad ws vs = Inr b"
proof (induction ds arbitrary: ws)
  case (Cons f ds)
  then show ?case by (cases f; cases ws) fastforce+
qed simp

text \<open>The format has an encoding for every representable value.\<close>

lemma representable_encodes: "representable d v \<Longrightarrow> matches d w \<Longrightarrow> \<exists>b. refWriter ad w v = Inr b"
proof (induction d v arbitrary: ad w rule: representable.induct)
  case (6 d v)
  show ?case
  proof (cases d)
    case (DSimplePtr e)
    with 6 show ?thesis by (fastforce split: writer.splits)
  next
    case (DNilPtr ty nk e)
    with 6 show ?thesis by (fastforce split: writer.splits)
  qed (use "6.prems" in \<open>auto split: rval.splits if_splits\<close>)
next
  case (7 d vs)
  have total: "\<exists>b. refElems ad e vs = Inr b"
    if "\<forall>v \<in> set vs. \<exists>b. refWriter ad e v = Inr b" for ad e using refElems_total that by blast
  show ?case
  proof (cases d)
    case (DListSlice ty e)
    with "7.prems" obtain sl w' where w: "w = WSlice False sl w'" "matches e w'" by (auto split: writer.splits)
    with "7.IH"(1) [OF DListSlice] "7.prems"(1) DListSlice total [of "sl \<or> ad" w'] show ?thesis by fastforce
  next
    case (DSliceElems e)
    with "7.prems" obtain sl w' where w: "w = WSlice True sl w'" "matches e w'" by (auto split: writer.splits)
    with "7.IH"(2) [OF DSliceElems] "7.prems"(1) DSliceElems total [of "sl \<or> ad" w'] show ?thesis by fastforce
  next
    case (DListArray ty n e)
    with "7.prems" obtain sl w' where w: "w = WSlice False sl w'" "matches e w'" by (auto split: writer.splits)
    with "7.IH"(3) [OF DListArray] "7.prems"(1) DListArray total [of "sl \<or> ad" w'] show ?thesis by fastforce
  qed (use "7.prems" in simp_all)
next
  case (8 d vs)
  show ?case
  proof (cases d)
    case (DStruct ty ds)
    with "8.prems" obtain ws where ws: "w = WStruct ws" "matchesFields ds ws"
      and bound: "\<forall>i \<in> set (map fst ds). i < length vs" by (auto split: writer.splits)
    have "\<exists>b. refWriter ad e (vs ! i) = Inr b" if "(i, d') \<in> set ds" "matches d' e" for i d' e
      using "8.IH" [OF DStruct that(1)] bound that "8.prems"(1) DStruct by fastforce
    with bound refFields_total [OF ws(2), of vs ad] obtain b where "refFields ad ws vs = Inr b" by fastforce
    with ws(1) show ?thesis by simp
  qed (use "8.prems" in simp_all)
next
  case (9 d t v)
  then obtain m where d: "d = DInterface m" "w = WInterface" by (cases d) auto
  show ?case
  proof (cases v)
    case (VList vs)
    have "\<exists>b. refElems True WInterface vs = Inr b"
      using "9.IH" "9.prems" d VList by (intro refElems_total) fastforce
    with "9.prems" d VList show ?thesis by (auto simp: interface_writers)
  qed (use "9.prems" d in \<open>auto simp: interface_writers\<close>)
qed (auto split: decoder.splits writer.splits)

lemma decode_encode:
  assumes "codec_type ty" "representable_as ty v" "refEncode ty v = Inr b" "length b < 2 ^ 64"
  shows "DecodeBytes b (PointerTo ty) = Inr v"
proof -
  let ?s = "Reset b True (length b)"
  obtain d where d: "makeDecoder ty no_tags = Inr d" "representable d v"
    using assms(2) by (auto simp: representable_as_def)
  obtain w where w: "makeWriter ty no_tags = Inr w" "matches d w" and vd: "val_dec d"
    using make_matches(1) [OF assms(1) _ d(1)] by auto
  have "idle ?s" by (simp add: idle_def Reset_def)
  moreover have "refWriter False w v = Inr b" using assms(3) w(1) by (simp add: refEncode_def)
  moreover have "reads ?s b (advance (length b) ?s)"
    by (rule reads_advance [where rest = "[]"]) (simp_all add: Reset_def fits_def)
  moreover have "complete_at (Suc (length (st_r ?s))) d w" using decoder_complete [OF w(2)] vd by blast
  ultimately obtain s' where s': "runDecoder (Suc (length (st_r ?s))) d ?s = (Inr v, s')"
    "core s' = core (advance (length b) ?s)"
    using complete_atD [of _ d w ?s v False b] d(2) assms(4) by (fastforce simp: Reset_def)
  then have "st_r s' = []" by (simp add: core_def advance_def Reset_def)
  with s'(1) d show ?thesis by (simp add: DecodeBytes_def st_Decode_def)
qed

lemma representable_refEncode:
  assumes "codec_type ty" "representable_as ty v"
  obtains b where "refEncode ty v = Inr b"
proof -
  obtain d where d: "makeDecoder ty no_tags = Inr d" "representable d v"
    using assms(2) by (auto simp: representable_as_def)
  obtain w where "makeWriter ty no_tags = Inr w" "matches d w"
    using make_matches(1) [OF assms(1) _ d(1)] by auto
  with representable_encodes [OF d(2)] that show thesis by (auto simp: refEncode_def)
qed

lemma parseTagWords_fuel: "parseTagWords ty f fi l ws ts \<noteq> Inl OutOfFuel"
  by (induction ws arbitrary: ts) (auto simp: Let_def split: prod.splits)

lemma parseStructTag_fuel: "parseStructTag ty f fi l \<noteq> Inl OutOfFuel"
  unfolding parseStructTag_def by (rule parseTagWords_fuel)

lemma structFields_from_fuel: "structFields_from ty l i fs \<noteq> Inl OutOfFuel"
  by (induction fs arbitrary: i)
     (auto simp: Let_def parseStructTag_fuel split: prod.splits sum.splits)

lemma makeDecoder_fuel:
  "makeDecoder ty ts \<noteq> Inl OutOfFuel" "makeFieldDecoders ty l i fs \<noteq> Inl OutOfFuel"
proof (induction ty ts and ty l i fs rule: makeDecoder_makeFieldDecoders.induct)
  case (15 ty l i name tag exported t fs)
  then show ?case using parseStructTag_fuel [of ty "(name, tag, exported, t)" i l]
    by (fastforce split: sum.splits if_splits)
qed (auto simp: structFields_def structFields_from_fuel split: sum.splits)

lemma DecodeBytes_fuel:
  assumes "codec_type ty"
  shows "DecodeBytes b (PointerTo ty) \<noteq> Inl OutOfFuel"
proof (cases "makeDecoder ty no_tags")
  case (Inl e)
  then show ?thesis using makeDecoder_fuel(1) [of ty no_tags] by (auto simp: DecodeBytes_def st_Decode_def)
next
  case (Inr d)
  let ?s = "Reset b True (length b)"
  obtain w where w: "matches d w" and vd: "val_dec d" using make_matches(1) [OF assms _ Inr] by auto
  have "fuel_ok (Suc (length (st_r ?s))) d" using runDecoder_fuel [OF w] vd by blast
  then have "runDecoder (Suc (length (st_r ?s))) d ?s \<noteq> (Inl OutOfFuel, s')" for s'
    by (rule fuel_okD) (simp_all add: idle_def Reset_def)
  with Inr show ?thesis
    by (auto simp: DecodeBytes_def st_Decode_def split: prod.splits sum.splits rlp_error.splits)
qed

end
