(* ===== verification/RlpProps.thy ===== *)
theory RlpProps
  imports RlpCodec
begin

text \<open>
  The properties of package \<open>rlp\<close>: encoding and decoding are inverse to each other, decoding
  terminates, the encoder with its separate list headers computes the reference encoding on every
  way out of the buffer, and the functions that read encoded data accept exactly canonical data.
\<close>

section \<open>Concrete data for the witnesses\<close>

text \<open>
  The struct \<open>Account\<close> of \<open>core/state/state_object.go\<close> with a shorter hash, a value of it and its
  encoding.
\<close>

definition demoType :: rtype where
  "demoType = TStruct ''Account''
     [(''Nonce'', '''', True, TUint 64), (''Balance'', '''', True, TPtr TBigInt),
      (''Root'', '''', True, TArray 2 (TUint 8)), (''CodeHash'', '''', True, TSlice (TUint 8))]"

definition demoVal :: rval where
  "demoVal = VStruct [VUint 1, VPtr (VBig 2), VBytes [5, 6], VBytes [0x80]]"

definition demoEnc :: bytes where
  "demoEnc = [0xC7, 0x01, 0x02, 0x82, 0x05, 0x06, 0x81, 0x80]"

lemma demo_facts:
  "codec_type demoType" "DecodeBytes demoEnc (PointerTo demoType) = Inr demoVal"
  "refEncode demoType demoVal = Inr demoEnc"
  by code_simp+

lemma demo_length: "length demoEnc < 2 ^ 64"
  by (simp add: demoEnc_def)

lemma demo_representable: "representable_as demoType demoVal"
proof -
  define dd where "dd = DStruct demoType
    [(0, DUint 64), (1, DBigInt), (2, DByteArray (TArray 2 (TUint 8)) 2), (3, DByteSlice (TSlice (TUint 8)))]"
  have "makeDecoder demoType no_tags = Inr dd" unfolding dd_def by code_simp
  moreover have "representable dd demoVal"
    unfolding dd_def demoVal_def
    by (auto simp: zerofields_def demoType_def nth_Cons' nat_to_be_small)
  ultimately show ?thesis unfolding representable_as_def by blast
qed

section \<open>Encoding and decoding\<close>

text \<open>C1. Canonicity: whatever \<open>DecodeBytes\<close> accepts is exactly the encoding, by
  \<open>EncodeToBytes\<close>, of the value it returns, so no two inputs decode to the same value. Proved for the
  types of \<open>codec_type\<close>: no array \<open>[1]byte\<close> anywhere in the type, no interface with methods and no
  type with its own \<open>EncodeRLP\<close>; and for inputs shorter than \<open>2 ^ 64\<close> bytes. With \<open>[1]byte\<close> it fails:
  \<open>struct{A,B [1]byte}\<close> accepts \<open>C1 00\<close>, which is not its encoding, because \<open>decodeByteArray\<close>
  leaves the kind of the byte 0 cached.\<close>

theorem DecodeBytes_canonical:
  assumes "codec_type ty" "DecodeBytes b (PointerTo ty) = Inr v" "length b < 2 ^ 64"
  shows "EncodeToBytes ty v = Inr b"
  using EncodeToBytes_ref [of ty v] decode_canonical [OF assms(1,2)] assms(3) by simp

theorem DecodeBytes_canonical_witness: "EncodeToBytes demoType demoVal = Inr demoEnc"
  by (rule DecodeBytes_canonical [OF demo_facts(1,2) demo_length])

text \<open>C2. Round trip: a value that the format can represent has an encoding; when that is shorter
  than \<open>2 ^ 64\<close> bytes, \<open>EncodeToBytes\<close> returns it without error, and decoding it into a fresh variable
  of the same type gives the value back. Proved for the types of \<open>codec_type\<close>: no array \<open>[1]byte\<close>
  anywhere in the type, no interface with methods and no type with its own \<open>EncodeRLP\<close>. Representable
  are the non-negative big integers, the unsigned integers of the field's width, arrays of their
  length, nil pointers where a \<open>nil\<close> tag admits them and non-nil pointers to values that do not
  encode as empty there, zero values in the fields that are not encoded, and in an interface byte
  slices and lists of such interfaces.\<close>

theorem EncodeToBytes_DecodeBytes:
  assumes "codec_type ty" "representable_as ty v"
  shows "\<exists>b. refEncode ty v = Inr b
    \<and> (length b < 2 ^ 64 \<longrightarrow> EncodeToBytes ty v = Inr b \<and> DecodeBytes b (PointerTo ty) = Inr v)"
proof -
  obtain b where "refEncode ty v = Inr b" by (rule representable_refEncode [OF assms])
  with EncodeToBytes_ref [of ty v] decode_encode [OF assms] show ?thesis by simp
qed

theorem EncodeToBytes_DecodeBytes_witness:
  "EncodeToBytes demoType demoVal = Inr demoEnc \<and> DecodeBytes demoEnc (PointerTo demoType) = Inr demoVal"
  using EncodeToBytes_DecodeBytes [OF demo_facts(1) demo_representable] demo_facts(3) demo_length by simp



text \<open>The exception: on the two bytes \<open>C1 00\<close>, decoding into a slice of \<open>[1]byte\<close> runs out of
  every amount of fuel, because \<open>decodeByteArray\<close> leaves the kind of the byte 0 cached.\<close>

theorem decode_byteArray1_diverges:
  "fst (runDecoder fuel (DListSlice (TSlice (TArray 1 (TUint 8))) (DByteArray (TArray 1 (TUint 8)) 1))
      (Reset [0xC1, 0x00] True 2)) = Inl OutOfFuel
   \<and> makeDecoder (TSlice (TArray 1 (TUint 8))) no_tags
      = Inr (DListSlice (TSlice (TArray 1 (TUint 8))) (DByteArray (TArray 1 (TUint 8)) 1))"
  by (simp only: byteArray1_loops) (simp add: isByte_def no_tags_def)

section \<open>The encoder\<close>

text \<open>C3. The buffered encoder is correct: \<open>EncodeToBytes\<close>, which collects string data and list
  headers separately and merges them at the end, returns the bytes of the direct-style reference
  encoder, and fails with the same error on the same values, provided that the reference encoding,
  where there is one, is shorter than \<open>2 ^ 64\<close> bytes.\<close>

theorem EncodeToBytes_reference:
  assumes "\<And>bs. refEncode ty v = Inr bs \<Longrightarrow> length bs < 2 ^ 64"
  shows "EncodeToBytes ty v = refEncode ty v"
  by (rule EncodeToBytes_ref [OF assms])

theorem EncodeToBytes_reference_witness:
  "EncodeToBytes demoType demoVal = refEncode demoType demoVal"
  by (rule EncodeToBytes_reference) (use demo_facts(3) demo_length in simp)

text \<open>
  A value whose pointer type is an \<open>Encoder\<close> is refused at the top level, where it cannot be
  addressed, and encoded by its own method behind a pointer.
\<close>

lemma encoder_by_pointer:
  "EncodeToBytes (TEncoder name t) (VEncoder v) = Inl (unadressable (TEncoder name t))"
  "EncodeToBytes (TPtr (TEncoder name t)) (VPtr (VEncoder v)) = EncodeToBytes t v"
  by (simp_all add: EncodeToBytes_def eb_encode_def)

text \<open>\<open>Encode\<close> to an \<open>io.Writer\<close>: whatever the writer does, it receives a prefix of the reference
  encoding, and all of it when \<open>Encode\<close> returns no error.\<close>

theorem Encode_writes_prefix:
  assumes "io_writer wr out_of" "refEncode ty v = Inr bs" "length bs < 2 ^ 64" "Encode wr s ty v = (err, s')"
  shows "\<exists>p q. bs = p @ q \<and> out_of s' = out_of s @ p \<and> (err = None \<longrightarrow> q = [])"
  using Encode_ref [OF assms] by (simp only: wrote_def)

text \<open>A writer with room for three more bytes.\<close>

definition tinyWriter :: "bytes \<Rightarrow> bytes \<Rightarrow> nat \<times> rlp_error option \<times> bytes" where
  "tinyWriter b s =
     (let n = min (length b) (3 - length s) in (n, if n < length b then Some io_ErrUnexpectedEOF else None, s @ take n b))"

theorem Encode_writes_prefix_witness:
  "\<exists>p q. demoEnc = p @ q \<and> snd (Encode tinyWriter [] demoType demoVal) = [] @ p
     \<and> (fst (Encode tinyWriter [] demoType demoVal) = None \<longrightarrow> q = [])"
  using Encode_writes_prefix [of tinyWriter "\<lambda>s. s" demoType demoVal demoEnc "[]"
      "fst (Encode tinyWriter [] demoType demoVal)" "snd (Encode tinyWriter [] demoType demoVal)"]
    demo_facts(3) demo_length
  by (auto simp: io_writer_def tinyWriter_def Let_def)

text \<open>A sequence of reads with buffers of the given lengths.\<close>

fun er_Reads :: "nat list \<Rightarrow> encReader \<Rightarrow> bytes \<times> encReader" where
  "er_Reads [] r = ([], r)"
| "er_Reads (m # ms) r =
     (case er_Read m r of (out, _, r1) \<Rightarrow> (case er_Reads ms r1 of (outs, r2) \<Rightarrow> (out @ outs, r2)))"

lemma er_Reads_spec: "er_ok r \<Longrightarrow> fst (er_Reads ms r) = take (sum_list ms) (er_rest r)"
proof (induction ms arbitrary: r)
  case (Cons m ms)
  obtain r' where r': "er_Read m r = (take m (er_rest r),
      if length (er_rest r) \<le> m then Some io_EOF else None, r')" "er_ok r'" "er_rest r' = drop m (er_rest r)"
    using er_Read_loop_spec [OF Cons.prems, of "[]" m] by (auto simp: er_Read_def)
  with Cons.IH [of r'] show ?case by (cases "er_Reads ms r'") (simp add: take_add)
qed simp

text \<open>C6. \<open>EncodeToReader\<close>, for a value with a reference encoding of less than \<open>2 ^ 64\<close> bytes: the reported size is the length of the encoding, and however the caller
  sizes its reads, the bytes it gets are the encoding from the beginning, without gaps.\<close>

theorem EncodeToReader_chunks:
  assumes "refEncode ty v = Inr bs" "length bs < 2 ^ 64"
  shows "\<exists>r. EncodeToReader ty v = Inr (length bs, r) \<and> fst (er_Reads ms r) = take (sum_list ms) bs"
  using EncodeToReader_ref [OF assms] er_Reads_spec by metis

theorem EncodeToReader_chunks_witness:
  "\<exists>r. EncodeToReader demoType demoVal = Inr (length demoEnc, r)
     \<and> fst (er_Reads [3, 0, 4] r) = take (sum_list [3, 0, 4]) demoEnc"
  by (rule EncodeToReader_chunks [OF demo_facts(3) demo_length])

section \<open>Reading encoded data\<close>

text \<open>C5. \<open>Split\<close> accepts an input, of less than \<open>2 ^ 64\<close> bytes, exactly if it starts with a canonical header of the kind it
  reports, followed by the content it reports and the rest it reports.\<close>

theorem Split_exact:
  assumes "length b < 2 ^ 64"
  shows "Split b = Inr (k, c, rest) \<longleftrightarrow> b = kind_head k (length c) @ c @ rest \<and> canon k c"
  by (rule Split_iff [OF assms])

theorem Split_exact_witness:
  "Split [0x82, 0x01, 0x02, 0x03] = Inr (String, [0x01, 0x02], [0x03])"
  using Split_exact [of "[0x82, 0x01, 0x02, 0x03]" String "[0x01, 0x02]" "[0x03]"]
  by (simp add: kind_head_def rlp_head_def canon_def single_def)

text \<open>\<open>CountValues\<close> returns the number of encoded values in a concatenation of encodings.\<close>

theorem CountValues_counts:
  assumes "length (concat (map rlp_enc xs)) < 2 ^ 63"
  shows "CountValues (concat (map rlp_enc xs)) = Inr (length xs)"
  using CountValues_from_enc [OF assms, of 0] by (simp add: CountValues_def)

theorem CountValues_counts_witness:
  "CountValues (concat (map rlp_enc [Str [1], Lst [Str []], Str [200]])) = Inr 3"
  using CountValues_counts [of "[Str [1], Lst [Str []], Str [200]]"]
  by (simp add: enc_str_def enc_list_def rlp_head_def)

text \<open>\<open>AppendUint64\<close>, with its hand-written case for every number of bytes, appends the same
  bytes as the encoder writes for the integer.\<close>

theorem AppendUint64_encodes:
  "AppendUint64 b i = b @ enc_str (nat_to_be (unat i)) \<and> eb_str (writeUint i w) = AppendUint64 (eb_str w) i"
  by (simp add: AppendUint64_eq writeUint_eq eb_Write_def)

lemma Reset_ok: "stream_ok (Reset r sized limit)"
  by (simp add: stream_ok_def Reset_def)

lemma NewListStream_ok: "stream_ok (NewListStream r sized n)"
  by (simp add: stream_ok_def NewListStream_def Reset_def)

text \<open>C35. Every operation of a \<open>Stream\<close>, the reflective \<open>Decode\<close> into any target included, keeps the
  positions of all open lists within their sizes and every list inside its enclosing one, and the
  streams of \<open>NewStream\<close>, \<open>NewListStream\<close> and \<open>Reset\<close> start so: no size computation of the source
  wraps around.\<close>

theorem stream_operations_ok:
  assumes "stream_ok s"
  shows "stream_ok (snd (st_Kind s)) \<and> stream_ok (snd (st_Bytes s)) \<and> stream_ok (snd (st_Raw s))
    \<and> stream_ok (snd (st_uint mb s)) \<and> stream_ok (snd (st_Bool s)) \<and> stream_ok (snd (st_List s))
    \<and> stream_ok (snd (st_ListEnd s)) \<and> stream_ok (snd (st_Decode val s)) \<and> stream_ok (Reset r sized limit)
    \<and> stream_ok (NewStream r sized limit) \<and> stream_ok (NewListStream r sized n)"
  by (simp add: stream_snd_ok assms st_Decode_ok Reset_ok NewStream_def NewListStream_ok)

theorem stream_operations_ok_witness:
  "stream_ok (snd (st_List (Reset [0xC1, 0x80] True 0)))"
  using stream_operations_ok [OF Reset_ok] by blast

text \<open>C36. Of the fields of a struct, only the last exported one can be decoded as a tail: an accepted
  \<open>tail\<close> tag is on a field of slice type, and the field decoders read exactly one value each except
  possibly the last.\<close>

theorem tail_field_last:
  assumes "makeDecoder (TStruct name fs) no_tags = Inr (DStruct ty ds)"
  shows "tails_last ds \<and> ty = TStruct name fs"
  using assms struct_tails_last by (auto split: sum.splits)

definition tailFields :: "field_decl list" where
  "tailFields = [(''A'', '''', True, TUint 64), (''B'', ''tail'', True, TSlice (TUint 64))]"

theorem tail_field_last_witness:
  "tails_last [(0, DUint 64), (1, DSliceElems (DUint 64))] \<and> TStruct ''T'' tailFields = TStruct ''T'' tailFields"
proof (rule tail_field_last)
  show "makeDecoder (TStruct ''T'' tailFields) no_tags
      = Inr (DStruct (TStruct ''T'' tailFields) [(0, DUint 64), (1, DSliceElems (DUint 64))])"
    by code_simp
qed

end
