(* ===== verification/Common.thy ===== *)
theory Common
  imports RlpHead
begin

text \<open>
  Package \<open>common\<close>: hashes and addresses (\<open>common/types.go\<close>) and the byte helpers
  (\<open>common/bytes.go\<close>). The arrays \<open>[32]byte\<close> and \<open>[20]byte\<close> are byte lists of that length, strings
  are \<open>string\<close>. A nil slice is the empty list.
\<close>

type_synonym Hash = bytes
type_synonym Address = bytes

definition HashLength :: nat where "HashLength = 32"
definition AddressLength :: nat where "AddressLength = 20"

definition zeroHash :: Hash where "zeroHash = replicate HashLength 0"
definition zeroAddress :: Address where "zeroAddress = replicate AddressLength 0"

section \<open>Hashes and addresses\<close>

definition Hash_SetBytes :: "Hash \<Rightarrow> bytes \<Rightarrow> Hash" where
  "Hash_SetBytes h b =
     (let b' = (if length b > length h then drop (length b - HashLength) b else b)
      in copy_at (HashLength - length b') b' h)"

definition BytesToHash :: "bytes \<Rightarrow> Hash" where
  "BytesToHash b = Hash_SetBytes zeroHash b"

definition EmptyHash :: "Hash \<Rightarrow> bool" where
  "EmptyHash h = (h = zeroHash)"

definition Address_SetBytes :: "Address \<Rightarrow> bytes \<Rightarrow> Address" where
  "Address_SetBytes a b =
     (let b' = (if length b > length a then drop (length b - AddressLength) b else b)
      in copy_at (AddressLength - length b') b' a)"

definition BytesToAddress :: "bytes \<Rightarrow> Address" where
  "BytesToAddress b = Address_SetBytes zeroAddress b"

definition BigToAddress :: "int \<Rightarrow> Address" where
  "BigToAddress b = BytesToAddress (nat_to_be (nat \<bar>b\<bar>))"

definition Address_Big :: "Address \<Rightarrow> int" where
  "Address_Big a = int (be_to_nat a)"

definition Address_Hash :: "Address \<Rightarrow> Hash" where
  "Address_Hash a = BytesToHash a"

text \<open>\<open>Scan\<close>: the source is \<open>None\<close> when it is not a byte slice.\<close>

datatype scan_error = CantScan | WrongLength nat nat

definition Hash_Scan :: "bytes option \<Rightarrow> scan_error + Hash" where
  "Hash_Scan src =
     (case src of
        None \<Rightarrow> Inl CantScan
      | Some b \<Rightarrow> if length b \<noteq> HashLength then Inl (WrongLength (length b) HashLength)
                  else Inr (copy_at 0 b zeroHash))"

definition Address_Scan :: "bytes option \<Rightarrow> scan_error + Address" where
  "Address_Scan src =
     (case src of
        None \<Rightarrow> Inl CantScan
      | Some b \<Rightarrow> if length b \<noteq> AddressLength then Inl (WrongLength (length b) AddressLength)
                  else Inr (copy_at 0 b zeroAddress))"

section \<open>Hexadecimal\<close>

text \<open>\<open>hex.EncodeToString\<close> and \<open>hex.DecodeString\<close> of the Go library; the latter returns the bytes
  decoded before an error, and whether there was one.\<close>

definition hexDigit :: "nat \<Rightarrow> char" where
  "hexDigit n = (if n < 10 then char_of (48 + n) else char_of (87 + n))"

definition fromHexChar :: "char \<Rightarrow> nat option" where
  "fromHexChar c =
     (let n = (of_char c :: nat) in
      if 48 \<le> n \<and> n \<le> 57 then Some (n - 48)
      else if 97 \<le> n \<and> n \<le> 102 then Some (n - 87)
      else if 65 \<le> n \<and> n \<le> 70 then Some (n - 55)
      else None)"

fun hexEncode :: "bytes \<Rightarrow> string" where
  "hexEncode [] = []"
| "hexEncode (b # bs) = hexDigit (unat b div 16) # hexDigit (unat b mod 16) # hexEncode bs"

fun hexDecode :: "string \<Rightarrow> bytes \<times> bool" where
  "hexDecode [] = ([], True)"
| "hexDecode [c] = ([], False)"
| "hexDecode (c # d # cs) =
     (case (fromHexChar c, fromHexChar d) of
        (Some x, Some y) \<Rightarrow> (case hexDecode cs of (bs, ok) \<Rightarrow> (word_of_nat (16 * x + y) # bs, ok))
      | _ \<Rightarrow> ([], False))"

definition Bytes2Hex :: "bytes \<Rightarrow> string" where
  "Bytes2Hex d = hexEncode d"

definition Hex2Bytes :: "string \<Rightarrow> bytes" where
  "Hex2Bytes s = fst (hexDecode s)"

definition ToHex :: "bytes \<Rightarrow> string" where
  "ToHex b = (let h = Bytes2Hex b in ''0x'' @ (if length h = 0 then ''0'' else h))"

definition FromHex :: "string \<Rightarrow> bytes" where
  "FromHex s =
     (let s1 = (if length s > 1 \<and> (take 2 s = ''0x'' \<or> take 2 s = ''0X'') then drop 2 s else s);
          s2 = (if length s1 mod 2 = 1 then ''0'' @ s1 else s1)
      in Hex2Bytes s2)"

definition HexToHash :: "string \<Rightarrow> Hash" where
  "HexToHash s = BytesToHash (FromHex s)"

definition HexToAddress :: "string \<Rightarrow> Address" where
  "HexToAddress s = BytesToAddress (FromHex s)"

definition hasHexPrefix :: "string \<Rightarrow> bool" where
  "hasHexPrefix s = (length s \<ge> 2 \<and> s ! 0 = CHR ''0'' \<and> (s ! 1 = CHR ''x'' \<or> s ! 1 = CHR ''X''))"

definition isHexCharacter :: "char \<Rightarrow> bool" where
  "isHexCharacter c =
     (let n = (of_char c :: nat) in (48 \<le> n \<and> n \<le> 57) \<or> (97 \<le> n \<and> n \<le> 102) \<or> (65 \<le> n \<and> n \<le> 70))"

definition Hex2BytesFixed :: "string \<Rightarrow> nat \<Rightarrow> bytes" where
  "Hex2BytesFixed s flen =
     (let h = fst (hexDecode s) in
      if length h = flen then h
      else if length h > flen then drop (length h - flen) h
      else copy_at (flen - length h) h (replicate flen 0))"

section \<open>Integers and padding\<close>

text \<open>\<open>binary.BigEndian\<close> on 64 and 32 bits; \<open>Uint64\<close> panics (\<open>None\<close>) on fewer than eight bytes, and
  \<open>binary.Read\<close> leaves the variable at zero then.\<close>

definition Uint64ToByte :: "u64 \<Rightarrow> bytes" where
  "Uint64ToByte n = be_fixed 8 (unat n)"

definition ByteToUint64 :: "bytes \<Rightarrow> u64 option" where
  "ByteToUint64 b = (if length b < 8 then None else Some (word_of_nat (be_to_nat (take 8 b))))"

definition IntToHex :: "64 word \<Rightarrow> bytes" where
  "IntToHex num = be_fixed 8 (unat num)"

definition BytesToInt :: "bytes \<Rightarrow> 64 word" where
  "BytesToInt b = (if length b < 8 then 0 else word_of_nat (be_to_nat (take 8 b)))"

definition IntToByte :: "32 word \<Rightarrow> bytes" where
  "IntToByte num = be_fixed 4 (unat num)"

text \<open>\<open>BytesToUint32\<close>: \<open>uint(array[i])\<close> is a 64-bit word that is shifted and then truncated.\<close>

fun BytesToUint32_loop :: "nat \<Rightarrow> bytes \<Rightarrow> 32 word \<Rightarrow> 32 word" where
  "BytesToUint32_loop i [] acc = acc"
| "BytesToUint32_loop i (b # bs) acc =
     BytesToUint32_loop (Suc i) bs (acc + ucast (push_bit (8 * i) (ucast b :: u64)))"

definition BytesToUint32 :: "bytes \<Rightarrow> 32 word" where
  "BytesToUint32 b = BytesToUint32_loop 0 b 0"

definition withBranch :: "32 word \<Rightarrow> 32 word" where
  "withBranch n = (if sint n < 0 then - n else n)"

definition RightPadBytes :: "bytes \<Rightarrow> nat \<Rightarrow> bytes" where
  "RightPadBytes s l = (if l \<le> length s then s else copy_at 0 s (replicate l 0))"

definition LeftPadBytes :: "bytes \<Rightarrow> nat \<Rightarrow> bytes" where
  "LeftPadBytes s l = (if l \<le> length s then s else copy_at (l - length s) s (replicate l 0))"

definition CopyBytes :: "bytes \<Rightarrow> bytes" where
  "CopyBytes b = copy_at 0 b (replicate (length b) 0)"

section \<open>Hashes and addresses keep the low bytes\<close>

lemma length_zeroHash [simp]: "length zeroHash = 32" "length zeroAddress = 20"
  by (simp_all add: zeroHash_def HashLength_def zeroAddress_def AddressLength_def)

lemma copy_at_zeros: "length b \<le> n \<Longrightarrow> copy_at (n - length b) b (replicate n 0) = replicate (n - length b) 0 @ b"
  by (simp add: copy_at_def)

lemma BytesToHash_eq: "BytesToHash b = replicate (32 - length b) 0 @ drop (length b - 32) b"
  by (auto simp: BytesToHash_def Hash_SetBytes_def zeroHash_def HashLength_def copy_at_def)

lemma BytesToAddress_eq: "BytesToAddress b = replicate (20 - length b) 0 @ drop (length b - 20) b"
  by (auto simp: BytesToAddress_def Address_SetBytes_def zeroAddress_def AddressLength_def copy_at_def)

lemma length_BytesToHash [simp]: "length (BytesToHash b) = 32" "length (BytesToAddress b) = 20"
  by (simp_all add: BytesToHash_eq BytesToAddress_eq)

lemma BytesToHash_id: "length b = 32 \<Longrightarrow> BytesToHash b = b"
  by (simp add: BytesToHash_eq)

lemma be_to_nat_replicate0: "be_to_nat (replicate n 0 @ b) = be_to_nat b"
  by (induction n) (simp_all add: be_to_nat_Cons)

lemma be_to_nat_low: "be_to_nat (drop (length b - k) b) = be_to_nat b mod 256 ^ k"
proof (cases "k \<le> length b")
  case True
  have "be_to_nat b = be_to_nat (take (length b - k) b) * 256 ^ k + be_to_nat (drop (length b - k) b)"
    using be_to_nat_append [of "take (length b - k) b" "drop (length b - k) b"] True by simp
  moreover have "be_to_nat (drop (length b - k) b) < 256 ^ k"
    using be_to_nat_bound [of "drop (length b - k) b"] True by simp
  ultimately show ?thesis by simp
next
  case False
  have "be_to_nat b < 256 ^ length b" by (rule be_to_nat_bound)
  also have "\<dots> \<le> 256 ^ k" using False by (intro power_increasing) auto
  finally show ?thesis using False by simp
qed

section \<open>Hexadecimal round trips\<close>

lemma fromHexChar_hexDigit: "n < 16 \<Longrightarrow> fromHexChar (hexDigit n) = Some n"
  by (auto simp: fromHexChar_def hexDigit_def Let_def)

lemma hexDecode_hexEncode: "hexDecode (hexEncode b) = (b, True)"
proof (induction b)
  case (Cons x b)
  have "unat x < 256" by (rule unat_byte_less)
  then have "unat x div 16 < 16" "16 * (unat x div 16) + unat x mod 16 = unat x" by simp_all
  with Cons show ?case by (simp add: fromHexChar_hexDigit)
qed simp

lemma length_hexEncode [simp]: "length (hexEncode b) = 2 * length b"
  by (induction b) simp_all

end
