(* ===== verification/StateObject.thy ===== *)
theory StateObject
  imports RlpCodec Common "HOL-Library.AList"
begin

text \<open>
  Accounts (\<open>core/state/state_object.go\<close>) and the journal of changes (\<open>core/state/journal.go\<close>).

  The tries, the code database and the hash function are behind the interfaces \<open>Database\<close> and
  \<open>Trie\<close> (\<open>core/state/database.go\<close>), whose implementation is not part of the repository: they are
  the fields of a record \<open>env\<close> over an arbitrary type of tries. A trie is a value here; the source
  changes it in place and never shares one between two live objects. \<open>emptyStorageTrie\<close> is what
  \<open>OpenStorageTrie\<close> returns for the zero root, an error of which the source ignores.
  Go iterates over a map in an arbitrary order: \<open>iterHash\<close> and \<open>iterAddr\<close> choose it.

  Maps are association lists without duplicate keys. The pointer \<open>db\<close> of an object to its
  \<open>StateDB\<close> serves to reach the journal, which the methods take and return. An object that is
  replaced by \<open>createObject\<close> stays unchanged in the journal until it is put back, so objects are
  values too.
\<close>

section \<open>The environment\<close>

datatype state_error =
    DBError string
  | CantCreateStorageTrie state_error
  | CantLoadCode bytes state_error
  | RlpError rlp_error

record 'tr env =
  tryGet :: "'tr \<Rightarrow> bytes \<Rightarrow> bytes \<times> state_error option"
  tryUpdate :: "'tr \<Rightarrow> bytes \<Rightarrow> bytes \<Rightarrow> state_error option \<times> 'tr"
  tryDelete :: "'tr \<Rightarrow> bytes \<Rightarrow> state_error option \<times> 'tr"
  trieHash :: "'tr \<Rightarrow> Hash"
  openTrie :: "Hash \<Rightarrow> state_error + 'tr"
  openStorageTrie :: "Hash \<Rightarrow> Hash \<Rightarrow> state_error + 'tr"
  emptyStorageTrie :: "Hash \<Rightarrow> 'tr"
  copyTrie :: "'tr \<Rightarrow> 'tr"
  contractCode :: "Hash \<Rightarrow> Hash \<Rightarrow> bytes option \<times> state_error option"
  contractCodeSize :: "Hash \<Rightarrow> Hash \<Rightarrow> nat \<times> state_error option"
  keccak :: "bytes \<Rightarrow> Hash"
  iterHash :: "Hash list \<Rightarrow> Hash list"
  iterAddr :: "Address list \<Rightarrow> Address list"

definition emptyCodeHash :: "('tr, 'z) env_scheme \<Rightarrow> bytes" where
  "emptyCodeHash E = keccak E []"

section \<open>Accounts and objects\<close>

record Account =
  ac_Nonce :: u64
  ac_Balance :: int
  ac_Root :: Hash
  ac_CodeHash :: bytes

type_synonym Storage = "(Hash \<times> Hash) list"
type_synonym PDXStorage = "(Hash \<times> bytes) list"

record 'tr stateObject =
  so_address :: Address
  so_addrHash :: Hash
  so_data :: Account
  so_dbErr :: "state_error option"
  so_trie :: "'tr option"
  so_code :: "bytes option"
  so_cachedStorage :: Storage
  so_dirtyStorage :: Storage
  so_pdxCachedStorage :: PDXStorage
  so_pdxDirtyStorage :: PDXStorage
  so_dirtyCode :: bool
  so_suicided :: bool
  so_deleted :: bool

definition so_empty :: "('tr, 'z) env_scheme \<Rightarrow> 'tr stateObject \<Rightarrow> bool" where
  "so_empty E so \<longleftrightarrow>
     ac_Nonce (so_data so) = 0 \<and> ac_Balance (so_data so) = 0 \<and> ac_CodeHash (so_data so) = emptyCodeHash E"

text \<open>The literal that \<open>newObject\<close> is given: balance and code hash may be nil.\<close>

record AccountLit =
  al_Nonce :: u64
  al_Balance :: "int option"
  al_Root :: Hash
  al_CodeHash :: "bytes option"

definition zeroAccount :: AccountLit where
  "zeroAccount = \<lparr>al_Nonce = 0, al_Balance = None, al_Root = zeroHash, al_CodeHash = None\<rparr>"

definition newObject :: "('tr, 'z) env_scheme \<Rightarrow> Address \<Rightarrow> AccountLit \<Rightarrow> 'tr stateObject" where
  "newObject E address data =
     \<lparr>so_address = address, so_addrHash = keccak E address,
      so_data = \<lparr>ac_Nonce = al_Nonce data,
                 ac_Balance = (case al_Balance data of None \<Rightarrow> 0 | Some b \<Rightarrow> b),
                 ac_Root = al_Root data,
                 ac_CodeHash = (case al_CodeHash data of None \<Rightarrow> emptyCodeHash E | Some h \<Rightarrow> h)\<rparr>,
      so_dbErr = None, so_trie = None, so_code = None,
      so_cachedStorage = [], so_dirtyStorage = [], so_pdxCachedStorage = [], so_pdxDirtyStorage = [],
      so_dirtyCode = False, so_suicided = False, so_deleted = False\<rparr>"

text \<open>The reflected type \<open>Account\<close> and the value of an account, for the RLP codec.\<close>

definition accountType :: rtype where
  "accountType = TStruct ''state.Account''
     [(''Nonce'', '''', True, TUint 64), (''Balance'', '''', True, TPtr TBigInt),
      (''Root'', '''', True, TArray 32 (TUint 8)), (''CodeHash'', '''', True, TSlice (TUint 8))]"

definition accountVal :: "Account \<Rightarrow> rval" where
  "accountVal a = VStruct [VUint (ac_Nonce a), VPtr (VBig (ac_Balance a)), VBytes (ac_Root a), VBytes (ac_CodeHash a)]"

definition accountOf :: "rval \<Rightarrow> AccountLit option" where
  "accountOf v =
     (case v of
        VStruct [VUint n, VPtr (VBig b), VBytes r, VBytes h] \<Rightarrow>
          Some \<lparr>al_Nonce = n, al_Balance = Some b, al_Root = r, al_CodeHash = Some h\<rparr>
      | _ \<Rightarrow> None)"

text \<open>
  \<open>rlp.EncodeToBytes\<close> of a \<open>*stateObject\<close>, which goes through its \<open>EncodeRLP\<close>:
  \<open>rlp.Encode(w, c.data)\<close>.
\<close>

definition so_EncodeRLP :: "'tr stateObject \<Rightarrow> rlp_error + bytes" where
  "so_EncodeRLP so =
     EncodeToBytes (TPtr (TEncoder ''state.stateObject'' accountType)) (VPtr (VEncoder (accountVal (so_data so))))"

definition so_setError :: "state_error option \<Rightarrow> 'tr stateObject \<Rightarrow> 'tr stateObject" where
  "so_setError err so = (if so_dbErr so = None then so\<lparr>so_dbErr := err\<rparr> else so)"

definition so_markSuicided :: "'tr stateObject \<Rightarrow> 'tr stateObject" where
  "so_markSuicided so = so\<lparr>so_suicided := True\<rparr>"

definition so_setBalance :: "int \<Rightarrow> 'tr stateObject \<Rightarrow> 'tr stateObject" where
  "so_setBalance amount so = so\<lparr>so_data := (so_data so)\<lparr>ac_Balance := amount\<rparr>\<rparr>"

definition so_setNonce :: "u64 \<Rightarrow> 'tr stateObject \<Rightarrow> 'tr stateObject" where
  "so_setNonce nonce so = so\<lparr>so_data := (so_data so)\<lparr>ac_Nonce := nonce\<rparr>\<rparr>"

definition so_setCode :: "Hash \<Rightarrow> bytes option \<Rightarrow> 'tr stateObject \<Rightarrow> 'tr stateObject" where
  "so_setCode codeHash code so =
     so\<lparr>so_code := code, so_data := (so_data so)\<lparr>ac_CodeHash := codeHash\<rparr>, so_dirtyCode := True\<rparr>"

definition so_setState :: "Hash \<Rightarrow> Hash \<Rightarrow> 'tr stateObject \<Rightarrow> 'tr stateObject" where
  "so_setState key v so =
     so\<lparr>so_cachedStorage := AList.update key v (so_cachedStorage so),
        so_dirtyStorage := AList.update key v (so_dirtyStorage so)\<rparr>"

definition so_setPDXState :: "Hash \<Rightarrow> bytes \<Rightarrow> 'tr stateObject \<Rightarrow> 'tr stateObject" where
  "so_setPDXState key v so =
     so\<lparr>so_pdxCachedStorage := AList.update key v (so_pdxCachedStorage so),
        so_pdxDirtyStorage := AList.update key v (so_pdxDirtyStorage so)\<rparr>"

section \<open>Lazy loading\<close>

definition so_getTrie :: "('tr, 'z) env_scheme \<Rightarrow> 'tr stateObject \<Rightarrow> 'tr \<times> 'tr stateObject" where
  "so_getTrie E so =
     (case so_trie so of
        Some t \<Rightarrow> (t, so)
      | None \<Rightarrow>
          (case openStorageTrie E (so_addrHash so) (ac_Root (so_data so)) of
             Inr t \<Rightarrow> (t, so\<lparr>so_trie := Some t\<rparr>)
           | Inl err \<Rightarrow>
               (let t = emptyStorageTrie E (so_addrHash so)
                in (t, so_setError (Some (CantCreateStorageTrie err)) (so\<lparr>so_trie := Some t\<rparr>)))))"

definition so_GetState :: "('tr, 'z) env_scheme \<Rightarrow> Hash \<Rightarrow> 'tr stateObject \<Rightarrow> Hash \<times> 'tr stateObject" where
  "so_GetState E key so =
     (case map_of (so_cachedStorage so) key of
        Some v \<Rightarrow> (v, so)
      | None \<Rightarrow>
          (case so_getTrie E so of (t, so1) \<Rightarrow>
             (case tryGet E t key of
                (enc, Some err) \<Rightarrow> (zeroHash, so_setError (Some err) so1)
              | (enc, None) \<Rightarrow>
                  (let (v, so2) =
                     (if length enc > 0
                      then (case Split enc of
                              Inl err \<Rightarrow> (Hash_SetBytes zeroHash [], so_setError (Some (RlpError err)) so1)
                            | Inr (_, content, _) \<Rightarrow> (Hash_SetBytes zeroHash content, so1))
                      else (zeroHash, so1))
                   in (v, so2\<lparr>so_cachedStorage := AList.update key v (so_cachedStorage so2)\<rparr>)))))"

definition so_GetPDXState :: "('tr, 'z) env_scheme \<Rightarrow> Hash \<Rightarrow> 'tr stateObject \<Rightarrow> bytes \<times> 'tr stateObject" where
  "so_GetPDXState E key so =
     (case map_of (so_pdxCachedStorage so) key of
        Some v \<Rightarrow> (v, so)
      | None \<Rightarrow>
          (case so_getTrie E so of (t, so1) \<Rightarrow>
             (case tryGet E t key of
                (enc, Some err) \<Rightarrow> ([], so_setError (Some err) so1)
              | (enc, None) \<Rightarrow> if length enc > 0 then (enc, so1) else ([], so1))))"

definition so_Code :: "('tr, 'z) env_scheme \<Rightarrow> 'tr stateObject \<Rightarrow> bytes option \<times> 'tr stateObject" where
  "so_Code E so =
     (if so_code so \<noteq> None then (so_code so, so)
      else if ac_CodeHash (so_data so) = emptyCodeHash E then (None, so)
      else (case contractCode E (so_addrHash so) (BytesToHash (ac_CodeHash (so_data so))) of (code, err) \<Rightarrow>
              (let so1 = (case err of
                            None \<Rightarrow> so
                          | Some e \<Rightarrow> so_setError (Some (CantLoadCode (ac_CodeHash (so_data so)) e)) so)
               in (code, so1\<lparr>so_code := code\<rparr>))))"

section \<open>Writing back\<close>

text \<open>\<open>bytes.TrimLeft(value[:], "\x00")\<close>\<close>

definition trimLeft0 :: "bytes \<Rightarrow> bytes" where
  "trimLeft0 b = dropWhile (\<lambda>x. x = 0) b"

definition encodeSlot :: "Hash \<Rightarrow> bytes" where
  "encodeSlot v = (case EncodeToBytes (TSlice (TUint 8)) (VBytes (trimLeft0 v)) of Inl _ \<Rightarrow> [] | Inr b \<Rightarrow> b)"

text \<open>The two loops of \<open>updateTrie\<close>, over the keys in the order of the iteration.\<close>

fun flushStorage :: "('tr, 'z) env_scheme \<Rightarrow> Hash list \<Rightarrow> 'tr \<Rightarrow> 'tr stateObject \<Rightarrow> 'tr \<times> 'tr stateObject" where
  "flushStorage E [] t so = (t, so)"
| "flushStorage E (key # keys) t so =
     (let v = the (map_of (so_dirtyStorage so) key);
          so1 = so\<lparr>so_dirtyStorage := AList.delete key (so_dirtyStorage so)\<rparr>;
          (err, t1) = (if v = zeroHash then tryDelete E t key else tryUpdate E t key (encodeSlot v))
      in flushStorage E keys t1 (so_setError err so1))"

fun flushPDXStorage :: "('tr, 'z) env_scheme \<Rightarrow> Hash list \<Rightarrow> 'tr \<Rightarrow> 'tr stateObject \<Rightarrow> 'tr \<times> 'tr stateObject" where
  "flushPDXStorage E [] t so = (t, so)"
| "flushPDXStorage E (key # keys) t so =
     (let v = the (map_of (so_pdxDirtyStorage so) key);
          so1 = so\<lparr>so_pdxDirtyStorage := AList.delete key (so_pdxDirtyStorage so)\<rparr>;
          (err, t1) = (if length v = 0 then tryDelete E t key else tryUpdate E t key v)
      in flushPDXStorage E keys t1 (so_setError err so1))"

definition so_updateTrie :: "('tr, 'z) env_scheme \<Rightarrow> 'tr stateObject \<Rightarrow> 'tr \<times> 'tr stateObject" where
  "so_updateTrie E so =
     (case so_getTrie E so of (t, so1) \<Rightarrow>
        (case flushStorage E (iterHash E (map fst (so_dirtyStorage so1))) t so1 of (t2, so2) \<Rightarrow>
           (case flushPDXStorage E (iterHash E (map fst (so_pdxDirtyStorage so2))) t2 so2 of (t3, so3) \<Rightarrow>
              (t3, so3\<lparr>so_trie := Some t3\<rparr>))))"

definition so_updateRoot :: "('tr, 'z) env_scheme \<Rightarrow> 'tr stateObject \<Rightarrow> 'tr stateObject" where
  "so_updateRoot E so =
     (case so_updateTrie E so of (t, so1) \<Rightarrow> so1\<lparr>so_data := (so_data so1)\<lparr>ac_Root := trieHash E t\<rparr>\<rparr>)"

definition so_CommitTrie :: "('tr, 'z) env_scheme \<Rightarrow> 'tr stateObject \<Rightarrow> state_error option \<times> 'tr stateObject" where
  "so_CommitTrie E so = (case so_updateTrie E so of (t, so1) \<Rightarrow> (so_dbErr so1, so1))"

definition so_deepCopy :: "('tr, 'z) env_scheme \<Rightarrow> 'tr stateObject \<Rightarrow> 'tr stateObject" where
  "so_deepCopy E so =
     (newObject E (so_address so)
        \<lparr>al_Nonce = ac_Nonce (so_data so), al_Balance = Some (ac_Balance (so_data so)),
         al_Root = ac_Root (so_data so), al_CodeHash = Some (ac_CodeHash (so_data so))\<rparr>)
     \<lparr>so_trie := map_option (copyTrie E) (so_trie so),
      so_code := so_code so,
      so_dirtyStorage := so_dirtyStorage so, so_cachedStorage := so_dirtyStorage so,
      so_pdxDirtyStorage := so_pdxDirtyStorage so, so_pdxCachedStorage := so_pdxDirtyStorage so,
      so_suicided := so_suicided so, so_dirtyCode := so_dirtyCode so, so_deleted := so_deleted so\<rparr>"

section \<open>The journal\<close>

datatype 'tr journalEntry =
    createObjectChange Address
  | resetObjectChange "'tr stateObject"
  | suicideChange Address bool int
  | balanceChange Address int
  | nonceChange Address u64
  | storageChange Address Hash Hash
  | pdxStorageChange Address Hash bytes
  | codeChange Address "bytes option" bytes
  | refundChange u64
  | addPreimageChange Hash
  | touchChange Address

fun dirtied :: "'tr journalEntry \<Rightarrow> Address option" where
  "dirtied (createObjectChange a) = Some a"
| "dirtied (resetObjectChange prev) = None"
| "dirtied (suicideChange a _ _) = Some a"
| "dirtied (balanceChange a _) = Some a"
| "dirtied (nonceChange a _) = Some a"
| "dirtied (storageChange a _ _) = Some a"
| "dirtied (pdxStorageChange a _ _) = Some a"
| "dirtied (codeChange a _ _) = Some a"
| "dirtied (refundChange _) = None"
| "dirtied (addPreimageChange _) = None"
| "dirtied (touchChange a) = Some a"

record 'tr journal =
  j_entries :: "'tr journalEntry list"
  j_dirties :: "(Address \<times> int) list"

definition newJournal :: "'tr journal" where
  "newJournal = \<lparr>j_entries = [], j_dirties = []\<rparr>"

text \<open>\<open>j.dirties[addr]\<close> of a Go map is 0 for a missing key.\<close>

definition dirties_of :: "(Address \<times> int) list \<Rightarrow> Address \<Rightarrow> int" where
  "dirties_of d a = (case map_of d a of None \<Rightarrow> 0 | Some n \<Rightarrow> n)"

definition j_dirty :: "Address \<Rightarrow> 'tr journal \<Rightarrow> 'tr journal" where
  "j_dirty a j = j\<lparr>j_dirties := AList.update a (dirties_of (j_dirties j) a + 1) (j_dirties j)\<rparr>"

definition j_append :: "'tr journalEntry \<Rightarrow> 'tr journal \<Rightarrow> 'tr journal" where
  "j_append e j =
     (let j1 = j\<lparr>j_entries := j_entries j @ [e]\<rparr> in
      case dirtied e of None \<Rightarrow> j1 | Some a \<Rightarrow> j_dirty a j1)"

definition j_length :: "'tr journal \<Rightarrow> nat" where
  "j_length j = length (j_entries j)"

text \<open>The change that the loop of \<open>journal.revert\<close> makes to the dirty counters for one entry.\<close>

definition j_undirty :: "'tr journalEntry \<Rightarrow> 'tr journal \<Rightarrow> 'tr journal" where
  "j_undirty e j =
     (case dirtied e of
        None \<Rightarrow> j
      | Some a \<Rightarrow>
          (let n = dirties_of (j_dirties j) a - 1 in
           if n = 0 then j\<lparr>j_dirties := AList.delete a (j_dirties j)\<rparr>
           else j\<lparr>j_dirties := AList.update a n (j_dirties j)\<rparr>))"

section \<open>Journalled changes of an object\<close>

definition ripemd :: Address where
  "ripemd = HexToAddress ''0000000000000000000000000000000000000003''"

definition so_touch :: "'tr stateObject \<Rightarrow> 'tr journal \<Rightarrow> 'tr journal" where
  "so_touch so j =
     (let j1 = j_append (touchChange (so_address so)) j in
      if so_address so = ripemd then j_dirty (so_address so) j1 else j1)"

definition so_SetBalance :: "int \<Rightarrow> 'tr stateObject \<Rightarrow> 'tr journal \<Rightarrow> 'tr stateObject \<times> 'tr journal" where
  "so_SetBalance amount so j =
     (so_setBalance amount so, j_append (balanceChange (so_address so) (ac_Balance (so_data so))) j)"

definition so_AddBalance ::
  "('tr, 'z) env_scheme \<Rightarrow> int \<Rightarrow> 'tr stateObject \<Rightarrow> 'tr journal \<Rightarrow> 'tr stateObject \<times> 'tr journal" where
  "so_AddBalance E amount so j =
     (if amount = 0 then (so, if so_empty E so then so_touch so j else j)
      else so_SetBalance (ac_Balance (so_data so) + amount) so j)"

definition so_SubBalance :: "int \<Rightarrow> 'tr stateObject \<Rightarrow> 'tr journal \<Rightarrow> 'tr stateObject \<times> 'tr journal" where
  "so_SubBalance amount so j =
     (if amount = 0 then (so, j) else so_SetBalance (ac_Balance (so_data so) - amount) so j)"

definition so_SetNonce :: "u64 \<Rightarrow> 'tr stateObject \<Rightarrow> 'tr journal \<Rightarrow> 'tr stateObject \<times> 'tr journal" where
  "so_SetNonce nonce so j =
     (so_setNonce nonce so, j_append (nonceChange (so_address so) (ac_Nonce (so_data so))) j)"

definition so_SetCode ::
  "('tr, 'z) env_scheme \<Rightarrow> Hash \<Rightarrow> bytes option \<Rightarrow> 'tr stateObject \<Rightarrow> 'tr journal \<Rightarrow> 'tr stateObject \<times> 'tr journal" where
  "so_SetCode E codeHash code so j =
     (case so_Code E so of (prevcode, so1) \<Rightarrow>
        (so_setCode codeHash code so1,
         j_append (codeChange (so_address so1) prevcode (ac_CodeHash (so_data so1))) j))"

definition so_SetState ::
  "('tr, 'z) env_scheme \<Rightarrow> Hash \<Rightarrow> Hash \<Rightarrow> 'tr stateObject \<Rightarrow> 'tr journal \<Rightarrow> 'tr stateObject \<times> 'tr journal" where
  "so_SetState E key v so j =
     (case so_GetState E key so of (prev, so1) \<Rightarrow>
        (so_setState key v so1, j_append (storageChange (so_address so1) key prev) j))"

definition so_SetPDXState ::
  "('tr, 'z) env_scheme \<Rightarrow> Hash \<Rightarrow> bytes \<Rightarrow> 'tr stateObject \<Rightarrow> 'tr journal \<Rightarrow> 'tr stateObject \<times> 'tr journal" where
  "so_SetPDXState E key v so j =
     (case so_GetPDXState E key so of (prev, so1) \<Rightarrow>
        (so_setPDXState key v so1, j_append (pdxStorageChange (so_address so1) key prev) j))"

end
