(* ===== verification/StateDB.thy ===== *)
theory StateDB
  imports StateObject
begin

text \<open>
  The state database (\<open>core/state/statedb.go\<close>) with the reverting of journal entries
  (\<open>core/state/journal.go\<close>). A run-time panic is a value of \<open>state_panic\<close>. Getters return the
  changed state too, since they load accounts into the live set and remember errors. The
  mutex of \<open>Copy\<close> and \<open>SetDirties\<close> is left out: a \<open>StateDB\<close> has one user at a time.
\<close>

record revision =
  rev_id :: nat
  rev_journalIndex :: nat

record 'tr StateDB =
  sd_trie :: 'tr
  sd_stateObjects :: "(Address \<times> 'tr stateObject) list"
  sd_stateObjectsDirty :: "Address list"
  sd_dbErr :: "state_error option"
  sd_refund :: u64
  sd_thash :: Hash
  sd_bhash :: Hash
  sd_txIndex :: int
  sd_logSize :: u64
  sd_preimages :: "(Hash \<times> bytes) list"
  sd_journal :: "'tr journal"
  sd_validRevisions :: "revision list"
  sd_nextRevisionId :: nat

datatype state_panic =
    NilDeref
  | InvalidRevision nat
  | CantEncode Address rlp_error

definition emptyStateDB :: "'tr \<Rightarrow> 'tr StateDB" where
  "emptyStateDB t =
     \<lparr>sd_trie = t, sd_stateObjects = [], sd_stateObjectsDirty = [], sd_dbErr = None, sd_refund = 0,
      sd_thash = zeroHash, sd_bhash = zeroHash, sd_txIndex = 0, sd_logSize = 0, sd_preimages = [],
      sd_journal = newJournal, sd_validRevisions = [], sd_nextRevisionId = 0\<rparr>"

definition StateDB_New :: "('tr, 'z) env_scheme \<Rightarrow> Hash \<Rightarrow> state_error + 'tr StateDB" where
  "StateDB_New E root = (case openTrie E root of Inl err \<Rightarrow> Inl err | Inr t \<Rightarrow> Inr (emptyStateDB t))"

definition NewCopy :: "'tr StateDB \<Rightarrow> 'tr StateDB" where
  "NewCopy s = emptyStateDB (sd_trie s)"

definition setError :: "state_error option \<Rightarrow> 'tr StateDB \<Rightarrow> 'tr StateDB" where
  "setError err s = (if sd_dbErr s = None then s\<lparr>sd_dbErr := err\<rparr> else s)"

definition set_add :: "'a \<Rightarrow> 'a list \<Rightarrow> 'a list" where
  "set_add x xs = (if x \<in> set xs then xs else xs @ [x])"

section \<open>Live objects\<close>

definition setStateObject :: "'tr stateObject \<Rightarrow> 'tr StateDB \<Rightarrow> 'tr StateDB" where
  "setStateObject object s =
     s\<lparr>sd_stateObjects := AList.update (so_address object) object (sd_stateObjects s)\<rparr>"

definition getStateObject ::
  "('tr, 'z) env_scheme \<Rightarrow> Address \<Rightarrow> 'tr StateDB \<Rightarrow> 'tr stateObject option \<times> 'tr StateDB" where
  "getStateObject E addr s =
     (case map_of (sd_stateObjects s) addr of
        Some obj \<Rightarrow> if so_deleted obj then (None, s) else (Some obj, s)
      | None \<Rightarrow>
          (case tryGet E (sd_trie s) addr of (enc, err) \<Rightarrow>
             if length enc = 0 then (None, setError err s)
             else (case DecodeBytes enc (PointerTo accountType) of
                     Inl e \<Rightarrow> (None, s)
                   | Inr v \<Rightarrow>
                       (case accountOf v of
                          None \<Rightarrow> (None, s)
                        | Some data \<Rightarrow> (let obj = newObject E addr data in (Some obj, setStateObject obj s))))))"

definition appendEntry :: "'tr journalEntry \<Rightarrow> 'tr StateDB \<Rightarrow> 'tr StateDB" where
  "appendEntry e s = s\<lparr>sd_journal := j_append e (sd_journal s)\<rparr>"

definition createObject ::
  "('tr, 'z) env_scheme \<Rightarrow> Address \<Rightarrow> 'tr StateDB \<Rightarrow> 'tr stateObject \<times> 'tr stateObject option \<times> 'tr StateDB" where
  "createObject E addr s =
     (case getStateObject E addr s of (prev, s1) \<Rightarrow>
        (let newobj = so_setNonce 0 (newObject E addr zeroAccount);
             s2 = (case prev of
                     None \<Rightarrow> appendEntry (createObjectChange addr) s1
                   | Some p \<Rightarrow> appendEntry (resetObjectChange p) s1)
         in (newobj, prev, setStateObject newobj s2)))"

definition GetOrNewStateObject ::
  "('tr, 'z) env_scheme \<Rightarrow> Address \<Rightarrow> 'tr StateDB \<Rightarrow> 'tr stateObject \<times> 'tr StateDB" where
  "GetOrNewStateObject E addr s =
     (case getStateObject E addr s of (so, s1) \<Rightarrow>
        (case so of
           Some obj \<Rightarrow>
             if so_deleted obj then (case createObject E addr s1 of (obj', _, s2) \<Rightarrow> (obj', s2)) else (obj, s1)
         | None \<Rightarrow> (case createObject E addr s1 of (obj', _, s2) \<Rightarrow> (obj', s2))))"

text \<open>A method of an object that writes the journal, called through \<open>GetOrNewStateObject\<close>.\<close>

definition onObject ::
  "('tr, 'z) env_scheme \<Rightarrow> Address \<Rightarrow> ('tr stateObject \<Rightarrow> 'tr journal \<Rightarrow> 'tr stateObject \<times> 'tr journal)
   \<Rightarrow> 'tr StateDB \<Rightarrow> 'tr StateDB" where
  "onObject E addr f s =
     (case GetOrNewStateObject E addr s of (obj, s1) \<Rightarrow>
        (case f obj (sd_journal s1) of (obj', j) \<Rightarrow> setStateObject obj' (s1\<lparr>sd_journal := j\<rparr>)))"

section \<open>Getters\<close>

definition Exist :: "('tr, 'z) env_scheme \<Rightarrow> Address \<Rightarrow> 'tr StateDB \<Rightarrow> bool \<times> 'tr StateDB" where
  "Exist E addr s = (case getStateObject E addr s of (so, s1) \<Rightarrow> (so \<noteq> None, s1))"

definition Empty :: "('tr, 'z) env_scheme \<Rightarrow> Address \<Rightarrow> 'tr StateDB \<Rightarrow> bool \<times> 'tr StateDB" where
  "Empty E addr s =
     (case getStateObject E addr s of (so, s1) \<Rightarrow> (case so of None \<Rightarrow> True | Some obj \<Rightarrow> so_empty E obj, s1))"

definition GetBalance :: "('tr, 'z) env_scheme \<Rightarrow> Address \<Rightarrow> 'tr StateDB \<Rightarrow> int \<times> 'tr StateDB" where
  "GetBalance E addr s =
     (case getStateObject E addr s of (so, s1) \<Rightarrow> (case so of None \<Rightarrow> 0 | Some obj \<Rightarrow> ac_Balance (so_data obj), s1))"

definition GetNonce :: "('tr, 'z) env_scheme \<Rightarrow> Address \<Rightarrow> 'tr StateDB \<Rightarrow> u64 \<times> 'tr StateDB" where
  "GetNonce E addr s =
     (case getStateObject E addr s of (so, s1) \<Rightarrow> (case so of None \<Rightarrow> 0 | Some obj \<Rightarrow> ac_Nonce (so_data obj), s1))"

definition GetCode :: "('tr, 'z) env_scheme \<Rightarrow> Address \<Rightarrow> 'tr StateDB \<Rightarrow> bytes option \<times> 'tr StateDB" where
  "GetCode E addr s =
     (case getStateObject E addr s of (so, s1) \<Rightarrow>
        (case so of
           None \<Rightarrow> (None, s1)
         | Some obj \<Rightarrow> (case so_Code E obj of (code, obj') \<Rightarrow> (code, setStateObject obj' s1))))"

definition GetCodeSize :: "('tr, 'z) env_scheme \<Rightarrow> Address \<Rightarrow> 'tr StateDB \<Rightarrow> nat \<times> 'tr StateDB" where
  "GetCodeSize E addr s =
     (case getStateObject E addr s of (so, s1) \<Rightarrow>
        (case so of
           None \<Rightarrow> (0, s1)
         | Some obj \<Rightarrow>
             (case contractCode E (so_addrHash obj) (BytesToHash (ac_CodeHash (so_data obj))) of (code, err) \<Rightarrow>
                (case code of None \<Rightarrow> 0 | Some c \<Rightarrow> length c, if err = None then s1 else setError err s1))))"

definition GetCodeHash :: "('tr, 'z) env_scheme \<Rightarrow> Address \<Rightarrow> 'tr StateDB \<Rightarrow> Hash \<times> 'tr StateDB" where
  "GetCodeHash E addr s =
     (case getStateObject E addr s of (so, s1) \<Rightarrow>
        (case so of None \<Rightarrow> zeroHash | Some obj \<Rightarrow> BytesToHash (ac_CodeHash (so_data obj)), s1))"

definition GetState :: "('tr, 'z) env_scheme \<Rightarrow> Address \<Rightarrow> Hash \<Rightarrow> 'tr StateDB \<Rightarrow> Hash \<times> 'tr StateDB" where
  "GetState E addr key s =
     (case getStateObject E addr s of (so, s1) \<Rightarrow>
        (case so of
           None \<Rightarrow> (zeroHash, s1)
         | Some obj \<Rightarrow> (case so_GetState E key obj of (v, obj') \<Rightarrow> (v, setStateObject obj' s1))))"

definition GetPDXState :: "('tr, 'z) env_scheme \<Rightarrow> Address \<Rightarrow> Hash \<Rightarrow> 'tr StateDB \<Rightarrow> bytes \<times> 'tr StateDB" where
  "GetPDXState E addr key s =
     (case getStateObject E addr s of (so, s1) \<Rightarrow>
        (case so of
           None \<Rightarrow> ([], s1)
         | Some obj \<Rightarrow> (case so_GetPDXState E key obj of (v, obj') \<Rightarrow> (v, setStateObject obj' s1))))"

definition HasSuicided :: "('tr, 'z) env_scheme \<Rightarrow> Address \<Rightarrow> 'tr StateDB \<Rightarrow> bool \<times> 'tr StateDB" where
  "HasSuicided E addr s =
     (case getStateObject E addr s of (so, s1) \<Rightarrow> (case so of None \<Rightarrow> False | Some obj \<Rightarrow> so_suicided obj, s1))"

definition StorageTrie :: "('tr, 'z) env_scheme \<Rightarrow> Address \<Rightarrow> 'tr StateDB \<Rightarrow> 'tr option \<times> 'tr StateDB" where
  "StorageTrie E addr s =
     (case getStateObject E addr s of (so, s1) \<Rightarrow>
        (case so of None \<Rightarrow> None | Some obj \<Rightarrow> Some (fst (so_updateTrie E (so_deepCopy E obj))), s1))"

text \<open>The source calls \<open>Hash\<close> on the trie of the object, which is nil until its first access.\<close>

definition GetSelectiveStateObjectRoot ::
  "('tr, 'z) env_scheme \<Rightarrow> Address \<Rightarrow> 'tr StateDB \<Rightarrow> state_panic + (Hash \<times> state_error option) \<times> 'tr StateDB" where
  "GetSelectiveStateObjectRoot E addr s =
     (case getStateObject E addr s of (so, s1) \<Rightarrow>
        (case so of
           None \<Rightarrow> Inr ((zeroHash, Some (DBError ''selective state object not find'')), s1)
         | Some obj \<Rightarrow>
             (case so_trie obj of
                None \<Rightarrow> Inl NilDeref
              | Some t \<Rightarrow> Inr ((trieHash E t, None), s1))))"

definition TrieRoot :: "('tr, 'z) env_scheme \<Rightarrow> 'tr StateDB \<Rightarrow> Hash" where
  "TrieRoot E s = trieHash E (sd_trie s)"

section \<open>Setters\<close>

definition AddPreimage :: "Hash \<Rightarrow> bytes \<Rightarrow> 'tr StateDB \<Rightarrow> 'tr StateDB" where
  "AddPreimage hash preimage s =
     (case map_of (sd_preimages s) hash of
        Some _ \<Rightarrow> s
      | None \<Rightarrow>
          (let s1 = appendEntry (addPreimageChange hash) s
           in s1\<lparr>sd_preimages := AList.update hash preimage (sd_preimages s1)\<rparr>))"

definition AddRefund :: "u64 \<Rightarrow> 'tr StateDB \<Rightarrow> 'tr StateDB" where
  "AddRefund gas s = (appendEntry (refundChange (sd_refund s)) s)\<lparr>sd_refund := sd_refund s + gas\<rparr>"

definition AddBalance :: "('tr, 'z) env_scheme \<Rightarrow> Address \<Rightarrow> int \<Rightarrow> 'tr StateDB \<Rightarrow> 'tr StateDB" where
  "AddBalance E addr amount = onObject E addr (so_AddBalance E amount)"

definition SubBalance :: "('tr, 'z) env_scheme \<Rightarrow> Address \<Rightarrow> int \<Rightarrow> 'tr StateDB \<Rightarrow> 'tr StateDB" where
  "SubBalance E addr amount = onObject E addr (so_SubBalance amount)"

definition SetBalance :: "('tr, 'z) env_scheme \<Rightarrow> Address \<Rightarrow> int \<Rightarrow> 'tr StateDB \<Rightarrow> 'tr StateDB" where
  "SetBalance E addr amount = onObject E addr (so_SetBalance amount)"

definition SetNonce :: "('tr, 'z) env_scheme \<Rightarrow> Address \<Rightarrow> u64 \<Rightarrow> 'tr StateDB \<Rightarrow> 'tr StateDB" where
  "SetNonce E addr nonce = onObject E addr (so_SetNonce nonce)"

definition SetCode :: "('tr, 'z) env_scheme \<Rightarrow> Address \<Rightarrow> bytes option \<Rightarrow> 'tr StateDB \<Rightarrow> 'tr StateDB" where
  "SetCode E addr code =
     onObject E addr (so_SetCode E (keccak E (case code of None \<Rightarrow> [] | Some c \<Rightarrow> c)) code)"

definition SetState :: "('tr, 'z) env_scheme \<Rightarrow> Address \<Rightarrow> Hash \<Rightarrow> Hash \<Rightarrow> 'tr StateDB \<Rightarrow> 'tr StateDB" where
  "SetState E addr key v = onObject E addr (so_SetState E key v)"

definition SetPDXState :: "('tr, 'z) env_scheme \<Rightarrow> Address \<Rightarrow> Hash \<Rightarrow> bytes \<Rightarrow> 'tr StateDB \<Rightarrow> 'tr StateDB" where
  "SetPDXState E addr key v = onObject E addr (so_SetPDXState E key v)"

definition Suicide :: "('tr, 'z) env_scheme \<Rightarrow> Address \<Rightarrow> 'tr StateDB \<Rightarrow> bool \<times> 'tr StateDB" where
  "Suicide E addr s =
     (case getStateObject E addr s of (so, s1) \<Rightarrow>
        (case so of
           None \<Rightarrow> (False, s1)
         | Some obj \<Rightarrow>
             (let s2 = appendEntry (suicideChange addr (so_suicided obj) (ac_Balance (so_data obj))) s1
              in (True, setStateObject (so_setBalance 0 (so_markSuicided obj)) s2))))"

definition CreateAccount :: "('tr, 'z) env_scheme \<Rightarrow> Address \<Rightarrow> 'tr StateDB \<Rightarrow> 'tr StateDB" where
  "CreateAccount E addr s =
     (case createObject E addr s of (newobj, prev, s1) \<Rightarrow>
        (case prev of
           None \<Rightarrow> s1
         | Some p \<Rightarrow> setStateObject (so_setBalance (ac_Balance (so_data p)) newobj) s1))"

definition Prepare :: "Hash \<Rightarrow> Hash \<Rightarrow> int \<Rightarrow> 'tr StateDB \<Rightarrow> 'tr StateDB" where
  "Prepare thash bhash ti s = s\<lparr>sd_thash := thash, sd_bhash := bhash, sd_txIndex := ti\<rparr>"

definition SetDirties :: "(Address \<times> int) list \<Rightarrow> 'tr StateDB \<Rightarrow> 'tr StateDB" where
  "SetDirties dirties s = s\<lparr>sd_journal := (sd_journal s)\<lparr>j_dirties := dirties\<rparr>\<rparr>"

section \<open>Snapshots\<close>

text \<open>\<open>j.entries[i].revert(statedb)\<close>\<close>

definition withObject ::
  "('tr, 'z) env_scheme \<Rightarrow> Address \<Rightarrow> ('tr stateObject \<Rightarrow> 'tr stateObject) \<Rightarrow> 'tr StateDB \<Rightarrow> state_panic + 'tr StateDB" where
  "withObject E addr f s =
     (case getStateObject E addr s of (so, s1) \<Rightarrow>
        (case so of None \<Rightarrow> Inl NilDeref | Some obj \<Rightarrow> Inr (setStateObject (f obj) s1)))"

fun entry_revert :: "('tr, 'z) env_scheme \<Rightarrow> 'tr journalEntry \<Rightarrow> 'tr StateDB \<Rightarrow> state_panic + 'tr StateDB" where
  "entry_revert E (createObjectChange a) s =
     Inr (s\<lparr>sd_stateObjects := AList.delete a (sd_stateObjects s),
            sd_stateObjectsDirty := removeAll a (sd_stateObjectsDirty s)\<rparr>)"
| "entry_revert E (resetObjectChange prev) s = Inr (setStateObject prev s)"
| "entry_revert E (suicideChange a prev prevbalance) s =
     (case getStateObject E a s of (so, s1) \<Rightarrow>
        (case so of
           None \<Rightarrow> Inr s1
         | Some obj \<Rightarrow> Inr (setStateObject (so_setBalance prevbalance (obj\<lparr>so_suicided := prev\<rparr>)) s1)))"
| "entry_revert E (balanceChange a prev) s = withObject E a (so_setBalance prev) s"
| "entry_revert E (nonceChange a prev) s = withObject E a (so_setNonce prev) s"
| "entry_revert E (storageChange a key prev) s = withObject E a (so_setState key prev) s"
| "entry_revert E (pdxStorageChange a key prev) s = withObject E a (so_setPDXState key prev) s"
| "entry_revert E (codeChange a prevcode prevhash) s = withObject E a (so_setCode (BytesToHash prevhash) prevcode) s"
| "entry_revert E (refundChange prev) s = Inr (s\<lparr>sd_refund := prev\<rparr>)"
| "entry_revert E (addPreimageChange hash) s = Inr (s\<lparr>sd_preimages := AList.delete hash (sd_preimages s)\<rparr>)"
| "entry_revert E (touchChange a) s = Inr s"

text \<open>The loop of \<open>journal.revert\<close>; its argument is the entries from the last one down.\<close>

fun revertEntries :: "('tr, 'z) env_scheme \<Rightarrow> 'tr journalEntry list \<Rightarrow> 'tr StateDB \<Rightarrow> state_panic + 'tr StateDB" where
  "revertEntries E [] s = Inr s"
| "revertEntries E (e # es) s =
     (case entry_revert E e s of
        Inl p \<Rightarrow> Inl p
      | Inr s1 \<Rightarrow> revertEntries E es (s1\<lparr>sd_journal := j_undirty e (sd_journal s1)\<rparr>))"

definition journal_revert :: "('tr, 'z) env_scheme \<Rightarrow> nat \<Rightarrow> 'tr StateDB \<Rightarrow> state_panic + 'tr StateDB" where
  "journal_revert E snapshot s =
     (case revertEntries E (rev (drop snapshot (j_entries (sd_journal s)))) s of
        Inl p \<Rightarrow> Inl p
      | Inr s1 \<Rightarrow> Inr (s1\<lparr>sd_journal := (sd_journal s1)\<lparr>j_entries := take snapshot (j_entries (sd_journal s1))\<rparr>\<rparr>))"

definition Snapshot :: "'tr StateDB \<Rightarrow> nat \<times> 'tr StateDB" where
  "Snapshot s =
     (sd_nextRevisionId s,
      s\<lparr>sd_nextRevisionId := sd_nextRevisionId s + 1,
        sd_validRevisions := sd_validRevisions s
          @ [\<lparr>rev_id = sd_nextRevisionId s, rev_journalIndex = j_length (sd_journal s)\<rparr>]\<rparr>)"

text \<open>\<open>sort.Search\<close> of the Go library: binary search for the smallest index that satisfies \<open>f\<close>.\<close>

function sort_Search :: "nat \<Rightarrow> nat \<Rightarrow> (nat \<Rightarrow> bool) \<Rightarrow> nat" where
  "sort_Search i j f =
     (if i < j then (let h = (i + j) div 2 in if \<not> f h then sort_Search (h + 1) j f else sort_Search i h f)
      else i)"
  by pat_completeness auto
termination by (relation "measure (\<lambda>(i, j, f). j - i)") (auto simp: Let_def)

declare sort_Search.simps [simp del]

definition RevertToSnapshot :: "('tr, 'z) env_scheme \<Rightarrow> nat \<Rightarrow> 'tr StateDB \<Rightarrow> state_panic + 'tr StateDB" where
  "RevertToSnapshot E revid s =
     (let revs = sd_validRevisions s;
          idx = sort_Search 0 (length revs) (\<lambda>i. rev_id (revs ! i) \<ge> revid)
      in if idx = length revs \<or> rev_id (revs ! idx) \<noteq> revid then Inl (InvalidRevision revid)
         else (case journal_revert E (rev_journalIndex (revs ! idx)) s of
                 Inl p \<Rightarrow> Inl p
               | Inr s1 \<Rightarrow> Inr (s1\<lparr>sd_validRevisions := take idx (sd_validRevisions s1)\<rparr>)))"

section \<open>Finalising and copying\<close>

definition updateStateObject :: "('tr, 'z) env_scheme \<Rightarrow> 'tr stateObject \<Rightarrow> 'tr StateDB \<Rightarrow> state_panic + 'tr StateDB" where
  "updateStateObject E obj s =
     (case so_EncodeRLP obj of
        Inl e \<Rightarrow> Inl (CantEncode (so_address obj) e)
      | Inr data \<Rightarrow> (case tryUpdate E (sd_trie s) (so_address obj) data of (err, t) \<Rightarrow> Inr (setError err (s\<lparr>sd_trie := t\<rparr>))))"

definition deleteStateObject :: "('tr, 'z) env_scheme \<Rightarrow> 'tr stateObject \<Rightarrow> 'tr StateDB \<Rightarrow> 'tr StateDB" where
  "deleteStateObject E obj s =
     (let s1 = setStateObject (obj\<lparr>so_deleted := True\<rparr>) s
      in case tryDelete E (sd_trie s1) (so_address obj) of (err, t) \<Rightarrow> setError err (s1\<lparr>sd_trie := t\<rparr>))"

definition clearJournalAndRefund :: "'tr StateDB \<Rightarrow> 'tr StateDB" where
  "clearJournalAndRefund s = s\<lparr>sd_journal := newJournal, sd_validRevisions := [], sd_refund := 0\<rparr>"

definition finaliseOne :: "('tr, 'z) env_scheme \<Rightarrow> bool \<Rightarrow> Address \<Rightarrow> 'tr StateDB \<Rightarrow> state_panic + 'tr StateDB" where
  "finaliseOne E deleteEmptyObjects addr s =
     (let (so, s1) = (case map_of (sd_stateObjects s) addr of
                        Some obj \<Rightarrow> (Some obj, s)
                      | None \<Rightarrow> getStateObject E addr s)
      in case so of
           None \<Rightarrow> Inl NilDeref
         | Some obj \<Rightarrow>
             (case (if so_suicided obj \<or> (deleteEmptyObjects \<and> so_empty E obj)
                    then Inr (deleteStateObject E obj s1)
                    else (let obj' = so_updateRoot E obj
                          in updateStateObject E obj' (setStateObject obj' s1))) of
                Inl p \<Rightarrow> Inl p
              | Inr s2 \<Rightarrow> Inr (s2\<lparr>sd_stateObjectsDirty := set_add addr (sd_stateObjectsDirty s2)\<rparr>)))"

fun finaliseAll :: "('tr, 'z) env_scheme \<Rightarrow> bool \<Rightarrow> Address list \<Rightarrow> 'tr StateDB \<Rightarrow> state_panic + 'tr StateDB" where
  "finaliseAll E del [] s = Inr s"
| "finaliseAll E del (a # as) s =
     (case finaliseOne E del a s of Inl p \<Rightarrow> Inl p | Inr s1 \<Rightarrow> finaliseAll E del as s1)"

definition Finalise :: "('tr, 'z) env_scheme \<Rightarrow> bool \<Rightarrow> 'tr StateDB \<Rightarrow> state_panic + 'tr StateDB" where
  "Finalise E deleteEmptyObjects s =
     (case finaliseAll E deleteEmptyObjects (iterAddr E (map fst (j_dirties (sd_journal s)))) s of
        Inl p \<Rightarrow> Inl p
      | Inr s1 \<Rightarrow> Inr (clearJournalAndRefund s1))"

definition IntermediateRoot :: "('tr, 'z) env_scheme \<Rightarrow> bool \<Rightarrow> 'tr StateDB \<Rightarrow> state_panic + Hash \<times> 'tr StateDB" where
  "IntermediateRoot E deleteEmptyObjects s =
     (case Finalise E deleteEmptyObjects s of
        Inl p \<Rightarrow> Inl p
      | Inr s1 \<Rightarrow> Inr (trieHash E (sd_trie s1), s1))"

fun copyDirties ::
  "('tr, 'z) env_scheme \<Rightarrow> 'tr StateDB \<Rightarrow> Address list \<Rightarrow> 'tr StateDB \<Rightarrow> 'tr StateDB" where
  "copyDirties E self [] st = st"
| "copyDirties E self (a # as) st =
     copyDirties E self as
       (case map_of (sd_stateObjects self) a of
          None \<Rightarrow> st
        | Some obj \<Rightarrow>
            st\<lparr>sd_stateObjects := AList.update a (so_deepCopy E obj) (sd_stateObjects st),
               sd_stateObjectsDirty := set_add a (sd_stateObjectsDirty st)\<rparr>)"

fun copyOldDirties ::
  "('tr, 'z) env_scheme \<Rightarrow> 'tr StateDB \<Rightarrow> Address list \<Rightarrow> 'tr StateDB \<Rightarrow> state_panic + 'tr StateDB" where
  "copyOldDirties E self [] st = Inr st"
| "copyOldDirties E self (a # as) st =
     (if map_of (sd_stateObjects st) a \<noteq> None then copyOldDirties E self as st
      else (case map_of (sd_stateObjects self) a of
              None \<Rightarrow> Inl NilDeref
            | Some obj \<Rightarrow>
                copyOldDirties E self as
                  (st\<lparr>sd_stateObjects := AList.update a (so_deepCopy E obj) (sd_stateObjects st),
                      sd_stateObjectsDirty := set_add a (sd_stateObjectsDirty st)\<rparr>)))"

definition StateDB_Copy :: "('tr, 'z) env_scheme \<Rightarrow> 'tr StateDB \<Rightarrow> state_panic + 'tr StateDB" where
  "StateDB_Copy E self =
     (let st = (emptyStateDB (copyTrie E (sd_trie self)))
                 \<lparr>sd_refund := sd_refund self, sd_logSize := sd_logSize self\<rparr>;
          st1 = copyDirties E self (iterAddr E (map fst (j_dirties (sd_journal self)))) st
      in case copyOldDirties E self (iterAddr E (sd_stateObjectsDirty self)) st1 of
           Inl p \<Rightarrow> Inl p
         | Inr st2 \<Rightarrow> Inr (st2\<lparr>sd_preimages := sd_preimages self\<rparr>))"

end
