(* ===== verification/StateView.thy ===== *)
theory StateView
  imports StateDB
begin

text \<open>
  What a \<open>StateDB\<close> shows to its users, independently of what happens to be loaded: the view of an
  account, the view of the whole state, and the effect of every method of an object on its view.
\<close>

section \<open>The view of an account\<close>

record acct =
  av_nonce :: u64
  av_balance :: int
  av_codeHash :: bytes
  av_root :: Hash
  av_code :: "bytes option"
  av_suicided :: bool
  av_storage :: "Hash \<Rightarrow> Hash"
  av_pdx :: "Hash \<Rightarrow> bytes"

text \<open>The value of a storage slot as \<open>TryGet\<close> of the storage trie returns it.\<close>

definition slotOf :: "bytes \<times> state_error option \<Rightarrow> Hash" where
  "slotOf r =
     (case r of (enc, err) \<Rightarrow>
        if err \<noteq> None \<or> enc = [] then zeroHash
        else (case Split enc of Inl _ \<Rightarrow> zeroHash | Inr (_, content, _) \<Rightarrow> BytesToHash content))"

definition pdxOf :: "bytes \<times> state_error option \<Rightarrow> bytes" where
  "pdxOf r = (case r of (enc, err) \<Rightarrow> if err \<noteq> None then [] else enc)"

definition codeView :: "('tr, 'z) env_scheme \<Rightarrow> Hash \<Rightarrow> bytes option \<Rightarrow> bytes \<Rightarrow> bytes option" where
  "codeView E addrHash code hash =
     (if code \<noteq> None then code
      else if hash = emptyCodeHash E then None
      else fst (contractCode E addrHash (BytesToHash hash)))"

text \<open>The storage trie of an object, opened or not, and the contents of a storage.\<close>

definition trieOf :: "('tr, 'z) env_scheme \<Rightarrow> Hash \<Rightarrow> Hash \<Rightarrow> 'tr option \<Rightarrow> 'tr" where
  "trieOf E addrHash root t =
     (case t of
        Some t' \<Rightarrow> t'
      | None \<Rightarrow> (case openStorageTrie E addrHash root of Inr t' \<Rightarrow> t' | Inl _ \<Rightarrow> emptyStorageTrie E addrHash))"

definition so_trieOf :: "('tr, 'z) env_scheme \<Rightarrow> 'tr stateObject \<Rightarrow> 'tr" where
  "so_trieOf E so = trieOf E (so_addrHash so) (ac_Root (so_data so)) (so_trie so)"

definition storageView :: "('tr, 'z) env_scheme \<Rightarrow> 'tr \<Rightarrow> Storage \<Rightarrow> Hash \<Rightarrow> Hash" where
  "storageView E t cached = (\<lambda>k. case map_of cached k of Some v \<Rightarrow> v | None \<Rightarrow> slotOf (tryGet E t k))"

definition pdxView :: "('tr, 'z) env_scheme \<Rightarrow> 'tr \<Rightarrow> PDXStorage \<Rightarrow> Hash \<Rightarrow> bytes" where
  "pdxView E t cached = (\<lambda>k. case map_of cached k of Some v \<Rightarrow> v | None \<Rightarrow> pdxOf (tryGet E t k))"

definition so_view :: "('tr, 'z) env_scheme \<Rightarrow> 'tr stateObject \<Rightarrow> acct" where
  "so_view E so =
     \<lparr>av_nonce = ac_Nonce (so_data so), av_balance = ac_Balance (so_data so),
      av_codeHash = ac_CodeHash (so_data so), av_root = ac_Root (so_data so),
      av_code = codeView E (so_addrHash so) (so_code so) (ac_CodeHash (so_data so)),
      av_suicided = so_suicided so,
      av_storage = storageView E (so_trieOf E so) (so_cachedStorage so),
      av_pdx = pdxView E (so_trieOf E so) (so_pdxCachedStorage so)\<rparr>"

lemma alist_simps [simp]:
  "map_of (AList.update k v al) = (map_of al)(k \<mapsto> v)" "map_of (AList.delete k al) = (map_of al)(k := None)"
  by (simp_all add: update_conv' delete_conv')

lemma Hash_SetBytes_zero: "Hash_SetBytes zeroHash b = BytesToHash b"
  by (simp add: BytesToHash_def)

lemma BytesToHash_Nil [simp]: "BytesToHash [] = zeroHash"
  by (simp add: BytesToHash_eq zeroHash_def HashLength_def)

section \<open>Loading does not change the view\<close>

text \<open>The fields that identify an object and that no loading changes.\<close>

definition so_ident :: "'tr stateObject \<Rightarrow> Address \<times> Hash \<times> Account \<times> bool \<times> bool" where
  "so_ident so = (so_address so, so_addrHash so, so_data so, so_suicided so, so_deleted so)"

lemma so_ident_simps [simp]:
  "so_ident (so_setError e so) = so_ident so" "so_ident (so\<lparr>so_trie := t\<rparr>) = so_ident so"
  "so_ident (so\<lparr>so_cachedStorage := c\<rparr>) = so_ident so" "so_ident (so\<lparr>so_code := c'\<rparr>) = so_ident so"
  by (simp_all add: so_ident_def so_setError_def)

lemma so_setError_fields [simp]:
  "so_trie (so_setError e so) = so_trie so" "so_code (so_setError e so) = so_code so"
  "so_cachedStorage (so_setError e so) = so_cachedStorage so"
  "so_pdxCachedStorage (so_setError e so) = so_pdxCachedStorage so"
  "so_data (so_setError e so) = so_data so" "so_addrHash (so_setError e so) = so_addrHash so"
  "so_suicided (so_setError e so) = so_suicided so" "so_address (so_setError e so) = so_address so"
  "so_dirtyStorage (so_setError e so) = so_dirtyStorage so"
  "so_pdxDirtyStorage (so_setError e so) = so_pdxDirtyStorage so"
  "so_deleted (so_setError e so) = so_deleted so"
  by (simp_all add: so_setError_def)

lemma so_getTrie_fst: "fst (so_getTrie E so) = so_trieOf E so"
  by (simp add: so_getTrie_def so_trieOf_def trieOf_def Let_def split: option.splits sum.splits)

lemma so_getTrie_snd:
  assumes "so_getTrie E so = (t, so1)"
  shows "so_ident so1 = so_ident so" "so_trie so1 = Some t" "so_code so1 = so_code so"
    "so_cachedStorage so1 = so_cachedStorage so" "so_pdxCachedStorage so1 = so_pdxCachedStorage so"
    "so_dirtyStorage so1 = so_dirtyStorage so" "so_pdxDirtyStorage so1 = so_pdxDirtyStorage so"
    "t = so_trieOf E so"
  using assms so_getTrie_fst [of E so]
  by (auto simp: so_getTrie_def Let_def split: option.splits sum.splits)

lemma so_trieOf_Some: "so_trie so = Some t \<Longrightarrow> so_trieOf E so = t"
  by (simp add: so_trieOf_def trieOf_def)

lemma so_view_eqI:
  assumes "so_ident so' = so_ident so" "codeView E (so_addrHash so) (so_code so') (ac_CodeHash (so_data so))
      = codeView E (so_addrHash so) (so_code so) (ac_CodeHash (so_data so))"
    "so_trieOf E so' = so_trieOf E so"
    "storageView E (so_trieOf E so) (so_cachedStorage so') = storageView E (so_trieOf E so) (so_cachedStorage so)"
    "so_pdxCachedStorage so' = so_pdxCachedStorage so"
  shows "so_view E so' = so_view E so"
  using assms by (simp add: so_view_def so_ident_def)

lemma so_trieOf_setError [simp]: "so_trieOf E (so_setError e so) = so_trieOf E so"
  by (simp add: so_trieOf_def)

lemma setError_view [simp]: "so_view E (so_setError e so) = so_view E so"
  by (rule so_view_eqI) simp_all

lemma getTrie_view: "so_getTrie E so = (t, so1) \<Longrightarrow> so_view E so1 = so_view E so"
  by (rule so_view_eqI) (simp_all add: so_getTrie_snd so_trieOf_Some)

lemma storageView_update:
  "storageView E t (AList.update k v c) = (storageView E t c)(k := v)"
  by (rule ext) (simp add: storageView_def)

lemma pdxView_update: "pdxView E t (AList.update k v c) = (pdxView E t c)(k := v)"
  by (rule ext) (simp add: pdxView_def)

text \<open>\<open>GetState\<close> returns the slot of the view, and caches it.\<close>

lemma so_GetState_cases:
  obtains v where "so_GetState E key so = (v, so)" "v = av_storage (so_view E so) key"
  | v so1 where "so_GetState E key so = (v, so1)" "v = av_storage (so_view E so) key" "so_ident so1 = so_ident so"
      "so_trie so1 = Some (so_trieOf E so)" "so_code so1 = so_code so"
      "so_pdxCachedStorage so1 = so_pdxCachedStorage so"
      "so_cachedStorage so1 = so_cachedStorage so \<or> so_cachedStorage so1 = AList.update key v (so_cachedStorage so)"
proof (cases "map_of (so_cachedStorage so) key")
  case (Some x)
  with that(1) show thesis by (simp add: so_GetState_def so_view_def storageView_def)
next
  case None
  obtain t so2 where g: "so_getTrie E so = (t, so2)" by fastforce
  note f = so_getTrie_snd [OF g]
  obtain enc err where tg: "tryGet E t key = (enc, err)" by fastforce
  have st: "av_storage (so_view E so) key = slotOf (enc, err)"
    using None f tg by (simp add: so_view_def storageView_def)
  show thesis
  proof (cases err)
    case (Some e)
    then have "so_GetState E key so = (zeroHash, so_setError (Some e) so2)"
      using None g tg by (simp add: so_GetState_def)
    with that(2) st Some f show thesis by (simp add: slotOf_def)
  next
    case n: None
    define so3 where "so3 = (if length enc > 0
      then (case Split enc of Inl err \<Rightarrow> so_setError (Some (RlpError err)) so2 | Inr _ \<Rightarrow> so2) else so2)"
    have "so_GetState E key so = (slotOf (enc, err),
        so3\<lparr>so_cachedStorage := AList.update key (slotOf (enc, err)) (so_cachedStorage so3)\<rparr>)"
      using None g tg n
      by (auto simp: so_GetState_def so3_def slotOf_def Hash_SetBytes_zero split: sum.splits)
    moreover have "so_ident so3 = so_ident so" "so_trie so3 = Some t" "so_code so3 = so_code so"
      "so_cachedStorage so3 = so_cachedStorage so" "so_pdxCachedStorage so3 = so_pdxCachedStorage so"
      using f by (auto simp: so3_def split: sum.splits)
    ultimately show thesis using that(2) st f by simp
  qed
qed

lemma GetState_view:
  assumes "so_GetState E key so = (v, so1)"
  shows "v = av_storage (so_view E so) key" "so_view E so1 = so_view E so" "so_ident so1 = so_ident so"
proof -
  have "v = av_storage (so_view E so) key \<and> so_view E so1 = so_view E so \<and> so_ident so1 = so_ident so"
  proof (rule so_GetState_cases [of E key so])
    fix w assume "so_GetState E key so = (w, so)" "w = av_storage (so_view E so) key"
    with assms show ?thesis by (metis prod.inject)
  next
    fix w so2 assume a: "so_GetState E key so = (w, so2)" "w = av_storage (so_view E so) key" "so_ident so2 = so_ident so"
      "so_trie so2 = Some (so_trieOf E so)" "so_code so2 = so_code so" "so_pdxCachedStorage so2 = so_pdxCachedStorage so"
      "so_cachedStorage so2 = so_cachedStorage so \<or> so_cachedStorage so2 = AList.update key w (so_cachedStorage so)"
    have "so_view E so2 = so_view E so"
      using a by (intro so_view_eqI) (auto simp: so_trieOf_Some storageView_update so_view_def)
    with a assms show ?thesis by (metis prod.inject)
  qed
  then show "v = av_storage (so_view E so) key" "so_view E so1 = so_view E so" "so_ident so1 = so_ident so" by auto
qed

lemma GetPDXState_view:
  assumes "so_GetPDXState E key so = (v, so1)"
  shows "v = av_pdx (so_view E so) key" "so_view E so1 = so_view E so" "so_ident so1 = so_ident so"
proof -
  obtain t so2 where g: "so_getTrie E so = (t, so2)" by fastforce
  note f = so_getTrie_snd [OF g] and w = getTrie_view [OF g]
  have p: "av_pdx (so_view E so) key =
      (case map_of (so_pdxCachedStorage so) key of Some v \<Rightarrow> v | None \<Rightarrow> pdxOf (tryGet E t key))"
    by (simp add: so_view_def pdxView_def f(8) split: option.splits)
  have "v = av_pdx (so_view E so) key \<and> so_view E so1 = so_view E so \<and> so_ident so1 = so_ident so"
    unfolding p using assms g f(1) w
    by (auto simp: so_GetPDXState_def pdxOf_def split: option.splits if_splits prod.splits)
  then show "v = av_pdx (so_view E so) key" "so_view E so1 = so_view E so" "so_ident so1 = so_ident so" by auto
qed

lemma Code_view:
  assumes "so_Code E so = (c, so1)"
  shows "c = av_code (so_view E so)" "so_view E so1 = so_view E so" "so_ident so1 = so_ident so"
proof -
  have "c = av_code (so_view E so) \<and> so_ident so1 = so_ident so \<and> so_trie so1 = so_trie so
    \<and> so_cachedStorage so1 = so_cachedStorage so \<and> so_pdxCachedStorage so1 = so_pdxCachedStorage so
    \<and> (so1 = so \<or> so_code so1 = c)"
    using assms by (auto simp: so_Code_def so_view_def codeView_def Let_def split: if_splits prod.splits option.splits)
  moreover from this have "so_view E so1 = so_view E so"
    by (intro so_view_eqI) (auto simp: so_view_def codeView_def so_trieOf_def so_ident_def)
  ultimately show "c = av_code (so_view E so)" "so_view E so1 = so_view E so" "so_ident so1 = so_ident so" by auto
qed

section \<open>The primitive changes of an object\<close>

lemma so_ident_eq:
  "so_ident so1 = so_ident so \<longleftrightarrow> so_address so1 = so_address so \<and> so_addrHash so1 = so_addrHash so
     \<and> so_data so1 = so_data so \<and> so_suicided so1 = so_suicided so \<and> so_deleted so1 = so_deleted so"
  by (simp add: so_ident_def)

lemmas so_trieOf_defs = so_trieOf_def trieOf_def

lemma so_setBalance_view: "so_view E (so_setBalance b so) = (so_view E so)\<lparr>av_balance := b\<rparr>"
  by (simp add: so_view_def so_setBalance_def so_trieOf_defs)

lemma so_setNonce_view: "so_view E (so_setNonce n so) = (so_view E so)\<lparr>av_nonce := n\<rparr>"
  by (simp add: so_view_def so_setNonce_def so_trieOf_defs)

lemma so_setCode_view:
  "so_view E (so_setCode h c so) = (so_view E so)\<lparr>av_codeHash := h, av_code := codeView E (so_addrHash so) c h\<rparr>"
  by (simp add: so_view_def so_setCode_def so_trieOf_defs)

lemma so_setState_view: "so_view E (so_setState k v so) = (so_view E so)\<lparr>av_storage := (av_storage (so_view E so))(k := v)\<rparr>"
  by (simp add: so_view_def so_setState_def so_trieOf_defs storageView_update)

lemma so_setPDXState_view:
  "so_view E (so_setPDXState k v so) = (so_view E so)\<lparr>av_pdx := (av_pdx (so_view E so))(k := v)\<rparr>"
  by (simp add: so_view_def so_setPDXState_def so_trieOf_defs pdxView_update)

lemma so_suicided_view: "so_view E (so\<lparr>so_suicided := b\<rparr>) = (so_view E so)\<lparr>av_suicided := b\<rparr>"
  by (simp add: so_view_def so_trieOf_defs)

lemmas so_set_views = so_setBalance_view so_setNonce_view so_setCode_view so_setState_view so_setPDXState_view
  so_suicided_view

lemmas so_set_defs = so_setBalance_def so_setNonce_def so_setCode_def so_setState_def so_setPDXState_def
  so_markSuicided_def

section \<open>The view of the state\<close>

text \<open>The object that \<open>getStateObject\<close> would load from the trie.\<close>

definition trieObj :: "('tr, 'z) env_scheme \<Rightarrow> 'tr \<Rightarrow> Address \<Rightarrow> 'tr stateObject option" where
  "trieObj E t a =
     (case tryGet E t a of (enc, _) \<Rightarrow>
        if length enc = 0 then None
        else (case DecodeBytes enc (PointerTo accountType) of
                Inl _ \<Rightarrow> None
              | Inr v \<Rightarrow> map_option (newObject E a) (accountOf v)))"

definition objOf :: "('tr, 'z) env_scheme \<Rightarrow> 'tr StateDB \<Rightarrow> Address \<Rightarrow> 'tr stateObject option" where
  "objOf E s a =
     (case map_of (sd_stateObjects s) a of
        Some obj \<Rightarrow> if so_deleted obj then None else Some obj
      | None \<Rightarrow> trieObj E (sd_trie s) a)"

record sview =
  v_accounts :: "Address \<Rightarrow> acct option"
  v_refund :: u64
  v_preimages :: "Hash \<Rightarrow> bytes option"

definition sd_view :: "('tr, 'z) env_scheme \<Rightarrow> 'tr StateDB \<Rightarrow> sview" where
  "sd_view E s = \<lparr>v_accounts = (\<lambda>a. map_option (so_view E) (objOf E s a)),
                  v_refund = sd_refund s, v_preimages = map_of (sd_preimages s)\<rparr>"

lemma trieObj_SomeD:
  assumes "trieObj E t a = Some obj"
  shows "so_address obj = a" "so_addrHash obj = keccak E a" "\<not> so_deleted obj"
  using assms by (auto simp: trieObj_def newObject_def split: prod.splits if_splits sum.splits)

lemma setError_fields [simp]:
  "sd_stateObjects (setError e s) = sd_stateObjects s" "sd_trie (setError e s) = sd_trie s"
  "sd_refund (setError e s) = sd_refund s" "sd_preimages (setError e s) = sd_preimages s"
  "sd_journal (setError e s) = sd_journal s" "sd_validRevisions (setError e s) = sd_validRevisions s"
  "sd_nextRevisionId (setError e s) = sd_nextRevisionId s"
  "sd_stateObjectsDirty (setError e s) = sd_stateObjectsDirty s"
  by (simp_all add: setError_def)

text \<open>The fields that neither loading nor a change of one object touches.\<close>

definition sd_rest :: "'tr StateDB \<Rightarrow> 'tr \<times> u64 \<times> (Hash \<times> bytes) list \<times> revision list \<times> nat \<times> Address list" where
  "sd_rest s = (sd_trie s, sd_refund s, sd_preimages s, sd_validRevisions s, sd_nextRevisionId s, sd_stateObjectsDirty s)"

lemma sd_rest_simps [simp]:
  "sd_rest (setError e s) = sd_rest s" "sd_rest (setStateObject obj s) = sd_rest s"
  "sd_rest (s\<lparr>sd_journal := j\<rparr>) = sd_rest s" "sd_rest (appendEntry en s) = sd_rest s"
  by (simp_all add: sd_rest_def setStateObject_def appendEntry_def)

lemma setStateObject_fields [simp]:
  "sd_journal (setStateObject obj s) = sd_journal s"
  "sd_stateObjects (setStateObject obj s) = AList.update (so_address obj) obj (sd_stateObjects s)"
  by (simp_all add: setStateObject_def)

lemma getStateObject_eq:
  "getStateObject E a s = (objOf E s a, snd (getStateObject E a s))"
  "snd (getStateObject E a s) =
     (case map_of (sd_stateObjects s) a of
        Some obj \<Rightarrow> s
      | None \<Rightarrow> (case trieObj E (sd_trie s) a of
                   Some obj \<Rightarrow> setStateObject obj s
                 | None \<Rightarrow> if fst (tryGet E (sd_trie s) a) = [] then setError (snd (tryGet E (sd_trie s) a)) s else s))"
  by (auto simp: getStateObject_def objOf_def trieObj_def Let_def split: option.splits prod.splits sum.splits)

lemma getStateObject_loaded:
  assumes "getStateObject E a s = (o1, s1)"
  shows "o1 = objOf E s a" "sd_rest s1 = sd_rest s" "sd_journal s1 = sd_journal s"
    "map_of (sd_stateObjects s1) =
       (case o1 of None \<Rightarrow> map_of (sd_stateObjects s) | Some obj \<Rightarrow> (map_of (sd_stateObjects s))(a \<mapsto> obj))"
proof -
  have s1: "s1 = snd (getStateObject E a s)" using assms by simp
  show "o1 = objOf E s a" using assms getStateObject_eq(1) [of E a s] by simp
  show "sd_rest s1 = sd_rest s" "sd_journal s1 = sd_journal s"
    by (simp_all add: s1 getStateObject_eq(2) split: option.splits)
  show "map_of (sd_stateObjects s1) =
       (case o1 of None \<Rightarrow> map_of (sd_stateObjects s) | Some obj \<Rightarrow> (map_of (sd_stateObjects s))(a \<mapsto> obj))"
    using \<open>o1 = objOf E s a\<close>
    by (auto simp: s1 getStateObject_eq(2) objOf_def trieObj_SomeD split: option.splits if_splits intro!: ext)
qed

end
