(* ===== verification/UndoLog.thy ===== *)
theory UndoLog
  imports Prelude
begin

text \<open>
  The contract of an undo log: a state with a list of entries, each of which says how to take one
  change of the abstract state back. The clients of the contract get that the abstract state at
  any earlier length of the log is determined by the log and is what a rollback re-establishes.
\<close>

definition undo_all :: "('e \<Rightarrow> 'v \<Rightarrow> 'v option) \<Rightarrow> 'e list \<Rightarrow> 'v \<Rightarrow> 'v option" where
  "undo_all undo es v = foldr (\<lambda>e r. Option.bind r (undo e)) es (Some v)"

lemma undo_all_simps [simp]:
  "undo_all undo [] v = Some v" "undo_all undo [e] v = undo e v"
  "undo_all undo (e # es) v = Option.bind (undo_all undo es v) (undo e)"
  by (simp_all add: undo_all_def)

lemma undo_all_append:
  "undo_all undo (es @ fs) v = Option.bind (undo_all undo fs v) (undo_all undo es)"
proof (induction es)
  case Nil
  show ?case by (cases "undo_all undo fs v") simp_all
next
  case (Cons e es)
  then show ?case by (cases "undo_all undo fs v") simp_all
qed

text \<open>
  \<open>log\<close> is the log, \<open>abs\<close> the abstract state, \<open>inv\<close> the invariant, \<open>undo\<close> the meaning of an entry
  and \<open>rollback n\<close> the operation that takes back every entry from the \<open>n\<close>th on.
\<close>

locale undo_log =
  fixes log :: "'s \<Rightarrow> 'e list" and abs :: "'s \<Rightarrow> 'v" and inv :: "'s \<Rightarrow> bool"
    and undo :: "'e \<Rightarrow> 'v \<Rightarrow> 'v option" and rollback :: "nat \<Rightarrow> 's \<Rightarrow> 'p + 's"
  assumes rollback_ok: "inv s \<Longrightarrow> n \<le> length (log s) \<Longrightarrow> undo_all undo (drop n (log s)) (abs s) = Some v
      \<Longrightarrow> \<exists>s'. rollback n s = Inr s' \<and> inv s' \<and> abs s' = v \<and> log s' = take n (log s)"
begin

definition past :: "nat \<Rightarrow> 's \<Rightarrow> 'v option" where
  "past n s = undo_all undo (drop n (log s)) (abs s)"

definition recorded :: "'s \<Rightarrow> 's \<Rightarrow> bool" where
  "recorded s s' \<longleftrightarrow> inv s' \<and> (\<exists>es. log s' = log s @ es \<and> undo_all undo es (abs s') = Some (abs s))"

lemma recorded_refl: "inv s \<Longrightarrow> recorded s s"
  by (auto simp: recorded_def)

lemma recorded_trans: "recorded s s' \<Longrightarrow> recorded s' s'' \<Longrightarrow> recorded s s''"
  by (force simp: recorded_def undo_all_append)

lemma past_now: "past (length (log s)) s = Some (abs s)"
  by (simp add: past_def)

lemma past_recorded:
  assumes "recorded s s'" "n \<le> length (log s)"
  shows "past n s' = past n s" "n \<le> length (log s')"
proof -
  from assms(1) obtain es where es: "log s' = log s @ es" "undo_all undo es (abs s') = Some (abs s)"
    by (auto simp: recorded_def)
  from es assms(2) show "past n s' = past n s" "n \<le> length (log s')"
    by (simp_all add: past_def undo_all_append)
qed

lemma past_split:
  assumes "n \<le> m" "m \<le> length (log s)"
  shows "past n s = Option.bind (past m s) (undo_all undo (drop n (take m (log s))))"
proof -
  have "drop n (log s) = drop n (take m (log s)) @ drop m (log s)"
    using assms by (metis append_take_drop_id drop_append drop_take length_take min.absorb2 diff_is_0_eq drop_0)
  then show ?thesis by (simp add: past_def undo_all_append)
qed

lemma rollback_past:
  assumes "inv s" "m \<le> length (log s)" "past m s = Some v"
  obtains s' where "rollback m s = Inr s'" "inv s'" "abs s' = v" "log s' = take m (log s)"
    "\<forall>n\<le>m. past n s' = past n s"
proof -
  from assms rollback_ok obtain s' where s': "rollback m s = Inr s'" "inv s'" "abs s' = v" "log s' = take m (log s)"
    unfolding past_def by metis
  have "past n s' = past n s" if "n \<le> m" for n
    using past_split [OF that assms(2)] assms(3) s' by (simp add: past_def)
  with s' that show thesis by blast
qed

end

end
