(* ===== verification/StateLaws.thy ===== *)
theory StateLaws
  imports StateView UndoLog
begin

text \<open>
  The journal is an undo log of the view: what every entry means on the view, that every method
  of \<open>StateDB\<close> records exactly what it changes, and that \<open>journal.revert\<close> takes it back.
\<close>

section \<open>Well-formed states\<close>

definition so_ok :: "('tr, 'z) env_scheme \<Rightarrow> Address \<Rightarrow> 'tr stateObject \<Rightarrow> bool" where
  "so_ok E a obj \<longleftrightarrow> so_address obj = a \<and> so_addrHash obj = keccak E a \<and> length (ac_CodeHash (so_data obj)) = HashLength"

fun entry_ok :: "('tr, 'z) env_scheme \<Rightarrow> 'tr \<Rightarrow> 'tr journalEntry \<Rightarrow> bool" where
  "entry_ok E t (createObjectChange a) \<longleftrightarrow> trieObj E t a = None"
| "entry_ok E t (resetObjectChange p) \<longleftrightarrow> so_ok E (so_address p) p \<and> \<not> so_deleted p"
| "entry_ok E t (codeChange a c h) \<longleftrightarrow> length h = HashLength"
| "entry_ok E t _ \<longleftrightarrow> True"

definition env_ok :: "('tr, 'z) env_scheme \<Rightarrow> bool" where
  "env_ok E \<longleftrightarrow> (\<forall>b. length (keccak E b) = HashLength)"

definition trie_ok :: "('tr, 'z) env_scheme \<Rightarrow> 'tr \<Rightarrow> bool" where
  "trie_ok E t \<longleftrightarrow> (\<forall>a obj. trieObj E t a = Some obj \<longrightarrow> length (ac_CodeHash (so_data obj)) = HashLength)"

definition live_ok :: "('tr, 'z) env_scheme \<Rightarrow> 'tr StateDB \<Rightarrow> bool" where
  "live_ok E s \<longleftrightarrow> (\<forall>a obj. map_of (sd_stateObjects s) a = Some obj
     \<longrightarrow> so_ok E a obj \<and> (so_deleted obj \<longrightarrow> trieObj E (sd_trie s) a = None))"

definition sd_ok :: "('tr, 'z) env_scheme \<Rightarrow> 'tr StateDB \<Rightarrow> bool" where
  "sd_ok E s \<longleftrightarrow> env_ok E \<and> trie_ok E (sd_trie s) \<and> live_ok E s
     \<and> (\<forall>e \<in> set (j_entries (sd_journal s)). entry_ok E (sd_trie s) e)"

lemma env_ok_keccak: "env_ok E \<Longrightarrow> length (keccak E b) = HashLength"
  by (simp add: env_ok_def)

lemma objOf_ok: "sd_ok E s \<Longrightarrow> objOf E s a = Some obj \<Longrightarrow> so_ok E a obj \<and> \<not> so_deleted obj"
  by (auto simp: sd_ok_def live_ok_def trie_ok_def objOf_def so_ok_def trieObj_SomeD split: option.splits if_splits)

lemma so_ok_ident: "so_ident so1 = so_ident so \<Longrightarrow> so_ok E a so1 = so_ok E a so"
  by (simp add: so_ident_eq so_ok_def)

section \<open>The building blocks of the methods\<close>

text \<open>The state before and after loading: same view, same journal, same revisions.\<close>

definition same_state :: "('tr, 'z) env_scheme \<Rightarrow> 'tr StateDB \<Rightarrow> 'tr StateDB \<Rightarrow> bool" where
  "same_state E s s1 \<longleftrightarrow> sd_view E s1 = sd_view E s \<and> sd_journal s1 = sd_journal s \<and> sd_rest s1 = sd_rest s"

lemma sd_rest_eq:
  "sd_rest s1 = sd_rest s \<longleftrightarrow> sd_trie s1 = sd_trie s \<and> sd_refund s1 = sd_refund s \<and> sd_preimages s1 = sd_preimages s
     \<and> sd_validRevisions s1 = sd_validRevisions s \<and> sd_nextRevisionId s1 = sd_nextRevisionId s
     \<and> sd_stateObjectsDirty s1 = sd_stateObjectsDirty s"
  by (simp add: sd_rest_def)

lemma put_ok:
  assumes "sd_ok E s" "so_ok E a obj" "\<not> so_deleted obj"
  shows "sd_ok E (setStateObject obj s)"
  using assms by (auto simp: sd_ok_def live_ok_def setStateObject_def so_ok_def)

lemma put_view:
  assumes "so_address obj = a" "\<not> so_deleted obj"
  shows "sd_view E (setStateObject obj s) = (sd_view E s)\<lparr>v_accounts := (v_accounts (sd_view E s))(a \<mapsto> so_view E obj)\<rparr>"
  using assms by (auto simp: sd_view_def objOf_def setStateObject_def intro!: ext cong: option.case_cong)

lemma view_accounts: "v_accounts (sd_view E s) a = map_option (so_view E) (objOf E s a)"
  by (simp add: sd_view_def)

lemma load:
  assumes "getStateObject E a s = (o1, s1)" "sd_ok E s"
  shows "o1 = objOf E s a" "same_state E s s1" "sd_ok E s1" "objOf E s1 = objOf E s"
    "\<And>obj. o1 = Some obj \<Longrightarrow> so_ok E a obj \<and> \<not> so_deleted obj"
proof -
  note l = getStateObject_loaded [OF assms(1)]
  show o1: "o1 = objOf E s a" by (rule l)
  then show "\<And>obj. o1 = Some obj \<Longrightarrow> so_ok E a obj \<and> \<not> so_deleted obj" using objOf_ok [OF assms(2), of a] by simp
  have tr: "sd_trie s1 = sd_trie s" using l(2) by (simp add: sd_rest_eq)
  show eq: "objOf E s1 = objOf E s"
  proof (rule ext)
    fix b
    show "objOf E s1 b = objOf E s b"
    proof (cases o1)
      case None
      with l(4) tr show ?thesis by (simp add: objOf_def cong: option.case_cong)
    next
      case (Some obj)
      then have "\<not> so_deleted obj" using o1 objOf_ok [OF assms(2), of a obj] by simp
      with Some l(4) tr have "objOf E s1 b = (if b = a then Some obj else objOf E s b)"
        by (simp add: objOf_def cong: option.case_cong)
      with Some o1 show ?thesis by simp
    qed
  qed
  then show "same_state E s s1" using l by (simp add: same_state_def sd_view_def sd_rest_eq)
  have "live_ok E s1"
    using assms(2) l(4) tr objOf_ok [OF assms(2), of a] unfolding o1
    by (auto simp: sd_ok_def live_ok_def split: option.splits if_splits)
  then show "sd_ok E s1" using assms(2) tr l(3) by (simp add: sd_ok_def)
qed

lemma j_append_entries [simp]: "j_entries (j_append e j) = j_entries j @ [e]"
  by (simp add: j_append_def j_dirty_def Let_def split: option.splits)

lemma j_dirty_entries [simp]: "j_entries (j_dirty a j) = j_entries j"
  by (simp add: j_dirty_def)

lemma j_undirty_entries [simp]: "j_entries (j_undirty e j) = j_entries j"
  by (simp add: j_undirty_def Let_def split: option.splits)

lemma appendEntry_view [simp]: "sd_view E (appendEntry e s) = sd_view E s"
  by (simp add: sd_view_def objOf_def appendEntry_def cong: option.case_cong)

lemma journal_view [simp]: "sd_view E (s\<lparr>sd_journal := j\<rparr>) = sd_view E s"
  by (simp add: sd_view_def objOf_def cong: option.case_cong)

lemma journal_ok:
  "sd_ok E s \<Longrightarrow> \<forall>e \<in> set (j_entries j). entry_ok E (sd_trie s) e \<Longrightarrow> sd_ok E (s\<lparr>sd_journal := j\<rparr>)"
  by (simp add: sd_ok_def live_ok_def)

section \<open>The meaning of the entries\<close>

definition on_acct :: "Address \<Rightarrow> (acct \<Rightarrow> acct) \<Rightarrow> sview \<Rightarrow> sview option" where
  "on_acct a f v =
     (case v_accounts v a of None \<Rightarrow> None | Some ac \<Rightarrow> Some (v\<lparr>v_accounts := (v_accounts v)(a \<mapsto> f ac)\<rparr>))"

fun aundo :: "('tr, 'z) env_scheme \<Rightarrow> 'tr journalEntry \<Rightarrow> sview \<Rightarrow> sview option" where
  "aundo E (createObjectChange a) v = Some (v\<lparr>v_accounts := (v_accounts v)(a := None)\<rparr>)"
| "aundo E (resetObjectChange p) v = Some (v\<lparr>v_accounts := (v_accounts v)(so_address p \<mapsto> so_view E p)\<rparr>)"
| "aundo E (suicideChange a prev bal) v = on_acct a (\<lambda>ac. ac\<lparr>av_suicided := prev, av_balance := bal\<rparr>) v"
| "aundo E (balanceChange a bal) v = on_acct a (av_balance_update (\<lambda>_. bal)) v"
| "aundo E (nonceChange a n) v = on_acct a (av_nonce_update (\<lambda>_. n)) v"
| "aundo E (storageChange a k w) v = on_acct a (\<lambda>ac. ac\<lparr>av_storage := (av_storage ac)(k := w)\<rparr>) v"
| "aundo E (pdxStorageChange a k w) v = on_acct a (\<lambda>ac. ac\<lparr>av_pdx := (av_pdx ac)(k := w)\<rparr>) v"
| "aundo E (codeChange a c h) v =
     on_acct a (\<lambda>ac. ac\<lparr>av_codeHash := h, av_code := codeView E (keccak E a) c h\<rparr>) v"
| "aundo E (refundChange r) v = Some (v\<lparr>v_refund := r\<rparr>)"
| "aundo E (addPreimageChange h) v = Some (v\<lparr>v_preimages := (v_preimages v)(h := None)\<rparr>)"
| "aundo E (touchChange a) v = Some v"


section \<open>Every method records what it changes\<close>

text \<open>
  A method of an object, as \<open>onObject\<close> calls it: it keeps the object well-formed, and the entries it
  appends take the change of the account back.
\<close>

definition obj_step ::
  "('tr, 'z) env_scheme \<Rightarrow> Address \<Rightarrow> 'tr stateObject \<Rightarrow> 'tr journal \<Rightarrow> 'tr stateObject \<times> 'tr journal \<Rightarrow> bool" where
  "obj_step E a obj j r \<longleftrightarrow> (case r of (obj', j') \<Rightarrow>
     so_ok E a obj' \<and> \<not> so_deleted obj' \<and>
     (\<exists>es. j_entries j' = j_entries j @ es \<and> (\<forall>t. \<forall>e \<in> set es. entry_ok E t e) \<and>
        (\<forall>v. v_accounts v a = Some (so_view E obj') \<longrightarrow>
             undo_all (aundo E) es v = Some (v\<lparr>v_accounts := (v_accounts v)(a \<mapsto> so_view E obj)\<rparr>))))"

lemma obj_stepI:
  assumes "so_ok E a obj'" "\<not> so_deleted obj'" "j_entries j' = j_entries j @ [e]" "\<And>t. entry_ok E t e"
    "\<And>v. v_accounts v a = Some (so_view E obj')
       \<Longrightarrow> aundo E e v = Some (v\<lparr>v_accounts := (v_accounts v)(a \<mapsto> so_view E obj)\<rparr>)"
  shows "obj_step E a obj j (obj', j')"
  unfolding obj_step_def prod.case using assms(1,2)
  by (intro conjI exI [where x = "[e]"]) (simp_all add: assms(3-5))

lemma sview_same: "v_accounts v a = Some x \<Longrightarrow> v\<lparr>v_accounts := (v_accounts v)(a \<mapsto> x)\<rparr> = v" for v :: sview
  by (cases v) (simp add: fun_upd_idem)

lemma obj_step_refl: "so_ok E a obj \<Longrightarrow> \<not> so_deleted obj \<Longrightarrow> obj_step E a obj j (obj, j)"
  unfolding obj_step_def prod.case by (intro conjI exI [where x = "[]"]) (simp_all add: sview_same)

lemma so_view_same [simp]:
  "(so_view E obj)\<lparr>av_balance := ac_Balance (so_data obj)\<rparr> = so_view E obj"
  "(so_view E obj)\<lparr>av_nonce := ac_Nonce (so_data obj)\<rparr> = so_view E obj"
  "(so_view E obj)\<lparr>av_codeHash := ac_CodeHash (so_data obj)\<rparr> = so_view E obj"
  by (simp_all add: so_view_def)

lemma so_set_ok [simp]:
  "so_ok E a (so_setBalance b obj) = so_ok E a obj" "so_ok E a (so_setNonce n obj) = so_ok E a obj"
  "so_ok E a (so_setState k v obj) = so_ok E a obj" "so_ok E a (so_setPDXState k w obj) = so_ok E a obj"
  "so_ok E a (obj\<lparr>so_suicided := x\<rparr>) = so_ok E a obj"
  "length h = HashLength \<Longrightarrow> so_ok E a obj \<Longrightarrow> so_ok E a (so_setCode h c obj)"
  by (simp_all add: so_ok_def so_set_defs)

lemma so_set_deleted [simp]:
  "so_deleted (so_setBalance b obj) = so_deleted obj" "so_deleted (so_setNonce n obj) = so_deleted obj"
  "so_deleted (so_setState k v obj) = so_deleted obj" "so_deleted (so_setPDXState k w obj) = so_deleted obj"
  "so_deleted (so_setCode h c obj) = so_deleted obj"
  by (simp_all add: so_set_defs)

lemma so_ok_address: "so_ok E a obj \<Longrightarrow> so_address obj = a" and so_ok_addrHash: "so_ok E a obj \<Longrightarrow> so_addrHash obj = keccak E a"
  and so_ok_codeHash: "so_ok E a obj \<Longrightarrow> length (ac_CodeHash (so_data obj)) = HashLength"
  by (simp_all add: so_ok_def)

lemmas so_okD = so_ok_address so_ok_addrHash so_ok_codeHash

lemma obj_step_SetBalance:
  assumes "so_ok E a obj" "\<not> so_deleted obj" shows "obj_step E a obj j (so_SetBalance b obj j)"
  unfolding so_SetBalance_def using assms
  by (intro obj_stepI [where e = "balanceChange a (ac_Balance (so_data obj))"])
    (auto simp: so_okD so_set_views on_acct_def)

lemma obj_step_SetNonce:
  assumes "so_ok E a obj" "\<not> so_deleted obj" shows "obj_step E a obj j (so_SetNonce b obj j)"
  unfolding so_SetNonce_def using assms
  by (intro obj_stepI [where e = "nonceChange a (ac_Nonce (so_data obj))"])
    (auto simp: so_okD so_set_views on_acct_def)

lemma obj_step_SubBalance:
  "so_ok E a obj \<Longrightarrow> \<not> so_deleted obj \<Longrightarrow> obj_step E a obj j (so_SubBalance b obj j)"
  by (simp add: so_SubBalance_def obj_step_refl obj_step_SetBalance)

lemma obj_step_touch: "so_ok E a obj \<Longrightarrow> \<not> so_deleted obj \<Longrightarrow> obj_step E a obj j (obj, so_touch obj j)"
  by (rule obj_stepI [where e = "touchChange a"]) (simp_all add: so_touch_def Let_def so_ok_def sview_same)

lemma obj_step_AddBalance:
  "so_ok E a obj \<Longrightarrow> \<not> so_deleted obj \<Longrightarrow> obj_step E a obj j (so_AddBalance E b obj j)"
  by (simp add: so_AddBalance_def obj_step_refl obj_step_SetBalance obj_step_touch)

lemma obj_step_SetState:
  assumes "so_ok E a obj" "\<not> so_deleted obj" shows "obj_step E a obj j (so_SetState E k v obj j)"
proof -
  obtain w obj1 where g: "so_GetState E k obj = (w, obj1)" by fastforce
  note f = GetState_view [OF g]
  have o: "so_ok E a obj1" "\<not> so_deleted obj1" "so_data obj1 = so_data obj"
    using assms f(3) by (auto simp: so_ident_eq so_ok_def)
  show ?thesis
    using o assms(1) unfolding so_SetState_def g prod.case
    by (intro obj_stepI [where e = "storageChange a k w"])
      (auto simp: so_okD so_set_views on_acct_def f(1,2))
qed

lemma obj_step_SetPDXState:
  assumes "so_ok E a obj" "\<not> so_deleted obj" shows "obj_step E a obj j (so_SetPDXState E k v obj j)"
proof -
  obtain w obj1 where g: "so_GetPDXState E k obj = (w, obj1)" by fastforce
  note f = GetPDXState_view [OF g]
  have o: "so_ok E a obj1" "\<not> so_deleted obj1" "so_data obj1 = so_data obj"
    using assms f(3) by (auto simp: so_ident_eq so_ok_def)
  show ?thesis
    using o assms(1) unfolding so_SetPDXState_def g prod.case
    by (intro obj_stepI [where e = "pdxStorageChange a k w"])
      (auto simp: so_okD so_set_views on_acct_def f(1,2))
qed

lemma codeView_idem: "codeView E h (codeView E h c x) x = codeView E h c x"
  by (simp add: codeView_def)

lemma obj_step_SetCode:
  assumes "so_ok E a obj" "\<not> so_deleted obj" "length h = HashLength"
  shows "obj_step E a obj j (so_SetCode E h c obj j)"
proof -
  obtain w obj1 where g: "so_Code E obj = (w, obj1)" by fastforce
  note f = Code_view [OF g]
  have o: "so_ok E a obj1" "\<not> so_deleted obj1" "so_data obj1 = so_data obj"
    using assms f(3) by (auto simp: so_ident_eq so_ok_def)
  have w: "codeView E (keccak E a) w (ac_CodeHash (so_data obj)) = av_code (so_view E obj)"
    using assms(1) f(1) by (simp add: so_view_def codeView_idem so_ok_def)
  show ?thesis
    using o assms(1,3) unfolding so_SetCode_def g prod.case
    by (intro obj_stepI [where e = "codeChange a w (ac_CodeHash (so_data obj))"])
      (auto simp: so_okD so_set_views on_acct_def f(2) w)
qed


text \<open>A step of the whole state that records what it does and leaves the revisions alone.\<close>

definition sd_revs :: "'tr StateDB \<Rightarrow> 'tr \<times> revision list \<times> nat" where
  "sd_revs s = (sd_trie s, sd_validRevisions s, sd_nextRevisionId s)"

definition sd_step :: "('tr, 'z) env_scheme \<Rightarrow> 'tr StateDB \<Rightarrow> 'tr StateDB \<Rightarrow> bool" where
  "sd_step E s s' \<longleftrightarrow> sd_ok E s' \<and> sd_revs s' = sd_revs s \<and>
     (\<exists>es. j_entries (sd_journal s') = j_entries (sd_journal s) @ es \<and>
           undo_all (aundo E) es (sd_view E s') = Some (sd_view E s))"

lemma sd_step_same: "sd_ok E s' \<Longrightarrow> same_state E s s' \<Longrightarrow> sd_step E s s'"
  by (auto simp: sd_step_def same_state_def sd_revs_def sd_rest_eq)

lemma sd_step_trans: "sd_step E s s' \<Longrightarrow> sd_step E s' s'' \<Longrightarrow> sd_step E s s''"
  by (force simp: sd_step_def undo_all_append)

lemma sd_stepI:
  assumes "sd_ok E s'" "sd_revs s' = sd_revs s" "j_entries (sd_journal s') = j_entries (sd_journal s) @ [e]"
    "aundo E e (sd_view E s') = Some (sd_view E s)"
  shows "sd_step E s s'"
  unfolding sd_step_def by (intro conjI exI [where x = "[e]"]) (use assms in simp_all)

lemma sd_revs_simps [simp]:
  "sd_revs (setStateObject obj s) = sd_revs s" "sd_revs (s\<lparr>sd_journal := j\<rparr>) = sd_revs s"
  "sd_revs (appendEntry en s) = sd_revs s" "sd_revs (s\<lparr>sd_refund := r\<rparr>) = sd_revs s"
  "sd_revs (s\<lparr>sd_preimages := p\<rparr>) = sd_revs s"
  by (simp_all add: sd_revs_def setStateObject_def appendEntry_def)

lemma sd_rest_revs: "sd_rest s1 = sd_rest s \<Longrightarrow> sd_revs s1 = sd_revs s"
  by (simp add: sd_rest_eq sd_revs_def)

lemma appendEntry_ok: "sd_ok E s \<Longrightarrow> entry_ok E (sd_trie s) e \<Longrightarrow> sd_ok E (appendEntry e s)"
  unfolding appendEntry_def by (rule journal_ok) (auto simp: sd_ok_def)

lemma appendEntry_entries [simp]: "j_entries (sd_journal (appendEntry e s)) = j_entries (sd_journal s) @ [e]"
  by (simp add: appendEntry_def)

lemma newObject_ok: "env_ok E \<Longrightarrow> so_ok E a (so_setNonce 0 (newObject E a zeroAccount)) \<and> \<not> so_deleted (newObject E a zeroAccount)"
  by (simp add: so_ok_def newObject_def so_setNonce_def zeroAccount_def emptyCodeHash_def env_ok_keccak)

lemma objOf_None_trie: "sd_ok E s \<Longrightarrow> objOf E s a = None \<Longrightarrow> trieObj E (sd_trie s) a = None"
  by (auto simp: objOf_def sd_ok_def live_ok_def split: option.splits if_splits)

lemma createObject_step:
  assumes "createObject E a s = (obj, prev, s')" "sd_ok E s"
  shows "sd_step E s s'" "prev = objOf E s a" "obj = so_setNonce 0 (newObject E a zeroAccount)"
    "so_ok E a obj" "\<not> so_deleted obj" "map_of (sd_stateObjects s') a = Some obj"
    "\<And>ob. so_ok E a ob \<Longrightarrow> \<not> so_deleted ob \<Longrightarrow> sd_step E s (setStateObject ob s')"
proof -
  obtain s1 where g: "getStateObject E a s = (prev, s1)"
    using assms(1) by (auto simp: createObject_def Let_def split: prod.splits)
  note l = load [OF g assms(2)]
  define e where "e = (case prev of None \<Rightarrow> createObjectChange a | Some p \<Rightarrow> resetObjectChange p)"
  define s2 where "s2 = appendEntry e s1"
  have obj: "obj = so_setNonce 0 (newObject E a zeroAccount)" and s': "s' = setStateObject obj s2"
    using assms(1) g by (auto simp: createObject_def Let_def e_def s2_def split: option.splits)
  have ok: "so_ok E a obj" "\<not> so_deleted obj"
    using newObject_ok [of E a] assms(2) by (auto simp: obj sd_ok_def)
  have s1: "sd_rest s1 = sd_rest s" "sd_view E s1 = sd_view E s" "sd_journal s1 = sd_journal s"
    using l(2) by (auto simp: same_state_def)
  have eok: "entry_ok E (sd_trie s1) e"
    using l(1,5) s1(1) objOf_None_trie [OF assms(2), of a]
    by (auto simp: e_def so_okD sd_rest_eq split: option.splits)
  have v: "v_accounts (sd_view E s) a = map_option (so_view E) prev" using l(1) by (simp add: view_accounts)
  have undo: "aundo E e ((sd_view E s)\<lparr>v_accounts := (v_accounts (sd_view E s))(a \<mapsto> x)\<rparr>) = Some (sd_view E s)" for x
    using v l(5) by (cases prev) (auto simp: e_def so_okD fun_upd_idem)
  have put: "sd_step E s (setStateObject ob X)"
    if ob: "so_ok E a ob" "\<not> so_deleted ob" and X: "X = s2 \<or> X = s'" for ob X
  proof (rule sd_stepI [where e = e])
    have "sd_ok E s2" unfolding s2_def by (rule appendEntry_ok [OF l(3) eok])
    then have "sd_ok E X" using X put_ok ok unfolding s' by blast
    then show "sd_ok E (setStateObject ob X)" using ob by (rule put_ok)
    show "sd_revs (setStateObject ob X) = sd_revs s" using X sd_rest_revs [OF s1(1)] by (auto simp: s' s2_def)
    show "j_entries (sd_journal (setStateObject ob X)) = j_entries (sd_journal s) @ [e]"
      using X by (auto simp: s' s2_def s1(3))
    have "sd_view E (setStateObject ob X) = (sd_view E s)\<lparr>v_accounts := (v_accounts (sd_view E s))(a \<mapsto> so_view E ob)\<rparr>"
      using X ok ob by (auto simp: s' s2_def put_view [of _ a] so_okD s1(2))
    then show "aundo E e (sd_view E (setStateObject ob X)) = Some (sd_view E s)" by (simp add: undo)
  qed
  show "sd_step E s s'" using put [OF ok, of s2] by (simp add: s')
  show "\<And>ob. so_ok E a ob \<Longrightarrow> \<not> so_deleted ob \<Longrightarrow> sd_step E s (setStateObject ob s')" by (rule put) simp_all
  show "prev = objOf E s a" "obj = so_setNonce 0 (newObject E a zeroAccount)" "so_ok E a obj" "\<not> so_deleted obj"
    by fact+
  show "map_of (sd_stateObjects s') a = Some obj" using ok by (simp add: s' so_okD)
qed

lemma objOf_live: "map_of (sd_stateObjects s) a = Some obj \<Longrightarrow> \<not> so_deleted obj \<Longrightarrow> objOf E s a = Some obj"
  by (simp add: objOf_def)

lemma GetOrNewStateObject_step:
  assumes "GetOrNewStateObject E a s = (obj, s')" "sd_ok E s"
  shows "sd_step E s s'" "so_ok E a obj" "\<not> so_deleted obj" "map_of (sd_stateObjects s') a = Some obj"
proof -
  obtain o1 s1 where g: "getStateObject E a s = (o1, s1)" by fastforce
  note l = load [OF g assms(2)] and m = getStateObject_loaded(4) [OF g]
  have s1: "sd_step E s s1" by (rule sd_step_same) fact+
  have "sd_step E s s' \<and> so_ok E a obj \<and> \<not> so_deleted obj \<and> map_of (sd_stateObjects s') a = Some obj"
  proof (cases o1)
    case None
    then obtain prev where c: "createObject E a s1 = (obj, prev, s')"
      using assms(1) g by (auto simp: GetOrNewStateObject_def split: prod.splits)
    from createObject_step [OF c l(3)] s1 show ?thesis by (blast intro: sd_step_trans)
  next
    case (Some ob)
    with l(5) have "so_ok E a ob" "\<not> so_deleted ob" by auto
    with Some assms(1) g s1 m show ?thesis by (auto simp: GetOrNewStateObject_def)
  qed
  then show "sd_step E s s'" "so_ok E a obj" "\<not> so_deleted obj" "map_of (sd_stateObjects s') a = Some obj" by auto
qed

lemma onObject_step:
  assumes "sd_ok E s" "\<And>obj j. so_ok E a obj \<Longrightarrow> \<not> so_deleted obj \<Longrightarrow> obj_step E a obj j (f obj j)"
  shows "sd_step E s (onObject E a f s)"
proof -
  obtain obj s1 where g: "GetOrNewStateObject E a s = (obj, s1)" by fastforce
  note l = GetOrNewStateObject_step [OF g assms(1)]
  obtain obj' j' where f: "f obj (sd_journal s1) = (obj', j')" by fastforce
  from assms(2) [OF l(2,3), of "sd_journal s1"] f obtain es where ok: "so_ok E a obj'" "\<not> so_deleted obj'"
    and es: "j_entries j' = j_entries (sd_journal s1) @ es" "\<forall>t. \<forall>e \<in> set es. entry_ok E t e"
      "\<forall>v. v_accounts v a = Some (so_view E obj') \<longrightarrow>
         undo_all (aundo E) es v = Some (v\<lparr>v_accounts := (v_accounts v)(a \<mapsto> so_view E obj)\<rparr>)"
    by (auto simp: obj_step_def)
  define s2 where "s2 = setStateObject obj' (s1\<lparr>sd_journal := j'\<rparr>)"
  have s1: "sd_ok E s1" using l(1) by (simp add: sd_step_def)
  have v1: "v_accounts (sd_view E s1) a = Some (so_view E obj)"
    using objOf_live [OF l(4,3), of E] by (simp add: view_accounts)
  have v2: "sd_view E s2 = (sd_view E s1)\<lparr>v_accounts := (v_accounts (sd_view E s1))(a \<mapsto> so_view E obj')\<rparr>"
    using ok by (simp add: s2_def put_view [of obj' a] so_okD)
  have "sd_step E s1 s2"
    unfolding sd_step_def
  proof (intro conjI exI [where x = es])
    have "sd_ok E (s1\<lparr>sd_journal := j'\<rparr>)"
      using s1 es(1,2) by (intro journal_ok) (auto simp: sd_ok_def)
    then show "sd_ok E s2" unfolding s2_def using ok by (rule put_ok)
    show "sd_revs s2 = sd_revs s1" by (simp add: s2_def)
    show "j_entries (sd_journal s2) = j_entries (sd_journal s1) @ es" by (simp add: s2_def es(1))
    show "undo_all (aundo E) es (sd_view E s2) = Some (sd_view E s1)"
      using es(3) v1 by (simp add: v2 sview_same)
  qed
  moreover have "onObject E a f s = s2" by (simp add: onObject_def g f s2_def)
  ultimately show ?thesis using l(1) sd_step_trans by metis
qed


lemma AddBalance_step: "sd_ok E s \<Longrightarrow> sd_step E s (AddBalance E a b s)"
  and SubBalance_step: "sd_ok E s \<Longrightarrow> sd_step E s (SubBalance E a b s)"
  and SetBalance_step: "sd_ok E s \<Longrightarrow> sd_step E s (SetBalance E a b s)"
  and SetNonce_step: "sd_ok E s \<Longrightarrow> sd_step E s (SetNonce E a n s)"
  and SetState_step: "sd_ok E s \<Longrightarrow> sd_step E s (SetState E a k h s)"
  and SetPDXState_step: "sd_ok E s \<Longrightarrow> sd_step E s (SetPDXState E a k w s)"
  by (simp_all add: AddBalance_def SubBalance_def SetBalance_def SetNonce_def SetState_def SetPDXState_def
      onObject_step obj_step_AddBalance obj_step_SubBalance obj_step_SetBalance obj_step_SetNonce
      obj_step_SetState obj_step_SetPDXState)

lemma SetCode_step: "sd_ok E s \<Longrightarrow> sd_step E s (SetCode E a c s)"
  unfolding SetCode_def by (rule onObject_step, assumption, rule obj_step_SetCode) (simp_all add: sd_ok_def env_ok_keccak)

lemma Suicide_step:
  assumes "sd_ok E s" shows "sd_step E s (snd (Suicide E a s))"
proof -
  obtain o1 s1 where g: "getStateObject E a s = (o1, s1)" by fastforce
  note l = load [OF g assms]
  have s1: "sd_step E s s1" by (rule sd_step_same) fact+
  show ?thesis
  proof (cases o1)
    case None
    with s1 g show ?thesis by (simp add: Suicide_def)
  next
    case (Some obj)
    with l(5) have ok: "so_ok E a obj" "\<not> so_deleted obj" by auto
    have "objOf E s1 a = Some obj" using l(1,4) Some by simp
    then have v1: "v_accounts (sd_view E s1) a = Some (so_view E obj)" by (simp add: view_accounts)
    define e where "e = (suicideChange a (so_suicided obj) (ac_Balance (so_data obj)) :: 'a journalEntry)"
    define ob where "ob = so_setBalance 0 (obj\<lparr>so_suicided := True\<rparr>)"
    have ob: "so_ok E a ob" "\<not> so_deleted ob" using ok by (simp_all add: ob_def)
    define s2 where "s2 = setStateObject ob (appendEntry e s1)"
    have v2: "sd_view E s2 = (sd_view E s1)\<lparr>v_accounts := (v_accounts (sd_view E s1))
        (a \<mapsto> (so_view E obj)\<lparr>av_suicided := True, av_balance := 0\<rparr>)\<rparr>"
      using ob by (simp add: s2_def put_view [of ob a] so_okD) (simp add: ob_def so_set_views)
    have eq: "(so_view E obj)\<lparr>av_suicided := so_suicided obj, av_balance := ac_Balance (so_data obj)\<rparr> = so_view E obj"
      by (simp add: so_view_def)
    have "sd_step E s1 s2"
    proof (rule sd_stepI [where e = e])
      show "sd_ok E s2" unfolding s2_def
        by (rule put_ok [OF appendEntry_ok [OF l(3)] ob]) (simp add: e_def)
      show "aundo E e (sd_view E s2) = Some (sd_view E s1)"
        by (simp add: e_def v2 on_acct_def eq sview_same v1)
    qed (simp_all add: s2_def)
    moreover have "snd (Suicide E a s) = s2"
      by (simp add: Suicide_def g Some Let_def s2_def e_def ob_def so_markSuicided_def)
    ultimately show ?thesis using s1 sd_step_trans by metis
  qed
qed


lemma CreateAccount_step:
  assumes "sd_ok E s" shows "sd_step E s (CreateAccount E a s)"
proof -
  obtain obj prev s1 where c: "createObject E a s = (obj, prev, s1)" by (metis prod_cases3)
  note l = createObject_step [OF c assms]
  show ?thesis unfolding CreateAccount_def c prod.case using l(1,4,5,7) by (auto split: option.split)
qed

lemma AddRefund_step: "sd_ok E s \<Longrightarrow> sd_step E s (AddRefund gas s)"
  by (rule sd_stepI [where e = "refundChange (sd_refund s)"])
    (auto simp: AddRefund_def appendEntry_def sd_ok_def live_ok_def sd_view_def objOf_def cong: option.case_cong)

lemma AddPreimage_step: "sd_ok E s \<Longrightarrow> sd_step E s (AddPreimage h p s)"
proof (cases "map_of (sd_preimages s) h")
  case None
  assume "sd_ok E s"
  with None show ?thesis
    by (intro sd_stepI [where e = "addPreimageChange h"])
      (auto simp: AddPreimage_def appendEntry_def sd_ok_def live_ok_def sd_view_def objOf_def Let_def fun_upd_idem
        cong: option.case_cong)
next
  case (Some x)
  assume "sd_ok E s"
  with Some show ?thesis by (intro sd_step_same) (simp_all add: AddPreimage_def same_state_def)
qed

section \<open>Getters change nothing that shows\<close>

text \<open>
  The getters that go through a method of the object: the result is a function of the view, the
  view stays.
\<close>

definition is_getter :: "('tr, 'z) env_scheme \<Rightarrow> Address \<Rightarrow> 'tr StateDB \<Rightarrow> 'b \<Rightarrow> (acct \<Rightarrow> 'b) \<Rightarrow> 'b \<times> 'tr StateDB \<Rightarrow> bool" where
  "is_getter E a s d g r \<longleftrightarrow> fst r = (case v_accounts (sd_view E s) a of None \<Rightarrow> d | Some ac \<Rightarrow> g ac)
     \<and> sd_step E s (snd r) \<and> sd_view E (snd r) = sd_view E s"

lemma getter_simple:
  assumes "sd_ok E s" "\<And>obj. h obj = g (so_view E obj)"
  shows "is_getter E a s d g (case getStateObject E a s of (so, s1) \<Rightarrow> (case so of None \<Rightarrow> d | Some obj \<Rightarrow> h obj, s1))"
proof -
  obtain o1 s1 where r: "getStateObject E a s = (o1, s1)" by fastforce
  note l = load [OF r assms(1)]
  have "v_accounts (sd_view E s) a = map_option (so_view E) o1" using l(1) by (simp add: view_accounts)
  then show ?thesis
    using sd_step_same [OF l(3,2)] l(2) assms(2)
    by (cases o1) (simp_all add: is_getter_def r same_state_def)
qed

lemma getter_method:
  assumes "sd_ok E s" "\<And>obj v ob. m obj = (v, ob) \<Longrightarrow> v = g (so_view E obj)"
    "\<And>obj v ob. m obj = (v, ob) \<Longrightarrow> so_view E ob = so_view E obj"
    "\<And>obj v ob. m obj = (v, ob) \<Longrightarrow> so_ident ob = so_ident obj"
  shows "is_getter E a s d g (case getStateObject E a s of (so, s1) \<Rightarrow>
     (case so of None \<Rightarrow> (d, s1) | Some obj \<Rightarrow> (case m obj of (v, ob) \<Rightarrow> (v, setStateObject ob s1))))"
proof -
  obtain o1 s1 where r: "getStateObject E a s = (o1, s1)" by fastforce
  note l = load [OF r assms(1)]
  have v: "v_accounts (sd_view E s) a = map_option (so_view E) o1" using l(1) by (simp add: view_accounts)
  show ?thesis
  proof (cases o1)
    case None
    with v show ?thesis using sd_step_same [OF l(3,2)] l(2) by (simp add: is_getter_def r same_state_def)
  next
    case (Some obj)
    obtain w ob where m: "m obj = (w, ob)" by fastforce
    have ok: "so_ok E a ob" "\<not> so_deleted ob"
      using l(5) Some assms(4) [OF m] by (auto simp: so_ident_eq so_ok_def)
    have view: "sd_view E (setStateObject ob s1) = sd_view E s"
      using ok v l(2) Some assms(3) [OF m] by (simp add: put_view [of ob a] so_okD sview_same same_state_def)
    then have "sd_step E s (setStateObject ob s1)"
      using l(2) put_ok [OF l(3) ok] by (intro sd_step_same) (simp_all add: same_state_def)
    with view v Some assms(2) [OF m] show ?thesis by (simp add: is_getter_def r m)
  qed
qed

lemma so_view_data:
  "ac_Balance (so_data obj) = av_balance (so_view E obj)" "ac_Nonce (so_data obj) = av_nonce (so_view E obj)"
  "ac_CodeHash (so_data obj) = av_codeHash (so_view E obj)" "so_suicided obj = av_suicided (so_view E obj)"
  by (simp_all add: so_view_def)

definition acct_empty :: "('tr, 'z) env_scheme \<Rightarrow> acct \<Rightarrow> bool" where
  "acct_empty E ac \<longleftrightarrow> av_nonce ac = 0 \<and> av_balance ac = 0 \<and> av_codeHash ac = emptyCodeHash E"

lemma GetBalance_getter: "sd_ok E s \<Longrightarrow> is_getter E a s 0 av_balance (GetBalance E a s)"
  unfolding GetBalance_def by (rule getter_simple) (simp_all add: so_view_data [of _ E])

lemma GetNonce_getter: "sd_ok E s \<Longrightarrow> is_getter E a s 0 av_nonce (GetNonce E a s)"
  unfolding GetNonce_def by (rule getter_simple) (simp_all add: so_view_data [of _ E])

lemma GetCodeHash_getter: "sd_ok E s \<Longrightarrow> is_getter E a s zeroHash (\<lambda>ac. BytesToHash (av_codeHash ac)) (GetCodeHash E a s)"
  unfolding GetCodeHash_def by (rule getter_simple) (simp_all add: so_view_data [of _ E])

lemma HasSuicided_getter: "sd_ok E s \<Longrightarrow> is_getter E a s False av_suicided (HasSuicided E a s)"
  unfolding HasSuicided_def by (rule getter_simple) (simp_all add: so_view_data [of _ E])

lemma Empty_getter: "sd_ok E s \<Longrightarrow> is_getter E a s True (acct_empty E) (Empty E a s)"
  unfolding Empty_def by (rule getter_simple) (simp_all add: so_empty_def acct_empty_def so_view_data [of _ E])

lemma Exist_getter: "sd_ok E s \<Longrightarrow> is_getter E a s False (\<lambda>_. True) (Exist E a s)"
proof -
  have "Exist E a s = (case getStateObject E a s of (so, s1) \<Rightarrow> (case so of None \<Rightarrow> False | Some obj \<Rightarrow> True, s1))"
    by (auto simp: Exist_def split: prod.splits option.splits)
  then show "sd_ok E s \<Longrightarrow> ?thesis" by (simp add: getter_simple)
qed

lemma GetState_getter: "sd_ok E s \<Longrightarrow> is_getter E a s zeroHash (\<lambda>ac. av_storage ac k) (GetState E a k s)"
  unfolding GetState_def by (rule getter_method, assumption) (rule GetState_view, assumption)+

lemma GetPDXState_getter: "sd_ok E s \<Longrightarrow> is_getter E a s [] (\<lambda>ac. av_pdx ac k) (GetPDXState E a k s)"
  unfolding GetPDXState_def by (rule getter_method, assumption) (rule GetPDXState_view, assumption)+

lemma GetCode_getter: "sd_ok E s \<Longrightarrow> is_getter E a s None av_code (GetCode E a s)"
  unfolding GetCode_def by (rule getter_method, assumption) (rule Code_view, assumption)+

end
