(* ===== verification/StateSnapshot.thy ===== *)
theory StateSnapshot
  imports StateLaws
begin

text \<open>
  Snapshots: \<open>journal.revert\<close> implements the undo log of the view, and \<open>RevertToSnapshot\<close>
  re-establishes the view of its \<open>Snapshot\<close>, whatever happened in between.
\<close>

section \<open>Reverting one entry\<close>

definition reverts :: "('tr, 'z) env_scheme \<Rightarrow> 'tr StateDB \<Rightarrow> sview \<Rightarrow> state_panic + 'tr StateDB \<Rightarrow> bool" where
  "reverts E s v r \<longleftrightarrow> (\<exists>s'. r = Inr s' \<and> sd_ok E s' \<and> sd_view E s' = v \<and> sd_journal s' = sd_journal s \<and> sd_revs s' = sd_revs s)"

lemma reverts_object:
  assumes "sd_ok E s" "on_acct a F (sd_view E s) = Some v"
    "\<And>obj. so_ok E a obj \<Longrightarrow> so_ok E a (f obj) \<and> so_deleted (f obj) = so_deleted obj \<and> so_view E (f obj) = F (so_view E obj)"
  obtains obj s1 where "getStateObject E a s = (Some obj, s1)" "reverts E s v (Inr (setStateObject (f obj) s1))"
proof -
  obtain o1 s1 where g: "getStateObject E a s = (o1, s1)" by fastforce
  note l = load [OF g assms(1)]
  from assms(2) l(1) obtain obj where o1: "o1 = Some obj"
    and v: "v = (sd_view E s)\<lparr>v_accounts := (v_accounts (sd_view E s))(a \<mapsto> F (so_view E obj))\<rparr>"
    by (auto simp: on_acct_def view_accounts split: option.splits)
  have ok: "so_ok E a (f obj)" "\<not> so_deleted (f obj)" "so_view E (f obj) = F (so_view E obj)"
    using assms(3) l(5) o1 by auto
  have s1: "sd_view E s1 = sd_view E s" "sd_journal s1 = sd_journal s" "sd_revs s1 = sd_revs s"
    using l(2) sd_rest_revs by (auto simp: same_state_def)
  have "reverts E s v (Inr (setStateObject (f obj) s1))"
    unfolding reverts_def
    by (intro exI [where x = "setStateObject (f obj) s1"])
      (simp add: put_ok [OF l(3) ok(1,2)] put_view [OF so_ok_address [OF ok(1)] ok(2)] ok(3) s1 v)
  with g o1 that show thesis by blast
qed

lemma reverts_withObject:
  assumes "sd_ok E s" "on_acct a F (sd_view E s) = Some v"
    "\<And>obj. so_ok E a obj \<Longrightarrow> so_ok E a (f obj) \<and> so_deleted (f obj) = so_deleted obj \<and> so_view E (f obj) = F (so_view E obj)"
  shows "reverts E s v (withObject E a f s)"
  using reverts_object [OF assms] by (metis option.simps(5) prod.case withObject_def)

lemma reverts_create:
  assumes "sd_ok E s" "trieObj E (sd_trie s) a = None"
  shows "reverts E s ((sd_view E s)\<lparr>v_accounts := (v_accounts (sd_view E s))(a := None)\<rparr>)
    (Inr (s\<lparr>sd_stateObjects := AList.delete a (sd_stateObjects s), sd_stateObjectsDirty := removeAll a (sd_stateObjectsDirty s)\<rparr>))"
proof -
  let ?s = "s\<lparr>sd_stateObjects := AList.delete a (sd_stateObjects s), sd_stateObjectsDirty := removeAll a (sd_stateObjectsDirty s)\<rparr>"
  have o: "objOf E ?s = (objOf E s)(a := None)"
    using assms(2) by (auto simp: objOf_def intro!: ext cong: option.case_cong)
  have "sd_ok E ?s" using assms(1) by (auto simp: sd_ok_def live_ok_def)
  then show ?thesis unfolding reverts_def
    by (intro exI [where x = ?s]) (auto simp: sd_view_def o sd_revs_def intro!: ext)
qed

lemma entry_revert_ok:
  assumes "sd_ok E s" "entry_ok E (sd_trie s) e" "aundo E e (sd_view E s) = Some v"
  shows "reverts E s v (entry_revert E e s)"
proof (cases e)
  case (createObjectChange a)
  with assms reverts_create show ?thesis by fastforce
next
  case (resetObjectChange p)
  with assms show ?thesis
    by (auto simp: reverts_def put_view put_ok)
next
  case (suicideChange a x b)
  from assms(3) suicideChange have "on_acct a (\<lambda>ac. ac\<lparr>av_suicided := x, av_balance := b\<rparr>) (sd_view E s) = Some v" by simp
  with assms(1) show ?thesis
    by (rule reverts_object [where f = "\<lambda>obj. so_setBalance b (obj\<lparr>so_suicided := x\<rparr>)"])
      (auto simp: suicideChange so_set_views)
next
  case (codeChange a c h)
  with assms show ?thesis
    by (auto intro!: reverts_withObject [where F = "\<lambda>ac. ac\<lparr>av_codeHash := h, av_code := codeView E (keccak E a) c h\<rparr>"]
        simp: so_set_views BytesToHash_id HashLength_def so_okD)
next
  case (refundChange r)
  with assms show ?thesis
    by (auto simp: reverts_def sd_ok_def live_ok_def sd_view_def objOf_def intro!: ext cong: option.case_cong)
next
  case (addPreimageChange h)
  with assms show ?thesis
    by (auto simp: reverts_def sd_ok_def live_ok_def sd_view_def objOf_def intro!: ext cong: option.case_cong)
next
  case (touchChange a)
  with assms show ?thesis by (simp add: reverts_def)
qed (use assms in \<open>auto intro!: reverts_withObject simp: so_set_views\<close>)

section \<open>Reverting to an index of the journal\<close>

definition entries :: "'tr StateDB \<Rightarrow> 'tr journalEntry list" where
  "entries s = j_entries (sd_journal s)"

lemma entries_simps [simp]:
  "entries (s\<lparr>sd_journal := j\<rparr>) = j_entries j" "entries (s\<lparr>sd_validRevisions := r\<rparr>) = entries s"
  "entries (s\<lparr>sd_nextRevisionId := n\<rparr>) = entries s"
  by (simp_all add: entries_def)

lemma sd_ok_revs [simp]:
  "sd_ok E (s\<lparr>sd_validRevisions := r\<rparr>) = sd_ok E s" "sd_ok E (s\<lparr>sd_nextRevisionId := n\<rparr>) = sd_ok E s"
  by (simp_all add: sd_ok_def live_ok_def)

lemma sd_view_revs [simp]:
  "sd_view E (s\<lparr>sd_validRevisions := r\<rparr>) = sd_view E s" "sd_view E (s\<lparr>sd_nextRevisionId := n\<rparr>) = sd_view E s"
  by (simp_all add: sd_view_def objOf_def cong: option.case_cong)

lemma revertEntries_ok:
  assumes "sd_ok E s" "set es \<subseteq> set (entries s)" "undo_all (aundo E) (rev es) (sd_view E s) = Some v"
  shows "\<exists>s'. revertEntries E es s = Inr s' \<and> sd_ok E s' \<and> sd_view E s' = v \<and> entries s' = entries s \<and> sd_revs s' = sd_revs s"
  using assms
proof (induction es arbitrary: s)
  case Nil
  then show ?case by simp
next
  case (Cons e es)
  from Cons.prems(3) obtain v1 where v1: "aundo E e (sd_view E s) = Some v1" "undo_all (aundo E) (rev es) v1 = Some v"
    by (auto simp: undo_all_append split: bind_splits)
  have "entry_ok E (sd_trie s) e" using Cons.prems(1,2) by (auto simp: sd_ok_def entries_def)
  from entry_revert_ok [OF Cons.prems(1) this v1(1)] obtain s1 where s1: "entry_revert E e s = Inr s1" "sd_ok E s1"
    "sd_view E s1 = v1" "sd_journal s1 = sd_journal s" "sd_revs s1 = sd_revs s"
    by (auto simp: reverts_def)
  let ?s = "s1\<lparr>sd_journal := j_undirty e (sd_journal s1)\<rparr>"
  have "sd_ok E ?s" using s1(2) by (intro journal_ok) (auto simp: sd_ok_def)
  moreover have "set es \<subseteq> set (entries ?s)" using Cons.prems(2) s1(4) by (simp add: entries_def)
  ultimately have "\<exists>s'. revertEntries E es ?s = Inr s' \<and> sd_ok E s' \<and> sd_view E s' = v \<and> entries s' = entries ?s \<and> sd_revs s' = sd_revs ?s"
    by (rule Cons.IH) (simp add: s1 v1)
  with s1 show ?case by (simp add: entries_def)
qed

lemma journal_revert_ok:
  assumes "sd_ok E s" "n \<le> length (entries s)" "undo_all (aundo E) (drop n (entries s)) (sd_view E s) = Some v"
  shows "\<exists>s'. journal_revert E n s = Inr s' \<and> (sd_ok E s' \<and> sd_revs s' = sd_revs s) \<and> sd_view E s' = v
    \<and> entries s' = take n (entries s)"
proof -
  from revertEntries_ok [OF assms(1), of "rev (drop n (entries s))" v] assms(3)
  obtain s1 where s1: "revertEntries E (rev (drop n (entries s))) s = Inr s1" "sd_ok E s1" "sd_view E s1 = v"
    "entries s1 = entries s" "sd_revs s1 = sd_revs s"
    using set_drop_subset [of n "entries s"] by auto
  let ?s = "s1\<lparr>sd_journal := (sd_journal s1)\<lparr>j_entries := take n (j_entries (sd_journal s1))\<rparr>\<rparr>"
  have "sd_ok E ?s"
    using s1(2) by (intro journal_ok) (auto simp: sd_ok_def dest: in_set_takeD)
  then show ?thesis using s1 by (simp add: journal_revert_def entries_def)
qed


text \<open>The journal of a \<open>StateDB\<close> is an undo log of its view.\<close>

interpretation jl: undo_log entries "sd_view E" "sd_ok E" "aundo E" "journal_revert E" for E :: "'tr env"
  by unfold_locales (use journal_revert_ok in fast)

lemma sd_step_recorded: "sd_step E s s' \<Longrightarrow> jl.recorded E s s' \<and> sd_revs s' = sd_revs s"
  by (auto simp: sd_step_def jl.recorded_def entries_def)

section \<open>Revisions\<close>

text \<open>
  The revisions are sorted by their numbers, all given out before, and each marks an index of
  the journal from which the view of its time can be reached.
\<close>

definition revs_ok :: "'tr env \<Rightarrow> 'tr StateDB \<Rightarrow> bool" where
  "revs_ok E s \<longleftrightarrow>
     sorted_wrt (\<lambda>r r'. rev_id r < rev_id r' \<and> rev_journalIndex r \<le> rev_journalIndex r') (sd_validRevisions s)
     \<and> (\<forall>r \<in> set (sd_validRevisions s). rev_id r < sd_nextRevisionId s \<and> rev_journalIndex r \<le> length (entries s)
           \<and> jl.past E (rev_journalIndex r) s \<noteq> None)"

lemma sort_Search_spec:
  assumes "i \<le> j" "\<And>x y. i \<le> x \<Longrightarrow> x \<le> y \<Longrightarrow> y < j \<Longrightarrow> f x \<Longrightarrow> f y"
  shows "i \<le> sort_Search i j f \<and> sort_Search i j f \<le> j
    \<and> (\<forall>x. i \<le> x \<longrightarrow> x < sort_Search i j f \<longrightarrow> \<not> f x) \<and> (sort_Search i j f < j \<longrightarrow> f (sort_Search i j f))"
  using assms
proof (induction i j f rule: sort_Search.induct)
  case (1 i j f)
  show ?case
  proof (cases "i < j")
    case False
    with 1(3) show ?thesis by (simp add: sort_Search.simps [of j j])
  next
    case True
    let ?h = "(i + j) div 2"
    have h: "i \<le> ?h" "?h < j" using True by auto
    show ?thesis
    proof (cases "f ?h")
      case False
      with True have eq: "sort_Search i j f = sort_Search (?h + 1) j f" by (simp add: sort_Search.simps [of i j] Let_def)
      have ih: "?h + 1 \<le> sort_Search (?h + 1) j f \<and> sort_Search (?h + 1) j f \<le> j
        \<and> (\<forall>x. ?h + 1 \<le> x \<longrightarrow> x < sort_Search (?h + 1) j f \<longrightarrow> \<not> f x)
        \<and> (sort_Search (?h + 1) j f < j \<longrightarrow> f (sort_Search (?h + 1) j f))"
      proof (rule 1(1) [OF True refl False])
        show "?h + 1 \<le> j" using h by simp
        show "f y" if "?h + 1 \<le> x" "x \<le> y" "y < j" "f x" for x y using 1(4) [of x y] that h by simp
      qed
      have "\<not> f x" if "i \<le> x" "x < sort_Search i j f" for x
      proof (cases "x \<le> ?h")
        case True
        with False 1(4) [of x ?h] that h show ?thesis by auto
      next
        case False
        then have "?h + 1 \<le> x" by simp
        with ih that eq show ?thesis by metis
      qed
      with ih eq h show ?thesis by (metis add_leD1 order.trans)
    next
      case fh: True
      with True have eq: "sort_Search i j f = sort_Search i ?h f" by (simp add: sort_Search.simps [of i j] Let_def)
      have "i \<le> sort_Search i ?h f \<and> sort_Search i ?h f \<le> ?h
        \<and> (\<forall>x. i \<le> x \<longrightarrow> x < sort_Search i ?h f \<longrightarrow> \<not> f x) \<and> (sort_Search i ?h f < ?h \<longrightarrow> f (sort_Search i ?h f))"
      proof (rule 1(2) [OF True refl])
        show "\<not> \<not> f ?h" using fh by simp
        show "i \<le> ?h" by (rule h)
        show "f y" if "i \<le> x" "x \<le> y" "y < ?h" "f x" for x y using 1(4) [of x y] that h by simp
      qed
      with eq fh h show ?thesis by (metis le_neq_implies_less order.strict_trans2 order.strict_implies_order order.trans)
    qed
  qed
qed


definition rev_idx :: "nat \<Rightarrow> revision list \<Rightarrow> nat" where
  "rev_idx rid revs = sort_Search 0 (length revs) (\<lambda>i. rev_id (revs ! i) \<ge> rid)"

lemma rev_idx_spec:
  assumes "sorted_wrt (\<lambda>r r'. rev_id r < rev_id r' \<and> rev_journalIndex r \<le> rev_journalIndex r') revs"
  shows "rev_idx rid revs \<le> length revs" "\<And>i. i < rev_idx rid revs \<Longrightarrow> rev_id (revs ! i) < rid"
    "rev_idx rid revs < length revs \<Longrightarrow> rid \<le> rev_id (revs ! rev_idx rid revs)"
proof -
  have "rev_id (revs ! x) \<le> rev_id (revs ! y)" if "x \<le> y" "y < length revs" for x y
    using sorted_wrt_nth_less [OF assms, of x y] that by (cases "x = y") auto
  then have "0 \<le> rev_idx rid revs \<and> rev_idx rid revs \<le> length revs
    \<and> (\<forall>x. 0 \<le> x \<longrightarrow> x < rev_idx rid revs \<longrightarrow> \<not> rev_id (revs ! x) \<ge> rid)
    \<and> (rev_idx rid revs < length revs \<longrightarrow> rev_id (revs ! rev_idx rid revs) \<ge> rid)"
    unfolding rev_idx_def by (intro sort_Search_spec) (auto intro: order_trans)
  then show "rev_idx rid revs \<le> length revs" "\<And>i. i < rev_idx rid revs \<Longrightarrow> rev_id (revs ! i) < rid"
    "rev_idx rid revs < length revs \<Longrightarrow> rid \<le> rev_id (revs ! rev_idx rid revs)" by auto
qed

lemma rev_idx_found:
  assumes "sorted_wrt (\<lambda>r r'. rev_id r < rev_id r' \<and> rev_journalIndex r \<le> rev_journalIndex r') revs"
    "r \<in> set revs" "rev_id r = rid"
  shows "rev_idx rid revs < length revs" "revs ! rev_idx rid revs = r"
proof -
  note sp = rev_idx_spec [OF assms(1), where rid = rid]
  obtain k where k: "k < length revs" "revs ! k = r" using assms(2) by (auto simp: in_set_conv_nth)
  have "\<not> k < rev_idx rid revs" using sp(2) [of k] k assms(3) by auto
  then have le: "rev_idx rid revs \<le> k" by simp
  then show lt: "rev_idx rid revs < length revs" using k by simp
  have "rev_idx rid revs = k"
    using sp(3) [OF lt] sorted_wrt_nth_less [OF assms(1), of "rev_idx rid revs" k] k le assms(3) by fastforce
  then show "revs ! rev_idx rid revs = r" using k by simp
qed

lemma RevertToSnapshot_eq:
  "RevertToSnapshot E rid s =
     (let revs = sd_validRevisions s; idx = rev_idx rid revs
      in if idx = length revs \<or> rev_id (revs ! idx) \<noteq> rid then Inl (InvalidRevision rid)
         else (case journal_revert E (rev_journalIndex (revs ! idx)) s of
                 Inl p \<Rightarrow> Inl p
               | Inr s1 \<Rightarrow> Inr (s1\<lparr>sd_validRevisions := take idx (sd_validRevisions s1)\<rparr>)))"
  by (simp add: RevertToSnapshot_def rev_idx_def Let_def)

lemma RevertToSnapshot_invalid:
  assumes "revs_ok E s" "rid \<notin> rev_id ` set (sd_validRevisions s)"
  shows "RevertToSnapshot E rid s = Inl (InvalidRevision rid)"
proof -
  have "rev_idx rid (sd_validRevisions s) \<le> length (sd_validRevisions s)"
    using assms(1) by (intro rev_idx_spec(1)) (simp add: revs_ok_def)
  then have "rev_idx rid (sd_validRevisions s) = length (sd_validRevisions s)
      \<or> rev_id (sd_validRevisions s ! rev_idx rid (sd_validRevisions s)) \<noteq> rid"
    using assms(2) by (metis image_eqI le_neq_implies_less nth_mem)
  then show ?thesis by (simp add: RevertToSnapshot_eq Let_def)
qed

lemma past_revs [simp]: "jl.past E n (s\<lparr>sd_validRevisions := r\<rparr>) = jl.past E n s"
  "jl.past E n (s\<lparr>sd_nextRevisionId := m\<rparr>) = jl.past E n s"
  by (simp_all add: jl.past_def)

lemma RevertToSnapshot_valid:
  assumes "sd_ok E s" "revs_ok E s" "r \<in> set (sd_validRevisions s)"
  obtains s' where "RevertToSnapshot E (rev_id r) s = Inr s'" "sd_ok E s'" "revs_ok E s'"
    "Some (sd_view E s') = jl.past E (rev_journalIndex r) s" "entries s' = take (rev_journalIndex r) (entries s)"
    "\<And>r'. r' \<in> set (sd_validRevisions s') \<longleftrightarrow> r' \<in> set (sd_validRevisions s) \<and> rev_id r' < rev_id r"
    "sd_nextRevisionId s' = sd_nextRevisionId s"
    "\<And>n. n \<le> rev_journalIndex r \<Longrightarrow> jl.past E n s' = jl.past E n s"
proof -
  let ?revs = "sd_validRevisions s" and ?ix = "rev_idx (rev_id r) (sd_validRevisions s)"
  have srt: "sorted_wrt (\<lambda>r r'. rev_id r < rev_id r' \<and> rev_journalIndex r \<le> rev_journalIndex r') ?revs"
    using assms(2) by (simp add: revs_ok_def)
  note f = rev_idx_found [OF srt assms(3) refl] and sp = rev_idx_spec [OF srt, where rid = "rev_id r"]
  from assms(2,3) obtain v where v: "jl.past E (rev_journalIndex r) s = Some v"
    and le: "rev_journalIndex r \<le> length (entries s)"
    by (auto simp: revs_ok_def)
  from jl.rollback_past [OF assms(1) le v] journal_revert_ok [OF assms(1) le v [unfolded jl.past_def]]
  obtain s1 where s1: "journal_revert E (rev_journalIndex r) s = Inr s1" "sd_ok E s1" "sd_view E s1 = v"
    "entries s1 = take (rev_journalIndex r) (entries s)" "\<forall>n\<le>rev_journalIndex r. jl.past E n s1 = jl.past E n s"
    "sd_revs s1 = sd_revs s"
    by (metis sum.inject(2))
  define s' where "s' = s1\<lparr>sd_validRevisions := take ?ix ?revs\<rparr>"
  have rv: "sd_validRevisions s1 = ?revs" "sd_nextRevisionId s1 = sd_nextRevisionId s"
    using s1(6) by (auto simp: sd_revs_def)
  have "RevertToSnapshot E (rev_id r) s = Inr s'"
    using f s1(1) by (simp add: RevertToSnapshot_eq Let_def s'_def rv)
  moreover have mem: "r' \<in> set (take ?ix ?revs) \<longleftrightarrow> r' \<in> set ?revs \<and> rev_id r' < rev_id r" for r'
  proof
    assume "r' \<in> set (take ?ix ?revs)"
    then show "r' \<in> set ?revs \<and> rev_id r' < rev_id r" using sp(2) by (auto simp: in_set_conv_nth)
  next
    assume a: "r' \<in> set ?revs \<and> rev_id r' < rev_id r"
    then obtain k where k: "k < length ?revs" "?revs ! k = r'" by (auto simp: in_set_conv_nth)
    have "k < ?ix"
      using sorted_wrt_nth_less [OF srt, of ?ix k] f k a by (cases ?ix k rule: linorder_cases) auto
    with k show "r' \<in> set (take ?ix ?revs)" by (auto simp: in_set_conv_nth)
  qed
  have "rev_journalIndex r' \<le> rev_journalIndex r" if "r' \<in> set (take ?ix ?revs)" for r'
  proof -
    from that obtain k where "k < ?ix" "?revs ! k = r'" by (auto simp: in_set_conv_nth)
    then show ?thesis using sorted_wrt_nth_less [OF srt, of k ?ix] f by auto
  qed
  then have "revs_ok E s'"
    using assms(2) s1(5) s1(4) le rv mem
    by (auto simp: revs_ok_def s'_def sorted_wrt_take min_def dest: in_set_takeD)
  ultimately show thesis
    using that [of s'] s1 mem v rv by (simp add: s'_def)
qed


section \<open>Sequences of operations\<close>

text \<open>The operations that may come between a snapshot and its revert, snapshots and reverts included.\<close>

datatype state_op =
    OpExist Address | OpEmpty Address | OpGetBalance Address | OpGetNonce Address | OpGetCode Address
  | OpGetCodeSize Address | OpGetCodeHash Address | OpGetState Address Hash | OpGetPDXState Address Hash
  | OpHasSuicided Address | OpAddBalance Address int | OpSubBalance Address int | OpSetBalance Address int
  | OpSetNonce Address u64 | OpSetCode Address "bytes option" | OpSetState Address Hash Hash
  | OpSetPDXState Address Hash bytes | OpSuicide Address | OpCreateAccount Address | OpAddRefund u64
  | OpAddPreimage Hash bytes | OpSnapshot | OpRevertToSnapshot nat

fun do_op :: "'tr env \<Rightarrow> state_op \<Rightarrow> 'tr StateDB \<Rightarrow> state_panic + 'tr StateDB" where
  "do_op E (OpExist a) s = Inr (snd (Exist E a s))"
| "do_op E (OpEmpty a) s = Inr (snd (Empty E a s))"
| "do_op E (OpGetBalance a) s = Inr (snd (GetBalance E a s))"
| "do_op E (OpGetNonce a) s = Inr (snd (GetNonce E a s))"
| "do_op E (OpGetCode a) s = Inr (snd (GetCode E a s))"
| "do_op E (OpGetCodeSize a) s = Inr (snd (GetCodeSize E a s))"
| "do_op E (OpGetCodeHash a) s = Inr (snd (GetCodeHash E a s))"
| "do_op E (OpGetState a k) s = Inr (snd (GetState E a k s))"
| "do_op E (OpGetPDXState a k) s = Inr (snd (GetPDXState E a k s))"
| "do_op E (OpHasSuicided a) s = Inr (snd (HasSuicided E a s))"
| "do_op E (OpAddBalance a b) s = Inr (AddBalance E a b s)"
| "do_op E (OpSubBalance a b) s = Inr (SubBalance E a b s)"
| "do_op E (OpSetBalance a b) s = Inr (SetBalance E a b s)"
| "do_op E (OpSetNonce a n) s = Inr (SetNonce E a n s)"
| "do_op E (OpSetCode a c) s = Inr (SetCode E a c s)"
| "do_op E (OpSetState a k v) s = Inr (SetState E a k v s)"
| "do_op E (OpSetPDXState a k v) s = Inr (SetPDXState E a k v s)"
| "do_op E (OpSuicide a) s = Inr (snd (Suicide E a s))"
| "do_op E (OpCreateAccount a) s = Inr (CreateAccount E a s)"
| "do_op E (OpAddRefund g) s = Inr (AddRefund g s)"
| "do_op E (OpAddPreimage h p) s = Inr (AddPreimage h p s)"
| "do_op E OpSnapshot s = Inr (snd (Snapshot s))"
| "do_op E (OpRevertToSnapshot i) s = RevertToSnapshot E i s"

fun run_ops :: "'tr env \<Rightarrow> state_op list \<Rightarrow> 'tr StateDB \<Rightarrow> state_panic + 'tr StateDB" where
  "run_ops E [] s = Inr s"
| "run_ops E (op # ops) s = (case do_op E op s of Inl p \<Rightarrow> Inl p | Inr s1 \<Rightarrow> run_ops E ops s1)"

fun snap_op :: "state_op \<Rightarrow> bool" where
  "snap_op OpSnapshot = True" | "snap_op (OpRevertToSnapshot _) = True" | "snap_op _ = False"

lemma GetCodeSize_step: "sd_ok E s \<Longrightarrow> sd_step E s (snd (GetCodeSize E a s))"
proof -
  assume ok: "sd_ok E s"
  obtain o1 s1 where g: "getStateObject E a s = (o1, s1)" by fastforce
  note l = load [OF g ok]
  have "sd_ok E (setError e s1)" "same_state E s (setError e s1)" for e
    using l(2,3) by (simp_all add: sd_ok_def live_ok_def same_state_def sd_view_def objOf_def cong: option.case_cong)
  then show ?thesis using l(2,3)
    by (auto simp: GetCodeSize_def g intro: sd_step_same split: option.splits prod.splits)
qed

lemmas getters = Exist_getter Empty_getter GetBalance_getter GetNonce_getter GetCode_getter GetCodeHash_getter
  GetState_getter GetPDXState_getter HasSuicided_getter

lemmas getter_steps = getters [THEN is_getter_def [THEN iffD1], THEN conjunct2, THEN conjunct1]

lemmas op_steps = getter_steps GetCodeSize_step AddBalance_step SubBalance_step SetBalance_step SetNonce_step
  SetCode_step SetState_step SetPDXState_step Suicide_step CreateAccount_step AddRefund_step AddPreimage_step

lemma do_op_step:
  assumes "sd_ok E s" "\<not> snap_op op"
  obtains s' where "do_op E op s = Inr s'" "sd_step E s s'"
  using assms by (cases op) (auto simp: op_steps)

text \<open>The invariant of a sequence of operations.\<close>

definition state_ok :: "'tr env \<Rightarrow> 'tr StateDB \<Rightarrow> bool" where
  "state_ok E s \<longleftrightarrow> sd_ok E s \<and> revs_ok E s"

text \<open>Revision \<open>r\<close> is still there, and the view of its time is \<open>v\<close>.\<close>

definition remembers :: "'tr env \<Rightarrow> revision \<Rightarrow> sview \<Rightarrow> 'tr StateDB \<Rightarrow> bool" where
  "remembers E r v s \<longleftrightarrow> r \<in> set (sd_validRevisions s) \<and> jl.past E (rev_journalIndex r) s = Some v"

lemma sd_step_ok:
  assumes "state_ok E s" "sd_step E s s'"
  shows "state_ok E s'" "remembers E r v s \<Longrightarrow> remembers E r v s'"
proof -
  have rc: "jl.recorded E s s'" and rv: "sd_validRevisions s' = sd_validRevisions s" "sd_nextRevisionId s' = sd_nextRevisionId s"
    using sd_step_recorded [OF assms(2)] by (auto simp: sd_revs_def)
  have p: "jl.past E (rev_journalIndex r) s' = jl.past E (rev_journalIndex r) s" "rev_journalIndex r \<le> length (entries s')"
    if "r \<in> set (sd_validRevisions s)" for r
    using jl.past_recorded [OF rc, of "rev_journalIndex r"] assms(1) that by (auto simp: state_ok_def revs_ok_def)
  then show "remembers E r v s \<Longrightarrow> remembers E r v s'" by (simp add: remembers_def rv)
  show "state_ok E s'" using assms p by (auto simp: state_ok_def revs_ok_def rv sd_step_def)
qed

lemma Snapshot_ok:
  assumes "state_ok E s" "Snapshot s = (i, s')"
  shows "state_ok E s'" "remembers E \<lparr>rev_id = i, rev_journalIndex = length (entries s)\<rparr> (sd_view E s) s'"
    "remembers E r v s \<Longrightarrow> remembers E r v s'" "entries s' = entries s"
proof -
  have s': "s' = s\<lparr>sd_nextRevisionId := sd_nextRevisionId s + 1, sd_validRevisions := sd_validRevisions s
      @ [\<lparr>rev_id = i, rev_journalIndex = length (entries s)\<rparr>]\<rparr>" and i: "i = sd_nextRevisionId s"
    using assms(2) by (auto simp: Snapshot_def entries_def j_length_def)
  show "entries s' = entries s" by (simp add: s')
  have p: "jl.past E n s' = jl.past E n s" for n by (simp add: s')
  have "revs_ok E s'"
    using assms(1) i by (auto simp: state_ok_def revs_ok_def s' sorted_wrt_append jl.past_now)
  moreover have "sd_ok E s'" using assms(1) by (simp add: s' state_ok_def)
  ultimately show "state_ok E s'" by (simp add: state_ok_def)
  show "remembers E \<lparr>rev_id = i, rev_journalIndex = length (entries s)\<rparr> (sd_view E s) s'"
    by (simp add: remembers_def s' jl.past_now)
  show "remembers E r v s \<Longrightarrow> remembers E r v s'" by (simp add: remembers_def p) (simp add: s')
qed

lemma RevertToSnapshot_ok:
  assumes "state_ok E s" "RevertToSnapshot E i s = Inr s'"
  shows "state_ok E s'" "remembers E r v s \<Longrightarrow> rev_id r < i \<Longrightarrow> remembers E r v s'"
proof -
  have "i \<in> rev_id ` set (sd_validRevisions s)"
    using assms RevertToSnapshot_invalid [of E s i] by (auto simp: state_ok_def)
  then obtain r0 where r0: "r0 \<in> set (sd_validRevisions s)" "rev_id r0 = i" by auto
  have srt: "sorted_wrt (\<lambda>r r'. rev_id r < rev_id r' \<and> rev_journalIndex r \<le> rev_journalIndex r') (sd_validRevisions s)"
    using assms(1) by (simp add: state_ok_def revs_ok_def)
  have ji: "rev_journalIndex r \<le> rev_journalIndex r0" if m: "r \<in> set (sd_validRevisions s)" "rev_id r < i" for r
  proof -
    obtain x y where xy: "x < length (sd_validRevisions s)" "sd_validRevisions s ! x = r"
      "y < length (sd_validRevisions s)" "sd_validRevisions s ! y = r0"
      using m(1) r0(1) by (auto simp: in_set_conv_nth)
    then have "x < y" using sorted_wrt_nth_less [OF srt, of y x] m(2) r0(2) by (cases x y rule: linorder_cases) auto
    then show ?thesis using sorted_wrt_nth_less [OF srt, of x y] xy by simp
  qed
  have ok: "sd_ok E s" "revs_ok E s" using assms(1) by (simp_all add: state_ok_def)
  obtain s1 where s1: "RevertToSnapshot E (rev_id r0) s = Inr s1" "sd_ok E s1" "revs_ok E s1"
    "\<And>r'. r' \<in> set (sd_validRevisions s1) \<longleftrightarrow> r' \<in> set (sd_validRevisions s) \<and> rev_id r' < rev_id r0"
    "\<And>n. n \<le> rev_journalIndex r0 \<Longrightarrow> jl.past E n s1 = jl.past E n s"
    by (rule RevertToSnapshot_valid [OF ok r0(1)]) (rule that)
  have "s1 = s'" using s1(1) r0(2) assms(2) by simp
  with s1 show "state_ok E s'" by (simp add: state_ok_def)
  show "remembers E r v s \<Longrightarrow> rev_id r < i \<Longrightarrow> remembers E r v s'"
    using s1(4,5) \<open>s1 = s'\<close> ji r0(2) by (auto simp: remembers_def)
qed

lemma do_op_ok:
  assumes "state_ok E s" "do_op E op s = Inr s'"
  shows "state_ok E s'" "remembers E r v s \<Longrightarrow> \<forall>i. op = OpRevertToSnapshot i \<longrightarrow> rev_id r < i \<Longrightarrow> remembers E r v s'"
proof -
  have "state_ok E s' \<and> (remembers E r v s \<longrightarrow> (\<forall>i. op = OpRevertToSnapshot i \<longrightarrow> rev_id r < i) \<longrightarrow> remembers E r v s')"
  proof (cases "snap_op op")
    case False
    with do_op_step [of E s op] assms obtain "sd_step E s s'" by (auto simp: state_ok_def)
    with sd_step_ok [OF assms(1)] show ?thesis by blast
  next
    case True
    then show ?thesis
      using assms Snapshot_ok(1,3) [OF assms(1), of "fst (Snapshot s)" "snd (Snapshot s)"]
        RevertToSnapshot_ok [OF assms(1)]
      by (cases op rule: snap_op.cases) auto
  qed
  then show "state_ok E s'" "remembers E r v s \<Longrightarrow> \<forall>i. op = OpRevertToSnapshot i \<longrightarrow> rev_id r < i \<Longrightarrow> remembers E r v s'"
    by blast+
qed

lemma run_ops_ok:
  assumes "state_ok E s" "run_ops E ops s = Inr s'"
  shows "state_ok E s'" "remembers E r v s \<Longrightarrow> \<forall>i. OpRevertToSnapshot i \<in> set ops \<longrightarrow> rev_id r < i \<Longrightarrow> remembers E r v s'"
proof -
  have "state_ok E s' \<and> (remembers E r v s \<longrightarrow> (\<forall>i. OpRevertToSnapshot i \<in> set ops \<longrightarrow> rev_id r < i) \<longrightarrow> remembers E r v s')"
    using assms
  proof (induction ops arbitrary: s)
    case (Cons op ops)
    then obtain s1 where s1: "do_op E op s = Inr s1" "run_ops E ops s1 = Inr s'" by (auto split: sum.splits)
    from Cons.IH [OF do_op_ok(1) [OF Cons.prems(1) s1(1)] s1(2)] do_op_ok(2) [OF Cons.prems(1) s1(1), of r v]
    show ?case by auto
  qed simp
  then show "state_ok E s'" "remembers E r v s \<Longrightarrow> \<forall>i. OpRevertToSnapshot i \<in> set ops \<longrightarrow> rev_id r < i \<Longrightarrow> remembers E r v s'"
    by blast+
qed

lemma do_op_panics:
  assumes "state_ok E s" "do_op E op s = Inl p"
  obtains i where "op = OpRevertToSnapshot i" "p = InvalidRevision i" "i \<notin> rev_id ` set (sd_validRevisions s)"
proof -
  have "snap_op op" using do_op_step [of E s op] assms by (auto simp: state_ok_def)
  then obtain i where op: "op = OpRevertToSnapshot i" using assms(2) by (cases op) auto
  have ni: "i \<notin> rev_id ` set (sd_validRevisions s)"
  proof
    assume "i \<in> rev_id ` set (sd_validRevisions s)"
    then obtain r where "r \<in> set (sd_validRevisions s)" "i = rev_id r" by blast
    then show False using RevertToSnapshot_valid [of E s r] assms op by (auto simp: state_ok_def)
  qed
  with RevertToSnapshot_invalid [of E s i] assms op that show thesis by (auto simp: state_ok_def)
qed

end
