(* ===== verification/StateSpec.thy ===== *)
theory StateSpec
  imports StateSnapshot
begin

text \<open>
  The abstract specification of the state database: every operation as a function on the view,
  without objects, caches, tries or a journal, and the refinement of it by the methods of
  \<open>StateDB\<close>.
\<close>

section \<open>The specification\<close>

definition emptyAcct :: "'tr env \<Rightarrow> Address \<Rightarrow> acct" where
  "emptyAcct E a = so_view E (newObject E a zeroAccount)"

definition acctOr :: "'tr env \<Rightarrow> Address \<Rightarrow> sview \<Rightarrow> acct" where
  "acctOr E a v = (case v_accounts v a of None \<Rightarrow> emptyAcct E a | Some ac \<Rightarrow> ac)"

definition upd_acct :: "'tr env \<Rightarrow> Address \<Rightarrow> (acct \<Rightarrow> acct) \<Rightarrow> sview \<Rightarrow> sview" where
  "upd_acct E a f v = v\<lparr>v_accounts := (v_accounts v)(a \<mapsto> f (acctOr E a v))\<rparr>"

fun abs_op :: "'tr env \<Rightarrow> state_op \<Rightarrow> sview \<Rightarrow> sview" where
  "abs_op E (OpAddBalance a b) v = upd_acct E a (\<lambda>ac. ac\<lparr>av_balance := av_balance ac + b\<rparr>) v"
| "abs_op E (OpSubBalance a b) v = upd_acct E a (\<lambda>ac. ac\<lparr>av_balance := av_balance ac - b\<rparr>) v"
| "abs_op E (OpSetBalance a b) v = upd_acct E a (\<lambda>ac. ac\<lparr>av_balance := b\<rparr>) v"
| "abs_op E (OpSetNonce a n) v = upd_acct E a (\<lambda>ac. ac\<lparr>av_nonce := n\<rparr>) v"
| "abs_op E (OpSetCode a c) v =
     upd_acct E a (\<lambda>ac. ac\<lparr>av_codeHash := keccak E (case c of None \<Rightarrow> [] | Some b \<Rightarrow> b), av_code := c\<rparr>) v"
| "abs_op E (OpSetState a k w) v = upd_acct E a (\<lambda>ac. ac\<lparr>av_storage := (av_storage ac)(k := w)\<rparr>) v"
| "abs_op E (OpSetPDXState a k w) v = upd_acct E a (\<lambda>ac. ac\<lparr>av_pdx := (av_pdx ac)(k := w)\<rparr>) v"
| "abs_op E (OpSuicide a) v =
     (if v_accounts v a = None then v else upd_acct E a (\<lambda>ac. ac\<lparr>av_suicided := True, av_balance := 0\<rparr>) v)"
| "abs_op E (OpCreateAccount a) v =
     upd_acct E a (\<lambda>ac. (emptyAcct E a)\<lparr>av_balance := if v_accounts v a = None then 0 else av_balance ac\<rparr>) v"
| "abs_op E (OpAddRefund g) v = v\<lparr>v_refund := v_refund v + g\<rparr>"
| "abs_op E (OpAddPreimage h p) v =
     (if v_preimages v h = None then v\<lparr>v_preimages := (v_preimages v)(h \<mapsto> p)\<rparr> else v)"
| "abs_op E _ v = v"

section \<open>The methods on the view\<close>

lemma so_setNonce_new: "so_setNonce 0 (newObject E a zeroAccount) = newObject E a zeroAccount"
  by (simp add: so_setNonce_def newObject_def zeroAccount_def)

lemma createObject_view:
  assumes "createObject E a s = (obj, prev, s')" "sd_ok E s"
  shows "sd_view E s' = (sd_view E s)\<lparr>v_accounts := (v_accounts (sd_view E s))(a \<mapsto> emptyAcct E a)\<rparr>"
proof -
  obtain s1 where g: "getStateObject E a s = (prev, s1)"
    using assms(1) by (auto simp: createObject_def Let_def split: prod.splits)
  note l = load [OF g assms(2)] and c = createObject_step [OF assms]
  have "\<exists>e. s' = setStateObject obj (appendEntry e s1)"
    using assms(1) g by (auto simp: createObject_def Let_def split: option.splits)
  with put_view [OF so_ok_address [OF c(4)] c(5), of E] l(2)
  have "sd_view E s' = (sd_view E s)\<lparr>v_accounts := (v_accounts (sd_view E s))(a \<mapsto> so_view E obj)\<rparr>"
    by (auto simp: same_state_def)
  then show ?thesis by (simp add: c(3) emptyAcct_def so_setNonce_new)
qed

lemma GetOrNewStateObject_view:
  assumes "GetOrNewStateObject E a s = (obj, s')" "sd_ok E s"
  shows "so_view E obj = acctOr E a (sd_view E s)"
    "sd_view E s' = (sd_view E s)\<lparr>v_accounts := (v_accounts (sd_view E s))(a \<mapsto> so_view E obj)\<rparr>"
proof -
  obtain o1 s1 where g: "getStateObject E a s = (o1, s1)" by fastforce
  note l = load [OF g assms(2)]
  have v: "v_accounts (sd_view E s) a = map_option (so_view E) o1" using l(1) by (simp add: view_accounts)
  have "so_view E obj = acctOr E a (sd_view E s) \<and>
    sd_view E s' = (sd_view E s)\<lparr>v_accounts := (v_accounts (sd_view E s))(a \<mapsto> so_view E obj)\<rparr>"
  proof (cases o1)
    case None
    then obtain prev where c: "createObject E a s1 = (obj, prev, s')"
      using assms(1) g by (auto simp: GetOrNewStateObject_def split: prod.splits)
    from createObject_view [OF c l(3)] createObject_step(3) [OF c l(3)] l(2) v None show ?thesis
      by (simp add: acctOr_def emptyAcct_def so_setNonce_new same_state_def)
  next
    case (Some ob)
    with l(5) have "\<not> so_deleted ob" by auto
    with Some assms(1) g have "obj = ob" "s' = s1" by (auto simp: GetOrNewStateObject_def)
    with v Some l(2) show ?thesis by (simp add: acctOr_def same_state_def sview_same)
  qed
  then show "so_view E obj = acctOr E a (sd_view E s)"
    "sd_view E s' = (sd_view E s)\<lparr>v_accounts := (v_accounts (sd_view E s))(a \<mapsto> so_view E obj)\<rparr>" by auto
qed

lemma onObject_view:
  assumes "sd_ok E s"
    "\<And>obj j. so_ok E a obj \<Longrightarrow> \<not> so_deleted obj \<Longrightarrow> obj_step E a obj j (f obj j)"
    "\<And>obj j. so_ok E a obj \<Longrightarrow> so_view E (fst (f obj j)) = F (so_view E obj)"
  shows "sd_view E (onObject E a f s) = upd_acct E a F (sd_view E s)"
proof -
  obtain obj s1 where g: "GetOrNewStateObject E a s = (obj, s1)" by fastforce
  note l = GetOrNewStateObject_step [OF g assms(1)] and w = GetOrNewStateObject_view [OF g assms(1)]
  obtain obj' j' where f: "f obj (sd_journal s1) = (obj', j')" by fastforce
  have ok: "so_address obj' = a" "\<not> so_deleted obj'" "so_view E obj' = F (so_view E obj)"
    using assms(2) [OF l(2,3), of "sd_journal s1"] assms(3) [OF l(2), of "sd_journal s1"] f
    by (auto simp: obj_step_def so_okD)
  then show ?thesis
    by (simp add: onObject_def g f put_view [of obj' a] w(2) upd_acct_def) (simp add: w(1))
qed

lemma so_AddBalance_view: "so_view E (fst (so_AddBalance E b obj j)) = (so_view E obj)\<lparr>av_balance := av_balance (so_view E obj) + b\<rparr>"
  by (auto simp: so_AddBalance_def so_SetBalance_def so_set_views so_view_data [of _ E])

lemma so_SubBalance_view: "so_view E (fst (so_SubBalance b obj j)) = (so_view E obj)\<lparr>av_balance := av_balance (so_view E obj) - b\<rparr>"
  by (auto simp: so_SubBalance_def so_SetBalance_def so_set_views so_view_data [of _ E])

lemma so_SetState_view:
  "so_view E (fst (so_SetState E k w obj j)) = (so_view E obj)\<lparr>av_storage := (av_storage (so_view E obj))(k := w)\<rparr>"
  by (cases "so_GetState E k obj") (simp add: so_SetState_def so_set_views GetState_view(2))

lemma so_SetPDXState_view:
  "so_view E (fst (so_SetPDXState E k w obj j)) = (so_view E obj)\<lparr>av_pdx := (av_pdx (so_view E obj))(k := w)\<rparr>"
  by (cases "so_GetPDXState E k obj") (simp add: so_SetPDXState_def so_set_views GetPDXState_view(2))

lemma so_SetCode_view:
  "h = keccak E (case c of None \<Rightarrow> [] | Some b \<Rightarrow> b)
   \<Longrightarrow> so_view E (fst (so_SetCode E h c obj j)) = (so_view E obj)\<lparr>av_codeHash := h, av_code := c\<rparr>"
  by (cases "so_Code E obj")
    (simp add: so_SetCode_def so_set_views Code_view(2) codeView_def emptyCodeHash_def split: option.splits)

lemma Suicide_view: "sd_ok E s \<Longrightarrow> sd_view E (snd (Suicide E a s)) = abs_op E (OpSuicide a) (sd_view E s)"
proof -
  assume ok: "sd_ok E s"
  obtain o1 s1 where g: "getStateObject E a s = (o1, s1)" by fastforce
  note l = load [OF g ok]
  have v: "v_accounts (sd_view E s) a = map_option (so_view E) o1" using l(1) by (simp add: view_accounts)
  show ?thesis
  proof (cases o1)
    case None
    with v l(2) g show ?thesis by (simp add: Suicide_def same_state_def)
  next
    case (Some obj)
    define ob where "ob = so_setBalance 0 (so_markSuicided obj)"
    have ob: "so_ok E a ob" "\<not> so_deleted ob" "so_view E ob = (so_view E obj)\<lparr>av_suicided := True, av_balance := 0\<rparr>"
      using l(5) Some by (auto simp: ob_def so_markSuicided_def so_set_views)
    with Some g v l(2) show ?thesis
      by (simp add: Suicide_def Let_def put_view [of ob a] so_okD same_state_def upd_acct_def acctOr_def flip: ob_def)
  qed
qed

lemma CreateAccount_view: "sd_ok E s \<Longrightarrow> sd_view E (CreateAccount E a s) = abs_op E (OpCreateAccount a) (sd_view E s)"
proof -
  assume ok: "sd_ok E s"
  obtain obj prev s1 where c: "createObject E a s = (obj, prev, s1)" by (metis prod_cases3)
  note l = createObject_step [OF c ok] and w = createObject_view [OF c ok]
  have v: "v_accounts (sd_view E s) a = map_option (so_view E) prev" using l(2) by (simp add: view_accounts)
  have e0: "(emptyAcct E a)\<lparr>av_balance := 0\<rparr> = emptyAcct E a" by (simp add: emptyAcct_def so_view_def newObject_def zeroAccount_def)
  show ?thesis
  proof (cases prev)
    case None
    with w v c e0 show ?thesis by (simp add: CreateAccount_def upd_acct_def)
  next
    case (Some p)
    have "so_view E obj = emptyAcct E a" using l(3) by (simp add: emptyAcct_def so_setNonce_new)
    with Some w v c l(4,5) show ?thesis
      by (simp add: CreateAccount_def put_view [of _ a] so_set_views so_okD upd_acct_def acctOr_def so_view_data [of _ E])
  qed
qed

lemma AddRefund_view: "sd_view E (AddRefund g s) = abs_op E (OpAddRefund g) (sd_view E s)"
  by (simp add: AddRefund_def appendEntry_def sd_view_def objOf_def cong: option.case_cong)

lemma AddPreimage_view: "sd_view E (AddPreimage h p s) = abs_op E (OpAddPreimage h p) (sd_view E s)"
  by (auto simp: AddPreimage_def appendEntry_def sd_view_def objOf_def Let_def split: option.splits cong: option.case_cong)


lemma so_SetBalance_view: "so_view E (fst (so_SetBalance b obj j)) = (so_view E obj)\<lparr>av_balance := b\<rparr>"
  and so_SetNonce_view: "so_view E (fst (so_SetNonce n obj j)) = (so_view E obj)\<lparr>av_nonce := n\<rparr>"
  by (simp_all add: so_SetBalance_def so_SetNonce_def so_set_views)

lemmas obj_steps = obj_step_AddBalance obj_step_SubBalance obj_step_SetBalance obj_step_SetNonce
  obj_step_SetState obj_step_SetPDXState

lemmas obj_views = so_AddBalance_view so_SubBalance_view so_SetState_view so_SetPDXState_view
  so_SetBalance_view so_SetNonce_view

lemma AddBalance_view: "sd_ok E s \<Longrightarrow> sd_view E (AddBalance E a b s) = abs_op E (OpAddBalance a b) (sd_view E s)"
  unfolding AddBalance_def abs_op.simps by (rule onObject_view) (simp_all add: obj_steps obj_views)

lemma SubBalance_view: "sd_ok E s \<Longrightarrow> sd_view E (SubBalance E a b s) = abs_op E (OpSubBalance a b) (sd_view E s)"
  unfolding SubBalance_def abs_op.simps by (rule onObject_view) (simp_all add: obj_steps obj_views)

lemma SetBalance_view: "sd_ok E s \<Longrightarrow> sd_view E (SetBalance E a b s) = abs_op E (OpSetBalance a b) (sd_view E s)"
  unfolding SetBalance_def abs_op.simps by (rule onObject_view) (simp_all add: obj_steps obj_views)

lemma SetNonce_view: "sd_ok E s \<Longrightarrow> sd_view E (SetNonce E a n s) = abs_op E (OpSetNonce a n) (sd_view E s)"
  unfolding SetNonce_def abs_op.simps by (rule onObject_view) (simp_all add: obj_steps obj_views)

lemma SetState_view: "sd_ok E s \<Longrightarrow> sd_view E (SetState E a k w s) = abs_op E (OpSetState a k w) (sd_view E s)"
  unfolding SetState_def abs_op.simps by (rule onObject_view) (simp_all add: obj_steps obj_views)

lemma SetPDXState_view: "sd_ok E s \<Longrightarrow> sd_view E (SetPDXState E a k p s) = abs_op E (OpSetPDXState a k p) (sd_view E s)"
  unfolding SetPDXState_def abs_op.simps by (rule onObject_view) (simp_all add: obj_steps obj_views)

lemmas setters_view = AddBalance_view SubBalance_view SetBalance_view SetNonce_view SetState_view SetPDXState_view

lemma SetCode_view: "sd_ok E s \<Longrightarrow> sd_view E (SetCode E a c s) = abs_op E (OpSetCode a c) (sd_view E s)"
  unfolding SetCode_def abs_op.simps
  by (rule onObject_view) (simp_all add: so_SetCode_view obj_step_SetCode sd_ok_def env_ok_keccak)

lemma GetCodeSize_view: "sd_ok E s \<Longrightarrow> sd_view E (snd (GetCodeSize E a s)) = sd_view E s"
proof -
  assume ok: "sd_ok E s"
  obtain o1 s1 where g: "getStateObject E a s = (o1, s1)" by fastforce
  note l = load [OF g ok]
  have "sd_view E (setError e s1) = sd_view E s1" for e
    by (simp add: sd_view_def objOf_def cong: option.case_cong)
  then show ?thesis using l(2) by (auto simp: GetCodeSize_def g same_state_def split: option.splits prod.splits)
qed

lemmas getter_views = getters [THEN is_getter_def [THEN iffD1], THEN conjunct2, THEN conjunct2]

lemma do_op_view:
  assumes "sd_ok E s" "\<not> snap_op op" "do_op E op s = Inr s'"
  shows "sd_view E s' = abs_op E op (sd_view E s)"
  using assms
  by (cases op) (auto simp: setters_view SetCode_view Suicide_view CreateAccount_view AddRefund_view AddPreimage_view
      getter_views GetCodeSize_view simp del: abs_op.simps(1-11))

end
