(* ===== verification/StateDirty.thy ===== *)
theory StateDirty
  imports StateSpec
begin

text \<open>
  The dirty counters of the journal: they count the entries that have not been reverted, except
  for the account \<open>ripemd\<close>, whose counter a touch raises twice.
\<close>

definition dirtyEntries :: "Address \<Rightarrow> 'tr journalEntry list \<Rightarrow> nat" where
  "dirtyEntries a es = length (filter (\<lambda>e. dirtied e = Some a) es)"

lemma dirtyEntries_simps [simp]:
  "dirtyEntries a [] = 0"
  "dirtyEntries a (e # es) = (if dirtied e = Some a then 1 else 0) + dirtyEntries a es"
  "dirtyEntries a (es @ fs) = dirtyEntries a es + dirtyEntries a fs"
  by (simp_all add: dirtyEntries_def)

definition countsOf :: "nat \<Rightarrow> int option" where
  "countsOf n = (if n = 0 then None else Some (int n))"

definition counts :: "'tr journalEntry list \<Rightarrow> (Address \<times> int) list \<Rightarrow> bool" where
  "counts es d \<longleftrightarrow> (\<forall>a. a \<noteq> ripemd \<longrightarrow> map_of d a = countsOf (dirtyEntries a es))
     \<and> (dirtyEntries ripemd es \<noteq> 0 \<longrightarrow> map_of d ripemd \<noteq> None)
     \<and> (\<forall>n. map_of d ripemd = Some n \<longrightarrow> int (dirtyEntries ripemd es) \<le> n)"

definition dirty_ok :: "'tr journal \<Rightarrow> bool" where
  "dirty_ok j \<longleftrightarrow> counts (j_entries j) (j_dirties j) \<and> distinct (map fst (j_dirties j))"

lemma dirties_distinct [simp]:
  "distinct (map fst (j_dirties j)) \<Longrightarrow> distinct (map fst (j_dirties (j_dirty a j)))"
  "distinct (map fst (j_dirties j)) \<Longrightarrow> distinct (map fst (j_dirties (j_append e j)))"
  "distinct (map fst (j_dirties j)) \<Longrightarrow> distinct (map fst (j_dirties (j_undirty e j)))"
  by (simp_all add: j_dirty_def j_append_def j_undirty_def distinct_update distinct_delete Let_def split: option.splits)

lemma newJournal_dirty: "dirty_ok newJournal"
  by (simp add: dirty_ok_def counts_def newJournal_def countsOf_def)

lemma j_dirty_counts: "counts es (j_dirties j) \<Longrightarrow> counts es (j_dirties (j_dirty ripemd j))"
  by (auto simp: counts_def j_dirty_def dirties_of_def split: option.splits)

lemma j_append_counts: "counts (j_entries j) (j_dirties j) \<Longrightarrow> counts (j_entries j @ [e]) (j_dirties (j_append e j))"
  by (auto simp: counts_def j_append_def j_dirty_def dirties_of_def countsOf_def Let_def
      split: option.splits if_splits)

lemma j_dirty_ripemd: "dirty_ok j \<Longrightarrow> dirty_ok (j_dirty ripemd j)"
  by (simp add: dirty_ok_def j_dirty_counts)

lemma j_append_dirty: "dirty_ok j \<Longrightarrow> dirty_ok (j_append e j)"
  by (simp add: dirty_ok_def j_append_counts)

lemma so_touch_dirty: "dirty_ok j \<Longrightarrow> dirty_ok (so_touch obj j)"
  by (auto simp: so_touch_def Let_def j_append_dirty j_dirty_ripemd)

lemma j_undirty_counts:
  assumes "counts (es @ [e]) (j_dirties j)"
  shows "counts es (j_dirties (j_undirty e j))"
proof (cases "dirtied e")
  case None
  with assms show ?thesis by (simp add: counts_def j_undirty_def)
next
  case (Some b)
  show ?thesis
  proof (cases "b = ripemd")
    case True
    with assms Some obtain n where "map_of (j_dirties j) ripemd = Some n" "n \<ge> int (dirtyEntries ripemd es) + 1"
      by (auto simp: counts_def)
    with assms Some True show ?thesis
      by (auto simp: counts_def j_undirty_def dirties_of_def Let_def)
  next
    case False
    with assms Some have "map_of (j_dirties j) b = Some (int (dirtyEntries b es) + 1)"
      by (auto simp: counts_def countsOf_def)
    with assms Some False show ?thesis
      by (auto simp: counts_def j_undirty_def dirties_of_def Let_def countsOf_def)
  qed
qed

section \<open>The methods\<close>

lemma getStateObject_keeps: "getStateObject E a s = (o1, s1) \<Longrightarrow> sd_journal s1 = sd_journal s"
  by (simp add: getStateObject_loaded)

lemma appendEntry_dirty: "dirty_ok (sd_journal s) \<Longrightarrow> dirty_ok (sd_journal (appendEntry e s))"
  by (simp add: appendEntry_def j_append_dirty)

lemma createObject_dirty:
  "createObject E a s = (obj, prev, s') \<Longrightarrow> dirty_ok (sd_journal s) \<Longrightarrow> dirty_ok (sd_journal s')"
  by (auto simp: createObject_def Let_def appendEntry_dirty dest!: getStateObject_keeps split: prod.splits option.splits)

lemma GetOrNewStateObject_dirty:
  "GetOrNewStateObject E a s = (obj, s') \<Longrightarrow> dirty_ok (sd_journal s) \<Longrightarrow> dirty_ok (sd_journal s')"
  by (auto simp: GetOrNewStateObject_def dest!: getStateObject_keeps split: prod.splits option.splits if_splits
      dest: createObject_dirty)

lemma onObject_dirty:
  assumes "\<And>obj j. dirty_ok j \<Longrightarrow> dirty_ok (snd (f obj j))" "dirty_ok (sd_journal s)"
  shows "dirty_ok (sd_journal (onObject E a f s))"
proof -
  obtain obj s1 where g: "GetOrNewStateObject E a s = (obj, s1)" by fastforce
  obtain obj' j' where f: "f obj (sd_journal s1) = (obj', j')" by fastforce
  from assms(1) [OF GetOrNewStateObject_dirty [OF g assms(2)], of obj] f show ?thesis
    by (simp add: onObject_def g)
qed

lemmas so_method_defs = so_SetBalance_def so_AddBalance_def so_SubBalance_def so_SetNonce_def so_SetState_def
  so_SetPDXState_def so_SetCode_def

lemma so_methods_dirty:
  assumes "dirty_ok j"
  shows "dirty_ok (snd (so_SetBalance b obj j))" "dirty_ok (snd (so_AddBalance E b obj j))"
    "dirty_ok (snd (so_SubBalance b obj j))" "dirty_ok (snd (so_SetNonce n obj j))"
    "dirty_ok (snd (so_SetState E k v obj j))" "dirty_ok (snd (so_SetPDXState E k w obj j))"
    "dirty_ok (snd (so_SetCode E h c obj j))"
  using assms by (auto simp: so_method_defs j_append_dirty so_touch_dirty split: prod.splits)

lemmas setter_defs = AddBalance_def SubBalance_def SetBalance_def SetNonce_def SetState_def SetPDXState_def SetCode_def

lemma getter_dirty:
  "sd_journal (snd (Exist E a s)) = sd_journal s" "sd_journal (snd (Empty E a s)) = sd_journal s"
  "sd_journal (snd (GetBalance E a s)) = sd_journal s" "sd_journal (snd (GetNonce E a s)) = sd_journal s"
  "sd_journal (snd (GetCode E a s)) = sd_journal s" "sd_journal (snd (GetCodeSize E a s)) = sd_journal s"
  "sd_journal (snd (GetCodeHash E a s)) = sd_journal s" "sd_journal (snd (GetState E a k s)) = sd_journal s"
  "sd_journal (snd (GetPDXState E a k s)) = sd_journal s" "sd_journal (snd (HasSuicided E a s)) = sd_journal s"
  by (auto simp: Exist_def Empty_def GetBalance_def GetNonce_def GetCode_def GetCodeSize_def GetCodeHash_def GetState_def
      GetPDXState_def HasSuicided_def dest!: getStateObject_keeps split: prod.splits option.splits)

lemma Suicide_dirty: "dirty_ok (sd_journal s) \<Longrightarrow> dirty_ok (sd_journal (snd (Suicide E a s)))"
  by (auto simp: Suicide_def Let_def appendEntry_dirty dest!: getStateObject_keeps split: prod.splits option.splits)

lemma CreateAccount_dirty: "dirty_ok (sd_journal s) \<Longrightarrow> dirty_ok (sd_journal (CreateAccount E a s))"
  by (auto simp: CreateAccount_def dest: createObject_dirty split: prod.splits option.splits)

section \<open>Reverting\<close>

lemma entry_revert_journal: "entry_revert E e s = Inr s' \<Longrightarrow> sd_journal s' = sd_journal s"
  by (cases e) (auto simp: withObject_def dest!: getStateObject_keeps split: prod.splits option.splits)

lemma revertEntries_dirty:
  assumes "revertEntries E es s = Inr s'" "counts (fs @ rev es) (j_dirties (sd_journal s))"
    "distinct (map fst (j_dirties (sd_journal s)))"
  shows "counts fs (j_dirties (sd_journal s'))" "entries s' = entries s" "distinct (map fst (j_dirties (sd_journal s')))"
proof -
  have "counts fs (j_dirties (sd_journal s')) \<and> entries s' = entries s \<and> distinct (map fst (j_dirties (sd_journal s')))"
    using assms
  proof (induction es arbitrary: s)
    case (Cons e es)
    then obtain s1 where s1: "entry_revert E e s = Inr s1"
      and rest: "revertEntries E es (s1\<lparr>sd_journal := j_undirty e (sd_journal s1)\<rparr>) = Inr s'"
      by (auto split: sum.splits)
    have "counts ((fs @ rev es) @ [e]) (j_dirties (sd_journal s1))"
      using Cons.prems(2) entry_revert_journal [OF s1] by simp
    from Cons.IH [OF rest] j_undirty_counts [OF this] entry_revert_journal [OF s1] Cons.prems(3) show ?case
      by (simp add: entries_def)
  qed simp
  then show "counts fs (j_dirties (sd_journal s'))" "entries s' = entries s" "distinct (map fst (j_dirties (sd_journal s')))"
    by auto
qed

lemma journal_revert_dirty:
  assumes "journal_revert E n s = Inr s'" "dirty_ok (sd_journal s)"
  shows "dirty_ok (sd_journal s')"
proof -
  from assms(1) obtain s1 where s1: "revertEntries E (rev (drop n (entries s))) s = Inr s1"
    and s': "s' = s1\<lparr>sd_journal := (sd_journal s1)\<lparr>j_entries := take n (j_entries (sd_journal s1))\<rparr>\<rparr>"
    by (auto simp: journal_revert_def entries_def split: sum.splits)
  from revertEntries_dirty [OF s1, of "take n (entries s)"] assms(2) s' show ?thesis
    by (simp add: dirty_ok_def entries_def)
qed

lemma RevertToSnapshot_dirty:
  "RevertToSnapshot E i s = Inr s' \<Longrightarrow> dirty_ok (sd_journal s) \<Longrightarrow> dirty_ok (sd_journal s')"
  by (auto simp: RevertToSnapshot_def Let_def dest: journal_revert_dirty split: if_splits sum.splits)

lemma do_op_dirty:
  assumes "do_op E op s = Inr s'" "dirty_ok (sd_journal s)" shows "dirty_ok (sd_journal s')"
  using assms
  by (cases op) (auto simp: getter_dirty Suicide_dirty CreateAccount_dirty setter_defs so_methods_dirty
      AddRefund_def AddPreimage_def appendEntry_dirty Snapshot_def Let_def intro!: onObject_dirty
      dest: RevertToSnapshot_dirty split: option.splits)

lemma run_ops_dirty:
  "run_ops E ops s = Inr s' \<Longrightarrow> dirty_ok (sd_journal s) \<Longrightarrow> dirty_ok (sd_journal s')"
  by (induction ops arbitrary: s) (auto dest: do_op_dirty split: sum.splits)

end
