(* ===== verification/StateFinal.thy ===== *)
theory StateFinal
  imports StateSpec "HOL-Library.Multiset"
begin

text \<open>
  Writing back: the encoding of an account, \<open>Finalise\<close>, and what a fresh \<open>StateDB\<close> over the
  resulting trie reads.
\<close>

section \<open>The encoding of an account\<close>

definition acct_fits :: "Account \<Rightarrow> bool" where
  "acct_fits a \<longleftrightarrow> 0 \<le> ac_Balance a \<and> ac_Balance a < 2 ^ 256 \<and> length (ac_Root a) = 32 \<and> length (ac_CodeHash a) = 32"

definition encAccount :: "Account \<Rightarrow> bytes" where
  "encAccount a = enc_list (enc_str (nat_to_be (unat (ac_Nonce a))) @ enc_str (nat_to_be (nat (ac_Balance a)))
     @ enc_str (ac_Root a) @ enc_str (ac_CodeHash a))"

definition accountDecoder :: decoder where
  "accountDecoder = DStruct accountType
    [(0, DUint 64), (1, DBigInt), (2, DByteArray (TArray 32 (TUint 8)) 32), (3, DByteSlice (TSlice (TUint 8)))]"

lemma account_codec: "codec_type accountType" "makeDecoder accountType no_tags = Inr accountDecoder"
  by code_simp+

lemma accountWriter:
  "makeWriter accountType no_tags = Inr (WStruct [(0, WUint), (Suc 0, WBigIntPtr), (2, WByteArray), (3, WBytes)])"
  by code_simp

lemma refWriter_account:
  "refWriter ad (WStruct [(0, WUint), (Suc 0, WBigIntPtr), (2, WByteArray), (3, WBytes)]) (accountVal a)
     = (if ac_Balance a < 0 then Inl negativeBigInt else Inr (encAccount a))"
  by (simp add: accountVal_def encAccount_def)

lemma length_nonce: "length (nat_to_be (unat w)) \<le> 8" for w :: u64
  using unsigned_less [of w] by (intro nat_to_be_length_le) simp

lemma length_enc_str_le: "length b \<le> 55 \<Longrightarrow> length (enc_str b) \<le> 56"
  by (auto simp: enc_str_def rlp_head_def)

lemma length_enc_list_le: "length p < 256 \<Longrightarrow> length (enc_list p) \<le> 2 + length p"
  using nat_to_be_length_le [of "length p" 1] by (simp add: enc_list_def rlp_head_def)

lemma length_encAccount:
  assumes "acct_fits a" shows "length (encAccount a) < 2 ^ 64"
proof -
  note length_nonce [of "ac_Nonce a"]
  moreover have "length (nat_to_be (nat (ac_Balance a))) \<le> 32"
    using assms by (intro nat_to_be_length_le) (simp add: acct_fits_def nat_less_iff)
  ultimately have "length (enc_str (nat_to_be (unat (ac_Nonce a))) @ enc_str (nat_to_be (nat (ac_Balance a)))
     @ enc_str (ac_Root a) @ enc_str (ac_CodeHash a)) \<le> 224"
    using length_enc_str_le [of "nat_to_be (unat (ac_Nonce a))"] length_enc_str_le [of "nat_to_be (nat (ac_Balance a))"]
      length_enc_str_le [of "ac_Root a"] length_enc_str_le [of "ac_CodeHash a"] assms
    by (simp add: acct_fits_def)
  then have "length (encAccount a) \<le> 226"
    unfolding encAccount_def by (intro order_trans [OF length_enc_list_le]) simp_all
  then show ?thesis by simp
qed

lemma account_representable: "acct_fits a \<Longrightarrow> representable_as accountType (accountVal a)"
proof -
  assume a: "acct_fits a"
  note length_nonce [of "ac_Nonce a"]
  from this a have "representable accountDecoder (accountVal a)"
    by (auto simp: accountDecoder_def accountVal_def zerofields_def accountType_def acct_fits_def nth_Cons')
  then show ?thesis using account_codec(2) by (auto simp: representable_as_def)
qed

lemma refEncode_account:
  "refEncode accountType (accountVal a) = (if ac_Balance a < 0 then Inl negativeBigInt else Inr (encAccount a))"
  by (simp add: refEncode_def accountWriter refWriter_account)

lemma so_EncodeRLP_ref:
  "refEncode (TPtr (TEncoder n accountType)) (VPtr (VEncoder (accountVal a)))
     = (if ac_Balance a < 0 then Inl negativeBigInt else Inr (encAccount a))"
  by (simp add: refEncode_def accountWriter refWriter_account)

lemma so_EncodeRLP_ok: "acct_fits (so_data so) \<Longrightarrow> so_EncodeRLP so = Inr (encAccount (so_data so))"
  unfolding so_EncodeRLP_def
  by (subst EncodeToBytes_ref)
    (use length_encAccount [of "so_data so"] in \<open>auto simp: so_EncodeRLP_ref acct_fits_def split: if_splits\<close>)

lemma so_EncodeRLP_negative: "ac_Balance (so_data so) < 0 \<Longrightarrow> so_EncodeRLP so = Inl negativeBigInt"
  unfolding so_EncodeRLP_def by (subst EncodeToBytes_ref) (simp_all add: so_EncodeRLP_ref)

definition litOf :: "Account \<Rightarrow> AccountLit" where
  "litOf a = \<lparr>al_Nonce = ac_Nonce a, al_Balance = Some (ac_Balance a), al_Root = ac_Root a, al_CodeHash = Some (ac_CodeHash a)\<rparr>"

lemma encAccount_decode:
  assumes "acct_fits a"
  shows "DecodeBytes (encAccount a) (PointerTo accountType) = Inr (accountVal a)"
    "accountOf (accountVal a) = Some (litOf a)" "encAccount a \<noteq> []"
proof -
  have "refEncode accountType (accountVal a) = Inr (encAccount a)" using assms by (simp add: refEncode_account acct_fits_def)
  then show "DecodeBytes (encAccount a) (PointerTo accountType) = Inr (accountVal a)"
    by (rule decode_encode [OF account_codec(1) account_representable [OF assms] _ length_encAccount [OF assms]])
qed (simp_all add: accountOf_def accountVal_def litOf_def encAccount_def)

section \<open>The laws of the tries and of the iteration\<close>

text \<open>
  What \<open>Finalise\<close> relies on: a trie returns what was stored last under a key, updating and deleting
  succeed, hashes have 32 bytes, and a range loop visits every key of a map once.
\<close>

definition env_laws :: "'tr env \<Rightarrow> bool" where
  "env_laws E \<longleftrightarrow>
     (\<forall>t k v k'. v \<noteq> [] \<longrightarrow> fst (tryUpdate E t k v) = None \<and>
        tryGet E (snd (tryUpdate E t k v)) k' = (if k' = k then (v, None) else tryGet E t k'))
     \<and> (\<forall>t k k'. fst (tryDelete E t k) = None \<and>
        tryGet E (snd (tryDelete E t k)) k' = (if k' = k then ([], None) else tryGet E t k'))
     \<and> (\<forall>t. length (trieHash E t) = 32)
     \<and> (\<forall>as. mset (iterAddr E as) = mset as) \<and> (\<forall>ks. mset (iterHash E ks) = mset ks)"

lemma env_laws_update: "env_laws E \<Longrightarrow> v \<noteq> [] \<Longrightarrow> tryUpdate E t k v = (err, t')
    \<Longrightarrow> tryGet E t' k' = (if k' = k then (v, None) else tryGet E t k')"
  unfolding env_laws_def by (metis snd_conv)

lemma env_laws_delete: "env_laws E \<Longrightarrow> tryDelete E t k = (err, t')
    \<Longrightarrow> tryGet E t' k' = (if k' = k then ([], None) else tryGet E t k')"
  unfolding env_laws_def by (metis snd_conv)

lemma trieObj_cong: "tryGet E t' a = tryGet E t a \<Longrightarrow> trieObj E t' a = trieObj E t a"
  by (simp add: trieObj_def)

lemma trieObj_encoded: "acct_fits ac \<Longrightarrow> tryGet E t a = (encAccount ac, err) \<Longrightarrow> trieObj E t a = Some (newObject E a (litOf ac))"
  by (simp add: trieObj_def encAccount_decode)

section \<open>One account\<close>

text \<open>What the flush of the storage leaves alone.\<close>

lemma flushStorage_ident:
  "flushStorage E ks t so = (t', so') \<Longrightarrow> so_ident so' = so_ident so"
  by (induction ks arbitrary: t so) (fastforce simp: Let_def so_ident_eq split: prod.splits if_splits)+

lemma flushPDXStorage_ident:
  "flushPDXStorage E ks t so = (t', so') \<Longrightarrow> so_ident so' = so_ident so"
  by (induction ks arbitrary: t so) (fastforce simp: Let_def so_ident_eq split: prod.splits if_splits)+

lemma so_updateTrie_ident: "so_updateTrie E so = (t, so') \<Longrightarrow> so_ident so' = so_ident so"
  by (auto simp: so_updateTrie_def dest!: flushStorage_ident flushPDXStorage_ident so_getTrie_snd(1) split: prod.splits)

lemma so_updateRoot_fields:
  "so_address (so_updateRoot E so) = so_address so" "so_deleted (so_updateRoot E so) = so_deleted so"
  "so_suicided (so_updateRoot E so) = so_suicided so"
  "\<exists>t. so_data (so_updateRoot E so) = (so_data so)\<lparr>ac_Root := trieHash E t\<rparr>"
  by (auto simp: so_updateRoot_def so_ident_eq dest!: so_updateTrie_ident split: prod.splits)

lemma so_updateRoot_root: "ac_Root (so_data (so_updateRoot E so)) = trieHash E (fst (so_updateTrie E so))"
  by (simp add: so_updateRoot_def split_beta)

definition removed :: "'tr env \<Rightarrow> bool \<Rightarrow> 'tr stateObject \<Rightarrow> bool" where
  "removed E del obj \<longleftrightarrow> so_suicided obj \<or> (del \<and> so_empty E obj)"

text \<open>The account that \<open>Finalise\<close> leaves in the trie for a live object.\<close>

definition finalAccount :: "'tr env \<Rightarrow> bool \<Rightarrow> Address \<Rightarrow> 'tr stateObject \<Rightarrow> 'tr stateObject option" where
  "finalAccount E del a obj =
     (if removed E del obj then None else Some (newObject E a (litOf (so_data (so_updateRoot E obj)))))"

definition writable :: "Address \<Rightarrow> 'tr stateObject \<Rightarrow> bool" where
  "writable a obj \<longleftrightarrow> so_address obj = a \<and> 0 \<le> ac_Balance (so_data obj) \<and> ac_Balance (so_data obj) < 2 ^ 256
     \<and> length (ac_CodeHash (so_data obj)) = 32"

lemma writable_fits: "env_laws E \<Longrightarrow> writable a obj \<Longrightarrow> acct_fits (so_data (so_updateRoot E obj))"
  using so_updateRoot_fields(4) [of E obj] by (auto simp: env_laws_def writable_def acct_fits_def)

lemma finaliseOne_spec:
  assumes "env_laws E" "map_of (sd_stateObjects s) a = Some obj" "writable a obj"
  obtains s' where "finaliseOne E del a s = Inr s'" "trieObj E (sd_trie s') a = finalAccount E del a obj"
    "\<And>b. b \<noteq> a \<Longrightarrow> tryGet E (sd_trie s') b = tryGet E (sd_trie s) b"
    "\<And>b. b \<noteq> a \<Longrightarrow> map_of (sd_stateObjects s') b = map_of (sd_stateObjects s) b"
proof (cases "removed E del obj")
  case True
  have ad: "so_address obj = a" using assms(3) by (simp add: writable_def)
  obtain err t where t: "tryDelete E (sd_trie s) a = (err, t)" by fastforce
  note g = env_laws_delete [OF assms(1) t]
  let ?s = "(setError err ((setStateObject (obj\<lparr>so_deleted := True\<rparr>) s)\<lparr>sd_trie := t\<rparr>))
    \<lparr>sd_stateObjectsDirty := set_add a (sd_stateObjectsDirty s)\<rparr>"
  have "finaliseOne E del a s = Inr ?s"
    using True t ad by (simp add: finaliseOne_def assms(2) removed_def deleteStateObject_def Let_def setStateObject_def)
  then show thesis
    by (rule that) (simp_all add: g finalAccount_def True ad setStateObject_def trieObj_def)
next
  case False
  define ob where "ob = so_updateRoot E obj"
  have ad: "so_address ob = a" using assms(3) by (simp add: writable_def ob_def so_updateRoot_fields)
  have fit: "acct_fits (so_data ob)" unfolding ob_def by (rule writable_fits [OF assms(1,3)])
  obtain err t where t: "tryUpdate E (sd_trie s) a (encAccount (so_data ob)) = (err, t)" by fastforce
  note g = env_laws_update [OF assms(1) encAccount_decode(3) [OF fit] t]
  let ?s = "(setError err ((setStateObject ob s)\<lparr>sd_trie := t\<rparr>))
    \<lparr>sd_stateObjectsDirty := set_add a (sd_stateObjectsDirty s)\<rparr>"
  have "finaliseOne E del a s = Inr ?s"
    using False t ad
    by (auto simp: finaliseOne_def assms(2) removed_def updateStateObject_def Let_def setStateObject_def
        so_EncodeRLP_ok [OF fit] simp flip: ob_def)
  then show thesis
    by (rule that) (simp_all add: g finalAccount_def False ad setStateObject_def trieObj_encoded [OF fit] flip: ob_def)
qed

lemma finaliseAll_spec:
  assumes "env_laws E" "distinct as" "\<And>a. a \<in> set as \<Longrightarrow> \<exists>obj. map_of (sd_stateObjects s) a = Some obj \<and> writable a obj"
  shows "\<exists>s'. finaliseAll E del as s = Inr s'
    \<and> (\<forall>a \<in> set as. trieObj E (sd_trie s') a = finalAccount E del a (the (map_of (sd_stateObjects s) a)))
    \<and> (\<forall>b. b \<notin> set as \<longrightarrow> tryGet E (sd_trie s') b = tryGet E (sd_trie s) b)"
  using assms(2,3)
proof (induction as arbitrary: s)
  case (Cons a as)
  from Cons.prems(2) [of a] obtain obj where obj: "map_of (sd_stateObjects s) a = Some obj" "writable a obj" by auto
  from finaliseOne_spec [OF assms(1) obj] obtain s1 where s1: "finaliseOne E del a s = Inr s1"
    "trieObj E (sd_trie s1) a = finalAccount E del a obj"
    "\<And>b. b \<noteq> a \<Longrightarrow> tryGet E (sd_trie s1) b = tryGet E (sd_trie s) b"
    "\<And>b. b \<noteq> a \<Longrightarrow> map_of (sd_stateObjects s1) b = map_of (sd_stateObjects s) b" by metis
  have ne: "b \<noteq> a" if "b \<in> set as" for b using Cons.prems(1) that by auto
  from Cons.IH [of s1] Cons.prems ne s1(4) obtain s' where s': "finaliseAll E del as s1 = Inr s'"
    "\<forall>b \<in> set as. trieObj E (sd_trie s') b = finalAccount E del b (the (map_of (sd_stateObjects s1) b))"
    "\<forall>b. b \<notin> set as \<longrightarrow> tryGet E (sd_trie s') b = tryGet E (sd_trie s1) b"
    by auto
  have "trieObj E (sd_trie s') a = finalAccount E del a obj"
    using s1(2) s'(3) Cons.prems(1) trieObj_cong by (metis distinct.simps(2))
  with s1 s' ne obj show ?case by (intro exI [where x = s']) auto
qed simp

section \<open>Storage slots\<close>

text \<open>\<open>encodeSlot\<close> and \<open>GetState\<close>'s decoding of a slot are inverse to each other.\<close>

lemma encodeSlot_eq: "length v = 32 \<Longrightarrow> encodeSlot v = enc_str (trimLeft0 v)"
proof -
  assume v: "length v = 32"
  have "length (trimLeft0 v) \<le> 32" using v length_dropWhile_le [of _ v] by (simp add: trimLeft0_def)
  then have "length (enc_str (trimLeft0 v)) \<le> 56" by (intro length_enc_str_le) simp
  moreover have "refEncode (TSlice (TUint 8)) (VBytes (trimLeft0 v)) = Inr (enc_str (trimLeft0 v))"
    by (simp add: refEncode_def isByte_def)
  ultimately show ?thesis unfolding encodeSlot_def by (subst EncodeToBytes_ref) (auto simp: order_le_less_trans)
qed

lemma BytesToHash_trimLeft0: "length v = 32 \<Longrightarrow> BytesToHash (trimLeft0 v) = v"
proof -
  assume v: "length v = 32"
  have le: "length (trimLeft0 v) \<le> 32" using v length_dropWhile_le [of _ v] by (simp add: trimLeft0_def)
  have "takeWhile (\<lambda>x. x = 0) v = replicate (length (takeWhile (\<lambda>x. x = 0) v)) 0"
    by (rule replicate_eqI) (auto dest: set_takeWhileD)
  moreover have "length (takeWhile (\<lambda>x. x = 0) v) = 32 - length (trimLeft0 v)"
    using v arg_cong [OF takeWhile_dropWhile_id [of "\<lambda>x. x = 0" v], of length]
    by (simp add: trimLeft0_def del: takeWhile_dropWhile_id)
  moreover have "takeWhile (\<lambda>x. x = 0) v @ trimLeft0 v = v" by (simp add: trimLeft0_def)
  ultimately show ?thesis using le by (simp add: BytesToHash_eq)
qed

lemma slotOf_enc_str: "length b \<le> 55 \<Longrightarrow> slotOf (enc_str b, None) = BytesToHash b"
proof -
  assume b: "length b \<le> 55"
  have len: "length (enc_str b) < 2 ^ 64" using length_enc_str_le [OF b] by simp
  have "Split (enc_str b) = Inr (if single b then Byte else String, b, [])"
    unfolding Split_iff [OF len] by (auto simp: canon_def kind_head_def single_def enc_str_def)
  then show ?thesis by (simp add: slotOf_def)
qed

lemma encodeSlot_slotOf: "length v = 32 \<Longrightarrow> slotOf (encodeSlot v, None) = v"
  using length_dropWhile_le [of "\<lambda>x. x = 0" v]
  by (simp add: encodeSlot_eq slotOf_enc_str BytesToHash_trimLeft0 trimLeft0_def [symmetric])

lemma encodeSlot_not_Nil: "length v = 32 \<Longrightarrow> encodeSlot v \<noteq> []"
  by (simp add: encodeSlot_eq)

definition storageFits :: "Storage \<Rightarrow> bool" where
  "storageFits d \<longleftrightarrow> (\<forall>v \<in> snd ` set d. length v = 32)"

definition slotEnc :: "Hash \<Rightarrow> bytes" where
  "slotEnc v = (if v = zeroHash then [] else encodeSlot v)"

lemma slotOf_slotEnc: "length v = 32 \<Longrightarrow> slotOf (slotEnc v, None) = v"
  by (auto simp: slotEnc_def encodeSlot_slotOf) (simp add: slotOf_def)

lemma flushStorage_spec:
  assumes "env_laws E" "distinct ks" "\<And>k. k \<in> set ks \<Longrightarrow> \<exists>v. map_of (so_dirtyStorage so) k = Some v \<and> length v = 32"
    "flushStorage E ks t so = (t', so')"
  shows "tryGet E t' k = (if k \<in> set ks then (slotEnc (the (map_of (so_dirtyStorage so) k)), None) else tryGet E t k)
    \<and> so_pdxDirtyStorage so' = so_pdxDirtyStorage so"
  using assms(2-4)
proof (induction ks arbitrary: t so)
  case (Cons a ks)
  from Cons.prems(2) [of a] obtain v where v: "map_of (so_dirtyStorage so) a = Some v" "length v = 32" by auto
  define so1 where "so1 = so\<lparr>so_dirtyStorage := AList.delete a (so_dirtyStorage so)\<rparr>"
  obtain err t1 where t1: "(if v = zeroHash then tryDelete E t a else tryUpdate E t a (encodeSlot v)) = (err, t1)"
    by fastforce
  have g: "tryGet E t1 b = (if b = a then (slotEnc v, None) else tryGet E t b)" for b
    using t1 env_laws_delete [OF assms(1), of t a err t1 b]
      env_laws_update [OF assms(1) encodeSlot_not_Nil [OF v(2)], of t a err t1 b]
    by (auto simp: slotEnc_def split: if_splits)
  have f: "flushStorage E ks t1 (so_setError err so1) = (t', so')"
    using Cons.prems(3) v(1) t1 by (simp add: Let_def so1_def)
  have d: "map_of (so_dirtyStorage so1) b = map_of (so_dirtyStorage so) b" if "b \<in> set ks" for b
    using that Cons.prems(1) by (auto simp: so1_def)
  have "tryGet E t' k = (if k \<in> set ks then (slotEnc (the (map_of (so_dirtyStorage so1) k)), None) else tryGet E t1 k)
    \<and> so_pdxDirtyStorage so' = so_pdxDirtyStorage so1"
    using Cons.IH [OF _ _ f] Cons.prems(1,2) d by simp
  then show ?case using g d v Cons.prems(1) by (auto simp: so1_def)
qed simp

lemma flushPDXStorage_spec:
  assumes "env_laws E" "distinct ks" "flushPDXStorage E ks t so = (t', so')"
  shows "tryGet E t' k = (if k \<in> set ks then (the (map_of (so_pdxDirtyStorage so) k), None) else tryGet E t k)"
  using assms(2,3)
proof (induction ks arbitrary: t so)
  case (Cons a ks)
  define v where "v = the (map_of (so_pdxDirtyStorage so) a)"
  define so1 where "so1 = so\<lparr>so_pdxDirtyStorage := AList.delete a (so_pdxDirtyStorage so)\<rparr>"
  obtain err t1 where t1: "(if v = [] then tryDelete E t a else tryUpdate E t a v) = (err, t1)" by fastforce
  have g: "tryGet E t1 b = (if b = a then (v, None) else tryGet E t b)" for b
    using t1 env_laws_delete [OF assms(1), of t a err t1 b] env_laws_update [OF assms(1), of v t a err t1 b]
    by (auto split: if_splits)
  have f: "flushPDXStorage E ks t1 (so_setError err so1) = (t', so')"
    using Cons.prems(2) t1 by (simp add: Let_def so1_def flip: v_def)
  have d: "map_of (so_pdxDirtyStorage so1) b = map_of (so_pdxDirtyStorage so) b" if "b \<in> set ks" for b
    using that Cons.prems(1) by (auto simp: so1_def)
  have "tryGet E t' k = (if k \<in> set ks then (the (map_of (so_pdxDirtyStorage so1) k), None) else tryGet E t1 k)"
    using Cons.IH [OF _ f] Cons.prems(1) by simp
  then show ?case using g d v_def Cons.prems(1) by auto
qed simp

lemma iter_same:
  assumes "env_laws E"
  shows "set (iterAddr E as) = set as" "distinct (iterAddr E as) = distinct as"
    "set (iterHash E ks) = set ks" "distinct (iterHash E ks) = distinct ks"
  using assms mset_eq_setD mset_eq_imp_distinct_iff unfolding env_laws_def by metis+

lemma so_updateTrie_spec:
  assumes "env_laws E" "distinct (map fst (so_dirtyStorage so))" "storageFits (so_dirtyStorage so)"
    "distinct (map fst (so_pdxDirtyStorage so))"
    "so_updateTrie E so = (t', so')"
  shows "tryGet E t' k =
     (case map_of (so_pdxDirtyStorage so) k of
        Some w \<Rightarrow> (w, None)
      | None \<Rightarrow> (case map_of (so_dirtyStorage so) k of Some v \<Rightarrow> (slotEnc v, None) | None \<Rightarrow> tryGet E (so_trieOf E so) k))"
proof -
  obtain t so1 where g: "so_getTrie E so = (t, so1)" by fastforce
  note gt = so_getTrie_snd [OF g]
  obtain t2 so2 where f2: "flushStorage E (iterHash E (map fst (so_dirtyStorage so1))) t so1 = (t2, so2)" by fastforce
  have v: "\<exists>v. map_of (so_dirtyStorage so1) k = Some v \<and> length v = 32"
    if "k \<in> set (iterHash E (map fst (so_dirtyStorage so1)))" for k
    using that assms(3) gt(6) map_of_eq_None_iff [of "so_dirtyStorage so" k]
    by (auto simp: iter_same [OF assms(1)] storageFits_def dest: map_of_SomeD intro!: bexI)
      (metis image_eqI map_of_SomeD not_None_eq snd_conv fst_conv)
  have d1: "distinct (iterHash E (map fst (so_dirtyStorage so1)))" using assms(2) gt(6) by (simp add: iter_same [OF assms(1)])
  note s2 = flushStorage_spec [OF assms(1) d1 v f2]
  obtain t3 so3 where f3: "flushPDXStorage E (iterHash E (map fst (so_pdxDirtyStorage so2))) t2 so2 = (t3, so3)" by fastforce
  have p2: "so_pdxDirtyStorage so2 = so_pdxDirtyStorage so" using s2 gt(7) by simp
  have d2: "distinct (iterHash E (map fst (so_pdxDirtyStorage so2)))" using assms(4) p2 by (simp add: iter_same [OF assms(1)])
  note s3 = flushPDXStorage_spec [OF assms(1) d2 f3]
  have "t' = t3" using assms(5) g f2 f3 by (simp add: so_updateTrie_def)
  have m: "k \<in> set (map fst al) \<longleftrightarrow> map_of al k \<noteq> None" for al :: "(Hash \<times> 'x) list" by (simp add: map_of_eq_None_iff)
  show ?thesis
    unfolding \<open>t' = t3\<close> s3 using s2 [of k]
    by (auto simp: iter_same [OF assms(1)] m p2 gt(6,8) simp del: set_map split: option.splits)
qed

end
