(* ===== verification/StateProps.thy ===== *)
theory StateProps
  imports StateDirty StateFinal
begin

text \<open>
  The properties of the state database, and a concrete environment, tries as association lists, on
  which their hypotheses hold.
\<close>

section \<open>A concrete environment\<close>

definition alistEnv :: "(bytes \<times> bytes) list env" where
  "alistEnv =
     \<lparr>tryGet = (\<lambda>t k. (case map_of t k of None \<Rightarrow> [] | Some v \<Rightarrow> v, None)),
      tryUpdate = (\<lambda>t k v. (None, AList.update k v t)),
      tryDelete = (\<lambda>t k. (None, AList.delete k t)),
      trieHash = (\<lambda>t. BytesToHash (concat (map snd t))),
      openTrie = (\<lambda>_. Inr []),
      openStorageTrie = (\<lambda>_ _. Inr []),
      emptyStorageTrie = (\<lambda>_. []),
      copyTrie = (\<lambda>t. t),
      contractCode = (\<lambda>_ _. (None, None)),
      contractCodeSize = (\<lambda>_ _. (0, None)),
      keccak = (\<lambda>b. BytesToHash (1 # b)),
      iterHash = (\<lambda>ks. ks),
      iterAddr = (\<lambda>as. as)\<rparr>"

definition emptyState :: "(bytes \<times> bytes) list StateDB" where
  "emptyState = emptyStateDB []"

lemma alistEnv_env_ok: "env_ok alistEnv"
  by (simp add: env_ok_def alistEnv_def HashLength_def)

lemma emptyState_ok: "state_ok alistEnv emptyState"
  by (simp add: state_ok_def sd_ok_def alistEnv_env_ok trie_ok_def live_ok_def revs_ok_def emptyState_def emptyStateDB_def
      newJournal_def) (simp add: alistEnv_def trieObj_def)

definition addrA :: Address where
  "addrA = BytesToAddress [10]"

definition keyK :: Hash where
  "keyK = BytesToHash [7]"

definition demoOps :: "state_op list" where
  "demoOps = [OpCreateAccount addrA, OpAddBalance addrA 5, OpSnapshot, OpSetState addrA keyK (BytesToHash [9]),
     OpSetCode addrA (Some [1, 2]), OpRevertToSnapshot 1, OpSetNonce addrA 3, OpSuicide addrA, OpAddRefund 8]"

section \<open>Snapshots\<close>

text \<open>C7. A snapshot can always be restored: in a state that satisfies the invariant, after any sequence of
  the operations of \<open>state_op\<close> (reads, writes, account creations, suicides, nested snapshots and nested reverts) that does not revert to this snapshot or an older
  one, \<open>RevertToSnapshot\<close> succeeds and every account (nonce, balance, code, storage), the refund
  counter and the preimages read as they did when the snapshot was taken.\<close>

theorem RevertToSnapshot_restores:
  assumes "state_ok E s" "Snapshot s = (i, s0)" "run_ops E ops s0 = Inr s1"
    "\<forall>j. OpRevertToSnapshot j \<in> set ops \<longrightarrow> i < j"
  shows "\<exists>s2. RevertToSnapshot E i s1 = Inr s2 \<and> sd_view E s2 = sd_view E s \<and> state_ok E s2"
proof -
  note sn = Snapshot_ok [OF assms(1,2)]
  let ?r = "\<lparr>rev_id = i, rev_journalIndex = length (entries s)\<rparr>"
  note rn = run_ops_ok [OF sn(1) assms(3)]
  have "remembers E ?r (sd_view E s) s1" by (rule rn(2) [OF sn(2)]) (simp add: assms(4))
  then have r: "?r \<in> set (sd_validRevisions s1)" "jl.past E (length (entries s)) s1 = Some (sd_view E s)"
    by (simp_all add: remembers_def)
  have ok: "sd_ok E s1" "revs_ok E s1" using rn(1) by (simp_all add: state_ok_def)
  from RevertToSnapshot_valid [OF ok r(1)] r(2) show ?thesis
    by (metis revision.select_convs option.inject state_ok_def)
qed

theorem RevertToSnapshot_restores_witness:
  "\<exists>s1 s2. run_ops alistEnv demoOps (snd (Snapshot emptyState)) = Inr s1
     \<and> RevertToSnapshot alistEnv 0 s1 = Inr s2 \<and> sd_view alistEnv s2 = sd_view alistEnv emptyState"
proof -
  have n: "\<not> isl (run_ops alistEnv demoOps (snd (Snapshot emptyState)))" by code_simp
  then obtain s1 where s1: "run_ops alistEnv demoOps (snd (Snapshot emptyState)) = Inr s1"
    by (cases "run_ops alistEnv demoOps (snd (Snapshot emptyState))") auto
  have sn: "Snapshot emptyState = (0, snd (Snapshot emptyState))"
    by (simp add: Snapshot_def emptyState_def emptyStateDB_def)
  have "\<forall>j. OpRevertToSnapshot j \<in> set demoOps \<longrightarrow> 0 < j" by (simp add: demoOps_def)
  from RevertToSnapshot_restores [OF emptyState_ok sn s1 this] s1 show ?thesis by auto
qed

text \<open>C37. The only way a sequence of the operations of \<open>state_op\<close> can panic is a \<open>RevertToSnapshot\<close>
  with a revision that is not valid: no nil dereference happens while reverting, and the invariant of
  the state (objects filed under their own address, journal entries that can be undone, revisions
  sorted) holds after every sequence that returns. The operations are \<open>Exist\<close>, \<open>Empty\<close>, \<open>GetBalance\<close>,
  \<open>GetNonce\<close>, \<open>GetCode\<close>, \<open>GetCodeSize\<close>, \<open>GetCodeHash\<close>, \<open>GetState\<close>, \<open>GetPDXState\<close>, \<open>HasSuicided\<close>,
  \<open>AddBalance\<close>, \<open>SubBalance\<close>, \<open>SetBalance\<close>, \<open>SetNonce\<close>, \<open>SetCode\<close>, \<open>SetState\<close>, \<open>SetPDXState\<close>,
  \<open>Suicide\<close>, \<open>CreateAccount\<close>, \<open>AddRefund\<close>, \<open>AddPreimage\<close>, \<open>Snapshot\<close> and \<open>RevertToSnapshot\<close>;
  \<open>Finalise\<close>, which can panic, \<open>Copy\<close> and \<open>GetSelectiveStateObjectRoot\<close> are not among them.\<close>

theorem run_ops_panics_only_on_invalid_revision:
  assumes "state_ok E s"
  shows "case run_ops E ops s of
      Inr s' \<Rightarrow> state_ok E s'
    | Inl p \<Rightarrow> \<exists>i. OpRevertToSnapshot i \<in> set ops \<and> p = InvalidRevision i"
  using assms
proof (induction ops arbitrary: s)
  case (Cons op ops)
  show ?case
  proof (cases "do_op E op s")
    case (Inl p)
    from do_op_panics [OF Cons.prems Inl] Inl show ?thesis by auto
  next
    case (Inr s1)
    from Cons.IH [OF do_op_ok(1) [OF Cons.prems Inr]] Inr show ?thesis by (auto split: sum.splits)
  qed
qed simp

theorem run_ops_panics_only_on_invalid_revision_witness:
  "case run_ops alistEnv (demoOps @ [OpRevertToSnapshot 4]) emptyState of
      Inr s' \<Rightarrow> state_ok alistEnv s'
    | Inl p \<Rightarrow> \<exists>i. OpRevertToSnapshot i \<in> set (demoOps @ [OpRevertToSnapshot 4]) \<and> p = InvalidRevision i"
  by (rule run_ops_panics_only_on_invalid_revision [OF emptyState_ok])

section \<open>Refinement\<close>

text \<open>C8. The state database implements its abstract specification, a map from addresses to accounts:
  each of the operations \<open>Exist\<close>, \<open>Empty\<close>, \<open>GetBalance\<close>, \<open>GetNonce\<close>, \<open>GetCode\<close>, \<open>GetCodeSize\<close>,
  \<open>GetCodeHash\<close>, \<open>GetState\<close>, \<open>GetPDXState\<close>, \<open>HasSuicided\<close>, \<open>AddBalance\<close>, \<open>SubBalance\<close>, \<open>SetBalance\<close>,
  \<open>SetNonce\<close>, \<open>SetCode\<close>, \<open>SetState\<close>, \<open>SetPDXState\<close>, \<open>Suicide\<close>, \<open>CreateAccount\<close>, \<open>AddRefund\<close> and
  \<open>AddPreimage\<close> returns, and its effect on the observable state is exactly the specified update, with
  accounts created on demand, whatever was loaded, cached or deleted before. Snapshots and reverts
  have a property of their own (\<open>RevertToSnapshot_restores\<close>), so has \<open>Finalise\<close>; \<open>Copy\<close>,
  \<open>IntermediateRoot\<close> and \<open>GetSelectiveStateObjectRoot\<close> are not covered here.\<close>

theorem StateDB_refines_spec:
  assumes "state_ok E s" "\<not> snap_op op"
  shows "\<exists>s'. do_op E op s = Inr s' \<and> state_ok E s' \<and> sd_view E s' = abs_op E op (sd_view E s)"
proof -
  have ok: "sd_ok E s" using assms(1) by (simp add: state_ok_def)
  from do_op_step [OF ok assms(2)] obtain s' where s': "do_op E op s = Inr s'" "sd_step E s s'" by blast
  with do_op_view [OF ok assms(2)] sd_step_ok(1) [OF assms(1)] show ?thesis by blast
qed

theorem StateDB_refines_spec_witness:
  "\<exists>s'. do_op alistEnv (OpAddBalance addrA 5) emptyState = Inr s' \<and> state_ok alistEnv s'
     \<and> sd_view alistEnv s' = abs_op alistEnv (OpAddBalance addrA 5) (sd_view alistEnv emptyState)"
  by (rule StateDB_refines_spec [OF emptyState_ok]) simp

text \<open>Every getter returns what the specification says: the value is a projection of the abstract
  account (with Go's zero value for an account that does not exist), and the read changes nothing
  observable although it may load accounts, tries and slots.\<close>

theorem getters_read_view:
  assumes "state_ok E s"
  shows "is_getter E a s 0 av_balance (GetBalance E a s) \<and> is_getter E a s 0 av_nonce (GetNonce E a s)
    \<and> is_getter E a s None av_code (GetCode E a s)
    \<and> is_getter E a s zeroHash (\<lambda>ac. BytesToHash (av_codeHash ac)) (GetCodeHash E a s)
    \<and> is_getter E a s zeroHash (\<lambda>ac. av_storage ac k) (GetState E a k s)
    \<and> is_getter E a s [] (\<lambda>ac. av_pdx ac k) (GetPDXState E a k s)
    \<and> is_getter E a s False av_suicided (HasSuicided E a s)
    \<and> is_getter E a s False (\<lambda>_. True) (Exist E a s)
    \<and> is_getter E a s True (acct_empty E) (Empty E a s)"
  using assms by (simp add: state_ok_def getters)

theorem getters_read_view_witness:
  "is_getter alistEnv addrA emptyState 0 av_balance (GetBalance alistEnv addrA emptyState)"
  using getters_read_view [OF emptyState_ok, of addrA keyK] by blast

section \<open>Dirty accounts\<close>

text \<open>C38. After any sequence of the operations of \<open>state_op\<close> on a fresh state, snapshots and reverts
  included, the journal marks an account dirty exactly if some entry of the journal that has not been
  reverted names it, and counts those entries; the account \<open>ripemd\<close> alone may stay marked after its
  entries are reverted. The entry of a \<open>CreateAccount\<close> over an existing account (\<open>resetObjectChange\<close>),
  like those of the refund and of preimages, names no account: such a change alone leaves the account
  unmarked, and \<open>Finalise\<close> does not write it.\<close>

theorem dirties_count_unreverted:
  assumes "StateDB_New E root = Inr s0" "run_ops E ops s0 = Inr s"
  shows "(a \<noteq> ripemd \<longrightarrow> map_of (j_dirties (sd_journal s)) a = countsOf (dirtyEntries a (j_entries (sd_journal s))))
    \<and> (dirtyEntries ripemd (j_entries (sd_journal s)) \<noteq> 0 \<longrightarrow> map_of (j_dirties (sd_journal s)) ripemd \<noteq> None)"
proof -
  have "dirty_ok (sd_journal s0)"
    using assms(1) by (auto simp: StateDB_New_def emptyStateDB_def newJournal_dirty split: sum.splits)
  from run_ops_dirty [OF assms(2) this] show ?thesis by (auto simp: dirty_ok_def counts_def)
qed

theorem dirties_count_unreverted_witness:
  "\<exists>s. run_ops alistEnv (OpSnapshot # demoOps) emptyState = Inr s
     \<and> map_of (j_dirties (sd_journal s)) addrA = countsOf (dirtyEntries addrA (j_entries (sd_journal s)))"
proof -
  have n: "\<not> isl (run_ops alistEnv (OpSnapshot # demoOps) emptyState)" by code_simp
  then obtain s where s: "run_ops alistEnv (OpSnapshot # demoOps) emptyState = Inr s"
    by (cases "run_ops alistEnv (OpSnapshot # demoOps) emptyState") auto
  have "StateDB_New alistEnv zeroHash = Inr emptyState" by (simp add: StateDB_New_def alistEnv_def emptyState_def)
  moreover have "addrA \<noteq> ripemd" by code_simp
  ultimately show ?thesis using dirties_count_unreverted [of alistEnv zeroHash emptyState _ s addrA] s by blast
qed

text \<open>That exception makes \<open>Finalise\<close> panic: touching \<open>ripemd\<close> with a zero transfer and reverting the
  touch leaves the account dirty but absent, and \<open>Finalise\<close> dereferences the nil object, where
  the commented-out code skipped it.\<close>

theorem Finalise_panics_after_reverted_touch:
  "(case run_ops alistEnv [OpSnapshot, OpAddBalance ripemd 0, OpRevertToSnapshot 0] emptyState of
      Inl p \<Rightarrow> Inl p | Inr s \<Rightarrow> map_sum id (\<lambda>_. ()) (Finalise alistEnv True s)) = Inl NilDeref"
  by code_simp

section \<open>Writing back\<close>

lemma alistEnv_laws: "env_laws alistEnv"
  by (simp add: env_laws_def alistEnv_def)

lemma fresh_getters:
  "fst (GetBalance E a (NewCopy s)) = (case trieObj E (sd_trie s) a of None \<Rightarrow> 0 | Some obj \<Rightarrow> ac_Balance (so_data obj))"
  "fst (GetNonce E a (NewCopy s)) = (case trieObj E (sd_trie s) a of None \<Rightarrow> 0 | Some obj \<Rightarrow> ac_Nonce (so_data obj))"
  "fst (GetCodeHash E a (NewCopy s)) = (case trieObj E (sd_trie s) a of None \<Rightarrow> zeroHash | Some obj \<Rightarrow> BytesToHash (ac_CodeHash (so_data obj)))"
  "fst (Exist E a (NewCopy s)) = (trieObj E (sd_trie s) a \<noteq> None)"
proof -
  have "getStateObject E a (NewCopy s) = (trieObj E (sd_trie s) a, snd (getStateObject E a (NewCopy s)))"
    by (subst getStateObject_eq(1)) (simp add: objOf_def NewCopy_def emptyStateDB_def)
  then obtain s1 where "getStateObject E a (NewCopy s) = (trieObj E (sd_trie s) a, s1)" by blast
  then show "fst (GetBalance E a (NewCopy s)) = (case trieObj E (sd_trie s) a of None \<Rightarrow> 0 | Some obj \<Rightarrow> ac_Balance (so_data obj))"
    "fst (GetNonce E a (NewCopy s)) = (case trieObj E (sd_trie s) a of None \<Rightarrow> 0 | Some obj \<Rightarrow> ac_Nonce (so_data obj))"
    "fst (GetCodeHash E a (NewCopy s)) = (case trieObj E (sd_trie s) a of None \<Rightarrow> zeroHash | Some obj \<Rightarrow> BytesToHash (ac_CodeHash (so_data obj)))"
    "fst (Exist E a (NewCopy s)) = (trieObj E (sd_trie s) a \<noteq> None)"
    by (simp_all add: GetBalance_def GetNonce_def GetCodeHash_def Exist_def)
qed

definition dirtyAddrs :: "'tr StateDB \<Rightarrow> Address set" where
  "dirtyAddrs s = fst ` set (j_dirties (sd_journal s))"

definition storageRoot :: "'tr env \<Rightarrow> Address \<Rightarrow> 'tr StateDB \<Rightarrow> Hash option" where
  "storageRoot E a s = map_option (\<lambda>obj. ac_Root (so_data obj)) (fst (getStateObject E a s))"

lemma fresh_root: "storageRoot E a (NewCopy s) = map_option (\<lambda>obj. ac_Root (so_data obj)) (trieObj E (sd_trie s) a)"
  unfolding storageRoot_def
  by (subst getStateObject_eq(1)) (simp add: objOf_def NewCopy_def emptyStateDB_def)

lemma finalAccount_data:
  "\<not> removed E del obj \<Longrightarrow> \<exists>ob. finalAccount E del a obj = Some ob \<and> ac_Balance (so_data ob) = ac_Balance (so_data obj)
     \<and> ac_Nonce (so_data ob) = ac_Nonce (so_data obj) \<and> ac_CodeHash (so_data ob) = ac_CodeHash (so_data obj)
     \<and> ac_Root (so_data ob) = trieHash E (fst (so_updateTrie E obj))"
  using so_updateRoot_fields(4) [of E obj] so_updateRoot_root [of E obj]
  by (auto simp: finalAccount_def newObject_def litOf_def)

text \<open>C9. \<open>Finalise\<close> persists exactly the dirty accounts. Given tries that return what was stored last
  and a journal as its operations leave it (\<open>dirty_ok\<close>), and provided that every dirty account has an
  object in the cache, filed under its own address, with a balance from 0 to \<open>2 ^ 256 - 1\<close> and a code
  hash of 32 bytes (\<open>writable\<close>): \<open>Finalise\<close> succeeds; a new state over the resulting trie reads back
  the balance, the nonce, the code hash and the storage root of every dirty account, the root being
  the hash of the account's storage trie with its dirty slots written, and finds no account where it
  was suicided or, on request, empty; the trie is unchanged for every other address; the journal, the
  revisions and the refund are cleared. Without the proviso \<open>Finalise\<close> can panic: see
  \<open>Finalise_panics_after_reverted_touch\<close>.\<close>

theorem Finalise_persists_dirty_accounts:
  assumes "env_laws E" "dirty_ok (sd_journal s)"
    "\<forall>a \<in> dirtyAddrs s. \<exists>obj. map_of (sd_stateObjects s) a = Some obj \<and> writable a obj"
  shows "\<exists>s'. Finalise E del s = Inr s'
    \<and> (\<forall>a obj. a \<in> dirtyAddrs s \<and> map_of (sd_stateObjects s) a = Some obj \<longrightarrow>
         (if removed E del obj then \<not> fst (Exist E a (NewCopy s'))
          else fst (GetBalance E a (NewCopy s')) = ac_Balance (so_data obj)
             \<and> fst (GetNonce E a (NewCopy s')) = ac_Nonce (so_data obj)
             \<and> fst (GetCodeHash E a (NewCopy s')) = BytesToHash (ac_CodeHash (so_data obj))
             \<and> storageRoot E a (NewCopy s') = Some (trieHash E (fst (so_updateTrie E obj)))))
    \<and> (\<forall>b. b \<notin> dirtyAddrs s \<longrightarrow> tryGet E (sd_trie s') b = tryGet E (sd_trie s) b)
    \<and> sd_journal s' = newJournal \<and> sd_validRevisions s' = [] \<and> sd_refund s' = 0"
proof -
  let ?as = "iterAddr E (map fst (j_dirties (sd_journal s)))"
  have as: "set ?as = dirtyAddrs s" "distinct ?as"
    using assms(2) by (simp_all add: iter_same [OF assms(1)] dirtyAddrs_def dirty_ok_def)
  obtain s1 where s1: "finaliseAll E del ?as s = Inr s1"
    "\<forall>a \<in> dirtyAddrs s. trieObj E (sd_trie s1) a = finalAccount E del a (the (map_of (sd_stateObjects s) a))"
    "\<forall>b. b \<notin> dirtyAddrs s \<longrightarrow> tryGet E (sd_trie s1) b = tryGet E (sd_trie s) b"
    using finaliseAll_spec [OF assms(1) as(2), of s del] assms(3) unfolding as(1) by blast
  define s' where "s' = clearJournalAndRefund s1"
  have s': "sd_trie s' = sd_trie s1" "sd_journal s' = newJournal" "sd_validRevisions s' = []" "sd_refund s' = 0"
    by (simp_all add: s'_def clearJournalAndRefund_def)
  have "if removed E del obj then \<not> fst (Exist E a (NewCopy s'))
          else fst (GetBalance E a (NewCopy s')) = ac_Balance (so_data obj)
             \<and> fst (GetNonce E a (NewCopy s')) = ac_Nonce (so_data obj)
             \<and> fst (GetCodeHash E a (NewCopy s')) = BytesToHash (ac_CodeHash (so_data obj))
             \<and> storageRoot E a (NewCopy s') = Some (trieHash E (fst (so_updateTrie E obj)))"
    if "a \<in> dirtyAddrs s" "map_of (sd_stateObjects s) a = Some obj" for a obj
  proof -
    have "trieObj E (sd_trie s') a = finalAccount E del a obj" using s1(2) that s'(1) by simp
    then show ?thesis
      using finalAccount_data [of E del obj a] by (auto simp: fresh_getters fresh_root) (simp add: finalAccount_def)
  qed
  moreover have "Finalise E del s = Inr s'" by (simp add: Finalise_def s1(1) s'_def)
  ultimately show ?thesis using s1(3) s' by (intro exI [where x = s']) simp
qed

definition writtenState :: "(bytes \<times> bytes) list StateDB" where
  "writtenState = SetNonce alistEnv addrA 3 (AddBalance alistEnv addrA 5 emptyState)"

lemma writtenState_facts:
  "dirtyAddrs writtenState = {addrA}"
  "\<exists>obj. map_of (sd_stateObjects writtenState) addrA = Some obj \<and> writable addrA obj \<and> ac_Balance (so_data obj) = 5"
  "dirty_ok (sd_journal writtenState)"
proof -
  have "map fst (j_dirties (sd_journal writtenState)) = [addrA]" by code_simp
  then have "set (map fst (j_dirties (sd_journal writtenState))) = {addrA}" by simp
  then show "dirtyAddrs writtenState = {addrA}" by (simp add: dirtyAddrs_def)
  have "map_option (\<lambda>obj. (so_address obj, ac_Balance (so_data obj), length (ac_CodeHash (so_data obj))))
      (map_of (sd_stateObjects writtenState) addrA) = Some (addrA, 5, 32)" by code_simp
  then show "\<exists>obj. map_of (sd_stateObjects writtenState) addrA = Some obj \<and> writable addrA obj \<and> ac_Balance (so_data obj) = 5"
    by (auto simp: writable_def)
  have "run_ops alistEnv [OpAddBalance addrA 5, OpSetNonce addrA 3] emptyState = Inr writtenState"
    by (simp add: writtenState_def)
  then show "dirty_ok (sd_journal writtenState)"
    by (rule run_ops_dirty) (simp add: emptyState_def emptyStateDB_def newJournal_dirty)
qed

theorem Finalise_persists_dirty_accounts_witness:
  "\<exists>s'. Finalise alistEnv True writtenState = Inr s' \<and> fst (GetBalance alistEnv addrA (NewCopy s')) = 5"
proof -
  obtain obj where obj: "map_of (sd_stateObjects writtenState) addrA = Some obj" "writable addrA obj" "ac_Balance (so_data obj) = 5"
    using writtenState_facts(2) by blast
  have "\<forall>a \<in> dirtyAddrs writtenState. \<exists>obj. map_of (sd_stateObjects writtenState) a = Some obj \<and> writable a obj"
    using writtenState_facts(1) obj by auto
  moreover have "\<not> removed alistEnv True obj"
  proof -
    have "map_option (\<lambda>obj. removed alistEnv True obj) (map_of (sd_stateObjects writtenState) addrA) = Some False" by code_simp
    with obj(1) show ?thesis by simp
  qed
  ultimately show ?thesis
    using Finalise_persists_dirty_accounts [OF alistEnv_laws writtenState_facts(3), of True] obj writtenState_facts(1) by force
qed

text \<open>C10. \<open>updateTrie\<close> writes the storage so that it reads back, given tries that return what was stored
  last, dirty storages with one entry per key, and slots of 32 bytes, as the type \<open>common.Hash\<close> has
  them. A dirty entry of the second storage is stored as it is; a dirty slot, stored without its
  leading zeros in RLP form and deleted when zero, is decoded by \<open>GetState\<close> of a new object to the
  same 32 bytes, unless its key is dirty in the second storage too: the two share one trie, and the
  second loop overwrites what the first has stored. Every other key of the trie keeps its value.\<close>

theorem updateTrie_reads_back:
  assumes "env_laws E" "distinct (map fst (so_dirtyStorage so))" "storageFits (so_dirtyStorage so)"
    "distinct (map fst (so_pdxDirtyStorage so))"
  shows "case map_of (so_pdxDirtyStorage so) k of
      Some w \<Rightarrow> pdxOf (tryGet E (fst (so_updateTrie E so)) k) = w
    | None \<Rightarrow> (case map_of (so_dirtyStorage so) k of
                 Some v \<Rightarrow> slotOf (tryGet E (fst (so_updateTrie E so)) k) = v
               | None \<Rightarrow> tryGet E (fst (so_updateTrie E so)) k = tryGet E (so_trieOf E so) k)"
proof -
  note sp = so_updateTrie_spec [OF assms(1-4) prod.collapse [symmetric], of k]
  have "length v = 32" if "map_of (so_dirtyStorage so) k = Some v" for v
    using assms(3) map_of_SomeD [OF that] by (force simp: storageFits_def)
  then show ?thesis by (auto simp: sp slotOf_slotEnc pdxOf_def split: option.splits)
qed

definition storedObject :: "(bytes \<times> bytes) list stateObject" where
  "storedObject = so_setPDXState addrA [1, 2, 3] (so_setState keyK (BytesToHash [9]) (newObject alistEnv addrA zeroAccount))"

theorem updateTrie_reads_back_witness:
  "slotOf (tryGet alistEnv (fst (so_updateTrie alistEnv storedObject)) keyK) = BytesToHash [9]"
proof -
  have f: "so_dirtyStorage storedObject = [(keyK, BytesToHash [9])]" "so_pdxDirtyStorage storedObject = [(addrA, [1, 2, 3])]"
    by (simp_all add: storedObject_def so_setState_def so_setPDXState_def newObject_def)
  have "addrA \<noteq> keyK" by code_simp
  then show ?thesis
    using updateTrie_reads_back [OF alistEnv_laws, of storedObject keyK] by (auto simp: f storageFits_def)
qed

lemma finaliseOne_others:
  assumes "finaliseOne E del b s = Inr s'" "\<forall>c obj. map_of (sd_stateObjects s) c = Some obj \<longrightarrow> so_address obj = c"
  shows "\<forall>c obj. map_of (sd_stateObjects s') c = Some obj \<longrightarrow> so_address obj = c"
    "a \<noteq> b \<Longrightarrow> map_of (sd_stateObjects s) a = Some ob \<Longrightarrow> map_of (sd_stateObjects s') a = Some ob"
proof -
  obtain o1 s1 where g: "(case map_of (sd_stateObjects s) b of Some obj \<Rightarrow> (Some obj, s) | None \<Rightarrow> getStateObject E b s) = (o1, s1)"
    by fastforce
  have s1: "\<forall>c obj. map_of (sd_stateObjects s1) c = Some obj \<longrightarrow> so_address obj = c"
    "\<And>a ob. map_of (sd_stateObjects s) a = Some ob \<Longrightarrow> map_of (sd_stateObjects s1) a = Some ob"
    "\<And>obj. o1 = Some obj \<Longrightarrow> so_address obj = b"
    using g assms(2) getStateObject_eq [of E b s]
    by (auto simp: objOf_def trieObj_SomeD split: option.splits if_splits)
  obtain obj where obj: "o1 = Some obj" using assms(1) g by (auto simp: finaliseOne_def split: option.splits)
  show "\<forall>c obj. map_of (sd_stateObjects s') c = Some obj \<longrightarrow> so_address obj = c"
    "a \<noteq> b \<Longrightarrow> map_of (sd_stateObjects s) a = Some ob \<Longrightarrow> map_of (sd_stateObjects s') a = Some ob"
    using assms(1) g s1 obj
    by (auto simp: finaliseOne_def deleteStateObject_def updateStateObject_def Let_def so_updateRoot_fields
        split: if_splits sum.splits prod.splits)
qed

lemma finaliseAll_negative:
  assumes "a \<in> set as" "map_of (sd_stateObjects s) a = Some obj" "ac_Balance (so_data obj) < 0" "\<not> removed E del obj"
    "\<forall>c obj. map_of (sd_stateObjects s) c = Some obj \<longrightarrow> so_address obj = c"
  shows "\<exists>p. finaliseAll E del as s = Inl p"
  using assms(1,2,5)
proof (induction as arbitrary: s)
  case (Cons b as)
  show ?case
  proof (cases "b = a")
    case True
    have "ac_Balance (so_data (so_updateRoot E obj)) < 0" using so_updateRoot_fields(4) [of E obj] assms(3) by auto
    then have "finaliseOne E del a s = Inl (CantEncode (so_address (so_updateRoot E obj)) negativeBigInt)"
      using Cons.prems(2) assms(4)
      by (auto simp: finaliseOne_def removed_def updateStateObject_def Let_def so_EncodeRLP_negative)
    with True show ?thesis by simp
  next
    case False
    show ?thesis
    proof (cases "finaliseOne E del b s")
      case (Inr s1)
      from Cons.IH [of s1] Cons.prems finaliseOne_others(1) [OF Inr Cons.prems(3)]
        finaliseOne_others(2) [OF Inr Cons.prems(3), of a obj] False Inr show ?thesis by auto
    qed simp
  qed
qed simp

text \<open>A negative balance, which \<open>SubBalance\<close> does not refuse, stops \<open>Finalise\<close>: once some dirty
  account that is kept has a negative balance, \<open>Finalise\<close> never returns.\<close>

theorem Finalise_negative_balance_panics:
  assumes "env_laws E" "state_ok E s" "a \<in> dirtyAddrs s" "map_of (sd_stateObjects s) a = Some obj"
    "ac_Balance (so_data obj) < 0" "\<not> removed E del obj"
  shows "\<exists>p. Finalise E del s = Inl p"
proof -
  have "\<forall>c obj. map_of (sd_stateObjects s) c = Some obj \<longrightarrow> so_address obj = c"
    using assms(2) so_ok_address by (fastforce simp: state_ok_def sd_ok_def live_ok_def)
  moreover have "a \<in> set (iterAddr E (map fst (j_dirties (sd_journal s))))"
    using assms(1,3) by (simp add: iter_same dirtyAddrs_def)
  ultimately obtain p where "finaliseAll E del (iterAddr E (map fst (j_dirties (sd_journal s)))) s = Inl p"
    using finaliseAll_negative assms(4-6) by blast
  then show ?thesis by (simp add: Finalise_def)
qed

definition overdrawnState :: "(bytes \<times> bytes) list StateDB" where
  "overdrawnState = SubBalance alistEnv addrA 1 emptyState"

theorem Finalise_negative_balance_panics_witness:
  "\<exists>p. Finalise alistEnv True overdrawnState = Inl p"
proof -
  have "map fst (j_dirties (sd_journal overdrawnState)) = [addrA]" by code_simp
  then have "set (map fst (j_dirties (sd_journal overdrawnState))) = {addrA}" by simp
  then have d: "addrA \<in> dirtyAddrs overdrawnState" by (simp add: dirtyAddrs_def)
  have "map_option (\<lambda>obj. (ac_Balance (so_data obj), removed alistEnv True obj))
      (map_of (sd_stateObjects overdrawnState) addrA) = Some (-1, False)" by code_simp
  then obtain obj where obj: "map_of (sd_stateObjects overdrawnState) addrA = Some obj" "ac_Balance (so_data obj) = -1"
    "\<not> removed alistEnv True obj" by auto
  have "do_op alistEnv (OpSubBalance addrA 1) emptyState = Inr overdrawnState" by (simp add: overdrawnState_def)
  then have "state_ok alistEnv overdrawnState" by (rule do_op_ok(1) [OF emptyState_ok])
  from Finalise_negative_balance_panics [OF alistEnv_laws this d obj(1) _ obj(3)] obj(2) show ?thesis by simp
qed

definition storedAccount :: Account where
  "storedAccount = \<lparr>ac_Nonce = 3, ac_Balance = 5, ac_Root = zeroHash, ac_CodeHash = emptyCodeHash alistEnv\<rparr>"

definition storedState :: "(bytes \<times> bytes) list StateDB" where
  "storedState = emptyStateDB [(addrA, encAccount storedAccount)]"

lemma storedState_trieObj:
  "trieObj alistEnv [(addrA, encAccount storedAccount)] b =
     (if b = addrA then Some (newObject alistEnv addrA (litOf storedAccount)) else None)"
proof -
  have "acct_fits storedAccount"
    by (simp add: acct_fits_def storedAccount_def zeroHash_def HashLength_def emptyCodeHash_def alistEnv_def)
  then show ?thesis using trieObj_encoded [of storedAccount alistEnv "[(addrA, encAccount storedAccount)]" addrA]
    by (auto simp: alistEnv_def) (simp add: trieObj_def)
qed

lemma storedState_ok: "state_ok alistEnv storedState"
proof -
  have "length (ac_CodeHash storedAccount) = HashLength"
    by (simp add: storedAccount_def emptyCodeHash_def env_ok_keccak alistEnv_env_ok)
  then have "trie_ok alistEnv [(addrA, encAccount storedAccount)]"
    by (auto simp: trie_ok_def storedState_trieObj newObject_def litOf_def split: if_splits)
  then show ?thesis
    by (simp add: state_ok_def sd_ok_def alistEnv_env_ok live_ok_def revs_ok_def storedState_def emptyStateDB_def newJournal_def)
qed

text \<open>Replacing an account is lost on \<open>Finalise\<close>: \<open>CreateAccount\<close> over an existing account journals a
  \<open>resetObjectChange\<close>, which dirties no address, so with no other change \<open>Finalise\<close> leaves the old
  account in the trie although the state shows the new one.\<close>

theorem CreateAccount_over_existing_not_written:
  assumes "env_laws E" "state_ok E s" "v_accounts (sd_view E s) a = Some ac" "j_dirties (sd_journal s) = []"
  shows "v_accounts (sd_view E (CreateAccount E a s)) a = Some ((emptyAcct E a)\<lparr>av_balance := av_balance ac\<rparr>)
    \<and> (\<exists>s'. Finalise E del (CreateAccount E a s) = Inr s' \<and> sd_trie s' = sd_trie s)"
proof -
  have ok: "sd_ok E s" using assms(2) by (simp add: state_ok_def)
  obtain p s1 where g: "getStateObject E a s = (Some p, s1)"
    using assms(3) by (metis getStateObject_eq(1) map_option_eq_Some view_accounts)
  note l = load [OF g ok]
  have it: "iterAddr E [] = []" using iter_same(1) [OF assms(1), of "[]"] by simp
  have "j_dirties (sd_journal (CreateAccount E a s)) = []" "sd_trie (CreateAccount E a s) = sd_trie s"
    using l(2) assms(4)
    by (simp_all add: CreateAccount_def createObject_def g Let_def appendEntry_def j_append_def same_state_def sd_rest_eq
        setStateObject_def)
  moreover have "v_accounts (sd_view E (CreateAccount E a s)) a = Some ((emptyAcct E a)\<lparr>av_balance := av_balance ac\<rparr>)"
    using assms(3) by (simp add: CreateAccount_view [OF ok] upd_acct_def acctOr_def)
  ultimately show ?thesis by (simp add: Finalise_def it clearJournalAndRefund_def)
qed

theorem CreateAccount_over_existing_not_written_witness:
  "\<exists>s'. Finalise alistEnv True (CreateAccount alistEnv addrA storedState) = Inr s' \<and> sd_trie s' = sd_trie storedState"
proof -
  have "v_accounts (sd_view alistEnv storedState) addrA = Some (so_view alistEnv (newObject alistEnv addrA (litOf storedAccount)))"
    by (simp add: view_accounts objOf_def storedState_def emptyStateDB_def storedState_trieObj)
  moreover have "j_dirties (sd_journal storedState) = []" by (simp add: storedState_def emptyStateDB_def newJournal_def)
  ultimately show ?thesis using CreateAccount_over_existing_not_written [OF alistEnv_laws storedState_ok] by blast
qed

end
