(* ===== verification/MultiState.thy ===== *)
theory MultiState
  imports StateDB
begin

text \<open>
  The state database for several goroutines (\<open>core/state/multi_statedb.go\<close>).

  Objects and the trie are shared here: an object that one \<open>MStateDB\<close> loaded is reached by the
  others through the context, and \<open>createObject\<close> replaces the pointer in the context while other
  \<open>MStateDB\<close>s may still hold the old one. So the model has a heap: \<open>mc_heap\<close> is the list of
  allocated objects, a pointer is an index into it, and the maps hold pointers. The mutexes of the
  accounts are the list \<open>mc_mutexes\<close> of their states, again reached by pointers. The locks
  \<open>mLock\<close>, \<open>stLock\<close> and \<open>trieLock\<close> make the code between them atomic, which is what a step is here.
\<close>

type_synonym ptr = nat

record 'tr MContext =
  mc_lockedAccount :: "(Address \<times> Hash) list"
  mc_accountLock :: "(Address \<times> ptr) list"
  mc_txLockQueue :: "(Hash \<times> Address list) list"
  mc_executedTxs :: "Hash list"
  mc_stateObjects :: "(Address \<times> ptr) list"
  mc_mutexes :: "bool list"
  mc_heap :: "'tr stateObject list"
  mc_trie :: 'tr

text \<open>
  The \<open>stdb\<close> of an \<open>MStateDB\<close>. An entry \<open>resetObjectChange\<close> of its journal holds a pointer, so
  it is a constructor of its own.
\<close>

datatype 'tr mentry = MReset ptr | MEntry "'tr journalEntry"

record 'tr MStateDB =
  md_stateObjects :: "(Address \<times> ptr) list"
  md_stateObjectsDirty :: "Address list"
  md_dbErr :: "state_error option"
  md_refund :: u64
  md_thash :: Hash
  md_bhash :: Hash
  md_txIndex :: int
  md_preimages :: "(Hash \<times> bytes) list"
  md_entries :: "'tr mentry list"
  md_dirties :: "(Address \<times> int) list"
  md_validRevisions :: "revision list"
  md_nextRevisionId :: nat

type_synonym 'tr mstate = "'tr MStateDB \<times> 'tr MContext"

definition newMContext :: "'tr \<Rightarrow> 'tr MContext" where
  "newMContext t =
     \<lparr>mc_lockedAccount = [], mc_accountLock = [], mc_txLockQueue = [], mc_executedTxs = [], mc_stateObjects = [],
      mc_mutexes = [], mc_heap = [], mc_trie = t\<rparr>"

definition newStdb :: "'tr MStateDB" where
  "newStdb =
     \<lparr>md_stateObjects = [], md_stateObjectsDirty = [], md_dbErr = None, md_refund = 0, md_thash = zeroHash,
      md_bhash = zeroHash, md_txIndex = 0, md_preimages = [], md_entries = [], md_dirties = [],
      md_validRevisions = [], md_nextRevisionId = 0\<rparr>"

datatype mstate_error = InvalidGoroutineNumber

definition NewMStateDB :: "'tr StateDB \<Rightarrow> int \<Rightarrow> mstate_error + 'tr MStateDB list \<times> 'tr MContext" where
  "NewMStateDB st num =
     (if num < 1 then Inl InvalidGoroutineNumber
      else Inr (replicate (nat num) newStdb, newMContext (sd_trie st)))"

section \<open>Locking accounts\<close>

text \<open>Reading a Go map: a missing key gives the zero value.\<close>

definition lockedBy :: "'tr MContext \<Rightarrow> Address \<Rightarrow> Hash" where
  "lockedBy c a = (case map_of (mc_lockedAccount c) a of None \<Rightarrow> zeroHash | Some h \<Rightarrow> h)"

definition queueOf :: "'tr MContext \<Rightarrow> Hash \<Rightarrow> Address list" where
  "queueOf c tx = (case map_of (mc_txLockQueue c) tx of None \<Rightarrow> [] | Some q \<Rightarrow> q)"

text \<open>
  The loop of \<open>_checkDeadLock\<close>, with fuel because nothing in its text bounds the number of rounds;
  running out of fuel is \<open>None\<close>.
\<close>

fun checkDeadLock_loop :: "nat \<Rightarrow> 'tr MContext \<Rightarrow> Hash \<Rightarrow> Address \<Rightarrow> Address list \<Rightarrow> Address \<Rightarrow> bool option" where
  "checkDeadLock_loop 0 c tx lockingAddr lockQueue addr = None"
| "checkDeadLock_loop (Suc n) c tx lockingAddr lockQueue addr =
     (if tx \<noteq> lockedBy c addr
      then (if lockingAddr \<in> set lockQueue then Some True
            else (let addr' = lockingAddr; tx' = lockedBy c lockingAddr; txQueue = queueOf c tx'
                  in if length txQueue > 1 then checkDeadLock_loop n c tx' (last txQueue) lockQueue addr'
                     else Some False))
      else Some False)"

definition checkDeadLock :: "nat \<Rightarrow> 'tr MContext \<Rightarrow> Address \<Rightarrow> Address list \<Rightarrow> Address \<Rightarrow> bool option" where
  "checkDeadLock fuel c lockingAddr lockQueue addr =
     checkDeadLock_loop fuel c (lockedBy c lockingAddr) lockingAddr lockQueue addr"

text \<open>
  \<open>requestAndLock\<close> up to the point where it returns, panics or waits for the mutex of the account;
  two rounds of the loop of the deadlock check are enough (see below).
\<close>

datatype 'tr lock_result = Locked "'tr MContext" | DeadLock | Waits "ptr option" "'tr MContext"

definition requestAndLock :: "Address \<Rightarrow> Hash \<Rightarrow> 'tr MContext \<Rightarrow> 'tr lock_result" where
  "requestAndLock addr thash c =
     (if lockedBy c addr = thash then Locked c
      else if lockedBy c addr = zeroHash
      then Locked (c\<lparr>mc_lockedAccount := AList.update addr thash (mc_lockedAccount c),
                     mc_accountLock := AList.update addr (length (mc_mutexes c)) (mc_accountLock c),
                     mc_mutexes := mc_mutexes c @ [True],
                     mc_txLockQueue := AList.update thash (queueOf c thash @ [addr]) (mc_txLockQueue c)\<rparr>)
      else (let tx1 = lockedBy c addr; tx1_LQ = queueOf c tx1; tx2_LQ = queueOf c thash
            in if length tx1_LQ > 1 \<and> length tx2_LQ > 0 \<and> checkDeadLock 2 c (last tx1_LQ) tx2_LQ addr = Some True
               then DeadLock
               else Waits (map_of (mc_accountLock c) addr)
                      (c\<lparr>mc_txLockQueue := AList.update thash (queueOf c thash @ [addr]) (mc_txLockQueue c)\<rparr>)))"

text \<open>The two steps after the wait: taking the mutex, and entering the transaction as the owner.\<close>

definition takeMutex :: "ptr \<Rightarrow> 'tr MContext \<Rightarrow> 'tr MContext" where
  "takeMutex m c = c\<lparr>mc_mutexes := (mc_mutexes c)[m := True]\<rparr>"

definition setOwner :: "Address \<Rightarrow> Hash \<Rightarrow> 'tr MContext \<Rightarrow> 'tr MContext" where
  "setOwner addr thash c = c\<lparr>mc_lockedAccount := AList.update addr thash (mc_lockedAccount c)\<rparr>"

text \<open>
  \<open>UnLockAccounts\<close>: the part under \<open>mLock\<close>, which returns the mutexes to unlock, and the unlocking of
  one of them, a failure of the Go runtime when it is nil or not locked. A nil pointer is \<open>None\<close>.
\<close>

definition UnLockAccounts :: "bool \<Rightarrow> Hash \<Rightarrow> 'tr MContext \<Rightarrow> ptr option list \<times> 'tr MContext" where
  "UnLockAccounts addTx thash c =
     (map (map_of (mc_accountLock c)) (queueOf c thash),
      c\<lparr>mc_executedTxs := (if addTx then mc_executedTxs c @ [thash] else mc_executedTxs c),
        mc_txLockQueue := AList.delete thash (mc_txLockQueue c)\<rparr>)"

definition unlockMutex :: "ptr option \<Rightarrow> 'tr MContext \<Rightarrow> 'tr MContext option" where
  "unlockMutex al c =
     (case al of
        None \<Rightarrow> None
      | Some m \<Rightarrow>
          if m < length (mc_mutexes c) \<and> mc_mutexes c ! m then Some (c\<lparr>mc_mutexes := (mc_mutexes c)[m := False]\<rparr>)
          else None)"

definition GetTxs :: "'tr MContext \<Rightarrow> Hash list" where
  "GetTxs c = mc_executedTxs c"

section \<open>Objects\<close>

text \<open>A panic of a method, or the point where it waits for a lock.\<close>

datatype m_panic = MPanic state_panic | ErrMStateDBDeadLock | Blocked

definition alloc :: "'tr stateObject \<Rightarrow> 'tr MContext \<Rightarrow> ptr \<times> 'tr MContext" where
  "alloc obj c = (length (mc_heap c), c\<lparr>mc_heap := mc_heap c @ [obj]\<rparr>)"

definition writePtr :: "ptr \<Rightarrow> 'tr stateObject \<Rightarrow> 'tr MContext \<Rightarrow> 'tr MContext" where
  "writePtr p obj c = c\<lparr>mc_heap := (mc_heap c)[p := obj]\<rparr>"

definition m_setError :: "state_error option \<Rightarrow> 'tr MStateDB \<Rightarrow> 'tr MStateDB" where
  "m_setError err d = (if md_dbErr d = None then d\<lparr>md_dbErr := err\<rparr> else d)"

definition stdb_setStateObject :: "Address \<Rightarrow> ptr \<Rightarrow> 'tr MStateDB \<Rightarrow> 'tr MStateDB" where
  "stdb_setStateObject a p d = d\<lparr>md_stateObjects := AList.update a p (md_stateObjects d)\<rparr>"

definition m_setStateObject :: "Address \<Rightarrow> ptr \<Rightarrow> 'tr MContext \<Rightarrow> 'tr MContext" where
  "m_setStateObject a p c = c\<lparr>mc_stateObjects := AList.update a p (mc_stateObjects c)\<rparr>"

text \<open>Loading an account from the trie, shared by \<open>MStateDB.getStateObject\<close> and \<open>StateDB.getStateObject\<close>.\<close>

definition loadAccount ::
  "('tr, 'z) env_scheme \<Rightarrow> Address \<Rightarrow> 'tr mstate \<Rightarrow> 'tr stateObject option \<times> 'tr mstate" where
  "loadAccount E addr s =
     (case s of (d, c) \<Rightarrow>
        (case tryGet E (mc_trie c) addr of (enc, err) \<Rightarrow>
           if length enc = 0 then (None, m_setError err d, c)
           else (case DecodeBytes enc (PointerTo accountType) of
                   Inl e \<Rightarrow> (None, d, c)
                 | Inr v \<Rightarrow> (map_option (newObject E addr) (accountOf v), d, c))))"

definition m_getStateObject :: "('tr, 'z) env_scheme \<Rightarrow> Address \<Rightarrow> 'tr mstate \<Rightarrow> ptr option \<times> 'tr mstate" where
  "m_getStateObject E addr s =
     (case s of (d, c) \<Rightarrow>
        (case map_of (md_stateObjects d) addr of
           Some p \<Rightarrow> (if so_deleted (mc_heap c ! p) then None else Some p, s)
         | None \<Rightarrow>
             (case map_of (mc_stateObjects c) addr of
                Some p \<Rightarrow> (if so_deleted (mc_heap c ! p) then None else Some p, stdb_setStateObject addr p d, c)
              | None \<Rightarrow>
                  (case loadAccount E addr s of (obj, d1, c1) \<Rightarrow>
                     (case obj of
                        None \<Rightarrow> (None, d1, c1)
                      | Some ob \<Rightarrow>
                          (case alloc ob c1 of (p, c2) \<Rightarrow>
                             (Some p, stdb_setStateObject addr p d1, m_setStateObject addr p c2)))))))"

text \<open>\<open>StateDB.getStateObject\<close> on the \<open>stdb\<close>, which the journal entries call when they are reverted.\<close>

definition stdb_getStateObject :: "('tr, 'z) env_scheme \<Rightarrow> Address \<Rightarrow> 'tr mstate \<Rightarrow> ptr option \<times> 'tr mstate" where
  "stdb_getStateObject E addr s =
     (case s of (d, c) \<Rightarrow>
        (case map_of (md_stateObjects d) addr of
           Some p \<Rightarrow> (if so_deleted (mc_heap c ! p) then None else Some p, s)
         | None \<Rightarrow>
             (case loadAccount E addr s of (obj, d1, c1) \<Rightarrow>
                (case obj of
                   None \<Rightarrow> (None, d1, c1)
                 | Some ob \<Rightarrow> (case alloc ob c1 of (p, c2) \<Rightarrow> (Some p, stdb_setStateObject addr p d1, c2))))))"

text \<open>
  A method of an object on the object a pointer refers to: the entries it appends to the journal
  and its dirty counters are those of the \<open>stdb\<close>.
\<close>

definition callMethod ::
  "('tr stateObject \<Rightarrow> 'tr journal \<Rightarrow> 'tr stateObject \<times> 'tr journal) \<Rightarrow> ptr \<Rightarrow> 'tr mstate \<Rightarrow> 'tr mstate" where
  "callMethod f p s =
     (case s of (d, c) \<Rightarrow>
        (case f (mc_heap c ! p) \<lparr>j_entries = [], j_dirties = md_dirties d\<rparr> of (obj, j) \<Rightarrow>
           (d\<lparr>md_entries := md_entries d @ map MEntry (j_entries j), md_dirties := j_dirties j\<rparr>, writePtr p obj c)))"

definition m_append :: "'tr mentry \<Rightarrow> 'tr MStateDB \<Rightarrow> 'tr MStateDB" where
  "m_append e d =
     (let d1 = d\<lparr>md_entries := md_entries d @ [e]\<rparr> in
      case (case e of MReset _ \<Rightarrow> None | MEntry e' \<Rightarrow> dirtied e') of
        None \<Rightarrow> d1
      | Some a \<Rightarrow> d1\<lparr>md_dirties := AList.update a (dirties_of (md_dirties d) a + 1) (md_dirties d)\<rparr>)"

definition m_createObject :: "('tr, 'z) env_scheme \<Rightarrow> Address \<Rightarrow> 'tr mstate \<Rightarrow> ptr \<times> ptr option \<times> 'tr mstate" where
  "m_createObject E addr s =
     (case m_getStateObject E addr s of (prev, d1, c1) \<Rightarrow>
        (case alloc (so_setNonce 0 (newObject E addr zeroAccount)) c1 of (p, c2) \<Rightarrow>
           (let d2 = (case prev of
                        None \<Rightarrow> m_append (MEntry (createObjectChange addr)) d1
                      | Some q \<Rightarrow> m_append (MReset q) d1)
            in (p, prev, stdb_setStateObject addr p d2, m_setStateObject addr p c2))))"

text \<open>\<open>requestAndLock\<close> at the start of a method; where it waits the method is called again after the wait.\<close>

definition m_lock :: "Address \<Rightarrow> 'tr mstate \<Rightarrow> m_panic + 'tr mstate" where
  "m_lock addr s =
     (case s of (d, c) \<Rightarrow>
        (case requestAndLock addr (md_thash d) c of
           Locked c1 \<Rightarrow> Inr (d, c1)
         | DeadLock \<Rightarrow> Inl ErrMStateDBDeadLock
         | Waits _ _ \<Rightarrow> Inl Blocked))"

definition m_GetOrNewStateObject :: "('tr, 'z) env_scheme \<Rightarrow> Address \<Rightarrow> 'tr mstate \<Rightarrow> m_panic + ptr \<times> 'tr mstate" where
  "m_GetOrNewStateObject E addr s =
     (case m_lock addr s of
        Inl e \<Rightarrow> Inl e
      | Inr s1 \<Rightarrow>
          (case m_getStateObject E addr s1 of (so, s2) \<Rightarrow>
             (case so of
                Some p \<Rightarrow>
                  if so_deleted (mc_heap (snd s2) ! p)
                  then (case m_createObject E addr s2 of (p', _, s3) \<Rightarrow> Inr (p', s3))
                  else Inr (p, s2)
              | None \<Rightarrow> (case m_createObject E addr s2 of (p', _, s3) \<Rightarrow> Inr (p', s3)))))"

section \<open>Getters\<close>

text \<open>The common shape: lock, look the object up, and read it where it exists.\<close>

definition m_read ::
  "('tr, 'z) env_scheme \<Rightarrow> Address \<Rightarrow> 'b \<Rightarrow> (ptr \<Rightarrow> 'tr mstate \<Rightarrow> 'b \<times> 'tr mstate) \<Rightarrow> 'tr mstate \<Rightarrow> m_panic + 'b \<times> 'tr mstate" where
  "m_read E addr dflt f s =
     (case m_lock addr s of
        Inl e \<Rightarrow> Inl e
      | Inr s1 \<Rightarrow>
          (case m_getStateObject E addr s1 of (so, s2) \<Rightarrow>
             (case so of None \<Rightarrow> Inr (dflt, s2) | Some p \<Rightarrow> Inr (f p s2))))"

definition readField :: "('tr stateObject \<Rightarrow> 'b) \<Rightarrow> ptr \<Rightarrow> 'tr mstate \<Rightarrow> 'b \<times> 'tr mstate" where
  "readField g p s = (g (mc_heap (snd s) ! p), s)"

definition readMethod :: "('tr stateObject \<Rightarrow> 'b \<times> 'tr stateObject) \<Rightarrow> ptr \<Rightarrow> 'tr mstate \<Rightarrow> 'b \<times> 'tr mstate" where
  "readMethod g p s = (case s of (d, c) \<Rightarrow> (case g (mc_heap c ! p) of (v, obj) \<Rightarrow> (v, d, writePtr p obj c)))"

definition m_Exist :: "('tr, 'z) env_scheme \<Rightarrow> Address \<Rightarrow> 'tr mstate \<Rightarrow> m_panic + bool \<times> 'tr mstate" where
  "m_Exist E addr = m_read E addr False (readField (\<lambda>_. True))"

definition m_Empty :: "('tr, 'z) env_scheme \<Rightarrow> Address \<Rightarrow> 'tr mstate \<Rightarrow> m_panic + bool \<times> 'tr mstate" where
  "m_Empty E addr = m_read E addr True (readField (so_empty E))"

definition m_GetBalance :: "('tr, 'z) env_scheme \<Rightarrow> Address \<Rightarrow> 'tr mstate \<Rightarrow> m_panic + int \<times> 'tr mstate" where
  "m_GetBalance E addr = m_read E addr 0 (readField (\<lambda>obj. ac_Balance (so_data obj)))"

definition m_GetNonce :: "('tr, 'z) env_scheme \<Rightarrow> Address \<Rightarrow> 'tr mstate \<Rightarrow> m_panic + u64 \<times> 'tr mstate" where
  "m_GetNonce E addr = m_read E addr 0 (readField (\<lambda>obj. ac_Nonce (so_data obj)))"

definition m_GetCode :: "('tr, 'z) env_scheme \<Rightarrow> Address \<Rightarrow> 'tr mstate \<Rightarrow> m_panic + bytes option \<times> 'tr mstate" where
  "m_GetCode E addr = m_read E addr None (readMethod (so_Code E))"

definition m_GetCodeSize :: "('tr, 'z) env_scheme \<Rightarrow> Address \<Rightarrow> 'tr mstate \<Rightarrow> m_panic + nat \<times> 'tr mstate" where
  "m_GetCodeSize E addr =
     m_read E addr 0 (\<lambda>p s. case s of (d, c) \<Rightarrow>
       (let obj = mc_heap c ! p in
        case so_code obj of
          Some code \<Rightarrow> (length code, d, c)
        | None \<Rightarrow>
            (case contractCodeSize E (so_addrHash obj) (BytesToHash (ac_CodeHash (so_data obj))) of (n, err) \<Rightarrow>
               (n, if err = None then d else m_setError err d, c))))"

definition m_GetCodeHash :: "('tr, 'z) env_scheme \<Rightarrow> Address \<Rightarrow> 'tr mstate \<Rightarrow> m_panic + Hash \<times> 'tr mstate" where
  "m_GetCodeHash E addr = m_read E addr zeroHash (readField (\<lambda>obj. BytesToHash (ac_CodeHash (so_data obj))))"

definition m_GetState :: "('tr, 'z) env_scheme \<Rightarrow> Address \<Rightarrow> Hash \<Rightarrow> 'tr mstate \<Rightarrow> m_panic + Hash \<times> 'tr mstate" where
  "m_GetState E addr key = m_read E addr zeroHash (readMethod (so_GetState E key))"

definition m_GetPDXState :: "('tr, 'z) env_scheme \<Rightarrow> Address \<Rightarrow> Hash \<Rightarrow> 'tr mstate \<Rightarrow> m_panic + bytes \<times> 'tr mstate" where
  "m_GetPDXState E addr key = m_read E addr [] (readMethod (so_GetPDXState E key))"

definition m_StorageTrie :: "('tr, 'z) env_scheme \<Rightarrow> Address \<Rightarrow> 'tr mstate \<Rightarrow> m_panic + 'tr option \<times> 'tr mstate" where
  "m_StorageTrie E addr = m_read E addr None (readField (\<lambda>obj. Some (fst (so_updateTrie E (so_deepCopy E obj)))))"

definition m_HasSuicided :: "('tr, 'z) env_scheme \<Rightarrow> Address \<Rightarrow> 'tr mstate \<Rightarrow> m_panic + bool \<times> 'tr mstate" where
  "m_HasSuicided E addr = m_read E addr False (readField so_suicided)"

section \<open>Setters\<close>

definition m_onObject ::
  "('tr, 'z) env_scheme \<Rightarrow> Address \<Rightarrow> ('tr stateObject \<Rightarrow> 'tr journal \<Rightarrow> 'tr stateObject \<times> 'tr journal)
   \<Rightarrow> 'tr mstate \<Rightarrow> m_panic + 'tr mstate" where
  "m_onObject E addr f s =
     (case m_GetOrNewStateObject E addr s of Inl e \<Rightarrow> Inl e | Inr (p, s1) \<Rightarrow> Inr (callMethod f p s1))"

definition m_AddBalance :: "('tr, 'z) env_scheme \<Rightarrow> Address \<Rightarrow> int \<Rightarrow> 'tr mstate \<Rightarrow> m_panic + 'tr mstate" where
  "m_AddBalance E addr amount = m_onObject E addr (so_AddBalance E amount)"

definition m_SubBalance :: "('tr, 'z) env_scheme \<Rightarrow> Address \<Rightarrow> int \<Rightarrow> 'tr mstate \<Rightarrow> m_panic + 'tr mstate" where
  "m_SubBalance E addr amount = m_onObject E addr (so_SubBalance amount)"

definition m_SetBalance :: "('tr, 'z) env_scheme \<Rightarrow> Address \<Rightarrow> int \<Rightarrow> 'tr mstate \<Rightarrow> m_panic + 'tr mstate" where
  "m_SetBalance E addr amount = m_onObject E addr (so_SetBalance amount)"

definition m_SetNonce :: "('tr, 'z) env_scheme \<Rightarrow> Address \<Rightarrow> u64 \<Rightarrow> 'tr mstate \<Rightarrow> m_panic + 'tr mstate" where
  "m_SetNonce E addr nonce = m_onObject E addr (so_SetNonce nonce)"

definition m_SetState :: "('tr, 'z) env_scheme \<Rightarrow> Address \<Rightarrow> Hash \<Rightarrow> Hash \<Rightarrow> 'tr mstate \<Rightarrow> m_panic + 'tr mstate" where
  "m_SetState E addr key v = m_onObject E addr (so_SetState E key v)"

definition m_SetPDXState :: "('tr, 'z) env_scheme \<Rightarrow> Address \<Rightarrow> Hash \<Rightarrow> bytes \<Rightarrow> 'tr mstate \<Rightarrow> m_panic + 'tr mstate" where
  "m_SetPDXState E addr key v = m_onObject E addr (so_SetPDXState E key v)"

definition m_Suicide :: "('tr, 'z) env_scheme \<Rightarrow> Address \<Rightarrow> 'tr mstate \<Rightarrow> m_panic + bool \<times> 'tr mstate" where
  "m_Suicide E addr =
     m_read E addr False (\<lambda>p s. case s of (d, c) \<Rightarrow>
       (let obj = mc_heap c ! p in
        (True, m_append (MEntry (suicideChange addr (so_suicided obj) (ac_Balance (so_data obj)))) d,
         writePtr p (so_setBalance 0 (so_markSuicided obj)) c)))"

definition m_CreateAccount :: "('tr, 'z) env_scheme \<Rightarrow> Address \<Rightarrow> 'tr mstate \<Rightarrow> m_panic + 'tr mstate" where
  "m_CreateAccount E addr s =
     (case m_lock addr s of
        Inl e \<Rightarrow> Inl e
      | Inr s1 \<Rightarrow>
          (case m_createObject E addr s1 of (p, prev, d2, c2) \<Rightarrow>
             (case prev of
                None \<Rightarrow> Inr (d2, c2)
              | Some q \<Rightarrow>
                  Inr (d2, writePtr p (so_setBalance (ac_Balance (so_data (mc_heap c2 ! q))) (mc_heap c2 ! p)) c2))))"

definition m_AddPreimage :: "Hash \<Rightarrow> bytes \<Rightarrow> 'tr MStateDB \<Rightarrow> 'tr MStateDB" where
  "m_AddPreimage hash preimage d =
     (case map_of (md_preimages d) hash of
        Some _ \<Rightarrow> d
      | None \<Rightarrow>
          (let d1 = m_append (MEntry (addPreimageChange hash)) d
           in d1\<lparr>md_preimages := AList.update hash preimage (md_preimages d1)\<rparr>))"

definition m_AddRefund :: "u64 \<Rightarrow> 'tr MStateDB \<Rightarrow> 'tr MStateDB" where
  "m_AddRefund gas d = (m_append (MEntry (refundChange (md_refund d))) d)\<lparr>md_refund := md_refund d + gas\<rparr>"

definition m_Prepare :: "Hash \<Rightarrow> Hash \<Rightarrow> int \<Rightarrow> 'tr MStateDB \<Rightarrow> 'tr MStateDB" where
  "m_Prepare thash bhash ti d = d\<lparr>md_thash := thash, md_bhash := bhash, md_txIndex := ti\<rparr>"

section \<open>Snapshots\<close>

definition m_withObject ::
  "('tr, 'z) env_scheme \<Rightarrow> Address \<Rightarrow> ('tr stateObject \<Rightarrow> 'tr stateObject) \<Rightarrow> 'tr mstate \<Rightarrow> state_panic + 'tr mstate" where
  "m_withObject E addr f s =
     (case stdb_getStateObject E addr s of (so, d1, c1) \<Rightarrow>
        (case so of None \<Rightarrow> Inl NilDeref | Some p \<Rightarrow> Inr (d1, writePtr p (f (mc_heap c1 ! p)) c1)))"

fun m_entry_revert :: "('tr, 'z) env_scheme \<Rightarrow> 'tr mentry \<Rightarrow> 'tr mstate \<Rightarrow> state_panic + 'tr mstate" where
  "m_entry_revert E (MReset p) (d, c) = Inr (stdb_setStateObject (so_address (mc_heap c ! p)) p d, c)"
| "m_entry_revert E (MEntry (createObjectChange a)) (d, c) =
     Inr (d\<lparr>md_stateObjects := AList.delete a (md_stateObjects d),
            md_stateObjectsDirty := removeAll a (md_stateObjectsDirty d)\<rparr>, c)"
| "m_entry_revert E (MEntry (resetObjectChange obj)) s = Inr s"
| "m_entry_revert E (MEntry (suicideChange a prev prevbalance)) s =
     (case stdb_getStateObject E a s of (so, d1, c1) \<Rightarrow>
        (case so of
           None \<Rightarrow> Inr (d1, c1)
         | Some p \<Rightarrow> Inr (d1, writePtr p (so_setBalance prevbalance ((mc_heap c1 ! p)\<lparr>so_suicided := prev\<rparr>)) c1)))"
| "m_entry_revert E (MEntry (balanceChange a prev)) s = m_withObject E a (so_setBalance prev) s"
| "m_entry_revert E (MEntry (nonceChange a prev)) s = m_withObject E a (so_setNonce prev) s"
| "m_entry_revert E (MEntry (storageChange a key prev)) s = m_withObject E a (so_setState key prev) s"
| "m_entry_revert E (MEntry (pdxStorageChange a key prev)) s = m_withObject E a (so_setPDXState key prev) s"
| "m_entry_revert E (MEntry (codeChange a prevcode prevhash)) s = m_withObject E a (so_setCode (BytesToHash prevhash) prevcode) s"
| "m_entry_revert E (MEntry (refundChange prev)) (d, c) = Inr (d\<lparr>md_refund := prev\<rparr>, c)"
| "m_entry_revert E (MEntry (addPreimageChange hash)) (d, c) =
     Inr (d\<lparr>md_preimages := AList.delete hash (md_preimages d)\<rparr>, c)"
| "m_entry_revert E (MEntry (touchChange a)) s = Inr s"

definition m_undirty :: "'tr mentry \<Rightarrow> 'tr MStateDB \<Rightarrow> 'tr MStateDB" where
  "m_undirty e d =
     (case (case e of MReset _ \<Rightarrow> None | MEntry e' \<Rightarrow> dirtied e') of
        None \<Rightarrow> d
      | Some a \<Rightarrow>
          (let n = dirties_of (md_dirties d) a - 1 in
           if n = 0 then d\<lparr>md_dirties := AList.delete a (md_dirties d)\<rparr>
           else d\<lparr>md_dirties := AList.update a n (md_dirties d)\<rparr>))"

fun m_revertEntries :: "('tr, 'z) env_scheme \<Rightarrow> 'tr mentry list \<Rightarrow> 'tr mstate \<Rightarrow> state_panic + 'tr mstate" where
  "m_revertEntries E [] s = Inr s"
| "m_revertEntries E (e # es) s =
     (case m_entry_revert E e s of
        Inl p \<Rightarrow> Inl p
      | Inr (d1, c1) \<Rightarrow> m_revertEntries E es (m_undirty e d1, c1))"

definition m_Snapshot :: "'tr MStateDB \<Rightarrow> nat \<times> 'tr MStateDB" where
  "m_Snapshot d =
     (md_nextRevisionId d,
      d\<lparr>md_nextRevisionId := md_nextRevisionId d + 1,
        md_validRevisions := md_validRevisions d
          @ [\<lparr>rev_id = md_nextRevisionId d, rev_journalIndex = length (md_entries d)\<rparr>]\<rparr>)"

definition m_RevertToSnapshot :: "('tr, 'z) env_scheme \<Rightarrow> nat \<Rightarrow> 'tr mstate \<Rightarrow> state_panic + 'tr mstate" where
  "m_RevertToSnapshot E revid s =
     (let revs = md_validRevisions (fst s);
          idx = sort_Search 0 (length revs) (\<lambda>i. rev_id (revs ! i) \<ge> revid)
      in if idx = length revs \<or> rev_id (revs ! idx) \<noteq> revid then Inl (InvalidRevision revid)
         else (let snapshot = rev_journalIndex (revs ! idx)
               in case m_revertEntries E (rev (drop snapshot (md_entries (fst s)))) s of
                    Inl p \<Rightarrow> Inl p
                  | Inr (d1, c1) \<Rightarrow>
                      Inr (d1\<lparr>md_entries := take snapshot (md_entries d1),
                              md_validRevisions := take idx (md_validRevisions d1)\<rparr>, c1)))"

section \<open>Finalising\<close>

definition m_updateStateObject :: "('tr, 'z) env_scheme \<Rightarrow> ptr \<Rightarrow> 'tr mstate \<Rightarrow> state_panic + 'tr mstate" where
  "m_updateStateObject E p s =
     (case s of (d, c) \<Rightarrow>
        (let obj = mc_heap c ! p in
         case so_EncodeRLP obj of
           Inl e \<Rightarrow> Inl (CantEncode (so_address obj) e)
         | Inr data \<Rightarrow>
             (case tryUpdate E (mc_trie c) (so_address obj) data of (err, t) \<Rightarrow>
                Inr (m_setError err d, c\<lparr>mc_trie := t\<rparr>))))"

definition m_deleteStateObject :: "('tr, 'z) env_scheme \<Rightarrow> ptr \<Rightarrow> 'tr mstate \<Rightarrow> 'tr mstate" where
  "m_deleteStateObject E p s =
     (case s of (d, c) \<Rightarrow>
        (let obj = mc_heap c ! p; c1 = writePtr p (obj\<lparr>so_deleted := True\<rparr>) c
         in case tryDelete E (mc_trie c1) (so_address obj) of (err, t) \<Rightarrow> (m_setError err d, c1\<lparr>mc_trie := t\<rparr>)))"

definition m_finaliseOne :: "('tr, 'z) env_scheme \<Rightarrow> bool \<Rightarrow> Address \<Rightarrow> 'tr mstate \<Rightarrow> state_panic + 'tr mstate" where
  "m_finaliseOne E deleteEmptyObjects addr s =
     (case s of (d, c) \<Rightarrow>
        (case map_of (md_stateObjects d) addr of
           None \<Rightarrow> Inr (d, c)
         | Some p \<Rightarrow>
             (let obj = mc_heap c ! p in
              case (if so_suicided obj \<or> (deleteEmptyObjects \<and> so_empty E obj)
                    then Inr (m_deleteStateObject E p (d, c))
                    else m_updateStateObject E p (d, writePtr p (so_updateRoot E obj) c)) of
                Inl e \<Rightarrow> Inl e
              | Inr (d1, c1) \<Rightarrow> Inr (d1\<lparr>md_stateObjectsDirty := set_add addr (md_stateObjectsDirty d1)\<rparr>, c1))))"

fun m_finaliseAll :: "('tr, 'z) env_scheme \<Rightarrow> bool \<Rightarrow> Address list \<Rightarrow> 'tr mstate \<Rightarrow> state_panic + 'tr mstate" where
  "m_finaliseAll E del [] s = Inr s"
| "m_finaliseAll E del (a # as) s =
     (case m_finaliseOne E del a s of Inl p \<Rightarrow> Inl p | Inr s1 \<Rightarrow> m_finaliseAll E del as s1)"

definition m_Finalise :: "('tr, 'z) env_scheme \<Rightarrow> bool \<Rightarrow> 'tr mstate \<Rightarrow> state_panic + 'tr mstate" where
  "m_Finalise E deleteEmptyObjects s =
     (case m_finaliseAll E deleteEmptyObjects (iterAddr E (map fst (md_dirties (fst s)))) s of
        Inl p \<Rightarrow> Inl p
      | Inr (d, c) \<Rightarrow> Inr (d\<lparr>md_entries := [], md_dirties := [], md_validRevisions := [], md_refund := 0\<rparr>, c))"

definition m_IntermediateRoot :: "('tr, 'z) env_scheme \<Rightarrow> bool \<Rightarrow> 'tr mstate \<Rightarrow> state_panic + Hash \<times> 'tr mstate" where
  "m_IntermediateRoot E deleteEmptyObjects s =
     (case m_Finalise E deleteEmptyObjects s of
        Inl p \<Rightarrow> Inl p
      | Inr s1 \<Rightarrow> Inr (trieHash E (mc_trie (snd s1)), s1))"

end
