(* ===== verification/MultiLocks.thy ===== *)
theory MultiLocks
  imports MultiState
begin

text \<open>
  The account locks of \<open>MStateDB\<close> as a transition system: transactions that run \<open>requestAndLock\<close> and
  \<open>UnLockAccounts\<close> concurrently. A step is a piece of code between two operations on a lock.
\<close>

section \<open>The deadlock check\<close>

text \<open>After one round the loop compares an account's owner with itself.\<close>

lemma checkDeadLock_eq:
  "checkDeadLock (Suc (Suc n)) c x q a = Some (lockedBy c x \<noteq> lockedBy c a \<and> x \<in> set q)"
  by (simp add: checkDeadLock_def Let_def)

section \<open>The transition system\<close>

datatype tx_status = Fresh | Running | Waiting Address ptr | Acquired Address | Releasing "ptr option list" | Done

record 'tr locksys =
  ls_ctx :: "'tr MContext"
  ls_status :: "Hash \<Rightarrow> tx_status"

text \<open>
  A transaction runs once: the hash of a block's transaction is used once, and the source never
  removes it from \<open>lockedAccount\<close>.
\<close>

inductive lock_step :: "'tr locksys \<Rightarrow> 'tr locksys \<Rightarrow> bool" where
  start: "ls_status s t = Fresh \<Longrightarrow> t \<noteq> zeroHash
    \<Longrightarrow> lock_step s (s\<lparr>ls_status := (ls_status s)(t := Running)\<rparr>)"
| lock: "ls_status s t = Running \<Longrightarrow> requestAndLock a t (ls_ctx s) = Locked c \<Longrightarrow> lock_step s (s\<lparr>ls_ctx := c\<rparr>)"
| wait: "ls_status s t = Running \<Longrightarrow> requestAndLock a t (ls_ctx s) = Waits (Some m) c
    \<Longrightarrow> lock_step s (s\<lparr>ls_ctx := c, ls_status := (ls_status s)(t := Waiting a m)\<rparr>)"
| acquire: "ls_status s t = Waiting a m \<Longrightarrow> \<not> mc_mutexes (ls_ctx s) ! m
    \<Longrightarrow> lock_step s (s\<lparr>ls_ctx := takeMutex m (ls_ctx s), ls_status := (ls_status s)(t := Acquired a)\<rparr>)"
| own: "ls_status s t = Acquired a
    \<Longrightarrow> lock_step s (s\<lparr>ls_ctx := setOwner a t (ls_ctx s), ls_status := (ls_status s)(t := Running)\<rparr>)"
| unlock: "ls_status s t = Running \<Longrightarrow> UnLockAccounts addTx t (ls_ctx s) = (ms, c)
    \<Longrightarrow> lock_step s (s\<lparr>ls_ctx := c, ls_status := (ls_status s)(t := Releasing ms)\<rparr>)"
| release: "ls_status s t = Releasing (al # ms) \<Longrightarrow> unlockMutex al (ls_ctx s) = Some c
    \<Longrightarrow> lock_step s (s\<lparr>ls_ctx := c, ls_status := (ls_status s)(t := Releasing ms)\<rparr>)"
| finish: "ls_status s t = Releasing [] \<Longrightarrow> lock_step s (s\<lparr>ls_status := (ls_status s)(t := Done)\<rparr>)"

inductive_cases lock_stepE: "lock_step s s'"

definition initLocks :: "'tr \<Rightarrow> 'tr locksys" where
  "initLocks tr = \<lparr>ls_ctx = newMContext tr, ls_status = (\<lambda>_. Fresh)\<rparr>"

abbreviation lock_steps :: "'tr locksys \<Rightarrow> 'tr locksys \<Rightarrow> bool" where
  "lock_steps \<equiv> lock_step\<^sup>*\<^sup>*"

section \<open>The invariant\<close>

text \<open>
  The mutexes a transaction holds, and the accounts it is the registered owner of, by its
  position in the code. The arguments are the maps of the context.
\<close>

fun heldBy :: "(Address \<Rightarrow> ptr option) \<Rightarrow> Address list \<Rightarrow> tx_status \<Rightarrow> ptr option list" where
  "heldBy lk q Running = map lk q"
| "heldBy lk q (Waiting a m) = map lk (butlast q)"
| "heldBy lk q (Acquired a) = map lk q"
| "heldBy lk q (Releasing ms) = ms"
| "heldBy lk q _ = []"

fun status_ok :: "(Address \<Rightarrow> ptr option) \<Rightarrow> (Address \<Rightarrow> Hash) \<Rightarrow> Hash \<Rightarrow> Address list \<Rightarrow> tx_status \<Rightarrow> bool" where
  "status_ok lk ow t q Fresh \<longleftrightarrow> q = [] \<and> (\<forall>a. t \<noteq> zeroHash \<longrightarrow> ow a \<noteq> t)"
| "status_ok lk ow t q Running \<longleftrightarrow> t \<noteq> zeroHash \<and> (\<forall>a. ow a = t \<longleftrightarrow> a \<in> set q)"
| "status_ok lk ow t q (Waiting a m) \<longleftrightarrow> t \<noteq> zeroHash \<and> q \<noteq> [] \<and> last q = a \<and> lk a = Some m \<and> (\<forall>a. ow a = t \<longleftrightarrow> a \<in> set (butlast q))"
| "status_ok lk ow t q (Acquired a) \<longleftrightarrow> t \<noteq> zeroHash \<and> q \<noteq> [] \<and> last q = a \<and> (\<forall>a. ow a = t \<longleftrightarrow> a \<in> set (butlast q))"
| "status_ok lk ow t q _ \<longleftrightarrow> q = []"

text \<open>
  The mutexes: what the transactions hold is disjoint, and a mutex is locked exactly if some
  transaction holds it.
\<close>

definition mutexes_ok :: "bool list \<Rightarrow> (Hash \<Rightarrow> ptr option list) \<Rightarrow> bool" where
  "mutexes_ok mu H \<longleftrightarrow>
     (\<forall>t. distinct (H t) \<and> (\<forall>x \<in> set (H t). \<exists>m. x = Some m \<and> m < length mu \<and> mu ! m))
     \<and> (\<forall>t t'. t \<noteq> t' \<longrightarrow> set (H t) \<inter> set (H t') = {})
     \<and> (\<forall>m < length mu. mu ! m \<longrightarrow> (\<exists>t. Some m \<in> set (H t)))"

lemma mutexes_new:
  assumes "mutexes_ok mu H"
  shows "mutexes_ok (mu @ [True]) (H(t := H t @ [Some (length mu)]))"
proof -
  have "Some (length mu) \<notin> set (H t')" for t' using assms by (force simp: mutexes_ok_def)
  with assms show ?thesis
    unfolding mutexes_ok_def by (auto simp: nth_append less_Suc_eq split: if_splits) (metis less_SucE | fastforce)+
qed

lemma mutexes_take:
  assumes "mutexes_ok mu H" "m < length mu" "\<not> mu ! m"
  shows "mutexes_ok (mu[m := True]) (H(t := H t @ [Some m]))"
proof -
  have "Some m \<notin> set (H t')" for t' using assms by (force simp: mutexes_ok_def)
  with assms show ?thesis
    unfolding mutexes_ok_def by (auto simp: nth_list_update split: if_splits) (metis | fastforce)+
qed

lemma mutexes_release:
  assumes "mutexes_ok mu H" "H t = Some m # ms"
  shows "mutexes_ok (mu[m := False]) (H(t := ms))" "m < length mu" "mu ! m"
proof -
  have m: "m < length mu" "mu ! m" "Some m \<notin> set ms" "distinct ms" "\<forall>x \<in> set ms. \<exists>m. x = Some m \<and> m < length mu \<and> mu ! m"
    using assms by (auto simp: mutexes_ok_def dest!: spec [where x = t])
  then show "m < length mu" "mu ! m" by auto
  have o: "Some m \<notin> set (H t')" if "t' \<noteq> t" for t'
    using assms that by (fastforce simp: mutexes_ok_def)
  show "mutexes_ok (mu[m := False]) (H(t := ms))"
    unfolding mutexes_ok_def
  proof (intro conjI allI impI ballI)
    fix t' show "distinct ((H(t := ms)) t')" using assms m by (auto simp: mutexes_ok_def)
  next
    fix t' x assume "x \<in> set ((H(t := ms)) t')"
    with assms m o show "\<exists>k. x = Some k \<and> k < length (mu[m := False]) \<and> mu[m := False] ! k"
      by (cases "t' = t") (auto simp: mutexes_ok_def nth_list_update, metis+)
  next
    fix t1 t2 :: Hash assume "t1 \<noteq> t2"
    with assms show "set ((H(t := ms)) t1) \<inter> set ((H(t := ms)) t2) = {}"
      unfolding mutexes_ok_def by (cases "t1 = t"; cases "t2 = t") fastforce+
  next
    fix k assume "k < length (mu[m := False])" "mu[m := False] ! k"
    then have k: "k < length mu" "mu ! k" "k \<noteq> m" using m(1) by (auto simp: nth_list_update split: if_splits)
    with assms obtain t' where "Some k \<in> set (H t')" by (auto simp: mutexes_ok_def)
    with assms(2) k show "\<exists>t'. Some k \<in> set ((H(t := ms)) t')"
      by (intro exI [where x = t']) auto
  qed
qed

text \<open>The accounts: their mutexes are distinct, exist from the first lock on, and queues are duplicate-free.\<close>

definition accounts_ok :: "(Address \<Rightarrow> ptr option) \<Rightarrow> (Address \<Rightarrow> Hash) \<Rightarrow> (Hash \<Rightarrow> Address list) \<Rightarrow> nat \<Rightarrow> bool" where
  "accounts_ok lk ow q n \<longleftrightarrow>
     (\<forall>a b m. lk a = Some m \<longrightarrow> m < n \<and> (lk b = Some m \<longrightarrow> a = b))
     \<and> (\<forall>a. ow a = zeroHash \<longleftrightarrow> lk a = None)
     \<and> (\<forall>t. distinct (q t) \<and> (\<forall>a \<in> set (q t). lk a \<noteq> None))"

definition locks_inv ::
  "(Address \<Rightarrow> ptr option) \<Rightarrow> (Address \<Rightarrow> Hash) \<Rightarrow> (Hash \<Rightarrow> Address list) \<Rightarrow> bool list \<Rightarrow> (Hash \<Rightarrow> tx_status) \<Rightarrow> bool" where
  "locks_inv lk ow q mu st \<longleftrightarrow> accounts_ok lk ow q (length mu) \<and> (\<forall>t. status_ok lk ow t (q t) (st t))
     \<and> mutexes_ok mu (\<lambda>t. heldBy lk (q t) (st t))"

lemma locks_invD:
  assumes "locks_inv lk ow q mu st"
  shows "accounts_ok lk ow q (length mu)" "status_ok lk ow t (q t) (st t)" "mutexes_ok mu (\<lambda>t. heldBy lk (q t) (st t))"
  using assms by (simp_all add: locks_inv_def)

lemma locks_invI:
  assumes "accounts_ok lk ow q (length mu)" "\<And>t. status_ok lk ow t (q t) (st t)"
    "mutexes_ok mu H" "\<And>t. heldBy lk (q t) (st t) = H t"
  shows "locks_inv lk ow q mu st"
proof -
  have "(\<lambda>t. heldBy lk (q t) (st t)) = H" using assms(4) by (rule ext)
  with assms show ?thesis by (simp add: locks_inv_def)
qed

lemma inv_init: "locks_inv (\<lambda>_. None) (\<lambda>_. zeroHash) (\<lambda>_. []) [] (\<lambda>_. Fresh)"
  by (auto simp: locks_inv_def accounts_ok_def mutexes_ok_def)

lemma inv_start:
  assumes "locks_inv lk ow q mu st" "st t = Fresh" "t \<noteq> zeroHash"
  shows "locks_inv lk ow q mu (st(t := Running))"
proof (rule locks_invI [OF locks_invD(1) [OF assms(1)] _ locks_invD(3) [OF assms(1)]])
  have t: "q t = []" "\<forall>a. ow a \<noteq> t" using locks_invD(2) [OF assms(1), of t] assms(2,3) by auto
  show "status_ok lk ow t' (q t') ((st(t := Running)) t')" for t'
    using locks_invD(2) [OF assms(1), of t'] t assms(3) by simp
  show "heldBy lk (q t') ((st(t := Running)) t') = heldBy lk (q t') (st t')" for t'
    using t assms(2) by simp
qed

text \<open>A status speaks of its own transaction and its own accounts only.\<close>

lemma status_ok_other:
  assumes "status_ok lk ow t q s" "\<And>a. ow' a = t \<longleftrightarrow> ow a = t" "\<And>a m. lk a = Some m \<Longrightarrow> lk' a = Some m"
  shows "status_ok lk' ow' t q s"
  using assms by (cases s) auto

lemma heldBy_cong: "(\<And>a. a \<in> set q \<Longrightarrow> lk' a = lk a) \<Longrightarrow> heldBy lk' q s = heldBy lk q s"
  by (cases s) (auto dest: in_set_butlastD)

lemma inv_lock:
  assumes "locks_inv lk ow q mu st" "st t = Running" "ow a = zeroHash"
  shows "locks_inv (lk(a \<mapsto> length mu)) (ow(a := t)) (q(t := q t @ [a])) (mu @ [True]) st"
proof -
  note A = locks_invD(1) [OF assms(1)] and S = locks_invD(2) [OF assms(1)] and M = locks_invD(3) [OF assms(1)]
  have t: "t \<noteq> zeroHash" "\<forall>a. ow a = t \<longleftrightarrow> a \<in> set (q t)" using S [of t] assms(2) by auto
  have a: "lk a = None" using A assms(3) by (simp add: accounts_ok_def)
  have nq: "a \<notin> set (q t')" for t' using A a by (force simp: accounts_ok_def)
  show ?thesis
  proof (rule locks_invI [OF _ _ mutexes_new [OF M, of t]])
    show "accounts_ok (lk(a \<mapsto> length mu)) (ow(a := t)) (q(t := q t @ [a])) (length (mu @ [True]))"
      using A a t nq unfolding accounts_ok_def by (auto simp: less_SucI) (metis less_irrefl)+
    show "status_ok (lk(a \<mapsto> length mu)) (ow(a := t)) t' ((q(t := q t @ [a])) t') (st t')" for t'
    proof (cases "t' = t")
      case True
      with t nq assms(2) show ?thesis by auto
    next
      case False
      show ?thesis
      proof (cases "t' = zeroHash")
        case True
        with S [of t'] False show ?thesis by (cases "st t'") auto
      next
        case f: False
        have "status_ok (lk(a \<mapsto> length mu)) (ow(a := t)) t' (q t') (st t')"
          by (rule status_ok_other [OF S]) (use False f assms(3) a in auto)
        with False show ?thesis by simp
      qed
    qed
    show "heldBy (lk(a \<mapsto> length mu)) ((q(t := q t @ [a])) t') (st t')
      = ((\<lambda>t. heldBy lk (q t) (st t))(t := heldBy lk (q t) (st t) @ [Some (length mu)])) t'" for t'
    proof (cases "t' = t")
      case True
      with nq assms(2) show ?thesis by auto
    next
      case False
      then show ?thesis using nq [of t'] by (auto intro!: heldBy_cong)
    qed
  qed
qed

lemma inv_wait:
  assumes "locks_inv lk ow q mu st" "st t = Running" "ow a \<noteq> t" "lk a = Some m"
  shows "locks_inv lk ow (q(t := q t @ [a])) mu (st(t := Waiting a m))"
proof -
  note A = locks_invD(1) [OF assms(1)] and S = locks_invD(2) [OF assms(1)] and M = locks_invD(3) [OF assms(1)]
  have t: "t \<noteq> zeroHash" "\<forall>a. ow a = t \<longleftrightarrow> a \<in> set (q t)" using S [of t] assms(2) by auto
  show ?thesis
  proof (rule locks_invI [OF _ _ M])
    show "accounts_ok lk ow (q(t := q t @ [a])) (length mu)"
      using A t assms(3,4) unfolding accounts_ok_def by auto
    show "status_ok lk ow t' ((q(t := q t @ [a])) t') ((st(t := Waiting a m)) t')" for t'
      using S [of t'] t assms(4) by auto
    show "heldBy lk ((q(t := q t @ [a])) t') ((st(t := Waiting a m)) t') = heldBy lk (q t') (st t')" for t'
      using assms(2) by auto
  qed
qed

lemma inv_acquire:
  assumes "locks_inv lk ow q mu st" "st t = Waiting a m" "\<not> mu ! m"
  shows "locks_inv lk ow q (mu[m := True]) (st(t := Acquired a))"
proof -
  note A = locks_invD(1) [OF assms(1)] and S = locks_invD(2) [OF assms(1)] and M = locks_invD(3) [OF assms(1)]
  have t: "q t \<noteq> []" "last (q t) = a" "lk a = Some m" using S [of t] assms(2) by auto
  have m: "m < length mu" using A t(3) by (auto simp: accounts_ok_def)
  show ?thesis
  proof (rule locks_invI [OF _ _ mutexes_take [OF M m assms(3), of t]])
    show "accounts_ok lk ow q (length (mu[m := True]))" using A by simp
    show "status_ok lk ow t' (q t') ((st(t := Acquired a)) t')" for t' using S [of t'] assms(2) by auto
    have "map lk (q t) = map lk (butlast (q t)) @ [Some m]"
      using t by (metis append_butlast_last_id list.simps(8,9) map_append)
    then show "heldBy lk (q t') ((st(t := Acquired a)) t')
      = ((\<lambda>t. heldBy lk (q t) (st t))(t := heldBy lk (q t) (st t) @ [Some m])) t'" for t'
      using assms(2) by auto
  qed
qed

lemma inv_own:
  assumes "locks_inv lk ow q mu st" "st t = Acquired a"
  shows "locks_inv lk (ow(a := t)) q mu (st(t := Running))"
proof -
  note A = locks_invD(1) [OF assms(1)] and S = locks_invD(2) [OF assms(1)] and M = locks_invD(3) [OF assms(1)]
  have t: "t \<noteq> zeroHash" "q t \<noteq> []" "last (q t) = a" "\<forall>a. ow a = t \<longleftrightarrow> a \<in> set (butlast (q t))"
    using S [of t] assms(2) by auto
  have qt: "set (q t) = insert a (set (butlast (q t)))"
    using t(2,3) by (metis append_butlast_last_id list.set(1,2) set_append Un_insert_right sup_bot.right_neutral)
  then have lk: "lk a \<noteq> None" using A by (auto simp: accounts_ok_def dest: spec [where x = t])
  have held: "lk a \<in> set (heldBy lk (q t) (st t))" using assms(2) qt by simp
  have other: "a \<notin> set (q t')" if "t' \<noteq> t" "st t' = Running \<or> (\<exists>b. st t' = Acquired b)" for t'
    using M that held by (fastforce simp: mutexes_ok_def)
  have other': "a \<notin> set (butlast (q t'))" if "t' \<noteq> t" "st t' = Waiting b m" for t' b m
    using M that held by (fastforce simp: mutexes_ok_def)
  show ?thesis
  proof (rule locks_invI [OF _ _ M])
    show "accounts_ok lk (ow(a := t)) q (length mu)" using A t(1) lk unfolding accounts_ok_def by auto
    show "status_ok lk (ow(a := t)) t' (q t') ((st(t := Running)) t')" for t'
    proof (cases "t' = t")
      case True
      with t qt show ?thesis by auto
    next
      case False
      have "ow a \<noteq> t'" if "st t' = Running \<or> (\<exists>b. st t' = Acquired b) \<or> (\<exists>b m. st t' = Waiting b m)"
      proof
        assume o: "ow a = t'"
        have s: "status_ok lk ow t' (q t') (st t')" by (rule S)
        from that consider "st t' = Running" | b where "st t' = Acquired b" | b m where "st t' = Waiting b m" by blast
        then show False
        proof cases
          case 1
          with s o have "a \<in> set (q t')" by (metis status_ok.simps(2))
          with other [OF False] 1 show False by blast
        next
          case 2
          with s o have "a \<in> set (butlast (q t'))" by (metis status_ok.simps(4))
          with other [OF False] 2 show False by (blast dest: in_set_butlastD)
        next
          case 3
          with s o have "a \<in> set (butlast (q t'))" by (metis status_ok.simps(3))
          with other' [OF False] 3 show False by blast
        qed
      qed
      with S [of t'] False show ?thesis by (cases "st t'") auto
    qed
    show "heldBy lk (q t') ((st(t := Running)) t') = heldBy lk (q t') (st t')" for t'
      using assms(2) by auto
  qed
qed

lemma inv_unlock:
  assumes "locks_inv lk ow q mu st" "st t = Running"
  shows "locks_inv lk ow (q(t := [])) mu (st(t := Releasing (map lk (q t))))"
proof -
  note A = locks_invD(1) [OF assms(1)] and S = locks_invD(2) [OF assms(1)] and M = locks_invD(3) [OF assms(1)]
  show ?thesis
  proof (rule locks_invI [OF _ _ M])
    show "accounts_ok lk ow (q(t := [])) (length mu)" using A unfolding accounts_ok_def by auto
    show "status_ok lk ow t' ((q(t := [])) t') ((st(t := Releasing (map lk (q t)))) t')" for t' using S [of t'] by auto
    show "heldBy lk ((q(t := [])) t') ((st(t := Releasing (map lk (q t)))) t') = heldBy lk (q t') (st t')" for t'
      using assms(2) by auto
  qed
qed

lemma inv_release:
  assumes "locks_inv lk ow q mu st" "st t = Releasing (Some m # ms)"
  shows "locks_inv lk ow q (mu[m := False]) (st(t := Releasing ms))"
proof -
  note A = locks_invD(1) [OF assms(1)] and S = locks_invD(2) [OF assms(1)] and M = locks_invD(3) [OF assms(1)]
  have h: "heldBy lk (q t) (st t) = Some m # ms" using assms(2) by simp
  show ?thesis
  proof (rule locks_invI [OF _ _ mutexes_release(1) [OF M, of t m ms]])
    show "accounts_ok lk ow q (length (mu[m := False]))" using A by simp
    show "status_ok lk ow t' (q t') ((st(t := Releasing ms)) t')" for t' using S [of t'] assms(2) by auto
    show "heldBy lk (q t') ((st(t := Releasing ms)) t') = ((\<lambda>t. heldBy lk (q t) (st t))(t := ms)) t'" for t' by auto
  qed (rule h)
qed

lemma inv_finish:
  assumes "locks_inv lk ow q mu st" "st t = Releasing []"
  shows "locks_inv lk ow q mu (st(t := Done))"
  using locks_invD(1) [OF assms(1)] _ locks_invD(3) [OF assms(1)]
proof (rule locks_invI)
  show "status_ok lk ow t' (q t') ((st(t := Done)) t')" for t' using locks_invD(2) [OF assms(1), of t'] assms(2) by auto
  show "heldBy lk (q t') ((st(t := Done)) t') = heldBy lk (q t') (st t')" for t' using assms(2) by auto
qed

section \<open>Reachable states\<close>

definition sys_inv :: "'tr locksys \<Rightarrow> bool" where
  "sys_inv s \<longleftrightarrow> locks_inv (map_of (mc_accountLock (ls_ctx s))) (lockedBy (ls_ctx s)) (queueOf (ls_ctx s))
     (mc_mutexes (ls_ctx s)) (ls_status s)"

lemma map_of_update_fun: "map_of (AList.update k v al) = (map_of al)(k \<mapsto> v)"
  by (simp add: update_conv')

lemma lockedBy_update: "lockedBy (c\<lparr>mc_lockedAccount := AList.update a t (mc_lockedAccount c)\<rparr>) = (lockedBy c)(a := t)"
  by (auto simp: lockedBy_def map_of_update_fun intro!: ext)

lemma queueOf_update: "queueOf (c\<lparr>mc_txLockQueue := AList.update t q (mc_txLockQueue c)\<rparr>) = (queueOf c)(t := q)"
  by (auto simp: queueOf_def map_of_update_fun intro!: ext)

lemma queueOf_delete: "queueOf (c\<lparr>mc_txLockQueue := AList.delete t (mc_txLockQueue c)\<rparr>) = (queueOf c)(t := [])"
  by (auto simp: queueOf_def delete_conv' intro!: ext)

lemma ctx_frame [simp]:
  "lockedBy (c\<lparr>mc_txLockQueue := x\<rparr>) = lockedBy c" "lockedBy (c\<lparr>mc_mutexes := y\<rparr>) = lockedBy c"
  "lockedBy (c\<lparr>mc_accountLock := z\<rparr>) = lockedBy c" "lockedBy (c\<lparr>mc_executedTxs := w\<rparr>) = lockedBy c"
  "queueOf (c\<lparr>mc_lockedAccount := v\<rparr>) = queueOf c" "queueOf (c\<lparr>mc_mutexes := y\<rparr>) = queueOf c"
  "queueOf (c\<lparr>mc_accountLock := z\<rparr>) = queueOf c" "queueOf (c\<lparr>mc_executedTxs := w\<rparr>) = queueOf c"
  by (auto simp: lockedBy_def queueOf_def intro!: ext)

lemma sys_inv_init: "sys_inv (initLocks tr)"
proof -
  have "lockedBy (newMContext tr) = (\<lambda>_. zeroHash)" "queueOf (newMContext tr) = (\<lambda>_. [])"
    by (auto simp: lockedBy_def queueOf_def newMContext_def intro!: ext)
  then show ?thesis using inv_init by (simp add: sys_inv_def initLocks_def) (simp add: newMContext_def)
qed

lemma requestAndLock_Locked:
  assumes "requestAndLock a t c = Locked c'"
  shows "(lockedBy c a = t \<and> c' = c) \<or>
    (lockedBy c a = zeroHash \<and> lockedBy c a \<noteq> t \<and> map_of (mc_accountLock c') = (map_of (mc_accountLock c))(a \<mapsto> length (mc_mutexes c))
      \<and> lockedBy c' = (lockedBy c)(a := t) \<and> queueOf c' = (queueOf c)(t := queueOf c t @ [a]) \<and> mc_mutexes c' = mc_mutexes c @ [True])"
  using assms
  by (auto simp: requestAndLock_def Let_def map_of_update_fun lockedBy_update queueOf_update split: if_splits)
    (auto simp: lockedBy_def queueOf_def map_of_update_fun intro!: ext)

lemma requestAndLock_Waits:
  assumes "requestAndLock a t c = Waits al c'"
  shows "lockedBy c a \<noteq> t" "lockedBy c a \<noteq> zeroHash" "al = map_of (mc_accountLock c) a"
    "c' = c\<lparr>mc_txLockQueue := AList.update t (queueOf c t @ [a]) (mc_txLockQueue c)\<rparr>"
    "length (queueOf c (lockedBy c a)) > 1 \<Longrightarrow> queueOf c t \<noteq> [] \<Longrightarrow>
       \<not> (lockedBy c (last (queueOf c (lockedBy c a))) \<noteq> lockedBy c a \<and> last (queueOf c (lockedBy c a)) \<in> set (queueOf c t))"
  using assms checkDeadLock_eq [of 0 c] by (auto simp: requestAndLock_def Let_def numeral_2_eq_2 split: if_splits)

lemma UnLockAccounts_ctx:
  assumes "UnLockAccounts b t c = (ms, c')"
  shows "ms = map (map_of (mc_accountLock c)) (queueOf c t)" "lockedBy c' = lockedBy c" "queueOf c' = (queueOf c)(t := [])"
    "mc_accountLock c' = mc_accountLock c" "mc_mutexes c' = mc_mutexes c"
  using assms by (auto simp: UnLockAccounts_def) (auto simp: queueOf_def delete_conv' intro!: ext)

lemma sys_inv_step:
  assumes "lock_step s s'" "sys_inv s"
  shows "sys_inv s'"
  using assms
proof cases
  case (start t)
  with assms(2) show ?thesis by (simp add: sys_inv_def inv_start)
next
  case (lock t a c)
  from requestAndLock_Locked [OF lock(3)] show ?thesis
    using assms(2) inv_lock [of _ _ _ _ _ t a] lock by (auto simp: sys_inv_def)
next
  case (wait t a m c)
  note w = requestAndLock_Waits [OF wait(3)]
  from inv_wait [OF assms(2) [unfolded sys_inv_def] wait(2) w(1) w(3) [symmetric]] show ?thesis
    by (simp add: wait(1) sys_inv_def w(4) queueOf_update)
next
  case (acquire t a m)
  from inv_acquire [OF assms(2) [unfolded sys_inv_def] acquire(2,3)] show ?thesis
    by (simp add: acquire(1) sys_inv_def takeMutex_def)
next
  case (own t a)
  from inv_own [OF assms(2) [unfolded sys_inv_def] own(2)] show ?thesis
    by (simp add: own(1) sys_inv_def setOwner_def lockedBy_update)
next
  case (unlock t addTx ms c)
  note u = UnLockAccounts_ctx [OF unlock(3)]
  from inv_unlock [OF assms(2) [unfolded sys_inv_def] unlock(2)] show ?thesis
    by (simp add: unlock(1) sys_inv_def u)
next
  case (release t al ms c)
  then obtain m where m: "al = Some m" "c = (ls_ctx s)\<lparr>mc_mutexes := (mc_mutexes (ls_ctx s))[m := False]\<rparr>"
    by (auto simp: unlockMutex_def split: option.splits if_splits)
  from inv_release [OF assms(2) [unfolded sys_inv_def] release(2) [unfolded m(1)]] show ?thesis
    by (simp add: release(1) sys_inv_def m(2))
next
  case (finish t)
  from inv_finish [OF assms(2) [unfolded sys_inv_def] finish(2)] show ?thesis by (simp add: finish(1) sys_inv_def)
qed

lemma sys_inv_reachable: "lock_steps (initLocks tr) s \<Longrightarrow> sys_inv s"
  by (induction rule: rtranclp_induct) (auto intro: sys_inv_init sys_inv_step)

section \<open>Holding and waiting\<close>

definition heldMutexes :: "'tr locksys \<Rightarrow> Hash \<Rightarrow> ptr option list" where
  "heldMutexes s t = heldBy (map_of (mc_accountLock (ls_ctx s))) (queueOf (ls_ctx s) t) (ls_status s t)"

text \<open>Transaction \<open>t\<close> holds the lock of account \<open>a\<close>.\<close>

definition holds :: "'tr locksys \<Rightarrow> Hash \<Rightarrow> Address \<Rightarrow> bool" where
  "holds s t a \<longleftrightarrow> (case map_of (mc_accountLock (ls_ctx s)) a of None \<Rightarrow> False | Some m \<Rightarrow> Some m \<in> set (heldMutexes s t))"

definition waits_for :: "'tr locksys \<Rightarrow> Hash \<Rightarrow> Hash \<Rightarrow> bool" where
  "waits_for s t t' \<longleftrightarrow> (\<exists>a m. ls_status s t = Waiting a m \<and> holds s t' a)"

lemma sys_mutexes: "sys_inv s \<Longrightarrow> mutexes_ok (mc_mutexes (ls_ctx s)) (heldMutexes s)"
  unfolding sys_inv_def heldMutexes_def [abs_def] by (rule locks_invD(3))

lemma sys_status:
  "sys_inv s \<Longrightarrow> status_ok (map_of (mc_accountLock (ls_ctx s))) (lockedBy (ls_ctx s)) t (queueOf (ls_ctx s) t) (ls_status s t)"
  unfolding sys_inv_def by (rule locks_invD(2))

lemma sys_accounts:
  "sys_inv s \<Longrightarrow> accounts_ok (map_of (mc_accountLock (ls_ctx s))) (lockedBy (ls_ctx s)) (queueOf (ls_ctx s)) (length (mc_mutexes (ls_ctx s)))"
  unfolding sys_inv_def by (rule locks_invD(1))

lemma holds_unique: "sys_inv s \<Longrightarrow> holds s t a \<Longrightarrow> holds s t' a \<Longrightarrow> t = t'"
  using sys_mutexes [of s] by (fastforce simp: holds_def mutexes_ok_def split: option.splits)

lemma queue_locked: "sys_inv s \<Longrightarrow> a \<in> set (queueOf (ls_ctx s) t) \<Longrightarrow> \<exists>m. map_of (mc_accountLock (ls_ctx s)) a = Some m"
  using sys_accounts unfolding accounts_ok_def by blast

lemma holds_waiting:
  assumes "sys_inv s" "ls_status s t = Waiting a m"
  shows "holds s t b \<longleftrightarrow> b \<in> set (butlast (queueOf (ls_ctx s) t))"
proof -
  have "b \<in> set (butlast (queueOf (ls_ctx s) t))" if "map_of (mc_accountLock (ls_ctx s)) b = Some k" "x \<in> set (butlast (queueOf (ls_ctx s) t))"
    "Some k = map_of (mc_accountLock (ls_ctx s)) x" for k x
    using sys_accounts [OF assms(1)] that unfolding accounts_ok_def by metis
  moreover have "map_of (mc_accountLock (ls_ctx s)) b \<noteq> None" if "b \<in> set (butlast (queueOf (ls_ctx s) t))"
    using sys_accounts [OF assms(1)] in_set_butlastD [OF that] unfolding accounts_ok_def by metis
  ultimately show ?thesis using assms(2)
    by (auto simp: holds_def heldMutexes_def split: option.splits intro: rev_image_eqI)
qed

lemma requestAndLock_holds:
  assumes "sys_inv s" "ls_status s t = Running" "requestAndLock a t (ls_ctx s) = Locked c"
  shows "holds (s\<lparr>ls_ctx := c\<rparr>) t a"
proof -
  have st: "t \<noteq> zeroHash" "\<forall>a. lockedBy (ls_ctx s) a = t \<longleftrightarrow> a \<in> set (queueOf (ls_ctx s) t)"
    using sys_status [OF assms(1), of t] assms(2) by auto
  from requestAndLock_Locked [OF assms(3)] show ?thesis
  proof (elim disjE conjE)
    assume "lockedBy (ls_ctx s) a = t" "c = ls_ctx s"
    moreover from this have "a \<in> set (queueOf (ls_ctx s) t)" using st by blast
    moreover from this obtain m where "map_of (mc_accountLock (ls_ctx s)) a = Some m"
      using queue_locked [OF assms(1)] by blast
    ultimately show ?thesis using assms(2) by (auto simp: holds_def heldMutexes_def intro: rev_image_eqI)
  next
    assume "map_of (mc_accountLock c) = (map_of (mc_accountLock (ls_ctx s)))(a \<mapsto> length (mc_mutexes (ls_ctx s)))"
      "queueOf c = (queueOf (ls_ctx s))(t := queueOf (ls_ctx s) t @ [a])"
    then show ?thesis using assms(2) by (simp add: holds_def heldMutexes_def)
  qed
qed

section \<open>Cycles of two\<close>

definition two_cycle :: "(Hash \<Rightarrow> Address list) \<Rightarrow> (Hash \<Rightarrow> tx_status) \<Rightarrow> bool" where
  "two_cycle q st \<longleftrightarrow> (\<exists>t t' a b m n. st t = Waiting a m \<and> st t' = Waiting b n
     \<and> b \<in> set (butlast (q t)) \<and> a \<in> set (butlast (q t')))"

lemma two_cycle_mono:
  assumes "\<not> two_cycle q st" "\<And>t a m. st' t = Waiting a m \<Longrightarrow> st t = Waiting a m \<and> q' t = q t"
  shows "\<not> two_cycle q' st'"
  using assms unfolding two_cycle_def by metis

lemma no_two_cycle_wait:
  assumes "sys_inv s" "\<not> two_cycle (queueOf (ls_ctx s)) (ls_status s)" "ls_status s t = Running"
    "requestAndLock b t (ls_ctx s) = Waits al c"
  shows "\<not> two_cycle ((queueOf (ls_ctx s))(t := queueOf (ls_ctx s) t @ [b])) ((ls_status s)(t := Waiting b k))"
proof
  let ?q = "queueOf (ls_ctx s)" and ?ow = "lockedBy (ls_ctx s)"
  note w = requestAndLock_Waits [OF assms(4)]
  have own: "?ow x = t \<longleftrightarrow> x \<in> set (?q t)" for x using sys_status [OF assms(1), of t] assms(3) by auto
  have key: False if t': "t' \<noteq> t" "ls_status s t' = Waiting a m" and a: "a \<in> set (?q t)" "b \<in> set (butlast (?q t'))" for t' a m
  proof -
    have q: "?q t' \<noteq> []" "last (?q t') = a" "?ow b = t'"
      using sys_status [OF assms(1), of t'] t'(2) a(2) by auto
    have "?q t' = butlast (?q t') @ [a]" using q by (metis append_butlast_last_id)
    then have "length (?q (?ow b)) > 1" using a(2) q(3) by (metis length_append_singleton length_pos_if_in_set less_SucI Suc_less_eq One_nat_def)
    moreover have "?q t \<noteq> []" using a(1) by auto
    ultimately have "\<not> (?ow a \<noteq> t' \<and> a \<in> set (?q t))" using w(5) q by simp
    with a(1) own [of a] t'(1) show False by auto
  qed
  assume "two_cycle (?q(t := ?q t @ [b])) ((ls_status s)(t := Waiting b k))"
  then obtain t1 t2 a1 a2 m1 m2 where c: "((ls_status s)(t := Waiting b k)) t1 = Waiting a1 m1"
    "((ls_status s)(t := Waiting b k)) t2 = Waiting a2 m2"
    "a2 \<in> set (butlast ((?q(t := ?q t @ [b])) t1))" "a1 \<in> set (butlast ((?q(t := ?q t @ [b])) t2))"
    unfolding two_cycle_def by blast
  show False
  proof (cases "t1 = t"; cases "t2 = t")
    assume "t1 = t" "t2 = t"
    with c have "b \<in> set (?q t)" by auto
    with own w(1) show False by blast
  next
    assume "t1 = t" "t2 \<noteq> t"
    with c show False using key [of t2 a2 m2] by auto
  next
    assume "t1 \<noteq> t" "t2 = t"
    with c show False using key [of t1 a1 m1] by auto
  next
    assume "t1 \<noteq> t" "t2 \<noteq> t"
    with c have "ls_status s t1 = Waiting a1 m1" "ls_status s t2 = Waiting a2 m2"
      "a2 \<in> set (butlast (?q t1))" "a1 \<in> set (butlast (?q t2))" by auto
    with assms(2) show False unfolding two_cycle_def by blast
  qed
qed

lemma no_two_cycle_step:
  assumes "lock_step s s'" "sys_inv s" "\<not> two_cycle (queueOf (ls_ctx s)) (ls_status s)"
  shows "\<not> two_cycle (queueOf (ls_ctx s')) (ls_status s')"
  using assms(1)
proof cases
  case (wait t a m c)
  with no_two_cycle_wait [OF assms(2,3) wait(2,3), of m] requestAndLock_Waits(4) [OF wait(3)] show ?thesis
    by (simp add: queueOf_update)
next
  case (lock t a c)
  from requestAndLock_Locked [OF lock(3)] lock(1,2) show ?thesis by (intro two_cycle_mono [OF assms(3)]) auto
next
  case (unlock t addTx ms c)
  from UnLockAccounts_ctx(3) [OF unlock(3)] unlock(1) show ?thesis
    by (intro two_cycle_mono [OF assms(3)]) (auto split: if_splits)
next
  case (release t al ms c)
  then have "queueOf c = queueOf (ls_ctx s)" by (auto simp: unlockMutex_def split: option.splits if_splits)
  with release(1) show ?thesis by (intro two_cycle_mono [OF assms(3)]) (auto split: if_splits)
next
  case (start t)
  then show ?thesis by (intro two_cycle_mono [OF assms(3)]) (auto split: if_splits)
next
  case (acquire t a m)
  then show ?thesis by (intro two_cycle_mono [OF assms(3)]) (auto simp: takeMutex_def split: if_splits)
next
  case (own t a)
  then show ?thesis by (intro two_cycle_mono [OF assms(3)]) (auto simp: setOwner_def split: if_splits)
next
  case (finish t)
  then show ?thesis by (intro two_cycle_mono [OF assms(3)]) (auto split: if_splits)
qed

lemma no_two_cycle_reachable:
  assumes "lock_steps (initLocks tr) s" shows "\<not> two_cycle (queueOf (ls_ctx s)) (ls_status s)"
  using assms
proof (induction rule: rtranclp_induct)
  case base
  show ?case by (simp add: two_cycle_def initLocks_def)
next
  case (step s s')
  from no_two_cycle_step [OF step(2) sys_inv_reachable [OF step(1)] step(3)] show ?case .
qed

section \<open>Longer cycles\<close>

text \<open>Transactions that wait for mutexes held among themselves.\<close>

definition deadlocked :: "'tr locksys \<Rightarrow> Hash set \<Rightarrow> bool" where
  "deadlocked s W \<longleftrightarrow> (\<forall>t \<in> W. \<exists>a m t'. ls_status s t = Waiting a m \<and> t' \<in> W \<and> Some m \<in> set (heldMutexes s t'))"

lemma mutexes_heldD:
  assumes "mutexes_ok mu H" "Some m \<in> set (H t)"
  shows "mu ! m" "Some m \<in> set (H t') \<Longrightarrow> t' = t"
proof -
  have "\<exists>k. Some m = Some k \<and> k < length mu \<and> mu ! k" using assms unfolding mutexes_ok_def by blast
  then show "mu ! m" by simp
  show "Some m \<in> set (H t') \<Longrightarrow> t' = t" using assms unfolding mutexes_ok_def by blast
qed

lemma deadlocked_step:
  assumes "lock_step s s'" "sys_inv s" "deadlocked s W" "t \<in> W"
  shows "ls_status s' t = ls_status s t" "heldMutexes s' t = heldMutexes s t"
proof -
  from assms(3,4) obtain a m u where w: "ls_status s t = Waiting a m" "Some m \<in> set (heldMutexes s u)"
    by (auto simp: deadlocked_def)
  have m: "mc_mutexes (ls_ctx s) ! m" using mutexes_heldD(1) [OF sys_mutexes [OF assms(2)] w(2)] .
  have acc: "x \<in> set (queueOf (ls_ctx s) t) \<Longrightarrow> map_of (mc_accountLock (ls_ctx s)) x \<noteq> None" for x
    using queue_locked [OF assms(2)] by fastforce
  have "ls_status s' t = ls_status s t \<and> heldMutexes s' t = heldMutexes s t"
    using assms(1)
  proof cases
    case (lock t1 x c)
    have "t1 \<noteq> t" using lock w by auto
    from requestAndLock_Locked [OF lock(3)] show ?thesis
    proof (elim disjE conjE)
      assume n: "lockedBy (ls_ctx s) x = zeroHash"
        "map_of (mc_accountLock c) = (map_of (mc_accountLock (ls_ctx s)))(x \<mapsto> length (mc_mutexes (ls_ctx s)))"
        "queueOf c = (queueOf (ls_ctx s))(t1 := queueOf (ls_ctx s) t1 @ [x])"
      have "map_of (mc_accountLock (ls_ctx s)) x = None" using n(1) sys_accounts [OF assms(2)] by (auto simp: accounts_ok_def)
      then have "x \<notin> set (queueOf (ls_ctx s) t)" using acc [of x] by auto
      then show ?thesis using lock(1) n \<open>t1 \<noteq> t\<close> by (auto simp: heldMutexes_def intro!: heldBy_cong)
    qed (use lock in \<open>auto simp: heldMutexes_def\<close>)
  next
    case (wait t1 x k c)
    then show ?thesis using w requestAndLock_Waits(4) [OF wait(3)] by (auto simp: heldMutexes_def queueOf_update)
  next
    case (acquire t1 x k)
    then have "t1 \<noteq> t" using w m by auto
    with acquire show ?thesis by (simp add: heldMutexes_def takeMutex_def)
  next
    case (unlock t1 addTx ms c)
    then show ?thesis using w UnLockAccounts_ctx [OF unlock(3)] by (auto simp: heldMutexes_def)
  next
    case (release t1 al ms c)
    moreover from this have "queueOf c = queueOf (ls_ctx s)" "mc_accountLock c = mc_accountLock (ls_ctx s)"
      by (auto simp: unlockMutex_def split: option.splits if_splits)
    ultimately show ?thesis using w by (auto simp: heldMutexes_def)
  qed (use w in \<open>auto simp: heldMutexes_def setOwner_def\<close>)
  then show "ls_status s' t = ls_status s t" "heldMutexes s' t = heldMutexes s t" by auto
qed

lemma deadlocked_forever:
  assumes "lock_steps s s'" "sys_inv s" "deadlocked s W" "t \<in> W"
  shows "ls_status s' t = ls_status s t"
proof -
  have "sys_inv s' \<and> deadlocked s' W \<and> (\<forall>t \<in> W. ls_status s' t = ls_status s t)"
    using assms(1)
  proof (induction rule: rtranclp_induct)
    case (step s1 s2)
    then have i: "sys_inv s1" "deadlocked s1 W" by auto
    note d = deadlocked_step [OF step(2) i]
    have "deadlocked s2 W" using i(2) d unfolding deadlocked_def by metis
    with step d i sys_inv_step show ?case by auto
  qed (use assms in auto)
  then show ?thesis using assms(4) by blast
qed

end
