(* ===== verification/MultiProps.thy ===== *)
theory MultiProps
  imports MultiLocks StateProps
begin

text \<open>The properties of the account locks and of the shared objects of \<open>MStateDB\<close>.\<close>

section \<open>Executing the transition system\<close>

datatype lock_event =
    EStart Hash | ERequest Hash Address | EAcquire Hash | EOwn Hash | EUnlock Hash bool | ERelease Hash | EFinish Hash

fun exec_event :: "lock_event \<Rightarrow> 'tr locksys \<Rightarrow> 'tr locksys option" where
  "exec_event (EStart t) s =
     (if ls_status s t = Fresh \<and> t \<noteq> zeroHash then Some (s\<lparr>ls_status := (ls_status s)(t := Running)\<rparr>) else None)"
| "exec_event (ERequest t a) s =
     (if ls_status s t = Running
      then (case requestAndLock a t (ls_ctx s) of
              Locked c \<Rightarrow> Some (s\<lparr>ls_ctx := c\<rparr>)
            | Waits (Some m) c \<Rightarrow> Some (s\<lparr>ls_ctx := c, ls_status := (ls_status s)(t := Waiting a m)\<rparr>)
            | _ \<Rightarrow> None)
      else None)"
| "exec_event (EAcquire t) s =
     (case ls_status s t of
        Waiting a m \<Rightarrow>
          if mc_mutexes (ls_ctx s) ! m then None
          else Some (s\<lparr>ls_ctx := takeMutex m (ls_ctx s), ls_status := (ls_status s)(t := Acquired a)\<rparr>)
      | _ \<Rightarrow> None)"
| "exec_event (EOwn t) s =
     (case ls_status s t of
        Acquired a \<Rightarrow> Some (s\<lparr>ls_ctx := setOwner a t (ls_ctx s), ls_status := (ls_status s)(t := Running)\<rparr>)
      | _ \<Rightarrow> None)"
| "exec_event (EUnlock t b) s =
     (if ls_status s t = Running
      then (case UnLockAccounts b t (ls_ctx s) of (ms, c) \<Rightarrow>
              Some (s\<lparr>ls_ctx := c, ls_status := (ls_status s)(t := Releasing ms)\<rparr>))
      else None)"
| "exec_event (ERelease t) s =
     (case ls_status s t of
        Releasing (al # ms) \<Rightarrow>
          map_option (\<lambda>c. s\<lparr>ls_ctx := c, ls_status := (ls_status s)(t := Releasing ms)\<rparr>) (unlockMutex al (ls_ctx s))
      | _ \<Rightarrow> None)"
| "exec_event (EFinish t) s =
     (if ls_status s t = Releasing [] then Some (s\<lparr>ls_status := (ls_status s)(t := Done)\<rparr>) else None)"

fun exec_events :: "lock_event list \<Rightarrow> 'tr locksys \<Rightarrow> 'tr locksys option" where
  "exec_events [] s = Some s"
| "exec_events (e # es) s = Option.bind (exec_event e s) (exec_events es)"

lemma exec_event_step: "exec_event e s = Some s' \<Longrightarrow> lock_step s s'"
  by (cases e) (auto intro: lock_step.intros split: if_splits lock_result.splits option.splits tx_status.splits list.splits prod.splits)

lemma exec_events_steps: "exec_events es s = Some s' \<Longrightarrow> lock_steps s s'"
proof (induction es arbitrary: s)
  case (Cons e es)
  then show ?case by (auto split: bind_splits intro: converse_rtranclp_into_rtranclp exec_event_step)
qed simp

definition tx :: "nat \<Rightarrow> Hash" where
  "tx n = BytesToHash [word_of_nat (n + 1)]"

definition acc :: "nat \<Rightarrow> Address" where
  "acc n = BytesToAddress [word_of_nat (n + 1)]"

abbreviation sys0 :: "nat locksys" where
  "sys0 \<equiv> initLocks 0"

section \<open>Mutual exclusion\<close>

text \<open>C11. Mutual exclusion: in every reachable state of any number of concurrent transactions, a
  transaction whose \<open>requestAndLock\<close> returns holds the lock of the account, and no other
  transaction holds it.\<close>

theorem requestAndLock_exclusive:
  assumes "lock_steps (initLocks tr) s" "ls_status s t = Running" "requestAndLock a t (ls_ctx s) = Locked c"
  shows "holds (s\<lparr>ls_ctx := c\<rparr>) t a \<and> (\<forall>t'. holds (s\<lparr>ls_ctx := c\<rparr>) t' a \<longrightarrow> t' = t)"
proof -
  note inv = sys_inv_reachable [OF assms(1)]
  have h: "holds (s\<lparr>ls_ctx := c\<rparr>) t a" by (rule requestAndLock_holds [OF inv assms(2,3)])
  moreover have "sys_inv (s\<lparr>ls_ctx := c\<rparr>)" by (rule sys_inv_step [OF lock_step.lock [OF assms(2,3)] inv])
  ultimately show ?thesis using holds_unique by blast
qed

theorem requestAndLock_exclusive_witness:
  "\<exists>c. holds (sys0\<lparr>ls_status := (\<lambda>_. Fresh)(tx 1 := Running), ls_ctx := c\<rparr>) (tx 1) (acc 1)"
proof -
  define s where "s = sys0\<lparr>ls_status := (\<lambda>_. Fresh)(tx 1 := Running)\<rparr>"
  have "tx 1 \<noteq> zeroHash" by code_simp
  then have "lock_step sys0 s" using lock_step.start [of sys0 "tx 1"] by (simp add: s_def initLocks_def)
  then have r: "lock_steps sys0 s" by blast
  have "lockedBy (ls_ctx s) (acc 1) = zeroHash" by (simp add: s_def initLocks_def lockedBy_def newMContext_def)
  with \<open>tx 1 \<noteq> zeroHash\<close> obtain c where "requestAndLock (acc 1) (tx 1) (ls_ctx s) = Locked c"
    by (auto simp: requestAndLock_def)
  from requestAndLock_exclusive [OF r _ this] have "holds (s\<lparr>ls_ctx := c\<rparr>) (tx 1) (acc 1)" by (simp add: s_def)
  then show ?thesis unfolding s_def by blast
qed

text \<open>C12. The locks never fail at run time: in every reachable state the mutex that \<open>UnLockAccounts\<close> is about to
  unlock exists and is locked, and \<open>requestAndLock\<close> never waits on a nil mutex.\<close>

theorem locks_never_fail:
  assumes "lock_steps (initLocks tr) s"
  shows "(\<forall>t al ms. ls_status s t = Releasing (al # ms) \<longrightarrow> unlockMutex al (ls_ctx s) \<noteq> None)
    \<and> (\<forall>t a c. requestAndLock a t (ls_ctx s) \<noteq> Waits None c)"
proof -
  note inv = sys_inv_reachable [OF assms]
  have "unlockMutex al (ls_ctx s) \<noteq> None" if "ls_status s t = Releasing (al # ms)" for t al ms
    using sys_mutexes [OF inv] that unfolding mutexes_ok_def heldMutexes_def
    by (auto simp: unlockMutex_def dest!: spec [where x = t])
  moreover have False if "requestAndLock a t (ls_ctx s) = Waits None c" for t a c
    using requestAndLock_Waits(2,3) [OF that] sys_accounts [OF inv] by (auto simp: accounts_ok_def)
  ultimately show ?thesis by blast
qed

theorem locks_never_fail_witness:
  "\<exists>s. exec_events [EStart (tx 1), ERequest (tx 1) (acc 1), EUnlock (tx 1) True] sys0 = Some s
     \<and> (\<exists>al ms. ls_status s (tx 1) = Releasing (al # ms) \<and> unlockMutex al (ls_ctx s) \<noteq> None)"
proof -
  have "map_option (\<lambda>s. ls_status s (tx 1)) (exec_events [EStart (tx 1), ERequest (tx 1) (acc 1), EUnlock (tx 1) True] sys0)
    = Some (Releasing [Some 0])" by code_simp
  then obtain s where s: "exec_events [EStart (tx 1), ERequest (tx 1) (acc 1), EUnlock (tx 1) True] sys0 = Some s"
    "ls_status s (tx 1) = Releasing [Some 0]" by auto
  from locks_never_fail [OF exec_events_steps [OF s(1)]] s show ?thesis by blast
qed

section \<open>Deadlocks\<close>

text \<open>C13. No two transactions ever wait for each other: the deadlock check stops the request that would close a
  cycle of two, in every interleaving.\<close>

theorem no_mutual_wait:
  assumes "lock_steps (initLocks tr) s"
  shows "\<not> (waits_for s t t' \<and> waits_for s t' t)"
proof
  note inv = sys_inv_reachable [OF assms]
  assume "waits_for s t t' \<and> waits_for s t' t"
  then obtain a b m n where w: "ls_status s t = Waiting a m" "ls_status s t' = Waiting b n" "holds s t' a" "holds s t b"
    by (auto simp: waits_for_def)
  then have "two_cycle (queueOf (ls_ctx s)) (ls_status s)"
    unfolding two_cycle_def using holds_waiting [OF inv w(1), of b] holds_waiting [OF inv w(2), of a] by blast
  with no_two_cycle_reachable [OF assms] show False by simp
qed

text \<open>The run in which three transactions lock one account each and then request each other's.\<close>

definition threeCycle :: "lock_event list" where
  "threeCycle = [EStart (tx 1), EStart (tx 2), EStart (tx 3),
     ERequest (tx 1) (acc 1), ERequest (tx 2) (acc 2), ERequest (tx 3) (acc 3),
     ERequest (tx 1) (acc 2), ERequest (tx 2) (acc 3), ERequest (tx 3) (acc 1)]"

theorem no_mutual_wait_witness:
  "\<exists>s. exec_events threeCycle sys0 = Some s \<and> \<not> (waits_for s (tx 1) (tx 2) \<and> waits_for s (tx 2) (tx 1))"
proof -
  have "exec_events threeCycle sys0 \<noteq> None" by code_simp
  then obtain s where s: "exec_events threeCycle sys0 = Some s" by auto
  with no_mutual_wait [OF exec_events_steps [OF s]] show ?thesis by blast
qed

text \<open>C39. A cycle of three transactions is not detected: there is a reachable state in which three transactions
  wait for each other's accounts, and in every continuation they wait forever.\<close>

theorem three_cycle_waits_forever:
  "\<exists>s. lock_steps sys0 s \<and> waits_for s (tx 1) (tx 2) \<and> waits_for s (tx 2) (tx 3) \<and> waits_for s (tx 3) (tx 1)
     \<and> (\<forall>s' n. lock_steps s s' \<and> n \<in> {1, 2, 3} \<longrightarrow> ls_status s' (tx n) = ls_status s (tx n))"
proof -
  have "map_option (\<lambda>s. ((ls_status s (tx 1), ls_status s (tx 2), ls_status s (tx 3)),
      (heldMutexes s (tx 1), heldMutexes s (tx 2), heldMutexes s (tx 3)),
      (map_of (mc_accountLock (ls_ctx s)) (acc 1), map_of (mc_accountLock (ls_ctx s)) (acc 2), map_of (mc_accountLock (ls_ctx s)) (acc 3))))
    (exec_events threeCycle sys0)
    = Some ((Waiting (acc 2) 1, Waiting (acc 3) 2, Waiting (acc 1) 0), ([Some 0], [Some 1], [Some 2]), (Some 0, Some 1, Some 2))"
    by code_simp
  then obtain s where s: "exec_events threeCycle sys0 = Some s"
    and st: "ls_status s (tx 1) = Waiting (acc 2) 1" "ls_status s (tx 2) = Waiting (acc 3) 2" "ls_status s (tx 3) = Waiting (acc 1) 0"
    and h: "heldMutexes s (tx 1) = [Some 0]" "heldMutexes s (tx 2) = [Some 1]" "heldMutexes s (tx 3) = [Some 2]"
    and l: "map_of (mc_accountLock (ls_ctx s)) (acc 1) = Some 0" "map_of (mc_accountLock (ls_ctx s)) (acc 2) = Some 1"
      "map_of (mc_accountLock (ls_ctx s)) (acc 3) = Some 2"
    by auto
  have r: "lock_steps sys0 s" by (rule exec_events_steps [OF s])
  have w: "waits_for s (tx 1) (tx 2)" "waits_for s (tx 2) (tx 3)" "waits_for s (tx 3) (tx 1)"
    using st h l by (auto simp: waits_for_def holds_def)
  have "Some 0 \<in> set (heldMutexes s (tx 1))" "Some 1 \<in> set (heldMutexes s (tx 2))" "Some 2 \<in> set (heldMutexes s (tx 3))"
    using h by simp_all
  with st have "deadlocked s {tx 1, tx 2, tx 3}" unfolding deadlocked_def by blast
  then have "ls_status s' (tx n) = ls_status s (tx n)" if "lock_steps s s'" "n \<in> {1, 2, 3}" for s' n
    using deadlocked_forever [OF that(1) sys_inv_reachable [OF r]] that(2) by blast
  with r w show ?thesis by blast
qed

theorem three_cycle_waits_forever_witness:
  "\<exists>s. lock_steps sys0 s \<and> waits_for s (tx 3) (tx 1)
     \<and> (\<exists>s'. lock_steps s s' \<and> ls_status s' (tx 1) = ls_status s (tx 1))"
proof -
  obtain s where s: "lock_steps sys0 s" "waits_for s (tx 3) (tx 1)"
    "\<forall>s' n. lock_steps s s' \<and> n \<in> {1, 2, 3} \<longrightarrow> ls_status s' (tx n) = ls_status s (tx n)"
    using three_cycle_waits_forever by blast
  have "lock_steps s s" by simp
  moreover from this s(3) have "ls_status s (tx 1) = ls_status s (tx 1)" by blast
  ultimately show ?thesis using s(1,2) by blast
qed

text \<open>The loop of \<open>_checkDeadLock\<close> always ends, after at most one round, and looks one hop far: it reports a
  deadlock exactly if the last account requested by the owner belongs to another transaction and is
  in the requester's own queue.\<close>

theorem checkDeadLock_one_hop:
  "checkDeadLock (n + 2) c lockingAddr lockQueue addr
     = Some (lockedBy c lockingAddr \<noteq> lockedBy c addr \<and> lockingAddr \<in> set lockQueue)"
  using checkDeadLock_eq [of n] by simp

section \<open>Shared objects\<close>

definition unlockAll :: "'tr mstate \<Rightarrow> 'tr mstate" where
  "unlockAll s = (case s of (d, c) \<Rightarrow>
     (case UnLockAccounts True (md_thash d) c of (ms, c1) \<Rightarrow>
        (d, foldl (\<lambda>c al. case unlockMutex al c of None \<Rightarrow> c | Some c' \<Rightarrow> c') c1 ms)))"

text \<open>\<open>requestAndLock\<close> of an account whose mutex is free, including the wait that ends at once.\<close>

definition lockNow :: "Address \<Rightarrow> 'tr mstate \<Rightarrow> 'tr mstate" where
  "lockNow a s = (case s of (d, c) \<Rightarrow>
     (case requestAndLock a (md_thash d) c of
        Locked c1 \<Rightarrow> (d, c1)
      | Waits (Some m) c1 \<Rightarrow> (d, setOwner a (md_thash d) (takeMutex m c1))
      | _ \<Rightarrow> (d, c)))"

definition staleRead :: "m_panic + u64 \<times> u64" where
  "staleRead =
     (let c0 = newMContext (sd_trie storedState); d1 = m_Prepare (tx 1) zeroHash 0 newStdb; d2 = m_Prepare (tx 2) zeroHash 1 newStdb
      in case m_GetNonce alistEnv addrA (lockNow addrA (d1, c0)) of
           Inl e \<Rightarrow> Inl e
         | Inr (_, s1) \<Rightarrow>
             (case unlockAll s1 of (d1', c1) \<Rightarrow>
                (case m_CreateAccount alistEnv addrA (lockNow addrA (d2, c1)) of
                   Inl e \<Rightarrow> Inl e
                 | Inr s2 \<Rightarrow>
                     (case unlockAll s2 of (d2', c2) \<Rightarrow>
                        (case m_GetNonce alistEnv addrA (lockNow addrA (m_Prepare (tx 3) zeroHash 2 d1', c2)) of
                           Inl e \<Rightarrow> Inl e
                         | Inr (n1, s3) \<Rightarrow>
                             map_sum id (\<lambda>(n2, _). (n1, n2))
                               (m_GetNonce alistEnv addrA (lockNow addrA (m_Prepare (tx 4) zeroHash 3 newStdb, snd (unlockAll s3)))))))))"

text \<open>A stale read: one \<open>MStateDB\<close> reads an account and finishes, a second one replaces the account with
  \<open>CreateAccount\<close> and finishes, and the first, which keeps its pointer to the old object, still
  reads the old nonce 3 under the lock, while the context holds the new account with nonce 0.\<close>

theorem replaced_account_read_stale: "staleRead = Inr (3, 0)"
  by code_simp

definition revertedCreation :: "m_panic + bool \<times> bool" where
  "revertedCreation =
     (let d0 = m_Prepare (tx 1) zeroHash 0 newStdb; (sn, d1) = m_Snapshot d0
      in case m_CreateAccount alistEnv addrA (d1, newMContext []) of
           Inl e \<Rightarrow> Inl e
         | Inr s1 \<Rightarrow>
             (case m_RevertToSnapshot alistEnv sn s1 of
                Inl e \<Rightarrow> Inl (MPanic e)
              | Inr s2 \<Rightarrow>
                  (case m_Exist alistEnv addrA s2 of
                     Inl e \<Rightarrow> Inl e
                   | Inr (b, _) \<Rightarrow> Inr (b, fst (Exist alistEnv addrA
                       (case run_ops alistEnv [OpSnapshot, OpCreateAccount addrA, OpRevertToSnapshot 0] emptyState of
                          Inr s \<Rightarrow> s | Inl _ \<Rightarrow> emptyState))))))"

text \<open>Reverting the creation of an account does not remove it from the shared objects: after \<open>Snapshot\<close>,
  \<open>CreateAccount\<close> and \<open>RevertToSnapshot\<close> the account exists for an \<open>MStateDB\<close>, whereas for a
  \<open>StateDB\<close> it does not.\<close>

theorem reverted_creation_still_exists: "revertedCreation = Inr (True, False)"
  by code_simp

end
