(* ===== verification/SoCall.thy ===== *)
theory SoCall
  imports MultiState
begin

text \<open>
  The call interface of loaded contracts: the handler (\<open>so/handler.go\<close>), its messages
  (\<open>so/message.go\<close>), the stub a contract is given (\<open>so/stub.go\<close>) and the example contract
  (\<open>simpleDemo.go\<close>). The block chain behind \<open>public.BC\<close> is not part of the repository: it is a record
  of the two functions that are called. Printing is left out.
\<close>

section \<open>Messages\<close>

datatype so_error =
    SoCallError_Input_Error
  | SoCallError_NoResult
  | SoCallError_Key_Value_NotMatch
  | SoCallError_Start_FinishNum_Illegal
  | SoCallError_History_Encode_Error
  | SoCallError_History_Limit_Reached
  | HistoryDecodeError rlp_error
  | WrongQueryInput
  | WrongInput

definition SoCall_GET_STATE :: int where "SoCall_GET_STATE = 1"
definition SoCall_PUT_STATE :: int where "SoCall_PUT_STATE = 2"
definition Socall_PUT_STATES :: int where "Socall_PUT_STATES = 3"
definition SoCall_DEL_STATE :: int where "SoCall_DEL_STATE = 4"
definition SoCall_GET_HISTORY :: int where "SoCall_GET_HISTORY = 5"

definition MaxSize :: nat where "MaxSize = 5 * 1024 * 1024 * 1024"

record CallSoSendMessage =
  msg_inputs :: "bytes list"
  callType :: int
  msg_address :: Address

text \<open>A nil slice is the empty list, a nil error \<open>None\<close>.\<close>

record CallSoResMessage =
  msg_res :: bytes
  msg_err :: "so_error option"

record RecordElement =
  re_value :: bytes
  re_num :: u64

datatype so_panic =
    DBPanic m_panic
  | IndexOutOfRange
  | NilPointer

text \<open>The block chain: the root and the number of a block, and the state at a root.\<close>

record 'tr PublicBlockChain =
  bc_GetBlockByNumber :: "u64 \<Rightarrow> (Hash \<times> u64) option"
  bc_StateAt :: "Hash \<Rightarrow> state_error + 'tr StateDB"

section \<open>The handler\<close>

definition validityInput :: "bytes \<Rightarrow> CallSoResMessage option" where
  "validityInput input = (if length input = 0 then Some \<lparr>msg_res = [], msg_err = Some SoCallError_Input_Error\<rparr> else None)"

text \<open>
  The reflected types of \<open>RecordElement\<close> and of \<open>list.List\<close>, whose fields are not exported. The
  value of a list is not looked into by the codec; its fields are written as nil.
\<close>

definition recordElementType :: rtype where
  "recordElementType = TStruct ''so.RecordElement'' [(''value'', '''', False, TSlice (TUint 8)), (''num'', '''', False, TUint 64)]"

definition listType :: rtype where
  "listType = TStruct ''list.List'' [(''root'', '''', False, TOther ''list.Element''), (''len'', '''', False, TOther ''int'')]"

definition listVal :: "RecordElement list \<Rightarrow> rval" where
  "listVal rs = VStruct [VNil, VNil]"

definition RecordElement_Size :: "RecordElement \<Rightarrow> u64" where
  "RecordElement_Size r =
     (case EncodeToBytes (TPtr recordElementType) (VPtr (VStruct [VBytes (re_value r), VUint (re_num r)])) of
        Inl _ \<Rightarrow> 0
      | Inr data \<Rightarrow> word_of_nat (length data))"

text \<open>The loop of \<open>GET_HISTORY\<close> over the blocks; records are pushed to the front of the list.\<close>

lemma u64_countdown: "i < f \<Longrightarrow> unat f - unat (i + 1) < unat f - unat i" for i f :: u64
proof -
  assume "i < f"
  then have i: "unat i < unat f" by (simp add: word_less_nat_alt)
  moreover have "unat f < 2 ^ 64" using unsigned_less [of f] by simp
  ultimately have "unat (i + 1) = Suc (unat i)" by (simp add: unat_word_ariths)
  with i show ?thesis by simp
qed

function history ::
  "('tr, 'z) env_scheme \<Rightarrow> 'tr PublicBlockChain \<Rightarrow> Address \<Rightarrow> Hash \<Rightarrow> u64 \<Rightarrow> u64 \<Rightarrow> u64 \<Rightarrow> RecordElement list
   \<Rightarrow> so_panic + RecordElement list" where
  "history E BC addr key i finishNum totalSize recordList =
     (if i < finishNum
      then (case bc_GetBlockByNumber BC i of
              None \<Rightarrow> Inl NilPointer
            | Some (root, number) \<Rightarrow>
                (case bc_StateAt BC root of
                   Inl _ \<Rightarrow> Inr recordList
                 | Inr stateDb \<Rightarrow>
                     (let v = fst (GetPDXState E addr key stateDb)
                      in if length v = 0 then history E BC addr key (i + 1) finishNum totalSize recordList
                         else (let rEle = \<lparr>re_value = v, re_num = number\<rparr>;
                                   totalSize' = totalSize + RecordElement_Size rEle
                               in if totalSize' \<ge> word_of_nat MaxSize then Inr (rEle # recordList)
                                  else history E BC addr key (i + 1) finishNum totalSize' (rEle # recordList)))))
      else Inr recordList)"
  by pat_completeness auto
termination
  by (relation "measure (\<lambda>(E, BC, addr, key, i, fin, ts, l). unat fin - unat i)") (simp_all add: u64_countdown)

declare history.simps [simp del]

text \<open>\<open>handle\<close> returns a message, or nil where the switch leaves \<open>resMessage\<close> unset.\<close>

type_synonym 'tr handled = "so_panic + CallSoResMessage option \<times> 'tr mstate"

definition answer :: "bytes \<Rightarrow> so_error option \<Rightarrow> 'tr mstate \<Rightarrow> 'tr handled" where
  "answer r e s = Inr (Some \<lparr>msg_res = r, msg_err = e\<rparr>, s)"

definition handle_GET_STATE :: "('tr, 'z) env_scheme \<Rightarrow> CallSoSendMessage \<Rightarrow> Hash \<Rightarrow> 'tr mstate \<Rightarrow> 'tr handled" where
  "handle_GET_STATE E message key s =
     (case m_GetPDXState E (msg_address message) key s of
        Inl p \<Rightarrow> Inl (DBPanic p)
      | Inr (v, s1) \<Rightarrow> if length v = 0 then answer [] (Some SoCallError_NoResult) s1 else Inr (None, s1))"

definition handle_PUT_STATE :: "('tr, 'z) env_scheme \<Rightarrow> CallSoSendMessage \<Rightarrow> Hash \<Rightarrow> 'tr mstate \<Rightarrow> 'tr handled" where
  "handle_PUT_STATE E message key s =
     (if length (msg_inputs message) \<noteq> 2 then answer [] (Some SoCallError_Key_Value_NotMatch) s
      else (case m_SetPDXState E (msg_address message) key (msg_inputs message ! 1) s of
              Inl p \<Rightarrow> Inl (DBPanic p)
            | Inr s1 \<Rightarrow> answer [] None s1))"

text \<open>The loop of \<open>PUT_STATES\<close> from index \<open>i\<close> to \<open>n\<close>.\<close>

function put_states ::
  "('tr, 'z) env_scheme \<Rightarrow> Address \<Rightarrow> bytes list \<Rightarrow> nat \<Rightarrow> nat \<Rightarrow> 'tr mstate \<Rightarrow> so_panic + 'tr mstate" where
  "put_states E addr ins i n s =
     (if i < n
      then (if i * 2 + 1 < length ins
            then (case m_SetPDXState E addr (BytesToHash (ins ! (i * 2))) (ins ! (i * 2 + 1)) s of
                    Inl p \<Rightarrow> Inl (DBPanic p)
                  | Inr s1 \<Rightarrow> put_states E addr ins (i + 1) n s1)
            else Inl IndexOutOfRange)
      else Inr s)"
  by pat_completeness auto
termination by (relation "measure (\<lambda>(E, addr, ins, i, n, s). n - i)") auto

declare put_states.simps [simp del]

definition handle_PUT_STATES :: "('tr, 'z) env_scheme \<Rightarrow> CallSoSendMessage \<Rightarrow> 'tr mstate \<Rightarrow> 'tr handled" where
  "handle_PUT_STATES E message s =
     (if length (msg_inputs message) mod 2 \<noteq> 0 then answer [] (Some SoCallError_Key_Value_NotMatch) s
      else (case put_states E (msg_address message) (msg_inputs message) 0 (length (msg_inputs message) mod 2) s of
              Inl p \<Rightarrow> Inl p
            | Inr s1 \<Rightarrow> answer [] None s1))"

definition handle_DEL_STATE :: "('tr, 'z) env_scheme \<Rightarrow> CallSoSendMessage \<Rightarrow> Hash \<Rightarrow> 'tr mstate \<Rightarrow> 'tr handled" where
  "handle_DEL_STATE E message key s =
     (case m_SetPDXState E (msg_address message) key [] s of
        Inl p \<Rightarrow> Inl (DBPanic p)
      | Inr s1 \<Rightarrow> answer [] None s1)"

text \<open>The comparisons of the unsigned block numbers with 0 are never true.\<close>

definition handle_GET_HISTORY ::
  "('tr, 'z) env_scheme \<Rightarrow> 'tr PublicBlockChain \<Rightarrow> CallSoSendMessage \<Rightarrow> Hash \<Rightarrow> 'tr mstate \<Rightarrow> 'tr handled" where
  "handle_GET_HISTORY E BC message key s =
     (if length (msg_inputs message) mod 3 \<noteq> 0 then answer [] (Some SoCallError_Key_Value_NotMatch) s
      else if length (msg_inputs message) \<le> 2 then Inl IndexOutOfRange
      else (case (ByteToUint64 (msg_inputs message ! 1), ByteToUint64 (msg_inputs message ! 2)) of
              (Some startNum, Some finishNum) \<Rightarrow>
                if startNum < 0 then answer [] (Some SoCallError_Start_FinishNum_Illegal) s
                else if finishNum < 0 then answer [] (Some SoCallError_Start_FinishNum_Illegal) s
                else if startNum > finishNum then answer [] (Some SoCallError_Start_FinishNum_Illegal) s
                else (case history E BC (msg_address message) key startNum finishNum 0 [] of
                        Inl p \<Rightarrow> Inl p
                      | Inr recordList \<Rightarrow>
                          (case EncodeToBytes (TPtr listType) (VPtr (listVal recordList)) of
                             Inl _ \<Rightarrow> answer [] (Some SoCallError_History_Encode_Error) s
                           | Inr data \<Rightarrow> answer data (Some SoCallError_History_Limit_Reached) s))
            | _ \<Rightarrow> Inl IndexOutOfRange))"

definition handle ::
  "('tr, 'z) env_scheme \<Rightarrow> 'tr PublicBlockChain \<Rightarrow> CallSoSendMessage \<Rightarrow> 'tr mstate \<Rightarrow> 'tr handled" where
  "handle E BC message s =
     (case msg_inputs message of
        [] \<Rightarrow> Inl IndexOutOfRange
      | input # _ \<Rightarrow>
          (case validityInput input of
             Some m \<Rightarrow> Inr (Some m, s)
           | None \<Rightarrow>
               (let key = BytesToHash input in
                if callType message = SoCall_GET_STATE then handle_GET_STATE E message key s
                else if callType message = SoCall_PUT_STATE then handle_PUT_STATE E message key s
                else if callType message = Socall_PUT_STATES then handle_PUT_STATES E message s
                else if callType message = SoCall_DEL_STATE then handle_DEL_STATE E message key s
                else if callType message = SoCall_GET_HISTORY then handle_GET_HISTORY E BC message key s
                else Inr (None, s))))"

section \<open>The stub\<close>

record SOCallStub =
  stub_args :: "bytes list"
  stub_address :: Address

definition NewSoCallStub :: "bytes list \<Rightarrow> Address \<Rightarrow> SOCallStub" where
  "NewSoCallStub args address = \<lparr>stub_args = args, stub_address = address\<rparr>"

text \<open>Reading a field of the answer dereferences it.\<close>

definition deref :: "'tr handled \<Rightarrow> so_panic + CallSoResMessage \<times> 'tr mstate" where
  "deref r = (case r of Inl p \<Rightarrow> Inl p | Inr (m, s) \<Rightarrow> (case m of None \<Rightarrow> Inl NilPointer | Some msg \<Rightarrow> Inr (msg, s)))"

definition stub_GetState ::
  "('tr, 'z) env_scheme \<Rightarrow> 'tr PublicBlockChain \<Rightarrow> SOCallStub \<Rightarrow> bytes \<Rightarrow> 'tr mstate
   \<Rightarrow> so_panic + (bytes \<times> so_error option) \<times> 'tr mstate" where
  "stub_GetState E BC stub key s =
     map_sum id (\<lambda>(m, s1). ((msg_res m, msg_err m), s1))
       (deref (handle E BC \<lparr>msg_inputs = [key], callType = SoCall_GET_STATE, msg_address = stub_address stub\<rparr> s))"

definition stub_PutState ::
  "('tr, 'z) env_scheme \<Rightarrow> 'tr PublicBlockChain \<Rightarrow> SOCallStub \<Rightarrow> bytes \<Rightarrow> bytes \<Rightarrow> 'tr mstate
   \<Rightarrow> so_panic + so_error option \<times> 'tr mstate" where
  "stub_PutState E BC stub key v s =
     map_sum id (\<lambda>(m, s1). (msg_err m, s1))
       (deref (handle E BC \<lparr>msg_inputs = [key, v], callType = SoCall_PUT_STATE, msg_address = stub_address stub\<rparr> s))"

definition stub_DelState ::
  "('tr, 'z) env_scheme \<Rightarrow> 'tr PublicBlockChain \<Rightarrow> SOCallStub \<Rightarrow> bytes \<Rightarrow> 'tr mstate
   \<Rightarrow> so_panic + so_error option \<times> 'tr mstate" where
  "stub_DelState E BC stub key s =
     map_sum id (\<lambda>(m, s1). (msg_err m, s1))
       (deref (handle E BC \<lparr>msg_inputs = [key], callType = SoCall_DEL_STATE, msg_address = stub_address stub\<rparr> s))"

definition GetArgs :: "SOCallStub \<Rightarrow> bytes list" where
  "GetArgs stub = stub_args stub"

text \<open>Go strings are byte sequences.\<close>

definition GetStringArgs :: "SOCallStub \<Rightarrow> bytes list" where
  "GetStringArgs stub = foldl (\<lambda>strargs barg. strargs @ [barg]) [] (GetArgs stub)"

definition GetFunctionAndParameters :: "SOCallStub \<Rightarrow> bytes \<times> bytes list" where
  "GetFunctionAndParameters stub =
     (let allArgs = GetArgs stub in
      if length allArgs \<ge> 1 then (allArgs ! 0, drop 1 allArgs) else ([], []))"

text \<open>
  The result is the front element of the decoded list and an error. \<open>DecodeBytes\<close> sets no field of a
  list, so on success the list is still the new, empty one, whose front is nil.
\<close>

definition stub_GetHistoryForKey ::
  "('tr, 'z) env_scheme \<Rightarrow> 'tr PublicBlockChain \<Rightarrow> SOCallStub \<Rightarrow> bytes \<Rightarrow> u64 \<Rightarrow> u64 \<Rightarrow> 'tr mstate
   \<Rightarrow> so_panic + (RecordElement option \<times> so_error option) \<times> 'tr mstate" where
  "stub_GetHistoryForKey E BC stub key start fin s =
     (case deref (handle E BC \<lparr>msg_inputs = [key, Uint64ToByte start, Uint64ToByte fin],
                               callType = SoCall_GET_HISTORY, msg_address = stub_address stub\<rparr> s) of
        Inl p \<Rightarrow> Inl p
      | Inr (m, s1) \<Rightarrow>
          if length (msg_res m) > 0 then Inr ((None, msg_err m), s1)
          else (case DecodeBytes (msg_res m) (PointerTo listType) of
                  Inl e \<Rightarrow> Inr ((None, Some (HistoryDecodeError e)), s1)
                | Inr _ \<Rightarrow> Inr ((None, None), s1)))"

section \<open>The example contract\<close>

definition go_string :: "string \<Rightarrow> bytes" where
  "go_string s = map (\<lambda>c. word_of_nat (of_char c)) s"

definition queryPersonInfo ::
  "('tr, 'z) env_scheme \<Rightarrow> 'tr PublicBlockChain \<Rightarrow> SOCallStub \<Rightarrow> bytes list \<Rightarrow> 'tr mstate
   \<Rightarrow> so_panic + (bytes \<times> so_error option) \<times> 'tr mstate" where
  "queryPersonInfo E BC stub args s =
     (if length args \<noteq> 1 then Inr (([], Some WrongQueryInput), s)
      else (case stub_GetState E BC stub (args ! 0) s of
              Inl p \<Rightarrow> Inl p
            | Inr ((v, e), s1) \<Rightarrow> if e \<noteq> None then Inr (([], e), s1) else Inr ((v, None), s1)))"

definition savePersonInfo ::
  "('tr, 'z) env_scheme \<Rightarrow> 'tr PublicBlockChain \<Rightarrow> SOCallStub \<Rightarrow> bytes list \<Rightarrow> 'tr mstate
   \<Rightarrow> so_panic + (bytes \<times> so_error option) \<times> 'tr mstate" where
  "savePersonInfo E BC stub args s =
     (if length args \<noteq> 2 then Inr (([], Some WrongInput), s)
      else (case stub_PutState E BC stub (args ! 0) (args ! 1) s of
              Inl p \<Rightarrow> Inl p
            | Inr (e, s1) \<Rightarrow> if e \<noteq> None then Inr (([], e), s1) else Inr ((args ! 1, None), s1)))"

text \<open>\<open>Run\<close>; its argument is \<open>None\<close> when it does not implement \<open>StubInterface\<close>.\<close>

definition Run ::
  "('tr, 'z) env_scheme \<Rightarrow> 'tr PublicBlockChain \<Rightarrow> SOCallStub option \<Rightarrow> 'tr mstate
   \<Rightarrow> so_panic + (bytes \<times> so_error option) \<times> 'tr mstate" where
  "Run E BC stub s =
     (case stub of
        None \<Rightarrow> Inr (([], None), s)
      | Some v \<Rightarrow>
          (case GetFunctionAndParameters v of (function, ins) \<Rightarrow>
             if function = go_string ''queryPersonInfo'' then queryPersonInfo E BC v ins s
             else if function = go_string ''savePersonInfo'' then savePersonInfo E BC v ins s
             else Inr (([], None), s)))"

end
