(* ===== verification/SoLaws.thy ===== *)
theory SoLaws
  imports SoCall StateView
begin

text \<open>
  The key-value store that contracts see: its contract as a locale, and \<open>MStateDB\<close>'s second storage
  of one account as an implementation of it.
\<close>

section \<open>The contract of a store\<close>

locale kv_store =
  fixes get :: "'k \<Rightarrow> 's \<Rightarrow> 'p + 'v \<times> 's" and put :: "'k \<Rightarrow> 'v \<Rightarrow> 's \<Rightarrow> 'p + 's" and ok :: "'s \<Rightarrow> bool"
  assumes put_ok: "ok s \<Longrightarrow> put k v s = Inr s1 \<Longrightarrow> ok s1"
    and get_ok: "ok s \<Longrightarrow> get k s = Inr (v, s1) \<Longrightarrow> ok s1"
    and put_get: "ok s \<Longrightarrow> put k v s = Inr s1 \<Longrightarrow> get k s1 = Inr (v, s1)"
    and get_get: "ok s \<Longrightarrow> get k s = Inr (v, s1) \<Longrightarrow> \<exists>s2. get k s1 = Inr (v, s2)"
begin

lemma overwrite:
  assumes "ok s" "put k v s = Inr s1" "put k w s1 = Inr s2"
  shows "get k s2 = Inr (w, s2)"
  using assms put_ok put_get by blast

fun read_many :: "nat \<Rightarrow> 'k \<Rightarrow> 's \<Rightarrow> 'p + 'v list" where
  "read_many 0 k s = Inr []"
| "read_many (Suc n) k s = (case get k s of Inl p \<Rightarrow> Inl p | Inr (v, s1) \<Rightarrow> map_sum id ((#) v) (read_many n k s1))"

lemma read_many_stable:
  assumes "ok s" "get k s = Inr (v, s1)"
  shows "read_many n k s = Inr (replicate n v)"
  using assms
proof (induction n arbitrary: s s1)
  case (Suc n)
  obtain s2 where "get k s1 = Inr (v, s2)" using get_get [OF Suc.prems] by blast
  with Suc.IH [OF get_ok [OF Suc.prems]] Suc.prems show ?case by simp
qed simp

lemma read_many_after_put:
  assumes "ok s" "put k v s = Inr s1"
  shows "read_many n k s1 = Inr (replicate n v)"
  using read_many_stable [OF put_ok [OF assms] put_get [OF assms]] .

end

section \<open>Objects in the heap\<close>

definition m_ok :: "'tr mstate \<Rightarrow> bool" where
  "m_ok s \<longleftrightarrow> (case s of (d, c) \<Rightarrow>
     (\<forall>a p. map_of (md_stateObjects d) a = Some p \<longrightarrow> p < length (mc_heap c))
     \<and> (\<forall>a p. map_of (mc_stateObjects c) a = Some p \<longrightarrow> p < length (mc_heap c)))"

lemma m_lock_Inr:
  assumes "m_lock a s = Inr s1" "m_ok s"
  shows "fst s1 = fst s" "lockedBy (snd s1) a = md_thash (fst s1)" "m_ok s1" "mc_heap (snd s1) = mc_heap (snd s)"
    "mc_trie (snd s1) = mc_trie (snd s)" "mc_stateObjects (snd s1) = mc_stateObjects (snd s)"
  using assms
  by (auto simp: m_lock_def requestAndLock_def Let_def m_ok_def lockedBy_def split: prod.splits lock_result.splits if_splits)

lemma m_lock_again: "lockedBy c a = md_thash d \<Longrightarrow> m_lock a (d, c) = Inr (d, c)"
  by (simp add: m_lock_def requestAndLock_def)

text \<open>What neither a lookup nor a read or write of an object changes.\<close>

definition same_locks :: "'tr mstate \<Rightarrow> 'tr mstate \<Rightarrow> bool" where
  "same_locks s s1 \<longleftrightarrow> md_thash (fst s1) = md_thash (fst s) \<and> lockedBy (snd s1) = lockedBy (snd s) \<and> mc_trie (snd s1) = mc_trie (snd s)"

lemma loadAccount_same:
  "loadAccount E a (d, c) = (obj, d1, c1) \<Longrightarrow> c1 = c \<and> md_stateObjects d1 = md_stateObjects d \<and> md_thash d1 = md_thash d"
  by (auto simp: loadAccount_def m_setError_def split: prod.splits if_splits sum.splits)

lemma m_getStateObject_ok:
  assumes "m_getStateObject E a s = (o1, s1)" "m_ok s"
  shows "m_ok s1" "same_locks s s1"
    "o1 = Some p \<Longrightarrow> map_of (md_stateObjects (fst s1)) a = Some p \<and> p < length (mc_heap (snd s1)) \<and> \<not> so_deleted (mc_heap (snd s1) ! p)"
proof -
  obtain d c where s: "s = (d, c)" by fastforce
  have "m_ok s1 \<and> same_locks s s1 \<and> (\<forall>p. o1 = Some p \<longrightarrow> map_of (md_stateObjects (fst s1)) a = Some p
    \<and> p < length (mc_heap (snd s1)) \<and> \<not> so_deleted (mc_heap (snd s1) ! p))"
  proof (cases "map_of (md_stateObjects d) a")
    case (Some q)
    with assms s show ?thesis by (auto simp: m_getStateObject_def m_ok_def same_locks_def split: if_splits)
  next
    case n: None
    show ?thesis
    proof (cases "map_of (mc_stateObjects c) a")
      case (Some q)
      with n assms s show ?thesis
        by (auto simp: m_getStateObject_def m_ok_def same_locks_def stdb_setStateObject_def split: if_splits)
    next
      case None
      obtain ob d1 c1 where l: "loadAccount E a s = (ob, d1, c1)" by (metis prod_cases3)
      note f = loadAccount_same [OF l [unfolded s]]
      show ?thesis
      proof (cases ob)
        case None
        with n \<open>map_of (mc_stateObjects c) a = None\<close> l f assms s show ?thesis
          by (auto simp: m_getStateObject_def m_ok_def same_locks_def)
      next
        case (Some obj)
        have "\<not> so_deleted obj" using l Some s
          by (auto simp: loadAccount_def newObject_def split: prod.splits if_splits sum.splits)
        with n None l f assms s Some show ?thesis
          by (auto simp: m_getStateObject_def m_ok_def same_locks_def alloc_def stdb_setStateObject_def m_setStateObject_def
              lockedBy_def nth_append split: if_splits) (metis less_SucI)+
      qed
    qed
  qed
  then show "m_ok s1" "same_locks s s1"
    "o1 = Some p \<Longrightarrow> map_of (md_stateObjects (fst s1)) a = Some p \<and> p < length (mc_heap (snd s1)) \<and> \<not> so_deleted (mc_heap (snd s1) ! p)"
    by auto
qed

lemma same_locks_trans: "same_locks s s1 \<Longrightarrow> same_locks s1 s2 \<Longrightarrow> same_locks s s2"
  by (simp add: same_locks_def)

lemma m_append_fields [simp]:
  "md_stateObjects (m_append e d) = md_stateObjects d" "md_thash (m_append e d) = md_thash d"
  by (simp_all add: m_append_def Let_def split: option.splits)

lemma placed_ok:
  assumes "m_ok (d, c)" "md_stateObjects d' = md_stateObjects d" "md_thash d' = md_thash d" "\<not> so_deleted obj"
    "alloc obj c = (p, c')" "s1 = (stdb_setStateObject a p d', m_setStateObject a p c')"
  shows "m_ok s1 \<and> same_locks (d, c) s1 \<and> map_of (md_stateObjects (fst s1)) a = Some p \<and> p < length (mc_heap (snd s1))
    \<and> \<not> so_deleted (mc_heap (snd s1) ! p)"
proof -
  have p: "p = length (mc_heap c)" "c' = c\<lparr>mc_heap := mc_heap c @ [obj]\<rparr>" using assms(5) by (auto simp: alloc_def)
  have "lockedBy (m_setStateObject a p c') = lockedBy c" by (auto simp: p m_setStateObject_def lockedBy_def intro!: ext)
  then show ?thesis
    using assms(1-4,6) by (auto simp: p m_ok_def same_locks_def stdb_setStateObject_def m_setStateObject_def less_SucI)
qed

lemma m_createObject_ok:
  assumes "m_createObject E a s = (p, prev, s1)" "m_ok s"
  shows "m_ok s1" "same_locks s s1"
    "map_of (md_stateObjects (fst s1)) a = Some p \<and> p < length (mc_heap (snd s1)) \<and> \<not> so_deleted (mc_heap (snd s1) ! p)"
proof -
  obtain o1 d1 c1 where g: "m_getStateObject E a s = (o1, d1, c1)" by (metis prod_cases3)
  note l = m_getStateObject_ok [OF g assms(2)]
  have nd: "\<not> so_deleted (so_setNonce 0 (newObject E a zeroAccount))" by (simp add: newObject_def so_setNonce_def)
  obtain c' where al: "alloc (so_setNonce 0 (newObject E a zeroAccount)) c1 = (p, c')"
    and s1: "s1 = (stdb_setStateObject a p (case o1 of None \<Rightarrow> m_append (MEntry (createObjectChange a)) d1
        | Some q \<Rightarrow> m_append (MReset q) d1), m_setStateObject a p c')"
    using assms(1) g by (auto simp: m_createObject_def Let_def split: prod.splits)
  have "m_ok s1 \<and> same_locks (d1, c1) s1 \<and> map_of (md_stateObjects (fst s1)) a = Some p \<and> p < length (mc_heap (snd s1))
    \<and> \<not> so_deleted (mc_heap (snd s1) ! p)"
    by (rule placed_ok [OF l(1) _ _ nd al s1]) (simp_all split: option.split)
  then show "m_ok s1" "same_locks s s1"
    "map_of (md_stateObjects (fst s1)) a = Some p \<and> p < length (mc_heap (snd s1)) \<and> \<not> so_deleted (mc_heap (snd s1) ! p)"
    using same_locks_trans [OF l(2)] by auto
qed

definition at_object :: "Address \<Rightarrow> ptr \<Rightarrow> 'tr mstate \<Rightarrow> bool" where
  "at_object a p s \<longleftrightarrow> m_ok s \<and> map_of (md_stateObjects (fst s)) a = Some p \<and> p < length (mc_heap (snd s))
     \<and> \<not> so_deleted (mc_heap (snd s) ! p) \<and> lockedBy (snd s) a = md_thash (fst s)"

lemma m_GetOrNewStateObject_ok:
  assumes "m_GetOrNewStateObject E a s = Inr (p, s1)" "m_ok s"
  shows "at_object a p s1"
proof -
  obtain s2 where l: "m_lock a s = Inr s2" using assms(1) by (auto simp: m_GetOrNewStateObject_def split: sum.splits)
  note k = m_lock_Inr [OF l assms(2)]
  obtain o1 s3 where g: "m_getStateObject E a s2 = (o1, s3)" by (meson surj_pair)
  note h = m_getStateObject_ok [OF g k(3)]
  show ?thesis
  proof (cases o1)
    case (Some q)
    with assms(1) l g h(3) have "p = q" "s1 = s3" by (auto simp: m_GetOrNewStateObject_def)
    with h Some k(2) show ?thesis by (auto simp: at_object_def same_locks_def)
  next
    case None
    obtain prev where c: "m_createObject E a s3 = (p, prev, s1)"
      using assms(1) l g None by (auto simp: m_GetOrNewStateObject_def split: prod.splits)
    from m_createObject_ok [OF c h(1)] h(2) k(2) show ?thesis by (auto simp: at_object_def same_locks_def)
  qed
qed

lemma m_read_at:
  assumes "at_object a p (d, c)"
  shows "m_read E a dflt f (d, c) = Inr (f p (d, c))"
  using assms by (simp add: at_object_def m_read_def m_lock_again m_getStateObject_def)

lemma at_object_write:
  "at_object a p (d, c) \<Longrightarrow> \<not> so_deleted obj \<Longrightarrow> at_object a p (d, writePtr p obj c)"
  by (auto simp: at_object_def writePtr_def m_ok_def lockedBy_def)

lemma at_object_journal:
  "at_object a p (d, c) \<Longrightarrow> at_object a p (d\<lparr>md_entries := x, md_dirties := y\<rparr>, c)"
  by (simp add: at_object_def m_ok_def)

lemma so_SetPDXState_cached:
  "so_SetPDXState E k v obj j = (obj', j') \<Longrightarrow> map_of (so_pdxCachedStorage obj') k = Some v \<and> so_deleted obj' = so_deleted obj"
  using GetPDXState_view(3) [of E k obj]
  by (auto simp: so_SetPDXState_def so_setPDXState_def so_ident_def split: prod.splits)

lemma m_SetPDXState_put:
  assumes "m_SetPDXState E a k v s = Inr s1" "m_ok s"
  obtains p where "at_object a p s1" "map_of (so_pdxCachedStorage (mc_heap (snd s1) ! p)) k = Some v"
proof -
  obtain p d c where g: "m_GetOrNewStateObject E a s = Inr (p, d, c)"
    and s1: "s1 = callMethod (so_SetPDXState E k v) p (d, c)"
    using assms(1) by (auto simp: m_SetPDXState_def m_onObject_def split: sum.splits prod.splits)
  note at = m_GetOrNewStateObject_ok [OF g assms(2)]
  obtain obj j where f: "so_SetPDXState E k v (mc_heap c ! p) \<lparr>j_entries = [], j_dirties = md_dirties d\<rparr> = (obj, j)" by fastforce
  note ca = so_SetPDXState_cached [OF f]
  have "\<not> so_deleted obj" using at ca by (simp add: at_object_def)
  then have "at_object a p s1"
    unfolding s1 callMethod_def prod.case f by (intro at_object_journal at_object_write [OF at])
  moreover have "map_of (so_pdxCachedStorage (mc_heap (snd s1) ! p)) k = Some v"
    using at ca by (simp add: s1 callMethod_def f writePtr_def at_object_def)
  ultimately show thesis by (rule that)
qed

lemma m_put_get:
  assumes "m_SetPDXState E a k v s = Inr s1" "m_ok s"
  shows "m_GetPDXState E a k s1 = Inr (v, s1)"
proof -
  obtain p where p: "at_object a p s1" "map_of (so_pdxCachedStorage (mc_heap (snd s1) ! p)) k = Some v"
    by (rule m_SetPDXState_put [OF assms])
  obtain d c where s1: "s1 = (d, c)" by fastforce
  from p show ?thesis unfolding s1
    by (simp add: m_GetPDXState_def m_read_at readMethod_def so_GetPDXState_def writePtr_def)
qed

lemma m_GetPDXState_ok:
  assumes "m_GetPDXState E a k s = Inr (v, s1)" "m_ok s"
  shows "m_ok s1" "\<exists>s2. m_GetPDXState E a k s1 = Inr (v, s2)"
proof -
  obtain s2 where l: "m_lock a s = Inr s2" using assms(1) by (auto simp: m_GetPDXState_def m_read_def split: sum.splits)
  note kk = m_lock_Inr [OF l assms(2)]
  obtain o1 d c where g: "m_getStateObject E a s2 = (o1, d, c)" by (metis prod_cases3)
  note h = m_getStateObject_ok [OF g kk(3)]
  have "m_ok s1 \<and> (\<exists>s2. m_GetPDXState E a k s1 = Inr (v, s2))"
  proof (cases o1)
    case (Some p)
    obtain obj where f: "so_GetPDXState E k (mc_heap c ! p) = (v, obj)" and s1: "s1 = (d, writePtr p obj c)"
      using assms(1) l g Some by (auto simp: m_GetPDXState_def m_read_def readMethod_def split: prod.splits)
    note view = GetPDXState_view [OF f]
    have at: "at_object a p (d, c)" using h Some kk(2) by (auto simp: at_object_def same_locks_def)
    have at': "at_object a p s1" unfolding s1
      using at view(3) by (intro at_object_write) (auto simp: at_object_def so_ident_def)
    obtain w ob where f2: "so_GetPDXState E k obj = (w, ob)" by fastforce
    have "w = v" using GetPDXState_view(1) [OF f2] view(1,2) by simp
    moreover have "mc_heap (snd s1) ! p = obj" using at by (simp add: s1 writePtr_def at_object_def)
    ultimately have "m_GetPDXState E a k s1 = Inr (v, d, writePtr p ob (writePtr p obj c))"
      using at' f2 by (simp add: s1 m_GetPDXState_def m_read_at readMethod_def)
    with at' show ?thesis by (auto simp: at_object_def)
  next
    case None
    then have s1: "s1 = (d, c)" "v = []" using assms(1) l g by (auto simp: m_GetPDXState_def m_read_def)
    have lk: "m_lock a (d, c) = Inr (d, c)" using h(2) kk(2) by (intro m_lock_again) (simp add: same_locks_def)
    have "fst (m_getStateObject E a (d, c)) = None"
      using g None
      by (auto simp: m_getStateObject_def loadAccount_def stdb_setStateObject_def m_setError_def alloc_def
          split: prod.splits option.splits if_splits sum.splits)
    with lk s1 h(1) show ?thesis
      by (auto simp: m_GetPDXState_def m_read_def split: prod.splits)
  qed
  then show "m_ok s1" "\<exists>s2. m_GetPDXState E a k s1 = Inr (v, s2)" by auto
qed

text \<open>The second storage of an account is a key-value store.\<close>

interpretation pdx: kv_store "m_GetPDXState E a" "m_SetPDXState E a" m_ok for E :: "'tr env" and a :: Address
proof
  fix k v and s s1 :: "'tr mstate"
  assume "m_ok s" "m_SetPDXState E a k v s = Inr s1"
  then show "m_ok s1" "m_GetPDXState E a k s1 = Inr (v, s1)"
    using m_SetPDXState_put [of E a k v s s1] m_put_get [of E a k v s s1] unfolding at_object_def by blast+
next
  fix k v and s s1 :: "'tr mstate"
  assume "m_ok s" "m_GetPDXState E a k s = Inr (v, s1)"
  then show "m_ok s1" "\<exists>s2. m_GetPDXState E a k s1 = Inr (v, s2)" using m_GetPDXState_ok by blast+
qed

end
