(* ===== verification/SoProps.thy ===== *)
theory SoProps
  imports SoLaws MultiProps
begin

text \<open>The properties of the call interface: what a contract can store, read and query.\<close>

section \<open>A concrete database\<close>

definition soState :: "(bytes \<times> bytes) list mstate" where
  "soState = (m_Prepare (tx 1) zeroHash 0 newStdb, newMContext [])"

definition soChain :: "(bytes \<times> bytes) list PublicBlockChain" where
  "soChain = \<lparr>bc_GetBlockByNumber = (\<lambda>n. Some (zeroHash, n)), bc_StateAt = (\<lambda>_. Inr emptyState)\<rparr>"

text \<open>A chain whose states all hold the value \<open>[118]\<close> under the key \<open>[107]\<close>.\<close>

definition soChain1 :: "(bytes \<times> bytes) list PublicBlockChain" where
  "soChain1 = \<lparr>bc_GetBlockByNumber = (\<lambda>n. Some (zeroHash, n)),
               bc_StateAt = (\<lambda>_. Inr (SetPDXState alistEnv addrA (BytesToHash [107]) [118] emptyState))\<rparr>"

definition soStub :: SOCallStub where
  "soStub = NewSoCallStub [go_string ''savePersonInfo'', [107], [118]] addrA"

lemma soState_ok: "m_ok soState"
  by (simp add: m_ok_def soState_def newStdb_def m_Prepare_def newMContext_def)

section \<open>Storing\<close>

lemma stub_PutState_eq:
  "stub_PutState E BC stub key v s =
     (if key = [] then Inr (Some SoCallError_Input_Error, s)
      else (case m_SetPDXState E (stub_address stub) (BytesToHash key) v s of
              Inl p \<Rightarrow> Inl (DBPanic p) | Inr s1 \<Rightarrow> Inr (None, s1)))"
  by (simp add: stub_PutState_def handle_def validityInput_def deref_def handle_PUT_STATE_def answer_def
      SoCall_GET_STATE_def SoCall_PUT_STATE_def split: sum.splits)

lemma stub_DelState_eq:
  "stub_DelState E BC stub key s =
     (if key = [] then Inr (Some SoCallError_Input_Error, s)
      else (case m_SetPDXState E (stub_address stub) (BytesToHash key) [] s of
              Inl p \<Rightarrow> Inl (DBPanic p) | Inr s1 \<Rightarrow> Inr (None, s1)))"
  by (simp add: stub_DelState_def handle_def validityInput_def deref_def handle_DEL_STATE_def answer_def
      SoCall_GET_STATE_def SoCall_PUT_STATE_def Socall_PUT_STATES_def SoCall_DEL_STATE_def split: sum.splits)

text \<open>The example contract's \<open>savePersonInfo\<close> returns the value it was given and stores it under the
  key, where it can be read back.\<close>

theorem Run_savePersonInfo:
  assumes "m_ok s" "stub_args stub = [go_string ''savePersonInfo'', key, v]"
    "Run E BC (Some stub) s = Inr ((r, None), s1)"
  shows "r = v \<and> m_GetPDXState E (stub_address stub) (BytesToHash key) s1 = Inr (v, s1)"
proof -
  have ne: "go_string ''savePersonInfo'' \<noteq> go_string ''queryPersonInfo''" by code_simp
  have "savePersonInfo E BC stub [key, v] s = Inr ((r, None), s1)"
    using assms(2,3) ne by (simp add: Run_def GetFunctionAndParameters_def GetArgs_def)
  then have p: "stub_PutState E BC stub key v s = Inr (None, s1)" and r: "r = v"
    by (auto simp: savePersonInfo_def split: sum.splits if_splits prod.splits)
  from p have "m_SetPDXState E (stub_address stub) (BytesToHash key) v s = Inr s1"
    by (auto simp: stub_PutState_eq split: if_splits sum.splits)
  with m_put_get assms(1) r show ?thesis by blast
qed

theorem Run_savePersonInfo_witness:
  "\<exists>s1. m_GetPDXState alistEnv addrA (BytesToHash [107]) s1 = Inr ([118], s1)
     \<and> Run alistEnv soChain (Some soStub) soState = Inr (([118], None), s1)"
proof -
  have "map_sum id fst (Run alistEnv soChain (Some soStub) soState) = Inr ([118], None)" by code_simp
  then obtain s1 where s1: "Run alistEnv soChain (Some soStub) soState = Inr (([118], None), s1)"
    by (cases "Run alistEnv soChain (Some soStub) soState") auto
  have st: "stub_args soStub = [go_string ''savePersonInfo'', [107], [118]]" "stub_address soStub = addrA"
    by (simp_all add: soStub_def NewSoCallStub_def)
  from Run_savePersonInfo [OF soState_ok st(1) s1] st(2)
  have "m_GetPDXState alistEnv addrA (BytesToHash [107]) s1 = Inr ([118], s1)" by simp
  with s1 show ?thesis by blast
qed

section \<open>Reading\<close>

text \<open>\<open>GetState\<close> never returns a stored value: where the key has one, the handler leaves its answer nil and
  the stub dereferences it; where it has none, the error is \<open>SoCallError_NoResult\<close>.\<close>

theorem stub_GetState_panics_on_value:
  assumes "key \<noteq> []" "m_GetPDXState E (stub_address stub) (BytesToHash key) s = Inr (v, s1)"
  shows "stub_GetState E BC stub key s = (if v \<noteq> [] then Inl NilPointer else Inr (([], Some SoCallError_NoResult), s1))"
  using assms
  by (simp add: stub_GetState_def handle_def validityInput_def deref_def handle_GET_STATE_def answer_def SoCall_GET_STATE_def)

lemma stub_GetState_after_write:
  assumes "m_ok s" "key \<noteq> []" "m_SetPDXState E (stub_address stub) (BytesToHash key) v s = Inr s1"
  shows "stub_GetState E BC stub key s1 = (if v \<noteq> [] then Inl NilPointer else Inr (([], Some SoCallError_NoResult), s1))"
  by (rule stub_GetState_panics_on_value [OF assms(2) m_put_get [OF assms(3,1)]])

theorem stub_GetState_panics_on_value_witness:
  "\<exists>s1. stub_PutState alistEnv soChain soStub [107] [118] soState = Inr (None, s1)
     \<and> stub_GetState alistEnv soChain soStub [107] s1 = Inl NilPointer"
proof -
  have "map_sum id fst (stub_PutState alistEnv soChain soStub [107] [118] soState) = Inr None" by code_simp
  then obtain s1 where s1: "stub_PutState alistEnv soChain soStub [107] [118] soState = Inr (None, s1)"
    by (cases "stub_PutState alistEnv soChain soStub [107] [118] soState") auto
  then have "m_SetPDXState alistEnv (stub_address soStub) (BytesToHash [107]) [118] soState = Inr s1"
    by (auto simp: stub_PutState_eq split: sum.splits)
  from m_put_get [OF this soState_ok] stub_GetState_panics_on_value [of "[107]" alistEnv soStub s1 "[118]" s1 soChain] s1
  show ?thesis by auto
qed

text \<open>C18. What a contract stores is in the database: after \<open>PutState\<close> without error, every later read of the
  key from the database of the transaction (\<open>MStateDB.GetPDXState\<close>) returns the value, and after \<open>DelState\<close> the
  empty value, so a transaction reads its own writes, although the interface says that \<open>GetState\<close> does not
  read what is not committed. The contract's own \<open>GetState\<close> panics on a key with a stored value that is not empty,
  and reports no result after \<open>DelState\<close>. The empty key is refused and changes nothing.\<close>

theorem stub_put_then_read:
  assumes "m_ok s"
  shows "(stub_PutState E BC stub key v s = Inr (None, s1) \<longrightarrow>
      pdx.read_many E (stub_address stub) n (BytesToHash key) s1 = Inr (replicate n v)
      \<and> (v \<noteq> [] \<longrightarrow> stub_GetState E BC stub key s1 = Inl NilPointer))
    \<and> (stub_DelState E BC stub key s = Inr (None, s1) \<longrightarrow>
      pdx.read_many E (stub_address stub) n (BytesToHash key) s1 = Inr (replicate n [])
      \<and> stub_GetState E BC stub key s1 = Inr (([], Some SoCallError_NoResult), s1))
    \<and> stub_PutState E BC stub [] v s = Inr (Some SoCallError_Input_Error, s)"
proof (intro conjI impI)
  assume p: "stub_PutState E BC stub key v s = Inr (None, s1)"
  then have m: "key \<noteq> []" "m_SetPDXState E (stub_address stub) (BytesToHash key) v s = Inr s1"
    by (auto simp: stub_PutState_eq split: if_splits sum.splits)
  show "pdx.read_many E (stub_address stub) n (BytesToHash key) s1 = Inr (replicate n v)"
    by (rule pdx.read_many_after_put [OF assms m(2)])
  show "stub_GetState E BC stub key s1 = Inl NilPointer" if "v \<noteq> []"
    using stub_GetState_after_write [OF assms m] that by simp
next
  assume p: "stub_DelState E BC stub key s = Inr (None, s1)"
  then have m: "key \<noteq> []" "m_SetPDXState E (stub_address stub) (BytesToHash key) [] s = Inr s1"
    by (auto simp: stub_DelState_eq split: if_splits sum.splits)
  show "pdx.read_many E (stub_address stub) n (BytesToHash key) s1 = Inr (replicate n [])"
    by (rule pdx.read_many_after_put [OF assms m(2)])
  show "stub_GetState E BC stub key s1 = Inr (([], Some SoCallError_NoResult), s1)"
    using stub_GetState_after_write [OF assms m] by simp
qed (simp add: stub_PutState_eq)

theorem stub_put_then_read_witness:
  "\<exists>s1. stub_PutState alistEnv soChain soStub [107] [118] soState = Inr (None, s1)
     \<and> pdx.read_many alistEnv addrA 2 (BytesToHash [107]) s1 = Inr [[118], [118]]"
proof -
  have "map_sum id fst (stub_PutState alistEnv soChain soStub [107] [118] soState) = Inr None" by code_simp
  then obtain s1 where s1: "stub_PutState alistEnv soChain soStub [107] [118] soState = Inr (None, s1)"
    by (cases "stub_PutState alistEnv soChain soStub [107] [118] soState") auto
  have "stub_address soStub = addrA" by (simp add: soStub_def NewSoCallStub_def)
  with stub_put_then_read [OF soState_ok, of alistEnv soChain soStub "[107]" "[118]" s1 2] s1 show ?thesis
    by (simp add: numeral_2_eq_2)
qed

text \<open>\<open>PUT_STATES\<close> stores nothing: for every even number of inputs the loop bound is the remainder 0, so
  the handler reports success and leaves the database as it was.\<close>

theorem put_states_stores_nothing:
  assumes "callType message = Socall_PUT_STATES" "msg_inputs message = k # rest" "k \<noteq> []" "even (length (msg_inputs message))"
  shows "handle E BC message s = Inr (Some \<lparr>msg_res = [], msg_err = None\<rparr>, s)"
  using assms
  by (simp add: handle_def validityInput_def handle_PUT_STATES_def answer_def put_states.simps
      SoCall_GET_STATE_def SoCall_PUT_STATE_def Socall_PUT_STATES_def even_iff_mod_2_eq_zero)

theorem put_states_stores_nothing_witness:
  "handle alistEnv soChain \<lparr>msg_inputs = [[107], [118]], callType = Socall_PUT_STATES, msg_address = addrA\<rparr> soState
     = Inr (Some \<lparr>msg_res = [], msg_err = None\<rparr>, soState)"
  by (rule put_states_stores_nothing [where k = "[107]" and rest = "[[118]]"]) simp_all

section \<open>History\<close>

lemma list_encoding: "EncodeToBytes (TPtr listType) (VPtr (listVal rs)) = Inr [0xC0]"
  unfolding listVal_def by code_simp

lemma list_decode_empty: "DecodeBytes [] (PointerTo listType) = Inl io_EOF"
  by code_simp

lemma ByteToUint64_Uint64ToByte: "ByteToUint64 (Uint64ToByte n) = Some n"
proof -
  have "unat n < 256 ^ 8" using unsigned_less [of n] by simp
  then show ?thesis by (simp add: ByteToUint64_def Uint64ToByte_def be_to_nat_be_fixed)
qed

lemma handle_history_eq:
  assumes "key \<noteq> []"
  shows "handle E BC \<lparr>msg_inputs = [key, Uint64ToByte start, Uint64ToByte fin], callType = SoCall_GET_HISTORY, msg_address = a\<rparr> s =
     (if start > fin then answer [] (Some SoCallError_Start_FinishNum_Illegal) s
      else (case history E BC a (BytesToHash key) start fin 0 [] of
              Inl p \<Rightarrow> Inl p
            | Inr _ \<Rightarrow> answer [0xC0] (Some SoCallError_History_Limit_Reached) s))"
  using assms
  by (simp add: handle_def validityInput_def handle_GET_HISTORY_def ByteToUint64_Uint64ToByte list_encoding
      SoCall_GET_STATE_def SoCall_PUT_STATE_def Socall_PUT_STATES_def SoCall_DEL_STATE_def SoCall_GET_HISTORY_def
      cong: sum.case_cong)

text \<open>The loop in three steps: past the end, at a missing block, and at a block that is there.\<close>

lemma history_end: "\<not> i < fin \<Longrightarrow> history E BC a k i fin ts rs = Inr rs"
  by (subst history.simps) simp

lemma history_missing: "i < fin \<Longrightarrow> bc_GetBlockByNumber BC i = None \<Longrightarrow> history E BC a k i fin ts rs = Inl NilPointer"
  by (subst history.simps) simp

lemma history_block:
  assumes "i < fin" "bc_GetBlockByNumber BC i = Some b"
  shows "(\<exists>rs'. history E BC a k i fin ts rs = Inr rs')
     \<or> (\<exists>ts' rs'. history E BC a k i fin ts rs = history E BC a k (i + 1) fin ts' rs')"
proof (cases b)
  case (Pair root number)
  show ?thesis
    by (subst (1 2) history.simps) (auto simp: assms Pair Let_def split: sum.splits)
qed

lemma history_result:
  "history E BC a k i fin ts rs = Inl NilPointer \<or> (\<exists>rs'. history E BC a k i fin ts rs = Inr rs')"
proof (induction "unat fin - unat i" arbitrary: i ts rs rule: less_induct)
  case less
  show ?case
  proof (cases "i < fin")
    case True
    show ?thesis
    proof (cases "bc_GetBlockByNumber BC i")
      case (Some b)
      with True less u64_countdown [OF True] show ?thesis by (metis history_block)
    qed (simp add: history_missing True)
  qed (simp add: history_end)
qed

lemma history_returns:
  assumes "\<And>n. n < fin \<Longrightarrow> bc_GetBlockByNumber BC n \<noteq> None"
  shows "\<exists>rs'. history E BC a k i fin ts rs = Inr rs'"
proof (induction "unat fin - unat i" arbitrary: i ts rs rule: less_induct)
  case less
  show ?case
  proof (cases "i < fin")
    case True
    with assms obtain b where "bc_GetBlockByNumber BC i = Some b" by blast
    with True less u64_countdown [OF True] show ?thesis by (metis history_block)
  qed (simp add: history_end)
qed


text \<open>\<open>GetHistoryForKey\<close> never returns a record: where all blocks of the range exist the error is
  \<open>SoCallError_History_Limit_Reached\<close>, where one is missing the call may panic on the nil block, and where
  the range is empty the caller sees the decoder's \<open>EOF\<close> in place of the handler's error.\<close>

theorem GetHistoryForKey_no_record:
  assumes "key \<noteq> []"
  shows "(fin < start \<longrightarrow> stub_GetHistoryForKey E BC stub key start fin s = Inr ((None, Some (HistoryDecodeError io_EOF)), s))
    \<and> (start \<le> fin \<longrightarrow> stub_GetHistoryForKey E BC stub key start fin s
         \<in> {Inl NilPointer, Inr ((None, Some SoCallError_History_Limit_Reached), s)})
    \<and> (start \<le> fin \<and> (\<forall>n < fin. bc_GetBlockByNumber BC n \<noteq> None) \<longrightarrow>
         stub_GetHistoryForKey E BC stub key start fin s = Inr ((None, Some SoCallError_History_Limit_Reached), s))"
proof -
  have "start \<le> fin \<longrightarrow> stub_GetHistoryForKey E BC stub key start fin s =
    (case history E BC (stub_address stub) (BytesToHash key) start fin 0 [] of
       Inl p \<Rightarrow> Inl p | Inr _ \<Rightarrow> Inr ((None, Some SoCallError_History_Limit_Reached), s))"
    by (auto simp: stub_GetHistoryForKey_def handle_history_eq [OF assms] deref_def answer_def not_less [symmetric] split: sum.splits)
  moreover have "fin < start \<longrightarrow> stub_GetHistoryForKey E BC stub key start fin s = Inr ((None, Some (HistoryDecodeError io_EOF)), s)"
    by (simp add: stub_GetHistoryForKey_def handle_history_eq [OF assms] deref_def answer_def list_decode_empty)
  moreover note history_result [of E BC "stub_address stub" "BytesToHash key" start fin 0 "[]"]
  moreover have "(\<forall>n < fin. bc_GetBlockByNumber BC n \<noteq> None) \<longrightarrow>
      (\<exists>rs'. history E BC (stub_address stub) (BytesToHash key) start fin 0 [] = Inr rs')"
    using history_returns by blast
  ultimately show ?thesis by (auto split: sum.splits)
qed

theorem GetHistoryForKey_no_record_witness:
  "stub_GetHistoryForKey alistEnv soChain soStub [107] 0 3 soState = Inr ((None, Some SoCallError_History_Limit_Reached), soState)
   \<and> stub_GetHistoryForKey alistEnv soChain soStub [107] 4 3 soState = Inr ((None, Some (HistoryDecodeError io_EOF)), soState)"
  using GetHistoryForKey_no_record [of "[107]" 3 0 alistEnv soChain soStub soState]
    GetHistoryForKey_no_record [of "[107]" 3 4 alistEnv soChain soStub soState]
  by (simp add: soChain_def)

text \<open>The fields of a record are not exported, so the codec sees an empty list.\<close>

lemma record_encoding:
  "EncodeToBytes (TPtr recordElementType) (VPtr (VStruct [VBytes v, VUint n])) = Inr [0xC0]"
  by code_simp

lemma RecordElement_Size_one: "RecordElement_Size r = 1"
  by (simp add: RecordElement_Size_def record_encoding)

text \<open>The record of a block, if the key has a value there.\<close>

definition recordAt :: "('tr, 'z) env_scheme \<Rightarrow> 'tr PublicBlockChain \<Rightarrow> Address \<Rightarrow> Hash \<Rightarrow> nat \<Rightarrow> RecordElement list" where
  "recordAt E BC a k n =
     (case bc_GetBlockByNumber BC (word_of_nat n) of
        None \<Rightarrow> []
      | Some (root, number) \<Rightarrow>
          (case bc_StateAt BC root of
             Inl _ \<Rightarrow> []
           | Inr st \<Rightarrow> (let v = fst (GetPDXState E a k st) in if v = [] then [] else [\<lparr>re_value = v, re_num = number\<rparr>])))"

definition blocks_there :: "'tr PublicBlockChain \<Rightarrow> u64 \<Rightarrow> bool" where
  "blocks_there BC fin = (\<forall>n < fin. bc_GetBlockByNumber BC n \<noteq> None)"

definition state_there :: "'tr PublicBlockChain \<Rightarrow> nat \<Rightarrow> bool" where
  "state_there BC n =
     (case bc_GetBlockByNumber BC (word_of_nat n) of None \<Rightarrow> False | Some (root, _) \<Rightarrow> \<not> isl (bc_StateAt BC root))"

lemma history_complete_from:
  assumes "blocks_there BC fin" "unat ts + (unat fin - unat i) < MaxSize"
  shows "history E BC a k i fin ts rs
     = Inr (rev (concat (map (recordAt E BC a k) (takeWhile (state_there BC) [unat i..<unat fin]))) @ rs)"
  using assms(2)
proof (induction "unat fin - unat i" arbitrary: i ts rs rule: less_induct)
  case less
  show ?case
  proof (cases "i < fin")
    case True
    then obtain root number where b: "bc_GetBlockByNumber BC i = Some (root, number)"
      using assms(1) by (auto simp: blocks_there_def)
    have lt: "unat i < unat fin" using True by (simp add: word_less_nat_alt)
    moreover have "unat fin < 2 ^ 64" using unsigned_less [of fin] by simp
    ultimately have i1: "unat (i + 1) = Suc (unat i)" by (simp add: unat_word_ariths)
    have ts1: "unat (ts + 1) = Suc (unat ts)"
      using less.prems by (simp add: unat_word_ariths MaxSize_def)
    have small: "\<not> word_of_nat MaxSize \<le> ts + 1"
      using less.prems ts1 lt by (simp add: word_le_nat_alt MaxSize_def)
    have "unat fin - unat (i + 1) < unat fin - unat i" using u64_countdown True by blast
    note IH = less.hyps [OF this, unfolded i1]
    show ?thesis
    proof (cases "bc_StateAt BC root")
      case (Inl e)
      then show ?thesis
        by (subst history.simps) (simp add: True b upt_conv_Cons [OF lt] state_there_def)
    next
      case (Inr st)
      then have there: "state_there BC (unat i)" by (simp add: state_there_def b)
      show ?thesis
        using less.prems lt IH [of ts rs] IH [of "ts + 1"] small ts1 there
        by (subst history.simps)
          (simp add: Let_def True b Inr RecordElement_Size_one upt_conv_Cons [OF lt] recordAt_def [of _ _ _ _ "unat i"])
    qed
  qed (simp add: history_end word_less_nat_alt)
qed

text \<open>C40. The history of a key: over a chain that has every block below the end of the range, and for a range of
  less than \<open>MaxSize\<close> blocks, the loop of \<open>GET_HISTORY\<close> returns, newest first, the value of the key in every
  block of the range that has one, the last block excluded, up to the first block whose state is not available,
  where it breaks off without an error. A value that does not change from one block to the next has a record for
  each of them. The size limit counts one byte for every record, whatever its value.\<close>

theorem history_complete:
  assumes "blocks_there BC fin" "unat fin - unat start < MaxSize"
  shows "history E BC a k start fin 0 []
       = Inr (rev (concat (map (recordAt E BC a k) (takeWhile (state_there BC) [unat start..<unat fin]))))
    \<and> RecordElement_Size r = 1"
  using history_complete_from [OF assms(1), of 0 start E a k "[]"] assms(2) by (simp add: RecordElement_Size_one)

text \<open>A chain that has lost the state of its block 2.\<close>

definition soChain2 :: "(bytes \<times> bytes) list PublicBlockChain" where
  "soChain2 = \<lparr>bc_GetBlockByNumber = (\<lambda>n. Some (BytesToHash [if n = 2 then 1 else 0], n)),
               bc_StateAt = (\<lambda>root. if root = BytesToHash [1] then Inl (DBError '''')
                  else Inr (SetPDXState alistEnv addrA (BytesToHash [107]) [118] emptyState))\<rparr>"

theorem history_complete_witness:
  "history alistEnv soChain1 addrA (BytesToHash [107]) 1 3 0 []
     = Inr [\<lparr>re_value = [118], re_num = 2\<rparr>, \<lparr>re_value = [118], re_num = 1\<rparr>]
   \<and> history alistEnv soChain2 addrA (BytesToHash [107]) 1 4 0 [] = Inr [\<lparr>re_value = [118], re_num = 1\<rparr>]"
proof -
  have c: "blocks_there soChain1 3" "blocks_there soChain2 4"
    by (simp_all add: blocks_there_def soChain1_def soChain2_def)
  have "recordAt alistEnv soChain1 addrA (BytesToHash [107]) 1 = [\<lparr>re_value = [118], re_num = 1\<rparr>]"
    "recordAt alistEnv soChain1 addrA (BytesToHash [107]) 2 = [\<lparr>re_value = [118], re_num = 2\<rparr>]"
    "recordAt alistEnv soChain2 addrA (BytesToHash [107]) 1 = [\<lparr>re_value = [118], re_num = 1\<rparr>]"
    "takeWhile (state_there soChain1) [1..<3] = [1, 2]" "takeWhile (state_there soChain2) [1..<4] = [1]"
    by code_simp+
  then show ?thesis
    using history_complete [OF c(1), of 1 alistEnv addrA "BytesToHash [107]"]
      history_complete [OF c(2), of 1 alistEnv addrA "BytesToHash [107]"] by (simp add: MaxSize_def)
qed

section \<open>Refused messages\<close>

text \<open>What the handler refuses leaves the database alone: an empty key for every kind of call, a wrong number of
  inputs for \<open>PUT_STATE\<close>, \<open>PUT_STATES\<close> and \<open>GET_HISTORY\<close>. A message without inputs panics, and a call
  type that the switch does not list is answered with nil.\<close>

theorem handle_refuses:
  "(msg_inputs message = [] \<longrightarrow> handle E BC message s = Inl IndexOutOfRange)
   \<and> (\<forall>rest. msg_inputs message = [] # rest \<longrightarrow> handle E BC message s = answer [] (Some SoCallError_Input_Error) s)
   \<and> (\<forall>key rest. msg_inputs message = key # rest \<and> key \<noteq> [] \<longrightarrow>
        (callType message = SoCall_PUT_STATE \<and> length rest \<noteq> 1
         \<or> callType message = Socall_PUT_STATES \<and> even (length rest)
         \<or> callType message = SoCall_GET_HISTORY \<and> length rest mod 3 \<noteq> 2 \<longrightarrow>
           handle E BC message s = answer [] (Some SoCallError_Key_Value_NotMatch) s)
        \<and> (callType message \<notin> {1..5} \<longrightarrow> handle E BC message s = Inr (None, s)))"
proof -
  have "Suc n mod 3 \<noteq> 0" if "n mod 3 \<noteq> 2" for n :: nat using that by (simp add: mod_Suc)
  then show ?thesis
    by (auto simp: handle_def validityInput_def answer_def handle_PUT_STATE_def handle_PUT_STATES_def handle_GET_HISTORY_def
      SoCall_GET_STATE_def SoCall_PUT_STATE_def Socall_PUT_STATES_def SoCall_DEL_STATE_def SoCall_GET_HISTORY_def
      even_iff_mod_2_eq_zero)
qed

theorem handle_refuses_witness:
  "handle alistEnv soChain \<lparr>msg_inputs = [[107], [118], [119]], callType = Socall_PUT_STATES, msg_address = addrA\<rparr> soState
     = answer [] (Some SoCallError_Key_Value_NotMatch) soState"
  using handle_refuses [of "\<lparr>msg_inputs = [[107], [118], [119]], callType = Socall_PUT_STATES, msg_address = addrA\<rparr>" alistEnv soChain soState]
  by simp

end
