(* ===== verification/Hexutil.thy ===== *)
theory Hexutil
  imports Common
begin

text \<open>
  Package \<open>common/hexutil\<close>: the 0x-prefixed hexadecimal of byte strings and quantities
  (\<open>hexutil.go\<close>) and its text and JSON methods (\<open>json.go\<close>), with the functions of the Go library they
  call (\<open>encoding/hex\<close>, \<open>strconv\<close>, the words of a \<open>big.Int\<close>). Texts are \<open>string\<close>; a method that sets
  its receiver returns the new value with the error. A word of a \<open>big.Int\<close> has 64 bits.
\<close>

section \<open>Errors\<close>

datatype dec_error =
    ErrEmptyString
  | ErrSyntax
  | ErrMissingPrefix
  | ErrOddLength
  | ErrEmptyNumber
  | ErrLeadingZero
  | ErrUint64Range
  | ErrUintRange
  | ErrBig256Range

text \<open>The errors of \<open>encoding/hex\<close> and \<open>strconv\<close> that \<open>mapError\<close> translates.\<close>

datatype lib_error = InvalidByteError char | ErrLength | NumErrSyntax | NumErrRange

definition mapError :: "lib_error \<Rightarrow> dec_error" where
  "mapError e = (case e of NumErrRange \<Rightarrow> ErrUint64Range | NumErrSyntax \<Rightarrow> ErrSyntax
     | InvalidByteError _ \<Rightarrow> ErrSyntax | ErrLength \<Rightarrow> ErrOddLength)"

section \<open>The library functions\<close>

text \<open>\<open>hex.Decode\<close>: a bad digit is reported before an odd length.\<close>

fun hex_Decode :: "string \<Rightarrow> bytes \<times> lib_error option" where
  "hex_Decode [] = ([], None)"
| "hex_Decode [c] = ([], Some (if fromHexChar c = None then InvalidByteError c else ErrLength))"
| "hex_Decode (c # d # cs) =
     (case fromHexChar c of
        None \<Rightarrow> ([], Some (InvalidByteError c))
      | Some x \<Rightarrow>
          (case fromHexChar d of
             None \<Rightarrow> ([], Some (InvalidByteError d))
           | Some y \<Rightarrow> (case hex_Decode cs of (bs, e) \<Rightarrow> (word_of_nat (16 * x + y) # bs, e))))"

text \<open>\<open>strconv.ParseUint\<close> for 64 bits: digits and letters, the cut-off before the product overflows and the
  check that the sum did not.\<close>

definition digitVal :: "char \<Rightarrow> nat option" where
  "digitVal c =
     (let n = (of_char c :: nat) in
      if 48 \<le> n \<and> n \<le> 57 then Some (n - 48)
      else if 97 \<le> n \<and> n \<le> 122 then Some (n - 87)
      else if 65 \<le> n \<and> n \<le> 90 then Some (n - 55)
      else None)"

definition maxUint64 :: u64 where "maxUint64 = - 1"

fun ParseUint_loop :: "nat \<Rightarrow> string \<Rightarrow> u64 \<Rightarrow> u64 \<times> lib_error option" where
  "ParseUint_loop base [] n = (n, None)"
| "ParseUint_loop base (c # cs) n =
     (case digitVal c of
        None \<Rightarrow> (0, Some NumErrSyntax)
      | Some d \<Rightarrow>
          if d \<ge> base then (0, Some NumErrSyntax)
          else if n \<ge> maxUint64 div word_of_nat base + 1 then (maxUint64, Some NumErrRange)
          else (let n' = n * word_of_nat base; n1 = n' + word_of_nat d
                in if n1 < n' then (maxUint64, Some NumErrRange) else ParseUint_loop base cs n1))"

definition ParseUint :: "string \<Rightarrow> nat \<Rightarrow> u64 \<times> lib_error option" where
  "ParseUint s base = (if s = [] then (0, Some NumErrSyntax) else ParseUint_loop base s 0)"

text \<open>The digits of a number, as \<open>strconv.AppendUint\<close> and \<open>%x\<close> print them.\<close>

fun nat_to_hex :: "nat \<Rightarrow> string" where
  "nat_to_hex n = (if n < 16 then [hexDigit n] else nat_to_hex (n div 16) @ [hexDigit (n mod 16)])"

declare nat_to_hex.simps [simp del]

text \<open>\<open>SetBits\<close>: the value of the words of a big integer, the least significant first.\<close>

fun SetBits :: "u64 list \<Rightarrow> nat" where
  "SetBits [] = 0"
| "SetBits (w # ws) = unat w + 2 ^ 64 * SetBits ws"

section \<open>hexutil.go\<close>

definition has0xPrefix :: "string \<Rightarrow> bool" where
  "has0xPrefix input = (length input \<ge> 2 \<and> input ! 0 = CHR ''0'' \<and> (input ! 1 = CHR ''x'' \<or> input ! 1 = CHR ''X''))"

definition hu_Decode :: "string \<Rightarrow> bytes \<times> dec_error option" where
  "hu_Decode input =
     (if length input = 0 then ([], Some ErrEmptyString)
      else if \<not> has0xPrefix input then ([], Some ErrMissingPrefix)
      else (case hex_Decode (drop 2 input) of (b, e) \<Rightarrow> (b, map_option mapError e)))"

definition hu_Encode :: "bytes \<Rightarrow> string" where
  "hu_Encode b = ''0x'' @ hexEncode b"

definition checkNumber :: "string \<Rightarrow> dec_error + string" where
  "checkNumber input =
     (if length input = 0 then Inl ErrEmptyString
      else if \<not> has0xPrefix input then Inl ErrMissingPrefix
      else (let inp = drop 2 input in
            if length inp = 0 then Inl ErrEmptyNumber
            else if length inp > 1 \<and> inp ! 0 = CHR ''0'' then Inl ErrLeadingZero
            else Inr inp))"

definition DecodeUint64 :: "string \<Rightarrow> u64 \<times> dec_error option" where
  "DecodeUint64 input =
     (case checkNumber input of
        Inl e \<Rightarrow> (0, Some e)
      | Inr raw \<Rightarrow> (case ParseUint raw 16 of (dec, e) \<Rightarrow> (dec, map_option mapError e)))"

definition EncodeUint64 :: "u64 \<Rightarrow> string" where
  "EncodeUint64 i = ''0x'' @ nat_to_hex (unat i)"

definition badNibble :: u64 where "badNibble = - 1"

definition decodeNibble :: "char \<Rightarrow> u64" where
  "decodeNibble c =
     (let n = (of_char c :: nat) in
      if n \<ge> 48 \<and> n \<le> 57 then word_of_nat (n - 48)
      else if n \<ge> 65 \<and> n \<le> 70 then word_of_nat (n - 65 + 10)
      else if n \<ge> 97 \<and> n \<le> 102 then word_of_nat (n - 97 + 10)
      else badNibble)"

text \<open>The loops of \<open>DecodeBig\<close>: the nibbles of one word, and the words from the end of the input.\<close>

definition bigWordNibbles :: nat where "bigWordNibbles = 16"

fun decodeWord :: "string \<Rightarrow> u64 \<Rightarrow> u64 option" where
  "decodeWord [] w = Some w"
| "decodeWord (c # cs) w =
     (let nib = decodeNibble c in if nib = badNibble then None else decodeWord cs (w * 16 + nib))"

fun decodeWords :: "nat \<Rightarrow> string \<Rightarrow> nat \<Rightarrow> u64 list option" where
  "decodeWords 0 raw ende = Some []"
| "decodeWords (Suc n) raw ende =
     (let start = ende - bigWordNibbles in
      case decodeWord (drop start (take ende raw)) 0 of
        None \<Rightarrow> None
      | Some w \<Rightarrow> map_option ((#) w) (decodeWords n raw start))"

definition decodeBigRaw :: "string \<Rightarrow> dec_error + nat" where
  "decodeBigRaw raw =
     (if length raw > 64 then Inl ErrBig256Range
      else (case decodeWords (length raw div bigWordNibbles + 1) raw (length raw) of
              None \<Rightarrow> Inl ErrSyntax
            | Some ws \<Rightarrow> Inr (SetBits ws)))"

definition DecodeBig :: "string \<Rightarrow> dec_error + nat" where
  "DecodeBig input = (case checkNumber input of Inl e \<Rightarrow> Inl e | Inr raw \<Rightarrow> decodeBigRaw raw)"

text \<open>\<open>%#x\<close> prints the sign before the prefix.\<close>

definition EncodeBig :: "int \<Rightarrow> string" where
  "EncodeBig b =
     (if b = 0 then ''0x0'' else (if b < 0 then ''-'' else '''') @ ''0x'' @ nat_to_hex (nat \<bar>b\<bar>))"

text \<open>The variants that panic: \<open>None\<close>.\<close>

definition MustDecode :: "string \<Rightarrow> bytes option" where
  "MustDecode input = (case hu_Decode input of (dec, None) \<Rightarrow> Some dec | (_, Some _) \<Rightarrow> None)"

definition MustDecodeUint64 :: "string \<Rightarrow> u64 option" where
  "MustDecodeUint64 input = (case DecodeUint64 input of (dec, None) \<Rightarrow> Some dec | (_, Some _) \<Rightarrow> None)"

definition MustDecodeBig :: "string \<Rightarrow> nat option" where
  "MustDecodeBig input = (case DecodeBig input of Inr dec \<Rightarrow> Some dec | Inl _ \<Rightarrow> None)"

section \<open>json.go\<close>

text \<open>An error of the text methods, or of the JSON methods around them: the message of a \<open>decError\<close> in an
  \<open>UnmarshalTypeError\<close>.\<close>

datatype text_error = TextDec dec_error | TextLength nat nat string
datatype json_error = TypeErrorDec dec_error string | NonString string | OtherError text_error

definition isString :: "string \<Rightarrow> bool" where
  "isString input = (length input \<ge> 2 \<and> input ! 0 = CHR 0x22 \<and> input ! (length input - 1) = CHR 0x22)"

definition unquote :: "string \<Rightarrow> string" where
  "unquote input = take (length input - 2) (drop 1 input)"

definition checkText :: "string \<Rightarrow> bool \<Rightarrow> dec_error + string" where
  "checkText input wantPrefix =
     (if length input = 0 then Inr []
      else if \<not> has0xPrefix input \<and> wantPrefix then Inl ErrMissingPrefix
      else (let inp = (if has0xPrefix input then drop 2 input else input) in
            if length inp mod 2 \<noteq> 0 then Inl ErrOddLength else Inr inp))"

definition checkNumberText :: "string \<Rightarrow> dec_error + string" where
  "checkNumberText input =
     (if length input = 0 then Inr []
      else if \<not> has0xPrefix input then Inl ErrMissingPrefix
      else (let inp = drop 2 input in
            if length inp = 0 then Inl ErrEmptyNumber
            else if length inp > 1 \<and> inp ! 0 = CHR ''0'' then Inl ErrLeadingZero
            else Inr inp))"

definition wrapTypeError :: "text_error + 'a \<Rightarrow> string \<Rightarrow> json_error + 'a" where
  "wrapTypeError r ty =
     (case r of Inl (TextDec e) \<Rightarrow> Inl (TypeErrorDec e ty) | Inl e \<Rightarrow> Inl (OtherError e) | Inr v \<Rightarrow> Inr v)"

definition unmarshalJSON :: "(string \<Rightarrow> text_error + 'a) \<Rightarrow> string \<Rightarrow> string \<Rightarrow> json_error + 'a" where
  "unmarshalJSON unmarshalText ty input =
     (if \<not> isString input then Inl (NonString ty) else wrapTypeError (unmarshalText (unquote input)) ty)"

definition Bytes_MarshalText :: "bytes \<Rightarrow> string" where
  "Bytes_MarshalText b = ''0x'' @ hexEncode b"

definition Bytes_UnmarshalText :: "string \<Rightarrow> text_error + bytes" where
  "Bytes_UnmarshalText input =
     (case checkText input True of
        Inl e \<Rightarrow> Inl (TextDec e)
      | Inr raw \<Rightarrow> (case hex_Decode raw of (dec, Some e) \<Rightarrow> Inl (TextDec (mapError e)) | (dec, None) \<Rightarrow> Inr dec))"

definition Bytes_UnmarshalJSON :: "string \<Rightarrow> json_error + bytes" where
  "Bytes_UnmarshalJSON input = unmarshalJSON Bytes_UnmarshalText ''hexutil.Bytes'' input"

text \<open>The fixed-size variants get the length of \<open>out\<close> and return its new content.\<close>

definition unmarshalFixed :: "bool \<Rightarrow> string \<Rightarrow> nat \<Rightarrow> string \<Rightarrow> text_error + bytes" where
  "unmarshalFixed wantPrefix typname n input =
     (case checkText input wantPrefix of
        Inl e \<Rightarrow> Inl (TextDec e)
      | Inr raw \<Rightarrow>
          if length raw div 2 \<noteq> n then Inl (TextLength (length raw) (n * 2) typname)
          else if list_ex (\<lambda>b. decodeNibble b = badNibble) raw then Inl (TextDec ErrSyntax)
          else Inr (fst (hex_Decode raw)))"

definition UnmarshalFixedText :: "string \<Rightarrow> nat \<Rightarrow> string \<Rightarrow> text_error + bytes" where
  "UnmarshalFixedText typname n input = unmarshalFixed True typname n input"

definition UnmarshalFixedUnprefixedText :: "string \<Rightarrow> nat \<Rightarrow> string \<Rightarrow> text_error + bytes" where
  "UnmarshalFixedUnprefixedText typname n input = unmarshalFixed False typname n input"

definition UnmarshalFixedJSON :: "string \<Rightarrow> nat \<Rightarrow> string \<Rightarrow> json_error + bytes" where
  "UnmarshalFixedJSON typname n input = unmarshalJSON (UnmarshalFixedText typname n) typname input"

definition Big_MarshalText :: "int \<Rightarrow> string" where
  "Big_MarshalText b = EncodeBig b"

definition Big_UnmarshalText :: "string \<Rightarrow> text_error + nat" where
  "Big_UnmarshalText input =
     (case checkNumberText input of
        Inl e \<Rightarrow> Inl (TextDec e)
      | Inr raw \<Rightarrow> map_sum TextDec id (decodeBigRaw raw))"

definition Big_UnmarshalJSON :: "string \<Rightarrow> json_error + nat" where
  "Big_UnmarshalJSON input = unmarshalJSON Big_UnmarshalText ''*hexutil.Big'' input"

definition Uint64_MarshalText :: "u64 \<Rightarrow> string" where
  "Uint64_MarshalText b = ''0x'' @ nat_to_hex (unat b)"

definition Uint64_UnmarshalText :: "string \<Rightarrow> text_error + u64" where
  "Uint64_UnmarshalText input =
     (case checkNumberText input of
        Inl e \<Rightarrow> Inl (TextDec e)
      | Inr raw \<Rightarrow>
          if length raw > 16 then Inl (TextDec ErrUint64Range)
          else (case decodeWord raw 0 of None \<Rightarrow> Inl (TextDec ErrSyntax) | Some dec \<Rightarrow> Inr dec))"

definition Uint64_UnmarshalJSON :: "string \<Rightarrow> json_error + u64" where
  "Uint64_UnmarshalJSON input = unmarshalJSON Uint64_UnmarshalText ''hexutil.Uint64'' input"

text \<open>\<open>Uint\<close>: a \<open>uint\<close> has 64 bits, so the comparison with its maximum is never true.\<close>

definition Uint_MarshalText :: "u64 \<Rightarrow> string" where
  "Uint_MarshalText b = Uint64_MarshalText b"

definition Uint_UnmarshalText :: "string \<Rightarrow> text_error + u64" where
  "Uint_UnmarshalText input =
     (case Uint64_UnmarshalText input of
        Inl e \<Rightarrow> if e = TextDec ErrUint64Range then Inl (TextDec ErrUintRange) else Inl e
      | Inr v \<Rightarrow> if v > maxUint64 then Inl (TextDec ErrUintRange) else Inr v)"

definition Uint_UnmarshalJSON :: "string \<Rightarrow> json_error + u64" where
  "Uint_UnmarshalJSON input = unmarshalJSON Uint_UnmarshalText ''hexutil.Uint'' input"

section \<open>The text methods of hashes and addresses\<close>

definition Hash_Hex :: "Hash \<Rightarrow> string" where
  "Hash_Hex h = hu_Encode h"

definition Hash_MarshalText :: "Hash \<Rightarrow> string" where
  "Hash_MarshalText h = Bytes_MarshalText h"

definition Hash_UnmarshalText :: "string \<Rightarrow> text_error + Hash" where
  "Hash_UnmarshalText input = UnmarshalFixedText ''Hash'' HashLength input"

definition Hash_UnmarshalJSON :: "string \<Rightarrow> json_error + Hash" where
  "Hash_UnmarshalJSON input = UnmarshalFixedJSON ''common.Hash'' HashLength input"

definition Address_MarshalText :: "Address \<Rightarrow> string" where
  "Address_MarshalText a = Bytes_MarshalText a"

definition Address_UnmarshalText :: "string \<Rightarrow> text_error + Address" where
  "Address_UnmarshalText input = UnmarshalFixedText ''Address'' AddressLength input"

definition Address_UnmarshalJSON :: "string \<Rightarrow> json_error + Address" where
  "Address_UnmarshalJSON input = UnmarshalFixedJSON ''common.Address'' AddressLength input"

text \<open>
  \<open>Address.Hex\<close>: the checksum of EIP 55. The hash function is a parameter. Upper case is 32 below lower case.
\<close>

definition checksumChar :: "bytes \<Rightarrow> nat \<Rightarrow> char \<Rightarrow> char" where
  "checksumChar hash i c =
     (let hashByte = (if even i then drop_bit 4 (hash ! (i div 2)) else hash ! (i div 2) AND 0xF) in
      if (of_char c :: nat) > 57 \<and> hashByte > 7 then char_of ((of_char c :: nat) - 32) else c)"

definition Address_Hex :: "(bytes \<Rightarrow> bytes) \<Rightarrow> Address \<Rightarrow> string" where
  "Address_Hex keccak a =
     (let unchecksummed = hexEncode a; hash = keccak (map (\<lambda>c. word_of_nat (of_char c)) unchecksummed)
      in ''0x'' @ map (\<lambda>i. checksumChar hash i (unchecksummed ! i)) [0..<length unchecksummed])"

end
