(* ===== verification/HexLaws.thy ===== *)
theory HexLaws
  imports Hexutil
begin

text \<open>The hexadecimal of \<open>hexutil\<close> against the value of a digit string.\<close>

section \<open>Digits\<close>

fun digits_val :: "string \<Rightarrow> nat option" where
  "digits_val [] = Some 0"
| "digits_val (c # cs) =
     (case (fromHexChar c, digits_val cs) of
        (Some d, Some v) \<Rightarrow> Some (d * 16 ^ length cs + v)
      | _ \<Rightarrow> None)"

lemma fromHexChar_less: "fromHexChar c = Some d \<Longrightarrow> d < 16"
  by (auto simp: fromHexChar_def Let_def split: if_splits)

lemma digits_val_bound: "digits_val cs = Some v \<Longrightarrow> v < 16 ^ length cs"
proof (induction cs arbitrary: v)
  case (Cons c cs)
  then obtain d w where d: "fromHexChar c = Some d" "digits_val cs = Some w" "v = d * 16 ^ length cs + w"
    by (auto split: option.splits)
  have "d * 16 ^ length cs + w < (d + 1) * 16 ^ length cs" using Cons.IH [OF d(2)] by simp
  also have "\<dots> \<le> 16 * 16 ^ length cs" using fromHexChar_less [OF d(1)] by (intro mult_right_mono) simp_all
  finally show ?case by (simp add: d)
qed simp

lemma digits_val_append:
  "digits_val (xs @ ys) =
     (case (digits_val xs, digits_val ys) of (Some v, Some w) \<Rightarrow> Some (v * 16 ^ length ys + w) | _ \<Rightarrow> None)"
  by (induction xs) (auto simp: algebra_simps power_add split: option.splits)

lemma digits_val_snoc: "digits_val (xs @ [c]) =
     (case (digits_val xs, fromHexChar c) of (Some v, Some d) \<Rightarrow> Some (v * 16 + d) | _ \<Rightarrow> None)"
  by (auto simp: digits_val_append split: option.splits)

lemma digits_val_nat_to_hex: "digits_val (nat_to_hex n) = Some n"
proof (induction n rule: nat_to_hex.induct)
  case (1 n)
  show ?case
  proof (cases "n < 16")
    case False
    then show ?thesis using 1 by (subst nat_to_hex.simps) (simp add: digits_val_snoc fromHexChar_hexDigit)
  qed (subst nat_to_hex.simps, simp add: fromHexChar_hexDigit)
qed

lemma nat_to_hex_not_Nil: "nat_to_hex n \<noteq> []"
  by (subst nat_to_hex.simps) simp

lemma hexDigit_zero: "n < 16 \<Longrightarrow> hexDigit n = CHR ''0'' \<longleftrightarrow> n = 0"
proof -
  have "hexDigit 0 = CHR ''0''" "fromHexChar (CHR ''0'') = Some 0" by code_simp+
  then show "n < 16 \<Longrightarrow> hexDigit n = CHR ''0'' \<longleftrightarrow> n = 0" using fromHexChar_hexDigit [of n] by auto
qed

lemma nat_to_hex_hd: "0 < n \<Longrightarrow> hd (nat_to_hex n) \<noteq> CHR ''0''"
proof (induction n rule: nat_to_hex.induct)
  case (1 n)
  show ?case
  proof (cases "n < 16")
    case False
    then show ?thesis using 1 nat_to_hex_not_Nil by (subst nat_to_hex.simps) (simp add: hd_append)
  qed (subst nat_to_hex.simps, use 1 hexDigit_zero in simp)
qed

lemma length_nat_to_hex: "n < 16 ^ k \<Longrightarrow> 0 < k \<Longrightarrow> length (nat_to_hex n) \<le> k"
proof (induction n arbitrary: k rule: nat_to_hex.induct)
  case (1 n)
  show ?case
  proof (cases "n < 16")
    case False
    define j where "j = k - 1"
    have "k \<noteq> 1" using False 1(2) by auto
    with 1(3) have k: "k = Suc j" "0 < j" by (simp_all add: j_def)
    have "n div 16 < 16 ^ j" using 1 k by (simp add: less_mult_imp_div_less)
    with 1(1) [OF False] k False show ?thesis by (subst nat_to_hex.simps) fastforce
  qed (subst nat_to_hex.simps, use 1 in simp)
qed

section \<open>The loops\<close>

lemma decodeNibble_eq: "decodeNibble c = (case fromHexChar c of None \<Rightarrow> badNibble | Some d \<Rightarrow> word_of_nat d)"
  by (simp add: decodeNibble_def fromHexChar_def Let_def)

lemma word_of_nat_nibble: "d < 16 \<Longrightarrow> (word_of_nat d :: u64) \<noteq> badNibble"
proof
  assume "d < 16" "(word_of_nat d :: u64) = badNibble"
  moreover have "unat badNibble = 18446744073709551615"
    by (simp add: badNibble_def unsigned_minus_1_eq_mask mask_eq_exp_minus_1)
  moreover have "unat (word_of_nat d :: u64) = d" using \<open>d < 16\<close> by (simp add: unsigned_of_nat take_bit_nat_eq_self)
  ultimately show False by simp
qed

text \<open>A word of at most sixteen nibbles does not wrap around.\<close>

lemma decodeWord_eq:
  "decodeWord cs w = map_option (\<lambda>v. w * 16 ^ length cs + word_of_nat v) (digits_val cs)"
proof (induction cs arbitrary: w)
  case (Cons c cs)
  show ?case
  proof (cases "fromHexChar c")
    case (Some d)
    then show ?thesis
      using word_of_nat_nibble [OF fromHexChar_less [OF Some]] Cons
      by (cases "digits_val cs") (simp_all add: decodeNibble_eq algebra_simps)
  qed (simp add: decodeNibble_eq badNibble_def)
qed simp


lemma digits_val_split:
  assumes "length cs = k + m"
  shows "digits_val cs = (case (digits_val (take k cs), digits_val (drop k cs)) of (Some v, Some w) \<Rightarrow> Some (v * 16 ^ m + w) | _ \<Rightarrow> None)"
proof -
  have "length (drop k cs) = m" using assms by simp
  then show ?thesis using digits_val_append [of "take k cs" "drop k cs"] by (simp only: append_take_drop_id)
qed

lemma decodeWord_small:
  assumes "length cs \<le> 16"
  shows "map_option unat (decodeWord cs 0) = digits_val cs"
proof (cases "digits_val cs")
  case (Some v)
  have "v < 16 ^ length cs" by (rule digits_val_bound [OF Some])
  also have "\<dots> \<le> 16 ^ 16" using assms by (intro power_increasing) simp_all
  finally have "take_bit 64 v = v" by (simp add: take_bit_nat_eq_self)
  then show ?thesis by (simp add: decodeWord_eq Some unsigned_of_nat)
qed (simp add: decodeWord_eq)

text \<open>The words of a number from its end, as many as needed or more.\<close>

lemma decodeWords_eq:
  assumes "m \<le> length raw" "m \<le> 16 * n"
  shows "map_option SetBits (decodeWords n raw m) = digits_val (take m raw)"
  using assms
proof (induction n arbitrary: m)
  case (Suc n)
  define st where "st = m - 16"
  define w where "w = drop st (take m raw)"
  have len: "length (take m raw) = st + (m - st)" "length w = m - st" "m - st \<le> 16"
    using Suc.prems by (simp_all add: st_def w_def)
  have IH: "map_option SetBits (decodeWords n raw st) = digits_val (take st raw)"
    using Suc by (simp add: st_def)
  have st0: "m - st = 16 \<or> st = 0" by (auto simp: st_def)
  have tk: "take st (take m raw) = take st raw" by (simp add: st_def min_def)
  have sp: "digits_val (take m raw) = (case (digits_val (take st raw), digits_val w) of
      (Some v, Some u) \<Rightarrow> Some (v * 16 ^ (m - st) + u) | _ \<Rightarrow> None)"
    using digits_val_split [OF len(1)] by (simp only: tk w_def)
  have dw: "map_option unat (decodeWord w 0) = digits_val w" using decodeWord_small len by simp
  have step: "decodeWords (Suc n) raw m = (case decodeWord w 0 of None \<Rightarrow> None | Some x \<Rightarrow> map_option ((#) x) (decodeWords n raw st))"
    by (simp only: decodeWords.simps bigWordNibbles_def st_def w_def Let_def)
  show ?case
  proof (cases "decodeWord w 0")
    case None
    then show ?thesis using dw sp by (simp del: decodeWords.simps add: step split: option.splits)
  next
    case (Some x)
    show ?thesis
    proof (cases "decodeWords n raw st")
      case None
      then show ?thesis using IH sp Some by (simp del: decodeWords.simps add: step)
    next
      case (Some ws)
      then have "digits_val (take st raw) = Some (SetBits ws)" using IH by simp
      moreover have "SetBits ws = 0 \<or> m - st = 16" using calculation st0 by auto
      moreover have "digits_val w = Some (unat x)" using dw \<open>decodeWord w 0 = Some x\<close> by simp
      ultimately show ?thesis using sp Some \<open>decodeWord w 0 = Some x\<close> by (auto simp del: decodeWords.simps simp: step)
    qed
  qed
qed simp

lemma decodeBigRaw_eq:
  "decodeBigRaw raw =
     (if length raw > 64 then Inl ErrBig256Range
      else case digits_val raw of None \<Rightarrow> Inl ErrSyntax | Some v \<Rightarrow> Inr v)"
proof -
  have "length raw \<le> 16 * (length raw div bigWordNibbles + 1)" by (simp add: bigWordNibbles_def)
  then have "map_option SetBits (decodeWords (length raw div bigWordNibbles + 1) raw (length raw)) = digits_val raw"
    using decodeWords_eq [of "length raw" raw] by (simp del: decodeWords.simps)
  then show ?thesis by (auto simp: decodeBigRaw_def split: option.splits)
qed


section \<open>ParseUint\<close>

lemma digitVal_hex: "(case digitVal c of Some d \<Rightarrow> if d < 16 then Some d else None | None \<Rightarrow> None) = fromHexChar c"
  by (auto simp: digitVal_def fromHexChar_def Let_def)

text \<open>The two checks of \<open>ParseUint\<close> see exactly the overflows of 64 bits.\<close>

lemma ParseUint_overflow:
  fixes n :: u64
  assumes "d < 16"
  shows "n < maxUint64 div 16 + 1 \<Longrightarrow> unat (n * 16 + word_of_nat d) = unat n * 16 + d \<and> \<not> n * 16 + word_of_nat d < n * 16"
    and "\<not> n < maxUint64 div 16 + 1 \<Longrightarrow> 2 ^ 64 \<le> unat n * 16"
proof -
  have c: "maxUint64 div 16 + 1 = (2 ^ 60 :: u64)" by (simp add: maxUint64_def)
  have d: "unat (word_of_nat d :: u64) = d" using assms by (simp add: unsigned_of_nat take_bit_nat_eq_self)
  show "unat (n * 16 + word_of_nat d) = unat n * 16 + d \<and> \<not> n * 16 + word_of_nat d < n * 16" if "n < maxUint64 div 16 + 1"
  proof -
    have "unat n < 2 ^ 60" using that c by (simp add: word_less_nat_alt)
    then have "unat (n * 16) = unat n * 16" "unat (n * 16 + word_of_nat d) = unat n * 16 + d"
      using assms d by (simp_all add: unat_word_ariths)
    then show ?thesis by (simp add: word_less_nat_alt)
  qed
  show "2 ^ 64 \<le> unat n * 16" if "\<not> n < maxUint64 div 16 + 1"
    using that c by (simp add: word_less_nat_alt)
qed

lemma ParseUint_loop_Some:
  "digits_val cs = Some v \<Longrightarrow> unat n * 16 ^ length cs + v < 2 ^ 64 \<Longrightarrow>
   ParseUint_loop 16 cs n = (word_of_nat (unat n * 16 ^ length cs + v), None)"
proof (induction cs arbitrary: n v)
  case (Cons c cs)
  then obtain d w where d: "fromHexChar c = Some d" "digits_val cs = Some w" "v = d * 16 ^ length cs + w"
    by (auto split: option.splits)
  have dv: "digitVal c = Some d" "d < 16" using digitVal_hex [of c] d(1) by (auto split: option.splits if_splits)
  have "unat n * 16 * 16 ^ length cs < 2 ^ 64" using Cons.prems d by simp
  then have "unat n * 16 < 2 ^ 64" by (metis le_less_trans mult_le_mono2 mult.right_neutral one_le_numeral one_le_power)
  then have n: "n < maxUint64 div 16 + 1" using ParseUint_overflow(2) [OF dv(2)] by force
  note o = ParseUint_overflow(1) [OF dv(2) n]
  have "unat (n * 16 + word_of_nat d) * 16 ^ length cs + w = unat n * 16 ^ length (c # cs) + v"
    using o d by (simp add: algebra_simps)
  then show ?case using Cons.IH [OF d(2), of "n * 16 + word_of_nat d"] Cons.prems o n dv by simp
qed simp


lemma ParseUint_loop_sound:
  "ParseUint_loop 16 cs n = (r, None) \<Longrightarrow> \<exists>v. digits_val cs = Some v \<and> unat n * 16 ^ length cs + v < 2 ^ 64"
proof (induction cs arbitrary: n)
  case Nil
  then show ?case using unsigned_less [of n] by simp
next
  case (Cons c cs)
  from Cons.prems obtain d where d: "digitVal c = Some d" "d < 16" "n < maxUint64 div 16 + 1"
    "ParseUint_loop 16 cs (n * 16 + word_of_nat d) = (r, None)"
    by (auto simp: Let_def not_le split: option.splits if_splits)
  then have "fromHexChar c = Some d" using digitVal_hex [of c] by simp
  moreover note ParseUint_overflow(1) [OF d(2,3)] Cons.IH [OF d(4)]
  ultimately show ?case by (auto simp: algebra_simps)
qed

lemma ParseUint_exact:
  "ParseUint raw 16 = (w, None) \<longleftrightarrow> raw \<noteq> [] \<and> digits_val raw = Some (unat w)"
proof -
  have "ParseUint_loop 16 raw 0 = (w, None) \<longleftrightarrow> digits_val raw = Some (unat w)"
  proof
    assume a: "ParseUint_loop 16 raw 0 = (w, None)"
    then obtain v where v: "digits_val raw = Some v" "v < 2 ^ 64" using ParseUint_loop_sound by fastforce
    with a ParseUint_loop_Some [OF v(1), of 0] show "digits_val raw = Some (unat w)"
      by (auto simp: unsigned_of_nat take_bit_nat_eq_self)
  next
    assume a: "digits_val raw = Some (unat w)"
    with ParseUint_loop_Some [OF a, of 0] unsigned_less [of w] show "ParseUint_loop 16 raw 0 = (w, None)" by simp
  qed
  then show ?thesis by (simp add: ParseUint_def)
qed

section \<open>Numbers without leading zeros\<close>

lemma digits_val_lower:
  assumes "digits_val (c # cs) = Some v" "c \<noteq> CHR ''0''"
  shows "16 ^ length cs \<le> v"
proof -
  obtain d w where d: "fromHexChar c = Some d" "v = d * 16 ^ length cs + w"
    using assms(1) by (auto split: option.splits)
  have "d \<noteq> 0"
  proof
    assume "d = 0"
    with d(1) have "of_char c = (48 :: nat)" by (auto simp: fromHexChar_def Let_def split: if_splits)
    moreover have "of_char (CHR ''0'') = (48 :: nat)" by simp
    ultimately show False using assms(2) by (metis of_char_eq_iff)
  qed
  then show ?thesis using d by (cases d) auto
qed

definition quantity :: "string \<Rightarrow> string \<Rightarrow> nat \<Rightarrow> bool" where
  "quantity input raw v \<longleftrightarrow>
     (input = ''0x'' @ raw \<or> input = ''0X'' @ raw) \<and> raw \<noteq> [] \<and> (length raw > 1 \<longrightarrow> raw ! 0 \<noteq> CHR ''0'') \<and> digits_val raw = Some v"

lemma has0xPrefix_iff: "has0xPrefix input \<longleftrightarrow> (\<exists>raw. input = ''0x'' @ raw \<or> input = ''0X'' @ raw)"
proof (cases input)
  case (Cons a as)
  then show ?thesis by (cases as) (auto simp: has0xPrefix_def)
qed (simp add: has0xPrefix_def)

lemma checkNumber_iff:
  "checkNumber input = Inr raw \<longleftrightarrow>
     (input = ''0x'' @ raw \<or> input = ''0X'' @ raw) \<and> raw \<noteq> [] \<and> (length raw > 1 \<longrightarrow> raw ! 0 \<noteq> CHR ''0'')"
proof (cases "has0xPrefix input")
  case True
  then obtain r where "input = ''0x'' @ r \<or> input = ''0X'' @ r" by (auto simp: has0xPrefix_iff)
  with True show ?thesis by (auto simp: checkNumber_def Let_def)
next
  case False
  then show ?thesis using has0xPrefix_iff [of input] by (auto simp: checkNumber_def)
qed

lemma quantity_length:
  assumes "quantity input raw v" "0 < k"
  shows "length raw \<le> k \<longleftrightarrow> v < 16 ^ k"
proof
  assume "length raw \<le> k"
  then have "(16 :: nat) ^ length raw \<le> 16 ^ k" by (intro power_increasing) simp_all
  moreover have "v < 16 ^ length raw" using digits_val_bound assms(1) by (simp add: quantity_def)
  ultimately show "v < 16 ^ k" by linarith
next
  assume v: "v < 16 ^ k"
  show "length raw \<le> k"
  proof (rule ccontr)
    assume l: "\<not> length raw \<le> k"
    then obtain c cs where r: "raw = c # cs" "k \<le> length cs" by (cases raw) auto
    with l assms have "16 ^ length cs \<le> v" using digits_val_lower [of c cs v] by (auto simp: quantity_def)
    moreover have "(16 :: nat) ^ k \<le> 16 ^ length cs" using r by (intro power_increasing) simp_all
    ultimately show False using v by simp
  qed
qed


lemma quantity_checked:
  "checkNumber input = Inr raw \<Longrightarrow> quantity input raw' v \<longleftrightarrow> raw' = raw \<and> digits_val raw = Some v"
  using checkNumber_iff [of input raw] by (auto simp: quantity_def)

lemma quantity_refused: "checkNumber input = Inl e \<Longrightarrow> \<not> quantity input raw v"
  using checkNumber_iff [of input raw] by (auto simp: quantity_def)

lemma DecodeBig_exact_raw: "DecodeBig input = Inr v \<longleftrightarrow> (\<exists>raw. quantity input raw v \<and> length raw \<le> 64)"
  by (cases "checkNumber input")
    (auto simp: DecodeBig_def decodeBigRaw_eq quantity_refused quantity_checked split: option.splits)

lemma DecodeUint64_exact_raw: "DecodeUint64 input = (w, None) \<longleftrightarrow> (\<exists>raw. quantity input raw (unat w))"
proof (cases "checkNumber input")
  case (Inr raw)
  then have "raw \<noteq> []" using checkNumber_iff by blast
  with Inr ParseUint_exact [of raw w] show ?thesis
    by (auto simp: DecodeUint64_def quantity_checked [OF Inr] split: prod.splits)
qed (simp add: DecodeUint64_def quantity_refused)

lemma checkNumberText_eq: "input \<noteq> [] \<Longrightarrow> checkNumberText input = checkNumber input"
  by (simp add: checkNumberText_def checkNumber_def)

lemma quantity_unique: "quantity input raw v \<Longrightarrow> quantity input raw' v' \<Longrightarrow> raw = raw' \<and> v = v'"
  by (auto simp: quantity_def)

lemma quantity_nat_to_hex: "quantity (''0x'' @ nat_to_hex n) (nat_to_hex n) n"
proof -
  have "length (nat_to_hex n) > 1 \<longrightarrow> nat_to_hex n ! 0 \<noteq> CHR ''0''"
  proof (cases "n = 0")
    case False
    then show ?thesis using nat_to_hex_hd [of n] nat_to_hex_not_Nil [of n] by (simp add: hd_conv_nth)
  qed (simp add: nat_to_hex.simps [of 0])
  then show ?thesis by (simp add: quantity_def nat_to_hex_not_Nil digits_val_nat_to_hex)
qed

section \<open>Byte strings\<close>

lemma hex_Decode_hexEncode: "hex_Decode (hexEncode b) = (b, None)"
proof (induction b)
  case (Cons x b)
  have "unat x < 256" by (rule unat_byte_less)
  then have "unat x div 16 < 16" "16 * (unat x div 16) + unat x mod 16 = unat x" by simp_all
  with Cons show ?case by (simp add: fromHexChar_hexDigit)
qed simp

lemma hexEncode_nibbles: "\<not> list_ex (\<lambda>c. decodeNibble c = badNibble) (hexEncode b)"
proof (induction b)
  case (Cons x b)
  have "unat x div 16 < 16" using unat_byte_less [of x] by simp
  with Cons show ?case by (simp add: decodeNibble_eq fromHexChar_hexDigit word_of_nat_nibble)
qed simp

lemma checkText_hex: "checkText (''0x'' @ hexEncode b) p = Inr (hexEncode b)"
  by (simp add: checkText_def has0xPrefix_def)

abbreviation quoted :: "string \<Rightarrow> string" where
  "quoted s \<equiv> CHR 0x22 # s @ [CHR 0x22]"

lemma unmarshal_quoted: "unmarshalJSON f ty (quoted s) = wrapTypeError (f s) ty"
  by (simp add: unmarshalJSON_def isString_def unquote_def nth_append)


section \<open>Quantities in texts\<close>

lemma Uint64_text_exact:
  "Uint64_UnmarshalText input = Inr w \<longleftrightarrow> (\<exists>raw. quantity input raw (unat w)) \<or> input = [] \<and> w = 0"
proof (cases "input = []")
  case True
  then show ?thesis by (auto simp: Uint64_UnmarshalText_def checkNumberText_def quantity_def)
next
  case False
  show ?thesis
  proof (cases "checkNumber input")
    case (Inr raw)
    have len: "quantity input raw (unat w) \<Longrightarrow> length raw \<le> 16"
      using quantity_length [of input raw "unat w" 16] unsigned_less [of w] by simp
    have "length raw \<le> 16 \<Longrightarrow> decodeWord raw 0 = Some w \<longleftrightarrow> digits_val raw = Some (unat w)"
      using decodeWord_small [of raw] by (cases "decodeWord raw 0") (auto simp: word_unat_eq_iff)
    with Inr False len show ?thesis
      by (auto simp: Uint64_UnmarshalText_def checkNumberText_eq quantity_checked split: option.splits)
  qed (simp add: Uint64_UnmarshalText_def checkNumberText_eq False quantity_refused)
qed

lemma Uint64_roundtrip_text: "Uint64_UnmarshalText (Uint64_MarshalText n) = Inr n"
  unfolding Uint64_MarshalText_def using Uint64_text_exact quantity_nat_to_hex by blast

lemma DecodeBig_EncodeBig:
  "DecodeBig (EncodeBig i) =
     (if i < 0 then Inl ErrMissingPrefix else if i < 2 ^ 256 then Inr (nat i) else Inl ErrBig256Range)"
proof -
  let ?raw = "nat_to_hex (nat i)"
  have z: "EncodeBig 0 = ''0x'' @ nat_to_hex 0" by code_simp
  have pos: "0 \<le> i \<Longrightarrow> EncodeBig i = ''0x'' @ ?raw" using z by (cases "i = 0") (simp_all add: EncodeBig_def)
  have q: "quantity (''0x'' @ ?raw) ?raw (nat i)" by (rule quantity_nat_to_hex)
  have "checkNumber (''0x'' @ ?raw) = Inr ?raw" using q checkNumber_iff by (simp add: quantity_def)
  moreover have "length ?raw \<le> 64 \<longleftrightarrow> nat i < 2 ^ 256" using quantity_length [OF q, of 64] by simp
  moreover have "0 \<le> i \<Longrightarrow> nat i < 2 ^ 256 \<longleftrightarrow> i < 2 ^ 256" by (simp add: nat_less_iff)
  ultimately have "0 \<le> i \<Longrightarrow> DecodeBig (EncodeBig i) = (if i < 2 ^ 256 then Inr (nat i) else Inl ErrBig256Range)"
    using pos by (auto simp: DecodeBig_def decodeBigRaw_eq digits_val_nat_to_hex)
  moreover have "i < 0 \<Longrightarrow> DecodeBig (EncodeBig i) = Inl ErrMissingPrefix"
    by (simp add: EncodeBig_def DecodeBig_def checkNumber_def has0xPrefix_def)
  ultimately show ?thesis by simp
qed

end
