(* ===== verification/HexProps.thy ===== *)
theory HexProps
  imports HexLaws
begin

text \<open>The properties of package \<open>hexutil\<close>.\<close>

text \<open>C28. Every value is read back from its text: byte strings, 64-bit quantities and big integers through
  \<open>Decode\<close>, \<open>DecodeUint64\<close> and \<open>DecodeBig\<close> and through the JSON methods, hashes and addresses through the
  fixed-size methods. A big integer of more than 256 bits is refused, and so is the text of a
  negative one, which starts with its sign.\<close>

theorem hexutil_roundtrip:
  "hu_Decode (hu_Encode b) = (b, None)
   \<and> Bytes_UnmarshalJSON (quoted (Bytes_MarshalText b)) = Inr b
   \<and> DecodeUint64 (EncodeUint64 n) = (n, None)
   \<and> Uint64_UnmarshalJSON (quoted (Uint64_MarshalText n)) = Inr n
   \<and> DecodeBig (EncodeBig i) =
       (if i < 0 then Inl ErrMissingPrefix else if i < 2 ^ 256 then Inr (nat i) else Inl ErrBig256Range)
   \<and> (length h = 32 \<longrightarrow> Hash_UnmarshalJSON (quoted (Hash_MarshalText h)) = Inr h \<and> hu_Decode (Hash_Hex h) = (h, None))
   \<and> (length a = 20 \<longrightarrow> Address_UnmarshalJSON (quoted (Address_MarshalText a)) = Inr a)"
proof -
  have bytes: "hu_Decode (hu_Encode b) = (b, None)" for b
    by (simp add: hu_Decode_def hu_Encode_def has0xPrefix_def hex_Decode_hexEncode)
  have fixed: "UnmarshalFixedJSON ty k (quoted (Bytes_MarshalText x)) = Inr x" if "length x = k" for ty k x
    using that hexEncode_nibbles [of x] checkText_hex [of x True]
    unfolding UnmarshalFixedJSON_def unmarshal_quoted
    by (simp add: UnmarshalFixedText_def unmarshalFixed_def Bytes_MarshalText_def hex_Decode_hexEncode wrapTypeError_def)
  have "Bytes_UnmarshalJSON (quoted (Bytes_MarshalText b)) = Inr b"
    using checkText_hex [of b True]
    unfolding Bytes_UnmarshalJSON_def unmarshal_quoted
    by (simp add: Bytes_UnmarshalText_def Bytes_MarshalText_def hex_Decode_hexEncode wrapTypeError_def)
  moreover have "DecodeUint64 (EncodeUint64 n) = (n, None)"
    unfolding EncodeUint64_def using DecodeUint64_exact_raw quantity_nat_to_hex by blast
  moreover have "Uint64_UnmarshalJSON (quoted (Uint64_MarshalText n)) = Inr n"
    by (simp add: Uint64_UnmarshalJSON_def unmarshal_quoted wrapTypeError_def Uint64_roundtrip_text)
  moreover note bytes fixed
  ultimately show ?thesis
    by (simp add: Hash_UnmarshalJSON_def Hash_MarshalText_def Hash_Hex_def Address_UnmarshalJSON_def Address_MarshalText_def
        HashLength_def AddressLength_def DecodeBig_EncodeBig)
qed

theorem hexutil_roundtrip_witness:
  "Address_UnmarshalJSON (quoted (Address_MarshalText (BytesToAddress [1, 2]))) = Inr (BytesToAddress [1, 2])"
  using hexutil_roundtrip [of _ _ _ _ "BytesToAddress [1, 2]"] by simp

text \<open>C27. The parsers of quantities accept exactly the same texts, up to their ranges: a prefix, at least one digit and
  no leading zero, with a value below \<open>2^256\<close> for \<open>DecodeBig\<close> and below \<open>2^64\<close> for \<open>DecodeUint64\<close>, which
  the library parses, and for \<open>Uint64.UnmarshalText\<close>, which accumulates a word. None of them wraps
  around. Only the text methods accept the empty text.\<close>

theorem quantities_exact:
  "(DecodeBig input = Inr v \<longleftrightarrow> (\<exists>raw. quantity input raw v) \<and> v < 2 ^ 256)
   \<and> (DecodeUint64 input = (w, None) \<longleftrightarrow> (\<exists>raw. quantity input raw (unat w)))
   \<and> (Uint64_UnmarshalText input = Inr w \<longleftrightarrow> DecodeUint64 input = (w, None) \<or> input = [] \<and> w = 0)
   \<and> (DecodeUint64 input = (w, None) \<longrightarrow> DecodeBig input = Inr (unat w))"
proof -
  have p: "(16 :: nat) ^ 64 = 2 ^ 256" "(16 :: nat) ^ 16 = 2 ^ 64" by simp_all
  have big: "DecodeBig input = Inr v \<longleftrightarrow> (\<exists>raw. quantity input raw v) \<and> v < 2 ^ 256" for v
    using DecodeBig_exact_raw [of input v] quantity_length [of input _ v 64] p by auto
  moreover have "unat w < 2 ^ 64" using unsigned_less [of w] by simp
  then have "unat w < 2 ^ 256" by simp
  moreover note Uint64_text_exact DecodeUint64_exact_raw
  ultimately show ?thesis by auto
qed

theorem quantities_exact_witness:
  "DecodeUint64 ''0x1f'' = (31, None) \<and> DecodeBig ''0x1f'' = Inr 31"
proof -
  have "DecodeUint64 ''0x1f'' = (31, None)" by code_simp
  with quantities_exact [of "''0x1f''" 31 31] show ?thesis by simp
qed

end
