(* ===== verification/BigMath.thy ===== *)
theory BigMath
  imports Hexutil
begin

text \<open>
  Package \<open>common/math\<close>: the integer helpers (\<open>integer.go\<close>) on 64-bit words and the ones on big
  integers (\<open>big.go\<close>), a big integer being an \<open>int\<close>. Its words, which \<open>Bits\<close> returns, are the digits of the absolute
  value to the base \<open>2^64\<close> without leading zeros, the least significant first.
\<close>

section \<open>The library functions\<close>

fun big_Bits :: "nat \<Rightarrow> u64 list" where
  "big_Bits n = (if n = 0 then [] else word_of_nat (n mod 2 ^ 64) # big_Bits (n div 2 ^ 64))"

declare big_Bits.simps [simp del]

fun nat_bitlen :: "nat \<Rightarrow> nat" where
  "nat_bitlen n = (if n = 0 then 0 else Suc (nat_bitlen (n div 2)))"

declare nat_bitlen.simps [simp del]

definition BitLen :: "int \<Rightarrow> nat" where
  "BitLen x = nat_bitlen (nat \<bar>x\<bar>)"

text \<open>\<open>Bytes\<close> of the absolute value, \<open>Bit\<close> of the two's complement.\<close>

definition big_Bytes :: "int \<Rightarrow> bytes" where
  "big_Bytes x = nat_to_be (nat \<bar>x\<bar>)"

definition big_Bit :: "int \<Rightarrow> nat \<Rightarrow> nat" where
  "big_Bit x i = of_bool (bit x i)"

text \<open>\<open>SetString\<close> for bases 10 and 16: an optional sign and at least one digit.\<close>

fun digits_base :: "nat \<Rightarrow> string \<Rightarrow> nat \<Rightarrow> nat option" where
  "digits_base base [] v = Some v"
| "digits_base base (c # cs) v =
     (case digitVal c of
        None \<Rightarrow> None
      | Some d \<Rightarrow> if d < base then digits_base base cs (v * base + d) else None)"

definition SetString :: "string \<Rightarrow> nat \<Rightarrow> int option" where
  "SetString s base =
     (let neg = (s \<noteq> [] \<and> hd s = CHR ''-'');
          ds = (if s \<noteq> [] \<and> (hd s = CHR ''-'' \<or> hd s = CHR ''+'') then tl s else s)
      in if ds = [] then None
         else map_option (\<lambda>v. if neg then - int v else int v) (digits_base base ds 0))"

section \<open>integer.go\<close>

definition MaxUint64 :: u64 where "MaxUint64 = - 1"

definition ParseUint64 :: "string \<Rightarrow> u64 \<times> bool" where
  "ParseUint64 s =
     (if s = '''' then (0, True)
      else if length s \<ge> 2 \<and> (take 2 s = ''0x'' \<or> take 2 s = ''0X'')
      then (case ParseUint (drop 2 s) 16 of (v, e) \<Rightarrow> (v, e = None))
      else (case ParseUint s 10 of (v, e) \<Rightarrow> (v, e = None)))"

definition MustParseUint64 :: "string \<Rightarrow> u64 option" where
  "MustParseUint64 s = (case ParseUint64 s of (v, ok) \<Rightarrow> if ok then Some v else None)"

definition HexOrDecimal64_UnmarshalText :: "string \<Rightarrow> u64 option" where
  "HexOrDecimal64_UnmarshalText input = (case ParseUint64 input of (v, ok) \<Rightarrow> if ok then Some v else None)"

definition HexOrDecimal64_MarshalText :: "u64 \<Rightarrow> string" where
  "HexOrDecimal64_MarshalText i = ''0x'' @ nat_to_hex (unat i)"

definition SafeSub :: "u64 \<Rightarrow> u64 \<Rightarrow> u64 \<times> bool" where
  "SafeSub x y = (x - y, x < y)"

definition SafeAdd :: "u64 \<Rightarrow> u64 \<Rightarrow> u64 \<times> bool" where
  "SafeAdd x y = (x + y, y > MaxUint64 - x)"

definition SafeMul :: "u64 \<Rightarrow> u64 \<Rightarrow> u64 \<times> bool" where
  "SafeMul x y = (if x = 0 \<or> y = 0 then (0, False) else (x * y, y > MaxUint64 div x))"

section \<open>big.go\<close>

definition BigPow :: "int \<Rightarrow> int \<Rightarrow> int" where
  "BigPow a b = (if b \<le> 0 then 1 else a ^ nat b)"

definition tt255 :: int where "tt255 = BigPow 2 255"
definition tt256 :: int where "tt256 = BigPow 2 256"
definition tt256m1 :: int where "tt256m1 = tt256 - 1"
definition tt63 :: int where "tt63 = BigPow 2 63"
definition MaxBig256 :: int where "MaxBig256 = tt256m1"
definition MaxBig63 :: int where "MaxBig63 = tt63 - 1"

definition wordBits :: nat where "wordBits = 64"
definition wordBytes :: nat where "wordBytes = wordBits div 8"

definition ParseBig256 :: "string \<Rightarrow> int option" where
  "ParseBig256 s =
     (if s = '''' then Some 0
      else (let r = (if length s \<ge> 2 \<and> (take 2 s = ''0x'' \<or> take 2 s = ''0X'') then SetString (drop 2 s) 16 else SetString s 10)
            in case r of None \<Rightarrow> None | Some v \<Rightarrow> if BitLen v > 256 then None else Some v))"

definition MustParseBig256 :: "string \<Rightarrow> int option" where
  "MustParseBig256 s = ParseBig256 s"

definition HexOrDecimal256_UnmarshalText :: "string \<Rightarrow> int option" where
  "HexOrDecimal256_UnmarshalText input = ParseBig256 input"

definition HexOrDecimal256_MarshalText :: "int option \<Rightarrow> string" where
  "HexOrDecimal256_MarshalText i =
     (case i of None \<Rightarrow> ''0x0'' | Some x \<Rightarrow> (if x < 0 then ''-'' else '''') @ ''0x'' @ nat_to_hex (nat \<bar>x\<bar>))"

definition BigMax :: "int \<Rightarrow> int \<Rightarrow> int" where
  "BigMax x y = (if x < y then y else x)"

definition BigMin :: "int \<Rightarrow> int \<Rightarrow> int" where
  "BigMin x y = (if x > y then y else x)"

text \<open>The loop of \<open>FirstBitSet\<close> from \<open>i\<close>, with \<open>k\<close> rounds left.\<close>

fun FirstBitSet_loop :: "int \<Rightarrow> nat \<Rightarrow> nat \<Rightarrow> nat" where
  "FirstBitSet_loop v i 0 = BitLen v"
| "FirstBitSet_loop v i (Suc k) = (if big_Bit v i > 0 then i else FirstBitSet_loop v (Suc i) k)"

definition FirstBitSet :: "int \<Rightarrow> nat" where
  "FirstBitSet v = FirstBitSet_loop v 0 (BitLen v)"

text \<open>\<open>ReadBits\<close>: the bytes of one word, with \<open>j\<close> of them left, then the words.\<close>

fun ReadBits_word :: "nat \<Rightarrow> u64 \<Rightarrow> nat \<Rightarrow> bytes \<Rightarrow> nat \<times> bytes" where
  "ReadBits_word 0 d i buf = (i, buf)"
| "ReadBits_word (Suc j) d i buf =
     (if i > 0 then ReadBits_word j (drop_bit 8 d) (i - 1) (buf[i - 1 := ucast d]) else (i, buf))"

fun ReadBits_words :: "u64 list \<Rightarrow> nat \<Rightarrow> bytes \<Rightarrow> bytes" where
  "ReadBits_words [] i buf = buf"
| "ReadBits_words (d # ds) i buf = (case ReadBits_word wordBytes d i buf of (i', buf') \<Rightarrow> ReadBits_words ds i' buf')"

definition ReadBits :: "int \<Rightarrow> bytes \<Rightarrow> bytes" where
  "ReadBits bigint buf = ReadBits_words (big_Bits (nat \<bar>bigint\<bar>)) (length buf) buf"

definition PaddedBigBytes :: "int \<Rightarrow> nat \<Rightarrow> bytes" where
  "PaddedBigBytes bigint n =
     (if BitLen bigint div 8 \<ge> n then big_Bytes bigint else ReadBits bigint (replicate n 0))"

definition bigEndianByteAt :: "int \<Rightarrow> nat \<Rightarrow> byte" where
  "bigEndianByteAt bigint n =
     (let words = big_Bits (nat \<bar>bigint\<bar>); i = n div wordBytes in
      if i \<ge> length words then 0 else ucast (drop_bit (8 * (n mod wordBytes)) (words ! i)))"

definition math_Byte :: "int \<Rightarrow> nat \<Rightarrow> nat \<Rightarrow> byte" where
  "math_Byte bigint padlength n = (if n \<ge> padlength then 0 else bigEndianByteAt bigint (padlength - 1 - n))"

definition U256 :: "int \<Rightarrow> int" where
  "U256 x = x AND tt256m1"

definition S256 :: "int \<Rightarrow> int" where
  "S256 x = (if x < tt255 then x else x - tt256)"

text \<open>The loops of \<open>Exp\<close>, on the result and on \<open>base\<close>, which is overwritten.\<close>

fun Exp_word :: "nat \<Rightarrow> u64 \<Rightarrow> int \<times> int \<Rightarrow> int \<times> int" where
  "Exp_word 0 word rb = rb"
| "Exp_word (Suc i) word (result, base) =
     (let result' = (if word AND 1 = 1 then U256 (result * base) else result);
          base' = U256 (base * base)
      in Exp_word i (drop_bit 1 word) (result', base'))"

fun Exp_words :: "u64 list \<Rightarrow> int \<times> int \<Rightarrow> int \<times> int" where
  "Exp_words [] rb = rb"
| "Exp_words (w # ws) rb = Exp_words ws (Exp_word wordBits w rb)"

definition math_Exp :: "int \<Rightarrow> int \<Rightarrow> int \<times> int" where
  "math_Exp base exponent = Exp_words (big_Bits (nat \<bar>exponent\<bar>)) (1, base)"

end
