(* ===== verification/MathLaws.thy ===== *)
theory MathLaws
  imports BigMath
begin

text \<open>The integer helpers against arithmetic on \<open>nat\<close> and \<open>int\<close>.\<close>

lemma unat_u64: "unat (w :: u64) < 2 ^ 64"
  using unsigned_less [of w] by simp

section \<open>256-bit arithmetic\<close>

lemma tt_values: "tt255 = 2 ^ 255" "tt256 = 2 ^ 256" "tt256m1 = mask 256"
  by (simp_all add: tt255_def tt256_def tt256m1_def BigPow_def mask_eq_exp_minus_1)

lemma U256_mod: "U256 x = x mod 2 ^ 256"
  by (simp add: U256_def tt_values take_bit_eq_mask [symmetric] take_bit_eq_mod)

lemma U256_range: "0 \<le> U256 x \<and> U256 x < 2 ^ 256"
  by (simp add: U256_mod)

lemma S256_U256:
  "- (2 ^ 255) \<le> S256 (U256 x) \<and> S256 (U256 x) < 2 ^ 255 \<and> S256 (U256 x) mod 2 ^ 256 = x mod 2 ^ 256"
proof -
  have "0 \<le> U256 x" "U256 x < 2 ^ 256" using U256_range by simp_all
  moreover have "S256 (U256 x) mod 2 ^ 256 = x mod 2 ^ 256"
    by (simp add: S256_def tt_values U256_mod)
  ultimately show ?thesis by (simp add: S256_def tt_values)
qed

lemma S256_id: "- (2 ^ 255) \<le> x \<Longrightarrow> x < 2 ^ 255 \<Longrightarrow> S256 (U256 x) = x"
proof -
  assume x: "- (2 ^ 255) \<le> x" "x < 2 ^ 255"
  show ?thesis
  proof (cases "0 \<le> x")
    case True
    with x show ?thesis by (simp add: S256_def U256_mod tt_values)
  next
    case False
    with x have "x mod 2 ^ 256 = x + 2 ^ 256" using mod_add_self2 [of x "2 ^ 256"] by (simp del: mod_add_self2 mod_add_self1 add: mod_pos_pos_trivial [symmetric])
    with False x show ?thesis by (simp add: S256_def U256_mod tt_values)
  qed
qed

section \<open>Exponentiation\<close>

lemma drop_bit_1_word: "unat (drop_bit 1 w) = unat w div 2" for w :: u64
  by (simp add: unat_drop_bit_div)

lemma word_and_1: "w AND 1 = 1 \<longleftrightarrow> odd (unat w)" for w :: u64
  by (simp add: and_one_eq mod_2_eq_odd bit_0 [symmetric] bit_unsigned_iff)

lemma Exp_word_spec:
  "fst (Exp_word i w (r, b)) mod 2 ^ 256 = r * b ^ (unat w mod 2 ^ i) mod 2 ^ 256
   \<and> snd (Exp_word i w (r, b)) mod 2 ^ 256 = b ^ (2 ^ i) mod 2 ^ 256"
proof (induction i arbitrary: w r b)
  case (Suc i)
  define r' where "r' = (if w AND 1 = 1 then U256 (r * b) else r)"
  define b' where "b' = U256 (b * b)"
  define e where "e = unat w div 2 mod 2 ^ i"
  have b': "b' ^ k mod 2 ^ 256 = b ^ (2 * k) mod 2 ^ 256" for k
    by (simp add: b'_def U256_mod power_mod power_mult power2_eq_square)
  have r': "r' mod 2 ^ 256 = r * b ^ (unat w mod 2) mod 2 ^ 256"
    by (simp add: r'_def U256_mod word_and_1 odd_iff_mod_2_eq_one)
  have e: "unat w mod 2 ^ Suc i = unat w mod 2 + 2 * e"
    by (simp add: e_def mod_mult2_eq)
  have "r' * b' ^ e mod 2 ^ 256 = (r' mod 2 ^ 256) * (b' ^ e mod 2 ^ 256) mod 2 ^ 256" by (simp add: mod_mult_eq)
  also have "\<dots> = (r * b ^ (unat w mod 2)) * b ^ (2 * e) mod 2 ^ 256" by (simp only: r' b' mod_mult_eq)
  also have "\<dots> = r * b ^ (unat w mod 2 ^ Suc i) mod 2 ^ 256" by (simp only: e power_add mult.assoc)
  finally have "r' * b' ^ e mod 2 ^ 256 = r * b ^ (unat w mod 2 ^ Suc i) mod 2 ^ 256" .
  moreover have "b' ^ (2 ^ i) mod 2 ^ 256 = b ^ (2 ^ Suc i) mod 2 ^ 256" by (simp only: b' power_Suc)
  moreover have "Exp_word (Suc i) w (r, b) = Exp_word i (drop_bit 1 w) (r', b')" by (simp add: r'_def b'_def)
  ultimately show ?case using Suc.IH [of "drop_bit 1 w" r' b'] by (simp only: drop_bit_1_word e_def)
qed simp


lemma Exp_word_range: "0 \<le> r \<and> r < 2 ^ 256 \<Longrightarrow> 0 \<le> fst (Exp_word i w (r, b)) \<and> fst (Exp_word i w (r, b)) < 2 ^ 256"
proof (induction i arbitrary: w r b)
  case (Suc i)
  have "0 \<le> (if w AND 1 = 1 then U256 (r * b) else r) \<and> (if w AND 1 = 1 then U256 (r * b) else r) < 2 ^ 256"
    using Suc.prems U256_range by simp
  then show ?case using Suc.IH by (simp only: Exp_word.simps Let_def)
qed simp

text \<open>The value of the words, and how \<open>Bits\<close> splits a number.\<close>

lemma SetBits_big_Bits: "SetBits (big_Bits n) = n"
proof (induction n rule: big_Bits.induct)
  case (1 n)
  show ?case
  proof (cases "n = 0")
    case False
    have "unat (word_of_nat (n mod 2 ^ 64) :: u64) = n mod 2 ^ 64" by (simp add: unsigned_of_nat take_bit_eq_mod)
    with 1 [OF False] False show ?thesis by (subst big_Bits.simps) simp
  qed (simp add: big_Bits.simps)
qed

lemma Exp_words_spec:
  assumes "0 \<le> r \<and> r < 2 ^ 256"
  shows "fst (Exp_words ws (r, b)) = (if ws = [] then r else r * b ^ SetBits ws mod 2 ^ 256)
    \<and> snd (Exp_words ws (r, b)) mod 2 ^ 256 = b ^ (2 ^ (64 * length ws)) mod 2 ^ 256"
  using assms
proof (induction ws arbitrary: r b)
  case (Cons w ws)
  obtain r' b' where rb: "Exp_word 64 w (r, b) = (r', b')" by fastforce
  have w: "unat w mod 2 ^ 64 = unat w" using unat_u64 by (rule mod_less)
  have r': "r' mod 2 ^ 256 = r * b ^ unat w mod 2 ^ 256" and b': "b' mod 2 ^ 256 = b ^ (2 ^ 64) mod 2 ^ 256"
    using Exp_word_spec [of 64 w r b] rb w by simp_all
  have range: "0 \<le> r' \<and> r' < 2 ^ 256" using Exp_word_range [OF Cons.prems, of 64 w b] rb by simp
  have pw: "b' ^ k mod 2 ^ 256 = b ^ (2 ^ 64 * k) mod 2 ^ 256" for k
  proof -
    have "b' ^ k mod 2 ^ 256 = (b' mod 2 ^ 256) ^ k mod 2 ^ 256" by (simp only: power_mod)
    also have "\<dots> = (b ^ (2 ^ 64)) ^ k mod 2 ^ 256" by (simp only: b' power_mod)
    finally show ?thesis by (simp only: power_mult)
  qed
  have "r' * b' ^ SetBits ws mod 2 ^ 256 = (r' mod 2 ^ 256) * (b' ^ SetBits ws mod 2 ^ 256) mod 2 ^ 256"
    by (simp add: mod_mult_eq)
  also have "\<dots> = r * b ^ unat w * b ^ (2 ^ 64 * SetBits ws) mod 2 ^ 256" by (simp only: r' pw mod_mult_eq)
  also have "\<dots> = r * b ^ SetBits (w # ws) mod 2 ^ 256" by (simp only: SetBits.simps power_add mult.assoc)
  finally have 1: "r' * b' ^ SetBits ws mod 2 ^ 256 = r * b ^ SetBits (w # ws) mod 2 ^ 256" .
  have "b' ^ (2 ^ (64 * length ws)) mod 2 ^ 256 = b ^ (2 ^ (64 * length (w # ws))) mod 2 ^ 256"
    by (simp only: pw length_Cons mult_Suc_right power_add)
  with 1 Cons.IH [OF range, of b'] range show ?case
    by (cases "ws = []") (simp_all only: Exp_words.simps wordBits_def rb SetBits.simps power_0 mult_1_right mod_pos_pos_trivial if_True if_False list.simps simp_thms)
qed simp


text \<open>The squares stay below \<open>2^256\<close>.\<close>

lemma Exp_word_base: "0 < i \<Longrightarrow> 0 \<le> snd (Exp_word i w (r, b)) \<and> snd (Exp_word i w (r, b)) < 2 ^ 256"
proof (induction i arbitrary: w r b)
  case (Suc i)
  show ?case
  proof (cases "i = 0")
    case True
    then show ?thesis using U256_range [of "b * b"] by (simp only: Exp_word.simps Let_def True snd_conv)
  next
    case False
    then show ?thesis using Suc.IH by (simp only: Exp_word.simps Let_def)
  qed
qed simp

lemma Exp_words_base: "ws \<noteq> [] \<Longrightarrow> 0 \<le> snd (Exp_words ws rb) \<and> snd (Exp_words ws rb) < 2 ^ 256"
proof (induction ws arbitrary: rb)
  case (Cons w ws)
  have "0 \<le> snd (Exp_word 64 w rb) \<and> snd (Exp_word 64 w rb) < 2 ^ 256"
    using Exp_word_base [of 64 w "fst rb" "snd rb"] by simp
  then show ?case using Cons.IH by (cases "ws = []") (simp_all only: Exp_words.simps wordBits_def not_False_eq_True)
qed simp

lemma math_Exp_base:
  "snd (math_Exp base exponent) =
     (if exponent = 0 then base else base ^ (2 ^ (64 * length (big_Bits (nat \<bar>exponent\<bar>)))) mod 2 ^ 256)"
proof (cases "exponent = 0")
  case False
  let ?ws = "big_Bits (nat \<bar>exponent\<bar>)"
  have "?ws \<noteq> []" using False by (subst big_Bits.simps) simp
  then have "snd (Exp_words ?ws (1, base)) mod 2 ^ 256 = snd (Exp_words ?ws (1, base))"
    using Exp_words_base [of ?ws "(1, base)"] by (intro mod_pos_pos_trivial) blast+
  moreover have "snd (Exp_words ?ws (1, base)) mod 2 ^ 256 = base ^ (2 ^ (64 * length ?ws)) mod 2 ^ 256"
    using Exp_words_spec [of 1 ?ws base] by simp
  ultimately show ?thesis using False by (simp only: math_Exp_def if_False)
qed (simp add: math_Exp_def big_Bits.simps)

lemma math_Exp_result: "fst (math_Exp base exponent) = base ^ nat \<bar>exponent\<bar> mod 2 ^ 256"
proof -
  have "fst (math_Exp base exponent) = (if big_Bits (nat \<bar>exponent\<bar>) = [] then 1 else base ^ nat \<bar>exponent\<bar> mod 2 ^ 256)"
    using Exp_words_spec [of 1 "big_Bits (nat \<bar>exponent\<bar>)" base] by (simp add: math_Exp_def SetBits_big_Bits)
  moreover have "big_Bits n = [] \<longleftrightarrow> n = 0" for n by (subst big_Bits.simps) simp
  ultimately show ?thesis by simp
qed

section \<open>Overflow checks\<close>

lemma unat_MaxUint64: "unat MaxUint64 = 2 ^ 64 - 1"
  by (simp add: MaxUint64_def unsigned_minus_1_eq_mask mask_eq_exp_minus_1)

lemma SafeAdd_spec:
  "snd (SafeAdd x y) \<longleftrightarrow> 2 ^ 64 \<le> unat x + unat y"
  "\<not> snd (SafeAdd x y) \<Longrightarrow> unat (fst (SafeAdd x y)) = unat x + unat y"
proof -
  have "x \<le> MaxUint64" using unat_u64 [of x] by (simp add: word_le_nat_alt unat_MaxUint64)
  then have "unat (MaxUint64 - x) = 2 ^ 64 - 1 - unat x" by (simp add: unat_sub unat_MaxUint64)
  then show s: "snd (SafeAdd x y) \<longleftrightarrow> 2 ^ 64 \<le> unat x + unat y"
    using unat_u64 [of x] by (simp add: SafeAdd_def word_less_nat_alt) linarith
  show "unat (fst (SafeAdd x y)) = unat x + unat y" if "\<not> snd (SafeAdd x y)"
    using that s by (simp add: SafeAdd_def unat_word_ariths)
qed

lemma SafeSub_spec:
  "snd (SafeSub x y) \<longleftrightarrow> unat x < unat y"
  "\<not> snd (SafeSub x y) \<Longrightarrow> unat (fst (SafeSub x y)) = unat x - unat y"
  by (simp_all add: SafeSub_def word_less_nat_alt word_le_nat_alt unat_sub)

lemma SafeMul_spec:
  "snd (SafeMul x y) \<longleftrightarrow> 2 ^ 64 \<le> unat x * unat y"
  "\<not> snd (SafeMul x y) \<Longrightarrow> unat (fst (SafeMul x y)) = unat x * unat y"
proof -
  show s: "snd (SafeMul x y) \<longleftrightarrow> 2 ^ 64 \<le> unat x * unat y"
  proof (cases "x = 0 \<or> y = 0")
    case False
    then have "0 < unat x" by (simp add: unat_gt_0)
    then have "(2 ^ 64 - 1) div unat x < unat y \<longleftrightarrow> 2 ^ 64 - 1 < unat y * unat x" by (simp only: div_less_iff_less_mult)
    with False show ?thesis
      by (simp add: SafeMul_def word_less_nat_alt unat_div unat_MaxUint64 mult.commute Suc_le_eq [symmetric])
  qed (auto simp: SafeMul_def)
  show "unat (fst (SafeMul x y)) = unat x * unat y" if "\<not> snd (SafeMul x y)"
    using that s by (auto simp: SafeMul_def unat_word_ariths)
qed


section \<open>Bytes of a big integer\<close>

lemma nat_bitlen_le: "nat_bitlen n \<le> k \<longleftrightarrow> n < 2 ^ k"
proof (induction n arbitrary: k rule: nat_bitlen.induct)
  case (1 n)
  show ?case
  proof (cases "n = 0")
    case False
    show ?thesis
    proof (cases k)
      case 0
      then show ?thesis using False by (subst nat_bitlen.simps) simp
    next
      case (Suc j)
      have "nat_bitlen n \<le> k \<longleftrightarrow> n div 2 < 2 ^ j" using 1 [OF False] False Suc by (subst nat_bitlen.simps) simp
      also have "\<dots> \<longleftrightarrow> n < 2 ^ k" by (simp add: Suc div_less_iff_less_mult mult.commute)
      finally show ?thesis .
    qed
  qed (simp add: nat_bitlen.simps)
qed

lemma ReadBits_word_spec:
  assumes "i \<le> length buf"
  shows "ReadBits_word j d i buf =
     (i - min i j, take (i - min i j) buf @ be_fixed (min i j) (unat d) @ drop i buf)"
  using assms
proof (induction j arbitrary: d i buf)
  case (Suc j)
  note IH = Suc.IH
  show ?case
  proof (cases i)
    case (Suc i')
    let ?buf = "buf[i' := ucast d]" and ?k = "min i' j"
    have i': "i' < length buf" using Suc Suc.prems by simp
    then have "drop i' ?buf = ucast d # drop i buf"
      by (simp add: Suc Cons_nth_drop_Suc [symmetric])
    moreover have "unat (drop_bit 8 d) = unat d div 256" using unat_drop_bit_div [of 8 d] by simp
    ultimately have "ReadBits_word j (drop_bit 8 d) i' ?buf =
        (i' - ?k, take (i' - ?k) buf @ be_fixed ?k (unat d div 256) @ ucast d # drop i buf)"
      using IH [of i' ?buf "drop_bit 8 d"] i' by simp
    moreover have "ReadBits_word (Suc j) d i buf = ReadBits_word j (drop_bit 8 d) i' ?buf" by (simp add: Suc)
    moreover have "min i (Suc j) = Suc ?k" "i - Suc ?k = i' - ?k" by (simp_all add: Suc)
    ultimately show ?thesis by simp
  qed simp
qed simp


lemma be_fixed_append: "be_fixed (a + b) n = be_fixed a (n div 256 ^ b) @ be_fixed b n"
  by (induction b arbitrary: n) (simp_all add: div_mult2_eq)

lemma be_fixed_low: "m mod 256 ^ k = n mod 256 ^ k \<Longrightarrow> be_fixed k m = be_fixed k n"
  by (metis be_fixed_be_to_nat be_to_nat_be_fixed length_be_fixed)

lemma ReadBits_words_spec:
  assumes "i \<le> length buf"
  shows "ReadBits_words ws i buf =
     take (i - min i (8 * length ws)) buf @ be_fixed (min i (8 * length ws)) (SetBits ws) @ drop i buf"
  using assms
proof (induction ws arbitrary: i buf)
  case (Cons d ds)
  let ?k = "min i 8" and ?n = "min i (8 * length (d # ds))"
  define buf' where "buf' = take (i - ?k) buf @ be_fixed ?k (unat d) @ drop i buf"
  define m where "m = min (i - ?k) (8 * length ds)"
  have w: "ReadBits_word 8 d i buf = (i - ?k, buf')" using ReadBits_word_spec [OF Cons.prems] by (simp add: buf'_def)
  have "ReadBits_words (d # ds) i buf = take (i - ?k - m) buf' @ be_fixed m (SetBits ds) @ drop (i - ?k) buf'"
    using Cons.IH [of "i - ?k" buf'] Cons.prems w by (simp add: wordBytes_def wordBits_def m_def buf'_def)
  also have "take (i - ?k - m) buf' = take (i - ?n) buf" using Cons.prems by (auto simp: buf'_def m_def min_def)
  also have "drop (i - ?k) buf' = be_fixed ?k (unat d) @ drop i buf" using Cons.prems by (simp add: buf'_def)
  also have "be_fixed m (SetBits ds) @ be_fixed ?k (unat d) @ drop i buf = be_fixed ?n (SetBits (d # ds)) @ drop i buf"
  proof (cases "8 \<le> i")
    case True
    then have n: "?n = m + 8" "?k = 8" by (auto simp: m_def)
    have "SetBits (d # ds) div 256 ^ 8 = SetBits ds" using unat_u64 [of d] by simp
    moreover have "be_fixed 8 (SetBits (d # ds)) = be_fixed 8 (unat d)" by (rule be_fixed_low) simp
    ultimately show ?thesis by (simp only: n be_fixed_append append_assoc)
  next
    case False
    then have n: "?n = i" "?k = i" "m = 0" by (simp_all add: m_def)
    have "(256 :: nat) ^ i dvd 256 ^ 8" using False by (intro le_imp_power_dvd) simp
    then have "(2 :: nat) ^ 64 * SetBits ds mod 256 ^ i = 0" by (simp add: dvd_mult2 mod_eq_0_iff_dvd)
    then have "be_fixed i (SetBits (d # ds)) = be_fixed i (unat d)"
      by (intro be_fixed_low) (simp only: SetBits.simps mod_add_right_eq [symmetric] add_0_right)
    then show ?thesis by (simp only: n be_fixed.simps append_Nil)
  qed
  finally show ?case by simp
qed simp

lemma SetBits_bound: "SetBits ws < 256 ^ (8 * length ws)"
proof (induction ws)
  case (Cons d ds)
  have "unat d + 2 ^ 64 * SetBits ds < 2 ^ 64 * (1 + SetBits ds)" using unat_u64 [of d] by simp
  also have "\<dots> \<le> 2 ^ 64 * 256 ^ (8 * length ds)" using Cons by (intro mult_left_mono) simp_all
  finally show ?case by (simp add: power_add)
qed simp

lemma ReadBits_zero: "ReadBits x (replicate n 0) = be_fixed n (nat \<bar>x\<bar>)"
proof -
  let ?v = "nat \<bar>x\<bar>" and ?m = "min n (8 * length (big_Bits (nat \<bar>x\<bar>)))"
  have r: "ReadBits x (replicate n 0) = replicate (n - ?m) 0 @ be_fixed ?m ?v"
    using ReadBits_words_spec [of n "replicate n 0"] by (simp add: ReadBits_def SetBits_big_Bits)
  have f: "be_fixed n ?v = be_fixed (n - ?m) (?v div 256 ^ ?m) @ be_fixed ?m ?v"
    using be_fixed_append [of "n - ?m" ?m] by simp
  have z: "n - ?m = 0 \<or> ?v div 256 ^ ?m = 0"
    using SetBits_bound [of "big_Bits ?v"] by (cases "n \<le> 8 * length (big_Bits ?v)") (simp_all add: SetBits_big_Bits)
  have "be_fixed k 0 = replicate k 0" for k by (induction k) (simp_all add: replicate_append_same)
  with z have "replicate (n - ?m) 0 = be_fixed (n - ?m) (?v div 256 ^ ?m)" by (metis replicate_0 be_fixed.simps(1))
  then show ?thesis by (simp only: r f)
qed


lemma PaddedBigBytes_spec:
  "be_to_nat (PaddedBigBytes x n) = nat \<bar>x\<bar>
   \<and> length (PaddedBigBytes x n) = max n (length (big_Bytes x))"
proof -
  let ?v = "nat \<bar>x\<bar>"
  show ?thesis
  proof (cases "BitLen x div 8 \<ge> n")
    case True
    have "n \<le> length (nat_to_be ?v)"
    proof (rule ccontr)
      assume "\<not> n \<le> length (nat_to_be ?v)"
      then have "(256 :: nat) ^ length (nat_to_be ?v) \<le> 256 ^ (n - 1)" by (intro power_increasing) simp_all
      moreover have "?v < 256 ^ length (nat_to_be ?v)" using be_to_nat_bound [of "nat_to_be ?v"] by simp
      ultimately have "?v < 256 ^ (n - 1)" by linarith
      then have "?v < 2 ^ (8 * (n - 1))" by (simp add: power_mult)
      then have "BitLen x \<le> 8 * (n - 1)" by (simp only: BitLen_def nat_bitlen_le)
      with True \<open>\<not> n \<le> length (nat_to_be ?v)\<close> show False by linarith
    qed
    with True show ?thesis by (simp add: PaddedBigBytes_def big_Bytes_def max_def)
  next
    case False
    then have "nat_bitlen ?v \<le> 8 * n" by (simp add: BitLen_def)
    then have v: "?v < 256 ^ n" by (simp add: nat_bitlen_le power_mult)
    with False show ?thesis
      by (simp add: PaddedBigBytes_def ReadBits_zero be_to_nat_be_fixed big_Bytes_def max_absorb1 nat_to_be_length_le)
  qed
qed

lemma big_Bits_nth:
  "(i < length (big_Bits n) \<longrightarrow> unat (big_Bits n ! i) = n div 2 ^ (64 * i) mod 2 ^ 64)
   \<and> (length (big_Bits n) \<le> i \<longrightarrow> n div 2 ^ (64 * i) = 0)"
proof (induction n arbitrary: i rule: big_Bits.induct)
  case (1 n)
  show ?case
  proof (cases "n = 0")
    case False
    then have b: "big_Bits n = word_of_nat (n mod 2 ^ 64) # big_Bits (n div 2 ^ 64)" by (subst big_Bits.simps) simp
    show ?thesis
    proof (cases i)
      case 0
      have "unat (word_of_nat (n mod 2 ^ 64) :: u64) = n mod 2 ^ 64" by (simp add: unsigned_of_nat take_bit_eq_mod)
      then show ?thesis by (simp add: b 0)
    next
      case (Suc j)
      have "n div 2 ^ (64 * i) = n div 2 ^ 64 div 2 ^ (64 * j)" by (simp add: Suc power_add div_mult2_eq)
      with 1 [OF False, of j] show ?thesis by (simp add: b Suc)
    qed
  qed (simp add: big_Bits.simps)
qed

lemma low_byte: "j < 8 \<Longrightarrow> (word_of_nat (a mod 2 ^ 64 div 256 ^ j) :: byte) = word_of_nat (a div 256 ^ j)"
proof -
  assume "j < 8"
  then have "8 \<le> 64 - 8 * j" by simp
  then have "take_bit 8 (drop_bit (8 * j) (take_bit 64 a)) = take_bit 8 (drop_bit (8 * j) a)"
    by (simp only: drop_bit_take_bit take_bit_take_bit min_absorb1)
  moreover have "(256 :: nat) ^ j = 2 ^ (8 * j)" by (simp add: power_mult)
  ultimately show ?thesis by (simp only: word_of_nat_eq_iff take_bit_eq_mod [symmetric] drop_bit_eq_div [symmetric]) simp
qed

lemma bigEndianByteAt_eq: "bigEndianByteAt x n = word_of_nat (nat \<bar>x\<bar> div 256 ^ n)"
proof -
  let ?v = "nat \<bar>x\<bar>" and ?i = "n div 8" and ?j = "n mod 8"
  have "(256 :: nat) ^ n = (256 ^ 8) ^ ?i * 256 ^ ?j" by (simp only: power_mult [symmetric] power_add [symmetric] mult_div_mod_eq)
  then have p: "(256 :: nat) ^ n = 2 ^ (64 * ?i) * 256 ^ ?j" by (simp add: power_mult)
  have j: "?j < 8" by simp
  show ?thesis
  proof (cases "?i < length (big_Bits ?v)")
    case True
    then have w: "unat (big_Bits ?v ! ?i) = ?v div 2 ^ (64 * ?i) mod 2 ^ 64" using big_Bits_nth by blast
    have "(word_of_nat (?v div 2 ^ (64 * ?i) mod 2 ^ 64 div 256 ^ ?j) :: byte) = word_of_nat (?v div 256 ^ n)"
      by (simp only: low_byte [OF j] p div_mult2_eq)
    then show ?thesis using True by (simp add: bigEndianByteAt_def wordBytes_def wordBits_def ucast_drop_bit_byte w)
  next
    case False
    then have "?v div 2 ^ (64 * ?i) = 0" using big_Bits_nth by (simp add: not_less)
    with False p show ?thesis by (simp add: bigEndianByteAt_def wordBytes_def wordBits_def div_mult2_eq)
  qed
qed

end
