(* ===== verification/MathProps.thy ===== *)
theory MathProps
  imports MathLaws
begin

text \<open>The properties of package \<open>math\<close>.\<close>

text \<open>C26. \<open>Exp\<close>, which squares and multiplies through the bits of the words of the exponent, returns the power modulo
  \<open>2^256\<close>, for every base and exponent. It leaves in \<open>base\<close> the last of the squares: its argument is changed, to 0 for
  the base 2 and the exponent 1.\<close>

theorem math_Exp_correct:
  "fst (math_Exp base exponent) = base ^ nat \<bar>exponent\<bar> mod 2 ^ 256
   \<and> snd (math_Exp base exponent) =
       (if exponent = 0 then base else base ^ (2 ^ (64 * length (big_Bits (nat \<bar>exponent\<bar>)))) mod 2 ^ 256)
   \<and> snd (math_Exp 2 1) = 0"
proof -
  let ?k = "2 ^ (64 * length (big_Bits (nat \<bar>1\<bar>)))"
  have "snd (math_Exp 2 1) = 2 ^ ?k mod 2 ^ 256" using math_Exp_base [of 2 1] by (simp only: one_neq_zero if_False)
  moreover have "(256 :: nat) \<le> ?k" by (simp add: big_Bits.simps)
  then have "(2 :: int) ^ 256 dvd 2 ^ ?k" by (rule le_imp_power_dvd)
  ultimately have "snd (math_Exp 2 1) = 0" by (simp only: mod_eq_0_iff_dvd)
  with math_Exp_result math_Exp_base show ?thesis by blast
qed

text \<open>The checked operations report exactly the overflows of 64 bits, and return the exact result where there is none.\<close>

theorem safe_arithmetic_exact:
  "(case SafeAdd x y of (r, overflow) \<Rightarrow> if overflow then 2 ^ 64 \<le> unat x + unat y else unat r = unat x + unat y)
   \<and> (case SafeSub x y of (r, overflow) \<Rightarrow> if overflow then unat x < unat y else int (unat r) = int (unat x) - int (unat y))
   \<and> (case SafeMul x y of (r, overflow) \<Rightarrow> if overflow then 2 ^ 64 \<le> unat x * unat y else unat r = unat x * unat y)"
  using SafeAdd_spec [of x y] SafeSub_spec [of x y] SafeMul_spec [of x y]
  by (simp add: split_beta of_nat_diff)

text \<open>The bytes of a big integer: \<open>PaddedBigBytes\<close> returns the absolute value in big-endian order, with at
  least \<open>n\<close> bytes and no more than needed, \<open>Byte\<close> reads the byte at a position of that padded form, and \<open>U256\<close>
  followed by \<open>S256\<close> gives the representative of a number modulo \<open>2^256\<close> in the signed range.\<close>

theorem big_bytes_exact:
  "be_to_nat (PaddedBigBytes x n) = nat \<bar>x\<bar>
   \<and> length (PaddedBigBytes x n) = max n (length (big_Bytes x))
   \<and> map (math_Byte x n) [0..<n] = be_fixed n (nat \<bar>x\<bar>)
   \<and> - (2 ^ 255) \<le> S256 (U256 x) \<and> S256 (U256 x) < 2 ^ 255 \<and> S256 (U256 x) mod 2 ^ 256 = x mod 2 ^ 256"
proof -
  have "map (math_Byte x n) [0..<n] = be_fixed n (nat \<bar>x\<bar>)"
    by (rule nth_equalityI) (simp_all add: math_Byte_def bigEndianByteAt_eq be_fixed_map rev_nth)
  then show ?thesis using PaddedBigBytes_spec S256_U256 by blast
qed

end
