(* ===== verification/Block.thy ===== *)
theory Block
  imports RlpCodec Hexutil
begin

text \<open>
  Block headers and blocks (\<open>core/types/block.go\<close>). The hash function is a parameter; an absent big
  integer of a header is \<open>None\<close>. A method that changes its block returns the new block; a block owns its header, so
  the sharing of headers and big integers between blocks is left out.
\<close>

section \<open>Headers\<close>

record Header =
  ParentHash :: Hash
  UncleHash :: Hash
  Coinbase :: Address
  RewardAddress :: Address
  Root :: Hash
  TxHash :: Hash
  ReceiptHash :: Hash
  Difficulty :: "int option"
  Number :: "int option"
  GasLimit :: u64
  GasUsed :: u64
  Time :: "int option"
  Extra :: bytes
  MixDigest :: Hash
  Nonce :: bytes
  Signature :: bytes
  MultiSignNormal :: bytes
  MultiSignCommit :: bytes

definition BlockNonce_Uint64 :: "bytes \<Rightarrow> u64 option" where
  "BlockNonce_Uint64 n = ByteToUint64 n"

definition BlockNonce_MarshalText :: "bytes \<Rightarrow> string" where
  "BlockNonce_MarshalText n = Bytes_MarshalText n"

definition BlockNonce_UnmarshalText :: "string \<Rightarrow> text_error + bytes" where
  "BlockNonce_UnmarshalText input = UnmarshalFixedText ''BlockNonce'' 8 input"

text \<open>The reflected type and the value of a header.\<close>

definition hashType :: rtype where "hashType = TArray 32 (TUint 8)"
definition addressType :: rtype where "addressType = TArray 20 (TUint 8)"
definition bigType :: rtype where "bigType = TPtr TBigInt"
definition bytesType :: rtype where "bytesType = TSlice (TUint 8)"

definition headerType :: rtype where
  "headerType = TStruct ''types.Header''
     [(''ParentHash'', '''', True, hashType), (''UncleHash'', '''', True, hashType), (''Coinbase'', '''', True, addressType),
      (''RewardAddress'', '''', True, addressType), (''Root'', '''', True, hashType), (''TxHash'', '''', True, hashType),
      (''ReceiptHash'', '''', True, hashType), (''Difficulty'', '''', True, bigType), (''Number'', '''', True, bigType),
      (''GasLimit'', '''', True, TUint 64), (''GasUsed'', '''', True, TUint 64), (''Time'', '''', True, bigType),
      (''Extra'', '''', True, bytesType), (''MixDigest'', '''', True, hashType), (''Nonce'', '''', True, TArray 8 (TUint 8)),
      (''Signature'', '''', True, bytesType), (''MultiSignNormal'', '''', True, bytesType), (''MultiSignCommit'', '''', True, bytesType)]"

definition bigVal :: "int option \<Rightarrow> rval" where
  "bigVal b = (case b of None \<Rightarrow> VNil | Some i \<Rightarrow> VPtr (VBig i))"

definition headerVal :: "Header \<Rightarrow> rval" where
  "headerVal h = VStruct
     [VBytes (ParentHash h), VBytes (UncleHash h), VBytes (Coinbase h), VBytes (RewardAddress h), VBytes (Root h), VBytes (TxHash h),
      VBytes (ReceiptHash h), bigVal (Difficulty h), bigVal (Number h), VUint (GasLimit h), VUint (GasUsed h), bigVal (Time h),
      VBytes (Extra h), VBytes (MixDigest h), VBytes (Nonce h), VBytes (Signature h), VBytes (MultiSignNormal h), VBytes (MultiSignCommit h)]"

text \<open>The hash of the encoding: the hash state is what was written to it, and an error of \<open>Encode\<close> is dropped.\<close>

definition hashWriter :: "bytes \<Rightarrow> bytes \<Rightarrow> nat \<times> rlp_error option \<times> bytes" where
  "hashWriter b hw = (length b, None, hw @ b)"

definition rlpHash :: "(bytes \<Rightarrow> Hash) \<Rightarrow> rtype \<Rightarrow> rval \<Rightarrow> Hash" where
  "rlpHash keccak ty x = keccak (snd (Encode hashWriter [] ty x))"

definition RlpHash :: "(bytes \<Rightarrow> Hash) \<Rightarrow> rtype \<Rightarrow> rval \<Rightarrow> Hash" where
  "RlpHash keccak ty x = keccak (snd (Encode hashWriter [] ty x))"

definition Header_Hash :: "(bytes \<Rightarrow> Hash) \<Rightarrow> Header \<Rightarrow> Hash" where
  "Header_Hash keccak h = rlpHash keccak (TPtr headerType) (VPtr (headerVal h))"

definition HashNoNonce :: "(bytes \<Rightarrow> Hash) \<Rightarrow> Header \<Rightarrow> Hash" where
  "HashNoNonce keccak h = rlpHash keccak (TSlice (TInterface 0))
     (VList [VIface hashType (VBytes (ParentHash h)), VIface hashType (VBytes (UncleHash h)),
       VIface addressType (VBytes (Coinbase h)), VIface addressType (VBytes (RewardAddress h)),
       VIface hashType (VBytes (Root h)), VIface hashType (VBytes (TxHash h)), VIface hashType (VBytes (ReceiptHash h)),
       VIface bigType (bigVal (Difficulty h)), VIface bigType (bigVal (Number h)), VIface (TUint 64) (VUint (GasLimit h)),
       VIface (TUint 64) (VUint (GasUsed h)), VIface bigType (bigVal (Time h)), VIface bytesType (VBytes (Extra h))])"

definition HashNoSignature :: "(bytes \<Rightarrow> Hash) \<Rightarrow> Header \<Rightarrow> Hash" where
  "HashNoSignature keccak h = rlpHash keccak (TSlice (TInterface 0))
     (VList [VIface hashType (VBytes (ParentHash h)), VIface hashType (VBytes (UncleHash h)),
       VIface addressType (VBytes (Coinbase h)), VIface addressType (VBytes (RewardAddress h)),
       VIface hashType (VBytes (Root h)), VIface hashType (VBytes (TxHash h)), VIface hashType (VBytes (ReceiptHash h)),
       VIface bigType (bigVal (Difficulty h)), VIface bigType (bigVal (Number h)), VIface (TUint 64) (VUint (GasLimit h)),
       VIface (TUint 64) (VUint (GasUsed h)), VIface bigType (bigVal (Time h)), VIface bytesType (VBytes (Extra h)),
       VIface (TArray 8 (TUint 8)) (VBytes (Nonce h))])"

definition orZero :: "int option \<Rightarrow> int" where
  "orZero b = (case b of None \<Rightarrow> 0 | Some i \<Rightarrow> i)"

definition copyIfAny :: "bytes \<Rightarrow> bytes" where
  "copyIfAny b = (if length b > 0 then copy_at 0 b (replicate (length b) 0) else b)"

definition CopyHeader :: "Header \<Rightarrow> Header" where
  "CopyHeader h = h\<lparr>Time := Some (orZero (Time h)), Difficulty := Some (orZero (Difficulty h)), Number := Some (orZero (Number h)),
     Extra := copyIfAny (Extra h), MultiSignCommit := copyIfAny (MultiSignCommit h), MultiSignNormal := copyIfAny (MultiSignNormal h)\<rparr>"

definition CalcUncleHash :: "(bytes \<Rightarrow> Hash) \<Rightarrow> Header list \<Rightarrow> Hash" where
  "CalcUncleHash keccak uncles = rlpHash keccak (TSlice (TPtr headerType)) (VList (map (\<lambda>h. VPtr (headerVal h)) uncles))"

section \<open>Blocks\<close>

record Block =
  blk_header :: Header
  blk_uncles :: "Header list"
  blk_hash :: "Hash option"
  blk_size :: "nat option"
  blk_td :: "int option"
  ReceivedFrom :: "(rtype \<times> rval) option"

definition emptyBlock :: "Header \<Rightarrow> Header list \<Rightarrow> Block" where
  "emptyBlock h us = \<lparr>blk_header = h, blk_uncles = us, blk_hash = None, blk_size = None, blk_td = None, ReceivedFrom = None\<rparr>"

definition NewBlockWithHeader :: "Header \<Rightarrow> Block" where
  "NewBlockWithHeader header = emptyBlock (CopyHeader header) []"

definition SetMultiSign :: "bytes \<Rightarrow> bytes \<Rightarrow> Block \<Rightarrow> Block" where
  "SetMultiSign normal commit b = b\<lparr>blk_header := (blk_header b)\<lparr>MultiSignCommit := commit, MultiSignNormal := normal\<rparr>\<rparr>"

definition SetSignature :: "bytes \<Rightarrow> Block \<Rightarrow> Block" where
  "SetSignature sig b = b\<lparr>blk_header := (blk_header b)\<lparr>Signature := sig\<rparr>\<rparr>"

text \<open>\<open>big.Int.Uint64\<close> is the low word of the absolute value; a nil number panics.\<close>

definition NumberU64 :: "Block \<Rightarrow> u64 option" where
  "NumberU64 b = map_option (\<lambda>i. word_of_int \<bar>i\<bar>) (Number (blk_header b))"

definition Block_Nonce :: "Block \<Rightarrow> u64 option" where
  "Block_Nonce b = ByteToUint64 (Nonce (blk_header b))"

definition Block_Extra :: "Block \<Rightarrow> bytes" where
  "Block_Extra b = CopyBytes (Extra (blk_header b))"

definition Block_Header :: "Block \<Rightarrow> Header" where
  "Block_Header b = CopyHeader (blk_header b)"

definition Block_HashNoNonce :: "(bytes \<Rightarrow> Hash) \<Rightarrow> Block \<Rightarrow> Hash" where
  "Block_HashNoNonce keccak b = HashNoNonce keccak (blk_header b)"

text \<open>
  The reflected type of a block: only the last two fields are exported, and \<open>time.Time\<close> has no
  exported field. The fields that are not exported are not looked into.
\<close>

definition timeType :: rtype where
  "timeType = TStruct ''time.Time'' [(''wall'', '''', False, TUint 64), (''ext'', '''', False, TOther ''int64''), (''loc'', '''', False, TOther ''*time.Location'')]"

definition blockType :: rtype where
  "blockType = TStruct ''types.Block''
     [(''header'', '''', False, TPtr headerType), (''uncles'', '''', False, TSlice (TPtr headerType)),
      (''hash'', '''', False, TOther ''atomic.Value''), (''size'', '''', False, TOther ''atomic.Value''), (''td'', '''', False, bigType),
      (''ReceivedAt'', '''', True, timeType), (''ReceivedFrom'', '''', True, TInterface 0)]"

definition blockVal :: "Block \<Rightarrow> rval" where
  "blockVal b = VStruct
     [VPtr (headerVal (blk_header b)), VList (map (\<lambda>h. VPtr (headerVal h)) (blk_uncles b)), VNil, VNil, bigVal (blk_td b),
      VStruct [VUint 0, VNil, VNil], (case ReceivedFrom b of None \<Rightarrow> VNil | Some (t, v) \<Rightarrow> VIface t v)]"

definition writeCounter :: "bytes \<Rightarrow> nat \<Rightarrow> nat \<times> rlp_error option \<times> nat" where
  "writeCounter b c = (length b, None, c + length b)"

definition Block_Size :: "Block \<Rightarrow> nat \<times> Block" where
  "Block_Size b =
     (case blk_size b of
        Some n \<Rightarrow> (n, b)
      | None \<Rightarrow> (let c = snd (Encode writeCounter 0 (TPtr blockType) (VPtr (blockVal b))) in (c, b\<lparr>blk_size := Some c\<rparr>)))"

definition WithSeal :: "Header \<Rightarrow> Block \<Rightarrow> Block" where
  "WithSeal header b = emptyBlock header (blk_uncles b)"

definition Block_Hash :: "(bytes \<Rightarrow> Hash) \<Rightarrow> Block \<Rightarrow> Hash \<times> Block" where
  "Block_Hash keccak b =
     (case blk_hash b of
        Some h \<Rightarrow> (h, b)
      | None \<Rightarrow> (let v = Header_Hash keccak (blk_header b) in (v, b\<lparr>blk_hash := Some v\<rparr>)))"

text \<open>The comparison of block numbers; a nil number panics.\<close>

definition NumberLess :: "Block \<Rightarrow> Block \<Rightarrow> bool option" where
  "NumberLess b1 b2 =
     (case (Number (blk_header b1), Number (blk_header b2)) of (Some x, Some y) \<Rightarrow> Some (x < y) | _ \<Rightarrow> None)"

end
