(* ===== verification/BlockLaws.thy ===== *)
theory BlockLaws
  imports Block
begin

text \<open>What the hashes of a header are computed from, and that it determines the hashed fields.\<close>

section \<open>Lists of strings are decodable\<close>

lemma enc_str_kind: "\<exists>k. enc_str b = kind_head k (length b) @ b \<and> canon k b \<and> k \<noteq> List"
  using rlp_enc_kind [of "Str b"] by (metis rlp_enc.simps(1) item.distinct(1))

lemma enc_str_prefix:
  assumes "enc_str b @ r = enc_str b' @ r'" "length (enc_str b @ r) < 2 ^ 64"
  shows "b = b' \<and> r = r'"
proof -
  obtain k k' where k: "enc_str b = kind_head k (length b) @ b" "canon k b" "enc_str b' = kind_head k' (length b') @ b'" "canon k' b'"
    using enc_str_kind by metis
  have "Split (enc_str b @ r) = Inr (k, b, r)" using Split_iff [OF assms(2)] k by simp
  moreover have "Split (enc_str b @ r) = Inr (k', b', r')" using Split_iff [OF assms(2)] k assms(1) by simp
  ultimately show ?thesis by simp
qed

definition encStrs :: "bytes list \<Rightarrow> bytes" where
  "encStrs xs = enc_list (concat (map enc_str xs))"

lemma enc_strs_inj:
  "concat (map enc_str xs) = concat (map enc_str ys) \<Longrightarrow> length (concat (map enc_str xs)) < 2 ^ 64 \<Longrightarrow> xs = ys"
proof (induction xs arbitrary: ys)
  case Nil
  then show ?case by (cases ys) (simp_all add: enc_str_not_Nil)
next
  case (Cons x xs)
  then obtain y ys' where ys: "ys = y # ys'" by (cases ys) (auto simp: enc_str_not_Nil)
  with Cons.prems have "enc_str x @ concat (map enc_str xs) = enc_str y @ concat (map enc_str ys')" by simp
  then have "x = y \<and> concat (map enc_str xs) = concat (map enc_str ys')"
    by (rule enc_str_prefix) (use Cons.prems(2) in simp)
  with Cons ys show ?case by simp
qed

lemma encStrs_inj: "encStrs xs = encStrs ys \<Longrightarrow> length (encStrs xs) < 2 ^ 64 \<Longrightarrow> xs = ys"
proof -
  assume a: "encStrs xs = encStrs ys" "length (encStrs xs) < 2 ^ 64"
  let ?p = "\<lambda>xs. concat (map enc_str xs)"
  have s: "Split (encStrs zs) = Inr (List, ?p zs, [])" if "length (encStrs zs) < 2 ^ 64" for zs
    using Split_iff [OF that, of List "?p zs" "[]"] by (simp add: encStrs_def enc_list_def kind_head_def canon_def)
  from s [of xs] s [of ys] a have "?p xs = ?p ys" by simp
  moreover have "length (?p xs) < 2 ^ 64" using a(2) by (simp add: encStrs_def enc_list_def)
  ultimately show ?thesis by (rule enc_strs_inj)
qed

lemma length_enc_str: "length b < 2 ^ 64 \<Longrightarrow> length (enc_str b) \<le> length b + 9"
  using length_rlp_head_le [of "length b"] by (simp add: enc_str_def)

lemma length_enc_strs: "\<forall>x \<in> set xs. length x < 2 ^ 40 \<Longrightarrow> length (concat (map enc_str xs)) \<le> length xs * 2 ^ 41"
proof (induction xs)
  case (Cons x xs)
  then show ?case using length_enc_str [of x] by simp
qed simp

lemma length_encStrs:
  assumes "\<forall>x \<in> set xs. length x < 2 ^ 40" "length xs < 2 ^ 20"
  shows "length (encStrs xs) < 2 ^ 64"
proof -
  have l: "length (concat (map enc_str xs)) \<le> 2 ^ 61" using length_enc_strs [OF assms(1)] assms(2) by simp
  then have "length (encStrs xs) \<le> 2 ^ 61 + 9"
    using length_rlp_head_le [of "length (concat (map enc_str xs))" 192 247] by (simp add: encStrs_def enc_list_def)
  then show ?thesis by simp
qed

section \<open>The preimages\<close>

definition bigBytes :: "int option \<Rightarrow> bytes" where
  "bigBytes b = nat_to_be (nat (orZero b))"

definition sealFields :: "Header \<Rightarrow> bytes list" where
  "sealFields h =
     [ParentHash h, UncleHash h, Coinbase h, RewardAddress h, Root h, TxHash h, ReceiptHash h, bigBytes (Difficulty h),
      bigBytes (Number h), nat_to_be (unat (GasLimit h)), nat_to_be (unat (GasUsed h)), bigBytes (Time h), Extra h]"

definition headerFields :: "Header \<Rightarrow> bytes list" where
  "headerFields h = sealFields h @ [MixDigest h, Nonce h, Signature h, MultiSignNormal h, MultiSignCommit h]"

definition bigs_ok :: "Header \<Rightarrow> bool" where
  "bigs_ok h \<longleftrightarrow> 0 \<le> orZero (Difficulty h) \<and> 0 \<le> orZero (Number h) \<and> 0 \<le> orZero (Time h)"

lemma headerWriter:
  "makeWriter (TPtr headerType) no_tags = Inr (WPtr List (WStruct
     [(0, WByteArray), (1, WByteArray), (2, WByteArray), (3, WByteArray), (4, WByteArray), (5, WByteArray), (6, WByteArray),
      (7, WBigIntPtr), (8, WBigIntPtr), (9, WUint), (10, WUint), (11, WBigIntPtr), (12, WBytes), (13, WByteArray), (14, WByteArray),
      (15, WBytes), (16, WBytes), (17, WBytes)]))"
  by code_simp


lemma refWriter_big: "refWriter ad WBigIntPtr (bigVal b) = (if orZero b < 0 then Inl negativeBigInt else Inr (enc_str (bigBytes b)))"
  by (cases b) (simp_all add: bigVal_def bigBytes_def orZero_def)

lemma refEncode_header:
  "bigs_ok h \<Longrightarrow> refEncode (TPtr headerType) (VPtr (headerVal h)) = Inr (encStrs (headerFields h))"
  by (simp add: refEncode_def headerWriter headerVal_def refWriter_big bigs_ok_def encStrs_def headerFields_def sealFields_def)

lemma ifaceWriters:
  "makeWriter hashType no_tags = Inr WByteArray" "makeWriter addressType no_tags = Inr WByteArray"
  "makeWriter bigType no_tags = Inr WBigIntPtr" "makeWriter bytesType no_tags = Inr WBytes"
  "makeWriter (TUint 64) no_tags = Inr WUint" "makeWriter (TArray 8 (TUint 8)) no_tags = Inr WByteArray"
  "makeWriter (TSlice (TInterface 0)) no_tags = Inr (WSlice False True WInterface)"
  by code_simp+

text \<open>What is hashed: the encoding, when there is one.\<close>

lemma hashWriter_io: "io_writer hashWriter (\<lambda>hw. hw)"
  by (simp add: io_writer_def hashWriter_def)

lemma toWriter_loop_hash: "fst (toWriter_loop hashWriter str hs pos out) = None"
  by (induction hs arbitrary: pos out) (simp_all add: hashWriter_def Let_def)

lemma rlpHash_eq:
  assumes "refEncode ty v = Inr bs" "length bs < 2 ^ 64"
  shows "rlpHash keccak ty v = keccak bs"
proof -
  obtain err out where e: "Encode hashWriter [] ty v = (err, out)" by fastforce
  obtain w where "eb_encode ty v eb_reset = Inr w" using eb_encode_adds [OF assms] by blast
  with e have "err = None" using toWriter_loop_hash [of "eb_str w" "eb_lheads w" 0 "[]"]
    by (simp add: Encode_def toWriter_def)
  with Encode_ref [OF hashWriter_io assms e] e show ?thesis by (simp add: wrote_def rlpHash_def)
qed


definition hdr_ok :: "Header \<Rightarrow> bool" where
  "hdr_ok h \<longleftrightarrow> bigs_ok h \<and> (\<forall>x \<in> set (headerFields h). length x < 2 ^ 40)"

lemma length_fields: "length (headerFields h) = 18" "length (sealFields h) = 13"
  by (simp_all add: headerFields_def sealFields_def)

lemma seal_small: "hdr_ok h \<Longrightarrow> \<forall>x \<in> set (sealFields h). length x < 2 ^ 40" "hdr_ok h \<Longrightarrow> length (Nonce h) < 2 ^ 40"
  by (simp_all add: hdr_ok_def headerFields_def)

lemma hdr_lengths:
  assumes "hdr_ok h"
  shows "length (encStrs (headerFields h)) < 2 ^ 64" "length (encStrs (sealFields h)) < 2 ^ 64"
    "length (encStrs (sealFields h @ [Nonce h])) < 2 ^ 64"
proof -
  show "length (encStrs (headerFields h)) < 2 ^ 64"
    by (rule length_encStrs) (use assms in \<open>simp_all add: hdr_ok_def length_fields\<close>)
  show "length (encStrs (sealFields h)) < 2 ^ 64"
    by (rule length_encStrs [OF seal_small(1) [OF assms]]) (simp add: length_fields)
  show "length (encStrs (sealFields h @ [Nonce h])) < 2 ^ 64"
    by (rule length_encStrs) (use seal_small [OF assms] in \<open>simp_all add: length_fields\<close>)
qed

lemma Header_Hash_eq: "hdr_ok h \<Longrightarrow> Header_Hash keccak h = keccak (encStrs (headerFields h))"
  unfolding Header_Hash_def by (rule rlpHash_eq) (simp_all only: hdr_lengths(1), simp add: hdr_ok_def refEncode_header)

lemma HashNoNonce_eq: "hdr_ok h \<Longrightarrow> HashNoNonce keccak h = keccak (encStrs (sealFields h))"
  unfolding HashNoNonce_def
  by (rule rlpHash_eq)
    (simp_all only: hdr_lengths(2), simp add: refEncode_def ifaceWriters refWriter_big hdr_ok_def bigs_ok_def encStrs_def sealFields_def isByte_def)

lemma HashNoSignature_eq: "hdr_ok h \<Longrightarrow> HashNoSignature keccak h = keccak (encStrs (sealFields h @ [Nonce h]))"
  unfolding HashNoSignature_def
  by (rule rlpHash_eq)
    (simp_all only: hdr_lengths(3), simp add: refEncode_def ifaceWriters refWriter_big hdr_ok_def bigs_ok_def encStrs_def sealFields_def isByte_def)

section \<open>The fields determine the header\<close>

definition bigs_present :: "Header \<Rightarrow> bool" where
  "bigs_present h \<longleftrightarrow> Difficulty h \<noteq> None \<and> Number h \<noteq> None \<and> Time h \<noteq> None"

lemma bigBytes_inj: "bigBytes a = bigBytes b \<Longrightarrow> 0 \<le> orZero a \<Longrightarrow> 0 \<le> orZero b \<Longrightarrow> a \<noteq> None \<Longrightarrow> b \<noteq> None \<Longrightarrow> a = b"
  by (auto simp: bigBytes_def orZero_def dest: arg_cong [where f = be_to_nat])

lemma nat_to_be_u64_inj: "nat_to_be (unat a) = nat_to_be (unat b) \<longleftrightarrow> a = b" for a b :: u64
  by (metis be_to_nat_nat_to_be word_unat_eq_iff)

text \<open>The header without what is neither sealed nor signed.\<close>

definition signedPart :: "Header \<Rightarrow> Header" where
  "signedPart h = h\<lparr>MixDigest := [], Signature := [], MultiSignNormal := [], MultiSignCommit := []\<rparr>"

definition sealedPart :: "Header \<Rightarrow> Header" where
  "sealedPart h = (signedPart h)\<lparr>Nonce := []\<rparr>"

lemma sealFields_inj:
  assumes "bigs_ok h" "bigs_ok h'" "bigs_present h" "bigs_present h'"
  shows "sealFields h = sealFields h' \<longleftrightarrow> sealedPart h = sealedPart h'"
proof
  assume "sealFields h = sealFields h'"
  with assms show "sealedPart h = sealedPart h'"
    by (auto simp: sealFields_def sealedPart_def signedPart_def bigs_ok_def bigs_present_def nat_to_be_u64_inj intro!: Header.equality dest: bigBytes_inj)
next
  assume "sealedPart h = sealedPart h'"
  then show "sealFields h = sealFields h'"
    by (cases h; cases h') (simp add: sealFields_def sealedPart_def signedPart_def)
qed

lemma sealedPart_parts:
  "sealedPart h = sealedPart h' \<and> Nonce h = Nonce h' \<longleftrightarrow> signedPart h = signedPart h'"
  "sealedPart h = sealedPart h' \<and> MixDigest h = MixDigest h' \<and> Nonce h = Nonce h' \<and> Signature h = Signature h'
    \<and> MultiSignNormal h = MultiSignNormal h' \<and> MultiSignCommit h = MultiSignCommit h' \<longleftrightarrow> h = h'"
  by (cases h; cases h'; auto simp: sealedPart_def signedPart_def)+

end
