(* ===== verification/BlockProps.thy ===== *)
theory BlockProps
  imports BlockLaws
begin

text \<open>The properties of headers and blocks.\<close>

definition demoHeader :: "int \<Rightarrow> Header" where
  "demoHeader n = \<lparr>ParentHash = zeroHash, UncleHash = zeroHash, Coinbase = zeroAddress, RewardAddress = zeroAddress, Root = zeroHash,
     TxHash = zeroHash, ReceiptHash = zeroHash, Difficulty = Some 1, Number = Some n, GasLimit = 5, GasUsed = 3, Time = Some 7,
     Extra = [1, 2], MixDigest = zeroHash, Nonce = replicate 8 0, Signature = [9], MultiSignNormal = [], MultiSignCommit = []\<rparr>"

lemma CopyHeader_fields:
  "headerFields (CopyHeader h) = headerFields h" "sealFields (CopyHeader h) = sealFields h" "Nonce (CopyHeader h) = Nonce h"
  "bigs_present (CopyHeader h)" "hdr_ok (CopyHeader h) = hdr_ok h"
proof -
  show f: "headerFields (CopyHeader h) = headerFields h" "sealFields (CopyHeader h) = sealFields h"
    by (simp_all add: headerFields_def sealFields_def bigBytes_def orZero_def CopyHeader_def copyIfAny_def copy_at_def)
  show "Nonce (CopyHeader h) = Nonce h" "bigs_present (CopyHeader h)"
    by (simp_all add: CopyHeader_def bigs_present_def)
  show "hdr_ok (CopyHeader h) = hdr_ok h"
    unfolding hdr_ok_def f(1) by (simp add: bigs_ok_def orZero_def CopyHeader_def)
qed

lemma CopyHeader_present: "bigs_present h \<Longrightarrow> CopyHeader h = h"
  by (cases h) (auto simp: CopyHeader_def copyIfAny_def orZero_def bigs_present_def copy_at_def)

text \<open>
  For headers whose big integers are all there, equality is what the hashes decide; for the others it is
  equality of the copies.
\<close>

lemma present_hashes_commit:
  assumes "hdr_ok h" "hdr_ok h'" "bigs_present h" "bigs_present h'"
    "inj_on keccak {encStrs (headerFields h), encStrs (headerFields h'), encStrs (sealFields h), encStrs (sealFields h'),
       encStrs (sealFields h @ [Nonce h]), encStrs (sealFields h' @ [Nonce h'])}"
  shows "(Header_Hash keccak h = Header_Hash keccak h' \<longleftrightarrow> h = h')
    \<and> (HashNoSignature keccak h = HashNoSignature keccak h' \<longleftrightarrow> signedPart h = signedPart h')
    \<and> (HashNoNonce keccak h = HashNoNonce keccak h' \<longleftrightarrow> sealedPart h = sealedPart h')"
proof -
  have bigs: "bigs_ok h" "bigs_ok h'" using assms(1,2) by (simp_all add: hdr_ok_def)
  note inj = sealFields_inj [OF bigs assms(3,4)]
  have e: "encStrs xs = encStrs ys \<longleftrightarrow> xs = ys" if "length (encStrs xs) < 2 ^ 64" for xs ys
    using encStrs_inj that by blast
  note l = hdr_lengths [OF assms(1)]
  have "Header_Hash keccak h = Header_Hash keccak h' \<longleftrightarrow> headerFields h = headerFields h'"
    using inj_on_eq_iff [OF assms(5)] e [OF l(1)] by (simp add: Header_Hash_eq assms(1,2))
  also have "\<dots> \<longleftrightarrow> h = h'"
    using inj sealedPart_parts(2) [of h h'] by (auto simp: headerFields_def)
  finally have 1: "Header_Hash keccak h = Header_Hash keccak h' \<longleftrightarrow> h = h'" .
  have "HashNoSignature keccak h = HashNoSignature keccak h' \<longleftrightarrow> sealFields h = sealFields h' \<and> Nonce h = Nonce h'"
    using inj_on_eq_iff [OF assms(5)] e [OF l(3)] by (simp add: HashNoSignature_eq assms(1,2))
  then have 2: "HashNoSignature keccak h = HashNoSignature keccak h' \<longleftrightarrow> signedPart h = signedPart h'"
    using inj sealedPart_parts(1) by blast
  have 3: "HashNoNonce keccak h = HashNoNonce keccak h' \<longleftrightarrow> sealedPart h = sealedPart h'"
    using inj_on_eq_iff [OF assms(5)] e [OF l(2)] inj by (simp add: HashNoNonce_eq assms(1,2))
  from 1 2 3 show ?thesis by simp
qed

text \<open>C25. The hashes commit to the header, a nil big integer counting as 0: as long as the hash function does not
  collide on the data hashed, two headers have the same \<open>Hash\<close> exactly if \<open>CopyHeader\<close> makes equal headers of
  them, the same \<open>HashNoSignature\<close> exactly if these copies differ at most in \<open>MixDigest\<close> and the signatures, and
  the same \<open>HashNoNonce\<close> exactly if they differ at most in these and in \<open>Nonce\<close>. \<open>CopyHeader\<close> keeps the three
  hashes, replaces each nil big integer by 0, and changes nothing else. Proved for headers whose difficulty, number
  and time are not negative and whose fields are shorter than \<open>2 ^ 40\<close> bytes (\<open>hdr_ok\<close>): of a header with a
  negative one, \<open>rlpHash\<close> drops the error of the encoder and hashes nothing.\<close>

theorem header_hashes_commit:
  assumes "hdr_ok h" "hdr_ok h'"
    "inj_on keccak {encStrs (headerFields h), encStrs (headerFields h'), encStrs (sealFields h), encStrs (sealFields h'),
       encStrs (sealFields h @ [Nonce h]), encStrs (sealFields h' @ [Nonce h'])}"
  shows "(Header_Hash keccak h = Header_Hash keccak h' \<longleftrightarrow> CopyHeader h = CopyHeader h')
    \<and> (HashNoSignature keccak h = HashNoSignature keccak h' \<longleftrightarrow> signedPart (CopyHeader h) = signedPart (CopyHeader h'))
    \<and> (HashNoNonce keccak h = HashNoNonce keccak h' \<longleftrightarrow> sealedPart (CopyHeader h) = sealedPart (CopyHeader h'))
    \<and> Header_Hash keccak (CopyHeader h) = Header_Hash keccak h
    \<and> HashNoSignature keccak (CopyHeader h) = HashNoSignature keccak h
    \<and> HashNoNonce keccak (CopyHeader h) = HashNoNonce keccak h
    \<and> CopyHeader h = h\<lparr>Difficulty := Some (orZero (Difficulty h)), Number := Some (orZero (Number h)), Time := Some (orZero (Time h))\<rparr>"
proof -
  have same: "Header_Hash keccak (CopyHeader g) = Header_Hash keccak g"
    "HashNoSignature keccak (CopyHeader g) = HashNoSignature keccak g"
    "HashNoNonce keccak (CopyHeader g) = HashNoNonce keccak g" if "hdr_ok g" for g
    using that by (simp_all add: Header_Hash_eq HashNoSignature_eq HashNoNonce_eq CopyHeader_fields)
  have "CopyHeader h = h\<lparr>Difficulty := Some (orZero (Difficulty h)), Number := Some (orZero (Number h)), Time := Some (orZero (Time h))\<rparr>"
    by (cases h) (simp add: CopyHeader_def copyIfAny_def copy_at_def)
  note e = this
  have "(Header_Hash keccak (CopyHeader h) = Header_Hash keccak (CopyHeader h') \<longleftrightarrow> CopyHeader h = CopyHeader h')
    \<and> (HashNoSignature keccak (CopyHeader h) = HashNoSignature keccak (CopyHeader h')
         \<longleftrightarrow> signedPart (CopyHeader h) = signedPart (CopyHeader h'))
    \<and> (HashNoNonce keccak (CopyHeader h) = HashNoNonce keccak (CopyHeader h')
         \<longleftrightarrow> sealedPart (CopyHeader h) = sealedPart (CopyHeader h'))"
    by (rule present_hashes_commit) (use assms in \<open>simp_all only: CopyHeader_fields\<close>)
  then show ?thesis using same [OF assms(1)] e unfolding same [OF assms(1)] same [OF assms(2)] by blast
qed

text \<open>What the proviso excludes: all headers with a negative big integer have the same hash.\<close>

lemma negative_hashes_alike:
  assumes "orZero (Number h) < 0"
  shows "Header_Hash keccak h = keccak []"
proof -
  obtain n where "Number h = Some n" "n < 0" using assms by (cases "Number h") (auto simp: orZero_def)
  then obtain e where "refEncode (TPtr headerType) (VPtr (headerVal h)) = Inl e"
    by (cases "Difficulty h") (auto simp: refEncode_def headerWriter headerVal_def refWriter_big orZero_def split: if_splits)
  then have "eb_encode (TPtr headerType) (VPtr (headerVal h)) eb_reset = Inl e" by (simp only: eb_encode_error)
  then show ?thesis by (simp add: Header_Hash_def rlpHash_def Encode_def)
qed

theorem header_hashes_commit_witness:
  "Header_Hash (\<lambda>b. b) (demoHeader 1) \<noteq> Header_Hash (\<lambda>b. b) (demoHeader 2)
   \<and> HashNoNonce (\<lambda>b. b) (demoHeader 1) = HashNoNonce (\<lambda>b. b) ((demoHeader 1)\<lparr>Nonce := replicate 8 1\<rparr>)
   \<and> Header_Hash (\<lambda>b. b) ((demoHeader 0)\<lparr>Number := None\<rparr>) = Header_Hash (\<lambda>b. b) (demoHeader 0)"
proof -
  let ?hs = "[demoHeader 0, demoHeader 1, demoHeader 2, (demoHeader 1)\<lparr>Nonce := replicate 8 1\<rparr>, (demoHeader 0)\<lparr>Number := None\<rparr>]"
  have ok: "hdr_ok h" if "h \<in> set ?hs" for h
    using that by (auto simp: hdr_ok_def bigs_ok_def headerFields_def sealFields_def demoHeader_def orZero_def bigBytes_def nat_to_be_small nat_to_be_pos)
  have inj: "inj_on (\<lambda>b :: bytes. b) A" for A by simp
  have "CopyHeader (demoHeader 1) \<noteq> CopyHeader (demoHeader 2)"
    "sealedPart (CopyHeader (demoHeader 1)) = sealedPart (CopyHeader ((demoHeader 1)\<lparr>Nonce := replicate 8 1\<rparr>))"
    "CopyHeader ((demoHeader 0)\<lparr>Number := None\<rparr>) = CopyHeader (demoHeader 0)"
    by (simp_all add: demoHeader_def sealedPart_def signedPart_def CopyHeader_def orZero_def)
  then show ?thesis
    using header_hashes_commit [OF ok ok inj, of "demoHeader 1" "demoHeader 2"]
      header_hashes_commit [OF ok ok inj, of "demoHeader 1" "(demoHeader 1)\<lparr>Nonce := replicate 8 1\<rparr>"]
      header_hashes_commit [OF ok ok inj, of "(demoHeader 0)\<lparr>Number := None\<rparr>" "demoHeader 0"]
    by (metis list.set_intros)
qed

section \<open>The cached values of a block\<close>

text \<open>
  The hash of a block is computed once: after a first call of \<open>Hash\<close>, setting the signature, which is
  part of the hashed data, does not change what \<open>Hash\<close> returns.
\<close>

lemma Block_Hash_stale:
  "fst (Block_Hash keccak (SetSignature sig (snd (Block_Hash keccak b)))) = fst (Block_Hash keccak b)"
  by (simp add: Block_Hash_def SetSignature_def Let_def split: option.splits)

text \<open>
  \<open>Size\<close> of a block that was not received from a peer is 3, whatever its header and uncles: only the exported
  fields are encoded.
\<close>

lemma blockWriter: "makeWriter (TPtr blockType) no_tags = Inr (WPtr List (WStruct [(5, WStruct []), (6, WInterface)]))"
  by code_simp

lemma Block_Size_constant:
  assumes "ReceivedFrom b = None" "blk_size b = None"
  shows "fst (Block_Size b) = 3"
proof -
  have "eb_encode (TPtr blockType) (VPtr (blockVal b)) eb_reset = eb_encode (TPtr blockType)
      (VPtr (VStruct [VNil, VNil, VNil, VNil, VNil, VStruct [VUint 0, VNil, VNil], VNil])) eb_reset"
    by (simp add: eb_encode_def blockWriter blockVal_def assms(1) cong: sum.case_cong)
  moreover have "snd (Encode writeCounter 0 (TPtr blockType) (VPtr (VStruct [VNil, VNil, VNil, VNil, VNil, VStruct [VUint 0, VNil, VNil], VNil]))) = 3"
    by code_simp
  ultimately show ?thesis using assms(2) by (simp add: Block_Size_def Encode_def)
qed

end
