(* ===== verification/ContainerHeap.thy ===== *)
theory ContainerHeap
  imports Prelude "HOL-Library.Multiset"
begin

text \<open>
  The functions of \<open>container/heap\<close> of the Go library, which \<open>common/prque\<close> calls with its own \<open>Less\<close>, \<open>Swap\<close>,
  \<open>Push\<close>, \<open>Pop\<close> and \<open>Len\<close>; the same loops on a list; and the contract of \<open>heap.Interface\<close> as a locale, under
  which the functions compute the loops on the list the collection stands for. A panic of an operation is \<open>None\<close>.
\<close>

section \<open>The library functions\<close>

text \<open>The parent of an index; Go's \<open>(0 - 1) / 2\<close> is 0.\<close>

definition parent :: "nat \<Rightarrow> nat" where "parent k = (k - 1) div 2"

lemma parent_less [simp]: "parent k \<le> k" "0 < k \<Longrightarrow> parent k < k" "parent k = k \<longleftrightarrow> k = 0" "parent 0 = 0"
  by (auto simp: parent_def)

function heap_up :: "('s \<Rightarrow> int \<Rightarrow> int \<Rightarrow> bool option) \<Rightarrow> (int \<Rightarrow> int \<Rightarrow> 's \<Rightarrow> 's option) \<Rightarrow> nat \<Rightarrow> 's \<Rightarrow> 's option" where
  "heap_up lss swap j s =
     (if parent j = j then Some s
      else (case lss s (int j) (int (parent j)) of
              None \<Rightarrow> None
            | Some b \<Rightarrow> if \<not> b then Some s
                else (case swap (int (parent j)) (int j) s of None \<Rightarrow> None | Some s' \<Rightarrow> heap_up lss swap (parent j) s')))"
  by auto
termination by (relation "measure (\<lambda>(lss, swap, j, s). j)") auto

declare heap_up.simps [simp del]

text \<open>The loop of \<open>down\<close> returns the last index; an overflow of the index is out of reach.\<close>

function heap_down_loop ::
  "('s \<Rightarrow> int \<Rightarrow> int \<Rightarrow> bool option) \<Rightarrow> (int \<Rightarrow> int \<Rightarrow> 's \<Rightarrow> 's option) \<Rightarrow> nat \<Rightarrow> nat \<Rightarrow> 's \<Rightarrow> (nat \<times> 's) option" where
  "heap_down_loop lss swap i n s =
     (if n \<le> 2 * i + 1 then Some (i, s)
      else (case (if 2 * i + 2 < n then lss s (int (2 * i + 2)) (int (2 * i + 1)) else Some False) of
              None \<Rightarrow> None
            | Some right \<Rightarrow>
                let j = (if right then 2 * i + 2 else 2 * i + 1) in
                (case lss s (int j) (int i) of
                   None \<Rightarrow> None
                 | Some b \<Rightarrow> if \<not> b then Some (i, s)
                     else (case swap (int i) (int j) s of None \<Rightarrow> None | Some s' \<Rightarrow> heap_down_loop lss swap j n s'))))"
  by auto
termination by (relation "measure (\<lambda>(lss, swap, i, n, s). n - i)") (auto split: if_splits)

declare heap_down_loop.simps [simp del]

definition heap_down ::
  "('s \<Rightarrow> int \<Rightarrow> int \<Rightarrow> bool option) \<Rightarrow> (int \<Rightarrow> int \<Rightarrow> 's \<Rightarrow> 's option) \<Rightarrow> nat \<Rightarrow> nat \<Rightarrow> 's \<Rightarrow> (bool \<times> 's) option" where
  "heap_down lss swap i0 n s = map_option (\<lambda>(i, s). (i0 < i, s)) (heap_down_loop lss swap i0 n s)"

definition heap_Push ::
  "('s \<Rightarrow> int) \<Rightarrow> ('s \<Rightarrow> int \<Rightarrow> int \<Rightarrow> bool option) \<Rightarrow> (int \<Rightarrow> int \<Rightarrow> 's \<Rightarrow> 's option)
     \<Rightarrow> ('i \<Rightarrow> 's \<Rightarrow> 's option) \<Rightarrow> 'i \<Rightarrow> 's \<Rightarrow> 's option" where
  "heap_Push len lss swap push x s =
     (case push x s of None \<Rightarrow> None | Some s \<Rightarrow> heap_up lss swap (nat (len s - 1)) s)"

definition heap_Pop ::
  "('s \<Rightarrow> int) \<Rightarrow> ('s \<Rightarrow> int \<Rightarrow> int \<Rightarrow> bool option) \<Rightarrow> (int \<Rightarrow> int \<Rightarrow> 's \<Rightarrow> 's option)
     \<Rightarrow> ('s \<Rightarrow> ('r \<times> 's) option) \<Rightarrow> 's \<Rightarrow> ('r \<times> 's) option" where
  "heap_Pop len lss swap pop s =
     (let n = len s - 1 in
      case swap 0 n s of
        None \<Rightarrow> None
      | Some s \<Rightarrow> (case heap_down lss swap 0 (nat n) s of None \<Rightarrow> None | Some (moved, s) \<Rightarrow> pop s))"

definition heap_Remove ::
  "('s \<Rightarrow> int) \<Rightarrow> ('s \<Rightarrow> int \<Rightarrow> int \<Rightarrow> bool option) \<Rightarrow> (int \<Rightarrow> int \<Rightarrow> 's \<Rightarrow> 's option)
     \<Rightarrow> ('s \<Rightarrow> ('r \<times> 's) option) \<Rightarrow> nat \<Rightarrow> 's \<Rightarrow> ('r \<times> 's) option" where
  "heap_Remove len lss swap pop i s =
     (let n = len s - 1 in
      if n = int i then pop s
      else (case swap (int i) n s of
              None \<Rightarrow> None
            | Some s \<Rightarrow>
                (case heap_down lss swap i (nat n) s of
                   None \<Rightarrow> None
                 | Some (moved, s) \<Rightarrow>
                     if moved then pop s else (case heap_up lss swap i s of None \<Rightarrow> None | Some s \<Rightarrow> pop s))))"

section \<open>The loops on a list\<close>

definition exchange :: "nat \<Rightarrow> nat \<Rightarrow> 'i list \<Rightarrow> 'i list" where
  "exchange i j xs = xs[i := xs ! j, j := xs ! i]"

lemma exchange_simps [simp]:
  "length (exchange i j xs) = length xs"
  "i < length xs \<Longrightarrow> j < length xs \<Longrightarrow> mset (exchange i j xs) = mset xs"
  "i < length xs \<Longrightarrow> j < length xs \<Longrightarrow> set (exchange i j xs) = set xs"
  "i < length xs \<Longrightarrow> j < length xs \<Longrightarrow> exchange i j xs ! k = (if k = j then xs ! i else if k = i then xs ! j else xs ! k)"
  by (auto simp: exchange_def mset_swap nth_list_update simp del: set_mset_mset simp flip: set_mset_mset)

function sift_up :: "('i \<Rightarrow> 'i \<Rightarrow> bool) \<Rightarrow> nat \<Rightarrow> 'i list \<Rightarrow> 'i list" where
  "sift_up before j xs =
     (if j = 0 \<or> \<not> before (xs ! j) (xs ! parent j) then xs else sift_up before (parent j) (exchange (parent j) j xs))"
  by auto
termination by (relation "measure (\<lambda>(before, j, xs). j)") auto

declare sift_up.simps [simp del]

definition child :: "('i \<Rightarrow> 'i \<Rightarrow> bool) \<Rightarrow> nat \<Rightarrow> nat \<Rightarrow> 'i list \<Rightarrow> nat" where
  "child before i n xs = (if 2 * i + 2 < n \<and> before (xs ! (2 * i + 2)) (xs ! (2 * i + 1)) then 2 * i + 2 else 2 * i + 1)"

lemma child_bounds: "2 * i + 1 < n \<Longrightarrow> i < child before i n xs \<and> child before i n xs < n"
  by (simp add: child_def)

function sift_down :: "('i \<Rightarrow> 'i \<Rightarrow> bool) \<Rightarrow> nat \<Rightarrow> nat \<Rightarrow> 'i list \<Rightarrow> nat \<times> 'i list" where
  "sift_down before i n xs =
     (if n \<le> 2 * i + 1 \<or> \<not> before (xs ! child before i n xs) (xs ! i) then (i, xs)
      else sift_down before (child before i n xs) n (exchange i (child before i n xs) xs))"
  by auto
termination by (relation "measure (\<lambda>(before, i, n, xs). n - i)") (auto simp: child_def)

declare sift_down.simps [simp del]

end
