(* ===== verification/Prque.thy ===== *)
theory Prque
  imports ContainerHeap "HOL-Library.Word"
begin

text \<open>
  The priority queue of \<open>common/prque\<close>: a stack of items in blocks (\<open>sstack.go\<close>) under the heap functions of the Go
  library (\<open>prque.go\<close>). \<open>active\<close> is an alias of one of the blocks, so the model has its index. A nil pointer in
  a block is \<open>None\<close>. The calls of the callback \<open>setIndex\<close> are listed in \<open>indexCalls\<close>; \<open>indexed\<close> says that there
  is a callback. A panic, here an index out of range or a nil pointer, is \<open>None\<close>.
\<close>

definition blockSize :: int where "blockSize = 4096"

datatype 'a item = Item (itemValue: 'a) (priority: "64 word")

record 'a sstack =
  indexed :: bool
  count :: int
  capacity :: int
  offset :: int
  blocks :: "'a item option list list"
  active :: nat
  indexCalls :: "('a \<times> int) list"

section \<open>The stack\<close>

definition newBlock :: "'a item option list" where "newBlock = replicate (nat blockSize) None"

definition newSstack :: "bool \<Rightarrow> 'a sstack" where
  "newSstack setIndex =
     \<lparr>indexed = setIndex, count = 0, capacity = blockSize, offset = 0, blocks = [newBlock], active = 0, indexCalls = []\<rparr>"

text \<open>Go's division, and an index expression.\<close>

definition quo :: "int \<Rightarrow> int" where
  "quo i = (if 0 \<le> i then i div blockSize else - ((- i) div blockSize))"

definition rem :: "int \<Rightarrow> int" where
  "rem i = i - quo i * blockSize"

definition elem_at :: "'b list \<Rightarrow> int \<Rightarrow> 'b option" where
  "elem_at xs i = (if 0 \<le> i \<and> i < int (length xs) then Some (xs ! nat i) else None)"

definition slot_at :: "'a sstack \<Rightarrow> int \<Rightarrow> 'a item option option" where
  "slot_at s i = (case elem_at (blocks s) (quo i) of None \<Rightarrow> None | Some b \<Rightarrow> elem_at b (rem i))"

definition set_slot :: "nat \<Rightarrow> nat \<Rightarrow> 'a item option \<Rightarrow> 'a sstack \<Rightarrow> 'a sstack" where
  "set_slot b i v s = s\<lparr>blocks := (blocks s)[b := (blocks s ! b)[i := v]]\<rparr>"

definition notify :: "'a \<Rightarrow> int \<Rightarrow> 'a sstack \<Rightarrow> 'a sstack" where
  "notify v i s = (if indexed s then s\<lparr>indexCalls := indexCalls s @ [(v, i)]\<rparr> else s)"

text \<open>The choice of the block to write to, and the whole of \<open>Push\<close>.\<close>

definition sstack_grow :: "'a sstack \<Rightarrow> 'a sstack option" where
  "sstack_grow s =
     (if count s = capacity s then
        Some (s\<lparr>active := length (blocks s), blocks := blocks s @ [newBlock], capacity := capacity s + blockSize, offset := 0\<rparr>)
      else if offset s = blockSize then
        (case elem_at (blocks s) (quo (count s)) of
           None \<Rightarrow> None
         | Some b \<Rightarrow> Some (s\<lparr>active := nat (quo (count s)), offset := 0\<rparr>))
      else Some s)"

definition sstack_Push :: "'a item \<Rightarrow> 'a sstack \<Rightarrow> 'a sstack option" where
  "sstack_Push data s =
     (case sstack_grow s of
        None \<Rightarrow> None
      | Some s \<Rightarrow>
          let s = notify (itemValue data) (count s) s in
          (case elem_at (blocks s ! active s) (offset s) of
             None \<Rightarrow> None
           | Some old \<Rightarrow>
               Some ((set_slot (active s) (nat (offset s)) (Some data) s)\<lparr>offset := offset s + 1, count := count s + 1\<rparr>)))"

definition sstack_back :: "'a sstack \<Rightarrow> 'a sstack option" where
  "sstack_back s =
     (if offset s < 0 then
        (case elem_at (blocks s) (quo (count s)) of
           None \<Rightarrow> None
         | Some b \<Rightarrow> Some (s\<lparr>offset := blockSize - 1, active := nat (quo (count s))\<rparr>))
      else Some s)"

definition sstack_Pop :: "'a sstack \<Rightarrow> ('a item option \<times> 'a sstack) option" where
  "sstack_Pop s =
     (case sstack_back (s\<lparr>count := count s - 1, offset := offset s - 1\<rparr>) of
        None \<Rightarrow> None
      | Some s \<Rightarrow>
          (case elem_at (blocks s ! active s) (offset s) of
             None \<Rightarrow> None
           | Some r \<Rightarrow>
               let s = set_slot (active s) (nat (offset s)) None s in
               if indexed s then (case r of None \<Rightarrow> None | Some it \<Rightarrow> Some (r, notify (itemValue it) (- 1) s))
               else Some (r, s)))"

definition sstack_Len :: "'a sstack \<Rightarrow> int" where "sstack_Len s = count s"

definition sstack_Less :: "'a sstack \<Rightarrow> int \<Rightarrow> int \<Rightarrow> bool option" where
  "sstack_Less s i j =
     (case (slot_at s i, slot_at s j) of
        (Some (Some a), Some (Some b)) \<Rightarrow> Some (0 < sint (priority a - priority b))
      | _ \<Rightarrow> None)"

definition sstack_Swap :: "int \<Rightarrow> int \<Rightarrow> 'a sstack \<Rightarrow> 'a sstack option" where
  "sstack_Swap i j s =
     (case (slot_at s j, slot_at s i) of
        (Some a, Some b) \<Rightarrow>
          (let notified =
             (if indexed s then
                (case (a, b) of
                   (Some x, Some y) \<Rightarrow> Some (notify (itemValue y) j (notify (itemValue x) i s))
                 | _ \<Rightarrow> None)
              else Some s)
           in map_option (\<lambda>s. set_slot (nat (quo j)) (nat (rem j)) b (set_slot (nat (quo i)) (nat (rem i)) a s)) notified)
      | _ \<Rightarrow> None)"

definition sstack_Reset :: "'a sstack \<Rightarrow> 'a sstack" where
  "sstack_Reset s = (newSstack (indexed s))\<lparr>indexCalls := indexCalls s\<rparr>"

section \<open>The queue\<close>

text \<open>\<open>heap.Pop\<close> and \<open>heap.Remove\<close> return a pointer to an item; \<open>Pop\<close> and \<open>PopItem\<close> dereference it.\<close>

definition Prque_New :: "bool \<Rightarrow> 'a sstack" where "Prque_New setIndex = newSstack setIndex"

definition Prque_Push :: "'a \<Rightarrow> 64 word \<Rightarrow> 'a sstack \<Rightarrow> 'a sstack option" where
  "Prque_Push data prio p = heap_Push sstack_Len sstack_Less sstack_Swap sstack_Push (Item data prio) p"

definition Prque_Pop :: "'a sstack \<Rightarrow> (('a \<times> 64 word) \<times> 'a sstack) option" where
  "Prque_Pop p =
     (case heap_Pop sstack_Len sstack_Less sstack_Swap sstack_Pop p of
        Some (Some it, p') \<Rightarrow> Some ((itemValue it, priority it), p')
      | _ \<Rightarrow> None)"

definition Prque_PopItem :: "'a sstack \<Rightarrow> ('a \<times> 'a sstack) option" where
  "Prque_PopItem p =
     (case heap_Pop sstack_Len sstack_Less sstack_Swap sstack_Pop p of
        Some (Some it, p') \<Rightarrow> Some (itemValue it, p')
      | _ \<Rightarrow> None)"

definition Prque_Remove :: "int \<Rightarrow> 'a sstack \<Rightarrow> ('a item option \<times> 'a sstack) option" where
  "Prque_Remove i p =
     (if i < 0 then Some (None, p) else heap_Remove sstack_Len sstack_Less sstack_Swap sstack_Pop (nat i) p)"

definition Prque_Empty :: "'a sstack \<Rightarrow> bool" where "Prque_Empty p \<longleftrightarrow> sstack_Len p = 0"

definition Prque_Size :: "'a sstack \<Rightarrow> int" where "Prque_Size p = sstack_Len p"

definition Prque_Reset :: "'a sstack \<Rightarrow> 'a sstack" where
  "Prque_Reset p = (Prque_New (indexed p))\<lparr>indexCalls := indexCalls p\<rparr>"

end
