(* ===== verification/HeapLaws.thy ===== *)
theory HeapLaws
  imports ContainerHeap
begin

text \<open>
  The loops on a list keep its elements and restore the order of a heap: a key of every element that the
  comparison agrees with, and no element above its parent.
\<close>

definition agrees :: "('i \<Rightarrow> 'i \<Rightarrow> bool) \<Rightarrow> ('i \<Rightarrow> nat) \<Rightarrow> 'i set \<Rightarrow> bool" where
  "agrees before key S \<longleftrightarrow> (\<forall>x\<in>S. \<forall>y\<in>S. before x y \<longleftrightarrow> key y < key x)"

lemma agreesD: "agrees before key (set xs) \<Longrightarrow> i < length xs \<Longrightarrow> j < length xs \<Longrightarrow> before (xs ! i) (xs ! j) \<longleftrightarrow> key (xs ! j) < key (xs ! i)"
  by (simp add: agrees_def)

definition below_parent :: "('i \<Rightarrow> nat) \<Rightarrow> 'i list \<Rightarrow> nat \<Rightarrow> bool" where
  "below_parent key xs k \<longleftrightarrow> key (xs ! k) \<le> key (xs ! parent k)"

definition is_heap :: "('i \<Rightarrow> nat) \<Rightarrow> nat \<Rightarrow> 'i list \<Rightarrow> bool" where
  "is_heap key n xs \<longleftrightarrow> (\<forall>k<n. below_parent key xs k)"

text \<open>A heap but for the index \<open>j\<close>, whose children are below its parent: above it, or on both sides.\<close>

definition bridged :: "('i \<Rightarrow> nat) \<Rightarrow> nat \<Rightarrow> nat \<Rightarrow> 'i list \<Rightarrow> bool" where
  "bridged key n j xs \<longleftrightarrow> 0 < j \<longrightarrow> (\<forall>k<n. parent k = j \<longrightarrow> key (xs ! k) \<le> key (xs ! parent j))"

definition heap_above :: "('i \<Rightarrow> nat) \<Rightarrow> nat \<Rightarrow> nat \<Rightarrow> 'i list \<Rightarrow> bool" where
  "heap_above key n j xs \<longleftrightarrow> (\<forall>k<n. k \<noteq> j \<longrightarrow> below_parent key xs k) \<and> bridged key n j xs"

definition heap_around :: "('i \<Rightarrow> nat) \<Rightarrow> nat \<Rightarrow> nat \<Rightarrow> 'i list \<Rightarrow> bool" where
  "heap_around key n j xs \<longleftrightarrow> (\<forall>k<n. k \<noteq> j \<longrightarrow> parent k \<noteq> j \<longrightarrow> below_parent key xs k) \<and> bridged key n j xs"

lemma heap_max:
  assumes "is_heap key n xs" "k < n"
  shows "key (xs ! k) \<le> key (xs ! 0)"
  using assms(2)
proof (induction k rule: less_induct)
  case (less k)
  show ?case
  proof (cases "k = 0")
    case False
    have "key (xs ! k) \<le> key (xs ! parent k)" using assms(1) less.prems by (simp add: is_heap_def below_parent_def)
    also have "\<dots> \<le> key (xs ! 0)" using less.IH [of "parent k"] less.prems False by (meson le_less_trans parent_less(1,2) bot_nat_0.not_eq_extremum)
    finally show ?thesis .
  qed simp
qed

lemma is_heap_take: "is_heap key n xs \<Longrightarrow> n \<le> length xs \<Longrightarrow> is_heap key n (take n xs)"
  by (simp add: is_heap_def below_parent_def le_less_trans [OF parent_less(1)])

section \<open>Upwards\<close>

lemma sift_up_simps:
  assumes "j < length xs"
  shows "length (sift_up before j xs) = length xs" "mset (sift_up before j xs) = mset xs"
    "\<And>k. j < k \<Longrightarrow> sift_up before j xs ! k = xs ! k"
  using assms
proof (induction before j xs rule: sift_up.induct)
  case (1 before j xs)
  { case 1 then show ?case using "1.IH"(1) by (subst sift_up.simps) (auto intro: le_less_trans [OF parent_less(1)]) }
  { case 2 then show ?case using "1.IH"(2) by (subst sift_up.simps) (auto intro: le_less_trans [OF parent_less(1)]) }
  { case (3 k) then show ?case using "1.IH"(3) [of k] le_less_trans [OF parent_less(1) [of j]]
      by (subst sift_up.simps) (auto intro: le_less_trans [OF parent_less(1)]) }
qed

lemma heap_above_exchange:
  assumes "heap_above key n j xs" "0 < j" "j < n" "n \<le> length xs" "key (xs ! parent j) < key (xs ! j)"
  shows "heap_above key n (parent j) (exchange (parent j) j xs)"
proof -
  define i where "i = parent j"
  have i: "i < j" "i \<noteq> j" "i < n" using assms(2,3) by (simp_all add: i_def less_trans [OF parent_less(2)])
  let ?ys = "exchange i j xs"
  have ys: "?ys ! k = (if k = j then xs ! i else if k = i then xs ! j else xs ! k)" for k using i assms(3,4) by simp
  have h: "key (xs ! k) \<le> key (xs ! parent k)" if "k < n" "k \<noteq> j" for k
    using assms(1) that by (simp add: heap_above_def below_parent_def)
  have b: "key (xs ! k) \<le> key (xs ! i)" if "k < n" "parent k = j" for k
    using assms(1,2) that by (simp add: heap_above_def bridged_def i_def)
  have lt: "key (xs ! i) < key (xs ! j)" using assms(5) by (simp add: i_def)
  have pj: "parent j = i" by (simp add: i_def)
  have "below_parent key ?ys k" if "k < n" "k \<noteq> i" for k
    using h [OF that(1)] b [OF that(1)] lt that(2) by (cases "k = j") (force simp: below_parent_def ys pj)+
  moreover have "bridged key n i ?ys"
    unfolding bridged_def
  proof (intro impI allI)
    fix k assume k: "0 < i" "k < n" "parent k = i"
    have "parent i < i" using k(1) by simp
    then have p: "?ys ! parent i = xs ! parent i" using i by (simp add: ys)
    have hi: "key (xs ! i) \<le> key (xs ! parent i)" using h [of i] i by simp
    show "key (?ys ! k) \<le> key (?ys ! parent i)"
    proof (cases "k = j")
      case True then show ?thesis using hi k(1) by (simp add: p ys)
    next
      case False
      have "k \<noteq> i" using k parent_less(3) [of i] by blast
      then show ?thesis using False hi h [OF k(2) False] k(1,3) by (simp add: p ys)
    qed
  qed
  ultimately show ?thesis by (simp add: heap_above_def i_def)
qed

lemma sift_up_heap:
  assumes "heap_above key n j xs" "j < n" "n \<le> length xs" "agrees before key (set xs)"
  shows "is_heap key n (sift_up before j xs)"
  using assms
proof (induction before j xs rule: sift_up.induct)
  case (1 before j xs)
  have p: "parent j < length xs" using "1.prems"(2,3) le_less_trans [OF parent_less(1) [of j]] by simp
  show ?case
  proof (cases "j = 0 \<or> \<not> before (xs ! j) (xs ! parent j)")
    case True
    then have "below_parent key xs j" using agreesD [OF "1.prems"(4), of j "parent j"] "1.prems"(2,3) p by (auto simp: below_parent_def)
    then have "is_heap key n xs" using "1.prems"(1) by (auto simp: is_heap_def heap_above_def)
    then show ?thesis using True by (subst sift_up.simps) simp
  next
    case False
    then have "key (xs ! parent j) < key (xs ! j)" using agreesD [OF "1.prems"(4), of j "parent j"] "1.prems"(2,3) p by simp
    then have "heap_above key n (parent j) (exchange (parent j) j xs)"
      using heap_above_exchange [OF "1.prems"(1)] False "1.prems"(2,3) by simp
    then have "is_heap key n (sift_up before (parent j) (exchange (parent j) j xs))"
      using "1.IH" [OF False] p "1.prems"(2-4) le_less_trans [OF parent_less(1) [of j]] by simp
    then show ?thesis using False by (subst sift_up.simps) simp
  qed
qed

section \<open>Downwards\<close>

lemma sift_down_simps:
  assumes "n \<le> length xs"
  shows "length (snd (sift_down before i n xs)) = length xs" "mset (snd (sift_down before i n xs)) = mset xs"
    "\<And>k. i < n \<Longrightarrow> n \<le> k \<Longrightarrow> snd (sift_down before i n xs) ! k = xs ! k" "i \<le> fst (sift_down before i n xs)"
    "fst (sift_down before i n xs) = i \<Longrightarrow> snd (sift_down before i n xs) = xs"
  using assms
proof (induction before i n xs rule: sift_down.induct)
  case (1 before i n xs)
  let ?c = "child before i n xs"
  have c: "i < ?c" "?c < n" if "\<not> (n \<le> 2 * i + 1 \<or> \<not> before (xs ! ?c) (xs ! i))"
    using child_bounds [of i n before xs] that by simp_all
  note e = sift_down.simps [of before i n xs]
  { case 1 then show ?case using "1.IH"(1) c by (auto simp: e) }
  { case 2 then show ?case using "1.IH"(2) c by (auto simp: e) }
  { case (3 k) then show ?case using "1.IH"(3) [of k] c by (auto simp: e) }
  { case 4 then show ?case using "1.IH"(4) c by (force simp: e) }
  { case 5 then show ?case using "1.IH"(4) c by (force simp: e split: if_splits) }
qed

lemma parent_child: "parent (child before i n xs) = i"
  by (simp add: child_def parent_def)

lemma parent_cases: "parent k = i \<Longrightarrow> k \<noteq> i \<Longrightarrow> k = 2 * i + 1 \<or> k = 2 * i + 2"
  unfolding parent_def by presburger

lemma heap_around_exchange:
  assumes "heap_around key n i xs" "2 * i + 1 < n" "n \<le> length xs"
    "c = child before i n xs" "key (xs ! i) < key (xs ! c)" "\<And>k. k < n \<Longrightarrow> k \<noteq> i \<Longrightarrow> parent k = i \<Longrightarrow> key (xs ! k) \<le> key (xs ! c)"
  shows "heap_around key n c (exchange i c xs)" "below_parent key (exchange i c xs) c"
proof -
  have c: "i < c" "c < n" "parent c = i" using child_bounds [OF assms(2), of before xs] parent_child by (auto simp: assms(4))
  let ?ys = "exchange i c xs"
  have ys: "?ys ! k = (if k = c then xs ! i else if k = i then xs ! c else xs ! k)" for k using c assms(3) by simp
  have h: "key (xs ! k) \<le> key (xs ! parent k)" if "k < n" "k \<noteq> i" "parent k \<noteq> i" for k
    using assms(1) that by (simp add: heap_around_def below_parent_def)
  show "below_parent key ?ys c" using assms(5) c by (simp add: below_parent_def ys)
  have "below_parent key ?ys k" if k: "k < n" "k \<noteq> c" "parent k \<noteq> c" for k
  proof (cases "k = i")
    case True
    show ?thesis
    proof (cases "i = 0")
      case False
      then have "key (xs ! c) \<le> key (xs ! parent i)" using assms(1) c by (simp add: heap_around_def bridged_def)
      moreover have "parent i < i" using False by simp
      ultimately show ?thesis using True c by (simp add: below_parent_def ys)
    qed (simp add: True below_parent_def)
  next
    case False
    then show ?thesis using h [OF k(1) False] assms(6) [OF k(1) False] k by (auto simp: below_parent_def ys)
  qed
  moreover have "bridged key n c ?ys"
    unfolding bridged_def
  proof (intro impI allI)
    fix k assume k: "k < n" "parent k = c"
    have "k \<noteq> i" "k \<noteq> c" using k c by (auto dest: arg_cong [of _ _ "\<lambda>x. x < c"]) (metis parent_less(1) not_less)
    then show "key (?ys ! k) \<le> key (?ys ! parent c)" using h [OF k(1)] k c by (simp add: ys)
  qed
  ultimately show "heap_around key n c ?ys" by (simp add: heap_around_def)
qed

lemma child_top:
  assumes "agrees before key (set xs)" "n \<le> length xs" "k < n" "k \<noteq> i" "parent k = i"
  shows "key (xs ! k) \<le> key (xs ! child before i n xs)"
  using parent_cases [OF assms(5,4)] assms(2,3) agreesD [OF assms(1), of "2 * i + 2" "2 * i + 1"]
  by (auto simp: child_def)

lemma sift_down_heap:
  assumes "heap_around key n i xs" "below_parent key xs i" "i < n" "n \<le> length xs" "agrees before key (set xs)"
  shows "is_heap key n (snd (sift_down before i n xs))"
  using assms
proof (induction before i n xs rule: sift_down.induct)
  case (1 before i n xs)
  let ?c = "child before i n xs"
  note top = child_top [OF "1.prems"(5,4)]
  show ?case
  proof (cases "n \<le> 2 * i + 1 \<or> \<not> before (xs ! ?c) (xs ! i)")
    case True
    have "below_parent key xs k" if k: "k < n" for k
    proof (cases "k \<noteq> i \<and> parent k = i")
      case ki: True
      then have "2 * i + 1 < n" using parent_cases [of k i] k by auto
      then have "\<not> before (xs ! ?c) (xs ! i)" "?c < n" using True child_bounds by auto
      then have "key (xs ! ?c) \<le> key (xs ! i)" using agreesD [OF "1.prems"(5), of ?c i] "1.prems"(3,4) by simp
      with top [OF k] ki show ?thesis by (simp add: below_parent_def le_trans)
    next
      case False
      then show ?thesis using "1.prems"(1,2) k by (auto simp: heap_around_def)
    qed
    then show ?thesis using True by (simp add: is_heap_def sift_down.simps [of before i n xs])
  next
    case False
    then have n: "2 * i + 1 < n" by simp
    note c = child_bounds [OF n, of before xs]
    have lt: "key (xs ! i) < key (xs ! ?c)" using agreesD [OF "1.prems"(5), of ?c i] False c "1.prems"(3,4) by simp
    have x: "heap_around key n ?c (exchange i ?c xs)" "below_parent key (exchange i ?c xs) ?c"
      by (rule heap_around_exchange [OF "1.prems"(1) n "1.prems"(4) refl lt]; rule top; assumption)+
    have "is_heap key n (snd (sift_down before ?c n (exchange i ?c xs)))"
      by (rule "1.IH" [OF False x]) (use c "1.prems"(3-5) in simp_all)
    then show ?thesis using False by (simp add: sift_down.simps [of before i n xs])
  qed
qed

text \<open>Without the assumption on the parent: the loop moved and the result is a heap, or the children are in order.\<close>

lemma sift_down_any:
  assumes "heap_around key n i xs" "i < n" "n \<le> length xs" "agrees before key (set xs)"
  shows "if fst (sift_down before i n xs) = i then heap_above key n i xs else is_heap key n (snd (sift_down before i n xs))"
proof -
  let ?c = "child before i n xs"
  note top = child_top [OF assms(4,3)]
  note e = sift_down.simps [of before i n xs]
  show ?thesis
  proof (cases "n \<le> 2 * i + 1 \<or> \<not> before (xs ! ?c) (xs ! i)")
    case True
    have "below_parent key xs k" if k: "k < n" "k \<noteq> i" for k
    proof (cases "parent k = i")
      case ki: True
      then have "2 * i + 1 < n" using parent_cases [of k i] k by auto
      then have "\<not> before (xs ! ?c) (xs ! i)" "?c < n" using True child_bounds by auto
      then have "key (xs ! ?c) \<le> key (xs ! i)" using agreesD [OF assms(4), of ?c i] assms(2,3) by simp
      with top [OF k ki] ki show ?thesis by (simp add: below_parent_def)
    next
      case False
      then show ?thesis using assms(1) k by (auto simp: heap_around_def)
    qed
    then show ?thesis using True assms(1) by (simp add: e heap_above_def heap_around_def)
  next
    case False
    then have n: "2 * i + 1 < n" by simp
    note c = child_bounds [OF n, of before xs]
    have m: "i < fst (sift_down before ?c n (exchange i ?c xs))"
      using sift_down_simps(4) [where before = before and i = ?c and n = n and xs = "exchange i ?c xs"] c assms(3) by simp
    have lt: "key (xs ! i) < key (xs ! ?c)" using agreesD [OF assms(4), of ?c i] False c assms(2,3) by simp
    have x: "heap_around key n ?c (exchange i ?c xs)" "below_parent key (exchange i ?c xs) ?c"
      by (rule heap_around_exchange [OF assms(1) n assms(3) refl lt]; rule top; assumption)+
    have "is_heap key n (snd (sift_down before ?c n (exchange i ?c xs)))"
      by (rule sift_down_heap [OF x]) (use c assms(2-4) in simp_all)
    with m show ?thesis using False by (simp add: e)
  qed
qed

end
