(* ===== verification/HeapInterface.thy ===== *)
theory HeapInterface
  imports HeapLaws
begin

text \<open>
  The contract of \<open>heap.Interface\<close> as a locale: a collection stands for a list of elements, on which its
  operations compare, exchange, append and remove the last. Its clients get that the functions of
  \<open>container/heap\<close> succeed and keep a priority queue, as long as the comparison agrees with some key of the elements at hand.
\<close>

definition in_order :: "('i \<Rightarrow> 'i \<Rightarrow> bool) \<Rightarrow> 'i list \<Rightarrow> bool" where
  "in_order before xs \<longleftrightarrow> (\<forall>k<length xs. \<not> before (xs ! k) (xs ! parent k))"

lemma in_order_heap:
  assumes "agrees before key (set xs)"
  shows "in_order before xs \<longleftrightarrow> is_heap key (length xs) xs"
  using agreesD [OF assms] le_less_trans [OF parent_less(1)]
  by (auto simp: in_order_def is_heap_def below_parent_def not_less)

lemma agrees_mono: "agrees before key S \<Longrightarrow> T \<subseteq> S \<Longrightarrow> agrees before key T"
  by (auto simp: agrees_def)

lemma agrees_mset: "agrees before key (set xs) \<Longrightarrow> mset ys = mset xs \<Longrightarrow> agrees before key (set ys)"
  by (metis set_mset_mset)

lemma heap_around_remove:
  assumes "is_heap key (Suc n) xs" "i < n" "length xs = Suc n"
  shows "heap_around key n i (exchange i n xs)"
proof -
  have ys: "exchange i n xs ! k = (if k = n then xs ! i else if k = i then xs ! n else xs ! k)" for k using assms(2,3) by simp
  have h: "key (xs ! k) \<le> key (xs ! parent k)" if "k < n" for k using assms(1) that by (simp add: is_heap_def below_parent_def)
  have p: "parent k < n" if "k < n" for k using that le_less_trans [OF parent_less(1)] by blast
  have "below_parent key (exchange i n xs) k" if "k < n" "k \<noteq> i" "parent k \<noteq> i" for k
    using that h [OF that(1)] p [OF that(1)] by (simp add: below_parent_def ys)
  moreover have "bridged key n i (exchange i n xs)"
    unfolding bridged_def
  proof (intro impI allI)
    fix k assume k: "0 < i" "k < n" "parent k = i"
    have "k \<noteq> i" using k parent_less(3) [of i] by blast
    moreover have "parent i < i" using k(1) by simp
    ultimately show "key (exchange i n xs ! k) \<le> key (exchange i n xs ! parent i)"
      using h [OF k(2)] h [OF assms(2)] k(2,3) p [OF assms(2)] by (simp add: ys)
  qed
  ultimately show ?thesis by (simp add: heap_around_def)
qed

locale heap_interface =
  fixes len :: "'s \<Rightarrow> int" and lss :: "'s \<Rightarrow> int \<Rightarrow> int \<Rightarrow> bool option" and swap :: "int \<Rightarrow> int \<Rightarrow> 's \<Rightarrow> 's option"
    and push :: "'i \<Rightarrow> 's \<Rightarrow> 's option" and pop :: "'s \<Rightarrow> ('i option \<times> 's) option"
    and ok :: "'s \<Rightarrow> bool" and items :: "'s \<Rightarrow> 'i list" and before :: "'i \<Rightarrow> 'i \<Rightarrow> bool" and admits :: "'s \<Rightarrow> 'i \<Rightarrow> bool"
  assumes len: "ok s \<Longrightarrow> len s = int (length (items s))"
    and lss: "ok s \<Longrightarrow> i < length (items s) \<Longrightarrow> j < length (items s) \<Longrightarrow> lss s (int i) (int j) = Some (before (items s ! i) (items s ! j))"
    and swap: "ok s \<Longrightarrow> i < length (items s) \<Longrightarrow> j < length (items s)
      \<Longrightarrow> \<exists>s'. swap (int i) (int j) s = Some s' \<and> ok s' \<and> items s' = exchange i j (items s)"
    and push: "ok s \<Longrightarrow> admits s x \<Longrightarrow> \<exists>s'. push x s = Some s' \<and> ok s' \<and> items s' = items s @ [x]"
    and pop: "ok s \<Longrightarrow> items s \<noteq> [] \<Longrightarrow> \<exists>s'. pop s = Some (Some (last (items s)), s') \<and> ok s' \<and> items s' = butlast (items s)"
begin

lemma up_refines:
  "ok s \<Longrightarrow> j < length (items s) \<Longrightarrow> \<exists>s'. heap_up lss swap j s = Some s' \<and> ok s' \<and> items s' = sift_up before j (items s)"
proof (induction j arbitrary: s rule: less_induct)
  case (less j)
  have p: "parent j < length (items s)" using less.prems(2) le_less_trans [OF parent_less(1)] by blast
  note l = lss [OF less.prems(1,2) p]
  show ?case
  proof (cases "j = 0 \<or> \<not> before (items s ! j) (items s ! parent j)")
    case True
    then show ?thesis using less.prems l by (auto simp: heap_up.simps [of lss] sift_up.simps [of before j])
  next
    case False
    obtain s1 where s1: "swap (int (parent j)) (int j) s = Some s1" "ok s1" "items s1 = exchange (parent j) j (items s)"
      using swap [OF less.prems(1) p less.prems(2)] by blast
    obtain s2 where "heap_up lss swap (parent j) s1 = Some s2" "ok s2" "items s2 = sift_up before (parent j) (items s1)"
      using less.IH [of "parent j" s1] False s1 p by auto
    then show ?thesis using False l s1 by (simp add: heap_up.simps [of lss swap j] sift_up.simps [of before j])
  qed
qed

lemma down_refines:
  "ok s \<Longrightarrow> n \<le> length (items s) \<Longrightarrow> i < length (items s)
     \<Longrightarrow> \<exists>s'. heap_down_loop lss swap i n s = Some (fst (sift_down before i n (items s)), s') \<and> ok s'
           \<and> items s' = snd (sift_down before i n (items s))"
proof (induction "n - i" arbitrary: s i rule: less_induct)
  case less
  let ?c = "child before i n (items s)"
  note e = heap_down_loop.simps [of lss swap i n s] sift_down.simps [of before i n "items s"]
  show ?case
  proof (cases "n \<le> 2 * i + 1")
    case True
    then show ?thesis using less.prems by (simp add: e)
  next
    case n: False
    then have c: "i < ?c" "?c < n" "?c < length (items s)" using child_bounds [of i n before "items s"] less.prems(2) by auto
    have r: "(if 2 * i + 2 < n then lss s (int (2 * i + 2)) (int (2 * i + 1)) else Some False)
        = Some (2 * i + 2 < n \<and> before (items s ! (2 * i + 2)) (items s ! (2 * i + 1)))"
      using lss [OF less.prems(1), of "2 * i + 2" "2 * i + 1"] less.prems(2) by (simp del: of_nat_add of_nat_mult)
    note l = lss [OF less.prems(1) c(3) less.prems(3)]
    have loop: "heap_down_loop lss swap i n s =
        (if \<not> before (items s ! ?c) (items s ! i) then Some (i, s)
         else (case swap (int i) (int ?c) s of None \<Rightarrow> None | Some s' \<Rightarrow> heap_down_loop lss swap ?c n s'))"
      by (simp only: e(1) r n if_False option.case Let_def child_def [symmetric] l)
    show ?thesis
    proof (cases "before (items s ! ?c) (items s ! i)")
      case False
      then show ?thesis using less.prems loop by (simp add: e(2))
    next
      case True
      obtain s1 where s1: "swap (int i) (int ?c) s = Some s1" "ok s1" "items s1 = exchange i ?c (items s)"
        using swap [OF less.prems(1,3) c(3)] by blast
      show ?thesis using less.hyps [of ?c s1] c s1 less.prems n True loop by (simp add: e(2))
    qed
  qed
qed

lemma down_result:
  assumes "ok s" "n \<le> length (items s)" "i < length (items s)"
  obtains s' where "heap_down lss swap i n s = Some (fst (sift_down before i n (items s)) \<noteq> i, s')" "ok s'"
    "items s' = snd (sift_down before i n (items s))"
proof -
  have "(i < fst (sift_down before i n (items s))) = (fst (sift_down before i n (items s)) \<noteq> i)"
    using sift_down_simps(4) [OF assms(2), of i before] by auto
  then show thesis using down_refines [OF assms] that by (auto simp: heap_down_def)
qed

lemma Push_ok:
  assumes "ok s" "admits s x" "in_order before (items s)" "agrees before key (insert x (set (items s)))"
  shows "\<exists>s'. heap_Push len lss swap push x s = Some s' \<and> ok s' \<and> in_order before (items s')
     \<and> mset (items s') = add_mset x (mset (items s))"
proof -
  let ?xs = "items s @ [x]" and ?n = "length (items s)"
  obtain s1 where s1: "push x s = Some s1" "ok s1" "items s1 = ?xs" using push [OF assms(1,2)] by blast
  have ag: "agrees before key (set ?xs)" using assms(4) by simp
  have "is_heap key ?n (items s)" using assms(3) in_order_heap [of before key "items s"] agrees_mono [OF assms(4)] by blast
  then have "heap_above key (Suc ?n) ?n ?xs"
    using le_less_trans [OF parent_less(1)]
    by (auto simp: is_heap_def heap_above_def below_parent_def bridged_def nth_append less_Suc_eq)
       (metis less_irrefl less_trans parent_less(2) bot_nat_0.not_eq_extremum)+
  then have h: "is_heap key (Suc ?n) (sift_up before ?n ?xs)" by (rule sift_up_heap) (use ag in simp_all)
  obtain s2 where s2: "heap_up lss swap ?n s1 = Some s2" "ok s2" "items s2 = sift_up before ?n ?xs"
    using up_refines [OF s1(2), of ?n] s1(3) by auto
  have m: "mset (items s2) = mset ?xs" "length (items s2) = Suc ?n" using sift_up_simps(1,2) [of ?n ?xs before] s2(3) by simp_all
  have "in_order before (items s2)" using in_order_heap [OF agrees_mset [OF ag m(1)]] h m(2) s2(3) by simp
  then show ?thesis using s1 s2 m by (simp add: heap_Push_def len [OF s1(2)])
qed

text \<open>The end of both removals: the element to return is the last, and the others are a heap.\<close>

lemma pop_rest:
  assumes "ok s" "mset (items s) = mset xs" "length xs = Suc n" "is_heap key n (items s)" "agrees before key (set xs)"
  shows "\<exists>s'. pop s = Some (Some (items s ! n), s') \<and> ok s' \<and> in_order before (items s') \<and> mset (items s') = mset xs - {#items s ! n#}"
proof -
  have l: "length (items s) = Suc n" using assms(2,3) by (metis size_mset)
  then have ne: "items s \<noteq> []" by auto
  obtain s' where s': "pop s = Some (Some (last (items s)), s')" "ok s'" "items s' = butlast (items s)"
    using pop [OF assms(1) ne] by blast
  have lst: "last (items s) = items s ! n" using l ne by (simp add: last_conv_nth)
  have "items s = items s' @ [items s ! n]" using s'(3) lst append_butlast_last_id [OF ne] by simp
  then have "mset (items s) = mset (items s') + {#items s ! n#}" by (metis mset_append mset_single_iff_right mset.simps(2) mset.simps(1) add_mset_add_single empty_neutral(1))
  then have m: "mset xs = add_mset (items s ! n) (mset (items s'))" using assms(2) by simp
  have "set (items s') \<subseteq> set xs" by (metis m set_mset_mset set_mset_add_mset_insert subset_insertI)
  then have "agrees before key (set (items s'))" by (rule agrees_mono [OF assms(5)])
  moreover have "is_heap key n (items s')" using is_heap_take [OF assms(4)] l s'(3) by (simp add: butlast_conv_take)
  ultimately have "in_order before (items s')" using in_order_heap [of before key "items s'"] l s'(3) by simp
  then show ?thesis using s' lst m by simp
qed

lemma Pop_ok:
  assumes "ok s" "items s \<noteq> []" "in_order before (items s)" "agrees before key (set (items s))"
  shows "\<exists>s'. heap_Pop len lss swap pop s = Some (Some (items s ! 0), s') \<and> ok s' \<and> in_order before (items s')
     \<and> mset (items s') = mset (items s) - {#items s ! 0#}"
proof -
  let ?xs = "items s"
  define n where "n = length ?xs - 1"
  have n: "length ?xs = Suc n" using assms(2) by (simp add: n_def)
  let ?ys = "exchange 0 n ?xs"
  obtain s1 where s1: "swap 0 (int n) s = Some s1" "ok s1" "items s1 = ?ys" using swap [OF assms(1), of 0 n] n by auto
  obtain s2 where s2: "heap_down lss swap 0 n s1 = Some (fst (sift_down before 0 n ?ys) \<noteq> 0, s2)" "ok s2"
    "items s2 = snd (sift_down before 0 n ?ys)"
    using down_result [OF s1(2), of n 0] s1(3) n by auto
  note sd = sift_down_simps(2,3) [where before = before and i = 0 and n = n and xs = ?ys]
  have agy: "agrees before key (set ?ys)" using assms(4) n by simp
  have m2: "mset (items s2) = mset ?xs" using sd(1) s2(3) n by simp
  have top: "items s2 ! n = ?xs ! 0"
    using sd(2) [of n] s2(3) n by (cases "n = 0") (simp_all add: sift_down.simps [of before 0 0])
  have h: "is_heap key n (items s2)"
  proof (cases "n = 0")
    case False
    have "is_heap key (Suc n) ?xs" using assms(3) in_order_heap [OF assms(4)] n by simp
    moreover have "\<not> k < parent k" for k by (simp add: not_less)
    ultimately have "heap_around key n 0 ?ys" using n False by (auto simp: heap_around_def is_heap_def below_parent_def bridged_def)
    then show ?thesis unfolding s2(3) by (rule sift_down_heap) (use False n agy in \<open>simp_all add: below_parent_def\<close>)
  qed (simp add: is_heap_def)
  show ?thesis using pop_rest [OF s2(2) m2 n h assms(4)] s1 s2 top by (simp add: heap_Pop_def len [OF assms(1)] n)
qed

lemma Remove_ok:
  assumes "ok s" "i < length (items s)" "in_order before (items s)" "agrees before key (set (items s))"
  shows "\<exists>s'. heap_Remove len lss swap pop i s = Some (Some (items s ! i), s') \<and> ok s' \<and> in_order before (items s')
     \<and> mset (items s') = mset (items s) - {#items s ! i#}"
proof -
  let ?xs = "items s"
  define n where "n = length ?xs - 1"
  have n: "length ?xs = Suc n" using assms(2) by (simp add: n_def)
  have h: "is_heap key (Suc n) ?xs" using assms(3) in_order_heap [OF assms(4)] n by simp
  show ?thesis
  proof (cases "i = n")
    case True
    have "is_heap key n ?xs" using h by (simp add: is_heap_def)
    from pop_rest [OF assms(1) refl n this assms(4)] show ?thesis using True by (simp add: heap_Remove_def len [OF assms(1)] n)
  next
    case False
    then have i: "i < n" using assms(2) n by simp
    let ?ys = "exchange i n ?xs"
    obtain s1 where s1: "swap (int i) (int n) s = Some s1" "ok s1" "items s1 = ?ys" using swap [OF assms(1), of i n] n i by auto
    obtain s2 where s2: "heap_down lss swap i n s1 = Some (fst (sift_down before i n ?ys) \<noteq> i, s2)" "ok s2"
      "items s2 = snd (sift_down before i n ?ys)"
      using down_result [OF s1(2), of n i] s1(3) n i by auto
    note sd = sift_down_simps(1,2,3,5) [where before = before and i = i and n = n and xs = ?ys]
    have agy: "agrees before key (set ?ys)" using assms(4) n i by simp
    have m2: "mset (items s2) = mset ?xs" "length (items s2) = Suc n" "items s2 ! n = ?xs ! i" using sd(1,2,3) s2(3) n i by simp_all
    have "heap_around key n i ?ys" by (rule heap_around_remove [OF h i]) (simp add: n)
    note any = sift_down_any [OF this i _ agy]
    show ?thesis
    proof (cases "fst (sift_down before i n ?ys) = i")
      case False
      then have "is_heap key n (items s2)" using any s2(3) n by simp
      from pop_rest [OF s2(2) m2(1) n this assms(4)] show ?thesis
        using s1 s2 False m2(3) i by (simp add: heap_Remove_def len [OF assms(1)] n)
    next
      case True
      then have e: "items s2 = ?ys" using sd(4) s2(3) n by simp
      obtain s3 where s3: "heap_up lss swap i s2 = Some s3" "ok s3" "items s3 = sift_up before i ?ys"
        using up_refines [OF s2(2), of i] e n i by auto
      have "is_heap key n (items s3)" unfolding s3(3) by (rule sift_up_heap [OF _ i]) (use any True n agy in simp_all)
      moreover have "mset (items s3) = mset ?xs" "items s3 ! n = ?xs ! i"
        using sift_up_simps(2,3) [where j = i and xs = ?ys and before = before] s3(3) n i by simp_all
      ultimately show ?thesis using pop_rest [OF s3(2) _ n _ assms(4)] s1 s2 s3 True i
        by (simp add: heap_Remove_def len [OF assms(1)] n)
    qed
  qed
qed

end

end
