(* ===== verification/PrqueLaws.thy ===== *)
theory PrqueLaws
  imports Prque HeapInterface
begin

text \<open>
  The blocks are a list cut into pieces, and the stack implements the contract of \<open>heap.Interface\<close> on its items: the
  interpretation of the locale \<open>heap_interface\<close>. With a callback, the last index reported for an item is where it is.
\<close>

section \<open>Blocks\<close>

lemma concat_blocks:
  assumes "\<forall>b\<in>set bl. length b = B"
  shows "length (concat bl) = B * length bl"
    and "i < length bl \<Longrightarrow> k < B \<Longrightarrow> concat bl ! (B * i + k) = bl ! i ! k"
    and "i < length bl \<Longrightarrow> k < B \<Longrightarrow> concat (bl[i := (bl ! i)[k := v]]) = (concat bl)[B * i + k := v]"
  using assms
proof (induction bl arbitrary: i)
  case (Cons b bl)
  { case 1 then show ?case using Cons.IH(1) by simp }
  { case 2
    then show ?case using Cons.IH(2) [of "i - 1"] by (cases i) (auto simp: nth_append) }
  { case 3
    then show ?case using Cons.IH(3) [of "i - 1"] by (cases i) (auto simp: list_update_append) }
qed simp_all

lemma quo_rem:
  "quo (int (4096 * b + k)) = int b" "rem (int (4096 * b + k)) = int k" if "k < 4096"
  using that by (auto simp: quo_def rem_def blockSize_def)

lemma index_split:
  obtains b k where "i = 4096 * b + k" "k < (4096 :: nat)"
  using that [of "i div 4096" "i mod 4096"] by simp

definition cells :: "'a sstack \<Rightarrow> 'a item option list" where
  "cells s = concat (blocks s)"

definition well_formed :: "'a sstack \<Rightarrow> bool" where
  "well_formed s \<longleftrightarrow>
     (\<forall>b\<in>set (blocks s). length b = 4096) \<and> capacity s = 4096 * int (length (blocks s)) \<and> active s < length (blocks s)
       \<and> 0 \<le> offset s \<and> offset s \<le> 4096 \<and> count s = 4096 * int (active s) + offset s
       \<and> (\<forall>i<nat (count s). cells s ! i \<noteq> None)"

definition items :: "'a sstack \<Rightarrow> 'a item list" where
  "items s = map (\<lambda>i. the (cells s ! i)) [0..<nat (count s)]"

lemma length_items [simp]: "length (items s) = nat (count s)"
  by (simp add: items_def)

lemma well_formed_count:
  assumes "well_formed s"
  shows "0 \<le> count s" "nat (count s) \<le> length (cells s)" "length (cells s) = 4096 * length (blocks s)"
proof -
  show l: "length (cells s) = 4096 * length (blocks s)" using assms by (simp add: well_formed_def cells_def concat_blocks(1))
  show "0 \<le> count s" using assms by (simp add: well_formed_def)
  have "int (active s) + 1 \<le> int (length (blocks s))" using assms by (simp add: well_formed_def)
  then have "count s \<le> 4096 * int (length (blocks s))" using assms unfolding well_formed_def by linarith
  then show "nat (count s) \<le> length (cells s)" by (simp add: l)
qed

lemma cell_item: "well_formed s \<Longrightarrow> i < nat (count s) \<Longrightarrow> cells s ! i = Some (items s ! i)"
  by (simp add: well_formed_def items_def)

lemma slot_at_cell:
  assumes "well_formed s" "i < length (cells s)"
  shows "slot_at s (int i) = Some (cells s ! i)"
proof -
  obtain b k where bk: "i = 4096 * b + k" "k < 4096" by (rule index_split)
  have b: "b < length (blocks s)" using assms(2) bk well_formed_count(3) [OF assms(1)] by simp
  have l: "\<forall>b\<in>set (blocks s). length b = 4096" using assms(1) by (simp add: well_formed_def)
  then have "length (blocks s ! b) = 4096" using b by simp
  then show ?thesis
    using b bk concat_blocks(2) [OF l b bk(2)] unfolding slot_at_def bk(1) quo_rem [OF bk(2)] by (simp add: elem_at_def cells_def)
qed

lemma set_slot_cells:
  assumes "\<forall>b\<in>set (blocks s). length b = 4096" "b < length (blocks s)" "k < 4096"
  shows "cells (set_slot b k v s) = (cells s)[4096 * b + k := v]" "\<forall>b\<in>set (blocks (set_slot b k v s)). length b = 4096"
    "length (blocks (set_slot b k v s)) = length (blocks s)"
  using concat_blocks(3) [OF assms, of v] assms
  by (auto simp: set_slot_def cells_def dest!: subsetD [OF set_update_subset_insert])

text \<open>Writing an item where there is one.\<close>

lemma set_item:
  fixes x :: "'a item"
  assumes "well_formed s" "i < nat (count s)"
  defines "s' \<equiv> set_slot (nat (quo (int i))) (nat (rem (int i))) (Some x) s"
  shows "well_formed s'" "items s' = (items s)[i := x]" "count s' = count s" "indexed s' = indexed s" "indexCalls s' = indexCalls s"
proof -
  obtain b k where bk: "i = 4096 * b + k" "k < 4096" by (rule index_split)
  have b: "b < length (blocks s)" using assms(2) bk well_formed_count(2,3) [OF assms(1)] by simp
  have s': "s' = set_slot b k (Some x) s" unfolding s'_def bk(1) quo_rem [OF bk(2)] by simp
  have l: "\<forall>b\<in>set (blocks s). length b = 4096" using assms(1) by (simp add: well_formed_def)
  note c = set_slot_cells [OF l b bk(2), of "Some x"]
  have f: "count s' = count s" "indexed s' = indexed s" "indexCalls s' = indexCalls s" "capacity s' = capacity s"
    "active s' = active s" "offset s' = offset s"
    by (simp_all add: s' set_slot_def)
  then show "count s' = count s" "indexed s' = indexed s" "indexCalls s' = indexCalls s" by simp_all
  have cells: "cells s' = (cells s)[i := Some x]" using c(1) by (simp add: s' bk(1))
  have "i < length (cells s)" using assms(2) well_formed_count(2) [OF assms(1)] by simp
  with cells show "items s' = (items s)[i := x]"
    by (auto simp: items_def f nth_list_update intro!: nth_equalityI)
  show "well_formed s'" using assms(1) c(2,3) \<open>i < length (cells s)\<close>
    by (auto simp: well_formed_def f cells nth_list_update s' [symmetric])
qed

section \<open>The callback\<close>

definition last_call :: "('a \<times> int) list \<Rightarrow> 'a \<Rightarrow> int option" where
  "last_call calls v = map_of (rev calls) v"

lemma last_call_append [simp]:
  "last_call (calls @ [(w, i)]) v = (if v = w then Some i else last_call calls v)"
  "last_call (calls @ [(u, j), (w, i)]) v = (if v = w then Some i else if v = u then Some j else last_call calls v)"
  by (simp_all add: last_call_def)

definition tracked :: "'a sstack \<Rightarrow> bool" where
  "tracked s \<longleftrightarrow> indexed s \<longrightarrow> distinct (map itemValue (items s))
     \<and> (\<forall>i<length (items s). last_call (indexCalls s) (itemValue (items s ! i)) = Some (int i))"

lemma notify_simps [simp]:
  "blocks (notify v i s) = blocks s" "count (notify v i s) = count s" "capacity (notify v i s) = capacity s"
  "offset (notify v i s) = offset s" "active (notify v i s) = active s" "indexed (notify v i s) = indexed s"
  "cells (notify v i s) = cells s" "items (notify v i s) = items s" "well_formed (notify v i s) = well_formed s"
  by (simp_all add: notify_def cells_def items_def well_formed_def)

lemma indexCalls_notify [simp]: "indexed s \<Longrightarrow> indexCalls (notify v i s) = indexCalls s @ [(v, i)]"
  by (simp add: notify_def)

definition stack_ok :: "'a sstack \<Rightarrow> bool" where
  "stack_ok s \<longleftrightarrow> well_formed s \<and> tracked s"

definition admits :: "'a sstack \<Rightarrow> 'a item \<Rightarrow> bool" where
  "admits s x \<longleftrightarrow> indexed s \<longrightarrow> itemValue x \<notin> itemValue ` set (items s)"

definition before :: "'a item \<Rightarrow> 'a item \<Rightarrow> bool" where
  "before a b \<longleftrightarrow> 0 < sint (priority a - priority b)"

section \<open>The operations\<close>

lemma Len_ok: "stack_ok s \<Longrightarrow> sstack_Len s = int (length (items s))"
  using well_formed_count(1) [of s] by (simp add: stack_ok_def sstack_Len_def)

lemma slot_item: "stack_ok s \<Longrightarrow> i < length (items s) \<Longrightarrow> slot_at s (int i) = Some (Some (items s ! i))"
  using slot_at_cell well_formed_count(2) cell_item by (fastforce simp: stack_ok_def)

lemma Less_ok:
  "stack_ok s \<Longrightarrow> i < length (items s) \<Longrightarrow> j < length (items s)
     \<Longrightarrow> sstack_Less s (int i) (int j) = Some (before (items s ! i) (items s ! j))"
  by (simp add: sstack_Less_def slot_item before_def del: length_items)

lemma Swap_ok:
  assumes "stack_ok s" "i < length (items s)" "j < length (items s)"
  shows "\<exists>s'. sstack_Swap (int i) (int j) s = Some s' \<and> stack_ok s' \<and> items s' = exchange i j (items s)"
proof -
  let ?x = "items s ! j" and ?y = "items s ! i"
  define s1 where "s1 = notify (itemValue ?y) (int j) (notify (itemValue ?x) (int i) s)"
  define s2 where "s2 = set_slot (nat (quo (int i))) (nat (rem (int i))) (Some ?x) s1"
  define s3 where "s3 = set_slot (nat (quo (int j))) (nat (rem (int j))) (Some ?y) s2"
  have w1: "well_formed s1" "i < nat (count s1)" using assms by (simp_all add: s1_def stack_ok_def)
  note u2 = set_item [OF w1, of ?x, folded s2_def]
  have j: "j < nat (count s2)" using assms(3) u2(3) by (simp add: s1_def)
  note u3 = set_item [OF u2(1) j, of ?y, folded s3_def]
  have it: "items s3 = exchange i j (items s)" using u2 u3 by (simp add: exchange_def s1_def)
  have "(if indexed s then Some s1 else Some s) = Some s1" by (simp add: s1_def notify_def)
  then have "sstack_Swap (int i) (int j) s = Some s3"
    unfolding sstack_Swap_def slot_item [OF assms(1,2)] slot_item [OF assms(1,3)] by (simp add: s3_def s2_def s1_def Let_def notify_def)
  moreover have "tracked s3"
  proof -
    have t: "indexed s \<Longrightarrow> distinct (map itemValue (items s))"
      "\<And>k. indexed s \<Longrightarrow> k < length (items s) \<Longrightarrow> last_call (indexCalls s) (itemValue (items s ! k)) = Some (int k)"
      using assms(1) by (simp_all add: stack_ok_def tracked_def)
    have ix: "indexed s3 = indexed s" "indexed s \<Longrightarrow> indexCalls s3 = (indexCalls s @ [(itemValue ?x, int i)]) @ [(itemValue ?y, int j)]"
      using u2 u3 by (simp_all add: s1_def)
    have ne: "itemValue (items s ! a) = itemValue (items s ! b) \<longleftrightarrow> a = b" if "indexed s" "a < length (items s)" "b < length (items s)" for a b
      using nth_eq_iff_index_eq [OF t(1) [OF that(1)], of a b] that(2,3) by simp
    have "mset (map itemValue (items s3)) = mset (map itemValue (items s))" using it assms(2,3) by (simp del: length_items)
    then have "indexed s \<Longrightarrow> distinct (map itemValue (items s3))" using t(1) by (metis mset_eq_imp_distinct_iff)
    moreover have "last_call (indexCalls s3) (itemValue (items s3 ! k)) = Some (int k)" if "indexed s" "k < length (items s3)" for k
      using that t(2) [of k] ne assms(2,3) by (simp add: ix it del: length_items)
    ultimately show ?thesis by (simp add: tracked_def ix(1))
  qed
  ultimately show ?thesis using u3(1) it by (simp add: stack_ok_def)
qed

lemma grow_ok:
  assumes "well_formed s"
  obtains s1 where "sstack_grow s = Some s1" "well_formed s1" "offset s1 < 4096" "items s1 = items s" "count s1 = count s"
    "indexed s1 = indexed s" "indexCalls s1 = indexCalls s"
proof -
  note cnt = well_formed_count [OF assms]
  consider (full) "count s = capacity s" | (turn) "count s \<noteq> capacity s" "offset s = 4096"
    | (room) "count s \<noteq> capacity s" "offset s < 4096"
    using assms unfolding well_formed_def by linarith
  then show thesis
  proof cases
    case full
    let ?s1 = "s\<lparr>active := length (blocks s), blocks := blocks s @ [newBlock], capacity := capacity s + blockSize, offset := 0\<rparr>"
    have c: "cells ?s1 = cells s @ newBlock" by (simp add: cells_def)
    have n: "cells ?s1 ! i = cells s ! i" if "i < nat (count s)" for i using that cnt(2) by (simp add: c nth_append)
    have "well_formed ?s1"
      using assms full n by (auto simp: well_formed_def newBlock_def blockSize_def)
    moreover have "items ?s1 = items s" using n by (simp add: items_def)
    ultimately show thesis using that [of ?s1] full by (simp add: sstack_grow_def)
  next
    case turn
    let ?s1 = "s\<lparr>active := active s + 1, offset := 0\<rparr>"
    have e: "count s = int (4096 * (active s + 1) + 0)" using assms turn by (simp add: well_formed_def)
    have q: "quo (count s) = int (active s + 1)" unfolding e by (rule quo_rem(1)) simp
    have "active s + 1 < length (blocks s)" using assms turn e by (simp add: well_formed_def)
    moreover have "cells ?s1 = cells s" by (simp add: cells_def)
    ultimately have w: "well_formed ?s1" "items ?s1 = items s"
      using assms turn e by (auto simp: well_formed_def items_def)
    have "elem_at (blocks s) (quo (count s)) = Some (blocks s ! (active s + 1))"
      using \<open>active s + 1 < length (blocks s)\<close> unfolding q elem_at_def nat_int by simp
    then have "sstack_grow s = Some ?s1" unfolding sstack_grow_def using turn by (simp add: q blockSize_def nat_add_distrib)
    then show thesis using that [of ?s1] w by simp
  next
    case room
    then show thesis using that [of s] assms by (simp add: sstack_grow_def blockSize_def)
  qed
qed

lemma Push_stack_ok:
  assumes "stack_ok s" "admits s x"
  shows "\<exists>s'. sstack_Push x s = Some s' \<and> stack_ok s' \<and> items s' = items s @ [x]"
proof -
  have w: "well_formed s" using assms(1) by (simp add: stack_ok_def)
  obtain s1 where s1: "sstack_grow s = Some s1"
    and w1: "well_formed s1" "offset s1 < 4096" "items s1 = items s" "count s1 = count s" "indexed s1 = indexed s" "indexCalls s1 = indexCalls s"
    by (rule grow_ok [OF w])
  define s2 where "s2 = notify (itemValue x) (count s1) s1"
  define s3 where "s3 = (set_slot (active s2) (nat (offset s2)) (Some x) s2)\<lparr>offset := offset s2 + 1, count := count s2 + 1\<rparr>"
  have l: "\<forall>b\<in>set (blocks s2). length b = 4096" "active s2 < length (blocks s2)" "nat (offset s2) < 4096" "0 \<le> offset s2"
    "count s2 = 4096 * int (active s2) + offset s2"
    using w1(1,2) by (simp_all add: s2_def well_formed_def)
  note c = set_slot_cells [OF l(1-3), of "Some x"]
  have "length (blocks s2 ! active s2) = 4096" using l by simp
  then have p: "sstack_Push x s = Some s3"
    unfolding sstack_Push_def s1 using l(3,4) by (simp add: s2_def [symmetric] s3_def elem_at_def Let_def)
  have n: "4096 * active s2 + nat (offset s2) = nat (count s2)" "0 \<le> count s2" using l(4,5) by simp_all
  have cells: "cells s3 = (cells s2)[nat (count s2) := Some x]" using c(1) unfolding n(1) by (simp add: s3_def cells_def)
  have len: "nat (count s2) < length (cells s2)" using concat_blocks(1) [OF l(1)] l(2-5) by (simp add: cells_def)
  have f: "count s3 = count s2 + 1" "indexed s3 = indexed s" "indexCalls s3 = indexCalls s2" "nat (count s2 + 1) = Suc (nat (count s2))"
    "capacity s3 = capacity s2" "active s3 = active s2" "offset s3 = offset s2 + 1" "length (blocks s3) = length (blocks s2)"
    "\<forall>b\<in>set (blocks s3). length b = 4096"
    using n(2) c(2) by (simp_all add: s3_def set_slot_def s2_def w1)
  have w2: "well_formed s2" "count s2 = count s" "items s2 = items s" using w1 by (simp_all add: s2_def)
  have "items s3 = items s2 @ [x]" using len by (auto simp: items_def f cells nth_list_update)
  then have it: "items s3 = items s @ [x]" by (simp only: w2(3))
  have "well_formed s3"
    using w2(1) l(3,4) len unfolding well_formed_def by (auto simp: cells f nth_list_update less_Suc_eq)
  moreover have "tracked s3"
  proof -
    have t: "indexed s \<Longrightarrow> distinct (map itemValue (items s)) \<and> itemValue x \<notin> itemValue ` set (items s)"
      "\<And>k. indexed s \<Longrightarrow> k < length (items s) \<Longrightarrow> last_call (indexCalls s) (itemValue (items s ! k)) = Some (int k)"
      using assms by (simp_all add: stack_ok_def tracked_def admits_def)
    have ix: "indexed s \<Longrightarrow> indexCalls s3 = indexCalls s @ [(itemValue x, count s)]" by (simp add: f s2_def w1)
    have "last_call (indexCalls s3) (itemValue (items s3 ! k)) = Some (int k)" if "indexed s" "k < length (items s3)" for k
    proof (cases "k < length (items s)")
      case True
      then have "itemValue (items s ! k) \<noteq> itemValue x" using t(1) [OF that(1)] by (metis image_eqI nth_mem)
      then show ?thesis using True t(2) [OF that(1) True] by (simp add: it ix [OF that(1)] nth_append del: length_items)
    next
      case False
      then have "k = length (items s)" using that(2) by (simp add: it del: length_items)
      then show ?thesis using well_formed_count(1) [OF w] by (simp add: it ix [OF that(1)] nth_append)
    qed
    then show ?thesis using t(1) by (simp add: tracked_def f it)
  qed
  ultimately show ?thesis using p it by (simp add: stack_ok_def)
qed

lemma back_ok:
  assumes "well_formed s" "0 < count s"
  obtains s1 where "sstack_back (s\<lparr>count := count s - 1, offset := offset s - 1\<rparr>) = Some s1" "blocks s1 = blocks s"
    "count s1 = count s - 1" "0 \<le> offset s1" "offset s1 < 4096" "active s1 < length (blocks s)"
    "count s1 = 4096 * int (active s1) + offset s1" "capacity s1 = capacity s" "indexed s1 = indexed s" "indexCalls s1 = indexCalls s"
proof (cases "offset s = 0")
  case True
  define a where "a = active s - 1"
  have a: "active s = Suc a" "count s = 4096 * int (active s)" "active s < length (blocks s)"
    using assms True by (auto simp: well_formed_def a_def)
  then have e: "count s - 1 = int (4096 * a + 4095)" by simp
  have q: "quo (count s - 1) = int a" unfolding e by (rule quo_rem(1)) simp
  have "elem_at (blocks s) (quo (count s - 1)) = Some (blocks s ! a)" using a unfolding q elem_at_def nat_int by simp
  then have "sstack_back (s\<lparr>count := count s - 1, offset := offset s - 1\<rparr>) = Some (s\<lparr>count := count s - 1, offset := 4095, active := a\<rparr>)"
    by (simp add: sstack_back_def True q blockSize_def)
  then show thesis by (rule that) (use a in simp_all)
next
  case False
  then have "sstack_back (s\<lparr>count := count s - 1, offset := offset s - 1\<rparr>) = Some (s\<lparr>count := count s - 1, offset := offset s - 1\<rparr>)"
    using assms by (auto simp: sstack_back_def well_formed_def)
  then show thesis by (rule that) (use assms False in \<open>auto simp: well_formed_def\<close>)
qed

lemma Pop_stack_ok:
  assumes "stack_ok s" "items s \<noteq> []"
  shows "\<exists>s'. sstack_Pop s = Some (Some (last (items s)), s') \<and> stack_ok s' \<and> items s' = butlast (items s)"
proof -
  have w: "well_formed s" using assms(1) by (simp add: stack_ok_def)
  have ne: "0 < count s" using assms(2) length_items [of s] by (metis length_greater_0_conv zero_less_nat_eq)
  obtain s1 where s1: "sstack_back (s\<lparr>count := count s - 1, offset := offset s - 1\<rparr>) = Some s1"
    and f1: "blocks s1 = blocks s" "count s1 = count s - 1" "0 \<le> offset s1" "offset s1 < 4096" "active s1 < length (blocks s)"
      "count s1 = 4096 * int (active s1) + offset s1" "capacity s1 = capacity s" "indexed s1 = indexed s" "indexCalls s1 = indexCalls s"
    by (rule back_ok [OF w ne])
  define n where "n = 4096 * active s1 + nat (offset s1)"
  have n: "count s1 = int n" "nat (count s) = Suc n" using f1(2,3,6) by (simp_all add: n_def)
  have l: "\<forall>b\<in>set (blocks s1). length b = 4096" "active s1 < length (blocks s1)" "nat (offset s1) < 4096"
    using w f1(1,3-5) by (simp_all add: well_formed_def)
  have len: "n < length (cells s)" using well_formed_count(2) [OF w] n(2) by simp
  have lst: "last (items s) = items s ! n" using n(2) assms(2) by (simp add: last_conv_nth)
  have "blocks s1 ! active s1 ! nat (offset s1) = cells s ! n"
    using concat_blocks(2) [OF l] by (simp add: cells_def n_def f1(1))
  also have "\<dots> = Some (last (items s))" using cell_item [OF w, of n] n(2) lst by simp
  finally have el: "elem_at (blocks s1 ! active s1) (offset s1) = Some (Some (last (items s)))"
    using l f1(3) by (simp add: elem_at_def)
  define s2 where "s2 = set_slot (active s1) (nat (offset s1)) None s1"
  note c = set_slot_cells [OF l, of None, folded n_def s2_def]
  have f2: "count s2 = int n" "indexed s2 = indexed s" "indexCalls s2 = indexCalls s" "capacity s2 = capacity s" "active s2 = active s1" "offset s2 = offset s1"
    using f1 n(1) by (simp_all add: s2_def set_slot_def)
  have cells: "cells s2 = (cells s)[n := None]" using c(1) f1(1) by (simp add: cells_def)
  define s3 where "s3 = notify (itemValue (last (items s))) (- 1) s2"
  have p: "sstack_Pop s = Some (Some (last (items s)), s3)"
    unfolding sstack_Pop_def s1 by (simp add: el s2_def [symmetric] Let_def s3_def) (simp add: notify_def)
  have "items s2 = take n (items s)"
    using n(2) len by (intro nth_equalityI) (simp_all add: items_def f2 cells)
  then have it: "items s2 = butlast (items s)" using n(2) by (simp add: butlast_conv_take)
  have "well_formed s2"
    using w f1 c(2,3) n f2 len unfolding well_formed_def by (auto simp: cells)
  moreover have "tracked s3"
  proof -
    have e: "items s = butlast (items s) @ [last (items s)]" using assms(2) by simp
    have t: "indexed s \<Longrightarrow> distinct (map itemValue (items s))"
      "\<And>k. indexed s \<Longrightarrow> k < length (items s) \<Longrightarrow> last_call (indexCalls s) (itemValue (items s ! k)) = Some (int k)"
      using assms by (simp_all add: stack_ok_def tracked_def)
    have d: "distinct (map itemValue (butlast (items s)))" "itemValue (last (items s)) \<notin> itemValue ` set (butlast (items s))" if "indexed s"
      using t(1) [OF that] by (subst (asm) e, simp)+
    have "last_call (indexCalls s3) (itemValue (butlast (items s) ! k)) = Some (int k)" if "indexed s" "k < length (butlast (items s))" for k
    proof -
      have "itemValue (butlast (items s) ! k) \<noteq> itemValue (last (items s))" using d(2) [OF that(1)] nth_mem [OF that(2)] by (metis image_eqI)
      then show ?thesis using t(2) [OF that(1), of k] that by (simp add: s3_def f2 nth_butlast del: length_items)
    qed
    then show ?thesis using d(1) by (simp add: tracked_def s3_def it f2 del: length_items)
  qed
  ultimately show ?thesis using p it by (simp add: stack_ok_def s3_def)
qed

interpretation pq: heap_interface sstack_Len sstack_Less sstack_Swap sstack_Push sstack_Pop stack_ok items before admits
  by unfold_locales (fact Len_ok Less_ok Swap_ok Push_stack_ok Pop_stack_ok)+

lemma new_ok: "stack_ok (newSstack b)" "items (newSstack b) = []"
  by (simp_all add: stack_ok_def well_formed_def tracked_def newSstack_def newBlock_def blockSize_def items_def)

end
