(* ===== verification/PrqueProps.thy ===== *)
theory PrqueProps
  imports PrqueLaws
begin

text \<open>
  The properties of \<open>common/prque\<close>. The queue compares differences, so priorities may wrap around; as its comment
  demands, the priorities in the queue lie within half of the range: there is a base from which all of them are fewer than \<open>2^63\<close> steps away.
\<close>

definition narrow :: "'a item multiset \<Rightarrow> bool" where
  "narrow M \<longleftrightarrow> (\<exists>base. \<forall>x\<in>#M. unat (priority x - base) < 2 ^ 63)"

text \<open>The states a queue can reach, each with the items in it. With a callback the data in the queue are distinct.\<close>

inductive reach :: "'a sstack \<Rightarrow> 'a item multiset \<Rightarrow> bool" where
  new: "reach (Prque_New b) {#}"
| push: "reach q M \<Longrightarrow> narrow (add_mset (Item a p) M) \<Longrightarrow> indexed q \<longrightarrow> a \<notin> itemValue ` set_mset M
    \<Longrightarrow> Prque_Push a p q = Some q' \<Longrightarrow> reach q' (add_mset (Item a p) M)"
| pop: "reach q M \<Longrightarrow> Prque_Pop q = Some ((a, p), q') \<Longrightarrow> reach q' (M - {#Item a p#})"
| remove: "reach q M \<Longrightarrow> i < Prque_Size q \<Longrightarrow> 0 \<le> i \<Longrightarrow> Prque_Remove i q = Some (Some x, q') \<Longrightarrow> reach q' (M - {#x#})"
| reset: "reach q M \<Longrightarrow> reach (Prque_Reset q) {#}"

lemma sint_diff:
  fixes p q base :: "64 word"
  assumes "unat (p - base) < 2 ^ 63" "unat (q - base) < 2 ^ 63"
  shows "sint (p - q) = int (unat (p - base)) - int (unat (q - base))"
proof -
  let ?x = "p - base" and ?y = "q - base"
  have b: "int (unat ?x) < 2 ^ 63" "int (unat ?y) < 2 ^ 63"
    using assms by (metis of_nat_less_iff of_nat_numeral of_nat_power)+
  have "p - q = word_of_int (int (unat ?x) - int (unat ?y))" by simp
  then have "sint (p - q) = signed_take_bit 63 (int (unat ?x) - int (unat ?y))" by (simp only: sint_sbintrunc') simp
  also have "\<dots> = int (unat ?x) - int (unat ?y)"
    by (rule signed_take_bit_int_eq_self) (use b in linarith)+
  finally show ?thesis .
qed

definition measures :: "('a item \<Rightarrow> nat) \<Rightarrow> 'a item multiset \<Rightarrow> bool" where
  "measures key M \<longleftrightarrow> (\<forall>x\<in>#M. \<forall>y\<in>#M. sint (priority x - priority y) = int (key x) - int (key y))"

lemma narrow_key:
  assumes "narrow M"
  obtains key where "measures key M"
proof -
  obtain base where b: "\<And>x. x \<in># M \<Longrightarrow> unat (priority x - base) < 2 ^ 63" using assms unfolding narrow_def by blast
  show thesis by (rule that [of "\<lambda>x. unat (priority x - base)"]) (use sint_diff [OF b b] in \<open>simp add: measures_def\<close>)
qed

lemma measures_agrees: "measures key M \<Longrightarrow> agrees before key (set_mset M)"
  by (simp add: agrees_def before_def measures_def)

lemma narrow_mono: "narrow M \<Longrightarrow> N \<subseteq># M \<Longrightarrow> narrow N"
  unfolding narrow_def by (meson mset_subset_eqD)

declare length_items [simp del]

definition queue_ok :: "'a sstack \<Rightarrow> 'a item multiset \<Rightarrow> bool" where
  "queue_ok q M \<longleftrightarrow> stack_ok q \<and> in_order before (items q) \<and> mset (items q) = M \<and> narrow M"

lemma queue_okD:
  assumes "queue_ok q M"
  shows "stack_ok q" "in_order before (items q)" "mset (items q) = M" "set (items q) = set_mset M" "narrow M"
  using assms by (auto simp: queue_ok_def)

lemma queue_Push:
  assumes "queue_ok q M" "narrow (add_mset (Item a p) M)" "indexed q \<longrightarrow> a \<notin> itemValue ` set_mset M"
  shows "\<exists>q'. Prque_Push a p q = Some q' \<and> queue_ok q' (add_mset (Item a p) M)"
proof -
  note q = queue_okD [OF assms(1)]
  obtain key where k: "measures key (add_mset (Item a p) M)" by (rule narrow_key [OF assms(2)])
  have "agrees before key (insert (Item a p) (set (items q)))" using measures_agrees [OF k] q(4) by simp
  moreover have "admits q (Item a p)" using assms(3) q(4) by (simp add: admits_def)
  ultimately show ?thesis using pq.Push_ok [OF q(1) _ q(2)] q(3) assms(2) by (auto simp: queue_ok_def Prque_Push_def)
qed

lemma queue_Pop:
  assumes "queue_ok q M" "M \<noteq> {#}"
  obtains x q' where "heap_Pop sstack_Len sstack_Less sstack_Swap sstack_Pop q = Some (Some x, q')" "x \<in># M"
    "queue_ok q' (M - {#x#})" "\<forall>y\<in>#M. 0 \<le> sint (priority x - priority y)"
proof -
  note q = queue_okD [OF assms(1)]
  have ne: "items q \<noteq> []" using assms(2) q(3) by auto
  obtain key where k: "measures key M" by (rule narrow_key [OF q(5)])
  have ag: "agrees before key (set (items q))" using measures_agrees [OF k] q(4) by simp
  obtain q' where q': "heap_Pop sstack_Len sstack_Less sstack_Swap sstack_Pop q = Some (Some (items q ! 0), q')" "stack_ok q'"
    "in_order before (items q')" "mset (items q') = mset (items q) - {#items q ! 0#}"
    using pq.Pop_ok [OF q(1) ne q(2) ag] by blast
  have top: "items q ! 0 \<in># M" using ne q(4) nth_mem [of 0 "items q"] by auto
  have "0 \<le> sint (priority (items q ! 0) - priority y)" if "y \<in># M" for y
  proof -
    have h: "is_heap key (length (items q)) (items q)" using q(2) in_order_heap [OF ag] by simp
    have "y \<in> set (items q)" using that q(4) by simp
    then obtain i where "i < length (items q)" "items q ! i = y" unfolding in_set_conv_nth by blast
    then have "key y \<le> key (items q ! 0)" using heap_max [OF h] by blast
    then show ?thesis using k top that by (simp add: measures_def)
  qed
  moreover have "queue_ok q' (M - {#items q ! 0#})"
    using q' q(3,5) by (simp add: queue_ok_def narrow_mono [OF q(5)])
  ultimately show thesis using that q'(1) top by blast
qed

lemma queue_Remove:
  assumes "queue_ok q M" "i < length (items q)"
  shows "\<exists>q'. Prque_Remove (int i) q = Some (Some (items q ! i), q') \<and> queue_ok q' (M - {#items q ! i#})"
proof -
  note q = queue_okD [OF assms(1)]
  obtain key where k: "measures key M" by (rule narrow_key [OF q(5)])
  have ag: "agrees before key (set (items q))" using measures_agrees [OF k] q(4) by simp
  obtain q' where "heap_Remove sstack_Len sstack_Less sstack_Swap sstack_Pop i q = Some (Some (items q ! i), q')" "stack_ok q'"
    "in_order before (items q')" "mset (items q') = mset (items q) - {#items q ! i#}"
    using pq.Remove_ok [OF q(1) assms(2) q(2) ag] by blast
  then show ?thesis using q(3) by (auto simp: Prque_Remove_def queue_ok_def narrow_mono [OF q(5)])
qed

lemma Pop_empty: "queue_ok q {#} \<Longrightarrow> Prque_Pop q = None"
proof -
  assume "queue_ok q {#}"
  then have "items q = []" "sstack_Len q = int (length (items q))" using Len_ok queue_okD(1,3) by fastforce+
  then have "count q = 0" by (simp add: sstack_Len_def)
  moreover have "elem_at b (rem (- 1)) = None" for b :: "'a item option list" by (simp add: elem_at_def rem_def quo_def blockSize_def)
  then have "slot_at q (- 1) = None" by (simp add: slot_at_def split: option.split)
  then have "sstack_Swap 0 (- 1) q = None" by (simp add: sstack_Swap_def)
  ultimately show ?thesis by (simp add: Prque_Pop_def heap_Pop_def sstack_Len_def Let_def)
qed

lemma queue_Size: "queue_ok q M \<Longrightarrow> Prque_Size q = int (length (items q)) \<and> length (items q) = size M"
  using Len_ok queue_okD(1,3) by (metis Prque_Size_def size_mset)

lemma empty_ok: "queue_ok (Prque_Reset q) {#}" "queue_ok (Prque_New b) {#}"
proof -
  show "queue_ok (Prque_New b) {#}" by (simp add: queue_ok_def Prque_New_def new_ok in_order_def narrow_def)
  have "stack_ok ((newSstack (indexed q))\<lparr>indexCalls := indexCalls q\<rparr>)" "items ((newSstack (indexed q))\<lparr>indexCalls := indexCalls q\<rparr>) = []"
    by (simp_all add: stack_ok_def well_formed_def tracked_def newSstack_def newBlock_def blockSize_def items_def)
  then show "queue_ok (Prque_Reset q) {#}" by (simp add: queue_ok_def Prque_Reset_def Prque_New_def in_order_def narrow_def)
qed

lemma reach_ok: "reach q M \<Longrightarrow> queue_ok q M"
proof (induction rule: reach.induct)
  case (push q M a p q')
  from queue_Push [OF push.IH push.hyps(2,3)] push.hyps(4) show ?case by auto
next
  case (pop q M a p q')
  then have "M \<noteq> {#}" using Pop_empty by fastforce
  then show ?case using pop by (rule_tac queue_Pop [OF pop.IH]) (auto simp: Prque_Pop_def)
next
  case (remove q M i x q')
  from queue_Remove [OF remove.IH, of "nat i"] queue_Size [OF remove.IH] remove.hyps show ?case by auto
qed (simp_all add: empty_ok)

text \<open>C22. The queue is a priority queue. In every state that pushes, pops, removals and resets reach, whatever the number of
  blocks: the size is the number of items; every item that keeps the priorities within half of the range can be pushed;
  \<open>Pop\<close> on a queue that is not empty returns an item whose priority is behind no other, as wrap-around comparison
  has it, and \<open>PopItem\<close> its value; and \<open>Pop\<close> on an empty queue panics.\<close>

theorem prque_pops_maximum:
  assumes "reach q M"
  shows "Prque_Size q = int (size M) \<and> (Prque_Empty q \<longleftrightarrow> M = {#})
     \<and> (narrow (add_mset (Item a p) M) \<and> (indexed q \<longrightarrow> a \<notin> itemValue ` set_mset M) \<longrightarrow> (\<exists>q'. Prque_Push a p q = Some q'))
     \<and> (if M = {#} then Prque_Pop q = None
        else \<exists>x q'. Prque_Pop q = Some ((itemValue x, priority x), q') \<and> Prque_PopItem q = Some (itemValue x, q')
               \<and> x \<in># M \<and> reach q' (M - {#x#}) \<and> (\<forall>y\<in>#M. 0 \<le> sint (priority x - priority y)))"
proof -
  have q: "queue_ok q M" by (rule reach_ok [OF assms])
  have "\<exists>x q'. Prque_Pop q = Some ((itemValue x, priority x), q') \<and> Prque_PopItem q = Some (itemValue x, q')
      \<and> x \<in># M \<and> reach q' (M - {#x#}) \<and> (\<forall>y\<in>#M. 0 \<le> sint (priority x - priority y))" if "M \<noteq> {#}"
  proof -
    note ne = that
    obtain x q' where x: "heap_Pop sstack_Len sstack_Less sstack_Swap sstack_Pop q = Some (Some x, q')" "x \<in># M"
      "queue_ok q' (M - {#x#})" "\<forall>y\<in>#M. 0 \<le> sint (priority x - priority y)"
      by (rule queue_Pop [OF q ne])
    have p: "Prque_Pop q = Some ((itemValue x, priority x), q')" using x(1) by (simp add: Prque_Pop_def)
    from reach.pop [OF assms p] x(2,4) p x(1) show ?thesis by (intro exI [of _ x] exI [of _ q']) (simp add: Prque_PopItem_def)
  qed
  moreover have "Prque_Pop q = None" if "M = {#}" using Pop_empty q that by blast
  moreover have "Prque_Size q = int (size M)" using queue_Size [OF q] by simp
  ultimately show ?thesis using queue_Push [OF q, of a p] by (auto simp: Prque_Empty_def Prque_Size_def)
qed

lemma narrow_single: "narrow {#Item a p#}"
  by (auto simp: narrow_def intro: exI [of _ p])

lemma push_one:
  obtains q where "Prque_Push a p (Prque_New b) = Some q" "reach q {#Item a p#}"
  using queue_Push [OF empty_ok(2) narrow_single, of b a p] reach.push [OF reach.new narrow_single] by fastforce

lemma prque_pops_maximum_witness:
  "\<exists>q q'. Prque_Push (7 :: nat) 5 (Prque_New False) = Some q \<and> Prque_Pop q = Some ((7, 5), q') \<and> Prque_Size q = 1"
proof -
  obtain q where q: "Prque_Push (7 :: nat) 5 (Prque_New False) = Some q" "reach q {#Item 7 5#}" by (rule push_one)
  from prque_pops_maximum [OF q(2)] q(1) show ?thesis by auto
qed

text \<open>C23. The callback is enough to remove any item: in every state a queue with a callback reaches, the last index the
  callback was given for the value of an item is the index under which \<open>Remove\<close> finds exactly this item.\<close>

theorem prque_index_valid:
  assumes "reach q M" "indexed q" "x \<in># M"
  shows "\<exists>i q'. last_call (indexCalls q) (itemValue x) = Some i \<and> Prque_Remove i q = Some (Some x, q') \<and> reach q' (M - {#x#})"
proof -
  have q: "queue_ok q M" by (rule reach_ok [OF assms(1)])
  have "x \<in> set (items q)" using queue_okD(4) [OF q] assms(3) by simp
  then obtain i where i: "i < length (items q)" "items q ! i = x" unfolding in_set_conv_nth by blast
  have "last_call (indexCalls q) (itemValue x) = Some (int i)"
    using queue_okD(1) [OF q] assms(2) i by (auto simp: stack_ok_def tracked_def)
  moreover obtain q' where q': "Prque_Remove (int i) q = Some (Some x, q')" using queue_Remove [OF q i(1)] i(2) by blast
  moreover have "reach q' (M - {#x#})" using reach.remove [OF assms(1) _ _ q'] queue_Size [OF q] i(1) by simp
  ultimately show ?thesis by blast
qed

lemma prque_index_valid_witness:
  "\<exists>q i q'. Prque_Push (7 :: nat) 5 (Prque_New True) = Some q \<and> Prque_Remove i q = Some (Some (Item 7 5), q')"
proof -
  obtain q where q: "Prque_Push (7 :: nat) 5 (Prque_New True) = Some q" "reach q {#Item 7 5#}" by (rule push_one)
  then have "indexed q"
    by (auto simp: Prque_Push_def Prque_New_def newSstack_def heap_Push_def sstack_Push_def sstack_grow_def blockSize_def
        elem_at_def newBlock_def notify_def set_slot_def sstack_Len_def heap_up.simps Let_def)
  from prque_index_valid [OF q(2) this] q(1) show ?thesis by auto
qed

end
