(* ===== verification/Words32.thy ===== *)
theory Words32
  imports Common
begin

text \<open>
  Words of 32 bits and their four bytes in big-endian order, as the loops of \<open>crypto/gmsm/sm4/sm4.go\<close> and
  \<open>binary.BigEndian\<close> in \<open>crypto/gmsm/sm3/sm3.go\<close> read and write them.
\<close>

type_synonym u32 = "32 word"

definition word_at :: "bytes \<Rightarrow> nat \<Rightarrow> u32" where
  "word_at block i = push_bit 24 (ucast (block ! (i * 4))) OR push_bit 16 (ucast (block ! (i * 4 + 1)))
     OR push_bit 8 (ucast (block ! (i * 4 + 2))) OR ucast (block ! (i * 4 + 3))"

definition word_bytes :: "u32 \<Rightarrow> bytes" where
  "word_bytes w = [ucast (drop_bit 24 w), ucast (drop_bit 16 w), ucast (drop_bit 8 w), ucast w]"

lemma word_of_bytes:
  "push_bit 24 (ucast (ucast (drop_bit 24 w) :: byte)) OR push_bit 16 (ucast (ucast (drop_bit 16 w) :: byte))
     OR push_bit 8 (ucast (ucast (drop_bit 8 w) :: byte)) OR ucast (ucast w :: byte) = (w :: u32)"
proof (rule bit_word_eqI)
  fix n assume "n < LENGTH(32)"
  then consider "n < 8" | "8 \<le> n \<and> n < 16" | "16 \<le> n \<and> n < 24" | "24 \<le> n \<and> n < 32" by force
  then show "bit (push_bit 24 (ucast (ucast (drop_bit 24 w) :: byte) :: u32) OR push_bit 16 (ucast (ucast (drop_bit 16 w) :: byte))
     OR push_bit 8 (ucast (ucast (drop_bit 8 w) :: byte)) OR ucast (ucast w :: byte)) n = bit w n"
    by cases (auto simp: bit_simps)
qed

lemma bytes_of_word:
  fixes a b c d :: byte
  defines "w \<equiv> (push_bit 24 (ucast a) OR push_bit 16 (ucast b) OR push_bit 8 (ucast c) OR ucast d :: u32)"
  shows "ucast (drop_bit 24 w) = a" "ucast (drop_bit 16 w) = b" "ucast (drop_bit 8 w) = c" "ucast w = d"
  unfolding w_def by (rule bit_word_eqI, auto simp: bit_simps dest: bit_imp_le_length)+

lemma word_bytes_at: "word_bytes (word_at b i) = [b ! (i * 4), b ! (i * 4 + 1), b ! (i * 4 + 2), b ! (i * 4 + 3)]"
  by (simp only: word_bytes_def word_at_def bytes_of_word)

end
