(* ===== verification/Sm3.thy ===== *)
theory Sm3
  imports Words32
begin

text \<open>
  The hash of \<open>crypto/gmsm/sm3/sm3.go\<close>. The array \<open>digest\<close> is a tuple of eight words. The slices the code appends to
  are its own, so an append is a value. \<open>Sum\<close> also writes its result behind \<open>in\<close> where that slice has room for it;
  the model returns the result.
\<close>

type_synonym regs = "u32 \<times> u32 \<times> u32 \<times> u32 \<times> u32 \<times> u32 \<times> u32 \<times> u32"

record SM3 =
  digest :: regs
  msgLength :: "64 word"
  unhandleMsg :: bytes

section \<open>The functions of the rounds\<close>

definition ff0 :: "u32 \<Rightarrow> u32 \<Rightarrow> u32 \<Rightarrow> u32" where "ff0 x y z = x XOR y XOR z"

definition ff1 :: "u32 \<Rightarrow> u32 \<Rightarrow> u32 \<Rightarrow> u32" where "ff1 x y z = (x AND y) OR (x AND z) OR (y AND z)"

definition gg0 :: "u32 \<Rightarrow> u32 \<Rightarrow> u32 \<Rightarrow> u32" where "gg0 x y z = x XOR y XOR z"

definition gg1 :: "u32 \<Rightarrow> u32 \<Rightarrow> u32 \<Rightarrow> u32" where "gg1 x y z = (x AND y) OR (NOT x AND z)"

definition leftRotate :: "u32 \<Rightarrow> nat \<Rightarrow> u32" where
  "leftRotate x i = push_bit (i mod 32) x OR drop_bit (32 - i mod 32) x"

definition p0 :: "u32 \<Rightarrow> u32" where "p0 x = x XOR leftRotate x 9 XOR leftRotate x 17"

definition p1 :: "u32 \<Rightarrow> u32" where "p1 x = x XOR leftRotate x 15 XOR leftRotate x 23"

section \<open>Padding\<close>

text \<open>The loop that appends zeros, and the whole of \<open>pad\<close>, which panics when the result has no whole number of blocks.\<close>

function pad_zeros :: "bytes \<Rightarrow> bytes" where
  "pad_zeros msg = (if length msg mod 64 \<noteq> 56 then pad_zeros (msg @ [0x00]) else msg)"
  by auto
termination
  by (relation "measure (\<lambda>msg. if length msg mod 64 \<le> 56 then 56 - length msg mod 64 else 120 - length msg mod 64)")
    (auto simp: mod_Suc)

declare pad_zeros.simps [simp del]

definition pad :: "SM3 \<Rightarrow> bytes option" where
  "pad sm3 =
     (let msg = pad_zeros (unhandleMsg sm3 @ [0x80]);
          msg = msg @ map (\<lambda>k. ucast (drop_bit k (msgLength sm3) AND 0xff)) [56, 48, 40, 32, 24, 16, 8, 0]
      in if length msg mod 64 \<noteq> 0 then None else Some msg)"

section \<open>The compression\<close>

text \<open>The words of one block: sixteen are read, fifty-two computed from the ones before.\<close>

definition expand :: "bytes \<Rightarrow> u32 list" where
  "expand msg =
     fold (\<lambda>i w. w @ [p1 (w ! (i - 16) XOR w ! (i - 9) XOR leftRotate (w ! (i - 3)) 15) XOR leftRotate (w ! (i - 13)) 7 XOR w ! (i - 6)])
       [16..<68] (map (word_at msg) [0..<16])"

definition expand1 :: "u32 list \<Rightarrow> u32 list" where
  "expand1 w = map (\<lambda>i. w ! i XOR w ! (i + 4)) [0..<64]"

text \<open>The body of the two loops, which differ in the constant and in the functions \<open>ff\<close> and \<open>gg\<close>.\<close>

definition round_body ::
  "u32 \<Rightarrow> (u32 \<Rightarrow> u32 \<Rightarrow> u32 \<Rightarrow> u32) \<Rightarrow> (u32 \<Rightarrow> u32 \<Rightarrow> u32 \<Rightarrow> u32) \<Rightarrow> u32 list \<Rightarrow> u32 list \<Rightarrow> nat \<Rightarrow> regs \<Rightarrow> regs" where
  "round_body T ff gg w w1 i V =
     (case V of (A, B, C, D, E, F, G, H) \<Rightarrow>
        let SS1 = leftRotate (leftRotate A 12 + E + leftRotate T i) 7;
            SS2 = SS1 XOR leftRotate A 12;
            TT1 = ff A B C + D + SS2 + w1 ! i;
            TT2 = gg E F G + H + SS1 + w ! i
        in (TT1, A, leftRotate B 9, C, p0 TT2, E, leftRotate F 19, G))"

definition xor_regs :: "regs \<Rightarrow> regs \<Rightarrow> regs" where
  "xor_regs V U =
     (case V of (a, b, c, d, e, f, g, h) \<Rightarrow> case U of (A, B, C, D, E, F, G, H) \<Rightarrow>
        (a XOR A, b XOR B, c XOR C, d XOR D, e XOR E, f XOR F, g XOR G, h XOR H))"

definition update_block :: "bytes \<Rightarrow> regs \<Rightarrow> regs" where
  "update_block msg V =
     (let w = expand msg; w1 = expand1 w;
          V1 = fold (round_body 0x79cc4519 ff0 gg0 w w1) [0..<16] V;
          V2 = fold (round_body 0x7a879d8a ff1 gg1 w w1) [16..<64] V1
      in xor_regs V V2)"

text \<open>The loop over the blocks, which leaves an incomplete one; \<open>update2\<close> has the same body and returns the digest.\<close>

function update_loop :: "regs \<Rightarrow> bytes \<Rightarrow> regs" where
  "update_loop V msg = (if 64 \<le> length msg then update_loop (update_block msg V) (drop 64 msg) else V)"
  by auto
termination by (relation "measure (\<lambda>(V, msg). length msg)") auto

declare update_loop.simps [simp del]

definition update :: "SM3 \<Rightarrow> bytes \<Rightarrow> SM3" where
  "update sm3 msg = sm3\<lparr>digest := update_loop (digest sm3) msg\<rparr>"

definition update2 :: "SM3 \<Rightarrow> bytes \<Rightarrow> regs" where
  "update2 sm3 msg = update_loop (digest sm3) msg"

section \<open>The operations of a hash\<close>

definition sm3_BlockSize :: nat where "sm3_BlockSize = 64"

definition sm3_Size :: nat where "sm3_Size = 32"

text \<open>The zero value of the type, which \<open>New\<close> and \<open>Sm3Sum\<close> declare and then reset.\<close>

definition zeroSM3 :: SM3 where
  "zeroSM3 = \<lparr>digest = (0, 0, 0, 0, 0, 0, 0, 0), msgLength = 0, unhandleMsg = []\<rparr>"

definition Sm3_Reset :: "SM3 \<Rightarrow> SM3" where
  "Sm3_Reset sm3 =
     sm3\<lparr>digest := (0x7380166f, 0x4914b2b9, 0x172442d7, 0xda8a0600, 0xa96f30bc, 0x163138aa, 0xe38dee4d, 0xb0fb0e4e),
         msgLength := 0, unhandleMsg := []\<rparr>"

definition Sm3_New :: SM3 where "Sm3_New = Sm3_Reset zeroSM3"

definition Sm3_Write :: "SM3 \<Rightarrow> bytes \<Rightarrow> nat \<times> SM3" where
  "Sm3_Write sm3 p =
     (let toWrite = length p;
          sm3 = sm3\<lparr>msgLength := msgLength sm3 + word_of_nat (length p * 8)\<rparr>;
          msg = unhandleMsg sm3 @ p;
          nblocks = length msg div sm3_BlockSize;
          sm3 = update sm3 msg
      in (toWrite, sm3\<lparr>unhandleMsg := drop (nblocks * sm3_BlockSize) msg\<rparr>))"

definition put_regs :: "regs \<Rightarrow> bytes" where
  "put_regs V = (case V of (a, b, c, d, e, f, g, h) \<Rightarrow>
     word_bytes a @ word_bytes b @ word_bytes c @ word_bytes d @ word_bytes e @ word_bytes f @ word_bytes g @ word_bytes h)"

definition Sm3_Sum :: "SM3 \<Rightarrow> bytes \<Rightarrow> bytes option \<times> SM3" where
  "Sm3_Sum sm3 ins =
     (let sm3 = snd (Sm3_Write sm3 ins)
      in (map_option (\<lambda>msg. put_regs (update2 sm3 msg)) (pad sm3), sm3))"

definition Sm3Sum :: "bytes \<Rightarrow> bytes option" where
  "Sm3Sum data = fst (Sm3_Sum (snd (Sm3_Write (Sm3_Reset zeroSM3) data)) [])"

end
