(* ===== verification/Sm3Laws.thy ===== *)
theory Sm3Laws
  imports Sm3 MathLaws
begin

text \<open>
  The hash function of the standard on a whole message, and the proof that the incremental code computes it: after any
  sequence of writes a hash holds the chaining value of the whole blocks and the rest of what was written.
\<close>

section \<open>The hash function of the standard\<close>

definition rotl :: "nat \<Rightarrow> u32 \<Rightarrow> u32" where "rotl k x = word_rotl k x"

definition refT :: "nat \<Rightarrow> u32" where "refT j = (if j < 16 then 0x79cc4519 else 0x7a879d8a)"

definition refFF :: "nat \<Rightarrow> u32 \<Rightarrow> u32 \<Rightarrow> u32 \<Rightarrow> u32" where
  "refFF j x y z = (if j < 16 then x XOR y XOR z else (x AND y) OR (x AND z) OR (y AND z))"

definition refGG :: "nat \<Rightarrow> u32 \<Rightarrow> u32 \<Rightarrow> u32 \<Rightarrow> u32" where
  "refGG j x y z = (if j < 16 then x XOR y XOR z else (x AND y) OR (NOT x AND z))"

definition refP0 :: "u32 \<Rightarrow> u32" where "refP0 x = x XOR rotl 9 x XOR rotl 17 x"

definition refP1 :: "u32 \<Rightarrow> u32" where "refP1 x = x XOR rotl 15 x XOR rotl 23 x"

text \<open>The expansion of a block as the recurrence of the standard.\<close>

fun refW :: "bytes \<Rightarrow> nat \<Rightarrow> u32" where
  "refW B j =
     (if j < 16 then word_at B j
      else refP1 (refW B (j - 16) XOR refW B (j - 9) XOR rotl 15 (refW B (j - 3))) XOR rotl 7 (refW B (j - 13)) XOR refW B (j - 6))"

declare refW.simps [simp del]

fun refStep :: "bytes \<Rightarrow> nat \<Rightarrow> regs \<Rightarrow> regs" where
  "refStep B j (A, B1, C, D, E, F, G, H) =
     (let SS1 = rotl 7 (rotl 12 A + E + rotl j (refT j));
          SS2 = SS1 XOR rotl 12 A
      in (refFF j A B1 C + D + SS2 + (refW B j XOR refW B (j + 4)), A, rotl 9 B1, C,
          refP0 (refGG j E F G + H + SS1 + refW B j), E, rotl 19 F, G))"

definition refCF :: "bytes \<Rightarrow> regs \<Rightarrow> regs" where
  "refCF B V = xor_regs V (fold (refStep B) [0..<64] V)"

definition refIV :: regs where
  "refIV = (0x7380166f, 0x4914b2b9, 0x172442d7, 0xda8a0600, 0xa96f30bc, 0x163138aa, 0xe38dee4d, 0xb0fb0e4e)"

definition blocks64 :: "bytes \<Rightarrow> bytes list" where
  "blocks64 m = map (\<lambda>i. take 64 (drop (64 * i) m)) [0..<length m div 64]"

text \<open>A one bit, the least number of zeros and the number of bits in eight bytes.\<close>

definition refPad :: "bytes \<Rightarrow> bytes" where
  "refPad m =
     (let a = Suc (length m) mod 64; zeros = (if a \<le> 56 then 56 - a else 120 - a)
      in m @ 0x80 # replicate zeros 0 @ be_fixed 8 (8 * length m))"

definition refSM3 :: "bytes \<Rightarrow> bytes" where
  "refSM3 m = put_regs (fold refCF (blocks64 (refPad m)) refIV)"

section \<open>The compression\<close>

lemma leftRotate_rotl: "leftRotate x i = rotl i x"
proof (rule bit_word_eqI)
  fix n assume n: "n < LENGTH(32)"
  define m where "m = i mod 32"
  have m: "m < 32" by (simp add: m_def)
  have l: "bit (leftRotate x i) n \<longleftrightarrow> m \<le> n \<and> bit x (n - m) \<or> bit x (n + (32 - m))"
    using n by (auto simp: leftRotate_def bit_simps m_def add.commute dest: bit_imp_le_length)
  have r: "bit (rotl i x) n \<longleftrightarrow> bit x ((n + (32 - m)) mod 32)"
    using n by (simp add: rotl_def bit_word_rotl_iff m_def)
  show "bit (leftRotate x i) n = bit (rotl i x) n"
  proof (cases "m \<le> n")
    case True
    then have e: "n + (32 - m) = n - m + 32" using m by simp
    have f: "\<not> bit x (n - m + 32)" by (auto dest: bit_imp_le_length)
    have "(n - m + 32) mod 32 = n - m" using n by (simp only: mod_add_self2) simp
    then show ?thesis using True f by (simp only: l r e) simp
  next
    case False
    then show ?thesis using m by (simp only: l r) simp
  qed
qed

lemma p0_ref: "p0 = refP0" and p1_ref: "p1 = refP1"
  by (simp_all add: fun_eq_iff p0_def refP0_def p1_def refP1_def leftRotate_rotl)

lemma expand_upto:
  assumes "16 \<le> k"
  shows "fold (\<lambda>i w. w @ [p1 (w ! (i - 16) XOR w ! (i - 9) XOR leftRotate (w ! (i - 3)) 15) XOR leftRotate (w ! (i - 13)) 7 XOR w ! (i - 6)])
       [16..<k] (map (word_at B) [0..<16]) = map (refW B) [0..<k]"
  using assms
proof (induction k rule: dec_induct)
  case base
  have "map (refW B) [0..<16] = map (word_at B) [0..<16]" by (rule map_cong) (simp_all add: refW.simps [of B])
  then show ?case by simp
next
  case (step k)
  have "refW B k = refP1 (refW B (k - 16) XOR refW B (k - 9) XOR rotl 15 (refW B (k - 3))) XOR rotl 7 (refW B (k - 13)) XOR refW B (k - 6)"
    using step.hyps(1) by (subst refW.simps) simp
  then show ?case using step by (simp add: p1_ref leftRotate_rotl)
qed

lemma expand_ref: "expand B = map (refW B) [0..<68]"
  unfolding expand_def by (rule expand_upto) simp

lemma expand1_ref: "j < 64 \<Longrightarrow> expand1 (expand B) ! j = refW B j XOR refW B (j + 4)"
  by (simp add: expand1_def expand_ref del: upt_Suc upt_rec_numeral)

lemma round_ref:
  assumes "j < 64" "T = refT j" "ff = refFF j" "gg = refGG j"
  shows "round_body T ff gg (expand B) (expand1 (expand B)) j V = refStep B j V"
proof -
  obtain A B' C D E F G H where V: "V = (A, B', C, D, E, F, G, H)" by (metis surj_pair)
  have "expand B ! j = refW B j" using assms(1) by (simp add: expand_ref del: upt_Suc upt_rec_numeral)
  then show ?thesis
    using expand1_ref [OF assms(1)] assms(2-4) by (simp add: round_body_def V leftRotate_rotl p0_ref Let_def)
qed

lemma update_block_ref: "update_block B V = refCF B V"
proof -
  let ?w = "expand B" and ?w1 = "expand1 (expand B)"
  have 1: "fold (round_body 0x79cc4519 ff0 gg0 ?w ?w1) [0..<16] V = fold (refStep B) [0..<16] V"
    by (rule fold_cong, simp, simp, rule ext, rule round_ref)
      (auto simp: refT_def fun_eq_iff refFF_def refGG_def ff0_def gg0_def)
  have 2: "fold (round_body 0x7a879d8a ff1 gg1 ?w ?w1) [16..<64] U = fold (refStep B) [16..<64] U" for U
    by (rule fold_cong, simp, simp, rule ext, rule round_ref)
      (auto simp: refT_def fun_eq_iff refFF_def refGG_def ff1_def gg1_def)
  have "[0..<64] = [0..<16] @ [16..<64::nat]" using upt_add_eq_append [of 0 16 48] by simp
  then have "fold (refStep B) [0..<64] V = fold (refStep B) [16..<64] (fold (refStep B) [0..<16] V)"
    by (simp only: fold_append o_apply)
  then show ?thesis by (simp only: update_block_def refCF_def Let_def 1 2)
qed

section \<open>Blocks\<close>

lemma blocks64_Nil: "length m < 64 \<Longrightarrow> blocks64 m = []"
  by (simp add: blocks64_def)

lemma blocks64_append:
  assumes "length a mod 64 = 0"
  shows "blocks64 (a @ b) = blocks64 a @ blocks64 b"
proof -
  obtain k where k: "length a = 64 * k" using assms by auto
  have n: "length (a @ b) div 64 = k + length b div 64" by (simp add: k)
  have "take 64 (drop (64 * i) (a @ b)) = take 64 (drop (64 * i) a)" if "i < k" for i
    using that k by simp
  moreover have "take 64 (drop (64 * (i + k)) (a @ b)) = take 64 (drop (64 * i) b)" for i
    using k by (simp add: distrib_left)
  moreover have "[0..<k + length b div 64] = [0..<k] @ map (\<lambda>i. i + k) [0..<length b div 64]"
    using upt_add_eq_append [of 0 k "length b div 64"] by (simp add: map_add_upt add.commute)
  ultimately show ?thesis by (simp add: blocks64_def n k del: length_append)
qed

lemma blocks64_step: "64 \<le> length m \<Longrightarrow> blocks64 m = take 64 m # blocks64 (drop 64 m)"
  using blocks64_append [of "take 64 m" "drop 64 m"] by (simp add: blocks64_def [of "take 64 m"] min_absorb2)

lemma update_loop_ref: "update_loop V m = fold refCF (blocks64 m) V"
proof (induction V m rule: update_loop.induct)
  case (1 V m)
  show ?case
  proof (cases "64 \<le> length m")
    case True
    have "word_at m i = word_at (take 64 m) i" if "i < 16" for i using that by (simp add: word_at_def)
    then have "map (word_at m) [0..<16] = map (word_at (take 64 m)) [0..<16]"
      by (intro map_cong refl) (simp del: upt_rec_numeral)
    then have "update_block m V = update_block (take 64 m) V" by (simp only: update_block_def expand_def)
    then show ?thesis using 1 [OF True] True by (simp add: update_loop.simps [of V m] blocks64_step update_block_ref)
  next
    case False
    then show ?thesis by (simp add: update_loop.simps [of V m] blocks64_Nil)
  qed
qed

section \<open>Padding\<close>

lemma pad_zeros_ref:
  "pad_zeros m = m @ replicate (if length m mod 64 \<le> 56 then 56 - length m mod 64 else 120 - length m mod 64) 0"
proof (induction m rule: pad_zeros.induct)
  case (1 m)
  show ?case
  proof (cases "length m mod 64 = 56")
    case True
    then show ?thesis by (simp add: pad_zeros.simps [of m])
  next
    case False
    define z where "z a = (if a \<le> 56 then 56 - a else 120 - a :: nat)" for a
    have "Suc (z (Suc (length m) mod 64)) = z (length m mod 64)"
      using False by (auto simp: mod_Suc z_def)
    then have "replicate (z (length m mod 64)) 0 = 0 # replicate (z (Suc (length m) mod 64)) (0 :: byte)"
      by (metis replicate_Suc)
    then show ?thesis using 1 [OF False] False by (simp add: pad_zeros.simps [of m] z_def)
  qed
qed

lemma low_byte_nat: "(ucast (w AND 0xff :: 64 word) :: byte) = word_of_nat (unat w mod 256)"
proof -
  have "w AND 0xff = take_bit 8 w" by (simp add: take_bit_eq_mask mask_eq_exp_minus_1)
  moreover have "unat w mod 256 = take_bit 8 (unat w)" by (simp add: take_bit_eq_mod)
  ultimately show ?thesis by (simp add: bit_word_eqI bit_simps)
qed

lemma be_fixed_digits: "be_fixed k n = map (\<lambda>i. word_of_nat (n div 256 ^ i mod 256)) (rev [0..<k])"
proof (induction k arbitrary: n)
  case (Suc k)
  have "[0..<Suc k] = 0 # map Suc [0..<k]" by (simp add: map_Suc_upt upt_conv_Cons del: upt_Suc)
  then show ?case by (simp add: Suc rev_map div_mult2_eq del: upt_Suc)
qed simp

lemma length_bytes:
  "map (\<lambda>k. ucast (drop_bit k l AND 0xff) :: byte) [56, 48, 40, 32, 24, 16, 8, 0] = be_fixed 8 (unat (l :: 64 word))"
proof -
  have "unat (drop_bit k l) = unat l div 2 ^ k" for k by (simp only: unat_drop_bit_eq drop_bit_eq_div [where 'a = nat])
  then have "(ucast (drop_bit k l AND 0xff) :: byte) = word_of_nat (unat l div 2 ^ k mod 256)" for k by (simp only: low_byte_nat)
  then have "map (\<lambda>k. ucast (drop_bit k l AND 0xff) :: byte) [56, 48, 40, 32, 24, 16, 8, 0]
      = map (\<lambda>k. word_of_nat (unat l div 2 ^ k mod 256)) [56, 48, 40, 32, 24, 16, 8, 0]"
    by (simp only: list.map)
  also have "\<dots> = be_fixed 8 (unat l)"
  proof -
    have "rev [0..<8] = [7, 6, 5, 4, 3, 2, 1, 0 :: nat]" by code_simp
    then show ?thesis by (simp only: be_fixed_digits) simp
  qed
  finally show ?thesis .
qed

section \<open>The state of a hash\<close>

text \<open>What a hash holds after the message \<open>m\<close> was written to it.\<close>

definition absorbed :: "bytes \<Rightarrow> SM3 \<Rightarrow> bool" where
  "absorbed m sm3 \<longleftrightarrow>
     digest sm3 = fold refCF (blocks64 m) refIV \<and> unhandleMsg sm3 = drop (64 * (length m div 64)) m
       \<and> msgLength sm3 = word_of_nat (8 * length m)"

lemma absorbed_Reset: "absorbed [] (Sm3_Reset sm3)"
  by (simp add: absorbed_def Sm3_Reset_def blocks64_def refIV_def)

text \<open>A message is its whole blocks, which are in the digest, and a rest.\<close>

lemma blocks_of_absorbed:
  assumes "absorbed m sm3"
  obtains a where "m = a @ unhandleMsg sm3" "length a mod 64 = 0" "digest sm3 = fold refCF (blocks64 a) refIV"
proof -
  define k where "k = 64 * (length m div 64)"
  have u: "unhandleMsg sm3 = drop k m" using assms by (simp add: absorbed_def k_def)
  have "length (drop k m) < 64" by (simp add: k_def minus_mult_div_eq_mod)
  then have "blocks64 (take k m @ drop k m) = blocks64 (take k m)"
    by (subst blocks64_append) (simp_all add: k_def blocks64_Nil)
  then have "digest sm3 = fold refCF (blocks64 (take k m)) refIV" using assms by (simp add: absorbed_def)
  then show thesis by (rule that [of "take k m", rotated 2]) (simp_all add: u k_def)
qed

lemma absorbed_Write:
  assumes "absorbed m sm3"
  shows "absorbed (m @ p) (snd (Sm3_Write sm3 p))"
proof -
  obtain a where a: "m = a @ unhandleMsg sm3" "length a mod 64 = 0" "digest sm3 = fold refCF (blocks64 a) refIV"
    by (rule blocks_of_absorbed [OF assms])
  let ?msg = "unhandleMsg sm3 @ p"
  have mp: "m @ p = a @ ?msg" using a(1) by simp
  have "blocks64 (m @ p) = blocks64 a @ blocks64 ?msg" by (simp only: mp blocks64_append [OF a(2)])
  moreover have "drop (64 * (length (m @ p) div 64)) (m @ p) = drop (64 * (length ?msg div 64)) ?msg"
  proof -
    obtain k where k: "length a = 64 * k" using a(2) by auto
    have "64 * (length (a @ ?msg) div 64) = length a + 64 * (length ?msg div 64)" by (simp add: k)
    then show ?thesis by (simp only: mp) (simp del: length_append)
  qed
  moreover have "msgLength sm3 + word_of_nat (length p * 8) = word_of_nat (8 * length (m @ p))"
    using assms by (simp add: absorbed_def distrib_left mult.commute)
  ultimately show ?thesis
    by (simp add: absorbed_def Sm3_Write_def update_def Let_def sm3_BlockSize_def update_loop_ref a(3) mult.commute del: length_append)
qed

lemma absorbed_writes:
  "absorbed m sm3 \<Longrightarrow> absorbed (m @ concat ps) (fold (\<lambda>p s. snd (Sm3_Write s p)) ps sm3)"
proof (induction ps arbitrary: m sm3)
  case (Cons p ps)
  from Cons.IH [OF absorbed_Write [OF Cons.prems, of p]] show ?case by simp
qed simp

lemma absorbed_digest:
  assumes "absorbed m sm3"
  shows "map_option (\<lambda>msg. put_regs (update2 sm3 msg)) (pad sm3) = Some (refSM3 m)"
proof -
  obtain a where a: "m = a @ unhandleMsg sm3" "length a mod 64 = 0" "digest sm3 = fold refCF (blocks64 a) refIV"
    by (rule blocks_of_absorbed [OF assms])
  let ?u = "unhandleMsg sm3"
  define z where "z n = (if n \<le> 56 then 56 - n else 120 - n :: nat)" for n
  define tl where "tl = be_fixed 8 (8 * length m)"
  define msg where "msg = ?u @ 0x80 # replicate (z (Suc (length ?u) mod 64)) 0 @ tl"
  have l: "Suc (length m) mod 64 = Suc (length ?u) mod 64" using a(1,2) by (metis add_Suc_right length_append mod_add_left_eq add_0)
  have "be_fixed 8 (unat (msgLength sm3)) = tl"
  proof -
    have "unat (msgLength sm3) = 8 * length m mod 2 ^ 64"
      using assms unat_of_nat [of "8 * length m", where 'a = 64] by (simp only: absorbed_def) simp
    then show ?thesis unfolding tl_def by (intro be_fixed_low) simp
  qed
  then have p: "pad sm3 = (if length msg mod 64 \<noteq> 0 then None else Some msg)"
    by (simp only: pad_def pad_zeros_ref length_bytes Let_def msg_def z_def) (simp add: z_def)
  have "length msg mod 64 = 0"
  proof -
    have "length msg = Suc (length ?u) + z (Suc (length ?u) mod 64) + 8" by (simp add: msg_def tl_def)
    moreover have "(n + z (n mod 64) + 8) mod 64 = 0" for n
    proof -
      have "(n mod 64 + z (n mod 64) + 8) mod 64 = 0" by (simp add: z_def)
      then show ?thesis by (metis mod_add_left_eq)
    qed
    ultimately show ?thesis by (simp only:)
  qed
  with p have "pad sm3 = Some msg" by simp
  moreover have "refPad m = a @ msg"
    using a(1) l by (simp add: refPad_def Let_def msg_def z_def tl_def)
  moreover have "update2 sm3 msg = fold refCF (blocks64 (a @ msg)) refIV"
    by (simp add: update2_def update_loop_ref a(3) blocks64_append [OF a(2)])
  ultimately show ?thesis by (simp add: refSM3_def)
qed

end
