(* ===== verification/Sm3Props.thy ===== *)
theory Sm3Props
  imports Sm3Laws
begin

text \<open>The properties of \<open>crypto/gmsm/sm3\<close>.\<close>

lemma Write_empty: "absorbed m sm3 \<Longrightarrow> snd (Sm3_Write sm3 []) = sm3"
  by (simp add: Sm3_Write_def update_def Let_def sm3_BlockSize_def update_loop.simps absorbed_def minus_mult_div_eq_mod)

lemma Sum_absorbed:
  assumes "absorbed m sm3"
  shows "fst (Sm3_Sum sm3 ins) = Some (refSM3 (m @ ins))" "absorbed (m @ ins) (snd (Sm3_Sum sm3 ins))"
  using absorbed_digest [OF absorbed_Write [OF assms, of ins]] absorbed_Write [OF assms, of ins]
  by (simp_all add: Sm3_Sum_def Let_def)

text \<open>C19. SM3 is the standard's hash of everything written, however it was cut into writes: after a reset and any sequence
  of writes, \<open>Sum\<close> returns the standard's digest of the concatenation of the writes and of its own argument, without
  a panic. An empty argument leaves the state as it was; any other stays in the state and is part of the digest that
  the next call returns. \<open>Sm3Sum\<close> is the digest of its argument.\<close>

theorem sm3_standard:
  "(let sm3 = fold (\<lambda>p s. snd (Sm3_Write s p)) ps (Sm3_Reset s0)
    in fst (Sm3_Sum sm3 ins) = Some (refSM3 (concat ps @ ins)) \<and> snd (Sm3_Sum sm3 []) = sm3
       \<and> fst (Sm3_Sum (snd (Sm3_Sum sm3 ins)) []) = Some (refSM3 (concat ps @ ins)))
   \<and> Sm3Sum data = Some (refSM3 data)"
proof -
  define sm3 where "sm3 = fold (\<lambda>p s. snd (Sm3_Write s p)) ps (Sm3_Reset s0)"
  have "absorbed ([] @ concat ps) sm3" unfolding sm3_def by (rule absorbed_writes [OF absorbed_Reset])
  then have a: "absorbed (concat ps) sm3" by simp
  have d: "absorbed ([] @ data) (snd (Sm3_Write (Sm3_Reset zeroSM3) data))" by (rule absorbed_Write [OF absorbed_Reset])
  have "snd (Sm3_Sum sm3 []) = sm3" using Write_empty [OF a] by (simp add: Sm3_Sum_def Let_def)
  with Sum_absorbed [OF a, of ins] Sum_absorbed(1) [OF Sum_absorbed(2) [OF a, of ins], of "[]"] Sum_absorbed(1) [OF d, of "[]"]
  show ?thesis by (simp add: Sm3Sum_def sm3_def [symmetric] Let_def)
qed

end
