(* ===== verification/Sm4Laws.thy ===== *)
theory Sm4Laws
  imports Sm4
begin

text \<open>The block cipher is a permutation for every key, and the four modes undo themselves.\<close>

section \<open>Blocks\<close>

lemma permute_final_initial: "permuteInitialBlock (permuteFinalBlock q) = Some q"
  by (cases q) (simp add: permuteInitialBlock_def permuteFinalBlock_def word_bytes_def word_at_def word_of_bytes)

lemma length_permuteFinalBlock [simp]: "length (permuteFinalBlock q) = 16"
  by (simp add: permuteFinalBlock_def word_bytes_def split: prod.splits)

lemma permute_initial_final:
  assumes "length b = 16" "permuteInitialBlock b = Some q"
  shows "permuteFinalBlock q = b"
proof -
  have "b = map ((!) b) [0..<16]" using map_nth [of b] assms(1) by simp
  also have "[0..<16] = [0, 1, 2, 3, 4, 5, 6, 7, 8, 9, 10, 11, 12, 13, 14, 15 :: nat]" by code_simp
  also have "map ((!) b) \<dots> = permuteFinalBlock q"
    using assms by (auto simp: permuteInitialBlock_def permuteFinalBlock_def word_bytes_at numeral_2_eq_2)
  finally show ?thesis ..
qed

section \<open>One block\<close>

lemma xor_undo: "(a XOR x) XOR x = a" for a x :: u32
  by (simp add: xor.assoc)

lemma xor_undo_eq: "c = a XOR tables x \<Longrightarrow> y = x \<Longrightarrow> c XOR tables y = a"
  by (simp add: xor_undo)

lemma rounds4_inverse: "rounds4 s3 s2 s1 s0 (swapBlock (rounds4 s0 s1 s2 s3 b)) = swapBlock b"
proof -
  obtain b0 b1 b2 b3 where b: "b = (b0, b1, b2, b3)" by (metis prod_cases4)
  define c0 where "c0 = b0 XOR tables (b1 XOR b2 XOR b3 XOR s0)"
  define c1 where "c1 = b1 XOR tables (c0 XOR b2 XOR b3 XOR s1)"
  define c2 where "c2 = b2 XOR tables (c0 XOR c1 XOR b3 XOR s2)"
  define c3 where "c3 = b3 XOR tables (c1 XOR c2 XOR c0 XOR s3)"
  have e: "rounds4 s0 s1 s2 s3 b = (c0, c1, c2, c3)" by (simp add: rounds4_def b Let_def c0_def c1_def c2_def c3_def)
  have f3: "c3 XOR tables (c2 XOR c1 XOR c0 XOR s3) = b3"
    by (rule xor_undo_eq [OF c3_def]) (simp only: ac_simps)
  have f2: "c2 XOR tables (b3 XOR c1 XOR c0 XOR s2) = b2"
    by (rule xor_undo_eq [OF c2_def]) (simp only: ac_simps)
  have f1: "c1 XOR tables (b3 XOR b2 XOR c0 XOR s1) = b1"
    by (rule xor_undo_eq [OF c1_def]) (simp only: ac_simps)
  have f0: "c0 XOR tables (b2 XOR b1 XOR b3 XOR s0) = b0"
    by (rule xor_undo_eq [OF c0_def]) (simp only: ac_simps)
  have "rounds4 s3 s2 s1 s0 (c3, c2, c1, c0) = (b3, b2, b1, b0)"
    by (simp only: rounds4_def prod.case Let_def f3 f2 f1 f0)
  then show ?thesis by (subst e) (simp only: swapBlock_def prod.case b)
qed

lemma swapBlock_swap [simp]: "swapBlock (swapBlock b) = b"
  by (simp add: swapBlock_def split: prod.splits)

lemma decrypt_encrypt_pass: "i < 8 \<Longrightarrow> decryptPass ks (7 - i) (swapBlock (encryptPass ks i b)) = swapBlock b"
proof -
  assume "i < 8"
  then have "31 - 4 * (7 - i) - 3 = 4 * i" by simp
  then show ?thesis by (simp only: decryptPass_def encryptPass_def Let_def rounds4_inverse)
qed

lemma passes_inverse:
  "fold (decryptPass ks) [0..<8] (swapBlock (fold (encryptPass ks) [0..<8] b)) = swapBlock b"
proof -
  have "[0..<8] = [0, 1, 2, 3, 4, 5, 6, 7 :: nat]" by (simp add: upt_rec)
  then show ?thesis
    using decrypt_encrypt_pass [of 0] decrypt_encrypt_pass [of 1] decrypt_encrypt_pass [of 2] decrypt_encrypt_pass [of 3]
      decrypt_encrypt_pass [of 4] decrypt_encrypt_pass [of 5] decrypt_encrypt_pass [of 6] decrypt_encrypt_pass [of 7]
    by simp
qed

lemma cryptBlock_ok:
  assumes "length src = 16"
  obtains dst where "cryptBlock ks src False = Some dst" "length dst = 16" "cryptBlock ks dst True = Some src"
proof -
  obtain b where b: "permuteInitialBlock src = Some b" using assms by (simp add: permuteInitialBlock_def)
  define c where "c = swapBlock (fold (encryptPass ks) [0..<8] b)"
  have "cryptBlock ks src False = Some (permuteFinalBlock c)" by (simp add: cryptBlock_def b c_def)
  moreover have "cryptBlock ks (permuteFinalBlock c) True = Some (permuteFinalBlock b)"
    by (simp only: cryptBlock_def permute_final_initial option.case Let_def if_True c_def passes_inverse swapBlock_swap)
  ultimately show thesis using that permute_initial_final [OF assms b] by simp
qed


lemma length_zeroBlock [simp]: "length zeroBlock = 16"
  by (simp add: zeroBlock_def BlockSize_def)

lemma Sm4_block:
  assumes "length src = 16"
  obtains dst where "Sm4_Encrypt ks zeroBlock src = Some dst" "length dst = 16" "Sm4_Decrypt ks zeroBlock dst = Some src"
proof -
  obtain dst where d: "cryptBlock ks src False = Some dst" "length dst = 16" "cryptBlock ks dst True = Some src"
    using cryptBlock_ok [OF assms] by blast
  have "copy_at 0 b zeroBlock = b" if "length b = 16" for b using that by (simp add: copy_at_def)
  with that d assms show thesis by (simp add: Sm4_Encrypt_def Sm4_Decrypt_def)
qed

section \<open>The modes\<close>

lemma length_xor_bytes: "length a = length b \<Longrightarrow> length (xor_bytes a b) = length b"
  by (simp add: xor_bytes_def)

lemma xor_bytes_cancel:
  "length a = length b \<Longrightarrow> xor_bytes (xor_bytes a b) b = a" "length a = length b \<Longrightarrow> xor_bytes a (xor_bytes a b) = b"
  by (auto simp: xor_bytes_def ac_simps intro!: nth_equalityI)

lemma first_block:
  assumes "length ins = 16 * Suc n"
  shows "length (take 16 ins) = 16" "length (drop 16 ins) = 16 * n" "take 16 ins @ drop 16 ins = ins"
  using assms by simp_all

lemma cbc_inverse:
  assumes "length ins = 16 * n" "length iv = 16"
  shows "\<exists>out. cbc_encrypt ks iv n ins = Some out \<and> length out = 16 * n \<and> cbc_decrypt ks iv n out = Some ins"
  using assms
proof (induction n arbitrary: iv ins)
  case (Suc n)
  note f = first_block [OF Suc.prems(1)]
  have x: "length (xor_bytes (take 16 ins) iv) = 16" using f Suc.prems(2) by (simp add: length_xor_bytes)
  obtain o1 where o1: "Sm4_Encrypt ks zeroBlock (xor_bytes (take 16 ins) iv) = Some o1" "length o1 = 16"
    "Sm4_Decrypt ks zeroBlock o1 = Some (xor_bytes (take 16 ins) iv)"
    using Sm4_block [OF x] by blast
  obtain o2 where o2: "cbc_encrypt ks o1 n (drop 16 ins) = Some o2" "length o2 = 16 * n" "cbc_decrypt ks o1 n o2 = Some (drop 16 ins)"
    using Suc.IH [OF f(2) o1(2)] by blast
  show ?case using o1 o2 f Suc.prems(2) by (simp add: xor_bytes_cancel)
qed simp

lemma ecb_inverse:
  assumes "length ins = 16 * n"
  shows "\<exists>out. ecb_loop (Sm4_Encrypt ks zeroBlock) n ins = Some out \<and> length out = 16 * n
     \<and> ecb_loop (Sm4_Decrypt ks zeroBlock) n out = Some ins"
  using assms
proof (induction n arbitrary: ins)
  case (Suc n)
  note f = first_block [OF Suc.prems]
  obtain o1 where o1: "Sm4_Encrypt ks zeroBlock (take 16 ins) = Some o1" "length o1 = 16" "Sm4_Decrypt ks zeroBlock o1 = Some (take 16 ins)"
    using Sm4_block [OF f(1)] by blast
  obtain o2 where "ecb_loop (Sm4_Encrypt ks zeroBlock) n (drop 16 ins) = Some o2" "length o2 = 16 * n"
    "ecb_loop (Sm4_Decrypt ks zeroBlock) n o2 = Some (drop 16 ins)"
    using Suc.IH [OF f(2)] by blast
  with o1 f show ?case by simp
qed simp

lemma cfb_inverse:
  assumes "length ins = 16 * n" "length prev = 16"
  shows "\<exists>out. cfb_loop True ks prev n ins = Some out \<and> length out = 16 * n \<and> cfb_loop False ks prev n out = Some ins"
  using assms
proof (induction n arbitrary: prev ins)
  case (Suc n)
  note f = first_block [OF Suc.prems(1)]
  obtain K where K: "Sm4_Encrypt ks zeroBlock prev = Some K" "length K = 16" using Sm4_block [OF Suc.prems(2)] by blast
  define b where "b = xor_bytes K (take 16 ins)"
  have b: "length b = 16" "xor_bytes K b = take 16 ins" using K(2) f(1) by (simp_all add: b_def length_xor_bytes xor_bytes_cancel)
  obtain o2 where "cfb_loop True ks b n (drop 16 ins) = Some o2" "length o2 = 16 * n" "cfb_loop False ks b n o2 = Some (drop 16 ins)"
    using Suc.IH [OF f(2) b(1)] by blast
  with K b f show ?case by (simp add: b_def Let_def)
qed simp

lemma ofb_inverse:
  assumes "length ins = 16 * n" "length iv = 16"
  shows "\<exists>out. ofb_loop ks iv n ins = Some out \<and> length out = 16 * n \<and> ofb_loop ks iv n out = Some ins"
  using assms
proof (induction n arbitrary: iv ins)
  case (Suc n)
  note f = first_block [OF Suc.prems(1)]
  obtain K where K: "Sm4_Encrypt ks zeroBlock iv = Some K" "length K = 16" using Sm4_block [OF Suc.prems(2)] by blast
  define b where "b = xor_bytes K (take 16 ins)"
  have b: "length b = 16" "xor_bytes K b = take 16 ins" using K(2) f(1) by (simp_all add: b_def length_xor_bytes xor_bytes_cancel)
  obtain o2 where "ofb_loop ks K n (drop 16 ins) = Some o2" "length o2 = 16 * n" "ofb_loop ks K n o2 = Some (drop 16 ins)"
    using Suc.IH [OF f(2) K(2)] by blast
  with K b f show ?case by (simp add: b_def)
qed simp

section \<open>Padding and keys\<close>

lemma padding_length: "length (pkcs7Padding ins) = 16 * (length (pkcs7Padding ins) div 16)"
proof -
  have "length (pkcs7Padding ins) = length ins + (16 - length ins mod 16)" by (simp add: pkcs7Padding_def BlockSize_def Let_def)
  then show ?thesis by presburger
qed

lemma unpad_padding: "unpad (Some (pkcs7Padding ins)) = Inr ins"
proof -
  define k where "k = 16 - length ins mod 16"
  have k: "0 < k" "k \<le> 16" by (simp_all add: k_def)
  then have u: "unat (word_of_nat k :: byte) = k" by (simp add: unsigned_of_nat take_bit_nat_eq_self)
  have p: "pkcs7Padding ins = ins @ replicate k (word_of_nat k)" by (simp add: pkcs7Padding_def BlockSize_def Let_def k_def)
  have "last (pkcs7Padding ins) = word_of_nat k" using k by (simp add: p)
  then have "pkcs7UnPadding (pkcs7Padding ins) = Inr ins"
    using k u by (simp add: pkcs7UnPadding_def p BlockSize_def Let_def list_ex_iff)
  then show ?thesis by (simp add: unpad_def)
qed

lemma NewCipher_ok: "length key = 16 \<Longrightarrow> \<exists>c. NewCipher key = Inr c"
  by (auto simp: NewCipher_def BlockSize_def generateSubKeys_def permuteInitialBlock_def)

end
