(* ===== verification/Sm4Ref.thy ===== *)
theory Sm4Ref
  imports Sm4Laws
begin

text \<open>
  The cipher of the standard, a substitution followed by a linear map in each of 32 rounds, and the proof that the
  four tables and the rounds unrolled four at a time compute it.
\<close>

section \<open>The tables\<close>

text \<open>The linear map of the standard, which the four tables combine with the substitution.\<close>

definition linear :: "u32 \<Rightarrow> u32" where
  "linear b = b XOR rl b 2 XOR rl b 10 XOR rl b 18 XOR rl b 24"

lemma rl_xor: "rl (a XOR b) i = rl a i XOR rl b i"
  unfolding rl_def by (rule bit_word_eqI) (auto simp: bit_simps dest: bit_imp_le_length)

lemma linear_xor: "linear (a XOR b) = linear a XOR linear b"
  by (simp add: linear_def rl_xor ac_simps)


lemma table0: "map (\<lambda>b. linear (ucast b)) sbox = sbox0"
  by (simp add: sbox_def sbox0_def linear_def rl_def)

lemma table1: "map (\<lambda>b. linear (push_bit 8 (ucast b))) sbox = sbox1"
  by (simp add: sbox_def sbox1_def linear_def rl_def)

lemma table2: "map (\<lambda>b. linear (push_bit 16 (ucast b))) sbox = sbox2"
  by (simp add: sbox_def sbox2_def linear_def rl_def)

lemma table3: "map (\<lambda>b. linear (push_bit 24 (ucast b))) sbox = sbox3"
  by (simp add: sbox_def sbox3_def linear_def rl_def)

lemma length_sbox: "length sbox = 256"
  by (simp add: sbox_def)

lemma byte_index: "unat (y AND 0xff :: u32) < 256"
proof -
  have "y AND 0xff = take_bit 8 y" by (simp add: take_bit_eq_mask mask_eq_exp_minus_1)
  then show ?thesis using take_bit_nat_less_exp [of 8 "unat y"] by (simp add: unsigned_take_bit_eq)
qed

lemma tables_linear: "tables x = linear (tau x)"
proof -
  have t: "linear (f (ucast (sbox ! i))) = map (\<lambda>b. linear (f (ucast b))) sbox ! i" if "i < 256" for f i
    using that length_sbox by simp
  have "drop_bit 24 x AND 0xff = take_bit 8 (drop_bit 24 x)" by (simp add: take_bit_eq_mask mask_eq_exp_minus_1)
  also have "\<dots> = drop_bit 24 x" by (rule bit_word_eqI) (auto simp: bit_simps dest: bit_imp_le_length)
  finally have top: "drop_bit 24 x AND 0xff = drop_bit 24 x" .
  note i = byte_index [of x] byte_index [of "drop_bit 8 x"] byte_index [of "drop_bit 16 x"] byte_index [of "drop_bit 24 x"]
  have "tables x = linear (sub_at (x AND 0xff)) XOR linear (push_bit 8 (sub_at (drop_bit 8 x AND 0xff)))
      XOR linear (push_bit 16 (sub_at (drop_bit 16 x AND 0xff))) XOR linear (push_bit 24 (sub_at (drop_bit 24 x AND 0xff)))"
    unfolding tables_def sub_at_def
    by (simp only: table0 [symmetric] table1 [symmetric] table2 [symmetric] table3 [symmetric] nth_map length_sbox i)
  also have "\<dots> = linear (tau x)" by (simp only: top tau_def linear_xor ac_simps)
  finally show ?thesis .
qed

section \<open>The cipher of the standard\<close>

text \<open>One round of the standard, and the 32 rounds with the words in reverse order at the end.\<close>

fun refRound :: "u32 \<Rightarrow> quad \<Rightarrow> quad" where
  "refRound k (x0, x1, x2, x3) = (x1, x2, x3, x0 XOR linear (tau (x1 XOR x2 XOR x3 XOR k)))"

definition refBlock :: "u32 list \<Rightarrow> bytes \<Rightarrow> bytes option" where
  "refBlock ks src = map_option (\<lambda>b. permuteFinalBlock (swapBlock (fold refRound ks b))) (permuteInitialBlock src)"

lemma rounds4_ref: "rounds4 s0 s1 s2 s3 b = fold refRound [s0, s1, s2, s3] b"
proof -
  obtain b0 b1 b2 b3 where b: "b = (b0, b1, b2, b3)" by (metis prod_cases4)
  show ?thesis by (simp add: b rounds4_def Let_def tables_linear ac_simps)
qed

lemma list32:
  assumes "length ks = 32"
  shows "ks = concat (map (\<lambda>i. [ks ! (4 * i), ks ! (4 * i + 1), ks ! (4 * i + 2), ks ! (4 * i + 3)]) [0..<8])"
proof -
  have "ks = map ((!) ks) [0..<32]" using map_nth [of ks] assms by simp
  also have "[0..<32] = concat (map (\<lambda>i. [4 * i, 4 * i + 1, 4 * i + 2, 4 * i + 3]) [0..<8])" by code_simp
  finally show ?thesis by (simp only: map_concat map_map o_def list.map)
qed

lemma fold_concat_map: "fold (\<lambda>i. fold f (g i)) xs = fold f (concat (map g xs))"
  by (induction xs) simp_all

lemma encrypt_ref:
  assumes "length ks = 32"
  shows "fold (encryptPass ks) [0..<8] = fold refRound ks"
proof -
  have "encryptPass ks = (\<lambda>i. fold refRound [ks ! (4 * i), ks ! (4 * i + 1), ks ! (4 * i + 2), ks ! (4 * i + 3)])"
    by (intro ext) (simp only: encryptPass_def rounds4_ref)
  then show ?thesis by (simp only: fold_concat_map list32 [OF assms, symmetric])
qed

lemma decrypt_ref:
  assumes "length ks = 32"
  shows "fold (decryptPass ks) [0..<8] = fold refRound (rev ks)"
proof -
  have e: "decryptPass ks i = encryptPass (rev ks) i" if "i \<in> set [0..<8]" for i
  proof (rule ext)
    fix b
    have "rev ks ! (4 * i + j) = ks ! (31 - 4 * i - j)" if "j < 4" for j
      using that \<open>i \<in> set [0..<8]\<close> assms by (simp add: rev_nth)
    note r = this [of 0] this [of 1] this [of 2] this [of 3]
    have "31 - 4 * i - 3 = 28 - 4 * i" "28 - 4 * i + 3 = 31 - 4 * i" "28 - 4 * i + 2 = 30 - 4 * i" "28 - 4 * i + 1 = 29 - 4 * i"
      using \<open>i \<in> set [0..<8]\<close> by auto
    with r show "decryptPass ks i b = encryptPass (rev ks) i b"
      by (simp del: add_Suc_right add_2_eq_Suc' One_nat_def add: decryptPass_def encryptPass_def Let_def)
  qed
  have "fold (decryptPass ks) [0..<8] = fold (encryptPass (rev ks)) [0..<8]"
    by (rule ext) (rule fold_cong [OF refl refl e])
  then show ?thesis using encrypt_ref [of "rev ks"] assms by simp
qed

lemma cryptBlock_ref:
  assumes "length ks = 32"
  shows "cryptBlock ks src decrypt = refBlock (if decrypt then rev ks else ks) src"
  by (simp add: cryptBlock_def refBlock_def encrypt_ref [OF assms] decrypt_ref [OF assms] Let_def
      split: option.splits if_splits)

end
