(* ===== verification/Sm4Props.thy ===== *)
theory Sm4Props
  imports Sm4Ref
begin

text \<open>The properties of \<open>crypto/gmsm/sm4\<close>.\<close>

lemma mode_inverse:
  assumes "length key = 16" "M \<in> {Sm4Cbc, Sm4Ecb, Sm4CFB, Sm4OFB}"
  shows "\<exists>out. M key ins True = Inr out \<and> length out = 16 * (length ins div 16 + 1) \<and> M key out False = Inr ins"
proof -
  obtain c where c: "NewCipher key = Inr c" using NewCipher_ok [OF assms(1)] by blast
  define n where "n = length (pkcs7Padding ins) div 16"
  have p: "length (pkcs7Padding ins) = 16 * n" using padding_length [of ins] by (simp add: n_def)
  have n: "n = length ins div 16 + 1"
  proof -
    have "n = (length ins + (16 - length ins mod 16)) div 16" by (simp add: n_def pkcs7Padding_def BlockSize_def Let_def)
    then show ?thesis by presburger
  qed
  consider "M = Sm4Cbc" | "M = Sm4Ecb" | "M = Sm4CFB" | "M = Sm4OFB" using assms(2) by blast
  then show ?thesis
  proof cases
    case 1
    show ?thesis using cbc_inverse [OF p length_zeroBlock, of c] unpad_padding [of ins] p n
      by (auto simp: 1 Sm4Cbc_def c Let_def orPanic_def)
  next
    case 2
    show ?thesis using ecb_inverse [OF p, of c] unpad_padding [of ins] p n
      by (auto simp: 2 Sm4Ecb_def c Let_def orPanic_def)
  next
    case 3
    show ?thesis using cfb_inverse [OF p length_zeroBlock, of c] unpad_padding [of ins] p n
      by (auto simp: 3 Sm4CFB_def c Let_def orPanic_def)
  next
    case 4
    show ?thesis using ofb_inverse [OF p length_zeroBlock, of c] unpad_padding [of ins] p n
      by (auto simp: 4 Sm4OFB_def c Let_def orPanic_def)
  qed
qed

lemma mode_bad_key:
  assumes "length key \<noteq> 16" "M \<in> {Sm4Cbc, Sm4Ecb, Sm4CFB, Sm4OFB}"
  shows "M key ins mode = Inl (InvalidKeySize (length key))"
  using assms by (auto simp: NewCipher_def BlockSize_def Sm4Cbc_def Sm4Ecb_def Sm4CFB_def Sm4OFB_def)

text \<open>C20. The four modes of SM4 decrypt what they encrypt: for every key of 16 bytes and every input, the empty one and
  whole blocks included, encryption succeeds with at least one and at most 16 bytes of padding, and decryption
  returns the input. A key of any other length is an error in both directions.\<close>

theorem sm4_modes_roundtrip:
  assumes "M \<in> {Sm4Cbc, Sm4Ecb, Sm4CFB, Sm4OFB}"
  shows "if length key = 16
     then \<exists>out. M key ins True = Inr out \<and> length out = 16 * (length ins div 16 + 1) \<and> M key out False = Inr ins
     else \<forall>mode. M key ins mode = Inl (InvalidKeySize (length key))"
  using mode_inverse [OF _ assms] mode_bad_key [OF _ assms] by simp

lemma sm4_modes_roundtrip_witness:
  "\<exists>out. Sm4CFB (replicate 16 7) [1, 2, 3] True = Inr out \<and> length out = 16 \<and> Sm4CFB (replicate 16 7) out False = Inr [1, 2, 3]"
  using sm4_modes_roundtrip [of Sm4CFB "replicate 16 7" "[1, 2, 3]"] by simp

lemma length_subKeys_loop: "length (subKeys_loop cs b) = length cs"
  by (induction cs b rule: subKeys_loop.induct) (simp_all add: Let_def)

lemma length_ck: "length ck = 32"
  by (simp add: ck_def)

lemma NewCipher_length: "NewCipher key = Inr ks \<Longrightarrow> length ks = 32"
  by (auto simp: NewCipher_def generateSubKeys_def length_subKeys_loop length_ck split: if_splits option.splits)

text \<open>C21. The optimised SM4 is the standard's: the four tables, and the rounds unrolled four at a time with the round
  keys of a pass read from a slice, compute the 32 rounds of substitution and linear map in the order of the round
  keys, and in the reverse order for decryption.\<close>

theorem sm4_standard:
  assumes "NewCipher key = Inr ks"
  shows "cryptBlock ks src decrypt = refBlock (if decrypt then rev ks else ks) src"
  by (rule cryptBlock_ref [OF NewCipher_length [OF assms]])

lemma sm4_standard_witness:
  "\<exists>ks. NewCipher (replicate 16 0) = Inr ks \<and> cryptBlock ks (replicate 16 1) True = refBlock (rev ks) (replicate 16 1)"
proof -
  obtain ks where "NewCipher (replicate 16 0) = Inr ks" using NewCipher_ok [of "replicate 16 0"] by auto
  then show ?thesis using sm4_standard [of "replicate 16 0" ks "replicate 16 1" True] by simp
qed

end
