(* ===== verification/Sm4Gcm.thy ===== *)
theory Sm4Gcm
  imports Sm4
begin

text \<open>
  The counter mode with authentication of \<open>crypto/gmsm/sm4/sm4_gcm.go\<close>. A panic, here a slice out of range or the
  error of \<open>NewCipher\<close>, is \<open>None\<close>. The array \<open>X\<close> of \<open>GHASH\<close> holds every value of the hash, of which the code reads the last.
\<close>

section \<open>Multiplication\<close>

definition addition :: "bytes \<Rightarrow> bytes \<Rightarrow> bytes" where
  "addition a b = (if length a \<noteq> length b then [] else map2 (XOR) a b)"

text \<open>The loop of \<open>Rightshift\<close> goes down from the last byte.\<close>

fun Rightshift_loop :: "nat \<Rightarrow> bytes \<Rightarrow> bytes" where
  "Rightshift_loop 0 V = V"
| "Rightshift_loop (Suc i) V =
     (let V = V[i := drop_bit 1 (V ! i)];
          V = (if i \<noteq> 0 then V[i := push_bit 7 (V ! (i - 1) AND 0x01) OR V ! i] else V)
      in Rightshift_loop i V)"

definition Rightshift :: "bytes \<Rightarrow> bytes" where
  "Rightshift V = Rightshift_loop (length V) V"

definition findYi :: "bytes \<Rightarrow> nat \<Rightarrow> bool" where
  "findYi Y index = (drop_bit (7 - index mod 8) (Y ! (index div 8)) AND 0x01 = 1)"

definition multiplication_step :: "bytes \<Rightarrow> nat \<Rightarrow> bytes \<times> bytes \<Rightarrow> bytes \<times> bytes" where
  "multiplication_step Y i ZV =
     (case ZV of (Z, V) \<Rightarrow>
        let R = 0xe1 # replicate (BlockSize - 1) 0;
            Z = (if findYi Y i then addition Z V else Z)
        in if V ! (BlockSize - 1) AND 0x01 = 0 then (Z, Rightshift V) else (Z, addition (Rightshift V) R))"

definition multiplication :: "bytes \<Rightarrow> bytes \<Rightarrow> bytes" where
  "multiplication X Y =
     fst (fold (multiplication_step Y) [0..<128] (replicate BlockSize 0, copy_at 0 X (replicate BlockSize 0)))"

section \<open>The hash\<close>

definition calculm_v :: "nat \<Rightarrow> nat \<Rightarrow> nat \<times> nat" where
  "calculm_v m v =
     (if m = 0 \<and> v \<noteq> 0 then (1, v * 8)
      else if m \<noteq> 0 \<and> v = 0 then (m, BlockSize * 8)
      else if m \<noteq> 0 \<and> v \<noteq> 0 then (m + 1, v * 8)
      else (1, 0))"

definition block_of :: "bytes \<Rightarrow> nat \<Rightarrow> bytes" where
  "block_of D i = take BlockSize (drop (i * BlockSize) D)"

text \<open>The \<open>m\<close> blocks of \<open>A\<close> or \<open>C\<close>, the last one with \<open>v\<close> bits and filled up with zeros.\<close>

definition hash_blocks :: "bytes \<Rightarrow> bytes \<Rightarrow> bytes \<Rightarrow> bytes" where
  "hash_blocks H D X0 =
     (let (m, v) = calculm_v (length D div BlockSize) (length D mod BlockSize);
          X = fold (\<lambda>i X. multiplication (addition X (block_of D (i - 1))) H) [1..<m] X0;
          Dm = copy_at 0 (drop ((m - 1) * BlockSize) D) (replicate (v div 8) 0) @ replicate ((128 - v) div 8) 0
      in multiplication (addition X Dm) H)"

definition calculateLenToBytes :: "nat \<Rightarrow> bytes" where
  "calculateLenToBytes l = map (\<lambda>k. ucast (drop_bit k (word_of_nat l :: 64 word) AND 0xff)) [56, 48, 40, 32, 24, 16, 8, 0]"

definition GHASH :: "bytes \<Rightarrow> bytes \<Rightarrow> bytes \<Rightarrow> bytes" where
  "GHASH H A C =
     (let X = hash_blocks H C (hash_blocks H A (replicate BlockSize 0));
          lenAB = calculateLenToBytes (length A) @ calculateLenToBytes (length C)
      in multiplication (addition X lenAB) H)"

section \<open>The counter\<close>

definition GetH :: "bytes \<Rightarrow> bytes option" where
  "GetH key = (case NewCipher key of Inl e \<Rightarrow> None | Inr c \<Rightarrow> Sm4_Encrypt c (replicate BlockSize 0) (replicate BlockSize 0))"

definition GetY0 :: "bytes \<Rightarrow> bytes \<Rightarrow> bytes" where
  "GetY0 H IV = (if length IV * 8 = 96 then IV @ [0x00, 0x00, 0x00, 0x01] else GHASH H [] IV)"

text \<open>\<open>addYone\<close> on the bytes from the last to the first; sums of bytes wrap around.\<close>

fun carry_up :: "byte \<Rightarrow> bytes \<Rightarrow> bytes" where
  "carry_up rc [] = []"
| "carry_up rc (b # bs) = (if b + rc < 0xff then (b + rc) # carry_up 0x00 bs else 0x00 # carry_up 0x01 bs)"

definition addYone :: "bytes \<Rightarrow> bytes" where
  "addYone yi =
     (case rev yi of
        [] \<Rightarrow> []
      | b # bs \<Rightarrow> rev (if b < 0xff then (b + 0x01) # carry_up 0x00 bs else 0x00 # carry_up 0x01 bs))"

fun incr_blocks :: "nat \<Rightarrow> bytes \<Rightarrow> bytes" where
  "incr_blocks 0 y = []"
| "incr_blocks (Suc n) y = y @ incr_blocks n (addYone y)"

definition incr :: "nat \<Rightarrow> bytes \<Rightarrow> bytes" where
  "incr n Y_i = incr_blocks n (copy_at 0 Y_i (replicate BlockSize 0))"

definition MSB :: "nat \<Rightarrow> bytes \<Rightarrow> bytes option" where
  "MSB l S = (if l div 8 \<le> length S then Some (take (l div 8) S) else None)"

section \<open>Encryption and decryption\<close>

definition key_block :: "u32 list \<Rightarrow> bytes \<Rightarrow> nat \<Rightarrow> bytes option" where
  "key_block c Y i = Sm4_Encrypt c (replicate BlockSize 0) (block_of Y i)"

text \<open>A loop over the numbers of blocks: the results one after the other.\<close>

fun ctr_loop :: "u32 list \<Rightarrow> bytes \<Rightarrow> bytes \<Rightarrow> nat list \<Rightarrow> bytes option" where
  "ctr_loop c Y D [] = Some []"
| "ctr_loop c Y D (i # is) =
     (case key_block c Y i of
        None \<Rightarrow> None
      | Some Enc \<Rightarrow> map_option ((@) (addition (block_of D (i - 1)) Enc)) (ctr_loop c Y D is))"

definition ctr_last :: "u32 list \<Rightarrow> bytes \<Rightarrow> bytes \<Rightarrow> nat \<Rightarrow> nat \<Rightarrow> bytes option" where
  "ctr_last c Y D n u =
     (case key_block c Y n of
        None \<Rightarrow> None
      | Some Enc \<Rightarrow> map_option (addition (drop ((n - 1) * BlockSize) D)) (MSB u Enc))"

definition tag_of :: "u32 list \<Rightarrow> bytes \<Rightarrow> bytes \<Rightarrow> bytes \<Rightarrow> bytes \<Rightarrow> bytes option" where
  "tag_of c Y0 H A C =
     (case Sm4_Encrypt c (replicate BlockSize 0) Y0 of None \<Rightarrow> None | Some Enc \<Rightarrow> MSB 128 (addition Enc (GHASH H A C)))"

definition GCMEncrypt :: "bytes \<Rightarrow> bytes \<Rightarrow> bytes \<Rightarrow> bytes \<Rightarrow> (bytes \<times> bytes) option" where
  "GCMEncrypt K IV P A =
     (let (n, u) = calculm_v (length P div BlockSize) (length P mod BlockSize) in
      case (GetH K, NewCipher K) of
        (Some H, Inr c) \<Rightarrow>
          (let Y0 = GetY0 H IV; Y = incr (n + 1) Y0 in
           case (ctr_loop c Y P [1..<n], ctr_last c Y P n u) of
             (Some C1, Some Cn) \<Rightarrow> map_option (Pair (C1 @ Cn)) (tag_of c Y0 H A (C1 @ Cn))
           | _ \<Rightarrow> None)
      | _ \<Rightarrow> None)"

text \<open>The loop of \<open>GCMDecrypt\<close> includes the last block, so it slices \<open>P\<close>, which has the length of \<open>C\<close> and no more
  capacity, in whole blocks; then the last block is written again.\<close>

definition GCMDecrypt :: "bytes \<Rightarrow> bytes \<Rightarrow> bytes \<Rightarrow> bytes \<Rightarrow> (bytes \<times> bytes) option" where
  "GCMDecrypt K IV C A =
     (case (GetH K, NewCipher K) of
        (Some H, Inr c) \<Rightarrow>
          (let Y0 = GetY0 H IV;
               (n, u) = calculm_v (length C div BlockSize) (length C mod BlockSize);
               Y = incr (n + 1) Y0
           in case tag_of c Y0 H A C of
                None \<Rightarrow> None
              | Some T \<Rightarrow>
                  if n * BlockSize > length C then None
                  else (case (ctr_loop c Y C [1..<n + 1], ctr_last c Y C n u) of
                          (Some P, Some Pn) \<Rightarrow> Some (take ((n - 1) * BlockSize) P @ Pn, T)
                        | _ \<Rightarrow> None))
      | _ \<Rightarrow> None)"

definition Sm4GCM :: "bytes \<Rightarrow> bytes \<Rightarrow> bytes \<Rightarrow> bytes \<Rightarrow> bool \<Rightarrow> sm4_error + (bytes \<times> bytes)" where
  "Sm4GCM key IV ins A mode =
     (if length key \<noteq> BlockSize then Inl (InvalidKeySize (length key))
      else (case (if mode then GCMEncrypt key IV ins A else GCMDecrypt key IV ins A) of
              None \<Rightarrow> Inl Sm4Panic
            | Some r \<Rightarrow> Inr r))"

end
