(* ===== verification/Sm4GcmLaws.thy ===== *)
theory Sm4GcmLaws
  imports Sm4Gcm Sm4Laws
begin

text \<open>Every block of the counter mode has 16 bytes, and adding the same key blocks twice gives the input back.\<close>

section \<open>Lengths\<close>

lemma length_addition: "length a = length b \<Longrightarrow> length (addition a b) = length b"
  by (simp add: addition_def)

lemma addition_cancel: "length a = length b \<Longrightarrow> addition (addition a b) b = a"
  by (auto simp: addition_def ac_simps intro!: nth_equalityI)

lemma length_Rightshift [simp]: "length (Rightshift V) = length V"
proof -
  have "length (Rightshift_loop i V) = length V" for i by (induction i arbitrary: V) (simp_all add: Let_def)
  then show ?thesis by (simp add: Rightshift_def)
qed

lemma multiplication_lengths:
  "length Z = 16 \<and> length V = 16 \<Longrightarrow> length (fst (fold (multiplication_step Y) is (Z, V))) = 16 \<and> length (snd (fold (multiplication_step Y) is (Z, V))) = 16"
proof (induction "is" arbitrary: Z V)
  case (Cons i "is")
  obtain Z' V' where s: "multiplication_step Y i (Z, V) = (Z', V')" by fastforce
  have "length Z' = 16 \<and> length V' = 16"
    using s Cons.prems by (auto simp: multiplication_step_def BlockSize_def Let_def length_addition split: if_splits)
  from Cons.IH [OF this] show ?case by (simp add: s)
qed simp

lemma length_multiplication [simp]: "length (multiplication X Y) = 16"
  using multiplication_lengths [of "replicate 16 0" "copy_at 0 X (replicate 16 0)"] by (simp add: multiplication_def BlockSize_def)

lemma length_hash_blocks [simp]: "length (hash_blocks H D X) = 16"
  by (simp add: hash_blocks_def Let_def split: prod.split)

lemma length_GHASH [simp]: "length (GHASH H A C) = 16"
  by (simp add: GHASH_def Let_def)

lemma length_GetY0 [simp]: "length (GetY0 H IV) = 16"
  by (auto simp: GetY0_def)

lemma length_carry_up [simp]: "length (carry_up rc bs) = length bs"
  by (induction rc bs rule: carry_up.induct) simp_all

lemma length_addYone [simp]: "length (addYone y) = length y"
  by (simp add: addYone_def split: list.split)

lemma length_incr_blocks: "length y = 16 \<Longrightarrow> length (incr_blocks n y) = 16 * n"
  by (induction n arbitrary: y) simp_all

lemma copy_all: "length y = 16 \<Longrightarrow> copy_at 0 y (replicate BlockSize 0) = y"
  by (simp add: copy_at_def BlockSize_def)

lemma length_incr: "length y = 16 \<Longrightarrow> length (incr n y) = 16 * n"
  by (simp add: incr_def copy_all length_incr_blocks)

section \<open>The key blocks\<close>

lemma length_block_of: "16 * Suc i \<le> length D \<Longrightarrow> length (block_of D i) = 16"
  by (simp add: block_of_def BlockSize_def)

lemma encrypt_block:
  assumes "length b = 16"
  obtains e where "Sm4_Encrypt c (replicate BlockSize 0) b = Some e" "length e = 16"
  using Sm4_block [OF assms, of c] by (auto simp: zeroBlock_def)

lemma key_block_ok:
  assumes "length Y = 16 * N" "i < N"
  obtains e where "key_block c Y i = Some e" "length e = 16"
  using encrypt_block [OF length_block_of, of i Y c] assms by (auto simp: key_block_def)

lemma GetH_ok:
  assumes "length K = 16"
  obtains c H where "NewCipher K = Inr c" "GetH K = Some H" "length H = 16"
proof -
  obtain c where c: "NewCipher K = Inr c" using NewCipher_ok [OF assms] by blast
  obtain e where "Sm4_Encrypt c (replicate BlockSize 0) (replicate BlockSize 0) = Some e" "length e = 16"
    using encrypt_block [of "replicate BlockSize 0" c] by (auto simp: BlockSize_def)
  then show thesis using that c by (simp add: GetH_def)
qed

lemma tag_ok:
  assumes "length Y0 = 16"
  obtains T where "tag_of c Y0 H A C = Some T" "length T = 16"
proof -
  obtain e where e: "Sm4_Encrypt c (replicate BlockSize 0) Y0 = Some e" "length e = 16" by (rule encrypt_block [OF assms])
  then have "length (addition e (GHASH H A C)) = 16" by (simp add: length_addition)
  then show thesis using that e by (simp add: tag_of_def MSB_def)
qed

section \<open>The loops\<close>

text \<open>The loops add the key blocks to the blocks of the input.\<close>

lemma ctr_loop_map:
  "\<forall>i\<in>set is. key_block c Y i = Some (K i) \<Longrightarrow> ctr_loop c Y D is = Some (concat (map (\<lambda>i. addition (block_of D (i - 1)) (K i)) is))"
  by (induction "is") simp_all

lemma block_of_concat:
  "\<forall>i\<in>set is. length (f i) = 16 \<Longrightarrow> j < length is \<Longrightarrow> block_of (concat (map f is) @ r) j = f (is ! j)"
proof (induction "is" arbitrary: j)
  case (Cons i "is")
  then show ?case
  proof (cases j)
    case (Suc k)
    have "block_of (f i @ concat (map f is) @ r) (Suc k) = block_of (concat (map f is) @ r) k"
      using Cons.prems(1) by (simp add: block_of_def BlockSize_def)
    then show ?thesis using Cons Suc by simp
  qed (simp add: block_of_def BlockSize_def)
qed simp

lemma concat_blocks_of: "16 * n \<le> length D \<Longrightarrow> concat (map (\<lambda>i. block_of D (i - 1)) [1..<Suc n]) = take (16 * n) D"
proof (induction n)
  case (Suc n)
  have "block_of D n = take 16 (drop (16 * n) D)" by (simp add: block_of_def BlockSize_def mult.commute)
  then show ?case using Suc take_add [of "16 * n" 16 D] by (simp add: add.commute)
qed simp

lemma last_block: "length D = 16 * Suc n \<Longrightarrow> drop (n * BlockSize) D = block_of D n"
  by (simp add: block_of_def BlockSize_def mult.commute)

lemma whole_blocks: "length D = 16 * n \<Longrightarrow> 0 < n \<Longrightarrow> calculm_v (length D div BlockSize) (length D mod BlockSize) = (n, 128)"
  by (simp add: calculm_v_def BlockSize_def)

lemma broken_block:
  assumes "\<not> (D \<noteq> [] \<and> 16 dvd length D)"
  obtains n u where "calculm_v (length D div BlockSize) (length D mod BlockSize) = (n, u)" "0 < n" "length D < n * BlockSize"
    "length D - (n - 1) * BlockSize = u div 8" "u div 8 < 16" "(n - 1) * BlockSize \<le> length D"
proof (cases "D = []")
  case True
  show thesis by (rule that [of 1 0]) (simp_all add: True calculm_v_def BlockSize_def)
next
  case False
  then have m: "length D mod 16 \<noteq> 0" using assms by (simp add: mod_eq_0_iff_dvd)
  show thesis
  proof (rule that [of "length D div 16 + 1" "length D mod 16 * 8"])
    show "calculm_v (length D div BlockSize) (length D mod BlockSize) = (length D div 16 + 1, length D mod 16 * 8)"
      using m by (simp add: calculm_v_def BlockSize_def)
    show "length D < (length D div 16 + 1) * BlockSize" unfolding BlockSize_def by presburger
    show "length D - (length D div 16 + 1 - 1) * BlockSize = length D mod 16 * 8 div 8" unfolding BlockSize_def
      by (simp add: modulo_nat_def)
    show "(length D div 16 + 1 - 1) * BlockSize \<le> length D" unfolding BlockSize_def by simp
  qed simp_all
qed

lemma key_blocks:
  assumes "length Y = 16 * N"
  shows "\<exists>K. \<forall>i<N. key_block c Y i = Some (K i) \<and> length (K i) = 16"
proof -
  have "\<forall>i. \<exists>e. i < N \<longrightarrow> key_block c Y i = Some e \<and> length e = 16" using key_block_ok [OF assms] by metis
  then show ?thesis by metis
qed

lemma gcm_whole:
  assumes "length K = 16" "length P = 16 * n" "0 < n"
  shows "\<exists>C T. GCMEncrypt K IV P A = Some (C, T) \<and> length C = length P \<and> length T = 16 \<and> GCMDecrypt K IV C A = Some (P, T)"
proof -
  obtain c H where c: "NewCipher K = Inr c" "GetH K = Some H" "length H = 16" by (rule GetH_ok [OF assms(1)])
  let ?start = "GetY0 H IV" and ?Y = "incr (n + 1) (GetY0 H IV)"
  obtain k where k': "\<forall>i<n + 1. key_block c ?Y i = Some (k i) \<and> length (k i) = 16"
    using key_blocks [OF length_incr [OF length_GetY0, of "n + 1" H IV], of c] by blast
  have k: "key_block c ?Y i = Some (k i)" "length (k i) = 16" if "i < n + 1" for i using k' that by blast+
  have loop: "ctr_loop c ?Y D [1..<m] = Some (concat (map (\<lambda>i. addition (block_of D (i - 1)) (k i)) [1..<m]))" if "m \<le> n + 1" for D m
    by (rule ctr_loop_map) (use k(1) that in auto)
  have fin: "ctr_last c ?Y D n 128 = Some (addition (block_of D (n - 1)) (k n))" if "length D = 16 * n" for D
    using k [of n] last_block [of D "n - 1"] that assms(3) by (simp add: ctr_last_def MSB_def)
  define g where "g i = addition (block_of P (i - 1)) (k i)" for i
  have lP: "length (block_of P (i - 1)) = 16" if "i \<in> set [1..<n + 1]" for i using that length_block_of [of "i - 1" P] assms(2) by auto
  have lg: "\<forall>i\<in>set [1..<n + 1]. length (g i) = 16" using lP k(2) by (auto simp: g_def length_addition)
  define C where "C = concat (map g [1..<n + 1])"
  have split: "[1..<n + 1] = [1..<n] @ [n]" using assms(3) by simp
  have C: "concat (map g [1..<n]) @ g n = C" by (simp only: C_def split map_append concat_append list.map concat.simps append_Nil2)
  have lC: "length C = 16 * n"
  proof -
    have "length C = sum_list (map (length \<circ> g) [1..<n + 1])" by (simp add: C_def length_concat)
    also have "map (length \<circ> g) [1..<n + 1] = map (\<lambda>_. 16) [1..<n + 1]" using lg by (metis (mono_tags, lifting) comp_apply map_eq_conv)
    finally show ?thesis by (simp add: sum_list_triv)
  qed
  obtain T where T: "tag_of c ?start H A C = Some T" "length T = 16" by (rule tag_ok [OF length_GetY0])
  have lP1: "ctr_loop c ?Y P [1..<n] = Some (concat (map g [1..<n]))" "ctr_last c ?Y P n 128 = Some (g n)"
    using loop [of n P] fin [OF assms(2)] by (simp_all add: g_def [abs_def])
  have enc: "GCMEncrypt K IV P A = Some (C, T)"
    unfolding GCMEncrypt_def whole_blocks [OF assms(2,3)] prod.case Let_def c sum.case option.case lP1 C T(1) by simp
  have bC: "block_of C (i - 1) = g i" if "i \<in> set [1..<n + 1]" for i
  proof -
    have "i - 1 < length [1..<n + 1]" "[1..<n + 1] ! (i - 1) = i" using that by (auto simp del: upt_Suc)
    then show ?thesis using block_of_concat [OF lg, of "i - 1" "[]"] by (simp only: C_def append_Nil2)
  qed
  have again: "addition (block_of C (i - 1)) (k i) = block_of P (i - 1)" if "i \<in> set [1..<n + 1]" for i
  proof -
    have "length (k i) = 16" by (rule k(2)) (use that in auto)
    then show ?thesis unfolding bC [OF that] g_def using lP [OF that] by (simp only: addition_cancel)
  qed
  have "concat (map (\<lambda>i. addition (block_of C (i - 1)) (k i)) [1..<n + 1]) = concat (map (\<lambda>i. block_of P (i - 1)) [1..<n + 1])"
    using again by (metis (mono_tags, lifting) map_eq_conv)
  also have "\<dots> = P" using concat_blocks_of [of n P] assms(2) by simp
  finally have "ctr_loop c ?Y C [1..<n + 1] = Some P" using loop [of "n + 1" C] by simp
  moreover have "ctr_last c ?Y C n 128 = Some (drop ((n - 1) * BlockSize) P)"
    using fin [OF lC] again [of n] last_block [of P "n - 1"] assms(2,3) by simp
  ultimately have "GCMDecrypt K IV C A = Some (P, T)"
    unfolding GCMDecrypt_def whole_blocks [OF lC assms(3)] using T lC by (simp add: c Let_def BlockSize_def)
  then show ?thesis using enc lC assms(2) T(2) by (intro exI conjI) simp_all
qed

lemma gcm_broken:
  assumes "length K = 16" "\<not> (P \<noteq> [] \<and> 16 dvd length P)"
  shows "\<exists>C T. GCMEncrypt K IV P A = Some (C, T) \<and> length C = length P \<and> length T = 16 \<and> GCMDecrypt K IV C A = None"
proof -
  obtain c H where c: "NewCipher K = Inr c" "GetH K = Some H" "length H = 16" by (rule GetH_ok [OF assms(1)])
  obtain n u where n: "calculm_v (length P div BlockSize) (length P mod BlockSize) = (n, u)" "0 < n" "length P < n * BlockSize"
    "length P - (n - 1) * BlockSize = u div 8" "u div 8 < 16" "(n - 1) * BlockSize \<le> length P" by (rule broken_block [OF assms(2)])
  let ?start = "GetY0 H IV" and ?Y = "incr (n + 1) (GetY0 H IV)"
  obtain k where k': "\<forall>i<n + 1. key_block c ?Y i = Some (k i) \<and> length (k i) = 16"
    using key_blocks [OF length_incr [OF length_GetY0, of "n + 1" H IV], of c] by blast
  have k: "key_block c ?Y i = Some (k i)" "length (k i) = 16" if "i < n + 1" for i using k' that by blast+
  define C1 where "C1 = concat (map (\<lambda>i. addition (block_of P (i - 1)) (k i)) [1..<n])"
  define Cn where "Cn = addition (drop ((n - 1) * BlockSize) P) (take (u div 8) (k n))"
  have loop: "ctr_loop c ?Y P [1..<n] = Some C1" unfolding C1_def by (rule ctr_loop_map) (use k(1) in auto)
  have fin: "ctr_last c ?Y P n u = Some Cn" using k [of n] n(5) by (simp add: ctr_last_def MSB_def Cn_def)
  have "length C1 = sum_list (map (\<lambda>i. length (addition (block_of P (i - 1)) (k i))) [1..<n])" by (simp add: C1_def length_concat o_def)
  also have "map (\<lambda>i. length (addition (block_of P (i - 1)) (k i))) [1..<n] = map (\<lambda>_. 16) [1..<n]"
    using k(2) n(6) by (intro map_cong refl) (auto simp: length_addition length_block_of BlockSize_def)
  also have "sum_list \<dots> = (n - 1) * BlockSize" by (simp add: sum_list_triv BlockSize_def)
  finally have "length C1 = (n - 1) * BlockSize" .
  moreover have "length Cn = u div 8" using n(4,5) k(2) [of n] by (simp add: Cn_def length_addition)
  ultimately have l: "length (C1 @ Cn) = length P" using n(4,6) by simp
  obtain T where T: "tag_of c ?start H A (C1 @ Cn) = Some T" "length T = 16" by (rule tag_ok [OF length_GetY0])
  have "GCMEncrypt K IV P A = Some (C1 @ Cn, T)" unfolding GCMEncrypt_def n(1) using loop fin T by (simp add: c Let_def)
  moreover have "GCMDecrypt K IV (C1 @ Cn) A = None" unfolding GCMDecrypt_def l n(1) using T n(3) by (simp add: c Let_def)
  ultimately show ?thesis using l T(2) by blast
qed

section \<open>The counter\<close>

text \<open>A byte 255 above the first is set to zero and carried although nothing was added to it.\<close>

lemma below_ff: "b \<noteq> 0xff \<Longrightarrow> b < (0xff :: byte)"
proof -
  assume "b \<noteq> 0xff"
  then have "unat b \<noteq> unat (0xff :: byte)" by (metis word_unat_eq_iff)
  then have "unat b \<noteq> 255" by simp
  moreover have "unat b < 2 ^ 8" using unsigned_less [of b] by simp
  ultimately show ?thesis by (simp add: word_less_nat_alt)
qed

lemma carry_up_still: "0xff \<notin> set bs \<Longrightarrow> carry_up 0x00 (bs @ cs) = bs @ carry_up 0x00 cs"
  by (induction bs) (auto simp: below_ff)

lemma addYone_collision:
  assumes "0xff \<notin> set (a @ b)" "x < 0xfe"
  shows "addYone (a @ [x, 0xff] @ b @ [0x00, 0x00, 0x00, 0x01]) = addYone (a @ [x + 1, 0x00] @ b @ [0x00, 0x00, 0x00, 0x01])"
proof -
  have x: "x + 1 < 0xff" using assms(2) by unat_arith
  have ab: "0xff \<notin> set (rev b)" "0xff \<notin> set (rev a)" using assms(1) by auto
  have a: "carry_up 0x00 (rev a) = rev a" using carry_up_still [OF ab(2), of "[]"] by simp
  have "carry_up 0x00 (rev b @ 0xff # x # rev a) = rev b @ 0x00 # (x + 1) # rev a"
    using x by (simp add: carry_up_still [OF ab(1)] a)
  moreover have "carry_up 0x00 (rev b @ 0x00 # (x + 1) # rev a) = rev b @ 0x00 # (x + 1) # rev a"
    using x by (simp add: carry_up_still [OF ab(1)] a)
  ultimately show ?thesis by (simp add: addYone_def)
qed

lemma key_block_after:
  assumes "length y = 16" "length y' = 16" "addYone y = addYone y'" "0 < i"
  shows "key_block c (incr (n + 1) y) i = key_block c (incr (n + 1) y') i"
proof -
  obtain j where j: "i = Suc j" using assms(4) by (cases i) auto
  have "block_of (z @ r) (Suc j) = block_of r j" if "length z = 16" for z r
    using that by (simp add: block_of_def BlockSize_def)
  then show ?thesis using assms(1-3) by (simp add: key_block_def incr_def copy_all j)
qed

lemma ctr_loop_cong: "(\<And>i. i \<in> set is \<Longrightarrow> key_block c Y i = key_block c Y' i) \<Longrightarrow> ctr_loop c Y D is = ctr_loop c Y' D is"
  by (induction "is") (simp_all cong: option.case_cong)

lemma calculm_pos: "calculm_v m v = (n, u) \<Longrightarrow> 0 < n"
  by (auto simp: calculm_v_def split: if_splits)

lemma same_counter:
  assumes "addYone (GetY0 H IV) = addYone (GetY0 H IV')" "GetH K = Some H"
  shows "map_option fst (GCMEncrypt K IV P A) = map_option fst (GCMEncrypt K IV' P A)"
proof -
  obtain n u where n: "calculm_v (length P div BlockSize) (length P mod BlockSize) = (n, u)" by fastforce
  note k = key_block_after [OF length_GetY0 length_GetY0 assms(1)]
  have l: "ctr_loop c (incr (n + 1) (GetY0 H IV)) P [1..<n] = ctr_loop c (incr (n + 1) (GetY0 H IV')) P [1..<n]" for c
    by (rule ctr_loop_cong) (use k in auto)
  have e: "ctr_last c (incr (n + 1) (GetY0 H IV)) P n u = ctr_last c (incr (n + 1) (GetY0 H IV')) P n u" for c
    using k [OF calculm_pos [OF n]] by (simp add: ctr_last_def)
  have t: "map_option fst (map_option (Pair C) (tag_of c (GetY0 H IV) H A C)) = Some C" for c IV C
    by (rule tag_ok [OF length_GetY0, of c H IV H A C]) simp
  have none: "map_option fst None = None" by simp
  show ?thesis unfolding GCMEncrypt_def n prod.case Let_def assms(2) option.case l e
    by (auto simp: t split: sum.split option.split)
qed

end
