(* ===== verification/Sm4GcmProps.thy ===== *)
theory Sm4GcmProps
  imports Sm4GcmLaws
begin

text \<open>The properties of \<open>crypto/gmsm/sm4/sm4_gcm.go\<close>.\<close>

text \<open>C32. The counter mode with authentication decrypts whole blocks and nothing else: for every key of 16 bytes, initial
  vector, input and additional data, encryption succeeds with a ciphertext of the length of the input and a tag of 16
  bytes; if the input has a positive whole number of blocks, decryption returns the input and the same tag,
  and in every other case, the empty input included, it panics. A key of another length is an error.\<close>

theorem gcm_roundtrip:
  "if length key = 16
   then \<exists>C T. Sm4GCM key IV P A True = Inr (C, T) \<and> length C = length P \<and> length T = 16
     \<and> Sm4GCM key IV C A False = (if P \<noteq> [] \<and> 16 dvd length P then Inr (P, T) else Inl Sm4Panic)
   else \<forall>mode. Sm4GCM key IV P A mode = Inl (InvalidKeySize (length key))"
proof (cases "length key = 16")
  case True
  show ?thesis
  proof (cases "P \<noteq> [] \<and> 16 dvd length P")
    case whole: True
    then obtain n where "length P = 16 * n" "0 < n" by (metis dvd_def gr0I length_0_conv mult_0_right)
    from gcm_whole [OF True this, of IV A] show ?thesis using True whole by (auto simp: Sm4GCM_def BlockSize_def)
  next
    case False
    from gcm_broken [OF True False, of IV A] show ?thesis using True False by (auto simp: Sm4GCM_def BlockSize_def)
  qed
qed (simp add: Sm4GCM_def BlockSize_def)

text \<open>C34. Different initial vectors share their key stream: the carry of the counter takes a byte 255 above the last for an overflow,
  so the vectors \<open>... x FF ...\<close> and \<open>... (x + 1) 00 ...\<close> of 12 bytes give the same ciphertext for every input, under
  every key.\<close>

theorem gcm_vectors_collide:
  assumes "length a + length b = 10" "0xff \<notin> set (a @ b)" "x < 0xfe"
  shows "map_option fst (GCMEncrypt K (a @ [x, 0xff] @ b) P A) = map_option fst (GCMEncrypt K (a @ [x + 1, 0x00] @ b) P A)"
proof (cases "GetH K")
  case (Some H)
  have "GetY0 H (a @ [x, 0xff] @ b) = a @ [x, 0xff] @ b @ [0x00, 0x00, 0x00, 0x01]"
    "GetY0 H (a @ [x + 1, 0x00] @ b) = a @ [x + 1, 0x00] @ b @ [0x00, 0x00, 0x00, 0x01]"
    using assms(1) by (simp_all add: GetY0_def)
  then show ?thesis using same_counter [OF _ Some] addYone_collision [OF assms(2,3)] by simp
qed (simp add: GCMEncrypt_def split: prod.split)

lemma gcm_vectors_collide_witness:
  "map_option fst (GCMEncrypt (replicate 16 0) [1, 2, 3, 4, 5, 6, 7, 8, 9, 10, 0xff, 12] [1, 2, 3] [])
     = map_option fst (GCMEncrypt (replicate 16 0) [1, 2, 3, 4, 5, 6, 7, 8, 9, 11, 0x00, 12] [1, 2, 3] [])"
  using gcm_vectors_collide [of "[1, 2, 3, 4, 5, 6, 7, 8, 9]" "[12]" 10 "replicate 16 0" "[1, 2, 3]" "[]"] by simp

end
