(* ===== verification/Ber.thy ===== *)
theory Ber
  imports Prelude "HOL-Library.Word"
begin

text \<open>
  The conversion of BER to DER in \<open>crypto/gmsm/x509/ber.go\<close>. Offsets are natural numbers; an index out of range, on
  which the code panics, is \<open>BerPanic\<close>. A write to a \<open>bytes.Buffer\<close> never fails. The indentation counter
  \<open>encodeIndent\<close> and the value of a long tag are computed and never read.
\<close>

datatype asn1Object =
    asn1Primitive (tagBytes: bytes) (primLength: nat) (primContent: bytes)
  | asn1Structured (tagBytes: bytes) (subContent: "asn1Object list")

datatype ber_error =
    EmptyBer | LengthTooLong | LengthNegative | LeadingZero | MoreThanAvailable | IndefinitePrimitive | InvalidBER
  | BerPanic | BerFuel

section \<open>Writing\<close>

function lengthLength_loop :: "nat \<Rightarrow> nat \<Rightarrow> nat" where
  "lengthLength_loop numBytes i = (if 255 < i then lengthLength_loop (numBytes + 1) (i div 256) else numBytes)"
  by auto
termination by (relation "measure (\<lambda>(n, i). i)") auto

declare lengthLength_loop.simps [simp del]

definition lengthLength :: "nat \<Rightarrow> nat" where
  "lengthLength i = lengthLength_loop 1 i"

fun marshalLongLength_loop :: "nat \<Rightarrow> nat \<Rightarrow> bytes" where
  "marshalLongLength_loop 0 i = []"
| "marshalLongLength_loop (Suc n) i = word_of_nat (i div 2 ^ (n * 8)) # marshalLongLength_loop n i"

definition marshalLongLength :: "nat \<Rightarrow> bytes" where
  "marshalLongLength i = marshalLongLength_loop (lengthLength i) i"

definition encodeLength :: "nat \<Rightarrow> bytes" where
  "encodeLength l =
     (if 128 \<le> l then (0x80 OR word_of_nat (lengthLength l)) # marshalLongLength l else [word_of_nat l])"

fun EncodeTo :: "asn1Object \<Rightarrow> bytes" where
  "EncodeTo (asn1Primitive t n c) = t @ encodeLength n @ c"
| "EncodeTo (asn1Structured t os) = (let inner = concat (map EncodeTo os) in t @ encodeLength (length inner) @ inner)"

section \<open>Reading\<close>

definition ber_at :: "bytes \<Rightarrow> nat \<Rightarrow> ber_error + byte" where
  "ber_at ber i = (if i < length ber then Inr (ber ! i) else Inl BerPanic)"

text \<open>The end of a tag: after a first byte with its five low bits set come bytes from 128 on and one below.\<close>

function skip_high :: "bytes \<Rightarrow> nat \<Rightarrow> ber_error + nat" where
  "skip_high ber offset =
     (if offset < length ber then (if 0x80 \<le> ber ! offset then skip_high ber (offset + 1) else Inr offset) else Inl BerPanic)"
  by auto
termination by (relation "measure (\<lambda>(ber, offset). length ber - offset)") auto

declare skip_high.simps [simp del]

definition read_tag :: "bytes \<Rightarrow> nat \<Rightarrow> ber_error + (byte \<times> nat)" where
  "read_tag ber offset =
     (case ber_at ber offset of
        Inl e \<Rightarrow> Inl e
      | Inr b \<Rightarrow>
          if b AND 0x1F = 0x1F
          then (case skip_high ber (offset + 1) of Inl e \<Rightarrow> Inl e | Inr i \<Rightarrow> Inr (b, i + 1))
          else Inr (b, offset + 1))"

fun read_length_bytes :: "bytes \<Rightarrow> nat \<Rightarrow> nat \<Rightarrow> nat \<Rightarrow> ber_error + (nat \<times> nat)" where
  "read_length_bytes ber 0 l offset = Inr (l, offset)"
| "read_length_bytes ber (Suc n) l offset =
     (case ber_at ber offset of
        Inl e \<Rightarrow> Inl e
      | Inr b \<Rightarrow> read_length_bytes ber n (l * 256 + unat b) (offset + 1))"

text \<open>The length, whether it is indefinite, and the offset of the content.\<close>

definition read_length :: "bytes \<Rightarrow> nat \<Rightarrow> ber_error + (nat \<times> bool \<times> nat)" where
  "read_length ber offset =
     (case ber_at ber offset of
        Inl e \<Rightarrow> Inl e
      | Inr l \<Rightarrow>
          if 0x80 < l then
            (let numberOfBytes = unat (l AND 0x7F) in
             if numberOfBytes > 4 then Inl LengthTooLong
             else (case ber_at ber (offset + 1) of
                     Inl e \<Rightarrow> Inl e
                   | Inr b \<Rightarrow>
                       if numberOfBytes = 4 \<and> 0x7F < b then Inl LengthNegative
                       else if b = 0 then Inl LeadingZero
                       else (case read_length_bytes ber numberOfBytes 0 (offset + 1) of
                               Inl e \<Rightarrow> Inl e
                             | Inr (n, offset') \<Rightarrow> Inr (n, False, offset'))))
          else if l = 0x80 then Inr (0, True, offset + 1)
          else Inr (unat l, False, offset + 1))"

definition isIndefiniteTermination :: "bytes \<Rightarrow> nat \<Rightarrow> ber_error + bool" where
  "isIndefiniteTermination ber offset =
     (if length ber - offset < 2 then Inl InvalidBER else Inr (take 2 (drop offset ber) = [0x0, 0x0]))"

text \<open>
  \<open>readObject\<close> and its loop over the sub-objects, with fuel for both. The fuel bounds how deep the
  calls and the rounds of the loop are nested, not how many there are: what follows a sub-object is
  read with the same fuel, whatever the sub-object has used.
\<close>

fun readObject :: "nat \<Rightarrow> bytes \<Rightarrow> nat \<Rightarrow> ber_error + (asn1Object \<times> nat)"
  and readSubObjects :: "nat \<Rightarrow> bytes \<Rightarrow> nat \<Rightarrow> nat \<Rightarrow> bool \<Rightarrow> ber_error + (asn1Object list \<times> nat)" where
  "readObject 0 ber tagStart = Inl BerFuel"
| "readObject (Suc f) ber tagStart =
     (case read_tag ber tagStart of
        Inl e \<Rightarrow> Inl e
      | Inr (b, tagEnd) \<Rightarrow>
          (case read_length ber tagEnd of
             Inl e \<Rightarrow> Inl e
           | Inr (n, indefinite, offset) \<Rightarrow>
               let contentEnd = offset + n in
               if contentEnd > length ber then Inl MoreThanAvailable
               else if indefinite \<and> b AND 0x20 = 0 then Inl IndefinitePrimitive
               else if b AND 0x20 = 0
               then Inr (asn1Primitive (subslice tagStart tagEnd ber) n (subslice offset contentEnd ber), contentEnd)
               else (case readSubObjects f ber offset contentEnd indefinite of
                       Inl e \<Rightarrow> Inl e
                     | Inr (subObjects, offset') \<Rightarrow>
                         Inr (asn1Structured (subslice tagStart tagEnd ber) subObjects, if indefinite then offset' + 2 else contentEnd))))"
| "readSubObjects 0 ber offset contentEnd indefinite = Inl BerFuel"
| "readSubObjects (Suc f) ber offset contentEnd indefinite =
     (if offset < contentEnd \<or> indefinite then
        (case readObject f ber offset of
           Inl e \<Rightarrow> Inl e
         | Inr (subObj, offset') \<Rightarrow>
             (case (if indefinite then isIndefiniteTermination ber offset' else Inr False) of
                Inl e \<Rightarrow> Inl e
              | Inr terminated \<Rightarrow>
                  if terminated then Inr ([subObj], offset')
                  else (case readSubObjects f ber offset' contentEnd indefinite of
                          Inl e \<Rightarrow> Inl e
                        | Inr (subObjects, offset'') \<Rightarrow> Inr (subObj # subObjects, offset''))))
      else Inr ([], offset))"

definition ber_fuel :: "bytes \<Rightarrow> nat" where
  "ber_fuel ber = 2 * length ber + 2"

definition ber2der :: "bytes \<Rightarrow> ber_error + bytes" where
  "ber2der ber =
     (if ber = [] then Inl EmptyBer
      else (case readObject (ber_fuel ber) ber 0 of Inl e \<Rightarrow> Inl e | Inr (obj, offset) \<Rightarrow> Inr (EncodeTo obj)))"

end
