(* ===== verification/BerLaws.thy ===== *)
theory BerLaws
  imports Ber
begin

text \<open>What \<open>readObject\<close> returns is a well-formed object, and it reads the encoding of every well-formed object back.\<close>

section \<open>Lengths\<close>

lemma lengthLength_loop_bounds:
  "0 < i \<Longrightarrow> \<exists>j. lengthLength_loop n i = n + j \<and> 256 ^ j \<le> i \<and> i < 256 ^ Suc j"
proof (induction n i rule: lengthLength_loop.induct)
  case (1 n i)
  show ?case
  proof (cases "255 < i")
    case True
    then have "0 < i div 256" by (simp add: div_greater_zero_iff)
    then obtain j where j: "lengthLength_loop (n + 1) (i div 256) = n + 1 + j" "256 ^ j \<le> i div 256" "i div 256 < 256 ^ Suc j"
      using 1 True by auto
    then have "256 ^ Suc j \<le> i" "i < 256 ^ Suc (Suc j)" by (simp_all add: less_eq_div_iff_mult_less_eq div_less_iff_less_mult mult.commute)
    then show ?thesis using True j(1) by (intro exI [of _ "Suc j"]) (simp add: lengthLength_loop.simps [of n i])
  next
    case False
    then show ?thesis using 1 by (intro exI [of _ 0]) (simp add: lengthLength_loop.simps [of n i])
  qed
qed

lemma lengthLength_bounds:
  assumes "0 < i"
  obtains j where "lengthLength i = Suc j" "256 ^ j \<le> i" "i < 256 ^ Suc j"
  using lengthLength_loop_bounds [OF assms, of 1] by (auto simp: lengthLength_def)

lemma length_marshal [simp]: "length (marshalLongLength_loop k i) = k"
  by (induction k) simp_all

lemma power_256: "2 ^ (k * 8) = (256 :: nat) ^ k"
  by (simp add: mult.commute [of k] power_mult)

lemma unat_byte: "unat (word_of_nat n :: byte) = n mod 256"
  by (simp add: unsigned_of_nat take_bit_eq_mod)

lemma ber_at_append: "ber_at (pre @ b # post) (length pre) = Inr b"
  by (simp add: ber_at_def)

lemma read_length_bytes_marshal:
  "read_length_bytes (pre @ marshalLongLength_loop k i @ post) k a (length pre) = Inr (a * 256 ^ k + i mod 256 ^ k, length pre + k)"
proof (induction k arbitrary: pre a)
  case (Suc k)
  let ?b = "word_of_nat (i div 2 ^ (k * 8)) :: byte"
  have s: "read_length_bytes ((pre @ [?b]) @ marshalLongLength_loop k i @ post) k (a * 256 + unat ?b) (length (pre @ [?b]))
      = Inr ((a * 256 + unat ?b) * 256 ^ k + i mod 256 ^ k, length (pre @ [?b]) + k)" by (rule Suc.IH)
  have "i mod 256 ^ Suc k = 256 ^ k * (i div 256 ^ k mod 256) + i mod 256 ^ k"
    by (simp only: power_Suc mult.commute [of 256] mod_mult2_eq)
  then have "(a * 256 + unat ?b) * 256 ^ k + i mod 256 ^ k = a * 256 ^ Suc k + i mod 256 ^ Suc k"
    by (simp add: unat_byte power_256 algebra_simps)
  then show ?case using s ber_at_append [of pre ?b "marshalLongLength_loop k i @ post"] by simp
qed simp

lemma read_length_encode:
  assumes "n < 2 ^ 31"
  shows "read_length (pre @ encodeLength n @ post) (length pre) = Inr (n, False, length pre + length (encodeLength n))"
proof (cases "128 \<le> n")
  case False
  then have "unat (word_of_nat n :: byte) = n" "(word_of_nat n :: byte) < 0x80"
    by (simp_all add: unat_byte word_less_nat_alt)
  then show ?thesis using False by (simp add: read_length_def encodeLength_def ber_at_append word_less_nat_alt word_unat_eq_iff)
next
  case True
  then obtain j where j: "lengthLength n = Suc j" "256 ^ j \<le> n" "n < 256 ^ Suc j" using lengthLength_bounds [of n] by auto
  have "j \<le> 3"
  proof (rule ccontr)
    assume "\<not> j \<le> 3"
    then have "(256 :: nat) ^ 4 \<le> 256 ^ j" by (intro power_increasing) simp_all
    then show False using j(2) assms by simp
  qed
  then have jc: "j = 0 \<or> j = 1 \<or> j = 2 \<or> j = 3" by auto
  define l where "l = (0x80 OR word_of_nat (Suc j) :: byte)"
  have l: "0x80 < l" "unat (l AND 0x7F) = Suc j" using jc by (auto simp: l_def)
  define b where "b = (word_of_nat (n div 2 ^ (j * 8)) :: byte)"
  have q: "n div 256 ^ j < 256" "0 < n div 256 ^ j" using j(2,3) by (simp_all add: div_less_iff_less_mult div_greater_zero_iff)
  then have ub: "unat b = n div 256 ^ j" by (simp add: b_def unat_byte power_256)
  have b0: "b \<noteq> 0" using ub q(2) by (metis less_numeral_extra(3) unat_0)
  have b4: "\<not> (Suc j = 4 \<and> 0x7F < b)"
  proof (clarify)
    assume "Suc j = 4" "0x7F < b"
    then have "127 < n div 256 ^ 3" using ub by (simp add: word_less_nat_alt)
    then show False using assms by simp
  qed
  have m: "marshalLongLength n = b # marshalLongLength_loop j n" by (simp add: marshalLongLength_def j(1) b_def)
  have e: "pre @ encodeLength n @ post = pre @ l # b # marshalLongLength_loop j n @ post"
    using True by (simp add: encodeLength_def l_def j(1) m)
  have at: "ber_at (pre @ l # b # marshalLongLength_loop j n @ post) (length pre) = Inr l"
    "ber_at (pre @ l # b # marshalLongLength_loop j n @ post) (Suc (length pre)) = Inr b"
    by (simp_all add: ber_at_def nth_append)
  have r: "read_length_bytes (pre @ l # b # marshalLongLength_loop j n @ post) (Suc j) 0 (Suc (length pre)) = Inr (n, length pre + length (encodeLength n))"
    using read_length_bytes_marshal [of "pre @ [l]" "Suc j" n post 0] j(1,3) True m
    by (simp add: encodeLength_def marshalLongLength_def b_def)
  show ?thesis unfolding e read_length_def using at l b0 b4 r \<open>j \<le> 3\<close> by (simp add: Let_def del: read_length_bytes.simps)
qed

section \<open>Tags\<close>

definition wf_tag :: "bytes \<Rightarrow> bool" where
  "wf_tag t \<longleftrightarrow> t \<noteq> [] \<and>
     (if hd t AND 0x1F = 0x1F then tl t \<noteq> [] \<and> (\<forall>h\<in>set (butlast (tl t)). 0x80 \<le> h) \<and> last (tl t) < 0x80 else tl t = [])"

lemma skip_high_reads:
  "skip_high ber i = Inr j \<Longrightarrow> i \<le> j \<and> j < length ber \<and> ber ! j < 0x80 \<and> (\<forall>k. i \<le> k \<and> k < j \<longrightarrow> 0x80 \<le> ber ! k)"
proof (induction ber i rule: skip_high.induct)
  case (1 ber i)
  show ?case
  proof (cases "i < length ber \<and> 0x80 \<le> ber ! i")
    case True
    then have "skip_high ber (i + 1) = Inr j" using "1.prems" by (simp add: skip_high.simps [of ber i])
    with 1 True have "i + 1 \<le> j \<and> j < length ber \<and> ber ! j < 0x80 \<and> (\<forall>k. i + 1 \<le> k \<and> k < j \<longrightarrow> 0x80 \<le> ber ! k)" by simp
    then show ?thesis using True by (metis Suc_eq_plus1 Suc_leI Suc_leD le_neq_implies_less)
  next
    case False
    then show ?thesis using "1.prems" by (auto simp: skip_high.simps [of ber i] not_le split: if_splits)
  qed
qed

lemma read_tag_wf:
  assumes "read_tag ber i = Inr (b, j)"
  shows "i < j" "j \<le> length ber" "wf_tag (subslice i j ber)" "hd (subslice i j ber) = b"
proof -
  have i: "i < length ber" "ber ! i = b" using assms by (auto simp: read_tag_def ber_at_def split: if_splits sum.splits)
  have d: "drop i ber = b # drop (Suc i) ber" using i Cons_nth_drop_Suc by metis
  show "i < j" "j \<le> length ber" using assms i
    by (auto simp: read_tag_def ber_at_def split: if_splits sum.splits dest!: skip_high_reads)
  then show hd: "hd (subslice i j ber) = b" by (simp add: subslice_def d take_Cons')
  show "wf_tag (subslice i j ber)"
  proof (cases "b AND 0x1F = 0x1F")
    case False
    then have "j = Suc i" using assms i by (simp add: read_tag_def ber_at_def)
    then show ?thesis using False by (simp add: subslice_def d wf_tag_def)
  next
    case True
    then obtain k where k: "skip_high ber (Suc i) = Inr k" "j = Suc k"
      using assms i by (auto simp: read_tag_def ber_at_def split: sum.splits)
    note r = skip_high_reads [OF k(1)]
    let ?h = "take (k - i) (drop (Suc i) ber)"
    have s: "subslice i j ber = b # ?h" using k(2) r by (simp add: subslice_def d Suc_diff_le)
    have len: "length ?h = k - i" using r by (auto simp: min_def)
    have "?h \<noteq> []" using r by auto
    moreover have "last ?h = ber ! k"
    proof -
      have "last ?h = ?h ! (k - i - 1)" using last_conv_nth [OF \<open>?h \<noteq> []\<close>] by (simp only: len)
      also have "\<dots> = ber ! (Suc i + (k - i - 1))" using r \<open>?h \<noteq> []\<close> len by (subst nth_take) auto
      also have "Suc i + (k - i - 1) = k" using \<open>?h \<noteq> []\<close> len by (cases "k - i") auto
      finally show ?thesis .
    qed
    moreover have "0x80 \<le> h" if h: "h \<in> set (butlast ?h)" for h
    proof -
      obtain m where m: "m < length (butlast ?h)" "butlast ?h ! m = h" using h unfolding in_set_conv_nth by blast
      then have "?h ! m = h" "m < k - i - 1" using nth_butlast [OF m(1)] len by (simp_all only: length_butlast)
      moreover from this have "?h ! m = ber ! (Suc i + m)" using r by (subst nth_take) auto
      ultimately have "h = ber ! (Suc i + m)" "Suc i + m < k" by auto
      then show ?thesis using r by simp
    qed
    ultimately show ?thesis using True r by (simp add: wf_tag_def s)
  qed
qed

lemma skip_high_append:
  "(\<forall>h\<in>set hs. 0x80 \<le> h) \<Longrightarrow> l < 0x80 \<Longrightarrow> skip_high (pre @ hs @ l # post) (length pre) = Inr (length pre + length hs)"
proof (induction hs arbitrary: pre)
  case Nil
  then have "\<not> 0x80 \<le> l" by (simp only: not_le)
  then show ?case by (subst skip_high.simps) simp
next
  case (Cons h hs)
  have "skip_high (pre @ (h # hs) @ l # post) (length pre) = skip_high ((pre @ [h]) @ hs @ l # post) (length (pre @ [h]))"
    using Cons.prems by (subst skip_high.simps) simp
  then show ?case using Cons.IH [of "pre @ [h]"] Cons.prems by simp
qed

lemma read_tag_append:
  assumes "wf_tag t"
  shows "read_tag (pre @ t @ post) (length pre) = Inr (hd t, length pre + length t)"
proof -
  obtain b hs where t: "t = b # hs" using assms by (cases t) (auto simp: wf_tag_def)
  show ?thesis
  proof (cases "b AND 0x1F = 0x1F")
    case False
    then show ?thesis using assms by (simp add: t wf_tag_def read_tag_def ber_at_def)
  next
    case True
    then have hs: "hs \<noteq> []" "\<forall>h\<in>set (butlast hs). 0x80 \<le> h" "last hs < 0x80" using assms by (simp_all add: t wf_tag_def)
    have "pre @ t @ post = (pre @ [b]) @ butlast hs @ last hs # post" using hs(1) by (simp add: t)
    then have "skip_high (pre @ t @ post) (length (pre @ [b])) = Inr (length (pre @ [b]) + length (butlast hs))"
      using skip_high_append [OF hs(2,3)] by metis
    then show ?thesis using True hs(1) by (simp add: t read_tag_def ber_at_def)
  qed
qed

section \<open>Objects\<close>

fun wf_obj :: "asn1Object \<Rightarrow> bool" where
  "wf_obj (asn1Primitive t n c) \<longleftrightarrow> wf_tag t \<and> hd t AND 0x20 = 0 \<and> n = length c"
| "wf_obj (asn1Structured t os) \<longleftrightarrow> wf_tag t \<and> hd t AND 0x20 \<noteq> 0 \<and> list_all wf_obj os"

lemma ber_at_less: "ber_at ber i = Inr b \<Longrightarrow> i < length ber"
  by (simp add: ber_at_def split: if_splits)

lemma read_length_bytes_end:
  "read_length_bytes ber n l offset = Inr (m, e) \<Longrightarrow> offset \<le> length ber \<Longrightarrow> e = offset + n \<and> e \<le> length ber"
proof (induction ber n l offset rule: read_length_bytes.induct)
  case (2 ber n l offset)
  then show ?case by (auto split: sum.splits dest: ber_at_less)
qed simp

lemma read_length_end: "read_length ber i = Inr (n, ind, e) \<Longrightarrow> i < e \<and> e \<le> length ber \<and> (ind \<longrightarrow> n = 0)"
  by (auto simp: read_length_def Let_def split: sum.splits if_splits dest!: read_length_bytes_end ber_at_less)

lemma terminated_end: "isIndefiniteTermination ber i = Inr b \<Longrightarrow> i + 2 \<le> length ber"
  by (auto simp: isIndefiniteTermination_def split: if_splits)

text \<open>One unfolding of each function on a successful run.\<close>

lemma readObject_Suc:
  assumes "readObject (Suc f) ber i = Inr (obj, e)"
  obtains b j n ind k where "read_tag ber i = Inr (b, j)" "read_length ber j = Inr (n, ind, k)" "k + n \<le> length ber"
    "b AND 0x20 = 0 \<Longrightarrow> obj = asn1Primitive (subslice i j ber) n (subslice k (k + n) ber) \<and> e = k + n"
    "b AND 0x20 \<noteq> 0 \<Longrightarrow> \<exists>os e'. readSubObjects f ber k (k + n) ind = Inr (os, e') \<and> obj = asn1Structured (subslice i j ber) os
       \<and> e = (if ind then e' + 2 else k + n)"
proof -
  obtain b j where t: "read_tag ber i = Inr (b, j)" using assms by (auto split: sum.splits)
  obtain n ind k where l: "read_length ber j = Inr (n, ind, k)" using assms t by (auto split: sum.splits)
  show thesis by (rule that [OF t l]) (use assms t l in \<open>auto simp: Let_def split: if_splits sum.splits\<close>)
qed

lemma readSubObjects_Suc:
  assumes "readSubObjects (Suc f) ber i c ind = Inr (os, e)" "i < c \<or> ind"
  obtains obj k tm where "readObject f ber i = Inr (obj, k)" "(if ind then isIndefiniteTermination ber k else Inr False) = Inr tm"
    "tm \<Longrightarrow> os = [obj] \<and> e = k" "\<not> tm \<Longrightarrow> \<exists>os'. readSubObjects f ber k c ind = Inr (os', e) \<and> os = obj # os'"
proof -
  obtain obj k where r: "readObject f ber i = Inr (obj, k)" using assms by (auto split: sum.splits)
  obtain tm where t: "(if ind then isIndefiniteTermination ber k else Inr False) = Inr tm" using assms r by (auto split: sum.splits)
  show thesis by (rule that [OF r t]) (use assms r t in \<open>auto split: sum.splits if_splits\<close>)
qed

lemma read_wf:
  "(\<forall>i obj e. readObject f ber i = Inr (obj, e) \<longrightarrow> wf_obj obj \<and> i + 2 \<le> e \<and> e \<le> length ber)
   \<and> (\<forall>i c ind os e. readSubObjects f ber i c ind = Inr (os, e) \<longrightarrow> i \<le> length ber
        \<longrightarrow> list_all wf_obj os \<and> i \<le> e \<and> e \<le> length ber \<and> (ind \<longrightarrow> e + 2 \<le> length ber))"
proof (induction f)
  case (Suc f)
  have "wf_obj obj \<and> i + 2 \<le> e \<and> e \<le> length ber" if r: "readObject (Suc f) ber i = Inr (obj, e)" for i obj e
  proof (rule readObject_Suc [OF r])
    fix b j n ind k
    assume t: "read_tag ber i = Inr (b, j)" and l: "read_length ber j = Inr (n, ind, k)" and fit: "k + n \<le> length ber"
      and p: "b AND 0x20 = 0 \<Longrightarrow> obj = asn1Primitive (subslice i j ber) n (subslice k (k + n) ber) \<and> e = k + n"
      and q: "b AND 0x20 \<noteq> 0 \<Longrightarrow> \<exists>os e'. readSubObjects f ber k (k + n) ind = Inr (os, e') \<and> obj = asn1Structured (subslice i j ber) os
         \<and> e = (if ind then e' + 2 else k + n)"
    note tw = read_tag_wf [OF t] and lw = read_length_end [OF l]
    show ?thesis
    proof (cases "b AND 0x20 = 0")
      case True
      then show ?thesis using p tw lw fit by auto
    next
      case False
      then obtain os e' where o: "readSubObjects f ber k (k + n) ind = Inr (os, e')" "obj = asn1Structured (subslice i j ber) os"
        "e = (if ind then e' + 2 else k + n)" using q by blast
      then have "list_all wf_obj os \<and> k \<le> e' \<and> e' \<le> length ber \<and> (ind \<longrightarrow> e' + 2 \<le> length ber)" using Suc lw by blast
      then show ?thesis using o tw lw fit False by auto
    qed
  qed
  moreover have "list_all wf_obj os \<and> i \<le> e \<and> e \<le> length ber \<and> (ind \<longrightarrow> e + 2 \<le> length ber)"
    if r: "readSubObjects (Suc f) ber i c ind = Inr (os, e)" and i: "i \<le> length ber" for i c ind os e
  proof (cases "i < c \<or> ind")
    case True
    show ?thesis
    proof (rule readSubObjects_Suc [OF r True])
      fix obj k tm
      assume o: "readObject f ber i = Inr (obj, k)" and t: "(if ind then isIndefiniteTermination ber k else Inr False) = Inr tm"
        and p: "tm \<Longrightarrow> os = [obj] \<and> e = k" and q: "\<not> tm \<Longrightarrow> \<exists>os'. readSubObjects f ber k c ind = Inr (os', e) \<and> os = obj # os'"
      have w: "wf_obj obj \<and> i + 2 \<le> k \<and> k \<le> length ber" using Suc o by blast
      show ?thesis
      proof (cases tm)
        case True
        have "ind \<longrightarrow> k + 2 \<le> length ber" using t terminated_end [of ber k] by (auto split: if_splits)
        then show ?thesis using p [OF True] w by auto
      next
        case False
        then obtain os' where "readSubObjects f ber k c ind = Inr (os', e)" "os = obj # os'" using q by blast
        moreover from this have "list_all wf_obj os' \<and> k \<le> e \<and> e \<le> length ber \<and> (ind \<longrightarrow> e + 2 \<le> length ber)" using Suc w by blast
        ultimately show ?thesis using w by auto
      qed
    qed
  next
    case False
    then show ?thesis using r i by auto
  qed
  ultimately show ?case by blast
qed simp

section \<open>Fuel\<close>

lemma skip_high_no_fuel: "skip_high ber i \<noteq> Inl BerFuel"
  by (induction ber i rule: skip_high.induct) (subst skip_high.simps, auto)

lemma read_length_bytes_no_fuel: "read_length_bytes ber n l i \<noteq> Inl BerFuel"
  by (induction ber n l i rule: read_length_bytes.induct) (auto simp: ber_at_def)

lemma no_fuel:
  "ber_at ber i \<noteq> Inl BerFuel" "read_tag ber i \<noteq> Inl BerFuel" "read_length ber i \<noteq> Inl BerFuel" "isIndefiniteTermination ber i \<noteq> Inl BerFuel"
proof -
  show a: "ber_at ber i \<noteq> Inl BerFuel" for i by (simp add: ber_at_def)
  show "read_tag ber i \<noteq> Inl BerFuel" 
    using a [of i] skip_high_no_fuel [of ber "i + 1"] by (auto simp: read_tag_def split: sum.split)
  show "read_length ber i \<noteq> Inl BerFuel" 
    using a [of i] a [of "i + 1"] read_length_bytes_no_fuel [of ber _ 0 "i + 1"] by (auto simp: read_length_def Let_def split: sum.split)
qed (simp add: isIndefiniteTermination_def)

lemma enough_fuel:
  "(\<forall>i. 2 * (length ber - i) + 1 \<le> f \<longrightarrow> readObject f ber i \<noteq> Inl BerFuel)
   \<and> (\<forall>i c ind. 2 * (length ber - i) + 2 \<le> f \<longrightarrow> readSubObjects f ber i c ind \<noteq> Inl BerFuel)"
proof (induction f)
  case (Suc f)
  have "readObject (Suc f) ber i \<noteq> Inl BerFuel" if f: "2 * (length ber - i) + 1 \<le> Suc f" for i
  proof (cases "read_tag ber i")
    case (Inr bj)
    obtain b j where t: "read_tag ber i = Inr (b, j)" using Inr by (cases bj) simp
    show ?thesis
    proof (cases "read_length ber j")
      case l: (Inr nk)
      obtain n ind k where l: "read_length ber j = Inr (n, ind, k)" using l by (cases nk) auto
      have "i + 2 \<le> k" "k \<le> length ber" using read_tag_wf [OF t] read_length_end [OF l] by auto
      then have "2 * (length ber - k) + 2 \<le> f" using f by linarith
      then have "readSubObjects f ber k (k + n) ind \<noteq> Inl BerFuel" using Suc by blast
      then show ?thesis using t l by (auto simp: Let_def split: sum.split)
    next
      case (Inl e)
      then show ?thesis using t no_fuel(3) [of ber j] by auto
    qed
  next
    case (Inl e)
    then show ?thesis using no_fuel(2) [of ber i] by auto
  qed
  moreover have "readSubObjects (Suc f) ber i c ind \<noteq> Inl BerFuel" if f: "2 * (length ber - i) + 2 \<le> Suc f" for i c ind
  proof (cases "readObject f ber i")
    case (Inr ok)
    obtain obj k where o: "readObject f ber i = Inr (obj, k)" using Inr by (cases ok) simp
    have "i + 2 \<le> k" "k \<le> length ber" using read_wf [of f ber] o by blast+
    then have "2 * (length ber - k) + 2 \<le> f" using f by linarith
    then have "readSubObjects f ber k c ind \<noteq> Inl BerFuel" using Suc by blast
    then show ?thesis using o no_fuel(4) [of ber k] by (auto split: sum.split)
  next
    case (Inl e)
    have "readObject f ber i \<noteq> Inl BerFuel" using Suc f by auto
    then show ?thesis using Inl by auto
  qed
  ultimately show ?case by blast
qed simp

section \<open>Reading an encoding\<close>

lemma length_EncodeTo: "wf_obj obj \<Longrightarrow> 2 \<le> length (EncodeTo obj)"
proof -
  assume "wf_obj obj"
  then have "1 \<le> length (tagBytes obj)" by (cases obj) (auto simp: wf_tag_def Suc_le_eq)
  moreover have e: "1 \<le> length (encodeLength n)" for n by (simp add: encodeLength_def)
  ultimately show ?thesis
  proof (cases obj)
    case (asn1Primitive t n c)
    then show ?thesis using \<open>1 \<le> length (tagBytes obj)\<close> e [of n] by simp
  next
    case (asn1Structured t os)
    then show ?thesis using \<open>1 \<le> length (tagBytes obj)\<close> e [of "length (concat (map EncodeTo os))"] by (simp add: Let_def)
  qed
qed

lemma subslice_mid: "subslice (length a) (length a + length b) (a @ b @ c) = b"
  by (simp add: subslice_def)

lemma read_header:
  fixes pre post :: bytes
  assumes "wf_tag t" "length c < 2 ^ 31"
  defines "ber \<equiv> pre @ t @ encodeLength (length c) @ c @ post"
  defines "k \<equiv> length pre + length t + length (encodeLength (length c))"
  shows "read_tag ber (length pre) = Inr (hd t, length pre + length t)"
    "read_length ber (length pre + length t) = Inr (length c, False, k)" "k + length c \<le> length ber"
    "subslice (length pre) (length pre + length t) ber = t" "subslice k (k + length c) ber = c"
    "ber = (pre @ t @ encodeLength (length c)) @ c @ post"
proof -
  show "read_tag ber (length pre) = Inr (hd t, length pre + length t)" unfolding ber_def by (rule read_tag_append [OF assms(1)])
  show "read_length ber (length pre + length t) = Inr (length c, False, k)"
    using read_length_encode [OF assms(2), of "pre @ t" "c @ post"] by (simp add: ber_def k_def add.assoc)
  show "subslice (length pre) (length pre + length t) ber = t" unfolding ber_def by (rule subslice_mid)
  show e1: "ber = (pre @ t @ encodeLength (length c)) @ c @ post" by (simp add: ber_def)
  have e2: "k = length (pre @ t @ encodeLength (length c))" by (simp add: k_def)
  show "subslice k (k + length c) ber = c" unfolding e1 e2 by (rule subslice_mid)
  show "k + length c \<le> length ber" by (simp add: ber_def k_def)
qed

text \<open>The loop over sub-objects of a definite length, given that each encoding is read back.\<close>

lemma read_encodings:
  assumes "\<And>obj f pre post. obj \<in> set os \<Longrightarrow> 2 * length (EncodeTo obj) + 1 \<le> f
      \<Longrightarrow> readObject f (pre @ EncodeTo obj @ post) (length pre) = Inr (obj, length pre + length (EncodeTo obj))"
    "list_all wf_obj os" "2 * length (concat (map EncodeTo os)) + 2 \<le> f"
  shows "readSubObjects f (pre @ concat (map EncodeTo os) @ post) (length pre) (length pre + length (concat (map EncodeTo os))) False
     = Inr (os, length pre + length (concat (map EncodeTo os)))"
  using assms
proof (induction os arbitrary: f pre)
  case Nil
  then obtain f' where "f = Suc f'" by (cases f) auto
  then show ?case by simp
next
  case (Cons obj os)
  obtain f' where f: "f = Suc f'" using Cons.prems(3) by (cases f) auto
  have w: "2 \<le> length (EncodeTo obj)" using Cons.prems(2) length_EncodeTo by simp
  let ?rest = "concat (map EncodeTo os)"
  have o: "readObject f' (pre @ EncodeTo obj @ ?rest @ post) (length pre) = Inr (obj, length pre + length (EncodeTo obj))"
    by (rule Cons.prems(1)) (use Cons.prems(3) f in simp_all)
  have "readSubObjects f' ((pre @ EncodeTo obj) @ ?rest @ post) (length (pre @ EncodeTo obj)) (length (pre @ EncodeTo obj) + length ?rest) False
      = Inr (os, length (pre @ EncodeTo obj) + length ?rest)"
    by (rule Cons.IH) (use Cons.prems f w in auto)
  then have r: "readSubObjects f' (pre @ EncodeTo obj @ ?rest @ post) (length pre + length (EncodeTo obj)) (length pre + (length (EncodeTo obj) + length ?rest)) False
      = Inr (os, length pre + (length (EncodeTo obj) + length ?rest))" by (simp add: add.assoc)
  have "length pre < length pre + (length (EncodeTo obj) + length ?rest)" using w by linarith
  then show ?case using o r by (simp add: f)
qed

lemma read_encoding:
  "wf_obj obj \<Longrightarrow> length (EncodeTo obj) < 2 ^ 31 \<Longrightarrow> 2 * length (EncodeTo obj) + 1 \<le> f
     \<Longrightarrow> readObject f (pre @ EncodeTo obj @ post) (length pre) = Inr (obj, length pre + length (EncodeTo obj))"
proof (induction obj arbitrary: f pre post)
  case (asn1Primitive t n c)
  have w: "wf_tag t" "hd t AND 0x20 = 0" "n = length c" using asn1Primitive.prems(1) by simp_all
  have "length c < 2 ^ 31" using asn1Primitive.prems(2) by simp
  note h = read_header [OF w(1) this, where pre = pre and post = post]
  obtain f' where "f = Suc f'" using asn1Primitive.prems(3) by (cases f) auto
  then show ?case using h(1-5) w by (simp add: Let_def not_less add.assoc)
next
  case (asn1Structured t os)
  let ?c = "concat (map EncodeTo os)"
  have w: "wf_tag t" "hd t AND 0x20 \<noteq> 0" "list_all wf_obj os" using asn1Structured.prems(1) by simp_all
  have c: "length ?c < 2 ^ 31" using asn1Structured.prems(2) by (simp add: Let_def)
  note h = read_header [OF w(1) c, where pre = pre and post = post]
  obtain f' where f: "f = Suc f'" using asn1Structured.prems(3) by (cases f) auto
  have tl: "1 \<le> length t" using w(1) by (auto simp: wf_tag_def Suc_le_eq)
  have "2 * length ?c + 2 \<le> f'" using asn1Structured.prems(3) f tl by (simp add: Let_def)
  moreover have "readObject g (q @ EncodeTo obj @ r) (length q) = Inr (obj, length q + length (EncodeTo obj))"
    if o: "obj \<in> set os" "2 * length (EncodeTo obj) + 1 \<le> g" for obj g q r
  proof (rule asn1Structured.IH [OF o(1) _ _ o(2)])
    show "wf_obj obj" using w(3) o(1) by (simp add: list_all_iff)
    have "length (EncodeTo obj) \<le> length ?c" using o(1) by (induction os) auto
    then show "length (EncodeTo obj) < 2 ^ 31" using c by linarith
  qed
  ultimately have s: "readSubObjects f' ((pre @ t @ encodeLength (length ?c)) @ ?c @ post) (length (pre @ t @ encodeLength (length ?c)))
      (length (pre @ t @ encodeLength (length ?c)) + length ?c) False = Inr (os, length (pre @ t @ encodeLength (length ?c)) + length ?c)"
    using read_encodings [OF _ w(3)] by blast
  show ?case using h(1-4) w s unfolding f by (simp add: Let_def not_less add.assoc)
qed

end
