(* ===== verification/BerProps.thy ===== *)
theory BerProps
  imports BerLaws
begin

text \<open>The properties of \<open>crypto/gmsm/x509/ber.go\<close>.\<close>

lemma ber2der_obj:
  assumes "ber2der ber = Inr d"
  obtains obj where "wf_obj obj" "d = EncodeTo obj"
  using assms read_wf [of "ber_fuel ber" ber] by (auto simp: ber2der_def split: if_splits sum.splits)

text \<open>C24. The output of \<open>ber2der\<close> is canonical: what it returns for any input, with indefinite lengths, long tags and lengths
  that are longer than needed, is a fixed point, below the size of 2 GiB from which \<open>readObject\<close> refuses a length. So
  two inputs that denote the same object give the same bytes, and DER passes unchanged, even with
  bytes behind it.\<close>

theorem ber2der_canonical:
  assumes "ber2der ber = Inr d" "length d < 2 ^ 31"
  shows "ber2der (d @ rest) = Inr d"
proof -
  obtain obj where o: "wf_obj obj" "d = EncodeTo obj" by (rule ber2der_obj [OF assms(1)])
  have "readObject (ber_fuel (d @ rest)) (([] :: bytes) @ EncodeTo obj @ rest) (length ([] :: bytes)) = Inr (obj, length ([] :: bytes) + length (EncodeTo obj))"
    by (rule read_encoding [OF o(1)]) (use assms(2) o(2) in \<open>simp_all add: ber_fuel_def\<close>)
  moreover have "d \<noteq> []" using length_EncodeTo [OF o(1)] o(2) by auto
  ultimately show ?thesis using o(2) by (simp add: ber2der_def)
qed

lemma ber2der_canonical_witness:
  "ber2der [0x30, 0x80, 0x02, 0x81, 0x01, 0x05, 0x00, 0x00] = Inr [0x30, 0x03, 0x02, 0x01, 0x05]
     \<and> ber2der ([0x30, 0x03, 0x02, 0x01, 0x05] @ [7]) = Inr [0x30, 0x03, 0x02, 0x01, 0x05]"
proof -
  have "ber2der [0x30, 0x80, 0x02, 0x81, 0x01, 0x05, 0x00, 0x00] = Inr [0x30, 0x03, 0x02, 0x01, 0x05]" by code_simp
  from this ber2der_canonical [OF this, of "[7]"] show ?thesis by simp
qed

text \<open>C33. \<open>ber2der\<close> returns on every input: the recursion ends, and is never deeper than twice the number of bytes of
  the input and two, counting a call of \<open>readObject\<close> and a round of its loop as one level each. The number of calls
  is not bounded so: see \<open>ber2der_rereads\<close>. It does not always return a value: a tag without a length makes it panic,
  and an empty sequence of indefinite length, which is valid BER, is refused, because the loop reads an object before
  it looks for the end.\<close>

theorem ber2der_terminates:
  "ber2der ber \<noteq> Inl BerFuel \<and> readObject (ber_fuel ber + k) ber 0 \<noteq> Inl BerFuel
     \<and> (\<forall>t. wf_tag t \<longrightarrow> ber2der t = Inl BerPanic)
     \<and> (\<forall>t. wf_tag t \<and> hd t AND 0x20 \<noteq> 0 \<longrightarrow> ber2der (t @ [0x80, 0x00, 0x00]) = Inl InvalidBER)"
proof -
  have f: "readObject (ber_fuel b + k) b 0 \<noteq> Inl BerFuel" for b k
    using enough_fuel [of b "ber_fuel b + k"] by (auto simp: ber_fuel_def)
  have "ber2der ber \<noteq> Inl BerFuel" using f [of ber 0] by (auto simp: ber2der_def split: sum.split)
  moreover have "ber2der t = Inl BerPanic" if "wf_tag t" for t
  proof -
    have "t \<noteq> []" using that by (simp add: wf_tag_def)
    then show ?thesis using read_tag_append [OF that, of "[]" "[]"] by (simp add: ber2der_def ber_fuel_def read_length_def ber_at_def)
  qed
  moreover have "ber2der (t @ [0x80, 0x00, 0x00]) = Inl InvalidBER" if "wf_tag t" "hd t AND 0x20 \<noteq> 0" for t
  proof -
    let ?b = "t @ [0x80, 0x00, 0x00]" and ?n = "length t"
    have t: "t \<noteq> []" "0 < length t" using that(1) by (auto simp: wf_tag_def)
    have r0: "read_tag ?b 0 = Inr (hd t, ?n)" using read_tag_append [OF that(1), of "[]" "[0x80, 0x00, 0x00]"] by simp
    have l0: "read_length ?b ?n = Inr (0, True, ?n + 1)" by (simp add: read_length_def ber_at_def)
    have r1: "read_tag ?b (?n + 1) = Inr (0, ?n + 2)" by (simp add: read_tag_def ber_at_def nth_append)
    have l1: "read_length ?b (?n + 2) = Inr (0, False, ?n + 3)" by (simp add: read_length_def ber_at_def nth_append)
    obtain f where f: "ber_fuel ?b = Suc (Suc (Suc f))" using t by (simp add: ber_fuel_def)
    have "readObject (Suc f) ?b (?n + 1) = Inr (asn1Primitive (subslice (?n + 1) (?n + 2) ?b) 0 (subslice (?n + 3) (?n + 3) ?b), ?n + 3)"
      using r1 l1 by (simp add: Let_def)
    moreover have "isIndefiniteTermination ?b (?n + 3) = Inl InvalidBER" by (simp add: isIndefiniteTermination_def)
    ultimately have "readSubObjects (Suc (Suc f)) ?b (?n + 1) (?n + 1) True = Inl InvalidBER"
      by (simp only: readSubObjects.simps simp_thms if_True sum.case prod.case)
    then have "readObject (ber_fuel ?b) ?b 0 = Inl InvalidBER" using r0 l0 that(2) by (simp add: f Let_def del: readSubObjects.simps)
    then show ?thesis by (simp add: ber2der_def)
  qed
  ultimately show ?thesis using f by blast
qed

lemma ber2der_terminates_witness:
  "ber2der [0x30] = Inl BerPanic \<and> ber2der [0x30, 0x80, 0x00, 0x00] = Inl InvalidBER"
proof -
  have "wf_tag [0x30]" "hd [0x30 :: byte] AND 0x20 \<noteq> 0" by (simp_all add: wf_tag_def)
  then show ?thesis using ber2der_terminates [of "[]" 0] by fastforce
qed

section \<open>The number of calls\<close>

text \<open>
  The calls of \<open>readObject\<close> made for one object and for the loop over its sub-objects. An object that
  reaches past the end of the one around it is accepted, and its bytes are read again by the siblings
  of the outer one, so the number of calls can double with every four bytes.
\<close>

fun object_calls :: "nat \<Rightarrow> bytes \<Rightarrow> nat \<Rightarrow> nat"
  and subObject_calls :: "nat \<Rightarrow> bytes \<Rightarrow> nat \<Rightarrow> nat \<Rightarrow> bool \<Rightarrow> nat" where
  "object_calls 0 ber tagStart = 0"
| "object_calls (Suc f) ber tagStart = Suc
     (case read_tag ber tagStart of
        Inl e \<Rightarrow> 0
      | Inr (b, tagEnd) \<Rightarrow>
          (case read_length ber tagEnd of
             Inl e \<Rightarrow> 0
           | Inr (n, indefinite, offset) \<Rightarrow>
               if offset + n > length ber \<or> b AND 0x20 = 0 then 0
               else subObject_calls f ber offset (offset + n) indefinite))"
| "subObject_calls 0 ber offset contentEnd indefinite = 0"
| "subObject_calls (Suc f) ber offset contentEnd indefinite =
     (if offset < contentEnd \<or> indefinite then
        object_calls f ber offset
        + (case readObject f ber offset of
             Inl e \<Rightarrow> 0
           | Inr (subObj, offset') \<Rightarrow>
               if indefinite \<and> isIndefiniteTermination ber offset' \<noteq> Inr False then 0
               else subObject_calls f ber offset' contentEnd indefinite)
      else 0)"

definition rereadInput :: bytes where
  "rereadInput = [0x30, 2, 0x30, 20, 0x30, 2, 0x30, 16, 0x30, 2, 0x30, 12, 0x30, 2, 0x30, 8, 0x30, 2, 0x30, 4, 0x30, 2, 0x30, 0]"

lemma ber2der_rereads:
  "length rereadInput = 24 \<and> object_calls (ber_fuel rereadInput) rereadInput 0 = 64
     \<and> object_calls (ber_fuel (drop 4 rereadInput)) (drop 4 rereadInput) 0 = 32"
  by code_simp

end
