(* ===== verification/GoBuffer.thy ===== *)
theory GoBuffer
  imports Prelude "HOL-Library.Monad_Syntax"
begin

text \<open>
  Reading and writing byte slices by index, as \<open>crypto/gmsm/gmtls/handshake_messages.go\<close> does. \<open>None\<close> is the run-time
  panic of Go on an index or a slice bound out of range. A writer has a buffer made by \<open>make([]byte, n)\<close> and the
  offset of the slice \<open>z\<close> of it that is being filled: \<open>z[i] = b\<close> is \<open>put i b\<close>, \<open>z = z[k:]\<close> is \<open>advance_by k\<close> and
  \<open>copy(z[i:], src)\<close> is \<open>copyTo i src\<close>. The predicate \<open>appends\<close> says which bytes a block of such statements leaves behind;
  it composes, so that the bytes of a message are the concatenation of the bytes of its blocks.
\<close>

section \<open>Reading\<close>

definition at_idx :: "'a list \<Rightarrow> nat \<Rightarrow> 'a option" where
  "at_idx xs i = (if i < length xs then Some (xs ! i) else None)"

definition slice_from :: "'a list \<Rightarrow> nat \<Rightarrow> 'a list option" where
  "slice_from xs i = (if i \<le> length xs then Some (drop i xs) else None)"

definition slice_to :: "'a list \<Rightarrow> nat \<Rightarrow> 'a list option" where
  "slice_to xs j = (if j \<le> length xs then Some (take j xs) else None)"

definition slice_between :: "'a list \<Rightarrow> nat \<Rightarrow> nat \<Rightarrow> 'a list option" where
  "slice_between xs i j = (if i \<le> j \<and> j \<le> length xs then Some (subslice i j xs) else None)"

text \<open>The expressions \<open>int(d[i])<<8 | int(d[i+1])\<close>, \<open>uint16(d[i])<<8 | uint16(d[i+1])\<close> and
  \<open>uint32(d[i])<<16 | uint32(d[i+1])<<8 | uint32(d[i+2])\<close>; the last one also as an \<open>int\<close>.\<close>

definition int16_at :: "bytes \<Rightarrow> nat \<Rightarrow> nat option" where
  "int16_at d i = do { a \<leftarrow> at_idx d i; b \<leftarrow> at_idx d (i + 1); Some (push_bit 8 (unat a) OR unat b) }"

definition uint16_at :: "bytes \<Rightarrow> nat \<Rightarrow> 16 word option" where
  "uint16_at d i = do { a \<leftarrow> at_idx d i; b \<leftarrow> at_idx d (i + 1); Some (push_bit 8 (ucast a) OR ucast b) }"

definition uint32_at :: "bytes \<Rightarrow> nat \<Rightarrow> 32 word option" where
  "uint32_at d i = do { a \<leftarrow> at_idx d i; b \<leftarrow> at_idx d (i + 1); c \<leftarrow> at_idx d (i + 2);
     Some (push_bit 16 (ucast a) OR push_bit 8 (ucast b) OR ucast c) }"

definition int24_at :: "bytes \<Rightarrow> nat \<Rightarrow> nat option" where
  "int24_at d i = do { a \<leftarrow> at_idx d i; b \<leftarrow> at_idx d (i + 1); c \<leftarrow> at_idx d (i + 2);
     Some (push_bit 16 (unat a) OR push_bit 8 (unat b) OR unat c) }"

section \<open>Writing\<close>

type_synonym cursor = "bytes \<times> nat"

definition put :: "nat \<Rightarrow> byte \<Rightarrow> cursor \<Rightarrow> cursor option" where
  "put i b = (\<lambda>(x, z). if z + i < length x then Some (x[z + i := b], z) else None)"

definition advance_by :: "nat \<Rightarrow> cursor \<Rightarrow> cursor option" where
  "advance_by k = (\<lambda>(x, z). if z + k \<le> length x then Some (x, z + k) else None)"

definition copyTo :: "nat \<Rightarrow> bytes \<Rightarrow> cursor \<Rightarrow> cursor option" where
  "copyTo i src = (\<lambda>(x, z). if z + i \<le> length x then Some (copy_at (z + i) src x, z) else None)"

text \<open>\<open>copy(z[i:j], src)\<close>: no more than \<open>j - i\<close> bytes.\<close>

definition copyInto :: "nat \<Rightarrow> nat \<Rightarrow> bytes \<Rightarrow> cursor \<Rightarrow> cursor option" where
  "copyInto i j src =
     (\<lambda>(x, z). if i \<le> j \<and> z + j \<le> length x then Some (copy_at (z + i) (take (j - i) src) x, z) else None)"

text \<open>A sequence of statements, an \<open>if\<close> without \<open>else\<close>, and a loop over a list.\<close>

fun stmts :: "('s \<Rightarrow> 's option) list \<Rightarrow> 's \<Rightarrow> 's option" where
  "stmts [] s = Some s"
| "stmts (f # fs) s = do { s \<leftarrow> f s; stmts fs s }"

definition whenever :: "bool \<Rightarrow> ('s \<Rightarrow> 's option) \<Rightarrow> 's \<Rightarrow> 's option" where
  "whenever c f s = (if c then f s else Some s)"

definition foreach :: "'a list \<Rightarrow> ('a \<Rightarrow> 's \<Rightarrow> 's option) \<Rightarrow> 's \<Rightarrow> 's option" where
  "foreach xs f = stmts (map f xs)"

text \<open>\<open>x := make([]byte, n)\<close> and the statements that fill \<open>x\<close>.\<close>

definition make_and_fill :: "nat \<Rightarrow> (cursor \<Rightarrow> cursor option) list \<Rightarrow> bytes option" where
  "make_and_fill n fs = map_option fst (stmts fs (replicate n 0, 0))"

text \<open>The bytes \<open>byte(n)\<close>, \<open>byte(n >> 8)\<close> and \<open>byte(n >> 16)\<close> of an \<open>int\<close>, and those of a \<open>uint16\<close>.\<close>

definition byte0 :: "nat \<Rightarrow> byte" where
  "byte0 n = word_of_nat n"

definition byte1 :: "nat \<Rightarrow> byte" where
  "byte1 n = word_of_nat (drop_bit 8 n)"

definition byte2 :: "nat \<Rightarrow> byte" where
  "byte2 n = word_of_nat (drop_bit 16 n)"

definition lo16 :: "16 word \<Rightarrow> byte" where
  "lo16 w = ucast w"

definition hi16 :: "16 word \<Rightarrow> byte" where
  "hi16 w = ucast (drop_bit 8 w)"

section \<open>What a reader returns\<close>

lemma push_or_nat:
  assumes "b < 256" shows "push_bit 8 a OR b = a * 256 + (b :: nat)"
proof -
  have "take_bit 8 b = b" using assms by (simp add: take_bit_nat_eq_self)
  then have "push_bit 8 a AND b = 0" by (metis (no_types, lifting) bit_eqI bit_and_iff bit_push_bit_iff bit_take_bit_iff bit_0_eq bot_apply bot_bool_def linorder_not_le)
  then have "push_bit 8 a + b = push_bit 8 a OR b" by (rule disjunctive_add_eq_or)
  then show ?thesis by (simp add: push_bit_eq_mult)
qed

lemma push_or_nat24:
  assumes "b < 256" "c < 256" shows "push_bit 16 a OR push_bit 8 b OR c = a * 65536 + b * 256 + (c :: nat)"
proof -
  have "push_bit 16 a OR push_bit 8 b OR c = push_bit 8 (push_bit 8 a OR b) OR c"
    by (simp add: push_bit_or or.assoc)
  also have "\<dots> = (a * 256 + b) * 256 + c" using assms by (simp add: push_or_nat)
  finally show ?thesis by simp
qed

lemma uint16_of_bytes: "(push_bit 8 (ucast a) OR ucast b :: 16 word) = word_of_nat (unat (a :: byte) * 256 + unat (b :: byte))"
proof -
  have "(push_bit 8 (ucast a) OR ucast b :: 16 word) = word_of_nat (push_bit 8 (unat a) OR unat b)"
    by (simp add: of_nat_or_eq push_bit_of_nat [symmetric] del: push_bit_of_nat)
  then show ?thesis using push_or_nat [of "unat b" "unat a"] unat_byte_less [of b] by simp
qed

lemma uint32_of_bytes:
  "(push_bit 16 (ucast a) OR push_bit 8 (ucast b) OR ucast c :: 32 word)
     = word_of_nat (unat (a :: byte) * 65536 + unat (b :: byte) * 256 + unat (c :: byte))"
proof -
  have "(push_bit 16 (ucast a) OR push_bit 8 (ucast b) OR ucast c :: 32 word)
          = word_of_nat (push_bit 16 (unat a) OR push_bit 8 (unat b) OR unat c)"
    by (simp add: of_nat_or_eq push_bit_of_nat [symmetric] del: push_bit_of_nat)
  then show ?thesis using push_or_nat24 [of "unat b" "unat c" "unat a"] unat_byte_less [of b] unat_byte_less [of c] by simp
qed

named_theorems readers \<open>what the readers return on a slice of known shape\<close>

lemma at_idx_Cons_0 [readers]: "at_idx (b # d) 0 = Some b"
  and at_idx_Cons_Suc [readers]: "at_idx (b # d) (Suc i) = at_idx d i"
  by (simp_all add: at_idx_def)

lemma at_idx_append [readers]: "length p = i \<Longrightarrow> at_idx (p @ d) i = at_idx d 0"
  by (auto simp: at_idx_def nth_append)

lemma slice_from_append [readers]: "length p = i \<Longrightarrow> slice_from (p @ d) i = Some d"
  by (auto simp: slice_from_def)

lemma slice_to_append [readers]: "length p = i \<Longrightarrow> slice_to (p @ d) i = Some p"
  by (auto simp: slice_to_def)

lemma slice_to_self [readers]: "length p = i \<Longrightarrow> slice_to p i = Some p"
  by (auto simp: slice_to_def)

lemma slice_between_append [readers]:
  "length p = i \<Longrightarrow> length q = j - i \<Longrightarrow> i \<le> j \<Longrightarrow> slice_between (p @ q @ d) i j = Some q"
  by (auto simp: slice_between_def subslice_def)

lemma unat_byte_of_nat_mod: "unat (word_of_nat n :: byte) = n mod 256"
  by (simp add: unat_of_nat)

lemma byte_of_nat_mod: "(word_of_nat (n mod 256) :: byte) = word_of_nat n"
  by (rule word_unat_eq_iff [THEN iffD2]) (simp add: unat_byte_of_nat_mod)

lemma be_fixed_2: "be_fixed 2 n = [byte1 n, byte0 n]"
  by (subst numeral_2_eq_2) (simp add: byte_of_nat_mod byte1_def byte0_def drop_bit_eq_div)

lemma be_fixed_3: "be_fixed 3 n = [byte2 n, byte1 n, byte0 n]"
  by (subst numeral_3_eq_3) (simp add: byte_of_nat_mod byte2_def byte1_def byte0_def drop_bit_eq_div div_mult2_eq [symmetric])

lemma be_fixed_1: "be_fixed (Suc 0) n = [byte0 n]"
  by (simp add: byte0_def byte_of_nat_mod)

lemma unat_bytes: "unat (byte0 n) = n mod 256" "unat (byte1 n) = n div 256 mod 256" "unat (byte2 n) = n div 65536 mod 256"
  by (simp_all add: byte0_def byte1_def byte2_def drop_bit_eq_div unat_byte_of_nat_mod)

lemma int16_at_be [readers]: "n < 65536 \<Longrightarrow> length p = i \<Longrightarrow> int16_at (p @ be_fixed 2 n @ d) i = Some n"
  by (simp add: int16_at_def be_fixed_2 at_idx_def nth_append push_or_nat unat_byte_less unat_bytes)

lemma int16_at_be_0 [readers]: "n < 65536 \<Longrightarrow> int16_at (be_fixed 2 n @ d) 0 = Some n"
  using int16_at_be [of n "[]" 0 d] by simp

lemma mod_div_mod_65536: "n div 256 mod 256 * 256 + n mod 256 = n mod (65536 :: nat)"
  using mod_mult2_eq [of n 256 256] by simp

lemma uint16_at_be [readers]: "length p = i \<Longrightarrow> uint16_at (p @ be_fixed 2 n @ d) i = Some (word_of_nat n)"
  by (simp add: uint16_at_def be_fixed_2 at_idx_def nth_append uint16_of_bytes unat_bytes mod_div_mod_65536 del: of_nat_add of_nat_mult)
     (simp add: word_unat_eq_iff unat_of_nat)

lemma uint16_at_be_0 [readers]: "uint16_at (be_fixed 2 n @ d) 0 = Some (word_of_nat n)"
  using uint16_at_be [of "[]" 0 n d] by simp

lemma mod_div_mod_24: "n div 65536 mod 256 * 65536 + n div 256 mod 256 * 256 + n mod 256 = n mod (16777216 :: nat)"
proof -
  have "n mod (65536 * 256) = 65536 * (n div 65536 mod 256) + n mod 65536" by (rule mod_mult2_eq)
  then show ?thesis using mod_div_mod_65536 [of n] by simp
qed

lemma uint32_at_be [readers]: "length p = i \<Longrightarrow> uint32_at (p @ be_fixed 3 n @ d) i = Some (word_of_nat (n mod 16777216))"
  by (simp add: uint32_at_def be_fixed_3 at_idx_def nth_append uint32_of_bytes unat_bytes mod_div_mod_24 del: of_nat_add of_nat_mult)

lemma uint32_at_be_0 [readers]: "uint32_at (be_fixed 3 n @ d) 0 = Some (word_of_nat (n mod 16777216))"
  using uint32_at_be [of "[]" 0 n d] by simp

lemma uint32_at_SomeD:
  assumes "uint32_at d i = Some w" shows "unat w < 16777216" and "i + 2 < length d"
proof -
  have "i + 2 < length d \<and> w = word_of_nat (unat (d ! i) * 65536 + unat (d ! (i + 1)) * 256 + unat (d ! (i + 2)))"
    using assms by (auto simp: uint32_at_def at_idx_def uint32_of_bytes bind_eq_Some_conv simp del: of_nat_add of_nat_mult split: if_splits)
  moreover have "unat (d ! i) * 65536 + unat (d ! (i + 1)) * 256 + unat (d ! (i + 2)) < 16777216"
    using unat_byte_less [of "d ! i"] unat_byte_less [of "d ! (i + 1)"] unat_byte_less [of "d ! (i + 2)"] by linarith
  ultimately show "unat w < 16777216" and "i + 2 < length d"
    by (simp_all add: unat_of_nat del: of_nat_add of_nat_mult)
qed

lemma int24_at_be [readers]: "n < 16777216 \<Longrightarrow> length p = i \<Longrightarrow> int24_at (p @ be_fixed 3 n @ d) i = Some n"
  using mod_div_mod_24 [of n]
  by (simp add: int24_at_def be_fixed_3 at_idx_def nth_append push_or_nat24 unat_byte_less unat_bytes)

lemma uint16_of_16: "hi16 w # lo16 w # d = be_fixed 2 (unat w) @ d"
proof -
  have "hi16 w = word_of_nat (unat (drop_bit 8 w))" "lo16 w = word_of_nat (unat w)"
    by (simp_all only: hi16_def lo16_def of_nat_unat)
  moreover have "unat w < 2 ^ LENGTH(16)" by (rule unsigned_less)
  then have "unat (drop_bit 8 w) = drop_bit 8 (unat w)"
    by (simp add: unsigned_drop_bit_eq take_bit_nat_eq_self)
  ultimately have "hi16 w = byte1 (unat w)" "lo16 w = byte0 (unat w)"
    by (simp_all only: byte1_def byte0_def)
  then show ?thesis by (simp add: be_fixed_2)
qed

text \<open>What a reading expression yields, in terms of the bounds it checks.\<close>

named_theorems bounded \<open>when a reading expression does not panic\<close>

lemma at_idx_ok [bounded]: "i < length d \<Longrightarrow> at_idx d i = Some (d ! i)"
  and slice_from_ok [bounded]: "i \<le> length d \<Longrightarrow> slice_from d i = Some (drop i d)"
  and slice_to_ok [bounded]: "i \<le> length d \<Longrightarrow> slice_to d i = Some (take i d)"
  and slice_between_ok [bounded]: "i \<le> j \<Longrightarrow> j \<le> length d \<Longrightarrow> slice_between d i j = Some (subslice i j d)"
  by (simp_all add: at_idx_def slice_from_def slice_to_def slice_between_def)

definition val16 :: "bytes \<Rightarrow> nat \<Rightarrow> nat" where
  "val16 d i = unat (d ! i) * 256 + unat (d ! (i + 1))"

definition val24 :: "bytes \<Rightarrow> nat \<Rightarrow> nat" where
  "val24 d i = unat (d ! i) * 65536 + unat (d ! (i + 1)) * 256 + unat (d ! (i + 2))"

lemma val16_bound: "val16 d i < 65536"
  using unat_byte_less [of "d ! i"] unat_byte_less [of "d ! (i + 1)"] by (simp add: val16_def)

lemma val24_bound: "val24 d i < 16777216"
  using unat_byte_less [of "d ! i"] unat_byte_less [of "d ! (i + 1)"] unat_byte_less [of "d ! (i + 2)"]
  by (simp add: val24_def)

lemma int16_at_ok [bounded]: "i + 1 < length d \<Longrightarrow> int16_at d i = Some (val16 d i)"
  by (simp add: int16_at_def at_idx_def push_or_nat unat_byte_less val16_def)

lemma uint16_at_ok [bounded]: "i + 1 < length d \<Longrightarrow> uint16_at d i = Some (word_of_nat (val16 d i))"
  by (simp add: uint16_at_def at_idx_def uint16_of_bytes val16_def)

lemma uint32_at_ok [bounded]: "i + 2 < length d \<Longrightarrow> uint32_at d i = Some (word_of_nat (val24 d i))"
  by (simp add: uint32_at_def at_idx_def uint32_of_bytes val24_def)

lemma int24_at_ok [bounded]: "i + 2 < length d \<Longrightarrow> int24_at d i = Some (val24 d i)"
  by (simp add: int24_at_def at_idx_def push_or_nat24 unat_byte_less val24_def)

lemma unat_val16 [simp]: "unat (word_of_nat (val16 d i) :: 16 word) = val16 d i"
  using val16_bound [of d i] by (simp add: unat_of_nat)

lemma unat_val24 [simp]: "unat (word_of_nat (val24 d i) :: 32 word) = val24 d i"
  using val24_bound [of d i] by (simp add: unat_of_nat)

section \<open>Freedom from panics\<close>

definition no_panic :: "'a option \<Rightarrow> bool" where
  "no_panic r \<longleftrightarrow> r \<noteq> None"

named_theorems no_panic \<open>introduction rules for reading code that does not panic\<close>

lemma no_panic_Some [no_panic]: "no_panic (Some x)"
  by (simp add: no_panic_def)

lemma no_panic_bind [no_panic]: "no_panic r \<Longrightarrow> (\<And>x. r = Some x \<Longrightarrow> no_panic (f x)) \<Longrightarrow> no_panic (r \<bind> f)"
  by (auto simp: no_panic_def)

text \<open>The length of what a slice expression returns comes with the expression.\<close>

lemma no_panic_bind_from [no_panic]:
  "i \<le> length d \<Longrightarrow> (\<And>d'. slice_from d i = Some d' \<Longrightarrow> length d' = length d - i \<Longrightarrow> no_panic (f d')) \<Longrightarrow>
   no_panic (slice_from d i \<bind> f)"
  and no_panic_bind_to [no_panic]:
  "j \<le> length d \<Longrightarrow> (\<And>d'. slice_to d j = Some d' \<Longrightarrow> length d' = j \<Longrightarrow> no_panic (f d')) \<Longrightarrow>
   no_panic (slice_to d j \<bind> f)"
  and no_panic_bind_between [no_panic]:
  "i \<le> j \<and> j \<le> length d \<Longrightarrow> (\<And>d'. slice_between d i j = Some d' \<Longrightarrow> length d' = j - i \<Longrightarrow> no_panic (f d')) \<Longrightarrow>
   no_panic (slice_between d i j \<bind> f)"
  by (simp_all add: slice_from_ok slice_to_ok slice_between_ok min_absorb1 diff_le_mono)

lemma no_panic_if [no_panic]: "(c \<Longrightarrow> no_panic r) \<Longrightarrow> (\<not> c \<Longrightarrow> no_panic s) \<Longrightarrow> no_panic (if c then r else s)"
  by simp

lemma no_panic_option [no_panic]:
  "(x = None \<Longrightarrow> no_panic r) \<Longrightarrow> (\<And>y. x = Some y \<Longrightarrow> no_panic (f y)) \<Longrightarrow> no_panic (case x of None \<Rightarrow> r | Some y \<Rightarrow> f y)"
  by (cases x) simp_all

lemma no_panic_prod [no_panic]: "(\<And>a b. x = (a, b) \<Longrightarrow> no_panic (f a b)) \<Longrightarrow> no_panic (case x of (a, b) \<Rightarrow> f a b)"
  by (cases x) simp

lemma no_panic_at_idx [no_panic]: "i < length e \<Longrightarrow> no_panic (at_idx e i)"
  and no_panic_slice_between: "i \<le> j \<Longrightarrow> j \<le> length e \<Longrightarrow> no_panic (slice_between e i j)"
  by (simp_all add: no_panic_def bounded)

lemma no_panic_int16_at [no_panic]: "i + 1 < length e \<Longrightarrow> no_panic (int16_at e i)"
  and no_panic_uint16_at [no_panic]: "i + 1 < length e \<Longrightarrow> no_panic (uint16_at e i)"
  and no_panic_uint32_at [no_panic]: "i + 2 < length e \<Longrightarrow> no_panic (uint32_at e i)"
  and no_panic_int24_at [no_panic]: "i + 2 < length e \<Longrightarrow> no_panic (int24_at e i)"
  by (simp_all add: no_panic_def bounded)

section \<open>What a writer leaves behind\<close>

definition appends :: "(cursor \<Rightarrow> cursor option) \<Rightarrow> bytes \<Rightarrow> bool" where
  "appends f bs \<longleftrightarrow>
     (\<forall>pre m. f (pre @ replicate (length bs + m) 0, length pre) = Some (pre @ bs @ replicate m 0, length pre + length bs))"

named_theorems writers \<open>the statements of a writer on the part of the buffer that is still zero\<close>

lemma put_writes [writers]: "put i b (pre @ r, length pre) = (if i < length r then Some (pre @ r[i := b], length pre) else None)"
  by (simp add: put_def list_update_append)

lemma advance_writes [writers]: "advance_by k (pre @ r, length pre) = (if k \<le> length r then Some (pre @ r, length pre + k) else None)"
  by (simp add: advance_by_def)

lemma copyTo_writes [writers]:
  "copyTo i src (pre @ r, length pre) = (if i \<le> length r then Some (pre @ copy_at i src r, length pre) else None)"
  by (simp add: copyTo_def copy_at_def)

lemma copyInto_writes [writers]:
  "copyInto i j src (pre @ r, length pre)
     = (if i \<le> j \<and> j \<le> length r then Some (pre @ copy_at i (take (j - i) src) r, length pre) else None)"
  by (simp add: copyInto_def copy_at_def)

lemma appends_Nil [intro]: "appends (stmts []) []"
  by (simp add: appends_def)

lemma appends_Cons:
  assumes "appends f a" and "appends (stmts fs) b" and "c = a @ b"
  shows "appends (stmts (f # fs)) c"
  unfolding appends_def
proof (intro allI)
  fix pre m
  have "f (pre @ replicate (length c + m) 0, length pre) = Some ((pre @ a) @ replicate (length b + m) 0, length (pre @ a))"
    using assms(1,3) unfolding appends_def by (simp add: add.assoc)
  then show "stmts (f # fs) (pre @ replicate (length c + m) 0, length pre) = Some (pre @ c @ replicate m 0, length pre + length c)"
    using assms(2,3) unfolding appends_def by (simp only: stmts.simps bind.bind_lunit) (simp add: add.assoc)
qed

lemma appends_stmts_Cons: "appends f a \<Longrightarrow> appends (stmts fs) b \<Longrightarrow> appends (stmts (f # fs)) (a @ b)"
  by (rule appends_Cons) simp_all

lemma appends_last: "appends f a \<Longrightarrow> appends (stmts [f]) a"
  by (rule appends_Cons [OF _ appends_Nil]) simp_all

lemma appends_whenever: "appends f a \<Longrightarrow> appends (whenever c f) (if c then a else [])"
  by (simp add: appends_def whenever_def)

lemma appends_foreach: "(\<And>x. x \<in> set xs \<Longrightarrow> appends (f x) (g x)) \<Longrightarrow> appends (foreach xs f) (concat (map g xs))"
  by (induction xs) (auto simp: foreach_def intro: appends_stmts_Cons)

lemma appends_pair: "appends (stmts [put 0 a, put 1 b, advance_by 2]) [a, b]"
  by (simp add: appends_def writers)

lemma appends_uint16: "appends (stmts [put 0 (hi16 w), put 1 (lo16 w), advance_by 2]) (be_fixed 2 (unat w))"
  using appends_pair [of "hi16 w" "lo16 w"] uint16_of_16 [of w "[]"] by simp

lemma appends_int16: "appends (stmts [put 0 (byte1 n), put 1 (byte0 n), advance_by 2]) (be_fixed 2 n)"
  using appends_pair by (simp add: be_fixed_2)

lemma stmts_append: "stmts (fs @ gs) s = stmts fs s \<bind> stmts gs"
  by (induction fs arbitrary: s) (simp_all split: bind_split)

text \<open>Two blocks in sequence, and a block followed by a statement.\<close>

lemma appends_append:
  assumes "appends (stmts fs) a" and "appends (stmts gs) b" and "hs = fs @ gs" and "c = a @ b"
  shows "appends (stmts hs) c"
  unfolding appends_def
proof (intro allI)
  fix pre m
  have "stmts fs (pre @ replicate (length c + m) 0, length pre) = Some ((pre @ a) @ replicate (length b + m) 0, length (pre @ a))"
    using assms(1,4) unfolding appends_def by (simp add: add.assoc)
  then show "stmts hs (pre @ replicate (length c + m) 0, length pre) = Some (pre @ c @ replicate m 0, length pre + length c)"
    using assms(2-) unfolding appends_def by (simp only: stmts_append bind.bind_lunit) (simp add: add.assoc)
qed

text \<open>The statements of a whole message need not leave the cursor at its end.\<close>

definition fills :: "(cursor \<Rightarrow> cursor option) \<Rightarrow> bytes \<Rightarrow> bool" where
  "fills f bs \<longleftrightarrow> (\<forall>pre. \<exists>z. f (pre @ replicate (length bs) 0, length pre) = Some (pre @ bs, z))"

lemma appends_fills: "appends f bs \<Longrightarrow> fills f bs"
  unfolding appends_def fills_def by (metis add_0_right append_Nil2 replicate_0)

lemma fills_append:
  assumes "appends (stmts fs) a" and "fills (stmts gs) b" and "hs = fs @ gs" and "c = a @ b"
  shows "fills (stmts hs) c"
  unfolding fills_def
proof
  fix pre
  have "stmts fs (pre @ replicate (length c) 0, length pre) = Some ((pre @ a) @ replicate (length b) 0, length (pre @ a))"
    using assms(1,4) unfolding appends_def by simp
  moreover obtain z where "stmts gs ((pre @ a) @ replicate (length b) 0, length (pre @ a)) = Some ((pre @ a) @ b, z)"
    using assms(2) unfolding fills_def by blast
  ultimately show "\<exists>z. stmts hs (pre @ replicate (length c) 0, length pre) = Some (pre @ c, z)"
    using assms(3,4) by (simp add: stmts_append)
qed

lemma make_and_fill_exact:
  assumes "fills (stmts fs) bs" and "length bs = n"
  shows "make_and_fill n fs = Some bs"
proof -
  from assms(1) [unfolded fills_def, rule_format, of "[]"] obtain z where "stmts fs (replicate (length bs) 0, 0) = Some (bs, z)"
    by auto
  then show ?thesis using assms(2) by (simp add: make_and_fill_def)
qed

end
