(* ===== verification/TlsMessages.thy ===== *)
theory TlsMessages
  imports GoBuffer
begin

text \<open>
  The handshake messages of \<open>crypto/gmsm/gmtls/handshake_messages.go\<close> and \<open>gm_handshake_messages.go\<close>, the two hello
  messages excepted. A message is a record whose field \<open>raw\<close> is \<open>None\<close> for a nil slice; the other slices are lists,
  so that a nil slice and an empty one are the same. \<open>marshal\<close> returns the bytes and the message with its \<open>raw\<close> set,
  \<open>unmarshal\<close> its verdict and the message as far as it was filled; \<open>None\<close> is a run-time panic. A slice of the input is
  the list of its bytes: nobody writes to it.
\<close>

section \<open>Constants of common.go\<close>

definition typeHelloRequest :: byte where "typeHelloRequest = 0"
definition typeClientHello :: byte where "typeClientHello = 1"
definition typeServerHello :: byte where "typeServerHello = 2"
definition typeNewSessionTicket :: byte where "typeNewSessionTicket = 4"
definition typeCertificate :: byte where "typeCertificate = 11"
definition typeServerKeyExchange :: byte where "typeServerKeyExchange = 12"
definition typeCertificateRequest :: byte where "typeCertificateRequest = 13"
definition typeServerHelloDone :: byte where "typeServerHelloDone = 14"
definition typeCertificateVerify :: byte where "typeCertificateVerify = 15"
definition typeClientKeyExchange :: byte where "typeClientKeyExchange = 16"
definition typeFinished :: byte where "typeFinished = 20"
definition typeCertificateStatus :: byte where "typeCertificateStatus = 22"
definition typeNextProtocol :: byte where "typeNextProtocol = 67"
definition statusTypeOCSP :: byte where "statusTypeOCSP = 1"

section \<open>The messages\<close>

record certificateMsg =
  cm_raw :: "bytes option"
  cm_certificates :: "bytes list"

record serverKeyExchangeMsg =
  ske_raw :: "bytes option"
  ske_key :: bytes

record certificateStatusMsg =
  cs_raw :: "bytes option"
  cs_statusType :: byte
  cs_response :: bytes

record clientKeyExchangeMsg =
  cke_raw :: "bytes option"
  cke_ciphertext :: bytes

record finishedMsg =
  fin_raw :: "bytes option"
  fin_verifyData :: bytes

record nextProtoMsg =
  np_raw :: "bytes option"
  np_proto :: bytes

record certificateRequestMsg =
  cr_raw :: "bytes option"
  cr_hasSignatureAndHash :: bool
  cr_certificateTypes :: bytes
  cr_supportedSignatureAlgorithms :: "16 word list"
  cr_certificateAuthorities :: "bytes list"

record certificateVerifyMsg =
  cv_raw :: "bytes option"
  cv_hasSignatureAndHash :: bool
  cv_signatureAlgorithm :: "16 word"
  cv_signature :: bytes

record newSessionTicketMsg =
  nst_raw :: "bytes option"
  nst_ticket :: bytes

record certificateRequestMsgGM =
  gm_raw :: "bytes option"
  gm_certificateTypes :: bytes
  gm_certificateAuthorities :: "bytes list"

section \<open>Certificates\<close>

definition certificateMsg_marshal :: "certificateMsg \<Rightarrow> (bytes \<times> certificateMsg) option" where
  "certificateMsg_marshal m =
     (case cm_raw m of
        Some r \<Rightarrow> Some (r, m)
      | None \<Rightarrow>
          let i = sum_list (map length (cm_certificates m));
              len = 3 + 3 * length (cm_certificates m) + i;
              certificateOctets = len - 3
          in do {
            x \<leftarrow> make_and_fill (4 + len)
              [put 0 typeCertificate, put 1 (byte2 len), put 2 (byte1 len), put 3 (byte0 len),
               put 4 (byte2 certificateOctets), put 5 (byte1 certificateOctets), put 6 (byte0 certificateOctets),
               advance_by 7,
               foreach (cm_certificates m) (\<lambda>slice. stmts
                 [put 0 (byte2 (length slice)), put 1 (byte1 (length slice)), put 2 (byte0 (length slice)),
                  copyTo 3 slice, advance_by (3 + length slice)])];
            Some (x, m\<lparr>cm_raw := Some x\<rparr>) })"

text \<open>The first loop counts_exts the certificates, \<open>Some None\<close> is its \<open>return false\<close>; the second one cuts them out.\<close>

lemma unat_3_plus: "unat w < 16777216 \<Longrightarrow> unat (3 + w :: 32 word) = 3 + unat w"
  by (simp add: unat_word_ariths)

function count_certs :: "32 word \<Rightarrow> bytes \<Rightarrow> nat \<Rightarrow> nat option option" where
  "count_certs certsLen d numCerts =
     (if 0 < certsLen then
        if length d < 4 then Some None
        else do {
          certLen \<leftarrow> uint32_at d 0;
          if word_of_nat (length d) < 3 + certLen then Some None
          else do {
            d' \<leftarrow> slice_from d (unat (3 + certLen));
            count_certs (certsLen - (3 + certLen)) d' (numCerts + 1) } }
      else Some (Some numCerts))"
  by auto
termination
proof (relation "measure (\<lambda>(certsLen, d, numCerts). length d)")
  show "wf (measure (\<lambda>(certsLen, d, numCerts). length d))" by (rule wf_measure)
next
  fix certsLen d numCerts certLen d'
  assume "\<not> length d < 4" "uint32_at d 0 = Some certLen" "slice_from d (unat (3 + certLen)) = Some d'"
  then have "length d' < length d"
    using uint32_at_SomeD [of d 0 certLen] by (auto simp: slice_from_def unat_3_plus split: if_splits)
  then show "((certsLen - (3 + certLen), d', numCerts + 1), certsLen, d, numCerts)
      \<in> measure (\<lambda>(certsLen, d, numCerts). length d)" by simp
qed

declare count_certs.simps [simp del]

fun cut_certs :: "nat \<Rightarrow> bytes \<Rightarrow> bytes list option" where
  "cut_certs 0 d = Some []"
| "cut_certs (Suc n) d = do {
     certLen \<leftarrow> uint32_at d 0;
     c \<leftarrow> slice_between d 3 (unat (3 + certLen));
     d \<leftarrow> slice_from d (unat (3 + certLen));
     cs \<leftarrow> cut_certs n d;
     Some (c # cs) }"

definition certificateMsg_unmarshal :: "certificateMsg \<Rightarrow> bytes \<Rightarrow> (bool \<times> certificateMsg) option" where
  "certificateMsg_unmarshal m data =
     (if length data < 7 then Some (False, m)
      else let m = m\<lparr>cm_raw := Some data\<rparr> in do {
        certsLen \<leftarrow> uint32_at data 4;
        if word_of_nat (length data) \<noteq> certsLen + 7 then Some (False, m)
        else do {
          d \<leftarrow> slice_from data 7;
          counted \<leftarrow> count_certs certsLen d 0;
          case counted of
            None \<Rightarrow> Some (False, m)
          | Some numCerts \<Rightarrow> do {
              cs \<leftarrow> cut_certs numCerts d;
              Some (True, m\<lparr>cm_certificates := cs\<rparr>) } } })"

section \<open>Key exchange, finished\<close>

definition serverKeyExchangeMsg_marshal :: "serverKeyExchangeMsg \<Rightarrow> (bytes \<times> serverKeyExchangeMsg) option" where
  "serverKeyExchangeMsg_marshal m =
     (case ske_raw m of
        Some r \<Rightarrow> Some (r, m)
      | None \<Rightarrow>
          let len = length (ske_key m) in do {
            x \<leftarrow> make_and_fill (len + 4)
              [put 0 typeServerKeyExchange, put 1 (byte2 len), put 2 (byte1 len), put 3 (byte0 len),
               copyTo 4 (ske_key m)];
            Some (x, m\<lparr>ske_raw := Some x\<rparr>) })"

definition serverKeyExchangeMsg_unmarshal :: "serverKeyExchangeMsg \<Rightarrow> bytes \<Rightarrow> (bool \<times> serverKeyExchangeMsg) option" where
  "serverKeyExchangeMsg_unmarshal m data =
     (let m = m\<lparr>ske_raw := Some data\<rparr> in
      if length data < 4 then Some (False, m)
      else do { d \<leftarrow> slice_from data 4; Some (True, m\<lparr>ske_key := d\<rparr>) })"

definition clientKeyExchangeMsg_marshal :: "clientKeyExchangeMsg \<Rightarrow> (bytes \<times> clientKeyExchangeMsg) option" where
  "clientKeyExchangeMsg_marshal m =
     (case cke_raw m of
        Some r \<Rightarrow> Some (r, m)
      | None \<Rightarrow>
          let len = length (cke_ciphertext m) in do {
            x \<leftarrow> make_and_fill (len + 4)
              [put 0 typeClientKeyExchange, put 1 (byte2 len), put 2 (byte1 len), put 3 (byte0 len),
               copyTo 4 (cke_ciphertext m)];
            Some (x, m\<lparr>cke_raw := Some x\<rparr>) })"

definition clientKeyExchangeMsg_unmarshal :: "clientKeyExchangeMsg \<Rightarrow> bytes \<Rightarrow> (bool \<times> clientKeyExchangeMsg) option" where
  "clientKeyExchangeMsg_unmarshal m data =
     (let m = m\<lparr>cke_raw := Some data\<rparr> in
      if length data < 4 then Some (False, m)
      else do {
        l \<leftarrow> int24_at data 1;
        if l \<noteq> length data - 4 then Some (False, m)
        else do { d \<leftarrow> slice_from data 4; Some (True, m\<lparr>cke_ciphertext := d\<rparr>) } })"

definition finishedMsg_marshal :: "finishedMsg \<Rightarrow> (bytes \<times> finishedMsg) option" where
  "finishedMsg_marshal m =
     (case fin_raw m of
        Some r \<Rightarrow> Some (r, m)
      | None \<Rightarrow> do {
          x \<leftarrow> make_and_fill (4 + length (fin_verifyData m))
            [put 0 typeFinished, put 3 (byte0 (length (fin_verifyData m))), copyTo 4 (fin_verifyData m)];
          Some (x, m\<lparr>fin_raw := Some x\<rparr>) })"

definition finishedMsg_unmarshal :: "finishedMsg \<Rightarrow> bytes \<Rightarrow> (bool \<times> finishedMsg) option" where
  "finishedMsg_unmarshal m data =
     (let m = m\<lparr>fin_raw := Some data\<rparr> in
      if length data < 4 then Some (False, m)
      else do { d \<leftarrow> slice_from data 4; Some (True, m\<lparr>fin_verifyData := d\<rparr>) })"

section \<open>Certificate status, hello done, hello request\<close>

definition certificateStatusMsg_marshal :: "certificateStatusMsg \<Rightarrow> (bytes \<times> certificateStatusMsg) option" where
  "certificateStatusMsg_marshal m =
     (case cs_raw m of
        Some r \<Rightarrow> Some (r, m)
      | None \<Rightarrow> do {
          x \<leftarrow> (if cs_statusType m = statusTypeOCSP then
                 (let l = length (cs_response m) + 4; l' = l - 4 in
                  make_and_fill (4 + 4 + length (cs_response m))
                    [put 0 typeCertificateStatus, put 1 (byte2 l), put 2 (byte1 l), put 3 (byte0 l),
                     put 4 statusTypeOCSP, put 5 (byte2 l'), put 6 (byte1 l'), put 7 (byte0 l'),
                     copyTo 8 (cs_response m)])
               else Some [typeCertificateStatus, 0, 0, 1, cs_statusType m]);
          Some (x, m\<lparr>cs_raw := Some x\<rparr>) })"

definition certificateStatusMsg_unmarshal :: "certificateStatusMsg \<Rightarrow> bytes \<Rightarrow> (bool \<times> certificateStatusMsg) option" where
  "certificateStatusMsg_unmarshal m data =
     (let m = m\<lparr>cs_raw := Some data\<rparr> in
      if length data < 5 then Some (False, m)
      else do {
        b \<leftarrow> at_idx data 4;
        let m = m\<lparr>cs_statusType := b, cs_response := []\<rparr>;
        if b = statusTypeOCSP then
          if length data < 8 then Some (False, m)
          else do {
            respLen \<leftarrow> uint32_at data 5;
            if word_of_nat (length data) \<noteq> 4 + 4 + respLen then Some (False, m)
            else do { d \<leftarrow> slice_from data 8; Some (True, m\<lparr>cs_response := d\<rparr>) } }
        else Some (True, m) })"

text \<open>The two messages without a field; their \<open>unmarshal\<close> changes nothing.\<close>

definition serverHelloDoneMsg_marshal :: "bytes option" where
  "serverHelloDoneMsg_marshal = make_and_fill 4 [put 0 typeServerHelloDone]"

definition serverHelloDoneMsg_unmarshal :: "bytes \<Rightarrow> bool" where
  "serverHelloDoneMsg_unmarshal data = (length data = 4)"

definition helloRequestMsg_marshal :: bytes where
  "helloRequestMsg_marshal = [typeHelloRequest, 0, 0, 0]"

definition helloRequestMsg_unmarshal :: "bytes \<Rightarrow> bool" where
  "helloRequestMsg_unmarshal data = (length data = 4)"

section \<open>Next protocol, session ticket\<close>

definition nextProtoMsg_marshal :: "nextProtoMsg \<Rightarrow> (bytes \<times> nextProtoMsg) option" where
  "nextProtoMsg_marshal m =
     (case np_raw m of
        Some r \<Rightarrow> Some (r, m)
      | None \<Rightarrow>
          let l = (if length (np_proto m) > 255 then 255 else length (np_proto m));
              padding = 32 - (l + 2) mod 32;
              len = l + padding + 2
          in do {
            p \<leftarrow> slice_between (np_proto m) 0 l;
            x \<leftarrow> make_and_fill (len + 4)
              [put 0 typeNextProtocol, put 1 (byte2 len), put 2 (byte1 len), put 3 (byte0 len),
               advance_by 4, put 0 (byte0 l), copyTo 1 p, advance_by (1 + l), put 0 (byte0 padding)];
            Some (x, m\<lparr>np_raw := Some x\<rparr>) })"

definition nextProtoMsg_unmarshal :: "nextProtoMsg \<Rightarrow> bytes \<Rightarrow> (bool \<times> nextProtoMsg) option" where
  "nextProtoMsg_unmarshal m data =
     (let m = m\<lparr>np_raw := Some data\<rparr> in
      if length data < 5 then Some (False, m)
      else do {
        data \<leftarrow> slice_from data 4;
        protoLen \<leftarrow> at_idx data 0;
        data \<leftarrow> slice_from data 1;
        if length data < unat protoLen then Some (False, m)
        else do {
          p \<leftarrow> slice_between data 0 (unat protoLen);
          let m = m\<lparr>np_proto := p\<rparr>;
          data \<leftarrow> slice_from data (unat protoLen);
          if length data < 1 then Some (False, m)
          else do {
            paddingLen \<leftarrow> at_idx data 0;
            data \<leftarrow> slice_from data 1;
            Some (length data = unat paddingLen, m) } } })"

definition newSessionTicketMsg_marshal :: "newSessionTicketMsg \<Rightarrow> (bytes \<times> newSessionTicketMsg) option" where
  "newSessionTicketMsg_marshal m =
     (case nst_raw m of
        Some r \<Rightarrow> Some (r, m)
      | None \<Rightarrow>
          let ticketLen = length (nst_ticket m); len = 2 + 4 + ticketLen in do {
            x \<leftarrow> make_and_fill (4 + len)
              [put 0 typeNewSessionTicket, put 1 (byte2 len), put 2 (byte1 len), put 3 (byte0 len),
               put 8 (byte1 ticketLen), put 9 (byte0 ticketLen), copyTo 10 (nst_ticket m)];
            Some (x, m\<lparr>nst_raw := Some x\<rparr>) })"

definition newSessionTicketMsg_unmarshal :: "newSessionTicketMsg \<Rightarrow> bytes \<Rightarrow> (bool \<times> newSessionTicketMsg) option" where
  "newSessionTicketMsg_unmarshal m data =
     (let m = m\<lparr>nst_raw := Some data\<rparr> in
      if length data < 10 then Some (False, m)
      else do {
        len \<leftarrow> uint32_at data 1;
        if word_of_nat (length data) - 4 \<noteq> len then Some (False, m)
        else do {
          a \<leftarrow> at_idx data 8;
          b \<leftarrow> at_idx data 9;
          let ticketLen = push_bit 8 (unat a) + unat b;
          if length data - 10 \<noteq> ticketLen then Some (False, m)
          else do { d \<leftarrow> slice_from data 10; Some (True, m\<lparr>nst_ticket := d\<rparr>) } } })"

section \<open>Certificate verify, certificate request\<close>

definition certificateVerifyMsg_marshal :: "certificateVerifyMsg \<Rightarrow> (bytes \<times> certificateVerifyMsg) option" where
  "certificateVerifyMsg_marshal m =
     (case cv_raw m of
        Some r \<Rightarrow> Some (r, m)
      | None \<Rightarrow>
          let siglength = length (cv_signature m);
              len = 2 + siglength + (if cv_hasSignatureAndHash m then 2 else 0)
          in do {
            x \<leftarrow> make_and_fill (4 + len)
              [put 0 typeCertificateVerify, put 1 (byte2 len), put 2 (byte1 len), put 3 (byte0 len), advance_by 4,
               whenever (cv_hasSignatureAndHash m)
                 (stmts [put 0 (hi16 (cv_signatureAlgorithm m)), put 1 (lo16 (cv_signatureAlgorithm m)), advance_by 2]),
               put 0 (byte1 siglength), put 1 (byte0 siglength), copyTo 2 (cv_signature m)];
            Some (x, m\<lparr>cv_raw := Some x\<rparr>) })"

definition certificateVerifyMsg_unmarshal :: "certificateVerifyMsg \<Rightarrow> bytes \<Rightarrow> (bool \<times> certificateVerifyMsg) option" where
  "certificateVerifyMsg_unmarshal m data =
     (let m = m\<lparr>cv_raw := Some data\<rparr> in
      if length data < 6 then Some (False, m)
      else do {
        len \<leftarrow> uint32_at data 1;
        if word_of_nat (length data) - 4 \<noteq> len then Some (False, m)
        else do {
          data \<leftarrow> slice_from data 4;
          (m, data) \<leftarrow> (if cv_hasSignatureAndHash m
            then do { a \<leftarrow> uint16_at data 0; d \<leftarrow> slice_from data 2; Some (m\<lparr>cv_signatureAlgorithm := a\<rparr>, d) }
            else Some (m, data));
          if length data < 2 then Some (False, m)
          else do {
            a \<leftarrow> at_idx data 0;
            b \<leftarrow> at_idx data 1;
            let siglength = push_bit 8 (unat a) + unat b;
            data \<leftarrow> slice_from data 2;
            if length data \<noteq> siglength then Some (False, m)
            else Some (True, m\<lparr>cv_signature := data\<rparr>) } } })"

text \<open>The loop over the signature algorithms, and those over the authorities; the reading one is shared by the two
  kinds of request, whose code is the same.\<close>

fun read_uint16s :: "nat \<Rightarrow> bytes \<Rightarrow> (16 word list \<times> bytes) option" where
  "read_uint16s 0 d = Some ([], d)"
| "read_uint16s (Suc n) d = do {
     w \<leftarrow> uint16_at d 0;
     d \<leftarrow> slice_from d 2;
     (ws, d) \<leftarrow> read_uint16s n d;
     Some (w # ws, d) }"

definition write_uint16s :: "16 word list \<Rightarrow> cursor \<Rightarrow> cursor option" where
  "write_uint16s ws = foreach ws (\<lambda>w. stmts [put 0 (hi16 w), put 1 (lo16 w), advance_by 2])"

definition write_cas :: "bytes list \<Rightarrow> cursor \<Rightarrow> cursor option" where
  "write_cas cas = foreach cas (\<lambda>ca. stmts
     [put 0 (byte1 (length ca)), put 1 (byte0 (length ca)), advance_by 2, copyTo 0 ca, advance_by (length ca)])"

function read_cas :: "bytes \<Rightarrow> bytes list \<Rightarrow> (bool \<times> bytes list) option" where
  "read_cas cas acc =
     (if cas = [] then Some (True, acc)
      else if length cas < 2 then Some (False, acc)
      else do {
        caLen \<leftarrow> uint16_at cas 0;
        cas' \<leftarrow> slice_from cas 2;
        if length cas' < unat caLen then Some (False, acc)
        else do {
          ca \<leftarrow> slice_to cas' (unat caLen);
          cas'' \<leftarrow> slice_from cas' (unat caLen);
          read_cas cas'' (acc @ [ca]) } })"
  by auto
termination by (relation "measure (\<lambda>(cas, acc). length cas)") (auto simp: slice_from_def split: if_splits)

declare read_cas.simps [simp del]

definition certificateRequestMsg_marshal :: "certificateRequestMsg \<Rightarrow> (bytes \<times> certificateRequestMsg) option" where
  "certificateRequestMsg_marshal m =
     (case cr_raw m of
        Some r \<Rightarrow> Some (r, m)
      | None \<Rightarrow>
          let casLength = sum_list (map (\<lambda>ca. 2 + length ca) (cr_certificateAuthorities m));
              n = length (cr_supportedSignatureAlgorithms m) * 2;
              len = 1 + length (cr_certificateTypes m) + 2 + casLength
                      + (if cr_hasSignatureAndHash m then 2 + 2 * length (cr_supportedSignatureAlgorithms m) else 0)
          in do {
            x \<leftarrow> make_and_fill (4 + len)
              [put 0 typeCertificateRequest, put 1 (byte2 len), put 2 (byte1 len), put 3 (byte0 len),
               put 4 (byte0 (length (cr_certificateTypes m))), copyTo 5 (cr_certificateTypes m),
               advance_by (5 + length (cr_certificateTypes m)),
               whenever (cr_hasSignatureAndHash m)
                 (stmts [put 0 (byte1 n), put 1 (byte0 n), advance_by 2, write_uint16s (cr_supportedSignatureAlgorithms m)]),
               put 0 (byte1 casLength), put 1 (byte0 casLength), advance_by 2,
               write_cas (cr_certificateAuthorities m)];
            Some (x, m\<lparr>cr_raw := Some x\<rparr>) })"

text \<open>\<open>copy\<close> fills the new slices: the bound on \<open>numCertTypes\<close> makes the test on its result true. \<open>None\<close> in the
  pair of the signature algorithms is a \<open>return false\<close>.\<close>

definition certificateRequestMsg_algorithms ::
    "certificateRequestMsg \<Rightarrow> bytes \<Rightarrow> (certificateRequestMsg \<times> bytes) option option" where
  "certificateRequestMsg_algorithms m data =
     (if cr_hasSignatureAndHash m then
        if length data < 2 then Some None
        else do {
          sigAndHashLen \<leftarrow> uint16_at data 0;
          data \<leftarrow> slice_from data 2;
          if sigAndHashLen AND 1 \<noteq> 0 then Some None
          else if length data < unat sigAndHashLen then Some None
          else do {
            (algs, data) \<leftarrow> read_uint16s (unat (sigAndHashLen div 2)) data;
            Some (Some (m\<lparr>cr_supportedSignatureAlgorithms := algs\<rparr>, data)) } }
      else Some (Some (m, data)))"

definition certificateRequestMsg_unmarshal :: "certificateRequestMsg \<Rightarrow> bytes \<Rightarrow> (bool \<times> certificateRequestMsg) option" where
  "certificateRequestMsg_unmarshal m data =
     (let m = m\<lparr>cr_raw := Some data\<rparr> in
      if length data < 5 then Some (False, m)
      else do {
        len \<leftarrow> uint32_at data 1;
        if word_of_nat (length data) - 4 \<noteq> len then Some (False, m)
        else do {
          t \<leftarrow> at_idx data 4;
          let numCertTypes = unat t;
          data \<leftarrow> slice_from data 5;
          if numCertTypes = 0 \<or> length data \<le> numCertTypes then Some (False, m)
          else do {
            let m = m\<lparr>cr_certificateTypes := copy_at 0 data (replicate numCertTypes 0)\<rparr>;
            if min numCertTypes (length data) \<noteq> numCertTypes then Some (False, m)
            else do {
              data \<leftarrow> slice_from data numCertTypes;
              r \<leftarrow> certificateRequestMsg_algorithms m data;
              case r of
                None \<Rightarrow> Some (False, m)
              | Some (m, data) \<Rightarrow>
                  if length data < 2 then Some (False, m)
                  else do {
                    casLength \<leftarrow> uint16_at data 0;
                    data \<leftarrow> slice_from data 2;
                    if length data < unat casLength then Some (False, m)
                    else do {
                      let cas = copy_at 0 data (replicate (unat casLength) 0);
                      data \<leftarrow> slice_from data (unat casLength);
                      (ok, cas) \<leftarrow> read_cas cas [];
                      Some (ok \<and> data = [], m\<lparr>cr_certificateAuthorities := cas\<rparr>) } } } } } })"

definition certificateRequestMsgGM_marshal :: "certificateRequestMsgGM \<Rightarrow> (bytes \<times> certificateRequestMsgGM) option" where
  "certificateRequestMsgGM_marshal m =
     (case gm_raw m of
        Some r \<Rightarrow> Some (r, m)
      | None \<Rightarrow>
          let casLength = sum_list (map (\<lambda>ca. 2 + length ca) (gm_certificateAuthorities m));
              len = 1 + length (gm_certificateTypes m) + 2 + casLength
          in do {
            x \<leftarrow> make_and_fill (4 + len)
              [put 0 typeCertificateRequest, put 1 (byte2 len), put 2 (byte1 len), put 3 (byte0 len),
               put 4 (byte0 (length (gm_certificateTypes m))), copyTo 5 (gm_certificateTypes m),
               advance_by (5 + length (gm_certificateTypes m)),
               put 0 (byte1 casLength), put 1 (byte0 casLength), advance_by 2,
               write_cas (gm_certificateAuthorities m)];
            Some (x, m\<lparr>gm_raw := Some x\<rparr>) })"

definition certificateRequestMsgGM_unmarshal ::
    "certificateRequestMsgGM \<Rightarrow> bytes \<Rightarrow> (bool \<times> certificateRequestMsgGM) option" where
  "certificateRequestMsgGM_unmarshal m data =
     (let m = m\<lparr>gm_raw := Some data\<rparr> in
      if length data < 5 then Some (False, m)
      else do {
        len \<leftarrow> uint32_at data 1;
        if word_of_nat (length data) - 4 \<noteq> len then Some (False, m)
        else do {
          t \<leftarrow> at_idx data 4;
          let numCertTypes = unat t;
          data \<leftarrow> slice_from data 5;
          if numCertTypes = 0 \<or> length data \<le> numCertTypes then Some (False, m)
          else do {
            let m = m\<lparr>gm_certificateTypes := copy_at 0 data (replicate numCertTypes 0)\<rparr>;
            if min numCertTypes (length data) \<noteq> numCertTypes then Some (False, m)
            else do {
              data \<leftarrow> slice_from data numCertTypes;
              if length data < 2 then Some (False, m)
              else do {
                casLength \<leftarrow> uint16_at data 0;
                data \<leftarrow> slice_from data 2;
                if length data < unat casLength then Some (False, m)
                else do {
                  let cas = copy_at 0 data (replicate (unat casLength) 0);
                  data \<leftarrow> slice_from data (unat casLength);
                  (ok, cas) \<leftarrow> read_cas cas [];
                  Some (ok \<and> data = [], m\<lparr>gm_certificateAuthorities := cas\<rparr>) } } } } } })"

end
