(* ===== verification/TlsHello.thy ===== *)
theory TlsHello
  imports TlsMessages
begin

text \<open>
  The hello messages of \<open>crypto/gmsm/gmtls/handshake_messages.go\<close>, with the conventions of the theory of the other
  messages. A Go string is the list of its bytes. The blocks that \<open>marshal\<close> writes one after the other, and the cases
  of the switch in \<open>unmarshal\<close>, are definitions of their own. A case gets the slice \<open>data\<close> behind the header of the
  extension, which may reach further than the \<open>length\<close> of the header.
\<close>

section \<open>Constants of common.go\<close>

definition extensionServerName :: "16 word" where "extensionServerName = 0"
definition extensionStatusRequest :: "16 word" where "extensionStatusRequest = 5"
definition extensionSupportedCurves :: "16 word" where "extensionSupportedCurves = 10"
definition extensionSupportedPoints :: "16 word" where "extensionSupportedPoints = 11"
definition extensionSignatureAlgorithms :: "16 word" where "extensionSignatureAlgorithms = 13"
definition extensionALPN :: "16 word" where "extensionALPN = 16"
definition extensionSCT :: "16 word" where "extensionSCT = 18"
definition extensionSessionTicket :: "16 word" where "extensionSessionTicket = 35"
definition extensionNextProtoNeg :: "16 word" where "extensionNextProtoNeg = 13172"
definition extensionRenegotiationInfo :: "16 word" where "extensionRenegotiationInfo = 0xff01"
definition scsvRenegotiation :: "16 word" where "scsvRenegotiation = 0x00ff"

section \<open>The messages\<close>

record clientHelloMsg =
  ch_raw :: "bytes option"
  ch_vers :: "16 word"
  ch_random :: bytes
  ch_sessionId :: bytes
  ch_cipherSuites :: "16 word list"
  ch_compressionMethods :: bytes
  ch_nextProtoNeg :: bool
  ch_serverName :: bytes
  ch_ocspStapling :: bool
  ch_scts :: bool
  ch_supportedCurves :: "16 word list"
  ch_supportedPoints :: bytes
  ch_ticketSupported :: bool
  ch_sessionTicket :: bytes
  ch_supportedSignatureAlgorithms :: "16 word list"
  ch_secureRenegotiation :: bytes
  ch_secureRenegotiationSupported :: bool
  ch_alpnProtocols :: "bytes list"

record serverHelloMsg =
  sh_raw :: "bytes option"
  sh_vers :: "16 word"
  sh_random :: bytes
  sh_sessionId :: bytes
  sh_cipherSuite :: "16 word"
  sh_compressionMethod :: byte
  sh_nextProtoNeg :: bool
  sh_nextProtos :: "bytes list"
  sh_ocspStapling :: bool
  sh_scts :: "bytes list"
  sh_ticketSupported :: bool
  sh_secureRenegotiation :: bytes
  sh_secureRenegotiationSupported :: bool
  sh_alpnProtocol :: bytes

section \<open>Writing a client hello\<close>

text \<open>\<open>if c { extensionsLength += k; numExtensions++ }\<close>, on the pair of \<open>numExtensions\<close> and \<open>extensionsLength\<close>.\<close>

definition count_ext :: "bool \<Rightarrow> nat \<Rightarrow> nat \<times> nat \<Rightarrow> nat \<times> nat" where
  "count_ext c k = (\<lambda>(n, e). if c then (n + 1, e + k) else (n, e))"

definition ch_invalid_alpn :: "clientHelloMsg \<Rightarrow> bool" where
  "ch_invalid_alpn m = list_ex (\<lambda>s. length s = 0 \<or> length s > 255) (ch_alpnProtocols m)"

definition ch_sizes :: "clientHelloMsg \<Rightarrow> (nat \<times> nat) option" where
  "ch_sizes m =
     (let s = (0, 0);
          s = count_ext (ch_nextProtoNeg m) 0 s;
          s = count_ext (ch_ocspStapling m) (1 + 2 + 2) s;
          s = count_ext (0 < length (ch_serverName m)) (5 + length (ch_serverName m)) s;
          s = count_ext (0 < length (ch_supportedCurves m)) (2 + 2 * length (ch_supportedCurves m)) s;
          s = count_ext (0 < length (ch_supportedPoints m)) (1 + length (ch_supportedPoints m)) s;
          s = count_ext (ch_ticketSupported m) (length (ch_sessionTicket m)) s;
          s = count_ext (0 < length (ch_supportedSignatureAlgorithms m))
                (2 + 2 * length (ch_supportedSignatureAlgorithms m)) s;
          s = count_ext (ch_secureRenegotiationSupported m) (1 + length (ch_secureRenegotiation m)) s
      in if ch_invalid_alpn m then None
         else
           (let s = count_ext (0 < length (ch_alpnProtocols m))
                      (2 + sum_list (map (\<lambda>s. 1 + length s) (ch_alpnProtocols m))) s;
                s = count_ext (ch_scts m) 0 s
            in Some s))"

definition write_suites :: "16 word list \<Rightarrow> cursor \<Rightarrow> cursor option" where
  "write_suites suites =
     foreach (enumerate 0 suites) (\<lambda>(i, suite). stmts [put (2 + i * 2) (hi16 suite), put (3 + i * 2) (lo16 suite)])"

definition write_npn :: "cursor \<Rightarrow> cursor option" where
  "write_npn = stmts [put 0 (hi16 extensionNextProtoNeg), put 1 (lo16 extensionNextProtoNeg), advance_by 4]"

definition write_serverName :: "bytes \<Rightarrow> cursor \<Rightarrow> cursor option" where
  "write_serverName name =
     (let l = length name + 5 in stmts
       [put 0 (hi16 extensionServerName), put 1 (lo16 extensionServerName), put 2 (byte1 l), put 3 (byte0 l), advance_by 4,
        put 0 (byte1 (length name + 3)), put 1 (byte0 (length name + 3)),
        put 3 (byte1 (length name)), put 4 (byte0 (length name)), copyTo 5 name, advance_by l])"

definition write_ocsp :: "cursor \<Rightarrow> cursor option" where
  "write_ocsp = stmts
     [put 0 (hi16 extensionStatusRequest), put 1 (lo16 extensionStatusRequest), put 2 0, put 3 5, put 4 1, advance_by 9]"

definition write_curves :: "16 word list \<Rightarrow> cursor \<Rightarrow> cursor option" where
  "write_curves curves =
     (let l = 2 + 2 * length curves; l' = l - 2 in stmts
       [put 0 (hi16 extensionSupportedCurves), put 1 (lo16 extensionSupportedCurves), put 2 (byte1 l), put 3 (byte0 l),
        put 4 (byte1 l'), put 5 (byte0 l'), advance_by 6, write_uint16s curves])"

definition write_points :: "bytes \<Rightarrow> cursor \<Rightarrow> cursor option" where
  "write_points points =
     (let l = 1 + length points in stmts
       [put 0 (hi16 extensionSupportedPoints), put 1 (lo16 extensionSupportedPoints), put 2 (byte1 l), put 3 (byte0 l),
        put 4 (byte0 (l - 1)), advance_by 5, foreach points (\<lambda>p. stmts [put 0 p, advance_by 1])])"

definition write_ticket :: "bytes \<Rightarrow> cursor \<Rightarrow> cursor option" where
  "write_ticket ticket =
     (let l = length ticket in stmts
       [put 0 (hi16 extensionSessionTicket), put 1 (lo16 extensionSessionTicket), put 2 (byte1 l), put 3 (byte0 l),
        advance_by 4, copyTo 0 ticket, advance_by (length ticket)])"

definition write_sigalgs :: "16 word list \<Rightarrow> cursor \<Rightarrow> cursor option" where
  "write_sigalgs algs =
     (let l = 2 + 2 * length algs; l' = l - 2 in stmts
       [put 0 (hi16 extensionSignatureAlgorithms), put 1 (lo16 extensionSignatureAlgorithms), put 2 (byte1 l),
        put 3 (byte0 l), advance_by 4, put 0 (byte1 l'), put 1 (byte0 l'), advance_by 2, write_uint16s algs])"

definition write_renegotiation :: "bytes \<Rightarrow> cursor \<Rightarrow> cursor option" where
  "write_renegotiation info = stmts
     [put 0 (hi16 extensionRenegotiationInfo), put 1 (lo16 extensionRenegotiationInfo), put 2 0,
      put 3 (byte0 (length info + 1)), put 4 (byte0 (length info)), advance_by 5, copyTo 0 info, advance_by (length info)]"

text \<open>The lengths of the ALPN extension are written last, through the older slice \<open>lengths\<close>.\<close>

definition write_alpn :: "bytes list \<Rightarrow> cursor \<Rightarrow> cursor option" where
  "write_alpn protocols c = do {
     c \<leftarrow> stmts [put 0 (hi16 extensionALPN), put 1 (lo16 extensionALPN)] c;
     lengths \<leftarrow> map_option snd (advance_by 2 c);
     c \<leftarrow> advance_by 6 c;
     c \<leftarrow> foreach protocols (\<lambda>s. stmts [put 0 (byte0 (length s)), copyTo 1 s, advance_by (1 + length s)]) c;
     let stringsLength = sum_list (map (\<lambda>s. 1 + length s) protocols);
     w \<leftarrow> stmts [put 2 (byte1 stringsLength), put 3 (byte0 stringsLength),
                 put 0 (byte1 (stringsLength + 2)), put 1 (byte0 (stringsLength + 2))] (fst c, lengths);
     Some (fst w, snd c) }"

definition write_sct :: "cursor \<Rightarrow> cursor option" where
  "write_sct = stmts [put 0 (hi16 extensionSCT), put 1 (lo16 extensionSCT), advance_by 4]"

definition clientHelloMsg_marshal :: "clientHelloMsg \<Rightarrow> (bytes \<times> clientHelloMsg) option" where
  "clientHelloMsg_marshal m =
     (case ch_raw m of
        Some r \<Rightarrow> Some (r, m)
      | None \<Rightarrow> do {
          (numExtensions, extLen) \<leftarrow> ch_sizes m;
          let extensionsLength = (if numExtensions > 0 then extLen + 4 * numExtensions else extLen);
          let len = 2 + 32 + 1 + length (ch_sessionId m) + 2 + length (ch_cipherSuites m) * 2 + 1
                      + length (ch_compressionMethods m) + (if numExtensions > 0 then 2 + extensionsLength else 0);
          x \<leftarrow> make_and_fill (4 + len)
            [put 0 typeClientHello, put 1 (byte2 len), put 2 (byte1 len), put 3 (byte0 len),
             put 4 (hi16 (ch_vers m)), put 5 (lo16 (ch_vers m)), copyInto 6 38 (ch_random m),
             put 38 (byte0 (length (ch_sessionId m))),
             copyInto 39 (39 + length (ch_sessionId m)) (ch_sessionId m), advance_by (39 + length (ch_sessionId m)),
             put 0 (word_of_nat (drop_bit 7 (length (ch_cipherSuites m)))),
             put 1 (word_of_nat (push_bit 1 (length (ch_cipherSuites m)))),
             write_suites (ch_cipherSuites m), advance_by (2 + length (ch_cipherSuites m) * 2),
             put 0 (byte0 (length (ch_compressionMethods m))), copyTo 1 (ch_compressionMethods m),
             advance_by (1 + length (ch_compressionMethods m)),
             whenever (numExtensions > 0) (stmts [put 0 (byte1 extensionsLength), put 1 (byte0 extensionsLength), advance_by 2]),
             whenever (ch_nextProtoNeg m) write_npn,
             whenever (0 < length (ch_serverName m)) (write_serverName (ch_serverName m)),
             whenever (ch_ocspStapling m) write_ocsp,
             whenever (0 < length (ch_supportedCurves m)) (write_curves (ch_supportedCurves m)),
             whenever (0 < length (ch_supportedPoints m)) (write_points (ch_supportedPoints m)),
             whenever (ch_ticketSupported m) (write_ticket (ch_sessionTicket m)),
             whenever (0 < length (ch_supportedSignatureAlgorithms m)) (write_sigalgs (ch_supportedSignatureAlgorithms m)),
             whenever (ch_secureRenegotiationSupported m) (write_renegotiation (ch_secureRenegotiation m)),
             whenever (0 < length (ch_alpnProtocols m)) (write_alpn (ch_alpnProtocols m)),
             whenever (ch_scts m) write_sct];
          Some (x, m\<lparr>ch_raw := Some x\<rparr>) })"

section \<open>Reading a client hello\<close>

text \<open>The suites are indexed from the start of the slice; the renegotiation suite sets a flag of the message.\<close>

fun read_suites :: "bytes \<Rightarrow> nat \<Rightarrow> nat \<Rightarrow> clientHelloMsg \<Rightarrow> clientHelloMsg option" where
  "read_suites data i 0 m = Some m"
| "read_suites data i (Suc n) m = do {
     w \<leftarrow> uint16_at data (2 + 2 * i);
     let m = m\<lparr>ch_cipherSuites := ch_cipherSuites m @ [w]\<rparr>;
     read_suites data (i + 1) n
       (if w = scsvRenegotiation then m\<lparr>ch_secureRenegotiationSupported := True\<rparr> else m) }"

text \<open>The names of the server name extension, up to the first host name.\<close>

function read_names :: "bytes \<Rightarrow> clientHelloMsg \<Rightarrow> (bool \<times> clientHelloMsg) option" where
  "read_names d m =
     (if length d > 0 then
        if length d < 3 then Some (False, m)
        else do {
          nameType \<leftarrow> at_idx d 0;
          nameLen \<leftarrow> int16_at d 1;
          d' \<leftarrow> slice_from d 3;
          if length d' < nameLen then Some (False, m)
          else if nameType = 0 then do { name \<leftarrow> slice_to d' nameLen; Some (True, m\<lparr>ch_serverName := name\<rparr>) }
          else do { d'' \<leftarrow> slice_from d' nameLen; read_names d'' m } }
      else Some (True, m))"
  by auto
termination by (relation "measure (\<lambda>(d, m). length d)") (auto simp: slice_from_def split: if_splits)

declare read_names.simps [simp del]

function read_protocols :: "bytes \<Rightarrow> bytes list \<Rightarrow> (bool \<times> bytes list) option" where
  "read_protocols d acc =
     (if length d \<noteq> 0 then do {
        stringLen \<leftarrow> at_idx d 0;
        d' \<leftarrow> slice_from d 1;
        if stringLen = 0 \<or> unat stringLen > length d' then Some (False, acc)
        else do {
          s \<leftarrow> slice_to d' (unat stringLen);
          d'' \<leftarrow> slice_from d' (unat stringLen);
          read_protocols d'' (acc @ [s]) } }
      else Some (True, acc))"
  by auto
termination by (relation "measure (\<lambda>(d, acc). length d)") (auto simp: slice_from_def split: if_splits)

declare read_protocols.simps [simp del]

definition read_serverName :: "nat \<Rightarrow> bytes \<Rightarrow> clientHelloMsg \<Rightarrow> (bool \<times> clientHelloMsg) option" where
  "read_serverName len data m = do {
     d \<leftarrow> slice_to data len;
     if length d < 2 then Some (False, m)
     else do {
       namesLen \<leftarrow> int16_at d 0;
       d \<leftarrow> slice_from d 2;
       if length d \<noteq> namesLen then Some (False, m) else read_names d m } }"

definition read_ocsp :: "nat \<Rightarrow> bytes \<Rightarrow> clientHelloMsg \<Rightarrow> (bool \<times> clientHelloMsg) option" where
  "read_ocsp len data m =
     (if len > 0 then do { b \<leftarrow> at_idx data 0; Some (True, m\<lparr>ch_ocspStapling := (b = statusTypeOCSP)\<rparr>) }
      else Some (True, m\<lparr>ch_ocspStapling := False\<rparr>))"

definition read_curves :: "nat \<Rightarrow> bytes \<Rightarrow> clientHelloMsg \<Rightarrow> (bool \<times> clientHelloMsg) option" where
  "read_curves len data m =
     (if len < 2 then Some (False, m)
      else do {
        l \<leftarrow> int16_at data 0;
        if l mod 2 = 1 \<or> len \<noteq> l + 2 then Some (False, m)
        else do {
          d \<leftarrow> slice_from data 2;
          (curves, _) \<leftarrow> read_uint16s (l div 2) d;
          Some (True, m\<lparr>ch_supportedCurves := curves\<rparr>) } })"

definition read_points :: "nat \<Rightarrow> bytes \<Rightarrow> clientHelloMsg \<Rightarrow> (bool \<times> clientHelloMsg) option" where
  "read_points len data m =
     (if len < 1 then Some (False, m)
      else do {
        b \<leftarrow> at_idx data 0;
        let l = unat b;
        if len \<noteq> l + 1 then Some (False, m)
        else do {
          d \<leftarrow> slice_from data 1;
          Some (True, m\<lparr>ch_supportedPoints := copy_at 0 d (replicate l 0)\<rparr>) } })"

definition read_ticket :: "nat \<Rightarrow> bytes \<Rightarrow> clientHelloMsg \<Rightarrow> (bool \<times> clientHelloMsg) option" where
  "read_ticket len data m = do {
     let m = m\<lparr>ch_ticketSupported := True\<rparr>;
     t \<leftarrow> slice_to data len;
     Some (True, m\<lparr>ch_sessionTicket := t\<rparr>) }"

definition read_sigalgs :: "nat \<Rightarrow> bytes \<Rightarrow> clientHelloMsg \<Rightarrow> (bool \<times> clientHelloMsg) option" where
  "read_sigalgs len data m =
     (if len < 2 \<or> len AND 1 \<noteq> 0 then Some (False, m)
      else do {
        l \<leftarrow> int16_at data 0;
        if l \<noteq> len - 2 then Some (False, m)
        else do {
          d \<leftarrow> slice_from data 2;
          (algs, _) \<leftarrow> read_uint16s (l div 2) d;
          Some (True, m\<lparr>ch_supportedSignatureAlgorithms := algs\<rparr>) } })"

text \<open>The contents of a renegotiation extension, \<open>Some None\<close> for \<open>return false\<close>; both hello messages read it alike.\<close>

definition read_renegotiation :: "nat \<Rightarrow> bytes \<Rightarrow> bytes option option" where
  "read_renegotiation len data =
     (if len = 0 then Some None
      else do {
        d \<leftarrow> slice_to data len;
        b \<leftarrow> at_idx d 0;
        d \<leftarrow> slice_from d 1;
        Some (if unat b \<noteq> length d then None else Some d) })"

definition read_ch_renegotiation :: "nat \<Rightarrow> bytes \<Rightarrow> clientHelloMsg \<Rightarrow> (bool \<times> clientHelloMsg) option" where
  "read_ch_renegotiation len data m = do {
     r \<leftarrow> read_renegotiation len data;
     case r of
       None \<Rightarrow> Some (False, m)
     | Some d \<Rightarrow> Some (True, m\<lparr>ch_secureRenegotiation := d, ch_secureRenegotiationSupported := True\<rparr>) }"

definition read_alpn :: "nat \<Rightarrow> bytes \<Rightarrow> clientHelloMsg \<Rightarrow> (bool \<times> clientHelloMsg) option" where
  "read_alpn len data m =
     (if len < 2 then Some (False, m)
      else do {
        l \<leftarrow> int16_at data 0;
        if l \<noteq> len - 2 then Some (False, m)
        else do {
          d \<leftarrow> slice_between data 2 len;
          (ok, protocols) \<leftarrow> read_protocols d (ch_alpnProtocols m);
          Some (ok, m\<lparr>ch_alpnProtocols := protocols\<rparr>) } })"

definition read_npn :: "nat \<Rightarrow> clientHelloMsg \<Rightarrow> bool \<times> clientHelloMsg" where
  "read_npn len m = (if len > 0 then (False, m) else (True, m\<lparr>ch_nextProtoNeg := True\<rparr>))"

definition read_sct :: "nat \<Rightarrow> clientHelloMsg \<Rightarrow> bool \<times> clientHelloMsg" where
  "read_sct len m = (len = 0, m\<lparr>ch_scts := True\<rparr>)"

definition ch_extension :: "16 word \<Rightarrow> nat \<Rightarrow> bytes \<Rightarrow> clientHelloMsg \<Rightarrow> (bool \<times> clientHelloMsg) option" where
  "ch_extension extension len data m =
     (if extension = extensionServerName then read_serverName len data m
      else if extension = extensionNextProtoNeg then Some (read_npn len m)
      else if extension = extensionStatusRequest then read_ocsp len data m
      else if extension = extensionSupportedCurves then read_curves len data m
      else if extension = extensionSupportedPoints then read_points len data m
      else if extension = extensionSessionTicket then read_ticket len data m
      else if extension = extensionSignatureAlgorithms then read_sigalgs len data m
      else if extension = extensionRenegotiationInfo then read_ch_renegotiation len data m
      else if extension = extensionALPN then read_alpn len data m
      else if extension = extensionSCT then Some (read_sct len m)
      else Some (True, m))"

text \<open>The loop over the extensions is the same for both messages; \<open>handle\<close> stands for its switch.\<close>

function read_extensions ::
    "(16 word \<Rightarrow> nat \<Rightarrow> bytes \<Rightarrow> 'm \<Rightarrow> (bool \<times> 'm) option) \<Rightarrow> bytes \<Rightarrow> 'm \<Rightarrow> (bool \<times> 'm) option" where
  "read_extensions handle data m =
     (if length data \<noteq> 0 then
        if length data < 4 then Some (False, m)
        else do {
          extension \<leftarrow> uint16_at data 0;
          len \<leftarrow> int16_at data 2;
          data' \<leftarrow> slice_from data 4;
          if length data' < len then Some (False, m)
          else do {
            (ok, m') \<leftarrow> handle extension len data' m;
            if \<not> ok then Some (False, m')
            else do { data'' \<leftarrow> slice_from data' len; read_extensions handle data'' m' } } }
      else Some (True, m))"
  by auto
termination by (relation "measure (\<lambda>(handle, data, m). length data)") (auto simp: slice_from_def split: if_splits)

declare read_extensions.simps [simp del]

text \<open>What follows the fixed part of a hello message: nothing, or the extensions with their length.\<close>

definition read_hello_tail ::
    "(16 word \<Rightarrow> nat \<Rightarrow> bytes \<Rightarrow> 'm \<Rightarrow> (bool \<times> 'm) option) \<Rightarrow> bytes \<Rightarrow> 'm \<Rightarrow> (bool \<times> 'm) option" where
  "read_hello_tail handle data m =
     (if length data = 0 then Some (True, m)
      else if length data < 2 then Some (False, m)
      else do {
        extensionsLength \<leftarrow> int16_at data 0;
        data \<leftarrow> slice_from data 2;
        if extensionsLength \<noteq> length data then Some (False, m)
        else read_extensions handle data m })"

definition clientHelloMsg_unmarshal :: "clientHelloMsg \<Rightarrow> bytes \<Rightarrow> (bool \<times> clientHelloMsg) option" where
  "clientHelloMsg_unmarshal m data =
     (if length data < 42 then Some (False, m)
      else do {
        vers \<leftarrow> uint16_at data 4;
        random \<leftarrow> slice_between data 6 38;
        b \<leftarrow> at_idx data 38;
        let m = m\<lparr>ch_raw := Some data, ch_vers := vers, ch_random := random\<rparr>;
        let sessionIdLen = unat b;
        if sessionIdLen > 32 \<or> length data < 39 + sessionIdLen then Some (False, m)
        else do {
          sid \<leftarrow> slice_between data 39 (39 + sessionIdLen);
          let m = m\<lparr>ch_sessionId := sid\<rparr>;
          data \<leftarrow> slice_from data (39 + sessionIdLen);
          if length data < 2 then Some (False, m)
          else do {
            cipherSuiteLen \<leftarrow> int16_at data 0;
            if cipherSuiteLen mod 2 = 1 \<or> length data < 2 + cipherSuiteLen then Some (False, m)
            else do {
              m \<leftarrow> read_suites data 0 (cipherSuiteLen div 2) (m\<lparr>ch_cipherSuites := []\<rparr>);
              data \<leftarrow> slice_from data (2 + cipherSuiteLen);
              if length data < 1 then Some (False, m)
              else do {
                c \<leftarrow> at_idx data 0;
                let compressionMethodsLen = unat c;
                if length data < 1 + compressionMethodsLen then Some (False, m)
                else do {
                  cms \<leftarrow> slice_between data 1 (1 + compressionMethodsLen);
                  data \<leftarrow> slice_from data (1 + compressionMethodsLen);
                  let m = m\<lparr>ch_compressionMethods := cms, ch_nextProtoNeg := False, ch_serverName := [],
                      ch_ocspStapling := False, ch_ticketSupported := False, ch_sessionTicket := [],
                      ch_supportedSignatureAlgorithms := [], ch_alpnProtocols := [], ch_scts := False\<rparr>;
                  read_hello_tail ch_extension data m } } } } } })"

section \<open>Writing a server hello\<close>

definition sh_invalid_alpn :: "serverHelloMsg \<Rightarrow> bool" where
  "sh_invalid_alpn m = (length (sh_alpnProtocol m) \<ge> 256)"

definition nextProtoLen :: "serverHelloMsg \<Rightarrow> nat" where
  "nextProtoLen m =
     (if sh_nextProtoNeg m then sum_list (map length (sh_nextProtos m)) + length (sh_nextProtos m) else 0)"

definition sctLen :: "serverHelloMsg \<Rightarrow> nat" where
  "sctLen m = sum_list (map (\<lambda>sct. length sct + 2) (sh_scts m))"

definition sh_sizes :: "serverHelloMsg \<Rightarrow> (nat \<times> nat) option" where
  "sh_sizes m =
     (let s = (0, 0);
          s = count_ext (sh_nextProtoNeg m) (nextProtoLen m) s;
          s = count_ext (sh_ocspStapling m) 0 s;
          s = count_ext (sh_ticketSupported m) 0 s;
          s = count_ext (sh_secureRenegotiationSupported m) (1 + length (sh_secureRenegotiation m)) s
      in if sh_invalid_alpn m then None
         else
           (let s = count_ext (0 < length (sh_alpnProtocol m)) (2 + 1 + length (sh_alpnProtocol m)) s;
                s = count_ext (0 < length (sh_scts m)) (2 + sctLen m) s
            in Some s))"

text \<open>A next protocol of more than 255 bytes is cut.\<close>

definition write_nextProto :: "bytes \<Rightarrow> cursor \<Rightarrow> cursor option" where
  "write_nextProto v c =
     (let l = (if length v > 255 then 255 else length v) in do {
        p \<leftarrow> slice_between v 0 l;
        stmts [put 0 (byte0 l), copyTo 1 p, advance_by (1 + l)] c })"

definition write_nextProtos :: "serverHelloMsg \<Rightarrow> cursor \<Rightarrow> cursor option" where
  "write_nextProtos m = stmts
     [put 0 (hi16 extensionNextProtoNeg), put 1 (lo16 extensionNextProtoNeg),
      put 2 (byte1 (nextProtoLen m)), put 3 (byte0 (nextProtoLen m)), advance_by 4,
      foreach (sh_nextProtos m) write_nextProto]"

definition write_empty :: "16 word \<Rightarrow> cursor \<Rightarrow> cursor option" where
  "write_empty extension = stmts [put 0 (hi16 extension), put 1 (lo16 extension), advance_by 4]"

definition write_protocol :: "bytes \<Rightarrow> cursor \<Rightarrow> cursor option" where
  "write_protocol protocol =
     (let alpnLen = length protocol; l = 2 + 1 + alpnLen; l' = l - 2; l'' = l' - 1 in stmts
       [put 0 (hi16 extensionALPN), put 1 (lo16 extensionALPN), put 2 (byte1 l), put 3 (byte0 l),
        put 4 (byte1 l'), put 5 (byte0 l'), put 6 (byte0 l''), copyTo 7 protocol, advance_by (7 + alpnLen)])"

definition write_scts :: "serverHelloMsg \<Rightarrow> cursor \<Rightarrow> cursor option" where
  "write_scts m =
     (let l = sctLen m + 2 in stmts
       [put 0 (hi16 extensionSCT), put 1 (lo16 extensionSCT), put 2 (byte1 l), put 3 (byte0 l),
        put 4 (byte1 (sctLen m)), put 5 (byte0 (sctLen m)), advance_by 6,
        foreach (sh_scts m) (\<lambda>sct. stmts
          [put 0 (byte1 (length sct)), put 1 (byte0 (length sct)), copyTo 2 sct, advance_by (length sct + 2)])])"

definition serverHelloMsg_marshal :: "serverHelloMsg \<Rightarrow> (bytes \<times> serverHelloMsg) option" where
  "serverHelloMsg_marshal m =
     (case sh_raw m of
        Some r \<Rightarrow> Some (r, m)
      | None \<Rightarrow> do {
          (numExtensions, extLen) \<leftarrow> sh_sizes m;
          let extensionsLength = (if numExtensions > 0 then extLen + 4 * numExtensions else extLen);
          let len = 38 + length (sh_sessionId m) + (if numExtensions > 0 then 2 + extensionsLength else 0);
          x \<leftarrow> make_and_fill (4 + len)
            [put 0 typeServerHello, put 1 (byte2 len), put 2 (byte1 len), put 3 (byte0 len),
             put 4 (hi16 (sh_vers m)), put 5 (lo16 (sh_vers m)), copyInto 6 38 (sh_random m),
             put 38 (byte0 (length (sh_sessionId m))),
             copyInto 39 (39 + length (sh_sessionId m)) (sh_sessionId m), advance_by (39 + length (sh_sessionId m)),
             put 0 (hi16 (sh_cipherSuite m)), put 1 (lo16 (sh_cipherSuite m)), put 2 (sh_compressionMethod m), advance_by 3,
             whenever (numExtensions > 0) (stmts [put 0 (byte1 extensionsLength), put 1 (byte0 extensionsLength), advance_by 2]),
             whenever (sh_nextProtoNeg m) (write_nextProtos m),
             whenever (sh_ocspStapling m) (write_empty extensionStatusRequest),
             whenever (sh_ticketSupported m) (write_empty extensionSessionTicket),
             whenever (sh_secureRenegotiationSupported m) (write_renegotiation (sh_secureRenegotiation m)),
             whenever (0 < length (sh_alpnProtocol m)) (write_protocol (sh_alpnProtocol m)),
             whenever (0 < sctLen m) (write_scts m)];
          Some (x, m\<lparr>sh_raw := Some x\<rparr>) })"

section \<open>Reading a server hello\<close>

definition read_nextProtos :: "nat \<Rightarrow> bytes \<Rightarrow> serverHelloMsg \<Rightarrow> (bool \<times> serverHelloMsg) option" where
  "read_nextProtos len data m = do {
     let m = m\<lparr>sh_nextProtoNeg := True\<rparr>;
     d \<leftarrow> slice_to data len;
     (ok, protos) \<leftarrow> read_protocols d (sh_nextProtos m);
     Some (ok, m\<lparr>sh_nextProtos := protos\<rparr>) }"

definition read_sh_renegotiation :: "nat \<Rightarrow> bytes \<Rightarrow> serverHelloMsg \<Rightarrow> (bool \<times> serverHelloMsg) option" where
  "read_sh_renegotiation len data m = do {
     r \<leftarrow> read_renegotiation len data;
     case r of
       None \<Rightarrow> Some (False, m)
     | Some d \<Rightarrow> Some (True, m\<lparr>sh_secureRenegotiation := d, sh_secureRenegotiationSupported := True\<rparr>) }"

definition read_protocol :: "nat \<Rightarrow> bytes \<Rightarrow> serverHelloMsg \<Rightarrow> (bool \<times> serverHelloMsg) option" where
  "read_protocol len data m = do {
     d \<leftarrow> slice_to data len;
     if length d < 3 then Some (False, m)
     else do {
       l \<leftarrow> int16_at d 0;
       if l \<noteq> length d - 2 then Some (False, m)
       else do {
         d \<leftarrow> slice_from d 2;
         b \<leftarrow> at_idx d 0;
         if unat b \<noteq> length d - 1 then Some (False, m)
         else do {
           d \<leftarrow> slice_from d 1;
           if length d = 0 then Some (False, m) else Some (True, m\<lparr>sh_alpnProtocol := d\<rparr>) } } } }"

function read_sct_list :: "bytes \<Rightarrow> bytes list \<Rightarrow> (bool \<times> bytes list) option" where
  "read_sct_list d acc =
     (if length d \<noteq> 0 then
        if length d < 2 then Some (False, acc)
        else do {
          n \<leftarrow> int16_at d 0;
          d' \<leftarrow> slice_from d 2;
          if n = 0 \<or> length d' < n then Some (False, acc)
          else do {
            sct \<leftarrow> slice_to d' n;
            d'' \<leftarrow> slice_from d' n;
            read_sct_list d'' (acc @ [sct]) } }
      else Some (True, acc))"
  by auto
termination by (relation "measure (\<lambda>(d, acc). length d)") (auto simp: slice_from_def split: if_splits)

declare read_sct_list.simps [simp del]

definition read_scts :: "nat \<Rightarrow> bytes \<Rightarrow> serverHelloMsg \<Rightarrow> (bool \<times> serverHelloMsg) option" where
  "read_scts len data m = do {
     d \<leftarrow> slice_to data len;
     if length d < 2 then Some (False, m)
     else do {
       l \<leftarrow> int16_at d 0;
       d \<leftarrow> slice_from d 2;
       if length d \<noteq> l \<or> l = 0 then Some (False, m)
       else do {
         (ok, scts) \<leftarrow> read_sct_list d [];
         Some (ok, m\<lparr>sh_scts := scts\<rparr>) } } }"

definition sh_extension :: "16 word \<Rightarrow> nat \<Rightarrow> bytes \<Rightarrow> serverHelloMsg \<Rightarrow> (bool \<times> serverHelloMsg) option" where
  "sh_extension extension len data m =
     (if extension = extensionNextProtoNeg then read_nextProtos len data m
      else if extension = extensionStatusRequest then
        (if len > 0 then Some (False, m) else Some (True, m\<lparr>sh_ocspStapling := True\<rparr>))
      else if extension = extensionSessionTicket then
        (if len > 0 then Some (False, m) else Some (True, m\<lparr>sh_ticketSupported := True\<rparr>))
      else if extension = extensionRenegotiationInfo then read_sh_renegotiation len data m
      else if extension = extensionALPN then read_protocol len data m
      else if extension = extensionSCT then read_scts len data m
      else Some (True, m))"

definition serverHelloMsg_unmarshal :: "serverHelloMsg \<Rightarrow> bytes \<Rightarrow> (bool \<times> serverHelloMsg) option" where
  "serverHelloMsg_unmarshal m data =
     (if length data < 42 then Some (False, m)
      else do {
        vers \<leftarrow> uint16_at data 4;
        random \<leftarrow> slice_between data 6 38;
        b \<leftarrow> at_idx data 38;
        let m = m\<lparr>sh_raw := Some data, sh_vers := vers, sh_random := random\<rparr>;
        let sessionIdLen = unat b;
        if sessionIdLen > 32 \<or> length data < 39 + sessionIdLen then Some (False, m)
        else do {
          sid \<leftarrow> slice_between data 39 (39 + sessionIdLen);
          let m = m\<lparr>sh_sessionId := sid\<rparr>;
          data \<leftarrow> slice_from data (39 + sessionIdLen);
          if length data < 3 then Some (False, m)
          else do {
            cs \<leftarrow> uint16_at data 0;
            cm \<leftarrow> at_idx data 2;
            data \<leftarrow> slice_from data 3;
            let m = m\<lparr>sh_cipherSuite := cs, sh_compressionMethod := cm, sh_nextProtoNeg := False, sh_nextProtos := [],
                sh_ocspStapling := False, sh_scts := [], sh_ticketSupported := False, sh_alpnProtocol := []\<rparr>;
            read_hello_tail sh_extension data m } } })"

end
