(* ===== verification/TlsMessagesLaws.thy ===== *)
theory TlsMessagesLaws
  imports TlsMessages
begin

section \<open>No reader panics\<close>

lemma no_panic_read_uint16s [no_panic]: "2 * n \<le> length d \<Longrightarrow> no_panic (read_uint16s n d)"
  by (induction n arbitrary: d) (auto intro!: no_panic simp del: length_0_conv length_greater_0_conv)

lemma no_panic_read_cas [no_panic]: "no_panic (read_cas cas acc)"
  by (induction cas acc rule: read_cas.induct) (subst read_cas.simps, auto intro!: no_panic simp del: length_0_conv length_greater_0_conv)

lemma len_wraps: "\<not> word_of_nat (length d) < (w :: 32 word) \<Longrightarrow> unat w \<le> length d"
proof -
  assume "\<not> word_of_nat (length d) < w"
  then have "unat w \<le> unat (word_of_nat (length d) :: 32 word)" by (simp only: linorder_not_less word_le_nat_alt)
  also have "\<dots> \<le> length d" by (simp add: unat_of_nat)
  finally show ?thesis .
qed

lemma no_panic_count_certs [no_panic]: "no_panic (count_certs certsLen d n)"
  by (induction certsLen d n rule: count_certs.induct)
     (subst count_certs.simps, auto intro!: no_panic dest: len_wraps)

text \<open>The second loop meets the slices that the first one has checked.\<close>

lemma no_panic_cut_certs: "count_certs certsLen d n = Some (Some k) \<Longrightarrow> n \<le> k \<and> no_panic (cut_certs (k - n) d)"
proof (induction certsLen d n rule: count_certs.induct)
  case (1 certsLen d n)
  show ?case
  proof (cases "0 < certsLen")
    case True
    with "1.prems" obtain c d' where cut: "\<not> length d < 4" "uint32_at d 0 = Some c" "\<not> word_of_nat (length d) < 3 + c"
      "slice_from d (unat (3 + c)) = Some d'" and rec: "count_certs (certsLen - (3 + c)) d' (n + 1) = Some (Some k)"
      by (subst (asm) count_certs.simps) (auto simp: bind_eq_Some_conv split: if_splits)
    from "1.IH" [OF True cut rec] have IH: "n + 1 \<le> k" "no_panic (cut_certs (k - (n + 1)) d')" by simp_all
    have "3 \<le> unat (3 + c)" "unat (3 + c) \<le> length d"
      using uint32_at_SomeD [OF cut(2)] len_wraps [OF cut(3)] by (simp_all add: unat_3_plus)
    with IH cut show ?thesis
      by (cases "k - n") (auto intro!: no_panic simp: le_eq_less_or_eq [of "Suc n"] diff_Suc split: nat.splits)
  next
    case False
    with "1.prems" show ?thesis by (subst (asm) count_certs.simps) (simp add: no_panic)
  qed
qed

lemma certificateMsg_no_panic: "no_panic (certificateMsg_unmarshal m data)"
  using no_panic_cut_certs [where n = 0]
  by (auto simp: certificateMsg_unmarshal_def Let_def intro!: no_panic)

lemma serverKeyExchangeMsg_no_panic: "no_panic (serverKeyExchangeMsg_unmarshal m data)"
  by (auto simp: serverKeyExchangeMsg_unmarshal_def Let_def intro!: no_panic simp del: length_0_conv length_greater_0_conv)

lemma clientKeyExchangeMsg_no_panic: "no_panic (clientKeyExchangeMsg_unmarshal m data)"
  by (auto simp: clientKeyExchangeMsg_unmarshal_def Let_def intro!: no_panic simp del: length_0_conv length_greater_0_conv)

lemma finishedMsg_no_panic: "no_panic (finishedMsg_unmarshal m data)"
  by (auto simp: finishedMsg_unmarshal_def Let_def intro!: no_panic simp del: length_0_conv length_greater_0_conv)

lemma certificateStatusMsg_no_panic: "no_panic (certificateStatusMsg_unmarshal m data)"
  by (auto simp: certificateStatusMsg_unmarshal_def Let_def intro!: no_panic simp del: length_0_conv length_greater_0_conv)

lemma nextProtoMsg_no_panic: "no_panic (nextProtoMsg_unmarshal m data)"
  by (auto simp: nextProtoMsg_unmarshal_def Let_def Suc_le_eq intro!: no_panic simp flip: length_greater_0_conv simp del: length_0_conv)

lemma newSessionTicketMsg_no_panic: "no_panic (newSessionTicketMsg_unmarshal m data)"
  by (auto simp: newSessionTicketMsg_unmarshal_def Let_def intro!: no_panic simp del: length_0_conv length_greater_0_conv)

lemma certificateVerifyMsg_no_panic: "no_panic (certificateVerifyMsg_unmarshal m data)"
  by (auto simp: certificateVerifyMsg_unmarshal_def Let_def intro!: no_panic simp del: length_0_conv length_greater_0_conv)

lemma certificateRequestMsgGM_no_panic: "no_panic (certificateRequestMsgGM_unmarshal m data)"
  by (auto simp: certificateRequestMsgGM_unmarshal_def Let_def intro!: no_panic simp del: length_0_conv length_greater_0_conv)

lemma no_panic_algorithms [no_panic]: "no_panic (certificateRequestMsg_algorithms m data)"
  by (auto simp: certificateRequestMsg_algorithms_def unat_div intro!: no_panic simp del: length_0_conv length_greater_0_conv)

lemma certificateRequestMsg_no_panic: "no_panic (certificateRequestMsg_unmarshal m data)"
  by (auto simp: certificateRequestMsg_unmarshal_def Let_def intro!: no_panic simp del: length_0_conv length_greater_0_conv)

end
