(* ===== verification/TlsHelloLaws.thy ===== *)
theory TlsHelloLaws
  imports TlsHello TlsMessagesLaws
begin

section \<open>No reader panics\<close>

lemma no_panic_read_suites [no_panic]: "2 + 2 * (i + n) \<le> length data \<Longrightarrow> no_panic (read_suites data i n m)"
  by (induction n arbitrary: i m) (auto simp: Let_def intro!: no_panic)

lemma no_panic_read_names [no_panic]: "no_panic (read_names d m)"
  by (induction d m rule: read_names.induct)
     (subst read_names.simps, auto simp del: length_0_conv length_greater_0_conv intro!: no_panic)

lemma no_panic_read_protocols [no_panic]: "no_panic (read_protocols d acc)"
  by (induction d acc rule: read_protocols.induct)
     (subst read_protocols.simps, auto simp: Suc_le_eq intro!: no_panic)

lemma no_panic_read_sct_list [no_panic]: "no_panic (read_sct_list d acc)"
  by (induction d acc rule: read_sct_list.induct)
     (subst read_sct_list.simps, auto intro!: no_panic)

lemma no_panic_renegotiation [no_panic]: "len \<le> length data \<Longrightarrow> no_panic (read_renegotiation len data)"
  by (auto simp: read_renegotiation_def Suc_le_eq intro!: no_panic)

lemma int16_at_val: "int16_at d i = Some n \<Longrightarrow> n = val16 d i \<and> i + 1 < length d"
  by (auto simp: int16_at_def at_idx_def push_or_nat unat_byte_less val16_def bind_eq_Some_conv split: if_splits)

lemma no_panic_read_serverName [no_panic]: "len \<le> length data \<Longrightarrow> no_panic (read_serverName len data m)"
  by (auto simp: read_serverName_def Let_def dest!: int16_at_val intro!: no_panic)

lemma no_panic_read_ocsp [no_panic]: "len \<le> length data \<Longrightarrow> no_panic (read_ocsp len data m)"
  by (auto simp: read_ocsp_def Let_def dest!: int16_at_val intro!: no_panic)

lemma no_panic_read_curves [no_panic]: "len \<le> length data \<Longrightarrow> no_panic (read_curves len data m)"
  by (auto simp: read_curves_def Let_def dest!: int16_at_val intro!: no_panic)

lemma no_panic_read_points [no_panic]: "len \<le> length data \<Longrightarrow> no_panic (read_points len data m)"
  by (auto simp: read_points_def Let_def dest!: int16_at_val intro!: no_panic)

lemma no_panic_read_ticket [no_panic]: "len \<le> length data \<Longrightarrow> no_panic (read_ticket len data m)"
  by (auto simp: read_ticket_def Let_def dest!: int16_at_val intro!: no_panic)

lemma no_panic_read_sigalgs [no_panic]: "len \<le> length data \<Longrightarrow> no_panic (read_sigalgs len data m)"
  by (auto simp: read_sigalgs_def Let_def dest!: int16_at_val intro!: no_panic)

lemma no_panic_read_ch_renegotiation [no_panic]: "len \<le> length data \<Longrightarrow> no_panic (read_ch_renegotiation len data m)"
  by (auto simp: read_ch_renegotiation_def Let_def dest!: int16_at_val intro!: no_panic)

lemma no_panic_read_alpn [no_panic]: "len \<le> length data \<Longrightarrow> no_panic (read_alpn len data m)"
  by (auto simp: read_alpn_def Let_def dest!: int16_at_val intro!: no_panic)

lemma no_panic_read_nextProtos [no_panic]: "len \<le> length data \<Longrightarrow> no_panic (read_nextProtos len data m)"
  by (auto simp: read_nextProtos_def Let_def dest!: int16_at_val intro!: no_panic)

lemma no_panic_read_sh_renegotiation [no_panic]: "len \<le> length data \<Longrightarrow> no_panic (read_sh_renegotiation len data m)"
  by (auto simp: read_sh_renegotiation_def Let_def dest!: int16_at_val intro!: no_panic)

lemma no_panic_read_protocol [no_panic]: "len \<le> length data \<Longrightarrow> no_panic (read_protocol len data m)"
  by (auto simp: read_protocol_def Let_def dest!: int16_at_val intro!: no_panic)

lemma no_panic_read_scts [no_panic]: "len \<le> length data \<Longrightarrow> no_panic (read_scts len data m)"
  by (auto simp: read_scts_def Let_def dest!: int16_at_val intro!: no_panic)

lemma ch_extension_no_panic: "len \<le> length data \<Longrightarrow> no_panic (ch_extension e len data m)"
  unfolding ch_extension_def by (intro no_panic)

lemma sh_extension_no_panic: "len \<le> length data \<Longrightarrow> no_panic (sh_extension e len data m)"
  unfolding sh_extension_def by (intro no_panic)

lemma no_panic_read_extensions:
  assumes "\<And>e len data m. len \<le> length data \<Longrightarrow> no_panic (handle e len data m)"
  shows "no_panic (read_extensions handle data m)"
  using assms
  by (induction handle data m rule: read_extensions.induct)
     (subst read_extensions.simps, auto intro!: no_panic)

lemma no_panic_read_hello_tail:
  assumes "\<And>e len data m. len \<le> length data \<Longrightarrow> no_panic (handle e len data m)"
  shows "no_panic (read_hello_tail handle data m)"
  using no_panic_read_extensions [of handle, OF assms]
  by (auto simp: read_hello_tail_def simp del: length_0_conv intro!: no_panic)

lemmas no_panic_tails [no_panic] =
  no_panic_read_hello_tail [of ch_extension, OF ch_extension_no_panic]
  no_panic_read_hello_tail [of sh_extension, OF sh_extension_no_panic]

lemma clientHelloMsg_no_panic: "no_panic (clientHelloMsg_unmarshal m data)"
  by (auto simp: clientHelloMsg_unmarshal_def Let_def Suc_le_eq simp del: length_0_conv simp flip: length_greater_0_conv intro!: no_panic)

lemma serverHelloMsg_no_panic: "no_panic (serverHelloMsg_unmarshal m data)"
  by (auto simp: serverHelloMsg_unmarshal_def Let_def intro!: no_panic)

end
