(* ===== verification/TlsGrammar.thy ===== *)
theory TlsGrammar
  imports TlsMessagesLaws
begin

text \<open>
  The presentation language of TLS as a reference for the bytes of a message: vectors with their length in front and
  the frame of a handshake message. The lemmas say that \<open>marshal\<close> fills its buffer with exactly these bytes.
\<close>

definition vec :: "nat \<Rightarrow> bytes \<Rightarrow> bytes" where
  "vec k xs = be_fixed k (length xs) @ xs"

definition u16s :: "16 word list \<Rightarrow> bytes" where
  "u16s ws = concat (map (\<lambda>w. be_fixed 2 (unat w)) ws)"

definition vecs :: "nat \<Rightarrow> bytes list \<Rightarrow> bytes" where
  "vecs k xss = concat (map (vec k) xss)"

definition handshake :: "byte \<Rightarrow> bytes \<Rightarrow> bytes" where
  "handshake typ body = typ # vec 3 body"

lemma length_vec [simp]: "length (vec k xs) = k + length xs"
  by (simp add: vec_def)

lemma length_u16s [simp]: "length (u16s ws) = 2 * length ws"
  by (induction ws) (simp_all add: u16s_def)

lemma length_vecs: "length (vecs k xss) = sum_list (map (\<lambda>xs. k + length xs) xss)"
  by (induction xss) (simp_all add: vecs_def)

lemma length_vecs_sum: "length (vecs k xss) = k * length xss + sum_list (map length xss)"
  by (induction xss) (simp_all add: vecs_def)

lemma length_handshake [simp]: "length (handshake typ body) = 4 + length body"
  by (simp add: handshake_def)

section \<open>Blocks\<close>

lemmas block_simps = writers numeral_eq_Suc copy_at_def replicate_add

lemma appends_vec3:
  "appends (stmts [put 0 (byte2 (length xs)), put 1 (byte1 (length xs)), put 2 (byte0 (length xs)),
             copyTo 3 xs, advance_by (3 + length xs)]) (vec 3 xs)"
  unfolding vec_def be_fixed_3 by (simp add: appends_def block_simps)

lemma appends_header:
  "appends (stmts [put 0 t, put 1 (byte2 n), put 2 (byte1 n), put 3 (byte0 n), advance_by 4]) (t # be_fixed 3 n)"
  unfolding be_fixed_3 by (simp add: appends_def block_simps)

lemma appends_copy: "appends (stmts [copyTo 0 xs, advance_by (length xs)]) xs"
  by (simp add: appends_def block_simps)

lemma appends_vec2_cas:
  "appends (stmts [put 0 (byte1 (length xs)), put 1 (byte0 (length xs)), advance_by 2, copyTo 0 xs, advance_by (length xs)]) (vec 2 xs)"
  unfolding vec_def be_fixed_2 by (rule appends_append [OF appends_pair appends_copy]) simp_all

lemma appends_uint16s: "appends (write_uint16s ws) (u16s ws)"
  unfolding write_uint16s_def u16s_def by (rule appends_foreach) (rule appends_uint16)

lemma appends_cas: "appends (write_cas cas) (vecs 2 cas)"
  unfolding write_cas_def vecs_def by (rule appends_foreach) (rule appends_vec2_cas)

section \<open>Messages\<close>

lemma header_frame: "length body = n \<Longrightarrow> t # be_fixed 3 n @ body = handshake t body"
  by (simp add: handshake_def vec_def)

definition certificateMsg_bytes :: "certificateMsg \<Rightarrow> bytes" where
  "certificateMsg_bytes m = handshake typeCertificate (vec 3 (vecs 3 (cm_certificates m)))"

lemma appends_header7:
  "appends (stmts [put 0 t, put 1 (byte2 n), put 2 (byte1 n), put 3 (byte0 n),
     put 4 (byte2 k), put 5 (byte1 k), put 6 (byte0 k), advance_by 7]) (t # be_fixed 3 n @ be_fixed 3 k)"
  unfolding be_fixed_3 by (simp add: appends_def block_simps)

lemma certificateMsg_exact:
  assumes "cm_raw m = None"
  shows "certificateMsg_marshal m = Some (certificateMsg_bytes m, m\<lparr>cm_raw := Some (certificateMsg_bytes m)\<rparr>)"
proof -
  let ?cs = "cm_certificates m"
  define len where "len = 3 + 3 * length ?cs + sum_list (map length ?cs)"
  have loop: "appends (foreach ?cs (\<lambda>slice. stmts
      [put 0 (byte2 (length slice)), put 1 (byte1 (length slice)), put 2 (byte0 (length slice)),
       copyTo 3 slice, advance_by (3 + length slice)])) (vecs 3 ?cs)"
    unfolding vecs_def by (rule appends_foreach) (rule appends_vec3)
  have len: "len = length (vec 3 (vecs 3 ?cs))" by (simp add: len_def length_vecs_sum)
  have "make_and_fill (4 + len)
      [put 0 typeCertificate, put 1 (byte2 len), put 2 (byte1 len), put 3 (byte0 len),
       put 4 (byte2 (len - 3)), put 5 (byte1 (len - 3)), put 6 (byte0 (len - 3)),
       advance_by 7,
       foreach ?cs (\<lambda>slice. stmts
         [put 0 (byte2 (length slice)), put 1 (byte1 (length slice)), put 2 (byte0 (length slice)),
          copyTo 3 slice, advance_by (3 + length slice)])] = Some (certificateMsg_bytes m)"
    by (rule make_and_fill_exact, rule fills_append [OF appends_header7 appends_fills [OF appends_last [OF loop]]])
       (simp_all add: certificateMsg_bytes_def len handshake_def vec_def)
  then show ?thesis using assms unfolding certificateMsg_marshal_def Let_def len_def by simp
qed

definition serverKeyExchangeMsg_bytes :: "serverKeyExchangeMsg \<Rightarrow> bytes" where
  "serverKeyExchangeMsg_bytes m = handshake typeServerKeyExchange (ske_key m)"

definition clientKeyExchangeMsg_bytes :: "clientKeyExchangeMsg \<Rightarrow> bytes" where
  "clientKeyExchangeMsg_bytes m = handshake typeClientKeyExchange (cke_ciphertext m)"

lemma fills_simple:
  "fills (stmts [put 0 t, put 1 (byte2 (length xs)), put 2 (byte1 (length xs)), put 3 (byte0 (length xs)), copyTo 4 xs])
     (handshake t xs)"
  unfolding handshake_def vec_def be_fixed_3 by (simp add: fills_def block_simps)

lemma serverKeyExchangeMsg_exact:
  "ske_raw m = None \<Longrightarrow>
   serverKeyExchangeMsg_marshal m = Some (serverKeyExchangeMsg_bytes m, m\<lparr>ske_raw := Some (serverKeyExchangeMsg_bytes m)\<rparr>)"
  using make_and_fill_exact [OF fills_simple refl, of typeServerKeyExchange "ske_key m"]
  by (simp add: serverKeyExchangeMsg_marshal_def serverKeyExchangeMsg_bytes_def Let_def add.commute)

lemma clientKeyExchangeMsg_exact:
  "cke_raw m = None \<Longrightarrow>
   clientKeyExchangeMsg_marshal m = Some (clientKeyExchangeMsg_bytes m, m\<lparr>cke_raw := Some (clientKeyExchangeMsg_bytes m)\<rparr>)"
  using make_and_fill_exact [OF fills_simple refl, of typeClientKeyExchange "cke_ciphertext m"]
  by (simp add: clientKeyExchangeMsg_marshal_def clientKeyExchangeMsg_bytes_def Let_def add.commute)

text \<open>\<open>finishedMsg\<close> writes one byte of its length.\<close>

definition finishedMsg_bytes :: "finishedMsg \<Rightarrow> bytes" where
  "finishedMsg_bytes m = [typeFinished, 0, 0] @ vec 1 (fin_verifyData m)"

lemma finishedMsg_exact:
  assumes "fin_raw m = None"
  shows "finishedMsg_marshal m = Some (finishedMsg_bytes m, m\<lparr>fin_raw := Some (finishedMsg_bytes m)\<rparr>)"
proof -
  have "fills (stmts [put 0 typeFinished, put 3 (byte0 (length (fin_verifyData m))), copyTo 4 (fin_verifyData m)])
          (finishedMsg_bytes m)"
    unfolding finishedMsg_bytes_def vec_def One_nat_def be_fixed_1 by (simp add: fills_def block_simps)
  from make_and_fill_exact [OF this, of "4 + length (fin_verifyData m)"] assms show ?thesis
    by (simp add: finishedMsg_marshal_def finishedMsg_bytes_def)
qed

definition certificateStatusMsg_bytes :: "certificateStatusMsg \<Rightarrow> bytes" where
  "certificateStatusMsg_bytes m = handshake typeCertificateStatus
     (if cs_statusType m = statusTypeOCSP then statusTypeOCSP # vec 3 (cs_response m) else [cs_statusType m])"

lemma certificateStatusMsg_exact:
  assumes "cs_raw m = None"
  shows "certificateStatusMsg_marshal m = Some (certificateStatusMsg_bytes m, m\<lparr>cs_raw := Some (certificateStatusMsg_bytes m)\<rparr>)"
proof (cases "cs_statusType m = statusTypeOCSP")
  case True
  let ?r = "cs_response m"
  have "fills (stmts [put 0 typeCertificateStatus, put 1 (byte2 (length ?r + 4)), put 2 (byte1 (length ?r + 4)),
      put 3 (byte0 (length ?r + 4)), put 4 statusTypeOCSP, put 5 (byte2 (length ?r)), put 6 (byte1 (length ?r)),
      put 7 (byte0 (length ?r)), copyTo 8 ?r]) (handshake typeCertificateStatus (statusTypeOCSP # vec 3 ?r))"
    unfolding handshake_def vec_def be_fixed_3 by (simp add: fills_def block_simps)
  from make_and_fill_exact [OF this refl] assms True show ?thesis
    by (simp add: certificateStatusMsg_marshal_def certificateStatusMsg_bytes_def Let_def)
next
  case False
  with assms show ?thesis
    by (simp add: certificateStatusMsg_marshal_def certificateStatusMsg_bytes_def handshake_def vec_def be_fixed_3
        byte0_def byte1_def byte2_def drop_bit_eq_div)
qed

definition nextProtoMsg_bytes :: "nextProtoMsg \<Rightarrow> bytes" where
  "nextProtoMsg_bytes m =
     (let p = take 255 (np_proto m) in
      handshake typeNextProtocol (vec 1 p @ vec 1 (replicate (32 - (length p + 2) mod 32) 0)))"

lemma nextProtoMsg_exact:
  assumes "np_raw m = None"
  shows "nextProtoMsg_marshal m = Some (nextProtoMsg_bytes m, m\<lparr>np_raw := Some (nextProtoMsg_bytes m)\<rparr>)"
proof -
  define p where "p = take 255 (np_proto m)"
  define pad where "pad = 32 - (length p + 2) mod 32"
  have l: "(if length (np_proto m) > 255 then 255 else length (np_proto m)) = length p" by (simp add: p_def)
  have p: "slice_between (np_proto m) 0 (length p) = Some p"
    by (cases "length (np_proto m) \<le> 255") (simp_all add: slice_between_def subslice_def p_def)
  have 1: "appends (stmts [put 0 (byte0 (length p)), copyTo 1 p, advance_by (1 + length p)]) (vec 1 p)"
    unfolding vec_def One_nat_def be_fixed_1 by (simp add: appends_def block_simps)
  have 2: "fills (stmts [put 0 (byte0 pad)]) (vec 1 (replicate pad 0))"
    unfolding vec_def One_nat_def be_fixed_1 by (simp add: fills_def block_simps)
  define len where "len = length p + pad + 2"
  have len: "len = length (vec 1 p @ vec 1 (replicate pad (0 :: byte)))" by (simp add: len_def)
  have "make_and_fill (len + 4) [put 0 typeNextProtocol, put 1 (byte2 len), put 2 (byte1 len), put 3 (byte0 len),
      advance_by 4, put 0 (byte0 (length p)), copyTo 1 p, advance_by (1 + length p), put 0 (byte0 pad)]
      = Some (handshake typeNextProtocol (vec 1 p @ vec 1 (replicate pad 0)))"
    by (rule make_and_fill_exact,
        rule fills_append [OF appends_append [OF appends_header 1 refl refl] 2])
       (simp_all add: handshake_def vec_def len)
  moreover have "nextProtoMsg_bytes m = handshake typeNextProtocol (vec 1 p @ vec 1 (replicate pad 0))"
    by (simp add: nextProtoMsg_bytes_def p_def pad_def)
  ultimately show ?thesis unfolding nextProtoMsg_marshal_def Let_def l pad_def len_def
    by (simp only: assms p option.case bind.bind_lunit)
qed

definition newSessionTicketMsg_bytes :: "newSessionTicketMsg \<Rightarrow> bytes" where
  "newSessionTicketMsg_bytes m = handshake typeNewSessionTicket ([0, 0, 0, 0] @ vec 2 (nst_ticket m))"

lemma newSessionTicketMsg_exact:
  assumes "nst_raw m = None"
  shows "newSessionTicketMsg_marshal m = Some (newSessionTicketMsg_bytes m, m\<lparr>nst_raw := Some (newSessionTicketMsg_bytes m)\<rparr>)"
proof -
  let ?t = "nst_ticket m"
  let ?n = "2 + 4 + length ?t"
  have "fills (stmts [put 0 typeNewSessionTicket, put 1 (byte2 ?n), put 2 (byte1 ?n), put 3 (byte0 ?n),
      put 8 (byte1 (length ?t)), put 9 (byte0 (length ?t)), copyTo 10 ?t]) (newSessionTicketMsg_bytes m)"
    unfolding newSessionTicketMsg_bytes_def handshake_def vec_def be_fixed_2 be_fixed_3
    by (simp add: fills_def block_simps)
  from make_and_fill_exact [OF this refl] assms show ?thesis
    by (simp add: newSessionTicketMsg_marshal_def newSessionTicketMsg_bytes_def Let_def)
qed

definition certificateVerifyMsg_bytes :: "certificateVerifyMsg \<Rightarrow> bytes" where
  "certificateVerifyMsg_bytes m = handshake typeCertificateVerify
     ((if cv_hasSignatureAndHash m then be_fixed 2 (unat (cv_signatureAlgorithm m)) else []) @ vec 2 (cv_signature m))"

lemma fills_vec2: "fills (stmts [put 0 (byte1 (length xs)), put 1 (byte0 (length xs)), copyTo 2 xs]) (vec 2 xs)"
  unfolding vec_def be_fixed_2 by (simp add: fills_def block_simps)

lemma certificateVerifyMsg_exact:
  assumes "cv_raw m = None"
  shows "certificateVerifyMsg_marshal m = Some (certificateVerifyMsg_bytes m, m\<lparr>cv_raw := Some (certificateVerifyMsg_bytes m)\<rparr>)"
proof -
  define s where "s = cv_signature m"
  define alg where "alg = (if cv_hasSignatureAndHash m then be_fixed 2 (unat (cv_signatureAlgorithm m)) else [])"
  have bytes: "certificateVerifyMsg_bytes m = handshake typeCertificateVerify (alg @ vec 2 s)"
    by (simp add: certificateVerifyMsg_bytes_def alg_def s_def)
  define len where "len = 2 + length s + (if cv_hasSignatureAndHash m then 2 else 0)"
  have len: "len = length (alg @ vec 2 s)" by (simp add: len_def alg_def)
  have alg: "appends (stmts [whenever (cv_hasSignatureAndHash m)
      (stmts [put 0 (hi16 (cv_signatureAlgorithm m)), put 1 (lo16 (cv_signatureAlgorithm m)), advance_by 2])]) alg"
    unfolding alg_def by (intro appends_last appends_whenever appends_uint16)
  have "make_and_fill (4 + len) [put 0 typeCertificateVerify, put 1 (byte2 len), put 2 (byte1 len), put 3 (byte0 len), advance_by 4,
      whenever (cv_hasSignatureAndHash m)
        (stmts [put 0 (hi16 (cv_signatureAlgorithm m)), put 1 (lo16 (cv_signatureAlgorithm m)), advance_by 2]),
      put 0 (byte1 (length s)), put 1 (byte0 (length s)), copyTo 2 s] = Some (certificateVerifyMsg_bytes m)"
    by (rule make_and_fill_exact, rule fills_append [OF appends_append [OF appends_header alg refl refl] fills_vec2])
       (simp_all add: bytes handshake_def vec_def [of 3] len)
  then show ?thesis unfolding certificateVerifyMsg_marshal_def Let_def len_def s_def
    by (simp only: assms option.case bind.bind_lunit)
qed

definition certificateRequestMsg_bytes :: "certificateRequestMsg \<Rightarrow> bytes" where
  "certificateRequestMsg_bytes m = handshake typeCertificateRequest
     (vec 1 (cr_certificateTypes m) @
      (if cr_hasSignatureAndHash m then vec 2 (u16s (cr_supportedSignatureAlgorithms m)) else []) @
      vec 2 (vecs 2 (cr_certificateAuthorities m)))"

lemma appends_request_types:
  "appends (stmts [put 0 t, put 1 (byte2 n), put 2 (byte1 n), put 3 (byte0 n), put 4 (byte0 (length xs)), copyTo 5 xs,
     advance_by (5 + length xs)]) (t # be_fixed 3 n @ vec 1 xs)"
  unfolding vec_def be_fixed_3 One_nat_def be_fixed_1 by (simp add: appends_def block_simps)

lemma appends_u16_vector:
  assumes "n = 2 * length ws"
  shows "appends (stmts [put 0 (byte1 n), put 1 (byte0 n), advance_by 2, write_uint16s ws]) (vec 2 (u16s ws))"
  unfolding vec_def by (rule appends_append [OF appends_int16 appends_last [OF appends_uint16s]]) (simp_all add: assms)

lemma appends_cas_vector:
  assumes "n = length (vecs 2 cas)"
  shows "appends (stmts [put 0 (byte1 n), put 1 (byte0 n), advance_by 2, write_cas cas]) (vec 2 (vecs 2 cas))"
  unfolding vec_def by (rule appends_append [OF appends_int16 appends_last [OF appends_cas]]) (simp_all add: assms)

lemma certificateRequestMsg_exact:
  assumes "cr_raw m = None"
  shows "certificateRequestMsg_marshal m = Some (certificateRequestMsg_bytes m, m\<lparr>cr_raw := Some (certificateRequestMsg_bytes m)\<rparr>)"
proof -
  define cts where "cts = cr_certificateTypes m"
  define algs where "algs = cr_supportedSignatureAlgorithms m"
  define cas where "cas = cr_certificateAuthorities m"
  define n where "n = length algs * 2"
  define caslen where "caslen = sum_list (map (\<lambda>ca. 2 + length ca) cas)"
  define len where "len = 1 + length cts + 2 + caslen + (if cr_hasSignatureAndHash m then 2 + 2 * length algs else 0)"
  define a where "a = (if cr_hasSignatureAndHash m then vec 2 (u16s algs) else [])"
  have cas: "caslen = length (vecs 2 cas)" by (simp add: caslen_def length_vecs)
  have len: "len = length (vec 1 cts @ a @ vec 2 (vecs 2 cas))" by (simp add: len_def a_def cas)
  have bytes: "certificateRequestMsg_bytes m = handshake typeCertificateRequest (vec 1 cts @ a @ vec 2 (vecs 2 cas))"
    by (simp add: certificateRequestMsg_bytes_def a_def cts_def algs_def cas_def)
  have a: "appends (stmts [whenever (cr_hasSignatureAndHash m)
      (stmts [put 0 (byte1 n), put 1 (byte0 n), advance_by 2, write_uint16s algs])]) a"
    unfolding a_def n_def by (intro appends_last appends_whenever appends_u16_vector) simp
  have "make_and_fill (4 + len)
      [put 0 typeCertificateRequest, put 1 (byte2 len), put 2 (byte1 len), put 3 (byte0 len),
       put 4 (byte0 (length cts)), copyTo 5 cts, advance_by (5 + length cts),
       whenever (cr_hasSignatureAndHash m) (stmts [put 0 (byte1 n), put 1 (byte0 n), advance_by 2, write_uint16s algs]),
       put 0 (byte1 caslen), put 1 (byte0 caslen), advance_by 2, write_cas cas] = Some (certificateRequestMsg_bytes m)"
    by (rule make_and_fill_exact,
        rule fills_append [OF appends_append [OF appends_request_types a refl refl] appends_fills [OF appends_cas_vector [OF cas]]])
       (simp_all add: bytes handshake_def vec_def [of 3] len)
  then show ?thesis
    unfolding certificateRequestMsg_marshal_def Let_def len_def n_def caslen_def cts_def algs_def cas_def
    by (simp only: assms option.case bind.bind_lunit)
qed

definition certificateRequestMsgGM_bytes :: "certificateRequestMsgGM \<Rightarrow> bytes" where
  "certificateRequestMsgGM_bytes m =
     handshake typeCertificateRequest (vec 1 (gm_certificateTypes m) @ vec 2 (vecs 2 (gm_certificateAuthorities m)))"

lemma certificateRequestMsgGM_exact:
  assumes "gm_raw m = None"
  shows "certificateRequestMsgGM_marshal m = Some (certificateRequestMsgGM_bytes m, m\<lparr>gm_raw := Some (certificateRequestMsgGM_bytes m)\<rparr>)"
proof -
  define cts where "cts = gm_certificateTypes m"
  define cas where "cas = gm_certificateAuthorities m"
  define caslen where "caslen = sum_list (map (\<lambda>ca. 2 + length ca) cas)"
  define len where "len = 1 + length cts + 2 + caslen"
  have cas: "caslen = length (vecs 2 cas)" by (simp add: caslen_def length_vecs)
  have len: "len = length (vec 1 cts @ vec 2 (vecs 2 cas))" by (simp add: len_def cas)
  have "make_and_fill (4 + len)
      [put 0 typeCertificateRequest, put 1 (byte2 len), put 2 (byte1 len), put 3 (byte0 len),
       put 4 (byte0 (length cts)), copyTo 5 cts, advance_by (5 + length cts),
       put 0 (byte1 caslen), put 1 (byte0 caslen), advance_by 2, write_cas cas] = Some (certificateRequestMsgGM_bytes m)"
    by (rule make_and_fill_exact,
        rule fills_append [OF appends_request_types appends_fills [OF appends_cas_vector [OF cas]]])
       (simp_all add: certificateRequestMsgGM_bytes_def handshake_def vec_def [of 3] len flip: cts_def cas_def)
  then show ?thesis
    unfolding certificateRequestMsgGM_marshal_def Let_def len_def caslen_def cts_def cas_def
    by (simp only: assms option.case bind.bind_lunit)
qed

end
