(* ===== verification/TlsMessagesRound.thy ===== *)
theory TlsMessagesRound
  imports TlsGrammar
begin

text \<open>
  Reading the bytes that the grammar gives to a message: every field comes back, when its length fits in front of it.
\<close>

section \<open>Frames and vectors\<close>

named_theorems frames \<open>reading behind the frame of a handshake message\<close>

lemma handshake_append: "handshake t body = (t # be_fixed 3 (length body)) @ body"
  by (simp add: handshake_def vec_def)

lemma length_frame: "length (t # be_fixed 3 n) = 4"
  by simp

lemma at_idx_shift: "length p \<le> i \<Longrightarrow> at_idx (p @ d) i = at_idx d (i - length p)"
  by (auto simp: at_idx_def nth_append)

lemma slice_from_shift: "length p \<le> i \<Longrightarrow> slice_from (p @ d) i = slice_from d (i - length p)"
  by (auto simp: slice_from_def)

lemma uint32_at_shift: "length p \<le> i \<Longrightarrow> uint32_at (p @ d) i = uint32_at d (i - length p)"
  by (simp add: uint32_at_def at_idx_shift Suc_diff_le)

lemmas frame_shift [frames] =
  at_idx_shift [of "t # be_fixed 3 (length body)" i body for t body i, folded handshake_append, simplified length_frame]
  slice_from_shift [of "t # be_fixed 3 (length body)" i body for t body i, folded handshake_append, simplified length_frame]
  uint32_at_shift [of "t # be_fixed 3 (length body)" i body for t body i, folded handshake_append, simplified length_frame]

lemma uint32_at_length [frames]: "uint32_at (handshake t body) (Suc 0) = Some (word_of_nat (length body mod 16777216))"
  using uint32_at_be [of "[t]" 1 "length body" body] by (simp add: handshake_append)

lemma int24_at_length [frames]: "length body < 16777216 \<Longrightarrow> int24_at (handshake t body) (Suc 0) = Some (length body)"
  using int24_at_be [of "length body" "[t]" 1 body] by (simp add: handshake_append)

lemma length_check: "length body < 16777216 \<Longrightarrow>
    word_of_nat (length (handshake t body)) - 4 = (word_of_nat (length body mod 16777216) :: 32 word)"
  by simp

lemma at_idx_vec1 [readers]: "at_idx (vec (Suc 0) xs @ d) 0 = Some (byte0 (length xs))"
  unfolding vec_def be_fixed_1 by (simp add: readers)

lemma unat_byte0 [simp]: "n < 256 \<Longrightarrow> unat (byte0 n) = n"
  by (simp add: unat_bytes)

lemma slice_from_vec1 [readers]: "slice_from (vec (Suc 0) xs @ d) (Suc 0) = Some (xs @ d)"
  unfolding vec_def be_fixed_1 by (simp add: slice_from_def)

lemma uint16_at_vec2 [readers]: "uint16_at (vec 2 xs @ d) 0 = Some (word_of_nat (length xs))"
  by (simp add: vec_def readers)

lemma int16_at_vec2 [readers]: "length xs < 65536 \<Longrightarrow> int16_at (vec 2 xs @ d) 0 = Some (length xs)"
  by (simp add: vec_def readers)

lemma slice_from_vec2 [readers]: "slice_from (vec 2 xs @ d) 2 = Some (xs @ d)"
  by (simp add: vec_def slice_from_def)

lemma uint32_at_vec3 [readers]: "uint32_at (vec 3 xs @ d) 0 = Some (word_of_nat (length xs mod 16777216))"
  by (simp add: vec_def readers)

lemma slice_from_vec3 [readers]: "n = length xs \<Longrightarrow> slice_from (vec 3 xs @ d) (3 + n) = Some d"
  by (simp add: vec_def slice_from_def)

lemma slice_between_vec3 [readers]: "n = length xs \<Longrightarrow> slice_between (vec 3 xs @ d) 3 (3 + n) = Some xs"
  by (simp add: vec_def slice_between_def subslice_def)

lemma vec_not_Nil [simp]: "0 < k \<Longrightarrow> vec k xs \<noteq> []"
  by (simp flip: length_greater_0_conv)

lemma at_idx_vec2: "at_idx (vec 2 xs) 0 = Some (byte1 (length xs))" "at_idx (vec 2 xs) (Suc 0) = Some (byte0 (length xs))"
  by (simp_all add: vec_def be_fixed_2 at_idx_def)

lemma slice_from_0 [readers]: "slice_from d 0 = Some d"
  by (simp add: slice_from_def)

lemmas vec_self [readers] =
  at_idx_vec1 [of _ "[]", unfolded append_Nil2] slice_from_vec1 [of _ "[]", unfolded append_Nil2]
  uint16_at_vec2 [of _ "[]", unfolded append_Nil2] int16_at_vec2 [of _ "[]", unfolded append_Nil2]
  slice_from_vec2 [of _ "[]", unfolded append_Nil2] uint32_at_vec3 [of _ "[]", unfolded append_Nil2]

lemma slice_from_vec3_self [readers]: "slice_from (vec 3 xs @ d) 3 = Some (xs @ d)" "slice_from (vec 3 xs) 3 = Some xs"
  by (simp_all add: vec_def slice_from_def)

lemma unat_of_nat16 [simp]: "n < 65536 \<Longrightarrow> unat (word_of_nat n :: 16 word) = n"
  by (simp add: unat_of_nat)

lemma unat_of_nat32: "n < 4294967296 \<Longrightarrow> unat (word_of_nat n :: 32 word) = n"
  by (simp add: unat_of_nat)

section \<open>Lists\<close>

lemma read_u16s: "read_uint16s (length ws) (u16s ws @ d) = Some (ws, d)"
  by (induction ws) (simp_all add: u16s_def readers)

lemma vecs_Cons: "vecs k (x # xs) = vec k x @ vecs k xs"
  by (simp add: vecs_def)

lemma vecs_Nil [simp]: "vecs k [] = []"
  by (simp add: vecs_def)

lemma read_cas_vecs: "\<forall>ca \<in> set cas. length ca < 65536 \<Longrightarrow> read_cas (vecs 2 cas) acc = Some (True, acc @ cas)"
proof (induction cas arbitrary: acc)
  case Nil
  show ?case by (subst read_cas.simps) simp
next
  case (Cons ca cas)
  have "vec 2 ca \<noteq> []" by (simp flip: length_0_conv)
  with Cons show ?case by (subst read_cas.simps) (simp add: vecs_Cons readers)
qed

lemma vecs3_length_ge: "cs \<noteq> [] \<Longrightarrow> last cs \<noteq> [] \<Longrightarrow> 4 \<le> length (vecs 3 cs)"
proof (induction cs)
  case (Cons c cs)
  then show ?case by (cases "cs = []"; cases c) (auto simp: vecs_Cons)
qed simp

lemma count_certs_vecs:
  "length (vecs 3 cs) < 16777216 \<Longrightarrow> cs = [] \<or> last cs \<noteq> [] \<Longrightarrow>
   count_certs (word_of_nat (length (vecs 3 cs))) (vecs 3 cs) n = Some (Some (n + length cs))"
proof (induction cs arbitrary: n)
  case Nil
  show ?case by (subst count_certs.simps) simp
next
  case (Cons c cs)
  let ?N = "length (vecs 3 (c # cs))"
  have N: "?N = 3 + length c + length (vecs 3 cs)" by (simp add: vecs_Cons)
  have small: "length c < 16777216" using Cons.prems N by simp
  have c3: "unat (3 + word_of_nat (length c) :: 32 word) = 3 + length c"
    using small by (simp add: unat_3_plus unat_of_nat32)
  have "0 < unat (word_of_nat ?N :: 32 word)" using Cons.prems N by (simp add: unat_of_nat32 del: of_nat_add)
  then have pos: "0 < (word_of_nat ?N :: 32 word)" by (simp only: word_less_nat_alt) simp
  have fits: "\<not> (word_of_nat ?N :: 32 word) < 3 + word_of_nat (length c)"
    using Cons.prems(1) N by (simp only: word_less_nat_alt c3) (simp add: unat_of_nat32 del: of_nat_add)
  have rest: "word_of_nat ?N - (3 + word_of_nat (length c)) = (word_of_nat (length (vecs 3 cs)) :: 32 word)"
    by (simp only: N of_nat_add of_nat_numeral) simp
  have "4 \<le> ?N" using Cons.prems by (intro vecs3_length_ge) simp_all
  moreover have "count_certs (word_of_nat (length (vecs 3 cs))) (vecs 3 cs) (n + 1) = Some (Some (n + 1 + length cs))"
    using Cons.prems N by (intro Cons.IH) (auto split: if_splits)
  moreover have "slice_from (vecs 3 (c # cs)) (3 + length c) = Some (vecs 3 cs)"
    by (simp add: vecs_Cons readers)
  moreover have "uint32_at (vecs 3 (c # cs)) 0 = Some (word_of_nat (length c))"
    using small by (simp add: vecs_Cons readers)
  ultimately show ?case using pos fits rest
    by (subst count_certs.simps) (simp add: c3 del: of_nat_add)
qed

lemma cut_certs_vecs: "\<forall>c \<in> set cs. length c < 16777216 \<Longrightarrow> cut_certs (length cs) (vecs 3 cs) = Some cs"
  by (induction cs) (simp_all add: vecs_Cons readers unat_3_plus unat_of_nat32)

lemma vecs_member_length: "x \<in> set xs \<Longrightarrow> k + length x \<le> length (vecs k xs)"
  by (induction xs) (auto simp: vecs_Cons)

section \<open>Messages\<close>

definition certificateMsg_ok :: "certificateMsg \<Rightarrow> bool" where
  "certificateMsg_ok m \<longleftrightarrow>
     length (vecs 3 (cm_certificates m)) < 16777216 \<and> (cm_certificates m = [] \<or> last (cm_certificates m) \<noteq> [])"

lemma certificateMsg_round:
  assumes "certificateMsg_ok m"
  shows "certificateMsg_unmarshal m0 (certificateMsg_bytes m)
           = Some (True, m0\<lparr>cm_raw := Some (certificateMsg_bytes m), cm_certificates := cm_certificates m\<rparr>)"
proof -
  let ?cs = "cm_certificates m"
  let ?v = "vecs 3 ?cs"
  have v: "length ?v < 16777216" and l: "?cs = [] \<or> last ?cs \<noteq> []" using assms by (simp_all add: certificateMsg_ok_def)
  have "\<forall>c \<in> set ?cs. length c < 16777216" using vecs_member_length [of _ ?cs 3] v by fastforce
  then have "cut_certs (length ?cs) ?v = Some ?cs" by (rule cut_certs_vecs)
  moreover have "count_certs (word_of_nat (length ?v)) ?v 0 = Some (Some (length ?cs))"
    using count_certs_vecs [OF v l, of 0] by simp
  moreover have "uint32_at (certificateMsg_bytes m) 4 = Some (word_of_nat (length ?v))"
    using v by (simp add: certificateMsg_bytes_def frames readers)
  moreover have "slice_from (certificateMsg_bytes m) 7 = Some ?v"
    by (simp add: certificateMsg_bytes_def frames readers)
  moreover have len: "length (certificateMsg_bytes m) = 7 + length ?v"
    by (simp add: certificateMsg_bytes_def)
  ultimately show ?thesis by (simp add: certificateMsg_unmarshal_def)
qed

lemma serverKeyExchangeMsg_round:
  "serverKeyExchangeMsg_unmarshal m0 (serverKeyExchangeMsg_bytes m)
     = Some (True, m0\<lparr>ske_raw := Some (serverKeyExchangeMsg_bytes m), ske_key := ske_key m\<rparr>)"
  by (simp add: serverKeyExchangeMsg_unmarshal_def serverKeyExchangeMsg_bytes_def frames readers)

lemma clientKeyExchangeMsg_round:
  "length (cke_ciphertext m) < 16777216 \<Longrightarrow>
   clientKeyExchangeMsg_unmarshal m0 (clientKeyExchangeMsg_bytes m)
     = Some (True, m0\<lparr>cke_raw := Some (clientKeyExchangeMsg_bytes m), cke_ciphertext := cke_ciphertext m\<rparr>)"
  by (simp add: clientKeyExchangeMsg_unmarshal_def clientKeyExchangeMsg_bytes_def frames readers)

lemma finishedMsg_round:
  "finishedMsg_unmarshal m0 (finishedMsg_bytes m)
     = Some (True, m0\<lparr>fin_raw := Some (finishedMsg_bytes m), fin_verifyData := fin_verifyData m\<rparr>)"
  using slice_from_shift [of "[typeFinished, 0, 0]" 4 "vec 1 (fin_verifyData m)"]
  by (simp add: finishedMsg_unmarshal_def finishedMsg_bytes_def readers)

lemma certificateStatusMsg_round:
  assumes "length (cs_response m) < 16777216" and "cs_statusType m = statusTypeOCSP \<or> cs_response m = []"
  shows "certificateStatusMsg_unmarshal m0 (certificateStatusMsg_bytes m)
     = Some (True, m0\<lparr>cs_raw := Some (certificateStatusMsg_bytes m), cs_statusType := cs_statusType m, cs_response := cs_response m\<rparr>)"
proof (cases "cs_statusType m = statusTypeOCSP")
  case True
  have "uint32_at (statusTypeOCSP # vec 3 (cs_response m)) (Suc 0) = Some (word_of_nat (length (cs_response m)))"
    using uint32_at_shift [of "[statusTypeOCSP]" 1 "vec 3 (cs_response m)"] assms by (simp add: readers)
  moreover have "slice_from (statusTypeOCSP # vec 3 (cs_response m)) 4 = Some (cs_response m)"
    by (simp add: slice_from_def vec_def)
  ultimately show ?thesis using True assms
    by (simp add: certificateStatusMsg_unmarshal_def certificateStatusMsg_bytes_def frames readers)
next
  case False
  with assms show ?thesis
    by (simp add: certificateStatusMsg_unmarshal_def certificateStatusMsg_bytes_def frames readers)
qed

lemma nextProtoMsg_round:
  assumes "length (np_proto m) < 256"
  shows "nextProtoMsg_unmarshal m0 (nextProtoMsg_bytes m)
     = Some (True, m0\<lparr>np_raw := Some (nextProtoMsg_bytes m), np_proto := np_proto m\<rparr>)"
proof -
  let ?p = "np_proto m"
  define pad :: bytes where "pad = replicate (32 - (length ?p + 2) mod 32) 0"
  have "take 255 ?p = ?p" using assms by simp
  then have b: "nextProtoMsg_bytes m = handshake typeNextProtocol (vec 1 ?p @ vec 1 pad)"
    unfolding nextProtoMsg_bytes_def pad_def Let_def by simp
  have "length pad < 256" by (simp add: pad_def)
  moreover have "slice_between (?p @ vec 1 pad) 0 (length ?p) = Some ?p"
    by (simp add: slice_between_def subslice_def)
  moreover have "at_idx (vec 1 pad) 0 = Some (byte0 (length pad))" "slice_from (vec 1 pad) 1 = Some pad"
    using at_idx_vec1 [of pad "[]"] slice_from_vec1 [of pad "[]"] by simp_all
  ultimately show ?thesis using assms
    by (simp add: nextProtoMsg_unmarshal_def Let_def b frames readers)
qed

lemma newSessionTicketMsg_round:
  assumes "length (nst_ticket m) < 65536"
  shows "newSessionTicketMsg_unmarshal m0 (newSessionTicketMsg_bytes m)
     = Some (True, m0\<lparr>nst_raw := Some (newSessionTicketMsg_bytes m), nst_ticket := nst_ticket m\<rparr>)"
proof -
  let ?t = "nst_ticket m"
  let ?b = "[0, 0, 0, 0] @ vec 2 ?t"
  have "at_idx ?b 4 = Some (byte1 (length ?t))" "at_idx ?b 5 = Some (byte0 (length ?t))"
    using at_idx_shift [of "[0, 0, 0, 0]" 4 "vec 2 ?t"] at_idx_shift [of "[0, 0, 0, 0]" 5 "vec 2 ?t"]
    by (simp_all add: at_idx_vec2)
  moreover have "push_bit 8 (unat (byte1 (length ?t))) + unat (byte0 (length ?t)) = length ?t"
    using assms by (simp add: unat_bytes push_bit_eq_mult)
  moreover have "slice_from ?b 6 = Some ?t" by (simp add: vec_def slice_from_def)
  ultimately show ?thesis using assms
    by (simp add: newSessionTicketMsg_unmarshal_def newSessionTicketMsg_bytes_def Let_def frames)
qed

lemma certificateVerifyMsg_round:
  assumes "length (cv_signature m) < 65536" and "cv_hasSignatureAndHash m0 = cv_hasSignatureAndHash m"
    and "cv_hasSignatureAndHash m \<or> cv_signatureAlgorithm m0 = cv_signatureAlgorithm m"
  shows "certificateVerifyMsg_unmarshal m0 (certificateVerifyMsg_bytes m)
     = Some (True, m\<lparr>cv_raw := Some (certificateVerifyMsg_bytes m)\<rparr>)"
proof -
  let ?s = "cv_signature m"
  have s: "slice_from (vec 2 ?s) 2 = Some ?s" by (simp add: readers)
  have l: "push_bit 8 (unat (byte1 (length ?s))) + unat (byte0 (length ?s)) = length ?s"
    using assms by (simp add: unat_bytes push_bit_eq_mult)
  have a: "uint16_at (be_fixed 2 (unat w) @ vec 2 ?s) 0 = Some w" "slice_from (be_fixed 2 (unat w) @ vec 2 ?s) 2 = Some (vec 2 ?s)"
    for w :: "16 word" by (simp_all add: readers)
  show ?thesis
    using assms s l at_idx_vec2 [of ?s] a [of "cv_signatureAlgorithm m"]
    by (cases "cv_hasSignatureAndHash m")
       (auto simp: certificateVerifyMsg_unmarshal_def certificateVerifyMsg_bytes_def Let_def frames readers
         intro!: certificateVerifyMsg.equality)
qed

text \<open>A new slice that \<open>copy\<close> fills.\<close>

lemma copy_new: "length xs = n \<Longrightarrow> copy_at 0 (xs @ d) (replicate n 0) = xs"
  by (simp add: copy_at_def)

lemma copy_new_self: "length xs = n \<Longrightarrow> copy_at 0 xs (replicate n 0) = xs"
  by (simp add: copy_at_def)

lemma slice_from_all [readers]: "slice_from xs (length xs) = Some []"
  by (simp add: slice_from_def)

lemma even_u16:
  assumes "n < 32768"
  shows "(word_of_nat (2 * n) :: 16 word) AND 1 = 0" and "unat ((word_of_nat (2 * n) :: 16 word) div 2) = n"
proof -
  have "unat (word_of_nat (2 * n) :: 16 word) = 2 * n" using assms by (simp add: unat_of_nat del: of_nat_mult)
  then show "unat ((word_of_nat (2 * n) :: 16 word) div 2) = n" by (simp add: unat_div del: of_nat_mult)
  show "(word_of_nat (2 * n) :: 16 word) AND 1 = 0" by (simp add: and_one_eq mod_2_eq_odd)
qed

lemma algorithms_round:
  assumes "2 * length (cr_supportedSignatureAlgorithms m) < 65536"
    and "cr_hasSignatureAndHash m' = cr_hasSignatureAndHash m"
    and "cr_hasSignatureAndHash m \<or> cr_supportedSignatureAlgorithms m' = cr_supportedSignatureAlgorithms m"
  shows "certificateRequestMsg_algorithms m'
      ((if cr_hasSignatureAndHash m then vec 2 (u16s (cr_supportedSignatureAlgorithms m)) else []) @ d)
     = Some (Some (m'\<lparr>cr_supportedSignatureAlgorithms := cr_supportedSignatureAlgorithms m\<rparr>, d))"
proof (cases "cr_hasSignatureAndHash m")
  case True
  define algs where "algs = cr_supportedSignatureAlgorithms m"
  have n: "length algs < 32768" using assms by (simp add: algs_def)
  show ?thesis using True assms(2) n even_u16 [OF n]
    by (simp add: certificateRequestMsg_algorithms_def readers read_u16s flip: algs_def del: of_nat_mult)
next
  case False
  with assms show ?thesis by (simp add: certificateRequestMsg_algorithms_def)
qed

lemma cas_small: "length (vecs 2 cas) < 65536 \<Longrightarrow> \<forall>ca \<in> set cas. length ca < 65536"
  using vecs_member_length [of _ cas 2] by fastforce

definition certificateRequestMsg_ok :: "certificateRequestMsg \<Rightarrow> bool" where
  "certificateRequestMsg_ok m \<longleftrightarrow>
     cr_certificateTypes m \<noteq> [] \<and> length (cr_certificateTypes m) < 256 \<and>
     2 * length (cr_supportedSignatureAlgorithms m) < 65536 \<and>
     length (vecs 2 (cr_certificateAuthorities m)) < 65536"

lemma certificateRequestMsg_round:
  assumes ok: "certificateRequestMsg_ok m" and has: "cr_hasSignatureAndHash m0 = cr_hasSignatureAndHash m"
    and alg: "cr_hasSignatureAndHash m \<or> cr_supportedSignatureAlgorithms m0 = cr_supportedSignatureAlgorithms m"
  shows "certificateRequestMsg_unmarshal m0 (certificateRequestMsg_bytes m)
     = Some (True, m\<lparr>cr_raw := Some (certificateRequestMsg_bytes m)\<rparr>)"
proof -
  define cts where "cts = cr_certificateTypes m"
  define algs where "algs = cr_supportedSignatureAlgorithms m"
  define cas where "cas = cr_certificateAuthorities m"
  define a where "a = (if cr_hasSignatureAndHash m then vec 2 (u16s algs) else [])"
  define b where "b = certificateRequestMsg_bytes m"
  have b: "b = handshake typeCertificateRequest (vec 1 cts @ a @ vec 2 (vecs 2 cas))"
    by (simp add: b_def certificateRequestMsg_bytes_def a_def cts_def algs_def cas_def)
  have ok': "cts \<noteq> []" "length cts < 256" "2 * length algs < 65536" "length (vecs 2 cas) < 65536"
    using ok by (simp_all add: certificateRequestMsg_ok_def cts_def algs_def cas_def)
  have la: "length a \<le> 65537" using ok' by (simp add: a_def)
  have lb: "length (vec 1 cts @ a @ vec 2 (vecs 2 cas)) < 16777216" using ok' la by simp
  have algs: "certificateRequestMsg_algorithms m' (a @ d) = Some (Some (m'\<lparr>cr_supportedSignatureAlgorithms := algs\<rparr>, d))"
    if "cr_hasSignatureAndHash m' = cr_hasSignatureAndHash m"
      "cr_hasSignatureAndHash m \<or> cr_supportedSignatureAlgorithms m' = cr_supportedSignatureAlgorithms m" for m' d
    unfolding a_def algs_def using ok'(3) that by (intro algorithms_round) (simp_all add: algs_def)
  have cas: "read_cas (vecs 2 cas) [] = Some (True, cas)"
    using read_cas_vecs [OF cas_small [OF ok'(4)], of "[]"] by simp
  have m: "m0\<lparr>cr_raw := Some r, cr_certificateTypes := cts, cr_supportedSignatureAlgorithms := algs,
        cr_certificateAuthorities := cas\<rparr> = m\<lparr>cr_raw := Some r\<rparr>" for r
    using has by (simp add: cts_def algs_def cas_def)
  have "certificateRequestMsg_unmarshal m0 b = Some (True, m\<lparr>cr_raw := Some b\<rparr>)"
    using ok' lb has alg
    by (simp add: certificateRequestMsg_unmarshal_def Let_def b frames readers copy_new copy_new_self algs cas
          length_check [unfolded length_handshake] slice_from_append [of cts "length cts"] m)
  then show ?thesis by (simp add: b_def)
qed

definition certificateRequestMsgGM_ok :: "certificateRequestMsgGM \<Rightarrow> bool" where
  "certificateRequestMsgGM_ok m \<longleftrightarrow>
     gm_certificateTypes m \<noteq> [] \<and> length (gm_certificateTypes m) < 256 \<and>
     length (vecs 2 (gm_certificateAuthorities m)) < 65536"

lemma certificateRequestMsgGM_round:
  assumes ok: "certificateRequestMsgGM_ok m"
  shows "certificateRequestMsgGM_unmarshal m0 (certificateRequestMsgGM_bytes m)
     = Some (True, m\<lparr>gm_raw := Some (certificateRequestMsgGM_bytes m)\<rparr>)"
proof -
  define cts where "cts = gm_certificateTypes m"
  define cas where "cas = gm_certificateAuthorities m"
  define b where "b = certificateRequestMsgGM_bytes m"
  have b: "b = handshake typeCertificateRequest (vec 1 cts @ vec 2 (vecs 2 cas))"
    by (simp add: b_def certificateRequestMsgGM_bytes_def cts_def cas_def)
  have ok': "cts \<noteq> []" "length cts < 256" "length (vecs 2 cas) < 65536"
    using ok by (simp_all add: certificateRequestMsgGM_ok_def cts_def cas_def)
  have cas: "read_cas (vecs 2 cas) [] = Some (True, cas)"
    using read_cas_vecs [OF cas_small [OF ok'(3)], of "[]"] by simp
  have m: "m0\<lparr>gm_raw := Some r, gm_certificateTypes := cts, gm_certificateAuthorities := cas\<rparr> = m\<lparr>gm_raw := Some r\<rparr>" for r
    by (simp add: cts_def cas_def)
  have "certificateRequestMsgGM_unmarshal m0 b = Some (True, m\<lparr>gm_raw := Some b\<rparr>)"
    using ok'
    by (simp add: certificateRequestMsgGM_unmarshal_def Let_def b frames readers copy_new copy_new_self cas
          length_check [unfolded length_handshake] slice_from_append [of cts "length cts"] m)
  then show ?thesis by (simp add: b_def)
qed

end
