(* ===== verification/TlsHelloGrammar.thy ===== *)
theory TlsHelloGrammar
  imports TlsHelloLaws TlsMessagesRound
begin

text \<open>
  The bytes of the hello messages in the presentation language of TLS, and the proof that \<open>marshal\<close> computes the length
  of its buffer rightly and fills it with these bytes.
\<close>

section \<open>The grammar\<close>

definition ext :: "16 word \<Rightarrow> bytes \<Rightarrow> bytes" where
  "ext e body = be_fixed 2 (unat e) @ vec 2 body"

definition opt :: "bool \<Rightarrow> bytes \<Rightarrow> bytes" where
  "opt c bs = (if c then bs else [])"

text \<open>The extensions come with their length, when there are any.\<close>

definition hello_tail :: "bytes \<Rightarrow> bytes" where
  "hello_tail exts = opt (exts \<noteq> []) (vec 2 exts)"

definition pad32 :: "bytes \<Rightarrow> bytes" where
  "pad32 xs = take 32 (xs @ replicate 32 0)"

definition ch_exts :: "clientHelloMsg \<Rightarrow> bytes" where
  "ch_exts m =
     opt (ch_nextProtoNeg m) (ext extensionNextProtoNeg []) @
     opt (0 < length (ch_serverName m)) (ext extensionServerName (vec 2 (0 # vec 2 (ch_serverName m)))) @
     opt (ch_ocspStapling m) (ext extensionStatusRequest (statusTypeOCSP # vec 2 [] @ vec 2 [])) @
     opt (0 < length (ch_supportedCurves m)) (ext extensionSupportedCurves (vec 2 (u16s (ch_supportedCurves m)))) @
     opt (0 < length (ch_supportedPoints m)) (ext extensionSupportedPoints (vec 1 (ch_supportedPoints m))) @
     opt (ch_ticketSupported m) (ext extensionSessionTicket (ch_sessionTicket m)) @
     opt (0 < length (ch_supportedSignatureAlgorithms m))
       (ext extensionSignatureAlgorithms (vec 2 (u16s (ch_supportedSignatureAlgorithms m)))) @
     opt (ch_secureRenegotiationSupported m) (ext extensionRenegotiationInfo (vec 1 (ch_secureRenegotiation m))) @
     opt (0 < length (ch_alpnProtocols m)) (ext extensionALPN (vec 2 (vecs 1 (ch_alpnProtocols m)))) @
     opt (ch_scts m) (ext extensionSCT [])"

definition clientHelloMsg_bytes :: "clientHelloMsg \<Rightarrow> bytes" where
  "clientHelloMsg_bytes m = handshake typeClientHello
     (be_fixed 2 (unat (ch_vers m)) @ pad32 (ch_random m) @ vec 1 (ch_sessionId m) @
      vec 2 (u16s (ch_cipherSuites m)) @ vec 1 (ch_compressionMethods m) @ hello_tail (ch_exts m))"

definition sh_exts :: "serverHelloMsg \<Rightarrow> bytes" where
  "sh_exts m =
     opt (sh_nextProtoNeg m) (ext extensionNextProtoNeg (vecs 1 (sh_nextProtos m))) @
     opt (sh_ocspStapling m) (ext extensionStatusRequest []) @
     opt (sh_ticketSupported m) (ext extensionSessionTicket []) @
     opt (sh_secureRenegotiationSupported m) (ext extensionRenegotiationInfo (vec 1 (sh_secureRenegotiation m))) @
     opt (0 < length (sh_alpnProtocol m)) (ext extensionALPN (vec 2 (vec 1 (sh_alpnProtocol m)))) @
     opt (0 < length (sh_scts m)) (ext extensionSCT (vec 2 (vecs 2 (sh_scts m))))"

definition serverHelloMsg_bytes :: "serverHelloMsg \<Rightarrow> bytes" where
  "serverHelloMsg_bytes m = handshake typeServerHello
     (be_fixed 2 (unat (sh_vers m)) @ pad32 (sh_random m) @ vec 1 (sh_sessionId m) @
      be_fixed 2 (unat (sh_cipherSuite m)) @ [sh_compressionMethod m] @ hello_tail (sh_exts m))"

lemma length_pad32 [simp]: "length (pad32 xs) = 32"
  by (simp add: pad32_def)

lemma length_ext [simp]: "length (ext e body) = 4 + length body"
  by (simp add: ext_def)

lemma ext_not_Nil [simp]: "ext e body \<noteq> []"
  by (simp flip: length_greater_0_conv)

section \<open>Counting the extensions\<close>

definition counts_exts :: "nat \<times> nat \<Rightarrow> bytes \<Rightarrow> bool" where
  "counts_exts = (\<lambda>(n, e) bs. (n = 0 \<longleftrightarrow> bs = []) \<and> e + 4 * n = length bs)"

lemma counts_start: "counts_exts (0, 0) []"
  by (simp add: counts_exts_def)

lemma counts_ext: "counts_exts s bs \<Longrightarrow> (c \<Longrightarrow> length body = k) \<Longrightarrow> counts_exts (count_ext c k s) (bs @ opt c (ext e body))"
  by (auto simp: counts_exts_def count_ext_def opt_def split: prod.splits)

lemma ch_sizes_counts:
  assumes "\<not> ch_invalid_alpn m"
  shows "\<exists>s. ch_sizes m = Some s \<and> counts_exts s (ch_exts m)"
proof -
  obtain s where s: "ch_sizes m = Some s" using assms by (simp add: ch_sizes_def Let_def)
  have "counts_exts s (((((((((([] @ opt (ch_nextProtoNeg m) (ext extensionNextProtoNeg [])) @
     opt (ch_ocspStapling m) (ext extensionStatusRequest (statusTypeOCSP # vec 2 [] @ vec 2 []))) @
     opt (0 < length (ch_serverName m)) (ext extensionServerName (vec 2 (0 # vec 2 (ch_serverName m))))) @
     opt (0 < length (ch_supportedCurves m)) (ext extensionSupportedCurves (vec 2 (u16s (ch_supportedCurves m))))) @
     opt (0 < length (ch_supportedPoints m)) (ext extensionSupportedPoints (vec 1 (ch_supportedPoints m)))) @
     opt (ch_ticketSupported m) (ext extensionSessionTicket (ch_sessionTicket m))) @
     opt (0 < length (ch_supportedSignatureAlgorithms m))
       (ext extensionSignatureAlgorithms (vec 2 (u16s (ch_supportedSignatureAlgorithms m))))) @
     opt (ch_secureRenegotiationSupported m) (ext extensionRenegotiationInfo (vec 1 (ch_secureRenegotiation m)))) @
     opt (0 < length (ch_alpnProtocols m)) (ext extensionALPN (vec 2 (vecs 1 (ch_alpnProtocols m))))) @
     opt (ch_scts m) (ext extensionSCT []))"
    using s assms unfolding ch_sizes_def Let_def if_not_P [OF assms] option.inject
    by (elim ssubst [OF sym]) (intro counts_ext counts_start; simp add: length_vecs)
  then have "counts_exts s (ch_exts m)"
    by (auto simp: counts_exts_def ch_exts_def)
  with s show ?thesis by blast
qed

section \<open>Blocks\<close>

lemma appends_opt: "appends f bs \<Longrightarrow> appends (whenever c f) (opt c bs)"
  unfolding opt_def by (rule appends_whenever)

lemma ext_header: "ext e body = hi16 e # lo16 e # vec 2 body"
  by (simp add: ext_def uint16_of_16)

lemma byte_of_zero [simp]: "byte0 0 = 0" "byte1 0 = 0"
  by (simp_all add: byte0_def byte1_def)

lemma vec2_Nil: "vec 2 [] = [0, 0]"
  by (simp add: vec_def be_fixed_2)

lemma appends_ext_header:
  "n = length body \<Longrightarrow> appends (stmts [put 0 (hi16 e), put 1 (lo16 e), put 2 (byte1 n), put 3 (byte0 n), advance_by 4])
     (be_fixed 2 (unat e) @ be_fixed 2 (length body))"
  unfolding uint16_of_16 [of e, symmetric] be_fixed_2 [of "length body"] by (simp add: appends_def block_simps)

lemma appends_empty: "appends (stmts [put 0 (hi16 e), put 1 (lo16 e), advance_by 4]) (ext e [])"
  unfolding ext_header vec2_Nil by (simp add: appends_def block_simps)

lemma appends_npn: "appends write_npn (ext extensionNextProtoNeg [])"
  and appends_sct: "appends write_sct (ext extensionSCT [])"
  and appends_write_empty: "appends (write_empty e) (ext e [])"
  unfolding write_npn_def write_sct_def write_empty_def by (rule appends_empty)+

lemma appends_serverName: "appends (write_serverName name) (ext extensionServerName (vec 2 (0 # vec 2 name)))"
proof -
  have name: "appends (stmts [put 0 (byte1 (length name + 3)), put 1 (byte0 (length name + 3)),
      put 3 (byte1 (length name)), put 4 (byte0 (length name)), copyTo 5 name, advance_by (length name + 5)])
      (vec 2 (0 # vec 2 name))"
    unfolding vec_def be_fixed_2 by (simp add: appends_def block_simps)
  show ?thesis unfolding write_serverName_def Let_def
    by (rule appends_append [OF appends_ext_header [of _ "vec 2 (0 # vec 2 name)"] name]) (simp_all add: ext_def vec_def [of 2 "vec 2 (0 # vec 2 name)"])
qed

lemma appends_ocsp: "appends write_ocsp (ext extensionStatusRequest (statusTypeOCSP # vec 2 [] @ vec 2 []))"
proof -
  have "ext extensionStatusRequest (statusTypeOCSP # vec 2 [] @ vec 2 [])
      = [hi16 extensionStatusRequest, lo16 extensionStatusRequest, 0, 5, 1, 0, 0, 0, 0]"
    by (simp add: ext_header vec2_Nil vec_def [of 2 "_ # _"] be_fixed_2 statusTypeOCSP_def byte1_def byte0_def drop_bit_eq_div)
  then show ?thesis unfolding write_ocsp_def by (simp add: appends_def block_simps)
qed

lemma appends_ext_u16s:
  assumes "n = 2 + 2 * length ws" and "k = 2 * length ws"
  shows "appends (stmts [put 0 (hi16 e), put 1 (lo16 e), put 2 (byte1 n), put 3 (byte0 n), put 4 (byte1 k), put 5 (byte0 k),
     advance_by 6, write_uint16s ws]) (ext e (vec 2 (u16s ws)))"
proof -
  have "appends (stmts [put 0 (hi16 e), put 1 (lo16 e), put 2 (byte1 n), put 3 (byte0 n), put 4 (byte1 k), put 5 (byte0 k), advance_by 6])
      (hi16 e # lo16 e # be_fixed 2 n @ be_fixed 2 k)"
    unfolding be_fixed_2 by (simp add: appends_def block_simps)
  from appends_append [OF this appends_last [OF appends_uint16s], of _ ws] show ?thesis
    using assms by (simp add: ext_header vec_def)
qed

lemma appends_curves: "appends (write_curves curves) (ext extensionSupportedCurves (vec 2 (u16s curves)))"
  unfolding write_curves_def Let_def by (rule appends_ext_u16s) simp_all

lemma appends_points: "appends (write_points points) (ext extensionSupportedPoints (vec 1 points))"
proof -
  have "appends (foreach points (\<lambda>p. stmts [put 0 p, advance_by 1])) (concat (map (\<lambda>p. [p]) points))"
    by (rule appends_foreach) (simp add: appends_def block_simps)
  then have points: "appends (stmts [foreach points (\<lambda>p. stmts [put 0 p, advance_by 1])]) points"
    by (intro appends_last) simp
  have "appends (stmts [put 0 (hi16 extensionSupportedPoints), put 1 (lo16 extensionSupportedPoints),
      put 2 (byte1 (1 + length points)), put 3 (byte0 (1 + length points)), put 4 (byte0 (length points)), advance_by 5])
      (hi16 extensionSupportedPoints # lo16 extensionSupportedPoints # be_fixed 2 (1 + length points) @ be_fixed 1 (length points))"
    unfolding be_fixed_2 One_nat_def be_fixed_1 by (simp add: appends_def block_simps)
  from appends_append [OF this points] show ?thesis
    by (simp add: write_points_def ext_header vec_def)
qed

lemma appends_ticket: "appends (write_ticket ticket) (ext extensionSessionTicket ticket)"
  unfolding write_ticket_def Let_def
  by (rule appends_append [OF appends_ext_header appends_copy]) (simp_all add: ext_def vec_def)

lemma appends_sigalgs: "appends (write_sigalgs algs) (ext extensionSignatureAlgorithms (vec 2 (u16s algs)))"
  unfolding write_sigalgs_def Let_def
  by (rule appends_append [OF appends_ext_header [of _ "vec 2 (u16s algs)"] appends_u16_vector]) (simp_all add: ext_def vec_def)

text \<open>The extension is shorter than 256 bytes: its length is written in one byte.\<close>

lemma appends_renegotiation:
  assumes "length info < 255"
  shows "appends (write_renegotiation info) (ext extensionRenegotiationInfo (vec 1 info))"
proof -
  have b: "byte1 (length info + 1) = 0" using assms by (simp add: byte1_def drop_bit_eq_div)
  have "appends (stmts [put 0 (hi16 extensionRenegotiationInfo), put 1 (lo16 extensionRenegotiationInfo), put 2 0,
      put 3 (byte0 (length info + 1)), put 4 (byte0 (length info)), advance_by 5])
      (hi16 extensionRenegotiationInfo # lo16 extensionRenegotiationInfo # be_fixed 2 (length info + 1) @ be_fixed 1 (length info))"
    unfolding be_fixed_2 One_nat_def be_fixed_1 using b by (simp add: appends_def block_simps)
  from appends_append [OF this appends_copy [of info]] show ?thesis
    by (simp add: write_renegotiation_def ext_header vec_def)
qed

lemma appends_vec1: "appends (stmts [put 0 (byte0 (length s)), copyTo 1 s, advance_by (1 + length s)]) (vec 1 s)"
  unfolding vec_def One_nat_def be_fixed_1 by (simp add: appends_def block_simps)

lemma appends_alpn: "appends (write_alpn protocols) (ext extensionALPN (vec 2 (vecs 1 protocols)))"
  unfolding appends_def
proof (intro allI)
  fix pre m
  define vs where "vs = vecs 1 protocols"
  define k where "k = length vs"
  let ?f = "foreach protocols (\<lambda>s. stmts [put 0 (byte0 (length s)), copyTo 1 s, advance_by (1 + length s)])"
  let ?h = "[hi16 extensionALPN, lo16 extensionALPN]"
  have k: "sum_list (map (\<lambda>s. 1 + length s) protocols) = k" by (simp add: k_def vs_def length_vecs)
  have f: "appends ?f vs" unfolding vs_def vecs_def by (rule appends_foreach) (rule appends_vec1)
  have 1: "stmts [put 0 (hi16 extensionALPN), put 1 (lo16 extensionALPN)] (pre @ replicate (6 + k + m) 0, length pre)
      = Some (pre @ ?h @ replicate (4 + k + m) 0, length pre)"
    by (simp add: block_simps)
  have 2: "map_option snd (advance_by 2 (pre @ ?h @ replicate (4 + k + m) 0, length pre)) = Some (length pre + 2)"
    "advance_by 6 (pre @ ?h @ replicate (4 + k + m) 0, length pre)
      = Some ((pre @ ?h @ [0, 0, 0, 0]) @ replicate (length vs + m) 0, length (pre @ ?h @ [0, 0, 0, 0]))"
    by (simp_all add: block_simps k_def)
  have 3: "?f ((pre @ ?h @ [0, 0, 0, 0]) @ replicate (length vs + m) 0, length (pre @ ?h @ [0, 0, 0, 0]))
      = Some ((pre @ ?h) @ [0, 0, 0, 0] @ vs @ replicate m 0, length pre + (6 + k))"
    using f [unfolded appends_def, rule_format, of "pre @ ?h @ [0, 0, 0, 0]" m] by (simp add: k_def)
  have 4: "stmts [put 2 (byte1 k), put 3 (byte0 k), put 0 (byte1 (k + 2)), put 1 (byte0 (k + 2))]
      (p @ [0, 0, 0, 0] @ r, length p) = Some (p @ [byte1 (k + 2), byte0 (k + 2), byte1 k, byte0 k] @ r, length p)" for p r
    by (simp add: block_simps)
  have bs: "ext extensionALPN (vec 2 vs) = ?h @ [byte1 (k + 2), byte0 (k + 2), byte1 k, byte0 k] @ vs"
    by (simp add: ext_header vec_def be_fixed_2 k_def)
  have "write_alpn protocols (pre @ replicate (6 + k + m) 0, length pre)
      = Some (pre @ ext extensionALPN (vec 2 vs) @ replicate m 0, length pre + (6 + k))"
    unfolding write_alpn_def k Let_def 1 2 bind.bind_lunit 3 fst_conv
    using 4 [of "pre @ ?h" "vs @ replicate m 0"] by (simp add: bs)
  then show "write_alpn protocols (pre @ replicate (length (ext extensionALPN (vec 2 (vecs 1 protocols))) + m) 0, length pre)
      = Some (pre @ ext extensionALPN (vec 2 (vecs 1 protocols)) @ replicate m 0,
          length pre + length (ext extensionALPN (vec 2 (vecs 1 protocols))))"
    by (simp add: k_def vs_def)
qed

text \<open>The suites are written by their index in front of the cursor.\<close>

lemma write_suites_at:
  "length hd' = 2 + 2 * i \<Longrightarrow>
   foreach (enumerate i suites) (\<lambda>(i, suite). stmts [put (2 + i * 2) (hi16 suite), put (3 + i * 2) (lo16 suite)])
     (pre @ hd' @ replicate (2 * length suites + m) 0, length pre)
   = Some (pre @ hd' @ u16s suites @ replicate m 0, length pre)"
proof (induction suites arbitrary: i hd')
  case Nil
  then show ?case by (simp add: foreach_def u16s_def)
next
  case (Cons w ws)
  let ?r = "replicate (2 * length ws + m) 0"
  have "stmts [put (2 + i * 2) (hi16 w), put (3 + i * 2) (lo16 w)] (pre @ hd' @ [0, 0] @ ?r, length pre)
      = Some (pre @ (hd' @ be_fixed 2 (unat w)) @ ?r, length pre)"
    using Cons.prems uint16_of_16 [of w "[]"] by (simp add: writers list_update_append)
  moreover have "replicate (2 * length (w # ws) + m) 0 = [0, 0] @ ?r" by simp
  ultimately show ?case
    using Cons.IH [of "hd' @ be_fixed 2 (unat w)" "i + 1"] Cons.prems
    by (simp add: foreach_def u16s_def)
qed

lemma appends_suites:
  "appends (stmts [put 0 (word_of_nat (drop_bit 7 (length suites))), put 1 (word_of_nat (push_bit 1 (length suites))),
     write_suites suites, advance_by (2 + length suites * 2)]) (vec 2 (u16s suites))"
  unfolding appends_def
proof (intro allI)
  fix pre m
  let ?n = "length suites"
  have b: "word_of_nat (drop_bit 7 ?n) = byte1 (2 * ?n)" "word_of_nat (push_bit 1 ?n) = byte0 (2 * ?n)"
    by (simp_all add: byte1_def byte0_def drop_bit_eq_div push_bit_eq_mult)
  have 1: "stmts [put 0 (byte1 (2 * ?n)), put 1 (byte0 (2 * ?n))] (pre @ [0, 0] @ replicate (2 * ?n + m) 0, length pre)
      = Some (pre @ be_fixed 2 (2 * ?n) @ replicate (2 * ?n + m) 0, length pre)"
    by (simp add: writers be_fixed_2)
  have 2: "write_suites suites (pre @ be_fixed 2 (2 * ?n) @ replicate (2 * ?n + m) 0, length pre)
      = Some (pre @ be_fixed 2 (2 * ?n) @ u16s suites @ replicate m 0, length pre)"
    unfolding write_suites_def by (rule write_suites_at) simp
  have 3: "advance_by (2 + ?n * 2) (pre @ be_fixed 2 (2 * ?n) @ u16s suites @ replicate m 0, length pre)
      = Some (pre @ be_fixed 2 (2 * ?n) @ u16s suites @ replicate m 0, length pre + (2 + 2 * ?n))"
    by (simp add: writers)
  have "stmts ([put 0 (byte1 (2 * ?n)), put 1 (byte0 (2 * ?n))] @ [write_suites suites, advance_by (2 + ?n * 2)])
      (pre @ [0, 0] @ replicate (2 * ?n + m) 0, length pre)
    = Some (pre @ vec 2 (u16s suites) @ replicate m 0, length pre + (2 + 2 * ?n))"
    unfolding stmts_append 1 bind.bind_lunit unfolding stmts.simps 2 3 bind.bind_lunit by (simp add: vec_def)
  then show "stmts [put 0 (word_of_nat (drop_bit 7 ?n)), put 1 (word_of_nat (push_bit 1 ?n)),
      write_suites suites, advance_by (2 + ?n * 2)] (pre @ replicate (length (vec 2 (u16s suites)) + m) 0, length pre)
    = Some (pre @ vec 2 (u16s suites) @ replicate m 0, length pre + length (vec 2 (u16s suites)))"
    unfolding b by simp
qed

lemma put_at: "length p = i \<Longrightarrow> put i b (pre @ p @ x # r, length pre) = Some (pre @ p @ b # r, length pre)"
  by (simp add: writers list_update_append)

lemma copyInto_at:
  assumes "length p = i" and "j = i + k" and "k \<le> n"
  shows "copyInto i j src (pre @ p @ replicate n 0, length pre)
    = Some (pre @ p @ take k (src @ replicate k 0) @ replicate (n - k) 0, length pre)"
proof -
  obtain q where n: "n = k + q" using assms(3) le_Suc_ex by blast
  have "drop (length (take k src)) (replicate (k + q) (0 :: byte)) = replicate (k - length src) 0 @ replicate q 0"
    by (simp add: replicate_add)
  then show ?thesis using assms(1,2) by (simp add: writers n copy_at_def)
qed

lemma appends_hello_header:
  "appends (stmts [put 0 t, put 1 (byte2 n), put 2 (byte1 n), put 3 (byte0 n), put 4 (hi16 v), put 5 (lo16 v),
     copyInto 6 38 rnd, put 38 (byte0 (length sid)), copyInto 39 (39 + length sid) sid, advance_by (39 + length sid)])
   (t # be_fixed 3 n @ be_fixed 2 (unat v) @ pad32 rnd @ vec 1 sid)"
  unfolding appends_def
proof (intro allI)
  fix pre m
  let ?s = "length sid"
  let ?h = "[t, byte2 n, byte1 n, byte0 n, hi16 v, lo16 v]"
  have 1: "stmts [put 0 t, put 1 (byte2 n), put 2 (byte1 n), put 3 (byte0 n), put 4 (hi16 v), put 5 (lo16 v)]
      (pre @ [0, 0, 0, 0, 0, 0] @ replicate (33 + ?s + m) 0, length pre)
    = Some (pre @ ?h @ replicate (33 + ?s + m) 0, length pre)"
    by (simp add: writers numeral_eq_Suc)
  have 2: "copyInto 6 38 rnd (pre @ ?h @ replicate (33 + ?s + m) 0, length pre)
    = Some (pre @ (?h @ pad32 rnd) @ 0 # replicate (?s + m) 0, length pre)"
    using copyInto_at [of ?h 6 38 32 "33 + ?s + m" rnd pre] by (simp add: pad32_def)
  have 3: "put 38 (byte0 ?s) (pre @ (?h @ pad32 rnd) @ 0 # replicate (?s + m) 0, length pre)
    = Some (pre @ (?h @ pad32 rnd @ [byte0 ?s]) @ replicate (?s + m) 0, length pre)"
    using put_at [of "?h @ pad32 rnd" 38 "byte0 ?s" pre 0 "replicate (?s + m) 0"] by simp
  have 4: "copyInto 39 (39 + ?s) sid (pre @ (?h @ pad32 rnd @ [byte0 ?s]) @ replicate (?s + m) 0, length pre)
    = Some (pre @ ?h @ pad32 rnd @ vec 1 sid @ replicate m 0, length pre)"
    using copyInto_at [of "?h @ pad32 rnd @ [byte0 ?s]" 39 "39 + ?s" ?s "?s + m" sid pre]
    unfolding vec_def One_nat_def be_fixed_1 by simp
  have 5: "advance_by (39 + ?s) (pre @ ?h @ pad32 rnd @ vec 1 sid @ replicate m 0, length pre)
    = Some (pre @ ?h @ pad32 rnd @ vec 1 sid @ replicate m 0, length pre + (39 + ?s))"
    by (simp add: writers)
  have "stmts ([put 0 t, put 1 (byte2 n), put 2 (byte1 n), put 3 (byte0 n), put 4 (hi16 v), put 5 (lo16 v)] @
      [copyInto 6 38 rnd, put 38 (byte0 ?s), copyInto 39 (39 + ?s) sid, advance_by (39 + ?s)])
      (pre @ [0, 0, 0, 0, 0, 0] @ replicate (33 + ?s + m) 0, length pre)
    = Some (pre @ ?h @ pad32 rnd @ vec 1 sid @ replicate m 0, length pre + (39 + ?s))"
    unfolding stmts_append 1 bind.bind_lunit unfolding stmts.simps 2 3 4 5 bind.bind_lunit ..
  moreover have "?h @ xs = t # be_fixed 3 n @ be_fixed 2 (unat v) @ xs" for xs
    by (simp add: be_fixed_3 flip: uint16_of_16)
  moreover have "pre @ [0, 0, 0, 0, 0, 0] @ replicate (33 + ?s + m) 0 = pre @ replicate (39 + ?s + m) 0"
    by (simp add: numeral_eq_Suc)
  ultimately show "stmts [put 0 t, put 1 (byte2 n), put 2 (byte1 n), put 3 (byte0 n), put 4 (hi16 v), put 5 (lo16 v),
     copyInto 6 38 rnd, put 38 (byte0 ?s), copyInto 39 (39 + ?s) sid, advance_by (39 + ?s)]
      (pre @ replicate (length (t # be_fixed 3 n @ be_fixed 2 (unat v) @ pad32 rnd @ vec 1 sid) + m) 0, length pre)
    = Some (pre @ (t # be_fixed 3 n @ be_fixed 2 (unat v) @ pad32 rnd @ vec 1 sid) @ replicate m 0,
        length pre + length (t # be_fixed 3 n @ be_fixed 2 (unat v) @ pad32 rnd @ vec 1 sid))"
    by (simp add: add.commute add.left_commute)
qed

section \<open>The client hello\<close>

lemma hello_tail_alt: "hello_tail exts = opt (exts \<noteq> []) (be_fixed 2 (length exts)) @ exts"
  by (simp add: hello_tail_def opt_def vec_def)

lemma appends_tail_length:
  assumes "counts_exts (n, e) exts"
  shows "appends (whenever (n > 0) (stmts [put 0 (byte1 (if n > 0 then e + 4 * n else e)),
      put 1 (byte0 (if n > 0 then e + 4 * n else e)), advance_by 2])) (opt (exts \<noteq> []) (be_fixed 2 (length exts)))"
proof -
  have "(n > 0) = (exts \<noteq> [])" "n > 0 \<Longrightarrow> e + 4 * n = length exts" using assms by (auto simp: counts_exts_def)
  then show ?thesis using appends_opt [OF appends_int16, of "exts \<noteq> []" "length exts"]
    by (cases "n > 0") (simp_all add: opt_def whenever_def appends_def)
qed

lemma clientHelloMsg_exact:
  assumes raw: "ch_raw m = None" and alpn: "\<not> ch_invalid_alpn m" and info: "length (ch_secureRenegotiation m) < 255"
  shows "clientHelloMsg_marshal m = Some (clientHelloMsg_bytes m, m\<lparr>ch_raw := Some (clientHelloMsg_bytes m)\<rparr>)"
proof -
  define exts where "exts = ch_exts m"
  obtain n e where sizes: "ch_sizes m = Some (n, e)" and counts_exts: "counts_exts (n, e) exts"
    using ch_sizes_counts [OF alpn] by (auto simp: exts_def)
  define el where "el = (if n > 0 then e + 4 * n else e)"
  define len where "len = 2 + 32 + 1 + length (ch_sessionId m) + 2 + length (ch_cipherSuites m) * 2 + 1
    + length (ch_compressionMethods m) + (if n > 0 then 2 + el else 0)"
  define body where "body = be_fixed 2 (unat (ch_vers m)) @ pad32 (ch_random m) @ vec 1 (ch_sessionId m) @
      vec 2 (u16s (ch_cipherSuites m)) @ vec 1 (ch_compressionMethods m) @ hello_tail exts"
  have len: "len = length body" using counts_exts
    by (auto simp: len_def body_def el_def hello_tail_def opt_def counts_exts_def)
  have tail: "appends (stmts
      [whenever (n > 0) (stmts [put 0 (byte1 el), put 1 (byte0 el), advance_by 2]),
       whenever (ch_nextProtoNeg m) write_npn,
       whenever (0 < length (ch_serverName m)) (write_serverName (ch_serverName m)),
       whenever (ch_ocspStapling m) write_ocsp,
       whenever (0 < length (ch_supportedCurves m)) (write_curves (ch_supportedCurves m)),
       whenever (0 < length (ch_supportedPoints m)) (write_points (ch_supportedPoints m)),
       whenever (ch_ticketSupported m) (write_ticket (ch_sessionTicket m)),
       whenever (0 < length (ch_supportedSignatureAlgorithms m)) (write_sigalgs (ch_supportedSignatureAlgorithms m)),
       whenever (ch_secureRenegotiationSupported m) (write_renegotiation (ch_secureRenegotiation m)),
       whenever (0 < length (ch_alpnProtocols m)) (write_alpn (ch_alpnProtocols m)),
       whenever (ch_scts m) write_sct]) (opt (exts \<noteq> []) (be_fixed 2 (length exts)) @ exts)"
    unfolding exts_def ch_exts_def el_def
    by (rule appends_Cons [OF appends_tail_length [OF counts_exts [unfolded exts_def ch_exts_def]] _ refl])
       (intro appends_stmts_Cons appends_last appends_opt appends_npn appends_serverName appends_ocsp appends_curves
          appends_points appends_ticket appends_sigalgs appends_renegotiation [OF info] appends_alpn appends_sct)
  have "make_and_fill (4 + len)
     ([put 0 typeClientHello, put 1 (byte2 len), put 2 (byte1 len), put 3 (byte0 len),
       put 4 (hi16 (ch_vers m)), put 5 (lo16 (ch_vers m)), copyInto 6 38 (ch_random m),
       put 38 (byte0 (length (ch_sessionId m))),
       copyInto 39 (39 + length (ch_sessionId m)) (ch_sessionId m), advance_by (39 + length (ch_sessionId m)),
       put 0 (word_of_nat (drop_bit 7 (length (ch_cipherSuites m)))),
       put 1 (word_of_nat (push_bit 1 (length (ch_cipherSuites m)))),
       write_suites (ch_cipherSuites m), advance_by (2 + length (ch_cipherSuites m) * 2),
       put 0 (byte0 (length (ch_compressionMethods m))), copyTo 1 (ch_compressionMethods m),
       advance_by (1 + length (ch_compressionMethods m)),
       whenever (n > 0) (stmts [put 0 (byte1 el), put 1 (byte0 el), advance_by 2]),
       whenever (ch_nextProtoNeg m) write_npn,
       whenever (0 < length (ch_serverName m)) (write_serverName (ch_serverName m)),
       whenever (ch_ocspStapling m) write_ocsp,
       whenever (0 < length (ch_supportedCurves m)) (write_curves (ch_supportedCurves m)),
       whenever (0 < length (ch_supportedPoints m)) (write_points (ch_supportedPoints m)),
       whenever (ch_ticketSupported m) (write_ticket (ch_sessionTicket m)),
       whenever (0 < length (ch_supportedSignatureAlgorithms m)) (write_sigalgs (ch_supportedSignatureAlgorithms m)),
       whenever (ch_secureRenegotiationSupported m) (write_renegotiation (ch_secureRenegotiation m)),
       whenever (0 < length (ch_alpnProtocols m)) (write_alpn (ch_alpnProtocols m)),
       whenever (ch_scts m) write_sct]) = Some (clientHelloMsg_bytes m)"
    by (rule make_and_fill_exact, rule appends_fills,
        rule appends_append [OF appends_append [OF appends_append [OF appends_hello_header appends_suites refl refl]
          appends_vec1 refl refl] tail])
       (simp_all add: clientHelloMsg_bytes_def handshake_def vec_def [of 3] hello_tail_alt len body_def
          flip: exts_def)
  then show ?thesis
    unfolding clientHelloMsg_marshal_def raw option.case sizes bind.bind_lunit prod.case Let_def el_def [symmetric] len_def [symmetric]
    by (simp only: bind.bind_lunit)
qed

lemma clientHelloMsg_alpn_panic: "ch_raw m = None \<Longrightarrow> ch_invalid_alpn m \<Longrightarrow> clientHelloMsg_marshal m = None"
  by (simp add: clientHelloMsg_marshal_def ch_sizes_def Let_def)

section \<open>The server hello\<close>

lemma sh_sizes_counts:
  assumes "\<not> sh_invalid_alpn m"
  shows "\<exists>s. sh_sizes m = Some s \<and> counts_exts s (sh_exts m)"
proof -
  obtain s where s: "sh_sizes m = Some s" using assms by (simp add: sh_sizes_def Let_def)
  have npn: "(\<Sum>xs\<leftarrow>sh_nextProtos m. Suc (length xs)) = nextProtoLen m" if "sh_nextProtoNeg m"
    using that length_vecs [of 1 "sh_nextProtos m"] length_vecs_sum [of 1 "sh_nextProtos m"] by (simp add: nextProtoLen_def)
  have "counts_exts s (((((([] @ opt (sh_nextProtoNeg m) (ext extensionNextProtoNeg (vecs 1 (sh_nextProtos m)))) @
     opt (sh_ocspStapling m) (ext extensionStatusRequest [])) @
     opt (sh_ticketSupported m) (ext extensionSessionTicket [])) @
     opt (sh_secureRenegotiationSupported m) (ext extensionRenegotiationInfo (vec 1 (sh_secureRenegotiation m)))) @
     opt (0 < length (sh_alpnProtocol m)) (ext extensionALPN (vec 2 (vec 1 (sh_alpnProtocol m))))) @
     opt (0 < length (sh_scts m)) (ext extensionSCT (vec 2 (vecs 2 (sh_scts m)))))"
    using s assms unfolding sh_sizes_def Let_def if_not_P [OF assms] option.inject
    by (elim ssubst [OF sym]) (intro counts_ext counts_start; simp add: length_vecs sctLen_def npn add.commute)
  then have "counts_exts s (sh_exts m)" by (auto simp: counts_exts_def sh_exts_def)
  with s show ?thesis by blast
qed

lemma appends_nextProtos:
  assumes "sh_nextProtoNeg m" and "\<forall>v \<in> set (sh_nextProtos m). length v < 256"
  shows "appends (write_nextProtos m) (ext extensionNextProtoNeg (vecs 1 (sh_nextProtos m)))"
proof -
  have "appends (write_nextProto v) (vec 1 v)" if "length v < 256" for v
  proof -
    have "slice_between v 0 (length v) = Some v" by (simp add: slice_between_def subslice_def)
    then have "write_nextProto v = stmts [put 0 (byte0 (length v)), copyTo 1 v, advance_by (1 + length v)]"
      using that by (simp add: write_nextProto_def fun_eq_iff Let_def del: stmts.simps)
    then show ?thesis using appends_vec1 [of v] by simp
  qed
  then have loop: "appends (stmts [foreach (sh_nextProtos m) write_nextProto]) (vecs 1 (sh_nextProtos m))"
    unfolding vecs_def using assms(2) by (intro appends_last appends_foreach) blast
  have "nextProtoLen m = length (vecs 1 (sh_nextProtos m))"
    using assms(1) by (simp add: nextProtoLen_def length_vecs_sum)
  then show ?thesis
    unfolding write_nextProtos_def
    by (intro appends_append [OF appends_ext_header [of _ "vecs 1 (sh_nextProtos m)"] loop]) (simp_all add: ext_def vec_def)
qed

lemma appends_protocol: "appends (write_protocol p) (ext extensionALPN (vec 2 (vec 1 p)))"
  unfolding write_protocol_def Let_def ext_header vec_def be_fixed_2 One_nat_def be_fixed_1
  by (simp add: appends_def block_simps)

lemma appends_scts: "appends (write_scts m) (ext extensionSCT (vec 2 (vecs 2 (sh_scts m))))"
proof -
  have 1: "appends (stmts [put 0 (byte1 (length sct)), put 1 (byte0 (length sct)), copyTo 2 sct, advance_by (length sct + 2)]) (vec 2 sct)"
    for sct unfolding vec_def be_fixed_2 by (simp add: appends_def block_simps)
  have n: "sctLen m = length (vecs 2 (sh_scts m))" by (simp add: sctLen_def length_vecs add.commute)
  have 2: "appends (stmts [foreach (sh_scts m) (\<lambda>sct. stmts
      [put 0 (byte1 (length sct)), put 1 (byte0 (length sct)), copyTo 2 sct, advance_by (length sct + 2)])]) (vecs 2 (sh_scts m))"
    unfolding vecs_def by (rule appends_last [OF appends_foreach]) (rule 1)
  have 3: "appends (stmts [put 0 (hi16 e), put 1 (lo16 e), put 2 (byte1 k), put 3 (byte0 k), put 4 (byte1 l), put 5 (byte0 l), advance_by 6])
      (hi16 e # lo16 e # be_fixed 2 k @ be_fixed 2 l)" for e k l
    unfolding be_fixed_2 by (simp add: appends_def block_simps)
  show ?thesis unfolding write_scts_def Let_def n
    by (rule appends_append [OF 3 2]) (simp_all add: ext_header vec_def)
qed

definition sh_writable :: "serverHelloMsg \<Rightarrow> bool" where
  "sh_writable m \<longleftrightarrow>
     length (sh_secureRenegotiation m) < 255 \<and> length (sh_alpnProtocol m) < 256 \<and>
     (\<forall>v \<in> set (sh_nextProtos m). length v < 256)"

lemma serverHelloMsg_exact:
  assumes raw: "sh_raw m = None" and ok: "sh_writable m"
  shows "serverHelloMsg_marshal m = Some (serverHelloMsg_bytes m, m\<lparr>sh_raw := Some (serverHelloMsg_bytes m)\<rparr>)"
proof -
  have alpn: "\<not> sh_invalid_alpn m" and info: "length (sh_secureRenegotiation m) < 255"
    and protos: "\<forall>v \<in> set (sh_nextProtos m). length v < 256"
    using ok by (simp_all add: sh_writable_def sh_invalid_alpn_def)
  define exts where "exts = sh_exts m"
  obtain n e where sizes: "sh_sizes m = Some (n, e)" and counts_exts: "counts_exts (n, e) exts"
    using sh_sizes_counts [OF alpn] by (auto simp: exts_def)
  define el where "el = (if n > 0 then e + 4 * n else e)"
  define len where "len = 38 + length (sh_sessionId m) + (if n > 0 then 2 + el else 0)"
  define body where "body = be_fixed 2 (unat (sh_vers m)) @ pad32 (sh_random m) @ vec 1 (sh_sessionId m) @
      be_fixed 2 (unat (sh_cipherSuite m)) @ [sh_compressionMethod m] @ hello_tail exts"
  have len: "len = length body" using counts_exts
    by (auto simp: len_def body_def el_def hello_tail_def opt_def counts_exts_def)
  have npn: "appends (whenever (sh_nextProtoNeg m) (write_nextProtos m))
      (opt (sh_nextProtoNeg m) (ext extensionNextProtoNeg (vecs 1 (sh_nextProtos m))))"
    using appends_opt [OF appends_nextProtos [OF _ protos], of True]
    by (cases "sh_nextProtoNeg m") (simp_all, simp add: whenever_def opt_def appends_def)
  have scts: "(0 < sctLen m) = (0 < length (sh_scts m))" by (cases "sh_scts m") (simp_all add: sctLen_def)
  have suite: "appends (stmts [put 0 (hi16 (sh_cipherSuite m)), put 1 (lo16 (sh_cipherSuite m)), put 2 (sh_compressionMethod m), advance_by 3])
      (be_fixed 2 (unat (sh_cipherSuite m)) @ [sh_compressionMethod m])"
    unfolding uint16_of_16 [symmetric] by (simp add: appends_def block_simps)
  have tail: "appends (stmts
      [whenever (n > 0) (stmts [put 0 (byte1 el), put 1 (byte0 el), advance_by 2]),
       whenever (sh_nextProtoNeg m) (write_nextProtos m),
       whenever (sh_ocspStapling m) (write_empty extensionStatusRequest),
       whenever (sh_ticketSupported m) (write_empty extensionSessionTicket),
       whenever (sh_secureRenegotiationSupported m) (write_renegotiation (sh_secureRenegotiation m)),
       whenever (0 < length (sh_alpnProtocol m)) (write_protocol (sh_alpnProtocol m)),
       whenever (0 < sctLen m) (write_scts m)]) (opt (exts \<noteq> []) (be_fixed 2 (length exts)) @ exts)"
    unfolding exts_def sh_exts_def el_def scts
    by (rule appends_Cons [OF appends_tail_length [OF counts_exts [unfolded exts_def sh_exts_def]] _ refl])
       (intro appends_stmts_Cons npn appends_last appends_opt appends_write_empty appends_renegotiation [OF info]
          appends_protocol appends_scts)
  have "make_and_fill (4 + len)
     ([put 0 typeServerHello, put 1 (byte2 len), put 2 (byte1 len), put 3 (byte0 len),
       put 4 (hi16 (sh_vers m)), put 5 (lo16 (sh_vers m)), copyInto 6 38 (sh_random m),
       put 38 (byte0 (length (sh_sessionId m))),
       copyInto 39 (39 + length (sh_sessionId m)) (sh_sessionId m), advance_by (39 + length (sh_sessionId m)),
       put 0 (hi16 (sh_cipherSuite m)), put 1 (lo16 (sh_cipherSuite m)), put 2 (sh_compressionMethod m), advance_by 3,
       whenever (n > 0) (stmts [put 0 (byte1 el), put 1 (byte0 el), advance_by 2]),
       whenever (sh_nextProtoNeg m) (write_nextProtos m),
       whenever (sh_ocspStapling m) (write_empty extensionStatusRequest),
       whenever (sh_ticketSupported m) (write_empty extensionSessionTicket),
       whenever (sh_secureRenegotiationSupported m) (write_renegotiation (sh_secureRenegotiation m)),
       whenever (0 < length (sh_alpnProtocol m)) (write_protocol (sh_alpnProtocol m)),
       whenever (0 < sctLen m) (write_scts m)]) = Some (serverHelloMsg_bytes m)"
    by (rule make_and_fill_exact, rule appends_fills,
        rule appends_append [OF appends_append [OF appends_hello_header suite refl refl] tail])
       (simp_all add: serverHelloMsg_bytes_def handshake_def vec_def [of 3] hello_tail_alt len body_def flip: exts_def)
  then show ?thesis
    unfolding serverHelloMsg_marshal_def raw option.case sizes bind.bind_lunit prod.case Let_def el_def [symmetric] len_def [symmetric]
    by (simp only: bind.bind_lunit)
qed

end
