(* ===== verification/TlsHelloRound.thy ===== *)
theory TlsHelloRound
  imports TlsHelloGrammar
begin

text \<open>
  Reading the bytes of a hello message: each extension of the grammar sets the field that it was written from, and
  leaves the rest to the next one.
\<close>

section \<open>The loop over the extensions\<close>

lemma read_extensions_Nil [simp]: "read_extensions h [] m = Some (True, m)"
  by (subst read_extensions.simps) simp

lemma read_extensions_ext:
  assumes "length body < 65536" and "h e (length body) (body @ rest) m = Some (True, m')"
  shows "read_extensions h (ext e body @ rest) m = read_extensions h rest m'"
proof -
  let ?d = "be_fixed 2 (unat e) @ be_fixed 2 (length body) @ body @ rest"
  have 1: "uint16_at ?d 0 = Some e" by (simp add: readers)
  have 2: "int16_at ?d 2 = Some (length body)" using int16_at_be [of "length body" "be_fixed 2 (unat e)" 2] assms(1) by simp
  have 3: "slice_from ?d 4 = Some (body @ rest)" by (simp add: slice_from_def)
  have 4: "slice_from (body @ rest) (length body) = Some rest" by (simp add: slice_from_def)
  have "\<not> length ?d < 4" "length ?d \<noteq> 0" by simp_all
  then have "read_extensions h ?d m = read_extensions h rest m'"
    using assms(2) 1 2 3 4 by (subst read_extensions.simps) (simp del: append_assoc)
  then show ?thesis by (simp add: ext_def vec_def)
qed

lemmas extension_ids =
  extensionServerName_def extensionNextProtoNeg_def extensionStatusRequest_def extensionSupportedCurves_def
  extensionSupportedPoints_def extensionSessionTicket_def extensionSignatureAlgorithms_def
  extensionRenegotiationInfo_def extensionALPN_def extensionSCT_def

lemma slice_to_vec [readers]: "n = k + length xs \<Longrightarrow> slice_to (vec k xs @ d) n = Some (vec k xs)"
  by (simp add: slice_to_def)

lemma read_vecs1:
  "\<forall>s \<in> set ss. s \<noteq> [] \<and> length s < 256 \<Longrightarrow> read_protocols (vecs 1 ss) acc = Some (True, acc @ ss)"
proof (induction ss arbitrary: acc)
  case Nil
  show ?case by (subst read_protocols.simps) simp
next
  case (Cons s ss)
  then have s: "0 < length s" "length s < 256" by auto
  have "byte0 (length s) \<noteq> 0" using s by (metis unat_byte0 unat_eq_zero not_gr_zero)
  moreover have "slice_to (s @ vecs 1 ss) (length s) = Some s" "slice_from (s @ vecs 1 ss) (length s) = Some (vecs 1 ss)"
    by (simp_all add: slice_to_def slice_from_def)
  ultimately show ?case using Cons s
    by (subst read_protocols.simps) (simp add: vecs_Cons readers)
qed

section \<open>The client hello\<close>

lemma ext_serverName_read:
  assumes "length name + 5 < 65536"
  shows "ch_extension extensionServerName (length (vec 2 (0 # vec 2 name))) (vec 2 (0 # vec 2 name) @ rest) m
    = Some (True, m\<lparr>ch_serverName := name\<rparr>)"
proof -
  have 1: "int16_at (0 # vec 2 name) 1 = Some (length name)"
    using int16_at_be [of "length name" "[0]" 1 name] assms by (simp add: vec_def)
  have 2: "slice_from (0 # vec 2 name) 3 = Some name" "slice_to name (length name) = Some name"
    by (simp_all add: slice_from_def slice_to_def vec_def)
  have 3: "read_names (0 # vec 2 name) m = Some (True, m\<lparr>ch_serverName := name\<rparr>)"
    using 1 2 by (subst read_names.simps) (simp add: readers)
  show ?thesis using assms 3
    by (simp add: ch_extension_def read_serverName_def readers)
qed

lemma read_uint16s_self: "read_uint16s (length ws) (u16s ws) = Some (ws, [])"
  using read_u16s [of ws "[]"] by simp

lemma ext_curves_read:
  "2 * length ws + 2 < 65536 \<Longrightarrow>
   ch_extension extensionSupportedCurves (length (vec 2 (u16s ws))) (vec 2 (u16s ws) @ rest) m
     = Some (True, m\<lparr>ch_supportedCurves := ws\<rparr>)"
  by (simp add: ch_extension_def extension_ids read_curves_def readers read_u16s)

lemma ext_sigalgs_read:
  "2 * length ws + 2 < 65536 \<Longrightarrow>
   ch_extension extensionSignatureAlgorithms (length (vec 2 (u16s ws))) (vec 2 (u16s ws) @ rest) m
     = Some (True, m\<lparr>ch_supportedSignatureAlgorithms := ws\<rparr>)"
  by (simp add: ch_extension_def extension_ids read_sigalgs_def readers read_u16s and_one_eq)

lemma ext_points_read:
  "length ps < 256 \<Longrightarrow>
   ch_extension extensionSupportedPoints (length (vec 1 ps)) (vec 1 ps @ rest) m = Some (True, m\<lparr>ch_supportedPoints := ps\<rparr>)"
  by (simp add: ch_extension_def extension_ids read_points_def readers copy_new)

lemma ext_ticket_read:
  "ch_extension extensionSessionTicket (length t) (t @ rest) m = Some (True, m\<lparr>ch_ticketSupported := True, ch_sessionTicket := t\<rparr>)"
  by (simp add: ch_extension_def extension_ids read_ticket_def readers)

lemma renegotiation_read: "length info < 256 \<Longrightarrow> read_renegotiation (1 + length info) (vec 1 info @ rest) = Some (Some info)"
  by (simp add: read_renegotiation_def readers)

lemma ext_renegotiation_read:
  "length info < 256 \<Longrightarrow>
   ch_extension extensionRenegotiationInfo (length (vec 1 info)) (vec 1 info @ rest) m
     = Some (True, m\<lparr>ch_secureRenegotiation := info, ch_secureRenegotiationSupported := True\<rparr>)"
  using renegotiation_read [of info rest] by (simp add: ch_extension_def extension_ids read_ch_renegotiation_def)

lemma ext_alpn_read:
  assumes "\<forall>s \<in> set ss. s \<noteq> [] \<and> length s < 256" and "length (vecs 1 ss) + 2 < 65536"
  shows "ch_extension extensionALPN (length (vec 2 (vecs 1 ss))) (vec 2 (vecs 1 ss) @ rest) m
    = Some (True, m\<lparr>ch_alpnProtocols := ch_alpnProtocols m @ ss\<rparr>)"
proof -
  have "slice_between (vec 2 xs @ rest) 2 (2 + length xs) = Some xs" for xs
    by (simp add: slice_between_def subslice_def vec_def)
  then show ?thesis using assms(2) read_vecs1 [OF assms(1)]
    by (simp add: ch_extension_def extension_ids read_alpn_def readers)
qed

lemma ext_ocsp_read:
  "ch_extension extensionStatusRequest (length (statusTypeOCSP # vec 2 [] @ vec 2 [])) ((statusTypeOCSP # vec 2 [] @ vec 2 []) @ rest) m
     = Some (True, m\<lparr>ch_ocspStapling := True\<rparr>)"
  by (simp add: ch_extension_def extension_ids read_ocsp_def readers)

lemma ext_npn_read: "ch_extension extensionNextProtoNeg (length ([] :: bytes)) ([] @ rest) m = Some (True, m\<lparr>ch_nextProtoNeg := True\<rparr>)"
  by (simp add: ch_extension_def extension_ids read_npn_def)

lemma ext_sct_read: "ch_extension extensionSCT (length ([] :: bytes)) ([] @ rest) m = Some (True, m\<lparr>ch_scts := True\<rparr>)"
  by (simp add: ch_extension_def extension_ids read_sct_def)

definition clientHelloMsg_ok :: "clientHelloMsg \<Rightarrow> bool" where
  "clientHelloMsg_ok m \<longleftrightarrow>
     length (ch_random m) = 32 \<and> length (ch_sessionId m) \<le> 32 \<and>
     2 * length (ch_cipherSuites m) < 65536 \<and> length (ch_compressionMethods m) < 256 \<and>
     length (ch_supportedPoints m) < 256 \<and> length (ch_secureRenegotiation m) < 255 \<and>
     length (ch_exts m) < 65536 \<and> \<not> ch_invalid_alpn m \<and>
     (ch_ticketSupported m \<or> ch_sessionTicket m = []) \<and>
     (ch_secureRenegotiationSupported m \<or> ch_secureRenegotiation m = [] \<and> scsvRenegotiation \<notin> set (ch_cipherSuites m))"

text \<open>The fields that \<open>unmarshal\<close> does not reset, as in a new message.\<close>

definition clientHelloMsg_fresh :: "clientHelloMsg \<Rightarrow> bool" where
  "clientHelloMsg_fresh m \<longleftrightarrow>
     ch_supportedCurves m = [] \<and> ch_supportedPoints m = [] \<and> ch_secureRenegotiation m = [] \<and>
     \<not> ch_secureRenegotiationSupported m"

text \<open>An optional extension in front of others, as an update of the message.\<close>

named_theorems ch_steps \<open>reading one optional extension of a client hello\<close>

lemma opt_npn_read [ch_steps]:
  "read_extensions ch_extension (opt c (ext extensionNextProtoNeg []) @ r) b
     = read_extensions ch_extension r (b\<lparr>ch_nextProtoNeg := c \<or> ch_nextProtoNeg b\<rparr>)"
  by (cases c) (simp_all add: opt_def read_extensions_ext [where h = ch_extension, OF _ ext_npn_read, unfolded One_nat_def])

lemma opt_serverName_read [ch_steps]:
  "(c \<Longrightarrow> length x + 5 < 65536) \<Longrightarrow> read_extensions ch_extension (opt c (ext extensionServerName (vec 2 (0 # vec 2 x))) @ r) b
     = read_extensions ch_extension r (b\<lparr>ch_serverName := if c then x else ch_serverName b\<rparr>)"
  by (cases c) (simp_all add: opt_def read_extensions_ext [where h = ch_extension, OF _ ext_serverName_read, unfolded One_nat_def])

lemma opt_ocsp_read [ch_steps]:
  "read_extensions ch_extension (opt c (ext extensionStatusRequest (statusTypeOCSP # vec 2 [] @ vec 2 [])) @ r) b
     = read_extensions ch_extension r (b\<lparr>ch_ocspStapling := c \<or> ch_ocspStapling b\<rparr>)"
  by (cases c) (simp_all add: opt_def read_extensions_ext [where h = ch_extension, OF _ ext_ocsp_read, unfolded One_nat_def])

lemma opt_curves_read [ch_steps]:
  "(c \<Longrightarrow> 2 * length x + 2 < 65536) \<Longrightarrow> read_extensions ch_extension (opt c (ext extensionSupportedCurves (vec 2 (u16s x))) @ r) b
     = read_extensions ch_extension r (b\<lparr>ch_supportedCurves := if c then x else ch_supportedCurves b\<rparr>)"
  by (cases c) (simp_all add: opt_def read_extensions_ext [where h = ch_extension, OF _ ext_curves_read, unfolded One_nat_def])

lemma opt_points_read [ch_steps]:
  "(c \<Longrightarrow> length x < 256) \<Longrightarrow> read_extensions ch_extension (opt c (ext extensionSupportedPoints (vec 1 x)) @ r) b
     = read_extensions ch_extension r (b\<lparr>ch_supportedPoints := if c then x else ch_supportedPoints b\<rparr>)"
  by (cases c) (simp_all add: opt_def read_extensions_ext [where h = ch_extension, OF _ ext_points_read, unfolded One_nat_def])

lemma opt_ticket_read [ch_steps]:
  "(c \<Longrightarrow> length x < 65536) \<Longrightarrow> read_extensions ch_extension (opt c (ext extensionSessionTicket x) @ r) b
     = read_extensions ch_extension r (b\<lparr>ch_ticketSupported := c \<or> ch_ticketSupported b, ch_sessionTicket := if c then x else ch_sessionTicket b\<rparr>)"
  by (cases c) (simp_all add: opt_def read_extensions_ext [where h = ch_extension, OF _ ext_ticket_read, unfolded One_nat_def])

lemma opt_sigalgs_read [ch_steps]:
  "(c \<Longrightarrow> 2 * length x + 2 < 65536) \<Longrightarrow> read_extensions ch_extension (opt c (ext extensionSignatureAlgorithms (vec 2 (u16s x))) @ r) b
     = read_extensions ch_extension r (b\<lparr>ch_supportedSignatureAlgorithms := if c then x else ch_supportedSignatureAlgorithms b\<rparr>)"
  by (cases c) (simp_all add: opt_def read_extensions_ext [where h = ch_extension, OF _ ext_sigalgs_read, unfolded One_nat_def])

lemma opt_renegotiation_read [ch_steps]:
  "(c \<Longrightarrow> length x < 256) \<Longrightarrow> read_extensions ch_extension (opt c (ext extensionRenegotiationInfo (vec 1 x)) @ r) b
     = read_extensions ch_extension r (b\<lparr>ch_secureRenegotiation := if c then x else ch_secureRenegotiation b,
       ch_secureRenegotiationSupported := c \<or> ch_secureRenegotiationSupported b\<rparr>)"
  by (cases c) (simp_all add: opt_def read_extensions_ext [where h = ch_extension, OF _ ext_renegotiation_read, unfolded One_nat_def])

lemma opt_alpn_read:
  "(c \<Longrightarrow> (\<forall>s \<in> set x. s \<noteq> [] \<and> length s < 256) \<and> length (vecs 1 x) + 2 < 65536) \<Longrightarrow> read_extensions ch_extension (opt c (ext extensionALPN (vec 2 (vecs 1 x))) @ r) b
     = read_extensions ch_extension r (b\<lparr>ch_alpnProtocols := if c then ch_alpnProtocols b @ x else ch_alpnProtocols b\<rparr>)"
  by (cases c) (simp_all add: opt_def read_extensions_ext [where h = ch_extension, OF _ ext_alpn_read, unfolded One_nat_def])

lemma opt_sct_read [ch_steps]:
  "read_extensions ch_extension (opt c (ext extensionSCT []) @ r) b
     = read_extensions ch_extension r (b\<lparr>ch_scts := c \<or> ch_scts b\<rparr>)"
  by (cases c) (simp_all add: opt_def read_extensions_ext [where h = ch_extension, OF _ ext_sct_read, unfolded One_nat_def])

lemma if_list: "(if xs \<noteq> [] then xs else []) = xs" "(if xs = [] then [] else xs) = xs"
  by simp_all

lemma ch_exts_read:
  assumes ok: "clientHelloMsg_ok m"
    and fresh: "ch_nextProtoNeg a = False" "ch_serverName a = []" "ch_ocspStapling a = False" "ch_ticketSupported a = False"
      "ch_sessionTicket a = []" "ch_supportedSignatureAlgorithms a = []" "ch_alpnProtocols a = []" "ch_scts a = False"
      "ch_supportedCurves a = []" "ch_supportedPoints a = []" "ch_secureRenegotiation a = []"
      "ch_secureRenegotiationSupported a \<Longrightarrow> ch_secureRenegotiationSupported m"
  shows "read_extensions ch_extension (ch_exts m) a = Some (True,
    a\<lparr>ch_nextProtoNeg := ch_nextProtoNeg m, ch_serverName := ch_serverName m, ch_ocspStapling := ch_ocspStapling m,
      ch_scts := ch_scts m, ch_supportedCurves := ch_supportedCurves m, ch_supportedPoints := ch_supportedPoints m,
      ch_ticketSupported := ch_ticketSupported m, ch_sessionTicket := ch_sessionTicket m,
      ch_supportedSignatureAlgorithms := ch_supportedSignatureAlgorithms m,
      ch_secureRenegotiation := ch_secureRenegotiation m,
      ch_secureRenegotiationSupported := ch_secureRenegotiationSupported m, ch_alpnProtocols := ch_alpnProtocols m\<rparr>)"
proof -
  have alpn: "\<forall>s \<in> set (ch_alpnProtocols m). s \<noteq> [] \<and> length s < 256"
    using ok by (force simp: clientHelloMsg_ok_def ch_invalid_alpn_def list_ex_iff)
  have L: "length (ch_exts m) < 65536" using ok by (simp add: clientHelloMsg_ok_def)
  have len: "0 < length (ch_serverName m) \<Longrightarrow> length (ch_serverName m) + 5 < 65536"
    "0 < length (ch_supportedCurves m) \<Longrightarrow> 2 * length (ch_supportedCurves m) + 2 < 65536"
    "ch_ticketSupported m \<Longrightarrow> length (ch_sessionTicket m) < 65536"
    "0 < length (ch_supportedSignatureAlgorithms m) \<Longrightarrow> 2 * length (ch_supportedSignatureAlgorithms m) + 2 < 65536"
    "0 < length (ch_alpnProtocols m) \<Longrightarrow> length (vecs 1 (ch_alpnProtocols m)) + 2 < 65536"
    using L by (auto simp: ch_exts_def opt_def)
  have short: "length (ch_supportedPoints m) < 256" "length (ch_secureRenegotiation m) < 256"
    and kept: "(if ch_ticketSupported m then ch_sessionTicket m else []) = ch_sessionTicket m"
      "(if ch_secureRenegotiationSupported m then ch_secureRenegotiation m else []) = ch_secureRenegotiation m"
      "(ch_secureRenegotiationSupported m \<or> ch_secureRenegotiationSupported a) = ch_secureRenegotiationSupported m"
    using ok fresh by (auto simp: clientHelloMsg_ok_def)
  have protocols: "0 < length (ch_alpnProtocols m) \<Longrightarrow>
      (\<forall>s \<in> set (ch_alpnProtocols m). s \<noteq> [] \<and> length s < 256) \<and> length (vecs 1 (ch_alpnProtocols m)) + 2 < 65536"
    using alpn len(5) by blast
  have "read_extensions ch_extension (ch_exts m @ []) a = Some (True,
    a\<lparr>ch_nextProtoNeg := ch_nextProtoNeg m, ch_serverName := ch_serverName m, ch_ocspStapling := ch_ocspStapling m,
      ch_supportedCurves := ch_supportedCurves m, ch_supportedPoints := ch_supportedPoints m,
      ch_ticketSupported := ch_ticketSupported m, ch_sessionTicket := ch_sessionTicket m,
      ch_supportedSignatureAlgorithms := ch_supportedSignatureAlgorithms m,
      ch_secureRenegotiation := ch_secureRenegotiation m,
      ch_secureRenegotiationSupported := ch_secureRenegotiationSupported m, ch_alpnProtocols := ch_alpnProtocols m,
      ch_scts := ch_scts m\<rparr>)"
    unfolding ch_exts_def append_assoc
    by (simp only: ch_steps opt_alpn_read [where c = "0 < length (ch_alpnProtocols m)", OF protocols] len short simp_thms) (simp add: fresh kept if_list cong: if_cong split del: if_split)
  then show ?thesis by simp
qed

text \<open>The fixed part of both hello messages: version, random bytes, session, and what follows them.\<close>

lemma vec1_Cons: "vec (Suc 0) xs = byte0 (length xs) # xs"
  unfolding vec_def be_fixed_1 by simp

lemma hello_prefix:
  assumes "length rnd = 32" and "length sid \<le> 32"
    and d: "d = handshake t (be_fixed 2 (unat v) @ rnd @ vec 1 sid @ r)"
  shows "uint16_at d 4 = Some v" "slice_between d 6 38 = Some rnd" "at_idx d 38 = Some (byte0 (length sid))"
    "slice_between d 39 (39 + length sid) = Some sid" "slice_from d (39 + length sid) = Some r"
    "length d = 39 + length sid + length r"
proof -
  define h where "h = t # be_fixed 3 (length (be_fixed 2 (unat v) @ rnd @ vec 1 sid @ r))"
  define b where "b = byte0 (length sid)"
  have h: "length h = 4" by (simp add: h_def)
  have d': "d = h @ be_fixed 2 (unat v) @ rnd @ [b] @ sid @ r"
    using be_fixed_1 [of "length sid"] by (simp add: d handshake_append h_def vec_def b_def)
  show "uint16_at d 4 = Some v" unfolding d' using uint16_at_be [OF h] by simp
  show "slice_between d 6 38 = Some rnd"
    using slice_between_append [of "h @ be_fixed 2 (unat v)" 6 rnd 38] h assms(1,2) by (simp add: d')
  show "at_idx d 38 = Some (byte0 (length sid))"
    using at_idx_append [of "h @ be_fixed 2 (unat v) @ rnd" 38 "[b] @ sid @ r"] h assms(1,2) by (simp add: d' readers b_def)
  show "slice_between d 39 (39 + length sid) = Some sid"
    using slice_between_append [of "h @ be_fixed 2 (unat v) @ rnd @ [b]" 39 sid "39 + length sid" r] h assms(1,2) by (simp add: d')
  show "slice_from d (39 + length sid) = Some r"
    using slice_from_append [of "h @ be_fixed 2 (unat v) @ rnd @ [b] @ sid" "39 + length sid" r] h assms(1,2) by (simp add: d')
  show "length d = 39 + length sid + length r" using h assms(1,2) by (simp add: d')
qed

lemma read_suites_u16s:
  "length p = 2 + 2 * i \<Longrightarrow> read_suites (p @ u16s ws @ r) i (length ws) m
     = Some (m\<lparr>ch_cipherSuites := ch_cipherSuites m @ ws,
              ch_secureRenegotiationSupported := ch_secureRenegotiationSupported m \<or> scsvRenegotiation \<in> set ws\<rparr>)"
proof (induction ws arbitrary: p i m)
  case (Cons w ws)
  have "uint16_at (p @ u16s (w # ws) @ r) (2 + 2 * i) = Some w"
    using uint16_at_be [OF Cons.prems, of "unat w" "u16s ws @ r"] by (simp add: u16s_def)
  moreover have "p @ u16s (w # ws) @ r = (p @ be_fixed 2 (unat w)) @ u16s ws @ r" by (simp add: u16s_def)
  ultimately show ?case
    using Cons.IH [of "p @ be_fixed 2 (unat w)" "i + 1"] Cons.prems by (auto simp: Let_def)
qed simp

lemma hello_tail_read:
  assumes "length exts < 65536"
  shows "read_hello_tail h (hello_tail exts) m = read_extensions h exts m"
proof (cases "exts = []")
  case False
  then show ?thesis using assms by (simp add: read_hello_tail_def hello_tail_def opt_def readers)
qed (simp add: read_hello_tail_def hello_tail_def opt_def)

lemma clientHelloMsg_round:
  assumes ok: "clientHelloMsg_ok m" and fresh: "clientHelloMsg_fresh m0"
  shows "clientHelloMsg_unmarshal m0 (clientHelloMsg_bytes m) = Some (True, m\<lparr>ch_raw := Some (clientHelloMsg_bytes m)\<rparr>)"
proof -
  define d where "d = clientHelloMsg_bytes m"
  define sid where "sid = ch_sessionId m"
  define ws where "ws = ch_cipherSuites m"
  define cms where "cms = ch_compressionMethods m"
  define tl where "tl = hello_tail (ch_exts m)"
  define r where "r = vec 2 (u16s ws) @ vec 1 cms @ tl"
  note ok' = ok [unfolded clientHelloMsg_ok_def]
  have rnd: "length (ch_random m) = 32" and sid: "length sid \<le> 32" using ok' by (simp_all add: sid_def)
  then have "pad32 (ch_random m) = ch_random m" by (simp add: pad32_def)
  then have d: "d = handshake typeClientHello (be_fixed 2 (unat (ch_vers m)) @ ch_random m @ vec 1 sid @ r)"
    by (simp add: d_def clientHelloMsg_bytes_def r_def sid_def ws_def cms_def tl_def)
  note prefix = hello_prefix [OF rnd sid d]
  have ws: "2 * length ws < 65536" and cms: "length cms < 256" using ok' by (simp_all add: ws_def cms_def)
  have suites: "read_suites r 0 (length ws) b
      = Some (b\<lparr>ch_cipherSuites := ch_cipherSuites b @ ws,
          ch_secureRenegotiationSupported := ch_secureRenegotiationSupported b \<or> scsvRenegotiation \<in> set ws\<rparr>)" for b
    using read_suites_u16s [of "be_fixed 2 (length (u16s ws))" 0 ws "vec 1 cms @ tl" b] by (simp add: r_def vec_def)
  have len: "int16_at r 0 = Some (2 * length ws)" "slice_from r (2 + 2 * length ws) = Some (vec 1 cms @ tl)"
    using ws slice_from_append [of "vec 2 (u16s ws)" "2 + 2 * length ws" "vec 1 cms @ tl"] by (simp_all add: r_def readers)
  have cm: "at_idx (vec 1 cms @ tl) 0 = Some (byte0 (length cms))"
    "slice_between (vec 1 cms @ tl) 1 (1 + length cms) = Some cms"
    "slice_from (vec 1 cms @ tl) (1 + length cms) = Some tl"
    by (simp_all add: vec1_Cons readers slice_between_def subslice_def slice_from_def)
  have tail: "read_hello_tail ch_extension tl b = read_extensions ch_extension (ch_exts m) b" for b
    using ok' by (simp add: tl_def hello_tail_read)
  have lr: "length r = 2 + 2 * length ws + (1 + length cms + length tl)" by (simp add: r_def)
  let ?b = "m0\<lparr>ch_raw := Some d, ch_vers := ch_vers m, ch_random := ch_random m, ch_sessionId := sid,
    ch_cipherSuites := ws, ch_secureRenegotiationSupported := ch_secureRenegotiationSupported m0 \<or> scsvRenegotiation \<in> set ws,
    ch_compressionMethods := cms, ch_nextProtoNeg := False, ch_serverName := [], ch_ocspStapling := False,
    ch_ticketSupported := False, ch_sessionTicket := [], ch_supportedSignatureAlgorithms := [], ch_alpnProtocols := [],
    ch_scts := False\<rparr>"
  have "clientHelloMsg_unmarshal m0 d = read_extensions ch_extension (ch_exts m) ?b"
    using prefix sid ws cms
    by (simp add: clientHelloMsg_unmarshal_def Let_def lr len [unfolded numeral_2_eq_2, simplified] len suites cm cm [unfolded One_nat_def, simplified] tail)
  also have "\<dots> = Some (True, m\<lparr>ch_raw := Some d\<rparr>)"
    using fresh ok' by (subst ch_exts_read [OF ok]) (auto simp: clientHelloMsg_fresh_def ws_def cms_def sid_def)
  finally show ?thesis by (simp add: d_def)
qed

section \<open>The server hello\<close>

lemma sext_npn_read:
  "(\<forall>s \<in> set ss. s \<noteq> [] \<and> length s < 256) \<and> length (vecs 1 ss) < 65536 \<Longrightarrow>
   sh_extension extensionNextProtoNeg (length (vecs 1 ss)) (vecs 1 ss @ rest) m
     = Some (True, m\<lparr>sh_nextProtoNeg := True, sh_nextProtos := sh_nextProtos m @ ss\<rparr>)"
  using read_vecs1 [of ss "sh_nextProtos m"]
  by (simp add: sh_extension_def extension_ids read_nextProtos_def readers)

lemma sext_ocsp_read:
  "sh_extension extensionStatusRequest (length ([] :: bytes)) ([] @ rest) m = Some (True, m\<lparr>sh_ocspStapling := True\<rparr>)"
  by (simp add: sh_extension_def extension_ids)

lemma sext_ticket_read:
  "sh_extension extensionSessionTicket (length ([] :: bytes)) ([] @ rest) m = Some (True, m\<lparr>sh_ticketSupported := True\<rparr>)"
  by (simp add: sh_extension_def extension_ids)

lemma sext_renegotiation_read:
  "length info < 256 \<Longrightarrow>
   sh_extension extensionRenegotiationInfo (length (vec 1 info)) (vec 1 info @ rest) m
     = Some (True, m\<lparr>sh_secureRenegotiation := info, sh_secureRenegotiationSupported := True\<rparr>)"
  using renegotiation_read [of info rest] by (simp add: sh_extension_def extension_ids read_sh_renegotiation_def)

lemma sext_protocol_read:
  assumes "p \<noteq> [] \<and> length p < 256"
  shows "sh_extension extensionALPN (length (vec 2 (vec 1 p))) (vec 2 (vec 1 p) @ rest) m
    = Some (True, m\<lparr>sh_alpnProtocol := p\<rparr>)"
proof -
  have "slice_to (vec 2 (vec 1 p) @ rest) (length (vec 2 (vec 1 p))) = Some (vec 2 (vec 1 p))"
    by (rule slice_to_append) simp
  moreover have "\<not> length (vec 2 (vec 1 p)) < 3" by simp
  ultimately show ?thesis using assms
    by (simp add: sh_extension_def extension_ids read_protocol_def readers)
qed

lemma read_sct_vecs:
  "\<forall>s \<in> set ss. s \<noteq> [] \<and> length s < 65536 \<Longrightarrow> read_sct_list (vecs 2 ss) acc = Some (True, acc @ ss)"
proof (induction ss arbitrary: acc)
  case Nil
  show ?case by (subst read_sct_list.simps) simp
next
  case (Cons s ss)
  have "slice_to (s @ vecs 2 ss) (length s) = Some s" "slice_from (s @ vecs 2 ss) (length s) = Some (vecs 2 ss)"
    by (simp_all add: slice_to_def slice_from_def)
  with Cons show ?case by (subst read_sct_list.simps) (simp add: vecs_Cons readers)
qed

lemma sext_scts_read:
  assumes "ss \<noteq> [] \<and> (\<forall>s \<in> set ss. s \<noteq> []) \<and> length (vecs 2 ss) + 2 < 65536"
  shows "sh_extension extensionSCT (length (vec 2 (vecs 2 ss))) (vec 2 (vecs 2 ss) @ rest) m
    = Some (True, m\<lparr>sh_scts := ss\<rparr>)"
proof -
  have "\<forall>s \<in> set ss. s \<noteq> [] \<and> length s < 65536" using assms vecs_member_length [of _ ss 2] by fastforce
  from read_sct_vecs [OF this, of "[]"] have "read_sct_list (vecs 2 ss) [] = Some (True, ss)" by simp
  moreover have "vecs 2 ss \<noteq> []" using assms by (cases ss) (simp_all add: vecs_Cons)
  ultimately show ?thesis using assms
    by (simp add: sh_extension_def extension_ids read_scts_def readers)
qed

lemma sopt_npn_read:
  "(c \<Longrightarrow> (\<forall>s \<in> set x. s \<noteq> [] \<and> length s < 256) \<and> length (vecs 1 x) < 65536) \<Longrightarrow> read_extensions sh_extension (opt c (ext extensionNextProtoNeg (vecs 1 x)) @ r) b
     = read_extensions sh_extension r (b\<lparr>sh_nextProtoNeg := c \<or> sh_nextProtoNeg b, sh_nextProtos := if c then sh_nextProtos b @ x else sh_nextProtos b\<rparr>)"
  by (cases c) (simp_all add: opt_def read_extensions_ext [where h = sh_extension, OF _ sext_npn_read, unfolded One_nat_def])

lemma sopt_ocsp_read:
  "read_extensions sh_extension (opt c (ext extensionStatusRequest []) @ r) b
     = read_extensions sh_extension r (b\<lparr>sh_ocspStapling := c \<or> sh_ocspStapling b\<rparr>)"
  by (cases c) (simp_all add: opt_def read_extensions_ext [where h = sh_extension, OF _ sext_ocsp_read, unfolded One_nat_def])

lemma sopt_ticket_read:
  "read_extensions sh_extension (opt c (ext extensionSessionTicket []) @ r) b
     = read_extensions sh_extension r (b\<lparr>sh_ticketSupported := c \<or> sh_ticketSupported b\<rparr>)"
  by (cases c) (simp_all add: opt_def read_extensions_ext [where h = sh_extension, OF _ sext_ticket_read, unfolded One_nat_def])

lemma sopt_renegotiation_read:
  "(c \<Longrightarrow> length x < 256) \<Longrightarrow> read_extensions sh_extension (opt c (ext extensionRenegotiationInfo (vec 1 x)) @ r) b
     = read_extensions sh_extension r (b\<lparr>sh_secureRenegotiation := if c then x else sh_secureRenegotiation b,
       sh_secureRenegotiationSupported := c \<or> sh_secureRenegotiationSupported b\<rparr>)"
  by (cases c) (simp_all add: opt_def read_extensions_ext [where h = sh_extension, OF _ sext_renegotiation_read, unfolded One_nat_def])

lemma sopt_protocol_read:
  "(c \<Longrightarrow> x \<noteq> [] \<and> length x < 256) \<Longrightarrow> read_extensions sh_extension (opt c (ext extensionALPN (vec 2 (vec 1 x))) @ r) b
     = read_extensions sh_extension r (b\<lparr>sh_alpnProtocol := if c then x else sh_alpnProtocol b\<rparr>)"
  by (cases c) (simp_all add: opt_def read_extensions_ext [where h = sh_extension, OF _ sext_protocol_read, unfolded One_nat_def])

lemma sopt_scts_read:
  "(c \<Longrightarrow> x \<noteq> [] \<and> (\<forall>s \<in> set x. s \<noteq> []) \<and> length (vecs 2 x) + 2 < 65536) \<Longrightarrow> read_extensions sh_extension (opt c (ext extensionSCT (vec 2 (vecs 2 x))) @ r) b
     = read_extensions sh_extension r (b\<lparr>sh_scts := if c then x else sh_scts b\<rparr>)"
  by (cases c) (simp_all add: opt_def read_extensions_ext [where h = sh_extension, OF _ sext_scts_read, unfolded One_nat_def])

definition serverHelloMsg_ok :: "serverHelloMsg \<Rightarrow> bool" where
  "serverHelloMsg_ok m \<longleftrightarrow>
     length (sh_random m) = 32 \<and> length (sh_sessionId m) \<le> 32 \<and>
     length (sh_secureRenegotiation m) < 255 \<and> length (sh_alpnProtocol m) < 256 \<and> length (sh_exts m) < 65536 \<and>
     (\<forall>v \<in> set (sh_nextProtos m). v \<noteq> [] \<and> length v < 256) \<and> (\<forall>s \<in> set (sh_scts m). s \<noteq> []) \<and>
     (sh_nextProtoNeg m \<or> sh_nextProtos m = []) \<and>
     (sh_secureRenegotiationSupported m \<or> sh_secureRenegotiation m = [])"

definition serverHelloMsg_fresh :: "serverHelloMsg \<Rightarrow> bool" where
  "serverHelloMsg_fresh m \<longleftrightarrow> sh_secureRenegotiation m = [] \<and> \<not> sh_secureRenegotiationSupported m"

lemma sh_exts_read:
  assumes ok: "serverHelloMsg_ok m"
    and fresh: "sh_nextProtoNeg a = False" "sh_nextProtos a = []" "sh_ocspStapling a = False" "sh_scts a = []"
      "sh_ticketSupported a = False" "sh_alpnProtocol a = []" "sh_secureRenegotiation a = []"
      "sh_secureRenegotiationSupported a = False"
  shows "read_extensions sh_extension (sh_exts m) a = Some (True,
    a\<lparr>sh_nextProtoNeg := sh_nextProtoNeg m, sh_nextProtos := sh_nextProtos m, sh_ocspStapling := sh_ocspStapling m,
      sh_scts := sh_scts m, sh_ticketSupported := sh_ticketSupported m,
      sh_secureRenegotiation := sh_secureRenegotiation m,
      sh_secureRenegotiationSupported := sh_secureRenegotiationSupported m, sh_alpnProtocol := sh_alpnProtocol m\<rparr>)"
proof -
  note ok' = ok [unfolded serverHelloMsg_ok_def]
  have L: "length (sh_exts m) < 65536" using ok' by simp
  have npn: "sh_nextProtoNeg m \<Longrightarrow>
      (\<forall>s \<in> set (sh_nextProtos m). s \<noteq> [] \<and> length s < 256) \<and> length (vecs 1 (sh_nextProtos m)) < 65536"
    using L ok' by (auto simp: sh_exts_def opt_def)
  have info: "sh_secureRenegotiationSupported m \<Longrightarrow> length (sh_secureRenegotiation m) < 256" using ok' by simp
  have protocol: "0 < length (sh_alpnProtocol m) \<Longrightarrow> sh_alpnProtocol m \<noteq> [] \<and> length (sh_alpnProtocol m) < 256" using ok' by auto
  have scts: "0 < length (sh_scts m) \<Longrightarrow>
      sh_scts m \<noteq> [] \<and> (\<forall>s \<in> set (sh_scts m). s \<noteq> []) \<and> length (vecs 2 (sh_scts m)) + 2 < 65536"
    using L ok' by (auto simp: sh_exts_def opt_def)
  have kept: "(if sh_nextProtoNeg m then sh_nextProtos m else []) = sh_nextProtos m"
      "(if sh_secureRenegotiationSupported m then sh_secureRenegotiation m else []) = sh_secureRenegotiation m"
    using ok' by auto
  have "read_extensions sh_extension (sh_exts m @ []) a = Some (True,
    a\<lparr>sh_nextProtoNeg := sh_nextProtoNeg m, sh_nextProtos := sh_nextProtos m, sh_ocspStapling := sh_ocspStapling m,
      sh_ticketSupported := sh_ticketSupported m, sh_secureRenegotiation := sh_secureRenegotiation m,
      sh_secureRenegotiationSupported := sh_secureRenegotiationSupported m, sh_alpnProtocol := sh_alpnProtocol m,
      sh_scts := sh_scts m\<rparr>)"
    unfolding sh_exts_def append_assoc
    by (simp only: sopt_npn_read [where c = "sh_nextProtoNeg m", OF npn] sopt_ocsp_read sopt_ticket_read
          sopt_renegotiation_read [where c = "sh_secureRenegotiationSupported m", OF info]
          sopt_protocol_read [where c = "0 < length (sh_alpnProtocol m)", OF protocol]
          sopt_scts_read [where c = "0 < length (sh_scts m)", OF scts])
       (simp add: fresh kept if_list cong: if_cong split del: if_split)
  then show ?thesis by simp
qed

lemma serverHelloMsg_round:
  assumes ok: "serverHelloMsg_ok m" and fresh: "serverHelloMsg_fresh m0"
  shows "serverHelloMsg_unmarshal m0 (serverHelloMsg_bytes m) = Some (True, m\<lparr>sh_raw := Some (serverHelloMsg_bytes m)\<rparr>)"
proof -
  define d where "d = serverHelloMsg_bytes m"
  define sid where "sid = sh_sessionId m"
  define tl where "tl = hello_tail (sh_exts m)"
  define r where "r = be_fixed 2 (unat (sh_cipherSuite m)) @ [sh_compressionMethod m] @ tl"
  note ok' = ok [unfolded serverHelloMsg_ok_def]
  have rnd: "length (sh_random m) = 32" and sid: "length sid \<le> 32" using ok' by (simp_all add: sid_def)
  then have "pad32 (sh_random m) = sh_random m" by (simp add: pad32_def)
  then have d: "d = handshake typeServerHello (be_fixed 2 (unat (sh_vers m)) @ sh_random m @ vec 1 sid @ r)"
    by (simp add: d_def serverHelloMsg_bytes_def r_def sid_def tl_def)
  note prefix = hello_prefix [OF rnd sid d]
  have suite: "uint16_at r 0 = Some (sh_cipherSuite m)" "at_idx r 2 = Some (sh_compressionMethod m)" "slice_from r 3 = Some tl"
    using at_idx_append [of "be_fixed 2 (unat (sh_cipherSuite m))" 2] by (simp_all add: r_def readers slice_from_def)
  have tail: "read_hello_tail sh_extension tl b = read_extensions sh_extension (sh_exts m) b" for b
    using ok' by (simp add: tl_def hello_tail_read)
  have lr: "length r = 3 + length tl" by (simp add: r_def)
  let ?b = "m0\<lparr>sh_raw := Some d, sh_vers := sh_vers m, sh_random := sh_random m, sh_sessionId := sid,
    sh_cipherSuite := sh_cipherSuite m, sh_compressionMethod := sh_compressionMethod m, sh_nextProtoNeg := False,
    sh_nextProtos := [], sh_ocspStapling := False, sh_scts := [], sh_ticketSupported := False, sh_alpnProtocol := []\<rparr>"
  have "serverHelloMsg_unmarshal m0 d = read_extensions sh_extension (sh_exts m) ?b"
    using prefix sid by (simp add: serverHelloMsg_unmarshal_def Let_def lr suite tail)
  also have "\<dots> = Some (True, m\<lparr>sh_raw := Some d\<rparr>)"
    using fresh ok' by (subst sh_exts_read [OF ok]) (auto simp: serverHelloMsg_fresh_def sid_def)
  finally show ?thesis by (simp add: d_def)
qed

end
