(* ===== verification/TlsHandshake.thy ===== *)
theory TlsHandshake
  imports TlsHelloRound
begin

text \<open>
  The handshake messages together: the values that \<open>interface{}\<close> and \<open>handshakeMessage\<close> can hold, the methods
  \<open>equal\<close>, and the part of \<open>Conn.readHandshake\<close> (\<open>crypto/gmsm/gmtls/conn.go\<close>) that cuts a message from the
  collected bytes and parses it. Reading further records is left to the caller: \<open>NeedRecord\<close> stands for the call of
  \<open>readRecord\<close>, \<open>HandAlert\<close> for the alert that ends the connection.
\<close>

datatype handshakeMsg =
    HelloRequestM
  | ClientHelloM clientHelloMsg
  | ServerHelloM serverHelloMsg
  | NewSessionTicketM newSessionTicketMsg
  | CertificateM certificateMsg
  | CertificateRequestM certificateRequestMsg
  | CertificateRequestGM certificateRequestMsgGM
  | CertificateStatusM certificateStatusMsg
  | ServerKeyExchangeM serverKeyExchangeMsg
  | ServerHelloDoneM
  | ClientKeyExchangeM clientKeyExchangeMsg
  | CertificateVerifyM certificateVerifyMsg
  | NextProtoM nextProtoMsg
  | FinishedM finishedMsg

section \<open>Comparing messages\<close>

text \<open>The bytes of \<open>raw\<close>; \<open>bytes.Equal\<close> does not tell nil from empty. The comparisons of slices run over the first
  one and index the second.\<close>

definition raw_bytes :: "bytes option \<Rightarrow> bytes" where
  "raw_bytes r = (case r of None \<Rightarrow> [] | Some b \<Rightarrow> b)"

definition eqUint16s :: "16 word list \<Rightarrow> 16 word list \<Rightarrow> bool" where
  "eqUint16s x y \<longleftrightarrow> length x = length y \<and> list_all (\<lambda>(i, v). y ! i = v) (enumerate 0 x)"

definition eqCurveIDs :: "16 word list \<Rightarrow> 16 word list \<Rightarrow> bool" where
  "eqCurveIDs x y \<longleftrightarrow> length x = length y \<and> list_all (\<lambda>(i, v). y ! i = v) (enumerate 0 x)"

definition eqSignatureAlgorithms :: "16 word list \<Rightarrow> 16 word list \<Rightarrow> bool" where
  "eqSignatureAlgorithms x y \<longleftrightarrow> length x = length y \<and> list_all (\<lambda>(i, v). v = y ! i) (enumerate 0 x)"

definition eqStrings :: "bytes list \<Rightarrow> bytes list \<Rightarrow> bool" where
  "eqStrings x y \<longleftrightarrow> length x = length y \<and> list_all (\<lambda>(i, v). y ! i = v) (enumerate 0 x)"

definition eqByteSlices :: "bytes list \<Rightarrow> bytes list \<Rightarrow> bool" where
  "eqByteSlices x y \<longleftrightarrow> length x = length y \<and> list_all (\<lambda>(i, v). v = y ! i) (enumerate 0 x)"

definition clientHelloMsg_equal :: "clientHelloMsg \<Rightarrow> handshakeMsg \<Rightarrow> bool" where
  "clientHelloMsg_equal m i =
     (case i of
        ClientHelloM m1 \<Rightarrow>
          raw_bytes (ch_raw m) = raw_bytes (ch_raw m1) \<and> ch_vers m = ch_vers m1 \<and> ch_random m = ch_random m1 \<and>
          ch_sessionId m = ch_sessionId m1 \<and> eqUint16s (ch_cipherSuites m) (ch_cipherSuites m1) \<and>
          ch_compressionMethods m = ch_compressionMethods m1 \<and> ch_nextProtoNeg m = ch_nextProtoNeg m1 \<and>
          ch_serverName m = ch_serverName m1 \<and> ch_ocspStapling m = ch_ocspStapling m1 \<and> ch_scts m = ch_scts m1 \<and>
          eqCurveIDs (ch_supportedCurves m) (ch_supportedCurves m1) \<and> ch_supportedPoints m = ch_supportedPoints m1 \<and>
          ch_ticketSupported m = ch_ticketSupported m1 \<and> ch_sessionTicket m = ch_sessionTicket m1 \<and>
          eqSignatureAlgorithms (ch_supportedSignatureAlgorithms m) (ch_supportedSignatureAlgorithms m1) \<and>
          ch_secureRenegotiationSupported m = ch_secureRenegotiationSupported m1 \<and>
          ch_secureRenegotiation m = ch_secureRenegotiation m1 \<and> eqStrings (ch_alpnProtocols m) (ch_alpnProtocols m1)
      | _ \<Rightarrow> False)"

definition serverHelloMsg_equal :: "serverHelloMsg \<Rightarrow> handshakeMsg \<Rightarrow> bool" where
  "serverHelloMsg_equal m i =
     (case i of
        ServerHelloM m1 \<Rightarrow>
          length (sh_scts m) = length (sh_scts m1) \<and>
          list_all (\<lambda>(i, sct). sct = sh_scts m1 ! i) (enumerate 0 (sh_scts m)) \<and>
          raw_bytes (sh_raw m) = raw_bytes (sh_raw m1) \<and> sh_vers m = sh_vers m1 \<and> sh_random m = sh_random m1 \<and>
          sh_sessionId m = sh_sessionId m1 \<and> sh_cipherSuite m = sh_cipherSuite m1 \<and>
          sh_compressionMethod m = sh_compressionMethod m1 \<and> sh_nextProtoNeg m = sh_nextProtoNeg m1 \<and>
          eqStrings (sh_nextProtos m) (sh_nextProtos m1) \<and> sh_ocspStapling m = sh_ocspStapling m1 \<and>
          sh_ticketSupported m = sh_ticketSupported m1 \<and>
          sh_secureRenegotiationSupported m = sh_secureRenegotiationSupported m1 \<and>
          sh_secureRenegotiation m = sh_secureRenegotiation m1 \<and> sh_alpnProtocol m = sh_alpnProtocol m1
      | _ \<Rightarrow> False)"

definition certificateMsg_equal :: "certificateMsg \<Rightarrow> handshakeMsg \<Rightarrow> bool" where
  "certificateMsg_equal m i =
     (case i of
        CertificateM m1 \<Rightarrow>
          raw_bytes (cm_raw m) = raw_bytes (cm_raw m1) \<and> eqByteSlices (cm_certificates m) (cm_certificates m1)
      | _ \<Rightarrow> False)"

definition serverKeyExchangeMsg_equal :: "serverKeyExchangeMsg \<Rightarrow> handshakeMsg \<Rightarrow> bool" where
  "serverKeyExchangeMsg_equal m i =
     (case i of
        ServerKeyExchangeM m1 \<Rightarrow> raw_bytes (ske_raw m) = raw_bytes (ske_raw m1) \<and> ske_key m = ske_key m1
      | _ \<Rightarrow> False)"

definition certificateStatusMsg_equal :: "certificateStatusMsg \<Rightarrow> handshakeMsg \<Rightarrow> bool" where
  "certificateStatusMsg_equal m i =
     (case i of
        CertificateStatusM m1 \<Rightarrow>
          raw_bytes (cs_raw m) = raw_bytes (cs_raw m1) \<and> cs_statusType m = cs_statusType m1 \<and> cs_response m = cs_response m1
      | _ \<Rightarrow> False)"

definition serverHelloDoneMsg_equal :: "handshakeMsg \<Rightarrow> bool" where
  "serverHelloDoneMsg_equal i = (case i of ServerHelloDoneM \<Rightarrow> True | _ \<Rightarrow> False)"

definition clientKeyExchangeMsg_equal :: "clientKeyExchangeMsg \<Rightarrow> handshakeMsg \<Rightarrow> bool" where
  "clientKeyExchangeMsg_equal m i =
     (case i of
        ClientKeyExchangeM m1 \<Rightarrow> raw_bytes (cke_raw m) = raw_bytes (cke_raw m1) \<and> cke_ciphertext m = cke_ciphertext m1
      | _ \<Rightarrow> False)"

definition finishedMsg_equal :: "finishedMsg \<Rightarrow> handshakeMsg \<Rightarrow> bool" where
  "finishedMsg_equal m i =
     (case i of
        FinishedM m1 \<Rightarrow> raw_bytes (fin_raw m) = raw_bytes (fin_raw m1) \<and> fin_verifyData m = fin_verifyData m1
      | _ \<Rightarrow> False)"

definition nextProtoMsg_equal :: "nextProtoMsg \<Rightarrow> handshakeMsg \<Rightarrow> bool" where
  "nextProtoMsg_equal m i =
     (case i of
        NextProtoM m1 \<Rightarrow> raw_bytes (np_raw m) = raw_bytes (np_raw m1) \<and> np_proto m = np_proto m1
      | _ \<Rightarrow> False)"

definition certificateRequestMsg_equal :: "certificateRequestMsg \<Rightarrow> handshakeMsg \<Rightarrow> bool" where
  "certificateRequestMsg_equal m i =
     (case i of
        CertificateRequestM m1 \<Rightarrow>
          raw_bytes (cr_raw m) = raw_bytes (cr_raw m1) \<and> cr_certificateTypes m = cr_certificateTypes m1 \<and>
          eqByteSlices (cr_certificateAuthorities m) (cr_certificateAuthorities m1) \<and>
          eqSignatureAlgorithms (cr_supportedSignatureAlgorithms m) (cr_supportedSignatureAlgorithms m1)
      | _ \<Rightarrow> False)"

definition certificateVerifyMsg_equal :: "certificateVerifyMsg \<Rightarrow> handshakeMsg \<Rightarrow> bool" where
  "certificateVerifyMsg_equal m i =
     (case i of
        CertificateVerifyM m1 \<Rightarrow>
          raw_bytes (cv_raw m) = raw_bytes (cv_raw m1) \<and> cv_hasSignatureAndHash m = cv_hasSignatureAndHash m1 \<and>
          cv_signatureAlgorithm m = cv_signatureAlgorithm m1 \<and> cv_signature m = cv_signature m1
      | _ \<Rightarrow> False)"

definition newSessionTicketMsg_equal :: "newSessionTicketMsg \<Rightarrow> handshakeMsg \<Rightarrow> bool" where
  "newSessionTicketMsg_equal m i =
     (case i of
        NewSessionTicketM m1 \<Rightarrow> raw_bytes (nst_raw m) = raw_bytes (nst_raw m1) \<and> nst_ticket m = nst_ticket m1
      | _ \<Rightarrow> False)"

definition certificateRequestMsgGM_equal :: "certificateRequestMsgGM \<Rightarrow> handshakeMsg \<Rightarrow> bool" where
  "certificateRequestMsgGM_equal m i =
     (case i of
        CertificateRequestGM m1 \<Rightarrow>
          raw_bytes (gm_raw m) = raw_bytes (gm_raw m1) \<and> gm_certificateTypes m = gm_certificateTypes m1 \<and>
          eqByteSlices (gm_certificateAuthorities m) (gm_certificateAuthorities m1)
      | _ \<Rightarrow> False)"

section \<open>The interface handshakeMessage\<close>

text \<open>The dynamic calls of \<open>marshal\<close> and \<open>unmarshal\<close>.\<close>

definition marshal :: "handshakeMsg \<Rightarrow> (bytes \<times> handshakeMsg) option" where
  "marshal hm =
     (case hm of
        HelloRequestM \<Rightarrow> Some (helloRequestMsg_marshal, HelloRequestM)
      | ClientHelloM m \<Rightarrow> map_option (\<lambda>(x, m). (x, ClientHelloM m)) (clientHelloMsg_marshal m)
      | ServerHelloM m \<Rightarrow> map_option (\<lambda>(x, m). (x, ServerHelloM m)) (serverHelloMsg_marshal m)
      | NewSessionTicketM m \<Rightarrow> map_option (\<lambda>(x, m). (x, NewSessionTicketM m)) (newSessionTicketMsg_marshal m)
      | CertificateM m \<Rightarrow> map_option (\<lambda>(x, m). (x, CertificateM m)) (certificateMsg_marshal m)
      | CertificateRequestM m \<Rightarrow> map_option (\<lambda>(x, m). (x, CertificateRequestM m)) (certificateRequestMsg_marshal m)
      | CertificateRequestGM m \<Rightarrow> map_option (\<lambda>(x, m). (x, CertificateRequestGM m)) (certificateRequestMsgGM_marshal m)
      | CertificateStatusM m \<Rightarrow> map_option (\<lambda>(x, m). (x, CertificateStatusM m)) (certificateStatusMsg_marshal m)
      | ServerKeyExchangeM m \<Rightarrow> map_option (\<lambda>(x, m). (x, ServerKeyExchangeM m)) (serverKeyExchangeMsg_marshal m)
      | ServerHelloDoneM \<Rightarrow> map_option (\<lambda>x. (x, ServerHelloDoneM)) serverHelloDoneMsg_marshal
      | ClientKeyExchangeM m \<Rightarrow> map_option (\<lambda>(x, m). (x, ClientKeyExchangeM m)) (clientKeyExchangeMsg_marshal m)
      | CertificateVerifyM m \<Rightarrow> map_option (\<lambda>(x, m). (x, CertificateVerifyM m)) (certificateVerifyMsg_marshal m)
      | NextProtoM m \<Rightarrow> map_option (\<lambda>(x, m). (x, NextProtoM m)) (nextProtoMsg_marshal m)
      | FinishedM m \<Rightarrow> map_option (\<lambda>(x, m). (x, FinishedM m)) (finishedMsg_marshal m))"

definition unmarshal :: "handshakeMsg \<Rightarrow> bytes \<Rightarrow> (bool \<times> handshakeMsg) option" where
  "unmarshal hm data =
     (case hm of
        HelloRequestM \<Rightarrow> Some (helloRequestMsg_unmarshal data, HelloRequestM)
      | ClientHelloM m \<Rightarrow> map_option (\<lambda>(ok, m). (ok, ClientHelloM m)) (clientHelloMsg_unmarshal m data)
      | ServerHelloM m \<Rightarrow> map_option (\<lambda>(ok, m). (ok, ServerHelloM m)) (serverHelloMsg_unmarshal m data)
      | NewSessionTicketM m \<Rightarrow> map_option (\<lambda>(ok, m). (ok, NewSessionTicketM m)) (newSessionTicketMsg_unmarshal m data)
      | CertificateM m \<Rightarrow> map_option (\<lambda>(ok, m). (ok, CertificateM m)) (certificateMsg_unmarshal m data)
      | CertificateRequestM m \<Rightarrow> map_option (\<lambda>(ok, m). (ok, CertificateRequestM m)) (certificateRequestMsg_unmarshal m data)
      | CertificateRequestGM m \<Rightarrow> map_option (\<lambda>(ok, m). (ok, CertificateRequestGM m)) (certificateRequestMsgGM_unmarshal m data)
      | CertificateStatusM m \<Rightarrow> map_option (\<lambda>(ok, m). (ok, CertificateStatusM m)) (certificateStatusMsg_unmarshal m data)
      | ServerKeyExchangeM m \<Rightarrow> map_option (\<lambda>(ok, m). (ok, ServerKeyExchangeM m)) (serverKeyExchangeMsg_unmarshal m data)
      | ServerHelloDoneM \<Rightarrow> Some (serverHelloDoneMsg_unmarshal data, ServerHelloDoneM)
      | ClientKeyExchangeM m \<Rightarrow> map_option (\<lambda>(ok, m). (ok, ClientKeyExchangeM m)) (clientKeyExchangeMsg_unmarshal m data)
      | CertificateVerifyM m \<Rightarrow> map_option (\<lambda>(ok, m). (ok, CertificateVerifyM m)) (certificateVerifyMsg_unmarshal m data)
      | NextProtoM m \<Rightarrow> map_option (\<lambda>(ok, m). (ok, NextProtoM m)) (nextProtoMsg_unmarshal m data)
      | FinishedM m \<Rightarrow> map_option (\<lambda>(ok, m). (ok, FinishedM m)) (finishedMsg_unmarshal m data))"

section \<open>readHandshake\<close>

definition VersionTLS12 :: "16 word" where "VersionTLS12 = 0x0303"
definition maxHandshake :: nat where "maxHandshake = 65536"
definition alertUnexpectedMessage :: byte where "alertUnexpectedMessage = 10"
definition alertInternalError :: byte where "alertInternalError = 80"

text \<open>The new message for a type byte; \<open>gm\<close> says that the configuration has \<open>GMSupport\<close>.\<close>

definition new_message :: "bool \<Rightarrow> 16 word \<Rightarrow> byte \<Rightarrow> handshakeMsg option" where
  "new_message gm vers t =
     (if t = typeHelloRequest then Some HelloRequestM
      else if t = typeClientHello then Some (ClientHelloM
        \<lparr>ch_raw = None, ch_vers = 0, ch_random = [], ch_sessionId = [], ch_cipherSuites = [], ch_compressionMethods = [],
         ch_nextProtoNeg = False, ch_serverName = [], ch_ocspStapling = False, ch_scts = False, ch_supportedCurves = [],
         ch_supportedPoints = [], ch_ticketSupported = False, ch_sessionTicket = [], ch_supportedSignatureAlgorithms = [],
         ch_secureRenegotiation = [], ch_secureRenegotiationSupported = False, ch_alpnProtocols = []\<rparr>)
      else if t = typeServerHello then Some (ServerHelloM
        \<lparr>sh_raw = None, sh_vers = 0, sh_random = [], sh_sessionId = [], sh_cipherSuite = 0, sh_compressionMethod = 0,
         sh_nextProtoNeg = False, sh_nextProtos = [], sh_ocspStapling = False, sh_scts = [], sh_ticketSupported = False,
         sh_secureRenegotiation = [], sh_secureRenegotiationSupported = False, sh_alpnProtocol = []\<rparr>)
      else if t = typeNewSessionTicket then Some (NewSessionTicketM \<lparr>nst_raw = None, nst_ticket = []\<rparr>)
      else if t = typeCertificate then Some (CertificateM \<lparr>cm_raw = None, cm_certificates = []\<rparr>)
      else if t = typeCertificateRequest then
        (if gm then Some (CertificateRequestGM \<lparr>gm_raw = None, gm_certificateTypes = [], gm_certificateAuthorities = []\<rparr>)
         else Some (CertificateRequestM
           \<lparr>cr_raw = None, cr_hasSignatureAndHash = (VersionTLS12 \<le> vers), cr_certificateTypes = [],
            cr_supportedSignatureAlgorithms = [], cr_certificateAuthorities = []\<rparr>))
      else if t = typeCertificateStatus then
        Some (CertificateStatusM \<lparr>cs_raw = None, cs_statusType = 0, cs_response = []\<rparr>)
      else if t = typeServerKeyExchange then Some (ServerKeyExchangeM \<lparr>ske_raw = None, ske_key = []\<rparr>)
      else if t = typeServerHelloDone then Some ServerHelloDoneM
      else if t = typeClientKeyExchange then Some (ClientKeyExchangeM \<lparr>cke_raw = None, cke_ciphertext = []\<rparr>)
      else if t = typeCertificateVerify then
        Some (CertificateVerifyM
          \<lparr>cv_raw = None, cv_hasSignatureAndHash = (VersionTLS12 \<le> vers), cv_signatureAlgorithm = 0, cv_signature = []\<rparr>)
      else if t = typeNextProtocol then Some (NextProtoM \<lparr>np_raw = None, np_proto = []\<rparr>)
      else if t = typeFinished then Some (FinishedM \<lparr>fin_raw = None, fin_verifyData = []\<rparr>)
      else None)"

datatype hand_step =
    NeedRecord
  | HandAlert byte bytes
  | HandMessage handshakeMsg bytes

definition readHandshake_step :: "bool \<Rightarrow> 16 word \<Rightarrow> bytes \<Rightarrow> hand_step option" where
  "readHandshake_step gm vers hand =
     (if length hand < 4 then Some NeedRecord
      else do {
        n \<leftarrow> int24_at hand 1;
        if n > maxHandshake then Some (HandAlert alertInternalError hand)
        else if length hand < 4 + n then Some NeedRecord
        else
          let data = take (4 + n) hand; hand = drop (4 + n) hand in do {
            t \<leftarrow> at_idx data 0;
            case new_message gm vers t of
              None \<Rightarrow> Some (HandAlert alertUnexpectedMessage hand)
            | Some m \<Rightarrow> do {
                (ok, m) \<leftarrow> unmarshal m data;
                Some (if ok then HandMessage m hand else HandAlert alertUnexpectedMessage hand) } } })"

end
