(* ===== verification/TlsHandshakeLaws.thy ===== *)
theory TlsHandshakeLaws
  imports TlsHandshake
begin

text \<open>
  Lemmas about the interface of the handshake messages: no parser panics, and what one side marshals, \<open>readHandshake\<close>
  of the other side takes from its buffer and parses back.
\<close>

section \<open>No panics\<close>

lemma no_panic_map: "no_panic r \<Longrightarrow> no_panic (map_option f r)"
  by (cases r) (simp_all add: no_panic_def)

lemma unmarshal_no_panic [no_panic]: "no_panic (unmarshal hm data)"
  by (cases hm)
     (auto simp: unmarshal_def intro!: no_panic_map no_panic_Some clientHelloMsg_no_panic serverHelloMsg_no_panic
        newSessionTicketMsg_no_panic certificateMsg_no_panic certificateRequestMsg_no_panic certificateRequestMsgGM_no_panic
        certificateStatusMsg_no_panic serverKeyExchangeMsg_no_panic clientKeyExchangeMsg_no_panic
        certificateVerifyMsg_no_panic nextProtoMsg_no_panic finishedMsg_no_panic)

lemma readHandshake_no_panic: "no_panic (readHandshake_step gm vers hand)"
  by (auto simp: readHandshake_step_def Let_def simp del: length_0_conv length_greater_0_conv intro!: no_panic)

section \<open>Equality\<close>

lemma list_all_enumerate: "length x = length y \<Longrightarrow> list_all (\<lambda>(i, v). y ! i = v) (enumerate 0 x) \<longleftrightarrow> x = y"
  by (auto simp: list_all_length nth_enumerate_eq list_eq_iff_nth_eq)

lemma list_all_enumerate': "length x = length y \<Longrightarrow> list_all (\<lambda>(i, v). v = y ! i) (enumerate 0 x) \<longleftrightarrow> x = y"
  by (auto simp: list_all_length nth_enumerate_eq list_eq_iff_nth_eq)

lemma eq_slices:
  "eqUint16s ws ws' \<longleftrightarrow> ws = ws'" "eqCurveIDs ws ws' \<longleftrightarrow> ws = ws'" "eqSignatureAlgorithms ws ws' \<longleftrightarrow> ws = ws'"
  "eqStrings ss ss' \<longleftrightarrow> ss = ss'" "eqByteSlices ss ss' \<longleftrightarrow> ss = ss'"
  unfolding eqUint16s_def eqCurveIDs_def eqSignatureAlgorithms_def eqStrings_def eqByteSlices_def
  using list_all_enumerate list_all_enumerate' by blast+

text \<open>Up to a nil \<open>raw\<close>, \<open>equal\<close> is equality of the messages; a certificate request ignores one field.\<close>

definition raw_norm :: "bytes option \<Rightarrow> bytes option" where
  "raw_norm r = Some (raw_bytes r)"

lemma clientHelloMsg_equal_iff:
  "clientHelloMsg_equal m (ClientHelloM m1) \<longleftrightarrow> ch_raw_update raw_norm m = ch_raw_update raw_norm m1"
  by (cases m; cases m1) (auto simp: clientHelloMsg_equal_def eq_slices raw_norm_def)

lemma serverHelloMsg_equal_iff:
  "serverHelloMsg_equal m (ServerHelloM m1) \<longleftrightarrow> sh_raw_update raw_norm m = sh_raw_update raw_norm m1"
  by (cases m; cases m1) (auto simp: serverHelloMsg_equal_def eq_slices raw_norm_def list_all_enumerate')

lemma certificateRequestMsg_equal_iff:
  "certificateRequestMsg_equal m (CertificateRequestM m1) \<longleftrightarrow>
     cr_raw_update raw_norm (cr_hasSignatureAndHash_update (\<lambda>_. False) m)
       = cr_raw_update raw_norm (cr_hasSignatureAndHash_update (\<lambda>_. False) m1)"
  by (cases m; cases m1) (auto simp: certificateRequestMsg_equal_def eq_slices raw_norm_def)

lemma certificateVerifyMsg_equal_iff:
  "certificateVerifyMsg_equal m (CertificateVerifyM m1) \<longleftrightarrow> cv_raw_update raw_norm m = cv_raw_update raw_norm m1"
  by (cases m; cases m1) (auto simp: certificateVerifyMsg_equal_def raw_norm_def)

lemma certificateMsg_equal_iff:
  "certificateMsg_equal m (CertificateM m1) \<longleftrightarrow> cm_raw_update raw_norm m = cm_raw_update raw_norm m1"
  by (cases m; cases m1) (auto simp: certificateMsg_equal_def eq_slices raw_norm_def)

section \<open>Round trips\<close>

definition msg_bytes :: "handshakeMsg \<Rightarrow> bytes" where
  "msg_bytes hm =
     (case hm of
        HelloRequestM \<Rightarrow> handshake typeHelloRequest []
      | ClientHelloM m \<Rightarrow> clientHelloMsg_bytes m
      | ServerHelloM m \<Rightarrow> serverHelloMsg_bytes m
      | NewSessionTicketM m \<Rightarrow> newSessionTicketMsg_bytes m
      | CertificateM m \<Rightarrow> certificateMsg_bytes m
      | CertificateRequestM m \<Rightarrow> certificateRequestMsg_bytes m
      | CertificateRequestGM m \<Rightarrow> certificateRequestMsgGM_bytes m
      | CertificateStatusM m \<Rightarrow> certificateStatusMsg_bytes m
      | ServerKeyExchangeM m \<Rightarrow> serverKeyExchangeMsg_bytes m
      | ServerHelloDoneM \<Rightarrow> handshake typeServerHelloDone []
      | ClientKeyExchangeM m \<Rightarrow> clientKeyExchangeMsg_bytes m
      | CertificateVerifyM m \<Rightarrow> certificateVerifyMsg_bytes m
      | NextProtoM m \<Rightarrow> nextProtoMsg_bytes m
      | FinishedM m \<Rightarrow> finishedMsg_bytes m)"

definition set_raw :: "bytes \<Rightarrow> handshakeMsg \<Rightarrow> handshakeMsg" where
  "set_raw x hm =
     (case hm of
        HelloRequestM \<Rightarrow> HelloRequestM
      | ClientHelloM m \<Rightarrow> ClientHelloM (m\<lparr>ch_raw := Some x\<rparr>)
      | ServerHelloM m \<Rightarrow> ServerHelloM (m\<lparr>sh_raw := Some x\<rparr>)
      | NewSessionTicketM m \<Rightarrow> NewSessionTicketM (m\<lparr>nst_raw := Some x\<rparr>)
      | CertificateM m \<Rightarrow> CertificateM (m\<lparr>cm_raw := Some x\<rparr>)
      | CertificateRequestM m \<Rightarrow> CertificateRequestM (m\<lparr>cr_raw := Some x\<rparr>)
      | CertificateRequestGM m \<Rightarrow> CertificateRequestGM (m\<lparr>gm_raw := Some x\<rparr>)
      | CertificateStatusM m \<Rightarrow> CertificateStatusM (m\<lparr>cs_raw := Some x\<rparr>)
      | ServerKeyExchangeM m \<Rightarrow> ServerKeyExchangeM (m\<lparr>ske_raw := Some x\<rparr>)
      | ServerHelloDoneM \<Rightarrow> ServerHelloDoneM
      | ClientKeyExchangeM m \<Rightarrow> ClientKeyExchangeM (m\<lparr>cke_raw := Some x\<rparr>)
      | CertificateVerifyM m \<Rightarrow> CertificateVerifyM (m\<lparr>cv_raw := Some x\<rparr>)
      | NextProtoM m \<Rightarrow> NextProtoM (m\<lparr>np_raw := Some x\<rparr>)
      | FinishedM m \<Rightarrow> FinishedM (m\<lparr>fin_raw := Some x\<rparr>))"

text \<open>A message that was not marshalled yet, whose fields fit behind their lengths, and which the receiver expects in
  this form for its version and configuration.\<close>

definition sendable :: "bool \<Rightarrow> 16 word \<Rightarrow> handshakeMsg \<Rightarrow> bool" where
  "sendable gm vers hm \<longleftrightarrow> length (msg_bytes hm) \<le> 4 + maxHandshake \<and>
     (case hm of
        HelloRequestM \<Rightarrow> True
      | ClientHelloM m \<Rightarrow> ch_raw m = None \<and> clientHelloMsg_ok m
      | ServerHelloM m \<Rightarrow> sh_raw m = None \<and> serverHelloMsg_ok m
      | NewSessionTicketM m \<Rightarrow> nst_raw m = None
      | CertificateM m \<Rightarrow> cm_raw m = None \<and> certificateMsg_ok m
      | CertificateRequestM m \<Rightarrow> \<not> gm \<and> cr_raw m = None \<and> certificateRequestMsg_ok m \<and>
          cr_hasSignatureAndHash m = (VersionTLS12 \<le> vers) \<and>
          (cr_hasSignatureAndHash m \<or> cr_supportedSignatureAlgorithms m = [])
      | CertificateRequestGM m \<Rightarrow> gm \<and> gm_raw m = None \<and> certificateRequestMsgGM_ok m
      | CertificateStatusM m \<Rightarrow> cs_raw m = None \<and> (cs_statusType m = statusTypeOCSP \<or> cs_response m = [])
      | ServerKeyExchangeM m \<Rightarrow> ske_raw m = None
      | ServerHelloDoneM \<Rightarrow> True
      | ClientKeyExchangeM m \<Rightarrow> cke_raw m = None
      | CertificateVerifyM m \<Rightarrow> cv_raw m = None \<and> length (cv_signature m) < 65536 \<and>
          cv_hasSignatureAndHash m = (VersionTLS12 \<le> vers) \<and>
          (cv_hasSignatureAndHash m \<or> cv_signatureAlgorithm m = 0)
      | NextProtoM m \<Rightarrow> np_raw m = None \<and> length (np_proto m) < 256
      | FinishedM m \<Rightarrow> fin_raw m = None \<and> length (fin_verifyData m) < 256)"

lemmas type_bytes =
  typeHelloRequest_def typeClientHello_def typeServerHello_def typeNewSessionTicket_def typeCertificate_def
  typeServerKeyExchange_def typeCertificateRequest_def typeServerHelloDone_def typeCertificateVerify_def
  typeClientKeyExchange_def typeFinished_def typeCertificateStatus_def typeNextProtocol_def

lemma serverHelloMsg_ok_writable: "serverHelloMsg_ok m \<Longrightarrow> sh_writable m"
  by (simp add: serverHelloMsg_ok_def sh_writable_def)

lemma serverHelloDoneMsg_exact: "serverHelloDoneMsg_marshal = Some (handshake typeServerHelloDone [])"
proof -
  have "fills (stmts [put 0 typeServerHelloDone]) (handshake typeServerHelloDone [])"
    unfolding handshake_def vec_def be_fixed_3
    by (simp add: fills_def block_simps byte2_def byte1_def byte0_def)
  from make_and_fill_exact [OF this] show ?thesis by (simp add: serverHelloDoneMsg_marshal_def)
qed

lemma marshal_exact:
  assumes "sendable gm vers hm"
  shows "marshal hm = Some (msg_bytes hm, set_raw (msg_bytes hm) hm)"
proof (cases hm)
  case HelloRequestM
  then show ?thesis
    by (simp add: marshal_def msg_bytes_def set_raw_def helloRequestMsg_marshal_def handshake_def vec_def be_fixed_3
        byte2_def byte1_def byte0_def)
next
  case (ClientHelloM m)
  then show ?thesis using assms clientHelloMsg_exact [of m]
    by (simp add: marshal_def msg_bytes_def set_raw_def sendable_def clientHelloMsg_ok_def)
qed (use assms in \<open>simp_all add: marshal_def msg_bytes_def set_raw_def sendable_def serverHelloMsg_exact serverHelloMsg_ok_writable
        newSessionTicketMsg_exact certificateMsg_exact certificateRequestMsg_exact certificateRequestMsgGM_exact
        certificateStatusMsg_exact serverKeyExchangeMsg_exact serverHelloDoneMsg_exact clientKeyExchangeMsg_exact
        certificateVerifyMsg_exact nextProtoMsg_exact finishedMsg_exact\<close>)

lemma read_step_frame:
  assumes "x = t # be_fixed 3 (length body) @ body" and "length body \<le> maxHandshake"
    and "new_message gm vers t = Some m0" and "unmarshal m0 x = Some (True, m')"
  shows "readHandshake_step gm vers (x @ rest) = Some (HandMessage m' rest)"
proof -
  have n: "int24_at (x @ rest) 1 = Some (length body)"
    using int24_at_be [of "length body" "[t]" 1 "body @ rest"] assms(1,2) by (simp add: maxHandshake_def)
  have l: "length x = 4 + length body" by (simp add: assms(1))
  have t: "at_idx x 0 = Some t" by (simp add: assms(1) at_idx_def)
  show ?thesis using n l t assms(2-4) by (simp add: readHandshake_step_def Let_def)
qed

definition msg_type :: "handshakeMsg \<Rightarrow> byte" where
  "msg_type hm =
     (case hm of
        HelloRequestM \<Rightarrow> typeHelloRequest | ClientHelloM m \<Rightarrow> typeClientHello | ServerHelloM m \<Rightarrow> typeServerHello
      | NewSessionTicketM m \<Rightarrow> typeNewSessionTicket | CertificateM m \<Rightarrow> typeCertificate
      | CertificateRequestM m \<Rightarrow> typeCertificateRequest | CertificateRequestGM m \<Rightarrow> typeCertificateRequest
      | CertificateStatusM m \<Rightarrow> typeCertificateStatus | ServerKeyExchangeM m \<Rightarrow> typeServerKeyExchange
      | ServerHelloDoneM \<Rightarrow> typeServerHelloDone | ClientKeyExchangeM m \<Rightarrow> typeClientKeyExchange
      | CertificateVerifyM m \<Rightarrow> typeCertificateVerify | NextProtoM m \<Rightarrow> typeNextProtocol | FinishedM m \<Rightarrow> typeFinished)"

lemma small_header: "n < 256 \<Longrightarrow> be_fixed 3 n = [0, 0, byte0 n]"
  by (simp add: be_fixed_3 byte2_def byte1_def drop_bit_eq_div)

lemma sendable_frame:
  assumes "sendable gm vers hm"
  shows "\<exists>body. msg_bytes hm = msg_type hm # be_fixed 3 (length body) @ body \<and> length body \<le> maxHandshake"
proof (cases "\<exists>m. hm = FinishedM m")
  case True
  then obtain m where "hm = FinishedM m" ..
  then show ?thesis using assms
    by (intro exI [of _ "fin_verifyData m"])
       (simp add: msg_bytes_def msg_type_def sendable_def finishedMsg_bytes_def vec1_Cons small_header)
next
  case False
  then have "\<exists>body. msg_bytes hm = handshake (msg_type hm) body"
    by (cases hm)
       (auto simp: msg_bytes_def msg_type_def clientHelloMsg_bytes_def serverHelloMsg_bytes_def newSessionTicketMsg_bytes_def
          certificateMsg_bytes_def certificateRequestMsg_bytes_def certificateRequestMsgGM_bytes_def
          certificateStatusMsg_bytes_def serverKeyExchangeMsg_bytes_def clientKeyExchangeMsg_bytes_def
          certificateVerifyMsg_bytes_def nextProtoMsg_bytes_def Let_def simp del: ex_simps)
  then show ?thesis using assms by (auto simp: sendable_def handshake_def vec_def)
qed

lemma new_messages:
  "new_message gm vers typeHelloRequest = Some HelloRequestM"
  "\<exists>m0. new_message gm vers typeClientHello = Some (ClientHelloM m0) \<and> clientHelloMsg_fresh m0"
  "\<exists>m0. new_message gm vers typeServerHello = Some (ServerHelloM m0) \<and> serverHelloMsg_fresh m0"
  "\<exists>m0. new_message gm vers typeNewSessionTicket = Some (NewSessionTicketM m0)"
  "\<exists>m0. new_message gm vers typeCertificate = Some (CertificateM m0)"
  "\<exists>m0. new_message False vers typeCertificateRequest = Some (CertificateRequestM m0) \<and>
     cr_hasSignatureAndHash m0 = (VersionTLS12 \<le> vers) \<and> cr_supportedSignatureAlgorithms m0 = []"
  "\<exists>m0. new_message True vers typeCertificateRequest = Some (CertificateRequestGM m0)"
  "\<exists>m0. new_message gm vers typeCertificateStatus = Some (CertificateStatusM m0)"
  "\<exists>m0. new_message gm vers typeServerKeyExchange = Some (ServerKeyExchangeM m0)"
  "new_message gm vers typeServerHelloDone = Some ServerHelloDoneM"
  "\<exists>m0. new_message gm vers typeClientKeyExchange = Some (ClientKeyExchangeM m0)"
  "\<exists>m0. new_message gm vers typeCertificateVerify = Some (CertificateVerifyM m0) \<and>
     cv_hasSignatureAndHash m0 = (VersionTLS12 \<le> vers) \<and> cv_signatureAlgorithm m0 = 0"
  "\<exists>m0. new_message gm vers typeNextProtocol = Some (NextProtoM m0)"
  "\<exists>m0. new_message gm vers typeFinished = Some (FinishedM m0)"
  unfolding new_message_def type_bytes by (simp_all add: clientHelloMsg_fresh_def serverHelloMsg_fresh_def)

lemma sendable_unmarshal:
  assumes "sendable gm vers hm"
  shows "\<exists>m0. new_message gm vers (msg_type hm) = Some m0 \<and>
    unmarshal m0 (msg_bytes hm) = Some (True, set_raw (msg_bytes hm) hm)"
proof (cases hm)
  case HelloRequestM
  then show ?thesis
    by (simp add: msg_type_def msg_bytes_def set_raw_def unmarshal_def helloRequestMsg_unmarshal_def new_messages)
next
  case (ClientHelloM m)
  with new_messages(2) [of gm vers] assms clientHelloMsg_round [of m] show ?thesis
    by (fastforce simp: msg_type_def msg_bytes_def set_raw_def unmarshal_def sendable_def)
next
  case (ServerHelloM m)
  with new_messages(3) [of gm vers] assms serverHelloMsg_round [of m] show ?thesis
    by (fastforce simp: msg_type_def msg_bytes_def set_raw_def unmarshal_def sendable_def)
next
  case (NewSessionTicketM m)
  with assms have "length (nst_ticket m) < 65536"
    by (simp add: sendable_def msg_bytes_def newSessionTicketMsg_bytes_def maxHandshake_def)
  with NewSessionTicketM new_messages(4) [of gm vers] newSessionTicketMsg_round [of m] show ?thesis
    by (fastforce simp: msg_type_def msg_bytes_def set_raw_def unmarshal_def)
next
  case (CertificateM m)
  with new_messages(5) [of gm vers] assms certificateMsg_round [of m] show ?thesis
    by (fastforce simp: msg_type_def msg_bytes_def set_raw_def unmarshal_def sendable_def)
next
  case (CertificateRequestM m)
  with new_messages(6) [of vers] assms certificateRequestMsg_round [of m] show ?thesis
    by (fastforce simp: msg_type_def msg_bytes_def set_raw_def unmarshal_def sendable_def)
next
  case (CertificateRequestGM m)
  with new_messages(7) [of vers] assms certificateRequestMsgGM_round [of m] show ?thesis
    by (fastforce simp: msg_type_def msg_bytes_def set_raw_def unmarshal_def sendable_def)
next
  case (CertificateStatusM m)
  with assms have "length (cs_response m) < 16777216"
    by (auto simp: sendable_def msg_bytes_def certificateStatusMsg_bytes_def maxHandshake_def split: if_splits)
  with CertificateStatusM assms new_messages(8) [of gm vers] certificateStatusMsg_round [of m] show ?thesis
    by (fastforce simp: msg_type_def msg_bytes_def set_raw_def unmarshal_def sendable_def)
next
  case (ServerKeyExchangeM m)
  with new_messages(9) [of gm vers] serverKeyExchangeMsg_round [of _ m] show ?thesis
    by (fastforce simp: msg_type_def msg_bytes_def set_raw_def unmarshal_def)
next
  case ServerHelloDoneM
  then show ?thesis
    by (simp add: msg_type_def msg_bytes_def set_raw_def unmarshal_def serverHelloDoneMsg_unmarshal_def new_messages)
next
  case (ClientKeyExchangeM m)
  with assms have "length (cke_ciphertext m) < 16777216"
    by (simp add: sendable_def msg_bytes_def clientKeyExchangeMsg_bytes_def maxHandshake_def)
  with ClientKeyExchangeM new_messages(11) [of gm vers] clientKeyExchangeMsg_round [of m] show ?thesis
    by (fastforce simp: msg_type_def msg_bytes_def set_raw_def unmarshal_def)
next
  case (CertificateVerifyM m)
  with new_messages(12) [of gm vers] assms certificateVerifyMsg_round [of m] show ?thesis
    by (fastforce simp: msg_type_def msg_bytes_def set_raw_def unmarshal_def sendable_def)
next
  case (NextProtoM m)
  with new_messages(13) [of gm vers] assms nextProtoMsg_round [of m] show ?thesis
    by (fastforce simp: msg_type_def msg_bytes_def set_raw_def unmarshal_def sendable_def)
next
  case (FinishedM m)
  with new_messages(14) [of gm vers] finishedMsg_round [of _ m] show ?thesis
    by (fastforce simp: msg_type_def msg_bytes_def set_raw_def unmarshal_def)
qed

lemma sendable_read:
  assumes "sendable gm vers hm"
  shows "readHandshake_step gm vers (msg_bytes hm @ rest) = Some (HandMessage (set_raw (msg_bytes hm) hm) rest)"
proof -
  obtain body where "msg_bytes hm = msg_type hm # be_fixed 3 (length body) @ body" "length body \<le> maxHandshake"
    using sendable_frame [OF assms] by blast
  with sendable_unmarshal [OF assms] read_step_frame show ?thesis by blast
qed

end
