(* ===== verification/TlsProps.thy ===== *)
theory TlsProps
  imports TlsHandshakeLaws
begin

text \<open>The properties of the handshake messages of \<open>gmtls\<close>.\<close>

lemma handshake_prefix_waits:
  assumes "x = t # be_fixed 3 (length body) @ body" and "length body \<le> maxHandshake" and "k < length x"
  shows "readHandshake_step gm vers (take k x) = Some NeedRecord"
proof (cases "k < 4")
  case False
  define r where "r = take (k - 4) body"
  have k: "take k x = [t] @ be_fixed 3 (length body) @ r"
    using False by (simp add: assms(1) r_def take_Cons' not_less)
  have "length (take k x) = k" using assms(3) by simp
  moreover have "int24_at (take k x) 1 = Some (length body)"
    unfolding k using assms(2) by (intro int24_at_be) (simp_all add: maxHandshake_def)
  ultimately show ?thesis using False assms by (simp add: readHandshake_step_def not_less)
qed (use assms in \<open>simp add: readHandshake_step_def min_def\<close>)

text \<open>C15. Parsing never panics: whatever the bytes of a peer are, no \<open>unmarshal\<close> of the fourteen handshake messages
  indexes or slices out of range, whatever the message held before, and neither does the step of \<open>readHandshake\<close> that
  cuts the next message out of the collected bytes, chooses its type and parses it.\<close>

theorem tls_parsers_never_panic:
  "unmarshal hm data \<noteq> None \<and> readHandshake_step gm vers hand \<noteq> None"
  using unmarshal_no_panic readHandshake_no_panic by (simp only: no_panic_def simp_thms)

text \<open>C14. A handshake message that can be sent (\<open>sendable\<close>) survives the wire: \<open>marshal\<close> returns its bytes and caches
  them, \<open>readHandshake\<close> asks for a further record on every proper prefix of these bytes, and with all of them, whatever
  follows, it returns exactly the message that the sender has (the fields and the cached bytes) and leaves what
  follows in the buffer. A message can be sent that was not marshalled yet, whose fields fit behind their lengths and
  whose body has at most \<open>maxHandshake\<close> bytes, and besides: in a hello, the random has 32 bytes, the session at most 32
  and the renegotiation data less than 255, no application protocol of a client is empty or longer than 255 bytes, a
  ticket, next protocols and renegotiation data are there only with the flag of their extension, and without secure
  renegotiation a client does not list the cipher suite that signals it; the next protocols and the signed timestamps
  of a server are not empty; the last certificate of a list is not empty (see \<open>certificate_empty_last\<close>); a request of
  certificates is of the kind of the protocol and names at least one type; signature algorithms are there exactly from
  TLS 1.2 on; and a status that is not of OCSP has no response.\<close>

theorem tls_handshake_roundtrip:
  assumes "sendable gm vers hm"
  shows "\<exists>x sent. marshal hm = Some (x, sent) \<and>
    (\<forall>k < length x. readHandshake_step gm vers (take k x) = Some NeedRecord) \<and>
    (\<forall>rest. readHandshake_step gm vers (x @ rest) = Some (HandMessage sent rest))"
  using marshal_exact [OF assms] sendable_read [OF assms] sendable_frame [OF assms] handshake_prefix_waits by blast

definition hello_example :: clientHelloMsg where
  "hello_example =
     \<lparr>ch_raw = None, ch_vers = 0x0101, ch_random = replicate 32 7, ch_sessionId = [], ch_cipherSuites = [0xe013, 0x00ff],
      ch_compressionMethods = [0], ch_nextProtoNeg = False, ch_serverName = [97, 46, 98], ch_ocspStapling = True,
      ch_scts = False, ch_supportedCurves = [23], ch_supportedPoints = [0], ch_ticketSupported = True,
      ch_sessionTicket = [1, 2], ch_supportedSignatureAlgorithms = [0x0403], ch_secureRenegotiation = [],
      ch_secureRenegotiationSupported = True, ch_alpnProtocols = [[104, 50]]\<rparr>"

lemma hello_example_sendable: "sendable True 0x0101 (ClientHelloM hello_example)"
proof -
  have e: "length (ch_exts hello_example) = 63"
    by (simp add: ch_exts_def hello_example_def opt_def length_vecs)
  have "clientHelloMsg_ok hello_example"
    unfolding clientHelloMsg_ok_def e by (simp add: hello_example_def ch_invalid_alpn_def)
  moreover have "length (clientHelloMsg_bytes hello_example) \<le> 4 + maxHandshake"
    by (simp add: clientHelloMsg_bytes_def hello_tail_def opt_def e maxHandshake_def) (simp add: hello_example_def)
  ultimately show ?thesis by (simp add: sendable_def msg_bytes_def) (simp add: hello_example_def)
qed

theorem tls_handshake_roundtrip_witness:
  "\<exists>x sent. marshal (ClientHelloM hello_example) = Some (x, sent) \<and>
    (\<forall>k < length x. readHandshake_step True 0x0101 (take k x) = Some NeedRecord) \<and>
    (\<forall>rest. readHandshake_step True 0x0101 (x @ rest) = Some (HandMessage sent rest))"
  by (rule tls_handshake_roundtrip [OF hello_example_sendable])

text \<open>C29. The lengths that the hello messages compute beforehand are right: a client hello that was not marshalled yet,
  with less than 255 bytes of renegotiation data (at 255 the byte of the length becomes 0),
  panics exactly when one of its application protocols is empty or longer than 255 bytes, and otherwise its buffer is
  filled to the last byte with the grammar of TLS, in which every vector carries its length; so is the buffer of a server
  hello that was not marshalled yet, with less than 255 bytes of renegotiation data and protocols of less than 256 bytes.\<close>

theorem tls_hello_grammar:
  assumes "ch_raw m = None" and "length (ch_secureRenegotiation m) < 255" and "sh_raw s = None" and "sh_writable s"
  shows "clientHelloMsg_marshal m =
      (if \<exists>p \<in> set (ch_alpnProtocols m). p = [] \<or> 255 < length p then None
       else Some (clientHelloMsg_bytes m, m\<lparr>ch_raw := Some (clientHelloMsg_bytes m)\<rparr>)) \<and>
    serverHelloMsg_marshal s = Some (serverHelloMsg_bytes s, s\<lparr>sh_raw := Some (serverHelloMsg_bytes s)\<rparr>)"
proof -
  have "ch_invalid_alpn m \<longleftrightarrow> (\<exists>p \<in> set (ch_alpnProtocols m). p = [] \<or> 255 < length p)"
    by (simp add: ch_invalid_alpn_def list_ex_iff)
  then show ?thesis
    using clientHelloMsg_exact [OF assms(1) _ assms(2)] clientHelloMsg_alpn_panic [OF assms(1)]
      serverHelloMsg_exact [OF assms(3,4)] by auto
qed

definition server_example :: serverHelloMsg where
  "server_example =
     \<lparr>sh_raw = None, sh_vers = 0x0101, sh_random = replicate 32 9, sh_sessionId = [1], sh_cipherSuite = 0xe013,
      sh_compressionMethod = 0, sh_nextProtoNeg = False, sh_nextProtos = [], sh_ocspStapling = True, sh_scts = [[5]],
      sh_ticketSupported = True, sh_secureRenegotiation = [], sh_secureRenegotiationSupported = True,
      sh_alpnProtocol = [104, 50]\<rparr>"

theorem tls_hello_grammar_witness:
  "clientHelloMsg_marshal hello_example =
      (if \<exists>p \<in> set (ch_alpnProtocols hello_example). p = [] \<or> 255 < length p then None
       else Some (clientHelloMsg_bytes hello_example, hello_example\<lparr>ch_raw := Some (clientHelloMsg_bytes hello_example)\<rparr>)) \<and>
    serverHelloMsg_marshal server_example =
      Some (serverHelloMsg_bytes server_example, server_example\<lparr>sh_raw := Some (serverHelloMsg_bytes server_example)\<rparr>)"
  by (rule tls_hello_grammar) (simp_all add: hello_example_def server_example_def sh_writable_def)

section \<open>What the parsers do not check\<close>

text \<open>A certificate message with an empty certificate is refused when it comes last and accepted before another one.\<close>

lemma certificate_empty_last:
  "certificateMsg_unmarshal m [11, 0, 0, 6, 0, 0, 3, 0, 0, 0] = Some (False, m\<lparr>cm_raw := Some [11, 0, 0, 6, 0, 0, 3, 0, 0, 0]\<rparr>)"
proof -
  have "count_certs 3 [0, 0, 0] 0 = Some None" by (subst count_certs.simps) simp
  then show ?thesis
    by (simp add: certificateMsg_unmarshal_def bounded val24_def)
qed

end
