(* ===== verification/TlsRecord.thy ===== *)
theory TlsRecord
  imports GoBuffer
begin

text \<open>
  The record layer of \<open>gmtls\<close>: the half connection of \<open>conn.go\<close> with its sequence number, padding, encryption and
  decryption, the two nonce-keeping wrappers and the two MAC functions of \<open>cipher_suites.go\<close>. The ciphers of the
  Go library are parameters, the fields of \<open>ciphers\<close>: they act on a cipher object of type \<open>'c\<close> and return its new state.
  A hash function is given by the digest of all bytes written since its last \<open>Reset\<close>. \<open>None\<close> is a panic. The data of a
  block are a list; growing a block appends zeros, which the code overwrites. The reused digest buffers and
  the list of free blocks only save allocations and are left out.
\<close>

section \<open>Constants\<close>

definition VersionSSL30 :: "16 word" where "VersionSSL30 = 0x0300"
definition VersionTLS10 :: "16 word" where "VersionTLS10 = 0x0301"
definition VersionTLS11 :: "16 word" where "VersionTLS11 = 0x0302"
definition VersionGMSSL :: "16 word" where "VersionGMSSL = 0x0101"
definition recordHeaderLen :: nat where "recordHeaderLen = 5"
definition alertBadRecordMAC :: byte where "alertBadRecordMAC = 20"

section \<open>Ciphers and MAC functions\<close>

record 'c ciphers =
  XORKeyStream :: "'c \<Rightarrow> bytes \<Rightarrow> bytes \<times> 'c"
  cbc_BlockSize :: "'c \<Rightarrow> nat"
  SetIV :: "'c \<Rightarrow> bytes \<Rightarrow> 'c"
  CryptBlocks :: "'c \<Rightarrow> bytes \<Rightarrow> bytes \<times> 'c"
  Overhead :: "'c \<Rightarrow> nat"
  Seal :: "'c \<Rightarrow> bytes \<Rightarrow> bytes \<Rightarrow> bytes \<Rightarrow> bytes"
  Open :: "'c \<Rightarrow> bytes \<Rightarrow> bytes \<Rightarrow> bytes \<Rightarrow> bytes option"

text \<open>The wrappers \<open>fixedNonceAEAD\<close> and \<open>xorNonceAEAD\<close>, each with its 12 bytes and the cipher it wraps.\<close>

datatype 'c aead = FixedNonceAEAD bytes 'c | XorNonceAEAD bytes 'c

definition explicitNonceLen :: "'c aead \<Rightarrow> nat" where
  "explicitNonceLen a = (case a of FixedNonceAEAD _ _ \<Rightarrow> 8 | XorNonceAEAD _ _ \<Rightarrow> 0)"

definition aead_Overhead :: "'c ciphers \<Rightarrow> 'c aead \<Rightarrow> nat" where
  "aead_Overhead E a = (case a of FixedNonceAEAD _ c \<Rightarrow> Overhead E c | XorNonceAEAD _ c \<Rightarrow> Overhead E c)"

text \<open>\<open>for i, b := range nonce { f.nonceMask[4+i] ^= b }\<close>\<close>

fun xor_mask :: "nat \<Rightarrow> bytes \<Rightarrow> bytes \<Rightarrow> bytes option" where
  "xor_mask i [] nm = Some nm"
| "xor_mask i (b # bs) nm =
     (if 4 + i < length nm then xor_mask (i + 1) bs (nm[4 + i := nm ! (4 + i) XOR b]) else None)"

definition aead_Seal :: "'c ciphers \<Rightarrow> 'c aead \<Rightarrow> bytes \<Rightarrow> bytes \<Rightarrow> bytes \<Rightarrow> (bytes \<times> 'c aead) option" where
  "aead_Seal E a nonce plaintext ad =
     (case a of
        FixedNonceAEAD fixed c \<Rightarrow>
          let fixed = copy_at 4 nonce fixed in Some (Seal E c fixed plaintext ad, FixedNonceAEAD fixed c)
      | XorNonceAEAD nm c \<Rightarrow> do {
          nm \<leftarrow> xor_mask 0 nonce nm;
          let result = Seal E c nm plaintext ad;
          nm \<leftarrow> xor_mask 0 nonce nm;
          Some (result, XorNonceAEAD nm c) })"

definition aead_Open :: "'c ciphers \<Rightarrow> 'c aead \<Rightarrow> bytes \<Rightarrow> bytes \<Rightarrow> bytes \<Rightarrow> (bytes option \<times> 'c aead) option" where
  "aead_Open E a nonce ciphertext ad =
     (case a of
        FixedNonceAEAD fixed c \<Rightarrow>
          let fixed = copy_at 4 nonce fixed in Some (Open E c fixed ciphertext ad, FixedNonceAEAD fixed c)
      | XorNonceAEAD nm c \<Rightarrow> do {
          nm \<leftarrow> xor_mask 0 nonce nm;
          let result = Open E c nm ciphertext ad;
          nm \<leftarrow> xor_mask 0 nonce nm;
          Some (result, XorNonceAEAD nm c) })"

text \<open>The dynamic types that \<open>halfConn.cipher\<close> may have.\<close>

datatype 'c rcipher = StreamCipher 'c | AeadCipher "'c aead" | CbcCipher 'c

text \<open>\<open>tls10MAC\<close> (a keyed hash) and \<open>ssl30MAC\<close> (a hash and a key), with the size of the digest.\<close>

datatype macFunction = Tls10MAC "bytes \<Rightarrow> bytes" nat | Ssl30MAC "bytes \<Rightarrow> bytes" nat bytes

definition mac_Size :: "macFunction \<Rightarrow> nat" where
  "mac_Size f = (case f of Tls10MAC h n \<Rightarrow> n | Ssl30MAC h n key \<Rightarrow> n)"

definition ssl30Pad1 :: bytes where "ssl30Pad1 = replicate 48 0x36"
definition ssl30Pad2 :: bytes where "ssl30Pad2 = replicate 48 0x5c"

text \<open>The bytes \<open>extra\<close> are fed to the hash after the digest was taken.\<close>

definition tls10MAC_MAC :: "(bytes \<Rightarrow> bytes) \<Rightarrow> bytes \<Rightarrow> bytes \<Rightarrow> bytes \<Rightarrow> bytes" where
  "tls10MAC_MAC h seq header data = h (seq @ header @ data)"

definition ssl30MAC_MAC :: "(bytes \<Rightarrow> bytes) \<Rightarrow> nat \<Rightarrow> bytes \<Rightarrow> bytes \<Rightarrow> bytes \<Rightarrow> bytes \<Rightarrow> bytes option" where
  "ssl30MAC_MAC h n key seq header data =
     (let padLength = (if n = 20 then 40 else 48) in do {
        h1 \<leftarrow> slice_to header 1;
        h35 \<leftarrow> slice_between header 3 5;
        p1 \<leftarrow> slice_to ssl30Pad1 padLength;
        p2 \<leftarrow> slice_to ssl30Pad2 padLength;
        let digest = h (key @ p1 @ seq @ h1 @ h35 @ data);
        Some (h (key @ p2 @ digest)) })"

definition mac_MAC :: "macFunction \<Rightarrow> bytes \<Rightarrow> bytes \<Rightarrow> bytes \<Rightarrow> bytes \<Rightarrow> bytes option" where
  "mac_MAC f seq header data extra =
     (case f of
        Tls10MAC h n \<Rightarrow> Some (tls10MAC_MAC h seq header data)
      | Ssl30MAC h n key \<Rightarrow> ssl30MAC_MAC h n key seq header data)"

section \<open>A half connection\<close>

text \<open>The errors of a connection: those of \<open>io\<close>, of the network (temporary or not), of the package, a record header, and
  alerts, bare or wrapped as a local or a remote error.\<close>

datatype conn_error =
    IoEOF | IoUnexpectedEOF | IoNoProgress | NetError bool string | TlsError string | HeaderError string bytes
  | AlertError byte | LocalError byte | RemoteError byte

record 'c halfConn =
  hc_err :: "conn_error option"
  hc_version :: "16 word"
  hc_cipher :: "'c rcipher option"
  hc_mac :: "macFunction option"
  hc_seq :: bytes
  hc_nextCipher :: "'c rcipher option"
  hc_nextMac :: "macFunction option"

definition setErrorLocked :: "conn_error option \<Rightarrow> 'c halfConn \<Rightarrow> 'c halfConn" where
  "setErrorLocked e hc = hc\<lparr>hc_err := e\<rparr>"

definition prepareCipherSpec :: "16 word \<Rightarrow> 'c rcipher option \<Rightarrow> macFunction option \<Rightarrow> 'c halfConn \<Rightarrow> 'c halfConn" where
  "prepareCipherSpec version cipher mac hc = hc\<lparr>hc_version := version, hc_nextCipher := cipher, hc_nextMac := mac\<rparr>"

text \<open>\<open>Inl\<close> is the returned alert.\<close>

definition changeCipherSpec :: "'c halfConn \<Rightarrow> byte + 'c halfConn" where
  "changeCipherSpec hc =
     (case hc_nextCipher hc of
        None \<Rightarrow> Inl 80
      | Some _ \<Rightarrow>
          Inr (hc\<lparr>hc_cipher := hc_nextCipher hc, hc_mac := hc_nextMac hc, hc_nextCipher := None, hc_nextMac := None,
                  hc_seq := replicate (length (hc_seq hc)) 0\<rparr>))"

fun incSeq_loop :: "nat \<Rightarrow> bytes \<Rightarrow> bytes option" where
  "incSeq_loop 0 seq = None"
| "incSeq_loop (Suc i) seq =
     (let seq = seq[i := seq ! i + 1] in if seq ! i \<noteq> 0 then Some seq else incSeq_loop i seq)"

definition incSeq :: "'c halfConn \<Rightarrow> 'c halfConn option" where
  "incSeq hc = do { seq \<leftarrow> incSeq_loop 8 (hc_seq hc); Some (hc\<lparr>hc_seq := seq\<rparr>) }"

section \<open>Padding\<close>

text \<open>\<open>byte(int32(^t) >> 31)\<close> for a \<open>uint\<close> of 64 bits.\<close>

definition msb_mask :: "64 word \<Rightarrow> byte" where
  "msb_mask t = ucast (signed_drop_bit 31 (ucast (NOT t) :: 32 word))"

fun padding_loop :: "byte \<Rightarrow> bytes \<Rightarrow> nat \<Rightarrow> nat \<Rightarrow> byte \<Rightarrow> byte" where
  "padding_loop paddingLen payload 0 i good = good"
| "padding_loop paddingLen payload (Suc n) i good =
     (let msk = msb_mask (ucast paddingLen - word_of_nat i);
          b = payload ! (length payload - 1 - i)
      in padding_loop paddingLen payload n (i + 1) (good AND NOT ((msk AND paddingLen) XOR (msk AND b))))"

definition extractPadding :: "bytes \<Rightarrow> nat \<times> byte" where
  "extractPadding payload =
     (if length payload < 1 then (0, 0)
      else
        let paddingLen = payload ! (length payload - 1);
            good = msb_mask (word_of_nat (length payload - 1) - ucast paddingLen);
            toCheck = (if 256 > length payload then length payload else 256);
            good = padding_loop paddingLen payload toCheck 0 good;
            good = good AND push_bit 4 good;
            good = good AND push_bit 2 good;
            good = good AND push_bit 1 good;
            good = signed_drop_bit 7 good
        in (unat paddingLen + 1, good))"

definition extractPaddingSSL30 :: "bytes \<Rightarrow> nat \<times> byte" where
  "extractPaddingSSL30 payload =
     (if length payload < 1 then (0, 0)
      else
        let paddingLen = unat (payload ! (length payload - 1)) + 1
        in if paddingLen > length payload then (0, 0) else (paddingLen, 255))"

definition roundUp :: "nat \<Rightarrow> nat \<Rightarrow> nat" where
  "roundUp a b = a + (b - a mod b) mod b"

text \<open>\<open>None\<close> is the division by a block size of 0.\<close>

definition padToBlockSize :: "bytes \<Rightarrow> nat \<Rightarrow> (bytes \<times> bytes) option" where
  "padToBlockSize payload blockSize =
     (if blockSize = 0 then None
      else
        let overrun = length payload mod blockSize;
            paddingLen = blockSize - overrun;
            prefix = take (length payload - overrun) payload;
            finalBlock = copy_at 0 (drop (length payload - overrun) payload) (replicate blockSize 0);
            finalBlock = take overrun finalBlock @ replicate (blockSize - overrun) (word_of_nat (paddingLen - 1))
        in Some (prefix, finalBlock))"

section \<open>Decryption\<close>

text \<open>The additional data: the sequence number, the first three bytes of the header and the length, which the code takes
  from an \<open>int\<close> that may be negative.\<close>

definition additionalData :: "bytes \<Rightarrow> bytes \<Rightarrow> int \<Rightarrow> bytes option" where
  "additionalData seq data n = do {
     h \<leftarrow> slice_to data 3;
     let ad = copy_at 8 h (copy_at 0 seq (replicate 13 0));
     Some (ad[11 := word_of_int (drop_bit 8 n), 12 := word_of_int n]) }"

text \<open>What the switch on the cipher leaves: an alert with the state of the cipher, or the bytes in front of the payload,
  the payload, the length of the padding and whether the padding is good.\<close>

datatype 'c decrypted =
    DecAlert "'c rcipher option" byte
  | DecPayload "'c rcipher option" bytes bytes nat byte

definition decrypt_cipher :: "'c ciphers \<Rightarrow> 'c halfConn \<Rightarrow> bytes \<Rightarrow> bytes \<Rightarrow> nat \<Rightarrow> 'c decrypted option" where
  "decrypt_cipher E hc data payload macSize =
     (case hc_cipher hc of
        None \<Rightarrow> Some (DecPayload None [] payload 0 255)
      | Some (StreamCipher c) \<Rightarrow>
          (case XORKeyStream E c payload of (p, c') \<Rightarrow> Some (DecPayload (Some (StreamCipher c')) [] p 0 255))
      | Some (AeadCipher a) \<Rightarrow>
          let explicitIVLen = explicitNonceLen a in
          if length payload < explicitIVLen then Some (DecAlert (hc_cipher hc) alertBadRecordMAC)
          else
            let explicit = take explicitIVLen payload;
                payload = drop explicitIVLen payload;
                nonce = (if length explicit = 0 then hc_seq hc else explicit);
                n = int (length payload) - int (aead_Overhead E a)
            in do {
              ad \<leftarrow> additionalData (hc_seq hc) data n;
              (opened, a) \<leftarrow> aead_Open E a nonce payload ad;
              Some (case opened of
                      None \<Rightarrow> DecAlert (Some (AeadCipher a)) alertBadRecordMAC
                    | Some p \<Rightarrow> DecPayload (Some (AeadCipher a)) explicit p 0 255) }
      | Some (CbcCipher c) \<Rightarrow>
          let blockSize = cbc_BlockSize E c;
              explicitIVLen = (if VersionTLS11 \<le> hc_version hc \<or> hc_version hc = VersionGMSSL then blockSize else 0)
          in if blockSize = 0 then None
             else if length payload mod blockSize \<noteq> 0 \<or> length payload < roundUp (explicitIVLen + macSize + 1) blockSize
             then Some (DecAlert (hc_cipher hc) alertBadRecordMAC)
             else
               let c = (if explicitIVLen > 0 then SetIV E c (take explicitIVLen payload) else c) in
               (case CryptBlocks E c (drop explicitIVLen payload) of
                  (p, c') \<Rightarrow>
                    let (paddingLen, paddingGood) =
                          (if hc_version hc = VersionSSL30 then extractPaddingSSL30 p else extractPadding p)
                    in Some (DecPayload (Some (CbcCipher c')) (take explicitIVLen payload) p paddingLen paddingGood)))"

text \<open>\<open>subtle.ConstantTimeSelect(int(uint32(n)>>31), 0, n)\<close>\<close>

definition select_nonneg :: "int \<Rightarrow> int" where
  "select_nonneg n = (if drop_bit 31 (word_of_int n :: 32 word) = 1 then 0 else n)"

text \<open>The result: the half connection, the data of the block, and the length of the prefix or an alert.\<close>

definition decrypt :: "'c ciphers \<Rightarrow> 'c halfConn \<Rightarrow> bytes \<Rightarrow> ('c halfConn \<times> bytes \<times> (byte + nat)) option" where
  "decrypt E hc data = do {
     payload \<leftarrow> slice_from data recordHeaderLen;
     let header = take recordHeaderLen data;
     let macSize = (case hc_mac hc of None \<Rightarrow> 0 | Some f \<Rightarrow> mac_Size f);
     r \<leftarrow> decrypt_cipher E hc data payload macSize;
     (case r of
        DecAlert c a \<Rightarrow> Some (hc\<lparr>hc_cipher := c\<rparr>, data, Inl a)
      | DecPayload c explicit payload paddingLen paddingGood \<Rightarrow>
          let hc = hc\<lparr>hc_cipher := c\<rparr>; data = header @ explicit @ payload in
          (case hc_mac hc of
             None \<Rightarrow> do { hc \<leftarrow> incSeq hc; Some (hc, data, Inr (recordHeaderLen + length explicit)) }
           | Some f \<Rightarrow>
               if length payload < macSize then Some (hc, data, Inl alertBadRecordMAC)
               else
                 let n = nat (select_nonneg (int (length payload) - int macSize - int paddingLen));
                     header = header[3 := byte1 n, 4 := byte0 n]
                 in do {
                   remoteMAC \<leftarrow> slice_between payload n (n + macSize);
                   content \<leftarrow> slice_to payload n;
                   extra \<leftarrow> slice_from payload (n + macSize);
                   localMAC \<leftarrow> mac_MAC f (hc_seq hc) header content extra;
                   let data = header @ explicit @ payload;
                   if localMAC \<noteq> remoteMAC \<or> paddingGood \<noteq> 255 then Some (hc, data, Inl alertBadRecordMAC)
                   else do {
                     hc \<leftarrow> incSeq hc;
                     Some (hc, take (recordHeaderLen + length explicit + n) data, Inr (recordHeaderLen + length explicit)) } })) }"

section \<open>Encryption\<close>

text \<open>\<open>b.resize(n)\<close> for a longer \<open>n\<close>.\<close>

definition grow :: "nat \<Rightarrow> bytes \<Rightarrow> bytes" where
  "grow n data = data @ replicate (n - length data) 0"

definition encrypt_cipher :: "'c ciphers \<Rightarrow> 'c halfConn \<Rightarrow> bytes \<Rightarrow> nat \<Rightarrow> ('c rcipher option \<times> bytes) option" where
  "encrypt_cipher E hc data explicitIVLen =
     (case hc_cipher hc of
        None \<Rightarrow> Some (None, data)
      | Some (StreamCipher c) \<Rightarrow> do {
          payload \<leftarrow> slice_from data recordHeaderLen;
          let (p, c') = XORKeyStream E c payload;
          Some (Some (StreamCipher c'), copy_at recordHeaderLen p data) }
      | Some (AeadCipher a) \<Rightarrow> do {
          payload \<leftarrow> slice_from data (recordHeaderLen + explicitIVLen);
          let data = grow (length data + aead_Overhead E a) data;
          explicit \<leftarrow> slice_between data recordHeaderLen (recordHeaderLen + explicitIVLen);
          let nonce = (if length explicit = 0 then hc_seq hc else explicit);
          ad \<leftarrow> additionalData (hc_seq hc) data (int (length payload));
          (sealed, a) \<leftarrow> aead_Seal E a nonce payload ad;
          Some (Some (AeadCipher a), copy_at (recordHeaderLen + explicitIVLen) sealed data) }
      | Some (CbcCipher c) \<Rightarrow> do {
          payload \<leftarrow> slice_from data recordHeaderLen;
          iv \<leftarrow> slice_to payload explicitIVLen;
          let c = (if explicitIVLen > 0 then SetIV E c iv else c);
          payload \<leftarrow> slice_from payload explicitIVLen;
          (prefix, finalBlock) \<leftarrow> padToBlockSize payload (cbc_BlockSize E c);
          let data = grow (recordHeaderLen + explicitIVLen + length prefix + length finalBlock) data;
          let (p1, c1) = CryptBlocks E c prefix;
          let data = copy_at (recordHeaderLen + explicitIVLen) p1 data;
          let (p2, c2) = CryptBlocks E c1 finalBlock;
          let data = copy_at (recordHeaderLen + explicitIVLen + length prefix) p2 data;
          Some (Some (CbcCipher c2), data) })"

definition encrypt :: "'c ciphers \<Rightarrow> 'c halfConn \<Rightarrow> bytes \<Rightarrow> nat \<Rightarrow> ('c halfConn \<times> bytes) option" where
  "encrypt E hc data explicitIVLen = do {
     data \<leftarrow> (case hc_mac hc of
                None \<Rightarrow> Some data
              | Some f \<Rightarrow> do {
                  header \<leftarrow> slice_to data recordHeaderLen;
                  content \<leftarrow> slice_from data (recordHeaderLen + explicitIVLen);
                  m \<leftarrow> mac_MAC f (hc_seq hc) header content [];
                  Some (data @ m) });
     (c, data) \<leftarrow> encrypt_cipher E hc data explicitIVLen;
     _ \<leftarrow> at_idx data 4;
     let n = length data - recordHeaderLen;
     let data = data[3 := byte1 n, 4 := byte0 n];
     hc \<leftarrow> incSeq (hc\<lparr>hc_cipher := c\<rparr>);
     Some (hc, data) }"

end
