(* ===== verification/TlsRecordLaws.thy ===== *)
theory TlsRecordLaws
  imports TlsRecord
begin

section \<open>The sequence number\<close>

lemma unat_byte_succ: "unat (b + 1 :: byte) = (unat b + 1) mod 256"
  by (simp add: unat_word_ariths)

lemma byte_succ_0:
  assumes "b + 1 = (0 :: byte)" shows "unat b = 255"
proof -
  have "(unat b + 1) mod 256 = 0" using assms unat_byte_succ [of b] by simp
  then show ?thesis using unat_byte_less [of b] by (cases "unat b + 1 = 256") auto
qed

lemma byte_succ:
  assumes "b + 1 \<noteq> (0 :: byte)" shows "unat (b + 1) = unat b + 1"
proof -
  have "unat (b + 1) \<noteq> 0" using assms by (simp add: unat_eq_zero)
  then have "unat b + 1 \<noteq> 256" using unat_byte_succ [of b] by auto
  then show ?thesis using unat_byte_succ [of b] unat_byte_less [of b] by simp
qed

lemma incSeq_loop_correct:
  "i \<le> length seq \<Longrightarrow> seq = p @ q \<Longrightarrow> length p = i \<Longrightarrow>
   incSeq_loop i seq = (if be_to_nat p + 1 < 256 ^ i then Some (be_fixed i (be_to_nat p + 1) @ q) else None)"
proof (induction i arbitrary: seq p q)
  case 0
  then show ?case by simp
next
  case (Suc i)
  then obtain p' b where p: "p = p' @ [b]" and p': "length p' = i"
    by (metis length_Suc_conv_rev)
  have upd: "seq[i := seq ! i + 1] = p' @ (b + 1) # q" and nth: "seq ! i = b"
    using Suc.prems p p' by (auto simp: list_update_append nth_append)
  have be: "be_to_nat p = be_to_nat p' * 256 + unat b" by (simp add: p)
  have bound: "be_to_nat p' < 256 ^ i" using be_to_nat_bound [of p'] p' by simp
  show ?case
  proof (cases "b + 1 = 0")
    case True
    then have b: "unat b = 255" by (rule byte_succ_0)
    have "incSeq_loop (Suc i) seq = incSeq_loop i (p' @ (b + 1) # q)"
      using True upd nth p' by (simp add: Let_def nth_append)
    also have "\<dots> = (if be_to_nat p' + 1 < 256 ^ i then Some (be_fixed i (be_to_nat p' + 1) @ (b + 1) # q) else None)"
      using p' by (intro Suc.IH) simp_all
    also have "\<dots> = (if be_to_nat p + 1 < 256 ^ Suc i then Some (be_fixed (Suc i) (be_to_nat p + 1) @ q) else None)"
      using True be b by simp
    finally show ?thesis .
  next
    case False
    then have b: "unat (b + 1) = unat b + 1" by (rule byte_succ)
    then have "unat b + 1 < 256" using unat_byte_less [of "b + 1"] by simp
    then have lt: "be_to_nat p + 1 < 256 ^ Suc i" and dm: "(be_to_nat p + 1) div 256 = be_to_nat p'"
      "(be_to_nat p + 1) mod 256 = unat (b + 1)"
      using be bound b by simp_all
    have "be_fixed (Suc i) (be_to_nat p + 1) = p' @ [b + 1]"
      using dm p' by (simp add: be_fixed_be_to_nat)
    then show ?thesis using False upd nth p' lt by (simp add: Let_def nth_append)
  qed
qed

lemma incSeq_correct:
  assumes "length (hc_seq hc) = 8"
  shows "incSeq hc = (if be_to_nat (hc_seq hc) + 1 < 2 ^ 64 then Some (hc\<lparr>hc_seq := be_fixed 8 (be_to_nat (hc_seq hc) + 1)\<rparr>) else None)"
  using incSeq_loop_correct [of 8 "hc_seq hc" "hc_seq hc" "[]"] assms by (simp add: incSeq_def)

section \<open>Padding\<close>

lemma signed_drop_all: "signed_drop_bit 31 (w :: 32 word) = (if bit w 31 then - 1 else 0)"
  by (rule bit_word_eqI) (simp add: bit_signed_drop_bit_iff min_def not_le)

lemma msb_mask_bit: "msb_mask t = (if bit t 31 then 0 else 255)"
proof -
  have "bit (ucast (NOT t) :: 32 word) 31 = (\<not> bit t 31)" by (simp add: bit_unsigned_iff bit_not_iff)
  moreover have "(ucast (- 1 :: 32 word) :: byte) = 255" by (simp add: unsigned_minus_1_eq_mask mask_eq_exp_minus_1)
  ultimately show ?thesis by (simp add: msb_mask_def signed_drop_all)
qed

lemma bit31_difference:
  assumes "a < 2147483648" and "b < 2147483648"
  shows "bit (word_of_nat a - word_of_nat b :: 64 word) 31 \<longleftrightarrow> a < b"
proof -
  have "bit (word_of_int (int a - int b) :: 64 word) 31 \<longleftrightarrow> bit (int a - int b) 31"
    by (simp add: bit_word_of_int_iff del: of_int_diff)
  moreover have "(word_of_nat a - word_of_nat b :: 64 word) = word_of_int (int a - int b)" by simp
  moreover have "bit (int a - int b) 31 \<longleftrightarrow> a < b"
  proof (cases "a < b")
    case True
    have "(int a - int b) div 2 ^ 31 = - 1" using True assms by (intro int_div_pos_eq [of _ _ _ "int a - int b + 2 ^ 31"]) simp_all
    then have "bit (int a - int b) 31" by (simp only: bit_iff_odd) simp
    then show ?thesis using True by simp
  next
    case False
    have "(int a - int b) div 2 ^ 31 = 0" using False assms by (intro div_pos_pos_trivial) simp_all
    then have "\<not> bit (int a - int b) 31" by (simp only: bit_iff_odd) simp
    then show ?thesis using False by simp
  qed
  ultimately show ?thesis by (simp only:)
qed

lemma byte_255_bits: "g = 255 \<longleftrightarrow> (\<forall>i < 8. bit (g :: byte) i)"
proof
  assume "g = 255"
  then have "g = mask 8" by (simp add: mask_eq_exp_minus_1)
  then show "\<forall>i < 8. bit g i" by (simp add: bit_mask_iff)
next
  assume "\<forall>i < 8. bit g i"
  then have "g = mask 8" by (intro bit_word_eqI) (simp add: bit_mask_iff)
  then show "g = 255" by (simp add: mask_eq_exp_minus_1)
qed

lemma signed_drop_7: "signed_drop_bit 7 (g :: byte) = (if bit g 7 then 255 else 0)"
proof (cases "bit g 7")
  case True
  then have "\<forall>i < 8. bit (signed_drop_bit 7 g) i" by (auto simp: bit_signed_drop_bit_iff Suc_le_eq)
  then show ?thesis using True byte_255_bits by simp
next
  case False
  then show ?thesis by (intro bit_word_eqI) (auto simp: bit_signed_drop_bit_iff Suc_le_eq)
qed

lemma all_bits: "(\<forall>i < 8. P i) \<longleftrightarrow> P 0 \<and> P 1 \<and> P 2 \<and> P 3 \<and> P 4 \<and> P 5 \<and> P 6 \<and> P (7 :: nat)"
  by (simp add: numeral_eq_Suc All_less_Suc) blast

lemma fold_and:
  fixes g :: byte
  defines "g1 \<equiv> g AND push_bit 4 g"
  defines "g2 \<equiv> g1 AND push_bit 2 g1"
  shows "signed_drop_bit 7 (g2 AND push_bit 1 g2) = (if g = 255 then 255 else 0)"
proof -
  have "bit (g2 AND push_bit 1 g2) 7 \<longleftrightarrow> (\<forall>i < 8. bit g i)"
    unfolding all_bits g2_def g1_def by (simp only: bit_and_iff bit_push_bit_iff) auto
  then show ?thesis by (simp add: signed_drop_7 byte_255_bits)
qed

lemma msb_mask_difference:
  "a < 2147483648 \<Longrightarrow> b < 2147483648 \<Longrightarrow> msb_mask (word_of_nat a - word_of_nat b) = (if a < b then 0 else 255)"
  by (simp add: msb_mask_bit bit31_difference)

lemma msb_mask_byte: "i < 2147483648 \<Longrightarrow> msb_mask (ucast (p :: byte) - word_of_nat i) = (if unat p < i then 0 else 255)"
  using msb_mask_difference [of "unat p" i] unat_byte_less [of p] by simp

lemma and_not_255: "g AND NOT x = 255 \<longleftrightarrow> g = 255 \<and> x = (0 :: byte)"
proof -
  have "x = 0 \<longleftrightarrow> (\<forall>i < 8. \<not> bit x i)" by (auto intro: bit_word_eqI)
  then show ?thesis by (auto simp: byte_255_bits bit_and_iff bit_not_iff)
qed

lemma masked_equal: "(m AND p) XOR (m AND b) = (0 :: byte) \<longleftrightarrow> m AND (p XOR b) = 0"
  by (simp add: bit.conj_xor_distrib)

lemma xor_eq_0: "p XOR b = (0 :: byte) \<longleftrightarrow> b = p"
  by (auto simp: bit_eq_iff bit_xor_iff)

lemma padding_loop_correct:
  "i + n \<le> 256 \<Longrightarrow> padding_loop p payload n i good = 255 \<longleftrightarrow>
     good = 255 \<and> (\<forall>j. i \<le> j \<and> j < i + n \<and> j \<le> unat p \<longrightarrow> payload ! (length payload - 1 - j) = p)"
proof (induction n arbitrary: i good)
  case 0
  show ?case by auto
next
  case (Suc n)
  let ?b = "payload ! (length payload - 1 - i)"
  let ?m = "msb_mask (ucast p - word_of_nat i)"
  have m: "?m = (if unat p < i then 0 else 255)" using Suc.prems by (intro msb_mask_byte) simp
  have all: "x AND 255 = (x :: byte)" "255 AND x = x" for x
    using byte_255_bits [of 255] by (auto intro!: bit_word_eqI simp: bit_and_iff)
  have "padding_loop p payload (Suc n) i good = 255 \<longleftrightarrow>
      good AND NOT ((?m AND p) XOR (?m AND ?b)) = 255 \<and>
      (\<forall>j. i + 1 \<le> j \<and> j < i + 1 + n \<and> j \<le> unat p \<longrightarrow> payload ! (length payload - 1 - j) = p)"
    using Suc.IH [of "i + 1"] Suc.prems by (simp add: Let_def)
  also have "good AND NOT ((?m AND p) XOR (?m AND ?b)) = 255 \<longleftrightarrow> good = 255 \<and> (i \<le> unat p \<longrightarrow> ?b = p)"
    unfolding and_not_255 masked_equal m by (auto simp: all xor_eq_0)
  finally show ?case
    by (metis (no_types, opaque_lifting) Suc_eq_plus1 add_Suc_right add_Suc le_eq_less_or_eq less_eq_Suc_le less_add_Suc1 not_less_eq_eq)
qed

text \<open>The constant-time check is the direct one.\<close>

lemma extractPadding_correct:
  assumes "length payload < 2147483648"
  shows "extractPadding payload =
    (if payload = [] then (0, 0)
     else let p = last payload in
       (unat p + 1, if unat p < length payload \<and> (\<forall>j \<le> unat p. payload ! (length payload - 1 - j) = p) then 255 else 0))"
proof (cases "payload = []")
  case False
  let ?n = "length payload"
  define p where "p = payload ! (?n - 1)"
  define toCheck where "toCheck = (if 256 > ?n then ?n else 256)"
  define good where "good = padding_loop p payload toCheck 0 (msb_mask (word_of_nat (?n - 1) - ucast p))"
  have p: "last payload = p" using False by (simp add: p_def last_conv_nth)
  have up: "unat p < 256" by (rule unat_byte_less)
  have "msb_mask (word_of_nat (?n - 1) - ucast p) = (if ?n - 1 < unat p then 0 else 255)"
    using msb_mask_difference [of "?n - 1" "unat p"] assms up by simp
  then have "good = 255 \<longleftrightarrow> \<not> ?n - 1 < unat p \<and> (\<forall>j. j < toCheck \<and> j \<le> unat p \<longrightarrow> payload ! (?n - 1 - j) = p)"
    using padding_loop_correct [of 0 toCheck p payload] by (simp add: good_def toCheck_def)
  also have "\<dots> \<longleftrightarrow> unat p < ?n \<and> (\<forall>j \<le> unat p. payload ! (?n - 1 - j) = p)"
    using False up by (cases payload) (auto simp: toCheck_def)
  finally have good: "good = 255 \<longleftrightarrow> unat p < ?n \<and> (\<forall>j \<le> unat p. payload ! (?n - 1 - j) = p)" .
  have "extractPadding payload = (unat p + 1, if good = 255 then 255 else 0)"
    using False fold_and [of good] unfolding extractPadding_def Let_def p_def [symmetric]
    by (simp add: good_def toCheck_def)
  then show ?thesis using False by (simp add: p good Let_def)
qed (simp add: extractPadding_def)

end
