(* ===== verification/TlsRecordRound.thy ===== *)
theory TlsRecordRound
  imports TlsRecordLaws
begin

text \<open>
  What one half connection encrypts, a half connection in step with it decrypts. The locale \<open>record_ciphers\<close> says
  what the record layer relies on of the ciphers of the Go library: three relations between the object of the writer
  and the object of the reader, one for each kind of cipher.
\<close>

section \<open>Slices of a record\<close>

lemma copy_at_onto: "length p = i \<Longrightarrow> length b = length x \<Longrightarrow> copy_at i b (p @ x) = p @ b"
  by (simp add: copy_at_def)

lemma copy_at_inside: "length p = i \<Longrightarrow> length b = length x \<Longrightarrow> copy_at i b (p @ x @ y) = p @ b @ y"
  by (simp add: copy_at_def)

lemma additionalData_header:
  assumes "length h = 5" "length h' = 5" "take 3 h = take 3 h'"
  shows "additionalData seq (h @ x) n = additionalData seq (h' @ x') n" and "\<exists>ad. additionalData seq (h @ x) n = Some ad"
  using assms by (simp_all add: additionalData_def slice_to_def)

section \<open>The wrappers of the ciphers with authentication\<close>

lemma xor_mask_eq:
  "length p = 4 + i \<Longrightarrow> length q = length bs \<Longrightarrow> xor_mask i bs (p @ q @ r) = Some (p @ map2 (XOR) q bs @ r)"
proof (induction bs arbitrary: i p q)
  case (Cons b bs)
  then obtain x q' where q: "q = x # q'" and l: "length q' = length bs" by (auto simp: length_Suc_conv)
  have "(p @ q @ r)[4 + i := (p @ q @ r) ! (4 + i) XOR b] = (p @ [x XOR b]) @ q' @ r"
    using Cons.prems by (simp add: q list_update_append nth_append)
  then have "xor_mask i (b # bs) (p @ q @ r) = xor_mask (i + 1) bs ((p @ [x XOR b]) @ q' @ r)"
    using Cons.prems by (simp add: q)
  also have "\<dots> = Some ((p @ [x XOR b]) @ map2 (XOR) q' bs @ r)" using Cons.prems l by (intro Cons.IH) simp_all
  finally show ?case by (simp add: q)
qed simp

lemma map2_xor_twice: "length q = length bs \<Longrightarrow> map2 (XOR) (map2 (XOR) q bs) bs = (q :: bytes)"
  by (rule nth_equalityI) (simp_all add: xor.assoc)

lemma xor_mask_there_and_back:
  assumes "4 + length bs \<le> length nm"
  obtains nm' where "xor_mask 0 bs nm = Some nm'" and "xor_mask 0 bs nm' = Some nm" and "length nm' = length nm"
proof -
  define p q r where "p = take 4 nm" and "q = take (length bs) (drop 4 nm)" and "r = drop (4 + length bs) nm"
  have nm: "nm = p @ q @ r"
    by (simp add: p_def q_def r_def) (metis add.commute append_take_drop_id drop_drop)
  have l: "length p = 4 + 0" "length q = length bs" using assms by (simp_all add: p_def q_def)
  have "length (map2 (XOR) q bs) = length bs" using l by simp
  then have "xor_mask 0 bs (p @ map2 (XOR) q bs @ r) = Some nm"
    using xor_mask_eq [OF l(1), of "map2 (XOR) q bs" bs r] map2_xor_twice [OF l(2)] nm by simp
  then show ?thesis using that [of "p @ map2 (XOR) q bs @ r"] xor_mask_eq [OF l] l nm by simp
qed

section \<open>Padding\<close>

definition padding :: "nat \<Rightarrow> bytes" where
  "padding k = replicate (Suc k) (word_of_nat k)"

lemma padToBlockSize_eq:
  assumes "0 < bs"
  obtains p f k where "padToBlockSize pay bs = Some (p, f)" and "p @ f = pay @ padding k"
    and "bs dvd length p" and "length f = bs" and "k < bs"
proof -
  let ?o = "length pay mod bs"
  define k where "k = bs - ?o - 1"
  have o: "?o < bs" "?o \<le> length pay" using assms by simp_all
  then have k: "bs - ?o = Suc k" "k < bs" by (simp_all add: k_def)
  let ?p = "take (length pay - ?o) pay" and ?f = "drop (length pay - ?o) pay @ padding k"
  have d: "length (drop (length pay - ?o) pay) = ?o" using o by simp
  have "take ?o (copy_at 0 (drop (length pay - ?o) pay) (replicate bs (0 :: byte))) = drop (length pay - ?o) pay"
    using o d by (simp add: copy_at_def)
  then have "padToBlockSize pay bs = Some (?p, ?f)"
    using assms by (simp only: padToBlockSize_def Let_def k padding_def diff_Suc_1) simp
  moreover have "bs dvd length ?p" by (simp add: dvd_minus_mod)
  moreover have "length ?f = bs" using o k by (simp add: padding_def)
  ultimately show ?thesis using that [of ?p ?f k] k by simp
qed

lemma extractPadding_padded:
  assumes "k < 256" "length pay + k + 1 < 2147483648"
  shows "extractPadding (pay @ padding k) = (Suc k, 255)"
    and "extractPaddingSSL30 (pay @ padding k) = (Suc k, 255)"
proof -
  let ?x = "pay @ padding k"
  have ne: "?x \<noteq> []" and l: "last ?x = word_of_nat k" and n: "length ?x = length pay + Suc k"
    by (simp_all add: padding_def)
  have u: "unat (word_of_nat k :: byte) = k" using assms by (simp add: unat_of_nat take_bit_nat_eq_self)
  have at: "?x ! (length ?x - 1 - j) = word_of_nat k" if "j \<le> k" for j
  proof -
    have "length ?x - 1 - j = length pay + (k - j)" using that n by simp
    then show ?thesis by (simp only: nth_append_length_plus) (simp add: padding_def del: replicate_Suc)
  qed
  have "extractPadding ?x = (unat (last ?x) + 1,
      if unat (last ?x) < length ?x \<and> (\<forall>j \<le> unat (last ?x). ?x ! (length ?x - 1 - j) = last ?x) then 255 else 0)"
    using extractPadding_correct [of ?x] ne assms n by (simp only: if_False Let_def)
  then show "extractPadding ?x = (Suc k, 255)"
    unfolding l u using at by (simp add: n del: length_append)
  have "?x ! (length ?x - 1) = word_of_nat k" using at [of 0] by simp
  then show "extractPaddingSSL30 ?x = (Suc k, 255)"
    using u n by (simp add: extractPaddingSSL30_def Let_def del: length_append)
qed

lemma roundUp_le: "b dvd n \<Longrightarrow> a \<le> n \<Longrightarrow> 0 < b \<Longrightarrow> roundUp a b \<le> n"
proof -
  assume d: "b dvd n" and le: "a \<le> n" and b: "0 < b"
  have "b dvd roundUp a b"
  proof (cases "a mod b = 0")
    case False
    have "(b - a mod b) mod b = b - a mod b" using False b by simp
    then have "roundUp a b = a + (b - a mod b)" by (simp only: roundUp_def)
    also have "\<dots> = (a div b) * b + b"
      using mod_less_divisor [OF b, of a] div_mult_mod_eq [of a b] by linarith
    finally have "roundUp a b = (a div b) * b + b" .
    then show ?thesis by simp
  qed (simp add: roundUp_def mod_0_imp_dvd)
  then obtain q where q: "roundUp a b = b * q" ..
  obtain m where m: "n = b * m" using d ..
  have "roundUp a b < a + b" using b by (simp add: roundUp_def)
  then have "b * q < b * (m + 1)" using q m le by simp
  then have "q \<le> m" using b by (simp del: mult_Suc_right)
  then show ?thesis using q m by simp
qed

lemma select_nonneg_small: "n < 2147483648 \<Longrightarrow> select_nonneg (int n) = int n"
proof -
  assume n: "n < 2147483648"
  have u: "unat (word_of_int (int n) :: 32 word) = n" using n by (simp add: unat_of_nat take_bit_nat_eq_self)
  have "unat (drop_bit 31 (word_of_int (int n) :: 32 word)) = drop_bit 31 (unat (word_of_int (int n) :: 32 word))"
    by (rule unat_drop_bit_eq)
  then have "unat (drop_bit 31 (word_of_int (int n) :: 32 word)) = 0" using n unfolding u by (simp add: drop_bit_eq_div)
  then have "drop_bit 31 (word_of_int (int n) :: 32 word) = 0" by (simp only: unat_eq_zero)
  then show ?thesis by (simp add: select_nonneg_def)
qed

section \<open>Ciphers in step\<close>

locale record_ciphers =
  fixes E :: "'c ciphers"
    and stream_sync :: "'c \<Rightarrow> 'c \<Rightarrow> bool"
    and aead_sync :: "'c \<Rightarrow> 'c \<Rightarrow> bool"
    and cbc_sync :: "'c \<Rightarrow> 'c \<Rightarrow> bool"
  assumes stream_step: "stream_sync c d \<Longrightarrow> XORKeyStream E c p = (q, c') \<Longrightarrow>
      length q = length p \<and> (\<exists>d'. XORKeyStream E d q = (p, d') \<and> stream_sync c' d')"
    and aead_open: "aead_sync c d \<Longrightarrow> Open E d nonce (Seal E c nonce p ad) ad = Some p"
    and aead_overhead: "aead_sync c d \<Longrightarrow> Overhead E d = Overhead E c"
    and aead_length: "aead_sync c d \<Longrightarrow> length (Seal E c nonce p ad) = length p + Overhead E c"
    and cbc_block: "cbc_sync c d \<Longrightarrow> cbc_BlockSize E d = cbc_BlockSize E c \<and> 0 < cbc_BlockSize E c \<and> cbc_BlockSize E c \<le> 256"
    and cbc_iv: "cbc_sync c d \<Longrightarrow> length iv = cbc_BlockSize E c \<Longrightarrow>
      cbc_sync (SetIV E c iv) (SetIV E d iv) \<and> cbc_BlockSize E (SetIV E c iv) = cbc_BlockSize E c"
    and cbc_step: "cbc_sync c d \<Longrightarrow> cbc_BlockSize E c dvd length p \<Longrightarrow> CryptBlocks E c p = (q, c') \<Longrightarrow>
      length q = length p \<and> cbc_BlockSize E c' = cbc_BlockSize E c \<and> (\<exists>d'. CryptBlocks E d q = (p, d') \<and> cbc_sync c' d')"
    and cbc_append: "cbc_sync c d \<Longrightarrow> cbc_BlockSize E c dvd length q1 \<Longrightarrow> cbc_BlockSize E c dvd length q2 \<Longrightarrow>
      CryptBlocks E d q1 = (p1, d1) \<Longrightarrow> CryptBlocks E d1 q2 = (p2, d2) \<Longrightarrow> CryptBlocks E d (q1 @ q2) = (p1 @ p2, d2)"
begin

fun in_step :: "'c rcipher option \<Rightarrow> 'c rcipher option \<Rightarrow> bool" where
  "in_step None None = True"
| "in_step (Some (StreamCipher c)) (Some (StreamCipher d)) = stream_sync c d"
| "in_step (Some (AeadCipher (FixedNonceAEAD f c))) (Some (AeadCipher (FixedNonceAEAD g d))) =
     (length f = 12 \<and> length g = 12 \<and> take 4 f = take 4 g \<and> aead_sync c d)"
| "in_step (Some (AeadCipher (XorNonceAEAD f c))) (Some (AeadCipher (XorNonceAEAD g d))) = (length f = 12 \<and> f = g \<and> aead_sync c d)"
| "in_step (Some (CbcCipher c)) (Some (CbcCipher d)) = cbc_sync c d"
| "in_step _ _ = False"

text \<open>The length of the explicit vector that the writer of a record chooses for a half connection.\<close>

definition explicit_length :: "'c halfConn \<Rightarrow> nat" where
  "explicit_length hc =
     (case hc_cipher hc of
        Some (CbcCipher c) \<Rightarrow>
          (if VersionTLS11 \<le> hc_version hc \<or> hc_version hc = VersionGMSSL then cbc_BlockSize E c else 0)
      | Some (AeadCipher a) \<Rightarrow> explicitNonceLen a
      | _ \<Rightarrow> 0)"

lemma aead_there_and_back:
  assumes "in_step (Some (AeadCipher a)) (Some (AeadCipher b))" and "length nonce = 8"
  obtains s a' b' where "aead_Seal E a nonce p ad = Some (s, a')" and "aead_Open E b nonce s ad = Some (Some p, b')"
    and "length s = length p + aead_Overhead E a" and "in_step (Some (AeadCipher a')) (Some (AeadCipher b'))"
proof (cases a)
  case (FixedNonceAEAD f c)
  then obtain g d where b: "b = FixedNonceAEAD g d" and l: "length f = 12" "length g = 12" "take 4 f = take 4 g" "aead_sync c d"
    using assms(1) by (cases b) auto
  have e: "copy_at 4 nonce f = take 4 f @ nonce" "copy_at 4 nonce g = take 4 f @ nonce"
    using l assms(2) by (simp_all add: copy_at_def)
  show ?thesis
    using that [of "Seal E c (take 4 f @ nonce) p ad" "FixedNonceAEAD (take 4 f @ nonce) c" "FixedNonceAEAD (take 4 f @ nonce) d"]
      l assms(2) aead_open [OF l(4)] aead_length [OF l(4)]
    by (simp add: aead_Seal_def aead_Open_def aead_Overhead_def FixedNonceAEAD b e Let_def)
next
  case (XorNonceAEAD f c)
  then obtain d where b: "b = XorNonceAEAD f d" and l: "length f = 12" "aead_sync c d"
    using assms(1) by (cases b) auto
  obtain nm where nm: "xor_mask 0 nonce f = Some nm" "xor_mask 0 nonce nm = Some f"
    using xor_mask_there_and_back [of nonce f] l assms(2) by auto
  show ?thesis
    using that [of "Seal E c nm p ad" a b] l aead_open [OF l(2)] aead_length [OF l(2)]
    by (simp add: aead_Seal_def aead_Open_def aead_Overhead_def XorNonceAEAD b nm Let_def)
qed

lemma aead_sizes:
  "in_step (Some (AeadCipher a)) (Some (AeadCipher b)) \<Longrightarrow>
   explicitNonceLen b = explicitNonceLen a \<and> aead_Overhead E b = aead_Overhead E a"
  by (cases a; cases b) (auto simp: explicitNonceLen_def aead_Overhead_def aead_overhead)

lemma cbc_there_and_back:
  assumes "cbc_sync c d" and "cbc_BlockSize E c dvd length p" and "cbc_BlockSize E c dvd length f"
  obtains q1 c1 q2 c2 d2 where "CryptBlocks E c p = (q1, c1)" and "CryptBlocks E c1 f = (q2, c2)"
    and "CryptBlocks E d (q1 @ q2) = (p @ f, d2)" and "length q1 = length p" and "length q2 = length f" and "cbc_sync c2 d2"
proof -
  obtain q1 c1 where q1: "CryptBlocks E c p = (q1, c1)" by (cases "CryptBlocks E c p")
  then obtain d1 where d1: "length q1 = length p" "cbc_BlockSize E c1 = cbc_BlockSize E c"
      "CryptBlocks E d q1 = (p, d1)" "cbc_sync c1 d1"
    using cbc_step [OF assms(1,2)] by blast
  obtain q2 c2 where q2: "CryptBlocks E c1 f = (q2, c2)" by (cases "CryptBlocks E c1 f")
  then obtain d2 where d2: "length q2 = length f" "CryptBlocks E d1 q2 = (f, d2)" "cbc_sync c2 d2"
    using cbc_step [OF d1(4)] assms(3) d1(2) by metis
  have "CryptBlocks E d (q1 @ q2) = (p @ f, d2)"
    using assms d1 d2 by (intro cbc_append [OF assms(1)]) simp_all
  then show ?thesis using that q1 q2 d1(1) d2 by blast
qed

end

end
