(* ===== verification/TlsRecordStep.thy ===== *)
theory TlsRecordStep
  imports TlsRecordRound
begin

text \<open>One record: what \<open>encrypt\<close> makes of it, \<open>decrypt\<close> turns back, and both sides stay in step. First the three kinds of cipher, then the MAC,
  the header and the sequence number.\<close>

section \<open>The ciphers\<close>

definition mac_ok :: "macFunction \<Rightarrow> bool" where
  "mac_ok f = (case f of
     Tls10MAC h n \<Rightarrow> (\<forall>x. length (h x) = n) \<and> n < 65536
   | Ssl30MAC h n key \<Rightarrow> (\<forall>x. length (h x) = n) \<and> n < 65536)"

lemma mac_MAC_ok:
  assumes "mac_ok f" and "length header = 5"
  obtains m where "\<And>extra. mac_MAC f seq header data extra = Some m" and "length m = mac_Size f"
proof (cases f)
  case (Ssl30MAC h n key)
  define pl where "pl = (if n = 20 then 40 else 48 :: nat)"
  have pl: "pl \<le> 48" by (simp add: pl_def)
  let ?m = "h (key @ take pl ssl30Pad2 @ h (key @ take pl ssl30Pad1 @ seq @ take 1 header @ subslice 3 5 header @ data))"
  have "mac_MAC f seq header data extra = Some ?m" for extra
    using assms pl by (simp add: mac_MAC_def Ssl30MAC ssl30MAC_MAC_def slice_to_def slice_between_def
        ssl30Pad1_def ssl30Pad2_def pl_def [symmetric] Let_def)
  then show ?thesis using that assms by (simp add: mac_ok_def mac_Size_def Ssl30MAC)
qed (use assms that in \<open>simp add: mac_MAC_def tls10MAC_MAC_def mac_ok_def mac_Size_def\<close>)

context record_ciphers begin

definition expansion :: "'c halfConn \<Rightarrow> nat" where
  "expansion hc =
     (case hc_cipher hc of
        Some (CbcCipher c) \<Rightarrow> cbc_BlockSize E c
      | Some (AeadCipher a) \<Rightarrow> aead_Overhead E a
      | _ \<Rightarrow> 0)"

definition is_cbc :: "'c halfConn \<Rightarrow> bool" where
  "is_cbc hc = (case hc_cipher hc of Some (CbcCipher c) \<Rightarrow> True | _ \<Rightarrow> False)"

lemma stream_case:
  assumes "hc_cipher out = Some (StreamCipher c)" and "in_step (hc_cipher out) (hc_cipher inn)" and "length h = 5"
  shows "\<exists>c' body d'. encrypt_cipher E out (h @ pay) 0 = Some (c', h @ body) \<and>
    (\<forall>h'. decrypt_cipher E inn (h' @ body) body macSize = Some (DecPayload d' [] pay 0 255)) \<and>
    in_step c' d' \<and> length body = length pay"
proof -
  obtain d where d: "hc_cipher inn = Some (StreamCipher d)" and s: "stream_sync c d"
    using assms(1,2) by (cases "hc_cipher inn" rule: option.exhaust; simp) (rename_tac r, case_tac r; simp)
  obtain q c' where q: "XORKeyStream E c pay = (q, c')" by (cases "XORKeyStream E c pay")
  then obtain d' where d': "length q = length pay" "XORKeyStream E d q = (pay, d')" "stream_sync c' d'"
    using stream_step [OF s] by blast
  have "encrypt_cipher E out (h @ pay) 0 = Some (Some (StreamCipher c'), h @ q)"
    using assms q d' by (simp add: encrypt_cipher_def recordHeaderLen_def slice_from_append copy_at_onto)
  moreover have "decrypt_cipher E inn (h' @ q) q macSize = Some (DecPayload (Some (StreamCipher d')) [] pay 0 255)" for h'
    using d d' by (simp add: decrypt_cipher_def)
  ultimately show ?thesis using d' by fastforce
qed

lemma aead_case:
  assumes "hc_cipher out = Some (AeadCipher a)" and "in_step (hc_cipher out) (hc_cipher inn)" and "length h = 5"
    and "hc_seq inn = hc_seq out" and "length (hc_seq out) = 8" and "length iv = explicitNonceLen a"
  shows "\<exists>c' body d'. encrypt_cipher E out (h @ iv @ pay) (length iv) = Some (c', h @ body) \<and>
    (\<forall>h'. length h' = 5 \<and> take 3 h' = take 3 h \<longrightarrow>
      decrypt_cipher E inn (h' @ body) body macSize = Some (DecPayload d' iv pay 0 255)) \<and>
    in_step c' d' \<and> length body = length iv + length pay + aead_Overhead E a"
proof -
  obtain b where b: "hc_cipher inn = Some (AeadCipher b)" and s: "in_step (Some (AeadCipher a)) (Some (AeadCipher b))"
    using assms(1,2) by (cases "hc_cipher inn" rule: option.exhaust; simp; cases a) (rename_tac r x y, case_tac r; simp)+
  define nonce where "nonce = (if length iv = 0 then hc_seq out else iv)"
  have nonce: "length nonce = 8"
    using assms(5,6) by (cases a) (auto simp: nonce_def explicitNonceLen_def)
  obtain ad where ad: "additionalData (hc_seq out) (h @ x) (int (length pay)) = Some ad" for x
    using additionalData_header [OF assms(3) assms(3) refl] by (metis (no_types))
  obtain sl a' b' where io: "aead_Seal E a nonce pay ad = Some (sl, a')" "aead_Open E b nonce sl ad = Some (Some pay, b')"
    "length sl = length pay + aead_Overhead E a" "in_step (Some (AeadCipher a')) (Some (AeadCipher b'))"
    using aead_there_and_back [OF s nonce] by blast
  have "encrypt_cipher E out (h @ iv @ pay) (length iv) = Some (Some (AeadCipher a'), h @ iv @ sl)"
  proof -
    have g: "grow (length (h @ iv @ pay) + aead_Overhead E a) (h @ iv @ pay) = h @ iv @ pay @ replicate (aead_Overhead E a) 0"
      by (simp add: grow_def)
    have "copy_at (5 + length iv) sl ((h @ iv) @ pay @ replicate (aead_Overhead E a) 0) = (h @ iv) @ sl"
      using assms(3) io(3) by (intro copy_at_onto) simp_all
    moreover have "slice_from (h @ iv @ pay) (5 + length iv) = Some pay"
      using assms(3) slice_from_append [of "h @ iv" "5 + length iv" pay] by simp
    moreover have "slice_between (h @ iv @ x) 5 (5 + length iv) = Some iv" for x
      using assms(3) by (simp add: slice_between_def subslice_def)
    ultimately show ?thesis
      unfolding encrypt_cipher_def assms(1) option.case rcipher.case recordHeaderLen_def
      using g ad io(1) by (cases "iv = []") (simp_all add: nonce_def del: length_append)
  qed
  moreover have "decrypt_cipher E inn (h' @ iv @ sl) (iv @ sl) macSize = Some (DecPayload (Some (AeadCipher b')) iv pay 0 255)"
    if h': "length h' = 5" "take 3 h' = take 3 h" for h'
  proof -
    have sizes: "explicitNonceLen b = length iv" "aead_Overhead E b = aead_Overhead E a"
      using aead_sizes [OF s] assms(6) by simp_all
    have n: "int (length sl) - int (aead_Overhead E a) = int (length pay)" using io(3) by simp
    have "additionalData (hc_seq out) (h' @ iv @ sl) (int (length pay)) = Some ad"
      using additionalData_header(1) [OF h'(1) assms(3) h'(2), where x = "iv @ sl" and x' = "[]"] ad [of "[]"] by simp
    then show ?thesis
      unfolding decrypt_cipher_def b option.case rcipher.case sizes Let_def
      using io(2) assms(4) n by (cases "iv = []") (simp_all add: nonce_def)
  qed
  ultimately show ?thesis using io(3,4) by (intro exI [of _ "Some (AeadCipher a')"] exI [of _ "iv @ sl"] exI [of _ "Some (AeadCipher b')"]) simp
qed

lemma cbc_case:
  assumes "hc_cipher out = Some (CbcCipher c)" and "in_step (hc_cipher out) (hc_cipher inn)" and "length h = 5"
    and "hc_version inn = hc_version out" and "length iv = explicit_length out"
    and "macSize \<le> length pay" and "length pay + 256 < 2147483648"
  shows "\<exists>c' body d' k. encrypt_cipher E out (h @ iv @ pay) (length iv) = Some (c', h @ body) \<and>
    (\<forall>h'. decrypt_cipher E inn (h' @ body) body macSize = Some (DecPayload d' iv (pay @ padding k) (Suc k) 255)) \<and>
    in_step c' d' \<and> length body = length iv + length pay + Suc k \<and> Suc k \<le> cbc_BlockSize E c"
proof -
  obtain d where d: "hc_cipher inn = Some (CbcCipher d)" and s: "cbc_sync c d"
    using assms(1,2) by (cases "hc_cipher inn" rule: option.exhaust; simp) (rename_tac r, case_tac r; simp)
  define bs where "bs = cbc_BlockSize E c"
  have bs: "cbc_BlockSize E d = bs" "0 < bs" "bs \<le> 256" using cbc_block [OF s] by (simp_all add: bs_def)
  define e where "e = length iv"
  have e: "e = (if VersionTLS11 \<le> hc_version out \<or> hc_version out = VersionGMSSL then bs else 0)"
    using assms(1,5) by (simp add: e_def explicit_length_def bs_def)
  then have e01: "e = 0 \<or> e = bs" and bse: "bs dvd e" by auto
  define c0 d0 where "c0 = (if e > 0 then SetIV E c iv else c)" and "d0 = (if e > 0 then SetIV E d iv else d)"
  have s0: "cbc_sync c0 d0" and bs0: "cbc_BlockSize E c0 = bs"
    using cbc_iv [OF s, of iv] s e01 by (auto simp: c0_def d0_def e_def bs_def)
  obtain p f k where pf: "padToBlockSize pay bs = Some (p, f)" "p @ f = pay @ padding k" "bs dvd length p" "length f = bs" "k < bs"
    using padToBlockSize_eq [OF bs(2)] by metis
  obtain q1 c1 q2 c2 d2 where q: "CryptBlocks E c0 p = (q1, c1)" "CryptBlocks E c1 f = (q2, c2)"
    "CryptBlocks E d0 (q1 @ q2) = (p @ f, d2)" "length q1 = length p" "length q2 = length f" "cbc_sync c2 d2"
    using cbc_there_and_back [OF s0, of p f] pf bs0 by (metis dvd_refl)
  have lpf: "length p + length f = length pay + Suc k"
    using arg_cong [OF pf(2), of length] by (simp add: padding_def)
  have "encrypt_cipher E out (h @ iv @ pay) (length iv) = Some (Some (CbcCipher c2), h @ iv @ q1 @ q2)"
  proof -
    define z where "z = replicate (length p + length f - length pay) (0 :: byte)"
    define u v where "u = take (length p) (pay @ z)" and "v = drop (length p) (pay @ z)"
    have uv: "pay @ z = u @ v" "length u = length q1" "length v = length q2"
    proof -
      show "pay @ z = u @ v" unfolding u_def v_def by (rule append_take_drop_id [symmetric])
      show "length u = length q1" "length v = length q2" using lpf q by (simp_all add: u_def v_def z_def)
    qed
    have g: "grow (5 + e + length p + length f) (h @ iv @ pay) = h @ iv @ u @ v"
      unfolding uv(1) [symmetric] using assms(3) by (simp add: grow_def z_def e_def)
    have w1: "copy_at (5 + e) q1 (h @ iv @ u @ v) = h @ iv @ q1 @ v"
      using copy_at_inside [of "h @ iv" "5 + e" q1 u v] assms(3) uv by (simp add: e_def)
    have w2: "copy_at (5 + e + length p) q2 (h @ iv @ q1 @ v) = h @ iv @ q1 @ q2"
      using copy_at_onto [of "h @ iv @ q1" "5 + e + length p" q2 v] assms(3) uv q by (simp add: e_def)
    have r: "slice_from (h @ iv @ pay) 5 = Some (iv @ pay)" "slice_to (iv @ pay) e = Some iv" "slice_from (iv @ pay) e = Some pay"
      using assms(3) by (simp_all add: slice_from_append slice_to_append e_def)
    show ?thesis
      unfolding encrypt_cipher_def assms(1) option.case rcipher.case recordHeaderLen_def e_def [symmetric] Let_def
      by (simp add: r c0_def [symmetric] bs0 pf(1) g q(1,2) w1 w2 del: length_append)
  qed
  moreover have "decrypt_cipher E inn (h' @ iv @ q1 @ q2) (iv @ q1 @ q2) macSize =
      Some (DecPayload (Some (CbcCipher d2)) iv (pay @ padding k) (Suc k) 255)" for h'
  proof -
    have n: "length (iv @ q1 @ q2) = e + length pay + Suc k" using q(4,5) lpf by (simp add: e_def)
    have "bs dvd e + (length p + length f)" using pf bse by simp
    then have dv: "bs dvd length (iv @ q1 @ q2)" using n lpf by (simp add: add.assoc)
    have "roundUp (e + macSize + 1) bs \<le> length (iv @ q1 @ q2)"
      using assms(6) n by (intro roundUp_le [OF dv _ bs(2)]) simp
    then have len: "\<not> (length (iv @ q1 @ q2) mod bs \<noteq> 0 \<or> length (iv @ q1 @ q2) < roundUp (e + macSize + 1) bs)"
      using dv by simp
    have x: "extractPadding (pay @ padding k) = (Suc k, 255)" "extractPaddingSSL30 (pay @ padding k) = (Suc k, 255)"
      using pf(5) bs(3) assms(7) by (simp_all add: extractPadding_padded)
    have x': "(if hc_version inn = VersionSSL30 then extractPaddingSSL30 (pay @ padding k) else extractPadding (pay @ padding k)) =
        (Suc k, 255)"
      by (simp only: x if_cancel)
    have v: "(if VersionTLS11 \<le> hc_version inn \<or> hc_version inn = VersionGMSSL then bs else 0) = e"
      using e assms(4) by simp
    have t: "take e (iv @ q1 @ q2) = iv" "drop e (iv @ q1 @ q2) = q1 @ q2" by (simp_all add: e_def)
    have d0': "(if e > 0 then SetIV E d (take e (iv @ q1 @ q2)) else d) = d0" by (simp only: t d0_def)
    show ?thesis
      unfolding decrypt_cipher_def d option.case rcipher.case bs(1) v Let_def
      using bs(2) len by (simp add: t d0' q(3) pf(2) x' del: length_append take_append drop_append append_assoc split del: if_split)
  qed
  moreover have "length (iv @ q1 @ q2) = length iv + length pay + Suc k" using q(4,5) lpf by simp
  ultimately show ?thesis
    using q(6) pf(5) bs_def by (intro exI [of _ "Some (CbcCipher c2)"] exI [of _ "iv @ q1 @ q2"] exI [of _ "Some (CbcCipher d2)"] exI [of _ k]) simp
qed

end

section \<open>The whole record\<close>

lemma header_shape:
  assumes "length h = 5" "h ! 3 = byte1 n" "h ! 4 = byte0 n"
  shows "h = take 3 h @ [byte1 n, byte0 n]"
proof -
  have "h = take 3 h @ drop 3 h" by simp
  also have "drop 3 h = [h ! 3, h ! 4]"
    using assms(1) by (simp add: Cons_nth_drop_Suc [symmetric] numeral_eq_Suc)
  finally show ?thesis using assms by simp
qed

lemma set_length:
  assumes "length h = 5"
  shows "(h @ body)[3 := a, 4 := b] = (take 3 h @ [a, b]) @ body"
proof -
  have "h = take 3 h @ [h ! 3, h ! 4]"
  proof -
    have "h = take 3 h @ drop 3 h" by simp
    also have "drop 3 h = [h ! 3, h ! 4]"
      using assms(1) by (simp add: Cons_nth_drop_Suc [symmetric] numeral_eq_Suc)
    finally show ?thesis .
  qed
  then obtain p x y where h: "h = p @ [x, y]" and p: "length p = 3" "take 3 h = p" using assms by auto
  show ?thesis unfolding p(2) using p(1) by (simp add: h list_update_append)
qed

context record_ciphers begin

definition hc_sync :: "'c halfConn \<Rightarrow> 'c halfConn \<Rightarrow> bool" where
  "hc_sync out inn \<longleftrightarrow> hc_version inn = hc_version out \<and> hc_mac inn = hc_mac out \<and> hc_seq inn = hc_seq out \<and>
     length (hc_seq out) = 8 \<and> (\<forall>f. hc_mac out = Some f \<longrightarrow> mac_ok f) \<and> (is_cbc out \<longrightarrow> hc_mac out \<noteq> None) \<and>
     in_step (hc_cipher out) (hc_cipher inn)"

definition mac_length :: "'c halfConn \<Rightarrow> nat" where
  "mac_length hc = (case hc_mac hc of None \<Rightarrow> 0 | Some f \<Rightarrow> mac_Size f)"

lemma cipher_step:
  assumes "hc_sync out inn" and "length h = 5" and "length iv = explicit_length out"
    and "macSize \<le> length pay" and "length pay + 256 < 2147483648"
  obtains c' body d' pad where "encrypt_cipher E out (h @ iv @ pay) (length iv) = Some (c', h @ body)"
    and "\<And>h'. length h' = 5 \<Longrightarrow> take 3 h' = take 3 h \<Longrightarrow>
      decrypt_cipher E inn (h' @ body) body macSize = Some (DecPayload d' iv (pay @ pad) (length pad) 255)"
    and "in_step c' d'" and "length body \<le> length iv + length pay + expansion out" and "is_cbc out \<or> pad = []"
    and "is_cbc (out\<lparr>hc_cipher := c'\<rparr>) = is_cbc out"
proof (cases "hc_cipher out")
  case None
  then have "hc_cipher inn = None" using assms(1) by (cases "hc_cipher inn") (auto simp: hc_sync_def)
  then show ?thesis
    using that [of None pay None "[]"] None assms(3)
    by (simp add: encrypt_cipher_def decrypt_cipher_def explicit_length_def is_cbc_def)
next
  case (Some r)
  have sync: "in_step (hc_cipher out) (hc_cipher inn)" "hc_version inn = hc_version out" "hc_seq inn = hc_seq out"
    "length (hc_seq out) = 8" using assms(1) by (simp_all add: hc_sync_def)
  show ?thesis
  proof (cases r)
    case (StreamCipher c)
    then have iv: "iv = []" using Some assms(3) by (simp add: explicit_length_def)
    obtain c' body d' where x: "encrypt_cipher E out (h @ pay) 0 = Some (c', h @ body)"
      "\<forall>h'. decrypt_cipher E inn (h' @ body) body macSize = Some (DecPayload d' [] pay 0 255)" "in_step c' d'" "length body = length pay"
      using stream_case [OF Some [unfolded StreamCipher] sync(1) assms(2), of pay macSize] by blast
    have "is_cbc (out\<lparr>hc_cipher := c'\<rparr>) = is_cbc out"
      using x(1) Some StreamCipher by (auto simp: encrypt_cipher_def is_cbc_def split: prod.splits bind_splits)
    then show ?thesis using that [of c' body d' "[]"] x iv by simp
  next
    case (AeadCipher a)
    then have iv: "length iv = explicitNonceLen a" using Some assms(3) by (simp add: explicit_length_def)
    obtain c' body d' where x: "encrypt_cipher E out (h @ iv @ pay) (length iv) = Some (c', h @ body)"
      "\<forall>h'. length h' = 5 \<and> take 3 h' = take 3 h \<longrightarrow>
         decrypt_cipher E inn (h' @ body) body macSize = Some (DecPayload d' iv pay 0 255)" "in_step c' d'"
      "length body = length iv + length pay + aead_Overhead E a"
      using aead_case [OF Some [unfolded AeadCipher] sync(1) assms(2) sync(3,4) iv, of pay macSize] by blast
    have "is_cbc (out\<lparr>hc_cipher := c'\<rparr>) = is_cbc out"
      using x(1) Some AeadCipher by (auto simp: encrypt_cipher_def is_cbc_def Let_def split: prod.splits bind_splits)
    then show ?thesis using that [of c' body d' "[]"] x Some AeadCipher by (simp add: expansion_def)
  next
    case (CbcCipher c)
    obtain c' body d' k where x: "encrypt_cipher E out (h @ iv @ pay) (length iv) = Some (c', h @ body)"
      "\<forall>h'. decrypt_cipher E inn (h' @ body) body macSize = Some (DecPayload d' iv (pay @ padding k) (Suc k) 255)"
      "in_step c' d'" "length body = length iv + length pay + Suc k" "Suc k \<le> cbc_BlockSize E c"
      using cbc_case [OF Some [unfolded CbcCipher] sync(1) assms(2) sync(2) assms(3-5)] by blast
    have "is_cbc (out\<lparr>hc_cipher := c'\<rparr>) = is_cbc out"
      using x(1) Some CbcCipher by (auto simp: encrypt_cipher_def is_cbc_def Let_def split: prod.splits bind_splits)
    moreover have "length (padding k) = Suc k" by (simp add: padding_def)
    ultimately show ?thesis
      using that [of c' body d' "padding k"] x Some CbcCipher by (simp add: expansion_def is_cbc_def)
  qed
qed

lemma encrypt_eq:
  assumes "encrypt_cipher E out (h @ iv @ pay) (length iv) = Some (c', h @ body)"
    and "length h = 5" and "length (hc_seq out) = 8" and "be_to_nat (hc_seq out) + 1 < 2 ^ 64"
    and "hc_mac out = None \<longrightarrow> pay = content"
    and "\<And>f. hc_mac out = Some f \<Longrightarrow> \<exists>m. mac_MAC f (hc_seq out) h content [] = Some m \<and> pay = content @ m"
  shows "encrypt E out (h @ iv @ content) (length iv) =
    Some (out\<lparr>hc_cipher := c', hc_seq := be_fixed 8 (be_to_nat (hc_seq out) + 1)\<rparr>,
          take 3 h @ [byte1 (length body), byte0 (length body)] @ body)"
proof -
  have r: "slice_to (h @ iv @ content) 5 = Some h" "slice_from (h @ iv @ content) (5 + length iv) = Some content"
    using assms(2) slice_from_append [of "h @ iv" "5 + length iv" content] by (simp_all add: slice_to_append)
  have n: "length (h @ body) - 5 = length body" using assms(2) by simp
  have i: "at_idx (h @ body) 4 = Some ((h @ body) ! 4)" using assms(2) by (simp add: at_idx_def)
  have inc: "incSeq (out\<lparr>hc_cipher := c'\<rparr>) =
      Some (out\<lparr>hc_cipher := c', hc_seq := be_fixed 8 (be_to_nat (hc_seq out) + 1)\<rparr>)"
    using assms(3,4) by (simp add: incSeq_correct)
  show ?thesis
  proof (cases "hc_mac out")
    case None
    then show ?thesis
      using assms(1,5) unfolding encrypt_def recordHeaderLen_def Let_def by (simp only: option.case bind.bind_lunit prod.case i n set_length [OF assms(2)] inc) simp
  next
    case (Some f)
    then obtain m where m: "mac_MAC f (hc_seq out) h content [] = Some m" "pay = content @ m" using assms(6) by blast
    have d: "(h @ iv @ content) @ m = h @ iv @ pay" using m(2) by simp
    show ?thesis
      unfolding encrypt_def recordHeaderLen_def Let_def
      by (simp only: Some option.case bind.bind_lunit r m(1) d assms(1) prod.case i n set_length [OF assms(2)] inc) simp
  qed
qed

lemma decrypt_eq:
  assumes "decrypt_cipher E inn (h' @ body) body (mac_length inn) = Some (DecPayload d' iv (pay @ pad) (length pad) 255)"
    and "length h' = 5" and "length h = 5" and "take 3 h' = take 3 h" and "h = take 3 h @ [byte1 (length content), byte0 (length content)]"
    and "length (hc_seq inn) = 8" and "be_to_nat (hc_seq inn) + 1 < 2 ^ 64"
    and "hc_mac inn = None \<longrightarrow> pay = content \<and> pad = []"
    and "\<And>f. hc_mac inn = Some f \<Longrightarrow> \<exists>m. (\<forall>extra. mac_MAC f (hc_seq inn) h content extra = Some m) \<and> length m = mac_Size f \<and> pay = content @ m"
    and "length content < 2147483648"
  obtains y where "decrypt E inn (h' @ body) =
      Some (inn\<lparr>hc_cipher := d', hc_seq := be_fixed 8 (be_to_nat (hc_seq inn) + 1)\<rparr>, y, Inr (5 + length iv))"
    and "drop (5 + length iv) y = content" and "length y = 5 + length iv + length content"
proof -
  have r: "slice_from (h' @ body) 5 = Some body" "take 5 (h' @ body) = h'"
    using assms(2) by (simp_all add: slice_from_append)
  have inc: "incSeq (inn\<lparr>hc_cipher := d'\<rparr>) =
      Some (inn\<lparr>hc_cipher := d', hc_seq := be_fixed 8 (be_to_nat (hc_seq inn) + 1)\<rparr>)"
    using assms(6,7) by (simp add: incSeq_correct)
  have ml: "(case hc_mac inn of None \<Rightarrow> 0 | Some f \<Rightarrow> mac_Size f) = mac_length inn" by (simp add: mac_length_def)
  show ?thesis
  proof (cases "hc_mac inn")
    case None
    have "decrypt E inn (h' @ body) =
        Some (inn\<lparr>hc_cipher := d', hc_seq := be_fixed 8 (be_to_nat (hc_seq inn) + 1)\<rparr>, h' @ iv @ content, Inr (5 + length iv))"
      unfolding decrypt_def recordHeaderLen_def r ml Let_def
      using assms(1,8) None inc by (simp add: r)
    then show ?thesis using that assms(2) by simp
  next
    case (Some f)
    obtain m where m: "\<And>extra. mac_MAC f (hc_seq inn) h content extra = Some m" "length m = mac_Size f" "pay = content @ m"
      using assms(9) [OF Some] by blast
    have ms: "mac_length inn = length m" using Some m by (simp add: mac_length_def)
    let ?p = "content @ m @ pad"
    have "int (length ?p) - int (length m) - int (length pad) = int (length content)" by simp
    then have n: "nat (select_nonneg (int (length ?p) - int (length m) - int (length pad))) = length content"
      using select_nonneg_small [OF assms(10)] by (simp only: nat_int)
    have hh: "h'[3 := byte1 (length content), 4 := byte0 (length content)] = h"
      using set_length [OF assms(2), of "[]" "byte1 (length content)" "byte0 (length content)"] assms(4,5) by simp
    have s: "slice_between ?p (length content) (length content + length m) = Some m" "slice_to ?p (length content) = Some content"
      "slice_from ?p (length content + length m) = Some pad"
      using slice_from_append [of "content @ m" "length content + length m" pad]
      by (simp_all add: slice_between_def subslice_def slice_to_append)
    let ?y = "h @ iv @ content"
    have nl: "\<not> length ?p < length m" by simp
    have t: "take (5 + length iv + length content) (h @ iv @ ?p) = ?y" using assms(3) by simp
    have "decrypt E inn (h' @ body) =
        Some (inn\<lparr>hc_cipher := d', hc_seq := be_fixed 8 (be_to_nat (hc_seq inn) + 1)\<rparr>, ?y, Inr (5 + length iv))"
      unfolding decrypt_def recordHeaderLen_def r ml Let_def
      using assms(1) Some n hh s m(1) t inc nl
      by (simp add: r ms m(3) del: length_append take_append)
    then show ?thesis using that assms(3) by simp
  qed
qed

definition stepped :: "'c rcipher option \<Rightarrow> 'c halfConn \<Rightarrow> 'c halfConn" where
  "stepped c hc = hc\<lparr>hc_cipher := c, hc_seq := be_fixed 8 (be_to_nat (hc_seq hc) + 1)\<rparr>"

lemma record_step:
  assumes "hc_sync out inn" and "length h = 5" and "length iv = explicit_length out"
    and "h ! 3 = byte1 (length content)" and "h ! 4 = byte0 (length content)"
    and "be_to_nat (hc_seq out) + 1 < 2 ^ 64" and "length content < 1073741824"
  obtains c' d' body y where
    "encrypt E out (h @ iv @ content) (length iv) =
       Some (stepped c' out, take 3 h @ [byte1 (length body), byte0 (length body)] @ body)"
    and "decrypt E inn (take 3 h @ [byte1 (length body), byte0 (length body)] @ body) = Some (stepped d' inn, y, Inr (5 + length iv))"
    and "drop (5 + length iv) y = content" and "length y = 5 + length iv + length content"
    and "hc_sync (stepped c' out) (stepped d' inn)"
    and "length body \<le> length iv + length content + mac_length out + expansion out" and "is_cbc (stepped c' out) = is_cbc out"
proof -
  have sync: "hc_version inn = hc_version out" "hc_mac inn = hc_mac out" "hc_seq inn = hc_seq out" "length (hc_seq out) = 8"
    "\<And>f. hc_mac out = Some f \<Longrightarrow> mac_ok f" "is_cbc out \<Longrightarrow> hc_mac out \<noteq> None"
    using assms(1) by (simp_all add: hc_sync_def)
  obtain m where m: "hc_mac out = None \<longrightarrow> m = []"
    "\<And>f. hc_mac out = Some f \<Longrightarrow> (\<forall>extra. mac_MAC f (hc_seq out) h content extra = Some m) \<and> length m = mac_Size f"
  proof (cases "hc_mac out")
    case (Some f)
    obtain x where "\<And>extra. mac_MAC f (hc_seq out) h content extra = Some x" "length x = mac_Size f"
      using mac_MAC_ok [OF sync(5) [OF Some] assms(2)] by blast
    then show ?thesis using that [of x] Some by simp
  qed (use that [of "[]"] in simp)
  have lm: "length m = mac_length out" using m by (cases "hc_mac out") (simp_all add: mac_length_def)
  have small: "mac_length out < 65536"
    using sync(5) by (cases "hc_mac out") (auto simp: mac_length_def mac_ok_def mac_Size_def split: macFunction.splits)
  let ?pay = "content @ m"
  have bound: "mac_length out \<le> length ?pay" "length ?pay + 256 < 2147483648" using lm small assms(7) by simp_all
  obtain c' body d' pad where
    enc: "encrypt_cipher E out (h @ iv @ ?pay) (length iv) = Some (c', h @ body)"
    and dec: "\<And>h'. length h' = 5 \<Longrightarrow> take 3 h' = take 3 h \<Longrightarrow>
      decrypt_cipher E inn (h' @ body) body (mac_length out) = Some (DecPayload d' iv (?pay @ pad) (length pad) 255)"
    and step: "in_step c' d'" "length body \<le> length iv + length ?pay + expansion out" "is_cbc out \<or> pad = []"
      "is_cbc (out\<lparr>hc_cipher := c'\<rparr>) = is_cbc out"
    using cipher_step [OF assms(1-3) bound] by blast
  let ?h' = "take 3 h @ [byte1 (length body), byte0 (length body)]"
  have hs: "h = take 3 h @ [byte1 (length content), byte0 (length content)]" by (rule header_shape [OF assms(2,4,5)])
  have h': "length ?h' = 5" "take 3 ?h' = take 3 h" using assms(2) by simp_all
  have e: "encrypt E out (h @ iv @ content) (length iv) = Some (stepped c' out, take 3 h @ [byte1 (length body), byte0 (length body)] @ body)"
    unfolding stepped_def using m by (intro encrypt_eq [OF enc assms(2) sync(4) assms(6)]) auto
  have ml: "mac_length inn = mac_length out" using sync(2) by (simp add: mac_length_def)
  obtain y where y: "decrypt E inn (?h' @ body) =
      Some (inn\<lparr>hc_cipher := d', hc_seq := be_fixed 8 (be_to_nat (hc_seq inn) + 1)\<rparr>, y, Inr (5 + length iv))"
    "drop (5 + length iv) y = content" "length y = 5 + length iv + length content"
  proof (rule decrypt_eq [OF dec [OF h', folded ml] h'(1) assms(2) h'(2) hs])
    show "length (hc_seq inn) = 8" "be_to_nat (hc_seq inn) + 1 < 2 ^ 64" using sync assms(6) by simp_all
    show "hc_mac inn = None \<longrightarrow> content @ m = content \<and> pad = []" using sync m step(3) by auto
    show "\<exists>ma. (\<forall>extra. mac_MAC f (hc_seq inn) h content extra = Some ma) \<and> length ma = mac_Size f \<and> content @ m = content @ ma"
      if "hc_mac inn = Some f" for f using m(2) [of f] that sync by auto
    show "length content < 2147483648" using assms(7) by simp
  qed
  have k: "is_cbc (stepped c' out) = is_cbc out" using step(4) by (simp add: stepped_def is_cbc_def)
  then have s: "hc_sync (stepped c' out) (stepped d' inn)"
    using assms(1) step(1) by (simp add: hc_sync_def stepped_def)
  have "length body \<le> length iv + length content + mac_length out + expansion out" using step(2) lm by simp
  then show ?thesis using that e y s k by (simp add: stepped_def)
qed

end

end
