(* ===== verification/TlsConn.thy ===== *)
theory TlsConn
  imports TlsRecordStep TlsHandshake
begin

text \<open>
  A connection of \<open>crypto/gmsm/gmtls/conn.go\<close>: writing and reading records, alerts, and the calls of the user. The network,
  the source of randomness and the handshakes are the parameter \<open>world\<close>. The results of the coming calls of \<open>Read\<close> of
  the network are a list in the state; when it is used up, the call waits. A nil block and an empty one are the same.
  Locks are left out: an operation is one step. \<open>None\<close> is a panic, for a loop also that it does not end.
\<close>

section \<open>Constants\<close>

definition maxPlaintext :: nat where "maxPlaintext = 16384"
definition maxCiphertext :: nat where "maxCiphertext = 18432"
definition maxWarnAlertCount :: nat where "maxWarnAlertCount = 5"
definition tcpMSSEstimate :: nat where "tcpMSSEstimate = 1208"
definition recordSizeBoostThreshold :: nat where "recordSizeBoostThreshold = 131072"
definition recordTypeChangeCipherSpec :: byte where "recordTypeChangeCipherSpec = 20"
definition recordTypeAlert :: byte where "recordTypeAlert = 21"
definition recordTypeHandshake :: byte where "recordTypeHandshake = 22"
definition recordTypeApplicationData :: byte where "recordTypeApplicationData = 23"
definition alertLevelWarning :: byte where "alertLevelWarning = 1"
definition alertLevelError :: byte where "alertLevelError = 2"
definition alertCloseNotify :: byte where "alertCloseNotify = 0"
definition alertRecordOverflow :: byte where "alertRecordOverflow = 22"
definition alertProtocolVersion :: byte where "alertProtocolVersion = 70"
definition alertNoRenegotiation :: byte where "alertNoRenegotiation = 100"

section \<open>State and parameters\<close>

text \<open>\<open>RenegotiationSupport\<close> is an \<open>int\<close> with three named values.\<close>

datatype renegotiation = RenegotiateNever | RenegotiateOnceAsClient | RenegotiateFreelyAsClient | RenegotiateUnknown int

record 'c Conn =
  cn_isClient :: bool
  cn_handshakeComplete :: bool
  cn_handshakeErr :: "conn_error option"
  cn_handshakes :: nat
  cn_vers :: "16 word"
  cn_haveVers :: bool
  cn_DynamicRecordSizingDisabled :: bool
  cn_Renegotiation :: renegotiation
  cn_GMSupport :: bool
  cn_closeNotifySent :: bool
  cn_closeNotifyErr :: "conn_error option"
  cn_in :: "'c halfConn"
  cn_out :: "'c halfConn"
  cn_rawInput :: bytes
  cn_input :: "bytes option"
  cn_hand :: bytes
  cn_buffering :: bool
  cn_sendBuf :: bytes
  cn_bytesSent :: nat
  cn_packetsSent :: nat
  cn_warnCount :: nat
  cn_reads :: "(bytes \<times> conn_error option) list"
  cn_sent :: bytes
  cn_randCalls :: nat

text \<open>\<open>w_Write\<close> gets what was sent before and the data and says how many bytes it took; \<open>w_rand\<close> gets the number of the
  call and the number of bytes, \<open>None\<close> is an error; \<open>w_handshake\<close> runs the handshake of the client or of the server.\<close>

record 'c world =
  w_ciphers :: "'c ciphers"
  w_Write :: "bytes \<Rightarrow> bytes \<Rightarrow> nat \<times> conn_error option"
  w_rand :: "nat \<Rightarrow> nat \<Rightarrow> bytes option"
  w_handshake :: "'c Conn \<Rightarrow> conn_error option \<times> 'c Conn"

section \<open>Writing records\<close>

definition conn_write :: "'c world \<Rightarrow> bytes \<Rightarrow> 'c Conn \<Rightarrow> nat \<times> conn_error option \<times> 'c Conn" where
  "conn_write W data c =
     (if cn_buffering c then (length data, None, c\<lparr>cn_sendBuf := cn_sendBuf c @ data\<rparr>)
      else
        let (n, err) = w_Write W (cn_sent c) data
        in (n, err, c\<lparr>cn_sent := cn_sent c @ take n data, cn_bytesSent := cn_bytesSent c + n\<rparr>))"

definition conn_flush :: "'c world \<Rightarrow> 'c Conn \<Rightarrow> nat \<times> conn_error option \<times> 'c Conn" where
  "conn_flush W c =
     (if length (cn_sendBuf c) = 0 then (0, None, c)
      else
        let (n, err) = w_Write W (cn_sent c) (cn_sendBuf c)
        in (n, err, c\<lparr>cn_sent := cn_sent c @ take n (cn_sendBuf c), cn_bytesSent := cn_bytesSent c + n, cn_sendBuf := [],
                      cn_buffering := False\<rparr>))"

definition maxPayloadSizeForWrite :: "'c world \<Rightarrow> byte \<Rightarrow> nat \<Rightarrow> 'c Conn \<Rightarrow> int \<times> 'c Conn" where
  "maxPayloadSizeForWrite W typ explicitIVLen c =
     (if cn_DynamicRecordSizingDisabled c \<or> typ \<noteq> recordTypeApplicationData then (int maxPlaintext, c)
      else if cn_bytesSent c \<ge> recordSizeBoostThreshold then (int maxPlaintext, c)
      else
        let macSize = (case hc_mac (cn_out c) of None \<Rightarrow> 0 | Some f \<Rightarrow> int (mac_Size f));
            payloadBytes = int tcpMSSEstimate - int recordHeaderLen - int explicitIVLen;
            payloadBytes =
              (case hc_cipher (cn_out c) of
                 None \<Rightarrow> payloadBytes
               | Some (StreamCipher x) \<Rightarrow> payloadBytes - macSize
               | Some (AeadCipher a) \<Rightarrow> payloadBytes - int (aead_Overhead (w_ciphers W) a)
               | Some (CbcCipher x) \<Rightarrow>
                   let blockSize = int (cbc_BlockSize (w_ciphers W) x)
                   in (payloadBytes AND NOT (blockSize - 1)) - 1 - macSize);
            pkt = cn_packetsSent c;
            c = c\<lparr>cn_packetsSent := pkt + 1\<rparr>
        in if pkt > 1000 then (int maxPlaintext, c)
           else
             let n = payloadBytes * (int pkt + 1)
             in (if n > int maxPlaintext then int maxPlaintext else n, c))"

text \<open>\<open>explicitIVLen\<close> and \<open>explicitIVIsSeq\<close> of a record to be written.\<close>

definition explicitIV_of :: "'c world \<Rightarrow> 'c halfConn \<Rightarrow> nat \<times> bool" where
  "explicitIV_of W out =
     (let n = (if hc_version out \<ge> VersionTLS11 \<or> hc_version out = VersionGMSSL then
                 (case hc_cipher out of Some (CbcCipher x) \<Rightarrow> cbc_BlockSize (w_ciphers W) x | _ \<Rightarrow> 0)
               else 0)
      in if n = 0 then
           (case hc_cipher out of Some (AeadCipher a) \<Rightarrow> (explicitNonceLen a, explicitNonceLen a > 0) | _ \<Rightarrow> (0, False))
         else (n, False))"

text \<open>One round of the loop: the size of the record, its error, and the connection.\<close>

definition writeRecord_one :: "'c world \<Rightarrow> byte \<Rightarrow> bytes \<Rightarrow> 'c Conn \<Rightarrow> (nat \<times> conn_error option \<times> 'c Conn) option" where
  "writeRecord_one W typ data c =
     (let (explicitIVLen, explicitIVIsSeq) = explicitIV_of W (cn_out c);
          (maxPayload, c) = maxPayloadSizeForWrite W typ explicitIVLen c;
          m = (if int (length data) > maxPayload then maxPayload else int (length data))
      in if m < 0 then None
         else
           let m = nat m;
               vers = (if cn_vers c = 0 then VersionTLS10 else cn_vers c);
               header = [typ, hi16 vers, lo16 vers, byte1 m, byte0 m];
               (explicitIV, c) =
                 (if explicitIVLen > 0 then
                    if explicitIVIsSeq then (Some (copy_at 0 (hc_seq (cn_out c)) (replicate explicitIVLen 0)), c)
                    else (w_rand W (cn_randCalls c) explicitIVLen, c\<lparr>cn_randCalls := cn_randCalls c + 1\<rparr>)
                  else (Some [], c))
           in (case explicitIV of
                 None \<Rightarrow> Some (m, Some (TlsError ''rand''), c)
               | Some iv \<Rightarrow> do {
                   (out, b) \<leftarrow> encrypt (w_ciphers W) (cn_out c) (header @ iv @ take m data) explicitIVLen;
                   let c = c\<lparr>cn_out := out\<rparr>;
                   let (_, err, c) = conn_write W b c;
                   Some (m, err, c) }))"

partial_function (option) writeRecord_loop ::
    "'c world \<Rightarrow> byte \<Rightarrow> bytes \<Rightarrow> nat \<Rightarrow> 'c Conn \<Rightarrow> (nat \<times> conn_error option \<times> 'c Conn) option" where
  "writeRecord_loop W typ data n c =
     (if length data > 0 then do {
        (m, err, c) \<leftarrow> writeRecord_one W typ data c;
        (case err of
           Some e \<Rightarrow> Some (n, Some e, c)
         | None \<Rightarrow> writeRecord_loop W typ (drop m data) (n + m) c) }
      else Some (n, None, c))"

text \<open>An alert is written by the loop alone: it is no change of the cipher.\<close>

definition sendAlertLocked :: "'c world \<Rightarrow> byte \<Rightarrow> 'c Conn \<Rightarrow> (conn_error option \<times> 'c Conn) option" where
  "sendAlertLocked W err c =
     (let level = (if err = alertNoRenegotiation \<or> err = alertCloseNotify then alertLevelWarning else alertLevelError) in do {
        (_, writeErr, c) \<leftarrow> writeRecord_loop W recordTypeAlert [level, err] 0 c;
        Some (if err = alertCloseNotify then (writeErr, c)
              else (Some (LocalError err), c\<lparr>cn_out := setErrorLocked (Some (LocalError err)) (cn_out c)\<rparr>)) })"

definition sendAlert :: "'c world \<Rightarrow> byte \<Rightarrow> 'c Conn \<Rightarrow> (conn_error option \<times> 'c Conn) option" where
  "sendAlert W err c = sendAlertLocked W err c"

definition writeRecordLocked ::
    "'c world \<Rightarrow> byte \<Rightarrow> bytes \<Rightarrow> 'c Conn \<Rightarrow> (nat \<times> conn_error option \<times> 'c Conn) option" where
  "writeRecordLocked W typ data c = do {
     (n, err, c) \<leftarrow> writeRecord_loop W typ data 0 c;
     (case err of
        Some e \<Rightarrow> Some (n, Some e, c)
      | None \<Rightarrow>
          if typ = recordTypeChangeCipherSpec then
            (case changeCipherSpec (cn_out c) of
               Inr out \<Rightarrow> Some (n, None, c\<lparr>cn_out := out\<rparr>)
             | Inl a \<Rightarrow> do { (e, c) \<leftarrow> sendAlertLocked W a c; Some (n, e, c) })
          else Some (n, None, c)) }"

section \<open>Reading records\<close>

datatype read_result = Got | ReadErr conn_error | Waits

fun readFromUntil :: "nat \<Rightarrow> bytes \<Rightarrow> (bytes \<times> conn_error option) list \<Rightarrow> read_result \<times> bytes \<times> (bytes \<times> conn_error option) list" where
  "readFromUntil n data reads =
     (if length data \<ge> n then (Got, data, reads)
      else (case reads of
              [] \<Rightarrow> (Waits, data, [])
            | (p, err) # reads \<Rightarrow>
                let data = data @ p in
                if length data \<ge> n then (Got, data, reads)
                else (case err of Some e \<Rightarrow> (ReadErr e, data, reads) | None \<Rightarrow> readFromUntil n data reads)))"

declare readFromUntil.simps [simp del]

text \<open>What a call that may wait for the network returns.\<close>

datatype 'r outcome = Returned 'r | Waiting

definition fail_in :: "conn_error option \<Rightarrow> 'c Conn \<Rightarrow> conn_error option outcome \<times> 'c Conn" where
  "fail_in e c = (Returned e, c\<lparr>cn_in := setErrorLocked e (cn_in c)\<rparr>)"

text \<open>\<open>c.in.setErrorLocked(c.sendAlert(a))\<close>, and an alert before another error.\<close>

definition alert_in :: "'c world \<Rightarrow> byte \<Rightarrow> 'c Conn \<Rightarrow> (conn_error option outcome \<times> 'c Conn) option" where
  "alert_in W a c = do { (e, c) \<leftarrow> sendAlert W a c; Some (fail_in e c) }"

definition alert_then :: "'c world \<Rightarrow> byte \<Rightarrow> conn_error \<Rightarrow> 'c Conn \<Rightarrow> (conn_error option outcome \<times> 'c Conn) option" where
  "alert_then W a e c = do { (_, c) \<leftarrow> sendAlert W a c; Some (fail_in (Some e) c) }"

text \<open>An error of \<open>readFromUntil\<close>: only a lasting one stays in the half connection.\<close>

definition read_failed :: "conn_error \<Rightarrow> 'c Conn \<Rightarrow> conn_error option outcome \<times> 'c Conn" where
  "read_failed e c = (case e of NetError True _ \<Rightarrow> (Returned (Some e), c) | _ \<Rightarrow> fail_in (Some e) c)"

text \<open>The checks on the type that is wanted, \<open>None\<close> if they pass.\<close>

definition want_error :: "byte \<Rightarrow> 'c Conn \<Rightarrow> conn_error option" where
  "want_error want c =
     (if want = recordTypeHandshake \<or> want = recordTypeChangeCipherSpec then
        (if cn_handshakeComplete c then Some (TlsError ''handshake or ChangeCipherSpec requested while not in handshake'') else None)
      else if want = recordTypeApplicationData then
        (if \<not> cn_handshakeComplete c then Some (TlsError ''application data record requested while in handshake'') else None)
      else Some (TlsError ''unknown record type requested''))"

text \<open>The checks on the header of a record, the alert with the message.\<close>

definition header_error :: "byte \<Rightarrow> byte \<Rightarrow> 16 word \<Rightarrow> nat \<Rightarrow> 'c Conn \<Rightarrow> (byte \<times> string) option" where
  "header_error want typ vers n c =
     (if want = recordTypeHandshake \<and> typ = 0x80 then Some (alertProtocolVersion, ''unsupported SSLv2 handshake received'')
      else if cn_haveVers c \<and> vers \<noteq> cn_vers c then Some (alertProtocolVersion, ''received record with another version'')
      else if n > maxCiphertext then Some (alertRecordOverflow, ''oversized record received'')
      else if \<not> cn_haveVers c \<and> ((typ \<noteq> recordTypeAlert \<and> typ \<noteq> want) \<or> vers \<ge> 0x1000) then
        Some (alertUnexpectedMessage, ''first record does not look like a TLS handshake'')
      else None)"

text \<open>The rest of \<open>readRecord\<close> behind \<open>Again\<close> up to the switch: a finished call, or the contents of a record.\<close>

datatype 'c record_in = RecordDone "conn_error option outcome" "'c Conn" | RecordData byte bytes "'c Conn"

definition readRecord_data :: "'c world \<Rightarrow> byte \<Rightarrow> 'c Conn \<Rightarrow> 'c record_in option" where
  "readRecord_data W want c =
     (case readFromUntil recordHeaderLen (cn_rawInput c) (cn_reads c) of
        (Waits, raw, reads) \<Rightarrow> Some (RecordDone Waiting (c\<lparr>cn_rawInput := raw, cn_reads := reads\<rparr>))
      | (ReadErr e, raw, reads) \<Rightarrow>
          (case read_failed e (c\<lparr>cn_rawInput := raw, cn_reads := reads\<rparr>) of (r, c) \<Rightarrow> Some (RecordDone r c))
      | (Got, raw, reads) \<Rightarrow>
          let c = c\<lparr>cn_rawInput := raw, cn_reads := reads\<rparr> in do {
            typ \<leftarrow> at_idx raw 0;
            vers \<leftarrow> uint16_at raw 1;
            n \<leftarrow> int16_at raw 3;
            (case header_error want typ vers n c of
               Some (a, msg) \<Rightarrow> do {
                 (r, c) \<leftarrow> alert_then W a (HeaderError msg (take 5 raw)) c;
                 Some (RecordDone r c) }
             | None \<Rightarrow>
                 (case readFromUntil (recordHeaderLen + n) raw reads of
                    (Waits, raw, reads) \<Rightarrow> Some (RecordDone Waiting (c\<lparr>cn_rawInput := raw, cn_reads := reads\<rparr>))
                  | (ReadErr e, raw, reads) \<Rightarrow>
                      (case read_failed (if e = IoEOF then IoUnexpectedEOF else e) (c\<lparr>cn_rawInput := raw, cn_reads := reads\<rparr>) of
                         (r, c) \<Rightarrow> Some (RecordDone r c))
                  | (Got, raw, reads) \<Rightarrow>
                      let b = take (recordHeaderLen + n) raw;
                          c = c\<lparr>cn_rawInput := drop (recordHeaderLen + n) raw, cn_reads := reads\<rparr>
                      in do {
                        (hc, b, ok) \<leftarrow> decrypt (w_ciphers W) (cn_in c) b;
                        let c = c\<lparr>cn_in := hc\<rparr>;
                        (case ok of
                           Inl alertValue \<Rightarrow> do { (r, c) \<leftarrow> alert_in W alertValue c; Some (RecordDone r c) }
                         | Inr off \<Rightarrow> do {
                             data \<leftarrow> slice_from b off;
                             if length data > maxPlaintext then do { (r, c) \<leftarrow> alert_in W alertRecordOverflow c; Some (RecordDone r c) }
                             else Some (RecordData typ data
                               (if typ \<noteq> recordTypeAlert \<and> length data > 0 then c\<lparr>cn_warnCount := 0\<rparr> else c)) }) })) })"

text \<open>A switch over the type of the record: \<open>None\<close> in the outer position of the result of \<open>readRecord_alert\<close> is
  \<open>goto Again\<close>.\<close>

definition readRecord_alert :: "'c world \<Rightarrow> bytes \<Rightarrow> 'c Conn \<Rightarrow> ((conn_error option outcome \<times> 'c Conn) option \<times> 'c Conn) option" where
  "readRecord_alert W data c =
     (if length data \<noteq> 2 then do { r \<leftarrow> alert_in W alertUnexpectedMessage c; Some (Some r, c) }
      else if data ! 1 = alertCloseNotify then Some (Some (fail_in (Some IoEOF) c), c)
      else if data ! 0 = alertLevelWarning then
        let c = c\<lparr>cn_warnCount := cn_warnCount c + 1\<rparr> in
        if cn_warnCount c > maxWarnAlertCount then do {
          r \<leftarrow> alert_then W alertUnexpectedMessage (TlsError ''too many warn alerts'') c; Some (Some r, c) }
        else Some (None, c)
      else if data ! 0 = alertLevelError then Some (Some (fail_in (Some (RemoteError (data ! 1))) c), c)
      else do { r \<leftarrow> alert_in W alertUnexpectedMessage c; Some (Some r, c) })"

definition readRecord_change :: "'c world \<Rightarrow> byte \<Rightarrow> bytes \<Rightarrow> 'c Conn \<Rightarrow> (conn_error option outcome \<times> 'c Conn) option" where
  "readRecord_change W want data c =
     (if want \<noteq> recordTypeChangeCipherSpec \<or> data \<noteq> [1] then alert_in W alertUnexpectedMessage c
      else if length (cn_hand c) > 0 then alert_in W alertUnexpectedMessage c
      else (case changeCipherSpec (cn_in c) of
              Inl a \<Rightarrow> alert_in W a c
            | Inr hc \<Rightarrow> (let c = c\<lparr>cn_in := hc\<rparr> in Some (Returned (hc_err (cn_in c)), c))))"

definition readRecord_other :: "'c world \<Rightarrow> byte \<Rightarrow> byte \<Rightarrow> bytes \<Rightarrow> 'c Conn \<Rightarrow> (conn_error option outcome \<times> 'c Conn) option" where
  "readRecord_other W want typ data c =
     (if typ = recordTypeChangeCipherSpec then readRecord_change W want data c
      else if typ = recordTypeApplicationData then
        (if typ \<noteq> want then alert_in W alertUnexpectedMessage c
         else Some (Returned (hc_err (cn_in c)), c\<lparr>cn_input := Some data\<rparr>))
      else if typ = recordTypeHandshake then
        (if typ \<noteq> want \<and> \<not> (cn_isClient c \<and> cn_Renegotiation c \<noteq> RenegotiateNever) then alert_in W alertNoRenegotiation c
         else Some (Returned (hc_err (cn_in c)), c\<lparr>cn_hand := cn_hand c @ data\<rparr>))
      else alert_in W alertUnexpectedMessage c)"

text \<open>Each warning alert that sends the code back to \<open>Again\<close> is counted, and the sixth one ends it.\<close>

lemma readRecord_data_warnCount:
  assumes "readRecord_data W want c = Some (RecordData recordTypeAlert data c')"
  shows "cn_warnCount c' = cn_warnCount c"
  using assms
  by (auto simp: readRecord_data_def Let_def alert_in_def alert_then_def
      split: prod.splits read_result.splits option.splits sum.splits bind_splits if_splits)

lemma readRecord_alert_warnCount:
  "readRecord_alert W data c = Some (None, c') \<Longrightarrow> cn_warnCount c' = cn_warnCount c + 1 \<and> cn_warnCount c' \<le> maxWarnAlertCount"
  by (auto simp: readRecord_alert_def Let_def split: if_splits bind_splits)

function readRecord_loop :: "'c world \<Rightarrow> byte \<Rightarrow> 'c Conn \<Rightarrow> (conn_error option outcome \<times> 'c Conn) option" where
  "readRecord_loop W want c = do {
     r \<leftarrow> readRecord_data W want c;
     (case r of
        RecordDone result c1 \<Rightarrow> Some (result, c1)
      | RecordData typ data c1 \<Rightarrow>
          if typ = recordTypeAlert then do {
            a \<leftarrow> readRecord_alert W data c1;
            (case a of
               (Some result, c2) \<Rightarrow> Some result
             | (None, c2) \<Rightarrow> readRecord_loop W want c2) }
          else readRecord_other W want typ data c1) }"
  by auto
termination
proof (relation "measure (\<lambda>(W, want, c). maxWarnAlertCount + 1 - cn_warnCount c)", goal_cases)
  case (2 W want c r t data c1 a x c2)
  then show ?case
    using readRecord_data_warnCount [of W want c data c1] readRecord_alert_warnCount [of W data c1 c2] by (simp, arith)
qed simp

declare readRecord_loop.simps [simp del]

definition readRecord :: "'c world \<Rightarrow> byte \<Rightarrow> 'c Conn \<Rightarrow> (conn_error option outcome \<times> 'c Conn) option" where
  "readRecord W want c =
     (case want_error want c of
        Some e \<Rightarrow> alert_then W alertInternalError e c
      | None \<Rightarrow> readRecord_loop W want c)"

section \<open>The calls of the handshake and of the user\<close>

text \<open>\<open>readHandshake\<close>: the bytes are only appended to, so the two loops that wait for the header and for the body of a
  message are one. An alert for a message that is too long goes before its error.\<close>

partial_function (option) readHandshake ::
    "'c world \<Rightarrow> 'c Conn \<Rightarrow> ((conn_error option + handshakeMsg) outcome \<times> 'c Conn) option" where
  "readHandshake W c = do {
     s \<leftarrow> readHandshake_step (cn_GMSupport c) (cn_vers c) (cn_hand c);
     (case s of
        NeedRecord \<Rightarrow>
          (case hc_err (cn_in c) of
             Some e \<Rightarrow> Some (Returned (Inl (Some e)), c)
           | None \<Rightarrow> do {
               (r, c) \<leftarrow> readRecord W recordTypeHandshake c;
               (case r of
                  Waiting \<Rightarrow> Some (Waiting, c)
                | Returned (Some e) \<Rightarrow> Some (Returned (Inl (Some e)), c)
                | Returned None \<Rightarrow> readHandshake W c) })
      | HandAlert a hand \<Rightarrow>
          let c = c\<lparr>cn_hand := hand\<rparr> in do {
            (r, c) \<leftarrow> (if a = alertInternalError then alert_then W a (TlsError ''handshake message too long'') c else alert_in W a c);
            Some ((case r of Returned e \<Rightarrow> Returned (Inl e) | Waiting \<Rightarrow> Waiting), c) }
      | HandMessage m hand \<Rightarrow> Some (Returned (Inr m), c\<lparr>cn_hand := hand\<rparr>)) }"

definition run_handshake :: "'c world \<Rightarrow> 'c Conn \<Rightarrow> conn_error option \<times> 'c Conn" where
  "run_handshake W c =
     (let (err, c) = w_handshake W c in
      (err, c\<lparr>cn_handshakeErr := err, cn_handshakes := (if err = None then cn_handshakes c + 1 else cn_handshakes c)\<rparr>))"

definition Handshake :: "'c world \<Rightarrow> 'c Conn \<Rightarrow> (conn_error option \<times> 'c Conn) option" where
  "Handshake W c =
     (case cn_handshakeErr c of
        Some e \<Rightarrow> Some (Some e, c)
      | None \<Rightarrow>
          if cn_handshakeComplete c then Some (None, c)
          else
            let (err, c) = run_handshake W c in
            (case err of
               Some e \<Rightarrow> (let (_, _, c) = conn_flush W c in Some (Some e, c))
             | None \<Rightarrow> if cn_handshakeComplete c then Some (None, c) else None))"

definition handleRenegotiation :: "'c world \<Rightarrow> 'c Conn \<Rightarrow> (conn_error option outcome \<times> 'c Conn) option" where
  "handleRenegotiation W c = do {
     (r, c) \<leftarrow> readHandshake W c;
     (case r of
        Waiting \<Rightarrow> Some (Waiting, c)
      | Returned (Inl e) \<Rightarrow> Some (Returned e, c)
      | Returned (Inr m) \<Rightarrow>
          if m \<noteq> HelloRequestM then do {
            (_, c) \<leftarrow> sendAlert W alertUnexpectedMessage c;
            Some (Returned (Some (AlertError alertUnexpectedMessage)), c) }
          else if \<not> cn_isClient c then do {
            (e, c) \<leftarrow> sendAlert W alertNoRenegotiation c; Some (Returned e, c) }
          else
            let again = (let (err, c) = run_handshake W (c\<lparr>cn_handshakeComplete := False\<rparr>) in Some (Returned err, c));
                refuse = do { (e, c) \<leftarrow> sendAlert W alertNoRenegotiation c; Some (Returned e, c) } in
            (case cn_Renegotiation c of
               RenegotiateNever \<Rightarrow> refuse
             | RenegotiateOnceAsClient \<Rightarrow> if cn_handshakes c > 1 then refuse else again
             | RenegotiateFreelyAsClient \<Rightarrow> again
             | RenegotiateUnknown n \<Rightarrow> do {
                 (_, c) \<leftarrow> sendAlert W alertInternalError c;
                 Some (Returned (Some (TlsError ''unknown Renegotiation value'')), c) })) }"

definition Conn_Write :: "'c world \<Rightarrow> bytes \<Rightarrow> 'c Conn \<Rightarrow> (nat \<times> conn_error option \<times> 'c Conn) option" where
  "Conn_Write W b c = do {
     (e, c) \<leftarrow> Handshake W c;
     if e \<noteq> None then Some (0, e, c)
     else if hc_err (cn_out c) \<noteq> None then Some (0, hc_err (cn_out c), c)
     else if \<not> cn_handshakeComplete c then Some (0, Some (AlertError alertInternalError), c)
     else if cn_closeNotifySent c then Some (0, Some (TlsError ''protocol is shutdown''), c)
     else do {
       (m, n, err, c) \<leftarrow>
         (if length b > 1 \<and> cn_vers c \<le> VersionTLS10 \<and> (case hc_cipher (cn_out c) of Some (CbcCipher _) \<Rightarrow> True | _ \<Rightarrow> False) then do {
            (n, err, c) \<leftarrow> writeRecordLocked W recordTypeApplicationData (take 1 b) c;
            Some (1, n, err, c) }
          else Some (0, 0, None, c));
       if err \<noteq> None then Some (n, err, c\<lparr>cn_out := setErrorLocked err (cn_out c)\<rparr>)
       else do {
         (n, err, c) \<leftarrow> writeRecordLocked W recordTypeApplicationData (drop m b) c;
         Some (n + m, err, c\<lparr>cn_out := setErrorLocked err (cn_out c)\<rparr>) } } }"

text \<open>The inner loop of \<open>Read\<close>, which waits for application data.\<close>

partial_function (option) read_input :: "'c world \<Rightarrow> 'c Conn \<Rightarrow> (conn_error option outcome \<times> 'c Conn) option" where
  "read_input W c =
     (if cn_input c = None \<and> hc_err (cn_in c) = None then do {
        (r, c) \<leftarrow> readRecord W recordTypeApplicationData c;
        (case r of
           Waiting \<Rightarrow> Some (Waiting, c)
         | Returned (Some e) \<Rightarrow> Some (Returned (Some e), c)
         | Returned None \<Rightarrow>
             if length (cn_hand c) > 0 then do {
               (r, c) \<leftarrow> handleRenegotiation W c;
               (case r of
                  Waiting \<Rightarrow> Some (Waiting, c)
                | Returned (Some e) \<Rightarrow> Some (Returned (Some e), c)
                | Returned None \<Rightarrow> read_input W c) }
             else read_input W c) }
      else Some (Returned None, c))"

text \<open>What \<open>Read\<close> ends with; it may wait with some bytes already copied, when an alert is in the buffer in part.\<close>

datatype read_end = ReadDone bytes "conn_error option" | ReadWaits bytes

definition maxConsecutiveEmptyRecords :: nat where "maxConsecutiveEmptyRecords = 100"

fun read_loop :: "'c world \<Rightarrow> nat \<Rightarrow> nat \<Rightarrow> 'c Conn \<Rightarrow> (read_end \<times> 'c Conn) option" where
  "read_loop W k 0 c = Some (ReadDone [] (Some IoNoProgress), c)"
| "read_loop W k (Suc i) c = do {
     (r, c) \<leftarrow> read_input W c;
     (case r of
        Waiting \<Rightarrow> Some (ReadWaits [], c)
      | Returned (Some e) \<Rightarrow> Some (ReadDone [] (Some e), c)
      | Returned None \<Rightarrow>
          (case hc_err (cn_in c) of
             Some e \<Rightarrow> Some (ReadDone [] (Some e), c)
           | None \<Rightarrow> do {
               data \<leftarrow> cn_input c;
               let p = take k data;
               let c = c\<lparr>cn_input := (if length data \<le> k then None else Some (drop k data))\<rparr>;
               if cn_rawInput c \<noteq> [] \<and> p \<noteq> [] \<and> cn_input c = None \<and> hd (cn_rawInput c) = recordTypeAlert then do {
                 (r, c) \<leftarrow> readRecord W recordTypeApplicationData c;
                 (case r of
                    Waiting \<Rightarrow> Some (ReadWaits p, c)
                  | Returned e \<Rightarrow> Some (ReadDone p e, c)) }
               else if p \<noteq> [] then Some (ReadDone p None, c)
               else read_loop W k i c })) }"

definition Conn_Read :: "'c world \<Rightarrow> nat \<Rightarrow> 'c Conn \<Rightarrow> (read_end \<times> 'c Conn) option" where
  "Conn_Read W k c = do {
     (e, c) \<leftarrow> Handshake W c;
     if e \<noteq> None then Some (ReadDone [] e, c)
     else if k = 0 then Some (ReadDone [] None, c)
     else read_loop W k (maxConsecutiveEmptyRecords + 1) c }"

definition closeNotify :: "'c world \<Rightarrow> 'c Conn \<Rightarrow> (conn_error option \<times> 'c Conn) option" where
  "closeNotify W c =
     (if \<not> cn_closeNotifySent c then do {
        (e, c) \<leftarrow> sendAlertLocked W alertCloseNotify c;
        Some (e, c\<lparr>cn_closeNotifyErr := e, cn_closeNotifySent := True\<rparr>) }
      else Some (cn_closeNotifyErr c, c))"

definition CloseWrite :: "'c world \<Rightarrow> 'c Conn \<Rightarrow> (conn_error option \<times> 'c Conn) option" where
  "CloseWrite W c =
     (if \<not> cn_handshakeComplete c then Some (Some (TlsError ''CloseWrite called before handshake complete''), c)
      else closeNotify W c)"

end
