(* ===== verification/TlsSuites.thy ===== *)
theory TlsSuites
  imports TlsRecordStep Sm4Laws Sm3Props
begin

text \<open>
  The cipher and the MAC of the national suites, \<open>cipherSM4\<close> and \<open>macSM3\<close> of \<open>crypto/gmsm/gmtls/gm_support.go\<close>, over
  the functions of the Go library that they call: the objects of \<open>cipher.NewCBCEncrypter\<close> and \<open>cipher.NewCBCDecrypter\<close>,
  and \<open>hmac.New\<close>. The theory interprets the locale \<open>record_ciphers\<close> on them.
\<close>

section \<open>The CBC mode of the Go library\<close>

text \<open>An object of either type: the round keys of the block cipher, the vector, and whether it decrypts. Its callers hand
  \<open>CryptBlocks\<close> whole blocks only and \<open>SetIV\<close> one block, so that neither panics.\<close>

record cbc_mode =
  cbc_keys :: "u32 list"
  cbc_vec :: bytes
  cbc_reads :: bool

definition crypt16 :: "u32 list \<Rightarrow> bool \<Rightarrow> bytes \<Rightarrow> bytes" where
  "crypt16 ks dec src = (case cryptBlock ks src dec of None \<Rightarrow> [] | Some dst \<Rightarrow> dst)"

fun cbcEncrypter_CryptBlocks :: "u32 list \<Rightarrow> bytes \<Rightarrow> nat \<Rightarrow> bytes \<Rightarrow> bytes \<times> bytes" where
  "cbcEncrypter_CryptBlocks ks iv 0 src = ([], iv)"
| "cbcEncrypter_CryptBlocks ks iv (Suc n) src =
     (let b = crypt16 ks False (map2 (XOR) (take 16 src) iv);
          (bs, iv') = cbcEncrypter_CryptBlocks ks b n (drop 16 src)
      in (b @ bs, iv'))"

fun cbcDecrypter_CryptBlocks :: "u32 list \<Rightarrow> bytes \<Rightarrow> nat \<Rightarrow> bytes \<Rightarrow> bytes \<times> bytes" where
  "cbcDecrypter_CryptBlocks ks iv 0 src = ([], iv)"
| "cbcDecrypter_CryptBlocks ks iv (Suc n) src =
     (let b = map2 (XOR) (crypt16 ks True (take 16 src)) iv;
          (bs, iv') = cbcDecrypter_CryptBlocks ks (take 16 src) n (drop 16 src)
      in (b @ bs, iv'))"

text \<open>The methods that a mode does not have are never called on it.\<close>

definition sm4_ciphers :: "cbc_mode ciphers" where
  "sm4_ciphers =
     \<lparr>XORKeyStream = \<lambda>c p. (p, c),
      cbc_BlockSize = \<lambda>c. BlockSize,
      SetIV = \<lambda>c iv. c\<lparr>cbc_vec := iv\<rparr>,
      CryptBlocks = \<lambda>c src.
        (case (if cbc_reads c then cbcDecrypter_CryptBlocks (cbc_keys c) (cbc_vec c) (length src div BlockSize) src
               else cbcEncrypter_CryptBlocks (cbc_keys c) (cbc_vec c) (length src div BlockSize) src) of
           (dst, iv) \<Rightarrow> (dst, c\<lparr>cbc_vec := iv\<rparr>)),
      Overhead = \<lambda>c. 0,
      Seal = \<lambda>c nonce p ad. [],
      Open = \<lambda>c nonce p ad. None\<rparr>"

text \<open>A key of the wrong size leaves the block nil, and a vector of the wrong size is refused: both panic in the library.\<close>

definition cipherSM4 :: "bytes \<Rightarrow> bytes \<Rightarrow> bool \<Rightarrow> cbc_mode rcipher option" where
  "cipherSM4 key iv isRead =
     (case NewCipher key of
        Inl e \<Rightarrow> None
      | Inr block \<Rightarrow>
          if length iv \<noteq> BlockSize then None
          else Some (CbcCipher \<lparr>cbc_keys = block, cbc_vec = iv, cbc_reads = isRead\<rparr>))"

section \<open>HMAC\<close>

definition hmac_key :: "(bytes \<Rightarrow> bytes) \<Rightarrow> nat \<Rightarrow> bytes \<Rightarrow> bytes" where
  "hmac_key h blocksize key =
     (let key = (if length key > blocksize then h key else key) in copy_at 0 key (replicate blocksize 0))"

definition hmac :: "(bytes \<Rightarrow> bytes) \<Rightarrow> nat \<Rightarrow> bytes \<Rightarrow> bytes \<Rightarrow> bytes" where
  "hmac h blocksize key data =
     (let ipad = map (\<lambda>b. b XOR 0x36) (hmac_key h blocksize key);
          opad = map (\<lambda>b. b XOR 0x5c) (hmac_key h blocksize key)
      in h (opad @ h (ipad @ data)))"

text \<open>The digest of a new \<open>sm3.SM3\<close> after one write, whose error does not occur.\<close>

definition sm3_hash :: "bytes \<Rightarrow> bytes" where
  "sm3_hash data = (case fst (Sm3_Sum (snd (Sm3_Write Sm3_New data)) []) of None \<Rightarrow> [] | Some d \<Rightarrow> d)"

definition macSM3 :: "16 word \<Rightarrow> bytes \<Rightarrow> macFunction" where
  "macSM3 version key = Tls10MAC (hmac sm3_hash sm3_BlockSize key) sm3_Size"

lemma sm3_hash_standard: "sm3_hash data = refSM3 data"
proof -
  have "absorbed ([] @ data) (snd (Sm3_Write (Sm3_Reset zeroSM3) data))" by (rule absorbed_Write [OF absorbed_Reset])
  from Sum_absorbed(1) [OF this, of "[]"] show ?thesis by (simp add: sm3_hash_def Sm3_New_def)
qed

lemma length_sm3_hash: "length (sm3_hash data) = 32"
  by (simp add: sm3_hash_standard refSM3_def put_regs_def word_bytes_def split: prod.splits)

lemma macSM3_ok: "mac_ok (macSM3 version key)"
  by (simp add: mac_ok_def macSM3_def hmac_def Let_def length_sm3_hash sm3_Size_def)

section \<open>The interpretation\<close>

definition sm4_sync :: "cbc_mode \<Rightarrow> cbc_mode \<Rightarrow> bool" where
  "sm4_sync c d \<longleftrightarrow> cbc_keys c = cbc_keys d \<and> cbc_vec c = cbc_vec d \<and> length (cbc_vec c) = 16 \<and> \<not> cbc_reads c \<and> cbc_reads d"

lemma crypt16_block:
  assumes "length src = 16"
  shows "length (crypt16 ks False src) = 16" and "crypt16 ks True (crypt16 ks False src) = src"
proof -
  obtain dst where "cryptBlock ks src False = Some dst" "length dst = 16" "cryptBlock ks dst True = Some src"
    using cryptBlock_ok [OF assms] by blast
  then show "length (crypt16 ks False src) = 16" "crypt16 ks True (crypt16 ks False src) = src"
    by (simp_all add: crypt16_def)
qed

lemma CryptBlocks_inverse:
  assumes "length src = 16 * n" and "length iv = 16"
  shows "\<exists>dst iv'. cbcEncrypter_CryptBlocks ks iv n src = (dst, iv') \<and> length dst = 16 * n \<and> length iv' = 16 \<and>
    cbcDecrypter_CryptBlocks ks iv n dst = (src, iv')"
  using assms
proof (induction n arbitrary: iv src)
  case (Suc n)
  note f = first_block [OF Suc.prems(1)]
  define b where "b = crypt16 ks False (map2 (XOR) (take 16 src) iv)"
  have b: "length b = 16" "crypt16 ks True b = map2 (XOR) (take 16 src) iv"
    using crypt16_block [of "map2 (XOR) (take 16 src) iv" ks] f Suc.prems(2) by (simp_all add: b_def)
  have x: "map2 (XOR) (map2 (XOR) (take 16 src) iv) iv = take 16 src"
    using f Suc.prems(2) by (intro map2_xor_twice) simp
  obtain dst iv' where d: "cbcEncrypter_CryptBlocks ks b n (drop 16 src) = (dst, iv')" "length dst = 16 * n" "length iv' = 16"
    "cbcDecrypter_CryptBlocks ks b n dst = (drop 16 src, iv')"
    using Suc.IH [OF f(2) b(1)] by blast
  show ?case
    using d b f x by (simp add: b_def [symmetric] Let_def)
qed simp

lemma CryptBlocks_append:
  assumes "length q1 = 16 * n1" and "cbcDecrypter_CryptBlocks ks iv n1 q1 = (x1, iv1)"
    and "cbcDecrypter_CryptBlocks ks iv1 n2 q2 = (x2, iv2)"
  shows "cbcDecrypter_CryptBlocks ks iv (n1 + n2) (q1 @ q2) = (x1 @ x2, iv2)"
  using assms
proof (induction n1 arbitrary: iv q1 x1)
  case (Suc n)
  obtain bs where bs: "cbcDecrypter_CryptBlocks ks (take 16 q1) n (drop 16 q1) = (bs, iv1)"
    "x1 = map2 (XOR) (crypt16 ks True (take 16 q1)) iv @ bs"
    using Suc.prems(2) by (auto simp: Let_def split: prod.splits)
  have "cbcDecrypter_CryptBlocks ks (take 16 q1) (n + n2) (drop 16 q1 @ q2) = (bs @ x2, iv2)"
    using Suc.prems bs(1) by (intro Suc.IH) simp_all
  then show ?case using Suc.prems(1) bs(2) by (simp add: Let_def)
qed simp

interpretation gm: record_ciphers sm4_ciphers "\<lambda>_ _. False" "\<lambda>_ _. False" sm4_sync
proof unfold_locales
  fix c d :: cbc_mode and p q :: bytes and c'
  assume s: "sm4_sync c d" and dv: "cbc_BlockSize sm4_ciphers c dvd length p" and q: "CryptBlocks sm4_ciphers c p = (q, c')"
  define n where "n = length p div 16"
  have n: "length p = 16 * n" using dv by (auto simp: sm4_ciphers_def BlockSize_def n_def)
  obtain dst iv' where d: "cbcEncrypter_CryptBlocks (cbc_keys c) (cbc_vec c) n p = (dst, iv')" "length dst = 16 * n" "length iv' = 16"
    "cbcDecrypter_CryptBlocks (cbc_keys c) (cbc_vec c) n dst = (p, iv')"
    using CryptBlocks_inverse [OF n, of "cbc_vec c" "cbc_keys c"] s by (auto simp: sm4_sync_def)
  have qd: "q = dst" "c' = c\<lparr>cbc_vec := iv'\<rparr>"
    using q s d n by (simp_all add: sm4_ciphers_def BlockSize_def sm4_sync_def)
  have "CryptBlocks sm4_ciphers d q = (p, d\<lparr>cbc_vec := iv'\<rparr>)"
    using s d qd by (simp add: sm4_ciphers_def BlockSize_def sm4_sync_def)
  moreover have "sm4_sync c' (d\<lparr>cbc_vec := iv'\<rparr>)" using s d(3) qd by (simp add: sm4_sync_def)
  ultimately show "length q = length p \<and> cbc_BlockSize sm4_ciphers c' = cbc_BlockSize sm4_ciphers c \<and>
      (\<exists>d'. CryptBlocks sm4_ciphers d q = (p, d') \<and> sm4_sync c' d')"
    using d(2) qd n by (simp add: sm4_ciphers_def)
next
  fix c d :: cbc_mode and q1 q2 x1 x2 :: bytes and d1 d2
  assume s: "sm4_sync c d" and dv: "cbc_BlockSize sm4_ciphers c dvd length q1" "cbc_BlockSize sm4_ciphers c dvd length q2"
    and q: "CryptBlocks sm4_ciphers d q1 = (x1, d1)" "CryptBlocks sm4_ciphers d1 q2 = (x2, d2)"
  define n1 n2 where "n1 = length q1 div 16" and "n2 = length q2 div 16"
  have n: "length q1 = 16 * n1" "length q2 = 16 * n2" using dv by (auto simp: sm4_ciphers_def BlockSize_def n1_def n2_def)
  obtain iv1 where i1: "cbcDecrypter_CryptBlocks (cbc_keys d) (cbc_vec d) n1 q1 = (x1, iv1)" "d1 = d\<lparr>cbc_vec := iv1\<rparr>"
    using q(1) s n by (auto simp: sm4_ciphers_def BlockSize_def sm4_sync_def split: prod.splits)
  obtain iv2 where i2: "cbcDecrypter_CryptBlocks (cbc_keys d) iv1 n2 q2 = (x2, iv2)" "d2 = d\<lparr>cbc_vec := iv2\<rparr>"
    using q(2) s n i1(2) by (auto simp: sm4_ciphers_def BlockSize_def sm4_sync_def split: prod.splits)
  have "length (q1 @ q2) div 16 = n1 + n2" using n by simp
  then show "CryptBlocks sm4_ciphers d (q1 @ q2) = (x1 @ x2, d2)"
    using CryptBlocks_append [OF n(1) i1(1) i2(1)] s i2(2) by (simp add: sm4_ciphers_def BlockSize_def sm4_sync_def)
qed (simp_all add: sm4_ciphers_def sm4_sync_def BlockSize_def)

end
