(* ===== verification/TlsPrf.thy ===== *)
theory TlsPrf
  imports TlsSuites
begin

text \<open>
  Key derivation: \<open>crypto/gmsm/gmtls/prf.go\<close>, the national suites of \<open>gm_support.go\<close>, and the two functions
  \<open>establishKeys\<close> of the handshakes. The hash functions of the Go library are the parameter \<open>hashes\<close>; \<open>sm3\<close> is the one
  of the repository. A \<open>hash.Hash\<close> is its function with the bytes written since its last reset; a method called on a
  nil one panics. A pseudo-random function gets the slice \<open>result\<close> and returns it filled, \<open>None\<close> is a panic or a loop
  that does not end.
\<close>

section \<open>Hash functions\<close>

record hashes =
  md5_sum :: "bytes \<Rightarrow> bytes"
  sha1_sum :: "bytes \<Rightarrow> bytes"
  sha256_sum :: "bytes \<Rightarrow> bytes"
  sha384_sum :: "bytes \<Rightarrow> bytes"
  sha512_sum :: "bytes \<Rightarrow> bytes"

text \<open>\<open>NilMD5\<close> is the \<open>nilMD5Hash\<close> of \<open>gm_support.go\<close>, which ignores what is written and has a nil digest.\<close>

datatype hash_obj = HashObj "bytes \<Rightarrow> bytes" bytes | NilMD5

fun ho_Write :: "bytes \<Rightarrow> hash_obj \<Rightarrow> hash_obj" where
  "ho_Write p (HashObj h d) = HashObj h (d @ p)"
| "ho_Write p NilMD5 = NilMD5"

fun ho_Sum :: "hash_obj \<Rightarrow> bytes \<Rightarrow> bytes" where
  "ho_Sum (HashObj h d) b = b @ h d"
| "ho_Sum NilMD5 b = []"

fun ho_Reset :: "hash_obj \<Rightarrow> hash_obj" where
  "ho_Reset (HashObj h d) = HashObj h []"
| "ho_Reset NilMD5 = NilMD5"

section \<open>The pseudo-random functions\<close>

type_synonym prf_function = "bytes \<Rightarrow> bytes \<Rightarrow> bytes \<Rightarrow> bytes \<Rightarrow> bytes option"

definition splitPreMasterSecret :: "bytes \<Rightarrow> bytes \<times> bytes" where
  "splitPreMasterSecret secret = (take ((length secret + 1) div 2) secret, drop (length secret div 2) secret)"

text \<open>The loop of \<open>pHash\<close>; \<open>mac\<close> is the MAC under the secret.\<close>

partial_function (option) pHash_loop :: "(bytes \<Rightarrow> bytes) \<Rightarrow> bytes \<Rightarrow> bytes \<Rightarrow> nat \<Rightarrow> bytes \<Rightarrow> bytes option" where
  "pHash_loop mac seed a j result =
     (if j < length result then
        let b = mac (a @ seed);
            todo = (if j + length b > length result then length result - j else length b)
        in pHash_loop mac seed (mac a) (j + todo) (copy_at j (take todo b) result)
      else Some result)"

definition pHash :: "bytes \<Rightarrow> bytes \<Rightarrow> bytes \<Rightarrow> (bytes \<Rightarrow> bytes) \<Rightarrow> nat \<Rightarrow> bytes option" where
  "pHash result secret seed h blocksize =
     (let mac = hmac h blocksize secret in pHash_loop mac seed (mac seed) 0 result)"

definition label_and_seed :: "bytes \<Rightarrow> bytes \<Rightarrow> bytes" where
  "label_and_seed label seed =
     copy_at (length label) seed (copy_at 0 label (replicate (length label + length seed) 0))"

definition prf10 :: "hashes \<Rightarrow> prf_function" where
  "prf10 H result secret label seed =
     (let labelAndSeed = label_and_seed label seed; (s1, s2) = splitPreMasterSecret secret in do {
        result \<leftarrow> pHash result s1 labelAndSeed (md5_sum H) 64;
        result2 \<leftarrow> pHash (replicate (length result) 0) s2 labelAndSeed (sha1_sum H) 64;
        Some (map2 (XOR) result result2) })"

definition prf12 :: "(bytes \<Rightarrow> bytes) \<Rightarrow> nat \<Rightarrow> prf_function" where
  "prf12 h blocksize result secret label seed = pHash result secret (label_and_seed label seed) h blocksize"

text \<open>The loop of \<open>prf30\<close> fills the first \<open>i + 1\<close> of eleven bytes; the twelfth round indexes out of range.\<close>

function prf30_loop :: "hashes \<Rightarrow> bytes \<Rightarrow> bytes \<Rightarrow> nat \<Rightarrow> nat \<Rightarrow> bytes \<Rightarrow> bytes option" where
  "prf30_loop H secret seed i finished result =
     (if finished < length result then
        if i \<ge> 11 then None
        else
          let digest = sha1_sum H (replicate (i + 1) (65 + word_of_nat i) @ secret @ seed);
              m = md5_sum H (secret @ digest)
          in prf30_loop H secret seed (i + 1) (finished + min (length result - finished) (length m)) (copy_at finished m result)
      else Some result)"
  by auto
termination by (relation "measure (\<lambda>(H, secret, seed, i, finished, result). 11 - i)") auto

declare prf30_loop.simps [simp del]

definition prf30 :: "hashes \<Rightarrow> prf_function" where
  "prf30 H result secret label seed = prf30_loop H secret seed 0 0 result"

definition masterSecretLength :: nat where "masterSecretLength = 48"
definition finishedVerifyLength :: nat where "finishedVerifyLength = 12"

definition text_bytes :: "string \<Rightarrow> bytes" where
  "text_bytes s = map of_char s"

definition masterSecretLabel :: bytes where "masterSecretLabel = text_bytes ''master secret''"
definition keyExpansionLabel :: bytes where "keyExpansionLabel = text_bytes ''key expansion''"
definition clientFinishedLabel :: bytes where "clientFinishedLabel = text_bytes ''client finished''"
definition serverFinishedLabel :: bytes where "serverFinishedLabel = text_bytes ''server finished''"

section \<open>Cipher suites\<close>

text \<open>A nil function is \<open>None\<close>; a function that panics returns \<open>None\<close>. The key agreement is left out.\<close>

record 'c cipherSuite =
  su_id :: "16 word"
  su_keyLen :: nat
  su_macLen :: nat
  su_ivLen :: nat
  su_flags :: nat
  su_cipher :: "(bytes \<Rightarrow> bytes \<Rightarrow> bool \<Rightarrow> 'c rcipher option) option"
  su_mac :: "(16 word \<Rightarrow> bytes \<Rightarrow> macFunction) option"
  su_aead :: "(bytes \<Rightarrow> bytes \<Rightarrow> 'c rcipher option) option"

definition suiteECDHE :: nat where "suiteECDHE = 1"
definition suiteECDSA :: nat where "suiteECDSA = 2"
definition suiteSHA384 :: nat where "suiteSHA384 = 8"
definition GMTLS_SM2_WITH_SM4_SM3 :: "16 word" where "GMTLS_SM2_WITH_SM4_SM3 = 0xe013"
definition GMTLS_ECDHE_SM2_WITH_SM4_SM3 :: "16 word" where "GMTLS_ECDHE_SM2_WITH_SM4_SM3 = 0xe011"

definition gmCipherSuites :: "cbc_mode cipherSuite list" where
  "gmCipherSuites =
     [\<lparr>su_id = GMTLS_SM2_WITH_SM4_SM3, su_keyLen = 16, su_macLen = 32, su_ivLen = 16, su_flags = suiteECDSA,
       su_cipher = Some cipherSM4, su_mac = Some macSM3, su_aead = None\<rparr>,
      \<lparr>su_id = GMTLS_ECDHE_SM2_WITH_SM4_SM3, su_keyLen = 16, su_macLen = 32, su_ivLen = 16, su_flags = suiteECDHE OR suiteECDSA,
       su_cipher = Some cipherSM4, su_mac = Some macSM3, su_aead = None\<rparr>]"

fun find_suite :: "'c cipherSuite list \<Rightarrow> 16 word \<Rightarrow> 'c cipherSuite option" where
  "find_suite [] want = None"
| "find_suite (suite # suites) want = (if su_id suite = want then Some suite else find_suite suites want)"

fun mutualCipherSuite :: "'c cipherSuite list \<Rightarrow> 16 word list \<Rightarrow> 16 word \<Rightarrow> 'c cipherSuite option" where
  "mutualCipherSuite suites [] want = None"
| "mutualCipherSuite suites (k # have) want =
     (if k = want then find_suite suites want else mutualCipherSuite suites have want)"

definition mutualCipherSuiteGM :: "16 word list \<Rightarrow> 16 word \<Rightarrow> cbc_mode cipherSuite option" where
  "mutualCipherSuiteGM have want = mutualCipherSuite gmCipherSuites have want"

section \<open>Keys\<close>

datatype cryptoHash = Hash0 | SHA1 | SHA256 | SHA384 | SHA512

definition hash_function :: "hashes \<Rightarrow> cryptoHash \<Rightarrow> bytes \<Rightarrow> bytes" where
  "hash_function H k = (case k of
     Hash0 \<Rightarrow> (\<lambda>x. []) | SHA1 \<Rightarrow> sha1_sum H | SHA256 \<Rightarrow> sha256_sum H | SHA384 \<Rightarrow> sha384_sum H | SHA512 \<Rightarrow> sha512_sum H)"

definition prfAndHashForGM :: prf_function where
  "prfAndHashForGM = prf12 sm3_hash sm3_BlockSize"

definition prfAndHashForVersion :: "hashes \<Rightarrow> 16 word \<Rightarrow> 'c cipherSuite \<Rightarrow> (prf_function \<times> cryptoHash) option" where
  "prfAndHashForVersion H version suite =
     (if version = VersionSSL30 then Some (prf30 H, Hash0)
      else if version = VersionTLS10 \<or> version = VersionTLS11 then Some (prf10 H, Hash0)
      else if version = 0x0303 then
        if su_flags suite AND suiteSHA384 \<noteq> 0 then Some (prf12 (sha384_sum H) 128, SHA384)
        else Some (prf12 (sha256_sum H) 64, SHA256)
      else None)"

definition prfForVersion :: "hashes \<Rightarrow> 16 word \<Rightarrow> 'c cipherSuite \<Rightarrow> prf_function option" where
  "prfForVersion H version suite =
     (if version = VersionGMSSL then Some prfAndHashForGM else map_option fst (prfAndHashForVersion H version suite))"

definition masterFromPreMasterSecret ::
    "hashes \<Rightarrow> 16 word \<Rightarrow> 'c cipherSuite \<Rightarrow> bytes \<Rightarrow> bytes \<Rightarrow> bytes \<Rightarrow> bytes option" where
  "masterFromPreMasterSecret H version suite preMasterSecret clientRandom serverRandom = do {
     prf \<leftarrow> prfForVersion H version suite;
     prf (replicate masterSecretLength 0) preMasterSecret masterSecretLabel (clientRandom @ serverRandom) }"

definition keysFromMasterSecret ::
    "hashes \<Rightarrow> 16 word \<Rightarrow> 'c cipherSuite \<Rightarrow> bytes \<Rightarrow> bytes \<Rightarrow> bytes \<Rightarrow> nat \<Rightarrow> nat \<Rightarrow> nat \<Rightarrow>
     (bytes \<times> bytes \<times> bytes \<times> bytes \<times> bytes \<times> bytes) option" where
  "keysFromMasterSecret H version suite masterSecret clientRandom serverRandom macLen keyLen ivLen =
     (let n = 2 * macLen + 2 * keyLen + 2 * ivLen in do {
        prf \<leftarrow> prfForVersion H version suite;
        keyMaterial \<leftarrow> prf (replicate n 0) masterSecret keyExpansionLabel (serverRandom @ clientRandom);
        clientMAC \<leftarrow> slice_to keyMaterial macLen; keyMaterial \<leftarrow> slice_from keyMaterial macLen;
        serverMAC \<leftarrow> slice_to keyMaterial macLen; keyMaterial \<leftarrow> slice_from keyMaterial macLen;
        clientKey \<leftarrow> slice_to keyMaterial keyLen; keyMaterial \<leftarrow> slice_from keyMaterial keyLen;
        serverKey \<leftarrow> slice_to keyMaterial keyLen; keyMaterial \<leftarrow> slice_from keyMaterial keyLen;
        clientIV \<leftarrow> slice_to keyMaterial ivLen; keyMaterial \<leftarrow> slice_from keyMaterial ivLen;
        serverIV \<leftarrow> slice_to keyMaterial ivLen;
        Some (clientMAC, serverMAC, clientKey, serverKey, clientIV, serverIV) })"

text \<open>\<open>establishKeys\<close> of the client and of the server, on the half connections \<open>c.in\<close> and \<open>c.out\<close>. The client asks
  whether the suite has a cipher, the server whether it has no AEAD.\<close>

definition client_establishKeys ::
    "hashes \<Rightarrow> 16 word \<Rightarrow> 'c cipherSuite \<Rightarrow> bytes \<Rightarrow> bytes \<Rightarrow> bytes \<Rightarrow> 'c halfConn \<times> 'c halfConn \<Rightarrow> ('c halfConn \<times> 'c halfConn) option" where
  "client_establishKeys H vers suite masterSecret clientRandom serverRandom = (\<lambda>(c_in, c_out). do {
     (clientMAC, serverMAC, clientKey, serverKey, clientIV, serverIV) \<leftarrow>
       keysFromMasterSecret H vers suite masterSecret clientRandom serverRandom (su_macLen suite) (su_keyLen suite) (su_ivLen suite);
     (clientCipher, clientHash, serverCipher, serverHash) \<leftarrow>
       (case su_cipher suite of
          Some new_cipher \<Rightarrow> do {
            mac \<leftarrow> su_mac suite;
            clientCipher \<leftarrow> new_cipher clientKey clientIV False;
            serverCipher \<leftarrow> new_cipher serverKey serverIV True;
            Some (clientCipher, Some (mac vers clientMAC), serverCipher, Some (mac vers serverMAC)) }
        | None \<Rightarrow> do {
            new_aead \<leftarrow> su_aead suite;
            clientCipher \<leftarrow> new_aead clientKey clientIV;
            serverCipher \<leftarrow> new_aead serverKey serverIV;
            Some (clientCipher, None, serverCipher, None) });
     Some (prepareCipherSpec vers (Some serverCipher) serverHash c_in,
           prepareCipherSpec vers (Some clientCipher) clientHash c_out) })"

definition server_establishKeys ::
    "hashes \<Rightarrow> 16 word \<Rightarrow> 'c cipherSuite \<Rightarrow> bytes \<Rightarrow> bytes \<Rightarrow> bytes \<Rightarrow> 'c halfConn \<times> 'c halfConn \<Rightarrow> ('c halfConn \<times> 'c halfConn) option" where
  "server_establishKeys H vers suite masterSecret clientRandom serverRandom = (\<lambda>(c_in, c_out). do {
     (clientMAC, serverMAC, clientKey, serverKey, clientIV, serverIV) \<leftarrow>
       keysFromMasterSecret H vers suite masterSecret clientRandom serverRandom (su_macLen suite) (su_keyLen suite) (su_ivLen suite);
     (clientCipher, clientHash, serverCipher, serverHash) \<leftarrow>
       (case su_aead suite of
          None \<Rightarrow> do {
            new_cipher \<leftarrow> su_cipher suite;
            mac \<leftarrow> su_mac suite;
            clientCipher \<leftarrow> new_cipher clientKey clientIV True;
            serverCipher \<leftarrow> new_cipher serverKey serverIV False;
            Some (clientCipher, Some (mac vers clientMAC), serverCipher, Some (mac vers serverMAC)) }
        | Some new_aead \<Rightarrow> do {
            clientCipher \<leftarrow> new_aead clientKey clientIV;
            serverCipher \<leftarrow> new_aead serverKey serverIV;
            Some (clientCipher, None, serverCipher, None) });
     Some (prepareCipherSpec vers (Some clientCipher) clientHash c_in,
           prepareCipherSpec vers (Some serverCipher) serverHash c_out) })"

section \<open>The hash of the handshake\<close>

record finishedHash =
  fh_client :: hash_obj
  fh_server :: hash_obj
  fh_clientMD5 :: "hash_obj option"
  fh_serverMD5 :: "hash_obj option"
  fh_buffer :: "bytes option"
  fh_version :: "16 word"
  fh_prf :: prf_function

definition newFinishedHash :: "hashes \<Rightarrow> 16 word \<Rightarrow> 'c cipherSuite \<Rightarrow> finishedHash option" where
  "newFinishedHash H version suite =
     (let buffer = (if version = VersionSSL30 \<or> version \<ge> 0x0303 then Some [] else None) in
      if version = VersionGMSSL then
        Some \<lparr>fh_client = HashObj sm3_hash [], fh_server = HashObj sm3_hash [], fh_clientMD5 = None, fh_serverMD5 = None,
              fh_buffer = buffer, fh_version = version, fh_prf = prfAndHashForGM\<rparr>
      else do {
        (prf, h) \<leftarrow> prfAndHashForVersion H version suite;
        Some (if h \<noteq> Hash0 then
          \<lparr>fh_client = HashObj (hash_function H h) [], fh_server = HashObj (hash_function H h) [],
           fh_clientMD5 = None, fh_serverMD5 = None, fh_buffer = buffer, fh_version = version, fh_prf = prf\<rparr>
        else
          \<lparr>fh_client = HashObj (sha1_sum H) [], fh_server = HashObj (sha1_sum H) [],
           fh_clientMD5 = Some (HashObj (md5_sum H) []), fh_serverMD5 = Some (HashObj (md5_sum H) []),
           fh_buffer = buffer, fh_version = version, fh_prf = prf\<rparr>) })"

definition newFinishedHashGM :: finishedHash where
  "newFinishedHashGM =
     \<lparr>fh_client = HashObj sm3_hash [], fh_server = HashObj sm3_hash [], fh_clientMD5 = Some NilMD5, fh_serverMD5 = Some NilMD5,
      fh_buffer = Some [], fh_version = VersionGMSSL, fh_prf = prf12 sm3_hash sm3_BlockSize\<rparr>"

definition fh_Write :: "bytes \<Rightarrow> finishedHash \<Rightarrow> finishedHash option" where
  "fh_Write msg h =
     (let h = h\<lparr>fh_client := ho_Write msg (fh_client h), fh_server := ho_Write msg (fh_server h)\<rparr> in do {
        h \<leftarrow> (if fh_version h < 0x0303 then do {
                c \<leftarrow> fh_clientMD5 h;
                s \<leftarrow> fh_serverMD5 h;
                Some (h\<lparr>fh_clientMD5 := Some (ho_Write msg c), fh_serverMD5 := Some (ho_Write msg s)\<rparr>) }
              else Some h);
        Some (h\<lparr>fh_buffer := map_option (\<lambda>b. b @ msg) (fh_buffer h)\<rparr>) })"

definition fh_Sum :: "finishedHash \<Rightarrow> bytes option" where
  "fh_Sum h =
     (if fh_version h \<ge> 0x0303 \<or> fh_version h = VersionGMSSL then Some (ho_Sum (fh_client h) [])
      else do { m \<leftarrow> fh_clientMD5 h; Some (ho_Sum (fh_client h) (ho_Sum m [])) })"

text \<open>The result and the two hashes, which are left in the middle of their second use.\<close>

definition finishedSum30 :: "hash_obj \<Rightarrow> hash_obj \<Rightarrow> bytes \<Rightarrow> bytes \<Rightarrow> bytes \<times> hash_obj \<times> hash_obj" where
  "finishedSum30 md5 sha1 masterSecret magic =
     (let md5 = ho_Write (take 48 ssl30Pad1) (ho_Write masterSecret (ho_Write magic md5));
          md5Digest = ho_Sum md5 [];
          md5 = ho_Write md5Digest (ho_Write (take 48 ssl30Pad2) (ho_Write masterSecret (ho_Reset md5)));
          md5Digest = ho_Sum md5 [];
          sha1 = ho_Write (take 40 ssl30Pad1) (ho_Write masterSecret (ho_Write magic sha1));
          sha1Digest = ho_Sum sha1 [];
          sha1 = ho_Write sha1Digest (ho_Write (take 40 ssl30Pad2) (ho_Write masterSecret (ho_Reset sha1)));
          sha1Digest = ho_Sum sha1 []
      in (md5Digest @ sha1Digest, md5, sha1))"

definition ssl3ClientFinishedMagic :: bytes where "ssl3ClientFinishedMagic = [0x43, 0x4c, 0x4e, 0x54]"
definition ssl3ServerFinishedMagic :: bytes where "ssl3ServerFinishedMagic = [0x53, 0x52, 0x56, 0x52]"

definition clientSum :: "bytes \<Rightarrow> finishedHash \<Rightarrow> (bytes \<times> finishedHash) option" where
  "clientSum masterSecret h =
     (if fh_version h = VersionSSL30 then do {
        m \<leftarrow> fh_clientMD5 h;
        let (out, m, s) = finishedSum30 m (fh_client h) masterSecret ssl3ClientFinishedMagic;
        Some (out, h\<lparr>fh_clientMD5 := Some m, fh_client := s\<rparr>) }
      else do {
        sum \<leftarrow> fh_Sum h;
        out \<leftarrow> fh_prf h (replicate finishedVerifyLength 0) masterSecret clientFinishedLabel sum;
        Some (out, h) })"

definition serverSum :: "bytes \<Rightarrow> finishedHash \<Rightarrow> (bytes \<times> finishedHash) option" where
  "serverSum masterSecret h =
     (if fh_version h = VersionSSL30 then do {
        m \<leftarrow> fh_serverMD5 h;
        let (out, m, s) = finishedSum30 m (fh_server h) masterSecret ssl3ServerFinishedMagic;
        Some (out, h\<lparr>fh_serverMD5 := Some m, fh_server := s\<rparr>) }
      else do {
        sum \<leftarrow> fh_Sum h;
        out \<leftarrow> fh_prf h (replicate finishedVerifyLength 0) masterSecret serverFinishedLabel sum;
        Some (out, h) })"

definition discardHandshakeBuffer :: "finishedHash \<Rightarrow> finishedHash" where
  "discardHandshakeBuffer h = h\<lparr>fh_buffer := None\<rparr>"

text \<open>\<open>hashForClientCertificate\<close>: \<open>None\<close> is the panic after the buffer was discarded, \<open>Inl\<close> the error for another type of
  signature.\<close>

definition signaturePKCS1v15 :: byte where "signaturePKCS1v15 = 16"
definition signatureECDSA :: byte where "signatureECDSA = 17"

definition hashForClientCertificate :: "hashes \<Rightarrow> byte \<Rightarrow> cryptoHash \<Rightarrow> bytes \<Rightarrow> finishedHash \<Rightarrow> (unit + bytes) option" where
  "hashForClientCertificate H sigType hashAlg masterSecret h =
     (if (fh_version h = VersionSSL30 \<or> fh_version h \<ge> 0x0303) \<and> fh_buffer h = None then None
      else
        let buffer = (case fh_buffer h of None \<Rightarrow> [] | Some b \<Rightarrow> b) in
        if fh_version h = VersionSSL30 then
          if sigType \<noteq> signaturePKCS1v15 then Some (Inl ())
          else Some (Inr (fst (finishedSum30 (HashObj (md5_sum H) buffer) (HashObj (sha1_sum H) buffer) masterSecret [])))
        else if fh_version h \<ge> 0x0303 then
          if hashAlg = Hash0 then None else Some (Inr (hash_function H hashAlg buffer))
        else if sigType = signatureECDSA then Some (Inr (ho_Sum (fh_server h) []))
        else map_option Inr (fh_Sum h))"

text \<open>\<open>ekmFromMasterSecret\<close>; a nil context is \<open>None\<close>.\<close>

datatype ekm_error = ReservedLabel bytes | ContextTooLong

definition ekmFromMasterSecret ::
    "hashes \<Rightarrow> 16 word \<Rightarrow> 'c cipherSuite \<Rightarrow> bytes \<Rightarrow> bytes \<Rightarrow> bytes \<Rightarrow> bytes \<Rightarrow> bytes option \<Rightarrow> nat \<Rightarrow> (ekm_error + bytes) option" where
  "ekmFromMasterSecret H version suite masterSecret clientRandom serverRandom label context len =
     (if label \<in> {clientFinishedLabel, serverFinishedLabel, masterSecretLabel, keyExpansionLabel} then Some (Inl (ReservedLabel label))
      else if (case context of None \<Rightarrow> False | Some c \<Rightarrow> length c \<ge> 65536) then Some (Inl ContextTooLong)
      else
        let seed = clientRandom @ serverRandom @ (case context of None \<Rightarrow> [] | Some c \<Rightarrow> [byte1 (length c), byte0 (length c)] @ c)
        in do {
          prf \<leftarrow> prfForVersion H version suite;
          keyMaterial \<leftarrow> prf (replicate len 0) masterSecret label seed;
          Some (Inr keyMaterial) })"

end
