(* ===== verification/TlsPrfLaws.thy ===== *)
theory TlsPrfLaws
  imports TlsPrf
begin

text \<open>The pseudo-random function against its definition in the standard, and the keys of the two sides.\<close>

section \<open>P_hash\<close>

text \<open>The blocks of \<open>P_hash\<close> of RFC 4346: \<open>a\<close> is \<open>A(i)\<close>.\<close>

fun P_blocks :: "(bytes \<Rightarrow> bytes) \<Rightarrow> bytes \<Rightarrow> bytes \<Rightarrow> nat \<Rightarrow> bytes" where
  "P_blocks mac seed a 0 = []"
| "P_blocks mac seed a (Suc n) = mac (a @ seed) @ P_blocks mac seed (mac a) n"

definition P_hash :: "(bytes \<Rightarrow> bytes) \<Rightarrow> bytes \<Rightarrow> nat \<Rightarrow> bytes" where
  "P_hash mac seed n = take n (P_blocks mac seed (mac seed) n)"

lemma length_P_blocks: "(\<And>x. length (mac x) = k) \<Longrightarrow> length (P_blocks mac seed a n) = n * k"
  by (induction n arbitrary: a) simp_all

lemma pHash_loop_correct:
  assumes "\<And>x. length (mac x) = k" and "0 < k"
  shows "j \<le> length result \<Longrightarrow> length result - j \<le> n \<Longrightarrow>
    pHash_loop mac seed a j result = Some (take j result @ take (length result - j) (P_blocks mac seed a n))"
proof (induction n arbitrary: a j result)
  case 0
  then show ?case by (subst pHash_loop.simps) simp
next
  case (Suc n)
  show ?case
  proof (cases "j < length result")
    case True
    define b where "b = mac (a @ seed)"
    define todo where "todo = (if j + length b > length result then length result - j else length b)"
    have b: "length b = k" using assms by (simp add: b_def)
    have todo: "0 < todo" "j + todo \<le> length result" "todo \<le> k" "todo < k \<Longrightarrow> j + todo = length result"
      using True b assms(2) by (auto simp: todo_def)
    let ?r = "copy_at j (take todo b) result"
    have r: "take (j + todo) ?r = take j result @ take todo b"
      using todo b True by (simp add: copy_at_def)
    have "pHash_loop mac seed a j result = pHash_loop mac seed (mac a) (j + todo) ?r"
      using True by (subst pHash_loop.simps) (simp add: Let_def b_def todo_def)
    also have "\<dots> = Some (take (j + todo) ?r @ take (length ?r - (j + todo)) (P_blocks mac seed (mac a) n))"
      using Suc.prems todo by (intro Suc.IH) simp_all
    also have "\<dots> = Some (take j result @ take todo b @ take (length result - (j + todo)) (P_blocks mac seed (mac a) n))"
      unfolding r by simp
    also have "take todo b @ take (length result - (j + todo)) (P_blocks mac seed (mac a) n) =
        take (length result - j) (b @ P_blocks mac seed (mac a) n)"
    proof (cases "todo < k")
      case True
      then have "length result - j = todo" using todo(4) by simp
      then show ?thesis using todo(4) [OF True] True b by simp
    next
      case False
      then show ?thesis using todo b by (simp add: diff_diff_add)
    qed
    finally show ?thesis by (simp add: b_def)
  next
    case False
    with Suc.prems have "j = length result" by simp
    then show ?thesis by (subst pHash_loop.simps) simp
  qed
qed

lemma pHash_correct:
  assumes "\<And>x. length (h x) = k" and "0 < k"
  shows "pHash result secret seed h blocksize = Some (P_hash (hmac h blocksize secret) seed (length result))"
proof -
  have "\<And>x. length (hmac h blocksize secret x) = k" using assms by (simp add: hmac_def Let_def)
  then show ?thesis
    using pHash_loop_correct [of "hmac h blocksize secret" k 0 result "length result"] assms
    by (simp add: pHash_def P_hash_def Let_def)
qed

lemma label_and_seed_eq [simp]: "label_and_seed label seed = label @ seed"
  by (simp add: label_and_seed_def copy_at_def)

lemma length_P_hash: "(\<And>x. length (mac x) = k) \<Longrightarrow> 0 < k \<Longrightarrow> length (P_hash mac seed n) = n"
  using length_P_blocks [of mac k seed "mac seed" n] by (cases k) (simp_all add: P_hash_def)

text \<open>A longer output extends a shorter one.\<close>

lemma P_blocks_append: "P_blocks mac seed a (m + n) = P_blocks mac seed a m @ P_blocks mac seed ((mac ^^ m) a) n"
  by (induction m arbitrary: a) (simp_all add: funpow_swap1)

lemma prf12_GM: "prfAndHashForGM result secret label seed =
    Some (P_hash (hmac sm3_hash sm3_BlockSize secret) (label @ seed) (length result))"
  using pHash_correct [of sm3_hash 32] length_sm3_hash by (simp add: prfAndHashForGM_def prf12_def)

section \<open>The keys of the national suites\<close>

lemma length_GM_stream: "length (P_hash (hmac sm3_hash sm3_BlockSize secret) seed n) = n"
  by (rule length_P_hash [where k = 32]) (simp_all add: hmac_def Let_def length_sm3_hash)

definition gm_keys :: "bytes \<Rightarrow> bytes \<Rightarrow> bytes \<Rightarrow> bytes" where
  "gm_keys masterSecret clientRandom serverRandom =
     P_hash (hmac sm3_hash sm3_BlockSize masterSecret) (keyExpansionLabel @ serverRandom @ clientRandom) 128"

lemma keysFromMasterSecret_GM:
  "keysFromMasterSecret H VersionGMSSL suite masterSecret clientRandom serverRandom 32 16 16 =
    (let k = gm_keys masterSecret clientRandom serverRandom in
     Some (subslice 0 32 k, subslice 32 64 k, subslice 64 80 k, subslice 80 96 k, subslice 96 112 k, subslice 112 128 k))"
proof -
  define k where "k = gm_keys masterSecret clientRandom serverRandom"
  have l: "length k = 128" by (simp add: k_def gm_keys_def length_GM_stream)
  have "prfAndHashForGM (replicate 128 0) masterSecret keyExpansionLabel (serverRandom @ clientRandom) = Some k"
    by (simp add: prf12_GM k_def gm_keys_def)
  then show ?thesis
    using l by (simp add: keysFromMasterSecret_def prfForVersion_def k_def [symmetric] Let_def slice_to_def slice_from_def subslice_def)
qed

lemma gmCipherSuites_eq:
  assumes "suite \<in> set gmCipherSuites"
  shows "su_keyLen suite = 16" "su_macLen suite = 32" "su_ivLen suite = 16"
    "su_cipher suite = Some cipherSM4" "su_mac suite = Some macSM3" "su_aead suite = None"
  using assms by (auto simp: gmCipherSuites_def)

lemma cipherSM4_ok:
  assumes "length key = 16" and "length iv = 16"
  obtains ks where "\<And>isRead. cipherSM4 key iv isRead = Some (CbcCipher \<lparr>cbc_keys = ks, cbc_vec = iv, cbc_reads = isRead\<rparr>)"
  using NewCipher_ok [OF assms(1)] assms(2) by (auto simp: cipherSM4_def BlockSize_def)

lemma sm4_block [simp]: "cbc_BlockSize sm4_ciphers c = 16"
  by (simp add: sm4_ciphers_def BlockSize_def)

lemma macSM3_size: "mac_Size (macSM3 version key) = 32"
  by (simp add: macSM3_def mac_Size_def sm3_Size_def)

text \<open>The half connections after \<open>establishKeys\<close> and \<open>changeCipherSpec\<close> on both sides.\<close>

lemma changeCipherSpec_prepared:
  "changeCipherSpec (prepareCipherSpec v (Some c) f hc) =
    Inr (hc\<lparr>hc_version := v, hc_cipher := Some c, hc_mac := f, hc_nextCipher := None, hc_nextMac := None,
           hc_seq := replicate (length (hc_seq hc)) 0\<rparr>)"
  by (simp add: changeCipherSpec_def prepareCipherSpec_def)

lemma gm_establishKeys:
  assumes "suite \<in> set gmCipherSuites"
    and "length (hc_seq c_in) = 8" "length (hc_seq c_out) = 8" "length (hc_seq s_in) = 8" "length (hc_seq s_out) = 8"
  obtains c_in' c_out' s_in' s_out' c_in2 c_out2 s_in2 s_out2 where
    "client_establishKeys H VersionGMSSL suite ms cr sr (c_in, c_out) = Some (c_in', c_out')"
    and "server_establishKeys H VersionGMSSL suite ms cr sr (s_in, s_out) = Some (s_in', s_out')"
    and "changeCipherSpec c_in' = Inr c_in2" and "changeCipherSpec c_out' = Inr c_out2"
    and "changeCipherSpec s_in' = Inr s_in2" and "changeCipherSpec s_out' = Inr s_out2"
    and "gm.hc_sync c_out2 s_in2" and "gm.hc_sync s_out2 c_in2"
    and "gm.is_cbc c_out2" and "gm.is_cbc s_out2" and "gm.mac_length c_out2 = 32" and "gm.mac_length s_out2 = 32"
    and "hc_seq c_out2 = replicate 8 0" and "hc_seq s_out2 = replicate 8 0"
proof -
  note su = gmCipherSuites_eq [OF assms(1)]
  define k where "k = gm_keys ms cr sr"
  have l: "length k = 128" by (simp add: k_def gm_keys_def length_GM_stream)
  obtain ck where ck: "\<And>r. cipherSM4 (subslice 64 80 k) (subslice 96 112 k) r =
      Some (CbcCipher \<lparr>cbc_keys = ck, cbc_vec = subslice 96 112 k, cbc_reads = r\<rparr>)"
    using cipherSM4_ok [of "subslice 64 80 k" "subslice 96 112 k"] l by auto
  obtain sk where sk: "\<And>r. cipherSM4 (subslice 80 96 k) (subslice 112 128 k) r =
      Some (CbcCipher \<lparr>cbc_keys = sk, cbc_vec = subslice 112 128 k, cbc_reads = r\<rparr>)"
    using cipherSM4_ok [of "subslice 80 96 k" "subslice 112 128 k"] l by auto
  note keys = keysFromMasterSecret_GM [of H suite ms cr sr, folded k_def, unfolded Let_def]
  have c: "client_establishKeys H VersionGMSSL suite ms cr sr (c_in, c_out) =
    Some (prepareCipherSpec VersionGMSSL (Some (CbcCipher \<lparr>cbc_keys = sk, cbc_vec = subslice 112 128 k, cbc_reads = True\<rparr>))
            (Some (macSM3 VersionGMSSL (subslice 32 64 k))) c_in,
          prepareCipherSpec VersionGMSSL (Some (CbcCipher \<lparr>cbc_keys = ck, cbc_vec = subslice 96 112 k, cbc_reads = False\<rparr>))
            (Some (macSM3 VersionGMSSL (subslice 0 32 k))) c_out)"
    by (simp add: client_establishKeys_def su keys ck sk)
  have s: "server_establishKeys H VersionGMSSL suite ms cr sr (s_in, s_out) =
    Some (prepareCipherSpec VersionGMSSL (Some (CbcCipher \<lparr>cbc_keys = ck, cbc_vec = subslice 96 112 k, cbc_reads = True\<rparr>))
            (Some (macSM3 VersionGMSSL (subslice 0 32 k))) s_in,
          prepareCipherSpec VersionGMSSL (Some (CbcCipher \<lparr>cbc_keys = sk, cbc_vec = subslice 112 128 k, cbc_reads = False\<rparr>))
            (Some (macSM3 VersionGMSSL (subslice 32 64 k))) s_out)"
    by (simp add: server_establishKeys_def su keys ck sk)
  show ?thesis
    by (rule that [OF c s changeCipherSpec_prepared changeCipherSpec_prepared changeCipherSpec_prepared changeCipherSpec_prepared])
      (use assms(2-5) l in \<open>simp_all add: changeCipherSpec_prepared gm.hc_sync_def gm.is_cbc_def sm4_sync_def macSM3_ok
        gm.mac_length_def macSM3_size\<close>)
qed

end
