(* ===== verification/TlsConnWrite.thy ===== *)
theory TlsConnWrite
  imports TlsConn TlsPrfLaws
begin

text \<open>What a connection with a national suite sends: records that the half connection in step with it decrypts.\<close>

section \<open>Records on the wire\<close>

text \<open>\<open>r\<close> is a record of type \<open>t\<close> and version \<open>v\<close>, which \<open>inn\<close> decrypts to \<open>p\<close> and is \<open>inn'\<close> afterwards. \<open>wire\<close> is a
  sequence of such records of application data.\<close>

definition sealed :: "'c ciphers \<Rightarrow> 16 word \<Rightarrow> byte \<Rightarrow> 'c halfConn \<Rightarrow> bytes \<Rightarrow> bytes \<Rightarrow> 'c halfConn \<Rightarrow> bool" where
  "sealed E v t inn r p inn' \<longleftrightarrow> (\<exists>body y off.
     r = [t, hi16 v, lo16 v, byte1 (length body), byte0 (length body)] @ body \<and> length body \<le> maxCiphertext \<and>
     decrypt E inn r = Some (inn', y, Inr off) \<and> off \<le> length y \<and> drop off y = p \<and> p \<noteq> [] \<and> length p \<le> maxPlaintext \<and>
     hc_err inn' = hc_err inn)"

inductive wire :: "'c ciphers \<Rightarrow> 16 word \<Rightarrow> 'c halfConn \<Rightarrow> bytes \<Rightarrow> bytes list \<Rightarrow> 'c halfConn \<Rightarrow> bool" for E v where
  wire_end: "wire E v inn [] [] inn"
| wire_record: "\<lbrakk>sealed E v recordTypeApplicationData inn r p inn'; wire E v inn' w ps inn''\<rbrakk> \<Longrightarrow> wire E v inn (r @ w) (p # ps) inn''"

inductive_cases wire_consE: "wire E v inn w (p # ps) inn'"
inductive_cases wire_emptyE: "wire E v inn w [] inn'"

lemma wire_append:
  "wire E v inn w ps inn' \<Longrightarrow> wire E v inn' w2 ps2 inn'' \<Longrightarrow> wire E v inn (w @ w2) (ps @ ps2) inn''"
  by (induction rule: wire.induct) (auto intro: wire.wire_record)

section \<open>The size of a record\<close>

definition gm_ready :: "cbc_mode halfConn \<Rightarrow> bool" where
  "gm_ready out \<longleftrightarrow> hc_version out = VersionGMSSL \<and> gm.is_cbc out \<and> gm.mac_length out = 32"

text \<open>Before the change of the cipher nothing is encrypted.\<close>

definition plain :: "'c halfConn \<Rightarrow> bool" where
  "plain out \<longleftrightarrow> hc_cipher out = None \<and> hc_mac out = None"

definition able :: "byte \<Rightarrow> cbc_mode halfConn \<Rightarrow> bool" where
  "able t out \<longleftrightarrow> gm_ready out \<or> plain out \<and> t \<noteq> recordTypeApplicationData"

text \<open>The network takes all that is written, and random bytes can be had.\<close>

definition writes_all :: "'c world \<Rightarrow> bool" where
  "writes_all W \<longleftrightarrow> (\<forall>s d. w_Write W s d = (length d, None)) \<and> (\<forall>i n. \<exists>iv. w_rand W i n = Some iv \<and> length iv = n)"

lemma gm_explicitIV:
  assumes "gm_ready out" and "w_ciphers W = sm4_ciphers"
  shows "explicitIV_of W out = (16, False)" and "gm.explicit_length out = 16" and "gm.expansion out = 16"
  using assms
  by (auto simp: gm_ready_def explicitIV_of_def gm.is_cbc_def gm.explicit_length_def gm.expansion_def
      split: option.splits rcipher.splits)

lemma explicitIV:
  assumes "able t out" and "w_ciphers W = sm4_ciphers"
  shows "explicitIV_of W out = (gm.explicit_length out, False)"
    and "gm.explicit_length out + gm.mac_length out + gm.expansion out \<le> 64"
  using assms gm_explicitIV [of out W]
  by (auto simp: able_def plain_def explicitIV_of_def gm.explicit_length_def gm.expansion_def gm.mac_length_def gm_ready_def)

lemma gm_maxPayload:
  assumes "gm_ready (cn_out c)" and "w_ciphers W = sm4_ciphers"
  obtains k p where "maxPayloadSizeForWrite W recordTypeApplicationData 16 c = (int k, c\<lparr>cn_packetsSent := p\<rparr>)"
    and "0 < k" and "k \<le> maxPlaintext"
proof -
  obtain x where x: "hc_cipher (cn_out c) = Some (CbcCipher x)"
    using assms(1) by (auto simp: gm_ready_def gm.is_cbc_def split: option.splits rcipher.splits)
  have m: "(case hc_mac (cn_out c) of None \<Rightarrow> 0 | Some f \<Rightarrow> int (mac_Size f)) = 32"
    using assms(1) by (auto simp: gm_ready_def gm.mac_length_def split: option.splits)
  have a: "((1208 - 5 - 16) AND NOT (16 - 1 :: int)) - 1 - 32 = 1151" by simp
  let ?pkt = "cn_packetsSent c" let ?n = "1151 * (int ?pkt + 1)"
  have "maxPayloadSizeForWrite W recordTypeApplicationData 16 c =
    (if cn_DynamicRecordSizingDisabled c \<or> cn_bytesSent c \<ge> recordSizeBoostThreshold then (int maxPlaintext, c)
     else if ?pkt > 1000 then (int maxPlaintext, c\<lparr>cn_packetsSent := ?pkt + 1\<rparr>)
     else (if ?n > int maxPlaintext then int maxPlaintext else ?n, c\<lparr>cn_packetsSent := ?pkt + 1\<rparr>))"
    using a by (simp add: maxPayloadSizeForWrite_def m x assms(2) Let_def tcpMSSEstimate_def recordHeaderLen_def)
  note e = this
  have z: "c = c\<lparr>cn_packetsSent := cn_packetsSent c\<rparr>" by simp
  consider "cn_DynamicRecordSizingDisabled c \<or> cn_bytesSent c \<ge> recordSizeBoostThreshold"
    | "\<not> (cn_DynamicRecordSizingDisabled c \<or> cn_bytesSent c \<ge> recordSizeBoostThreshold)" "?pkt > 1000 \<or> ?n > int maxPlaintext"
    | "\<not> (cn_DynamicRecordSizingDisabled c \<or> cn_bytesSent c \<ge> recordSizeBoostThreshold)" "\<not> ?pkt > 1000" "\<not> ?n > int maxPlaintext"
    by blast
  then show ?thesis
  proof cases
    case 1
    then show ?thesis
      using that [of maxPlaintext "?pkt"] e z by (simp only: if_True) (simp add: maxPlaintext_def)
  next
    case 2
    then have "maxPayloadSizeForWrite W recordTypeApplicationData 16 c = (int maxPlaintext, c\<lparr>cn_packetsSent := ?pkt + 1\<rparr>)"
      using e by (simp only: if_False) auto
    then show ?thesis using that [of maxPlaintext "?pkt + 1"] by (simp add: maxPlaintext_def)
  next
    case 3
    then have "maxPayloadSizeForWrite W recordTypeApplicationData 16 c = (int (1151 * (?pkt + 1)), c\<lparr>cn_packetsSent := ?pkt + 1\<rparr>)"
      using e by (simp only: if_False) simp
    moreover have "1151 * (?pkt + 1) \<le> maxPlaintext" using 3(3) by simp
    ultimately show ?thesis using that [of "1151 * (?pkt + 1)" "?pkt + 1"] by simp
  qed
qed

lemma maxPayload:
  assumes "able t (cn_out c)" and "w_ciphers W = sm4_ciphers"
  obtains k p where "maxPayloadSizeForWrite W t (gm.explicit_length (cn_out c)) c = (int k, c\<lparr>cn_packetsSent := p\<rparr>)"
    and "0 < k" and "k \<le> maxPlaintext" and "t \<noteq> recordTypeApplicationData \<Longrightarrow> k = maxPlaintext"
proof (cases "t = recordTypeApplicationData")
  case True
  then have r: "gm_ready (cn_out c)" using assms by (simp add: able_def)
  obtain k p where "maxPayloadSizeForWrite W recordTypeApplicationData 16 c = (int k, c\<lparr>cn_packetsSent := p\<rparr>)"
    "0 < k" "k \<le> maxPlaintext" by (rule gm_maxPayload [OF r assms(2)])
  then show ?thesis using that [of k p] True gm_explicitIV(2) [OF r assms(2)] by simp
next
  case False
  then have "maxPayloadSizeForWrite W t n c = (int maxPlaintext, c)" for n by (simp add: maxPayloadSizeForWrite_def)
  moreover have "c = c\<lparr>cn_packetsSent := cn_packetsSent c\<rparr>" by simp
  ultimately show ?thesis using that [of maxPlaintext "cn_packetsSent c"] by (simp add: maxPlaintext_def)
qed

section \<open>Writing a record\<close>

text \<open>Everything written, the part that is still in the buffer of the handshake included.\<close>

definition written :: "'c Conn \<Rightarrow> bytes" where
  "written c = cn_sent c @ cn_sendBuf c"

definition buffer_ok :: "'c Conn \<Rightarrow> bool" where
  "buffer_ok c \<longleftrightarrow> cn_buffering c \<or> cn_sendBuf c = []"

text \<open>The fields that writing a record may change.\<close>

definition only_wrote :: "'c Conn \<Rightarrow> 'c Conn \<Rightarrow> bool" where
  "only_wrote c c' \<longleftrightarrow> (\<exists>out s u b p r. c' = c\<lparr>cn_out := out, cn_sent := s, cn_sendBuf := u, cn_bytesSent := b, cn_packetsSent := p,
       cn_randCalls := r\<rparr> \<and> hc_err out = hc_err (cn_out c) \<and> (cn_buffering c \<longrightarrow> s = cn_sent c) \<and>
       (buffer_ok c \<longrightarrow> buffer_ok c'))"

lemma only_wrote_refl: "only_wrote c c"
proof -
  have "c = c\<lparr>cn_out := cn_out c, cn_sent := cn_sent c, cn_sendBuf := cn_sendBuf c, cn_bytesSent := cn_bytesSent c,
      cn_packetsSent := cn_packetsSent c, cn_randCalls := cn_randCalls c\<rparr>" by simp
  then show ?thesis unfolding only_wrote_def by blast
qed

lemma only_wrote_trans: "only_wrote c c' \<Longrightarrow> only_wrote c' c'' \<Longrightarrow> only_wrote c c''"
  unfolding only_wrote_def
proof (elim exE conjE, goal_cases)
  case (1 out out2 s s2 u u2 b b2 p p2 r r2)
  then show ?case
    by (intro exI [of _ out2] exI [of _ s2] exI [of _ u2] exI [of _ b2] exI [of _ p2] exI [of _ r2]) simp
qed

lemma only_wrote_fields:
  assumes "only_wrote c c'"
  shows "cn_buffering c' = cn_buffering c" "cn_vers c' = cn_vers c" "cn_in c' = cn_in c" "cn_handshakeComplete c' = cn_handshakeComplete c"
    "cn_handshakeErr c' = cn_handshakeErr c" "cn_closeNotifySent c' = cn_closeNotifySent c" "hc_err (cn_out c') = hc_err (cn_out c)"
    "buffer_ok c \<Longrightarrow> buffer_ok c'" "cn_buffering c \<Longrightarrow> cn_sent c' = cn_sent c"
  using assms by (auto simp: only_wrote_def)

lemma conn_write_all:
  assumes "writes_all W" and "buffer_ok c"
  obtains s u b where "conn_write W r c = (length r, None, c\<lparr>cn_sent := s, cn_sendBuf := u, cn_bytesSent := b\<rparr>)"
    and "s @ u = written c @ r" and "cn_buffering c \<or> u = []" and "cn_buffering c \<longrightarrow> s = cn_sent c"
proof (cases "cn_buffering c")
  case True
  then have "conn_write W r c = (length r, None, c\<lparr>cn_sent := cn_sent c, cn_sendBuf := cn_sendBuf c @ r, cn_bytesSent := cn_bytesSent c\<rparr>)"
    by (simp add: conn_write_def)
  then show ?thesis using that [where s = "cn_sent c" and u = "cn_sendBuf c @ r" and b = "cn_bytesSent c"] True by (simp add: written_def)
next
  case False
  with assms have "conn_write W r c =
      (length r, None, c\<lparr>cn_sent := cn_sent c @ r, cn_sendBuf := cn_sendBuf c, cn_bytesSent := cn_bytesSent c + length r\<rparr>)"
    by (simp add: conn_write_def writes_all_def)
  then show ?thesis
    using that [where s = "cn_sent c @ r" and u = "cn_sendBuf c" and b = "cn_bytesSent c + length r"] False assms(2) by (simp add: written_def buffer_ok_def)
qed

lemma be_to_nat_next: "n + 1 < 2 ^ 64 \<Longrightarrow> be_to_nat (be_fixed 8 (n + 1)) = n + 1"
  by (simp add: be_to_nat_be_fixed)

lemma encrypt_plain:
  "plain hc \<Longrightarrow> encrypt E hc d n = Some (hc', r) \<Longrightarrow> plain hc'"
  by (auto simp: plain_def encrypt_def encrypt_cipher_def incSeq_def Let_def split: bind_splits)

lemma writeRecord_one_step:
  assumes able: "able t (cn_out c)" and W: "w_ciphers W = sm4_ciphers" "writes_all W" and "buffer_ok c"
    and v: "cn_vers c = v" "v \<noteq> 0" and sync: "gm.hc_sync (cn_out c) inn" and "data \<noteq> []"
    and seq: "be_to_nat (hc_seq (cn_out c)) + 1 < 2 ^ 64"
  obtains m r c' x d where "writeRecord_one W t data c = Some (m, None, c')"
    and "0 < m" and "m \<le> length data" and "t \<noteq> recordTypeApplicationData \<longrightarrow> m = min (length data) maxPlaintext"
    and "sealed sm4_ciphers v t inn r (take m data) (gm.stepped d inn)" and "written c' = written c @ r"
    and "cn_out c' = gm.stepped x (cn_out c)" and "gm.hc_sync (cn_out c') (gm.stepped d inn)" and "able t (cn_out c')"
    and "gm_ready (cn_out c) \<longrightarrow> gm_ready (cn_out c')" and "plain (cn_out c) \<longrightarrow> plain (cn_out c')"
    and "be_to_nat (hc_seq (cn_out c')) = be_to_nat (hc_seq (cn_out c)) + 1" and "only_wrote c c'"
proof -
  let ?n = "gm.explicit_length (cn_out c)"
  note iv_of = explicitIV [OF able W(1)]
  obtain k p where k: "maxPayloadSizeForWrite W t ?n c = (int k, c\<lparr>cn_packetsSent := p\<rparr>)"
    "0 < k" "k \<le> maxPlaintext" "t \<noteq> recordTypeApplicationData \<Longrightarrow> k = maxPlaintext" by (rule maxPayload [OF able W(1)]) blast
  define m where "m = min (length data) k"
  have m: "0 < m" "m \<le> length data" "m \<le> 16384" using k \<open>data \<noteq> []\<close> by (simp_all add: m_def maxPlaintext_def)
  obtain rc iv where iv: "?n > 0 \<Longrightarrow> w_rand W (cn_randCalls c) ?n = Some iv \<and> rc = cn_randCalls c + 1"
      "?n = 0 \<Longrightarrow> iv = [] \<and> rc = cn_randCalls c" "length iv = ?n"
  proof (cases "?n > 0")
    case True
    obtain iv where "w_rand W (cn_randCalls c) ?n = Some iv" "length iv = ?n" using W(2) unfolding writes_all_def by blast
    then show ?thesis using that [of iv "cn_randCalls c + 1"] True by simp
  qed (use that [of "[]" "cn_randCalls c"] in simp)
  define h where "h = [t, hi16 v, lo16 v, byte1 m, byte0 m]"
  have h: "length h = 5" "h ! 3 = byte1 (length (take m data))" "h ! 4 = byte0 (length (take m data))" "take 3 h = [t, hi16 v, lo16 v]"
    using m by (simp_all add: h_def)
  have small: "length (take m data) < 1073741824" using m by simp
  obtain x d body y where enc: "encrypt sm4_ciphers (cn_out c) (h @ iv @ take m data) (length iv) =
       Some (gm.stepped x (cn_out c), take 3 h @ [byte1 (length body), byte0 (length body)] @ body)"
    and dec: "decrypt sm4_ciphers inn (take 3 h @ [byte1 (length body), byte0 (length body)] @ body) =
       Some (gm.stepped d inn, y, Inr (5 + length iv))"
    and y: "drop (5 + length iv) y = take m data" "length y = 5 + length iv + length (take m data)"
    and sync': "gm.hc_sync (gm.stepped x (cn_out c)) (gm.stepped d inn)"
    and len: "length body \<le> length iv + length (take m data) + gm.mac_length (cn_out c) + gm.expansion (cn_out c)"
    and cbc: "gm.is_cbc (gm.stepped x (cn_out c)) = gm.is_cbc (cn_out c)"
    by (rule gm.record_step [OF sync h(1) iv(3) h(2,3) seq small])
  define r where "r = take 3 h @ [byte1 (length body), byte0 (length body)] @ body"
  have enc': "encrypt sm4_ciphers (cn_out c) (h @ iv @ take m data) ?n = Some (gm.stepped x (cn_out c), r)"
    using enc iv(3) by (simp only: r_def)
  let ?c = "c\<lparr>cn_packetsSent := p, cn_randCalls := rc, cn_out := gm.stepped x (cn_out c)\<rparr>"
  have bo: "buffer_ok ?c" using \<open>buffer_ok c\<close> by (simp add: buffer_ok_def)
  obtain s u b where wr: "conn_write W r ?c = (length r, None, ?c\<lparr>cn_sent := s, cn_sendBuf := u, cn_bytesSent := b\<rparr>)"
    "s @ u = written ?c @ r" "cn_buffering ?c \<or> u = []" "cn_buffering ?c \<longrightarrow> s = cn_sent ?c" by (rule conn_write_all [OF W(2) bo])
  define c' where "c' = ?c\<lparr>cn_sent := s, cn_sendBuf := u, cn_bytesSent := b\<rparr>"
  have mi: "(if int (length data) > int k then int k else int (length data)) = int m" by (simp add: m_def)
  have one: "writeRecord_one W t data c = Some (m, None, c')"
  proof (cases "?n = 0")
    case True
    have "c\<lparr>cn_packetsSent := p, cn_randCalls := rc\<rparr> = c\<lparr>cn_packetsSent := p\<rparr>" using iv(2) [OF True] by (cases c) simp
    then show ?thesis
      unfolding writeRecord_one_def iv_of(1) prod.case Let_def k(1) mi
      using v enc' W(1) wr(1) iv(2) [OF True] True
      by (simp add: h_def [symmetric] c'_def)
  next
    case False
    then have "w_rand W (cn_randCalls c) ?n = Some iv" "rc = cn_randCalls c + 1" using iv(1) by simp_all
    then show ?thesis
      unfolding writeRecord_one_def iv_of(1) prod.case Let_def k(1) mi
      using v enc' W(1) wr(1) False
      by (simp add: h_def [symmetric] c'_def)
  qed
  have r': "r = [t, hi16 v, lo16 v, byte1 (length body), byte0 (length body)] @ body" by (simp add: r_def h(4))
  have "length body \<le> maxCiphertext" using len m iv(3) iv_of(2) by (simp add: maxCiphertext_def)
  moreover have "decrypt sm4_ciphers inn r = Some (gm.stepped d inn, y, Inr (5 + length iv))" using dec by (simp add: r_def)
  moreover have "take m data \<noteq> []" "length (take m data) \<le> maxPlaintext" using m by (auto simp: maxPlaintext_def)
  ultimately have seal: "sealed sm4_ciphers v t inn r (take m data) (gm.stepped d inn)"
    unfolding sealed_def using r' y m
    by (intro exI [of _ body] exI [of _ y] exI [of _ "5 + length iv"]) (simp add: gm.stepped_def)
  have out: "cn_out c' = gm.stepped x (cn_out c)" by (simp add: c'_def)
  have ready: "gm_ready (cn_out c')" if "gm_ready (cn_out c)"
    using that cbc by (simp add: out gm_ready_def gm.stepped_def gm.mac_length_def)
  have pl: "plain (cn_out c')" if "plain (cn_out c)" using encrypt_plain [OF that enc'] out by simp
  have num: "be_to_nat (hc_seq (cn_out c')) = be_to_nat (hc_seq (cn_out c)) + 1"
    using seq be_to_nat_next by (simp add: out gm.stepped_def)
  have wc: "only_wrote c c'"
    unfolding only_wrote_def
  proof (intro exI conjI impI)
    show "c' = c\<lparr>cn_out := gm.stepped x (cn_out c), cn_sent := s, cn_sendBuf := u, cn_bytesSent := b, cn_packetsSent := p, cn_randCalls := rc\<rparr>"
      by (simp add: c'_def)
    show "buffer_ok c'" using wr(3) by (simp add: c'_def buffer_ok_def)
    show "s = cn_sent c" if "cn_buffering c" using wr(4) that by simp
  qed (simp add: gm.stepped_def)
  have "written c' = written c @ r" using wr(2) by (simp add: c'_def written_def)
  moreover have "able t (cn_out c')" using able ready pl by (auto simp: able_def)
  moreover have "gm.hc_sync (cn_out c') (gm.stepped d inn)" using sync' out by simp
  moreover have "t \<noteq> recordTypeApplicationData \<longrightarrow> m = min (length data) maxPlaintext" using k(4) by (simp add: m_def)
  ultimately show ?thesis using that one m(1,2) seal out ready pl num wc by blast
qed

text \<open>A message of the handshake that fits into one record.\<close>

lemma writeRecord_whole:
  assumes "able t (cn_out c)" "w_ciphers W = sm4_ciphers" "writes_all W" "buffer_ok c" "cn_vers c = v" "v \<noteq> 0"
    and "gm.hc_sync (cn_out c) inn" "data \<noteq> []" "be_to_nat (hc_seq (cn_out c)) + 1 < 2 ^ 64"
    and t: "t \<noteq> recordTypeApplicationData" "length data \<le> maxPlaintext"
  obtains r c' x d where "writeRecord_loop W t data n c = Some (n + length data, None, c')"
    and "sealed sm4_ciphers v t inn r data (gm.stepped d inn)" and "written c' = written c @ r"
    and "cn_out c' = gm.stepped x (cn_out c)" and "gm.hc_sync (cn_out c') (gm.stepped d inn)"
    and "gm_ready (cn_out c) \<longrightarrow> gm_ready (cn_out c')" and "plain (cn_out c) \<longrightarrow> plain (cn_out c')"
    and "be_to_nat (hc_seq (cn_out c')) = be_to_nat (hc_seq (cn_out c)) + 1" and "only_wrote c c'"
proof -
  obtain m r c' x d where one: "writeRecord_one W t data c = Some (m, None, c')" and "0 < m" "m \<le> length data"
    and two: "t \<noteq> recordTypeApplicationData \<longrightarrow> m = min (length data) maxPlaintext"
    and three: "sealed sm4_ciphers v t inn r (take m data) (gm.stepped d inn)" "written c' = written c @ r"
    "cn_out c' = gm.stepped x (cn_out c)" "gm.hc_sync (cn_out c') (gm.stepped d inn)" and "able t (cn_out c')" and four:
    "gm_ready (cn_out c) \<longrightarrow> gm_ready (cn_out c')" "plain (cn_out c) \<longrightarrow> plain (cn_out c')"
    "be_to_nat (hc_seq (cn_out c')) = be_to_nat (hc_seq (cn_out c)) + 1" "only_wrote c c'"
    by (rule writeRecord_one_step [OF assms(1-9)])
  have m: "m = length data" using two t by simp
  have "writeRecord_loop W t data n c = writeRecord_loop W t [] (n + length data) c'"
    using one m assms(8) by (subst writeRecord_loop.simps) simp
  then have "writeRecord_loop W t data n c = Some (n + length data, None, c')" by (subst (asm) (2) writeRecord_loop.simps) simp
  then show ?thesis using that [of c' r d x] three four m by simp
qed

section \<open>Writing application data\<close>

definition can_write :: "cbc_mode halfConn \<Rightarrow> cbc_mode Conn \<Rightarrow> bool" where
  "can_write inn c \<longleftrightarrow> gm_ready (cn_out c) \<and> gm.hc_sync (cn_out c) inn \<and> buffer_ok c \<and> cn_vers c = VersionGMSSL \<and>
     cn_handshakeComplete c \<and> cn_handshakeErr c = None \<and> hc_err (cn_out c) = None \<and> \<not> cn_closeNotifySent c"

definition sent_so_far :: "'c Conn \<Rightarrow> nat" where
  "sent_so_far c = be_to_nat (hc_seq (cn_out c))"

lemma gm_writeRecord_loop:
  assumes "w_ciphers W = sm4_ciphers" "writes_all W"
  shows "can_write inn c \<Longrightarrow> sent_so_far c + length data < 2 ^ 64 \<Longrightarrow>
    \<exists>c' w ps inn'. writeRecord_loop W recordTypeApplicationData data n c = Some (n + length data, None, c') \<and>
      wire sm4_ciphers VersionGMSSL inn w ps inn' \<and> concat ps = data \<and> written c' = written c @ w \<and> can_write inn' c' \<and>
      sent_so_far c' \<le> sent_so_far c + length data \<and> only_wrote c c'"
proof (induction "length data" arbitrary: data n c inn rule: less_induct)
  case less
  show ?case
  proof (cases "data = []")
    case True
    then show ?thesis
      using less.prems only_wrote_refl by (subst writeRecord_loop.simps) (auto intro!: exI wire_end)
  next
    case False
    have v: "cn_vers c = VersionGMSSL" "VersionGMSSL \<noteq> 0" using less.prems by (simp_all add: can_write_def VersionGMSSL_def)
    have seq: "be_to_nat (hc_seq (cn_out c)) + 1 < 2 ^ 64"
      using less.prems(2) False by (cases data) (simp_all add: sent_so_far_def)
    have pre: "able recordTypeApplicationData (cn_out c)" "buffer_ok c" "gm.hc_sync (cn_out c) inn" "gm_ready (cn_out c)"
      using less.prems(1) by (simp_all add: can_write_def able_def)
    obtain m r c1 x d where one: "writeRecord_one W recordTypeApplicationData data c = Some (m, None, c1)"
      "0 < m" "m \<le> length data" and "recordTypeApplicationData \<noteq> recordTypeApplicationData \<longrightarrow> m = min (length data) maxPlaintext"
      and seal: "sealed sm4_ciphers VersionGMSSL recordTypeApplicationData inn r (take m data) (gm.stepped d inn)"
      and w: "written c1 = written c @ r" and "cn_out c1 = gm.stepped x (cn_out c)" and sync1: "gm.hc_sync (cn_out c1) (gm.stepped d inn)"
      and "able recordTypeApplicationData (cn_out c1)" and ready1: "gm_ready (cn_out c) \<longrightarrow> gm_ready (cn_out c1)"
      and "plain (cn_out c) \<longrightarrow> plain (cn_out c1)"
      and num: "be_to_nat (hc_seq (cn_out c1)) = be_to_nat (hc_seq (cn_out c)) + 1" and wc: "only_wrote c c1"
      by (rule writeRecord_one_step [OF pre(1) assms pre(2) v pre(3) False seq])
    let ?inn1 = "gm.stepped d inn"
    have w1: "can_write ?inn1 c1" using less.prems(1) pre sync1 ready1 pre(4) only_wrote_fields [OF wc] by (simp add: can_write_def)
    have "length (drop m data) < length data" "sent_so_far c1 + length (drop m data) < 2 ^ 64"
      using one num less.prems(2) False by (simp_all add: sent_so_far_def)
    from less.hyps [OF this(1) w1 this(2), of "n + m"]
    obtain c2 w ps inn2 where rest: "writeRecord_loop W recordTypeApplicationData (drop m data) (n + m) c1 = Some (n + m + length (drop m data), None, c2)"
      "wire sm4_ciphers VersionGMSSL ?inn1 w ps inn2" "concat ps = drop m data" "written c2 = written c1 @ w" "can_write inn2 c2"
      "sent_so_far c2 \<le> sent_so_far c1 + length (drop m data)" "only_wrote c1 c2" by blast
    have "writeRecord_loop W recordTypeApplicationData data n c = Some (n + length data, None, c2)"
      using False one rest(1) by (subst writeRecord_loop.simps) simp
    moreover have "wire sm4_ciphers VersionGMSSL inn (r @ w) (take m data # ps) inn2"
      by (rule wire_record [OF seal rest(2)])
    moreover have "concat (take m data # ps) = data" using rest(3) by simp
    moreover have "written c2 = written c @ r @ w" using rest(4) w by simp
    moreover have "sent_so_far c2 \<le> sent_so_far c + length data"
      using rest(6) one(2,3) num by (simp add: sent_so_far_def)
    ultimately show ?thesis using rest(5) only_wrote_trans [OF wc rest(7)] by blast
  qed
qed

lemma gm_writeRecordLocked:
  assumes "w_ciphers W = sm4_ciphers" "writes_all W" "can_write inn c" "sent_so_far c + length data < 2 ^ 64"
  shows "\<exists>c' w ps inn'. writeRecordLocked W recordTypeApplicationData data c = Some (length data, None, c') \<and>
      wire sm4_ciphers VersionGMSSL inn w ps inn' \<and> concat ps = data \<and> written c' = written c @ w \<and> can_write inn' c' \<and>
      sent_so_far c' \<le> sent_so_far c + length data \<and> only_wrote c c'"
proof -
  have t: "recordTypeApplicationData \<noteq> recordTypeChangeCipherSpec"
    by (simp add: recordTypeApplicationData_def recordTypeChangeCipherSpec_def)
  have "writeRecordLocked W recordTypeApplicationData data c = Some (length data, None, c')"
    if "writeRecord_loop W recordTypeApplicationData data 0 c = Some (0 + length data, None, c')" for c'
    using that t by (simp add: writeRecordLocked_def)
  note locked = this
  obtain c' w ps inn' where l: "writeRecord_loop W recordTypeApplicationData data 0 c = Some (0 + length data, None, c')"
    "wire sm4_ciphers VersionGMSSL inn w ps inn'" "concat ps = data" "written c' = written c @ w" "can_write inn' c'"
    "sent_so_far c' \<le> sent_so_far c + length data" "only_wrote c c'" using gm_writeRecord_loop [OF assms, of 0] by blast
  from l(2-7) locked [OF l(1)] show ?thesis by blast
qed

lemma gm_Conn_Write:
  assumes "w_ciphers W = sm4_ciphers" "writes_all W" "can_write inn c" "sent_so_far c + length b < 2 ^ 64"
  shows "\<exists>c' w ps inn'. Conn_Write W b c = Some (length b, None, c') \<and>
      wire sm4_ciphers VersionGMSSL inn w ps inn' \<and> concat ps = b \<and> written c' = written c @ w \<and> can_write inn' c' \<and>
      sent_so_far c' \<le> sent_so_far c + length b \<and> only_wrote c c'"
proof -
  have hs: "Handshake W c = Some (None, c)" and st: "hc_err (cn_out c) = None" "cn_handshakeComplete c" "\<not> cn_closeNotifySent c"
    using assms(3) by (simp_all add: Handshake_def can_write_def)
  have keep: "c'\<lparr>cn_out := setErrorLocked None (cn_out c')\<rparr> = c'" if "can_write inn' c'" for inn' c'
    using that by (cases "cn_out c'") (simp add: setErrorLocked_def can_write_def)
  have cbc: "(case hc_cipher (cn_out c) of Some (CbcCipher _) \<Rightarrow> True | _ \<Rightarrow> False)" and vers: "cn_vers c \<le> VersionTLS10"
    using assms(3) by (auto simp: can_write_def gm_ready_def gm.is_cbc_def VersionGMSSL_def VersionTLS10_def split: option.splits rcipher.splits)
  show ?thesis
  proof (cases "length b > 1")
    case True
    have "sent_so_far c + length (take 1 b) < 2 ^ 64" using assms(4) True by simp
    from gm_writeRecordLocked [OF assms(1-3) this]
    obtain c1 w1 ps1 inn1 where one: "writeRecordLocked W recordTypeApplicationData (take 1 b) c = Some (length (take 1 b), None, c1)"
      "wire sm4_ciphers VersionGMSSL inn w1 ps1 inn1" "concat ps1 = take 1 b" "written c1 = written c @ w1" "can_write inn1 c1"
      "sent_so_far c1 \<le> sent_so_far c + length (take 1 b)" "only_wrote c c1" by blast
    have "sent_so_far c1 + length (drop 1 b) < 2 ^ 64" using one(6) assms(4) True by simp
    from gm_writeRecordLocked [OF assms(1,2) one(5) this]
    obtain c2 w2 ps2 inn2 where two: "writeRecordLocked W recordTypeApplicationData (drop 1 b) c1 = Some (length (drop 1 b), None, c2)"
      "wire sm4_ciphers VersionGMSSL inn1 w2 ps2 inn2" "concat ps2 = drop 1 b" "written c2 = written c1 @ w2" "can_write inn2 c2"
      "sent_so_far c2 \<le> sent_so_far c1 + length (drop 1 b)" "only_wrote c1 c2" by blast
    have "Conn_Write W b c = Some (length b, None, c2)"
      unfolding Conn_Write_def hs bind.bind_lunit prod.case
      using st True vers cbc one(1) two(1) keep [OF two(5)] by simp
    moreover have "concat (ps1 @ ps2) = b" using one(3) two(3) by simp
    moreover have "sent_so_far c2 \<le> sent_so_far c + length b" using one(6) two(6) True by simp
    ultimately show ?thesis
      using wire_append [OF one(2) two(2)] one(4) two(4,5) only_wrote_trans [OF one(7) two(7)]
      by (intro exI [of _ c2] exI [of _ "w1 @ w2"] exI [of _ "ps1 @ ps2"] exI [of _ inn2]) simp
  next
    case False
    from gm_writeRecordLocked [OF assms]
    obtain c1 w1 ps1 inn1 where one: "writeRecordLocked W recordTypeApplicationData b c = Some (length b, None, c1)"
      "wire sm4_ciphers VersionGMSSL inn w1 ps1 inn1" "concat ps1 = b" "written c1 = written c @ w1" "can_write inn1 c1"
      "sent_so_far c1 \<le> sent_so_far c + length b" "only_wrote c c1" by blast
    have "Conn_Write W b c = Some (length b, None, c1)"
      unfolding Conn_Write_def hs bind.bind_lunit prod.case
      using st False one(1) keep [OF one(5)] by simp
    then show ?thesis using one by blast
  qed
qed

text \<open>A user that writes several times, each time all of the data.\<close>

fun write_all :: "'c world \<Rightarrow> bytes list \<Rightarrow> 'c Conn \<Rightarrow> 'c Conn option" where
  "write_all W [] c = Some c"
| "write_all W (b # bs) c = do {
     (n, err, c) \<leftarrow> Conn_Write W b c;
     if n = length b \<and> err = None then write_all W bs c else None }"

lemma gm_write_all:
  assumes "w_ciphers W = sm4_ciphers" "writes_all W"
  shows "can_write inn c \<Longrightarrow> sent_so_far c + length (concat bs) < 2 ^ 64 \<Longrightarrow>
    \<exists>c' w ps inn'. write_all W bs c = Some c' \<and> wire sm4_ciphers VersionGMSSL inn w ps inn' \<and> concat ps = concat bs \<and>
      written c' = written c @ w \<and> can_write inn' c' \<and> only_wrote c c'"
proof (induction bs arbitrary: c inn)
  case Nil
  then show ?case using only_wrote_refl by (auto intro!: exI wire_end)
next
  case (Cons b bs)
  have "sent_so_far c + length b < 2 ^ 64" using Cons.prems(2) by simp
  from gm_Conn_Write [OF assms Cons.prems(1) this]
  obtain c1 w1 ps1 inn1 where one: "Conn_Write W b c = Some (length b, None, c1)"
    "wire sm4_ciphers VersionGMSSL inn w1 ps1 inn1" "concat ps1 = b" "written c1 = written c @ w1" "can_write inn1 c1"
    "sent_so_far c1 \<le> sent_so_far c + length b" "only_wrote c c1" by blast
  have "sent_so_far c1 + length (concat bs) < 2 ^ 64" using one(6) Cons.prems(2) by simp
  from Cons.IH [OF one(5) this]
  obtain c2 w2 ps2 inn2 where two: "write_all W bs c1 = Some c2" "wire sm4_ciphers VersionGMSSL inn1 w2 ps2 inn2"
    "concat ps2 = concat bs" "written c2 = written c1 @ w2" "can_write inn2 c2" "only_wrote c1 c2" by blast
  show ?case
    using one(1,3,4) two(1,3,4,5) wire_append [OF one(2) two(2)] only_wrote_trans [OF one(7) two(6)]
    by (intro exI [of _ c2] exI [of _ "w1 @ w2"] exI [of _ "ps1 @ ps2"] exI [of _ inn2]) simp
qed

end
