(* ===== verification/TlsSession.thy ===== *)
theory TlsSession
  imports TlsConnWrite
begin

text \<open>
  Reading back what the other side has written, however the network cuts it into pieces; the calls of the user, which together
  return it without loss and in order, and then wait; and a session of a national suite from the change of the cipher on, in one
  direction and in both.
\<close>

section \<open>The network\<close>

definition no_errors :: "(bytes \<times> conn_error option) list \<Rightarrow> bool" where
  "no_errors reads \<longleftrightarrow> (\<forall>x \<in> set reads. snd x = None)"

definition delivers :: "(bytes \<times> conn_error option) list \<Rightarrow> bytes" where
  "delivers reads = concat (map fst reads)"

definition unread :: "'c Conn \<Rightarrow> bytes" where
  "unread c = cn_rawInput c @ delivers (cn_reads c)"

lemma readFromUntil_enough:
  "no_errors reads \<Longrightarrow> n \<le> length (data @ delivers reads) \<Longrightarrow>
   \<exists>d r. readFromUntil n data reads = (Got, d, r) \<and> d @ delivers r = data @ delivers reads \<and> n \<le> length d \<and> no_errors r"
proof (induction reads arbitrary: data)
  case Nil
  then show ?case by (subst readFromUntil.simps) (simp add: delivers_def no_errors_def)
next
  case (Cons x reads)
  obtain p where x: "x = (p, None)" using Cons.prems(1) by (cases x) (auto simp: no_errors_def)
  have ne: "no_errors reads" using Cons.prems(1) by (simp add: no_errors_def)
  from Cons.IH [OF ne, of "data @ p"] Cons.prems show ?case
    by (subst readFromUntil.simps) (auto simp: x delivers_def no_errors_def Let_def)
qed

lemma readFromUntil_short:
  "no_errors reads \<Longrightarrow> length (data @ delivers reads) < n \<Longrightarrow> readFromUntil n data reads = (Waits, data @ delivers reads, [])"
proof (induction reads arbitrary: data)
  case Nil
  then show ?case by (subst readFromUntil.simps) (simp add: delivers_def)
next
  case (Cons x reads)
  obtain p where x: "x = (p, None)" using Cons.prems(1) by (cases x) (auto simp: no_errors_def)
  have ne: "no_errors reads" using Cons.prems(1) by (simp add: no_errors_def)
  from Cons.IH [OF ne, of "data @ p"] Cons.prems show ?case
    by (subst readFromUntil.simps) (auto simp: x delivers_def Let_def)
qed

section \<open>Reading a record\<close>

lemma header_fields:
  assumes "take 5 raw = [t, hi16 v, lo16 v, byte1 n, byte0 n]" and "n < 65536"
  shows "at_idx raw 0 = Some t" "uint16_at raw 1 = Some v" "int16_at raw 3 = Some n"
proof -
  have raw: "raw = [t, hi16 v, lo16 v, byte1 n, byte0 n] @ drop 5 raw" using assms(1) append_take_drop_id [of 5 raw] by simp
  then show "at_idx raw 0 = Some t" by (metis append_Cons at_idx_Cons_0)
  have "raw = [t] @ hi16 v # lo16 v # [byte1 n, byte0 n] @ drop 5 raw" by (subst raw) simp
  then have "raw = [t] @ be_fixed 2 (unat v) @ [byte1 n, byte0 n] @ drop 5 raw" by (simp only: uint16_of_16)
  then show "uint16_at raw 1 = Some v" using uint16_at_be [of "[t]" 1 "unat v" "[byte1 n, byte0 n] @ drop 5 raw"] by simp
  have "raw = [t, hi16 v, lo16 v] @ be_fixed 2 n @ drop 5 raw" using raw by (simp add: be_fixed_2)
  then show "int16_at raw 3 = Some n" using int16_at_be [of n "[t, hi16 v, lo16 v]" 3 "drop 5 raw"] assms(2) by simp
qed

lemma readRecord_data_sealed:
  assumes seal: "sealed E v t (cn_in c) r p inn'" and u: "unread c = r @ rest" and ne: "no_errors (cn_reads c)"
    and c: "cn_haveVers c" "cn_vers c = v" "t \<noteq> 0x80" and E: "w_ciphers V = E"
  obtains raw reads wc where "readRecord_data V want c =
      Some (RecordData t p (c\<lparr>cn_rawInput := raw, cn_reads := reads, cn_in := inn', cn_warnCount := wc\<rparr>))"
    and "raw @ delivers reads = rest" and "no_errors reads"
proof -
  obtain body y off where s: "r = [t, hi16 v, lo16 v, byte1 (length body), byte0 (length body)] @ body"
    "length body \<le> maxCiphertext" "decrypt E (cn_in c) r = Some (inn', y, Inr off)" "off \<le> length y" "drop off y = p" "p \<noteq> []"
    "length p \<le> maxPlaintext" using seal unfolding sealed_def by blast
  let ?n = "length body" let ?h = "[t, hi16 v, lo16 v, byte1 ?n, byte0 ?n]"
  have n: "?n < 65536" using s(2) by (simp add: maxCiphertext_def)
  have "5 \<le> length (cn_rawInput c @ delivers (cn_reads c))" using u s(1) by (simp add: unread_def [symmetric])
  from readFromUntil_enough [OF ne this]
  obtain raw1 reads1 where one: "readFromUntil 5 (cn_rawInput c) (cn_reads c) = (Got, raw1, reads1)"
    "raw1 @ delivers reads1 = r @ rest" "5 \<le> length raw1" "no_errors reads1" using u by (auto simp: unread_def)
  have "take 5 raw1 = take 5 (r @ rest)" using one(2,3) by (metis append_eq_conv_conj take_append take_take min.absorb1)
  then have h: "take 5 raw1 = ?h" using s(1) by simp
  note f = header_fields [OF h n]
  have he: "header_error want t v ?n c' = None" if "cn_haveVers c'" "cn_vers c' = v" for c' :: "'a Conn"
    using that c s(2) by (simp add: header_error_def)
  have "5 + ?n \<le> length (raw1 @ delivers reads1)" using one(2) s(1) by simp
  from readFromUntil_enough [OF one(4) this]
  obtain raw2 reads2 where two: "readFromUntil (5 + ?n) raw1 reads1 = (Got, raw2, reads2)"
    "raw2 @ delivers reads2 = r @ rest" "5 + ?n \<le> length raw2" "no_errors reads2" using one(2) by auto
  have lr: "length r = 5 + ?n" using s(1) by simp
  have cut: "take (5 + ?n) raw2 = r" "drop (5 + ?n) raw2 @ delivers reads2 = rest"
    using arg_cong [OF two(2), of "take (5 + ?n)"] arg_cong [OF two(2), of "drop (5 + ?n)"] two(3) lr by simp_all
  have y: "slice_from y off = Some p" using s(4,5) by (simp add: slice_from_def)
  let ?c = "c\<lparr>cn_rawInput := drop (5 + ?n) raw2, cn_reads := reads2, cn_in := inn'\<rparr>"
  have "readRecord_data V want c = Some (RecordData t p (if t \<noteq> recordTypeAlert \<and> length p > 0 then ?c\<lparr>cn_warnCount := 0\<rparr> else ?c))"
    unfolding readRecord_data_def recordHeaderLen_def one(1) prod.case read_result.case Let_def f bind.bind_lunit
    using he [of "c\<lparr>cn_rawInput := raw1, cn_reads := reads1\<rparr>"] c two(1) cut(1) s(3,7) E y by simp
  moreover have "(if t \<noteq> recordTypeAlert \<and> length p > 0 then ?c\<lparr>cn_warnCount := 0\<rparr> else ?c) =
      c\<lparr>cn_rawInput := drop (5 + ?n) raw2, cn_reads := reads2, cn_in := inn',
        cn_warnCount := (if t \<noteq> recordTypeAlert \<and> length p > 0 then 0 else cn_warnCount c)\<rparr>" by simp
  ultimately show ?thesis
    using that [where raw = "drop (5 + ?n) raw2" and reads = reads2
        and wc = "if t \<noteq> recordTypeAlert \<and> length p > 0 then 0 else cn_warnCount c"] cut(2) two(4) by simp
qed

text \<open>When all has been read, the call waits.\<close>

lemma readRecord_waits:
  assumes "unread c = []" and "no_errors (cn_reads c)" and "want_error want c = None"
  shows "readRecord V want c = Some (Waiting, c\<lparr>cn_rawInput := [], cn_reads := []\<rparr>)"
proof -
  have "length (cn_rawInput c @ delivers (cn_reads c)) < 5" using assms(1) by (simp add: unread_def)
  from readFromUntil_short [OF assms(2) this] show ?thesis
    using assms by (simp add: readRecord_def readRecord_data_def recordHeaderLen_def unread_def readRecord_loop.simps [of V want])
qed

definition listens :: "'c Conn \<Rightarrow> bool" where
  "listens c \<longleftrightarrow> cn_haveVers c \<and> cn_vers c = VersionGMSSL \<and> no_errors (cn_reads c) \<and> hc_err (cn_in c) = None"

lemma readRecord_sealed:
  assumes "sealed E VersionGMSSL t (cn_in c) r p inn'" and "unread c = r @ rest" and "listens c" and "w_ciphers V = E"
    and "t \<noteq> 0x80" and "t \<noteq> recordTypeAlert" and "want_error want c = None"
  obtains raw reads wc where
    "readRecord V want c =
       readRecord_other V want t p (c\<lparr>cn_rawInput := raw, cn_reads := reads, cn_in := inn', cn_warnCount := wc\<rparr>)"
    and "raw @ delivers reads = rest" and "no_errors reads" and "hc_err inn' = None"
proof -
  have l: "cn_haveVers c" "cn_vers c = VersionGMSSL" "no_errors (cn_reads c)" "hc_err (cn_in c) = None"
    using assms(3) by (simp_all add: listens_def)
  obtain raw reads wc where d: "readRecord_data V want c =
      Some (RecordData t p (c\<lparr>cn_rawInput := raw, cn_reads := reads, cn_in := inn', cn_warnCount := wc\<rparr>))"
    "raw @ delivers reads = rest" "no_errors reads"
    by (rule readRecord_data_sealed [OF assms(1,2) l(3,1,2) assms(5,4)])
  have "hc_err inn' = None" using assms(1) l(4) by (auto simp: sealed_def)
  moreover have "readRecord V want c =
      readRecord_other V want t p (c\<lparr>cn_rawInput := raw, cn_reads := reads, cn_in := inn', cn_warnCount := wc\<rparr>)"
    using d(1) assms(6,7) by (simp add: readRecord_def readRecord_loop.simps [of V want])
  ultimately show ?thesis using that d(2,3) by blast
qed

section \<open>The calls of the user\<close>

definition buffered :: "'c Conn \<Rightarrow> bytes" where
  "buffered c = (case cn_input c of None \<Rightarrow> [] | Some d \<Rightarrow> d)"

text \<open>The connection has \<open>data\<close> before it, in its buffer and in the records not yet read.\<close>

definition reader :: "'c ciphers \<Rightarrow> 'c Conn \<Rightarrow> bytes \<Rightarrow> bool" where
  "reader E c data \<longleftrightarrow> listens c \<and> cn_handshakeComplete c \<and> cn_handshakeErr c = None \<and> cn_hand c = [] \<and> cn_input c \<noteq> Some [] \<and>
     (\<exists>ps inn'. wire E VersionGMSSL (cn_in c) (unread c) ps inn' \<and> data = buffered c @ concat ps)"

lemma app_type: "recordTypeApplicationData \<noteq> 0x80" "recordTypeApplicationData \<noteq> recordTypeAlert"
  "recordTypeApplicationData \<noteq> recordTypeChangeCipherSpec" "recordTypeApplicationData \<noteq> recordTypeHandshake"
  by (simp_all add: recordTypeApplicationData_def recordTypeAlert_def recordTypeChangeCipherSpec_def recordTypeHandshake_def)

lemma wants_data: "cn_handshakeComplete c \<Longrightarrow> want_error recordTypeApplicationData c = None"
  by (simp add: want_error_def recordTypeApplicationData_def recordTypeChangeCipherSpec_def recordTypeHandshake_def)

lemma wire_starts: "wire E v inn w ps inn' \<Longrightarrow> w \<noteq> [] \<Longrightarrow> hd w = recordTypeApplicationData"
  by (induction rule: wire.induct) (auto simp: sealed_def)

lemma wire_none: "wire E v inn w ps inn' \<Longrightarrow> concat ps = [] \<Longrightarrow> w = []"
  by (induction rule: wire.induct) (auto simp: sealed_def)

text \<open>With an empty buffer the next record is read into it.\<close>

lemma read_input_fills:
  assumes "reader (w_ciphers V) c data" and "cn_input c = None" and "data \<noteq> []"
  obtains c' p where "read_input V c = Some (Returned None, c')" and "reader (w_ciphers V) c' data" and "cn_input c' = Some p"
    and "hc_err (cn_in c') = None"
proof -
  have r: "listens c" "cn_handshakeComplete c" "cn_handshakeErr c = None" "cn_hand c = []" "hc_err (cn_in c) = None"
    using assms(1) by (simp_all add: reader_def listens_def)
  obtain ps inn' where w: "wire (w_ciphers V) VersionGMSSL (cn_in c) (unread c) ps inn'" "data = concat ps"
    using assms(1,2) by (auto simp: reader_def buffered_def)
  obtain p ps2 where ps: "ps = p # ps2" using w(2) assms(3) by (cases ps) auto
  obtain rc inn1 rest where rec: "unread c = rc @ rest" "sealed (w_ciphers V) VersionGMSSL recordTypeApplicationData (cn_in c) rc p inn1"
    "wire (w_ciphers V) VersionGMSSL inn1 rest ps2 inn'"
    by (rule wire_consE [OF w(1) [unfolded ps]])
  obtain raw reads wc where rd: "readRecord V recordTypeApplicationData c =
      readRecord_other V recordTypeApplicationData recordTypeApplicationData p
        (c\<lparr>cn_rawInput := raw, cn_reads := reads, cn_in := inn1, cn_warnCount := wc\<rparr>)"
    "raw @ delivers reads = rest" "no_errors reads" "hc_err inn1 = None"
    by (rule readRecord_sealed [OF rec(2,1) r(1) refl app_type(1,2) wants_data [OF r(2)]])
  let ?c = "c\<lparr>cn_rawInput := raw, cn_reads := reads, cn_in := inn1, cn_warnCount := wc, cn_input := Some p\<rparr>"
  have "readRecord V recordTypeApplicationData c = Some (Returned None, ?c)"
    using rd(1,4) app_type by (simp add: readRecord_other_def)
  moreover have "read_input V ?c = Some (Returned None, ?c)" by (subst read_input.simps) simp
  ultimately have "read_input V c = Some (Returned None, ?c)"
    using r(4,5) assms(2) by (subst read_input.simps) simp
  moreover have "p \<noteq> []" using rec(2) by (auto simp: sealed_def)
  ultimately show ?thesis
    using that [of ?c p] r rd(2-4) rec(3) w(2) ps
    by (auto simp: reader_def listens_def buffered_def unread_def)
qed

lemma Handshake_done: "cn_handshakeErr c = None \<Longrightarrow> cn_handshakeComplete c \<Longrightarrow> Handshake W c = Some (None, c)"
  by (simp add: Handshake_def)

lemma read_buffered:
  assumes "reader (w_ciphers V) c data" and "cn_input c = Some d" and "0 < k"
  obtains c' rest where "read_loop V k (Suc i) c = Some (ReadDone (take k d) None, c')" and "reader (w_ciphers V) c' rest"
    and "data = take k d @ rest" and "d \<noteq> []"
proof -
  have r: "listens c" "hc_err (cn_in c) = None" "d \<noteq> []" using assms(1,2) by (auto simp: reader_def listens_def)
  obtain ps inn' where w: "wire (w_ciphers V) VersionGMSSL (cn_in c) (unread c) ps inn'" "data = d @ concat ps"
    using assms(1,2) by (auto simp: reader_def buffered_def)
  define c' where "c' = c\<lparr>cn_input := (if length d \<le> k then None else Some (drop k d))\<rparr>"
  have p: "take k d \<noteq> []" using assms(3) r(3) by (cases k; cases d) auto
  have "\<not> (cn_rawInput c \<noteq> [] \<and> hd (cn_rawInput c) = recordTypeAlert)"
    using wire_starts [OF w(1)] app_type(2) by (auto simp: unread_def)
  then have "read_loop V k (Suc i) c = Some (ReadDone (take k d) None, c')"
    using assms(2) r p by (simp add: read_input.simps [of V c] Let_def c'_def [symmetric]) (auto simp: c'_def)
  moreover have "reader (w_ciphers V) c' (drop k d @ concat ps)"
    using assms(1) w(1) by (auto simp: reader_def listens_def c'_def buffered_def unread_def)
  ultimately show ?thesis using that w(2) r(3) by simp
qed

lemma Conn_Read_some:
  assumes "reader (w_ciphers V) c data" and "data \<noteq> []" and "0 < k"
  obtains c' p rest where "Conn_Read V k c = Some (ReadDone p None, c')" and "reader (w_ciphers V) c' rest"
    and "data = p @ rest" and "p \<noteq> []" and "length p \<le> k"
proof -
  have h: "Handshake V c = Some (None, c)" using assms(1) by (simp add: reader_def Handshake_done)
  have cr: "Conn_Read V k c = read_loop V k (Suc maxConsecutiveEmptyRecords) c" using h assms(3) by (simp add: Conn_Read_def)
  obtain c1 d where f: "read_loop V k (Suc maxConsecutiveEmptyRecords) c = read_loop V k (Suc maxConsecutiveEmptyRecords) c1"
    "reader (w_ciphers V) c1 data" "cn_input c1 = Some d"
  proof (cases "cn_input c")
    case None
    obtain c1 d where f: "read_input V c = Some (Returned None, c1)" "reader (w_ciphers V) c1 data" "cn_input c1 = Some d"
      "hc_err (cn_in c1) = None" by (rule read_input_fills [OF assms(1) None assms(2)])
    have "read_input V c1 = Some (Returned None, c1)" using f(3) by (subst read_input.simps) simp
    then have "read_loop V k (Suc maxConsecutiveEmptyRecords) c = read_loop V k (Suc maxConsecutiveEmptyRecords) c1"
      using f(1) by (simp only: read_loop.simps)
    then show ?thesis using that f by blast
  qed (use that assms(1) in blast)
  obtain c' rest where "read_loop V k (Suc maxConsecutiveEmptyRecords) c1 = Some (ReadDone (take k d) None, c')"
    "reader (w_ciphers V) c' rest" "data = take k d @ rest" "d \<noteq> []" by (rule read_buffered [OF f(2,3) assms(3)])
  moreover have "take k d \<noteq> []" using assms(3) \<open>d \<noteq> []\<close> by (cases k; cases d) auto
  ultimately show ?thesis using that [of "take k d" c' rest] cr f(1) by simp
qed

lemma Conn_Read_waits:
  assumes "reader (w_ciphers V) c []" and "0 < k"
  obtains c' where "Conn_Read V k c = Some (ReadWaits [], c')" and "reader (w_ciphers V) c' []"
proof -
  have r: "listens c" "cn_handshakeComplete c" "no_errors (cn_reads c)" "cn_input c = None" "hc_err (cn_in c) = None"
    using assms(1) by (auto simp: reader_def listens_def buffered_def split: option.splits)
  obtain ps inn' where w: "wire (w_ciphers V) VersionGMSSL (cn_in c) (unread c) ps inn'" "concat ps = []"
    using assms(1) by (auto simp: reader_def)
  have u: "unread c = []" by (rule wire_none [OF w])
  let ?c = "c\<lparr>cn_rawInput := [], cn_reads := []\<rparr>"
  have "readRecord V recordTypeApplicationData c = Some (Waiting, ?c)" by (rule readRecord_waits [OF u r(3) wants_data [OF r(2)]])
  then have "read_input V c = Some (Waiting, ?c)" using r by (subst read_input.simps) simp
  moreover have "Handshake V c = Some (None, c)" using assms(1) by (simp add: reader_def Handshake_done)
  ultimately have "Conn_Read V k c = Some (ReadWaits [], ?c)" using assms(2) by (simp add: Conn_Read_def)
  moreover have "wire (w_ciphers V) VersionGMSSL (cn_in ?c) (unread ?c) [] (cn_in ?c)"
    using wire_end [of "w_ciphers V" VersionGMSSL "cn_in ?c"] by (simp add: unread_def delivers_def)
  then have "reader (w_ciphers V) ?c []"
    using assms(1) r(4) unfolding reader_def listens_def
    by (intro conjI exI [of _ "[]"] exI [of _ "cn_in c"]) (simp_all add: buffered_def no_errors_def)
  ultimately show ?thesis using that by blast
qed

text \<open>A user that reads several times, each time at most the next number of bytes, and goes on when a call waits.\<close>

fun recv :: "'c world \<Rightarrow> nat list \<Rightarrow> 'c Conn \<Rightarrow> (bytes \<times> 'c Conn) option" where
  "recv V [] c = Some ([], c)"
| "recv V (k # ks) c = do {
     (r, c) \<leftarrow> Conn_Read V k c;
     p \<leftarrow> (case r of ReadDone p None \<Rightarrow> Some p | ReadDone p (Some e) \<Rightarrow> None | ReadWaits p \<Rightarrow> Some p);
     (q, c) \<leftarrow> recv V ks c;
     Some (p @ q, c) }"

lemma recv_all:
  assumes "\<forall>k \<in> set ks. 0 < k"
  shows "reader (w_ciphers V) c data \<Longrightarrow> length data \<le> length ks \<Longrightarrow> \<exists>c'. recv V ks c = Some (data, c') \<and> reader (w_ciphers V) c' []"
  using assms
proof (induction ks arbitrary: c data)
  case (Cons k ks)
  have k: "0 < k" "\<forall>k \<in> set ks. 0 < k" using Cons.prems(3) by simp_all
  show ?case
  proof (cases "data = []")
    case True
    obtain c1 where one: "Conn_Read V k c = Some (ReadWaits [], c1)" "reader (w_ciphers V) c1 []"
      by (rule Conn_Read_waits [OF Cons.prems(1) [unfolded True] k(1)])
    from Cons.IH [OF one(2) _ k(2)] show ?thesis using one(1) True by auto
  next
    case False
    obtain c1 p rest where one: "Conn_Read V k c = Some (ReadDone p None, c1)" "reader (w_ciphers V) c1 rest"
      "data = p @ rest" "p \<noteq> []" "length p \<le> k" by (rule Conn_Read_some [OF Cons.prems(1) False k(1)])
    have "length rest \<le> length ks" using one(3,4) Cons.prems(2) by (cases p) auto
    from Cons.IH [OF one(2) this k(2)] show ?thesis using one(1,3) by auto
  qed
qed simp

section \<open>One direction\<close>

text \<open>\<open>C\<close> announces the new cipher, sends its last message of the handshake, flushes its buffer and writes \<open>data\<close>; \<open>S\<close>
  gets the bytes in any pieces, reads the announcement and the message, and its user reads \<open>data\<close> in any portions.\<close>

definition transports :: "'c world \<Rightarrow> 'c world \<Rightarrow> bytes \<Rightarrow> bytes list \<Rightarrow> 'c Conn \<Rightarrow> 'c Conn \<Rightarrow> bool" where
  "transports W V fin data C S \<longleftrightarrow> (\<exists>C1 C2 C3 C4 n.
     writeRecordLocked W recordTypeChangeCipherSpec [1] C = Some (1, None, C1) \<and>
     writeRecordLocked W recordTypeHandshake fin C1 = Some (length fin, None, C2) \<and>
     conn_flush W C2 = (n, None, C3) \<and>
     write_all W data (C3\<lparr>cn_handshakeComplete := True\<rparr>) = Some C4 \<and>
     (\<forall>reads. no_errors reads \<and> cn_sent C4 = written C @ delivers reads \<longrightarrow>
        (\<exists>S1 S2. readRecord V recordTypeChangeCipherSpec (S\<lparr>cn_reads := reads\<rparr>) = Some (Returned None, S1) \<and>
           readRecord V recordTypeHandshake S1 = Some (Returned None, S2) \<and> cn_hand S2 = fin \<and>
           (\<forall>ks. (\<forall>k \<in> set ks. 0 < k) \<and> length (concat data) \<le> length ks \<longrightarrow>
              (\<exists>S3. recv V ks (S2\<lparr>cn_hand := [], cn_handshakeComplete := True\<rparr>) = Some (concat data, S3))))))"

definition sending :: "'c Conn \<Rightarrow> bool" where
  "sending C \<longleftrightarrow> cn_vers C = VersionGMSSL \<and> buffer_ok C \<and> cn_handshakeErr C = None \<and> \<not> cn_closeNotifySent C \<and> hc_err (cn_out C) = None"

definition receiving :: "'c Conn \<Rightarrow> bool" where
  "receiving S \<longleftrightarrow> cn_haveVers S \<and> cn_vers S = VersionGMSSL \<and> hc_err (cn_in S) = None \<and> \<not> cn_handshakeComplete S \<and>
     cn_handshakeErr S = None \<and> cn_hand S = [] \<and> cn_input S = None \<and> cn_rawInput S = []"

lemma changeCipherSpec_stepped:
  "length (hc_seq hc) = 8 \<Longrightarrow> changeCipherSpec (gm.stepped x hc) = changeCipherSpec hc"
  by (cases hc) (simp add: changeCipherSpec_def gm.stepped_def split: option.splits)

lemma changeCipherSpec_err: "changeCipherSpec hc = Inr hc' \<Longrightarrow> hc_err hc' = hc_err hc"
  by (auto simp: changeCipherSpec_def split: option.splits)

lemma hand_types: "recordTypeHandshake \<noteq> recordTypeApplicationData" "recordTypeHandshake \<noteq> recordTypeChangeCipherSpec"
  "recordTypeChangeCipherSpec \<noteq> recordTypeApplicationData" "recordTypeChangeCipherSpec \<noteq> 0x80" "recordTypeHandshake \<noteq> 0x80"
  "recordTypeChangeCipherSpec \<noteq> recordTypeAlert" "recordTypeHandshake \<noteq> recordTypeAlert"
  by (simp_all add: recordTypeApplicationData_def recordTypeAlert_def recordTypeChangeCipherSpec_def recordTypeHandshake_def)

lemma wants_hand: "\<not> cn_handshakeComplete c \<Longrightarrow> want_error recordTypeHandshake c = None"
  "\<not> cn_handshakeComplete c \<Longrightarrow> want_error recordTypeChangeCipherSpec c = None"
  by (simp_all add: want_error_def)

lemma be_to_nat_zeros: "be_to_nat (replicate n 0) = 0"
  by (induction n) (simp_all add: be_to_nat_Cons)

text \<open>What the sender does.\<close>

lemma sends:
  assumes W: "w_ciphers W = sm4_ciphers" "writes_all W" and C: "sending C" "plain (cn_out C)"
    and sync: "gm.hc_sync (cn_out C) inn" and version: "be_to_nat (hc_seq (cn_out C)) + 1 < 2 ^ 64"
    and change: "changeCipherSpec (cn_out C) = Inr out2" "gm_ready out2" "gm.hc_sync out2 in2" "hc_seq out2 = replicate 8 0"
    and fin: "fin \<noteq> []" "length fin \<le> maxPlaintext" and data: "length (concat data) < 2 ^ 63"
  obtains C1 C2 C3 C4 n r1 r2 w d1 in3 ps in4 where
    "writeRecordLocked W recordTypeChangeCipherSpec [1] C = Some (1, None, C1)"
    and "writeRecordLocked W recordTypeHandshake fin C1 = Some (length fin, None, C2)" and "conn_flush W C2 = (n, None, C3)"
    and "write_all W data (C3\<lparr>cn_handshakeComplete := True\<rparr>) = Some C4" and "cn_sent C4 = written C @ r1 @ r2 @ w"
    and "sealed sm4_ciphers VersionGMSSL recordTypeChangeCipherSpec inn r1 [1] (gm.stepped d1 inn)"
    and "sealed sm4_ciphers VersionGMSSL recordTypeHandshake in2 r2 fin in3" and "wire sm4_ciphers VersionGMSSL in3 w ps in4"
    and "concat ps = concat data"
proof -
  have s: "cn_vers C = VersionGMSSL" "buffer_ok C" "cn_handshakeErr C = None" "\<not> cn_closeNotifySent C" "hc_err (cn_out C) = None"
    using C(1) by (simp_all add: sending_def)
  have v: "VersionGMSSL \<noteq> 0" by (simp add: VersionGMSSL_def)
  have ablec: "able recordTypeChangeCipherSpec (cn_out C)" using C(2) hand_types by (simp add: able_def)
  have one: "([1] :: bytes) \<noteq> []" "length ([1] :: bytes) \<le> maxPlaintext" by (simp_all add: maxPlaintext_def)
  have l8: "length (hc_seq (cn_out C)) = 8" using sync by (simp add: gm.hc_sync_def)
  obtain r1 c1 x1 d1 where w1: "writeRecord_loop W recordTypeChangeCipherSpec [1] 0 C = Some (0 + length ([1] :: bytes), None, c1)"
    and seal1: "sealed sm4_ciphers VersionGMSSL recordTypeChangeCipherSpec inn r1 [1] (gm.stepped d1 inn)"
    and wr1: "written c1 = written C @ r1" and out1: "cn_out c1 = gm.stepped x1 (cn_out C)"
    and "gm.hc_sync (cn_out c1) (gm.stepped d1 inn)" and "gm_ready (cn_out C) \<longrightarrow> gm_ready (cn_out c1)"
    and "plain (cn_out C) \<longrightarrow> plain (cn_out c1)" and "be_to_nat (hc_seq (cn_out c1)) = be_to_nat (hc_seq (cn_out C)) + 1"
    and wc1: "only_wrote C c1"
    by (rule writeRecord_whole [OF ablec W s(2,1) v sync one(1) version hand_types(3) one(2)])
  define C1 where "C1 = c1\<lparr>cn_out := out2\<rparr>"
  have "changeCipherSpec (cn_out c1) = Inr out2" using changeCipherSpec_stepped [OF l8] change(1) out1 by simp
  then have W1: "writeRecordLocked W recordTypeChangeCipherSpec [1] C = Some (1, None, C1)"
    using w1 by (simp add: writeRecordLocked_def C1_def)
  note f1 = only_wrote_fields [OF wc1]
  have s1: "cn_vers C1 = VersionGMSSL" "buffer_ok C1" "cn_out C1 = out2" "written C1 = written C @ r1" "cn_handshakeErr C1 = None"
    "\<not> cn_closeNotifySent C1"
    using s f1 wr1 by (simp_all add: C1_def buffer_ok_def written_def)
  have ableh: "able recordTypeHandshake (cn_out C1)" using change(2) s1(3) by (simp add: able_def)
  have sync1: "gm.hc_sync (cn_out C1) in2" and seq1: "be_to_nat (hc_seq (cn_out C1)) + 1 < 2 ^ 64"
    using change(3,4) s1(3) be_to_nat_zeros by simp_all
  obtain r2 C2 x2 d2 where w2: "writeRecord_loop W recordTypeHandshake fin 0 C1 = Some (0 + length fin, None, C2)"
    and seal2: "sealed sm4_ciphers VersionGMSSL recordTypeHandshake in2 r2 fin (gm.stepped d2 in2)"
    and wr2: "written C2 = written C1 @ r2" and "cn_out C2 = gm.stepped x2 (cn_out C1)"
    and sync2: "gm.hc_sync (cn_out C2) (gm.stepped d2 in2)" and ready2: "gm_ready (cn_out C1) \<longrightarrow> gm_ready (cn_out C2)"
    and "plain (cn_out C1) \<longrightarrow> plain (cn_out C2)" and num2: "be_to_nat (hc_seq (cn_out C2)) = be_to_nat (hc_seq (cn_out C1)) + 1"
    and wc2: "only_wrote C1 C2"
    by (rule writeRecord_whole [OF ableh W s1(2,1) v sync1 fin(1) seq1 hand_types(1) fin(2)])
  have W2: "writeRecordLocked W recordTypeHandshake fin C1 = Some (length fin, None, C2)"
    using w2 hand_types by (simp add: writeRecordLocked_def)
  note f2 = only_wrote_fields [OF wc2]
  have full: "cn_sendBuf C2 \<noteq> []" if "cn_buffering C2"
  proof -
    have b: "cn_buffering c1" "cn_buffering C" "cn_buffering C1" using that f1(1) f2(1) by (simp_all add: C1_def)
    have "cn_sent C2 = cn_sent C" using f1(9) [OF b(2)] f2(9) [OF b(3)] by (simp add: C1_def)
    moreover have "r1 \<noteq> []" using seal1 by (auto simp: sealed_def)
    ultimately show ?thesis using wr2 s1(4) by (auto simp: written_def)
  qed
  obtain n C3 where fl: "conn_flush W C2 = (n, None, C3)" and C3: "cn_sent C3 = written C2" "cn_sendBuf C3 = []" "\<not> cn_buffering C3"
      "cn_out C3 = cn_out C2" "cn_vers C3 = cn_vers C2" "cn_handshakeErr C3 = cn_handshakeErr C2" "cn_closeNotifySent C3 = cn_closeNotifySent C2"
    using W(2) full by (cases "cn_sendBuf C2 = []") (auto simp: conn_flush_def writes_all_def written_def)
  let ?C3 = "C3\<lparr>cn_handshakeComplete := True\<rparr>"
  have "hc_err out2 = None" using changeCipherSpec_err [OF change(1)] s(5) by simp
  then have writer3: "can_write (gm.stepped d2 in2) ?C3"
    using C3 f2 s1 ready2 change(2) sync2 by (simp add: can_write_def buffer_ok_def)
  have num3: "sent_so_far ?C3 + length (concat data) < 2 ^ 64"
    using num2 s1(3) change(4) be_to_nat_zeros data C3(4) by (simp add: sent_so_far_def)
  from gm_write_all [OF W writer3 num3]
  obtain C4 w ps in4 where wa: "write_all W data ?C3 = Some C4" "wire sm4_ciphers VersionGMSSL (gm.stepped d2 in2) w ps in4"
    "concat ps = concat data" "written C4 = written ?C3 @ w" "can_write in4 C4" "only_wrote ?C3 C4" by blast
  have "cn_sendBuf C4 = []" using only_wrote_fields(1,8) [OF wa(6)] C3(2,3) by (simp add: buffer_ok_def)
  then have "cn_sent C4 = written C @ r1 @ r2 @ w"
    using wa(4) C3(1,2) wr2 s1(4) by (simp add: written_def)
  then show ?thesis using that [OF W1 W2 fl wa(1) _ seal1 seal2 wa(2,3)] by simp
qed

text \<open>What the receiver does with it.\<close>

lemma receives:
  assumes V: "w_ciphers V = sm4_ciphers" and S: "receiving S" and l8: "length (hc_seq (cn_in S)) = 8"
    and change: "changeCipherSpec (cn_in S) = Inr in2"
    and seal1: "sealed sm4_ciphers VersionGMSSL recordTypeChangeCipherSpec (cn_in S) r1 [1] (gm.stepped d1 (cn_in S))"
    and seal2: "sealed sm4_ciphers VersionGMSSL recordTypeHandshake in2 r2 fin in3"
    and w: "wire sm4_ciphers VersionGMSSL in3 w ps in4" "concat ps = data"
    and net: "no_errors reads" "delivers reads = r1 @ r2 @ w"
  obtains S1 S2 where "readRecord V recordTypeChangeCipherSpec (S\<lparr>cn_reads := reads\<rparr>) = Some (Returned None, S1)"
    and "readRecord V recordTypeHandshake S1 = Some (Returned None, S2)" and "cn_hand S2 = fin"
    and "reader sm4_ciphers (S2\<lparr>cn_hand := [], cn_handshakeComplete := True\<rparr>) data"
proof -
  have s: "cn_haveVers S" "cn_vers S = VersionGMSSL" "hc_err (cn_in S) = None" "\<not> cn_handshakeComplete S" "cn_handshakeErr S = None"
    "cn_hand S = []" "cn_input S = None" "cn_rawInput S = []" using S by (simp_all add: receiving_def)
  let ?S = "S\<lparr>cn_reads := reads\<rparr>"
  have l: "listens ?S" and u: "unread ?S = r1 @ r2 @ w" and n: "\<not> cn_handshakeComplete ?S"
    and q: "sealed sm4_ciphers VersionGMSSL recordTypeChangeCipherSpec (cn_in ?S) r1 [1] (gm.stepped d1 (cn_in S))"
    using s net seal1 by (simp_all add: listens_def unread_def)
  obtain raw1 reads1 wc1 where rd1: "readRecord V recordTypeChangeCipherSpec ?S =
      readRecord_other V recordTypeChangeCipherSpec recordTypeChangeCipherSpec [1]
        (?S\<lparr>cn_rawInput := raw1, cn_reads := reads1, cn_in := gm.stepped d1 (cn_in S), cn_warnCount := wc1\<rparr>)"
    "raw1 @ delivers reads1 = r2 @ w" "no_errors reads1" "hc_err (gm.stepped d1 (cn_in S)) = None"
    by (rule readRecord_sealed [OF q u l V hand_types(4,6) wants_hand(2) [OF n]])
  define S1 where "S1 = S\<lparr>cn_rawInput := raw1, cn_reads := reads1, cn_in := in2, cn_warnCount := wc1\<rparr>"
  have e2: "hc_err in2 = None" using changeCipherSpec_err [OF change] s(3) by simp
  have R1: "readRecord V recordTypeChangeCipherSpec ?S = Some (Returned None, S1)"
    using rd1(1) changeCipherSpec_stepped [OF l8, of d1] change s(6) e2
    by (simp add: readRecord_other_def readRecord_change_def S1_def)
  have l1: "listens S1" and u1: "unread S1 = r2 @ w" and n1: "\<not> cn_handshakeComplete S1"
    and q1: "sealed sm4_ciphers VersionGMSSL recordTypeHandshake (cn_in S1) r2 fin in3"
    using s rd1(2,3) e2 seal2 by (simp_all add: S1_def listens_def unread_def)
  obtain raw2 reads2 wc2 where rd2: "readRecord V recordTypeHandshake S1 =
      readRecord_other V recordTypeHandshake recordTypeHandshake fin
        (S1\<lparr>cn_rawInput := raw2, cn_reads := reads2, cn_in := in3, cn_warnCount := wc2\<rparr>)"
    "raw2 @ delivers reads2 = w" "no_errors reads2" "hc_err in3 = None"
    by (rule readRecord_sealed [OF q1 u1 l1 V hand_types(5,7) wants_hand(1) [OF n1]])
  define S2 where "S2 = S1\<lparr>cn_rawInput := raw2, cn_reads := reads2, cn_in := in3, cn_warnCount := wc2, cn_hand := fin\<rparr>"
  have R2: "readRecord V recordTypeHandshake S1 = Some (Returned None, S2)"
    using rd2(1,4) hand_types s(6) by (simp add: readRecord_other_def S1_def S2_def)
  have "reader sm4_ciphers (S2\<lparr>cn_hand := [], cn_handshakeComplete := True\<rparr>) data"
    using s rd2(2-4) w by (auto simp: reader_def listens_def buffered_def unread_def S1_def S2_def)
  moreover have "cn_hand S2 = fin" by (simp add: S2_def)
  ultimately show ?thesis using that R1 R2 by blast
qed

lemma transports_data:
  assumes W: "w_ciphers W = sm4_ciphers" "writes_all W" and V: "w_ciphers V = sm4_ciphers"
    and C: "sending C" "plain (cn_out C)" and S: "receiving S" and sync: "gm.hc_sync (cn_out C) (cn_in S)"
    and version: "be_to_nat (hc_seq (cn_out C)) + 1 < 2 ^ 64"
    and change: "changeCipherSpec (cn_out C) = Inr out2" "gm_ready out2" "gm.hc_sync out2 in2" "hc_seq out2 = replicate 8 0"
      "changeCipherSpec (cn_in S) = Inr in2"
    and fin: "fin \<noteq> []" "length fin \<le> maxPlaintext" and data: "length (concat data) < 2 ^ 63"
  shows "transports W V fin data C S"
proof -
  obtain C1 C2 C3 C4 n r1 r2 w d1 in3 ps in4 where
    s: "writeRecordLocked W recordTypeChangeCipherSpec [1] C = Some (1, None, C1)"
    "writeRecordLocked W recordTypeHandshake fin C1 = Some (length fin, None, C2)" "conn_flush W C2 = (n, None, C3)"
    "write_all W data (C3\<lparr>cn_handshakeComplete := True\<rparr>) = Some C4" "cn_sent C4 = written C @ r1 @ r2 @ w"
    "sealed sm4_ciphers VersionGMSSL recordTypeChangeCipherSpec (cn_in S) r1 [1] (gm.stepped d1 (cn_in S))"
    "sealed sm4_ciphers VersionGMSSL recordTypeHandshake in2 r2 fin in3" "wire sm4_ciphers VersionGMSSL in3 w ps in4"
    "concat ps = concat data"
    by (rule sends [OF W C sync version change(1-4) fin data])
  have l8: "length (hc_seq (cn_in S)) = 8" using sync by (simp add: gm.hc_sync_def)
  have "\<exists>S1 S2. readRecord V recordTypeChangeCipherSpec (S\<lparr>cn_reads := reads\<rparr>) = Some (Returned None, S1) \<and>
       readRecord V recordTypeHandshake S1 = Some (Returned None, S2) \<and> cn_hand S2 = fin \<and>
       (\<forall>ks. (\<forall>k \<in> set ks. 0 < k) \<and> length (concat data) \<le> length ks \<longrightarrow>
          (\<exists>S3. recv V ks (S2\<lparr>cn_hand := [], cn_handshakeComplete := True\<rparr>) = Some (concat data, S3)))"
    if net: "no_errors reads" "cn_sent C4 = written C @ delivers reads" for reads
  proof -
    have "delivers reads = r1 @ r2 @ w" using net(2) s(5) by simp
    then obtain S1 S2 where r: "readRecord V recordTypeChangeCipherSpec (S\<lparr>cn_reads := reads\<rparr>) = Some (Returned None, S1)"
      "readRecord V recordTypeHandshake S1 = Some (Returned None, S2)" "cn_hand S2 = fin"
      "reader sm4_ciphers (S2\<lparr>cn_hand := [], cn_handshakeComplete := True\<rparr>) (concat data)"
      by (rule receives [OF V S l8 change(5) s(6-9) net(1)])
    have "\<exists>S3. recv V ks (S2\<lparr>cn_hand := [], cn_handshakeComplete := True\<rparr>) = Some (concat data, S3)"
      if "\<forall>k \<in> set ks. 0 < k" "length (concat data) \<le> length ks" for ks
      using recv_all [OF that(1) _ that(2), of V] r(4) V by metis
    then show ?thesis using r(1-3) by blast
  qed
  then show ?thesis unfolding transports_def using s(1-4) by blast
qed

section \<open>Both directions\<close>

text \<open>A connection whose handshake has come to the keys: nothing is encrypted yet, and all that came has been handled.\<close>

definition before_change :: "'c Conn \<Rightarrow> bool" where
  "before_change c \<longleftrightarrow> sending c \<and> receiving c \<and> plain (cn_in c) \<and> plain (cn_out c) \<and> length (hc_seq (cn_in c)) = 8 \<and>
     length (hc_seq (cn_out c)) = 8 \<and> be_to_nat (hc_seq (cn_out c)) + 1 < 2 ^ 64"

lemma establishKeys_prepared:
  "client_establishKeys H v suite ms cr sr (i, u) = Some (i', u') \<Longrightarrow>
     \<exists>x m y n. i' = prepareCipherSpec v x m i \<and> u' = prepareCipherSpec v y n u"
  "server_establishKeys H v suite ms cr sr (i, u) = Some (i', u') \<Longrightarrow>
     \<exists>x m y n. i' = prepareCipherSpec v x m i \<and> u' = prepareCipherSpec v y n u"
  unfolding client_establishKeys_def server_establishKeys_def
  by (auto split: bind_splits option.splits prod.splits)

lemma prepared:
  assumes "before_change c"
  shows "sending (c\<lparr>cn_in := prepareCipherSpec v x m (cn_in c), cn_out := prepareCipherSpec v y n (cn_out c)\<rparr>)"
    "receiving (c\<lparr>cn_in := prepareCipherSpec v x m (cn_in c), cn_out := prepareCipherSpec v y n (cn_out c)\<rparr>)"
    "plain (prepareCipherSpec v y n (cn_out c))"
    "hc_seq (prepareCipherSpec v x m (cn_in c)) = hc_seq (cn_in c)" "hc_seq (prepareCipherSpec v y n (cn_out c)) = hc_seq (cn_out c)"
    "hc_version (prepareCipherSpec v y n (cn_out c)) = v" "hc_version (prepareCipherSpec v x m (cn_in c)) = v"
    "plain (prepareCipherSpec v x m (cn_in c))"
  using assms by (auto simp: before_change_def sending_def receiving_def plain_def prepareCipherSpec_def buffer_ok_def)

lemma plain_sync:
  "plain out \<Longrightarrow> plain inn \<Longrightarrow> hc_version inn = hc_version out \<Longrightarrow> hc_seq inn = hc_seq out \<Longrightarrow> length (hc_seq out) = 8 \<Longrightarrow>
   gm.hc_sync out inn"
  by (simp add: plain_def gm.hc_sync_def gm.is_cbc_def)

lemma changed_version: "changeCipherSpec hc = Inr hc' \<Longrightarrow> hc_version hc' = hc_version hc"
  by (auto simp: changeCipherSpec_def split: option.splits)

end
