(* ===== verification/TlsSessionProps.thy ===== *)
theory TlsSessionProps
  imports TlsSession
begin

text \<open>Properties of the record layer, of the keys and of the connections.\<close>

text \<open>C16. A session of a national suite carries the data of both sides. When the client and the server have set their keys
  with \<open>establishKeys\<close> from the same master secret and random numbers, and each writes its change of the cipher, its last
  message of the handshake and then any data with \<open>Write\<close>, then the other side, whatever pieces the network cuts the bytes
  into, reads the change of the cipher and the message, and its calls of \<open>Read\<close>, with any buffer sizes, together return
  exactly the data. Assumed: the ciphers are SM4 and SM3, the network takes all the bytes it is given, both sides are
  before the change of the cipher with equal sequence numbers, the last message has between one byte and a record, and
  the data less than \<open>2 ^ 63\<close> bytes.\<close>

theorem gm_session_transports:
  assumes "suite \<in> set gmCipherSuites"
    and "w_ciphers W = sm4_ciphers" and "writes_all W" and "w_ciphers V = sm4_ciphers" and "writes_all V"
    and "before_change C" and "before_change S"
    and "hc_seq (cn_in S) = hc_seq (cn_out C)" and "hc_seq (cn_in C) = hc_seq (cn_out S)"
    and "fin \<noteq> []" and "length fin \<le> maxPlaintext" and "fin' \<noteq> []" and "length fin' \<le> maxPlaintext"
    and "length (concat data) < 2 ^ 63" and "length (concat data') < 2 ^ 63"
  shows "\<exists>c_in c_out s_in s_out.
    client_establishKeys H VersionGMSSL suite masterSecret clientRandom serverRandom (cn_in C, cn_out C) = Some (c_in, c_out) \<and>
    server_establishKeys H VersionGMSSL suite masterSecret clientRandom serverRandom (cn_in S, cn_out S) = Some (s_in, s_out) \<and>
    transports W V fin data (C\<lparr>cn_in := c_in, cn_out := c_out\<rparr>) (S\<lparr>cn_in := s_in, cn_out := s_out\<rparr>) \<and>
    transports V W fin' data' (S\<lparr>cn_in := s_in, cn_out := s_out\<rparr>) (C\<lparr>cn_in := c_in, cn_out := c_out\<rparr>)"
proof -
  have lc: "length (hc_seq (cn_in C)) = 8" "length (hc_seq (cn_out C)) = 8" "be_to_nat (hc_seq (cn_out C)) + 1 < 2 ^ 64"
    and ls: "length (hc_seq (cn_in S)) = 8" "length (hc_seq (cn_out S)) = 8" "be_to_nat (hc_seq (cn_out S)) + 1 < 2 ^ 64"
    using assms(6,7) by (simp_all add: before_change_def)
  obtain c_in c_out s_in s_out c_in2 c_out2 s_in2 s_out2 where
    k: "client_establishKeys H VersionGMSSL suite masterSecret clientRandom serverRandom (cn_in C, cn_out C) = Some (c_in, c_out)"
      "server_establishKeys H VersionGMSSL suite masterSecret clientRandom serverRandom (cn_in S, cn_out S) = Some (s_in, s_out)"
    and ch: "changeCipherSpec c_in = Inr c_in2" "changeCipherSpec c_out = Inr c_out2"
      "changeCipherSpec s_in = Inr s_in2" "changeCipherSpec s_out = Inr s_out2"
    and sync: "gm.hc_sync c_out2 s_in2" "gm.hc_sync s_out2 c_in2"
    and cbc: "gm.is_cbc c_out2" "gm.is_cbc s_out2" "gm.mac_length c_out2 = 32" "gm.mac_length s_out2 = 32"
    and zero: "hc_seq c_out2 = replicate 8 0" "hc_seq s_out2 = replicate 8 0"
    by (rule gm_establishKeys [OF assms(1) lc(1,2) ls(1,2)])
  obtain x m y n where pc: "c_in = prepareCipherSpec VersionGMSSL x m (cn_in C)" "c_out = prepareCipherSpec VersionGMSSL y n (cn_out C)"
    using establishKeys_prepared(1) [OF k(1)] by blast
  obtain x' m' y' n' where ps: "s_in = prepareCipherSpec VersionGMSSL x' m' (cn_in S)" "s_out = prepareCipherSpec VersionGMSSL y' n' (cn_out S)"
    using establishKeys_prepared(2) [OF k(2)] by blast
  note prep = prepared [OF assms(6)] prepared [OF assms(7)]
  have ready: "gm_ready c_out2" "gm_ready s_out2"
    using changed_version [OF ch(2)] changed_version [OF ch(4)] cbc by (simp_all add: gm_ready_def pc ps prep)
  have "gm.hc_sync c_out s_in" "gm.hc_sync s_out c_in"
    unfolding pc ps using lc ls assms(8,9) by (auto intro!: plain_sync simp: prep)
  note half = this
  let ?C = "C\<lparr>cn_in := c_in, cn_out := c_out\<rparr>" and ?S = "S\<lparr>cn_in := s_in, cn_out := s_out\<rparr>"
  have c: "sending ?C" "receiving ?C" "plain (cn_out ?C)" "be_to_nat (hc_seq (cn_out ?C)) + 1 < 2 ^ 64"
    and s: "sending ?S" "receiving ?S" "plain (cn_out ?S)" "be_to_nat (hc_seq (cn_out ?S)) + 1 < 2 ^ 64"
    unfolding pc ps using lc ls by (simp_all add: prep)
  have "transports W V fin data ?C ?S"
    by (rule transports_data [OF assms(2-4) c(1,3) s(2) _ c(4) _ ready(1) sync(1) zero(1) _ assms(10,11,14)])
      (simp_all add: half ch)
  moreover have "transports V W fin' data' ?S ?C"
    by (rule transports_data [OF assms(4,5,2) s(1,3) c(2) _ s(4) _ ready(2) sync(2) zero(2) _ assms(12,13,15)])
      (simp_all add: half ch)
  ultimately show ?thesis using k by blast
qed

definition new_half :: "cbc_mode halfConn" where
  "new_half = \<lparr>hc_err = None, hc_version = 0, hc_cipher = None, hc_mac = None, hc_seq = replicate 8 0, hc_nextCipher = None, hc_nextMac = None\<rparr>"

definition sample_conn :: "bool \<Rightarrow> cbc_mode Conn" where
  "sample_conn client =
     \<lparr>cn_isClient = client, cn_handshakeComplete = False, cn_handshakeErr = None, cn_handshakes = 0, cn_vers = VersionGMSSL,
      cn_haveVers = True, cn_DynamicRecordSizingDisabled = False, cn_Renegotiation = RenegotiateNever, cn_GMSupport = True,
      cn_closeNotifySent = False, cn_closeNotifyErr = None, cn_in = new_half, cn_out = new_half, cn_rawInput = [], cn_input = None,
      cn_hand = [], cn_buffering = True, cn_sendBuf = [], cn_bytesSent = 0, cn_packetsSent = 0, cn_warnCount = 0, cn_reads = [],
      cn_sent = [], cn_randCalls = 0\<rparr>"

definition sample_world :: "cbc_mode world" where
  "sample_world = \<lparr>w_ciphers = sm4_ciphers, w_Write = \<lambda>s d. (length d, None), w_rand = \<lambda>i n. Some (replicate n (word_of_nat i)),
     w_handshake = \<lambda>c. (None, c)\<rparr>"

definition sample_hashes :: hashes where
  "sample_hashes = \<lparr>md5_sum = \<lambda>d. replicate 16 0, sha1_sum = \<lambda>d. replicate 20 0, sha256_sum = \<lambda>d. replicate 32 0,
     sha384_sum = \<lambda>d. replicate 48 0, sha512_sum = \<lambda>d. replicate 64 0\<rparr>"

lemma gm_session_transports_witness:
  "\<exists>c_in c_out s_in s_out.
    client_establishKeys sample_hashes VersionGMSSL (gmCipherSuites ! 0) [1] [2] [3] (new_half, new_half) = Some (c_in, c_out) \<and>
    server_establishKeys sample_hashes VersionGMSSL (gmCipherSuites ! 0) [1] [2] [3] (new_half, new_half) = Some (s_in, s_out) \<and>
    transports sample_world sample_world [20] [[7, 8], [], [9]]
      (sample_conn True\<lparr>cn_in := c_in, cn_out := c_out\<rparr>) (sample_conn False\<lparr>cn_in := s_in, cn_out := s_out\<rparr>) \<and>
    transports sample_world sample_world [21] [[5]]
      (sample_conn False\<lparr>cn_in := s_in, cn_out := s_out\<rparr>) (sample_conn True\<lparr>cn_in := c_in, cn_out := c_out\<rparr>)"
proof -
  have c: "before_change (sample_conn b)" for b
    unfolding before_change_def sending_def receiving_def plain_def buffer_ok_def sample_conn_def new_half_def
    by (simp add: be_to_nat_zeros)
  have w: "writes_all sample_world" "w_ciphers sample_world = sm4_ciphers" by (simp_all add: writes_all_def sample_world_def)
  have h: "cn_in (sample_conn b) = new_half" "cn_out (sample_conn b) = new_half" for b by (simp_all add: sample_conn_def)
  have s: "gmCipherSuites ! 0 \<in> set gmCipherSuites" by (simp add: gmCipherSuites_def)
  show ?thesis
    using gm_session_transports [OF s w(2,1) w(2,1) c [of True] c [of False], where fin = "[20]" and fin' = "[21]"
        and data = "[[7, 8], [], [9]]" and data' = "[[5]]" and H = sample_hashes and masterSecret = "[1]"
        and clientRandom = "[2]" and serverRandom = "[3]"]
    by (simp add: h maxPlaintext_def)
qed

text \<open>Inversion of \<open>decrypt\<close> on a half connection with a MAC.\<close>

lemma decrypt_cipher_alert: "decrypt_cipher E hc data payload n = Some (DecAlert c a) \<Longrightarrow> a = alertBadRecordMAC"
  by (auto simp: decrypt_cipher_def Let_def split: option.splits rcipher.splits prod.splits if_splits bind_splits)

lemma decrypt_refused:
  assumes "decrypt E hc data = Some (hc', y, Inl a)"
  shows "a = alertBadRecordMAC \<and> hc_seq hc' = hc_seq hc"
  using assms unfolding decrypt_def Let_def
  by (auto dest: decrypt_cipher_alert split: decrypted.splits option.splits if_splits bind_splits)

lemma decrypt_accepted:
  assumes "decrypt E hc data = Some (hc', y, Inr off)" and "hc_mac hc = Some f"
  obtains c explicit payload n p m extra header where
    "decrypt_cipher E hc data (drop 5 data) (mac_Size f) = Some (DecPayload c explicit payload p 255)"
    and "5 \<le> length data" and "off = 5 + length explicit" and "header = (take 5 data)[3 := byte1 n, 4 := byte0 n]"
    and "y = take (5 + length explicit + n) (header @ explicit @ payload)" and "slice_between payload n (n + mac_Size f) = Some m"
    and "slice_from payload (n + mac_Size f) = Some extra" and "mac_MAC f (hc_seq hc) header (take n payload) extra = Some m"
    and "incSeq (hc\<lparr>hc_cipher := c\<rparr>) = Some hc'"
  using assms unfolding decrypt_def Let_def recordHeaderLen_def
  by (auto simp: slice_from_def slice_to_def split: decrypted.splits option.splits if_splits bind_splits)

text \<open>C17. A record is accepted only with its MAC. On a half connection with a MAC and a sequence number of 8 bytes, \<open>decrypt\<close> either refuses the record with
  \<open>alertBadRecordMAC\<close> and keeps the sequence number, or the padding is good, the payload is the returned content, the MAC
  of sequence number, header and content, and the rest, and the sequence number goes up by one.\<close>

theorem decrypt_authentic:
  assumes "decrypt E hc data = Some (hc', y, r)" and "hc_mac hc = Some f" and "length (hc_seq hc) = 8"
  shows "case r of
      Inl a \<Rightarrow> a = alertBadRecordMAC \<and> hc_seq hc' = hc_seq hc
    | Inr off \<Rightarrow> be_to_nat (hc_seq hc') = be_to_nat (hc_seq hc) + 1 \<and>
        (\<exists>c explicit payload n m extra. decrypt_cipher E hc data (drop 5 data) (mac_Size f) = Some (DecPayload c explicit payload n 255) \<and>
           payload = drop off y @ m @ extra \<and> length m = mac_Size f \<and> mac_MAC f (hc_seq hc) (take 5 y) (drop off y) extra = Some m)"
proof (cases r)
  case (Inl a)
  then show ?thesis using decrypt_refused [of E hc data hc' y a] assms(1) by simp
next
  case (Inr off)
  obtain c explicit payload n p m extra header where
    d: "decrypt_cipher E hc data (drop 5 data) (mac_Size f) = Some (DecPayload c explicit payload p 255)"
    and x: "5 \<le> length data" "off = 5 + length explicit" "header = (take 5 data)[3 := byte1 n, 4 := byte0 n]"
      "y = take (5 + length explicit + n) (header @ explicit @ payload)" "slice_between payload n (n + mac_Size f) = Some m"
      "slice_from payload (n + mac_Size f) = Some extra" "mac_MAC f (hc_seq hc) header (take n payload) extra = Some m"
      "incSeq (hc\<lparr>hc_cipher := c\<rparr>) = Some hc'"
    by (rule decrypt_accepted [OF assms(1) [unfolded Inr] assms(2)])
  have h: "length header = 5" using x(1,3) by simp
  have y: "take 5 y = header" "drop off y = take n payload" using x(2,4) h by simp_all
  have m: "payload = take n payload @ m @ extra" "length m = mac_Size f"
    using x(5,6) by (auto simp: slice_between_def slice_from_def subslice_def drop_take split: if_splits)
      (metis add.commute append_take_drop_id drop_drop)
  have "be_to_nat (hc_seq hc') = be_to_nat (hc_seq hc) + 1"
    using x(8) assms(3) by (auto simp: incSeq_correct be_to_nat_be_fixed split: if_splits)
  then show ?thesis using Inr d x(7) y m by auto
qed

definition sample_half :: "cbc_mode halfConn" where
  "sample_half = new_half\<lparr>hc_mac := Some (Tls10MAC (\<lambda>d. [word_of_nat (length d)]) 1)\<rparr>"

lemma decrypt_authentic_witness:
  "\<exists>hc'. decrypt sm4_ciphers sample_half [23, 1, 1, 0, 2, 7, 14] = Some (hc', [23, 1, 1, 0, 1, 7], Inr 5) \<and>
     be_to_nat (hc_seq hc') = be_to_nat (hc_seq sample_half) + 1"
proof -
  have z: "hc_mac sample_half = Some (Tls10MAC (\<lambda>d. [word_of_nat (length d)]) 1)" "hc_cipher sample_half = None"
    "length (hc_seq sample_half) = 8" "be_to_nat (hc_seq sample_half) = 0"
    by (simp_all add: sample_half_def new_half_def be_to_nat_zeros)
  have inc: "incSeq (sample_half\<lparr>hc_cipher := None\<rparr>) =
      Some (sample_half\<lparr>hc_cipher := None, hc_seq := be_fixed 8 1\<rparr>)"
    using incSeq_correct [of "sample_half\<lparr>hc_cipher := None\<rparr>"] z(3,4) by simp
  have c: "decrypt_cipher sm4_ciphers sample_half d p n = Some (DecPayload None [] p 0 255)" for d p n
    using z(2) by (simp add: decrypt_cipher_def)
  have n: "nat (select_nonneg (int (length [7, 14 :: byte]) - int 1 - int 0)) = 1"
    using select_nonneg_small [of 1] by simp
  have s: "slice_from [23, 1, 1, 0, 2, 7, 14 :: byte] 5 = Some [7, 14]" "take 5 [23, 1, 1, 0, 2, 7, 14 :: byte] = [23, 1, 1, 0, 2]"
    "[23, 1, 1, 0, 2 :: byte][3 := byte1 1, 4 := byte0 1] = [23, 1, 1, 0, 1]"
    "slice_between [7, 14 :: byte] 1 (1 + 1) = Some [14]" "slice_to [7, 14 :: byte] 1 = Some [7]" "slice_from [7, 14 :: byte] (1 + 1) = Some []"
    by (simp_all add: slice_from_def slice_to_def slice_between_def subslice_def byte1_def byte0_def)
  have m: "mac_MAC (Tls10MAC (\<lambda>d. [word_of_nat (length d)]) 1) (hc_seq sample_half) [23, 1, 1, 0, 1] [7] [] = Some [14]"
    using z(3) by (simp add: mac_MAC_def tls10MAC_MAC_def)
  have d: "decrypt sm4_ciphers sample_half [23, 1, 1, 0, 2, 7, 14] =
      Some (sample_half\<lparr>hc_cipher := None, hc_seq := be_fixed 8 1\<rparr>, [23, 1, 1, 0, 1, 7], Inr 5)"
    unfolding decrypt_def recordHeaderLen_def s bind.bind_lunit Let_def c decrypted.case z(1) option.case
    using n s m inc z(1) by (simp add: mac_Size_def)
  show ?thesis using decrypt_authentic [OF d z(1)] z(3) d by auto
qed

text \<open>C30. The constant-time check of the padding, written with masks and shifts only, is the direct one on payloads of less
  than \<open>2 ^ 31\<close> bytes: the last byte says
  how many bytes of padding stand in front of it, there must be so many, and all of them must be equal to it.\<close>

theorem extractPadding_direct:
  assumes "length payload < 2147483648"
  shows "extractPadding payload =
    (if payload = [] then (0, 0)
     else let p = last payload in
       (unat p + 1, if unat p < length payload \<and> (\<forall>j \<le> unat p. payload ! (length payload - 1 - j) = p) then 255 else 0))"
  by (rule extractPadding_correct [OF assms])

lemma extractPadding_direct_witness: "extractPadding [7, 1, 1] = (2, 255) \<and> extractPadding [7, 2, 1] = (2, 0)"
  using extractPadding_direct [of "[7, 1, 1]"] extractPadding_direct [of "[7, 2, 1]"]
  by (simp add: All_less_Suc2 le_Suc_eq numeral_2_eq_2 Let_def)

text \<open>The messages of a handshake, written one after the other.\<close>

fun fh_writes :: "bytes list \<Rightarrow> finishedHash \<Rightarrow> finishedHash option" where
  "fh_writes [] h = Some h"
| "fh_writes (m # ms) h = do { h \<leftarrow> fh_Write m h; fh_writes ms h }"

text \<open>C31. The values of the finished messages of the national protocol are those of the standard: over any messages, the
  handshake hash of \<open>newFinishedHashGM\<close> yields for each side the first twelve bytes of \<open>P_hash\<close> with HMAC over SM3 of
  the label of the side and the SM3 digest of the messages, whatever the sizes of the writes.\<close>

theorem gm_finished_values:
  "\<exists>h. fh_writes msgs newFinishedHashGM = Some h \<and> fh_Sum h = Some (refSM3 (concat msgs)) \<and>
     clientSum masterSecret h =
       Some (P_hash (hmac refSM3 sm3_BlockSize masterSecret) (clientFinishedLabel @ refSM3 (concat msgs)) 12, h) \<and>
     serverSum masterSecret h =
       Some (P_hash (hmac refSM3 sm3_BlockSize masterSecret) (serverFinishedLabel @ refSM3 (concat msgs)) 12, h)"
proof -
  define H where "H d = newFinishedHashGM\<lparr>fh_client := HashObj sm3_hash d, fh_server := HashObj sm3_hash d, fh_buffer := Some d\<rparr>" for d
  have step: "fh_Write m (H d) = Some (H (d @ m))" for m d
    by (simp add: fh_Write_def H_def newFinishedHashGM_def VersionGMSSL_def)
  have w: "fh_writes msgs (H d) = Some (H (d @ concat msgs))" for d
    by (induction msgs arbitrary: d) (simp_all add: step)
  have n: "newFinishedHashGM = H []" by (simp add: H_def newFinishedHashGM_def)
  have s: "sm3_hash = refSM3" by (rule ext) (rule sm3_hash_standard)
  have sum: "fh_Sum (H d) = Some (refSM3 d)" for d by (simp add: fh_Sum_def H_def newFinishedHashGM_def s)
  have "fh_version (H d) \<noteq> VersionSSL30" "fh_prf (H d) = prfAndHashForGM" for d
    by (simp_all add: H_def newFinishedHashGM_def VersionGMSSL_def VersionSSL30_def prfAndHashForGM_def)
  then show ?thesis
    using w [of "[]"] by (simp add: n clientSum_def serverSum_def sum prf12_GM s finishedVerifyLength_def)
qed

text \<open>The other constructor, which the server takes to resume a session, sets no MD5 hashes, and the first write panics.\<close>

lemma gm_resumption_hash_panics: "\<exists>h. newFinishedHash H VersionGMSSL suite = Some h \<and> fh_Write msg h = None"
  by (simp add: newFinishedHash_def fh_Write_def VersionGMSSL_def VersionSSL30_def)

end
