(* ===== verification/Spec2Isabelle.thy ===== *)
theory Spec2Isabelle
  imports RlpProps StateProps MultiProps SoProps HexProps MathProps BlockProps PrqueProps Sm3Props Sm4Props Sm4GcmProps BerProps TlsProps TlsSessionProps
begin

text \<open>
  Verification of the contract host \<open>pdx-chain-so\<close> of the repository. All paths below are relative to the
  directory \<open>pdx-chain-so\<close> of its third part; packages are in \<open>pkg/pdx-chain\<close>.

  \<^bold>\<open>The program.\<close> A chain executes contracts that are loaded as shared objects. A contract (\<open>simpleDemo.go\<close>) is
  given a stub (\<open>so/stub.go\<close>), whose methods send messages to a handler (\<open>so/handler.go\<close>); the handler reads and writes the
  key-value storage of an account in the state database. Transactions run in parallel on one
  \<open>MStateDB\<close> each (\<open>core/state/multi_statedb.go\<close>); these share the accounts and lock them one by one. An
  \<open>MStateDB\<close> contains a \<open>StateDB\<close> (\<open>core/state/statedb.go\<close>), a cache of account objects
  (\<open>state_object.go\<close>) over a trie with a journal of undo entries (\<open>journal.go\<close>). Accounts,
  storage slots, headers (\<open>core/types/block.go\<close>) and messages are serialised by package \<open>rlp\<close>. Packages \<open>common\<close>,
  \<open>common/hexutil\<close> and \<open>common/math\<close> have the hashes, addresses, texts and integers all of these use. Beside them stand a priority queue
  (\<open>common/prque\<close>) and, under \<open>crypto/gmsm\<close>, the block cipher SM4 with its modes, the hash function SM3, the
  conversion of BER to DER that certificates and keys are read through, and \<open>gmtls\<close>, a version of TLS with the national
  cipher suites over SM4 and SM3.

  \<^bold>\<open>The theories.\<close>
  \<^item> \<open>Prelude\<close>: copying and slicing byte lists, big-endian numbers, the collection \<open>be_simps\<close>.
  \<^item> \<open>RlpTypes\<close> (\<open>rlp/typecache.go\<close>), \<open>RlpHead\<close> (headers of \<open>rlp/encode.go\<close>, with the reference format
    \<open>enc_str\<close>, \<open>enc_list\<close>), \<open>RlpRaw\<close> (\<open>rlp/raw.go\<close>), \<open>RlpEncode\<close> (\<open>rlp/encode.go\<close>, with the reference encoder
    \<open>refEncode\<close>), \<open>RlpStream\<close> and \<open>RlpDecode\<close> (\<open>rlp/decode.go\<close>), \<open>RlpCodec\<close> (decoding and
    encoding together), \<open>RlpProps\<close> (the properties).
  \<^item> \<open>Common\<close> (\<open>common/types.go\<close>, \<open>common/bytes.go\<close>).
  \<^item> \<open>StateObject\<close> (\<open>state_object.go\<close> and the entries of \<open>journal.go\<close>), \<open>StateDB\<close> (\<open>statedb.go\<close>, the
    reverts of \<open>journal.go\<close>), \<open>StateView\<close> (what can be observed of a state), \<open>UndoLog\<close> (the locale \<open>undo_log\<close>),
    \<open>StateLaws\<close> (every operation against the view), \<open>StateSnapshot\<close> (the interpretation of
    \<open>undo_log\<close>), \<open>StateSpec\<close> (the abstract specification), \<open>StateDirty\<close> (the dirty
    counters), \<open>StateFinal\<close> (writing back), \<open>StateProps\<close>.
  \<^item> \<open>MultiState\<close> (\<open>multi_statedb.go\<close>), \<open>MultiLocks\<close> (the locks as a transition system), \<open>MultiProps\<close>.
  \<^item> \<open>SoCall\<close> (\<open>so/\<close>, \<open>simpleDemo.go\<close>), \<open>SoLaws\<close> (the locale \<open>kv_store\<close> and its interpretation on
    \<open>MStateDB\<close>), \<open>SoProps\<close>.
  \<^item> \<open>Hexutil\<close> (\<open>common/hexutil\<close> and the text methods of hashes and addresses), \<open>HexLaws\<close>, \<open>HexProps\<close>.
  \<^item> \<open>BigMath\<close> (\<open>common/math\<close>), \<open>MathLaws\<close>, \<open>MathProps\<close>.
  \<^item> \<open>Block\<close> (\<open>core/types/block.go\<close>), \<open>BlockLaws\<close>, \<open>BlockProps\<close>.
  \<^item> \<open>ContainerHeap\<close> (\<open>container/heap\<close> of the Go library and its loops on a list), \<open>HeapLaws\<close> (the order of a
    heap), \<open>HeapInterface\<close> (the locale \<open>heap_interface\<close>), \<open>Prque\<close> (\<open>common/prque\<close>), \<open>PrqueLaws\<close> (the
    interpretation of the locale on the stack of blocks), \<open>PrqueProps\<close>.
  \<^item> \<open>Words32\<close> (words and bytes), \<open>Sm4\<close> (\<open>crypto/gmsm/sm4/sm4.go\<close>), \<open>Sm4Laws\<close>, \<open>Sm4Ref\<close> (the cipher of the standard),
    \<open>Sm4Props\<close>, \<open>Sm4Gcm\<close> (\<open>sm4_gcm.go\<close>), \<open>Sm4GcmLaws\<close>, \<open>Sm4GcmProps\<close>.
  \<^item> \<open>Sm3\<close> (\<open>crypto/gmsm/sm3/sm3.go\<close>), \<open>Sm3Laws\<close> (the hash function of the standard and the state of a hash), \<open>Sm3Props\<close>.
  \<^item> \<open>Ber\<close> (\<open>crypto/gmsm/x509/ber.go\<close>), \<open>BerLaws\<close>, \<open>BerProps\<close>.
  \<^item> \<open>GoBuffer\<close> (byte buffers that are written and read by index, the collection \<open>readers\<close>), then the messages of
    \<open>gmtls/handshake_messages.go\<close> and \<open>gm_handshake_messages.go\<close>: \<open>TlsMessages\<close> and \<open>TlsHello\<close> (marshal and unmarshal),
    \<open>TlsHandshake\<close> (all messages together, \<open>equal\<close>, the cutting of messages by \<open>readHandshake\<close>), \<open>TlsGrammar\<close> and
    \<open>TlsHelloGrammar\<close> (the grammar they are marshalled to), \<open>TlsMessagesLaws\<close>, \<open>TlsHelloLaws\<close>, \<open>TlsHandshakeLaws\<close> (no
    panics), \<open>TlsMessagesRound\<close>, \<open>TlsHelloRound\<close> (round trips), \<open>TlsProps\<close>.
  \<^item> \<open>TlsRecord\<close> (the half connection of \<open>gmtls/conn.go\<close>, the wrappers and MACs of \<open>cipher_suites.go\<close>), \<open>TlsRecordLaws\<close>
    (sequence numbers and padding), \<open>TlsRecordRound\<close> (the locale \<open>record_ciphers\<close>), \<open>TlsRecordStep\<close> (one
    record, encrypted and decrypted), \<open>TlsSuites\<close> (\<open>gm_support.go\<close>, with the CBC mode and HMAC of the Go library; the
    interpretation of the locale on SM4), \<open>TlsPrf\<close> (\<open>prf.go\<close> and \<open>establishKeys\<close> of both sides), \<open>TlsPrfLaws\<close>, \<open>TlsConn\<close> (the
    records, alerts and calls of \<open>conn.go\<close>), \<open>TlsConnWrite\<close> (what is sent),
    \<open>TlsSession\<close> (what is sent is read; the session from the change of the cipher on), \<open>TlsSessionProps\<close>.

  \<^bold>\<open>State and operations.\<close> A struct is a record whose fields carry a prefix (\<open>sd_\<close> for \<open>StateDB\<close>, \<open>so_\<close> for
    \<open>stateObject\<close>, \<open>cn_\<close> for \<open>Conn\<close>, \<open>hc_\<close> for \<open>halfConn\<close>, \<open>st_\<close> for \<open>Stream\<close>, \<open>eb_\<close> for \<open>encbuf\<close>, \<open>md_\<close> and \<open>mc_\<close> for
    \<open>MStateDB\<close> and \<open>MContext\<close>). A method takes its receiver as last argument and returns it with the result. Where the
  bare name of a method is taken, it has the same prefix. Errors are the left summand of a sum or an optional component, and
  panics are values of their own types. Go maps are association lists; the order in which a range loop
  visits a map is a parameter. \<open>StateDB\<close> keeps its account objects in the map itself: a pointer
  to an object is used only by the operation that fetched it. \<open>MStateDB\<close> keeps pointers
  into a store, because several databases hold the same object there.

  \<^bold>\<open>Parameters.\<close> The tries, the code database, the hash function and the iteration order are the record
  \<open>env\<close>; \<open>env_ok\<close> and \<open>env_laws\<close> name what the code relies on (lookup after update and delete, the
  length of hashes, permutation by iteration), and \<open>alistEnv\<close> is a concrete instance that satisfies
  them. The block chain behind the history query is the record \<open>PublicBlockChain\<close>. The hash function of
  headers is an argument. An \<open>io.Writer\<close> is a function with the documented contract \<open>io_writer\<close>. A TLS connection has the
  parameter \<open>world\<close> (the ciphers of the Go library as the record \<open>ciphers\<close>, the \<open>Write\<close> of the network, the random bytes and the
  handshake); \<open>writes_all\<close> says that the network takes what it is given, and what the calls of its \<open>Read\<close> will return is
  part of the state. The older hash functions of the Go library are the record \<open>hashes\<close>.

  \<^bold>\<open>What is shown.\<close>
  \<^item> \<open>rlp\<close>: what is decoded is the canonical encoding of the result, what is encoded is decoded back, the
    buffered encoder with its separate list headers equals the reference encoder on all three
    ways out, raw values are split exactly, positions of a stream stay within their lists, decoding ends. Canonicity, round
    trip and termination are for the types of \<open>codec_type\<close>, which leave out arrays \<open>[1]byte\<close>, where they fail,
    interfaces with methods and types with their own \<open>EncodeRLP\<close>.
  \<^item> State: every operation on accounts, the refund and preimages (the type \<open>state_op\<close>) implements the abstract
    specification; reverting to a snapshot restores every observable, through
    nested snapshots; what is finalised is read back, the storage root included; the panics of these operations are
    characterised, and those of \<open>Finalise\<close> have concrete examples.
  \<^item> Locks: mutual exclusion and absence of run-time failures in every interleaving; no cycle of two
    transactions, but a reachable cycle of three that waits forever; two ways in which the shared cache
    goes stale.
  \<^item> Calls: what a contract stores it reads back from the database; which messages are refused; what the history loop
    collects; which requests can never succeed.
  \<^item> Texts, integers and headers: round trips of all hexadecimal texts, exactness of their parsers, exactness of checked and
    256-bit arithmetic, and that the hashes of a header without negative numbers cover the fields they should, a nil number counting as 0.
  \<^item> Priority queue: the stack of blocks is a list, the heap functions keep it in order, so the item popped is a maximum
    under comparison with wrap-around, and the callback always knows where an item is.
  \<^item> Cryptography: the cipher with its tables and the hash with its streaming interface equal the functions of the
    standards; every mode decrypts what it encrypts, except that the counter mode with authentication fails on lengths that are no
    whole number of blocks and reuses its key stream for different vectors; \<open>ber2der\<close> ends and its output is
    canonical below 2 GiB.
  \<^item> TLS: every handshake message that can be sent (\<open>sendable\<close>) is read back from what it is marshalled to, and no parser panics on any input; the
    padding check with masks is the direct one; only records with their MAC are accepted; the finished messages are those of the
    standard; and a session of a national suite carries the data of both sides unchanged from the call of \<open>Write\<close> to the
    calls of \<open>Read\<close>, through keys, records, padding and any division of the stream by the network.

  \<^bold>\<open>Bounds and fuel.\<close> Lengths are natural numbers, and theorems that encode assume an encoding of less than \<open>2^64\<close>
  bytes, the range of the length fields. Decoders of lists run on fuel, and \<open>DecodeBytes\<close> gives one
  unit for each byte of the input and one more, which is proved to be enough.
  \<open>_checkDeadLock\<close> is called with fuel 2, which is proved to be enough for its loop. \<open>readObject\<close> gets two
  units for each byte and two more, which is proved to be enough: they bound how deep its calls are nested, not how many
  there are, which can double with every four bytes (\<open>ber2der_rereads\<close>). The loops of a connection that may not end
  (\<open>writeRecord_loop\<close>, \<open>readHandshake\<close>, \<open>read_input\<close>, \<open>pHash_loop\<close>) are partial functions, and the theorems about them
  show that they return. All other loops are structural or have a measure; that of \<open>readRecord\<close> counts the warning alerts.

  \<^bold>\<open>Not modelled.\<close> The cache of type information and the buffer pool of \<open>rlp\<close>, which only save work;
  printing and logging (\<open>log\<close>, \<open>common/size.go\<close>, \<open>Format\<close> methods); interfaces (\<open>database.go\<close>, \<open>core/public\<close>), which are
  parameters here; \<open>BlockBy.Sort\<close>, which hands a closure to the library; the memory sharing between headers of
  blocks; of \<open>gmtls\<close> the course of the handshakes, the key agreement, sessions and their tickets, the other suites, locks and
  deadlines; elliptic curves, certificates (\<open>sm2\<close>, \<open>x509\<close>, \<open>pkcs12\<close>) and the vendored libraries under \<open>crypto\<close>, which are
  randomness, the ASN.1 library, or field arithmetic in assembler and C; the small example programs in the other
  parts of the repository, which only do input and output.
\<close>

end
